(* ===== verification/Prelude.thy ===== *)
theory Prelude
  imports Main "HOL-Library.Word" "HOL-Library.List_Lexorder" "HOL-Library.Char_ord"
begin

text \<open>
  What the components share: the machine types of the Rust sources, the outcome of a call,
  checked and saturating arithmetic, IEEE classification of float bit patterns, ASCII and UTF-8
  tests on strings, slices and the options of the standard library.
\<close>

section \<open>Collections of facts\<close>

named_theorems outcome_split \<open>case splits over outcomes, options and conditionals\<close>
named_theorems arith_prims \<open>definitions of the checked and saturating primitives\<close>

section \<open>Machine types\<close>

text \<open>
  The fixed-width integers are words; \<open>usize\<close> is the 64-bit one of the targets the
  workspace builds for.  Floats are only moved, compared with zero and classified by the code
  modelled here, so they are kept as their IEEE 754 bit patterns.
\<close>

type_synonym u8 = "8 word"
type_synonym u16 = "16 word"
type_synonym u32 = "32 word"
type_synonym u64 = "64 word"
type_synonym usize = "64 word"
type_synonym f32 = "32 word"
type_synonym f64 = "64 word"

section \<open>Outcomes of calls\<close>

text \<open>
  A call returns a value, returns an error, or panics (an index out of bounds, an \<open>expect\<close>
  on \<open>None\<close>, an unreachable branch).  Panics are a constructor of their own, so that
  their absence is a theorem.
\<close>

datatype ('a, 'e) outcome = Ok 'a | Err 'e | Panic

declare outcome.splits [outcome_split] option.splits [outcome_split] if_splits [outcome_split]

fun map_err :: "('e \<Rightarrow> 'f) \<Rightarrow> ('a, 'e) outcome \<Rightarrow> ('a, 'f) outcome" where
  "map_err f (Ok x) = Ok x"
| "map_err f (Err e) = Err (f e)"
| "map_err f Panic = Panic"

fun is_ok :: "('a, 'e) outcome \<Rightarrow> bool" where
  "is_ok (Ok x) = True"
| "is_ok (Err e) = False"
| "is_ok Panic = False"

lemma is_ok_iff: "is_ok r \<longleftrightarrow> (\<exists>x. r = Ok x)"
  by (cases r) auto

lemma map_err_eq_Ok [simp]: "map_err f r = Ok x \<longleftrightarrow> r = Ok x"
  by (cases r) auto

lemma map_err_eq_Panic [simp]: "map_err f r = Panic \<longleftrightarrow> r = Panic"
  by (cases r) auto

lemma map_err_eq_Err [simp]: "map_err f r = Err e \<longleftrightarrow> (\<exists>e'. r = Err e' \<and> e = f e')"
  by (cases r) auto

text \<open>Early returns, and the \<open>?\<close> operator on a unit result.\<close>

lemma guard_Ok_iff: "(if c then Err e else r) = Ok x \<longleftrightarrow> \<not> c \<and> r = Ok x"
  by simp

lemma try_Ok_iff:
  "(case r of Err e \<Rightarrow> Err (f e) | Panic \<Rightarrow> Panic | Ok (u::unit) \<Rightarrow> k) = Ok x \<longleftrightarrow> r = Ok () \<and> k = Ok x"
  by (cases r) auto

section \<open>Checked and saturating arithmetic\<close>

definition checked_add :: "'w::len word \<Rightarrow> 'w word \<Rightarrow> 'w word option" where
  "checked_add a b = (if unat a + unat b < 2 ^ LENGTH('w) then Some (a + b) else None)"

definition checked_sub :: "'w::len word \<Rightarrow> 'w word \<Rightarrow> 'w word option" where
  "checked_sub a b = (if b \<le> a then Some (a - b) else None)"

definition checked_mul :: "'w::len word \<Rightarrow> 'w word \<Rightarrow> 'w word option" where
  "checked_mul a b = (if unat a * unat b < 2 ^ LENGTH('w) then Some (a * b) else None)"

definition saturating_add :: "'w::len word \<Rightarrow> 'w word \<Rightarrow> 'w word" where
  "saturating_add a b = (if unat a + unat b < 2 ^ LENGTH('w) then a + b else - 1)"

definition saturating_mul :: "'w::len word \<Rightarrow> 'w word \<Rightarrow> 'w word" where
  "saturating_mul a b = (if unat a * unat b < 2 ^ LENGTH('w) then a * b else - 1)"

definition saturating_sub :: "'w::len word \<Rightarrow> 'w word \<Rightarrow> 'w word" where
  "saturating_sub a b = (if b \<le> a then a - b else 0)"

lemma unat_saturating_sub: "unat (saturating_sub a b) = unat a - unat b"
  by (auto simp: saturating_sub_def unat_sub word_le_nat_alt)

lemma checked_sub_Some:
  "checked_sub a b = Some c \<longleftrightarrow> unat a = unat b + unat c"
proof
  assume "checked_sub a b = Some c"
  then show "unat a = unat b + unat c"
    by (auto simp: checked_sub_def unat_sub word_le_nat_alt split: if_splits)
next
  assume c: "unat a = unat b + unat c"
  then have "b \<le> a" by (simp add: word_le_nat_alt)
  moreover from this c have "unat (a - b) = unat c" by (simp add: unat_sub)
  ultimately show "checked_sub a b = Some c"
    by (simp add: checked_sub_def word_unat_eq_iff)
qed

lemma checked_sub_None: "checked_sub a b = None \<longleftrightarrow> unat a < unat b"
  by (auto simp: checked_sub_def word_le_nat_alt)

lemma unat_add_no_overflow:
  "unat (a::'w::len word) + unat b < 2 ^ LENGTH('w) \<Longrightarrow> unat (a + b) = unat a + unat b"
  by (simp add: unat_word_ariths)

lemma unat_mul_no_overflow:
  "unat (a::'w::len word) * unat b < 2 ^ LENGTH('w) \<Longrightarrow> unat (a * b) = unat a * unat b"
  by (simp add: unat_word_ariths)

lemma checked_add_Some:
  "checked_add a b = Some c \<longleftrightarrow> c = a + b \<and> unat c = unat a + unat b"
proof
  assume "checked_add a b = Some c"
  then show "c = a + b \<and> unat c = unat a + unat b"
    by (auto simp: checked_add_def unat_add_no_overflow split: if_splits)
next
  assume c: "c = a + b \<and> unat c = unat a + unat b"
  have "unat a + unat b = unat c" by (rule conjunct2 [OF c, symmetric])
  also have "\<dots> < 2 ^ LENGTH('a)" by (rule unsigned_less)
  finally show "checked_add a b = Some c" using c by (simp add: checked_add_def)
qed

lemma checked_add_le: "checked_add a b = Some c \<Longrightarrow> unat a \<le> unat c"
  using checked_add_Some [of a b c] by linarith

lemma checked_add_None:
  "checked_add (a::'w::len word) b = None \<longleftrightarrow> 2 ^ LENGTH('w) \<le> unat a + unat b"
  by (auto simp: checked_add_def)

lemma checked_mul_Some:
  "checked_mul a b = Some c \<longleftrightarrow> c = a * b \<and> unat c = unat a * unat b"
proof
  assume "checked_mul a b = Some c"
  then show "c = a * b \<and> unat c = unat a * unat b"
    by (auto simp: checked_mul_def unat_mul_no_overflow split: if_splits)
next
  assume c: "c = a * b \<and> unat c = unat a * unat b"
  have "unat a * unat b = unat c" by (rule conjunct2 [OF c, symmetric])
  also have "\<dots> < 2 ^ LENGTH('a)" by (rule unsigned_less)
  finally show "checked_mul a b = Some c" using c by (simp add: checked_mul_def)
qed

lemma checked_mul_None:
  "checked_mul (a::'w::len word) b = None \<longleftrightarrow> 2 ^ LENGTH('w) \<le> unat a * unat b"
  by (auto simp: checked_mul_def)

lemma unat_max_word [simp]: "unat (- 1 :: 'w::len word) = 2 ^ LENGTH('w) - 1"
  by (simp add: unsigned_minus_1_eq_mask mask_eq_exp_minus_1)

section \<open>Bytes\<close>

text \<open>The big-endian bytes of a number, and the number a byte sequence denotes.\<close>

fun be_bytes :: "nat \<Rightarrow> nat \<Rightarrow> u8 list" where
  "be_bytes 0 v = []"
| "be_bytes (Suc n) v = be_bytes n (v div 256) @ [of_nat v]"

lemma length_be_bytes [simp]: "length (be_bytes n v) = n"
  by (induction n arbitrary: v) simp_all

lemma foldl_be_bytes: "foldl (\<lambda>n b. n * 256 + unat b) 0 (be_bytes n v) = v mod 256 ^ n"
proof (induction n arbitrary: v)
  case 0
  then show ?case by simp
next
  case (Suc n)
  then show ?case by (simp add: unat_of_nat mod_mult2_eq)
qed

section \<open>Float bit patterns\<close>

definition f32_is_finite :: "f32 \<Rightarrow> bool" where
  "f32_is_finite x \<longleftrightarrow> take_bit 8 (drop_bit 23 x) \<noteq> 255"

definition f64_is_finite :: "f64 \<Rightarrow> bool" where
  "f64_is_finite x \<longleftrightarrow> take_bit 11 (drop_bit 52 x) \<noteq> 2047"

text \<open>\<open>x < 0.0\<close> for a finite \<open>x\<close>: the sign bit is set and \<open>x\<close> is not minus zero.\<close>

definition f64_finite_neg :: "f64 \<Rightarrow> bool" where
  "f64_finite_neg x \<longleftrightarrow> bit x 63 \<and> x \<noteq> push_bit 63 1"

section \<open>Strings\<close>

text \<open>
  A Rust \<open>String\<close> is its sequence of UTF-8 bytes.  \<open>trim_is_empty\<close> is
  \<open>s.trim().is_empty()\<close>: every character of \<open>s\<close> is Unicode white space, whose
  encodings are listed.
\<close>

definition byte :: "char \<Rightarrow> nat" where
  "byte c = of_char c"

definition is_ascii_lowercase :: "char \<Rightarrow> bool" where
  "is_ascii_lowercase c \<longleftrightarrow> 97 \<le> byte c \<and> byte c \<le> 122"

definition is_ascii_uppercase :: "char \<Rightarrow> bool" where
  "is_ascii_uppercase c \<longleftrightarrow> 65 \<le> byte c \<and> byte c \<le> 90"

definition is_ascii_digit :: "char \<Rightarrow> bool" where
  "is_ascii_digit c \<longleftrightarrow> 48 \<le> byte c \<and> byte c \<le> 57"

definition is_ascii_alphanumeric :: "char \<Rightarrow> bool" where
  "is_ascii_alphanumeric c \<longleftrightarrow>
     is_ascii_lowercase c \<or> is_ascii_uppercase c \<or> is_ascii_digit c"

definition ws1 :: "char \<Rightarrow> bool" where
  "ws1 a \<longleftrightarrow> (9 \<le> byte a \<and> byte a \<le> 13) \<or> byte a = 32"

definition ws2 :: "char \<Rightarrow> char \<Rightarrow> bool" where
  "ws2 a b \<longleftrightarrow> byte a = 194 \<and> (byte b = 133 \<or> byte b = 160)"

definition ws3 :: "char \<Rightarrow> char \<Rightarrow> char \<Rightarrow> bool" where
  "ws3 a b c \<longleftrightarrow>
     (byte a = 225 \<and> byte b = 154 \<and> byte c = 128)
   \<or> (byte a = 226 \<and> byte b = 128 \<and>
        ((128 \<le> byte c \<and> byte c \<le> 138) \<or> byte c = 168 \<or> byte c = 169 \<or> byte c = 175))
   \<or> (byte a = 226 \<and> byte b = 129 \<and> byte c = 159)
   \<or> (byte a = 227 \<and> byte b = 128 \<and> byte c = 128)"

fun trim_is_empty :: "string \<Rightarrow> bool" where
  "trim_is_empty [] = True"
| "trim_is_empty (a # s) =
     (if ws1 a then trim_is_empty s
      else case s of
        [] \<Rightarrow> False
      | b # s' \<Rightarrow>
          if ws2 a b then trim_is_empty s'
          else (case s' of [] \<Rightarrow> False | c # s'' \<Rightarrow> ws3 a b c \<and> trim_is_empty s''))"

text \<open>\<open>s.split(sep)\<close> on a one-byte separator: always at least one part.\<close>

fun split_on :: "char \<Rightarrow> string \<Rightarrow> string list" where
  "split_on d [] = [[]]"
| "split_on d (c # s) =
     (if c = d then [] # split_on d s
      else case split_on d s of [] \<Rightarrow> [[c]] | p # ps \<Rightarrow> (c # p) # ps)"

lemma split_on_not_Nil [simp]: "split_on d s \<noteq> []"
  by (induction s) (auto split: list.splits)

lemma split_on_parts: "p \<in> set (split_on d s) \<Longrightarrow> d \<notin> set p"
proof (induction s arbitrary: p)
  case Nil
  then show ?case by simp
next
  case (Cons c s)
  then show ?case by (cases "split_on d s") (auto split: if_splits)
qed

definition starts_with :: "string \<Rightarrow> string \<Rightarrow> bool" where
  "starts_with p s \<longleftrightarrow> take (length p) s = p"

section \<open>Slices\<close>

text \<open>\<open>xs.get(i)\<close>; a plain \<open>xs[i]\<close> panics where this is \<open>None\<close>.\<close>

definition get_at :: "'a list \<Rightarrow> nat \<Rightarrow> 'a option" where
  "get_at xs i = (if i < length xs then Some (xs ! i) else None)"

lemma get_at_Some [simp]: "get_at xs i = Some x \<longleftrightarrow> i < length xs \<and> xs ! i = x"
  by (auto simp: get_at_def)

lemma get_at_None [simp]: "get_at xs i = None \<longleftrightarrow> length xs \<le> i"
  by (auto simp: get_at_def)

text \<open>\<open>iter().position(p)\<close>: the index of the first element that satisfies \<open>p\<close>.\<close>

fun position :: "('a \<Rightarrow> bool) \<Rightarrow> 'a list \<Rightarrow> nat option" where
  "position p [] = None"
| "position p (x # xs) = (if p x then Some 0 else map_option Suc (position p xs))"

lemma position_Some:
  "position p xs = Some i \<Longrightarrow> i < length xs \<and> p (xs ! i) \<and> (\<forall>j<i. \<not> p (xs ! j))"
proof (induction xs arbitrary: i)
  case Nil
  then show ?case by simp
next
  case (Cons x xs)
  then show ?case by (force split: if_splits simp: nth_Cons split: nat.splits)
qed

lemma position_None: "position p xs = None \<longleftrightarrow> (\<forall>x\<in>set xs. \<not> p x)"
  by (induction xs) auto

text \<open>\<open>Option::is_some_and\<close>.\<close>

fun is_some_and :: "('a \<Rightarrow> bool) \<Rightarrow> 'a option \<Rightarrow> bool" where
  "is_some_and p None = False"
| "is_some_and p (Some x) = p x"

lemma is_some_and_iff: "is_some_and p x \<longleftrightarrow> (\<exists>y. x = Some y \<and> p y)"
  by (cases x) auto

text \<open>
  A call on a state \<open>s\<close> is atomic when it does not panic and an error leaves \<open>s\<close> as it
  was.
\<close>

definition atomic_call :: "'s \<Rightarrow> ('a, 'e) outcome \<times> 's \<Rightarrow> bool" where
  "atomic_call s r = (case fst r of Ok _ \<Rightarrow> True | Err _ \<Rightarrow> snd r = s | Panic \<Rightarrow> False)"

lemma atomic_call_simps [simp]:
  "atomic_call s (Ok x, s')"
  "atomic_call s (Err e, s') \<longleftrightarrow> s' = s"
  "\<not> atomic_call s (Panic, s')"
  "atomic_call s (apfst Ok p)"
  by (simp_all add: atomic_call_def)

end
