(* ===== verification/Core_Roles.thy ===== *)
theory Core_Roles
  imports Prelude
begin

text \<open>
  \<open>aurora-core\<close>, \<open>src/crates/aurora-core/src/lib.rs\<close>: channel roles with their
  fixture strings and speaker-mask bits, the canonical order of the standard layouts, and PCM
  blocks with their shape check.
\<close>

section \<open>Channel roles\<close>

datatype channel_role =
    FrontLeft | FrontRight | FrontCenter | LowFrequencyEffects
  | SurroundLeft | SurroundRight | SurroundBackLeft | SurroundBackRight
  | TopFrontLeft | TopFrontRight | TopRearLeft | TopRearRight
  | Custom string

fun role_as_str :: "channel_role \<Rightarrow> string" where
  "role_as_str FrontLeft = ''front-left''"
| "role_as_str FrontRight = ''front-right''"
| "role_as_str FrontCenter = ''front-center''"
| "role_as_str LowFrequencyEffects = ''low-frequency-effects''"
| "role_as_str SurroundLeft = ''surround-left''"
| "role_as_str SurroundRight = ''surround-right''"
| "role_as_str SurroundBackLeft = ''surround-back-left''"
| "role_as_str SurroundBackRight = ''surround-back-right''"
| "role_as_str TopFrontLeft = ''top-front-left''"
| "role_as_str TopFrontRight = ''top-front-right''"
| "role_as_str TopRearLeft = ''top-rear-left''"
| "role_as_str TopRearRight = ''top-rear-right''"
| "role_as_str (Custom value) = value"

fun wav_channel_mask_bit :: "channel_role \<Rightarrow> u32 option" where
  "wav_channel_mask_bit FrontLeft = Some 0x1"
| "wav_channel_mask_bit FrontRight = Some 0x2"
| "wav_channel_mask_bit FrontCenter = Some 0x4"
| "wav_channel_mask_bit LowFrequencyEffects = Some 0x8"
| "wav_channel_mask_bit SurroundBackLeft = Some 0x10"
| "wav_channel_mask_bit SurroundBackRight = Some 0x20"
| "wav_channel_mask_bit SurroundLeft = Some 0x200"
| "wav_channel_mask_bit SurroundRight = Some 0x400"
| "wav_channel_mask_bit TopFrontLeft = Some 0x1000"
| "wav_channel_mask_bit TopFrontRight = Some 0x4000"
| "wav_channel_mask_bit TopRearLeft = Some 0x8000"
| "wav_channel_mask_bit TopRearRight = Some 0x20000"
| "wav_channel_mask_bit (Custom _) = None"

text \<open>\<open>Deserialize for ChannelRole\<close>, from the already decoded string.\<close>

definition role_deserialize :: "string \<Rightarrow> (channel_role, string) outcome" where
  "role_deserialize value =
    (if value \<in> {''front-left'', ''FL''} then Ok FrontLeft
     else if value \<in> {''front-right'', ''FR''} then Ok FrontRight
     else if value \<in> {''front-center'', ''FC''} then Ok FrontCenter
     else if value \<in> {''low-frequency-effects'', ''lfe'', ''LFE''} then Ok LowFrequencyEffects
     else if value \<in> {''surround-left'', ''SL''} then Ok SurroundLeft
     else if value \<in> {''surround-right'', ''SR''} then Ok SurroundRight
     else if value \<in> {''surround-back-left'', ''SBL''} then Ok SurroundBackLeft
     else if value \<in> {''surround-back-right'', ''SBR''} then Ok SurroundBackRight
     else if value \<in> {''top-front-left'', ''TFL''} then Ok TopFrontLeft
     else if value \<in> {''top-front-right'', ''TFR''} then Ok TopFrontRight
     else if value \<in> {''top-rear-left'', ''top-back-left'', ''TRL'', ''TBL''} then Ok TopRearLeft
     else if value \<in> {''top-rear-right'', ''top-back-right'', ''TRR'', ''TBR''} then Ok TopRearRight
     else if value = '''' then Err ''channel role must not be empty''
     else Ok (Custom value))"

section \<open>Standard layouts\<close>

datatype standard_layout =
  StereoLayout | FiveOne | SevenOne | FiveOneTwo | SevenOneFour | CustomLayout

fun canonical_roles :: "standard_layout \<Rightarrow> channel_role list" where
  "canonical_roles StereoLayout = [FrontLeft, FrontRight]"
| "canonical_roles FiveOne =
     [FrontLeft, FrontRight, FrontCenter, LowFrequencyEffects, SurroundLeft, SurroundRight]"
| "canonical_roles SevenOne =
     [FrontLeft, FrontRight, FrontCenter, LowFrequencyEffects, SurroundLeft, SurroundRight,
      SurroundBackLeft, SurroundBackRight]"
| "canonical_roles FiveOneTwo =
     [FrontLeft, FrontRight, FrontCenter, LowFrequencyEffects, SurroundLeft, SurroundRight,
      TopFrontLeft, TopFrontRight]"
| "canonical_roles SevenOneFour =
     [FrontLeft, FrontRight, FrontCenter, LowFrequencyEffects, SurroundLeft, SurroundRight,
      SurroundBackLeft, SurroundBackRight, TopFrontLeft, TopFrontRight, TopRearLeft,
      TopRearRight]"
| "canonical_roles CustomLayout = []"

fun is_standard :: "standard_layout \<Rightarrow> bool" where
  "is_standard CustomLayout = False"
| "is_standard _ = True"

section \<open>PCM blocks\<close>

record audio_block =
  ab_channels :: "f32 list list"
  ab_frame_count :: usize
  ab_presentation_time_seconds :: f64
  ab_discontinuity :: bool

datatype core_error = InvalidAudioBlock (bad_channel: nat) (actual: nat) (expected: usize)

fun audio_block_scan :: "nat \<Rightarrow> f32 list list \<Rightarrow> usize \<Rightarrow> (unit, core_error) outcome" where
  "audio_block_scan channel [] frames = Ok ()"
| "audio_block_scan channel (samples # rest) frames =
     (if length samples \<noteq> unat frames
      then Err (InvalidAudioBlock channel (length samples) frames)
      else audio_block_scan (Suc channel) rest frames)"

definition audio_block_validate :: "audio_block \<Rightarrow> (unit, core_error) outcome" where
  "audio_block_validate b = audio_block_scan 0 (ab_channels b) (ab_frame_count b)"

section \<open>Properties\<close>

lemma audio_block_scan_Ok:
  "audio_block_scan c chs n = Ok () \<longleftrightarrow> (\<forall>ch\<in>set chs. length ch = unat n)"
  by (induction c chs n rule: audio_block_scan.induct) auto

lemma audio_block_validate_Ok:
  "audio_block_validate b = Ok () \<longleftrightarrow>
     (\<forall>ch\<in>set (ab_channels b). length ch = unat (ab_frame_count b))"
  by (simp add: audio_block_validate_def audio_block_scan_Ok)

lemma canonical_distinct: "distinct (canonical_roles l)"
  by (cases l) simp_all

lemma canonical_714_length [simp]: "length (canonical_roles SevenOneFour) = 12"
  by simp

lemma canonical_714_iff: "r \<in> set (canonical_roles SevenOneFour) \<longleftrightarrow> (\<forall>v. r \<noteq> Custom v)"
  by (cases r) simp_all

lemma canonical_subset_714:
  "set (canonical_roles l) \<subseteq> set (canonical_roles SevenOneFour)"
  by (cases l) simp_all

lemma role_deserialize_as_str:
  "r \<in> set (canonical_roles SevenOneFour) \<Longrightarrow> role_deserialize (role_as_str r) = Ok r"
  by (cases r) (simp_all add: role_deserialize_def)

end
