(* ===== verification/Ieee_Float.thy ===== *)
theory Ieee_Float
  imports Complex_Main Prelude
begin

text \<open>
  IEEE 754 binary arithmetic on bit patterns, as Rust's \<open>f32\<close> and \<open>f64\<close> have it: decoding, exact
  results of the operations, rounding to nearest with ties to even, comparison and conversion.
  A format is given by its \<open>p\<close> fraction bits and \<open>w\<close> exponent bits.  The payload of a NaN, which
  the language leaves open, is the quiet one.  The rounding is proved to give a nearest value
  of the format.
\<close>

section \<open>Decoding\<close>

datatype float_value = NotANumber | Infinite bool | Finite bool nat int

definition exponent_floor :: "nat \<Rightarrow> nat \<Rightarrow> int" where
  "exponent_floor p w = 2 - 2 ^ (w - 1) - int p"

definition infinity_bits :: "nat \<Rightarrow> nat \<Rightarrow> nat" where
  "infinity_bits p w = (2 ^ w - 1) * 2 ^ p"

definition decode_magnitude :: "nat \<Rightarrow> nat \<Rightarrow> bool \<Rightarrow> nat \<Rightarrow> float_value" where
  "decode_magnitude p w sign n =
     (let e = n div 2 ^ p; f = n mod 2 ^ p in
      if infinity_bits p w \<le> n then (if n = infinity_bits p w then Infinite sign else NotANumber)
      else Finite sign (if e = 0 then f else f + 2 ^ p) (exponent_floor p w + int (e - 1)))"

definition decode_float :: "nat \<Rightarrow> nat \<Rightarrow> nat \<Rightarrow> float_value" where
  "decode_float p w n = decode_magnitude p w (2 ^ (p + w) \<le> n) (n mod 2 ^ (p + w))"

section \<open>Rounding\<close>

fun nat_len :: "nat \<Rightarrow> nat" where
  "nat_len n = (if n = 0 then 0 else Suc (nat_len (n div 2)))"

declare nat_len.simps [simp del]

text \<open>The floor of the binary logarithm of \<open>a / b\<close>.\<close>

definition ratio_log :: "nat \<Rightarrow> nat \<Rightarrow> int" where
  "ratio_log a b =
     (let k = int (nat_len a) - int (nat_len b) in
      if b * 2 ^ nat k \<le> a * 2 ^ nat (- k) then k else k - 1)"

definition round_half_even :: "nat \<Rightarrow> nat \<Rightarrow> nat" where
  "round_half_even a b =
     (let q = a div b; r = a mod b in
      if b < 2 * r \<or> (b = 2 * r \<and> odd q) then q + 1 else q)"

definition round_exponent :: "nat \<Rightarrow> nat \<Rightarrow> nat \<Rightarrow> nat \<Rightarrow> int" where
  "round_exponent p w a b = max (exponent_floor p w) (ratio_log a b - int p)"

definition round_magnitude :: "nat \<Rightarrow> nat \<Rightarrow> nat \<Rightarrow> nat \<Rightarrow> nat" where
  "round_magnitude p w a b =
     (if a = 0 then 0
      else
        let e = round_exponent p w a b;
            m = round_half_even (a * 2 ^ nat (- e)) (b * 2 ^ nat e) in
        min (nat (e - exponent_floor p w) * 2 ^ p + m) (infinity_bits p w))"

section \<open>Exact results\<close>

text \<open>What an operation would give with unbounded range and precision; \<open>ExRat s a b\<close> is \<open>a / b\<close>.\<close>

datatype exact_value = ExNaN | ExInf bool | ExRat bool nat nat

definition signed_bits :: "nat \<Rightarrow> nat \<Rightarrow> bool \<Rightarrow> nat \<Rightarrow> nat" where
  "signed_bits p w s n = (if s then 2 ^ (p + w) + n else n)"

fun round_exact :: "nat \<Rightarrow> nat \<Rightarrow> exact_value \<Rightarrow> nat" where
  "round_exact p w ExNaN = infinity_bits p w + 2 ^ (p - 1)"
| "round_exact p w (ExInf s) = signed_bits p w s (infinity_bits p w)"
| "round_exact p w (ExRat s a b) = signed_bits p w s (round_magnitude p w a b)"

text \<open>The exact sum of two results; a zero sum is negative only when both are.\<close>

definition signed_int :: "bool \<Rightarrow> nat \<Rightarrow> int" where
  "signed_int s n = (if s then - int n else int n)"

fun exact_sum :: "exact_value \<Rightarrow> exact_value \<Rightarrow> exact_value" where
  "exact_sum (ExRat s a b) (ExRat s' a' b') =
     (let x = signed_int s (a * b') + signed_int s' (a' * b) in
      if x = 0 then ExRat (s \<and> s') 0 1 else ExRat (x < 0) (nat \<bar>x\<bar>) (b * b'))"
| "exact_sum (ExInf s) (ExInf s') = (if s = s' then ExInf s else ExNaN)"
| "exact_sum (ExInf s) (ExRat s' a' b') = ExInf s"
| "exact_sum (ExRat s a b) (ExInf s') = ExInf s'"
| "exact_sum ExNaN y = ExNaN"
| "exact_sum x ExNaN = ExNaN"

fun exact_of :: "float_value \<Rightarrow> exact_value" where
  "exact_of NotANumber = ExNaN"
| "exact_of (Infinite s) = ExInf s"
| "exact_of (Finite s m e) = ExRat s (m * 2 ^ nat e) (2 ^ nat (- e))"

fun exact_mul :: "float_value \<Rightarrow> float_value \<Rightarrow> exact_value" where
  "exact_mul (Finite s m e) (Finite s' m' e') =
     ExRat (s \<noteq> s') (m * m' * 2 ^ nat (e + e')) (2 ^ nat (- (e + e')))"
| "exact_mul (Infinite s) (Infinite s') = ExInf (s \<noteq> s')"
| "exact_mul (Infinite s) (Finite s' m' e') = (if m' = 0 then ExNaN else ExInf (s \<noteq> s'))"
| "exact_mul (Finite s m e) (Infinite s') = (if m = 0 then ExNaN else ExInf (s \<noteq> s'))"
| "exact_mul NotANumber y = ExNaN"
| "exact_mul x NotANumber = ExNaN"

fun exact_div :: "float_value \<Rightarrow> float_value \<Rightarrow> exact_value" where
  "exact_div (Finite s m e) (Finite s' m' e') =
     (if m' = 0 then if m = 0 then ExNaN else ExInf (s \<noteq> s')
      else ExRat (s \<noteq> s') (m * 2 ^ nat (e - e')) (m' * 2 ^ nat (e' - e)))"
| "exact_div (Infinite s) (Infinite s') = ExNaN"
| "exact_div (Infinite s) (Finite s' m' e') = ExInf (s \<noteq> s')"
| "exact_div (Finite s m e) (Infinite s') = ExRat (s \<noteq> s') 0 1"
| "exact_div NotANumber y = ExNaN"
| "exact_div x NotANumber = ExNaN"

fun negate_value :: "float_value \<Rightarrow> float_value" where
  "negate_value NotANumber = NotANumber"
| "negate_value (Infinite s) = Infinite (\<not> s)"
| "negate_value (Finite s m e) = Finite (\<not> s) m e"

text \<open>
  The square root of \<open>m * 2 ^ e\<close>, cut after at least \<open>p + 2\<close> bits; a lower bit records that
  something was cut, which is all that rounding needs to know.
\<close>

fun nat_sqrt :: "nat \<Rightarrow> nat" where
  "nat_sqrt n =
     (if n = 0 then 0
      else let r = 2 * nat_sqrt (n div 4) in if (r + 1) * (r + 1) \<le> n then r + 1 else r)"

declare nat_sqrt.simps [simp del]

fun exact_sqrt :: "nat \<Rightarrow> float_value \<Rightarrow> exact_value" where
  "exact_sqrt p (Finite s m e) =
     (if m = 0 then ExRat s 0 1 else if s then ExNaN
      else
        let n = m * 2 ^ (2 * (p + 2) + nat (e mod 2));
            r = nat_sqrt n;
            t = 2 * r + (if r * r = n then 0 else 1);
            h = e div 2 - int (p + 2) - 1 in
        ExRat False (t * 2 ^ nat h) (2 ^ nat (- h)))"
| "exact_sqrt p (Infinite s) = (if s then ExNaN else ExInf False)"
| "exact_sqrt p NotANumber = ExNaN"

text \<open>Comparison: unordered with a NaN, and the two zeros are equal.\<close>

fun exact_le :: "exact_value \<Rightarrow> exact_value \<Rightarrow> bool" where
  "exact_le (ExRat s a b) (ExRat s' a' b') = (signed_int s (a * b') \<le> signed_int s' (a' * b))"
| "exact_le (ExInf s) (ExInf s') = (s \<or> \<not> s')"
| "exact_le (ExInf s) (ExRat s' a' b') = s"
| "exact_le (ExRat s a b) (ExInf s') = (\<not> s')"
| "exact_le ExNaN y = False"
| "exact_le x ExNaN = False"

section \<open>The two formats\<close>

definition f32_value :: "f32 \<Rightarrow> float_value" where
  "f32_value x = decode_float 23 8 (unat x)"

definition f32_of :: "exact_value \<Rightarrow> f32" where
  "f32_of x = of_nat (round_exact 23 8 x)"

definition f32_exact :: "f32 \<Rightarrow> exact_value" where
  "f32_exact x = exact_of (f32_value x)"

definition f32_neg :: "f32 \<Rightarrow> f32" where
  "f32_neg x = xor x 0x80000000"

definition f32_add :: "f32 \<Rightarrow> f32 \<Rightarrow> f32" where
  "f32_add x y = f32_of (exact_sum (f32_exact x) (f32_exact y))"

definition f32_sub :: "f32 \<Rightarrow> f32 \<Rightarrow> f32" where
  "f32_sub x y = f32_of (exact_sum (f32_exact x) (exact_of (negate_value (f32_value y))))"

definition f32_mul :: "f32 \<Rightarrow> f32 \<Rightarrow> f32" where
  "f32_mul x y = f32_of (exact_mul (f32_value x) (f32_value y))"

definition f32_div :: "f32 \<Rightarrow> f32 \<Rightarrow> f32" where
  "f32_div x y = f32_of (exact_div (f32_value x) (f32_value y))"

definition f32_mul_add :: "f32 \<Rightarrow> f32 \<Rightarrow> f32 \<Rightarrow> f32" where
  "f32_mul_add x y z = f32_of (exact_sum (exact_mul (f32_value x) (f32_value y)) (f32_exact z))"

definition f32_sqrt :: "f32 \<Rightarrow> f32" where
  "f32_sqrt x = f32_of (exact_sqrt 23 (f32_value x))"

definition f32_le :: "f32 \<Rightarrow> f32 \<Rightarrow> bool" where
  "f32_le x y \<longleftrightarrow> exact_le (f32_exact x) (f32_exact y)"

definition f32_less :: "f32 \<Rightarrow> f32 \<Rightarrow> bool" where
  "f32_less x y \<longleftrightarrow> f32_le x y \<and> \<not> f32_le y x"

definition f64_value :: "f64 \<Rightarrow> float_value" where
  "f64_value x = decode_float 52 11 (unat x)"

definition f64_of :: "exact_value \<Rightarrow> f64" where
  "f64_of x = of_nat (round_exact 52 11 x)"

definition f64_exact :: "f64 \<Rightarrow> exact_value" where
  "f64_exact x = exact_of (f64_value x)"

definition f64_add :: "f64 \<Rightarrow> f64 \<Rightarrow> f64" where
  "f64_add x y = f64_of (exact_sum (f64_exact x) (f64_exact y))"

definition f64_sub :: "f64 \<Rightarrow> f64 \<Rightarrow> f64" where
  "f64_sub x y = f64_of (exact_sum (f64_exact x) (exact_of (negate_value (f64_value y))))"

definition f64_mul :: "f64 \<Rightarrow> f64 \<Rightarrow> f64" where
  "f64_mul x y = f64_of (exact_mul (f64_value x) (f64_value y))"

definition f64_div :: "f64 \<Rightarrow> f64 \<Rightarrow> f64" where
  "f64_div x y = f64_of (exact_div (f64_value x) (f64_value y))"

definition f64_le :: "f64 \<Rightarrow> f64 \<Rightarrow> bool" where
  "f64_le x y \<longleftrightarrow> exact_le (f64_exact x) (f64_exact y)"

definition f64_less :: "f64 \<Rightarrow> f64 \<Rightarrow> bool" where
  "f64_less x y \<longleftrightarrow> f64_le x y \<and> \<not> f64_le y x"

text \<open>Conversions: from an unsigned integer and between the formats.\<close>

definition f32_of_nat :: "nat \<Rightarrow> f32" where
  "f32_of_nat n = f32_of (ExRat False n 1)"

definition f64_of_nat :: "nat \<Rightarrow> f64" where
  "f64_of_nat n = f64_of (ExRat False n 1)"

definition f64_of_f32 :: "f32 \<Rightarrow> f64" where
  "f64_of_f32 x = f64_of (f32_exact x)"

definition f32_of_f64 :: "f64 \<Rightarrow> f32" where
  "f32_of_f64 x = f32_of (f64_exact x)"

text \<open>
  \<open>max\<close>, \<open>min\<close> and \<open>clamp\<close>: a NaN gives way to the other operand of the first two, and of two
  equal operands (zeros of either sign) the first is returned.
\<close>

definition f32_max :: "f32 \<Rightarrow> f32 \<Rightarrow> f32" where
  "f32_max x y = (if \<not> f32_le x x then y else if f32_less x y then y else x)"

definition f32_min :: "f32 \<Rightarrow> f32 \<Rightarrow> f32" where
  "f32_min x y = (if \<not> f32_le x x then y else if f32_less y x then y else x)"

definition f32_clamp :: "f32 \<Rightarrow> f32 \<Rightarrow> f32 \<Rightarrow> f32" where
  "f32_clamp x lo hi = (if f32_less x lo then lo else if f32_less hi x then hi else x)"

definition f64_max :: "f64 \<Rightarrow> f64 \<Rightarrow> f64" where
  "f64_max x y = (if \<not> f64_le x x then y else if f64_less x y then y else x)"

definition f64_min :: "f64 \<Rightarrow> f64 \<Rightarrow> f64" where
  "f64_min x y = (if \<not> f64_le x x then y else if f64_less y x then y else x)"

definition f64_clamp :: "f64 \<Rightarrow> f64 \<Rightarrow> f64 \<Rightarrow> f64" where
  "f64_clamp x lo hi = (if f64_less x lo then lo else if f64_less hi x then hi else x)"

definition f64_neg :: "f64 \<Rightarrow> f64" where
  "f64_neg x = xor x 0x8000000000000000"

definition f32_abs :: "f32 \<Rightarrow> f32" where
  "f32_abs x = and x 0x7FFFFFFF"

definition f64_abs :: "f64 \<Rightarrow> f64" where
  "f64_abs x = and x 0x7FFFFFFFFFFFFFFF"

text \<open>\<open>x as u64\<close> and the like: truncation, saturating at \<open>0\<close> and \<open>hi\<close>; and \<open>round\<close>, \<open>floor\<close>, \<open>ceil\<close>.\<close>

fun cast_unsigned :: "nat \<Rightarrow> exact_value \<Rightarrow> nat" where
  "cast_unsigned hi ExNaN = 0"
| "cast_unsigned hi (ExInf s) = (if s then 0 else hi)"
| "cast_unsigned hi (ExRat s a b) = (if s then 0 else min hi (a div b))"

fun cast_signed :: "nat \<Rightarrow> exact_value \<Rightarrow> int" where
  "cast_signed w ExNaN = 0"
| "cast_signed w (ExInf s) = (if s then - (2 ^ (w - 1)) else 2 ^ (w - 1) - 1)"
| "cast_signed w (ExRat s a b) =
     max (- (2 ^ (w - 1))) (min (2 ^ (w - 1) - 1) (signed_int s (a div b)))"

fun exact_round :: "exact_value \<Rightarrow> exact_value" where
  "exact_round (ExRat s a b) = ExRat s ((2 * a + b) div (2 * b)) 1"
| "exact_round x = x"

fun exact_ceil :: "exact_value \<Rightarrow> exact_value" where
  "exact_ceil (ExRat s a b) = ExRat s (if s then a div b else (a + b - 1) div b) 1"
| "exact_ceil x = x"

fun exact_floor :: "exact_value \<Rightarrow> exact_value" where
  "exact_floor (ExRat s a b) = ExRat s (if s then (a + b - 1) div b else a div b) 1"
| "exact_floor x = x"

text \<open>
  Rounding to an integer stays within the format, so \<open>x.floor() as usize\<close> casts the exact floor.
\<close>

definition f32_ceil :: "f32 \<Rightarrow> f32" where
  "f32_ceil x = f32_of (exact_ceil (f32_exact x))"

definition f32_floor_usize :: "f32 \<Rightarrow> nat" where
  "f32_floor_usize x = cast_unsigned (2 ^ 64 - 1) (exact_floor (f32_exact x))"

definition f32_ceil_usize :: "f32 \<Rightarrow> nat" where
  "f32_ceil_usize x = cast_unsigned (2 ^ 64 - 1) (exact_ceil (f32_exact x))"

text \<open>\<open>x % y\<close>: the exact remainder of the division truncated towards zero, with the sign of \<open>x\<close>.\<close>

fun exact_rem :: "exact_value \<Rightarrow> exact_value \<Rightarrow> exact_value" where
  "exact_rem (ExRat s a b) (ExRat s' a' b') =
     (if a' = 0 then ExNaN else ExRat s ((a * b') mod (a' * b)) (b * b'))"
| "exact_rem (ExRat s a b) (ExInf s') = ExRat s a b"
| "exact_rem x y = ExNaN"

definition f32_rem :: "f32 \<Rightarrow> f32 \<Rightarrow> f32" where
  "f32_rem x y = f32_of (exact_rem (f32_exact x) (f32_exact y))"

section \<open>Order\<close>

lemma exact_of_denominator: "exact_of v = ExRat s a b \<Longrightarrow> 0 < b"
  by (cases v) auto

lemma rat_le_trans:
  assumes b: "0 < b2" and le: "signed_int s1 (a1 * b2) \<le> signed_int s2 (a2 * b1)"
    "signed_int s2 (a2 * b3) \<le> signed_int s3 (a3 * b2)"
  shows "signed_int s1 (a1 * b3) \<le> signed_int s3 (a3 * b1)"
proof -
  have mult: "signed_int s (x * y) = signed_int s x * int y" for s x y by (simp add: signed_int_def)
  let ?x = "signed_int s1 a1" and ?y = "signed_int s2 a2" and ?z = "signed_int s3 a3"
  have xy: "?x * int b2 \<le> ?y * int b1" and yz: "?y * int b3 \<le> ?z * int b2" using le by (simp_all add: mult)
  have "?x * int b2 * int b3 \<le> ?y * int b1 * int b3" by (rule mult_right_mono [OF xy]) simp
  also have "\<dots> = ?y * int b3 * int b1" by (simp add: ac_simps)
  also have "\<dots> \<le> ?z * int b2 * int b1" by (rule mult_right_mono [OF yz]) simp
  finally have "(?x * int b3) * int b2 \<le> (?z * int b1) * int b2" by (simp add: ac_simps)
  then have "?x * int b3 \<le> ?z * int b1" using b by simp
  then show ?thesis by (simp add: mult)
qed

lemma exact_le_trans:
  "exact_le (exact_of x) (exact_of y) \<Longrightarrow> exact_le (exact_of y) (exact_of z)
    \<Longrightarrow> exact_le (exact_of x) (exact_of z)"
proof -
  assume "exact_le (exact_of x) (exact_of y)" "exact_le (exact_of y) (exact_of z)"
  then show ?thesis
    by (cases "exact_of x"; cases "exact_of y"; cases "exact_of z")
      (auto intro: rat_le_trans exact_of_denominator)
qed

lemma exact_le_total:
  "exact_le x x \<Longrightarrow> exact_le y y \<Longrightarrow> exact_le x y \<or> exact_le y x"
  by (cases x; cases y) auto

lemma exact_le_refl: "exact_le x y \<Longrightarrow> exact_le x x \<and> exact_le y y"
  by (cases x; cases y) auto

text \<open>Comparison is a total preorder on what is not a NaN.\<close>

lemma f32_le_trans: "f32_le x y \<Longrightarrow> f32_le y z \<Longrightarrow> f32_le x z"
  unfolding f32_le_def f32_exact_def by (rule exact_le_trans)

lemma f32_less_trans: "f32_less x y \<Longrightarrow> f32_less y z \<Longrightarrow> f32_less x z"
  unfolding f32_less_def using f32_le_trans by blast

lemma f32_le_less_trans: "f32_le x y \<Longrightarrow> f32_less y z \<Longrightarrow> f32_less x z"
  unfolding f32_less_def using f32_le_trans by blast

lemma f32_less_irrefl [simp]: "\<not> f32_less x x"
  by (simp add: f32_less_def)

lemma f32_less_antisym: "f32_less x y \<Longrightarrow> \<not> f32_less y x"
  by (simp add: f32_less_def)

lemma f32_not_less: "f32_le x x \<Longrightarrow> f32_le y y \<Longrightarrow> \<not> f32_less x y \<longleftrightarrow> f32_le y x"
  unfolding f32_less_def f32_le_def using exact_le_total [of "f32_exact x" "f32_exact y"] by blast

text \<open>What \<open>is_finite\<close> tests is that the decoded value is a number.\<close>

lemma f32_is_finite_iff: "f32_is_finite x \<longleftrightarrow> (\<exists>s m e. f32_value x = Finite s m e)"
proof -
  have "unat x < 2 ^ 32" using unsigned_less [of x, where 'a = nat] by simp
  then have "unat (take_bit 8 (drop_bit 23 x)) = unat x div 2 ^ 23 mod 2 ^ 8"
    by (simp only: unsigned_take_bit_eq unsigned_drop_bit_eq) (simp add: take_bit_eq_mod drop_bit_eq_div)
  then have "f32_is_finite x \<longleftrightarrow> unat x div 2 ^ 23 mod 2 ^ 8 \<noteq> 255"
    unfolding f32_is_finite_def word_unat_eq_iff by simp
  also have "\<dots> \<longleftrightarrow> unat x mod 2 ^ 31 div 2 ^ 23 \<noteq> 255"
    using div_exp_mod_exp_eq [of "unat x" 23 8] by simp
  also have "\<dots> \<longleftrightarrow> unat x mod 2 ^ 31 < 255 * 2 ^ 23"
  proof -
    have "n div 8388608 \<noteq> 255 \<longleftrightarrow> n < 255 * 8388608" if "n < 256 * 8388608" for n :: nat
      using that by linarith
    from this [of "unat x mod 2 ^ 31"] show ?thesis by simp
  qed
  finally show ?thesis
    by (auto simp: f32_value_def decode_float_def decode_magnitude_def infinity_bits_def Let_def)
qed

lemma f32_exact_finite: "f32_is_finite x \<Longrightarrow> \<exists>s a b. f32_exact x = ExRat s a b"
  by (auto simp: f32_is_finite_iff f32_exact_def)

text \<open>A nonnegative number that is at most a finite one has a floor that is at most its ceiling.\<close>

lemma floor_le_ceil:
  assumes le: "f32_le d m" and nonneg: "\<not> f32_less d 0" and finite: "f32_exact m = ExRat s a b"
  shows "f32_floor_usize d \<le> f32_ceil_usize m"
proof -
  have b: "0 < b" using finite exact_of_denominator unfolding f32_exact_def by blast
  from le finite obtain s' a' b' where d: "f32_exact d = ExRat s' a' b' \<or> f32_exact d = ExInf True"
    by (cases "f32_exact d") (auto simp: f32_le_def)
  show ?thesis
  proof (cases "f32_exact d = ExInf True \<or> s'")
    case True
    then show ?thesis using d by (auto simp: f32_floor_usize_def)
  next
    case False
    then have d: "f32_exact d = ExRat False a' b'" using d by auto
    have b': "0 < b'" using d exact_of_denominator unfolding f32_exact_def by blast
    have le': "int (a' * b) \<le> signed_int s (a * b')" using le by (simp add: f32_le_def d finite signed_int_def)
    show ?thesis
    proof (cases s)
      case True
      then have "int (a' * b) \<le> - int (a * b')" using le' by (simp add: signed_int_def del: of_nat_mult)
      then have "a' * b = 0" by linarith
      then have "a' = 0" using b by simp
      then show ?thesis by (simp add: f32_floor_usize_def d)
    next
      case False
      then have "a' * b \<le> a * b'" using le' by (simp add: signed_int_def flip: of_nat_mult)
      moreover have "(a' div b') * b' \<le> a'" by simp
      ultimately have "(a' div b') * b' * b \<le> a * b'"
        by (meson le_trans mult_le_mono1)
      then have "(a' div b') * b \<le> a" using b' by (simp add: ac_simps)
      then have "a' div b' \<le> a div b" using b by (simp add: less_eq_div_iff_mult_less_eq)
      also have "\<dots> \<le> (a + b - 1) div b" using b by (intro div_le_mono) simp
      finally show ?thesis using False by (auto simp: f32_floor_usize_def f32_ceil_usize_def d finite)
    qed
  qed
qed

section \<open>Correct rounding\<close>

fun value_real :: "float_value \<Rightarrow> real" where
  "value_real NotANumber = 0"
| "value_real (Infinite s) = 0"
| "value_real (Finite s m e) = (if s then - 1 else 1) * (real m * 2 powi e)"

lemma nat_len_bounds: "0 < n \<Longrightarrow> 2 ^ (nat_len n - 1) \<le> n \<and> n < 2 ^ nat_len n \<and> 0 < nat_len n"
proof (induction n rule: nat_len.induct)
  case (1 n)
  show ?case
  proof (cases "n div 2 = 0")
    case True
    then have "n = 1" using 1(2) by auto
    then show ?thesis by (simp add: nat_len.simps)
  next
    case False
    then have ih: "2 ^ (nat_len (n div 2) - 1) \<le> n div 2" "n div 2 < 2 ^ nat_len (n div 2)"
      "0 < nat_len (n div 2)"
      using 1 by auto
    have len: "nat_len n = Suc (nat_len (n div 2))" using 1(2) by (simp add: nat_len.simps [of n])
    have "2 * 2 ^ (nat_len (n div 2) - 1) = (2 :: nat) ^ nat_len (n div 2)"
      using ih(3) by (cases "nat_len (n div 2)") simp_all
    moreover have "n = 2 * (n div 2) + n mod 2" "n mod 2 < 2" by simp_all
    ultimately have "2 ^ nat_len (n div 2) \<le> n" "n < 2 * 2 ^ nat_len (n div 2)" using ih by linarith+
    then show ?thesis by (simp add: len)
  qed
qed

lemma shift_ratio:
  assumes "0 < b"
  shows "real (a * 2 ^ nat (- e)) / real (b * 2 ^ nat e) = real a / real b * 2 powi (- e)"
proof (cases "0 \<le> e")
  case True
  then show ?thesis by (simp add: power_int_minus field_simps) (simp add: power_int_def)
next
  case False
  then show ?thesis by (simp add: power_int_def field_simps)
qed

lemma ratio_log_bounds:
  assumes "0 < a" and "0 < b"
  shows "2 powi ratio_log a b \<le> real a / real b" and "real a / real b < 2 powi (ratio_log a b + 1)"
proof -
  define k where "k = int (nat_len a) - int (nat_len b)"
  note len = nat_len_bounds [OF assms(1)] nat_len_bounds [OF assms(2)]
  have ra: "2 powi (int (nat_len a) - 1) \<le> real a" "real a < 2 powi int (nat_len a)"
    and rb: "2 powi (int (nat_len b) - 1) \<le> real b" "real b < 2 powi int (nat_len b)"
  proof -
    have pow: "2 powi (int (nat_len n) - 1) \<le> real n \<and> real n < 2 powi int (nat_len n)"
      if n: "2 ^ (nat_len n - 1) \<le> n \<and> n < 2 ^ nat_len n \<and> 0 < nat_len n" for n
    proof -
      have "real (2 ^ (nat_len n - 1)) \<le> real n" "real n < real (2 ^ nat_len n)"
        using n unfolding of_nat_le_iff of_nat_less_iff by simp_all
      moreover have e: "int (nat_len n) - 1 = int (nat_len n - 1)" using n by linarith
      ultimately show ?thesis unfolding e power_int_of_nat by simp
    qed
    show "2 powi (int (nat_len a) - 1) \<le> real a" "real a < 2 powi int (nat_len a)"
      "2 powi (int (nat_len b) - 1) \<le> real b" "real b < 2 powi int (nat_len b)"
      using pow len by blast+
  qed
  have b0: "0 < real b" using assms(2) by simp
  have "real a < 2 powi (k + 1) * 2 powi (int (nat_len b) - 1)"
    using ra(2) by (simp add: power_int_add [symmetric] k_def)
  also have "\<dots> \<le> 2 powi (k + 1) * real b" by (intro mult_left_mono rb) simp
  finally have up: "real a / real b < 2 powi (k + 1)" using b0 by (simp add: divide_less_eq)
  have "2 powi (k - 1) * real b \<le> 2 powi (k - 1) * 2 powi int (nat_len b)"
    using rb(2) by (intro mult_left_mono) simp_all
  also have "\<dots> = 2 powi (k - 1 + int (nat_len b))" by (rule power_int_add [symmetric]) simp
  also have "k - 1 + int (nat_len b) = int (nat_len a) - 1" by (simp add: k_def)
  also have "2 powi (int (nat_len a) - 1) \<le> real a" by (rule ra)
  finally have low: "2 powi (k - 1) \<le> real a / real b" using b0 by (simp add: le_divide_eq)
  have test: "b * 2 ^ nat k \<le> a * 2 ^ nat (- k) \<longleftrightarrow> 2 powi k \<le> real a / real b"
  proof -
    have "b * 2 ^ nat k \<le> a * 2 ^ nat (- k) \<longleftrightarrow> real (b * 2 ^ nat k) \<le> real (a * 2 ^ nat (- k))"
      by (rule of_nat_le_iff [symmetric])
    also have "\<dots> \<longleftrightarrow> 1 \<le> real (a * 2 ^ nat (- k)) / real (b * 2 ^ nat k)"
      using assms(2) by (simp add: le_divide_eq)
    also have "\<dots> \<longleftrightarrow> 1 \<le> real a / real b * 2 powi (- k)" unfolding shift_ratio [OF assms(2)] ..
    also have "\<dots> \<longleftrightarrow> 2 powi k \<le> real a / real b" proof -
      have "0 < (2 :: real) powi k" by simp
      then show ?thesis
        using assms(2) by (simp add: power_int_minus divide_inverse [symmetric] le_divide_eq mult.commute)
    qed
    finally show ?thesis .
  qed
  show "2 powi ratio_log a b \<le> real a / real b" "real a / real b < 2 powi (ratio_log a b + 1)"
    using up low test by (auto simp: ratio_log_def Let_def k_def [symmetric])
qed

lemma round_half_even_near:
  assumes "0 < b"
  shows "\<bar>real (round_half_even a b) - real a / real b\<bar> \<le> 1 / 2"
proof -
  define q r where "q = a div b" and "r = a mod b"
  have qr: "a = q * b + r" "r < b" using assms by (simp_all add: q_def r_def)
  have v: "real a / real b = real q + real r / real b"
    using assms by (simp add: qr(1) add_divide_distrib)
  show ?thesis
  proof (cases "b < 2 * r \<or> (b = 2 * r \<and> odd q)")
    case True
    then have "1 / 2 \<le> real r / real b" "real r / real b \<le> 1"
      using assms qr(2) by (auto simp: le_divide_eq divide_le_eq)
    then show ?thesis using True by (simp add: round_half_even_def q_def [symmetric] r_def [symmetric] v)
  next
    case False
    then have "real r / real b \<le> 1 / 2" "0 \<le> real r / real b" using assms by (auto simp: divide_le_eq)
    moreover have "round_half_even a b = q"
      using False unfolding round_half_even_def q_def [symmetric] r_def [symmetric] Let_def by auto
    ultimately show ?thesis by (simp add: v)
  qed
qed

text \<open>The nearest integer is the nearest multiple of a power of two.\<close>

lemma near_multiple:
  assumes "\<bar>real m - v * 2 powi (- e)\<bar> \<le> 1 / 2"
  shows "\<bar>real m * 2 powi e - v\<bar> \<le> \<bar>real_of_int z * 2 powi e - v\<bar>"
proof -
  have "\<bar>real m - v * 2 powi (- e)\<bar> \<le> \<bar>real_of_int z - v * 2 powi (- e)\<bar>"
  proof (cases "z = int m")
    case False
    then have "1 \<le> \<bar>real_of_int z - real m\<bar>" by linarith
    then show ?thesis using assms by linarith
  qed simp
  then have "\<bar>real m - v * 2 powi (- e)\<bar> * 2 powi e \<le> \<bar>real_of_int z - v * 2 powi (- e)\<bar> * 2 powi e"
    by (intro mult_right_mono) simp_all
  moreover have "\<bar>x - v * 2 powi (- e)\<bar> * 2 powi e = \<bar>x * 2 powi e - v\<bar>" for x
  proof -
    have "\<bar>x - v * 2 powi (- e)\<bar> * 2 powi e = \<bar>(x - v * 2 powi (- e)) * 2 powi e\<bar>"
      by (simp add: abs_mult)
    also have "(x - v * 2 powi (- e)) * 2 powi e = x * 2 powi e - v"
      by (simp add: left_diff_distrib power_int_minus)
    finally show ?thesis .
  qed
  ultimately show ?thesis by simp
qed


definition magnitude_real :: "nat \<Rightarrow> nat \<Rightarrow> nat \<Rightarrow> real" where
  "magnitude_real p w n = value_real (decode_magnitude p w False n)"

text \<open>The pattern \<open>k * 2 ^ p + m\<close> denotes \<open>m\<close> units of the exponent \<open>k\<close> above the least one.\<close>

lemma magnitude_real_packed:
  assumes "k = 0 \<or> 2 ^ p \<le> m" and "m \<le> 2 ^ (p + 1)" and "k * 2 ^ p + m < infinity_bits p w"
  shows "magnitude_real p w (k * 2 ^ p + m) = real m * 2 powi (exponent_floor p w + int k)"
proof -
  let ?n = "k * 2 ^ p + m"
  have val: "magnitude_real p w ?n = real (if ?n div 2 ^ p = 0 then ?n mod 2 ^ p else ?n mod 2 ^ p + 2 ^ p)
      * 2 powi (exponent_floor p w + int (?n div 2 ^ p - 1))"
    using assms(3) by (simp add: magnitude_real_def decode_magnitude_def Let_def)
  consider "m < 2 ^ p" | "2 ^ p \<le> m" "m < 2 ^ (p + 1)" | "m = 2 ^ (p + 1)" using assms(2) by linarith
  then show ?thesis
  proof cases
    case 1
    then have "k = 0" using assms(1) by simp
    then show ?thesis using 1 unfolding val by simp
  next
    case 2
    define f where "f = m - 2 ^ p"
    have f: "m = 2 ^ p + f" "f < 2 ^ p" using 2 by (simp_all add: f_def)
    then have "?n = (k + 1) * 2 ^ p + f" by simp
    then have "?n div 2 ^ p = k + 1" "?n mod 2 ^ p = f" using f(2) by (simp_all del: add_mult_distrib)
    then show ?thesis unfolding val by (simp add: f(1))
  next
    case 3
    then have "?n = (k + 2) * 2 ^ p" by simp
    then have "?n div 2 ^ p = k + 2" "?n mod 2 ^ p = 0" by (simp_all del: add_mult_distrib)
    then show ?thesis unfolding val by (simp add: 3 power_int_add)
  qed
qed

text \<open>Every finite pattern is of this form.\<close>

lemma finite_magnitude:
  assumes "n < infinity_bits p w"
  shows "\<exists>k m. m < 2 ^ (p + 1) \<and> magnitude_real p w n = real m * 2 powi (exponent_floor p w + int k)"
proof -
  have "n mod 2 ^ p < 2 ^ p" by simp
  then have "(if n div 2 ^ p = 0 then n mod 2 ^ p else n mod 2 ^ p + 2 ^ p) < 2 ^ (p + 1)"
    by (simp del: mod_less_divisor)
  then show ?thesis
    using assms by (intro exI [of _ "n div 2 ^ p - 1"] exI conjI)
      (assumption, simp add: magnitude_real_def decode_magnitude_def Let_def)
qed

theorem round_magnitude_nearest:
  assumes "0 < b" and "round_magnitude p w a b < infinity_bits p w" and "n < infinity_bits p w"
  shows "\<bar>magnitude_real p w (round_magnitude p w a b) - real a / real b\<bar>
    \<le> \<bar>magnitude_real p w n - real a / real b\<bar>"
proof (cases "a = 0")
  case True
  have "magnitude_real p w 0 = 0"
    using assms(2) True
    by (simp add: round_magnitude_def magnitude_real_def decode_magnitude_def)
  then show ?thesis using True by (simp add: round_magnitude_def)
next
  case False
  define v e k m where "v = real a / real b" and "e = round_exponent p w a b"
    and "k = nat (e - exponent_floor p w)"
    and "m = round_half_even (a * 2 ^ nat (- e)) (b * 2 ^ nat e)"
  have a: "0 < a" using False by simp
  have fl: "exponent_floor p w \<le> e" and rl: "ratio_log a b - int p \<le> e"
    by (simp_all add: e_def round_exponent_def)
  then have e: "exponent_floor p w + int k = e" by (simp add: k_def)
  have near: "\<bar>real m - v * 2 powi (- e)\<bar> \<le> 1 / 2"
    using round_half_even_near [of "b * 2 ^ nat e" "a * 2 ^ nat (- e)"] assms(1)
    unfolding m_def v_def shift_ratio [OF assms(1)] by simp
  note lb = ratio_log_bounds [OF a assms(1), folded v_def]
  have up: "v * 2 powi (- e) < 2 ^ (p + 1)"
  proof -
    have "v * 2 powi (- e) < 2 powi (ratio_log a b + 1) * 2 powi (- e)"
      using lb(2) by (intro mult_strict_right_mono) simp_all
    also have "\<dots> = 2 powi (ratio_log a b + 1 - e)" by (simp add: power_int_add [symmetric])
    also have "\<dots> \<le> 2 powi int (p + 1)" using rl by (intro power_int_increasing) simp_all
    finally show ?thesis unfolding power_int_of_nat .
  qed
  have m_up: "m \<le> 2 ^ (p + 1)"
  proof -
    have "real m < 2 ^ (p + 1) + 1" using near up by linarith
    then have "real m < real (2 ^ (p + 1) + 1)" by simp
    then show ?thesis unfolding of_nat_less_iff by simp
  qed
  have low: "2 ^ p \<le> v * 2 powi (- e)" if "k \<noteq> 0"
  proof -
    have "e = ratio_log a b - int p" using that e fl by (auto simp: k_def e_def round_exponent_def)
    then have "2 powi int p = 2 powi ratio_log a b * (2 powi (- e) :: real)"
      by (simp add: power_int_add [symmetric])
    also have "\<dots> \<le> v * 2 powi (- e)" using lb(1) by (intro mult_right_mono) simp_all
    finally show ?thesis unfolding power_int_of_nat .
  qed
  have m_low: "k = 0 \<or> 2 ^ p \<le> m"
  proof -
    have "2 ^ p \<le> m" if "k \<noteq> 0"
    proof -
      have "real (2 ^ p) < real (m + 1)"
        using low [OF that] near unfolding of_nat_power of_nat_add of_nat_numeral of_nat_1 by linarith
      then show ?thesis unfolding of_nat_less_iff by simp
    qed
    then show ?thesis by blast
  qed
  have rm: "round_magnitude p w a b = k * 2 ^ p + m"
    using assms(2) False by (simp add: round_magnitude_def Let_def e_def [symmetric] m_def [symmetric] k_def)
  have val: "magnitude_real p w (round_magnitude p w a b) = real m * 2 powi e"
    unfolding rm e [symmetric] using m_low m_up assms(2) [unfolded rm] by (rule magnitude_real_packed)
  obtain k' m' where n: "m' < 2 ^ (p + 1)"
      "magnitude_real p w n = real m' * 2 powi (exponent_floor p w + int k')"
    using finite_magnitude [OF assms(3)] by blast
  show ?thesis
  proof (cases "k \<le> k'")
    case True
    have "magnitude_real p w n = real_of_int (int m' * 2 ^ (k' - k)) * 2 powi e"
    proof -
      have "exponent_floor p w + int k' = int (k' - k) + e" using True e by (simp add: of_nat_diff)
      moreover have "(2 :: real) powi (int (k' - k) + e) = 2 powi int (k' - k) * 2 powi e"
        by (rule power_int_add) simp
      ultimately show ?thesis unfolding n(2) by (simp only: power_int_of_nat) simp
    qed
    note scaled = this
    show ?thesis unfolding val scaled v_def [symmetric] by (rule near_multiple [OF near])
  next
    case False
    then have "k \<noteq> 0" by simp
    have "magnitude_real p w n \<le> 2 ^ p * 2 powi e"
    proof -
      have "real m' \<le> 2 ^ (p + 1)"
        using n(1) by (metis less_imp_le of_nat_le_iff of_nat_numeral of_nat_power)
      then have "magnitude_real p w n \<le> 2 ^ (p + 1) * 2 powi (exponent_floor p w + int k')"
        unfolding n(2) by (intro mult_right_mono) simp_all
      also have "\<dots> \<le> 2 ^ (p + 1) * 2 powi (e - 1)"
        using False e by (intro mult_left_mono power_int_increasing) simp_all
      also have "\<dots> = 2 ^ p * 2 powi e" by (simp add: power_int_diff)
      finally show ?thesis .
    qed
    moreover have "2 ^ p * 2 powi e \<le> v"
    proof -
      have "2 ^ p * 2 powi e \<le> v * 2 powi (- e) * 2 powi e"
        using low [OF \<open>k \<noteq> 0\<close>] by (intro mult_right_mono) simp_all
      moreover have "v * 2 powi (- e) * 2 powi e = v" by (simp add: power_int_minus)
      ultimately show ?thesis by linarith
    qed
    moreover have "\<bar>real m * 2 powi e - v\<bar> \<le> \<bar>2 ^ p * 2 powi e - v\<bar>"
      using near_multiple [OF near, of "2 ^ p"] by simp
    ultimately show ?thesis unfolding val v_def [symmetric] by linarith
  qed
qed

lemma nat_sqrt_bounds: "nat_sqrt n * nat_sqrt n \<le> n \<and> n < (nat_sqrt n + 1) * (nat_sqrt n + 1)"
proof (induction n rule: nat_sqrt.induct)
  case (1 n)
  show ?case
  proof (cases "n = 0")
    case True
    then show ?thesis by (simp add: nat_sqrt.simps)
  next
    case False
    define r where "r = nat_sqrt (n div 4)"
    have r: "r * r \<le> n div 4" "n div 4 < (r + 1) * (r + 1)" using 1 [OF False] by (simp_all add: r_def)
    have n: "n = 4 * (n div 4) + n mod 4" "n mod 4 < 4" by simp_all
    have low: "(2 * r) * (2 * r) \<le> n" using r(1) n by linarith
    have "n div 4 + 1 \<le> (r + 1) * (r + 1)" using r(2) by linarith
    then have up: "n < (2 * r + 2) * (2 * r + 2)" using n by (simp add: algebra_simps)
    have "nat_sqrt n = (if (2 * r + 1) * (2 * r + 1) \<le> n then 2 * r + 1 else 2 * r)"
      using False by (simp add: nat_sqrt.simps [of n] r_def Let_def)
    then show ?thesis using low up by (simp add: not_le)
  qed
qed

section \<open>Spot checks\<close>

text \<open>
  One tenth and two tenths, their sum and product, one third, an overflow, the least subnormal
  halved to zero, the two zeros, fused multiplication and addition, square roots, conversions.
\<close>

lemmas float_defs = f32_rem_def f32_ceil_def f32_floor_usize_def f32_ceil_usize_def f32_max_def f32_min_def f32_clamp_def f64_max_def f64_min_def f64_clamp_def
  f64_neg_def f32_abs_def f64_abs_def f32_add_def f32_sub_def f32_mul_def f32_div_def f32_mul_add_def f32_sqrt_def f32_le_def
  f32_less_def f32_value_def f32_exact_def f32_of_def f32_of_nat_def f64_add_def f64_sub_def f64_mul_def
  f64_div_def f64_le_def f64_less_def f64_value_def f64_exact_def f64_of_def f64_of_nat_def
  f64_of_f32_def f32_of_f64_def signed_int_def nat_len.simps nat_sqrt.simps decode_float_def decode_magnitude_def exponent_floor_def infinity_bits_def signed_bits_def
  round_magnitude_def round_exponent_def ratio_log_def round_half_even_def

lemma f32_examples:
  "f32_add 0x3DCCCCCD 0x3E4CCCCD = 0x3E99999A"
  "f32_mul 0x3DCCCCCD 0x3E4CCCCD = 0x3CA3D70B"
  "f32_div 0x3F800000 0x40400000 = 0x3EAAAAAB"
  "f32_mul 0x7F000000 0x40000000 = 0x7F800000"
  "f32_mul 0x00000001 0x3F000000 = 0"
  "f32_sub 0x3F800000 0x3F800000 = 0"
  "f32_add 0x80000000 0x80000000 = 0x80000000"
  "f32_mul_add 0x3DCCCCCD 0x3E4CCCCD 0x3F800000 = 0x3F828F5C"
  "f32_sqrt 0x40000000 = 0x3FB504F3"
  "f32_sqrt 0x40800000 = 0x40000000"
  "f32_less 0x3F800000 0x40000000"
  "f32_rem 0xC0E00000 0x40000000 = 0xBF800000"
  "f64_of_f32 0x3DCCCCCD = 0x3FB99999A0000000"
  "f32_of_nat 16777217 = 0x4B800000"
  "f64_div (f64_of_nat 1) (f64_of_nat 3) = 0x3FD5555555555555"
  by (simp_all add: float_defs)

end
