(* ===== verification/Core_Scene.thy ===== *)
theory Core_Scene
  imports Core_Roles Ieee_Float
begin

text \<open>
  The float data of \<open>aurora-core\<close>, \<open>src/crates/aurora-core/src/lib.rs\<close>: formats, vectors with
  their arithmetic, speakers, listeners and objects; and the renderer contract of
  \<open>src/crates/aurora-renderer-api/src/lib.rs\<close>, a trait that is a record of functions here.
\<close>

section \<open>Formats and geometry\<close>

datatype sample_type = F32

record audio_format =
  af_sample_rate :: u32
  af_channel_count :: usize
  af_sample_type :: sample_type
  af_block_size :: usize

record vector3 =
  vx :: f32
  vy :: f32
  vz :: f32

definition vector3_new :: "f32 \<Rightarrow> f32 \<Rightarrow> f32 \<Rightarrow> vector3" where
  "vector3_new x y z = \<lparr>vx = x, vy = y, vz = z\<rparr>"

definition vector3_zero :: vector3 where
  "vector3_zero = vector3_new 0 0 0"

definition vector3_sub :: "vector3 \<Rightarrow> vector3 \<Rightarrow> vector3" where
  "vector3_sub a b = vector3_new (f32_sub (vx a) (vx b)) (f32_sub (vy a) (vy b)) (f32_sub (vz a) (vz b))"

definition length_squared :: "vector3 \<Rightarrow> f32" where
  "length_squared v = f32_mul_add (vx v) (vx v) (f32_mul_add (vy v) (vy v) (f32_mul (vz v) (vz v)))"

definition vector_length :: "vector3 \<Rightarrow> f32" where
  "vector_length v = f32_sqrt (length_squared v)"

definition distance_to :: "vector3 \<Rightarrow> vector3 \<Rightarrow> f32" where
  "distance_to a b = vector_length (vector3_sub a b)"

record speaker =
  sp_id :: string
  sp_label :: string
  sp_channel_role :: channel_role
  sp_position :: vector3
  sp_orientation :: vector3
  sp_gain_db :: f32
  sp_delay_samples :: f32
  sp_enabled :: bool

record listener =
  ls_position :: vector3
  ls_orientation :: vector3
  ls_ear_height :: f32

record audio_object =
  ob_id :: string
  ob_position :: vector3
  ob_velocity :: vector3
  ob_gain_db :: f32
  ob_spread :: f32
  ob_start_time_seconds :: "f64 option"
  ob_end_time_seconds :: "f64 option"

record scene =
  room_dimensions :: vector3
  sc_listener :: listener
  sc_speakers :: "speaker list"
  sc_objects :: "audio_object list"

section \<open>The renderer trait\<close>

record render_object =
  ro_position :: vector3
  ro_gain :: f32

record speaker_gain =
  sg_speaker_index :: usize
  sg_gain :: f32
  sg_distance_meters :: f32
  sg_delay_samples :: f32

definition speaker_gain_default :: speaker_gain where
  "speaker_gain_default =
     \<lparr>sg_speaker_index = 0, sg_gain = 0, sg_distance_meters = 0, sg_delay_samples = 0\<rparr>"

datatype renderer_error =
    NotConfigured | NoEnabledSpeakers | TooManyObjects usize usize | OutputBufferSize usize usize
  | ScratchBufferSize usize usize | InvalidConfiguration string | RendererUnavailable string

text \<open>The scratch is its floats; \<open>RendererScratch::new\<close> fills it with zeros.\<close>

definition scratch_new :: "usize \<Rightarrow> f32 list" where
  "scratch_new n = replicate (unat n) 0"

record 'r renderer =
  rd_dynamic_delay_values :: "'r \<Rightarrow> bool"
  rd_configure :: "speaker list \<Rightarrow> u32 \<Rightarrow> usize \<Rightarrow> usize \<Rightarrow> 'r \<Rightarrow> (unit, renderer_error) outcome \<times> 'r"
  rd_required_scratch_size :: "'r \<Rightarrow> (usize, renderer_error) outcome"
  rd_render_gains :: "listener \<Rightarrow> render_object list \<Rightarrow> speaker_gain list \<Rightarrow> f32 list \<Rightarrow> 'r
    \<Rightarrow> (unit, renderer_error) outcome \<times> speaker_gain list \<times> f32 list \<times> 'r"
  rd_reset :: "'r \<Rightarrow> 'r"
  rd_latency_frames :: "'r \<Rightarrow> usize"
  rd_output_channel_count :: "'r \<Rightarrow> usize"

text \<open>
  What a client may rely on: the gain buffer and the scratch are slices, whose lengths a renderer
  cannot change, a successful configuration establishes the renderer's invariant, which rendering
  and reset keep, and then nothing panics.
\<close>

locale sound_renderer =
  fixes R :: "'r renderer" and ok :: "'r \<Rightarrow> bool"
  assumes gains_length: "length (fst (snd (rd_render_gains R l objs gains scratch r))) = length gains"
    and scratch_length:
      "length (fst (snd (snd (rd_render_gains R l objs gains scratch r)))) = length scratch"
    and configure_ok: "fst (rd_configure R layout rate block most r) = Ok ()
      \<Longrightarrow> ok (snd (rd_configure R layout rate block most r))"
    and render_no_panic: "ok r \<Longrightarrow> fst (rd_render_gains R l objs gains scratch r) \<noteq> Panic"
    and render_ok: "ok r \<Longrightarrow> ok (snd (snd (snd (rd_render_gains R l objs gains scratch r))))"
    and reset_ok: "ok r \<Longrightarrow> ok (rd_reset R r)"
    and scratch_no_panic: "rd_required_scratch_size R r \<noteq> Panic"

end
