(* ===== verification/Decoder_Api.thy ===== *)
theory Decoder_Api
  imports Core_Scene
begin

text \<open>
  The live decoder contract, \<open>src/crates/aurora-decoder-api/src/lib.rs\<close>: packets, decoded frames
  with their channel semantics, the trait \<open>StreamingDecoder\<close> as a record of functions, and the
  panic-isolating wrapper.  A call of a backend may panic, which is an outcome of its function;
  what the wrapper promises to its callers is the locale \<open>latching_decoder\<close>.
\<close>

section \<open>Data\<close>

record decoded_frame =
  df_audio :: audio_block
  df_objects :: "audio_object list"

datatype decoder_output_semantics = ChannelPcm | ObjectScene | SyntheticUpmix

record decoder_info =
  di_name :: string
  di_production_ready :: bool
  di_maturity :: string
  di_output_semantics :: decoder_output_semantics

datatype decoder_error =
    Unavailable string | UnsupportedInput string | ExternalProcess string
  | BackendPanic string | BackendFaulted

datatype decoder_packet_transport = RawElementary | Iec61937

record decoder_packet =
  pk_transport :: decoder_packet_transport
  pk_data_type :: "u8 option"
  pk_payload :: "u8 list"
  pk_discontinuity :: bool

record streaming_decoder_config =
  sd_sample_rate :: u32
  sd_block_size :: usize
  sd_maximum_pcm_channels :: usize

datatype decoded_channel_kind = Bed channel_role | ObjectPcm | UnknownPcm

record object_channel_binding =
  oc_object_id :: string
  oc_channel_index :: usize

record streaming_decoded_frame =
  sf_decoded :: decoded_frame
  sf_channel_kinds :: "decoded_channel_kind list"
  sf_object_channels :: "object_channel_binding list"

record decoded_batch =
  bt_frames :: "streaming_decoded_frame list"
  bt_native_objects_present :: bool

definition decoded_batch_empty :: decoded_batch where
  "decoded_batch_empty = \<lparr>bt_frames = [], bt_native_objects_present = False\<rparr>"

section \<open>The trait\<close>

text \<open>
  \<open>info\<close> and \<open>reset_stream\<close> return no \<open>Result\<close>: their outcome is \<open>Ok\<close> or a panic.
\<close>

record 'd streaming_decoder =
  dec_info :: "'d \<Rightarrow> (decoder_info, decoder_error) outcome"
  dec_configure_stream :: "streaming_decoder_config \<Rightarrow> 'd \<Rightarrow> (unit, decoder_error) outcome \<times> 'd"
  dec_push_packet :: "decoder_packet \<Rightarrow> 'd \<Rightarrow> (decoded_batch, decoder_error) outcome \<times> 'd"
  dec_reset_stream :: "'d \<Rightarrow> (unit, decoder_error) outcome \<times> 'd"
  dec_recover_stream :: "'d \<Rightarrow> (unit, decoder_error) outcome \<times> 'd"

text \<open>The default body of \<open>recover_stream\<close>.\<close>

definition default_recover_stream ::
  "('d \<Rightarrow> (unit, decoder_error) outcome \<times> 'd) \<Rightarrow> 'd \<Rightarrow> (unit, decoder_error) outcome \<times> 'd" where
  "default_recover_stream reset d =
     (case reset d of (Panic, d') \<Rightarrow> (Panic, d') | (_, d') \<Rightarrow> (Ok (), d'))"

section \<open>Panic isolation\<close>

record 'd isolated_decoder =
  iso_inner :: 'd
  iso_info :: decoder_info
  iso_faulted :: bool

definition isolated_try_new ::
  "'d streaming_decoder \<Rightarrow> 'd \<Rightarrow> ('d isolated_decoder, decoder_error) outcome" where
  "isolated_try_new D d =
     (case dec_info D d of
        Ok i \<Rightarrow> Ok \<lparr>iso_inner = d, iso_info = i, iso_faulted = False\<rparr>
      | _ \<Rightarrow> Err (BackendPanic ''info''))"

text \<open>\<open>catch_unwind\<close> around one call: a panic latches, anything else is handed on.\<close>

definition isolate_call ::
  "string \<Rightarrow> ('d \<Rightarrow> ('a, decoder_error) outcome \<times> 'd) \<Rightarrow> 'd isolated_decoder
    \<Rightarrow> ('a, decoder_error) outcome \<times> 'd isolated_decoder" where
  "isolate_call name call w =
     (case call (iso_inner w) of
        (Panic, d) \<Rightarrow> (Err (BackendPanic name), w\<lparr>iso_inner := d, iso_faulted := True\<rparr>)
      | (r, d) \<Rightarrow> (r, w\<lparr>iso_inner := d\<rparr>))"

definition isolated_configure_stream :: "'d streaming_decoder \<Rightarrow> streaming_decoder_config
    \<Rightarrow> 'd isolated_decoder \<Rightarrow> (unit, decoder_error) outcome \<times> 'd isolated_decoder" where
  "isolated_configure_stream D c w =
     (if iso_faulted w then (Err BackendFaulted, w)
      else isolate_call ''configure_stream'' (dec_configure_stream D c) w)"

definition isolated_push_packet :: "'d streaming_decoder \<Rightarrow> decoder_packet
    \<Rightarrow> 'd isolated_decoder \<Rightarrow> (decoded_batch, decoder_error) outcome \<times> 'd isolated_decoder" where
  "isolated_push_packet D p w =
     (if iso_faulted w then (Err BackendFaulted, w)
      else isolate_call ''push_packet'' (dec_push_packet D p) w)"

definition isolated_reset_stream ::
  "'d streaming_decoder \<Rightarrow> 'd isolated_decoder \<Rightarrow> (unit, decoder_error) outcome \<times> 'd isolated_decoder" where
  "isolated_reset_stream D w =
     (if iso_faulted w then (Ok (), w)
      else case dec_reset_stream D (iso_inner w) of
        (Panic, d) \<Rightarrow> (Ok (), w\<lparr>iso_inner := d, iso_faulted := True\<rparr>)
      | (_, d) \<Rightarrow> (Ok (), w\<lparr>iso_inner := d\<rparr>))"

definition isolated_recover_stream ::
  "'d streaming_decoder \<Rightarrow> 'd isolated_decoder \<Rightarrow> (unit, decoder_error) outcome \<times> 'd isolated_decoder" where
  "isolated_recover_stream D w =
     (case dec_reset_stream D (iso_inner w) of
        (Panic, d) \<Rightarrow> (Err (BackendPanic ''recovery reset''), w\<lparr>iso_inner := d, iso_faulted := True\<rparr>)
      | (_, d) \<Rightarrow> (Ok (), w\<lparr>iso_inner := d, iso_faulted := False\<rparr>))"

definition isolated_vtable :: "'d streaming_decoder \<Rightarrow> 'd isolated_decoder streaming_decoder" where
  "isolated_vtable D =
     \<lparr>dec_info = (\<lambda>w. Ok (iso_info w)), dec_configure_stream = isolated_configure_stream D,
      dec_push_packet = isolated_push_packet D, dec_reset_stream = isolated_reset_stream D,
      dec_recover_stream = isolated_recover_stream D\<rparr>"

section \<open>The contract\<close>

text \<open>The calls other than recovery, and the state they leave.\<close>

datatype plain_call = PushCall decoder_packet | ConfigureCall streaming_decoder_config | ResetCall

fun decoder_call :: "'d streaming_decoder \<Rightarrow> plain_call \<Rightarrow> 'd \<Rightarrow> 'd" where
  "decoder_call D (PushCall p) d = snd (dec_push_packet D p d)"
| "decoder_call D (ConfigureCall c) d = snd (dec_configure_stream D c d)"
| "decoder_call D ResetCall d = snd (dec_reset_stream D d)"

text \<open>
  A decoder whose failures latch: no call panics, while faulted it refuses packets and stays as
  it is, and only a successful recovery ends the fault.
\<close>

locale latching_decoder =
  fixes D :: "'d streaming_decoder" and faulted :: "'d \<Rightarrow> bool"
  assumes no_panic: "dec_info D d \<noteq> Panic" "fst (dec_configure_stream D c d) \<noteq> Panic"
      "fst (dec_push_packet D p d) \<noteq> Panic" "fst (dec_reset_stream D d) \<noteq> Panic"
      "fst (dec_recover_stream D d) \<noteq> Panic"
    and faulted_push: "faulted d \<Longrightarrow> dec_push_packet D p d = (Err BackendFaulted, d)"
    and faulted_configure: "faulted d \<Longrightarrow> dec_configure_stream D c d = (Err BackendFaulted, d)"
    and faulted_reset: "faulted d \<Longrightarrow> dec_reset_stream D d = (Ok (), d)"
    and recover_Ok: "is_ok (fst (dec_recover_stream D d)) \<longleftrightarrow> \<not> faulted (snd (dec_recover_stream D d))"
begin

text \<open>Without a recovery a faulted decoder is the same decoder after any calls.\<close>

lemma faulted_calls: "faulted d \<Longrightarrow> fold (decoder_call D) calls d = d"
proof (induction calls)
  case (Cons call calls)
  then show ?case
    by (cases call) (simp_all add: faulted_push faulted_configure faulted_reset)
qed simp

lemma failed_recovery_silent:
  "\<not> is_ok (fst (dec_recover_stream D d)) \<Longrightarrow>
     fst (dec_push_packet D p (snd (dec_recover_stream D d))) = Err BackendFaulted"
  using recover_Ok [of d] by (simp add: faulted_push)

end

lemma isolated_vtable_simps [simp]:
  "dec_info (isolated_vtable D) w = Ok (iso_info w)"
  "dec_configure_stream (isolated_vtable D) = isolated_configure_stream D"
  "dec_push_packet (isolated_vtable D) = isolated_push_packet D"
  "dec_reset_stream (isolated_vtable D) = isolated_reset_stream D"
  "dec_recover_stream (isolated_vtable D) = isolated_recover_stream D"
  by (simp_all add: isolated_vtable_def)

lemma isolate_call_no_panic: "fst (isolate_call name call w) \<noteq> Panic"
  by (simp add: isolate_call_def split: prod.split outcome.split)

interpretation isolated: latching_decoder "isolated_vtable D" iso_faulted for D :: "'d streaming_decoder"
  by unfold_locales
    (auto simp: isolated_configure_stream_def isolated_push_packet_def isolated_reset_stream_def
      isolated_recover_stream_def isolate_call_no_panic split: prod.splits outcome.splits)

text \<open>
  C32: A backend that panics while it decodes a packet is caught and latched: the call returns the
  panic as an error, and from then on packets are refused without reaching the backend, whatever
  is called in between, until a recovery whose reset does not panic; that recovery hands packets
  to the backend again.
\<close>

theorem decoder_panic_latches:
  assumes "\<not> iso_faulted w" "dec_push_packet D p (iso_inner w) = (Panic, d)"
  shows "\<exists>w'. isolated_push_packet D p w = (Err (BackendPanic ''push_packet''), w')
    \<and> isolated_push_packet D q (fold (decoder_call (isolated_vtable D)) calls w') = (Err BackendFaulted, w')
    \<and> (is_ok (fst (isolated_recover_stream D w')) \<longleftrightarrow> fst (dec_reset_stream D d) \<noteq> Panic)
    \<and> (\<not> iso_faulted (snd (isolated_recover_stream D w')) \<longleftrightarrow> fst (dec_reset_stream D d) \<noteq> Panic)"
proof -
  let ?w = "w\<lparr>iso_inner := d, iso_faulted := True\<rparr>"
  have push: "isolated_push_packet D p w = (Err (BackendPanic ''push_packet''), ?w)"
    using assms by (simp add: isolated_push_packet_def isolate_call_def)
  have "fold (decoder_call (isolated_vtable D)) calls ?w = ?w"
    by (rule isolated.faulted_calls) simp
  moreover have "isolated_push_packet D q ?w = (Err BackendFaulted, ?w)"
    using isolated.faulted_push [of ?w D q] by simp
  moreover have "is_ok (fst (isolated_recover_stream D ?w)) \<longleftrightarrow> fst (dec_reset_stream D d) \<noteq> Panic"
    by (auto simp: isolated_recover_stream_def split: prod.split outcome.split)
  ultimately show ?thesis
    using push isolated.recover_Ok [of D ?w] by (intro exI [of _ ?w]) simp
qed

text \<open>A backend that panics on every packet and counts its resets.\<close>

definition panicking_decoder :: "nat streaming_decoder" where
  "panicking_decoder =
     \<lparr>dec_info = (\<lambda>_. Panic), dec_configure_stream = (\<lambda>_ d. (Ok (), d)), dec_push_packet = (\<lambda>_ d. (Panic, d)),
      dec_reset_stream = (\<lambda>d. (Ok (), d + 1)), dec_recover_stream = default_recover_stream (\<lambda>d. (Ok (), d + 1))\<rparr>"

definition panicking_wrapper :: "nat isolated_decoder" where
  "panicking_wrapper = \<lparr>iso_inner = 0, iso_info = \<lparr>di_name = [], di_production_ready = False,
     di_maturity = [], di_output_semantics = ChannelPcm\<rparr>, iso_faulted = False\<rparr>"

definition empty_packet :: decoder_packet where
  "empty_packet = \<lparr>pk_transport = RawElementary, pk_data_type = None, pk_payload = [], pk_discontinuity = False\<rparr>"

lemma decoder_panic_latches_witness:
  "\<exists>w' :: nat isolated_decoder.
     isolated_push_packet panicking_decoder empty_packet panicking_wrapper = (Err (BackendPanic ''push_packet''), w')
   \<and> isolated_push_packet panicking_decoder empty_packet (fold (decoder_call (isolated_vtable panicking_decoder))
       [ResetCall, PushCall empty_packet] w') = (Err BackendFaulted, w')
   \<and> is_ok (fst (isolated_recover_stream panicking_decoder w'))"
  using decoder_panic_latches [of panicking_wrapper panicking_decoder empty_packet 0 empty_packet
      "[ResetCall, PushCall empty_packet]"]
  by (auto simp: panicking_wrapper_def panicking_decoder_def)

end
