(* ===== verification/Basic_Renderer.thy ===== *)
theory Basic_Renderer
  imports Core_Scene
begin

text \<open>
  The geometric renderer, \<open>src/crates/aurora-renderer-basic/src/lib.rs\<close>: panning weights by
  distance in four modes, smoothing against the gains of the previous block, and the implementation
  of the renderer trait.  The power function of the mathematics library is the parameter \<open>powf\<close>.
\<close>

section \<open>Constants and state\<close>

definition DISTANCE_EPSILON :: f32 where "DISTANCE_EPSILON = 0x3A83126F"
definition COINCIDENT_EPSILON :: f32 where "COINCIDENT_EPSILON = 0x38D1B717"
definition SPEED_OF_SOUND :: f32 where "SPEED_OF_SOUND = 0x43AB8000"
definition one_f32 :: f32 where "one_f32 = 0x3F800000"
definition infinity_f32 :: f32 where "infinity_f32 = 0x7F800000"
definition epsilon_f32 :: f32 where "epsilon_f32 = 0x34000000"

datatype basic_renderer_mode = NearestSpeaker | InverseDistance | EqualPowerAdjacent | GeometricBinaural

record basic_renderer =
  gr_mode :: basic_renderer_mode
  gr_layout :: "speaker list"
  gr_sample_rate :: u32
  gr_block_size :: usize
  gr_max_objects :: usize
  gr_smoothing_alpha :: f32
  gr_previous_gains :: "f32 list"
  gr_configured :: bool

definition basic_new :: "basic_renderer_mode \<Rightarrow> basic_renderer" where
  "basic_new mode = \<lparr>gr_mode = mode, gr_layout = [], gr_sample_rate = 48000, gr_block_size = 256,
     gr_max_objects = 0, gr_smoothing_alpha = one_f32, gr_previous_gains = [], gr_configured = False\<rparr>"

definition with_smoothing :: "f32 \<Rightarrow> basic_renderer \<Rightarrow> basic_renderer" where
  "with_smoothing a r = r\<lparr>gr_smoothing_alpha := f32_clamp a 0 one_f32\<rparr>"

section \<open>Panning weights\<close>

definition db_to_gain :: "(f32 \<Rightarrow> f32 \<Rightarrow> f32) \<Rightarrow> f32 \<Rightarrow> f32" where
  "db_to_gain powf db = powf 0x41200000 (f32_div db 0x41A00000)"

definition fill :: "f32 \<Rightarrow> f32 list \<Rightarrow> f32 list" where
  "fill x ws = map (\<lambda>_. x) ws"

text \<open>\<open>1.0 / (d + DISTANCE_EPSILON).powi(2)\<close>\<close>

definition inverse_square :: "f32 \<Rightarrow> f32" where
  "inverse_square d = (let x = f32_add d DISTANCE_EPSILON in f32_div one_f32 (f32_mul x x))"

definition normalize_power :: "f32 list \<Rightarrow> f32 list" where
  "normalize_power ws =
     (let sum = fold (\<lambda>w s. f32_add s w) ws 0 in
      if f32_le sum epsilon_f32 \<or> \<not> f32_is_finite sum then fill 0 ws
      else map (\<lambda>w. f32_sqrt (f32_div w sum)) ws)"

fun nearest_scan :: "vector3 \<Rightarrow> nat \<Rightarrow> speaker list \<Rightarrow> nat \<times> f32 \<Rightarrow> nat \<times> f32" where
  "nearest_scan source i [] best = best"
| "nearest_scan source i (s # ss) best =
     (let d = distance_to source (sp_position s) in
      nearest_scan source (Suc i) ss (if f32_less d (snd best) then (i, d) else best))"

text \<open>\<open>get_mut(i)\<close> and the assignment through it: nothing out of range.\<close>

definition nearest_speaker_gains :: "speaker list \<Rightarrow> vector3 \<Rightarrow> f32 list \<Rightarrow> f32 list" where
  "nearest_speaker_gains speakers source ws =
     (fill 0 ws)[fst (nearest_scan source 0 speakers (0, infinity_f32)) := one_f32]"

fun inverse_scan :: "vector3 \<Rightarrow> nat \<Rightarrow> speaker list \<Rightarrow> f32 list \<Rightarrow> f32 list" where
  "inverse_scan source i [] ws = normalize_power ws"
| "inverse_scan source i (s # ss) ws =
     (let d = distance_to source (sp_position s) in
      if f32_less d COINCIDENT_EPSILON then (fill 0 ws)[i := one_f32]
      else inverse_scan source (Suc i) ss (ws[i := inverse_square d]))"

definition inverse_distance_gains :: "speaker list \<Rightarrow> vector3 \<Rightarrow> f32 list \<Rightarrow> f32 list" where
  "inverse_distance_gains speakers source ws = inverse_scan source 0 speakers (fill 0 ws)"

fun adjacent_scan :: "vector3 \<Rightarrow> nat \<Rightarrow> speaker list \<Rightarrow> nat \<times> f32 \<Rightarrow> nat \<times> f32
    \<Rightarrow> (nat \<times> f32) \<times> (nat \<times> f32)" where
  "adjacent_scan source i [] first second = (first, second)"
| "adjacent_scan source i (s # ss) first second =
     (let d = distance_to source (sp_position s) in
      if f32_less d (snd first) then adjacent_scan source (Suc i) ss (i, d) first
      else if f32_less d (snd second) then adjacent_scan source (Suc i) ss first (i, d)
      else adjacent_scan source (Suc i) ss first second)"

definition usize_max :: nat where "usize_max = 2 ^ 64 - 1"

definition adjacent_speaker_gains :: "speaker list \<Rightarrow> vector3 \<Rightarrow> f32 list \<Rightarrow> f32 list" where
  "adjacent_speaker_gains speakers source ws =
     (if length speakers \<le> 2 then inverse_distance_gains speakers source ws
      else
        let (first, second) = adjacent_scan source 0 speakers (usize_max, infinity_f32)
              (usize_max, infinity_f32) in
        normalize_power ((fill 0 ws)[fst first := inverse_square (snd first),
                                     fst second := inverse_square (snd second)]))"

section \<open>Headphones\<close>

text \<open>The positions of the ears, and the level differences of the two sides.\<close>

definition scale_2d :: "vector3 \<Rightarrow> f32 \<Rightarrow> vector3" where
  "scale_2d v n = vector3_new (f32_div (vx v) n) (f32_div (vy v) n) 0"

definition head_centre :: "listener \<Rightarrow> vector3" where
  "head_centre l = vector3_new (vx (ls_position l)) (vy (ls_position l))
     (f32_add (vz (ls_position l)) (ls_ear_height l))"

definition ear_offset :: "listener \<Rightarrow> vector3" where
  "ear_offset l =
     (let f = ls_orientation l; right = vector3_new (vy f) (f32_neg (vx f)) 0;
          n = vector_length right;
          unit = (if f32_less COINCIDENT_EPSILON n then scale_2d right n else vector3_new one_f32 0 0) in
      vector3_new (f32_mul (vx unit) 0x3DB33333) (f32_mul (vy unit) 0x3DB33333) 0)"

definition sin_azimuth :: "listener \<Rightarrow> vector3 \<Rightarrow> f32" where
  "sin_azimuth l p =
     (let to = vector3_sub p (head_centre l); to2 = vector3_new (vx to) (vy to) 0;
          n = vector_length to2; f = ls_orientation l; f2 = vector3_new (vx f) (vy f) 0;
          m = vector_length f2 in
      if f32_less COINCIDENT_EPSILON n \<and> f32_less COINCIDENT_EPSILON m then
        let t = scale_2d to2 n; g = scale_2d f2 m in
        f32_sub (f32_mul (vx g) (vy t)) (f32_mul (vy g) (vx t))
      else 0)"

definition head_shadow :: "f32 \<Rightarrow> f32" where
  "head_shadow x = f32_sub one_f32 (f32_mul (f32_max x 0) (f32_sub one_f32 0x3ECCCCCD))"

text \<open>The distances to the two ears and the weights before normalization.\<close>

definition binaural_ears :: "listener \<Rightarrow> vector3 \<Rightarrow> (f32 \<times> f32) \<times> (f32 \<times> f32)" where
  "binaural_ears l p =
     (let c = head_centre l; o' = ear_offset l; s = sin_azimuth l p;
          dl = distance_to p (vector3_sub c o');
          dr = distance_to p (vector3_new (f32_add (vx c) (vx o')) (f32_add (vy c) (vy o'))
                 (f32_add (vz c) (vz o'))) in
      ((dl, dr), (f32_mul (inverse_square dl) (head_shadow (f32_neg s)),
                  f32_mul (inverse_square dr) (head_shadow s))))"

section \<open>One object\<close>

definition smooth :: "f32 \<Rightarrow> f32 \<Rightarrow> f32 \<Rightarrow> f32" where
  "smooth alpha previous target =
     f32_add previous (f32_mul (f32_sub target previous) alpha)"

definition travel_samples :: "u32 \<Rightarrow> f32 \<Rightarrow> f32" where
  "travel_samples rate d = f32_mul (f32_div d SPEED_OF_SOUND) (f32_of_nat (unat rate))"

definition speaker_target :: "(f32 \<Rightarrow> f32 \<Rightarrow> f32) \<Rightarrow> render_object \<Rightarrow> speaker \<Rightarrow> f32 \<Rightarrow> f32" where
  "speaker_target powf ob s w = f32_mul (f32_mul w (db_to_gain powf (sp_gain_db s))) (ro_gain ob)"

definition speaker_result :: "u32 \<Rightarrow> render_object \<Rightarrow> speaker \<Rightarrow> nat \<Rightarrow> f32 \<Rightarrow> speaker_gain" where
  "speaker_result rate ob s i g =
     (let d = distance_to (ro_position ob) (sp_position s) in
      \<lparr>sg_speaker_index = of_nat i, sg_gain = g, sg_distance_meters = d,
       sg_delay_samples = f32_add (sp_delay_samples s) (travel_samples rate d)\<rparr>)"

text \<open>
  The loop over speakers, weights and results.  Index and bound are computed with checked
  arithmetic before the history is read.
\<close>

fun speaker_loop :: "(f32 \<Rightarrow> f32 \<Rightarrow> f32) \<Rightarrow> basic_renderer \<Rightarrow> nat \<Rightarrow> render_object \<Rightarrow> nat
    \<Rightarrow> speaker list \<Rightarrow> f32 list \<Rightarrow> speaker_gain list \<Rightarrow> f32 list
    \<Rightarrow> (unit, renderer_error) outcome \<times> speaker_gain list \<times> f32 list" where
  "speaker_loop powf r oi ob i (s # ss) (w # ws) (out # outs) history =
     (let count = length (gr_layout r); h = oi * count + i in
      if 2 ^ 64 \<le> h \<or> 2 ^ 64 \<le> unat (gr_max_objects r) * count then (Panic, out # outs, history)
      else case get_at history h of
        None \<Rightarrow> (Err (OutputBufferSize (gr_max_objects r * of_nat count) (of_nat (length history))),
                 out # outs, history)
      | Some previous \<Rightarrow>
          let g = smooth (gr_smoothing_alpha r) previous (speaker_target powf ob s w);
              (res, outs', history') =
                speaker_loop powf r oi ob (Suc i) ss ws outs (history[h := g]) in
          (res, speaker_result (gr_sample_rate r) ob s i g # outs', history'))"
| "speaker_loop powf r oi ob i ss ws outs history = (Ok (), outs, history)"

definition panning_weights ::
  "basic_renderer_mode \<Rightarrow> speaker list \<Rightarrow> vector3 \<Rightarrow> f32 list \<Rightarrow> f32 list" where
  "panning_weights mode speakers source ws =
     (case mode of
        NearestSpeaker \<Rightarrow> nearest_speaker_gains speakers source ws
      | InverseDistance \<Rightarrow> inverse_distance_gains speakers source ws
      | EqualPowerAdjacent \<Rightarrow> adjacent_speaker_gains speakers source ws
      | GeometricBinaural \<Rightarrow> ws)"

definition binaural_result :: "u32 \<Rightarrow> usize \<Rightarrow> f32 \<Rightarrow> f32 \<Rightarrow> speaker_gain" where
  "binaural_result rate i g d =
     \<lparr>sg_speaker_index = i, sg_gain = g, sg_distance_meters = d, sg_delay_samples = travel_samples rate d\<rparr>"

definition render_binaural :: "(f32 \<Rightarrow> f32 \<Rightarrow> f32) \<Rightarrow> nat \<Rightarrow> listener \<Rightarrow> render_object \<Rightarrow> basic_renderer
    \<Rightarrow> speaker_gain list \<Rightarrow> f32 list
    \<Rightarrow> (unit, renderer_error) outcome \<times> speaker_gain list \<times> f32 list \<times> f32 list" where
  "render_binaural powf oi l ob r outs ws =
     (let ((dl, dr), (wl, wr)) = binaural_ears l (ro_position ob); history = gr_previous_gains r in
      if length ws < 2 then (Panic, outs, ws[0 := wl], history)
      else
        let ws' = normalize_power (ws[0 := wl, 1 := wr]) in
        case gr_layout r of
          s0 # s1 # _ \<Rightarrow>
            if 2 ^ 64 \<le> oi * 2 + 1 \<or> length history \<le> oi * 2 then (Panic, outs, ws', history)
            else
              let gl = smooth (gr_smoothing_alpha r) (history ! (oi * 2)) (speaker_target powf ob s0 (ws' ! 0));
                  h1 = history[oi * 2 := gl] in
              if length history \<le> oi * 2 + 1 then (Panic, outs, ws', h1)
              else
                let gr = smooth (gr_smoothing_alpha r) (history ! (oi * 2 + 1)) (speaker_target powf ob s1 (ws' ! 1));
                    h2 = h1[oi * 2 + 1 := gr];
                    rl = binaural_result (gr_sample_rate r) 0 gl dl in
                if length outs < 2 then (Panic, outs[0 := rl], ws', h2)
                else (Ok (), outs[0 := rl, 1 := binaural_result (gr_sample_rate r) 1 gr dr], ws', h2)
        | _ \<Rightarrow> (Panic, outs, ws', history))"

text \<open>Returns the outcome, the slice of results, the weights and the renderer.\<close>

definition basic_render_object :: "(f32 \<Rightarrow> f32 \<Rightarrow> f32) \<Rightarrow> nat \<Rightarrow> listener \<Rightarrow> render_object
    \<Rightarrow> speaker_gain list \<Rightarrow> f32 list \<Rightarrow> basic_renderer
    \<Rightarrow> (unit, renderer_error) outcome \<times> speaker_gain list \<times> f32 list \<times> basic_renderer" where
  "basic_render_object powf oi l ob outs ws r =
     (if gr_mode r = GeometricBinaural then
        let (res, outs', ws', history) = render_binaural powf oi l ob r outs ws in
        (res, outs', ws', r\<lparr>gr_previous_gains := history\<rparr>)
      else
        let ws' = panning_weights (gr_mode r) (gr_layout r) (ro_position ob) ws;
            (res, outs', history) =
              speaker_loop powf r oi ob 0 (gr_layout r) ws' outs (gr_previous_gains r) in
        (res, outs', ws', r\<lparr>gr_previous_gains := history\<rparr>))"

section \<open>The trait\<close>

definition basic_configure :: "speaker list \<Rightarrow> u32 \<Rightarrow> usize \<Rightarrow> usize \<Rightarrow> basic_renderer
    \<Rightarrow> (unit, renderer_error) outcome \<times> basic_renderer" where
  "basic_configure layout rate block most r =
     (if rate = 0 \<or> block = 0 \<or> most = 0 then
        (Err (InvalidConfiguration
          ''sample rate, block size, and max objects must be greater than zero''), r)
      else
        let enabled = filter sp_enabled layout in
        if enabled = [] then (Err NoEnabledSpeakers, r)
        else if gr_mode r = GeometricBinaural \<and> map sp_channel_role enabled \<noteq> [FrontLeft, FrontRight]
        then (Err (InvalidConfiguration
          ''geometric binaural mode requires enabled output channels in canonical order [FrontLeft, FrontRight]''), r)
        else
          let r1 = r\<lparr>gr_layout := enabled, gr_sample_rate := rate, gr_block_size := block,
                gr_max_objects := most\<rparr> in
          if 2 ^ 64 \<le> length enabled * unat most then (Panic, r1)
          else (Ok (), r1\<lparr>gr_previous_gains := replicate (length enabled * unat most) 0,
                          gr_configured := True\<rparr>))"

definition basic_required_scratch_size :: "basic_renderer \<Rightarrow> (usize, renderer_error) outcome" where
  "basic_required_scratch_size r =
     (if gr_configured r then Ok (of_nat (length (gr_layout r))) else Err NotConfigured)"

fun object_loop :: "(f32 \<Rightarrow> f32 \<Rightarrow> f32) \<Rightarrow> nat \<Rightarrow> listener \<Rightarrow> nat \<Rightarrow> render_object list
    \<Rightarrow> speaker_gain list \<Rightarrow> f32 list \<Rightarrow> basic_renderer
    \<Rightarrow> (unit, renderer_error) outcome \<times> speaker_gain list \<times> f32 list \<times> basic_renderer" where
  "object_loop powf n l oi [] outs ws r = (Ok (), outs, ws, r)"
| "object_loop powf n l oi (ob # obs) outs ws r =
     (if length outs < n then (Ok (), outs, ws, r)
      else case basic_render_object powf oi l ob (take n outs) ws r of
        (Ok _, chunk, w1, r1) \<Rightarrow>
          (case object_loop powf n l (Suc oi) obs (drop n outs) w1 r1 of
             (res, outs', w2, r2) \<Rightarrow> (res, chunk @ outs', w2, r2))
      | (res, chunk, w1, r1) \<Rightarrow> (res, chunk @ drop n outs, w1, r1))"

definition basic_render_gains :: "(f32 \<Rightarrow> f32 \<Rightarrow> f32) \<Rightarrow> listener \<Rightarrow> render_object list
    \<Rightarrow> speaker_gain list \<Rightarrow> f32 list \<Rightarrow> basic_renderer
    \<Rightarrow> (unit, renderer_error) outcome \<times> speaker_gain list \<times> f32 list \<times> basic_renderer" where
  "basic_render_gains powf l objs gains scratch r =
     (let n = length (gr_layout r) in
      if \<not> gr_configured r then (Err NotConfigured, gains, scratch, r)
      else if unat (gr_max_objects r) < length objs
      then (Err (TooManyObjects (gr_max_objects r) (of_nat (length objs))), gains, scratch, r)
      else if 2 ^ 64 \<le> length objs * n then (Panic, gains, scratch, r)
      else if length gains \<noteq> length objs * n
      then (Err (OutputBufferSize (of_nat (length objs * n)) (of_nat (length gains))), gains, scratch, r)
      else if length scratch < n
      then (Err (ScratchBufferSize (of_nat n) (of_nat (length scratch))), gains, scratch, r)
      else if n = 0 then (Panic, gains, scratch, r)
      else
        let (res, gains', ws, r') = object_loop powf n l 0 objs gains (take n scratch) r in
        (res, gains', ws @ drop n scratch, r'))"

definition basic_reset :: "basic_renderer \<Rightarrow> basic_renderer" where
  "basic_reset r = r\<lparr>gr_previous_gains := fill 0 (gr_previous_gains r)\<rparr>"

definition basic_latency_frames :: "basic_renderer \<Rightarrow> usize" where
  "basic_latency_frames r = 0"

definition basic_output_channel_count :: "basic_renderer \<Rightarrow> usize" where
  "basic_output_channel_count r = of_nat (length (gr_layout r))"

definition basic_vtable :: "(f32 \<Rightarrow> f32 \<Rightarrow> f32) \<Rightarrow> basic_renderer renderer" where
  "basic_vtable powf =
     \<lparr>rd_dynamic_delay_values = (\<lambda>r. gr_mode r = GeometricBinaural), rd_configure = basic_configure,
      rd_required_scratch_size = basic_required_scratch_size,
      rd_render_gains = basic_render_gains powf, rd_reset = basic_reset,
      rd_latency_frames = basic_latency_frames, rd_output_channel_count = basic_output_channel_count\<rparr>"

text \<open>\<open>calculate_geometric_delays\<close>: alignment to the farthest enabled speaker.\<close>

record geometric_delay =
  gd_speaker_id :: string
  gd_channel_role :: channel_role
  gd_distance_meters :: f32
  gd_delay_samples :: f32
  gd_delay_milliseconds :: f32

definition farthest_enabled :: "speaker list \<Rightarrow> listener \<Rightarrow> f32" where
  "farthest_enabled speakers l =
     fold (\<lambda>d m. f32_max m d)
       (map (\<lambda>s. distance_to (sp_position s) (ls_position l)) (filter sp_enabled speakers)) 0"

definition delay_of :: "f32 \<Rightarrow> listener \<Rightarrow> u32 \<Rightarrow> f32 \<Rightarrow> speaker \<Rightarrow> geometric_delay" where
  "delay_of farthest l rate speed s =
     (let d = distance_to (sp_position s) (ls_position l);
          t = (if sp_enabled s \<and> f32_less 0 speed
               then f32_div (f32_max (f32_sub farthest d) 0) speed else 0) in
      \<lparr>gd_speaker_id = sp_id s, gd_channel_role = sp_channel_role s, gd_distance_meters = d,
       gd_delay_samples = f32_mul t (f32_of_nat (unat rate)),
       gd_delay_milliseconds = f32_mul t 0x447A0000\<rparr>)"

definition calculate_geometric_delays ::
  "speaker list \<Rightarrow> listener \<Rightarrow> u32 \<Rightarrow> f32 \<Rightarrow> geometric_delay list" where
  "calculate_geometric_delays speakers l rate speed =
     map (delay_of (farthest_enabled speakers l) l rate speed) speakers"

section \<open>Shapes\<close>

lemma length_fill [simp]: "length (fill x ws) = length ws"
  by (simp add: fill_def)

lemma fill_eq_replicate: "fill x ws = replicate (length ws) x"
  by (simp add: fill_def map_replicate_const)

lemma length_normalize_power [simp]: "length (normalize_power ws) = length ws"
  by (simp add: normalize_power_def Let_def)

lemma length_inverse_scan [simp]: "length (inverse_scan source i ss ws) = length ws"
  by (induction source i ss ws rule: inverse_scan.induct) (simp_all add: Let_def)

lemma length_panning_weights [simp]: "length (panning_weights m ss p ws) = length ws"
  by (simp add: panning_weights_def nearest_speaker_gains_def inverse_distance_gains_def
      adjacent_speaker_gains_def split: basic_renderer_mode.split prod.split)

text \<open>The scratch only lends its space: its old contents do not matter.\<close>

lemma panning_weights_fresh:
  assumes "m \<noteq> GeometricBinaural"
  shows "panning_weights m ss p ws = panning_weights m ss p (replicate (length ws) 0)"
  using assms
  by (cases m) (simp_all add: panning_weights_def nearest_speaker_gains_def
      inverse_distance_gains_def adjacent_speaker_gains_def fill_eq_replicate)

lemma speaker_loop_shape:
  "speaker_loop powf r oi ob i ss ws outs history = (res, outs', history') \<Longrightarrow>
     length outs' = length outs \<and> length history' = length history"
proof (induction ss arbitrary: i ws outs history res outs' history')
  case (Cons s ss)
  show ?case
  proof (cases "ws = [] \<or> outs = []")
    case True
    then show ?thesis using Cons.prems by (cases ws) auto
  next
    case False
    then obtain w ws1 out outs1 where lists: "ws = w # ws1" "outs = out # outs1"
      by (auto simp: neq_Nil_conv)
    show ?thesis using Cons.prems Cons.IH unfolding lists
      by (fastforce simp: Let_def simp del: get_at_Some get_at_None
          split: if_splits option.splits prod.splits)
  qed
qed auto

lemma length_render_binaural:
  "(case render_binaural powf oi l ob r outs ws of (res, outs', ws', history) \<Rightarrow>
     length outs' = length outs \<and> length ws' = length ws
     \<and> length history = length (gr_previous_gains r))"
  by (simp add: render_binaural_def Let_def split: prod.split list.split)

lemma basic_render_object_shape:
  assumes "basic_render_object powf oi l ob outs ws r = (res, outs', ws', r')"
  shows "length outs' = length outs \<and> length ws' = length ws
     \<and> r' = r\<lparr>gr_previous_gains := gr_previous_gains r'\<rparr>
     \<and> length (gr_previous_gains r') = length (gr_previous_gains r)"
proof (cases "gr_mode r = GeometricBinaural")
  case True
  then show ?thesis
    using assms length_render_binaural [where powf = powf and oi = oi and l = l and ob = ob and r = r and outs = outs and ws = ws]
    by (auto simp: basic_render_object_def split: prod.splits)
next
  case False
  then show ?thesis
    using assms speaker_loop_shape [of powf r oi ob 0 "gr_layout r"
      "panning_weights (gr_mode r) (gr_layout r) (ro_position ob) ws" outs "gr_previous_gains r"]
    by (auto simp: basic_render_object_def Let_def split: prod.splits)
qed

lemma object_loop_shape:
  "object_loop powf n l oi obs outs ws r = (res, outs', ws', r') \<Longrightarrow>
     length outs' = length outs \<and> length ws' = length ws
     \<and> r' = r\<lparr>gr_previous_gains := gr_previous_gains r'\<rparr>
     \<and> length (gr_previous_gains r') = length (gr_previous_gains r)"
proof (induction obs arbitrary: oi outs ws r res outs' ws' r')
  case (Cons ob obs)
  show ?case
  proof (cases "length outs < n")
    case True
    then show ?thesis using Cons.prems by simp
  next
    case False
    obtain res1 chunk w1 r1 where one:
      "basic_render_object powf oi l ob (take n outs) ws r = (res1, chunk, w1, r1)"
      by (metis prod_cases4)
    note shape = basic_render_object_shape [OF one]
    show ?thesis
    proof (cases "is_ok res1")
      case True
      then obtain u where ok: "res1 = Ok u" by (cases res1) auto
      obtain res2 outs2 w2 r2 where rest:
        "object_loop powf n l (Suc oi) obs (drop n outs) w1 r1 = (res2, outs2, w2, r2)"
        by (metis prod_cases4)
      have out: "outs' = chunk @ outs2" "ws' = w2" "r' = r2"
        using Cons.prems False one ok rest by auto
      note IH = Cons.IH [OF rest]
      then have "r2 = r\<lparr>gr_previous_gains := gr_previous_gains r2\<rparr>"
        using shape by (cases r2; cases r1; cases r) auto
      then show ?thesis using IH shape False by (simp add: out)
    next
      case notok: False
      then have "outs' = chunk @ drop n outs" "ws' = w1" "r' = r1"
        using Cons.prems False one by (cases res1; simp)+
      then show ?thesis using shape False by simp
    qed
  qed
qed simp

lemma basic_render_gains_shape:
  assumes "basic_render_gains powf l objs gains scratch r = (res, gains', scratch', r')"
  shows "length gains' = length gains \<and> length scratch' = length scratch
     \<and> r' = r\<lparr>gr_previous_gains := gr_previous_gains r'\<rparr>
     \<and> length (gr_previous_gains r') = length (gr_previous_gains r)"
proof -
  let ?n = "length (gr_layout r)"
  obtain res1 gains1 w1 r1 where loop:
    "object_loop powf ?n l 0 objs gains (take ?n scratch) r = (res1, gains1, w1, r1)"
    by (metis prod_cases4)
  then show ?thesis using assms object_loop_shape [OF loop]
    by (auto simp: basic_render_gains_def Let_def split: if_splits)
qed

section \<open>What is rendered\<close>

text \<open>The gains of one object from the weights and the gains of the previous block.\<close>

definition smoothed :: "(f32 \<Rightarrow> f32 \<Rightarrow> f32) \<Rightarrow> f32 \<Rightarrow> render_object \<Rightarrow> speaker list \<Rightarrow> f32 list
    \<Rightarrow> f32 list \<Rightarrow> f32 list" where
  "smoothed powf alpha ob ss ws previous =
     map (\<lambda>(s, w, p). smooth alpha p (speaker_target powf ob s w)) (zip ss (zip ws previous))"

definition results_from :: "u32 \<Rightarrow> render_object \<Rightarrow> nat \<Rightarrow> speaker list \<Rightarrow> f32 list \<Rightarrow> speaker_gain list" where
  "results_from rate ob i ss gs =
     map (\<lambda>(j, s, g). speaker_result rate ob s j g) (zip [i..<i + length ss] (zip ss gs))"

lemma results_from_Cons:
  "results_from rate ob i (s # ss) (g # gs) =
     speaker_result rate ob s i g # results_from rate ob (Suc i) ss gs"
  by (simp add: results_from_def upt_conv_Cons del: upt_Suc)

lemma speaker_loop_value:
  assumes "length ws = length ss" "length outs = length ss"
    and "oi * length (gr_layout r) + i + length ss \<le> length history" "length history < 2 ^ 64"
    and bound: "unat (gr_max_objects r) * length (gr_layout r) < 2 ^ 64"
    and h: "h = oi * length (gr_layout r) + i"
    and gs: "gs = smoothed powf (gr_smoothing_alpha r) ob ss ws (drop h history)"
  shows "speaker_loop powf r oi ob i ss ws outs history =
    (Ok (), results_from (gr_sample_rate r) ob i ss gs,
     take h history @ gs @ drop (h + length ss) history)"
  using assms(1-4) h gs
proof (induction ss arbitrary: i ws outs history h gs)
  case Nil
  then show ?case by (simp add: results_from_def smoothed_def)
next
  case (Cons s ss)
  obtain w ws1 out outs1 where lists: "ws = w # ws1" "outs = out # outs1"
    using Cons.prems(1,2) by (cases ws; cases outs) auto
  let ?n = "length (gr_layout r)"
  have hl: "h < length history" using Cons.prems(3,5) by simp
  define g where "g = smooth (gr_smoothing_alpha r) (history ! h) (speaker_target powf ob s w)"
  define gs1 where "gs1 = smoothed powf (gr_smoothing_alpha r) ob ss ws1 (drop (Suc h) (history[h := g]))"
  have IH: "speaker_loop powf r oi ob (Suc i) ss ws1 outs1 (history[h := g]) =
      (Ok (), results_from (gr_sample_rate r) ob (Suc i) ss gs1,
       take (Suc h) (history[h := g]) @ gs1 @ drop (Suc h + length ss) (history[h := g]))"
    by (rule Cons.IH) (use Cons.prems lists in \<open>simp_all add: gs1_def\<close>)
  have "drop h history = history ! h # drop (Suc h) history" using hl by (simp add: Cons_nth_drop_Suc)
  then have gs: "gs = g # gs1"
    unfolding Cons.prems(6) lists by (simp add: smoothed_def g_def gs1_def)
  have "get_at history h = Some (history ! h)" using hl by simp
  moreover have "\<not> 2 ^ 64 \<le> h" using hl Cons.prems(4) by linarith
  ultimately show ?case
    unfolding lists gs results_from_Cons
    using bound IH hl
    by (simp add: Let_def Cons.prems(5) [symmetric] g_def [symmetric] take_Suc_conv_app_nth
        del: get_at_Some)
qed

text \<open>
  A renderer's invariant: once configured it has speakers and a history slot for every speaker of
  every object, and headphones have two.
\<close>

definition basic_ok :: "basic_renderer \<Rightarrow> bool" where
  "basic_ok r \<longleftrightarrow> (gr_configured r \<longrightarrow>
     gr_layout r \<noteq> [] \<and> unat (gr_max_objects r) * length (gr_layout r) < 2 ^ 64
     \<and> length (gr_previous_gains r) = unat (gr_max_objects r) * length (gr_layout r)
     \<and> (gr_mode r = GeometricBinaural \<longrightarrow> length (gr_layout r) = 2))"

lemma basic_ok_history:
  "basic_ok r \<Longrightarrow> length history = length (gr_previous_gains r) \<Longrightarrow> basic_ok (r\<lparr>gr_previous_gains := history\<rparr>)"
  by (simp add: basic_ok_def)

lemma history_room:
  assumes "basic_ok r" "gr_configured r" "oi < unat (gr_max_objects r)"
  shows "oi * length (gr_layout r) + length (gr_layout r) \<le> length (gr_previous_gains r)"
    "length (gr_previous_gains r) < 2 ^ 64"
proof -
  have "Suc oi * length (gr_layout r) \<le> unat (gr_max_objects r) * length (gr_layout r)"
    using assms(3) by (intro mult_le_mono1) simp
  then show "oi * length (gr_layout r) + length (gr_layout r) \<le> length (gr_previous_gains r)"
    "length (gr_previous_gains r) < 2 ^ 64"
    using assms(1,2) by (simp_all add: basic_ok_def)
qed

lemma basic_render_object_Ok:
  assumes "basic_ok r" "gr_configured r" "oi < unat (gr_max_objects r)"
    and "length outs = length (gr_layout r)" "length ws = length (gr_layout r)"
  shows "fst (basic_render_object powf oi l ob outs ws r) = Ok ()"
proof (cases "gr_mode r = GeometricBinaural")
  case True
  then have two: "length (gr_layout r) = 2" using assms(1,2) by (simp add: basic_ok_def)
  then obtain s0 s1 where "gr_layout r = [s0, s1]"
    by (auto simp: length_Suc_conv numeral_2_eq_2)
  then show ?thesis using True two assms(4,5) history_room [OF assms(1-3)]
    by (simp add: basic_render_object_def render_binaural_def Let_def split: prod.split)
next
  case False
  have "unat (gr_max_objects r) * length (gr_layout r) < 2 ^ 64" using assms(1,2) by (simp add: basic_ok_def)
  note loop = speaker_loop_value [OF _ _ _ _ this refl refl]
  show ?thesis using False assms(4,5) history_room [OF assms(1-3)]
    by (simp add: basic_render_object_def loop Let_def)
qed

text \<open>The gains of object number \<open>oi\<close> in the next block.\<close>

definition object_gains :: "(f32 \<Rightarrow> f32 \<Rightarrow> f32) \<Rightarrow> basic_renderer \<Rightarrow> nat \<times> render_object \<Rightarrow> f32 list" where
  "object_gains powf r = (\<lambda>(oi, ob). smoothed powf (gr_smoothing_alpha r) ob (gr_layout r)
     (panning_weights (gr_mode r) (gr_layout r) (ro_position ob) (replicate (length (gr_layout r)) 0))
     (take (length (gr_layout r)) (drop (oi * length (gr_layout r)) (gr_previous_gains r))))"

definition object_results :: "(f32 \<Rightarrow> f32 \<Rightarrow> f32) \<Rightarrow> basic_renderer \<Rightarrow> nat \<times> render_object \<Rightarrow> speaker_gain list" where
  "object_results powf r x =
     results_from (gr_sample_rate r) (snd x) 0 (gr_layout r) (object_gains powf r x)"

lemma length_object_gains:
  "basic_ok r \<Longrightarrow> gr_configured r \<Longrightarrow> fst x < unat (gr_max_objects r)
    \<Longrightarrow> length (object_gains powf r x) = length (gr_layout r)"
  using history_room [of r "fst x"] by (cases x) (simp add: object_gains_def smoothed_def)

lemma smoothed_take:
  "length ss \<le> n \<Longrightarrow> smoothed powf a ob ss ws (take n ps) = smoothed powf a ob ss ws ps"
  by (rule nth_equalityI) (auto simp: smoothed_def)

lemma basic_render_object_value:
  assumes "basic_ok r" "gr_configured r" "oi < unat (gr_max_objects r)"
    and mode: "gr_mode r \<noteq> GeometricBinaural"
    and "length outs = length (gr_layout r)" "length ws = length (gr_layout r)"
    and n: "n = length (gr_layout r)"
  shows "\<exists>ws'. length ws' = n \<and> basic_render_object powf oi l ob outs ws r =
    (Ok (), object_results powf r (oi, ob), ws', r\<lparr>gr_previous_gains :=
       take (oi * n) (gr_previous_gains r) @ object_gains powf r (oi, ob)
         @ drop (oi * n + n) (gr_previous_gains r)\<rparr>)"
proof -
  have bound: "unat (gr_max_objects r) * length (gr_layout r) < 2 ^ 64"
    using assms(1,2) by (simp add: basic_ok_def)
  note loop = speaker_loop_value [OF _ _ _ _ bound refl refl]
  show ?thesis
    using mode assms(5,6) history_room [OF assms(1-3)]
    by (simp add: basic_render_object_def loop Let_def object_results_def object_gains_def n
        smoothed_take panning_weights_fresh [OF mode, of _ _ ws])
qed

lemma history_replaced:
  assumes "length gs = n" "oi * n + n \<le> length ps" "oi < oj"
  shows "drop (oj * n) (take (oi * n) ps @ gs @ drop (oi * n + n) ps) = drop (oj * n) ps"
proof -
  have "oi * n + n \<le> oj * n" using mult_le_mono1 [of "Suc oi" oj n] assms(3) by simp
  then show ?thesis using assms by simp
qed

lemma object_gains_later:
  assumes "length gs = length (gr_layout r)" "oi < oj"
    and "oi * length (gr_layout r) + length (gr_layout r) \<le> length (gr_previous_gains r)"
  shows "object_gains powf (r\<lparr>gr_previous_gains := take (oi * length (gr_layout r)) (gr_previous_gains r)
      @ gs @ drop (oi * length (gr_layout r) + length (gr_layout r)) (gr_previous_gains r)\<rparr>) (oj, ob)
    = object_gains powf r (oj, ob)"
  by (simp add: object_gains_def history_replaced [OF assms(1,3,2)] del: drop_append take_append)

lemma object_loop_value:
  assumes "basic_ok r" "gr_configured r" "oi + length obs \<le> unat (gr_max_objects r)"
    and "gr_mode r \<noteq> GeometricBinaural" "n = length (gr_layout r)"
    and "length outs = length obs * n" "length ws = n"
  shows "\<exists>ws'. object_loop powf n l oi obs outs ws r =
    (Ok (), concat (map (object_results powf r) (enumerate oi obs)), ws', r\<lparr>gr_previous_gains :=
       take (oi * n) (gr_previous_gains r) @ concat (map (object_gains powf r) (enumerate oi obs))
         @ drop ((oi + length obs) * n) (gr_previous_gains r)\<rparr>)"
  using assms
proof (induction obs arbitrary: oi outs ws r)
  case (Cons ob obs)
  let ?ps = "gr_previous_gains r"
  let ?g = "object_gains powf r (oi, ob)"
  define r1 where "r1 = r\<lparr>gr_previous_gains := take (oi * n) ?ps @ ?g @ drop (oi * n + n) ?ps\<rparr>"
  have oi: "oi < unat (gr_max_objects r)" using Cons.prems(3) by simp
  have glen: "length ?g = n" using length_object_gains [OF Cons.prems(1,2)] oi Cons.prems(5) by simp
  have room: "oi * n + n \<le> length ?ps" using history_room(1) [OF Cons.prems(1,2) oi] Cons.prems(5) by simp
  obtain w1 where w1: "length w1 = n" "basic_render_object powf oi l ob (take n outs) ws r =
      (Ok (), object_results powf r (oi, ob), w1, r1)"
    using basic_render_object_value [OF Cons.prems(1,2) oi Cons.prems(4) _ _ Cons.prems(5), of "take n outs" ws powf l ob]
      Cons.prems(5-7) by (auto simp: r1_def)
  have r1ok: "basic_ok r1" unfolding r1_def
    by (rule basic_ok_history [OF Cons.prems(1)]) (use glen room in simp)
  obtain ws' where rest: "object_loop powf n l (Suc oi) obs (drop n outs) w1 r1 =
    (Ok (), concat (map (object_results powf r1) (enumerate (Suc oi) obs)), ws', r1\<lparr>gr_previous_gains :=
       take (Suc oi * n) (gr_previous_gains r1) @ concat (map (object_gains powf r1) (enumerate (Suc oi) obs))
         @ drop ((Suc oi + length obs) * n) (gr_previous_gains r1)\<rparr>)"
    using Cons.IH [OF r1ok, of "Suc oi" "drop n outs" w1] Cons.prems w1 by (auto simp: r1_def)
  have later: "object_gains powf r1 x = object_gains powf r x" if "x \<in> set (enumerate (Suc oi) obs)" for x
    using that object_gains_later [OF glen [unfolded Cons.prems(5)], of oi "fst x" powf "snd x"] room Cons.prems(5)
    by (auto simp: r1_def in_set_enumerate_eq)
  have gains: "map (object_gains powf r1) (enumerate (Suc oi) obs) = map (object_gains powf r) (enumerate (Suc oi) obs)"
    and results: "map (object_results powf r1) (enumerate (Suc oi) obs) = map (object_results powf r) (enumerate (Suc oi) obs)"
    using later by (auto simp: object_results_def r1_def)
  have before: "take (Suc oi * n) (gr_previous_gains r1) = take (oi * n) ?ps @ ?g"
    using glen room by (simp add: r1_def)
  have after: "drop ((Suc oi + length obs) * n) (gr_previous_gains r1) = drop ((oi + length (ob # obs)) * n) ?ps"
    using history_replaced [OF glen room, of "Suc oi + length obs"] by (simp add: r1_def)
  have "\<not> length outs < n" using Cons.prems(6) by simp
  moreover have "r1\<lparr>gr_previous_gains := p\<rparr> = r\<lparr>gr_previous_gains := p\<rparr>" for p by (simp add: r1_def)
  ultimately show ?case
    using rest [unfolded gains results before after] w1 by simp
qed simp

section \<open>Invariant and contract\<close>

lemma basic_ok_new: "basic_ok (basic_new mode)"
  by (simp add: basic_ok_def basic_new_def)

lemma basic_ok_configure:
  "basic_ok r \<Longrightarrow> fst (basic_configure layout rate block most r) \<noteq> Panic
    \<Longrightarrow> basic_ok (snd (basic_configure layout rate block most r))"
  using arg_cong [where f = length, of "map sp_channel_role (filter sp_enabled layout)" "[FrontLeft, FrontRight]"]
  by (auto simp: basic_ok_def basic_configure_def Let_def mult.commute)

lemma basic_configured_ok:
  "fst (basic_configure layout rate block most r) = Ok ()
    \<Longrightarrow> basic_ok (snd (basic_configure layout rate block most r))"
  using arg_cong [where f = length, of "map sp_channel_role (filter sp_enabled layout)" "[FrontLeft, FrontRight]"]
  by (auto simp: basic_ok_def basic_configure_def Let_def mult.commute split: if_splits)

lemma basic_ok_reset: "basic_ok r \<Longrightarrow> basic_ok (basic_reset r)"
  unfolding basic_reset_def by (rule basic_ok_history) simp_all

lemma basic_ok_render:
  "basic_ok r \<Longrightarrow> basic_ok (snd (snd (snd (basic_render_gains powf l objs gains scratch r))))"
  using basic_render_gains_shape basic_ok_history by (metis prod.collapse)

lemma object_loop_Ok:
  assumes "basic_ok r" "gr_configured r" "oi + length obs \<le> unat (gr_max_objects r)"
    and "length ws = length (gr_layout r)"
  shows "fst (object_loop powf (length (gr_layout r)) l oi obs outs ws r) = Ok ()"
  using assms
proof (induction obs arbitrary: oi outs ws r)
  case (Cons ob obs)
  let ?n = "length (gr_layout r)"
  show ?case
  proof (cases "length outs < ?n")
    case False
    obtain res chunk w1 r1 where one:
      "basic_render_object powf oi l ob (take ?n outs) ws r = (res, chunk, w1, r1)"
      by (metis prod_cases4)
    note shape = basic_render_object_shape [OF one]
    have res: "res = Ok ()"
      using basic_render_object_Ok [OF Cons.prems(1,2), of oi "take ?n outs" ws powf l ob]
        Cons.prems(3,4) False one by simp
    have "basic_ok r1" "gr_layout r1 = gr_layout r" "gr_configured r1" "gr_max_objects r1 = gr_max_objects r"
      using shape basic_ok_history [OF Cons.prems(1), of "gr_previous_gains r1"] Cons.prems(2)
      by (metis basic_renderer.select_convs basic_renderer.surjective basic_renderer.update_convs(7))+
    then have "fst (object_loop powf ?n l (Suc oi) obs (drop ?n outs) w1 r1) = Ok ()"
      using Cons.IH [of r1 "Suc oi" w1 "drop ?n outs"] Cons.prems(3,4) shape by simp
    then show ?thesis using False one res by (auto split: prod.split)
  qed simp
qed simp

lemma objects_bound:
  assumes "basic_ok r" "gr_configured r" "k \<le> unat (gr_max_objects r)"
  shows "k * length (gr_layout r) < 2 ^ 64" "gr_layout r \<noteq> []"
  using le_less_trans [OF mult_le_mono1 [OF assms(3)]] assms(1,2) by (simp_all add: basic_ok_def)

lemma basic_render_no_panic:
  assumes "basic_ok r"
  shows "fst (basic_render_gains powf l objs gains scratch r) \<noteq> Panic"
proof (cases "gr_configured r \<and> length objs \<le> unat (gr_max_objects r)")
  case True
  let ?n = "length (gr_layout r)"
  note objects_bound [OF assms, of "length objs"]
  moreover have "fst (object_loop powf ?n l 0 objs gains (take ?n scratch) r) = Ok ()" if "?n \<le> length scratch"
    by (rule object_loop_Ok [OF assms]) (use True that in simp_all)
  ultimately show ?thesis using True
    by (auto simp: basic_render_gains_def Let_def split: prod.split)
qed (auto simp: basic_render_gains_def Let_def)

interpretation basic: sound_renderer "basic_vtable powf" basic_ok for powf
  by unfold_locales
    (auto simp: basic_vtable_def basic_required_scratch_size_def
      intro: basic_configured_ok basic_ok_reset basic_ok_render
      dest: basic_render_no_panic,
     (metis basic_render_gains_shape prod.collapse)+)

section \<open>Properties\<close>

inductive basic_reachable :: "(f32 \<Rightarrow> f32 \<Rightarrow> f32) \<Rightarrow> basic_renderer \<Rightarrow> bool" for powf where
  br_new: "basic_reachable powf (basic_new mode)"
| br_smoothing: "basic_reachable powf r \<Longrightarrow> basic_reachable powf (with_smoothing a r)"
| br_configure: "basic_reachable powf r \<Longrightarrow> fst (basic_configure layout rate block most r) \<noteq> Panic
    \<Longrightarrow> basic_reachable powf (snd (basic_configure layout rate block most r))"
| br_render: "basic_reachable powf r
    \<Longrightarrow> basic_reachable powf (snd (snd (snd (basic_render_gains powf l objs gains scratch r))))"
| br_reset: "basic_reachable powf r \<Longrightarrow> basic_reachable powf (basic_reset r)"

lemma basic_reachable_ok: "basic_reachable powf r \<Longrightarrow> basic_ok r"
proof (induction rule: basic_reachable.induct)
  case (br_smoothing r a)
  then show ?case by (simp add: basic_ok_def with_smoothing_def)
qed (simp_all add: basic_ok_new basic_ok_configure basic_ok_render basic_ok_reset)

text \<open>Distance \<open>d\<close> is that of the first speaker that no other is nearer than.\<close>

definition first_minimum :: "vector3 \<Rightarrow> speaker list \<Rightarrow> nat \<Rightarrow> f32 \<Rightarrow> bool" where
  "first_minimum source ss j d \<longleftrightarrow> j < length ss \<and> distance_to source (sp_position (ss ! j)) = d
     \<and> (\<forall>m<j. \<not> f32_le (distance_to source (sp_position (ss ! m))) d)"

lemma first_minimum_Suc:
  "first_minimum source ss j d \<Longrightarrow> \<not> f32_le (distance_to source (sp_position s)) d
    \<Longrightarrow> first_minimum source (s # ss) (Suc j) d"
  by (auto simp: first_minimum_def nth_Cons split: nat.split)

lemma nearest_scan_first:
  "nearest_scan source i ss (b, d) = (k, d') \<Longrightarrow>
     (\<forall>s\<in>set ss. \<not> f32_less (distance_to source (sp_position s)) d')
   \<and> ((k, d') = (b, d) \<or> (\<exists>j. k = i + j \<and> f32_less d' d \<and> first_minimum source ss j d'))"
proof (induction ss arbitrary: i b d)
  case (Cons s ss)
  let ?d = "distance_to source (sp_position s)"
  show ?case
  proof (cases "f32_less ?d d")
    case True
    then have scan: "nearest_scan source (Suc i) ss (i, ?d) = (k, d')" using Cons.prems by simp
    from Cons.IH [OF this]
    have rest: "\<forall>s\<in>set ss. \<not> f32_less (distance_to source (sp_position s)) d'"
      and "(k, d') = (i, ?d) \<or> (\<exists>j. k = Suc i + j \<and> f32_less d' ?d \<and> first_minimum source ss j d')"
      by auto
    then consider "k = i" "d' = ?d" | j where "k = Suc i + j" "f32_less d' ?d" "first_minimum source ss j d'"
      by blast
    then show ?thesis
    proof cases
      case 1
      then have "first_minimum source (s # ss) 0 d'" by (simp add: first_minimum_def)
      then show ?thesis using rest 1 True by auto
    next
      case 2
      then have "f32_less d' d" "\<not> f32_less ?d d'" "\<not> f32_le ?d d'"
        using f32_less_trans [OF 2(2) True] by (simp_all add: f32_less_def)
      then show ?thesis using rest 2(1) first_minimum_Suc [OF 2(3)] by auto
    qed
  next
    case False
    then have scan: "nearest_scan source (Suc i) ss (b, d) = (k, d')" using Cons.prems by simp
    from Cons.IH [OF this]
    have rest: "\<forall>s\<in>set ss. \<not> f32_less (distance_to source (sp_position s)) d'"
      and "(k, d') = (b, d) \<or> (\<exists>j. k = Suc i + j \<and> f32_less d' d \<and> first_minimum source ss j d')"
      by auto
    then consider "k = b" "d' = d" | j where "k = Suc i + j" "f32_less d' d" "first_minimum source ss j d'"
      by blast
    then show ?thesis
    proof cases
      case 1
      then show ?thesis using rest False by auto
    next
      case 2
      then have "\<not> f32_less ?d d'" "\<not> f32_le ?d d'"
        using False f32_less_trans f32_le_less_trans by blast+
      then show ?thesis using rest 2(1,2) first_minimum_Suc [OF 2(3)] by auto
    qed
  qed
qed simp

text \<open>
  C33: In every reachable renderer, in the modes that pan between loudspeakers, a block of at most
  \<open>max_objects\<close> objects with buffers of the reported sizes always succeeds.  The gain of object
  \<open>o\<close> on speaker \<open>s\<close> stands at its place in object-major order, is the panning weight times the
  speaker's trim times the object's gain, smoothed from the gain of the previous block, and is
  what the next block starts from; the histories of the other objects are kept.
\<close>

theorem basic_renderer_renders:
  assumes "basic_reachable powf r" "gr_configured r" "gr_mode r \<noteq> GeometricBinaural"
    and "length objs \<le> unat (gr_max_objects r)"
    and "length gains = length objs * length (gr_layout r)" "length (gr_layout r) \<le> length scratch"
  shows "\<exists>scratch'. basic_render_gains powf l objs gains scratch r =
    (Ok (), concat (map (object_results powf r) (enumerate 0 objs)), scratch',
     r\<lparr>gr_previous_gains := concat (map (object_gains powf r) (enumerate 0 objs))
         @ drop (length objs * length (gr_layout r)) (gr_previous_gains r)\<rparr>)"
proof -
  let ?n = "length (gr_layout r)"
  have ok: "basic_ok r" using assms(1) by (rule basic_reachable_ok)
  show ?thesis
    using objects_bound [OF ok assms(2,4)]
      object_loop_value [OF ok assms(2) _ assms(3) refl, of 0 objs gains "take ?n scratch" powf l] assms(2,4-6)
    by (auto simp: basic_render_gains_def Let_def)
qed

text \<open>
  Nearest-speaker panning gives the whole object to one speaker: the first one that no other
  is nearer than, whenever some speaker is at a finite distance.
\<close>

theorem nearest_speaker_first_minimum:
  assumes "\<exists>s\<in>set ss. f32_less (distance_to source (sp_position s)) infinity_f32"
  shows "\<exists>i<length ss. nearest_speaker_gains ss source ws = (replicate (length ws) 0)[i := one_f32]
    \<and> (\<forall>s\<in>set ss. \<not> f32_less (distance_to source (sp_position s)) (distance_to source (sp_position (ss ! i))))
    \<and> (\<forall>m<i. \<not> f32_le (distance_to source (sp_position (ss ! m))) (distance_to source (sp_position (ss ! i))))"
proof -
  obtain k d where scan: "nearest_scan source 0 ss (0, infinity_f32) = (k, d)" by fastforce
  note min = nearest_scan_first [OF this]
  have "d \<noteq> infinity_f32" using min assms by blast
  then have "first_minimum source ss k d" using min by auto
  then show ?thesis using conjunct1 [OF min]
    by (intro exI [of _ k]) (simp add: nearest_speaker_gains_def scan fill_eq_replicate first_minimum_def)
qed

section \<open>A concrete block\<close>

definition speaker_on_x :: "channel_role \<Rightarrow> f32 \<Rightarrow> speaker" where
  "speaker_on_x role x = \<lparr>sp_id = role_as_str role, sp_label = [], sp_channel_role = role,
     sp_position = vector3_new x 0 0, sp_orientation = vector3_zero, sp_gain_db = 0,
     sp_delay_samples = 0, sp_enabled = True\<rparr>"

definition listener_at_zero :: listener where
  "listener_at_zero = \<lparr>ls_position = vector3_zero, ls_orientation = vector3_new 0 one_f32 0, ls_ear_height = 0\<rparr>"

definition two_speaker_renderer :: basic_renderer where
  "two_speaker_renderer = snd (basic_configure [speaker_on_x FrontLeft 0x40800000, speaker_on_x FrontRight 0x40000000]
     48000 256 1 (basic_new NearestSpeaker))"

lemma speaker_distances:
  "distance_to vector3_zero (sp_position (speaker_on_x role 0x40800000)) = 0x40800000"
  "distance_to vector3_zero (sp_position (speaker_on_x role 0x40000000)) = 0x40000000"
  by (simp_all add: distance_to_def vector_length_def length_squared_def vector3_sub_def vector3_zero_def
      vector3_new_def speaker_on_x_def float_defs)

lemma speaker_distance_order:
  "f32_less 0x40800000 infinity_f32" "f32_less 0x40000000 0x40800000" "f32_le 0x40800000 0x40800000"
  by (simp_all add: infinity_f32_def float_defs)

lemma basic_renderer_renders_witness:
  "\<exists>scratch'. basic_render_gains (\<lambda>_ _. one_f32) listener_at_zero [\<lparr>ro_position = vector3_zero, ro_gain = one_f32\<rparr>]
     (replicate 2 speaker_gain_default) [0, 0] two_speaker_renderer =
    (Ok (), concat (map (object_results (\<lambda>_ _. one_f32) two_speaker_renderer)
        [(0, \<lparr>ro_position = vector3_zero, ro_gain = one_f32\<rparr>)]), scratch',
     two_speaker_renderer\<lparr>gr_previous_gains :=
       concat (map (object_gains (\<lambda>_ _. one_f32) two_speaker_renderer)
        [(0, \<lparr>ro_position = vector3_zero, ro_gain = one_f32\<rparr>)])\<rparr>)"
proof -
  have conf: "basic_configure [speaker_on_x FrontLeft 0x40800000, speaker_on_x FrontRight 0x40000000] 48000 256 1
      (basic_new NearestSpeaker) = (Ok (), two_speaker_renderer)"
    and r: "gr_configured two_speaker_renderer" "gr_mode two_speaker_renderer = NearestSpeaker"
      "unat (gr_max_objects two_speaker_renderer) = 1" "length (gr_layout two_speaker_renderer) = 2"
      "length (gr_previous_gains two_speaker_renderer) = 2"
    by (simp_all add: two_speaker_renderer_def basic_configure_def Let_def basic_new_def speaker_on_x_def)
  have "basic_reachable (\<lambda>_ _. one_f32) two_speaker_renderer"
    using br_configure [OF br_new, of "[speaker_on_x FrontLeft 0x40800000, speaker_on_x FrontRight 0x40000000]"
        48000 256 1 NearestSpeaker "\<lambda>_ _. one_f32"] conf by simp
  from basic_renderer_renders [OF this r(1), of "[\<lparr>ro_position = vector3_zero, ro_gain = one_f32\<rparr>]"
      "replicate 2 speaker_gain_default" "[0, 0]" listener_at_zero]
  show ?thesis using r by simp
qed

lemma two_speaker_gains:
  "map sg_gain (object_results (\<lambda>_ _. one_f32) two_speaker_renderer
     (0, \<lparr>ro_position = vector3_zero, ro_gain = one_f32\<rparr>)) = [0, one_f32]"
proof -
  have r: "gr_mode two_speaker_renderer = NearestSpeaker" "gr_smoothing_alpha two_speaker_renderer = one_f32"
      "gr_layout two_speaker_renderer = [speaker_on_x FrontLeft 0x40800000, speaker_on_x FrontRight 0x40000000]"
      "gr_previous_gains two_speaker_renderer = [0, 0]"
    by (simp_all add: two_speaker_renderer_def basic_configure_def Let_def basic_new_def speaker_on_x_def)
  have w: "panning_weights NearestSpeaker [speaker_on_x FrontLeft 0x40800000, speaker_on_x FrontRight 0x40000000]
      vector3_zero [0, 0] = [0, one_f32]"
    by (simp add: panning_weights_def nearest_speaker_gains_def speaker_distances speaker_distance_order fill_def)
  have "smooth one_f32 0 (speaker_target (\<lambda>_ _. one_f32) \<lparr>ro_position = vector3_zero, ro_gain = one_f32\<rparr> s 0) = 0"
    "smooth one_f32 0 (speaker_target (\<lambda>_ _. one_f32) \<lparr>ro_position = vector3_zero, ro_gain = one_f32\<rparr> s one_f32) = one_f32" for s
    by (simp_all add: smooth_def speaker_target_def db_to_gain_def one_f32_def float_defs)
  then show ?thesis
    by (simp add: object_results_def object_gains_def results_from_def smoothed_def r w speaker_result_def Let_def)
qed

lemma nearest_speaker_first_minimum_witness:
  "\<exists>i<2. nearest_speaker_gains [speaker_on_x FrontLeft 0x40800000, speaker_on_x FrontRight 0x40000000]
      vector3_zero [0, 0] = [0, 0][i := one_f32]"
proof -
  let ?ss = "[speaker_on_x FrontLeft 0x40800000, speaker_on_x FrontRight 0x40000000]"
  have "\<exists>s\<in>set ?ss. f32_less (distance_to vector3_zero (sp_position s)) infinity_f32"
    by (rule bexI [of _ "speaker_on_x FrontLeft 0x40800000"]) (simp_all add: speaker_distances speaker_distance_order)
  from nearest_speaker_first_minimum [OF this, of "[0, 0]"] show ?thesis
    by (auto simp: numeral_2_eq_2)
qed

end
