(* ===== verification/Live_Decode.thy ===== *)
theory Live_Decode
  imports Decoder_Api Basic_Renderer
begin

text \<open>
  The live immersive runtime, \<open>src/crates/aurora-source-runtime/src/live.rs\<close>: packet contract,
  acquisition gate with its error and probe budgets, frame validation, object gains, bed routing
  and speaker mixing.  Decoder and renderer are the records \<open>D\<close> and \<open>R\<close> of their traits; the
  power function of the platform's mathematics library, whose precision Rust leaves open, is the
  parameter \<open>powf\<close>; sample arithmetic is that of \<open>Ieee_Float\<close>.
\<close>

section \<open>State\<close>

definition IEC61937_EAC3_DATA_TYPE :: u8 where "IEC61937_EAC3_DATA_TYPE = 0x15"

datatype live_decode_state = LiveSearching | LivePriming | LiveRunning | LiveMuted | LiveFaulted

record live_decode_policy =
  required_stable_packets :: u32
  maximum_consecutive_errors :: u32
  maximum_consecutive_empty_packets :: u32
  maximum_object_probe_packets :: u32
  maximum_pcm_channels :: usize
  maximum_objects :: usize
  require_native_objects :: bool
  required_data_type :: "u8 option"

definition live_decode_policy_default :: live_decode_policy where
  "live_decode_policy_default = \<lparr>required_stable_packets = 2, maximum_consecutive_errors = 3,
     maximum_consecutive_empty_packets = 8, maximum_object_probe_packets = 8,
     maximum_pcm_channels = 32, maximum_objects = 32, require_native_objects = True,
     required_data_type = Some IEC61937_EAC3_DATA_TYPE\<rparr>"

record live_decode_metrics =
  packets_received :: u64
  packets_with_frames :: u64
  decoded_frames :: u64
  emitted_frames :: u64
  lm_failures :: u64
  lm_discontinuities :: u64
  lm_recoveries :: u64
  maximum_observed_pcm_channels :: usize
  maximum_observed_objects :: usize

definition live_metrics_default :: live_decode_metrics where
  "live_metrics_default = \<lparr>packets_received = 0, packets_with_frames = 0, decoded_frames = 0,
     emitted_frames = 0, lm_failures = 0, lm_discontinuities = 0, lm_recoveries = 0,
     maximum_observed_pcm_channels = 0, maximum_observed_objects = 0\<rparr>"

record live_rendered_frame =
  lf_source_audio :: audio_block
  lf_objects :: "audio_object list"
  lf_object_channels :: "object_channel_binding list"
  lf_speaker_gains :: "speaker_gain list"
  lf_speaker_audio :: audio_block

record live_process_report =
  lp_state :: live_decode_state
  lp_audible :: bool
  lp_frames :: "live_rendered_frame list"
  lp_metrics :: live_decode_metrics

datatype live_decode_error =
    LiveInvalidPolicy
  | DecoderSemantics string decoder_output_semantics
  | LiveIsFaulted
  | PacketContract string
  | LiveDecoder decoder_error
  | InvalidDecodedFrame string
  | LiveRenderer renderer_error

record ('d, 'r) live_runtime =
  lv_decoder :: 'd
  lv_renderer :: 'r
  lv_listener :: listener
  lv_layout :: "speaker list"
  lv_policy :: live_decode_policy
  lv_scratch :: "f32 list"
  lv_output_channels :: usize
  lv_state :: live_decode_state
  lv_stable_packets :: u32
  lv_consecutive_errors :: u32
  lv_consecutive_empty_packets :: u32
  lv_consecutive_non_object_packets :: u32
  lv_metrics :: live_decode_metrics

section \<open>Set-up\<close>

fun duplicate_role_from :: "speaker list \<Rightarrow> speaker list \<Rightarrow> bool" where
  "duplicate_role_from earlier [] = False"
| "duplicate_role_from earlier (s # rest) =
     (list_ex (\<lambda>previous. sp_channel_role previous = sp_channel_role s) earlier
      \<or> duplicate_role_from (earlier @ [s]) rest)"

definition has_duplicate_roles :: "speaker list \<Rightarrow> bool" where
  "has_duplicate_roles layout = duplicate_role_from [] layout"

definition live_new :: "'d streaming_decoder \<Rightarrow> 'r renderer \<Rightarrow> 'd \<Rightarrow> 'r \<Rightarrow> audio_format \<Rightarrow> listener
    \<Rightarrow> speaker list \<Rightarrow> live_decode_policy \<Rightarrow> (('d, 'r) live_runtime, live_decode_error) outcome" where
  "live_new D R decoder renderer output_format listener layout policy =
     (if required_stable_packets policy = 0 \<or> maximum_consecutive_errors policy = 0
       \<or> maximum_consecutive_empty_packets policy = 0 \<or> maximum_object_probe_packets policy = 0
       \<or> maximum_pcm_channels policy = 0 \<or> maximum_objects policy = 0
       \<or> af_sample_rate output_format = 0 \<or> af_channel_count output_format = 0
       \<or> af_block_size output_format = 0 \<or> layout = []
       \<or> list_ex (\<lambda>s. \<not> sp_enabled s) layout
      then Err LiveInvalidPolicy
      else if length layout \<noteq> unat (af_channel_count output_format) \<or> has_duplicate_roles layout
      then Err LiveInvalidPolicy
      else case dec_info D decoder of
        Err e \<Rightarrow> Err (LiveDecoder e) | Panic \<Rightarrow> Panic
      | Ok info \<Rightarrow>
          if require_native_objects policy \<and> di_output_semantics info \<noteq> ObjectScene
          then Err (DecoderSemantics (di_name info) (di_output_semantics info))
          else (case dec_configure_stream D
                \<lparr>sd_sample_rate = af_sample_rate output_format,
                 sd_block_size = af_block_size output_format,
                 sd_maximum_pcm_channels = maximum_pcm_channels policy\<rparr> decoder of
            (Err e, _) \<Rightarrow> Err (LiveDecoder e) | (Panic, _) \<Rightarrow> Panic
          | (Ok _, decoder1) \<Rightarrow>
              (case rd_configure R layout (af_sample_rate output_format)
                  (af_block_size output_format) (maximum_objects policy) renderer of
                 (Err e, _) \<Rightarrow> Err (LiveRenderer e) | (Panic, _) \<Rightarrow> Panic
               | (Ok _, renderer1) \<Rightarrow>
                   if rd_output_channel_count R renderer1 \<noteq> af_channel_count output_format
                   then Err LiveInvalidPolicy
                   else (case rd_required_scratch_size R renderer1 of
                     Err e \<Rightarrow> Err (LiveRenderer e) | Panic \<Rightarrow> Panic
                   | Ok n \<Rightarrow> Ok
                       \<lparr>lv_decoder = decoder1, lv_renderer = renderer1, lv_listener = listener,
                        lv_layout = layout, lv_policy = policy, lv_scratch = scratch_new n,
                        lv_output_channels = rd_output_channel_count R renderer1,
                        lv_state = LiveSearching, lv_stable_packets = 0, lv_consecutive_errors = 0,
                        lv_consecutive_empty_packets = 0, lv_consecutive_non_object_packets = 0,
                        lv_metrics = live_metrics_default\<rparr>))))"

section \<open>Validation of a frame\<close>

definition validate_source_audio :: "audio_block \<Rightarrow> decoded_channel_kind list \<Rightarrow> usize
    \<Rightarrow> (unit, live_decode_error) outcome" where
  "validate_source_audio a kinds maximum =
     (if audio_block_validate a \<noteq> Ok ()
      then Err (InvalidDecodedFrame ''PCM channel length does not match frame_count'')
      else if ab_channels a = [] \<or> unat maximum < length (ab_channels a) \<or> ab_frame_count a = 0
        \<or> length kinds \<noteq> length (ab_channels a)
        \<or> list_ex (list_ex (\<lambda>x. \<not> f32_is_finite x)) (ab_channels a)
        \<or> \<not> f64_is_finite (ab_presentation_time_seconds a)
      then Err (InvalidDecodedFrame
        ''PCM/channel semantics are empty, oversized, mismatched, or non-finite'')
      else if list_ex (\<lambda>k. k = UnknownPcm) kinds
      then Err (InvalidDecodedFrame ''decoder exposed an unknown PCM channel role'')
      else Ok ())"

definition vector_finite :: "vector3 \<Rightarrow> bool" where
  "vector_finite v \<longleftrightarrow> f32_is_finite (vx v) \<and> f32_is_finite (vy v) \<and> f32_is_finite (vz v)"

definition f32_one :: f32 where "f32_one = 0x3F800000"

fun object_scan :: "audio_object list \<Rightarrow> audio_object list \<Rightarrow> (unit, live_decode_error) outcome" where
  "object_scan earlier [] = Ok ()"
| "object_scan earlier (ob # rest) =
     (if list_ex (\<lambda>previous. ob_id previous = ob_id ob) earlier \<or> ob_id ob = []
        \<or> \<not> vector_finite (ob_position ob) \<or> \<not> vector_finite (ob_velocity ob)
        \<or> \<not> f32_is_finite (ob_gain_db ob) \<or> \<not> f32_is_finite (ob_spread ob)
        \<or> \<not> (f32_le 0 (ob_spread ob) \<and> f32_le (ob_spread ob) f32_one)
      then Err (InvalidDecodedFrame
        ''object metadata contains duplicate IDs or invalid numeric values'')
      else object_scan (earlier @ [ob]) rest)"

definition validate_objects ::
  "audio_object list \<Rightarrow> usize \<Rightarrow> bool \<Rightarrow> (unit, live_decode_error) outcome" where
  "validate_objects objs maximum native =
     (if unat maximum < length objs \<or> (native \<and> objs = [])
      then Err (InvalidDecodedFrame ''object count is empty or exceeds the configured maximum'')
      else object_scan [] objs)"

fun binding_scan :: "audio_object list \<Rightarrow> decoded_channel_kind list \<Rightarrow> object_channel_binding list
    \<Rightarrow> object_channel_binding list \<Rightarrow> (unit, live_decode_error) outcome" where
  "binding_scan objs kinds earlier [] = Ok ()"
| "binding_scan objs kinds earlier (b # rest) =
     (if get_at kinds (unat (oc_channel_index b)) \<noteq> Some ObjectPcm
        \<or> \<not> list_ex (\<lambda>ob. ob_id ob = oc_object_id b) objs
        \<or> list_ex (\<lambda>previous. oc_object_id previous = oc_object_id b
              \<or> oc_channel_index previous = oc_channel_index b) earlier
      then Err (InvalidDecodedFrame
        ''object/channel binding is stale, duplicate, or points to a non-object channel'')
      else binding_scan objs kinds (earlier @ [b]) rest)"

fun unbound_scan :: "object_channel_binding list \<Rightarrow> nat \<Rightarrow> decoded_channel_kind list
    \<Rightarrow> (unit, live_decode_error) outcome" where
  "unbound_scan bindings i [] = Ok ()"
| "unbound_scan bindings i (k # rest) =
     (if k = ObjectPcm \<and> \<not> list_ex (\<lambda>b. unat (oc_channel_index b) = i) bindings
      then Err (InvalidDecodedFrame ''object PCM channel has no active object binding'')
      else unbound_scan bindings (Suc i) rest)"

definition live_validate_bindings :: "audio_object list \<Rightarrow> decoded_channel_kind list
    \<Rightarrow> object_channel_binding list \<Rightarrow> bool \<Rightarrow> (unit, live_decode_error) outcome" where
  "live_validate_bindings objs kinds bindings native =
     (if native \<and> length bindings \<noteq> length objs
      then Err (InvalidDecodedFrame ''native object table is not fully bound to PCM channels'')
      else case binding_scan objs kinds [] bindings of
        Err e \<Rightarrow> Err e | Panic \<Rightarrow> Panic
      | Ok _ \<Rightarrow> unbound_scan bindings 0 kinds)"

section \<open>Mixing\<close>

definition unique_layout_role_index :: "speaker list \<Rightarrow> channel_role \<Rightarrow> nat option" where
  "unique_layout_role_index layout role =
     (case filter (\<lambda>i. sp_channel_role (layout ! i) = role) [0..<length layout] of
        [i] \<Rightarrow> Some i | _ \<Rightarrow> None)"

text \<open>The loop over the frames: \<open>out[f] += g(src[f])\<close>.\<close>

fun add_frames :: "(f32 \<Rightarrow> f32) \<Rightarrow> f32 list \<Rightarrow> nat list \<Rightarrow> f32 list
    \<Rightarrow> (f32 list, live_decode_error) outcome" where
  "add_frames g src [] out = Ok out"
| "add_frames g src (f # fs) out =
     (case (get_at out f, get_at src f) of
        (Some y, Some x) \<Rightarrow> add_frames g src fs (out[f := f32_add y (g x)])
      | _ \<Rightarrow> Panic)"

text \<open>Both callers run after \<open>frame_count\<close> was found to be positive.\<close>

definition add_channel :: "(f32 \<Rightarrow> f32) \<Rightarrow> audio_block \<Rightarrow> nat \<Rightarrow> nat \<Rightarrow> f32 list list
    \<Rightarrow> (f32 list list, live_decode_error) outcome" where
  "add_channel g source si oi outs =
     (case (get_at outs oi, get_at (ab_channels source) si) of
        (Some out, Some src) \<Rightarrow>
          (case add_frames g src [0..<unat (ab_frame_count source)] out of
             Ok out' \<Rightarrow> Ok (outs[oi := out']) | Err e \<Rightarrow> Err e | Panic \<Rightarrow> Panic)
      | _ \<Rightarrow> Panic)"

fun route_bed_channels :: "audio_block \<Rightarrow> nat \<Rightarrow> decoded_channel_kind list \<Rightarrow> speaker list
    \<Rightarrow> f32 list list \<Rightarrow> (f32 list list, live_decode_error) outcome" where
  "route_bed_channels source si [] layout outs = Ok outs"
| "route_bed_channels source si (k # kinds) layout outs =
     (case k of
        Bed role \<Rightarrow>
          (case unique_layout_role_index layout role of
             None \<Rightarrow> Err (InvalidDecodedFrame (''decoded bed role `'' @ role_as_str role
                       @ ''` has no unique output speaker''))
           | Some oi \<Rightarrow>
               (case add_channel (\<lambda>x. x) source si oi outs of
                  Err e \<Rightarrow> Err e | Panic \<Rightarrow> Panic
                | Ok outs' \<Rightarrow> route_bed_channels source (Suc si) kinds layout outs'))
      | _ \<Rightarrow> route_bed_channels source (Suc si) kinds layout outs)"

fun mix_gains :: "audio_block \<Rightarrow> nat \<Rightarrow> usize \<Rightarrow> speaker_gain list \<Rightarrow> f32 list list
    \<Rightarrow> (f32 list list, live_decode_error) outcome" where
  "mix_gains source si n [] outs = Ok outs"
| "mix_gains source si n (g # gs) outs =
     (if n \<le> sg_speaker_index g \<or> \<not> f32_is_finite (sg_gain g)
      then Err (InvalidDecodedFrame ''renderer returned an invalid speaker index or gain'')
      else case add_channel (\<lambda>x. f32_mul x (sg_gain g)) source si (unat (sg_speaker_index g)) outs of
        Err e \<Rightarrow> Err e | Panic \<Rightarrow> Panic
      | Ok outs' \<Rightarrow> mix_gains source si n gs outs')"

fun mix_objects :: "audio_block \<Rightarrow> audio_object list \<Rightarrow> object_channel_binding list
    \<Rightarrow> speaker_gain list \<Rightarrow> usize \<Rightarrow> f32 list list \<Rightarrow> (f32 list list, live_decode_error) outcome" where
  "mix_objects source [] bindings gains n outs = Ok outs"
| "mix_objects source (ob # objs) bindings gains n outs =
     (case find (\<lambda>b. oc_object_id b = ob_id ob) bindings of
        None \<Rightarrow> Err (InvalidDecodedFrame (''object `'' @ ob_id ob @ ''` has no PCM channel binding''))
      | Some b \<Rightarrow>
          if length (ab_channels source) \<le> unat (oc_channel_index b) then Panic
          else (case mix_gains source (unat (oc_channel_index b)) n (take (unat n) gains) outs of
            Err e \<Rightarrow> Err e | Panic \<Rightarrow> Panic
          | Ok outs' \<Rightarrow> mix_objects source objs bindings (drop (unat n) gains) n outs'))"

definition mix_object_channels :: "audio_block \<Rightarrow> audio_object list \<Rightarrow> object_channel_binding list
    \<Rightarrow> speaker_gain list \<Rightarrow> usize \<Rightarrow> f32 list list \<Rightarrow> (f32 list list, live_decode_error) outcome" where
  "mix_object_channels source objs bindings gains n outs =
     (if length gains \<noteq> length objs * unat n
      then Err (InvalidDecodedFrame ''renderer gain shape does not match object/output dimensions'')
      else mix_objects source objs bindings gains n outs)"

section \<open>Operations\<close>

definition db_to_linear :: "(f32 \<Rightarrow> f32 \<Rightarrow> f32) \<Rightarrow> f32 \<Rightarrow> f32" where
  "db_to_linear powf db = powf 0x41200000 (f32_div db 0x41A00000)"

definition max_usize :: "usize \<Rightarrow> nat \<Rightarrow> usize" where
  "max_usize a n = max a (of_nat n)"

definition prepare_frame :: "(f32 \<Rightarrow> f32 \<Rightarrow> f32) \<Rightarrow> 'r renderer \<Rightarrow> streaming_decoded_frame
    \<Rightarrow> ('d, 'r) live_runtime
    \<Rightarrow> (live_rendered_frame, live_decode_error) outcome \<times> ('d, 'r) live_runtime" where
  "prepare_frame powf R frame s =
     (let source = df_audio (sf_decoded frame); objs = df_objects (sf_decoded frame);
          native = require_native_objects (lv_policy s); n = lv_output_channels s in
      case validate_source_audio source (sf_channel_kinds frame) (maximum_pcm_channels (lv_policy s)) of
        Err e \<Rightarrow> (Err e, s) | Panic \<Rightarrow> (Panic, s)
      | Ok _ \<Rightarrow>
      (case validate_objects objs (maximum_objects (lv_policy s)) native of
        Err e \<Rightarrow> (Err e, s) | Panic \<Rightarrow> (Panic, s)
      | Ok _ \<Rightarrow>
      (case live_validate_bindings objs (sf_channel_kinds frame) (sf_object_channels frame) native of
        Err e \<Rightarrow> (Err e, s) | Panic \<Rightarrow> (Panic, s)
      | Ok _ \<Rightarrow>
          let render_objects = map (\<lambda>ob. \<lparr>ro_position = ob_position ob,
                ro_gain = db_to_linear powf (ob_gain_db ob)\<rparr>) objs;
              blank = replicate (length objs * unat n) speaker_gain_default;
              (rendered, gains, scratch, renderer) =
                (if render_objects = [] then (Ok (), blank, lv_scratch s, lv_renderer s)
                 else rd_render_gains R (lv_listener s) render_objects blank (lv_scratch s)
                        (lv_renderer s));
              s1 = s\<lparr>lv_scratch := scratch, lv_renderer := renderer\<rparr> in
          (case rendered of
             Err e \<Rightarrow> (Err (LiveRenderer e), s1) | Panic \<Rightarrow> (Panic, s1)
           | Ok _ \<Rightarrow>
          (case route_bed_channels source 0 (sf_channel_kinds frame) (lv_layout s)
                  (replicate (unat n) (replicate (unat (ab_frame_count source)) 0)) of
             Err e \<Rightarrow> (Err e, s1) | Panic \<Rightarrow> (Panic, s1)
           | Ok bed \<Rightarrow>
          (case mix_object_channels source objs (sf_object_channels frame) gains n bed of
             Err e \<Rightarrow> (Err e, s1) | Panic \<Rightarrow> (Panic, s1)
           | Ok mixed \<Rightarrow>
               if list_ex (list_ex (\<lambda>x. \<not> f32_is_finite x)) mixed
               then (Err (InvalidDecodedFrame ''speaker mix produced non-finite samples''), s1)
               else
                 let m = lv_metrics s1 in
                 (Ok \<lparr>lf_source_audio = source, lf_objects = objs,
                      lf_object_channels = sf_object_channels frame, lf_speaker_gains = gains,
                      lf_speaker_audio = \<lparr>ab_channels = mixed, ab_frame_count = ab_frame_count source,
                        ab_presentation_time_seconds = ab_presentation_time_seconds source,
                        ab_discontinuity = ab_discontinuity source\<rparr>\<rparr>,
                  s1\<lparr>lv_metrics := m\<lparr>
                       maximum_observed_pcm_channels :=
                         max_usize (maximum_observed_pcm_channels m) (length (ab_channels source)),
                       maximum_observed_objects :=
                         max_usize (maximum_observed_objects m) (length objs),
                       decoded_frames := saturating_add (decoded_frames m) 1\<rparr>\<rparr>)))))))"

definition live_report :: "bool \<Rightarrow> live_rendered_frame list \<Rightarrow> ('d, 'r) live_runtime
    \<Rightarrow> live_process_report" where
  "live_report audible frames s =
     \<lparr>lp_state = lv_state s, lp_audible = audible, lp_frames = frames, lp_metrics = lv_metrics s\<rparr>"

text \<open>A backend reset may panic; then what follows it in the caller does not run.\<close>

definition reset_backends :: "'d streaming_decoder \<Rightarrow> 'r renderer
    \<Rightarrow> (('d, 'r) live_runtime \<Rightarrow> ('d, 'r) live_runtime) \<Rightarrow> ('d, 'r) live_runtime
    \<Rightarrow> (unit, live_decode_error) outcome \<times> ('d, 'r) live_runtime" where
  "reset_backends D R next s =
     (case dec_reset_stream D (lv_decoder s) of
        (Panic, d) \<Rightarrow> (Panic, s\<lparr>lv_decoder := d\<rparr>)
      | (_, d) \<Rightarrow> (Ok (), next (s\<lparr>lv_decoder := d, lv_renderer := rd_reset R (lv_renderer s)\<rparr>)))"

definition register_failure :: "'d streaming_decoder \<Rightarrow> 'r renderer \<Rightarrow> ('d, 'r) live_runtime
    \<Rightarrow> (unit, live_decode_error) outcome \<times> ('d, 'r) live_runtime" where
  "register_failure D R s =
     reset_backends D R
       (\<lambda>s. s\<lparr>lv_state := if maximum_consecutive_errors (lv_policy s) \<le> lv_consecutive_errors s
                      then LiveFaulted else LiveMuted\<rparr>)
       (s\<lparr>lv_metrics := (lv_metrics s)\<lparr>lm_failures := saturating_add (lm_failures (lv_metrics s)) 1\<rparr>,
          lv_consecutive_errors := saturating_add (lv_consecutive_errors s) 1,
          lv_stable_packets := 0, lv_consecutive_empty_packets := 0,
          lv_consecutive_non_object_packets := 0\<rparr>)"

definition latch_fault :: "'d streaming_decoder \<Rightarrow> 'r renderer \<Rightarrow> ('d, 'r) live_runtime
    \<Rightarrow> (unit, live_decode_error) outcome \<times> ('d, 'r) live_runtime" where
  "latch_fault D R s =
     reset_backends D R (\<lambda>s. s\<lparr>lv_stable_packets := 0, lv_state := LiveFaulted\<rparr>)
       (s\<lparr>lv_metrics := (lv_metrics s)\<lparr>lm_failures := saturating_add (lm_failures (lv_metrics s)) 1\<rparr>\<rparr>)"

definition mark_discontinuity :: "'d streaming_decoder \<Rightarrow> 'r renderer \<Rightarrow> ('d, 'r) live_runtime
    \<Rightarrow> (unit, live_decode_error) outcome \<times> ('d, 'r) live_runtime" where
  "mark_discontinuity D R s =
     reset_backends D R
       (\<lambda>s. s\<lparr>lv_metrics := (lv_metrics s)\<lparr>lm_discontinuities :=
                  saturating_add (lm_discontinuities (lv_metrics s)) 1\<rparr>,
            lv_state := LiveMuted, lv_stable_packets := 0, lv_consecutive_empty_packets := 0,
            lv_consecutive_non_object_packets := 0\<rparr>) s"

text \<open>The error returns of the packet path: an action on the state, then the error.\<close>

definition fail_after :: "(unit, live_decode_error) outcome \<times> 's \<Rightarrow> live_decode_error
    \<Rightarrow> ('a, live_decode_error) outcome \<times> 's" where
  "fail_after act e = (case act of (Panic, s) \<Rightarrow> (Panic, s) | (_, s) \<Rightarrow> (Err e, s))"

fun prepare_frames :: "(f32 \<Rightarrow> f32 \<Rightarrow> f32) \<Rightarrow> 'd streaming_decoder \<Rightarrow> 'r renderer
    \<Rightarrow> streaming_decoded_frame list \<Rightarrow> live_rendered_frame list \<Rightarrow> ('d, 'r) live_runtime
    \<Rightarrow> (live_rendered_frame list, live_decode_error) outcome \<times> ('d, 'r) live_runtime" where
  "prepare_frames powf D R [] prepared s = (Ok prepared, s)"
| "prepare_frames powf D R (frame # rest) prepared s =
     (case prepare_frame powf R frame s of
        (Ok f, s1) \<Rightarrow> prepare_frames powf D R rest (prepared @ [f]) s1
      | (Panic, s1) \<Rightarrow> (Panic, s1)
      | (Err e, s1) \<Rightarrow> fail_after (register_failure D R s1) e)"

definition accept_batch :: "(f32 \<Rightarrow> f32 \<Rightarrow> f32) \<Rightarrow> 'd streaming_decoder \<Rightarrow> 'r renderer \<Rightarrow> decoded_batch
    \<Rightarrow> ('d, 'r) live_runtime
    \<Rightarrow> (live_process_report, live_decode_error) outcome \<times> ('d, 'r) live_runtime" where
  "accept_batch powf D R batch s =
     (if bt_frames batch = [] then
        let s1 = s\<lparr>lv_consecutive_empty_packets := saturating_add (lv_consecutive_empty_packets s) 1,
              lv_stable_packets := 0, lv_state := LivePriming\<rparr> in
        if maximum_consecutive_empty_packets (lv_policy s1) \<le> lv_consecutive_empty_packets s1
        then fail_after (latch_fault D R s1) (InvalidDecodedFrame
               ''decoder emitted no frames for too many consecutive packets'')
        else (Ok (live_report False [] s1), s1)
      else if require_native_objects (lv_policy s) \<and> \<not> bt_native_objects_present batch then
        let s1 = s\<lparr>lv_consecutive_non_object_packets :=
                saturating_add (lv_consecutive_non_object_packets s) 1,
              lv_stable_packets := 0, lv_state := LivePriming\<rparr> in
        if maximum_object_probe_packets (lv_policy s1) \<le> lv_consecutive_non_object_packets s1
        then fail_after (latch_fault D R s1) (InvalidDecodedFrame
               ''native object-scene evidence did not appear within the probe budget'')
        else (Ok (live_report False [] s1), s1)
      else case prepare_frames powf D R (bt_frames batch) [] s of
        (Err e, s1) \<Rightarrow> (Err e, s1)
      | (Panic, s1) \<Rightarrow> (Panic, s1)
      | (Ok prepared, s1) \<Rightarrow>
          let s2 = s1\<lparr>lv_metrics := (lv_metrics s1)\<lparr>packets_with_frames :=
                  saturating_add (packets_with_frames (lv_metrics s1)) 1\<rparr>,
                lv_consecutive_errors := 0, lv_consecutive_empty_packets := 0,
                lv_consecutive_non_object_packets := 0,
                lv_stable_packets := saturating_add (lv_stable_packets s1) 1\<rparr> in
          if required_stable_packets (lv_policy s2) \<le> lv_stable_packets s2 then
            let s3 = s2\<lparr>lv_state := LiveRunning,
                  lv_metrics := (lv_metrics s2)\<lparr>emitted_frames :=
                    saturating_add (emitted_frames (lv_metrics s2)) (of_nat (length prepared))\<rparr>\<rparr> in
            (Ok (live_report True prepared s3), s3)
          else
            let s3 = s2\<lparr>lv_state := LivePriming\<rparr> in (Ok (live_report False [] s3), s3))"

definition live_push_packet :: "(f32 \<Rightarrow> f32 \<Rightarrow> f32) \<Rightarrow> 'd streaming_decoder \<Rightarrow> 'r renderer
    \<Rightarrow> decoder_packet \<Rightarrow> ('d, 'r) live_runtime
    \<Rightarrow> (live_process_report, live_decode_error) outcome \<times> ('d, 'r) live_runtime" where
  "live_push_packet powf D R p s =
     (if lv_state s = LiveFaulted then (Err LiveIsFaulted, s)
      else
        let s0 = s\<lparr>lv_metrics := (lv_metrics s)\<lparr>packets_received :=
              saturating_add (packets_received (lv_metrics s)) 1\<rparr>\<rparr> in
        (case (if pk_discontinuity p then mark_discontinuity D R s0 else (Ok (), s0)) of
           (Panic, s1) \<Rightarrow> (Panic, s1) | (Err e, s1) \<Rightarrow> (Err e, s1)
         | (Ok _, s1) \<Rightarrow>
             if required_data_type (lv_policy s1) \<noteq> None \<and> pk_transport p \<noteq> Iec61937
             then fail_after (register_failure D R s1) (PacketContract
               ''IEC61937 transport is required for the configured data type'')
             else if required_data_type (lv_policy s1) \<noteq> None
               \<and> pk_data_type p \<noteq> required_data_type (lv_policy s1)
             then fail_after (register_failure D R s1) (PacketContract
               ''unexpected or missing IEC61937 data type'')
             else if pk_payload p = []
             then fail_after (register_failure D R s1) (PacketContract ''empty decoder payload'')
             else (case dec_push_packet D p (lv_decoder s1) of
               (Panic, d) \<Rightarrow> (Panic, s1\<lparr>lv_decoder := d\<rparr>)
             | (Err e, d) \<Rightarrow>
                 fail_after (register_failure D R (s1\<lparr>lv_decoder := d\<rparr>)) (LiveDecoder e)
             | (Ok batch, d) \<Rightarrow> accept_batch powf D R batch (s1\<lparr>lv_decoder := d\<rparr>))))"

definition try_recover :: "'d streaming_decoder \<Rightarrow> 'r renderer \<Rightarrow> ('d, 'r) live_runtime
    \<Rightarrow> (unit, live_decode_error) outcome \<times> ('d, 'r) live_runtime" where
  "try_recover D R s =
     (case dec_recover_stream D (lv_decoder s) of
        (Panic, d) \<Rightarrow> (Panic, s\<lparr>lv_decoder := d\<rparr>)
      | (Err e, d) \<Rightarrow>
          (Err (LiveDecoder e), s\<lparr>lv_decoder := d, lv_renderer := rd_reset R (lv_renderer s),
             lv_state := LiveFaulted, lv_stable_packets := 0, lv_consecutive_empty_packets := 0,
             lv_consecutive_non_object_packets := 0,
             lv_metrics := (lv_metrics s)\<lparr>lm_failures := saturating_add (lm_failures (lv_metrics s)) 1\<rparr>\<rparr>)
      | (Ok _, d) \<Rightarrow>
          (Ok (), s\<lparr>lv_decoder := d, lv_renderer := rd_reset R (lv_renderer s),
             lv_state := LiveSearching, lv_stable_packets := 0, lv_consecutive_errors := 0,
             lv_consecutive_empty_packets := 0, lv_consecutive_non_object_packets := 0,
             lv_metrics := (lv_metrics s)\<lparr>lm_recoveries :=
               saturating_add (lm_recoveries (lv_metrics s)) 1\<rparr>\<rparr>))"

definition live_recover :: "'d streaming_decoder \<Rightarrow> 'r renderer \<Rightarrow> ('d, 'r) live_runtime
    \<Rightarrow> ('d, 'r) live_runtime" where
  "live_recover D R s = snd (try_recover D R s)"

section \<open>Mixing as sums\<close>

text \<open>
  \<open>adds k terms outs outs'\<close>: sample \<open>f < k\<close> of channel \<open>c\<close> has had \<open>terms c f\<close> added to it, one
  after the other, and nothing else happened.
\<close>

definition adds :: "nat \<Rightarrow> (nat \<Rightarrow> nat \<Rightarrow> f32 list) \<Rightarrow> f32 list list \<Rightarrow> f32 list list \<Rightarrow> bool" where
  "adds k terms outs outs' \<longleftrightarrow> map length outs' = map length outs
     \<and> (\<forall>c<length outs. \<forall>f<k. f < length (outs ! c) \<longrightarrow>
          outs' ! c ! f = foldl f32_add (outs ! c ! f) (terms c f))"

lemma adds_length:
  "adds k terms outs outs' \<Longrightarrow> length outs' = length outs"
  "adds k terms outs outs' \<Longrightarrow> c < length outs \<Longrightarrow> length (outs' ! c) = length (outs ! c)"
  by (auto simp: adds_def dest: map_eq_imp_length_eq)
    (metis map_eq_imp_length_eq nth_map)

lemma adds_refl: "adds k (\<lambda>c f. []) outs outs"
  by (simp add: adds_def)

lemma adds_trans:
  assumes "adds k s a b" "adds k t b c"
  shows "adds k (\<lambda>i f. s i f @ t i f) a c"
  using assms adds_length [OF assms(1)] by (simp add: adds_def)

lemma adds_cong:
  "adds k s a b \<Longrightarrow> (\<And>c f. c < length a \<Longrightarrow> f < k \<Longrightarrow> s c f = t c f) \<Longrightarrow> adds k t a b"
  by (simp add: adds_def)

lemma add_frames_Ok:
  "add_frames g src fs out = Ok out' \<Longrightarrow> distinct fs \<Longrightarrow> length out' = length out
    \<and> (\<forall>f<length out. out' ! f = (if f \<in> set fs then f32_add (out ! f) (g (src ! f)) else out ! f))"
proof (induction fs arbitrary: out)
  case (Cons f fs)
  from Cons.prems obtain "f < length out" "f < length src"
    "add_frames g src fs (out[f := f32_add (out ! f) (g (src ! f))]) = Ok out'"
    by (auto simp: get_at_def split: if_splits)
  with Cons.IH [OF this(3)] Cons.prems show ?case by (auto simp: nth_list_update)
qed simp

lemma add_frames_no_panic:
  "\<forall>f\<in>set fs. f < length out \<and> f < length src \<Longrightarrow> \<exists>out'. add_frames g src fs out = Ok out'"
  by (induction fs arbitrary: out) (simp_all add: get_at_def)

lemma add_channel_Ok:
  assumes "add_channel g source si oi outs = Ok outs'"
  shows "adds (unat (ab_frame_count source))
    (\<lambda>c f. if c = oi then [g (ab_channels source ! si ! f)] else []) outs outs'"
    "oi < length outs" "si < length (ab_channels source)"
proof -
  from assms obtain out' where range: "oi < length outs" "si < length (ab_channels source)"
    and frames: "add_frames g (ab_channels source ! si) [0..<unat (ab_frame_count source)] (outs ! oi) = Ok out'"
    and outs': "outs' = outs[oi := out']"
    by (auto simp: add_channel_def get_at_def split: if_splits outcome.splits)
  note out = add_frames_Ok [OF frames]
  have "map length outs' = map length outs"
    using out range by (simp add: outs' list_eq_iff_nth_eq nth_list_update)
  then show "adds (unat (ab_frame_count source))
    (\<lambda>c f. if c = oi then [g (ab_channels source ! si ! f)] else []) outs outs'"
    using out range by (simp add: adds_def outs' nth_list_update)
  show "oi < length outs" "si < length (ab_channels source)" by fact+
qed

text \<open>The shapes that make the copy loops safe.\<close>

definition block_shape :: "audio_block \<Rightarrow> f32 list list \<Rightarrow> bool" where
  "block_shape source outs \<longleftrightarrow>
     (\<forall>ch\<in>set (ab_channels source). length ch = unat (ab_frame_count source))
   \<and> (\<forall>out\<in>set outs. length out = unat (ab_frame_count source))"

lemma block_shape_adds: "block_shape source outs \<Longrightarrow> adds k t outs outs' \<Longrightarrow> block_shape source outs'"
  using adds_length [of k t outs outs'] by (auto simp: block_shape_def all_set_conv_all_nth [of outs] all_set_conv_all_nth [of outs'])

lemma add_channel_no_panic:
  assumes "block_shape source outs" "oi < length outs" "si < length (ab_channels source)"
  shows "\<exists>outs'. add_channel g source si oi outs = Ok outs'"
proof -
  obtain out' where "add_frames g (ab_channels source ! si) [0..<unat (ab_frame_count source)] (outs ! oi) = Ok out'"
    using add_frames_no_panic [of "[0..<unat (ab_frame_count source)]" "outs ! oi" "ab_channels source ! si" g]
      assms by (auto simp: block_shape_def)
  then show ?thesis using assms(2,3) by (simp add: add_channel_def get_at_def)
qed

text \<open>The bed terms of output channel \<open>c\<close>, and the terms of the gains of one object.\<close>

fun bed_terms :: "audio_block \<Rightarrow> speaker list \<Rightarrow> nat \<Rightarrow> decoded_channel_kind list \<Rightarrow> nat \<Rightarrow> nat \<Rightarrow> f32 list" where
  "bed_terms source layout si [] c f = []"
| "bed_terms source layout si (k # kinds) c f =
     (case k of
        Bed role \<Rightarrow> (if unique_layout_role_index layout role = Some c then [ab_channels source ! si ! f] else [])
      | _ \<Rightarrow> []) @ bed_terms source layout (Suc si) kinds c f"

definition gain_terms :: "audio_block \<Rightarrow> nat \<Rightarrow> speaker_gain list \<Rightarrow> nat \<Rightarrow> nat \<Rightarrow> f32 list" where
  "gain_terms source si gs c f = map (\<lambda>g. f32_mul (ab_channels source ! si ! f) (sg_gain g))
     (filter (\<lambda>g. unat (sg_speaker_index g) = c) gs)"

fun object_terms :: "audio_block \<Rightarrow> object_channel_binding list \<Rightarrow> nat \<Rightarrow> audio_object list
    \<Rightarrow> speaker_gain list \<Rightarrow> nat \<Rightarrow> nat \<Rightarrow> f32 list" where
  "object_terms source bindings n [] gains c f = []"
| "object_terms source bindings n (ob # objs) gains c f =
     (case find (\<lambda>b. oc_object_id b = ob_id ob) bindings of
        None \<Rightarrow> []
      | Some b \<Rightarrow> gain_terms source (unat (oc_channel_index b)) (take n gains) c f)
     @ object_terms source bindings n objs (drop n gains) c f"

lemma route_bed_channels_Ok:
  "route_bed_channels source si kinds layout outs = Ok outs' \<Longrightarrow>
     adds (unat (ab_frame_count source)) (bed_terms source layout si kinds) outs outs'"
proof (induction kinds arbitrary: si outs)
  case Nil
  then show ?case using adds_refl by simp
next
  case (Cons k kinds)
  show ?case
  proof (cases k)
    case (Bed role)
    with Cons.prems obtain oi o1 where oi: "unique_layout_role_index layout role = Some oi"
      and one: "add_channel (\<lambda>x. x) source si oi outs = Ok o1"
      and rest: "route_bed_channels source (Suc si) kinds layout o1 = Ok outs'"
      by (auto split: option.splits outcome.splits)
    show ?thesis
      by (rule adds_cong [OF adds_trans [OF add_channel_Ok(1) [OF one] Cons.IH [OF rest]]])
        (simp add: Bed oi)
  qed (use Cons in simp_all)
qed

lemma mix_gains_Ok:
  "mix_gains source si n gs outs = Ok outs' \<Longrightarrow>
     adds (unat (ab_frame_count source)) (gain_terms source si gs) outs outs'
     \<and> (\<forall>g\<in>set gs. sg_speaker_index g < n \<and> f32_is_finite (sg_gain g))"
proof (induction gs arbitrary: outs)
  case Nil
  then show ?case using adds_refl by (simp add: gain_terms_def [abs_def])
next
  case (Cons g gs)
  from Cons.prems obtain o1 where guard: "\<not> n \<le> sg_speaker_index g" "f32_is_finite (sg_gain g)"
    and one: "add_channel (\<lambda>x. f32_mul x (sg_gain g)) source si (unat (sg_speaker_index g)) outs = Ok o1"
    and rest: "mix_gains source si n gs o1 = Ok outs'"
    by (auto split: if_splits outcome.splits)
  have "adds (unat (ab_frame_count source)) (gain_terms source si (g # gs)) outs outs'"
    by (rule adds_cong [OF adds_trans [OF add_channel_Ok(1) [OF one] conjunct1 [OF Cons.IH [OF rest]]]])
      (simp add: gain_terms_def)
  then show ?case using guard Cons.IH [OF rest] by (auto simp: not_le)
qed

lemma mix_objects_Ok:
  "mix_objects source objs bindings gains n outs = Ok outs' \<Longrightarrow>
     adds (unat (ab_frame_count source)) (object_terms source bindings (unat n) objs gains) outs outs'"
proof (induction objs arbitrary: gains outs)
  case Nil
  then show ?case using adds_refl by simp
next
  case (Cons ob objs)
  from Cons.prems obtain b o1 where b: "find (\<lambda>b. oc_object_id b = ob_id ob) bindings = Some b"
    and one: "mix_gains source (unat (oc_channel_index b)) n (take (unat n) gains) outs = Ok o1"
    and rest: "mix_objects source objs bindings (drop (unat n) gains) n o1 = Ok outs'"
    by (auto split: option.splits outcome.splits if_splits)
  show ?case
    by (rule adds_cong [OF adds_trans [OF conjunct1 [OF mix_gains_Ok [OF one]] Cons.IH [OF rest]]])
      (simp add: b)
qed

section \<open>One frame\<close>

lemma validate_source_audio_Ok:
  "validate_source_audio a kinds m = Ok () \<Longrightarrow>
     (\<forall>ch\<in>set (ab_channels a). length ch = unat (ab_frame_count a))
     \<and> length kinds = length (ab_channels a) \<and> ab_frame_count a \<noteq> 0"
  by (simp add: validate_source_audio_def audio_block_validate_Ok split: if_splits)

lemma prepare_frame_Ok:
  assumes "prepare_frame powf R frame s = (Ok out, s')"
  defines "source \<equiv> df_audio (sf_decoded frame)" and "objs \<equiv> df_objects (sf_decoded frame)"
    and "n \<equiv> lv_output_channels s"
  obtains gains bed mixed where
    "validate_source_audio source (sf_channel_kinds frame) (maximum_pcm_channels (lv_policy s)) = Ok ()"
    "validate_objects objs (maximum_objects (lv_policy s)) (require_native_objects (lv_policy s)) = Ok ()"
    "live_validate_bindings objs (sf_channel_kinds frame) (sf_object_channels frame)
       (require_native_objects (lv_policy s)) = Ok ()"
    "length gains = length objs * unat n"
    "route_bed_channels source 0 (sf_channel_kinds frame) (lv_layout s)
       (replicate (unat n) (replicate (unat (ab_frame_count source)) 0)) = Ok bed"
    "mix_objects source objs (sf_object_channels frame) gains n bed = Ok mixed"
    "\<not> list_ex (list_ex (\<lambda>x. \<not> f32_is_finite x)) mixed"
    "lf_source_audio out = source" "lf_objects out = objs" "lf_speaker_gains out = gains"
    "lf_object_channels out = sf_object_channels frame" "ab_channels (lf_speaker_audio out) = mixed"
    "ab_frame_count (lf_speaker_audio out) = ab_frame_count source"
  using assms(1)
  unfolding prepare_frame_def Let_def source_def [symmetric] objs_def [symmetric] n_def [symmetric]
    mix_object_channels_def
  by (auto split: outcome.splits prod.splits if_splits)

text \<open>
  C30: Every speaker sample of a prepared frame is the sum, in IEEE single precision and in this
  order, of the bed channels whose role that speaker alone carries and of each object's channel
  times its gains for that speaker, starting from zero; every frame has one channel per speaker of
  the source's length, and no sample is infinite or a NaN.
\<close>

theorem live_mix_is_sum:
  assumes prepared: "prepare_frame powf R frame s = (Ok out, s')"
  shows "length (ab_channels (lf_speaker_audio out)) = unat (lv_output_channels s) \<and>
    (\<forall>c<unat (lv_output_channels s).
       length (ab_channels (lf_speaker_audio out) ! c) = unat (ab_frame_count (lf_source_audio out)) \<and>
       (\<forall>f<unat (ab_frame_count (lf_source_audio out)).
          ab_channels (lf_speaker_audio out) ! c ! f = foldl f32_add 0
            (bed_terms (lf_source_audio out) (lv_layout s) 0 (sf_channel_kinds frame) c f
             @ object_terms (lf_source_audio out) (lf_object_channels out) (unat (lv_output_channels s))
                 (lf_objects out) (lf_speaker_gains out) c f)
          \<and> f32_is_finite (ab_channels (lf_speaker_audio out) ! c ! f)))"
proof -
  from prepare_frame_Ok [OF prepared] obtain gains bed mixed where
    route: "route_bed_channels (lf_source_audio out) 0 (sf_channel_kinds frame) (lv_layout s)
      (replicate (unat (lv_output_channels s)) (replicate (unat (ab_frame_count (lf_source_audio out))) 0)) = Ok bed"
    and mix: "mix_objects (lf_source_audio out) (lf_objects out) (lf_object_channels out) gains
      (lv_output_channels s) bed = Ok mixed"
    and out: "lf_speaker_gains out = gains" "ab_channels (lf_speaker_audio out) = mixed"
    and finite: "\<not> list_ex (list_ex (\<lambda>x. \<not> f32_is_finite x)) mixed"
    by metis
  note sum = adds_trans [OF route_bed_channels_Ok [OF route] mix_objects_Ok [OF mix]]
  note len = adds_length [OF sum]
  have fin: "f32_is_finite (mixed ! c ! f)" if "c < length mixed" "f < length (mixed ! c)" for c f
    using finite that by (auto simp: list_ex_length)
  show ?thesis
    using sum len fin unfolding adds_def by (simp add: out)
qed

section \<open>When output becomes audible\<close>

text \<open>
  A packet is good in \<open>s\<close> when it meets the packet contract and the decoder, reset first at a
  discontinuity, answers with frames that carry the required evidence and all pass validation,
  rendering and mixing.
\<close>

definition contract_met :: "live_decode_policy \<Rightarrow> decoder_packet \<Rightarrow> bool" where
  "contract_met policy p \<longleftrightarrow> pk_payload p \<noteq> [] \<and>
     (required_data_type policy \<noteq> None \<longrightarrow>
        pk_transport p = Iec61937 \<and> pk_data_type p = required_data_type policy)"

fun frames_prepared :: "(f32 \<Rightarrow> f32 \<Rightarrow> f32) \<Rightarrow> 'r renderer \<Rightarrow> streaming_decoded_frame list
    \<Rightarrow> ('d, 'r) live_runtime \<Rightarrow> bool" where
  "frames_prepared powf R [] s = True"
| "frames_prepared powf R (frame # rest) s =
     (is_ok (fst (prepare_frame powf R frame s)) \<and> frames_prepared powf R rest (snd (prepare_frame powf R frame s)))"

definition before_decoding :: "'d streaming_decoder \<Rightarrow> 'r renderer \<Rightarrow> decoder_packet
    \<Rightarrow> ('d, 'r) live_runtime \<Rightarrow> (unit, live_decode_error) outcome \<times> ('d, 'r) live_runtime" where
  "before_decoding D R p s =
     (let s0 = s\<lparr>lv_metrics := (lv_metrics s)\<lparr>packets_received :=
            saturating_add (packets_received (lv_metrics s)) 1\<rparr>\<rparr> in
      if pk_discontinuity p then mark_discontinuity D R s0 else (Ok (), s0))"

definition packet_good :: "(f32 \<Rightarrow> f32 \<Rightarrow> f32) \<Rightarrow> 'd streaming_decoder \<Rightarrow> 'r renderer \<Rightarrow> decoder_packet
    \<Rightarrow> ('d, 'r) live_runtime \<Rightarrow> bool" where
  "packet_good powf D R p s \<longleftrightarrow> lv_state s \<noteq> LiveFaulted \<and> contract_met (lv_policy s) p
     \<and> (case before_decoding D R p s of (r, s1) \<Rightarrow> is_ok r \<and>
         (case dec_push_packet D p (lv_decoder s1) of
            (Ok batch, d) \<Rightarrow> bt_frames batch \<noteq> []
              \<and> (require_native_objects (lv_policy s) \<longrightarrow> bt_native_objects_present batch)
              \<and> frames_prepared powf R (bt_frames batch) (s1\<lparr>lv_decoder := d\<rparr>)
          | _ \<Rightarrow> False))"

text \<open>
  The history of a runtime: the number of good packets since the last failure, empty or unproven
  batch, discontinuity or recovery.
\<close>

inductive live_history :: "(f32 \<Rightarrow> f32 \<Rightarrow> f32) \<Rightarrow> 'd streaming_decoder \<Rightarrow> 'r renderer
    \<Rightarrow> ('d, 'r) live_runtime \<Rightarrow> nat \<Rightarrow> bool" for powf D R where
  lh_new: "live_new D R d r fmt l layout policy = Ok s \<Longrightarrow> live_history powf D R s 0"
| lh_good: "live_history powf D R s n \<Longrightarrow> packet_good powf D R p s
    \<Longrightarrow> live_history powf D R (snd (live_push_packet powf D R p s)) (if pk_discontinuity p then 1 else Suc n)"
| lh_bad: "live_history powf D R s n \<Longrightarrow> \<not> packet_good powf D R p s
    \<Longrightarrow> fst (live_push_packet powf D R p s) \<noteq> Panic
    \<Longrightarrow> live_history powf D R (snd (live_push_packet powf D R p s)) 0"
| lh_discontinuity: "live_history powf D R s n \<Longrightarrow> fst (mark_discontinuity D R s) \<noteq> Panic
    \<Longrightarrow> live_history powf D R (snd (mark_discontinuity D R s)) 0"
| lh_recover: "live_history powf D R s n \<Longrightarrow> fst (try_recover D R s) \<noteq> Panic
    \<Longrightarrow> live_history powf D R (snd (try_recover D R s)) 0"

text \<open>The gate: the counter holds the history, and output runs exactly when it suffices.\<close>

definition gate_ok :: "('d, 'r) live_runtime \<Rightarrow> nat \<Rightarrow> bool" where
  "gate_ok s n \<longleftrightarrow> unat (lv_stable_packets s) = min n (2 ^ 32 - 1)
     \<and> required_stable_packets (lv_policy s) \<noteq> 0 \<and> (lv_state s = LiveFaulted \<longrightarrow> n = 0)
     \<and> (lv_state s = LiveRunning \<longleftrightarrow> unat (required_stable_packets (lv_policy s)) \<le> n)"

lemma live_new_gate: "live_new D R d r fmt l layout policy = Ok s \<Longrightarrow> gate_ok s 0"
  by (auto simp: live_new_def gate_ok_def unat_eq_0 split: if_splits outcome.splits prod.splits)

text \<open>What the failure paths leave behind.\<close>

lemma reset_backends_cases:
  "reset_backends D R next s = (res, s') \<Longrightarrow> res = Panic \<or>
     (\<exists>d r. res = Ok () \<and> s' = next (s\<lparr>lv_decoder := d, lv_renderer := r\<rparr>))"
  by (auto simp: reset_backends_def split: prod.splits outcome.splits)

definition muted :: "live_decode_policy \<Rightarrow> ('d, 'r) live_runtime \<Rightarrow> bool" where
  "muted policy s \<longleftrightarrow> lv_stable_packets s = 0 \<and> lv_state s \<noteq> LiveRunning \<and> lv_policy s = policy"

lemma muted_gate: "muted (lv_policy s0) s \<Longrightarrow> gate_ok s0 n \<Longrightarrow> gate_ok s 0"
  by (simp add: muted_def gate_ok_def unat_eq_0)

lemma failure_muted:
  "register_failure D R s = (res, s') \<Longrightarrow> res \<noteq> Panic \<Longrightarrow> muted (lv_policy s) s'"
  "latch_fault D R s = (res, s') \<Longrightarrow> res \<noteq> Panic \<Longrightarrow> muted (lv_policy s) s'"
  "mark_discontinuity D R s = (res, s') \<Longrightarrow> res \<noteq> Panic \<Longrightarrow> muted (lv_policy s) s'"
  by (auto simp: register_failure_def latch_fault_def mark_discontinuity_def muted_def
      dest!: reset_backends_cases split: if_splits)

lemma failed_muted:
  "fail_after (register_failure D R s) e = (res, s') \<Longrightarrow> res \<noteq> Panic \<Longrightarrow> res = Err e \<and> muted (lv_policy s) s'"
  "fail_after (latch_fault D R s) e = (res, s') \<Longrightarrow> res \<noteq> Panic \<Longrightarrow> res = Err e \<and> muted (lv_policy s) s'"
  by (auto simp: fail_after_def dest: failure_muted(1,2) split: prod.splits outcome.splits)

lemma try_recover_muted:
  "try_recover D R s = (res, s') \<Longrightarrow> res \<noteq> Panic \<Longrightarrow> muted (lv_policy s) s'"
  by (auto simp: try_recover_def muted_def split: prod.splits outcome.splits)

definition kept :: "('d, 'r) live_runtime \<Rightarrow> ('d, 'r) live_runtime \<Rightarrow> bool" where
  "kept s s' \<longleftrightarrow> lv_policy s' = lv_policy s \<and> lv_stable_packets s' = lv_stable_packets s
     \<and> lv_state s' = lv_state s \<and> lv_layout s' = lv_layout s
     \<and> lv_output_channels s' = lv_output_channels s"

lemma kept_refl [simp]: "kept s s"
  by (simp add: kept_def)

lemma kept_trans: "kept s t \<Longrightarrow> kept t u \<Longrightarrow> kept s u"
  by (simp add: kept_def)

lemma prepare_frame_kept: "prepare_frame powf R frame s = (res, s') \<Longrightarrow> kept s s'"
  unfolding prepare_frame_def Let_def kept_def
  by (auto split: outcome.splits prod.splits if_splits)

lemma prepare_frames_cases:
  "prepare_frames powf D R frames acc s = (res, s') \<Longrightarrow>
     (if frames_prepared powf R frames s
      then (\<exists>new. res = Ok (acc @ new) \<and> length new = length frames \<and> kept s s')
      else \<not> is_ok res \<and> (res \<noteq> Panic \<longrightarrow> muted (lv_policy s) s'))"
proof (induction frames arbitrary: acc s)
  case (Cons frame rest)
  obtain r s1 where one: "prepare_frame powf R frame s = (r, s1)" by (cases "prepare_frame powf R frame s")
  note k = prepare_frame_kept [OF one]
  then have policy: "lv_policy s1 = lv_policy s" by (simp add: kept_def)
  show ?case
  proof (cases r)
    case (Ok f)
    then have "prepare_frames powf D R rest (acc @ [f]) s1 = (res, s')" using Cons.prems one by simp
    from Cons.IH [OF this] have rest: "if frames_prepared powf R rest s1
      then (\<exists>new. res = Ok ((acc @ [f]) @ new) \<and> length new = length rest \<and> kept s1 s')
      else \<not> is_ok res \<and> (res \<noteq> Panic \<longrightarrow> muted (lv_policy s1) s')" .
    have "kept s1 s' \<Longrightarrow> kept s s'" by (rule kept_trans [OF k])
    then show ?thesis using rest one Ok policy by auto
  next
    case (Err e)
    then have fail: "fail_after (register_failure D R s1) e = (res, s')" using Cons.prems one by simp
    show ?thesis using failed_muted(1) [OF fail] one Err policy by (cases res) auto
  next
    case Panic
    then show ?thesis using Cons.prems one by auto
  qed
qed simp

definition batch_good :: "(f32 \<Rightarrow> f32 \<Rightarrow> f32) \<Rightarrow> 'r renderer \<Rightarrow> decoded_batch \<Rightarrow> ('d, 'r) live_runtime \<Rightarrow> bool" where
  "batch_good powf R batch s \<longleftrightarrow> bt_frames batch \<noteq> []
     \<and> (require_native_objects (lv_policy s) \<longrightarrow> bt_native_objects_present batch)
     \<and> frames_prepared powf R (bt_frames batch) s"

lemma accept_batch_good:
  assumes "accept_batch powf D R batch s = (res, s')" "batch_good powf R batch s"
  defines "k \<equiv> saturating_add (lv_stable_packets s) 1"
    and "audible \<equiv> required_stable_packets (lv_policy s) \<le> saturating_add (lv_stable_packets s) 1"
  shows "\<exists>prepared. length prepared = length (bt_frames batch)
    \<and> res = Ok (live_report audible (if audible then prepared else []) s')
    \<and> lv_policy s' = lv_policy s \<and> lv_stable_packets s' = k
    \<and> lv_state s' = (if audible then LiveRunning else LivePriming)"
proof -
  obtain r s1 where one: "prepare_frames powf D R (bt_frames batch) [] s = (r, s1)"
    by (cases "prepare_frames powf D R (bt_frames batch) [] s")
  from prepare_frames_cases [OF one] assms(2)
  obtain new where new: "r = Ok new" "length new = length (bt_frames batch)" "kept s s1"
    by (auto simp: batch_good_def)
  then show ?thesis using assms(1,2) one
    by (auto simp: accept_batch_def batch_good_def kept_def Let_def k_def audible_def live_report_def)
qed

lemma accept_batch_bad:
  assumes "accept_batch powf D R batch s = (res, s')" "\<not> batch_good powf R batch s" "res \<noteq> Panic"
  shows "muted (lv_policy s) s' \<and> (\<forall>rep. res = Ok rep \<longrightarrow> \<not> lp_audible rep \<and> lp_frames rep = [])"
proof (cases "bt_frames batch = [] \<or> (require_native_objects (lv_policy s) \<and> \<not> bt_native_objects_present batch)")
  case True
  show ?thesis
  proof (cases "is_ok res")
    case True
    then show ?thesis using assms(1) \<open>bt_frames batch = [] \<or> _\<close>
      by (auto simp: accept_batch_def Let_def muted_def live_report_def fail_after_def
          split: if_splits prod.splits outcome.splits)
  next
    case False
    then obtain s1 e where "fail_after (latch_fault D R s1) e = (res, s')" "lv_policy s1 = lv_policy s"
      using assms(1) \<open>bt_frames batch = [] \<or> _\<close>
      by (fastforce simp: accept_batch_def Let_def split: if_splits)
    from failed_muted(2) [OF this(1) assms(3)] this(2) show ?thesis by simp
  qed
next
  case False
  obtain r s1 where one: "prepare_frames powf D R (bt_frames batch) [] s = (r, s1)"
    by (cases "prepare_frames powf D R (bt_frames batch) [] s")
  from prepare_frames_cases [OF one] assms(2) False
  have bad: "\<not> is_ok r" "r \<noteq> Panic \<longrightarrow> muted (lv_policy s) s1" by (auto simp: batch_good_def)
  show ?thesis using assms(1,3) one False bad
    by (cases r) (auto simp: accept_batch_def)
qed

lemma push_faulted: "lv_state s = LiveFaulted \<Longrightarrow> live_push_packet powf D R p s = (Err LiveIsFaulted, s)"
  by (simp add: live_push_packet_def)

text \<open>The packet path up to the batch.\<close>

lemma before_decoding_cases:
  assumes "before_decoding D R p s = (r, s1)" "r \<noteq> Panic"
  shows "r = Ok () \<and> lv_policy s1 = lv_policy s
    \<and> lv_stable_packets s1 = (if pk_discontinuity p then 0 else lv_stable_packets s)"
  using assms failure_muted(3) [of D R _ r s1]
  by (auto simp: before_decoding_def Let_def muted_def mark_discontinuity_def
      dest: reset_backends_cases split: if_splits)

lemma push_unfold:
  assumes "lv_state s \<noteq> LiveFaulted" "before_decoding D R p s = (Ok (), s1)"
    and "lv_policy s1 = lv_policy s"
  shows "live_push_packet powf D R p s =
    (if contract_met (lv_policy s) p then
       (case dec_push_packet D p (lv_decoder s1) of
          (Panic, d) \<Rightarrow> (Panic, s1\<lparr>lv_decoder := d\<rparr>)
        | (Err e, d) \<Rightarrow> fail_after (register_failure D R (s1\<lparr>lv_decoder := d\<rparr>)) (LiveDecoder e)
        | (Ok batch, d) \<Rightarrow> accept_batch powf D R batch (s1\<lparr>lv_decoder := d\<rparr>))
     else fail_after (register_failure D R s1) (PacketContract
       (if required_data_type (lv_policy s) \<noteq> None \<and> pk_transport p \<noteq> Iec61937
        then ''IEC61937 transport is required for the configured data type''
        else if required_data_type (lv_policy s) \<noteq> None \<and> pk_data_type p \<noteq> required_data_type (lv_policy s)
        then ''unexpected or missing IEC61937 data type'' else ''empty decoder payload'')))"
  using assms unfolding live_push_packet_def before_decoding_def Let_def contract_met_def by simp

lemma push_panicked:
  "lv_state s \<noteq> LiveFaulted \<Longrightarrow> before_decoding D R p s = (Panic, s1)
    \<Longrightarrow> live_push_packet powf D R p s = (Panic, s1)"
  unfolding live_push_packet_def before_decoding_def Let_def by simp

lemma push_good:
  assumes "packet_good powf D R p s" "live_push_packet powf D R p s = (res, s')"
  defines "k \<equiv> saturating_add (if pk_discontinuity p then 0 else lv_stable_packets s) 1"
  shows "\<exists>prepared. prepared \<noteq> []
    \<and> res = Ok (live_report (required_stable_packets (lv_policy s) \<le> k)
        (if required_stable_packets (lv_policy s) \<le> k then prepared else []) s')
    \<and> lv_policy s' = lv_policy s \<and> lv_stable_packets s' = k
    \<and> lv_state s' = (if required_stable_packets (lv_policy s) \<le> k then LiveRunning else LivePriming)"
proof -
  obtain r s1 where before: "before_decoding D R p s = (r, s1)" by (cases "before_decoding D R p s")
  from assms(1) have alive: "lv_state s \<noteq> LiveFaulted" and contract: "contract_met (lv_policy s) p"
    and "r \<noteq> Panic"
    using before by (auto simp: packet_good_def)
  note b = before_decoding_cases [OF before this(3)]
  then have ok: "before_decoding D R p s = (Ok (), s1)" using before by simp
  obtain batch d where dec: "dec_push_packet D p (lv_decoder s1) = (Ok batch, d)"
    and "bt_frames batch \<noteq> []" "require_native_objects (lv_policy s) \<longrightarrow> bt_native_objects_present batch"
      "frames_prepared powf R (bt_frames batch) (s1\<lparr>lv_decoder := d\<rparr>)"
    using assms(1) ok by (auto simp: packet_good_def split: prod.splits outcome.splits)
  then have good: "batch_good powf R batch (s1\<lparr>lv_decoder := d\<rparr>)" using b by (simp add: batch_good_def)
  have "accept_batch powf D R batch (s1\<lparr>lv_decoder := d\<rparr>) = (res, s')"
    using assms(2) push_unfold [OF alive ok] b contract dec by simp
  from accept_batch_good [OF this good] obtain prepared where
    p: "length prepared = length (bt_frames batch)"
      "res = Ok (live_report (required_stable_packets (lv_policy s1) \<le> saturating_add (lv_stable_packets s1) 1)
        (if required_stable_packets (lv_policy s1) \<le> saturating_add (lv_stable_packets s1) 1 then prepared else []) s')"
      "lv_policy s' = lv_policy s1" "lv_stable_packets s' = saturating_add (lv_stable_packets s1) 1"
      "lv_state s' = (if required_stable_packets (lv_policy s1) \<le> saturating_add (lv_stable_packets s1) 1
        then LiveRunning else LivePriming)"
    by auto
  have k: "saturating_add (lv_stable_packets s1) 1 = k" "lv_policy s1 = lv_policy s"
    using b by (simp_all add: k_def)
  have "prepared \<noteq> []" using p(1) \<open>bt_frames batch \<noteq> []\<close> by auto
  then show ?thesis using p(2-5) unfolding k by blast
qed

lemma push_bad:
  assumes "\<not> packet_good powf D R p s" "live_push_packet powf D R p s = (res, s')" "res \<noteq> Panic"
    and alive: "lv_state s \<noteq> LiveFaulted"
  shows "muted (lv_policy s) s' \<and> (\<forall>rep. res = Ok rep \<longrightarrow> \<not> lp_audible rep \<and> lp_frames rep = [])"
proof -
  obtain r s1 where before: "before_decoding D R p s = (r, s1)" by (cases "before_decoding D R p s")
  have "r \<noteq> Panic" using push_panicked [OF alive] before assms(2,3) by fastforce
  note b = before_decoding_cases [OF before this]
  then have ok: "before_decoding D R p s = (Ok (), s1)" using before by simp
  note push = push_unfold [OF alive ok, of powf]
  show ?thesis
  proof (cases "contract_met (lv_policy s) p")
    case False
    then obtain e where "fail_after (register_failure D R s1) e = (res, s')" using push b assms(2) by auto
    from failed_muted(1) [OF this assms(3)] b show ?thesis by simp
  next
    case contract: True
    obtain r d where dec: "dec_push_packet D p (lv_decoder s1) = (r, d)"
      by (cases "dec_push_packet D p (lv_decoder s1)")
    show ?thesis
    proof (cases r)
      case (Ok batch)
      then have "accept_batch powf D R batch (s1\<lparr>lv_decoder := d\<rparr>) = (res, s')"
        using assms(2) push b contract dec by simp
      moreover have "\<not> batch_good powf R batch (s1\<lparr>lv_decoder := d\<rparr>)"
        using assms(1) alive contract ok dec Ok b by (simp add: packet_good_def batch_good_def)
      ultimately show ?thesis using accept_batch_bad assms(3) b by fastforce
    next
      case (Err e)
      then have "fail_after (register_failure D R (s1\<lparr>lv_decoder := d\<rparr>)) (LiveDecoder e) = (res, s')"
        using assms(2) push b contract dec by simp
      from failed_muted(1) [OF this assms(3)] b show ?thesis by simp
    next
      case Panic
      then show ?thesis using assms(2,3) push b contract dec by simp
    qed
  qed
qed

lemma history_gate: "live_history powf D R s n \<Longrightarrow> gate_ok s n"
proof (induction rule: live_history.induct)
  case (lh_good s n p)
  obtain res s' where push: "live_push_packet powf D R p s = (res, s')"
    by (cases "live_push_packet powf D R p s")
  let ?k = "saturating_add (if pk_discontinuity p then 0 else lv_stable_packets s) 1 :: u32"
  from push_good [OF lh_good(2) push]
  have s': "lv_policy s' = lv_policy s" "lv_stable_packets s' = ?k"
    "lv_state s' = LiveRunning \<longleftrightarrow> required_stable_packets (lv_policy s) \<le> ?k"
    "lv_state s' \<noteq> LiveFaulted" by (auto split: if_splits)
  have k: "unat ?k = min (if pk_discontinuity p then 1 else Suc n) (2 ^ 32 - 1)"
    using lh_good(3) by (auto simp: gate_ok_def saturating_add_def unat_add_no_overflow min_def)
  have "unat (required_stable_packets (lv_policy s)) \<le> 2 ^ 32 - 1"
    using unsigned_less [of "required_stable_packets (lv_policy s)", where 'a = nat] by simp
  then show ?case using lh_good(3) s' k
    by (simp add: gate_ok_def push word_le_nat_alt min_def)
next
  case (lh_bad s n p)
  obtain res s' where push: "live_push_packet powf D R p s = (res, s')"
    by (cases "live_push_packet powf D R p s")
  show ?case
  proof (cases "lv_state s = LiveFaulted")
    case True
    then show ?thesis using lh_bad(4) by (simp add: push_faulted) (auto simp: gate_ok_def)
  next
    case False
    then have "muted (lv_policy s) s'" using push_bad [OF lh_bad(2) push] lh_bad(3) push by simp
    then show ?thesis using muted_gate lh_bad(4) push by fastforce
  qed
next
  case (lh_discontinuity s n)
  then show ?case using failure_muted(3) muted_gate by (metis prod.collapse)
next
  case (lh_recover s n)
  then show ?case using try_recover_muted muted_gate by (metis prod.collapse)
qed (rule live_new_gate)

text \<open>
  C29: Output is released exactly when it should be: with \<open>n\<close> the number of consecutive good packets
  so far, a packet is answered with audible frames if and only if it is good itself and completes
  the required number of good packets since the last discontinuity, failure, empty batch or
  recovery; every other answer carries no frames.
\<close>

theorem live_audible_iff:
  assumes "live_history powf D R s n" "live_push_packet powf D R p s = (Ok rep, s')"
  shows "(lp_audible rep \<longleftrightarrow> packet_good powf D R p s
      \<and> unat (required_stable_packets (lv_policy s)) \<le> (if pk_discontinuity p then 1 else Suc n))
    \<and> (lp_frames rep \<noteq> [] \<longleftrightarrow> lp_audible rep)"
proof (cases "packet_good powf D R p s")
  case True
  note gate = history_gate [OF live_history.lh_good [OF assms(1) True]]
  from push_good [OF True assms(2)] gate show ?thesis
    by (auto simp: assms(2) gate_ok_def live_report_def True split: if_splits)
next
  case False
  have "lv_state s \<noteq> LiveFaulted" using assms(2) by (auto simp: push_faulted)
  from push_bad [OF False assms(2) _ this] False show ?thesis by auto
qed

section \<open>No call panics\<close>

lemma unique_layout_role_index_less: "unique_layout_role_index layout role = Some i \<Longrightarrow> i < length layout"
proof -
  assume "unique_layout_role_index layout role = Some i"
  then have "filter (\<lambda>i. sp_channel_role (layout ! i) = role) [0..<length layout] = [i]"
    by (auto simp: unique_layout_role_index_def split: list.splits)
  from arg_cong [OF this, of set] show "i < length layout" by auto
qed

lemma route_bed_no_panic:
  "block_shape source outs \<Longrightarrow> length outs = length layout \<Longrightarrow> si + length kinds \<le> length (ab_channels source)
    \<Longrightarrow> route_bed_channels source si kinds layout outs \<noteq> Panic"
proof (induction kinds arbitrary: si outs)
  case (Cons k kinds)
  show ?case
  proof (cases "\<exists>role. k = Bed role \<and> unique_layout_role_index layout role \<noteq> None")
    case True
    then obtain role oi where k: "k = Bed role" "unique_layout_role_index layout role = Some oi" by auto
    have "oi < length outs" using unique_layout_role_index_less [OF k(2)] Cons.prems(2) by simp
    then obtain o1 where one: "add_channel (\<lambda>x. x) source si oi outs = Ok o1"
      using add_channel_no_panic [OF Cons.prems(1)] Cons.prems(3) by fastforce
    note adds = add_channel_Ok(1) [OF one]
    have "route_bed_channels source (Suc si) kinds layout o1 \<noteq> Panic"
      by (rule Cons.IH) (use block_shape_adds [OF Cons.prems(1) adds] adds_length(1) [OF adds] Cons.prems in simp_all)
    then show ?thesis by (simp add: k one)
  next
    case False
    then show ?thesis using Cons by (cases k) auto
  qed
qed simp

lemma mix_gains_no_panic:
  "block_shape source outs \<Longrightarrow> length outs = unat n \<Longrightarrow> si < length (ab_channels source)
    \<Longrightarrow> mix_gains source si n gs outs \<noteq> Panic"
proof (induction gs arbitrary: outs)
  case (Cons g gs)
  show ?case
  proof (cases "n \<le> sg_speaker_index g \<or> \<not> f32_is_finite (sg_gain g)")
    case False
    then have "unat (sg_speaker_index g) < length outs" using Cons.prems(2) by (simp add: word_less_nat_alt not_le)
    then obtain o1 where one:
      "add_channel (\<lambda>x. f32_mul x (sg_gain g)) source si (unat (sg_speaker_index g)) outs = Ok o1"
      using add_channel_no_panic [OF Cons.prems(1) _ Cons.prems(3)] by blast
    note adds = add_channel_Ok(1) [OF one]
    have "mix_gains source si n gs o1 \<noteq> Panic"
      by (rule Cons.IH) (use block_shape_adds [OF Cons.prems(1) adds] adds_length(1) [OF adds] Cons.prems in simp_all)
    then show ?thesis using False one by simp
  qed simp
qed simp

lemma mix_objects_no_panic:
  "block_shape source outs \<Longrightarrow> length outs = unat n
    \<Longrightarrow> \<forall>b\<in>set bindings. unat (oc_channel_index b) < length (ab_channels source)
    \<Longrightarrow> mix_objects source objs bindings gains n outs \<noteq> Panic"
proof (induction objs arbitrary: gains outs)
  case (Cons ob objs)
  show ?case
  proof (cases "find (\<lambda>b. oc_object_id b = ob_id ob) bindings")
    case (Some b)
    then have "b \<in> set bindings" by (auto simp: find_Some_iff in_set_conv_nth)
    then have si: "unat (oc_channel_index b) < length (ab_channels source)" using Cons.prems(3) by blast
    show ?thesis
    proof (cases "mix_gains source (unat (oc_channel_index b)) n (take (unat n) gains) outs")
      case (Ok o1)
      note adds = conjunct1 [OF mix_gains_Ok [OF Ok]]
      have "mix_objects source objs bindings (drop (unat n) gains) n o1 \<noteq> Panic"
        by (rule Cons.IH) (use block_shape_adds [OF Cons.prems(1) adds] adds_length(1) [OF adds] Cons.prems in simp_all)
      then show ?thesis using Some si Ok by simp
    qed (use Some si mix_gains_no_panic [OF Cons.prems(1,2) si] in simp_all)
  qed simp
qed simp

lemma live_validate_bindings_Ok:
  assumes "live_validate_bindings objs kinds bindings native = Ok ()"
  shows "\<forall>b\<in>set bindings. unat (oc_channel_index b) < length kinds"
proof -
  have scan: "binding_scan objs kinds earlier bs = Ok () \<Longrightarrow> \<forall>b\<in>set bs. unat (oc_channel_index b) < length kinds" for earlier bs
    by (induction bs arbitrary: earlier) (auto split: if_splits)
  have "binding_scan objs kinds [] bindings = Ok ()"
    using assms by (auto simp: live_validate_bindings_def split: if_splits outcome.splits)
  then show ?thesis by (rule scan)
qed

lemma validators_no_panic:
  "validate_source_audio a kinds m \<noteq> Panic" "validate_objects objs m' native \<noteq> Panic"
  "live_validate_bindings objs kinds bindings native \<noteq> Panic"
proof -
  have objects: "object_scan earlier obs \<noteq> Panic" for earlier obs
    by (induction earlier obs rule: object_scan.induct) simp_all
  have scan: "binding_scan objs kinds earlier bs \<noteq> Panic" for earlier bs
    by (induction bs arbitrary: earlier) simp_all
  have unbound: "unbound_scan bs i ks \<noteq> Panic" for bs i ks
    by (induction bs i ks rule: unbound_scan.induct) simp_all
  show "validate_source_audio a kinds m \<noteq> Panic" by (simp add: validate_source_audio_def)
  show "validate_objects objs m' native \<noteq> Panic" by (simp add: validate_objects_def objects)
  show "live_validate_bindings objs kinds bindings native \<noteq> Panic"
    by (simp add: live_validate_bindings_def scan unbound split: outcome.split)
qed

locale live_backends = latching_decoder D faulted + sound_renderer R ok
  for D :: "'d streaming_decoder" and faulted and R :: "'r renderer" and ok
begin

definition lv_sound :: "('d, 'r) live_runtime \<Rightarrow> bool" where
  "lv_sound s \<longleftrightarrow> ok (lv_renderer s) \<and> length (lv_layout s) = unat (lv_output_channels s)"

lemma new_sound: "live_new D R d r fmt l layout policy = Ok s \<Longrightarrow> lv_sound s"
  using configure_ok [of layout "af_sample_rate fmt" "af_block_size fmt" "maximum_objects policy" r]
  by (auto simp: live_new_def lv_sound_def split: if_splits outcome.splits prod.splits)

lemma rendered_ok:
  assumes r: "ok r" and ren: "(if objs = [] then (Ok (), gains, scratch, r) else rd_render_gains R l objs gains scratch r)
      = (rendered, gains', scratch', r')"
  shows "rendered \<noteq> Panic" "ok r'"
proof -
  have "rendered \<noteq> Panic \<and> ok r'"
  proof (cases "objs = []")
    case False
    then have "rd_render_gains R l objs gains scratch r = (rendered, gains', scratch', r')" using ren by simp
    then show ?thesis using render_no_panic [OF r] render_ok [OF r] by (metis fst_conv snd_conv)
  qed (use r ren in auto)
  then show "rendered \<noteq> Panic" "ok r'" by simp_all
qed

lemma prepare_frame_sound:
  assumes "lv_sound s" "prepare_frame powf R frame s = (res, s')"
  shows "res \<noteq> Panic \<and> lv_sound s'"
proof -
  let ?source = "df_audio (sf_decoded frame)" and ?objs = "df_objects (sf_decoded frame)" and ?n = "lv_output_channels s"
  let ?robjs = "map (\<lambda>ob. \<lparr>ro_position = ob_position ob, ro_gain = db_to_linear powf (ob_gain_db ob)\<rparr>) ?objs"
  let ?blank = "replicate (length ?objs * unat ?n) speaker_gain_default"
  obtain rendered gains scratch renderer where
    ren: "(if ?robjs = [] then (Ok (), ?blank, lv_scratch s, lv_renderer s)
       else rd_render_gains R (lv_listener s) ?robjs ?blank (lv_scratch s) (lv_renderer s))
     = (rendered, gains, scratch, renderer)"
    by (rule prod_cases4)
  have r: "ok (lv_renderer s)" using assms(1) by (simp add: lv_sound_def)
  have ok: "rendered \<noteq> Panic" "ok renderer"
    by (rule rendered_ok [OF r ren])+
  have fits: "lv_sound (s\<lparr>lv_scratch := scratch, lv_renderer := renderer\<rparr>)"
    using assms(1) ok by (simp add: lv_sound_def)
  show ?thesis
  proof (cases "validate_source_audio ?source (sf_channel_kinds frame) (maximum_pcm_channels (lv_policy s)) = Ok ()
      \<and> live_validate_bindings ?objs (sf_channel_kinds frame) (sf_object_channels frame) (require_native_objects (lv_policy s)) = Ok ()")
    case True
    note shape = validate_source_audio_Ok [OF conjunct1 [OF True]]
    let ?bed = "route_bed_channels ?source 0 (sf_channel_kinds frame) (lv_layout s)
      (replicate (unat ?n) (replicate (unat (ab_frame_count ?source)) 0))"
    have blank: "block_shape ?source (replicate (unat ?n) (replicate (unat (ab_frame_count ?source)) 0))"
      using shape by (simp add: block_shape_def)
    have "?bed \<noteq> Panic"
      by (rule route_bed_no_panic [OF blank]) (use assms(1) shape in \<open>simp_all add: lv_sound_def\<close>)
    moreover have "mix_object_channels ?source ?objs (sf_object_channels frame) gains ?n bed \<noteq> Panic"
      if "?bed = Ok bed" for bed
    proof -
      note adds = route_bed_channels_Ok [OF that]
      have "mix_objects ?source ?objs (sf_object_channels frame) gains ?n bed \<noteq> Panic"
        by (rule mix_objects_no_panic)
          (use block_shape_adds [OF blank adds] adds_length(1) [OF adds]
             live_validate_bindings_Ok [OF conjunct2 [OF True]] shape in simp_all)
      then show ?thesis by (simp add: mix_object_channels_def)
    qed
    ultimately have loops: "?bed \<noteq> Panic"
      "?bed = Ok bed \<Longrightarrow> mix_object_channels ?source ?objs (sf_object_channels frame) gains ?n bed \<noteq> Panic" for bed
      by auto
    show ?thesis
    proof (cases "validate_objects ?objs (maximum_objects (lv_policy s)) (require_native_objects (lv_policy s))")
      case Panic
      then show ?thesis using validators_no_panic(2) by blast
    next
      case (Err e)
      then show ?thesis using assms True unfolding prepare_frame_def Let_def by auto
    next
      case valid: (Ok u)
      note frame = assms(2) [unfolded prepare_frame_def Let_def ren valid conjunct1 [OF True] conjunct2 [OF True] outcome.case prod.case]
      show ?thesis
      proof (cases rendered)
        case rendered: (Ok u)
        show ?thesis
        proof (cases ?bed)
          case bed: (Ok bed)
          show ?thesis
          proof (cases "mix_object_channels ?source ?objs (sf_object_channels frame) gains ?n bed")
            case (Ok mixed)
            then show ?thesis using frame rendered bed fits by (auto simp: lv_sound_def split: if_splits)
          qed (use frame rendered bed fits loops(2) [OF bed] in auto)
        qed (use frame rendered fits loops(1) in auto)
      qed (use frame ok fits in auto)
    qed
  next
    case False
    then show ?thesis
      using assms validators_no_panic unfolding prepare_frame_def Let_def
      by (auto split: outcome.splits)
  qed
qed

lemma reset_backends_sound:
  assumes "lv_sound s" "\<And>t. lv_renderer (next t) = lv_renderer t \<and> lv_layout (next t) = lv_layout t
    \<and> lv_output_channels (next t) = lv_output_channels t" "reset_backends D R next s = (res, s')"
  shows "res = Ok () \<and> lv_sound s'"
  using assms(1,3) no_panic(4) [of "lv_decoder s"] reset_ok
  by (auto simp: reset_backends_def lv_sound_def assms(2) split: prod.splits outcome.splits)

lemma failures_sound:
  assumes "lv_sound s"
  shows "register_failure D R s = (res, s') \<Longrightarrow> res = Ok () \<and> lv_sound s'"
    and "latch_fault D R s = (res, s') \<Longrightarrow> res = Ok () \<and> lv_sound s'"
    and "mark_discontinuity D R s = (res, s') \<Longrightarrow> res = Ok () \<and> lv_sound s'"
  unfolding register_failure_def latch_fault_def mark_discontinuity_def
  by (rule reset_backends_sound; use assms in \<open>simp add: lv_sound_def\<close>)+

lemma fail_after_sound:
  assumes "lv_sound s"
  shows "fail_after (register_failure D R s) e = (res', s') \<Longrightarrow> res' \<noteq> Panic \<and> lv_sound s'"
    and "fail_after (latch_fault D R s) e = (res', s') \<Longrightarrow> res' \<noteq> Panic \<and> lv_sound s'"
  using failures_sound [OF assms] by (auto simp: fail_after_def split: prod.splits outcome.splits)

lemma prepare_frames_sound:
  "lv_sound s \<Longrightarrow> prepare_frames powf D R frames acc s = (res, s') \<Longrightarrow> res \<noteq> Panic \<and> lv_sound s'"
proof (induction frames arbitrary: acc s)
  case (Cons frame rest)
  obtain r s1 where one: "prepare_frame powf R frame s = (r, s1)" by (cases "prepare_frame powf R frame s")
  note sound = conjunct2 [OF prepare_frame_sound [OF Cons.prems(1) one]]
  show ?case
  proof (cases r)
    case (Ok f)
    then have "prepare_frames powf D R rest (acc @ [f]) s1 = (res, s')" using Cons.prems(2) one by simp
    then show ?thesis by (rule Cons.IH [OF sound])
  next
    case (Err e)
    then have "fail_after (register_failure D R s1) e = (res, s')" using Cons.prems(2) one by simp
    then show ?thesis by (rule fail_after_sound(1) [OF sound])
  next
    case Panic
    then show ?thesis using prepare_frame_sound [OF Cons.prems(1) one] by simp
  qed
qed auto

lemma accept_batch_sound:
  assumes sound: "lv_sound s" and batch: "accept_batch powf D R batch s = (res, s')"
  shows "res \<noteq> Panic \<and> lv_sound s'"
proof (cases "bt_frames batch = [] \<or> (require_native_objects (lv_policy s) \<and> \<not> bt_native_objects_present batch)")
  case True
  then consider s1 where "res \<noteq> Panic" "s' = s1" "lv_sound s1"
    | s1 e where "fail_after (latch_fault D R s1) e = (res, s')" "lv_sound s1"
    using sound batch by (fastforce simp: accept_batch_def Let_def lv_sound_def split: if_splits)
  then show ?thesis
  proof cases
    case 2
    then show ?thesis by (intro fail_after_sound(2))
  qed simp
next
  case False
  obtain r s1 where frames: "prepare_frames powf D R (bt_frames batch) [] s = (r, s1)"
    by (cases "prepare_frames powf D R (bt_frames batch) [] s")
  from prepare_frames_sound [OF sound frames] show ?thesis using False batch frames
    by (auto simp: accept_batch_def Let_def lv_sound_def split: outcome.splits if_splits)
qed

lemma push_sound:
  assumes sound: "lv_sound s" and push: "live_push_packet powf D R p s = (res, s')"
  shows "res \<noteq> Panic \<and> lv_sound s'"
proof (cases "lv_state s = LiveFaulted")
  case True
  then show ?thesis using assms by (auto simp: push_faulted)
next
  case alive: False
  obtain r s1 where before: "before_decoding D R p s = (r, s1)" by (cases "before_decoding D R p s")
  define s0 where "s0 = s\<lparr>lv_metrics := (lv_metrics s)\<lparr>packets_received :=
      saturating_add (packets_received (lv_metrics s)) 1\<rparr>\<rparr>"
  have "lv_sound s0" using sound by (simp add: lv_sound_def s0_def)
  then have "r = Ok () \<and> lv_sound s1"
    using before failures_sound(3) [of s0 r s1] unfolding before_decoding_def Let_def s0_def [symmetric]
    by (auto split: if_splits)
  then have ok: "before_decoding D R p s = (Ok (), s1)" and s1: "lv_sound (s1\<lparr>lv_decoder := d\<rparr>)" "lv_sound s1" for d
    using before by (simp_all add: lv_sound_def)
  have policy: "lv_policy s1 = lv_policy s" using before_decoding_cases [OF ok] by simp
  obtain r d where dec: "dec_push_packet D p (lv_decoder s1) = (r, d)" by (cases "dec_push_packet D p (lv_decoder s1)")
  have "r \<noteq> Panic" using no_panic(3) [of p "lv_decoder s1"] dec by simp
  then consider t e where "fail_after (register_failure D R t) e = (res, s')" "lv_sound t"
    | batch where "accept_batch powf D R batch (s1\<lparr>lv_decoder := d\<rparr>) = (res, s')"
    using push s1 unfolding push_unfold [OF alive ok policy] dec
    by (fastforce split: if_splits outcome.splits)
  then show ?thesis
  proof cases
    case 1
    then show ?thesis by (intro fail_after_sound(1))
  next
    case 2
    then show ?thesis by (rule accept_batch_sound [OF s1(1)])
  qed
qed

lemma recover_sound:
  assumes "lv_sound s" "try_recover D R s = (res, s')"
  shows "res \<noteq> Panic \<and> lv_sound s'"
  using assms no_panic(5) [of "lv_decoder s"] reset_ok
  by (auto simp: try_recover_def lv_sound_def split: prod.splits outcome.splits)

end

interpretation live: live_backends "isolated_vtable D" iso_faulted "basic_vtable powf" basic_ok for D powf
  by unfold_locales

text \<open>The operations of the runtime, whatever they return.\<close>

datatype live_op = LivePush decoder_packet | LiveDiscontinuity | LiveRecover

fun live_step :: "(f32 \<Rightarrow> f32 \<Rightarrow> f32) \<Rightarrow> 'd streaming_decoder \<Rightarrow> 'r renderer \<Rightarrow> live_op
    \<Rightarrow> ('d, 'r) live_runtime \<Rightarrow> bool \<times> ('d, 'r) live_runtime" where
  "live_step powf D R (LivePush p) s =
     (fst (live_push_packet powf D R p s) = Panic, snd (live_push_packet powf D R p s))"
| "live_step powf D R LiveDiscontinuity s =
     (fst (mark_discontinuity D R s) = Panic, snd (mark_discontinuity D R s))"
| "live_step powf D R LiveRecover s = (fst (try_recover D R s) = Panic, live_recover D R s)"

lemma live_step_sound:
  "live.lv_sound s \<Longrightarrow> live_step powf (isolated_vtable D) (basic_vtable powf) op s = (panicked, s')
    \<Longrightarrow> \<not> panicked \<and> live.lv_sound s'"
  by (cases op)
    (auto simp: live_recover_def live.push_sound [OF _ prod.collapse [symmetric]]
      live.recover_sound [OF _ prod.collapse [symmetric]] live.failures_sound(3) [OF _ prod.collapse [symmetric]])

lemma live_run_sound:
  "live.lv_sound s \<Longrightarrow>
     live.lv_sound (fold (\<lambda>op s. snd (live_step powf (isolated_vtable D) (basic_vtable powf) op s)) ops s)"
  by (induction ops arbitrary: s) (simp_all add: live_step_sound [OF _ prod.collapse [symmetric]])

text \<open>
  C31: With a panic-isolated decoder, whatever it does inside, and the basic renderer, no sequence of
  packets, discontinuities and recoveries makes the running runtime panic.
\<close>

theorem live_runtime_never_panics:
  assumes "live_new (isolated_vtable D) (basic_vtable powf) d r fmt l layout policy = Ok s"
  shows "\<not> fst (live_step powf (isolated_vtable D) (basic_vtable powf) op
    (fold (\<lambda>op s. snd (live_step powf (isolated_vtable D) (basic_vtable powf) op s)) ops s))"
  using live_step_sound [OF live_run_sound [OF live.new_sound [OF assms]] prod.collapse [symmetric]] by blast

section \<open>A concrete stream\<close>

text \<open>A decoder that answers every packet with one half-scale front-left sample.\<close>

definition demo_frame :: streaming_decoded_frame where
  "demo_frame = \<lparr>sf_decoded = \<lparr>df_audio = \<lparr>ab_channels = [[0x3F000000]], ab_frame_count = 1,
       ab_presentation_time_seconds = 0, ab_discontinuity = False\<rparr>, df_objects = []\<rparr>,
     sf_channel_kinds = [Bed FrontLeft], sf_object_channels = []\<rparr>"

definition demo_decoder :: "unit streaming_decoder" where
  "demo_decoder = \<lparr>dec_info = (\<lambda>_. Ok \<lparr>di_name = [], di_production_ready = False, di_maturity = [],
       di_output_semantics = ChannelPcm\<rparr>), dec_configure_stream = (\<lambda>_ d. (Ok (), d)),
     dec_push_packet = (\<lambda>_ d. (Ok \<lparr>bt_frames = [demo_frame], bt_native_objects_present = False\<rparr>, d)),
     dec_reset_stream = (\<lambda>d. (Ok (), d)), dec_recover_stream = (\<lambda>d. (Ok (), d))\<rparr>"

definition demo_policy :: live_decode_policy where
  "demo_policy = live_decode_policy_default\<lparr>required_stable_packets := 1,
     require_native_objects := False, required_data_type := None\<rparr>"

definition demo_format :: audio_format where
  "demo_format = \<lparr>af_sample_rate = 48000, af_channel_count = 1, af_sample_type = F32, af_block_size = 256\<rparr>"

definition demo_packet :: decoder_packet where
  "demo_packet = \<lparr>pk_transport = RawElementary, pk_data_type = None, pk_payload = [0], pk_discontinuity = False\<rparr>"

definition demo_isolated :: "unit isolated_decoder" where
  "demo_isolated = \<lparr>iso_inner = (), iso_info = \<lparr>di_name = [], di_production_ready = False, di_maturity = [],
     di_output_semantics = ChannelPcm\<rparr>, iso_faulted = False\<rparr>"

definition demo_basic :: basic_renderer where
  "demo_basic = snd (basic_configure [speaker_on_x FrontLeft one_f32] 48000 256 32 (basic_new NearestSpeaker))"

definition demo_live :: "(unit isolated_decoder, basic_renderer) live_runtime" where
  "demo_live = \<lparr>lv_decoder = demo_isolated, lv_renderer = demo_basic, lv_listener = listener_at_zero,
     lv_layout = [speaker_on_x FrontLeft one_f32], lv_policy = demo_policy, lv_scratch = [0],
     lv_output_channels = 1, lv_state = LiveSearching, lv_stable_packets = 0, lv_consecutive_errors = 0,
     lv_consecutive_empty_packets = 0, lv_consecutive_non_object_packets = 0,
     lv_metrics = live_metrics_default\<rparr>"

lemma demo_live_new:
  "live_new (isolated_vtable demo_decoder) (basic_vtable (\<lambda>_ _. one_f32)) demo_isolated (basic_new NearestSpeaker)
     demo_format listener_at_zero [speaker_on_x FrontLeft one_f32] demo_policy = Ok demo_live"
proof -
  have conf: "basic_configure [speaker_on_x FrontLeft one_f32] 48000 256 32 (basic_new NearestSpeaker) = (Ok (), demo_basic)"
    and layout: "gr_layout demo_basic = [speaker_on_x FrontLeft one_f32]" "gr_configured demo_basic"
    and enabled: "sp_enabled (speaker_on_x FrontLeft one_f32)"
    by (simp_all add: demo_basic_def basic_configure_def Let_def basic_new_def speaker_on_x_def)
  show ?thesis
    by (simp add: live_new_def demo_policy_def live_decode_policy_default_def demo_format_def demo_isolated_def
      isolated_configure_stream_def isolate_call_def demo_decoder_def basic_vtable_def conf layout
      basic_output_channel_count_def basic_required_scratch_size_def scratch_new_def has_duplicate_roles_def
      demo_live_def enabled live_metrics_default_def)
qed

lemma demo_prepare:
  assumes "lv_layout s = [speaker_on_x FrontLeft one_f32]" "lv_policy s = demo_policy" "lv_output_channels s = 1"
  shows "\<exists>out s'. prepare_frame powf R demo_frame s = (Ok out, s') \<and> kept s s'
    \<and> ab_channels (lf_speaker_audio out) = [[0x3F000000]]"
proof -
  have sum: "f32_add 0 0x3F000000 = 0x3F000000" by (simp add: float_defs)
  have fin: "f32_is_finite 0x3F000000" "f64_is_finite 0"
    by (simp_all add: f32_is_finite_def f64_is_finite_def)
  have source: "validate_source_audio (df_audio (sf_decoded demo_frame)) (sf_channel_kinds demo_frame) 32 = Ok ()"
    by (simp add: validate_source_audio_def demo_frame_def audio_block_validate_def fin)
  have bed: "route_bed_channels (df_audio (sf_decoded demo_frame)) 0 (sf_channel_kinds demo_frame)
      [speaker_on_x FrontLeft one_f32] [[0]] = Ok [[0x3F000000]]"
    by (simp add: demo_frame_def unique_layout_role_index_def speaker_on_x_def add_channel_def get_at_def sum)
  have parts: "df_objects (sf_decoded demo_frame) = []" "sf_object_channels demo_frame = []"
    "ab_frame_count (df_audio (sf_decoded demo_frame)) = 1"
    "live_validate_bindings [] (sf_channel_kinds demo_frame) [] False = Ok ()"
    by (simp_all add: demo_frame_def live_validate_bindings_def)
  have policy: "maximum_pcm_channels demo_policy = 32" "require_native_objects demo_policy = False"
    by (simp_all add: demo_policy_def live_decode_policy_default_def)
  obtain out s' where "prepare_frame powf R demo_frame s = (Ok out, s')" "ab_channels (lf_speaker_audio out) = [[0x3F000000]]"
    using source bed
    by (simp add: prepare_frame_def Let_def validate_objects_def mix_object_channels_def fin parts policy assms)
  then show ?thesis using prepare_frame_kept by blast
qed

lemma demo_good:
  assumes "lv_layout s = [speaker_on_x FrontLeft one_f32]" "lv_policy s = demo_policy" "lv_output_channels s = 1"
    and "lv_state s \<noteq> LiveFaulted" "iso_faulted (lv_decoder s) = False"
  shows "packet_good powf (isolated_vtable demo_decoder) R demo_packet s"
proof -
  have policy: "required_data_type demo_policy = None" "require_native_objects demo_policy = False"
    by (simp_all add: demo_policy_def live_decode_policy_default_def)
  have frame: "is_ok (fst (prepare_frame powf R demo_frame t))"
    if "lv_layout t = lv_layout s" "lv_policy t = lv_policy s" "lv_output_channels t = lv_output_channels s" for t
    using demo_prepare [of t powf R] that assms(1-3) by auto
  show ?thesis
    using assms policy
    by (simp add: packet_good_def contract_met_def before_decoding_def Let_def demo_packet_def
        isolated_push_packet_def isolate_call_def demo_decoder_def frame)
qed

lemma live_audible_iff_witness:
  "\<exists>(rep :: live_process_report) s'. live_push_packet (\<lambda>_ _. one_f32) (isolated_vtable demo_decoder)
      (basic_vtable (\<lambda>_ _. one_f32)) demo_packet demo_live = (Ok rep, s')
    \<and> lp_audible rep \<and> lp_frames rep \<noteq> []"
proof -
  let ?D = "isolated_vtable demo_decoder" and ?R = "basic_vtable (\<lambda>_ _. one_f32)" and ?p = "\<lambda>(_::f32) (_::f32). one_f32"
  have good: "packet_good ?p ?D ?R demo_packet demo_live"
    by (rule demo_good) (simp_all add: demo_live_def demo_isolated_def)
  have start: "live_history ?p ?D ?R demo_live 0" by (rule lh_new [OF demo_live_new])
  obtain res s' where push: "live_push_packet ?p ?D ?R demo_packet demo_live = (res, s')"
    by (rule prod.exhaust)
  from push_good [OF good push] obtain rep where rep: "res = Ok rep" by blast
  have "required_stable_packets (lv_policy demo_live) = 1" "\<not> pk_discontinuity demo_packet"
    by (simp_all add: demo_live_def demo_policy_def demo_packet_def)
  then show ?thesis
    using live_audible_iff [OF start push [unfolded rep]] good push rep by auto
qed

lemma live_mix_is_sum_witness:
  "\<exists>out s'. prepare_frame (\<lambda>_ _. one_f32) (basic_vtable (\<lambda>_ _. one_f32)) demo_frame demo_live = (Ok out, s')
    \<and> length (ab_channels (lf_speaker_audio out)) = 1
    \<and> f32_is_finite (ab_channels (lf_speaker_audio out) ! 0 ! 0)"
proof -
  obtain out s' where frame:
    "prepare_frame (\<lambda>_ _. one_f32) (basic_vtable (\<lambda>_ _. one_f32)) demo_frame demo_live = (Ok out, s')"
    using demo_prepare [of demo_live "\<lambda>_ _. one_f32" "basic_vtable (\<lambda>_ _. one_f32)"] by (auto simp: demo_live_def)
  have "lf_source_audio out = df_audio (sf_decoded demo_frame)" by (rule prepare_frame_Ok [OF frame])
  then have "unat (lv_output_channels demo_live) = 1" "unat (ab_frame_count (lf_source_audio out)) = 1"
    by (simp_all add: demo_live_def demo_frame_def)
  with live_mix_is_sum [OF frame] frame show ?thesis by (simp only: ) auto
qed

lemma live_runtime_never_panics_witness:
  "\<not> fst (live_step (\<lambda>_ _. one_f32) (isolated_vtable demo_decoder) (basic_vtable (\<lambda>_ _. one_f32)) (LivePush demo_packet)
    (fold (\<lambda>op s. snd (live_step (\<lambda>_ _. one_f32) (isolated_vtable demo_decoder) (basic_vtable (\<lambda>_ _. one_f32)) op s))
      [LivePush demo_packet, LiveDiscontinuity, LiveRecover] demo_live))"
  by (rule live_runtime_never_panics [OF demo_live_new])

text \<open>
  Marking a discontinuity is public and takes a faulted runtime back to acquisition, although a
  fault is documented to need an explicit recovery.
\<close>

lemma discontinuity_clears_fault:
  "dec_reset_stream D (lv_decoder s) = (Ok (), d) \<Longrightarrow>
     lv_state (snd (mark_discontinuity D R s)) = LiveMuted"
  by (simp add: mark_discontinuity_def reset_backends_def)

end
