(* ===== verification/Render_Scene.thy ===== *)
theory Render_Scene
  imports Core_Scene
begin

text \<open>
  Scenes, \<open>src/crates/aurora-scene/src/lib.rs\<close>: the trajectory of the object, the validation of a
  scene that was read from a file, and the speakers in canonical order.  Reading the file and its
  JSON is left out.  Sine, cosine, exponential, power and hypotenuse of the mathematics
  library, whose precision Rust leaves open, are the record \<open>math\<close>.
\<close>

record math =
  m_powf :: "f32 \<Rightarrow> f32 \<Rightarrow> f32"
  m_sin :: "f32 \<Rightarrow> f32"
  m_cos :: "f32 \<Rightarrow> f32"
  m_exp :: "f32 \<Rightarrow> f32"
  m_hypot :: "f32 \<Rightarrow> f32 \<Rightarrow> f32"

text \<open>A library to run examples with.\<close>

definition flat_math :: math where
  "flat_math = \<lparr>m_powf = (\<lambda>_ _. 0x3F800000), m_sin = (\<lambda>_. 0), m_cos = (\<lambda>_. 0x3F800000), m_exp = (\<lambda>_. 0x3F800000),
     m_hypot = (\<lambda>_ _. 0x3F800000)\<rparr>"

definition PI_f32 :: f32 where "PI_f32 = 0x40490FDB"
definition TAU_f32 :: f32 where "TAU_f32 = 0x40C90FDB"

text \<open>\<open>f32::to_radians\<close> multiplies by the constant \<open>PI / 180\<close>.\<close>

definition to_radians :: "f32 \<Rightarrow> f32" where
  "to_radians x = f32_mul x (f32_div PI_f32 0x43340000)"

section \<open>Data\<close>

record scene_object =
  so_id :: string
  so_gain_db :: f32
  so_spread :: f32

datatype trajectory = Circle vector3 f32 f32 f32 f32

record render_scene =
  rs_layout :: standard_layout
  rs_listener :: listener
  rs_speakers :: "speaker list"
  rs_object :: scene_object
  rs_trajectory :: trajectory
  rs_block_size :: usize

datatype scene_error =
    SceneIo | SceneJson | SceneInvalid string | MissingChannelRole channel_role
  | DuplicateChannelRole channel_role | CustomRoleInStandardLayout string

section \<open>Operations\<close>

text \<open>\<open>Circle center radius z start_degrees revolutions_per_second\<close>\<close>

fun position_at_time :: "math \<Rightarrow> trajectory \<Rightarrow> f64 \<Rightarrow> vector3" where
  "position_at_time M (Circle centre radius z start revolutions) t =
     (let angle = f32_add (to_radians start) (f32_mul (f32_mul (f32_of_f64 t) revolutions) TAU_f32) in
      vector3_new (f32_add (vx centre) (f32_mul radius (m_cos M angle)))
        (f32_add (vy centre) (f32_mul radius (m_sin M angle))) z)"

definition object_at_time :: "math \<Rightarrow> render_scene \<Rightarrow> f64 \<Rightarrow> audio_object" where
  "object_at_time M s t =
     \<lparr>ob_id = so_id (rs_object s), ob_position = position_at_time M (rs_trajectory s) t,
      ob_velocity = vector3_zero, ob_gain_db = so_gain_db (rs_object s), ob_spread = so_spread (rs_object s),
      ob_start_time_seconds = None, ob_end_time_seconds = None\<rparr>"

fun collect_roles :: "channel_role list \<Rightarrow> speaker list \<Rightarrow> (speaker list, scene_error) outcome" where
  "collect_roles [] speakers = Ok []"
| "collect_roles (role # roles) speakers =
     (case find (\<lambda>s. sp_channel_role s = role) speakers of
        None \<Rightarrow> Err (MissingChannelRole role)
      | Some s \<Rightarrow>
          (case collect_roles roles speakers of
             Ok rest \<Rightarrow> Ok (s # rest) | Err e \<Rightarrow> Err e | Panic \<Rightarrow> Panic))"

definition ordered_speakers :: "render_scene \<Rightarrow> (speaker list, scene_error) outcome" where
  "ordered_speakers s =
     (if rs_layout s = CustomLayout then Ok (rs_speakers s)
      else collect_roles (canonical_roles (rs_layout s)) (rs_speakers s))"

fun role_scan :: "standard_layout \<Rightarrow> channel_role list \<Rightarrow> speaker list \<Rightarrow> (channel_role list, scene_error) outcome" where
  "role_scan layout seen [] = Ok seen"
| "role_scan layout seen (s # rest) =
     (case (sp_channel_role s, is_standard layout) of
        (Custom v, True) \<Rightarrow> Err (CustomRoleInStandardLayout v)
      | (role, _) \<Rightarrow>
          if role \<in> set seen then Err (DuplicateChannelRole role)
          else role_scan layout (seen @ [role]) rest)"

fun missing_scan :: "channel_role list \<Rightarrow> channel_role list \<Rightarrow> (unit, scene_error) outcome" where
  "missing_scan seen [] = Ok ()"
| "missing_scan seen (role # roles) =
     (if role \<notin> set seen then Err (MissingChannelRole role) else missing_scan seen roles)"

definition validate_roles :: "render_scene \<Rightarrow> (unit, scene_error) outcome" where
  "validate_roles s =
     (case role_scan (rs_layout s) [] (rs_speakers s) of
        Err e \<Rightarrow> Err e | Panic \<Rightarrow> Panic
      | Ok seen \<Rightarrow>
          if is_standard (rs_layout s) then missing_scan seen (canonical_roles (rs_layout s)) else Ok ())"

definition validate_scene :: "render_scene \<Rightarrow> (unit, scene_error) outcome" where
  "validate_scene s =
     (if rs_block_size s = 0 then Err (SceneInvalid ''block_size must be greater than zero'')
      else if \<not> list_ex sp_enabled (rs_speakers s)
      then Err (SceneInvalid ''at least one speaker must be enabled'')
      else validate_roles s)"

definition default_block_size :: usize where "default_block_size = 256"

section \<open>Canonical order\<close>

lemma find_mem: "find P xs = Some x \<Longrightarrow> x \<in> set xs \<and> P x"
  by (induction xs) (auto split: if_splits)

lemma collect_roles_Ok:
  "set roles \<subseteq> sp_channel_role ` set speakers \<Longrightarrow>
     \<exists>out. collect_roles roles speakers = Ok out \<and> map sp_channel_role out = roles \<and> set out \<subseteq> set speakers"
proof (induction roles)
  case (Cons role roles)
  then obtain s where s: "find (\<lambda>s. sp_channel_role s = role) speakers = Some s"
    by (cases "find (\<lambda>s. sp_channel_role s = role) speakers") (auto simp: find_None_iff)
  from Cons obtain out where "collect_roles roles speakers = Ok out" "map sp_channel_role out = roles"
    "set out \<subseteq> set speakers" by auto
  then show ?case using find_mem [OF s] s by simp
qed simp

lemma collect_roles_missing:
  "role \<in> set roles \<Longrightarrow> role \<notin> sp_channel_role ` set speakers \<Longrightarrow> \<not> is_ok (collect_roles roles speakers)"
  by (induction roles) (auto simp: find_None_iff dest: find_mem split: option.split outcome.split)

lemma role_scan_Ok:
  "role_scan layout seen ss = Ok roles \<longleftrightarrow> roles = seen @ map sp_channel_role ss
     \<and> distinct (map sp_channel_role ss) \<and> set seen \<inter> sp_channel_role ` set ss = {}
     \<and> (is_standard layout \<longrightarrow> (\<forall>s\<in>set ss. \<forall>v. sp_channel_role s \<noteq> Custom v))"
proof (induction ss arbitrary: seen)
  case (Cons s ss)
  show ?case
  proof (cases "is_standard layout \<and> (\<exists>v. sp_channel_role s = Custom v)")
    case False
    then have step: "role_scan layout seen (s # ss) = (if sp_channel_role s \<in> set seen
        then Err (DuplicateChannelRole (sp_channel_role s)) else role_scan layout (seen @ [sp_channel_role s]) ss)"
      by (cases "sp_channel_role s") auto
    have "is_standard layout \<longrightarrow> (\<forall>v. sp_channel_role s \<noteq> Custom v)" using False by blast
    then show ?thesis unfolding step by (simp add: Cons.IH) blast
  next
    case True
    then obtain v where "is_standard layout" "sp_channel_role s = Custom v" by blast
    then show ?thesis by simp
  qed
qed auto

lemma missing_scan_Ok: "missing_scan seen roles = Ok () \<longleftrightarrow> set roles \<subseteq> set seen"
  by (induction seen roles rule: missing_scan.induct) auto

lemma standard_not_custom: "is_standard layout \<longleftrightarrow> layout \<noteq> CustomLayout"
  by (cases layout) simp_all

text \<open>What a validated scene is, and that its speakers can then be put in order.\<close>

lemma validate_roles_iff:
  "validate_roles s = Ok () \<longleftrightarrow> distinct (map sp_channel_role (rs_speakers s))
     \<and> (is_standard (rs_layout s) \<longrightarrow> (\<forall>sp\<in>set (rs_speakers s). \<forall>v. sp_channel_role sp \<noteq> Custom v)
        \<and> set (canonical_roles (rs_layout s)) \<subseteq> sp_channel_role ` set (rs_speakers s))"
proof -
  have "validate_roles s = Ok () \<longleftrightarrow> (\<exists>seen. role_scan (rs_layout s) [] (rs_speakers s) = Ok seen
      \<and> (is_standard (rs_layout s) \<longrightarrow> missing_scan seen (canonical_roles (rs_layout s)) = Ok ()))"
    by (auto simp: validate_roles_def split: outcome.splits)
  then show ?thesis by (auto simp: role_scan_Ok missing_scan_Ok)
qed

lemma validated_scene_orders:
  assumes "validate_scene s = Ok ()"
  shows "\<exists>out. ordered_speakers s = Ok out \<and> set out \<subseteq> set (rs_speakers s)
    \<and> distinct (map sp_channel_role out)
    \<and> (is_standard (rs_layout s) \<longrightarrow> map sp_channel_role out = canonical_roles (rs_layout s))"
proof -
  have roles: "validate_roles s = Ok ()" using assms by (simp add: validate_scene_def split: if_splits)
  show ?thesis
  proof (cases "rs_layout s = CustomLayout")
    case True
    then show ?thesis using roles by (auto simp: ordered_speakers_def validate_roles_iff)
  next
    case False
    then have "set (canonical_roles (rs_layout s)) \<subseteq> sp_channel_role ` set (rs_speakers s)"
      using roles by (simp add: validate_roles_iff standard_not_custom)
    from collect_roles_Ok [OF this] show ?thesis
      using False canonical_distinct by (auto simp: ordered_speakers_def)
  qed
qed

end
