(* ===== verification/Bounded_Fifo.thy ===== *)
theory Bounded_Fifo
  imports Prelude
begin

text \<open>
  The contract of the bounded single-producer, single-consumer queues: what the real-time engine
  promises of its block pool and sample ring (\<open>transport.rs\<close>) and relies on from the
  third-party \<open>crossbeam_queue::ArrayQueue\<close>.
\<close>

text \<open>
  \<open>rel s n q\<close> says that \<open>s\<close> holds the elements \<open>q\<close>, oldest first, after \<open>n\<close>
  pushes.  A push of a \<open>valid\<close> element succeeds below the capacity \<open>cap\<close>, as long as the
  push counter is \<open>ok\<close>, and changes nothing at the capacity.
\<close>

locale bounded_fifo =
  fixes rel :: "'s \<Rightarrow> nat \<Rightarrow> 'a list \<Rightarrow> bool"
    and push :: "'a \<Rightarrow> 's \<Rightarrow> bool \<times> 's"
    and pop :: "'s \<Rightarrow> 'a option \<times> 's"
    and count :: "'s \<Rightarrow> usize"
    and valid :: "'a \<Rightarrow> bool"
    and ok :: "nat \<Rightarrow> bool"
    and cap :: nat
  assumes rel_bound: "rel s n q \<Longrightarrow> length q \<le> cap"
    and push_ok: "rel s n q \<Longrightarrow> valid x \<Longrightarrow> length q < cap \<Longrightarrow> ok (Suc n) \<Longrightarrow>
      \<exists>s'. push x s = (True, s') \<and> rel s' (Suc n) (q @ [x])"
    and push_full: "rel s n q \<Longrightarrow> valid x \<Longrightarrow> length q = cap \<Longrightarrow> push x s = (False, s)"
    and pop_empty: "rel s n [] \<Longrightarrow> pop s = (None, s)"
    and pop_ok: "rel s n (x # q) \<Longrightarrow> \<exists>s'. pop s = (Some x, s') \<and> rel s' n q"
    and count_eq: "rel s n q \<Longrightarrow> unat (count s) = length q"
    and ok_mono: "ok n \<Longrightarrow> m \<le> n \<Longrightarrow> ok m"
begin

lemma push_cases:
  assumes "rel s n q" "valid x" "ok (Suc n)"
  obtains (pushed) s' where "length q < cap" "push x s = (True, s')" "rel s' (Suc n) (q @ [x])"
  | (full) "length q = cap" "push x s = (False, s)"
proof (cases "length q = cap")
  case True
  then show ?thesis using full push_full assms by blast
next
  case False
  then have "length q < cap" using rel_bound [OF assms(1)] by simp
  then show ?thesis using pushed push_ok assms by blast
qed

lemma pop_cases:
  assumes "rel s n q"
  obtains (empty) "q = []" "pop s = (None, s)"
  | (popped) x q' s' where "q = x # q'" "pop s = (Some x, s')" "rel s' n q'"
proof (cases q)
  case Nil
  then show ?thesis using empty pop_empty assms by simp
next
  case (Cons x q')
  then show ?thesis using popped pop_ok assms by blast
qed

end

section \<open>Runs of pushes and pops\<close>

text \<open>
  A run of queue operations, with what each of them returned, and the reference run on a list
  bounded by \<open>cap\<close>.
\<close>

datatype 'a queue_op = Push 'a | Pop
datatype 'a queue_reply = Pushed bool | Popped "'a option"

fun queue_run :: "('a \<Rightarrow> 's \<Rightarrow> bool \<times> 's) \<Rightarrow> ('s \<Rightarrow> 'a option \<times> 's)
    \<Rightarrow> 'a queue_op list \<Rightarrow> 's \<Rightarrow> 'a queue_reply list" where
  "queue_run push pop [] s = []"
| "queue_run push pop (Push x # os) s = (let (b, s') = push x s in Pushed b # queue_run push pop os s')"
| "queue_run push pop (Pop # os) s = (let (r, s') = pop s in Popped r # queue_run push pop os s')"

fun list_push :: "nat \<Rightarrow> 'a \<Rightarrow> 'a list \<Rightarrow> bool \<times> 'a list" where
  "list_push cap x q = (if length q < cap then (True, q @ [x]) else (False, q))"

fun list_pop :: "'a list \<Rightarrow> 'a option \<times> 'a list" where
  "list_pop [] = (None, [])"
| "list_pop (x # q) = (Some x, q)"

primrec op_valid :: "('a \<Rightarrow> bool) \<Rightarrow> 'a queue_op \<Rightarrow> bool" where
  "op_valid p (Push x) = p x"
| "op_valid p Pop = True"

context bounded_fifo
begin

lemma run_refines_list:
  "rel s n q \<Longrightarrow> list_all (op_valid valid) os \<Longrightarrow> ok (n + length os) \<Longrightarrow>
     queue_run push pop os s = queue_run (list_push cap) list_pop os q"
proof (induction os arbitrary: s n q)
  case Nil
  then show ?case by simp
next
  case (Cons a os)
  have ok: "ok (Suc n)" "ok (Suc n + length os)" "ok (n + length os)"
    using ok_mono [OF Cons.prems(3)] by simp_all
  show ?case
  proof (cases a)
    case (Push x)
    from Cons.prems Push have v: "valid x" "list_all (op_valid valid) os" by simp_all
    from Cons.prems(1) v(1) ok(1) show ?thesis
    proof (cases rule: push_cases)
      case (pushed s')
      then show ?thesis using Push Cons.IH [OF pushed(3) v(2) ok(2)] by simp
    next
      case full
      then show ?thesis using Push Cons.IH [OF Cons.prems(1) v(2) ok(3)] by simp
    qed
  next
    case Pop
    from Cons.prems Pop have v: "list_all (op_valid valid) os" by simp
    from Cons.prems(1) show ?thesis
    proof (cases rule: pop_cases)
      case empty
      then show ?thesis using Pop Cons.IH [OF Cons.prems(1) v ok(3)] by simp
    next
      case (popped x q' s')
      then show ?thesis using Pop Cons.IH [OF popped(3) v ok(3)] by simp
    qed
  qed
qed

end

text \<open>The bounded list is itself a bounded queue: the reference the others are compared with.\<close>

interpretation list_fifo: bounded_fifo
    "\<lambda>q n q'. q' = q \<and> length q \<le> cap \<and> cap < 2 ^ 64" "list_push cap" list_pop
    "\<lambda>q. of_nat (length q)" "\<lambda>_. True" "\<lambda>_. True" cap for cap
  by unfold_locales (auto simp: unat_of_nat)

end
