(* ===== verification/Engine_Metrics.thy ===== *)
theory Engine_Metrics
  imports Render_Scene Bounded_Fifo
begin

text \<open>
  What the real-time engine of \<open>src/crates/aurora-realtime-engine/src/lib.rs\<close> counts and stages: its
  faults, its metrics with the timing histogram, and the single-threaded ring of its control side.
  A \<open>Duration\<close> is its number of nanoseconds; the time a callback took comes from the clock and is
  an argument.
\<close>

section \<open>Durations\<close>

definition duration_max :: nat where "duration_max = 2 ^ 64 * 10 ^ 9 - 1"

definition as_secs_f64 :: "nat \<Rightarrow> f64" where
  "as_secs_f64 n = f64_add (f64_of_nat (n div 10 ^ 9)) (f64_div (f64_of_nat (n mod 10 ^ 9)) 0x41CDCD6500000000)"

text \<open>The nearest nanosecond, ties to even; \<open>None\<close> where the library panics.\<close>

definition from_secs_f64 :: "f64 \<Rightarrow> nat option" where
  "from_secs_f64 x = (case f64_exact x of
       ExRat s a b \<Rightarrow>
         (let n = round_half_even (a * 10 ^ 9) b in
          if (s \<and> a \<noteq> 0) \<or> duration_max < n then None else Some n)
     | _ \<Rightarrow> None)"

definition mul_f64 :: "nat \<Rightarrow> f64 \<Rightarrow> nat option" where
  "mul_f64 n x = from_secs_f64 (f64_mul x (as_secs_f64 n))"

section \<open>Faults and metrics\<close>

datatype real_time_fault = RtNone | RtOutputBuffer | RtInputBuffer | RtRenderer | RtDsp

datatype process_status = ProcessOk | ProcessFault real_time_fault

definition TIMING_HISTOGRAM_BUCKETS :: nat where "TIMING_HISTOGRAM_BUCKETS = 16"

record real_time_metrics =
  mt_processed_blocks :: u64
  mt_callback_count :: u64
  mt_input_underruns :: u64
  mt_output_underruns :: u64
  mt_dropped_blocks :: u64
  mt_last_callback_duration :: nat
  mt_max_callback_duration :: nat
  mt_average_callback_duration :: nat
  mt_p95_callback_duration :: nat
  mt_block_duration_budget :: nat
  mt_average_budget_usage_percent :: f64
  mt_maximum_budget_usage_percent :: f64
  mt_estimated_end_to_end_latency_frames :: usize
  mt_renderer_latency_frames :: usize
  mt_dsp_latency_frames :: usize
  mt_estimated_device_latency_frames :: usize
  mt_fault :: real_time_fault
  mt_timing_histogram :: "u64 list"

definition metrics_default :: real_time_metrics where
  "metrics_default = \<lparr>mt_processed_blocks = 0, mt_callback_count = 0, mt_input_underruns = 0,
     mt_output_underruns = 0, mt_dropped_blocks = 0, mt_last_callback_duration = 0,
     mt_max_callback_duration = 0, mt_average_callback_duration = 0, mt_p95_callback_duration = 0,
     mt_block_duration_budget = 0, mt_average_budget_usage_percent = 0,
     mt_maximum_budget_usage_percent = 0, mt_estimated_end_to_end_latency_frames = 0,
     mt_renderer_latency_frames = 0, mt_dsp_latency_frames = 0, mt_estimated_device_latency_frames = 0,
     mt_fault = RtNone, mt_timing_histogram = replicate 16 0\<rparr>"

definition duration_percent :: "nat \<Rightarrow> nat \<Rightarrow> f64" where
  "duration_percent spent budget =
     (if budget = 0 then 0
      else f64_mul (f64_div (as_secs_f64 spent) (as_secs_f64 budget)) 0x4059000000000000)"

definition sat_u128 :: "nat \<Rightarrow> nat" where "sat_u128 n = min n (2 ^ 128 - 1)"

fun percentile_scan :: "nat \<Rightarrow> u64 \<Rightarrow> u64 \<Rightarrow> nat \<Rightarrow> u64 list \<Rightarrow> nat option" where
  "percentile_scan budget threshold cumulative i [] = Some budget"
| "percentile_scan budget threshold cumulative i (c # cs) =
     (let cumulative' = saturating_add cumulative c in
      if threshold \<le> cumulative' then mul_f64 budget (f64_div (f64_of_nat (i + 1)) (f64_of_nat 16))
      else percentile_scan budget threshold cumulative' (Suc i) cs)"

text \<open>The checked sum of a \<open>u64\<close> iterator.\<close>

fun sum_u64 :: "u64 \<Rightarrow> u64 list \<Rightarrow> u64 option" where
  "sum_u64 acc [] = Some acc"
| "sum_u64 acc (c # cs) = (case checked_add acc c of None \<Rightarrow> None | Some s \<Rightarrow> sum_u64 s cs)"

definition histogram_percentile :: "u64 list \<Rightarrow> nat \<Rightarrow> u64 \<Rightarrow> nat option" where
  "histogram_percentile histogram budget percentile =
     (case sum_u64 0 histogram of
        None \<Rightarrow> None
      | Some summed \<Rightarrow>
          if summed = 0 then Some 0
          else percentile_scan budget
            (of_nat ((unat (saturating_mul summed percentile) + 99) div 100)) 0 0 histogram)"

text \<open>\<open>None\<close> is a panic of the histogram's sum.\<close>

definition record_timing :: "nat \<Rightarrow> real_time_metrics \<Rightarrow> real_time_metrics option" where
  "record_timing elapsed m =
     (let longest = max (mt_max_callback_duration m) elapsed;
          count = unat (mt_callback_count m);
          spent = sat_u128 (sat_u128 (mt_average_callback_duration m * (count - 1)) + elapsed);
          average = min (if count = 0 then 0 else spent div count) (2 ^ 64 - 1);
          budget = mt_block_duration_budget m;
          scaled = sat_u128 (elapsed * 16) div max budget 1;
          bucket = min (if 2 ^ 64 \<le> scaled then 2 ^ 64 - 1 else scaled) 15;
          histogram = (mt_timing_histogram m)
            [bucket := saturating_add (mt_timing_histogram m ! bucket) 1] in
      case histogram_percentile histogram budget 95 of
        None \<Rightarrow> None
      | Some p95 \<Rightarrow> Some (m
          \<lparr>mt_last_callback_duration := elapsed, mt_max_callback_duration := longest,
           mt_average_callback_duration := average, mt_timing_histogram := histogram,
           mt_p95_callback_duration := p95,
           mt_average_budget_usage_percent := duration_percent average budget,
           mt_maximum_budget_usage_percent := duration_percent longest budget\<rparr>))"

section \<open>The staging ring\<close>

record 'a staging_ring =
  rb_buffer :: "'a list"
  rb_read :: nat
  rb_write :: nat
  rb_len :: nat

definition staging_new :: "'a \<Rightarrow> nat \<Rightarrow> 'a staging_ring" where
  "staging_new dflt n = \<lparr>rb_buffer = replicate n dflt, rb_read = 0, rb_write = 0, rb_len = 0\<rparr>"

definition staging_push :: "'a \<Rightarrow> 'a staging_ring \<Rightarrow> (unit, 'a) outcome \<times> 'a staging_ring" where
  "staging_push x r =
     (if rb_len r = length (rb_buffer r) \<or> rb_buffer r = [] then (Err x, r)
      else if length (rb_buffer r) \<le> rb_write r then (Err x, r)
      else (Ok (), r\<lparr>rb_buffer := (rb_buffer r)[rb_write r := x],
              rb_write := (rb_write r + 1) mod length (rb_buffer r), rb_len := rb_len r + 1\<rparr>))"

definition staging_pop :: "'a staging_ring \<Rightarrow> 'a option \<times> 'a staging_ring" where
  "staging_pop r =
     (if rb_len r = 0 \<or> rb_buffer r = [] then (None, r)
      else case get_at (rb_buffer r) (rb_read r) of
        None \<Rightarrow> (None, r)
      | Some x \<Rightarrow> (Some x, r\<lparr>rb_read := (rb_read r + 1) mod length (rb_buffer r), rb_len := rb_len r - 1\<rparr>))"

section \<open>The staging ring is a bounded queue\<close>

definition staging_holds :: "nat \<Rightarrow> 'a staging_ring \<Rightarrow> nat \<Rightarrow> 'a list \<Rightarrow> bool" where
  "staging_holds c r n q \<longleftrightarrow> length (rb_buffer r) = c \<and> c < 2 ^ 64 \<and> rb_len r = length q \<and> length q \<le> c
     \<and> (0 < c \<longrightarrow> rb_read r < c \<and> rb_write r = (rb_read r + length q) mod c)
     \<and> (\<forall>i<length q. rb_buffer r ! ((rb_read r + i) mod c) = q ! i)"

definition staging_try_push :: "'a \<Rightarrow> 'a staging_ring \<Rightarrow> bool \<times> 'a staging_ring" where
  "staging_try_push x r = (let (res, r') = staging_push x r in (res = Ok (), r'))"

lemma staging_new_holds: "n < 2 ^ 64 \<Longrightarrow> staging_holds n (staging_new dflt n) 0 []"
  by (simp add: staging_holds_def staging_new_def)

lemma mod_add_distinct:
  assumes "i < k" "k < (c::nat)"
  shows "(a + i) mod c \<noteq> (a + k) mod c"
proof
  assume "(a + i) mod c = (a + k) mod c"
  then have "c dvd (a + k) - (a + i)"
    using mod_eq_dvd_iff_nat [of "a + i" "a + k" c] assms(1) by (simp add: eq_commute)
  then have "c dvd k - i" by simp
  then show False using assms by (auto dest: dvd_imp_le)
qed

lemma staging_holdsD:
  assumes "staging_holds c r n q"
  shows "length (rb_buffer r) = c" "c < 2 ^ 64" "rb_len r = length q" "length q \<le> c"
    and "0 < c \<Longrightarrow> rb_read r < c" "0 < c \<Longrightarrow> rb_write r = (rb_read r + length q) mod c"
    and "i < length q \<Longrightarrow> rb_buffer r ! ((rb_read r + i) mod c) = q ! i"
  using assms by (simp_all add: staging_holds_def)

lemma staging_push_holds:
  assumes h: "staging_holds c r n q" and room: "length q < c"
  shows "\<exists>r'. staging_try_push x r = (True, r') \<and> staging_holds c r' (Suc n) (q @ [x])"
proof -
  note d = staging_holdsD [OF h]
  have c: "0 < c" using room by simp
  have w: "rb_write r = (rb_read r + length q) mod c" and rc: "rb_read r < c" using d c by simp_all
  let ?r = "r\<lparr>rb_buffer := (rb_buffer r)[rb_write r := x],
              rb_write := (rb_write r + 1) mod length (rb_buffer r), rb_len := rb_len r + 1\<rparr>"
  have wc: "rb_write r < c" using w c by simp
  have "rb_buffer r \<noteq> []" using d(1) c by auto
  then have "staging_push x r = (Ok (), ?r)"
    using d(1,3) room wc by (simp add: staging_push_def)
  moreover have "staging_holds c ?r (Suc n) (q @ [x])"
  proof -
    have items: "((rb_buffer r)[rb_write r := x]) ! ((rb_read r + i) mod c) = (q @ [x]) ! i" if "i \<le> length q" for i
    proof (cases "i = length q")
      case True
      then show ?thesis using d(1) wc w by simp
    next
      case False
      then have "(rb_read r + i) mod c \<noteq> rb_write r" using that room w mod_add_distinct [of i "length q" c] by simp
      then show ?thesis using d(7) False that by (simp add: nth_append)
    qed
    have "(rb_write r + 1) mod c = (rb_read r + Suc (length q)) mod c"
      using w by (simp add: mod_Suc_eq)
    then show ?thesis using d(1-4) rc room items
      unfolding staging_holds_def by (simp add: less_Suc_eq_le)
  qed
  ultimately show ?thesis by (simp add: staging_try_push_def)
qed

lemma staging_push_full: "staging_holds c r n q \<Longrightarrow> length q = c \<Longrightarrow> staging_try_push x r = (False, r)"
  using staging_holdsD(1,3) [of c r n q] by (simp add: staging_try_push_def staging_push_def)

lemma staging_pop_holds:
  assumes h: "staging_holds c r n (x # q)"
  shows "\<exists>r'. staging_pop r = (Some x, r') \<and> staging_holds c r' n q"
proof -
  note d = staging_holdsD [OF h]
  have c: "0 < c" using d(4) by simp
  have rc: "rb_read r < c" and w: "rb_write r = (rb_read r + length (x # q)) mod c" using d c by simp_all
  have x: "rb_buffer r ! rb_read r = x" using d(7) [of 0] rc by simp
  have rest: "rb_buffer r ! ((Suc (rb_read r) mod c + i) mod c) = q ! i" if "i < length q" for i
    using d(7) [of "Suc i"] that by (simp add: mod_add_left_eq)
  let ?r = "r\<lparr>rb_read := (rb_read r + 1) mod length (rb_buffer r), rb_len := rb_len r - 1\<rparr>"
  have "rb_buffer r \<noteq> []" using d(1) c by auto
  then have "staging_pop r = (Some x, ?r)"
    using d(1,3) rc x by (simp add: staging_pop_def get_at_def)
  moreover have "staging_holds c ?r n q"
  proof -
    have "(rb_read r + length (x # q)) mod c = (Suc (rb_read r) mod c + length q) mod c"
      by (simp add: mod_add_left_eq)
    then show ?thesis using d(1-4) c w rest unfolding staging_holds_def by simp
  qed
  ultimately show ?thesis by blast
qed

lemma staging_pop_empty: "staging_holds c r n [] \<Longrightarrow> staging_pop r = (None, r)"
  using staging_holdsD(3) [of c r n "[]"] by (simp add: staging_pop_def)

interpretation staging_fifo: bounded_fifo "staging_holds c" staging_try_push staging_pop
    "\<lambda>r. of_nat (rb_len r)" "\<lambda>_. True" "\<lambda>_. True" c for c
proof
  show "unat (of_nat (rb_len s) :: usize) = length q" if "staging_holds c s n q" for s n and q :: "'a list"
    using staging_holdsD(2-4) [OF that] by (simp add: unat_of_nat)
qed (auto intro: staging_push_holds staging_pop_holds staging_push_full staging_pop_empty dest: staging_holdsD(4))

end
