(* ===== verification/Dsp_Delay.thy ===== *)
theory Dsp_Delay
  imports Core_Scene
begin

text \<open>
  The contract of callback-safe delays, \<open>src/crates/aurora-dsp-api/src/lib.rs\<close>, and the fractional
  delay line that implements it, \<open>src/crates/aurora-dsp-basic/src/lib.rs\<close> and \<open>realtime.rs\<close>.  The
  ring buffer of a channel is proved to be a window on the whole input the channel has had.
\<close>

section \<open>The contract\<close>

datatype dsp_error = DspNotConfigured

datatype realtime_dsp_fault = DelayShape | DelayValue | PlanarShape

record 'p delay_trait =
  dt_channel_count :: "'p \<Rightarrow> nat"
  dt_max_delay_samples :: "'p \<Rightarrow> f32"
  dt_set_delays :: "f32 list \<Rightarrow> 'p \<Rightarrow> (unit, realtime_dsp_fault) outcome \<times> 'p"
  dt_process_planar :: "f32 list list \<Rightarrow> f32 list list \<Rightarrow> nat \<Rightarrow> 'p
    \<Rightarrow> (unit, realtime_dsp_fault) outcome \<times> f32 list list \<times> 'p"
  dt_reset :: "'p \<Rightarrow> 'p"
  dt_latency_frames :: "'p \<Rightarrow> nat"

text \<open>
  What a client may rely on: the number of channels is fixed, caller-owned buffers keep their
  shapes, and a prepared component does not panic and stays prepared.
\<close>

locale callback_delay =
  fixes P :: "'p delay_trait" and ready :: "'p \<Rightarrow> bool"
  assumes set_count: "dt_channel_count P (snd (dt_set_delays P ds p)) = dt_channel_count P p"
    and process_count: "dt_channel_count P (snd (snd (dt_process_planar P input outs n p))) = dt_channel_count P p"
    and shapes: "map length (fst (snd (dt_process_planar P input outs n p))) = map length outs"
    and set_ready: "ready p \<Longrightarrow> ready (snd (dt_set_delays P ds p)) \<and> fst (dt_set_delays P ds p) \<noteq> Panic"
    and process_ready: "ready p \<Longrightarrow> ready (snd (snd (dt_process_planar P input outs n p)))
      \<and> fst (dt_process_planar P input outs n p) \<noteq> Panic"
    and reset_ready: "ready p \<Longrightarrow> ready (dt_reset P p)"

section \<open>The delay line\<close>

datatype basic_dsp_error =
    DelayChannelCount nat nat
  | DelayExceedsMaximum f32 f32
  | DelayNotFinite nat f32
  | DelayNegative nat f32
  | DspChannelCount nat nat
  | BufferFrames nat nat nat

record delay_processor =
  dl_channel_count :: nat
  dl_max_delay_samples :: f32
  dl_delays :: "f32 list"
  dl_history :: "f32 list list"
  dl_history_len :: nat
  dl_write_positions :: "nat list"

definition delay_new :: "nat \<Rightarrow> f32 \<Rightarrow> (delay_processor, basic_dsp_error) outcome" where
  "delay_new channels most =
     (let n = f32_ceil_usize most + 2 in
      if 2 ^ 64 \<le> n then Panic
      else Ok \<lparr>dl_channel_count = channels, dl_max_delay_samples = most,
        dl_delays = replicate channels 0, dl_history = replicate channels (replicate n 0),
        dl_history_len = n, dl_write_positions = replicate channels 0\<rparr>)"

fun validate_delays :: "f32 \<Rightarrow> nat \<Rightarrow> f32 list \<Rightarrow> (unit, basic_dsp_error) outcome" where
  "validate_delays most channel [] = Ok ()"
| "validate_delays most channel (d # ds) =
     (if \<not> f32_is_finite d then Err (DelayNotFinite channel d)
      else if f32_less d 0 then Err (DelayNegative channel d)
      else if f32_less most d then Err (DelayExceedsMaximum d most)
      else validate_delays most (Suc channel) ds)"

definition set_delays_slice :: "f32 list \<Rightarrow> delay_processor
    \<Rightarrow> (unit, basic_dsp_error) outcome \<times> delay_processor" where
  "set_delays_slice ds p =
     (if length ds \<noteq> dl_channel_count p
      then (Err (DelayChannelCount (dl_channel_count p) (length ds)), p)
      else case validate_delays (dl_max_delay_samples p) 0 ds of
        Err e \<Rightarrow> (Err e, p) | Panic \<Rightarrow> (Panic, p)
      | Ok _ \<Rightarrow> (Ok (), p\<lparr>dl_delays := ds\<rparr>))"

text \<open>\<open>set_delays\<close> takes the vector itself instead of copying it; the values are the same.\<close>

definition set_delays :: "f32 list \<Rightarrow> delay_processor
    \<Rightarrow> (unit, basic_dsp_error) outcome \<times> delay_processor" where
  "set_delays ds p =
     (if length ds \<noteq> dl_channel_count p
      then (Err (DelayChannelCount (dl_channel_count p) (length ds)), p)
      else case validate_delays (dl_max_delay_samples p) 0 ds of
        Err e \<Rightarrow> (Err e, p) | Panic \<Rightarrow> (Panic, p)
      | Ok _ \<Rightarrow> (Ok (), p\<lparr>dl_delays := ds\<rparr>))"

definition lerp :: "f32 \<Rightarrow> f32 \<Rightarrow> f32 \<Rightarrow> f32" where
  "lerp fraction lower upper =
     f32_add (f32_mul lower (f32_sub 0x3F800000 fraction)) (f32_mul upper fraction)"

text \<open>
  One sample; \<open>None\<close> is a panic (a remainder by zero, or an overflow of the offset).
\<close>

definition slot_or_zero :: "f32 list \<Rightarrow> nat \<Rightarrow> f32" where
  "slot_or_zero xs i = (case get_at xs i of Some x \<Rightarrow> x | None \<Rightarrow> 0)"

definition delayed_sample :: "f32 list \<Rightarrow> nat \<Rightarrow> f32 \<Rightarrow> f32 option" where
  "delayed_sample history wp d =
     (let n = length history; lo = f32_floor_usize d; hi = lo + 1 in
      if n = 0 \<or> 2 ^ 64 \<le> hi then None
      else
        let lower = slot_or_zero history ((wp + n - lo mod n) mod n);
            upper = slot_or_zero history ((wp + n - hi mod n) mod n) in
        Some (lerp (f32_sub d (f32_of_nat lo)) lower upper))"

text \<open>The loop over the frames of one channel: outcome, output, history, write position.\<close>

fun delay_channel :: "nat \<Rightarrow> f32 \<Rightarrow> nat \<Rightarrow> f32 list \<Rightarrow> f32 list \<Rightarrow> f32 list \<Rightarrow> nat
    \<Rightarrow> (unit, basic_dsp_error) outcome \<times> f32 list \<times> f32 list \<times> nat" where
  "delay_channel n d (Suc k) (x # xs) (y # ys) history wp =
     (if length history \<le> wp
      then (Err (BufferFrames 0 n (length history)), y # ys, history, wp)
      else
        let history' = history[wp := x] in
        case delayed_sample history' wp d of
          None \<Rightarrow> (Panic, y # ys, history', wp)
        | Some z \<Rightarrow>
            let p1 = wp + 1;
                (r, ys', h', p') = delay_channel n d k xs ys history' (if p1 = n then 0 else p1) in
            (r, z # ys', h', p'))"
| "delay_channel n d k xs ys history wp = (Ok (), ys, history, wp)"

fun delay_channels :: "nat \<Rightarrow> nat \<Rightarrow> f32 list list \<Rightarrow> f32 list list \<Rightarrow> f32 list \<Rightarrow> f32 list list \<Rightarrow> nat list
    \<Rightarrow> (unit, basic_dsp_error) outcome \<times> f32 list list \<times> f32 list list \<times> nat list" where
  "delay_channels n k (x # xs) (y # ys) (d # ds) (h # hs) (p # ps) =
     (case delay_channel n d k x y h p of
        (Ok _, y', h', p') \<Rightarrow>
          (case delay_channels n k xs ys ds hs ps of
             (r, ys', hs', ps') \<Rightarrow> (r, y' # ys', h' # hs', p' # ps'))
      | (r, y', h', p') \<Rightarrow> (r, y' # ys, h' # hs, p' # ps))"
| "delay_channels n k xs ys ds hs ps = (Ok (), ys, hs, ps)"

fun short_channel :: "nat \<Rightarrow> nat \<Rightarrow> f32 list list \<Rightarrow> (unit, basic_dsp_error) outcome" where
  "short_channel k channel [] = Ok ()"
| "short_channel k channel (xs # rest) =
     (if length xs < k then Err (BufferFrames channel k (length xs)) else short_channel k (Suc channel) rest)"

definition process_block_into :: "f32 list list \<Rightarrow> f32 list list \<Rightarrow> nat \<Rightarrow> delay_processor
    \<Rightarrow> (unit, basic_dsp_error) outcome \<times> f32 list list \<times> delay_processor" where
  "process_block_into input outs k p =
     (if length input \<noteq> dl_channel_count p
      then (Err (DspChannelCount (dl_channel_count p) (length input)), outs, p)
      else if length outs \<noteq> dl_channel_count p
      then (Err (DspChannelCount (dl_channel_count p) (length outs)), outs, p)
      else case short_channel k 0 input of
        Err e \<Rightarrow> (Err e, outs, p) | Panic \<Rightarrow> (Panic, outs, p)
      | Ok _ \<Rightarrow>
      (case short_channel k 0 outs of
        Err e \<Rightarrow> (Err e, outs, p) | Panic \<Rightarrow> (Panic, outs, p)
      | Ok _ \<Rightarrow>
          (case delay_channels (dl_history_len p) k input outs (dl_delays p) (dl_history p)
                  (dl_write_positions p) of
             (r, outs', hs, ps) \<Rightarrow> (r, outs', p\<lparr>dl_history := hs, dl_write_positions := ps\<rparr>))))"

definition process_block :: "f32 list list \<Rightarrow> delay_processor
    \<Rightarrow> (f32 list list, basic_dsp_error) outcome \<times> delay_processor" where
  "process_block input p =
     (let k = (case input of [] \<Rightarrow> 0 | xs # _ \<Rightarrow> length xs) in
      case process_block_into input (replicate (dl_channel_count p) (replicate k 0)) k p of
        (Ok _, outs, p') \<Rightarrow> (Ok outs, p') | (Err e, _, p') \<Rightarrow> (Err e, p') | (Panic, _, p') \<Rightarrow> (Panic, p'))"

definition process_audio_block :: "audio_block \<Rightarrow> delay_processor
    \<Rightarrow> (audio_block, basic_dsp_error) outcome \<times> delay_processor" where
  "process_audio_block input p =
     (case process_block (ab_channels input) p of
        (Ok channels, p') \<Rightarrow> (Ok (input\<lparr>ab_channels := channels\<rparr>), p')
      | (Err e, p') \<Rightarrow> (Err e, p') | (Panic, p') \<Rightarrow> (Panic, p'))"

definition delay_reset :: "delay_processor \<Rightarrow> delay_processor" where
  "delay_reset p = p\<lparr>dl_history := map (\<lambda>h. replicate (length h) 0) (dl_history p),
     dl_write_positions := map (\<lambda>_. 0) (dl_write_positions p)\<rparr>"

definition delay_latency_frames :: "delay_processor \<Rightarrow> nat" where
  "delay_latency_frames p = f32_ceil_usize (fold (\<lambda>d m. f32_max m d) (dl_delays p) 0)"

section \<open>The realtime trait\<close>

fun map_realtime_fault :: "basic_dsp_error \<Rightarrow> realtime_dsp_fault" where
  "map_realtime_fault (DelayChannelCount e a) = DelayShape"
| "map_realtime_fault (DelayExceedsMaximum d m) = DelayValue"
| "map_realtime_fault (DelayNotFinite c d) = DelayValue"
| "map_realtime_fault (DelayNegative c d) = DelayValue"
| "map_realtime_fault (DspChannelCount e a) = PlanarShape"
| "map_realtime_fault (BufferFrames c r a) = PlanarShape"

definition delay_vtable :: "delay_processor delay_trait" where
  "delay_vtable =
     \<lparr>dt_channel_count = dl_channel_count, dt_max_delay_samples = dl_max_delay_samples,
      dt_set_delays = (\<lambda>ds p. apfst (map_err map_realtime_fault) (set_delays_slice ds p)),
      dt_process_planar = (\<lambda>input outs k p. apfst (map_err map_realtime_fault) (process_block_into input outs k p)),
      dt_reset = delay_reset, dt_latency_frames = delay_latency_frames\<rparr>"

section \<open>The ring is a window on the past\<close>

text \<open>
  The input of a channel so far, the latest sample first; \<open>past h j\<close> is the sample \<open>j\<close> steps ago,
  silence before the start.
\<close>

definition past :: "f32 list \<Rightarrow> nat \<Rightarrow> f32" where
  "past h j = (if j < length h then h ! j else 0)"

definition holds_past :: "nat \<Rightarrow> f32 list \<Rightarrow> nat \<Rightarrow> f32 list \<Rightarrow> bool" where
  "holds_past n ring w h \<longleftrightarrow> length ring = n \<and> w < n \<and>
     (\<forall>j<n. ring ! ((w + n - 1 - j) mod n) = past h j)"

text \<open>The reference: interpolation between two samples of the whole past.\<close>

definition delayed :: "f32 \<Rightarrow> f32 list \<Rightarrow> f32" where
  "delayed d h = lerp (f32_sub d (f32_of_nat (f32_floor_usize d)))
     (past h (f32_floor_usize d)) (past h (f32_floor_usize d + 1))"

fun delay_line :: "f32 \<Rightarrow> f32 list \<Rightarrow> f32 list \<Rightarrow> f32 list" where
  "delay_line d h [] = []"
| "delay_line d h (x # xs) = delayed d (x # h) # delay_line d (x # h) xs"

lemma past_Cons [simp]: "past (x # h) 0 = x" "past (x # h) (Suc j) = past h j"
  by (simp_all add: past_def)

lemma length_delay_line [simp]: "length (delay_line d h xs) = length xs"
  by (induction xs arbitrary: h) simp_all

lemma holds_past_zero: "0 < n \<Longrightarrow> holds_past n (replicate n 0) 0 []"
  by (auto simp: holds_past_def past_def)

lemma holds_past_push:
  assumes h: "holds_past n ring w h"
  shows "holds_past n (ring[w := x]) (if w + 1 = n then 0 else w + 1) (x # h)"
proof -
  have n: "w < n" "length ring = n" and old: "\<And>j. j < n \<Longrightarrow> ring ! ((w + n - 1 - j) mod n) = past h j"
    using h by (auto simp: holds_past_def)
  let ?w = "if w + 1 = n then 0 else w + 1"
  have "(ring[w := x]) ! ((?w + n - 1 - j) mod n) = past (x # h) j" if j: "j < n" for j
  proof (cases j)
    case 0
    then have "(?w + n - 1 - j) mod n = w" using n by (auto simp: mod_if)
    then show ?thesis using 0 n by simp
  next
    case (Suc i)
    have "(?w + n - 1 - j) mod n = (w + n - 1 - i) mod n" "(w + n - 1 - i) mod n \<noteq> w"
      using Suc j n by (auto simp: mod_if)
    then show ?thesis using old [of i] Suc j n by simp
  qed
  then show ?thesis using n by (simp add: holds_past_def)
qed

lemma holds_past_read:
  assumes "holds_past n ring w h" "j < n"
  shows "slot_or_zero (ring[w := x]) ((w + n - j mod n) mod n) = past (x # h) j"
proof -
  note push = holds_past_push [OF assms(1), of x]
  have n: "w < n" "length ring = n" using assms(1) by (auto simp: holds_past_def)
  have "((if w + 1 = n then 0 else w + 1) + n - 1 - j) mod n = (w + n - j) mod n"
    using n assms(2) by (auto simp: mod_if)
  moreover have "ring[w := x] ! (((if w + 1 = n then 0 else w + 1) + n - 1 - j) mod n) = past (x # h) j"
    using push assms(2) unfolding holds_past_def by blast
  ultimately have "ring[w := x] ! ((w + n - j) mod n) = past (x # h) j" by (simp only: )
  then show ?thesis using n assms(2) by (simp add: slot_or_zero_def get_at_def)
qed

text \<open>A delay fits a ring when both samples it interpolates are in the window.\<close>

definition fits_ring :: "nat \<Rightarrow> f32 \<Rightarrow> bool" where
  "fits_ring n d \<longleftrightarrow> f32_floor_usize d + 1 < n \<and> n < 2 ^ 64"

lemma delayed_sample_value:
  assumes "holds_past n ring w h" "fits_ring n d"
  shows "delayed_sample (ring[w := x]) w d = Some (delayed d (x # h))"
proof -
  have n: "length ring = n" using assms(1) by (simp add: holds_past_def)
  have "f32_floor_usize d < n" "f32_floor_usize d + 1 < n" "n < 2 ^ 64" using assms(2) by (simp_all add: fits_ring_def)
  then show ?thesis
    using holds_past_read [OF assms(1), of "f32_floor_usize d" x]
      holds_past_read [OF assms(1), of "f32_floor_usize d + 1" x] n
    by (simp add: delayed_sample_def Let_def delayed_def)
qed

lemma delay_channel_value:
  assumes "holds_past n ring w h" "fits_ring n d" "k \<le> length xs" "k \<le> length ys"
  shows "\<exists>ring' w'. delay_channel n d k xs ys ring w
      = (Ok (), delay_line d h (take k xs) @ drop k ys, ring', w')
    \<and> holds_past n ring' w' (rev (take k xs) @ h)"
  using assms
proof (induction k arbitrary: xs ys ring w h)
  case (Suc k)
  obtain x xs1 y ys1 where lists: "xs = x # xs1" "ys = y # ys1"
    using Suc.prems(3,4) by (cases xs; cases ys) auto
  have room: "\<not> length ring \<le> w" using Suc.prems(1) by (simp add: holds_past_def)
  note push = holds_past_push [OF Suc.prems(1), of x]
  from Suc.IH [OF push Suc.prems(2), of xs1 ys1] Suc.prems(3,4) lists
  obtain ring' w' where "delay_channel n d k xs1 ys1 (ring[w := x]) (if w + 1 = n then 0 else w + 1)
      = (Ok (), delay_line d (x # h) (take k xs1) @ drop k ys1, ring', w')"
    "holds_past n ring' w' (rev (take k xs1) @ x # h)" by auto
  then show ?case
    using room delayed_sample_value [OF Suc.prems(1,2), of x]
    by (intro exI [of _ ring'] exI [of _ w'], cases "Suc w = n") (simp_all add: lists Let_def)
qed auto

section \<open>Whole processors\<close>

text \<open>\<open>delay_holds p hs\<close>: the rings of \<open>p\<close> are windows on the channel histories \<open>hs\<close>.\<close>

definition delay_holds :: "delay_processor \<Rightarrow> f32 list list \<Rightarrow> bool" where
  "delay_holds p hs \<longleftrightarrow>
     length hs = dl_channel_count p \<and> length (dl_history p) = dl_channel_count p
   \<and> length (dl_write_positions p) = dl_channel_count p \<and> length (dl_delays p) = dl_channel_count p
   \<and> (\<forall>c<dl_channel_count p. holds_past (dl_history_len p) (dl_history p ! c) (dl_write_positions p ! c) (hs ! c))
   \<and> (\<forall>d\<in>set (dl_delays p). fits_ring (dl_history_len p) d)
   \<and> f32_ceil_usize (dl_max_delay_samples p) + 2 = dl_history_len p \<and> dl_history_len p < 2 ^ 64
   \<and> f32_is_finite (dl_max_delay_samples p)"

lemma accepted_delay_fits:
  assumes "f32_is_finite most" "f32_is_finite d" "\<not> f32_less d 0" "\<not> f32_less most d"
    and "n = f32_ceil_usize most + 2" "n < 2 ^ 64"
  shows "fits_ring n d"
proof -
  obtain s a b where m: "f32_exact most = ExRat s a b" using f32_exact_finite assms(1) by blast
  obtain s' a' b' where d: "f32_exact d = ExRat s' a' b'" using f32_exact_finite assms(2) by blast
  have "f32_le d most" using assms(4) f32_not_less [of most d] by (simp add: f32_le_def m d)
  from floor_le_ceil [OF this assms(3) m] assms(5,6) show ?thesis by (simp add: fits_ring_def)
qed

lemma validate_delays_Ok:
  "validate_delays most i ds = Ok () \<longleftrightarrow>
     (\<forall>d\<in>set ds. f32_is_finite d \<and> \<not> f32_less d 0 \<and> \<not> f32_less most d)"
  by (induction most i ds rule: validate_delays.induct) auto

lemma validate_delays_no_panic: "validate_delays most i ds \<noteq> Panic"
  by (induction most i ds rule: validate_delays.induct) simp_all

lemma short_channel_Ok: "short_channel k i chs = Ok () \<longleftrightarrow> (\<forall>ch\<in>set chs. k \<le> length ch)"
  by (induction k i chs rule: short_channel.induct) auto

lemma short_channel_no_panic: "short_channel k i chs \<noteq> Panic"
  by (induction k i chs rule: short_channel.induct) simp_all

lemma delay_channels_value:
  assumes "length ys = length xs" "length ds = length xs" "length hs = length xs" "length ps = length xs"
    and "length gs = length xs" "\<forall>x\<in>set xs. k \<le> length x" "\<forall>y\<in>set ys. k \<le> length y"
    and "\<forall>d\<in>set ds. fits_ring n d" "\<forall>c<length xs. holds_past n (hs ! c) (ps ! c) (gs ! c)"
  shows "\<exists>hs' ps'. delay_channels n k xs ys ds hs ps
      = (Ok (), map (\<lambda>(x, y, d, g). delay_line d g (take k x) @ drop k y) (zip xs (zip ys (zip ds gs))), hs', ps')
    \<and> length hs' = length xs \<and> length ps' = length xs
    \<and> (\<forall>c<length xs. holds_past n (hs' ! c) (ps' ! c) (rev (take k (xs ! c)) @ gs ! c))"
  using assms
proof (induction xs arbitrary: ys ds hs ps gs)
  case (Cons x xs)
  obtain y ys1 d ds1 h hs1 p ps1 g gs1 where lists: "ys = y # ys1" "ds = d # ds1" "hs = h # hs1" "ps = p # ps1" "gs = g # gs1"
    using Cons.prems(1-5) by (cases ys; cases ds; cases hs; cases ps; cases gs) auto
  have "holds_past n h p g" "fits_ring n d" "k \<le> length x" "k \<le> length y"
    using Cons.prems(6-9) by (auto simp: lists)
  from delay_channel_value [OF this] obtain h' p' where
    one: "delay_channel n d k x y h p = (Ok (), delay_line d g (take k x) @ drop k y, h', p')"
      "holds_past n h' p' (rev (take k x) @ g)" by blast
  have "\<forall>c<length xs. holds_past n (hs1 ! c) (ps1 ! c) (gs1 ! c)"
    using Cons.prems(9) by (auto simp: lists)
  from Cons.IH [OF _ _ _ _ _ _ _ _ this, of ys1 ds1] Cons.prems(1-8) obtain hs' ps' where rest:
    "delay_channels n k xs ys1 ds1 hs1 ps1
      = (Ok (), map (\<lambda>(x, y, d, g). delay_line d g (take k x) @ drop k y) (zip xs (zip ys1 (zip ds1 gs1))), hs', ps')"
    "length hs' = length xs" "length ps' = length xs"
    "\<forall>c<length xs. holds_past n (hs' ! c) (ps' ! c) (rev (take k (xs ! c)) @ gs1 ! c)"
    by (auto simp: lists)
  then show ?case using one
    by (intro exI [of _ "h' # hs'"] exI [of _ "p' # ps'"]) (auto simp: lists nth_Cons split: nat.split)
qed simp

lemma process_block_into_value:
  assumes holds: "delay_holds p hs" and "length input = dl_channel_count p" "length outs = dl_channel_count p"
    and "\<forall>ch\<in>set input. k \<le> length ch" "\<forall>ch\<in>set outs. k \<le> length ch"
  shows "\<exists>p'. process_block_into input outs k p
      = (Ok (), map (\<lambda>(x, y, d, h). delay_line d h (take k x) @ drop k y) (zip input (zip outs (zip (dl_delays p) hs))), p')
    \<and> delay_holds p' (map (\<lambda>(x, h). rev (take k x) @ h) (zip input hs)) \<and> dl_delays p' = dl_delays p"
proof -
  obtain rings' ps' where channels: "delay_channels (dl_history_len p) k input outs (dl_delays p) (dl_history p) (dl_write_positions p)
      = (Ok (), map (\<lambda>(x, y, d, h). delay_line d h (take k x) @ drop k y) (zip input (zip outs (zip (dl_delays p) hs))), rings', ps')"
    "length rings' = length input" "length ps' = length input"
    "\<forall>c<length input. holds_past (dl_history_len p) (rings' ! c) (ps' ! c) (rev (take k (input ! c)) @ hs ! c)"
    using delay_channels_value [of outs input "dl_delays p" "dl_history p" "dl_write_positions p" hs k "dl_history_len p"] assms
    by (auto simp: delay_holds_def)
  have ok: "short_channel k 0 input = Ok ()" "short_channel k 0 outs = Ok ()"
    using assms(4,5) by (simp_all add: short_channel_Ok)
  let ?p = "p\<lparr>dl_history := rings', dl_write_positions := ps'\<rparr>"
  have "process_block_into input outs k p
      = (Ok (), map (\<lambda>(x, y, d, h). delay_line d h (take k x) @ drop k y) (zip input (zip outs (zip (dl_delays p) hs))), ?p)"
    using assms(2,3) ok channels(1) by (simp add: process_block_into_def)
  moreover have "delay_holds ?p (map (\<lambda>(x, h). rev (take k x) @ h) (zip input hs))"
    using holds assms(2) channels by (auto simp: delay_holds_def)
  ultimately show ?thesis by auto
qed

lemma zero_fits: "2 \<le> n \<Longrightarrow> n < 2 ^ 64 \<Longrightarrow> fits_ring n 0"
  by (simp add: fits_ring_def float_defs)

lemma delay_new_holds:
  assumes "delay_new c most = Ok p" "f32_is_finite most"
  shows "delay_holds p (replicate c [])"
  using assms zero_fits [of "f32_ceil_usize most + 2"] holds_past_zero [of "f32_ceil_usize most + 2"]
  by (auto simp: delay_new_def Let_def delay_holds_def holds_past_zero split: if_splits)

lemma set_delays_same: "set_delays = set_delays_slice"
  by (simp add: fun_eq_iff set_delays_def set_delays_slice_def)

lemma set_delays_holds:
  assumes "delay_holds p hs"
  shows "delay_holds (snd (set_delays_slice ds p)) hs"
proof (cases "fst (set_delays_slice ds p) = Ok ()")
  case True
  then have ds: "length ds = dl_channel_count p" "validate_delays (dl_max_delay_samples p) 0 ds = Ok ()"
    and p': "snd (set_delays_slice ds p) = p\<lparr>dl_delays := ds\<rparr>"
    by (auto simp: set_delays_slice_def split: if_splits outcome.splits)
  have "fits_ring (dl_history_len p) d" if "d \<in> set ds" for d
    by (rule accepted_delay_fits [of "dl_max_delay_samples p"])
      (use assms ds(2) that in \<open>auto simp: delay_holds_def validate_delays_Ok\<close>)
  then show ?thesis using assms ds(1) by (simp add: p' delay_holds_def)
next
  case False
  then have "snd (set_delays_slice ds p) = p"
    by (auto simp: set_delays_slice_def split: outcome.splits)
  then show ?thesis using assms by simp
qed

lemma holds_past_reset: "holds_past n ring w h \<Longrightarrow> holds_past n (replicate (length ring) 0) 0 []"
  using holds_past_zero by (auto simp: holds_past_def)

lemma delay_reset_holds: "delay_holds p hs \<Longrightarrow> delay_holds (delay_reset p) (map (\<lambda>_. []) hs)"
  by (auto simp: delay_holds_def delay_reset_def intro: holds_past_reset)

text \<open>Blocks of any other shape are refused without a change.\<close>

lemma process_block_into_refuses:
  assumes "\<not> (length input = dl_channel_count p \<and> length outs = dl_channel_count p
    \<and> (\<forall>ch\<in>set input. k \<le> length ch) \<and> (\<forall>ch\<in>set outs. k \<le> length ch))"
  shows "\<exists>e. process_block_into input outs k p = (Err e, outs, p)"
  using assms short_channel_Ok [of k 0 input] short_channel_Ok [of k 0 outs]
    short_channel_no_panic [of k 0 input] short_channel_no_panic [of k 0 outs]
  by (auto simp: process_block_into_def split: outcome.splits)

text \<open>
  The histories of a processor: everything each channel was fed since it was created or reset.
\<close>

inductive delay_history :: "delay_processor \<Rightarrow> f32 list list \<Rightarrow> bool" where
  dh_new: "f32_is_finite most \<Longrightarrow> delay_new c most = Ok p \<Longrightarrow> delay_history p (replicate c [])"
| dh_set: "delay_history p hs \<Longrightarrow> delay_history (snd (set_delays_slice ds p)) hs"
| dh_process: "delay_history p hs \<Longrightarrow> process_block_into input outs k p = (Ok (), outs', p')
    \<Longrightarrow> delay_history p' (map (\<lambda>(x, h). rev (take k x) @ h) (zip input hs))"
| dh_refused: "delay_history p hs \<Longrightarrow> process_block_into input outs k p = (Err e, outs', p')
    \<Longrightarrow> delay_history p' hs"
| dh_reset: "delay_history p hs \<Longrightarrow> delay_history (delay_reset p) (map (\<lambda>_. []) hs)"

lemma delay_history_holds: "delay_history p hs \<Longrightarrow> delay_holds p hs"
proof (induction rule: delay_history.induct)
  case (dh_process p hs input outs k outs' p')
  let ?shape = "length input = dl_channel_count p \<and> length outs = dl_channel_count p
    \<and> (\<forall>ch\<in>set input. k \<le> length ch) \<and> (\<forall>ch\<in>set outs. k \<le> length ch)"
  have ?shape using process_block_into_refuses [of input p outs k] dh_process(2) by auto
  then show ?case using process_block_into_value [OF dh_process(3), of input outs k] dh_process(2) by auto
next
  case (dh_refused p hs input outs k e outs' p')
  let ?shape = "length input = dl_channel_count p \<and> length outs = dl_channel_count p
    \<and> (\<forall>ch\<in>set input. k \<le> length ch) \<and> (\<forall>ch\<in>set outs. k \<le> length ch)"
  have "\<not> ?shape" using process_block_into_value [OF dh_refused(3), of input outs k] dh_refused(2) by auto
  from process_block_into_refuses [OF this] dh_refused(2,3) show ?case by auto
qed (simp_all add: delay_new_holds set_delays_holds delay_reset_holds)

text \<open>
  C20: Each channel of the delay processor plays its whole past through an interpolated delay: after
  any mix of delay changes, blocks of any size, refused calls and resets, a block with the right
  number of channels and enough frames succeeds, its sample \<open>i\<close> on channel \<open>c\<close> interpolates the
  samples that entered \<open>c\<close> the whole number of samples ago and one more, silence before the last
  reset, and samples beyond the block are left alone.  Any other block is refused unchanged.
\<close>

theorem delay_plays_past:
  assumes "delay_history p hs"
  shows "if length input = dl_channel_count p \<and> length outs = dl_channel_count p
      \<and> (\<forall>ch\<in>set input. k \<le> length ch) \<and> (\<forall>ch\<in>set outs. k \<le> length ch)
    then \<exists>p'. process_block_into input outs k p =
      (Ok (), map (\<lambda>(x, y, d, h). delay_line d h (take k x) @ drop k y)
        (zip input (zip outs (zip (dl_delays p) hs))), p')
    else \<exists>e. process_block_into input outs k p = (Err e, outs, p)"
  using process_block_into_value [OF delay_history_holds [OF assms], of input outs k]
    process_block_into_refuses [of input p outs k] by auto

lemma delay_process_ready:
  assumes "delay_holds p hs"
  shows "fst (process_block_into input outs k p) \<noteq> Panic
    \<and> (\<exists>hs'. delay_holds (snd (snd (process_block_into input outs k p))) hs')"
proof (cases "length input = dl_channel_count p \<and> length outs = dl_channel_count p
    \<and> (\<forall>ch\<in>set input. k \<le> length ch) \<and> (\<forall>ch\<in>set outs. k \<le> length ch)")
  case True
  then show ?thesis using process_block_into_value [OF assms, of input outs k] by auto
next
  case False
  from process_block_into_refuses [OF this] assms show ?thesis by auto
qed

lemma delay_channel_shape:
  "delay_channel n d k xs ys ring w = (r, ys', ring', w') \<Longrightarrow> length ys' = length ys"
proof (induction n d k xs ys ring w arbitrary: r ys' ring' w' rule: delay_channel.induct)
  case (1 n d k x xs y ys ring w)
  show ?case
  proof (cases "delayed_sample (ring[w := x]) w d")
    case None
    then show ?thesis using 1(2) by (auto simp: Let_def split: if_splits)
  next
    case (Some z)
    obtain r1 y1 h1 p1 where rest:
      "delay_channel n d k xs ys (ring[w := x]) (if w + 1 = n then 0 else w + 1) = (r1, y1, h1, p1)"
      by (rule prod_cases4)
    show ?thesis
    proof (cases "length ring \<le> w")
      case False
      then show ?thesis using 1(1) [OF False refl Some refl rest] 1(2) Some rest
        by (cases "Suc w = n") (auto simp: Let_def)
    qed (use 1(2) in auto)
  qed
qed auto

lemma delay_channels_shape:
  "delay_channels n k xs ys ds hs ps = (r, ys', hs', ps') \<Longrightarrow> map length ys' = map length ys"
proof (induction n k xs ys ds hs ps arbitrary: r ys' hs' ps' rule: delay_channels.induct)
  case (1 n k x xs y ys d ds h hs p ps)
  obtain r1 y1 h1 p1 where one: "delay_channel n d k x y h p = (r1, y1, h1, p1)" by (rule prod_cases4)
  obtain r2 y2 h2 p2 where rest: "delay_channels n k xs ys ds hs ps = (r2, y2, h2, p2)" by (rule prod_cases4)
  note len = delay_channel_shape [OF one]
  show ?case
  proof (cases r1)
    case (Ok u)
    then have "map length y2 = map length ys" using 1(1) one rest by auto
    then show ?thesis using 1(2) one rest Ok len by auto
  qed (use 1(2) one len in auto)
qed auto

lemma process_block_into_shape:
  "map length (fst (snd (process_block_into input outs k p))) = map length outs
    \<and> dl_channel_count (snd (snd (process_block_into input outs k p))) = dl_channel_count p"
proof -
  obtain r ys hs ps where ch: "delay_channels (dl_history_len p) k input outs (dl_delays p) (dl_history p)
      (dl_write_positions p) = (r, ys, hs, ps)"
    by (rule prod_cases4)
  note shape = delay_channels_shape [OF ch]
  show ?thesis by (auto simp: process_block_into_def ch shape split: outcome.split)
qed

interpretation basic_delay: callback_delay delay_vtable "\<lambda>p. \<exists>hs. delay_holds p hs"
proof unfold_locales
  fix ds p
  show "dt_channel_count delay_vtable (snd (dt_set_delays delay_vtable ds p)) = dt_channel_count delay_vtable p"
    by (auto simp: delay_vtable_def set_delays_slice_def split: outcome.split)
next
  fix input outs n p
  show "dt_channel_count delay_vtable (snd (snd (dt_process_planar delay_vtable input outs n p))) = dt_channel_count delay_vtable p"
    "map length (fst (snd (dt_process_planar delay_vtable input outs n p))) = map length outs"
    using process_block_into_shape [of input outs n p] by (simp_all add: delay_vtable_def)
next
  fix p ds
  assume "\<exists>hs. delay_holds p hs"
  then obtain hs where "delay_holds p hs" by blast
  from set_delays_holds [OF this, of ds] show "(\<exists>hs. delay_holds (snd (dt_set_delays delay_vtable ds p)) hs) \<and> fst (dt_set_delays delay_vtable ds p) \<noteq> Panic"
    using validate_delays_no_panic
    by (auto simp: delay_vtable_def) (auto simp: set_delays_slice_def split: outcome.splits if_splits)
next
  fix p input outs n
  assume "\<exists>hs. delay_holds p hs"
  then show "(\<exists>hs. delay_holds (snd (snd (dt_process_planar delay_vtable input outs n p))) hs)
    \<and> fst (dt_process_planar delay_vtable input outs n p) \<noteq> Panic"
    using delay_process_ready by (auto simp: delay_vtable_def)
next
  fix p
  assume "\<exists>hs. delay_holds p hs"
  then show "\<exists>hs. delay_holds (dt_reset delay_vtable p) hs"
    using delay_reset_holds by (auto simp: delay_vtable_def)
qed

section \<open>The half-sample delay of the source's test\<close>

definition delay_eight :: delay_processor where
  "delay_eight = \<lparr>dl_channel_count = 1, dl_max_delay_samples = 0x41000000, dl_delays = [0x3FC00000],
     dl_history = [replicate 10 0], dl_history_len = 10, dl_write_positions = [0]\<rparr>"

lemma delay_eight_history: "delay_history delay_eight [[]]"
proof -
  have "f32_ceil_usize 0x41000000 = 8" by (simp add: float_defs)
  then have new: "delay_new 1 0x41000000 = Ok (delay_eight\<lparr>dl_delays := [0]\<rparr>)"
    by (simp add: delay_new_def delay_eight_def)
  have fin: "f32_is_finite 0x41000000" "f32_is_finite 0x3FC00000" by (simp_all add: f32_is_finite_def)
  have "delay_history (delay_eight\<lparr>dl_delays := [0]\<rparr>) [[]]" using dh_new [OF fin(1) new] by simp
  from dh_set [OF this, of "[0x3FC00000]"] fin show ?thesis
    by (simp add: set_delays_slice_def delay_eight_def float_defs)
qed

lemma delay_plays_past_witness:
  "\<exists>p'. process_block_into [[0x3F800000, 0, 0, 0]] [[0, 0, 0, 0]] 4 delay_eight
     = (Ok (), [[0, 0x3F000000, 0x3F000000, 0]], p')"
proof -
  have floor: "f32_floor_usize 0x3FC00000 = 1" by (simp add: float_defs)
  have half: "f32_sub 0x3FC00000 (f32_of_nat (Suc 0)) = 0x3F000000" by (simp add: float_defs)
  have lerps: "lerp 0x3F000000 0 0 = 0" "lerp 0x3F000000 0x3F800000 0 = 0x3F000000" "lerp 0x3F000000 0 0x3F800000 = 0x3F000000"
    by (simp_all add: lerp_def float_defs)
  show ?thesis
    using delay_plays_past [OF delay_eight_history, of "[[0x3F800000, 0, 0, 0]]" "[[0, 0, 0, 0]]" 4]
    by (simp add: delay_eight_def delayed_def floor half past_def lerps)
qed

end
