(* ===== verification/Pcm_Renderer.thy ===== *)
theory Pcm_Renderer
  imports Render_Scene
begin

text \<open>
  Renderers that turn object samples into speaker samples: the contract of
  \<open>src/crates/aurora-renderer-api/src/pcm.rs\<close> and the adapter of the native libspatialaudio library,
  \<open>src/adapters/aurora-renderer-libspatialaudio/src/lib.rs\<close>.  The native functions are the record
  \<open>shim\<close>; the memory they write are the samples of the output channels they were given.
\<close>

section \<open>The contract\<close>

record object_pcm_block =
  op_object :: render_object
  op_samples :: "f32 list"

datatype pcm_renderer_error =
    PcmNotConfigured | PcmInvalidConfiguration string | UnsupportedListenerOrientation
  | PcmTooManyObjects usize nat | InputBlockSize nat nat nat | OutputChannelCount nat nat
  | OutputBlockSize nat nat nat | NonFiniteMetadata | BackendFault

record 'q pcm_renderer =
  pr_configure :: "speaker list \<Rightarrow> u32 \<Rightarrow> usize \<Rightarrow> usize \<Rightarrow> 'q \<Rightarrow> (unit, pcm_renderer_error) outcome \<times> 'q"
  pr_render_pcm :: "listener \<Rightarrow> object_pcm_block list \<Rightarrow> f32 list list \<Rightarrow> 'q
    \<Rightarrow> (unit, pcm_renderer_error) outcome \<times> f32 list list \<times> 'q"
  pr_reset :: "'q \<Rightarrow> 'q"
  pr_latency_frames :: "'q \<Rightarrow> usize"
  pr_output_channel_count :: "'q \<Rightarrow> usize"

text \<open>
  What a client may rely on: the output keeps its shape, and a renderer in a good state neither
  panics nor leaves it.
\<close>

locale block_pcm_renderer =
  fixes Q :: "'q pcm_renderer" and good :: "'q \<Rightarrow> bool"
  assumes pcm_shapes: "map length (fst (snd (pr_render_pcm Q l objs outs q))) = map length outs"
    and pcm_configure_good: "good q \<Longrightarrow> good (snd (pr_configure Q layout rate block most q))
      \<and> fst (pr_configure Q layout rate block most q) \<noteq> Panic"
    and pcm_render_good: "good q \<Longrightarrow> good (snd (snd (pr_render_pcm Q l objs outs q)))
      \<and> fst (pr_render_pcm Q l objs outs q) \<noteq> Panic"
    and pcm_reset_good: "good q \<Longrightarrow> good (pr_reset Q q)"

section \<open>The native library\<close>

record 'h shim =
  sh_abi_version :: u32
  sh_create :: "'h option"
  sh_configure :: "'h \<Rightarrow> u32 \<Rightarrow> u32 \<Rightarrow> u32 \<Rightarrow> int \<times> 'h"
  sh_render :: "'h \<Rightarrow> u32 \<Rightarrow> f32 list \<Rightarrow> f32 list \<Rightarrow> f32 list list \<Rightarrow> int \<times> (nat \<Rightarrow> nat \<Rightarrow> f32) \<times> 'h"
  sh_reset :: "'h \<Rightarrow> 'h"
  sh_output_channels :: "'h \<Rightarrow> u32"
  sh_latency_frames :: u32

definition SHIM_ABI_VERSION :: u32 where "SHIM_ABI_VERSION = 1"
definition SPATIAL_RATE_HZ :: u32 where "SPATIAL_RATE_HZ = 48000"
definition SPATIAL_BLOCK_FRAMES :: nat where "SPATIAL_BLOCK_FRAMES = 256"
definition OUTPUT_CHANNELS :: nat where "OUTPUT_CHANNELS = 12"
definition DIRECT_PATH_LATENCY_FRAMES :: usize where "DIRECT_PATH_LATENCY_FRAMES = 255"
definition ORIENTATION_EPSILON :: f32 where "ORIENTATION_EPSILON = 0x3727C5AC"

section \<open>The adapter\<close>

datatype spatial_load_error =
    InvalidLibraryPath | DynamicLibrary string | MissingSymbol string | AbiMismatch u32 u32 | CreateFailed

record 'h spatial =
  sa_handle :: 'h
  sa_configured :: bool
  sa_max_objects :: usize
  sa_positions_xyz :: "f32 list"
  sa_gains :: "f32 list"
  sa_input_ptrs :: "f32 list list"
  sa_output_ptrs :: nat

text \<open>Loading, once the platform has opened the library and resolved its symbols.\<close>

definition spatial_load :: "'h shim \<Rightarrow> ('h spatial, spatial_load_error) outcome" where
  "spatial_load S =
     (if sh_abi_version S \<noteq> SHIM_ABI_VERSION then Err (AbiMismatch SHIM_ABI_VERSION (sh_abi_version S))
      else case sh_create S of
        None \<Rightarrow> Err CreateFailed
      | Some h \<Rightarrow> Ok \<lparr>sa_handle = h, sa_configured = False, sa_max_objects = 0, sa_positions_xyz = [],
          sa_gains = [], sa_input_ptrs = [], sa_output_ptrs = 0\<rparr>)"

definition native_ok :: "int \<Rightarrow> (unit, pcm_renderer_error) outcome" where
  "native_ok code = (if code = 0 then Ok () else Err BackendFault)"

definition canonical_role_matches :: "nat \<Rightarrow> channel_role \<Rightarrow> bool" where
  "canonical_role_matches index role \<longleftrightarrow> (index, role) \<in> {(0, FrontLeft), (1, FrontRight),
     (2, FrontCenter), (3, LowFrequencyEffects), (4, SurroundLeft), (5, SurroundRight),
     (6, SurroundBackLeft), (7, SurroundBackRight), (8, TopFrontLeft), (9, TopFrontRight),
     (10, TopRearLeft), (11, TopRearRight)}"

fun role_order_scan :: "nat \<Rightarrow> speaker list \<Rightarrow> (unit, pcm_renderer_error) outcome" where
  "role_order_scan index [] = Ok ()"
| "role_order_scan index (s # ss) =
     (if \<not> canonical_role_matches index (sp_channel_role s)
      then Err (PcmInvalidConfiguration ''libspatialaudio v1 requires canonical 7.1.4 role order'')
      else role_order_scan (Suc index) ss)"

definition validate_layout :: "speaker list \<Rightarrow> (unit, pcm_renderer_error) outcome" where
  "validate_layout layout =
     (if length (filter sp_enabled layout) \<noteq> OUTPUT_CHANNELS
      then Err (PcmInvalidConfiguration ''libspatialaudio v1 requires exactly 12 enabled speakers'')
      else role_order_scan 0 (filter sp_enabled layout))"

definition vector_is_finite :: "vector3 \<Rightarrow> bool" where
  "vector_is_finite v \<longleftrightarrow> f32_is_finite (vx v) \<and> f32_is_finite (vy v) \<and> f32_is_finite (vz v)"

text \<open>The forward direction of the listener in the horizontal plane.\<close>

definition listener_forward :: "math \<Rightarrow> listener \<Rightarrow> (f32 \<times> f32, pcm_renderer_error) outcome" where
  "listener_forward M l =
     (if \<not> vector_is_finite (ls_position l) \<or> \<not> vector_is_finite (ls_orientation l)
         \<or> \<not> f32_is_finite (ls_ear_height l)
      then Err NonFiniteMetadata
      else if f32_less ORIENTATION_EPSILON (f32_abs (vz (ls_orientation l)))
      then Err UnsupportedListenerOrientation
      else let n = m_hypot M (vx (ls_orientation l)) (vy (ls_orientation l)) in
        if f32_le n ORIENTATION_EPSILON then Err UnsupportedListenerOrientation
        else Ok (f32_div (vx (ls_orientation l)) n, f32_div (vy (ls_orientation l)) n))"

text \<open>The position of an object seen by a listener that looks along \<open>(fx, fy)\<close>.\<close>

definition relative_position :: "listener \<Rightarrow> f32 \<times> f32 \<Rightarrow> vector3 \<Rightarrow> f32 list" where
  "relative_position l forward p =
     (let (fx, fy) = forward; rx = fy; ry = f32_neg fx;
          dx = f32_sub (vx p) (vx (ls_position l));
          dy = f32_sub (vy p) (vy (ls_position l));
          dz = f32_sub (vz p) (vz (ls_position l)) in
      [f32_mul_add dx rx (f32_mul dy ry), f32_mul_add dx fx (f32_mul dy fy), dz])"

definition finite_block :: "object_pcm_block \<Rightarrow> bool" where
  "finite_block b \<longleftrightarrow> vector_is_finite (ro_position (op_object b)) \<and> f32_is_finite (ro_gain (op_object b))
     \<and> list_all f32_is_finite (op_samples b)"

text \<open>
  The loop over the objects; an index beyond the prepared scratch panics.
\<close>

fun metadata_loop :: "listener \<Rightarrow> f32 \<times> f32 \<Rightarrow> nat \<Rightarrow> object_pcm_block list \<Rightarrow> 'h spatial
    \<Rightarrow> (unit, pcm_renderer_error) outcome \<times> 'h spatial" where
  "metadata_loop l forward index [] q = (Ok (), q)"
| "metadata_loop l forward index (b # bs) q =
     (if \<not> finite_block b then (Err NonFiniteMetadata, q)
      else
        let base = index * 3; xyz = relative_position l forward (ro_position (op_object b)) in
        if length (sa_positions_xyz q) \<le> base + 2 \<or> length (sa_gains q) \<le> index
           \<or> length (sa_input_ptrs q) \<le> index
        then (Panic, q)
        else metadata_loop l forward (Suc index) bs (q
          \<lparr>sa_positions_xyz := (sa_positions_xyz q)[base := xyz ! 0, base + 1 := xyz ! 1, base + 2 := xyz ! 2],
           sa_gains := (sa_gains q)[index := ro_gain (op_object b)],
           sa_input_ptrs := (sa_input_ptrs q)[index := op_samples b]\<rparr>))"

definition fill_listener_relative_metadata :: "math \<Rightarrow> listener \<Rightarrow> object_pcm_block list \<Rightarrow> 'h spatial
    \<Rightarrow> (unit, pcm_renderer_error) outcome \<times> 'h spatial" where
  "fill_listener_relative_metadata M l bs q =
     (case listener_forward M l of
        Err e \<Rightarrow> (Err e, q) | Panic \<Rightarrow> (Panic, q)
      | Ok forward \<Rightarrow> metadata_loop l forward 0 bs q)"

definition spatial_configure :: "'h shim \<Rightarrow> speaker list \<Rightarrow> u32 \<Rightarrow> usize \<Rightarrow> usize \<Rightarrow> 'h spatial
    \<Rightarrow> (unit, pcm_renderer_error) outcome \<times> 'h spatial" where
  "spatial_configure S layout rate block most q =
     (if rate \<noteq> SPATIAL_RATE_HZ
      then (Err (PcmInvalidConfiguration ''libspatialaudio adapter v1 requires 48000 Hz''), q)
      else if unat block \<noteq> SPATIAL_BLOCK_FRAMES
      then (Err (PcmInvalidConfiguration ''libspatialaudio adapter v1 requires 256-frame blocks''), q)
      else if most = 0 \<or> 2 ^ 32 - 1 < unat most
      then (Err (PcmInvalidConfiguration ''max_objects must be in 1..=u32::MAX''), q)
      else case validate_layout layout of
        Err e \<Rightarrow> (Err e, q) | Panic \<Rightarrow> (Panic, q)
      | Ok _ \<Rightarrow>
          let (code, h) = sh_configure S (sa_handle q) rate (ucast block) (ucast most);
              q1 = q\<lparr>sa_handle := h\<rparr> in
          if code \<noteq> 0 then (Err BackendFault, q1)
          else if unat (sh_output_channels S h) \<noteq> OUTPUT_CHANNELS then (Err BackendFault, q1)
          else if ucast (sh_latency_frames S) \<noteq> DIRECT_PATH_LATENCY_FRAMES then (Err BackendFault, q1)
          else (Ok (), q1
            \<lparr>sa_positions_xyz := replicate (unat most * 3) 0, sa_gains := replicate (unat most) 0,
             sa_input_ptrs := replicate (unat most) [], sa_output_ptrs := OUTPUT_CHANNELS,
             sa_max_objects := most, sa_configured := True\<rparr>))"

fun input_scan :: "nat \<Rightarrow> object_pcm_block list \<Rightarrow> (unit, pcm_renderer_error) outcome" where
  "input_scan index [] = Ok ()"
| "input_scan index (b # bs) =
     (if length (op_samples b) \<noteq> SPATIAL_BLOCK_FRAMES
      then Err (InputBlockSize index SPATIAL_BLOCK_FRAMES (length (op_samples b)))
      else input_scan (Suc index) bs)"

fun output_scan :: "nat \<Rightarrow> f32 list list \<Rightarrow> (unit, pcm_renderer_error) outcome" where
  "output_scan channel [] = Ok ()"
| "output_scan channel (ys # rest) =
     (if length ys \<noteq> SPATIAL_BLOCK_FRAMES
      then Err (OutputBlockSize channel SPATIAL_BLOCK_FRAMES (length ys))
      else output_scan (Suc channel) rest)"

text \<open>What the native call leaves in the channels it was given.\<close>

definition native_output :: "(nat \<Rightarrow> nat \<Rightarrow> f32) \<Rightarrow> nat \<Rightarrow> f32 list list \<Rightarrow> f32 list list" where
  "native_output written n outs =
     map (\<lambda>c. if c < n then map (written c) [0..<length (outs ! c)] else outs ! c) [0..<length outs]"

definition spatial_render_pcm :: "math \<Rightarrow> 'h shim \<Rightarrow> listener \<Rightarrow> object_pcm_block list \<Rightarrow> f32 list list
    \<Rightarrow> 'h spatial \<Rightarrow> (unit, pcm_renderer_error) outcome \<times> f32 list list \<times> 'h spatial" where
  "spatial_render_pcm M S l objs outs q =
     (if \<not> sa_configured q then (Err PcmNotConfigured, outs, q)
      else if unat (sa_max_objects q) < length objs
      then (Err (PcmTooManyObjects (sa_max_objects q) (length objs)), outs, q)
      else case input_scan 0 objs of
        Err e \<Rightarrow> (Err e, outs, q) | Panic \<Rightarrow> (Panic, outs, q)
      | Ok _ \<Rightarrow>
      (if length outs \<noteq> OUTPUT_CHANNELS
       then (Err (OutputChannelCount OUTPUT_CHANNELS (length outs)), outs, q)
       else case output_scan 0 outs of
        Err e \<Rightarrow> (Err e, outs, q) | Panic \<Rightarrow> (Panic, outs, q)
      | Ok _ \<Rightarrow>
      (case fill_listener_relative_metadata M l objs q of
        (Err e, q1) \<Rightarrow> (Err e, outs, q1) | (Panic, q1) \<Rightarrow> (Panic, outs, q1)
      | (Ok _, q1) \<Rightarrow>
          let (code, written, h) = sh_render S (sa_handle q1) (of_nat (length objs))
                (sa_positions_xyz q1) (sa_gains q1) (sa_input_ptrs q1) in
          (native_ok code, native_output written (min (sa_output_ptrs q1) (length outs)) outs,
           q1\<lparr>sa_handle := h\<rparr>))))"

definition spatial_reset :: "'h shim \<Rightarrow> 'h spatial \<Rightarrow> 'h spatial" where
  "spatial_reset S q = (if sa_configured q then q\<lparr>sa_handle := sh_reset S (sa_handle q)\<rparr> else q)"

definition spatial_latency_frames :: "'h spatial \<Rightarrow> usize" where
  "spatial_latency_frames q = DIRECT_PATH_LATENCY_FRAMES"

definition spatial_output_channel_count :: "'h spatial \<Rightarrow> usize" where
  "spatial_output_channel_count q = (if sa_configured q then of_nat OUTPUT_CHANNELS else 0)"

definition spatial_vtable :: "math \<Rightarrow> 'h shim \<Rightarrow> 'h spatial pcm_renderer" where
  "spatial_vtable M S =
     \<lparr>pr_configure = spatial_configure S, pr_render_pcm = spatial_render_pcm M S,
      pr_reset = spatial_reset S, pr_latency_frames = spatial_latency_frames,
      pr_output_channel_count = spatial_output_channel_count\<rparr>"

section \<open>The native call is always well supplied\<close>

definition spatial_good :: "'h spatial \<Rightarrow> bool" where
  "spatial_good q \<longleftrightarrow> length (sa_positions_xyz q) = unat (sa_max_objects q) * 3
     \<and> length (sa_gains q) = unat (sa_max_objects q) \<and> length (sa_input_ptrs q) = unat (sa_max_objects q)
     \<and> (sa_configured q \<longrightarrow> sa_output_ptrs q = OUTPUT_CHANNELS)"

lemma spatial_load_good: "spatial_load S = Ok q \<Longrightarrow> spatial_good q"
  by (auto simp: spatial_load_def spatial_good_def split: if_splits option.splits)

lemma role_order_no_panic: "role_order_scan i ss \<noteq> Panic"
  by (induction i ss rule: role_order_scan.induct) simp_all

lemma validate_layout_no_panic: "validate_layout layout \<noteq> Panic"
  by (simp add: validate_layout_def role_order_no_panic)

lemma input_scan_no_panic: "input_scan i bs \<noteq> Panic"
  by (induction i bs rule: input_scan.induct) simp_all

lemma input_scan_Ok: "input_scan i bs = Ok () \<longleftrightarrow> (\<forall>b\<in>set bs. length (op_samples b) = SPATIAL_BLOCK_FRAMES)"
  by (induction i bs rule: input_scan.induct) auto

lemma output_scan_no_panic: "output_scan i outs \<noteq> Panic"
  by (induction i outs rule: output_scan.induct) simp_all

lemma output_scan_Ok: "output_scan i outs = Ok () \<longleftrightarrow> (\<forall>ys\<in>set outs. length ys = SPATIAL_BLOCK_FRAMES)"
  by (induction i outs rule: output_scan.induct) auto

lemma listener_forward_no_panic: "listener_forward M l \<noteq> Panic"
  by (simp add: listener_forward_def Let_def)

lemma native_output_shape [simp]: "map length (native_output written n outs) = map length outs"
  by (rule nth_equalityI) (simp_all add: native_output_def)

text \<open>The scratch after the loop: one position, gain and buffer per object, the rest as it was.\<close>

lemma three_updates_append:
  "length us = k \<Longrightarrow> (us @ a # b # c # vs)[k := x, k + 1 := y, k + 2 := z] = us @ x # y # z # vs"
  by (simp add: list_update_append)

lemma three_updates:
  assumes "length xyz = 3" "k + 2 < length ps"
  shows "ps[k := xyz ! 0, k + 1 := xyz ! 1, k + 2 := xyz ! 2] = take k ps @ xyz @ drop (k + 3) ps"
proof -
  obtain x y z where xyz: "xyz = [x, y, z]"
    using assms(1) by (auto simp: length_Suc_conv numeral_3_eq_3)
  have "drop k ps = ps ! k # ps ! (k + 1) # ps ! (k + 2) # drop (k + 3) ps"
    using assms(2) by (simp add: Cons_nth_drop_Suc numeral_3_eq_3)
  then have "ps = take k ps @ ps ! k # ps ! (k + 1) # ps ! (k + 2) # drop (k + 3) ps"
    by (metis append_take_drop_id)
  then have "ps[k := x, k + 1 := y, k + 2 := z] = take k ps @ x # y # z # drop (k + 3) ps"
    using three_updates_append [of "take k ps" k] assms(2) by (metis add_lessD1 length_take min.absorb4)
  then show ?thesis by (simp add: xyz)
qed

lemma length_relative_position [simp]: "length (relative_position l f p) = 3"
  by (simp add: relative_position_def Let_def split: prod.split)

lemma metadata_loop_value:
  assumes "spatial_good q" "i + length bs \<le> unat (sa_max_objects q)"
  shows "if list_all finite_block bs
    then metadata_loop l f i bs q = (Ok (), q
      \<lparr>sa_positions_xyz := take (i * 3) (sa_positions_xyz q)
         @ concat (map (\<lambda>b. relative_position l f (ro_position (op_object b))) bs)
         @ drop ((i + length bs) * 3) (sa_positions_xyz q),
       sa_gains := take i (sa_gains q) @ map (\<lambda>b. ro_gain (op_object b)) bs @ drop (i + length bs) (sa_gains q),
       sa_input_ptrs := take i (sa_input_ptrs q) @ map op_samples bs @ drop (i + length bs) (sa_input_ptrs q)\<rparr>)
    else fst (metadata_loop l f i bs q) = Err NonFiniteMetadata
       \<and> spatial_good (snd (metadata_loop l f i bs q))
       \<and> sa_handle (snd (metadata_loop l f i bs q)) = sa_handle q
       \<and> sa_configured (snd (metadata_loop l f i bs q)) = sa_configured q"
  using assms
proof (induction bs arbitrary: i q)
  case Nil
  then show ?case by simp
next
  case (Cons b bs)
  show ?case
  proof (cases "finite_block b")
    case False
    then show ?thesis using Cons.prems(1) by simp
  next
    case True
    let ?xyz = "relative_position l f (ro_position (op_object b))"
    let ?q = "q\<lparr>sa_positions_xyz := (sa_positions_xyz q)[i * 3 := ?xyz ! 0, i * 3 + 1 := ?xyz ! 1, i * 3 + 2 := ?xyz ! 2],
           sa_gains := (sa_gains q)[i := ro_gain (op_object b)],
           sa_input_ptrs := (sa_input_ptrs q)[i := op_samples b]\<rparr>"
    have len: "length (sa_positions_xyz q) = unat (sa_max_objects q) * 3"
      "length (sa_gains q) = unat (sa_max_objects q)" "length (sa_input_ptrs q) = unat (sa_max_objects q)"
      using Cons.prems(1) by (simp_all add: spatial_good_def)
    have i: "i < unat (sa_max_objects q)" using Cons.prems(2) by simp
    then have room: "i * 3 + 2 < length (sa_positions_xyz q)" using len by simp
    have good: "spatial_good ?q" using Cons.prems(1) by (simp add: spatial_good_def)
    have step: "metadata_loop l f i (b # bs) q = metadata_loop l f (Suc i) bs ?q"
      using True i room len by (simp add: Let_def)
    have upd: "(sa_positions_xyz q)[i * 3 := ?xyz ! 0, i * 3 + 1 := ?xyz ! 1, i * 3 + 2 := ?xyz ! 2]
        = take (i * 3) (sa_positions_xyz q) @ ?xyz @ drop (i * 3 + 3) (sa_positions_xyz q)"
      by (rule three_updates) (use room in simp_all)
    have upd1: "(sa_gains q)[i := ro_gain (op_object b)] = take i (sa_gains q) @ [ro_gain (op_object b)] @ drop (Suc i) (sa_gains q)"
      "(sa_input_ptrs q)[i := op_samples b] = take i (sa_input_ptrs q) @ [op_samples b] @ drop (Suc i) (sa_input_ptrs q)"
      using i len by (simp_all add: upd_conv_take_nth_drop)
    have IH: "Suc i + length bs \<le> unat (sa_max_objects ?q)" using Cons.prems(2) by simp
    show ?thesis
    proof (cases "list_all finite_block bs")
      case False
      then show ?thesis using Cons.IH [OF good IH] step True by simp
    next
      case all: True
      have "metadata_loop l f (Suc i) bs ?q = (Ok (), ?q
        \<lparr>sa_positions_xyz := take (Suc i * 3) (sa_positions_xyz ?q)
           @ concat (map (\<lambda>b. relative_position l f (ro_position (op_object b))) bs)
           @ drop ((Suc i + length bs) * 3) (sa_positions_xyz ?q),
         sa_gains := take (Suc i) (sa_gains ?q) @ map (\<lambda>b. ro_gain (op_object b)) bs @ drop (Suc i + length bs) (sa_gains ?q),
         sa_input_ptrs := take (Suc i) (sa_input_ptrs ?q) @ map op_samples bs @ drop (Suc i + length bs) (sa_input_ptrs ?q)\<rparr>)"
        using Cons.IH [OF good IH] all by simp
      moreover have "take (Suc i * 3) (sa_positions_xyz ?q) = take (i * 3) (sa_positions_xyz q) @ ?xyz"
        "drop ((Suc i + length bs) * 3) (sa_positions_xyz ?q) = drop ((i + length (b # bs)) * 3) (sa_positions_xyz q)"
        using room by (simp_all only: upd simps) (simp_all add: algebra_simps)
      moreover have "take (Suc i) (sa_gains ?q) = take i (sa_gains q) @ [ro_gain (op_object b)]"
        "drop (Suc i + length bs) (sa_gains ?q) = drop (i + length (b # bs)) (sa_gains q)"
        "take (Suc i) (sa_input_ptrs ?q) = take i (sa_input_ptrs q) @ [op_samples b]"
        "drop (Suc i + length bs) (sa_input_ptrs ?q) = drop (i + length (b # bs)) (sa_input_ptrs q)"
        using i len by (simp_all add: upd1 add.commute)
      ultimately show ?thesis using step True all by simp
    qed
  qed
qed

text \<open>Which calls reach the native library, and what it is handed.\<close>

definition spatial_admits :: "math \<Rightarrow> listener \<Rightarrow> object_pcm_block list \<Rightarrow> f32 list list \<Rightarrow> 'h spatial \<Rightarrow> bool" where
  "spatial_admits M l objs outs q \<longleftrightarrow> sa_configured q \<and> length objs \<le> unat (sa_max_objects q)
     \<and> (\<forall>b\<in>set objs. length (op_samples b) = SPATIAL_BLOCK_FRAMES)
     \<and> length outs = OUTPUT_CHANNELS \<and> (\<forall>ys\<in>set outs. length ys = SPATIAL_BLOCK_FRAMES)
     \<and> is_ok (listener_forward M l) \<and> list_all finite_block objs"

lemma spatial_render_admitted:
  assumes good: "spatial_good q" and adm: "spatial_admits M l objs outs q"
    and forward: "listener_forward M l = Ok f"
    and native: "sh_render S (sa_handle q) (of_nat (length objs))
        (concat (map (\<lambda>b. relative_position l f (ro_position (op_object b))) objs)
           @ drop (length objs * 3) (sa_positions_xyz q))
        (map (\<lambda>b. ro_gain (op_object b)) objs @ drop (length objs) (sa_gains q))
        (map op_samples objs @ drop (length objs) (sa_input_ptrs q)) = (code, written, h)"
  shows "\<exists>q'. spatial_render_pcm M S l objs outs q
      = (native_ok code, map (\<lambda>c. map (written c) [0..<SPATIAL_BLOCK_FRAMES]) [0..<OUTPUT_CHANNELS], q')
    \<and> sa_handle q' = h \<and> spatial_good q' \<and> sa_configured q'"
proof -
  have loop: "metadata_loop l f 0 objs q = (Ok (), q
      \<lparr>sa_positions_xyz := concat (map (\<lambda>b. relative_position l f (ro_position (op_object b))) objs)
         @ drop (length objs * 3) (sa_positions_xyz q),
       sa_gains := map (\<lambda>b. ro_gain (op_object b)) objs @ drop (length objs) (sa_gains q),
       sa_input_ptrs := map op_samples objs @ drop (length objs) (sa_input_ptrs q)\<rparr>)"
    using metadata_loop_value [OF good, of 0 objs l f] adm by (simp add: spatial_admits_def)
  have scans: "input_scan 0 objs = Ok ()" "output_scan 0 outs = Ok ()"
    using adm by (simp_all add: spatial_admits_def input_scan_Ok output_scan_Ok)
  have out: "native_output written (min (sa_output_ptrs q) (length outs)) outs
      = map (\<lambda>c. map (written c) [0..<SPATIAL_BLOCK_FRAMES]) [0..<OUTPUT_CHANNELS]"
    using adm good by (auto simp: native_output_def spatial_admits_def spatial_good_def)
  let ?q = "q\<lparr>sa_positions_xyz := concat (map (\<lambda>b. relative_position l f (ro_position (op_object b))) objs)
         @ drop (length objs * 3) (sa_positions_xyz q),
       sa_gains := map (\<lambda>b. ro_gain (op_object b)) objs @ drop (length objs) (sa_gains q),
       sa_input_ptrs := map op_samples objs @ drop (length objs) (sa_input_ptrs q), sa_handle := h\<rparr>"
  have "spatial_render_pcm M S l objs outs q
      = (native_ok code, map (\<lambda>c. map (written c) [0..<SPATIAL_BLOCK_FRAMES]) [0..<OUTPUT_CHANNELS], ?q)"
    using adm scans loop forward native out
    by (simp add: spatial_render_pcm_def spatial_admits_def fill_listener_relative_metadata_def)
  moreover have "length (concat (map (\<lambda>b. relative_position l f (ro_position (op_object b))) objs)) = length objs * 3"
    by (induction objs) simp_all
  then have "spatial_good ?q" using good adm by (simp add: spatial_good_def spatial_admits_def)
  ultimately show ?thesis using adm by (auto simp: spatial_admits_def)
qed

lemma spatial_render_refused:
  assumes good: "spatial_good q" and no: "\<not> spatial_admits M l objs outs q"
  shows "\<exists>e q'. spatial_render_pcm M S l objs outs q = (Err e, outs, q')
    \<and> e \<noteq> BackendFault \<and> sa_handle q' = sa_handle q \<and> spatial_good q'"
proof -
  have in1: "input_scan i bs = Err e \<Longrightarrow> e \<noteq> BackendFault" for i bs e
    by (induction i bs rule: input_scan.induct) (auto split: if_splits)
  have out1: "output_scan i ys = Err e \<Longrightarrow> e \<noteq> BackendFault" for i ys e
    by (induction i ys rule: output_scan.induct) (auto split: if_splits)
  have fwd: "listener_forward M l = Err e \<Longrightarrow> e \<noteq> BackendFault" for e
    by (auto simp: listener_forward_def Let_def split: if_splits)
  have meta: "\<exists>e q'. fill_listener_relative_metadata M l objs q = (Err e, q')
      \<and> e \<noteq> BackendFault \<and> sa_handle q' = sa_handle q \<and> spatial_good q'"
    if "length objs \<le> unat (sa_max_objects q)" "\<not> (is_ok (listener_forward M l) \<and> list_all finite_block objs)"
  proof (cases "listener_forward M l")
    case (Ok f)
    then show ?thesis using metadata_loop_value [OF good, of 0 objs l f] that
      by (cases "metadata_loop l f 0 objs q") (auto simp: fill_listener_relative_metadata_def)
  qed (use good fwd listener_forward_no_panic in \<open>auto simp: fill_listener_relative_metadata_def\<close>)
  show ?thesis
  proof (cases "sa_configured q \<and> length objs \<le> unat (sa_max_objects q) \<and> input_scan 0 objs = Ok ()
      \<and> length outs = OUTPUT_CHANNELS \<and> output_scan 0 outs = Ok ()")
    case True
    then have "\<not> (is_ok (listener_forward M l) \<and> list_all finite_block objs)"
      using no by (simp add: spatial_admits_def input_scan_Ok output_scan_Ok)
    from meta [OF _ this] True show ?thesis by (auto simp: spatial_render_pcm_def)
  next
    case False
    then show ?thesis using good in1 [of 0 objs] out1 [of 0 outs] input_scan_no_panic [of 0 objs] output_scan_no_panic [of 0 outs]
      by (auto simp: spatial_render_pcm_def split: outcome.split)
  qed
qed

lemma spatial_render_good:
  assumes "spatial_good q"
  shows "spatial_good (snd (snd (spatial_render_pcm M S l objs outs q)))
    \<and> fst (spatial_render_pcm M S l objs outs q) \<noteq> Panic"
proof (cases "spatial_admits M l objs outs q")
  case True
  then obtain f where f: "listener_forward M l = Ok f" by (auto simp: spatial_admits_def is_ok_iff)
  obtain code written h where native: "sh_render S (sa_handle q) (of_nat (length objs))
        (concat (map (\<lambda>b. relative_position l f (ro_position (op_object b))) objs)
           @ drop (length objs * 3) (sa_positions_xyz q))
        (map (\<lambda>b. ro_gain (op_object b)) objs @ drop (length objs) (sa_gains q))
        (map op_samples objs @ drop (length objs) (sa_input_ptrs q)) = (code, written, h)"
    by (rule prod_cases3)
  show ?thesis using spatial_render_admitted [OF assms True f native]
    by (auto simp: native_ok_def split: if_splits)
next
  case False
  from spatial_render_refused [OF assms this, of S] show ?thesis by auto
qed

lemma spatial_render_shape:
  "map length (fst (snd (spatial_render_pcm M S l objs outs q))) = map length outs"
  by (auto simp: spatial_render_pcm_def Let_def split: outcome.split prod.split)

lemma spatial_configure_good:
  "spatial_good q \<Longrightarrow> spatial_good (snd (spatial_configure S layout rate block most q))
    \<and> fst (spatial_configure S layout rate block most q) \<noteq> Panic"
  using validate_layout_no_panic [of layout]
  by (auto simp: spatial_configure_def spatial_good_def Let_def split: outcome.split prod.split)

interpretation spatial: block_pcm_renderer "spatial_vtable M S" spatial_good for M S
proof
  show "map length (fst (snd (pr_render_pcm (spatial_vtable M S) l objs outs q))) = map length outs" for l objs outs q
    by (simp add: spatial_vtable_def spatial_render_shape)
  show "spatial_good (snd (pr_configure (spatial_vtable M S) layout rate block most q))
      \<and> fst (pr_configure (spatial_vtable M S) layout rate block most q) \<noteq> Panic"
    if "spatial_good q" for layout rate block most q
    using spatial_configure_good [OF that] by (simp add: spatial_vtable_def)
  show "spatial_good (snd (snd (pr_render_pcm (spatial_vtable M S) l objs outs q)))
      \<and> fst (pr_render_pcm (spatial_vtable M S) l objs outs q) \<noteq> Panic"
    if "spatial_good q" for l objs outs q
    using spatial_render_good [OF that, of M S l objs outs] by (simp add: spatial_vtable_def)
  show "spatial_good (pr_reset (spatial_vtable M S) q)" if "spatial_good q" for q
    using that by (simp add: spatial_vtable_def spatial_reset_def spatial_good_def)
qed

end
