(* ===== verification/Realtime_Engine.thy ===== *)
theory Realtime_Engine
  imports Engine_Metrics Dsp_Delay Pcm_Renderer Basic_Renderer
begin

text \<open>
  The real-time block engine, \<open>src/crates/aurora-realtime-engine/src/lib.rs\<close>: its construction from
  a scene and prepared components, and the audio callback.  The renderers, the delay processor and
  the mathematics library are arguments; \<open>Option<&[f32]>\<close> is an optional list, and the output slice
  is the list it holds, returned as the callback leaves it.
\<close>

section \<open>Data\<close>

datatype test_signal = NoSignal | Sine | PinkNoise | Impulse | Silence | RotatingSine

record engine_config =
  ec_sample_rate :: u32
  ec_block_size :: usize
  ec_input_channels :: usize
  ec_apply_geometric_delay :: bool
  ec_speed_of_sound :: f32
  ec_test_signal :: test_signal

record delay_report =
  dr_output_index :: nat
  dr_channel_role :: channel_role
  dr_distance_meters :: f32
  dr_delay_milliseconds :: f32
  dr_delay_samples :: f32

datatype prepared_dsp_error =
    DspChannels nat nat | DelayCapacity f32 f32 | InitialDelayShape | InitialDelayValue
  | UnexpectedInitializationFault

datatype prepared_renderer_error = RendererChannels nat nat | RendererContract renderer_error

datatype engine_error =
    PreparedRenderer prepared_renderer_error | PreparedPcmRenderer nat nat
  | PreparedDsp prepared_dsp_error | EngineScene scene_error | InvalidConfig string

record delay_requirements =
  rq_channel_count :: nat
  rq_max_delay_samples :: f32

record ('r, 'q, 'p) engine =
  en_config :: engine_config
  en_renderer :: "'r option"
  en_pcm_renderer :: "'q option"
  en_dynamic_delays :: bool
  en_listener :: listener
  en_trajectory :: trajectory
  en_object_gain :: f32
  en_output_roles :: "channel_role list"
  en_mono :: "f32 list"
  en_planar :: "f32 list list"
  en_delayed :: "f32 list list"
  en_gains :: "speaker_gain list"
  en_delays_scratch :: "f32 list"
  en_renderer_scratch :: "f32 list"
  en_delay_processor :: 'p
  en_metrics :: real_time_metrics
  en_frame_cursor :: u64
  en_phase :: f32
  en_noise_state :: u32
  en_noise_filter_state :: f32
  en_impulse_emitted :: bool
  en_delay_reports :: "delay_report list"

section \<open>Construction\<close>

definition DYNAMIC_DELAY_CAPACITY :: f32 where "DYNAMIC_DELAY_CAPACITY = 0x44800000"

fun from_initial_fault :: "realtime_dsp_fault \<Rightarrow> prepared_dsp_error" where
  "from_initial_fault DelayShape = InitialDelayShape"
| "from_initial_fault DelayValue = InitialDelayValue"
| "from_initial_fault PlanarShape = UnexpectedInitializationFault"

definition validate_scene_config :: "render_scene \<Rightarrow> engine_config \<Rightarrow> (unit, engine_error) outcome" where
  "validate_scene_config scene config =
     (if ec_sample_rate config = 0 \<or> ec_block_size config = 0
      then Err (InvalidConfig ''sample_rate and block_size must be greater than zero'')
      else if ec_test_signal config = NoSignal \<and> ec_input_channels config = 0
      then Err (InvalidConfig ''live input requires at least one input channel'')
      else case ordered_speakers scene of
        Err e \<Rightarrow> Err (EngineScene e) | Panic \<Rightarrow> Panic
      | Ok speakers \<Rightarrow>
          if speakers = [] then Err (InvalidConfig ''scene must contain at least one output speaker'')
          else Ok ())"

definition engine_geometric_delays :: "speaker list \<Rightarrow> listener \<Rightarrow> u32 \<Rightarrow> f32 \<Rightarrow> delay_report list" where
  "engine_geometric_delays speakers l rate speed =
     (let farthest = fold (\<lambda>d m. f32_max m d)
            (map (\<lambda>s. distance_to (sp_position s) (ls_position l)) (filter sp_enabled speakers)) 0 in
      map (\<lambda>(i, s).
        let d = distance_to (sp_position s) (ls_position l);
            t = (if sp_enabled s \<and> f32_less 0 speed
                 then f32_div (f32_max (f32_sub farthest d) 0) speed else 0) in
        \<lparr>dr_output_index = i, dr_channel_role = sp_channel_role s, dr_distance_meters = d,
         dr_delay_milliseconds = f32_mul t 0x447A0000,
         dr_delay_samples = f32_mul t (f32_of_nat (unat rate))\<rparr>)
        (zip [0..<length speakers] speakers))"

definition initial_delays :: "engine_config \<Rightarrow> delay_report list \<Rightarrow> f32 list" where
  "initial_delays config geometric =
     (if ec_apply_geometric_delay config then map dr_delay_samples geometric
      else replicate (length geometric) 0)"

definition required_delay :: "bool \<Rightarrow> f32 list \<Rightarrow> f32" where
  "required_delay dynamic delays =
     (let most = f32_add (f32_ceil (fold (\<lambda>d m. f32_max m d) delays 0)) 0x40000000 in
      if dynamic then f32_max most DYNAMIC_DELAY_CAPACITY else most)"

text \<open>\<open>dynamic\<close> is what the renderer's capabilities say.\<close>

definition delay_requirements_of :: "render_scene \<Rightarrow> engine_config \<Rightarrow> bool
    \<Rightarrow> (delay_requirements, engine_error) outcome" where
  "delay_requirements_of scene config dynamic =
     (case validate_scene_config scene config of
        Err e \<Rightarrow> Err e | Panic \<Rightarrow> Panic
      | Ok _ \<Rightarrow>
      (case ordered_speakers scene of
        Err e \<Rightarrow> Err (EngineScene e) | Panic \<Rightarrow> Panic
      | Ok speakers \<Rightarrow>
          let delays = initial_delays config (engine_geometric_delays speakers (rs_listener scene)
                (ec_sample_rate config) (ec_speed_of_sound config)) in
          Ok \<lparr>rq_channel_count = length speakers,
              rq_max_delay_samples = required_delay (ec_apply_geometric_delay config \<or> dynamic) delays\<rparr>))"

definition validate_delay_processor :: "'p delay_trait \<Rightarrow> nat \<Rightarrow> f32 \<Rightarrow> f32 list \<Rightarrow> 'p
    \<Rightarrow> (unit, engine_error) outcome \<times> 'p" where
  "validate_delay_processor P channels most delays p =
     (let actual = dt_channel_count P p; capacity = dt_max_delay_samples P p in
      if actual \<noteq> channels then (Err (PreparedDsp (DspChannels channels actual)), p)
      else if \<not> f32_is_finite capacity \<or> f32_less capacity most
      then (Err (PreparedDsp (DelayCapacity most capacity)), p)
      else apfst (map_err (\<lambda>f. PreparedDsp (from_initial_fault f))) (dt_set_delays P delays p))"

text \<open>\<open>None\<close> is a panic: a block too long for a \<open>Duration\<close>, or latencies that overflow.\<close>

definition make_metrics :: "engine_config \<Rightarrow> usize \<Rightarrow> usize \<Rightarrow> usize \<Rightarrow> real_time_metrics option" where
  "make_metrics config renderer dsp device =
     (case from_secs_f64 (f64_div (f64_of_nat (unat (ec_block_size config)))
             (f64_of_nat (unat (ec_sample_rate config)))) of
        None \<Rightarrow> None
      | Some budget \<Rightarrow>
          (case checked_add renderer dsp of None \<Rightarrow> None
           | Some s \<Rightarrow>
               (case checked_add s device of None \<Rightarrow> None
                | Some latency \<Rightarrow> Some (metrics_default
                    \<lparr>mt_renderer_latency_frames := renderer, mt_dsp_latency_frames := dsp,
                     mt_estimated_device_latency_frames := device,
                     mt_estimated_end_to_end_latency_frames := latency,
                     mt_block_duration_budget := budget\<rparr>))))"

definition engine_db_to_gain :: "math \<Rightarrow> f32 \<Rightarrow> f32" where
  "engine_db_to_gain M db = m_powf M 0x41200000 (f32_div db 0x41A00000)"

text \<open>The engine both constructors end with.\<close>

definition engine_start :: "math \<Rightarrow> render_scene \<Rightarrow> engine_config \<Rightarrow> 'r option \<Rightarrow> 'q option \<Rightarrow> bool
    \<Rightarrow> speaker list \<Rightarrow> f32 list \<Rightarrow> 'p \<Rightarrow> real_time_metrics \<Rightarrow> ('r, 'q, 'p) engine" where
  "engine_start M scene config r q dynamic speakers scratch p metrics =
     (let c = length speakers; bs = unat (ec_block_size config) in
      \<lparr>en_config = config, en_renderer = r, en_pcm_renderer = q, en_dynamic_delays = dynamic,
       en_listener = rs_listener scene, en_trajectory = rs_trajectory scene,
       en_object_gain = engine_db_to_gain M (so_gain_db (rs_object scene)),
       en_output_roles = map sp_channel_role speakers, en_mono = replicate bs 0,
       en_planar = replicate c (replicate bs 0), en_delayed = replicate c (replicate bs 0),
       en_gains = replicate c speaker_gain_default, en_delays_scratch = replicate c 0,
       en_renderer_scratch = scratch, en_delay_processor = p, en_metrics = metrics,
       en_frame_cursor = 0, en_phase = 0, en_noise_state = 0x1234ABCD, en_noise_filter_state = 0,
       en_impulse_emitted = False,
       en_delay_reports = engine_geometric_delays speakers (rs_listener scene) (ec_sample_rate config)
         (ec_speed_of_sound config)\<rparr>)"

text \<open>
  \<open>vec![0.0; block_size]\<close> panics when its bytes exceed \<open>isize::MAX\<close>.
\<close>

definition build_gain :: "math \<Rightarrow> 'r renderer \<Rightarrow> 'p delay_trait \<Rightarrow> render_scene \<Rightarrow> engine_config \<Rightarrow> usize
    \<Rightarrow> 'r \<Rightarrow> 'p \<Rightarrow> (('r, 'q, 'p) engine, engine_error) outcome" where
  "build_gain M R P scene config device r p =
     (case validate_scene_config scene config of
        Err e \<Rightarrow> Err e | Panic \<Rightarrow> Panic
      | Ok _ \<Rightarrow>
      (case ordered_speakers scene of
        Err e \<Rightarrow> Err (EngineScene e) | Panic \<Rightarrow> Panic
      | Ok speakers \<Rightarrow>
      (let c = length speakers; actual = unat (rd_output_channel_count R r) in
       if actual \<noteq> c then Err (PreparedRenderer (RendererChannels c actual))
       else case rd_required_scratch_size R r of
         Err e \<Rightarrow> Err (PreparedRenderer (RendererContract e)) | Panic \<Rightarrow> Panic
       | Ok floats \<Rightarrow>
       (let delays = initial_delays config (engine_geometric_delays speakers (rs_listener scene)
              (ec_sample_rate config) (ec_speed_of_sound config));
            dynamic = rd_dynamic_delay_values R r;
            most = required_delay (ec_apply_geometric_delay config \<or> dynamic) delays in
        case validate_delay_processor P c most delays p of
          (Err e, _) \<Rightarrow> Err e | (Panic, _) \<Rightarrow> Panic
        | (Ok _, p') \<Rightarrow>
            (case make_metrics config (rd_latency_frames R r) (of_nat (dt_latency_frames P p')) device of
               None \<Rightarrow> Panic
             | Some metrics \<Rightarrow>
                 if 2 ^ 61 \<le> unat (ec_block_size config) then Panic
                 else Ok (engine_start M scene config (Some r) None dynamic speakers (scratch_new floats) p' metrics))))))"

definition build_pcm :: "math \<Rightarrow> 'q pcm_renderer \<Rightarrow> 'p delay_trait \<Rightarrow> render_scene \<Rightarrow> engine_config \<Rightarrow> usize
    \<Rightarrow> 'q \<Rightarrow> 'p \<Rightarrow> (('r, 'q, 'p) engine, engine_error) outcome" where
  "build_pcm M Q P scene config device q p =
     (case validate_scene_config scene config of
        Err e \<Rightarrow> Err e | Panic \<Rightarrow> Panic
      | Ok _ \<Rightarrow>
      (case ordered_speakers scene of
        Err e \<Rightarrow> Err (EngineScene e) | Panic \<Rightarrow> Panic
      | Ok speakers \<Rightarrow>
      (let c = length speakers; actual = unat (pr_output_channel_count Q q) in
       if actual \<noteq> c then Err (PreparedPcmRenderer c actual)
       else
       (let delays = initial_delays config (engine_geometric_delays speakers (rs_listener scene)
              (ec_sample_rate config) (ec_speed_of_sound config));
            most = required_delay (ec_apply_geometric_delay config) delays in
        case validate_delay_processor P c most delays p of
          (Err e, _) \<Rightarrow> Err e | (Panic, _) \<Rightarrow> Panic
        | (Ok _, p') \<Rightarrow>
            (case make_metrics config (pr_latency_frames Q q) (of_nat (dt_latency_frames P p')) device of
               None \<Rightarrow> Panic
             | Some metrics \<Rightarrow>
                 if 2 ^ 61 \<le> unat (ec_block_size config) then Panic
                 else Ok (engine_start M scene config None (Some q) False speakers [] p' metrics))))))"

section \<open>The sources\<close>

text \<open>Live input is the mean of the input channels of each frame.\<close>

fun mono_fill :: "nat \<Rightarrow> nat \<Rightarrow> f32 list \<Rightarrow> f32 list \<Rightarrow> f32 list" where
  "mono_fill channels (Suc k) (m # ms) input =
     (if length input < channels then m # ms
      else f32_div (fold (\<lambda>x s. f32_add s x) (take channels input) 0) (f32_of_nat channels)
        # mono_fill channels k ms (drop channels input))"
| "mono_fill channels k ms input = ms"

fun sine_fill :: "math \<Rightarrow> f32 \<Rightarrow> nat \<Rightarrow> f32 list \<Rightarrow> f32 \<Rightarrow> f32 list \<times> f32" where
  "sine_fill M increment (Suc k) (m # ms) phase =
     (let (ms', phase') = sine_fill M increment k ms (f32_rem (f32_add phase increment) TAU_f32) in
      (f32_mul (m_sin M phase) 0x3E4CCCCD # ms', phase'))"
| "sine_fill M increment k ms phase = (ms, phase)"

fun noise_fill :: "nat \<Rightarrow> f32 list \<Rightarrow> u32 \<Rightarrow> f32 \<Rightarrow> f32 list \<times> u32 \<times> f32" where
  "noise_fill (Suc k) (m # ms) state filtered =
     (let state' = state * 1664525 + 1013904223;
          white = f32_sub (f32_mul (f32_div (f32_of_nat (unat (drop_bit 8 state'))) 0x4B800000) 0x40000000) 0x3F800000;
          filtered' = f32_add (f32_mul filtered 0x3F7AE148) (f32_mul white 0x3CA3D70A);
          (ms', s, f) = noise_fill k ms state' filtered' in
      (f32_mul filtered' 0x3E4CCCCD # ms', s, f))"
| "noise_fill k ms state filtered = (ms, state, filtered)"

definition zero_prefix :: "nat \<Rightarrow> f32 list \<Rightarrow> f32 list" where
  "zero_prefix k xs = replicate (min k (length xs)) 0 @ drop k xs"

definition fill_mono :: "math \<Rightarrow> f32 list option \<Rightarrow> nat \<Rightarrow> ('r, 'q, 'p) engine
    \<Rightarrow> (unit, real_time_fault) outcome \<times> ('r, 'q, 'p) engine" where
  "fill_mono M input frames e =
     (case ec_test_signal (en_config e) of
        NoSignal \<Rightarrow>
          (case input of
             None \<Rightarrow> (Err RtInputBuffer, e)
           | Some samples \<Rightarrow>
               let channels = unat (ec_input_channels (en_config e)) in
               if length samples < min (frames * channels) (2 ^ 64 - 1) \<or> channels = 0
               then (Err RtInputBuffer, e)
               else (Ok (), e\<lparr>en_mono := mono_fill channels frames (en_mono e) samples\<rparr>))
      | PinkNoise \<Rightarrow>
          (let (ms, state, filtered) = noise_fill frames (en_mono e) (en_noise_state e) (en_noise_filter_state e) in
           (Ok (), e\<lparr>en_mono := ms, en_noise_state := state, en_noise_filter_state := filtered\<rparr>))
      | Impulse \<Rightarrow>
          (let ms = zero_prefix frames (en_mono e) in
           if en_impulse_emitted e then (Ok (), e\<lparr>en_mono := ms\<rparr>)
           else case ms of
             [] \<Rightarrow> (Ok (), e\<lparr>en_mono := ms\<rparr>)
           | _ # rest \<Rightarrow> (Ok (), e\<lparr>en_mono := 0x3F800000 # rest, en_impulse_emitted := True\<rparr>))
      | Silence \<Rightarrow> (Ok (), e\<lparr>en_mono := zero_prefix frames (en_mono e)\<rparr>)
      | _ \<Rightarrow>
          (let increment = f32_div (f32_mul TAU_f32 0x43DC0000) (f32_of_nat (unat (ec_sample_rate (en_config e))));
               (ms, phase) = sine_fill M increment frames (en_mono e) (en_phase e) in
           (Ok (), e\<lparr>en_mono := ms, en_phase := phase\<rparr>)))"

section \<open>The block\<close>

definition rotating_position :: "math \<Rightarrow> f64 \<Rightarrow> vector3" where
  "rotating_position M t =
     (let angle = f32_mul (f32_mul (f32_of_f64 t) TAU_f32) 0x3E800000 in
      vector3_new (m_cos M angle) (m_sin M angle) 0)"

text \<open>The object at the middle of a block that starts at the frame cursor.\<close>

definition block_object :: "math \<Rightarrow> nat \<Rightarrow> ('r, 'q, 'p) engine \<Rightarrow> render_object" where
  "block_object M frames e =
     (let midpoint = saturating_add (en_frame_cursor e) (of_nat frames div 2);
          t = f64_div (f64_of_nat (unat midpoint)) (f64_of_nat (unat (ec_sample_rate (en_config e)))) in
      \<lparr>ro_position = (if ec_test_signal (en_config e) = RotatingSine then rotating_position M t
                      else position_at_time M (en_trajectory e) t),
       ro_gain = en_object_gain e\<rparr>)"

definition scale_channel :: "nat \<Rightarrow> f32 list \<Rightarrow> f32 list \<Rightarrow> f32 \<Rightarrow> f32 list" where
  "scale_channel frames source channel g =
     (let k = min frames (min (length channel) (length source)) in
      map (\<lambda>x. f32_mul x g) (take k source) @ drop k channel)"

fun scale_channels :: "nat \<Rightarrow> f32 list \<Rightarrow> f32 list list \<Rightarrow> speaker_gain list \<Rightarrow> f32 list list" where
  "scale_channels frames source (ch # chs) (g # gs) =
     scale_channel frames source ch (sg_gain g) # scale_channels frames source chs gs"
| "scale_channels frames source chs gs = chs"

definition render_planar :: "math \<Rightarrow> 'r renderer \<Rightarrow> 'q pcm_renderer \<Rightarrow> 'p delay_trait \<Rightarrow> nat \<Rightarrow> ('r, 'q, 'p) engine
    \<Rightarrow> (unit, real_time_fault) outcome \<times> ('r, 'q, 'p) engine" where
  "render_planar M R Q P frames e =
     (let object = block_object M frames e;
          e1 = e\<lparr>en_planar := map (zero_prefix frames) (en_planar e)\<rparr> in
      case en_pcm_renderer e1 of
        Some q \<Rightarrow>
          if length (en_mono e1) < frames then (Panic, e1)
          else (case pr_render_pcm Q (en_listener e1)
                  [\<lparr>op_object = object, op_samples = take frames (en_mono e1)\<rparr>] (en_planar e1) q of
             (res, planar, q') \<Rightarrow>
               (map_err (\<lambda>_. RtRenderer) res, e1\<lparr>en_planar := planar, en_pcm_renderer := Some q'\<rparr>))
      | None \<Rightarrow>
      (case en_renderer e1 of
         None \<Rightarrow> (Err RtRenderer, e1)
       | Some r \<Rightarrow>
       (case rd_render_gains R (en_listener e1) [object] (en_gains e1) (en_renderer_scratch e1) r of
          (res, gains, scratch, r') \<Rightarrow>
            (let e2 = e1\<lparr>en_gains := gains, en_renderer_scratch := scratch, en_renderer := Some r'\<rparr> in
             case res of
               Err _ \<Rightarrow> (Err RtRenderer, e2)
             | Panic \<Rightarrow> (Panic, e2)
             | Ok _ \<Rightarrow>
             (case (if ec_apply_geometric_delay (en_config e2) \<or> en_dynamic_delays e2
                    then if length (en_delays_scratch e2) < length gains then (Panic, e2)
                      else
                        let ds = map sg_delay_samples gains @ drop (length gains) (en_delays_scratch e2);
                            (accepted, p) = dt_set_delays P ds (en_delay_processor e2) in
                        (map_err (\<lambda>_. RtDsp) accepted, e2\<lparr>en_delays_scratch := ds, en_delay_processor := p\<rparr>)
                    else (Ok (), e2)) of
                (Err f, e3) \<Rightarrow> (Err f, e3)
              | (Panic, e3) \<Rightarrow> (Panic, e3)
              | (Ok _, e3) \<Rightarrow>
                  (Ok (), e3\<lparr>en_planar := scale_channels frames (en_mono e3) (en_planar e3) (en_gains e3)\<rparr>))))))"

text \<open>
  Interleaving.  The inner \<open>get\<close> always succeeds, since all channels are long enough.
\<close>

definition interleaved :: "f32 list list \<Rightarrow> nat \<Rightarrow> f32 list" where
  "interleaved channels frames = concat (map (\<lambda>f. map (\<lambda>ch. ch ! f) channels) [0..<frames])"

definition interleave :: "f32 list list \<Rightarrow> nat \<Rightarrow> f32 list \<Rightarrow> bool \<times> f32 list" where
  "interleave channels frames out =
     (if channels = [] \<or> length out \<noteq> min (frames * length channels) (2 ^ 64 - 1) then (False, out)
      else if list_ex (\<lambda>ch. length ch < frames) channels then (False, out)
      else (True, interleaved channels (length out div length channels)
              @ drop (length out div length channels * length channels) out))"

definition process_inner :: "math \<Rightarrow> 'r renderer \<Rightarrow> 'q pcm_renderer \<Rightarrow> 'p delay_trait \<Rightarrow> f32 list option
    \<Rightarrow> f32 list \<Rightarrow> ('r, 'q, 'p) engine \<Rightarrow> (unit, real_time_fault) outcome \<times> f32 list \<times> ('r, 'q, 'p) engine" where
  "process_inner M R Q P input out e =
     (let c = length (en_output_roles e) in
      if c = 0 \<or> length out mod c \<noteq> 0 then (Err RtOutputBuffer, out, e)
      else
        let frames = length out div c; bs = unat (ec_block_size (en_config e)) in
        if frames = 0 \<or> bs < frames then (Err RtOutputBuffer, out, e)
        else if en_pcm_renderer e \<noteq> None \<and> frames \<noteq> bs then (Err RtOutputBuffer, out, e)
        else case fill_mono M input frames e of
          (Err f, e1) \<Rightarrow> (Err f, out, e1) | (Panic, e1) \<Rightarrow> (Panic, out, e1)
        | (Ok _, e1) \<Rightarrow>
        (case render_planar M R Q P frames e1 of
          (Err f, e2) \<Rightarrow> (Err f, out, e2) | (Panic, e2) \<Rightarrow> (Panic, out, e2)
        | (Ok _, e2) \<Rightarrow>
        (case dt_process_planar P (en_planar e2) (en_delayed e2) frames (en_delay_processor e2) of
          (res, outs, p) \<Rightarrow>
            (let e3 = e2\<lparr>en_delayed := outs, en_delay_processor := p\<rparr> in
             case res of
               Err _ \<Rightarrow> (Err RtDsp, out, e3) | Panic \<Rightarrow> (Panic, out, e3)
             | Ok _ \<Rightarrow>
                 (case interleave outs frames out of
                    (False, out') \<Rightarrow> (Err RtOutputBuffer, out', e3)
                  | (True, out') \<Rightarrow>
                      (Ok (), out',
                       e3\<lparr>en_frame_cursor := saturating_add (en_frame_cursor e3) (of_nat frames)\<rparr>))))))"

section \<open>The callback\<close>

text \<open>
  The chunks of the output, with the input offset; slicing the input beyond its end panics.
\<close>

function run_chunks :: "math \<Rightarrow> 'r renderer \<Rightarrow> 'q pcm_renderer \<Rightarrow> 'p delay_trait \<Rightarrow> nat \<Rightarrow> f32 list option
    \<Rightarrow> nat \<Rightarrow> f32 list \<Rightarrow> ('r, 'q, 'p) engine \<Rightarrow> (unit, real_time_fault) outcome \<times> f32 list \<times> ('r, 'q, 'p) engine" where
  "run_chunks M R Q P n input offset out e =
     (if out = [] \<or> n = 0 then (Ok (), out, e)
      else
        let chunk = take n out; rest = drop n out;
            uses_input = (ec_test_signal (en_config e) = NoSignal);
            count = length chunk div length (en_output_roles e) * unat (ec_input_channels (en_config e)) in
        if uses_input \<and> is_some_and (\<lambda>samples. length samples < offset + count) input
        then (Panic, out, e)
        else
          let block = (if uses_input then map_option (\<lambda>samples. take count (drop offset samples)) input else input) in
          case process_inner M R Q P block chunk e of
            (Err f, chunk', e1) \<Rightarrow> (Err f, chunk' @ rest, e1)
          | (Panic, chunk', e1) \<Rightarrow> (Panic, chunk' @ rest, e1)
          | (Ok _, chunk', e1) \<Rightarrow>
              (case run_chunks M R Q P n input (if uses_input then offset + count else offset) rest
                  (e1\<lparr>en_metrics := (en_metrics e1)
                     \<lparr>mt_processed_blocks := saturating_add (mt_processed_blocks (en_metrics e1)) 1\<rparr>\<rparr>) of
                 (res, rest', e2) \<Rightarrow> (res, chunk' @ rest', e2)))"
  by pat_completeness auto
termination
  by (relation "measure (\<lambda>(M, R, Q, P, n, input, offset, out, e). length out)") auto

declare run_chunks.simps [simp del]

definition shape_valid :: "f32 list \<Rightarrow> ('r, 'q, 'p) engine \<Rightarrow> bool" where
  "shape_valid out e \<longleftrightarrow>
     (let c = length (en_output_roles e); n = min (unat (ec_block_size (en_config e)) * c) (2 ^ 64 - 1) in
      0 < c \<and> 0 < n \<and> length out mod c = 0 \<and> out \<noteq> [] \<and> (en_pcm_renderer e = None \<or> length out mod n = 0))"

definition input_valid :: "f32 list option \<Rightarrow> f32 list \<Rightarrow> ('r, 'q, 'p) engine \<Rightarrow> bool" where
  "input_valid input out e \<longleftrightarrow> ec_test_signal (en_config e) \<noteq> NoSignal
     \<or> (shape_valid out e \<and> ec_input_channels (en_config e) \<noteq> 0
        \<and> (let required = length out div length (en_output_roles e) * unat (ec_input_channels (en_config e)) in
           required < 2 ^ 64 \<and> is_some_and (\<lambda>samples. required \<le> length samples) input))"

definition count_fault :: "real_time_fault \<Rightarrow> real_time_metrics \<Rightarrow> real_time_metrics" where
  "count_fault f m =
     (let m1 = m\<lparr>mt_dropped_blocks := saturating_add (mt_dropped_blocks m) 1, mt_fault := f\<rparr>;
          m2 = (if f = RtOutputBuffer
                then m1\<lparr>mt_output_underruns := saturating_add (mt_output_underruns m1) 1\<rparr> else m1) in
      if f = RtInputBuffer then m2\<lparr>mt_input_underruns := saturating_add (mt_input_underruns m2) 1\<rparr> else m2)"

text \<open>\<open>elapsed\<close> is the time the clock measures over the call.\<close>

definition process_interleaved :: "math \<Rightarrow> 'r renderer \<Rightarrow> 'q pcm_renderer \<Rightarrow> 'p delay_trait \<Rightarrow> nat
    \<Rightarrow> f32 list option \<Rightarrow> f32 list \<Rightarrow> ('r, 'q, 'p) engine
    \<Rightarrow> (process_status, real_time_fault) outcome \<times> f32 list \<times> ('r, 'q, 'p) engine" where
  "process_interleaved M R Q P elapsed input out e =
     (let e0 = e\<lparr>en_metrics := (en_metrics e)
            \<lparr>mt_callback_count := saturating_add (mt_callback_count (en_metrics e)) 1\<rparr>\<rparr>;
          n = min (unat (ec_block_size (en_config e)) * length (en_output_roles e)) (2 ^ 64 - 1);
          (res, out1, e1) =
            (if \<not> shape_valid out e0 then (Err RtOutputBuffer, out, e0)
             else if \<not> input_valid input out e0 then (Err RtInputBuffer, out, e0)
             else run_chunks M R Q P n input 0 out e0) in
      case res of
        Panic \<Rightarrow> (Panic, out1, e1)
      | _ \<Rightarrow>
          let (status, out2, m) = (case res of
                Err f \<Rightarrow> (ProcessFault f, replicate (length out1) 0, count_fault f (en_metrics e1))
              | _ \<Rightarrow> (ProcessOk, out1, en_metrics e1)) in
          case record_timing elapsed m of
            None \<Rightarrow> (Panic, out2, e1\<lparr>en_metrics := m\<rparr>)
          | Some m' \<Rightarrow> (Ok status, out2, e1\<lparr>en_metrics := m'\<rparr>))"

definition buffer_capacities :: "('r, 'q, 'p) engine \<Rightarrow> nat \<times> nat \<times> nat \<times> nat \<times> nat" where
  "buffer_capacities e = (length (en_mono e), sum_list (map length (en_planar e)),
     sum_list (map length (en_delayed e)), length (en_gains e), length (en_renderer_scratch e))"

end
