(* ===== verification/Float_Order.thy ===== *)
theory Float_Order
  imports Ieee_Float
begin

text \<open>
  Rounding is monotone and depends on the ratio alone; the float operations inherit both.
\<close>

section \<open>Rounding magnitudes\<close>

lemma round_half_even_tie:
  assumes "0 < b" and "\<bar>real (round_half_even a b) - real a / real b\<bar> = 1 / 2"
  shows "even (round_half_even a b)"
proof -
  define q r where "q = a div b" and "r = a mod b"
  have qr: "a = q * b + r" "r < b" using assms(1) by (simp_all add: q_def r_def)
  have v: "real a / real b = real q + real r / real b"
    using assms(1) by (simp add: qr(1) add_divide_distrib)
  have R: "round_half_even a b = (if b < 2 * r \<or> (b = 2 * r \<and> odd q) then q + 1 else q)"
    by (simp add: round_half_even_def q_def [symmetric] r_def [symmetric])
  have "real r / real b = 1 / 2"
  proof (cases "b < 2 * r \<or> (b = 2 * r \<and> odd q)")
    case True
    then have "\<bar>1 - real r / real b\<bar> = 1 / 2" using assms(2) by (simp add: R v)
    moreover have "real r / real b \<le> 1" using qr(2) assms(1) by simp
    ultimately show ?thesis by linarith
  next
    case False
    then have "\<bar>real r / real b\<bar> = 1 / 2" using assms(2) by (auto simp: R v)
    then show ?thesis by simp
  qed
  then have "real b = real (2 * r)" using assms(1) by (simp add: field_simps)
  then have "b = 2 * r" by (simp only: of_nat_eq_iff)
  then have "round_half_even a b = (if odd q then q + 1 else q)" unfolding R by auto
  then show ?thesis by simp
qed

lemma round_half_even_mono:
  assumes "0 < b" "0 < b'" "real a / real b \<le> real a' / real b'"
  shows "round_half_even a b \<le> round_half_even a' b'"
proof (rule ccontr)
  let ?m = "round_half_even a b" and ?n = "round_half_even a' b'"
  assume "\<not> ?m \<le> ?n"
  then have gt: "real ?n + 1 \<le> real ?m" by linarith
  note near = round_half_even_near [OF assms(1), of a] round_half_even_near [OF assms(2), of a']
  have "\<bar>real ?m - real a / real b\<bar> = 1 / 2" "\<bar>real ?n - real a' / real b'\<bar> = 1 / 2" "real ?m = real ?n + 1"
    using near gt assms(3) by linarith+
  then have "even ?m" "even ?n" "?m = ?n + 1"
    using round_half_even_tie assms(1,2) by (blast, blast, linarith)
  then show False by simp
qed

lemma ratio_log_mono:
  assumes "0 < a" "0 < b" "0 < b'" "real a / real b \<le> real a' / real b'"
  shows "ratio_log a b \<le> ratio_log a' b'"
proof -
  have a': "0 < a'" using assms by (cases a') (simp_all add: divide_le_eq zero_less_divide_iff not_less)
  have "(2 :: real) powi ratio_log a b < 2 powi (ratio_log a' b' + 1)"
    using ratio_log_bounds(1) [OF assms(1,2)] ratio_log_bounds(2) [OF a' assms(3)] assms(4) by linarith
  then have "ratio_log a b < ratio_log a' b' + 1" by (metis power_int_increasing not_le one_le_numeral)
  then show ?thesis by simp
qed

text \<open>The significand of a rounded ratio.\<close>

lemma rounded_significand:
  assumes "0 < a" "0 < b" and e_def: "e = round_exponent p w a b"
    and m_def: "m = round_half_even (a * 2 ^ nat (- e)) (b * 2 ^ nat e)"
  shows "m \<le> 2 ^ (p + 1)" "e \<noteq> exponent_floor p w \<Longrightarrow> 2 ^ p \<le> m" "exponent_floor p w \<le> e"
proof -
  define v where "v = real a / real b"
  have fl: "exponent_floor p w \<le> e" and rl: "ratio_log a b - int p \<le> e"
    by (simp_all add: e_def round_exponent_def)
  then show "exponent_floor p w \<le> e" by simp
  have near: "\<bar>real m - v * 2 powi (- e)\<bar> \<le> 1 / 2"
    using round_half_even_near [of "b * 2 ^ nat e" "a * 2 ^ nat (- e)"] assms(2)
    unfolding m_def v_def shift_ratio [OF assms(2)] by simp
  note lb = ratio_log_bounds [OF assms(1,2), folded v_def]
  have "v * 2 powi (- e) < 2 powi (ratio_log a b + 1) * 2 powi (- e)"
    using lb(2) by (intro mult_strict_right_mono) simp_all
  also have "\<dots> = 2 powi (ratio_log a b + 1 - e)" by (simp add: power_int_add [symmetric])
  also have "\<dots> \<le> 2 powi int (p + 1)" using rl by (intro power_int_increasing) simp_all
  finally have "v * 2 powi (- e) < 2 ^ (p + 1)" unfolding power_int_of_nat .
  then have "real m < real (2 ^ (p + 1) + 1)" using near by (simp only: of_nat_add of_nat_power of_nat_numeral of_nat_1)
  then show "m \<le> 2 ^ (p + 1)" unfolding of_nat_less_iff by simp
  assume "e \<noteq> exponent_floor p w"
  then have "e = ratio_log a b - int p" using fl by (simp add: e_def round_exponent_def)
  then have "2 powi int p = 2 powi ratio_log a b * (2 powi (- e) :: real)"
    by (simp add: power_int_add [symmetric])
  also have "\<dots> \<le> v * 2 powi (- e)" using lb(1) by (intro mult_right_mono) simp_all
  finally have "2 ^ p \<le> v * 2 powi (- e)" unfolding power_int_of_nat .
  then have "real (2 ^ p) < real (m + 1)"
    using near unfolding of_nat_power of_nat_add of_nat_numeral of_nat_1 by linarith
  then show "2 ^ p \<le> m" unfolding of_nat_less_iff by simp
qed

theorem round_magnitude_mono:
  assumes "0 < b" "0 < b'" "real a / real b \<le> real a' / real b'"
  shows "round_magnitude p w a b \<le> round_magnitude p w a' b'"
proof (cases "a = 0")
  case False
  then have a: "0 < a" by simp
  then have a': "0 < a'" using assms by (cases a') (simp_all add: divide_le_eq zero_less_divide_iff not_less)
  define e e' where "e = round_exponent p w a b" and "e' = round_exponent p w a' b'"
  define m m' where "m = round_half_even (a * 2 ^ nat (- e)) (b * 2 ^ nat e)"
    and "m' = round_half_even (a' * 2 ^ nat (- e')) (b' * 2 ^ nat e')"
  note s = rounded_significand [OF a assms(1) e_def m_def]
  note s' = rounded_significand [OF a' assms(2) e'_def m'_def]
  have le: "e \<le> e'" using ratio_log_mono [OF a assms] by (simp add: e_def e'_def round_exponent_def)
  have "nat (e - exponent_floor p w) * 2 ^ p + m \<le> nat (e' - exponent_floor p w) * 2 ^ p + m'"
  proof (cases "e = e'")
    case True
    have "m \<le> m'" unfolding m_def m'_def True
      by (rule round_half_even_mono)
        (use assms(1,2) mult_right_mono [OF assms(3), of "2 powi (- e')"] in
          \<open>simp_all only: shift_ratio [OF assms(1)] shift_ratio [OF assms(2)]\<close>, simp_all)
    then show ?thesis using True by simp
  next
    case False
    then have lt: "e < e'" using le by simp
    define k where "k = nat (e - exponent_floor p w)"
    have k': "k + 1 \<le> nat (e' - exponent_floor p w)" using lt s(3) by (simp add: k_def)
    have "k * 2 ^ p + m \<le> k * 2 ^ p + 2 * 2 ^ p" using s(1) by simp
    also have "\<dots> = (k + 1) * 2 ^ p + 2 ^ p" by (simp add: algebra_simps)
    also have "\<dots> \<le> nat (e' - exponent_floor p w) * 2 ^ p + m'"
      using k' s'(2) lt s(3) by (intro add_mono mult_right_mono) auto
    finally show ?thesis by (simp add: k_def)
  qed
  then show ?thesis using a a'
    by (simp add: round_magnitude_def Let_def e_def [symmetric] e'_def [symmetric] m_def [symmetric] m'_def [symmetric] min.coboundedI1)
qed (simp add: round_magnitude_def)

corollary round_magnitude_cong:
  assumes "0 < b" "0 < b'" "a * b' = a' * b"
  shows "round_magnitude p w a b = round_magnitude p w a' b'"
proof -
  have "real a * real b' = real a' * real b"
    using assms(3) by (simp only: of_nat_mult [symmetric])
  then have "real a / real b = real a' / real b'" using assms(1,2) by (simp add: frac_eq_eq)
  then show ?thesis using round_magnitude_mono [OF assms(1,2)] round_magnitude_mono [OF assms(2,1)] by (simp add: eq_iff)
qed

corollary round_exact_scale: "0 < b \<Longrightarrow> 0 < k \<Longrightarrow> round_exact p w (ExRat s (a * k) (b * k)) = round_exact p w (ExRat s a b)"
  using round_magnitude_cong [of "b * k" b "a * k" a p w] by simp

lemma round_magnitude_le_infinity: "round_magnitude p w a b \<le> infinity_bits p w"
  by (simp add: round_magnitude_def Let_def)

section \<open>Decoding is monotone\<close>

definition sgn_of :: "bool \<Rightarrow> real" where
  "sgn_of s = (if s then - 1 else 1)"

lemma exact_le_real:
  assumes "0 < b" "0 < b'"
  shows "exact_le (ExRat s a b) (ExRat s' a' b') \<longleftrightarrow> sgn_of s * (real a / real b) \<le> sgn_of s' * (real a' / real b')"
proof -
  have signed: "real_of_int (signed_int r (x * y)) = sgn_of r * real x * real y" for r x y
    by (simp add: signed_int_def sgn_of_def)
  have "exact_le (ExRat s a b) (ExRat s' a' b') \<longleftrightarrow> real_of_int (signed_int s (a * b')) \<le> real_of_int (signed_int s' (a' * b))"
    by (simp only: exact_le.simps of_int_le_iff)
  also have "\<dots> \<longleftrightarrow> sgn_of s * real a * real b' \<le> sgn_of s' * real a' * real b"
    by (simp only: signed)
  also have "\<dots> \<longleftrightarrow> sgn_of s * real a / real b \<le> sgn_of s' * real a' / real b'"
    using assms by (simp add: pos_divide_le_eq pos_le_divide_eq)
  finally show ?thesis by simp
qed

text \<open>The value of a pattern in units of the least exponent.\<close>

definition scaled :: "nat \<Rightarrow> nat \<Rightarrow> nat" where
  "scaled p n = (if n div 2 ^ p = 0 then n mod 2 ^ p else (n mod 2 ^ p + 2 ^ p) * 2 ^ (n div 2 ^ p - 1))"

lemma scaled_mono: "n \<le> m \<Longrightarrow> scaled p n \<le> scaled p m"
proof -
  assume le: "n \<le> m"
  let ?e = "n div 2 ^ p" and ?f = "n mod 2 ^ p" and ?e' = "m div 2 ^ p" and ?f' = "m mod 2 ^ p"
  have e: "?e \<le> ?e'" by (rule div_le_mono [OF le])
  have f: "?f < 2 ^ p" "?f' < 2 ^ p" by simp_all
  show ?thesis
  proof (cases "?e = ?e'")
    case True
    have "n = ?e * 2 ^ p + ?f" "m = ?e * 2 ^ p + ?f'" using True by (metis div_mult_mod_eq)+
    then have "?f \<le> ?f'" using le by linarith
    then show ?thesis using True by (simp add: scaled_def)
  next
    case False
    then obtain k where k: "?e' = Suc k" "?e \<le> k" using e by (cases ?e') auto
    have "scaled p n \<le> 2 ^ p * 2 ^ ?e"
    proof (cases ?e)
      case (Suc j)
      have "(?f + 2 ^ p) * 2 ^ j \<le> (2 ^ p + 2 ^ p) * 2 ^ j" using f(1) by (intro mult_right_mono) simp_all
      then show ?thesis using Suc by (simp add: scaled_def)
    qed (use f in \<open>simp add: scaled_def\<close>)
    also have "\<dots> \<le> 2 ^ p * 2 ^ k" using k(2) by (simp add: power_increasing)
    also have "\<dots> \<le> (?f' + 2 ^ p) * 2 ^ k" by simp
    also have "\<dots> = scaled p m" using k(1) by (simp add: scaled_def)
    finally show ?thesis .
  qed
qed

lemma decoded_real:
  assumes "n < infinity_bits p w"
  shows "\<exists>a b. exact_of (decode_magnitude p w s n) = ExRat s a b \<and> 0 < b
    \<and> real a / real b = real (scaled p n) * 2 powi exponent_floor p w"
proof -
  define k where "k = n div 2 ^ p - 1"
  define m where "m = (if n div 2 ^ p = 0 then n mod 2 ^ p else n mod 2 ^ p + 2 ^ p)"
  let ?e = "exponent_floor p w + int k"
  have dec: "decode_magnitude p w s n = Finite s m ?e"
    using assms by (simp add: decode_magnitude_def Let_def k_def m_def)
  have "real (m * 2 ^ nat ?e) / real (1 * 2 ^ nat (- ?e)) = real m / real 1 * 2 powi ?e"
    using shift_ratio [of 1 m "- ?e"] by (simp add: add.commute)
  also have "\<dots> = real m * 2 ^ k * 2 powi exponent_floor p w"
    by (simp add: power_int_add power_int_of_nat)
  also have "real m * 2 ^ k = real (scaled p n)" by (simp add: m_def k_def scaled_def)
  finally show ?thesis by (simp add: dec)
qed

abbreviation decoded :: "nat \<Rightarrow> nat \<Rightarrow> bool \<Rightarrow> nat \<Rightarrow> exact_value" where
  "decoded p w s n \<equiv> exact_of (decode_magnitude p w s n)"

lemma decoded_infinity: "decoded p w s (infinity_bits p w) = ExInf s"
  by (simp add: decode_magnitude_def)

lemma decoded_mono:
  assumes "n \<le> m" "m \<le> infinity_bits p w"
  shows "exact_le (decoded p w False n) (decoded p w False m)" "exact_le (decoded p w True m) (decoded p w True n)"
proof -
  have *: "exact_le (decoded p w False n) (decoded p w False m) \<and> exact_le (decoded p w True m) (decoded p w True n)"
  proof (cases "m = infinity_bits p w")
    case True
    show ?thesis
    proof (cases "n = infinity_bits p w")
      case False
      then have n: "n < infinity_bits p w" using assms by simp
      from decoded_real [OF n, of False] decoded_real [OF n, of True] True decoded_infinity show ?thesis by auto
    qed (use True decoded_infinity in auto)
  next
    case False
    then have n: "n < infinity_bits p w" and m: "m < infinity_bits p w" using assms by simp_all
    have "real (scaled p n) * 2 powi exponent_floor p w \<le> real (scaled p m) * 2 powi exponent_floor p w"
      using scaled_mono [OF assms(1)] by (intro mult_right_mono) simp_all
    then show ?thesis
      using decoded_real [OF n, of False] decoded_real [OF n, of True] decoded_real [OF m, of False] decoded_real [OF m, of True]
      by (auto simp: exact_le_real sgn_of_def simp del: exact_le.simps)
  qed
  then show "exact_le (decoded p w False n) (decoded p w False m)" "exact_le (decoded p w True m) (decoded p w True n)" by simp_all
qed

lemma decoded_signs:
  assumes "n \<le> infinity_bits p w" "m \<le> infinity_bits p w"
  shows "exact_le (decoded p w True n) (decoded p w False m)"
proof -
  have zero: "exact_le (decoded p w True 0) (decoded p w False 0)"
  proof (cases "infinity_bits p w = 0")
    case False
    then have "0 < infinity_bits p w" by simp
    from decoded_real [OF this, of True] decoded_real [OF this, of False] show ?thesis
      by (auto simp: exact_le_real sgn_of_def scaled_def simp del: exact_le.simps)
  next
    case True
    then show ?thesis by (simp add: decode_magnitude_def)
  qed
  have "exact_le (decoded p w True n) (decoded p w True 0)" "exact_le (decoded p w False 0) (decoded p w False m)"
    using decoded_mono assms by simp_all
  with zero show ?thesis using exact_le_trans by blast
qed

lemma decoded_zeros:
  assumes "0 < w"
  shows "exact_le (decoded p w s 0) (decoded p w s' 0)"
proof -
  have "(1 :: nat) < 2 ^ w" using assms by (rule one_less_power [rotated]) simp
  then have "0 < infinity_bits p w" by (simp add: infinity_bits_def)
  from decoded_real [OF this, of s] decoded_real [OF this, of s'] show ?thesis
    by (auto simp: exact_le_real sgn_of_def scaled_def simp del: exact_le.simps)
qed

lemma decode_signed_bits:
  assumes "n \<le> infinity_bits p w"
  shows "decode_float p w (signed_bits p w s n) = decode_magnitude p w s n"
proof -
  have "infinity_bits p w < 2 ^ (p + w)"
    by (simp add: infinity_bits_def power_add algebra_simps)
  then have "n < 2 ^ (p + w)" using assms by simp
  then show ?thesis by (simp add: decode_float_def signed_bits_def)
qed

theorem rounding_mono:
  assumes "exact_le x y" and w: "0 < w"
    and "\<And>s a b. x = ExRat s a b \<Longrightarrow> 0 < b" "\<And>s a b. y = ExRat s a b \<Longrightarrow> 0 < b"
  shows "exact_le (exact_of (decode_float p w (round_exact p w x))) (exact_of (decode_float p w (round_exact p w y)))"
proof -
  note simps = decode_signed_bits [OF round_magnitude_le_infinity] decode_signed_bits [OF le_refl] decoded_infinity
  have sign: "exact_le (decoded p w True n) (ExInf False)" "exact_le (ExInf True) (decoded p w s n)"
    "exact_le (decoded p w False n) (ExInf False)"
    if "n \<le> infinity_bits p w" for n s
    using decoded_mono [OF that le_refl] decoded_signs [OF that le_refl] decoded_signs [OF le_refl that]
    by (cases s; simp add: decoded_infinity)+
  show ?thesis
  proof (cases x)
    case x: (ExRat s a b)
    show ?thesis
    proof (cases y)
      case y: (ExRat s' a' b')
      have b: "0 < b" "0 < b'" using assms(3,4) x y by blast+
      have le: "sgn_of s * (real a / real b) \<le> sgn_of s' * (real a' / real b')"
        using assms(1) unfolding x y exact_le_real [OF b] .
      show ?thesis
      proof (cases s)
        case True
        show ?thesis
        proof (cases s')
          case s': True
          then have "round_magnitude p w a' b' \<le> round_magnitude p w a b"
            using le True by (intro round_magnitude_mono b) (simp add: sgn_of_def)
          then show ?thesis using decoded_mono round_magnitude_le_infinity
            by (simp add: x y simps True s')
        next
          case False
          then show ?thesis using decoded_signs round_magnitude_le_infinity by (simp add: x y simps True)
        qed
      next
        case False
        show ?thesis
        proof (cases s')
          case True
          have "0 \<le> real a / real b" "0 \<le> real a' / real b'" by simp_all
          moreover have "real a / real b \<le> - (real a' / real b')" using le False True by (simp add: sgn_of_def)
          ultimately have "real a / real b = 0" "real a' / real b' = 0" by linarith+
          then have "a = 0" "a' = 0" using b by simp_all
          then show ?thesis using False True decoded_zeros [OF w] decode_signed_bits [of 0 p w] by (simp add: x y round_magnitude_def)
        next
          case s': False
          then have "round_magnitude p w a b \<le> round_magnitude p w a' b'"
            using le False by (intro round_magnitude_mono b) (simp add: sgn_of_def)
          then show ?thesis using decoded_mono round_magnitude_le_infinity
            by (simp add: x y simps False s')
        qed
      qed
    qed (use assms(1) sign round_magnitude_le_infinity in \<open>cases s; auto simp: x simps\<close>)+
  qed (use assms(1) sign round_magnitude_le_infinity in \<open>cases y; auto simp: simps\<close>)+
qed

section \<open>Representable numbers are not rounded\<close>

lemma round_half_even_integer: "0 < b \<Longrightarrow> round_half_even (m * b) b = m"
  by (simp add: round_half_even_def)

lemma round_magnitude_exact:
  assumes n: "n < infinity_bits p w" and b: "0 < b"
    and v: "real a / real b = real (scaled p n) * 2 powi exponent_floor p w"
  shows "round_magnitude p w a b = n"
proof (cases "a = 0")
  case True
  then have "scaled p n = 0" using v by simp
  then have "n div 2 ^ p = 0" "n mod 2 ^ p = 0" by (auto simp: scaled_def split: if_splits)
  then have "n = 0" by (metis div_mult_mod_eq mult_zero_left add_0)
  then show ?thesis using True by (simp add: round_magnitude_def)
next
  case False
  then have a: "0 < a" by simp
  define k where "k = n div 2 ^ p - 1"
  define m where "m = (if n div 2 ^ p = 0 then n mod 2 ^ p else n mod 2 ^ p + 2 ^ p)"
  have n_eq: "n = k * 2 ^ p + m"
  proof (cases "n div 2 ^ p")
    case (Suc j)
    have "n = n div 2 ^ p * 2 ^ p + n mod 2 ^ p" by (rule div_mult_mod_eq [symmetric])
    then show ?thesis using Suc by (simp add: k_def m_def)
  qed (use div_mult_mod_eq [of n "2 ^ p"] in \<open>simp add: k_def m_def\<close>)
  have m_up: "m < 2 ^ (p + 1)"
  proof -
    have "n mod 2 ^ p < 2 ^ p" by simp
    then show ?thesis by (simp add: m_def del: mod_less_divisor)
  qed
  have m_low: "2 ^ p \<le> m \<or> k = 0 \<and> m < 2 ^ p" by (simp add: m_def k_def)
  let ?e = "exponent_floor p w + int k"
  have "real (scaled p n) = real m * 2 ^ k" by (simp add: scaled_def m_def k_def)
  then have v': "real a / real b = real m * 2 powi ?e"
    unfolding v by (simp add: power_int_add power_int_of_nat)
  note lb = ratio_log_bounds [OF a b]
  have pow: "(2 :: real) powi x < 2 powi y \<Longrightarrow> x < y" for x y
    by (metis power_int_increasing not_le one_le_numeral)
  have e: "round_exponent p w a b = ?e"
  proof (cases "2 ^ p \<le> m")
    case True
    have "real (2 ^ p) \<le> real m" "real m < real (2 ^ (p + 1))"
      using True m_up by (simp_all only: of_nat_le_iff of_nat_less_iff)
    then have m2: "2 powi int p \<le> real m" "real m < 2 powi int (p + 1)"
      unfolding power_int_of_nat by simp_all
    have "2 powi (int p + ?e) \<le> real a / real b"
      unfolding v' using m2(1) by (subst power_int_add) (simp_all add: mult_right_mono)
    moreover have "real a / real b < 2 powi (int (p + 1) + ?e)"
      unfolding v' using m2(2) by (subst power_int_add) (simp_all add: mult_strict_right_mono)
    ultimately have "(2 :: real) powi (int p + ?e) < 2 powi (ratio_log a b + 1)"
      "(2 :: real) powi ratio_log a b < 2 powi (int (p + 1) + ?e)" using lb by linarith+
    then have "int p + ?e < ratio_log a b + 1" "ratio_log a b < int (p + 1) + ?e"
      by (blast intro: pow)+
    then have "ratio_log a b = int p + ?e" by simp
    then show ?thesis by (simp add: round_exponent_def)
  next
    case False
    then have k: "k = 0" and m2: "m < 2 ^ p" using m_low by simp_all
    have "real m < real (2 ^ p)" using m2 by (simp only: of_nat_less_iff)
    then have "real m < 2 powi int p" unfolding power_int_of_nat by simp
    then have "real a / real b < 2 powi (int p + ?e)"
      unfolding v' by (subst power_int_add) (simp_all add: mult_strict_right_mono)
    then have "(2 :: real) powi ratio_log a b < 2 powi (int p + ?e)" using lb(1) by linarith
    then have "ratio_log a b < int p + ?e" by (rule pow)
    then show ?thesis using k by (simp add: round_exponent_def)
  qed
  have "real (a * 2 ^ nat (- ?e)) / real (b * 2 ^ nat ?e) = real m"
    unfolding shift_ratio [OF b] v' by (simp add: power_int_add [symmetric] del: mult_eq_0_iff)
  then have "real (a * 2 ^ nat (- ?e)) = real (m * (b * 2 ^ nat ?e))"
    using b by (simp add: divide_eq_eq)
  then have "a * 2 ^ nat (- ?e) = m * (b * 2 ^ nat ?e)" by (simp only: of_nat_eq_iff)
  then have "round_half_even (a * 2 ^ nat (- ?e)) (b * 2 ^ nat ?e) = m"
    using b by (simp add: round_half_even_integer)
  then show ?thesis using False n e by (simp add: round_magnitude_def Let_def) (simp add: n_eq)
qed

lemma round_exact_decoded:
  assumes "n \<le> infinity_bits p w"
  shows "round_exact p w (decoded p w s n) = signed_bits p w s n"
proof (cases "n = infinity_bits p w")
  case True
  then show ?thesis using decoded_infinity by simp
next
  case False
  then have n: "n < infinity_bits p w" using assms by simp
  from decoded_real [OF this, of s] obtain a b where
    "decoded p w s n = ExRat s a b" "0 < b" "real a / real b = real (scaled p n) * 2 powi exponent_floor p w"
    by blast
  then show ?thesis using round_magnitude_exact [OF n] by simp
qed

section \<open>The two formats\<close>

lemma round_exact_bound:
  assumes "0 < p" "0 < w"
  shows "round_exact p w x < 2 ^ (p + w + 1)"
proof -
  define X Y where "X = (2 :: nat) ^ p" and "Y = (2 :: nat) ^ (p + w)"
  have q: "2 ^ (p - 1) \<le> X" "0 < X" by (simp_all add: X_def power_increasing)
  have "infinity_bits p w + X \<le> Y"
    by (simp add: infinity_bits_def power_add algebra_simps X_def Y_def)
  then have "infinity_bits p w + 2 ^ (p - 1) < 2 * Y" "Y + infinity_bits p w < 2 * Y" "infinity_bits p w < 2 * Y"
    using q by linarith+
  then have inf: "infinity_bits p w + 2 ^ (p - 1) < 2 ^ (p + w + 1)" "2 ^ (p + w) + infinity_bits p w < 2 ^ (p + w + 1)"
    "infinity_bits p w < 2 ^ (p + w + 1)"
    by (simp_all add: Y_def)
  have "signed_bits p w s n < 2 ^ (p + w + 1)" if "n \<le> infinity_bits p w" for s n
    using that inf by (simp add: signed_bits_def)
  then show ?thesis using inf(1) round_magnitude_le_infinity by (cases x) simp_all
qed

lemma f32_exact_of: "f32_exact (f32_of x) = exact_of (decode_float 23 8 (round_exact 23 8 x))"
  using round_exact_bound [of 23 8 x] by (simp add: f32_exact_def f32_value_def f32_of_def unat_of_nat)

lemma f64_exact_of: "f64_exact (f64_of x) = exact_of (decode_float 52 11 (round_exact 52 11 x))"
  using round_exact_bound [of 52 11 x] by (simp add: f64_exact_def f64_value_def f64_of_def unat_of_nat)

text \<open>Operands of a comparison that are not degenerate fractions.\<close>

definition proper :: "exact_value \<Rightarrow> bool" where
  "proper x \<longleftrightarrow> (\<forall>s a b. x = ExRat s a b \<longrightarrow> 0 < b)"

lemma proper_simps [simp]: "proper (ExRat s a b) \<longleftrightarrow> 0 < b" "proper ExNaN" "proper (ExInf s)"
  by (simp_all add: proper_def)

lemma proper_exact_of [simp]: "proper (exact_of v)"
  using exact_of_denominator by (auto simp: proper_def)

lemma proper_f32 [simp]: "proper (f32_exact x)"
  by (simp add: f32_exact_def)

lemma proper_f64 [simp]: "proper (f64_exact x)"
  by (simp add: f64_exact_def)

theorem f32_of_mono: "exact_le x y \<Longrightarrow> proper x \<Longrightarrow> proper y \<Longrightarrow> f32_le (f32_of x) (f32_of y)"
  unfolding f32_le_def f32_exact_of by (rule rounding_mono) (auto simp: proper_def)

theorem f64_of_mono: "exact_le x y \<Longrightarrow> proper x \<Longrightarrow> proper y \<Longrightarrow> f64_le (f64_of x) (f64_of y)"
  unfolding f64_le_def f64_exact_of by (rule rounding_mono) (auto simp: proper_def)

text \<open>Decoding a number and rounding it gives the number back.\<close>

lemma round_decode:
  assumes "exact_of (decode_float p w n) \<noteq> ExNaN" "n < 2 ^ (p + w + 1)"
  shows "round_exact p w (exact_of (decode_float p w n)) = n"
proof -
  let ?m = "n mod 2 ^ (p + w)"
  have le: "?m \<le> infinity_bits p w"
    using assms(1) by (auto simp: decode_float_def decode_magnitude_def Let_def split: if_splits)
  have "signed_bits p w (2 ^ (p + w) \<le> n) ?m = n"
  proof (cases "2 ^ (p + w) \<le> n")
    case True
    then have "n div 2 ^ (p + w) = 1" using assms(2) by (auto intro!: div_nat_eqI)
    then show ?thesis using True div_mult_mod_eq [of n "2 ^ (p + w)"] by (simp add: signed_bits_def)
  qed (simp add: signed_bits_def)
  then show ?thesis using round_exact_decoded [OF le] by (simp add: decode_float_def)
qed

lemma f32_of_exact: "f32_exact x \<noteq> ExNaN \<Longrightarrow> f32_of (f32_exact x) = x"
  using round_decode [of 23 8 "unat x"] unsigned_less [of x, where 'a = nat]
  by (simp add: f32_exact_def f32_value_def f32_of_def)

lemma f64_of_exact: "f64_exact x \<noteq> ExNaN \<Longrightarrow> f64_of (f64_exact x) = x"
  using round_decode [of 52 11 "unat x"] unsigned_less [of x, where 'a = nat]
  by (simp add: f64_exact_def f64_value_def f64_of_def)

section \<open>Bounds\<close>

text \<open>A float between zero and a bound.\<close>

definition upto_f64 :: "real \<Rightarrow> f64 \<Rightarrow> bool" where
  "upto_f64 N x \<longleftrightarrow> (\<exists>m e. f64_value x = Finite False m e \<and> real m * 2 powi e \<le> N)"

lemma finite_ratio:
  "real (m * 2 ^ nat e) / real (2 ^ nat (- e)) = real m * 2 powi e"
  using shift_ratio [of 1 m "- e"] by simp

lemma f64_exact_ratio:
  assumes "f64_exact x = ExRat s a b"
  obtains m e where "f64_value x = Finite s m e" "real a / real b = real m * 2 powi e" "0 < b"
proof (cases "f64_value x")
  case (Finite s' m e)
  then have "s = s'" "a = m * 2 ^ nat e" "b = 2 ^ nat (- e)" using assms by (simp_all add: f64_exact_def)
  then show ?thesis using that Finite finite_ratio by simp
qed (use assms in \<open>simp_all add: f64_exact_def\<close>)

text \<open>A float that is an integer.\<close>

definition integral_f64 :: "f64 \<Rightarrow> nat \<Rightarrow> bool" where
  "integral_f64 c N \<longleftrightarrow> (\<exists>B. f64_exact c = ExRat False (N * B) B)"

lemma integral_le:
  assumes "integral_f64 c N" "0 < b"
  shows "exact_le (ExRat False a b) (f64_exact c) \<longleftrightarrow> real a / real b \<le> real N"
    "exact_le (f64_exact c) (ExRat False a b) \<longleftrightarrow> real N \<le> real a / real b"
    "f64_of (f64_exact c) = c"
proof -
  obtain B where B: "f64_exact c = ExRat False (N * B) B" using assms(1) by (auto simp: integral_f64_def)
  then have pos: "0 < B" using proper_f64 [of c] by simp
  show "exact_le (ExRat False a b) (f64_exact c) \<longleftrightarrow> real a / real b \<le> real N"
    "exact_le (f64_exact c) (ExRat False a b) \<longleftrightarrow> real N \<le> real a / real b"
    unfolding B using pos assms(2) by (simp_all only: exact_le_real) (simp_all add: sgn_of_def)
  show "f64_of (f64_exact c) = c" by (rule f64_of_exact) (simp add: B)
qed

lemma upto_of:
  assumes c: "integral_f64 c N" and "0 < b" "real a / real b \<le> real N"
  shows "upto_f64 (real N) (f64_of (ExRat False a b))"
proof -
  have "exact_le (ExRat False a b) (f64_exact c)"
    using integral_le(1) [OF c assms(2)] assms(3) by blast
  then have le: "f64_le (f64_of (ExRat False a b)) (f64_of (f64_exact c))"
    using assms(2) by (intro f64_of_mono) simp_all
  note same = integral_le(3) [OF c assms(2)]
  have dec: "f64_exact (f64_of (ExRat False a b)) = decoded 52 11 False (round_magnitude 52 11 a b)"
    using decode_signed_bits [OF round_magnitude_le_infinity, of 52 11 False a b] by (simp add: f64_exact_of)
  show ?thesis
  proof (cases "round_magnitude 52 11 a b = infinity_bits 52 11")
    case True
    then have "f64_exact (f64_of (ExRat False a b)) = ExInf False" using dec decoded_infinity by simp
    then show ?thesis using le c unfolding same by (auto simp: f64_le_def integral_f64_def)
  next
    case False
    then have "round_magnitude 52 11 a b < infinity_bits 52 11" using round_magnitude_le_infinity [of 52 11 a b] by simp
    from decoded_real [OF this, of False] obtain a' b' where
      x: "f64_exact (f64_of (ExRat False a b)) = ExRat False a' b'" "0 < b'" using dec by auto
    from f64_exact_ratio [OF x(1)] obtain m e where
      v: "f64_value (f64_of (ExRat False a b)) = Finite False m e" "real a' / real b' = real m * 2 powi e" by blast
    have "real a' / real b' \<le> real N"
      using le integral_le(1) [OF c x(2)] unfolding same by (simp add: f64_le_def x(1))
    then show ?thesis using v by (auto simp: upto_f64_def)
  qed
qed

lemma upto_mul:
  assumes c: "integral_f64 c N" and x: "upto_f64 X x" and y: "upto_f64 Y y" and XY: "X * Y \<le> real N"
  shows "upto_f64 (real N) (f64_mul x y)"
proof -
  obtain m e m' e' where v: "f64_value x = Finite False m e" "f64_value y = Finite False m' e'"
    and le: "real m * 2 powi e \<le> X" "real m' * 2 powi e' \<le> Y"
    using x y by (auto simp: upto_f64_def)
  have "(real m * 2 powi e) * (real m' * 2 powi e') \<le> X * Y"
    using le by (intro mult_mono) (simp_all add: order_trans [OF _ le(1)])
  then have "real (m * m' * 2 ^ nat (e + e')) / real (2 ^ nat (- (e + e'))) \<le> real N"
    unfolding finite_ratio using XY by (simp add: power_int_add ac_simps)
  then show ?thesis unfolding f64_mul_def v exact_mul.simps by (simp add: upto_of [OF c])
qed

lemma upto_div:
  assumes c: "integral_f64 c N" and x: "upto_f64 X x"
    and y: "f64_value y = Finite False m' e'" "Y \<le> real m' * 2 powi e'" "0 < Y" and XY: "X / Y \<le> real N"
  shows "upto_f64 (real N) (f64_div x y)"
proof -
  obtain m e where v: "f64_value x = Finite False m e" and le: "real m * 2 powi e \<le> X"
    using x by (auto simp: upto_f64_def)
  have pos: "0 < real m' * 2 powi e'" using y by linarith
  then have m': "m' \<noteq> 0" by (cases m') simp_all
  have "(real m * 2 powi e) / (real m' * 2 powi e') \<le> X / Y"
    using le y(2,3) by (intro frac_le) (simp_all add: order_trans [OF _ le])
  moreover have "real (m * 2 ^ nat (e - e')) / real (m' * 2 ^ nat (e' - e)) = (real m * 2 powi e) / (real m' * 2 powi e')"
    using shift_ratio [of m' m "e' - e"] m' by (simp add: power_int_diff)
  ultimately have "real (m * 2 ^ nat (e - e')) / real (m' * 2 ^ nat (e' - e)) \<le> real N" using XY by linarith
  then show ?thesis unfolding f64_div_def v y(1) exact_div.simps using m' by (simp add: upto_of [OF c])
qed

lemma upto_add:
  assumes c: "integral_f64 c N" and x: "upto_f64 X x" and y: "upto_f64 Y y" and XY: "X + Y \<le> real N"
  shows "upto_f64 (real N) (f64_add x y)"
proof -
  obtain m e m' e' where v: "f64_value x = Finite False m e" "f64_value y = Finite False m' e'"
    and le: "real m * 2 powi e \<le> X" "real m' * 2 powi e' \<le> Y"
    using x y by (auto simp: upto_f64_def)
  define a b a' b' where "a = m * 2 ^ nat e" and "b = (2 :: nat) ^ nat (- e)" and "a' = m' * 2 ^ nat e'" and "b' = (2 :: nat) ^ nat (- e')"
  have r: "real a / real b \<le> X" "real a' / real b' \<le> Y" "0 < b" "0 < b'"
    using le by (simp_all only: a_def b_def a'_def b'_def finite_ratio) simp_all
  have "real (a * b' + a' * b) / real (b * b') = real a / real b + real a' / real b'"
    using r(3,4) by (simp add: field_simps)
  then have sum: "real (a * b' + a' * b) / real (b * b') \<le> real N" using r(1,2) XY by linarith
  have ex: "f64_exact x = ExRat False a b" "f64_exact y = ExRat False a' b'"
    by (simp_all add: f64_exact_def v a_def b_def a'_def b'_def)
  have nn: "0 \<le> int (a * b') + int (a' * b)" by simp
  have "exact_sum (f64_exact x) (f64_exact y) = (if a * b' + a' * b = 0 then ExRat False 0 1 else ExRat False (a * b' + a' * b) (b * b'))"
    using nn by (simp add: ex signed_int_def Let_def flip: of_nat_mult of_nat_add)
  then show ?thesis unfolding f64_add_def
    using upto_of [OF c, of "b * b'" "a * b' + a' * b"] upto_of [OF c, of 1 0] r sum by simp
qed

lemma upto_of_nat:
  assumes "integral_f64 c N" "n \<le> N"
  shows "upto_f64 (real N) (f64_of_nat n)"
  unfolding f64_of_nat_def using assms(2) by (intro upto_of [OF assms(1)]) simp_all

lemma upto_constants:
  "integral_f64 0x43D0000000000000 (2 ^ 62)"
  "integral_f64 0x43C0000000000000 (2 ^ 61)"
  "integral_f64 0x41D0000000000000 (2 ^ 30)"
  "integral_f64 0x4030000000000000 16"
  "integral_f64 0x4000000000000000 2"
  "integral_f64 0x3FF0000000000000 1"
  by (simp_all add: integral_f64_def float_defs)

end
