(* ===== verification/Engine_Safety.thy ===== *)
theory Engine_Safety
  imports Realtime_Engine Float_Order
begin

text \<open>
  What the audio callback of \<open>Realtime_Engine\<close> guarantees: it never panics, keeps the engine well
  formed, answers every fault with silence, and touches nothing but the metrics when it refuses a
  call.  The proofs rest on the contracts of the renderers and the delay processor alone.
\<close>

section \<open>The invariant\<close>

definition engine_ok :: "('r \<Rightarrow> bool) \<Rightarrow> ('q \<Rightarrow> bool) \<Rightarrow> 'p delay_trait \<Rightarrow> ('p \<Rightarrow> bool) \<Rightarrow> ('r, 'q, 'p) engine \<Rightarrow> bool" where
  "engine_ok ok good P ready e \<longleftrightarrow>
     (let c = length (en_output_roles e); bs = unat (ec_block_size (en_config e)) in
      0 < c \<and> 0 < bs \<and> length (en_mono e) = bs \<and> map length (en_planar e) = replicate c bs
      \<and> map length (en_delayed e) = replicate c bs \<and> length (en_gains e) = c
      \<and> length (en_delays_scratch e) = c
      \<and> (case (en_renderer e, en_pcm_renderer e) of
           (Some r, None) \<Rightarrow> ok r | (None, Some q) \<Rightarrow> good q | _ \<Rightarrow> False)
      \<and> ready (en_delay_processor e) \<and> dt_channel_count P (en_delay_processor e) = c)"

text \<open>What no step of a block changes.\<close>

definition same_setup :: "('r, 'q, 'p) engine \<Rightarrow> ('r, 'q, 'p) engine \<Rightarrow> bool" where
  "same_setup e e' \<longleftrightarrow> en_config e' = en_config e \<and> en_output_roles e' = en_output_roles e
     \<and> en_metrics e' = en_metrics e \<and> (en_pcm_renderer e' = None \<longleftrightarrow> en_pcm_renderer e = None)"

lemma same_setup_refl [simp]: "same_setup e e"
  by (simp add: same_setup_def)

lemma same_setup_trans: "same_setup a b \<Longrightarrow> same_setup b c \<Longrightarrow> same_setup a c"
  by (simp add: same_setup_def)

text \<open>What no callback changes but its metrics; a block counts itself as processed.\<close>

definition same_run :: "('r, 'q, 'p) engine \<Rightarrow> ('r, 'q, 'p) engine \<Rightarrow> bool" where
  "same_run e e' \<longleftrightarrow> en_config e' = en_config e \<and> en_output_roles e' = en_output_roles e
     \<and> (\<exists>x. en_metrics e' = (en_metrics e)\<lparr>mt_processed_blocks := x\<rparr>)
     \<and> (en_pcm_renderer e' = None \<longleftrightarrow> en_pcm_renderer e = None)"

lemma same_run_refl [simp]: "same_run e e"
  by (auto simp: same_run_def intro: exI [of _ "mt_processed_blocks (en_metrics e)"])

lemma same_setup_run: "same_setup e e' \<Longrightarrow> same_run e e'"
  by (auto simp: same_setup_def same_run_def intro: exI [of _ "mt_processed_blocks (en_metrics e)"])

lemma same_run_trans: "same_run a b \<Longrightarrow> same_run b c \<Longrightarrow> same_run a c"
  by (auto simp: same_run_def)

section \<open>Lengths\<close>

lemma chunk_div: "length (take n xs) div c + length (drop n xs) div c \<le> length xs div (c::nat)"
proof (cases "c = 0")
  case False
  have "(length (take n xs) div c + length (drop n xs) div c) * c \<le> length (take n xs) + length (drop n xs)"
    by (simp only: add_mult_distrib) (intro add_mono div_times_less_eq_dividend)
  also have "\<dots> = length xs" by (metis append_take_drop_id length_append)
  finally show ?thesis using False by (simp add: less_eq_div_iff_mult_less_eq)
qed simp

lemma length_mono_fill [simp]: "length (mono_fill c k ms input) = length ms"
  by (induction c k ms input rule: mono_fill.induct) simp_all

lemma length_sine_fill [simp]: "length (fst (sine_fill M i k ms ph)) = length ms"
  by (induction M i k ms ph rule: sine_fill.induct) (simp_all add: Let_def case_prod_beta)

lemma length_noise_fill [simp]: "length (fst (noise_fill k ms s f)) = length ms"
  by (induction k ms s f rule: noise_fill.induct) (simp_all add: Let_def case_prod_beta)

lemma length_zero_prefix [simp]: "length (zero_prefix k xs) = length xs"
  by (simp add: zero_prefix_def min_def)

lemma length_scale_channel [simp]: "length (scale_channel k ms ch g) = length ch"
  by (simp add: scale_channel_def Let_def)

lemma scale_channels_shape [simp]: "map length (scale_channels k ms chs gs) = map length chs"
  by (induction k ms chs gs rule: scale_channels.induct) simp_all

lemma length_interleaved [simp]: "length (interleaved chs k) = k * length chs"
  by (simp add: interleaved_def length_concat o_def sum_list_triv)

lemma length_interleave [simp]: "length (snd (interleave chs k out)) = length out"
proof (cases "fst (interleave chs k out)")
  case True
  then have "snd (interleave chs k out) = interleaved chs (length out div length chs)
      @ drop (length out div length chs * length chs) out"
    by (auto simp: interleave_def split: if_splits)
  then show ?thesis by simp
qed (auto simp: interleave_def split: if_splits)

lemma fill_mono_ok:
  assumes "engine_ok ok good P ready e"
  shows "fst (fill_mono M input k e) \<noteq> Panic \<and> engine_ok ok good P ready (snd (fill_mono M input k e))
    \<and> same_setup e (snd (fill_mono M input k e))"
proof (cases "ec_test_signal (en_config e)")
  case NoSignal
  then show ?thesis using assms by (auto simp: fill_mono_def engine_ok_def same_setup_def Let_def split: option.splits)
next
  case Sine
  then show ?thesis using assms by (simp add: fill_mono_def engine_ok_def same_setup_def Let_def case_prod_beta)
next
  case PinkNoise
  then show ?thesis using assms by (simp add: fill_mono_def engine_ok_def same_setup_def Let_def case_prod_beta)
next
  case Impulse
  then obtain x xs where ms: "zero_prefix k (en_mono e) = x # xs" "Suc (length xs) = length (en_mono e)"
    using assms length_zero_prefix [of k "en_mono e"]
    by (cases "zero_prefix k (en_mono e)") (simp_all add: engine_ok_def Let_def)
  show ?thesis
  proof (cases "en_impulse_emitted e")
    case True
    then show ?thesis using assms Impulse by (simp add: fill_mono_def engine_ok_def same_setup_def Let_def)
  next
    case False
    then show ?thesis using assms Impulse ms by (simp add: fill_mono_def engine_ok_def same_setup_def Let_def)
  qed
next
  case Silence
  then show ?thesis using assms by (simp add: fill_mono_def engine_ok_def same_setup_def Let_def)
next
  case RotatingSine
  then show ?thesis using assms by (simp add: fill_mono_def engine_ok_def same_setup_def Let_def case_prod_beta)
qed

section \<open>The timing histogram\<close>

text \<open>Every bucket bound of a block budget is a duration.\<close>

definition budget_ok :: "nat \<Rightarrow> bool" where
  "budget_ok budget \<longleftrightarrow>
     list_all (\<lambda>i. mul_f64 budget (f64_div (f64_of_nat (i + 1)) (f64_of_nat 16)) \<noteq> None) [0..<16]"

definition timing_ok :: "nat \<Rightarrow> real_time_metrics \<Rightarrow> bool" where
  "timing_ok n m \<longleftrightarrow> length (mt_timing_histogram m) = 16
     \<and> sum_list (map unat (mt_timing_histogram m)) = n \<and> budget_ok (mt_block_duration_budget m)"

lemma sum_u64_Some:
  "unat acc + sum_list (map unat cs) < 2 ^ 64 \<Longrightarrow>
     \<exists>s. sum_u64 acc cs = Some s \<and> unat s = unat acc + sum_list (map unat cs)"
proof (induction cs arbitrary: acc)
  case (Cons c cs)
  then have "unat acc + unat c < 2 ^ 64" by simp
  then obtain s where s: "checked_add acc c = Some s" "unat s = unat acc + unat c"
    using checked_add_Some [of acc c] checked_add_None [of acc c] by (cases "checked_add acc c") fastforce+
  then show ?case using Cons.IH [of s] Cons.prems by (auto simp: add.assoc)
qed simp

lemma percentile_scan_Some:
  assumes "budget_ok budget" "i + length cs \<le> 16"
  shows "percentile_scan budget threshold cumulative i cs \<noteq> None"
  using assms(2)
proof (induction cs arbitrary: cumulative i)
  case (Cons c cs)
  have "i < 16" using Cons.prems by simp
  then have "mul_f64 budget (f64_div (f64_of_nat (i + 1)) (f64_of_nat 16)) \<noteq> None"
    using assms(1) by (simp add: budget_ok_def list_all_iff del: upt_Suc)
  moreover have "percentile_scan budget threshold (saturating_add cumulative c) (Suc i) cs \<noteq> None"
    using Cons.IH Cons.prems by simp
  ultimately show ?case by (simp only: percentile_scan.simps Let_def split: if_split) simp
qed simp

lemma record_timing_ok:
  assumes m: "timing_ok n m" and n: "n + 1 < 2 ^ 64"
  shows "\<exists>m'. record_timing elapsed m = Some m' \<and> timing_ok (Suc n) m'
    \<and> mt_callback_count m' = mt_callback_count m \<and> mt_processed_blocks m' = mt_processed_blocks m
    \<and> mt_dropped_blocks m' = mt_dropped_blocks m \<and> mt_fault m' = mt_fault m
    \<and> mt_input_underruns m' = mt_input_underruns m \<and> mt_output_underruns m' = mt_output_underruns m
    \<and> mt_last_callback_duration m' = elapsed
    \<and> mt_max_callback_duration m' = max (mt_max_callback_duration m) elapsed"
proof -
  let ?h = "mt_timing_histogram m"
  have h: "length ?h = 16" "sum_list (map unat ?h) = n" "budget_ok (mt_block_duration_budget m)"
    using m by (simp_all add: timing_ok_def)
  have bump: "sum_list (map unat (?h[b := saturating_add (?h ! b) 1])) = Suc n" if "b < 16" for b
  proof -
    have b: "?h ! b \<in> set ?h" using that h(1) by simp
    then have le: "unat (?h ! b) \<le> n" using h(2) member_le_sum_list [of "unat (?h ! b)" "map unat ?h"] by auto
    then have "unat (saturating_add (?h ! b) 1) = unat (?h ! b) + 1"
      using n by (simp add: saturating_add_def unat_add_no_overflow word_le_nat_alt)
    then show ?thesis using that h(1,2) le
      by (simp add: map_update sum_list_update)
  qed
  have percentile: "histogram_percentile (?h[b := saturating_add (?h ! b) 1]) (mt_block_duration_budget m) 95 \<noteq> None"
    if b: "b < 16" for b
  proof -
    obtain s where "sum_u64 0 (?h[b := saturating_add (?h ! b) 1]) = Some s"
      using sum_u64_Some [of 0 "?h[b := saturating_add (?h ! b) 1]"] bump [OF b] n by auto
    then show ?thesis using percentile_scan_Some [OF h(3)] h(1) by (simp add: histogram_percentile_def)
  qed
  let ?scaled = "sat_u128 (elapsed * 16) div max (mt_block_duration_budget m) 1"
  let ?b = "min (if 2 ^ 64 \<le> ?scaled then 2 ^ 64 - 1 else ?scaled) 15"
  obtain b where eq: "?b = b" and b: "b < 16" by simp
  obtain p95 where p95: "histogram_percentile (?h[b := saturating_add (?h ! b) 1]) (mt_block_duration_budget m) 95 = Some p95"
    using percentile [OF b] by blast
  show ?thesis
    unfolding record_timing_def Let_def eq p95 option.case using bump [OF b] h by (simp add: timing_ok_def)
qed

section \<open>Budgets\<close>

lemma nanos_upto:
  assumes "upto_f64 (real N) x" "N * 10 ^ 9 \<le> duration_max"
  shows "\<exists>n. from_secs_f64 x = Some n \<and> n \<le> N * 10 ^ 9"
proof -
  obtain m e where v: "f64_value x = Finite False m e" "real m * 2 powi e \<le> real N"
    using assms(1) by (auto simp: upto_f64_def)
  define a b where "a = m * 2 ^ nat e" and "b = (2 :: nat) ^ nat (- e)"
  have b: "0 < b" and ab: "real a / real b \<le> real N"
    using v(2) by (simp_all only: a_def b_def finite_ratio) simp
  have "real (a * 10 ^ 9) / real b \<le> real (N * 10 ^ 9) / real 1"
    using ab b by (simp add: divide_le_eq)
  then have "round_half_even (a * 10 ^ 9) b \<le> round_half_even (N * 10 ^ 9) 1"
    by (intro round_half_even_mono b) simp_all
  also have "\<dots> = N * 10 ^ 9" using round_half_even_integer [of 1 "N * 10 ^ 9"] by simp
  finally have "round_half_even (a * 10 ^ 9) b \<le> N * 10 ^ 9" .
  then show ?thesis using assms(2)
    by (simp add: from_secs_f64_def f64_exact_def v a_def [symmetric] b_def [symmetric] Let_def)
qed

lemma upto_one_f64: "1 \<le> n \<Longrightarrow> n \<le> 2 ^ 61 \<Longrightarrow> \<exists>m e. f64_value (f64_of_nat n) = Finite False m e \<and> 1 \<le> real m * 2 powi e"
proof -
  assume n: "1 \<le> n" "n \<le> 2 ^ 61"
  obtain m e where v: "f64_value (f64_of_nat n) = Finite False m e"
    using upto_of_nat [OF upto_constants(2) n(2)] by (auto simp: upto_f64_def)
  note one = integral_le [OF upto_constants(6)]
  have "f64_le (f64_of (f64_exact 0x3FF0000000000000)) (f64_of_nat n)"
    unfolding f64_of_nat_def using n(1) one(2) [of 1 n] by (intro f64_of_mono) simp_all
  then have "exact_le (f64_exact 0x3FF0000000000000) (ExRat False (m * 2 ^ nat e) (2 ^ nat (- e)))"
    using v unfolding one(3) [OF zero_less_one] by (simp add: f64_le_def f64_exact_def)
  then have "1 \<le> real m * 2 powi e"
    unfolding one(2) [OF zero_less_power [OF pos2]] finite_ratio by simp
  then show ?thesis using v by blast
qed

text \<open>The budget of a block: at most \<open>2 ^ 61\<close> seconds, because the block buffer fits in memory.\<close>

lemma block_budget_small:
  assumes "n < 2 ^ 61" "0 < rate" "rate < 2 ^ 32"
  shows "\<exists>budget. from_secs_f64 (f64_div (f64_of_nat n) (f64_of_nat rate)) = Some budget \<and> budget \<le> 2 ^ 61 * 10 ^ 9"
proof -
  have "rate \<le> 2 ^ 61" using assms(3) by simp
  then obtain m e where y: "f64_value (f64_of_nat rate) = Finite False m e" "1 \<le> real m * 2 powi e"
    using upto_one_f64 [of rate] assms(2) by auto
  have "upto_f64 (real (2 ^ 61)) (f64_div (f64_of_nat n) (f64_of_nat rate))"
    by (rule upto_div [OF upto_constants(2) upto_of_nat [OF upto_constants(2)] y]) (use assms(1) in simp_all)
  from nanos_upto [OF this] show ?thesis by (simp add: duration_max_def)
qed

lemma as_secs_upto:
  assumes "budget \<le> 2 ^ 61 * 10 ^ 9"
  shows "upto_f64 (real (2 ^ 62)) (as_secs_f64 budget)"
proof -
  have q: "budget div 10 ^ 9 \<le> 2 ^ 61"
    using div_le_mono [OF assms, of "10 ^ 9"] by simp
  have r: "budget mod 10 ^ 9 \<le> 2 ^ 30"
    using mod_less_divisor [of "10 ^ 9" budget] by simp
  obtain m e where g: "f64_value 0x41CDCD6500000000 = Finite False m e" "10 ^ 9 \<le> real m * 2 powi e"
    by (simp add: float_defs)
  have "upto_f64 (real 2) (f64_div (f64_of_nat (budget mod 10 ^ 9)) 0x41CDCD6500000000)"
    by (rule upto_div [OF upto_constants(5) upto_of_nat [OF upto_constants(3) r] g]) simp_all
  with upto_of_nat [OF upto_constants(2) q] show ?thesis
    unfolding as_secs_f64_def by (rule upto_add [OF upto_constants(1)]) simp
qed

lemma small_budget_ok:
  assumes "budget \<le> 2 ^ 61 * 10 ^ 9"
  shows "budget_ok budget"
proof -
  have "mul_f64 budget (f64_div (f64_of_nat (i + 1)) (f64_of_nat 16)) \<noteq> None" if "i < 16" for i
  proof -
    have "f64_of_nat 16 = 0x4030000000000000" by (simp add: float_defs)
    then obtain m e where g: "f64_value (f64_of_nat 16) = Finite False m e" "16 \<le> real m * 2 powi e"
      by (simp add: float_defs)
    have "upto_f64 (real 1) (f64_div (f64_of_nat (i + 1)) (f64_of_nat 16))"
      by (rule upto_div [OF upto_constants(6) upto_of_nat [OF upto_constants(4)] g]) (use that in simp_all)
    from upto_mul [OF upto_constants(1) this as_secs_upto [OF assms]]
    have "upto_f64 (real (2 ^ 62)) (f64_mul (f64_div (f64_of_nat (i + 1)) (f64_of_nat 16)) (as_secs_f64 budget))" by simp
    from nanos_upto [OF this] show ?thesis by (auto simp: mul_f64_def duration_max_def)
  qed
  then show ?thesis by (simp add: budget_ok_def list_all_iff del: upt_Suc)
qed

section \<open>The block under the contracts\<close>

locale engine_parts = sound_renderer R ok + block_pcm_renderer Q good + callback_delay P ready
  for R :: "'r renderer" and ok :: "'r \<Rightarrow> bool" and Q :: "'q pcm_renderer" and good :: "'q \<Rightarrow> bool"
    and P :: "'p delay_trait" and ready :: "'p \<Rightarrow> bool"
begin

lemma render_planar_ok:
  assumes e: "engine_ok ok good P ready e" and k: "k \<le> unat (ec_block_size (en_config e))"
  shows "fst (render_planar M R Q P k e) \<noteq> Panic \<and> engine_ok ok good P ready (snd (render_planar M R Q P k e))
    \<and> same_setup e (snd (render_planar M R Q P k e))"
proof (cases "en_pcm_renderer e")
  case (Some q)
  let ?objs = "[\<lparr>op_object = block_object M k e, op_samples = take k (en_mono e)\<rparr>]"
  let ?outs = "map (zero_prefix k) (en_planar e)"
  obtain res planar q' where call: "pr_render_pcm Q (en_listener e) ?objs ?outs q = (res, planar, q')"
    by (rule prod_cases3)
  have "good q" "length (en_mono e) = unat (ec_block_size (en_config e))"
    using e Some by (auto simp: engine_ok_def Let_def split: option.splits)
  then have "res \<noteq> Panic" "good q'" "map length planar = map length (en_planar e)"
    using pcm_render_good [of q "en_listener e" ?objs ?outs] pcm_shapes [of "en_listener e" ?objs ?outs q] call
    by (simp_all add: o_def)
  then show ?thesis using e k Some call \<open>length (en_mono e) = _\<close>
    by (auto simp: render_planar_def engine_ok_def same_setup_def Let_def split: option.splits)
next
  case None
  then obtain r where r: "en_renderer e = Some r" "ok r"
    using e by (auto simp: engine_ok_def Let_def split: option.splits)
  let ?objs = "[block_object M k e]"
  obtain res gains scratch r' where call:
    "rd_render_gains R (en_listener e) ?objs (en_gains e) (en_renderer_scratch e) r = (res, gains, scratch, r')"
    by (rule prod_cases4)
  have g: "res \<noteq> Panic" "ok r'" "length gains = length (en_gains e)"
    using render_no_panic [OF r(2), of "en_listener e" ?objs "en_gains e" "en_renderer_scratch e"]
      render_ok [OF r(2), of "en_listener e" ?objs "en_gains e" "en_renderer_scratch e"]
      gains_length [of "en_listener e" ?objs "en_gains e" "en_renderer_scratch e" r] call by simp_all
  let ?e2 = "e\<lparr>en_planar := map (zero_prefix k) (en_planar e), en_gains := gains, en_renderer_scratch := scratch,
    en_renderer := Some r'\<rparr>"
  have e2: "engine_ok ok good P ready ?e2" "same_setup e ?e2"
    using e None g by (auto simp: engine_ok_def same_setup_def Let_def o_def)
  let ?ds = "map sg_delay_samples gains @ drop (length gains) (en_delays_scratch e)"
  obtain accepted p where set: "dt_set_delays P ?ds (en_delay_processor e) = (accepted, p)" by (rule prod.exhaust)
  have ready: "ready (en_delay_processor e)" using e by (simp add: engine_ok_def Let_def)
  have p: "accepted \<noteq> Panic" "ready p" "dt_channel_count P p = dt_channel_count P (en_delay_processor e)"
    using set_ready [OF ready, of ?ds] set_count [of ?ds "en_delay_processor e"] set by simp_all
  let ?e3 = "?e2\<lparr>en_delays_scratch := ?ds, en_delay_processor := p\<rparr>"
  have e3: "engine_ok ok good P ready ?e3" "same_setup e ?e3"
    using e2 p by (auto simp: engine_ok_def same_setup_def Let_def)
  have room: "\<not> length (en_delays_scratch e) < length gains"
    using e g by (simp add: engine_ok_def Let_def)
  have scaled: "engine_ok ok good P ready (x\<lparr>en_planar := scale_channels k (en_mono x) (en_planar x) (en_gains x)\<rparr>)
      \<and> same_setup e (x\<lparr>en_planar := scale_channels k (en_mono x) (en_planar x) (en_gains x)\<rparr>)"
    if "engine_ok ok good P ready x" "same_setup e x" for x
    using that by (simp add: engine_ok_def same_setup_def Let_def)
  show ?thesis
  proof (cases res)
    case (Ok u)
    show ?thesis
    proof (cases "ec_apply_geometric_delay (en_config e) \<or> en_dynamic_delays e")
      case True
      then show ?thesis using scaled [OF e3] e3 None r(1) call Ok set p(1) room
        by (cases accepted) (simp_all add: render_planar_def Let_def)
    next
      case False
      then show ?thesis using scaled [OF e2] None r(1) call Ok by (simp add: render_planar_def Let_def)
    qed
  qed (use g(1) e2 None r(1) call in \<open>simp_all add: render_planar_def Let_def\<close>)
qed

lemma process_inner_ok:
  assumes e: "engine_ok ok good P ready e"
  shows "fst (process_inner M R Q P input out e) \<noteq> Panic
    \<and> length (fst (snd (process_inner M R Q P input out e))) = length out
    \<and> engine_ok ok good P ready (snd (snd (process_inner M R Q P input out e)))
    \<and> same_setup e (snd (snd (process_inner M R Q P input out e)))"
proof -
  let ?c = "length (en_output_roles e)" and ?bs = "unat (ec_block_size (en_config e))"
  let ?k = "length out div ?c"
  show ?thesis
  proof (cases "?c = 0 \<or> length out mod ?c \<noteq> 0 \<or> ?k = 0 \<or> ?bs < ?k \<or> en_pcm_renderer e \<noteq> None \<and> ?k \<noteq> ?bs")
    case True
    then show ?thesis using e by (auto simp: process_inner_def Let_def)
  next
    case False
    obtain r1 e1 where fill: "fill_mono M input ?k e = (r1, e1)" by (rule prod.exhaust)
    have e1: "r1 \<noteq> Panic" "engine_ok ok good P ready e1" "same_setup e e1"
      using fill_mono_ok [OF e, of M input ?k] fill by simp_all
    have k: "?k \<le> unat (ec_block_size (en_config e1))" using False e1(3) by (simp add: same_setup_def)
    obtain r2 e2 where planar: "render_planar M R Q P ?k e1 = (r2, e2)" by (rule prod.exhaust)
    have e2: "r2 \<noteq> Panic" "engine_ok ok good P ready e2" "same_setup e e2"
      using render_planar_ok [OF e1(2) k, of M] planar same_setup_trans [OF e1(3)] by simp_all
    obtain r3 outs p where delay: "dt_process_planar P (en_planar e2) (en_delayed e2) ?k (en_delay_processor e2) = (r3, outs, p)"
      by (rule prod_cases3)
    have ready: "ready (en_delay_processor e2)" using e2(2) by (simp add: engine_ok_def Let_def)
    have d: "r3 \<noteq> Panic" "ready p" "dt_channel_count P p = dt_channel_count P (en_delay_processor e2)"
        "map length outs = map length (en_delayed e2)"
      using process_ready [OF ready, of "en_planar e2" "en_delayed e2" ?k]
        process_count [of "en_planar e2" "en_delayed e2" ?k "en_delay_processor e2"]
        shapes [of "en_planar e2" "en_delayed e2" ?k "en_delay_processor e2"] delay by simp_all
    let ?e3 = "e2\<lparr>en_delayed := outs, en_delay_processor := p\<rparr>"
    have e3: "engine_ok ok good P ready ?e3" "same_setup e ?e3"
      using e2 d by (simp_all add: engine_ok_def same_setup_def Let_def)
    obtain b out' where il: "interleave outs ?k out = (b, out')" by (rule prod.exhaust)
    have len: "length out' = length out" using length_interleave [of outs ?k out] il by simp
    have e4: "engine_ok ok good P ready (?e3\<lparr>en_frame_cursor := x\<rparr>)" "same_setup e (?e3\<lparr>en_frame_cursor := x\<rparr>)" for x
      using e3 by (simp_all add: engine_ok_def same_setup_def Let_def)
    show ?thesis
    proof (cases r1)
      case r1: (Ok u1)
      show ?thesis
      proof (cases r2)
        case r2: (Ok u2)
        show ?thesis
        proof (cases r3)
          case (Ok u3)
          then show ?thesis using False fill planar delay r1 r2 il len e e3 e4
            by (cases b) (simp_all add: process_inner_def Let_def)
        qed (use False fill planar delay r1 r2 e e3 d(1) in \<open>simp_all add: process_inner_def Let_def\<close>)
      qed (use False fill planar r1 e e2 in \<open>simp_all add: process_inner_def Let_def\<close>)
    qed (use False fill e e1 in \<open>simp_all add: process_inner_def Let_def\<close>)
  qed
qed

lemma run_chunks_ok:
  assumes "engine_ok ok good P ready e" "0 < n"
    and "\<And>samples. input = Some samples \<Longrightarrow> ec_test_signal (en_config e) = NoSignal \<Longrightarrow>
      offset + length out div length (en_output_roles e) * unat (ec_input_channels (en_config e)) \<le> length samples"
  shows "case run_chunks M R Q P n input offset out e of (res, out', e') \<Rightarrow>
    res \<noteq> Panic \<and> length out' = length out \<and> engine_ok ok good P ready e' \<and> same_run e e'"
  using assms
proof (induction "length out" arbitrary: out offset e rule: less_induct)
  case less
  show ?case
  proof (cases "out = []")
    case True
    then show ?thesis using less.prems(1) by (simp add: run_chunks.simps)
  next
    case False
    let ?c = "length (en_output_roles e)"
    let ?uses = "ec_test_signal (en_config e) = NoSignal"
    let ?count = "length (take n out) div ?c * unat (ec_input_channels (en_config e))"
    let ?block = "if ?uses then map_option (\<lambda>samples. take ?count (drop offset samples)) input else input"
    obtain res chunk e1 where inner: "process_inner M R Q P ?block (take n out) e = (res, chunk, e1)"
      by (rule prod_cases3)
    have i: "res \<noteq> Panic" "length chunk = length (take n out)" "engine_ok ok good P ready e1" "same_setup e e1"
      using process_inner_ok [OF less.prems(1), of M ?block "take n out"] inner by simp_all
    let ?e2 = "e1\<lparr>en_metrics := (en_metrics e1)\<lparr>mt_processed_blocks := saturating_add (mt_processed_blocks (en_metrics e1)) 1\<rparr>\<rparr>"
    have e2: "engine_ok ok good P ready ?e2" "same_run e ?e2" and cfg: "en_config ?e2 = en_config e" "en_output_roles ?e2 = en_output_roles e"
      using i(3,4) by (auto simp: engine_ok_def same_setup_def same_run_def Let_def)
    have "(length (take n out) div ?c + length (drop n out) div ?c) * unat (ec_input_channels (en_config e))
        \<le> length out div ?c * unat (ec_input_channels (en_config e))"
      by (rule mult_right_mono [OF chunk_div]) simp
    then have room: "offset + ?count + length (drop n out) div ?c * unat (ec_input_channels (en_config e)) \<le> length samples"
      if "input = Some samples" ?uses for samples using less.prems(3) [OF that] by (simp add: add_mult_distrib)
    have fits: "\<not> (?uses \<and> is_some_and (\<lambda>samples. length samples < offset + ?count) input)"
      using room by (cases input) fastforce+
    have "length (drop n out) < length out" using False less.prems(2) by (cases out) simp_all
    from less.hyps [OF this e2(1) less.prems(2), of "if ?uses then offset + ?count else offset"]
    obtain res3 out3 e3 where rest: "run_chunks M R Q P n input (if ?uses then offset + ?count else offset) (drop n out) ?e2 = (res3, out3, e3)"
      "res3 \<noteq> Panic" "length out3 = length (drop n out)" "engine_ok ok good P ready e3" "same_run ?e2 e3"
      using cfg room by (cases "run_chunks M R Q P n input (if ?uses then offset + ?count else offset) (drop n out) ?e2") auto
    note run = run_chunks.simps [of M R Q P n input offset out e]
    show ?thesis
    proof (cases res)
      case (Ok u)
      have "run_chunks M R Q P n input offset out e = (res3, chunk @ out3, e3)"
        unfolding run using False less.prems(2) fits inner rest(1) Ok by (simp only: Let_def) simp
      then show ?thesis using rest i(2) same_run_trans [OF e2(2) rest(5)] by auto
    next
      case (Err f)
      have "run_chunks M R Q P n input offset out e = (Err f, chunk @ drop n out, e1)"
        unfolding run using False less.prems(2) fits inner Err by (simp only: Let_def) simp
      then show ?thesis using i same_setup_run [OF i(4)] by simp
    qed (use i(1) in simp)
  qed
qed

text \<open>
  One callback.  A refused call changes the metrics only; every fault ends in silence; the histogram
  has one entry for each callback.
\<close>

lemma callback_safe:
  assumes e: "engine_ok ok good P ready e" and m: "timing_ok n (en_metrics e)"
    and n: "unat (mt_callback_count (en_metrics e)) = n" "n + 1 < 2 ^ 64"
  shows "case process_interleaved M R Q P elapsed input out e of (res, out', e') \<Rightarrow>
    engine_ok ok good P ready e' \<and> timing_ok (Suc n) (en_metrics e')
    \<and> unat (mt_callback_count (en_metrics e')) = Suc n \<and> length out' = length out
    \<and> en_config e' = en_config e \<and> en_output_roles e' = en_output_roles e
    \<and> (res = Ok ProcessOk \<and> shape_valid out e \<and> input_valid input out e
         \<and> mt_dropped_blocks (en_metrics e') = mt_dropped_blocks (en_metrics e)
       \<or> (\<exists>f. res = Ok (ProcessFault f) \<and> out' = replicate (length out) 0 \<and> mt_fault (en_metrics e') = f
         \<and> mt_dropped_blocks (en_metrics e') = saturating_add (mt_dropped_blocks (en_metrics e)) 1
         \<and> (\<not> (shape_valid out e \<and> input_valid input out e) \<longrightarrow>
              f = (if shape_valid out e then RtInputBuffer else RtOutputBuffer) \<and> e'\<lparr>en_metrics := en_metrics e\<rparr> = e)))"
proof -
  let ?e0 = "e\<lparr>en_metrics := (en_metrics e)\<lparr>mt_callback_count := saturating_add (mt_callback_count (en_metrics e)) 1\<rparr>\<rparr>"
  let ?n = "min (unat (ec_block_size (en_config e)) * length (en_output_roles e)) (2 ^ 64 - 1)"
  have valid: "shape_valid out ?e0 = shape_valid out e" "input_valid input out ?e0 = input_valid input out e"
    by (simp_all add: shape_valid_def input_valid_def)
  have count: "unat (saturating_add (mt_callback_count (en_metrics e)) 1) = Suc n"
    using n by (simp add: saturating_add_def unat_add_no_overflow)
  have e0: "engine_ok ok good P ready ?e0" "timing_ok n (en_metrics ?e0)"
    using e m by (simp_all add: engine_ok_def timing_ok_def Let_def)
  let ?go = "if \<not> shape_valid out ?e0 then (Err RtOutputBuffer, out, ?e0)
             else if \<not> input_valid input out ?e0 then (Err RtInputBuffer, out, ?e0)
             else run_chunks M R Q P ?n input 0 out ?e0"
  obtain res out1 e1 where go: "?go = (res, out1, e1)" by (rule prod_cases3)
  have go1: "res \<noteq> Panic \<and> length out1 = length out \<and> engine_ok ok good P ready e1 \<and> same_run ?e0 e1"
  proof (cases "shape_valid out ?e0 \<and> input_valid input out ?e0")
    case True
    then have "0 < ?n" by (simp add: shape_valid_def Let_def)
    moreover have "0 + length out div length (en_output_roles ?e0) * unat (ec_input_channels (en_config ?e0)) \<le> length samples"
      if "input = Some samples" "ec_test_signal (en_config ?e0) = NoSignal" for samples
      using True that by (simp add: input_valid_def Let_def)
    ultimately have "case run_chunks M R Q P ?n input 0 out ?e0 of (res, out', e') \<Rightarrow>
      res \<noteq> Panic \<and> length out' = length out \<and> engine_ok ok good P ready e' \<and> same_run ?e0 e'"
      by (intro run_chunks_ok [OF e0(1)])
    then show ?thesis using go True by simp
  next
    case False
    then show ?thesis using go e0(1) by (auto split: if_splits)
  qed
  have tm: "timing_ok n (en_metrics e1)" using e0(2) go1 by (auto simp: timing_ok_def same_run_def)
  have refused: "res = Err (if shape_valid out e then RtInputBuffer else RtOutputBuffer) \<and> e1 = ?e0"
    if "\<not> (shape_valid out e \<and> input_valid input out e)"
    using go that valid by (auto split: if_splits)
  have upd: "engine_ok ok good P ready (e1\<lparr>en_metrics := x\<rparr>)" for x
    using go1 by (simp add: engine_ok_def Let_def)
  note pi = process_interleaved_def [of M R Q P elapsed input out e] 
  show ?thesis
  proof (cases res)
    case (Ok u)
    then have valid_call: "shape_valid out e \<and> input_valid input out e" using refused by auto
    obtain m' where rt: "record_timing elapsed (en_metrics e1) = Some m'" "timing_ok (Suc n) m'"
      "mt_callback_count m' = mt_callback_count (en_metrics e1)" "mt_dropped_blocks m' = mt_dropped_blocks (en_metrics e1)"
      using record_timing_ok [OF tm n(2)] by blast
    have "process_interleaved M R Q P elapsed input out e = (Ok ProcessOk, out1, e1\<lparr>en_metrics := m'\<rparr>)"
      unfolding pi Let_def go prod.case Ok outcome.case rt(1) by simp
    then show ?thesis using rt upd go1 count valid_call by (auto simp: same_run_def)
  next
    case (Err f)
    have "timing_ok n (count_fault f (en_metrics e1))" using tm by (simp add: timing_ok_def count_fault_def Let_def)
    then obtain m' where rt: "record_timing elapsed (count_fault f (en_metrics e1)) = Some m'" "timing_ok (Suc n) m'"
      "mt_callback_count m' = mt_callback_count (en_metrics e1)" "mt_fault m' = f"
      "mt_dropped_blocks m' = saturating_add (mt_dropped_blocks (en_metrics e1)) 1"
      using record_timing_ok [of n "count_fault f (en_metrics e1)" elapsed] n(2)
      by (auto simp: count_fault_def Let_def)
    have "process_interleaved M R Q P elapsed input out e
        = (Ok (ProcessFault f), replicate (length out1) 0, e1\<lparr>en_metrics := m'\<rparr>)"
      unfolding pi Let_def go prod.case Err outcome.case rt(1) by simp
    then show ?thesis using rt upd go1 count refused Err by (auto simp: same_run_def)
  qed (use go1 in simp)
qed

end

context engine_parts
begin

lemma validate_delay_processor_Ok:
  assumes "validate_delay_processor P c most delays p = (Ok u, p')" "ready p"
  shows "dt_channel_count P p' = c \<and> ready p'"
proof -
  have "dt_channel_count P p = c" "p' = snd (dt_set_delays P delays p)"
    using assms(1) by (cases "dt_set_delays P delays p"; auto simp: validate_delay_processor_def Let_def split: if_splits)+
  then show ?thesis using set_count [of delays p] set_ready [OF assms(2), of delays] by simp
qed

lemma engine_start_ok:
  assumes "speakers \<noteq> []" "ec_block_size config \<noteq> 0" "ready p" "dt_channel_count P p = length speakers"
    and "case (r, q) of (Some r, None) \<Rightarrow> ok r | (None, Some q) \<Rightarrow> good q | _ \<Rightarrow> False"
  shows "engine_ok ok good P ready (engine_start M scene config r q dynamic speakers scratch p metrics)"
  using assms by (simp add: engine_ok_def engine_start_def Let_def unat_gt_0)

lemma validate_scene_config_Ok:
  assumes "validate_scene_config scene config = Ok u" "ordered_speakers scene = Ok speakers"
  shows "speakers \<noteq> [] \<and> ec_block_size config \<noteq> 0 \<and> ec_sample_rate config \<noteq> 0"
  using assms by (auto simp: validate_scene_config_def split: if_splits)

lemma make_metrics_fresh:
  assumes "make_metrics config a b c = Some m" "ec_sample_rate config \<noteq> 0" "unat (ec_block_size config) < 2 ^ 61"
  shows "mt_callback_count m = 0 \<and> timing_ok 0 m"
proof -
  have "0 < unat (ec_sample_rate config)" "unat (ec_sample_rate config) < 2 ^ 32"
    using assms(2) unsigned_less [of "ec_sample_rate config", where 'a = nat] by (simp_all add: unat_gt_0)
  from block_budget_small [OF assms(3) this] assms(1)
  have "budget_ok (mt_block_duration_budget m)"
    by (auto simp: make_metrics_def metrics_default_def intro: small_budget_ok split: option.splits)
  then show ?thesis
    using assms(1) by (auto simp: make_metrics_def metrics_default_def timing_ok_def sum_list_replicate split: option.splits)
qed

lemma build_gain_ok:
  assumes "build_gain M R P scene config device r p = Ok e" "ok r" "ready p"
  shows "engine_ok ok good P ready e \<and> mt_callback_count (en_metrics e) = 0
    \<and> timing_ok 0 (en_metrics e)"
proof -
  obtain speakers floats dynamic most delays p' m latency where parts:
    "validate_scene_config scene config = Ok ()" "ordered_speakers scene = Ok speakers"
    "validate_delay_processor P (length speakers) most delays p = (Ok (), p')"
    "unat (ec_block_size config) < 2 ^ 61"
    "make_metrics config (rd_latency_frames R r) latency device = Some m"
    "e = engine_start M scene config (Some r) None dynamic speakers (scratch_new floats) p' m"
    using assms(1) by (auto simp: build_gain_def Let_def not_le split: outcome.splits option.splits prod.splits if_splits)
  show ?thesis
    using engine_start_ok [of speakers config p' "Some r" None M scene dynamic "scratch_new floats" m]
      validate_scene_config_Ok [OF parts(1,2)] validate_delay_processor_Ok [OF parts(3) assms(3)]
      make_metrics_fresh [OF parts(5) _ parts(4)] assms(2)
    by (simp add: parts(6)) (simp add: engine_start_def Let_def)
qed

lemma build_pcm_ok:
  assumes "build_pcm M Q P scene config device q p = Ok e" "good q" "ready p"
  shows "engine_ok ok good P ready e \<and> mt_callback_count (en_metrics e) = 0
    \<and> timing_ok 0 (en_metrics e)"
proof -
  obtain speakers most delays p' m latency where parts:
    "validate_scene_config scene config = Ok ()" "ordered_speakers scene = Ok speakers"
    "validate_delay_processor P (length speakers) most delays p = (Ok (), p')"
    "unat (ec_block_size config) < 2 ^ 61"
    "make_metrics config (pr_latency_frames Q q) latency device = Some m"
    "e = engine_start M scene config None (Some q) False speakers [] p' m"
    using assms(1) by (auto simp: build_pcm_def Let_def not_le split: outcome.splits option.splits prod.splits if_splits)
  show ?thesis
    using engine_start_ok [of speakers config p' None "Some q" M scene False "[]" m]
      validate_scene_config_Ok [OF parts(1,2)] validate_delay_processor_Ok [OF parts(3) assms(3)]
      make_metrics_fresh [OF parts(5) _ parts(4)] assms(2)
    by (simp add: parts(6)) (simp add: engine_start_def Let_def)
qed

end

section \<open>The engine of the program\<close>

text \<open>
  The components the engine is run with: the basic gain renderer or the native object renderer, and
  the fractional delay line.
\<close>

interpretation engine: engine_parts "basic_vtable powf" basic_ok "spatial_vtable M S" spatial_good
    delay_vtable "\<lambda>p. \<exists>hs. delay_holds p hs" for powf M S
  by (intro engine_parts.intro basic.sound_renderer_axioms spatial.block_pcm_renderer_axioms
      basic_delay.callback_delay_axioms)

inductive spatial_reachable :: "math \<Rightarrow> 'h shim \<Rightarrow> 'h spatial \<Rightarrow> bool" for M S where
  sr_load: "spatial_load S = Ok q \<Longrightarrow> spatial_reachable M S q"
| sr_configure: "spatial_reachable M S q \<Longrightarrow> spatial_reachable M S (snd (spatial_configure S layout rate block most q))"
| sr_render: "spatial_reachable M S q \<Longrightarrow> spatial_reachable M S (snd (snd (spatial_render_pcm M S l objs outs q)))"
| sr_reset: "spatial_reachable M S q \<Longrightarrow> spatial_reachable M S (spatial_reset S q)"

lemma spatial_reachable_good: "spatial_reachable M S q \<Longrightarrow> spatial_good q"
proof (induction rule: spatial_reachable.induct)
  case (sr_render q l objs outs)
  then show ?case using spatial_render_good by blast
next
  case (sr_configure q layout rate block most)
  then show ?case using spatial_configure_good by blast
next
  case (sr_reset q)
  then show ?case by (simp add: spatial_reset_def spatial_good_def)
qed (rule spatial_load_good)

type_synonym 'h program_engine = "(basic_renderer, 'h spatial, delay_processor) engine"

text \<open>
  \<open>engine_after M S n e\<close>: the engine \<open>e\<close> was built from components in any reachable state and has
  had \<open>n\<close> callbacks, with any input, output and timing.
\<close>

inductive engine_after :: "math \<Rightarrow> 'h shim \<Rightarrow> nat \<Rightarrow> 'h program_engine \<Rightarrow> bool" for M S where
  ea_gain: "basic_reachable (m_powf M) r \<Longrightarrow> delay_history p hs \<Longrightarrow>
    build_gain M (basic_vtable (m_powf M)) delay_vtable scene config device r p = Ok e \<Longrightarrow> engine_after M S 0 e"
| ea_pcm: "spatial_reachable M S q \<Longrightarrow> delay_history p hs \<Longrightarrow>
    build_pcm M (spatial_vtable M S) delay_vtable scene config device q p = Ok e \<Longrightarrow> engine_after M S 0 e"
| ea_call: "engine_after M S n e \<Longrightarrow>
    process_interleaved M (basic_vtable (m_powf M)) (spatial_vtable M S) delay_vtable elapsed input out e
      = (res, out', e') \<Longrightarrow> engine_after M S (Suc n) e'"

definition program_ok :: "'h program_engine \<Rightarrow> bool" where
  "program_ok = engine_ok basic_ok spatial_good delay_vtable (\<lambda>p. \<exists>hs. delay_holds p hs)"

lemma engine_after_ok:
  "engine_after M S n e \<Longrightarrow> n < 2 ^ 64 \<Longrightarrow>
     program_ok e \<and> timing_ok n (en_metrics e) \<and> unat (mt_callback_count (en_metrics e)) = n"
proof (induction rule: engine_after.induct)
  case (ea_gain r p hs scene config device e)
  have "program_ok e \<and> mt_callback_count (en_metrics e) = 0
      \<and> timing_ok 0 (en_metrics e)"
    unfolding program_ok_def
    by (rule engine.build_gain_ok [OF ea_gain(3) basic_reachable_ok [OF ea_gain(1)]])
      (use delay_history_holds [OF ea_gain(2)] in blast)
  then show ?case by simp
next
  case (ea_pcm q p hs scene config device e)
  have "program_ok e \<and> mt_callback_count (en_metrics e) = 0
      \<and> timing_ok 0 (en_metrics e)"
    unfolding program_ok_def
    by (rule engine.build_pcm_ok [OF ea_pcm(3) spatial_reachable_good [OF ea_pcm(1)]])
      (use delay_history_holds [OF ea_pcm(2)] in blast)
  then show ?case by simp
next
  case (ea_call n e elapsed input out res out' e')
  from ea_call.IH ea_call.prems have "program_ok e" "timing_ok n (en_metrics e)"
    "unat (mt_callback_count (en_metrics e)) = n" "n + 1 < 2 ^ 64" by simp_all
  note safe = engine.callback_safe [OF this(1) [unfolded program_ok_def] this(2-4)]
  from safe [of out input M "m_powf M" M S elapsed] show ?case using ea_call.hyps(2) by (simp add: program_ok_def)
qed

text \<open>
  C17: The audio callback is safe in every state: whatever scene and components the engine was built
  from, after any number of callbacks, for any input and output slices and any timing, the callback
  returns without a panic, keeps the length of the output, and adds one entry to the timing
  histogram.  It reports success only for a valid output shape with enough input; every fault
  leaves silence, is recorded and counts one dropped block; and a call refused for its shape or its
  input changes nothing but the metrics, so that no part of a callback is ever replayed.
\<close>

theorem engine_callback_safe:
  assumes "engine_after M S n e" "n + 1 < 2 ^ 64"
  shows "case process_interleaved M (basic_vtable (m_powf M)) (spatial_vtable M S) delay_vtable elapsed input out e of
    (res, out', e') \<Rightarrow>
      length out' = length out \<and> sum_list (map unat (mt_timing_histogram (en_metrics e'))) = Suc n
      \<and> (res = Ok ProcessOk \<and> shape_valid out e \<and> input_valid input out e
           \<and> mt_dropped_blocks (en_metrics e') = mt_dropped_blocks (en_metrics e)
         \<or> (\<exists>f. res = Ok (ProcessFault f) \<and> out' = replicate (length out) 0 \<and> mt_fault (en_metrics e') = f
           \<and> mt_dropped_blocks (en_metrics e') = saturating_add (mt_dropped_blocks (en_metrics e)) 1
           \<and> (\<not> (shape_valid out e \<and> input_valid input out e) \<longrightarrow>
                f = (if shape_valid out e then RtInputBuffer else RtOutputBuffer)
                \<and> e'\<lparr>en_metrics := en_metrics e\<rparr> = e)))"
proof -
  have ok: "program_ok e" "timing_ok n (en_metrics e)" "unat (mt_callback_count (en_metrics e)) = n"
    using engine_after_ok [OF assms(1)] assms(2) by simp_all
  note safe = engine.callback_safe [OF ok(1) [unfolded program_ok_def] ok(2,3) assms(2)]
  from safe [of out input M "m_powf M" M S elapsed] show ?thesis
    by (elim case_prodE) (simp only: timing_ok_def prod.case)
qed

section \<open>An engine to run\<close>

definition quiet_shim :: "unit shim" where
  "quiet_shim = \<lparr>sh_abi_version = 1, sh_create = Some (), sh_configure = (\<lambda>h _ _ _. (0, h)),
     sh_render = (\<lambda>h _ _ _ _. (0, \<lambda>_ _. 0, h)), sh_reset = (\<lambda>h. h), sh_output_channels = (\<lambda>_. 12),
     sh_latency_frames = 255\<rparr>"

definition mono_scene :: render_scene where
  "mono_scene = \<lparr>rs_layout = CustomLayout, rs_listener = listener_at_zero,
     rs_speakers = [speaker_on_x FrontLeft 0x40000000],
     rs_object = \<lparr>so_id = ''object'', so_gain_db = 0, so_spread = 0\<rparr>,
     rs_trajectory = Circle vector3_zero 0x3F800000 0 0 0, rs_block_size = 4\<rparr>"

definition live_config :: engine_config where
  "live_config = \<lparr>ec_sample_rate = 48000, ec_block_size = 4, ec_input_channels = 1,
     ec_apply_geometric_delay = False, ec_speed_of_sound = 0x43AB8000, ec_test_signal = NoSignal\<rparr>"

definition mono_renderer :: basic_renderer where
  "mono_renderer = snd (basic_configure [speaker_on_x FrontLeft 0x40000000] 48000 4 1 (basic_new NearestSpeaker))"

lemma mono_renderer_reachable: "basic_reachable powf mono_renderer"
  unfolding mono_renderer_def
  by (rule br_configure [OF br_new]) (simp add: basic_configure_def basic_new_def speaker_on_x_def Let_def)

lemma mono_renderer_state:
  "rd_output_channel_count (basic_vtable powf) mono_renderer = 1"
  "rd_required_scratch_size (basic_vtable powf) mono_renderer = Ok 1"
  "rd_dynamic_delay_values (basic_vtable powf) mono_renderer = False"
  "rd_latency_frames (basic_vtable powf) mono_renderer = 0"
  by (simp_all add: mono_renderer_def basic_vtable_def basic_output_channel_count_def basic_required_scratch_size_def
      basic_latency_frames_def basic_configure_def basic_new_def speaker_on_x_def Let_def)

lemma mono_required: "required_delay False [0] = 0x40000000"
  by (simp add: required_delay_def float_defs)

lemma delay_eight_accepts:
  "validate_delay_processor delay_vtable 1 0x40000000 [0] delay_eight = (Ok (), delay_eight\<lparr>dl_delays := [0]\<rparr>)"
proof -
  have "f32_is_finite 0x41000000" "\<not> f32_less 0x41000000 0x40000000" "f32_is_finite 0" "\<not> f32_less 0 0"
    "\<not> f32_less 0x41000000 0"
    by (simp_all add: f32_is_finite_def float_defs)
  then show ?thesis by (simp add: validate_delay_processor_def delay_vtable_def set_delays_slice_def delay_eight_def Let_def)
qed

lemma mono_engine:
  "\<exists>e :: unit program_engine. build_gain flat_math (basic_vtable (m_powf flat_math)) delay_vtable mono_scene live_config 0
      mono_renderer delay_eight = Ok e \<and> mt_dropped_blocks (en_metrics e) = 0"
proof -
  obtain budget where "from_secs_f64 (f64_div (f64_of_nat 4) (f64_of_nat 48000)) = Some budget"
    using block_budget_small [of 4 48000] by auto
  moreover have "dt_latency_frames delay_vtable (delay_eight\<lparr>dl_delays := [0]\<rparr>) = 0"
    by (simp add: delay_vtable_def delay_latency_frames_def float_defs)
  ultimately show ?thesis
    using mono_required delay_eight_accepts
    by (simp add: build_gain_def validate_scene_config_def ordered_speakers_def mono_scene_def live_config_def mono_renderer_state
        initial_delays_def engine_geometric_delays_def Let_def make_metrics_def checked_add_def metrics_default_def engine_start_def)
qed

lemma engine_callback_safe_witness:
  "\<exists>(e :: unit program_engine) e'.
     process_interleaved flat_math (basic_vtable (m_powf flat_math)) (spatial_vtable flat_math quiet_shim) delay_vtable 5 None [] e
       = (Ok (ProcessFault RtOutputBuffer), [], e') \<and> mt_dropped_blocks (en_metrics e') = 1"
proof -
  obtain e :: "unit program_engine" where e: "build_gain flat_math (basic_vtable (m_powf flat_math)) delay_vtable mono_scene live_config 0
      mono_renderer delay_eight = Ok e" "mt_dropped_blocks (en_metrics e) = 0"
    using mono_engine by blast
  have "engine_after flat_math quiet_shim 0 e"
    by (rule ea_gain [OF mono_renderer_reachable delay_eight_history e(1)])
  from engine_callback_safe [OF this, of "[]" None 5] show ?thesis
    by (auto simp: shape_valid_def e(2) saturating_add_def split: prod.splits)
qed

end
