(* ===== verification/Engine_Blocks.thy ===== *)
theory Engine_Blocks
  imports Engine_Safety
begin


text \<open>
  How the callback depends on the size of the buffers it is handed: a buffer of several blocks is
  rendered exactly as its parts would be in calls of their own.
\<close>

section \<open>Metrics do not reach the audio\<close>

lemma fill_mono_metrics:
  "fill_mono M input k (e\<lparr>en_metrics := m\<rparr>) = apsnd (\<lambda>e. e\<lparr>en_metrics := m\<rparr>) (fill_mono M input k e)"
  by (cases "ec_test_signal (en_config e)"; cases input; cases "zero_prefix k (en_mono e)")
    (simp_all add: fill_mono_def Let_def case_prod_beta)

lemma block_object_metrics [simp]: "block_object M k (e\<lparr>en_metrics := m\<rparr>) = block_object M k e"
  by (simp add: block_object_def Let_def)

lemma render_planar_metrics:
  "render_planar M R Q P k (e\<lparr>en_metrics := m\<rparr>) = apsnd (\<lambda>e. e\<lparr>en_metrics := m\<rparr>) (render_planar M R Q P k e)"
proof (cases "en_pcm_renderer e")
  case (Some q)
  then show ?thesis by (simp add: render_planar_def Let_def case_prod_beta)
next
  case None
  show ?thesis
  proof (cases "en_renderer e")
    case (Some r)
    obtain res gains scratch r' where call: "rd_render_gains R (en_listener e) [block_object M k e] (en_gains e)
        (en_renderer_scratch e) r = (res, gains, scratch, r')" by (rule prod_cases4)
    obtain accepted p where set: "dt_set_delays P (map sg_delay_samples gains @ drop (length gains) (en_delays_scratch e))
        (en_delay_processor e) = (accepted, p)" by (rule prod.exhaust)
    show ?thesis
    proof (cases "res = Ok () \<and> (ec_apply_geometric_delay (en_config e) \<or> en_dynamic_delays e)")
      case True
      then show ?thesis using None Some call set
        by (cases "length (en_delays_scratch e) < length gains"; cases accepted) (simp_all add: render_planar_def Let_def)
    next
      case False
      then show ?thesis using None Some call by (cases res) (auto simp: render_planar_def Let_def)
    qed
  qed (use None in \<open>simp add: render_planar_def Let_def\<close>)
qed

lemma process_inner_metrics:
  "process_inner M R Q P input out (e\<lparr>en_metrics := m\<rparr>)
     = apsnd (apsnd (\<lambda>e. e\<lparr>en_metrics := m\<rparr>)) (process_inner M R Q P input out e)"
proof (cases "length (en_output_roles e) = 0")
  case True
  then show ?thesis by (simp add: process_inner_def Let_def)
next
  case False
  let ?c = "length (en_output_roles e)" and ?bs = "unat (ec_block_size (en_config e))"
  let ?k = "length out div ?c"
  obtain r1 e1 where f: "fill_mono M input ?k e = (r1, e1)" by (rule prod.exhaust)
  obtain r2 e2 where r: "render_planar M R Q P ?k e1 = (r2, e2)" by (rule prod.exhaust)
  obtain r3 outs p where d: "dt_process_planar P (en_planar e2) (en_delayed e2) ?k (en_delay_processor e2) = (r3, outs, p)"
    by (rule prod_cases3)
  obtain b out' where il: "interleave outs ?k out = (b, out')" by (rule prod.exhaust)
  note fm = fill_mono_metrics [of M input ?k m e, unfolded f] render_planar_metrics [of M R Q P ?k m e1, unfolded r]
  show ?thesis
  proof (cases "?c = 0 \<or> length out mod ?c \<noteq> 0 \<or> ?k = 0 \<or> ?bs < ?k \<or> en_pcm_renderer e \<noteq> None \<and> ?k \<noteq> ?bs")
    case True
    then show ?thesis by (auto simp: process_inner_def Let_def)
  next
    case go: False
    show ?thesis
    proof (cases "r1 = Ok () \<and> r2 = Ok ()")
      case True
      then show ?thesis using go f r d il fm by (cases r3; cases b) (auto simp: process_inner_def Let_def)
    next
      case False
      then show ?thesis using go f r fm by (cases r1; cases r2) (auto simp: process_inner_def Let_def)
    qed
  qed
qed

section \<open>One chunk of a run\<close>

text \<open>The input of a chunk, the offset after it, and the engine that has counted it.\<close>

definition chunk_count :: "nat \<Rightarrow> f32 list \<Rightarrow> ('r, 'q, 'p) engine \<Rightarrow> nat" where
  "chunk_count n out e = length (take n out) div length (en_output_roles e) * unat (ec_input_channels (en_config e))"

definition live_input :: "('r, 'q, 'p) engine \<Rightarrow> bool" where
  "live_input e \<longleftrightarrow> ec_test_signal (en_config e) = NoSignal"

definition chunk_block :: "f32 list option \<Rightarrow> nat \<Rightarrow> nat \<Rightarrow> f32 list \<Rightarrow> ('r, 'q, 'p) engine \<Rightarrow> f32 list option" where
  "chunk_block input offset n out e =
     (if live_input e then map_option (\<lambda>samples. take (chunk_count n out e) (drop offset samples)) input else input)"

definition chunk_short :: "f32 list option \<Rightarrow> nat \<Rightarrow> nat \<Rightarrow> f32 list \<Rightarrow> ('r, 'q, 'p) engine \<Rightarrow> bool" where
  "chunk_short input offset n out e \<longleftrightarrow>
     live_input e \<and> is_some_and (\<lambda>samples. length samples < offset + chunk_count n out e) input"

definition next_offset :: "nat \<Rightarrow> nat \<Rightarrow> f32 list \<Rightarrow> ('r, 'q, 'p) engine \<Rightarrow> nat" where
  "next_offset offset n out e = (if live_input e then offset + chunk_count n out e else offset)"

definition counted :: "('r, 'q, 'p) engine \<Rightarrow> ('r, 'q, 'p) engine" where
  "counted e = e\<lparr>en_metrics := (en_metrics e)\<lparr>mt_processed_blocks := saturating_add (mt_processed_blocks (en_metrics e)) 1\<rparr>\<rparr>"

lemma run_chunks_Nil [simp]: "run_chunks M R Q P n input offset [] e = (Ok (), [], e)"
  by (simp add: run_chunks.simps)

lemma run_chunks_step:
  "out \<noteq> [] \<Longrightarrow> 0 < n \<Longrightarrow> run_chunks M R Q P n input offset out e =
     (if chunk_short input offset n out e then (Panic, out, e)
      else case process_inner M R Q P (chunk_block input offset n out e) (take n out) e of
        (Err f, chunk, e1) \<Rightarrow> (Err f, chunk @ drop n out, e1)
      | (Panic, chunk, e1) \<Rightarrow> (Panic, chunk @ drop n out, e1)
      | (Ok _, chunk, e1) \<Rightarrow>
          (case run_chunks M R Q P n input (next_offset offset n out e) (drop n out) (counted e1) of
             (res, rest, e2) \<Rightarrow> (res, chunk @ rest, e2)))"
proof -
  assume "out \<noteq> []" "0 < n"
  then have go: "(out = [] \<or> n = 0) = False" by simp
  show ?thesis
    unfolding run_chunks.simps [of M R Q P n input offset out e] chunk_short_def chunk_block_def next_offset_def
      counted_def chunk_count_def live_input_def Let_def go by (rule if_False)
qed

lemma chunk_metrics [simp]:
  "chunk_short input offset n out (e\<lparr>en_metrics := m\<rparr>) = chunk_short input offset n out e"
  "chunk_block input offset n out (e\<lparr>en_metrics := m\<rparr>) = chunk_block input offset n out e"
  "next_offset offset n out (e\<lparr>en_metrics := m\<rparr>) = next_offset offset n out e"
  by (simp_all add: chunk_short_def chunk_block_def next_offset_def chunk_count_def live_input_def)

lemma counted_metrics:
  "counted (e\<lparr>en_metrics := m\<rparr>) = (counted e)\<lparr>en_metrics := m\<lparr>mt_processed_blocks := saturating_add (mt_processed_blocks m) 1\<rparr>\<rparr>"
  by (simp add: counted_def)

lemma run_chunks_metrics:
  assumes "0 < n"
  shows "run_chunks M R Q P n input offset out e = (res, out', e') \<Longrightarrow>
     \<exists>m'. run_chunks M R Q P n input offset out (e\<lparr>en_metrics := m\<rparr>) = (res, out', e'\<lparr>en_metrics := m'\<rparr>)"
proof (induction "length out" arbitrary: out offset e res out' e' m rule: less_induct)
  case less
  show ?case
  proof (cases "out = []")
    case False
    obtain r1 c1 e1 where inner: "process_inner M R Q P (chunk_block input offset n out e) (take n out) e = (r1, c1, e1)"
      by (rule prod_cases3)
    then have inner_m: "process_inner M R Q P (chunk_block input offset n out e) (take n out) (e\<lparr>en_metrics := m\<rparr>)
        = (r1, c1, e1\<lparr>en_metrics := m\<rparr>)" by (simp add: process_inner_metrics)
    obtain r3 c3 e3 where rest: "run_chunks M R Q P n input (next_offset offset n out e) (drop n out) (counted e1) = (r3, c3, e3)"
      by (rule prod_cases3)
    have "length (drop n out) < length out" using False assms by (cases out) simp_all
    from less.hyps [OF this rest, of "m\<lparr>mt_processed_blocks := saturating_add (mt_processed_blocks m) 1\<rparr>"]
    obtain m' where rest_m: "run_chunks M R Q P n input (next_offset offset n out e) (drop n out)
        (counted (e1\<lparr>en_metrics := m\<rparr>)) = (r3, c3, e3\<lparr>en_metrics := m'\<rparr>)"
      unfolding counted_metrics by blast
    note step = run_chunks_step [OF False assms, of M R Q P input offset]
    show ?thesis
    proof (cases "chunk_short input offset n out e")
      case True
      then have "e' = e" "(res, out') = (Panic, out)" using less.prems by (simp_all add: step)
      then show ?thesis using True by (intro exI [of _ m]) (simp add: step)
    next
      case fits: False
      show ?thesis
      proof (cases r1)
        case (Ok u)
        then have eq: "res = r3" "out' = c1 @ c3" "e' = e3" using less.prems fits by (simp_all add: step inner rest)
        show ?thesis unfolding eq using fits Ok by (intro exI [of _ m']) (simp add: step inner_m rest_m)
      next
        case (Err f)
        then have eq: "res = Err f" "out' = c1 @ drop n out" "e' = e1" using less.prems fits by (simp_all add: step inner)
        show ?thesis unfolding eq using fits Err by (intro exI [of _ m]) (simp add: step inner_m)
      next
        case Panic
        then have eq: "res = Panic" "out' = c1 @ drop n out" "e' = e1" using less.prems fits by (simp_all add: step inner)
        show ?thesis unfolding eq using fits Panic by (intro exI [of _ m]) (simp add: step inner_m)
      qed
    qed
  qed (use less.prems in auto)
qed

section \<open>Splitting a run\<close>

lemma fill_mono_config:
  "en_config (snd (fill_mono M input k e)) = en_config e \<and> en_output_roles (snd (fill_mono M input k e)) = en_output_roles e"
  by (simp add: fill_mono_def Let_def case_prod_beta split: test_signal.split option.split list.split)

lemma render_planar_config:
  "en_config (snd (render_planar M R Q P k e)) = en_config e
     \<and> en_output_roles (snd (render_planar M R Q P k e)) = en_output_roles e"
proof (cases "en_pcm_renderer e")
  case (Some q)
  then show ?thesis by (simp add: render_planar_def Let_def case_prod_beta)
next
  case None
  show ?thesis
  proof (cases "en_renderer e")
    case (Some r)
    obtain res gains scratch r' where call: "rd_render_gains R (en_listener e) [block_object M k e] (en_gains e)
        (en_renderer_scratch e) r = (res, gains, scratch, r')" by (rule prod_cases4)
    obtain accepted p where set: "dt_set_delays P (map sg_delay_samples gains @ drop (length gains) (en_delays_scratch e))
        (en_delay_processor e) = (accepted, p)" by (rule prod.exhaust)
    show ?thesis
    proof (cases "res = Ok () \<and> (ec_apply_geometric_delay (en_config e) \<or> en_dynamic_delays e)")
      case True
      then show ?thesis using None Some call set
        by (cases "length (en_delays_scratch e) < length gains"; cases accepted) (simp_all add: render_planar_def Let_def)
    next
      case False
      then show ?thesis using None Some call by (cases res) (auto simp: render_planar_def Let_def)
    qed
  qed (use None in \<open>simp add: render_planar_def Let_def\<close>)
qed

lemma process_inner_config:
  "process_inner M R Q P input out e = (res, out', e') \<Longrightarrow>
     en_config e' = en_config e \<and> en_output_roles e' = en_output_roles e"
proof -
  assume run: "process_inner M R Q P input out e = (res, out', e')"
  let ?k = "length out div length (en_output_roles e)"
  obtain r1 e1 where f: "fill_mono M input ?k e = (r1, e1)" by (rule prod.exhaust)
  obtain r2 e2 where r: "render_planar M R Q P ?k e1 = (r2, e2)" by (rule prod.exhaust)
  have "en_config e2 = en_config e \<and> en_output_roles e2 = en_output_roles e"
    "en_config e1 = en_config e \<and> en_output_roles e1 = en_output_roles e"
    using fill_mono_config [of M input ?k e] render_planar_config [of M R Q P ?k e1] f r by simp_all
  then show ?thesis using run
    by (auto simp: process_inner_def Let_def f r split: if_splits outcome.splits prod.splits bool.splits)
qed

text \<open>Reading on from an offset is reading from the start of what is left.\<close>

lemma run_chunks_shift:
  assumes n: "0 < n" and k: "k \<le> length samples"
  shows "live_input e \<Longrightarrow> run_chunks M R Q P n (Some samples) (k + offset) out e
    = run_chunks M R Q P n (Some (drop k samples)) offset out e"
proof (induction "length out" arbitrary: out offset e rule: less_induct)
  case less
  show ?case
  proof (cases "out = []")
    case False
    have same: "chunk_short (Some samples) (k + offset) n out e = chunk_short (Some (drop k samples)) offset n out e"
      "chunk_block (Some samples) (k + offset) n out e = chunk_block (Some (drop k samples)) offset n out e"
      "next_offset (k + offset) n out e = k + next_offset offset n out e"
      using less.prems k by (auto simp: chunk_short_def chunk_block_def next_offset_def add.commute)
    obtain r1 c1 e1 where inner: "process_inner M R Q P (chunk_block (Some (drop k samples)) offset n out e) (take n out) e = (r1, c1, e1)"
      by (rule prod_cases3)
    have "live_input (counted e1)"
      using process_inner_config [OF inner] less.prems by (simp add: live_input_def counted_def)
    moreover have "length (drop n out) < length out" using False n by (cases out) simp_all
    ultimately have "run_chunks M R Q P n (Some samples) (k + next_offset offset n out e) (drop n out) (counted e1)
        = run_chunks M R Q P n (Some (drop k samples)) (next_offset offset n out e) (drop n out) (counted e1)"
      using less.hyps by blast
    then show ?thesis unfolding run_chunks_step [OF False n] same inner by (cases r1) simp_all
  qed simp
qed

text \<open>Whole blocks at the front are a run of their own.\<close>

lemma run_chunks_append:
  assumes n: "0 < n" and c: "n mod length (en_output_roles e) = 0"
  shows "length out1 mod n = 0 \<Longrightarrow>
    run_chunks M R Q P n input offset (out1 @ out2) e =
      (case run_chunks M R Q P n input offset out1 e of
         (Ok _, o1, e1) \<Rightarrow>
           (case run_chunks M R Q P n input
               (if live_input e then offset + length out1 div length (en_output_roles e) * unat (ec_input_channels (en_config e))
                else offset) out2 e1 of
              (res, o2, e2) \<Rightarrow> (res, o1 @ o2, e2))
       | (Err f, o1, e1) \<Rightarrow> (Err f, o1 @ out2, e1)
       | (Panic, o1, e1) \<Rightarrow> (Panic, o1 @ out2, e1))"
  using c
proof (induction "length out1" arbitrary: out1 offset e rule: less_induct)
  case less
  let ?c = "length (en_output_roles e)"
  show ?case
  proof (cases "out1 = []")
    case False
    then have long: "n \<le> length out1" using less.prems(1) n by (cases "n \<le> length out1") auto
    then have tk: "take n (out1 @ out2) = take n out1" "drop n (out1 @ out2) = drop n out1 @ out2" by simp_all
    have same: "chunk_count n (out1 @ out2) e = chunk_count n out1 e" by (simp only: chunk_count_def tk)
    have same': "chunk_short input offset n (out1 @ out2) e = chunk_short input offset n out1 e"
      "chunk_block input offset n (out1 @ out2) e = chunk_block input offset n out1 e"
      "next_offset offset n (out1 @ out2) e = next_offset offset n out1 e"
      by (simp_all add: chunk_short_def chunk_block_def next_offset_def same)
    obtain r1 c1 e1 where inner: "process_inner M R Q P (chunk_block input offset n out1 e) (take n out1) e = (r1, c1, e1)"
      by (rule prod_cases3)
    note cfg = process_inner_config [OF inner]
    have e1: "en_config (counted e1) = en_config e" "en_output_roles (counted e1) = en_output_roles e"
      "live_input (counted e1) = live_input e"
      using cfg by (simp_all add: counted_def live_input_def)
    have total: "length (take n out1) div ?c + length (drop n out1) div ?c = length out1 div ?c"
    proof (cases "?c = 0")
      case False
      obtain j where "n = ?c * j" using less.prems(2) by auto
      then show ?thesis using long div_plus_div_distrib_dvd_left [of ?c n "length out1 - n"] by simp
    qed simp
    have offs: "(if live_input e then next_offset offset n out1 e + length (drop n out1) div ?c * unat (ec_input_channels (en_config e))
        else next_offset offset n out1 e)
      = (if live_input e then offset + length out1 div ?c * unat (ec_input_channels (en_config e)) else offset)"
      using arg_cong [OF total, of "\<lambda>x. x * unat (ec_input_channels (en_config e))"]
      by (simp add: next_offset_def chunk_count_def add_mult_distrib)
    have m: "length (drop n out1) mod n = 0" using less.prems(1) long by (simp add: le_mod_geq)
    have "length (drop n out1) < length out1" using False n by (cases out1) simp_all
    from less.hyps [OF this m, of "counted e1" "next_offset offset n out1 e"] less.prems(2)
    have rest: "run_chunks M R Q P n input (next_offset offset n out1 e) (drop n out1 @ out2) (counted e1) =
      (case run_chunks M R Q P n input (next_offset offset n out1 e) (drop n out1) (counted e1) of
         (Ok _, o1, e1) \<Rightarrow>
           (case run_chunks M R Q P n input
               (if live_input e then offset + length out1 div ?c * unat (ec_input_channels (en_config e)) else offset) out2 e1 of
              (res, o2, e2) \<Rightarrow> (res, o1 @ o2, e2))
       | (Err f, o1, e1) \<Rightarrow> (Err f, o1 @ out2, e1)
       | (Panic, o1, e1) \<Rightarrow> (Panic, o1 @ out2, e1))"
      unfolding e1 offs by simp
    have ne: "out1 @ out2 \<noteq> []" using False by simp
    show ?thesis
      unfolding run_chunks_step [OF False n] run_chunks_step [OF ne n] same' tk inner
      by (cases r1) (simp_all add: rest split: prod.split outcome.split)
  qed simp
qed

lemma chunk_total:
  assumes "n mod c = 0"
  shows "length (take n xs) div c + length (drop n xs) div c = length xs div (c::nat)"
proof (cases "n \<le> length xs \<and> c \<noteq> 0")
  case True
  obtain j where "n = c * j" using assms by auto
  then show ?thesis using True div_plus_div_distrib_dvd_left [of c n "length xs - n"] by simp
qed auto

text \<open>A run reads no more input than its frames need.\<close>

lemma run_chunks_take:
  assumes n: "0 < n" and k: "k \<le> length samples" and c: "n mod c = 0"
  shows "live_input e \<Longrightarrow> c = length (en_output_roles e) \<Longrightarrow> i = unat (ec_input_channels (en_config e)) \<Longrightarrow>
    offset + length out div c * i \<le> k \<Longrightarrow>
    run_chunks M R Q P n (Some samples) offset out e = run_chunks M R Q P n (Some (take k samples)) offset out e"
proof (induction "length out" arbitrary: out offset e rule: less_induct)
  case less
  show ?case
  proof (cases "out = []")
    case False
    have part: "length (take n out) div c * i + length (drop n out) div c * i = length out div c * i"
      using chunk_total [OF c, of out] by (metis add_mult_distrib)
    then have fit: "offset + chunk_count n out e \<le> k" and later: "next_offset offset n out e + length (drop n out) div c * i \<le> k"
      using less.prems by (simp_all add: chunk_count_def next_offset_def)
    have same: "chunk_short (Some samples) offset n out e = chunk_short (Some (take k samples)) offset n out e"
      using fit k by (simp add: chunk_short_def)
    have block: "chunk_block (Some samples) offset n out e = chunk_block (Some (take k samples)) offset n out e"
      using fit less.prems(1) by (simp add: chunk_block_def min_def drop_take)
    obtain r1 c1 e1 where inner: "process_inner M R Q P (chunk_block (Some (take k samples)) offset n out e) (take n out) e = (r1, c1, e1)"
      by (rule prod_cases3)
    have e1: "live_input (counted e1)" "c = length (en_output_roles (counted e1))" "i = unat (ec_input_channels (en_config (counted e1)))"
      using process_inner_config [OF inner] less.prems by (simp_all add: live_input_def counted_def)
    have "length (drop n out) < length out" using False n by (cases out) simp_all
    from less.hyps [OF this e1 later] show ?thesis
      unfolding run_chunks_step [OF False n] same block inner by (cases r1) simp_all
  qed simp
qed

section \<open>Callbacks as runs\<close>

text \<open>What is left of an engine without its metrics.\<close>

definition audio_state :: "('r, 'q, 'p) engine \<Rightarrow> ('r, 'q, 'p) engine" where
  "audio_state e = e\<lparr>en_metrics := metrics_default\<rparr>"

lemma audio_state_metrics [simp]: "audio_state (e\<lparr>en_metrics := m\<rparr>) = audio_state e"
  by (simp add: audio_state_def)

lemma audio_stateE:
  assumes "audio_state a = audio_state b"
  shows "a = b\<lparr>en_metrics := en_metrics a\<rparr>"
  using assms by (cases a; cases b) (simp add: audio_state_def)

definition chunk_samples :: "('r, 'q, 'p) engine \<Rightarrow> nat" where
  "chunk_samples e = min (unat (ec_block_size (en_config e)) * length (en_output_roles e)) (2 ^ 64 - 1)"

lemma callback_runs:
  assumes "process_interleaved M R Q P t input out e = (Ok ProcessOk, out', e')"
  shows "shape_valid out e \<and> input_valid input out e
    \<and> (\<exists>e1. run_chunks M R Q P (chunk_samples e) input 0 out e = (Ok (), out', e1) \<and> audio_state e1 = audio_state e')"
proof -
  let ?m = "(en_metrics e)\<lparr>mt_callback_count := saturating_add (mt_callback_count (en_metrics e)) 1\<rparr>"
  let ?e0 = "e\<lparr>en_metrics := ?m\<rparr>"
  have valid: "shape_valid out ?e0 = shape_valid out e" "input_valid input out ?e0 = input_valid input out e"
    by (simp_all add: shape_valid_def input_valid_def)
  obtain res o1 e1 where run: "run_chunks M R Q P (chunk_samples e) input 0 out ?e0 = (res, o1, e1)" by (rule prod_cases3)
  have ok: "shape_valid out e" "input_valid input out e" "res = Ok ()" "o1 = out'" "audio_state e1 = audio_state e'"
    using assms run valid
    by (auto simp: process_interleaved_def Let_def chunk_samples_def split: if_splits outcome.splits option.splits)
  have "0 < chunk_samples e" using ok(1) by (simp add: shape_valid_def chunk_samples_def Let_def)
  from run_chunks_metrics [OF this run, of "en_metrics e"] obtain m'
    where "run_chunks M R Q P (chunk_samples e) input 0 out e = (Ok (), out', e1\<lparr>en_metrics := m'\<rparr>)"
    using ok by auto
  then show ?thesis using ok by auto
qed

context engine_parts
begin

lemma run_is_callback:
  assumes e: "engine_ok ok good P ready e" and m: "timing_ok n (en_metrics e)" and n: "n + 1 < 2 ^ 64"
    and valid: "shape_valid out e" "input_valid input out e"
    and run: "run_chunks M R Q P (chunk_samples e) input 0 out e = (Ok (), out', e1)"
  shows "\<exists>e'. process_interleaved M R Q P t input out e = (Ok ProcessOk, out', e') \<and> audio_state e' = audio_state e1"
proof -
  let ?m = "(en_metrics e)\<lparr>mt_callback_count := saturating_add (mt_callback_count (en_metrics e)) 1\<rparr>"
  let ?e0 = "e\<lparr>en_metrics := ?m\<rparr>"
  have valid0: "shape_valid out ?e0" "input_valid input out ?e0"
    using valid by (simp_all add: shape_valid_def input_valid_def)
  have pos: "0 < chunk_samples e" using valid(1) by (simp add: shape_valid_def chunk_samples_def Let_def)
  from run_chunks_metrics [OF this run, of ?m] obtain m1
    where run0: "run_chunks M R Q P (chunk_samples e) input 0 out ?e0 = (Ok (), out', e1\<lparr>en_metrics := m1\<rparr>)" by blast
  have "0 + length out div length (en_output_roles ?e0) * unat (ec_input_channels (en_config ?e0)) \<le> length samples"
    if "input = Some samples" "ec_test_signal (en_config ?e0) = NoSignal" for samples
    using valid(2) that by (simp add: input_valid_def Let_def)
  moreover have "engine_ok ok good P ready ?e0" using e by (simp add: engine_ok_def Let_def)
  ultimately have "same_run ?e0 (e1\<lparr>en_metrics := m1\<rparr>)"
    using run_chunks_ok [of ?e0 "chunk_samples e" input 0 out M] pos run0 by simp
  then have "timing_ok n m1" using m by (auto simp: same_run_def timing_ok_def)
  then obtain m' where "record_timing t m1 = Some m'" using record_timing_ok [OF _ n] by blast
  then show ?thesis using valid0 run0
    by (simp add: process_interleaved_def Let_def chunk_samples_def)
qed

lemma callback_splits:
  assumes e: "engine_ok ok good P ready e" and m: "timing_ok n (en_metrics e)"
    and count: "unat (mt_callback_count (en_metrics e)) = n" and n: "n + 2 < 2 ^ 64"
    and live: "live_input e" and c: "chunk_samples e mod length (en_output_roles e) = 0"
    and out1: "length out1 mod chunk_samples e = 0" "out1 \<noteq> []" and out2: "out2 \<noteq> []"
    and in1: "length in1 = length out1 div length (en_output_roles e) * unat (ec_input_channels (en_config e))"
    and whole: "process_interleaved M R Q P t (Some (in1 @ in2)) (out1 @ out2) e = (Ok ProcessOk, out', e')"
  shows "\<exists>o1 e1 o2 e2. process_interleaved M R Q P t1 (Some in1) out1 e = (Ok ProcessOk, o1, e1)
    \<and> process_interleaved M R Q P t2 (Some in2) out2 e1 = (Ok ProcessOk, o2, e2)
    \<and> out' = o1 @ o2 \<and> audio_state e2 = audio_state e'"
proof -
  let ?c = "length (en_output_roles e)" and ?i = "unat (ec_input_channels (en_config e))" and ?n = "chunk_samples e"
  from callback_runs [OF whole] obtain ew where
    valid: "shape_valid (out1 @ out2) e" "input_valid (Some (in1 @ in2)) (out1 @ out2) e"
    and run: "run_chunks M R Q P ?n (Some (in1 @ in2)) 0 (out1 @ out2) e = (Ok (), out', ew)" "audio_state ew = audio_state e'"
    by blast
  have pos: "0 < ?n" "0 < ?c" using valid(1) by (simp_all add: shape_valid_def chunk_samples_def Let_def)
  have d1: "?c dvd length out1" using out1(1) c by (metis dvd_trans mod_0_imp_dvd)
  have "?c dvd length out1 + length out2" using valid(1) by (simp add: shape_valid_def Let_def mod_0_imp_dvd)
  then have d2: "?c dvd length out2" using d1 by (simp add: dvd_add_right_iff)
  have frames: "(length out1 + length out2) div ?c = length out1 div ?c + length out2 div ?c"
    using d1 by (rule div_plus_div_distrib_dvd_left)
  have room: "(length out1 div ?c + length out2 div ?c) * ?i < 2 ^ 64" "(length out1 div ?c + length out2 div ?c) * ?i \<le> length in1 + length in2"
    and i: "ec_input_channels (en_config e) \<noteq> 0"
    using valid(2) live frames by (simp_all add: input_valid_def live_input_def Let_def)
  have pcm: "en_pcm_renderer e = None \<or> ?n dvd length out2"
  proof (cases "en_pcm_renderer e")
    case (Some q)
    then have "?n dvd length out1 + length out2"
      using valid(1) unfolding shape_valid_def chunk_samples_def [symmetric] Let_def by (simp add: mod_0_imp_dvd)
    then show ?thesis using out1(1) by (simp add: dvd_add_right_iff mod_0_imp_dvd)
  qed simp
  have v1: "shape_valid out1 e" "input_valid (Some in1) out1 e"
  proof -
    show s: "shape_valid out1 e" using out1 d1 pos unfolding shape_valid_def chunk_samples_def [symmetric] Let_def by simp
    show "input_valid (Some in1) out1 e"
      using s room(1) i in1 unfolding input_valid_def Let_def by (simp add: add_mult_distrib)
  qed
  have shape2: "shape_valid out2 e" "length out2 div ?c * ?i \<le> length in2" "length out2 div ?c * ?i < 2 ^ 64"
  proof -
    show "shape_valid out2 e"
      using out2 d2 pos pcm unfolding shape_valid_def chunk_samples_def [symmetric] Let_def by auto
    show "length out2 div ?c * ?i \<le> length in2" "length out2 div ?c * ?i < 2 ^ 64"
      using room in1 by (simp_all add: add_mult_distrib)
  qed
  note append = run_chunks_append [OF pos(1) c out1(1), of M R Q P "Some (in1 @ in2)" 0 out2]
  have first: "run_chunks M R Q P ?n (Some (in1 @ in2)) 0 out1 e = run_chunks M R Q P ?n (Some in1) 0 out1 e"
    using run_chunks_take [OF pos(1) _ c live refl refl, of "length in1" "in1 @ in2" 0 out1 M R Q P] in1 by simp
  obtain r1 o1 e1 where r1: "run_chunks M R Q P ?n (Some in1) 0 out1 e = (r1, o1, e1)" by (rule prod_cases3)
  have ok1: "r1 = Ok ()" using run(1) append first r1 by (cases r1) simp_all
  from run_is_callback [OF e m _ v1 r1 [unfolded ok1], of t1] n obtain e1' where
    call1: "process_interleaved M R Q P t1 (Some in1) out1 e = (Ok ProcessOk, o1, e1')" "audio_state e1' = audio_state e1" by auto
  have e1': "engine_ok ok good P ready e1'" "timing_ok (Suc n) (en_metrics e1')" "en_config e1' = en_config e"
    "en_output_roles e1' = en_output_roles e"
    using callback_safe [OF e m count, of out1 "Some in1" M t1] n call1(1) by simp_all
  have "same_run e e1"
    using run_chunks_ok [OF e pos(1), of "Some in1" 0 out1 M] r1 in1 by simp
  then have run1: "en_config e1 = en_config e" "en_pcm_renderer e1 = None \<longleftrightarrow> en_pcm_renderer e = None"
    by (simp_all add: same_run_def)
  have same1: "e1' = e1\<lparr>en_metrics := en_metrics e1'\<rparr>" by (rule audio_stateE [OF call1(2)])
  have live1: "live_input e1" and cs: "chunk_samples e1' = ?n"
    using live run1 e1'(3,4) by (simp_all add: live_input_def chunk_samples_def)
  have pcm1: "en_pcm_renderer e1' = None \<longleftrightarrow> en_pcm_renderer e = None"
    by (subst same1) (simp add: run1)
  obtain r2 o2 e2 where r2: "run_chunks M R Q P ?n (Some (in1 @ in2)) (length in1) out2 e1 = (r2, o2, e2)" by (rule prod_cases3)
  have whole2: "r2 = Ok ()" "out' = o1 @ o2" "ew = e2"
    using run(1) append first r1 ok1 r2 live in1 by simp_all
  have "run_chunks M R Q P ?n (Some in2) 0 out2 e1 = (Ok (), o2, e2)"
    using run_chunks_shift [OF pos(1) _ live1(1), of "length in1" "in1 @ in2" M R Q P 0 out2] r2 whole2 by simp
  from run_chunks_metrics [OF pos(1) this, of "en_metrics e1'"] obtain m2 where
    "run_chunks M R Q P ?n (Some in2) 0 out2 (e1\<lparr>en_metrics := en_metrics e1'\<rparr>) = (Ok (), o2, e2\<lparr>en_metrics := m2\<rparr>)" by blast
  then have run2: "run_chunks M R Q P (chunk_samples e1') (Some in2) 0 out2 e1' = (Ok (), o2, e2\<lparr>en_metrics := m2\<rparr>)"
    unfolding cs by (subst same1)
  have v2: "shape_valid out2 e1'" "input_valid (Some in2) out2 e1'"
  proof -
    show s: "shape_valid out2 e1'" using shape2(1) unfolding shape_valid_def e1'(3,4) pcm1 .
    show "input_valid (Some in2) out2 e1'"
      using s shape2(2,3) i unfolding input_valid_def e1'(3,4) Let_def by simp
  qed
  from run_is_callback [OF e1'(1,2) _ v2 run2, of t2] n obtain e2' where
    "process_interleaved M R Q P t2 (Some in2) out2 e1' = (Ok ProcessOk, o2, e2')" "audio_state e2' = audio_state e2" by auto
  then show ?thesis using call1(1) whole2 run(2) by auto
qed

end

end
