(* ===== verification/Engine_Output.thy ===== *)
theory Engine_Output
  imports Engine_Blocks
begin

text \<open>
  What the engine plays: with the basic gain renderer and no delay changes every valid callback
  succeeds, and the samples of a block are the mean of the input channels, scaled by the gains of
  the renderer and sent through the delay lines.
\<close>

section \<open>Gain engines stay ready\<close>

text \<open>The basic renderer of an engine is configured for the output channels of the engine.\<close>

definition gain_ready :: "(basic_renderer, 'q, 'p) engine \<Rightarrow> bool" where
  "gain_ready e \<longleftrightarrow> (\<forall>r. en_renderer e = Some r \<longrightarrow> gr_configured r \<and> gr_max_objects r \<noteq> 0
     \<and> length (gr_layout r) = length (en_output_roles e) \<and> length (en_renderer_scratch e) = length (en_output_roles e))"

lemma gain_ready_metrics [simp]: "gain_ready (e\<lparr>en_metrics := m\<rparr>) = gain_ready e"
  by (simp add: gain_ready_def)

lemma basic_render_setup:
  assumes "basic_render_gains powf l objs gains scratch r = (res, gains', scratch', r')"
  shows "gr_configured r' = gr_configured r" "gr_max_objects r' = gr_max_objects r" "gr_layout r' = gr_layout r"
  using basic_render_gains_shape [OF assms]
  by (metis basic_renderer.select_convs basic_renderer.surjective basic_renderer.update_convs(7))+

lemma basic_render_Ok:
  assumes "basic_ok r" "gr_configured r" "length objs \<le> unat (gr_max_objects r)"
    and "length gains = length objs * length (gr_layout r)" "length scratch = length (gr_layout r)"
  shows "fst (basic_render_gains powf l objs gains scratch r) = Ok ()"
  using objects_bound [OF assms(1-3)] object_loop_Ok [OF assms(1,2), of 0 objs scratch powf l gains] assms
  by (auto simp: basic_render_gains_def Let_def not_less split: prod.splits)

lemma fill_mono_keeps:
  "en_renderer (snd (fill_mono M input k e)) = en_renderer e \<and> en_renderer_scratch (snd (fill_mono M input k e)) = en_renderer_scratch e
     \<and> en_dynamic_delays (snd (fill_mono M input k e)) = en_dynamic_delays e
     \<and> en_delay_processor (snd (fill_mono M input k e)) = en_delay_processor e"
  by (cases "ec_test_signal (en_config e)"; cases input; cases "zero_prefix k (en_mono e)")
    (simp_all add: fill_mono_def Let_def case_prod_beta)

lemma render_planar_gain_ready:
  assumes "gain_ready e"
  shows "gain_ready (snd (render_planar M (basic_vtable f) Q P k e))
    \<and> en_dynamic_delays (snd (render_planar M (basic_vtable f) Q P k e)) = en_dynamic_delays e"
proof (cases "en_pcm_renderer e")
  case (Some q)
  then show ?thesis using assms by (simp add: render_planar_def Let_def case_prod_beta gain_ready_def)
next
  case None
  show ?thesis
  proof (cases "en_renderer e")
    case (Some r)
    obtain res gains scratch r' where call: "basic_render_gains f (en_listener e) [block_object M k e] (en_gains e)
        (en_renderer_scratch e) r = (res, gains, scratch, r')" by (rule prod_cases4)
    note kept = basic_render_setup [OF call] basic_render_gains_shape [OF call]
    obtain accepted p where set: "dt_set_delays P (map sg_delay_samples gains @ drop (length gains) (en_delays_scratch e))
        (en_delay_processor e) = (accepted, p)" by (rule prod.exhaust)
    show ?thesis
    proof (cases "res = Ok () \<and> (ec_apply_geometric_delay (en_config e) \<or> en_dynamic_delays e)")
      case True
      then show ?thesis using None Some call set assms kept
        by (cases "length (en_delays_scratch e) < length gains"; cases accepted)
          (simp_all add: render_planar_def Let_def gain_ready_def basic_vtable_def)
    next
      case False
      then show ?thesis using None Some call assms kept
        by (cases res) (auto simp: render_planar_def Let_def gain_ready_def basic_vtable_def)
    qed
  qed (use None assms in \<open>simp add: render_planar_def Let_def gain_ready_def\<close>)
qed

lemma process_inner_gain_ready:
  assumes "gain_ready e" and run: "process_inner M (basic_vtable f) Q P input out e = (res, out', e')"
  shows "gain_ready e' \<and> en_dynamic_delays e' = en_dynamic_delays e"
proof -
  let ?k = "length out div length (en_output_roles e)"
  obtain r1 e1 where fill: "fill_mono M input ?k e = (r1, e1)" by (rule prod.exhaust)
  obtain r2 e2 where r: "render_planar M (basic_vtable f) Q P ?k e1 = (r2, e2)" by (rule prod.exhaust)
  have e1: "gain_ready e1" "en_dynamic_delays e1 = en_dynamic_delays e"
    using fill_mono_keeps [of M input ?k e] fill_mono_config [of M input ?k e] fill assms(1) by (simp_all add: gain_ready_def)
  have e2: "gain_ready e2" "en_dynamic_delays e2 = en_dynamic_delays e"
    using render_planar_gain_ready [OF e1(1), of M f Q P ?k] r e1(2) by simp_all
  have "gain_ready (e2\<lparr>en_delayed := a, en_delay_processor := b\<rparr>)" "gain_ready (e2\<lparr>en_delayed := a, en_delay_processor := b, en_frame_cursor := c\<rparr>)" for a b c
    using e2(1) by (simp_all add: gain_ready_def)
  then show ?thesis using run assms(1) e1 e2
    by (auto simp: process_inner_def Let_def fill r split: if_splits outcome.splits prod.splits bool.splits)
qed

lemma run_chunks_gain_ready:
  assumes n: "0 < n"
  shows "gain_ready e \<Longrightarrow> run_chunks M (basic_vtable f) Q P n input offset out e = (res, out', e') \<Longrightarrow>
    gain_ready e' \<and> en_dynamic_delays e' = en_dynamic_delays e"
proof (induction "length out" arbitrary: out offset e res out' e' rule: less_induct)
  case less
  show ?case
  proof (cases "out = []")
    case False
    obtain r1 c1 e1 where inner: "process_inner M (basic_vtable f) Q P (chunk_block input offset n out e) (take n out) e = (r1, c1, e1)"
      by (rule prod_cases3)
    obtain r3 c3 e3 where rest: "run_chunks M (basic_vtable f) Q P n input (next_offset offset n out e) (drop n out) (counted e1) = (r3, c3, e3)"
      by (rule prod_cases3)
    note e1 = process_inner_gain_ready [OF less.prems(1) inner]
    have "gain_ready (counted e1)" "en_dynamic_delays (counted e1) = en_dynamic_delays e"
      using e1 by (simp_all add: counted_def gain_ready_def)
    moreover have "length (drop n out) < length out" using False n by (cases out) simp_all
    ultimately have e3: "gain_ready e3 \<and> en_dynamic_delays e3 = en_dynamic_delays e"
      using less.hyps rest by metis
    note step = run_chunks_step [OF False n, of M "basic_vtable f" Q P input offset e]
    show ?thesis using less.prems e1 e3 step inner rest
      by (cases "chunk_short input offset n out e"; cases r1) auto
  qed (use less.prems in auto)
qed

lemma callback_gain_ready:
  assumes "gain_ready e" "process_interleaved M (basic_vtable f) Q P t input out e = (res, out', e')"
  shows "gain_ready e' \<and> en_dynamic_delays e' = en_dynamic_delays e"
proof -
  let ?e0 = "e\<lparr>en_metrics := (en_metrics e)\<lparr>mt_callback_count := saturating_add (mt_callback_count (en_metrics e)) 1\<rparr>\<rparr>"
  let ?n = "min (unat (ec_block_size (en_config e)) * length (en_output_roles e)) (2 ^ 64 - 1)"
  have e0: "gain_ready ?e0" using assms(1) by simp
  obtain r1 o1 e1 where run: "run_chunks M (basic_vtable f) Q P ?n input 0 out ?e0 = (r1, o1, e1)" by (rule prod_cases3)
  have "gain_ready e1 \<and> en_dynamic_delays e1 = en_dynamic_delays e" if "shape_valid out ?e0"
  proof -
    have "0 < ?n" using that by (simp add: shape_valid_def Let_def)
    from run_chunks_gain_ready [OF this e0 run] show ?thesis by simp
  qed
  then show ?thesis using assms(2) e0 run
    by (auto simp: process_interleaved_def Let_def split: if_splits outcome.splits option.splits)
qed

lemma basic_reachable_configured:
  "basic_reachable powf r \<Longrightarrow> gr_configured r \<Longrightarrow> gr_max_objects r \<noteq> 0"
proof (induction rule: basic_reachable.induct)
  case (br_configure r layout rate block most)
  then show ?case by (auto simp: basic_configure_def Let_def split: if_splits)
next
  case (br_render r l objs gains scratch)
  then show ?case by (cases "basic_render_gains powf l objs gains scratch r") (simp add: basic_render_setup)
qed (simp_all add: basic_new_def with_smoothing_def basic_reset_def)

lemma engine_after_gain_ready: "engine_after M S n e \<Longrightarrow> gain_ready e"
proof (induction rule: engine_after.induct)
  case (ea_gain r p hs scene config device e)
  have ok: "basic_ok r" by (rule basic_reachable_ok [OF ea_gain(1)])
  from ea_gain(3) obtain speakers floats dynamic p' m where parts:
    "unat (rd_output_channel_count (basic_vtable (m_powf M)) r) = length speakers"
    "rd_required_scratch_size (basic_vtable (m_powf M)) r = Ok floats"
    "e = engine_start M scene config (Some r) None dynamic speakers (scratch_new floats) p' m"
    by (auto simp: build_gain_def Let_def split: outcome.splits option.splits prod.splits if_splits)
  have conf: "gr_configured r" "floats = of_nat (length (gr_layout r))"
    using parts(2) by (auto simp: basic_vtable_def basic_required_scratch_size_def split: if_splits)
  have "gr_max_objects r \<noteq> 0" by (rule basic_reachable_configured [OF ea_gain(1) conf(1)])
  moreover have "1 \<le> unat (gr_max_objects r)" using calculation by (simp add: Suc_le_eq unat_gt_0)
  from objects_bound(1) [OF ok conf(1) this] have "length (gr_layout r) < 2 ^ 64" by simp
  then have "unat (of_nat (length (gr_layout r)) :: usize) = length (gr_layout r)" by (simp add: unat_of_nat)
  ultimately show ?case using parts(1) conf
    by (simp add: parts(3) gain_ready_def engine_start_def Let_def scratch_new_def basic_vtable_def basic_output_channel_count_def)
next
  case (ea_pcm q p hs scene config device e)
  then obtain speakers p' m where "e = engine_start M scene config None (Some q) False speakers [] p' m"
    by (auto simp: build_pcm_def Let_def split: outcome.splits option.splits prod.splits if_splits)
  then show ?case by (simp add: gain_ready_def engine_start_def Let_def)
next
  case (ea_call n e elapsed input out res out' e')
  then show ?case using callback_gain_ready by blast
qed

section \<open>The samples of a block\<close>

text \<open>The mean of the input channels of each frame.\<close>

definition frame_means :: "nat \<Rightarrow> nat \<Rightarrow> f32 list \<Rightarrow> f32 list" where
  "frame_means channels k samples =
     map (\<lambda>j. f32_div (fold (\<lambda>x s. f32_add s x) (take channels (drop (j * channels) samples)) 0) (f32_of_nat channels)) [0..<k]"

lemma length_frame_means [simp]: "length (frame_means c k samples) = k"
  by (simp add: frame_means_def)

lemma mono_fill_value:
  "0 < c \<Longrightarrow> k * c \<le> length samples \<Longrightarrow> k \<le> length ms \<Longrightarrow>
     mono_fill c k ms samples = frame_means c k samples @ drop k ms"
proof (induction k arbitrary: ms samples)
  case (Suc k)
  then obtain m ms' where ms: "ms = m # ms'" by (cases ms) auto
  have "k * c \<le> length (drop c samples)" "k \<le> length ms'" using Suc.prems ms by simp_all
  then have rest: "mono_fill c k ms' (drop c samples) = frame_means c k (drop c samples) @ drop k ms'"
    using Suc.IH Suc.prems(1) by blast
  have "frame_means c (Suc k) samples
      = f32_div (fold (\<lambda>x s. f32_add s x) (take c samples) 0) (f32_of_nat c) # frame_means c k (drop c samples)"
    by (simp add: frame_means_def upt_conv_Cons map_Suc_upt [symmetric] add.commute del: upt_Suc)
  then show ?case using rest ms Suc.prems(2) by simp
qed (simp add: frame_means_def)

lemma scale_channels_map:
  "length gs = length chs \<Longrightarrow>
     scale_channels k ms chs gs = map (\<lambda>(ch, g). scale_channel k ms ch (sg_gain g)) (zip chs gs)"
  by (induction k ms chs gs rule: scale_channels.induct) simp_all

lemma interleaved_cong:
  assumes "length xs = length ys" "\<And>i f. i < length ys \<Longrightarrow> f < k \<Longrightarrow> xs ! i ! f = ys ! i ! f"
  shows "interleaved xs k = interleaved ys k"
proof -
  have "map (\<lambda>ch. ch ! f) xs = map (\<lambda>ch. ch ! f) ys" if "f \<in> set [0..<k]" for f
    using assms that by (intro nth_equalityI) simp_all
  then have "map (\<lambda>f. map (\<lambda>ch. ch ! f) xs) [0..<k] = map (\<lambda>f. map (\<lambda>ch. ch ! f) ys) [0..<k]"
    by (rule list.map_cong0)
  then show ?thesis by (simp only: interleaved_def)
qed

text \<open>The gains the renderer gives for a block, and what is played with them.\<close>

definition engine_gains :: "(f32 \<Rightarrow> f32 \<Rightarrow> f32) \<Rightarrow> math \<Rightarrow> nat \<Rightarrow> (basic_renderer, 'q, 'p) engine \<Rightarrow> basic_renderer \<Rightarrow> f32 list" where
  "engine_gains f M k e r = map sg_gain (fst (snd (basic_render_gains f (en_listener e) [block_object M k e] (en_gains e)
     (en_renderer_scratch e) r)))"

definition block_output :: "f32 list \<Rightarrow> f32 list \<Rightarrow> f32 list list \<Rightarrow> f32 list \<Rightarrow> nat \<Rightarrow> f32 list" where
  "block_output gains delays hs source k =
     interleaved (map (\<lambda>(g, d, h). delay_line d h (map (\<lambda>x. f32_mul x g) source)) (zip gains (zip delays hs))) k"

lemma block_of_live_engine:
  fixes e :: "'h program_engine"
  assumes ok: "program_ok e" and r: "en_renderer e = Some r" and ready: "gain_ready e"
    and plain: "\<not> ec_apply_geometric_delay (en_config e)" "\<not> en_dynamic_delays e" "live_input e"
    and hs: "delay_holds (en_delay_processor e) hs"
    and out: "length out = k * length (en_output_roles e)" "0 < k" "k \<le> unat (ec_block_size (en_config e))" "length out < 2 ^ 64"
    and samples: "ec_input_channels (en_config e) \<noteq> 0" "k * unat (ec_input_channels (en_config e)) \<le> length samples"
    and source: "source = frame_means (unat (ec_input_channels (en_config e))) k samples"
    and gains: "gains = engine_gains f M k e r"
  shows "\<exists>e'. process_inner M (basic_vtable f) Q delay_vtable (Some samples) out e
      = (Ok (), block_output gains (dl_delays (en_delay_processor e)) hs source k, e')
    \<and> delay_holds (en_delay_processor e') (map (\<lambda>(g, h). rev (map (\<lambda>x. f32_mul x g) source) @ h) (zip gains hs))
    \<and> dl_delays (en_delay_processor e') = dl_delays (en_delay_processor e)
    \<and> en_frame_cursor e' = saturating_add (en_frame_cursor e) (of_nat k)"
proof -
  let ?c = "length (en_output_roles e)" and ?bs = "unat (ec_block_size (en_config e))"
  let ?i = "unat (ec_input_channels (en_config e))" and ?p = "en_delay_processor e"
  have inv: "0 < ?c" "0 < ?bs" "length (en_mono e) = ?bs" "map length (en_planar e) = replicate ?c ?bs"
    "map length (en_delayed e) = replicate ?c ?bs" "length (en_gains e) = ?c" "basic_ok r" "en_pcm_renderer e = None"
    "dl_channel_count ?p = ?c"
    using ok r by (auto simp: program_ok_def engine_ok_def Let_def delay_vtable_def split: option.splits)
  have planar: "length (en_planar e) = ?c" "\<And>ch. ch \<in> set (en_planar e) \<Longrightarrow> length ch = ?bs"
    and delayed: "length (en_delayed e) = ?c" "\<And>ch. ch \<in> set (en_delayed e) \<Longrightarrow> length ch = ?bs"
    using arg_cong [OF inv(4), of length] arg_cong [OF inv(5), of length] arg_cong [OF inv(4), of set] arg_cong [OF inv(5), of set]
    by (auto split: if_splits)
  have i: "0 < ?i" using samples(1) by (simp add: unat_gt_0)
  have k: "length out div ?c = k" "length out mod ?c = 0" using out(1) inv(1) by simp_all
  define e1 where "e1 = e\<lparr>en_mono := source @ drop k (en_mono e)\<rparr>"
  have fill: "fill_mono M (Some samples) k e = (Ok (), e1)"
    using plain(3) i samples(2) out(3) inv(3)
    by (simp add: fill_mono_def live_input_def e1_def source mono_fill_value not_less min.coboundedI1)
  obtain res sgs scratch r' where call: "basic_render_gains f (en_listener e) [block_object M k e] (en_gains e)
      (en_renderer_scratch e) r = (res, sgs, scratch, r')" by (rule prod_cases4)
  have conf: "gr_configured r" "gr_max_objects r \<noteq> 0" "length (gr_layout r) = ?c" "length (en_renderer_scratch e) = ?c"
    using ready r by (simp_all add: gain_ready_def)
  have "1 \<le> unat (gr_max_objects r)" using conf(2) by (simp add: Suc_le_eq unat_gt_0)
  then have res: "res = Ok ()"
    using basic_render_Ok [OF inv(7) conf(1), of "[block_object M k e]" "en_gains e" "en_renderer_scratch e" f "en_listener e"]
      conf inv(6) call by simp
  have sgs: "length sgs = ?c" "gains = map sg_gain sgs"
    using basic_render_gains_shape [OF call] inv(6) gains call by (simp_all add: engine_gains_def)
  have obj: "block_object M k e1 = block_object M k e" by (simp add: e1_def block_object_def Let_def)
  define planar' where "planar' = scale_channels k (en_mono e1) (map (zero_prefix k) (en_planar e)) sgs"
  define e2 where "e2 = e1\<lparr>en_gains := sgs, en_renderer_scratch := scratch, en_renderer := Some r', en_planar := planar'\<rparr>"
  have "render_planar M (basic_vtable f) Q delay_vtable k e1 = (Ok (), e2)"
    unfolding render_planar_def obj using inv(8) r plain call res
    by (simp add: Let_def e1_def basic_vtable_def e2_def planar'_def)
  note rend = this
  have planar': "planar' = map (\<lambda>(ch, g). map (\<lambda>x. f32_mul x g) source @ drop k ch) (zip (map (zero_prefix k) (en_planar e)) gains)"
  proof -
    have "scale_channel k (en_mono e1) ch g = map (\<lambda>x. f32_mul x g) source @ drop k ch" if "length ch = ?bs" for ch g
      using that out(3) inv(3) source by (simp add: scale_channel_def e1_def min_def)
    moreover have "length ch = ?bs" if "(ch, g) \<in> set (zip (map (zero_prefix k) (en_planar e)) sgs)" for ch g
      using set_zip_leftD [OF that] planar(2) by auto
    ultimately show ?thesis
      using planar(1) sgs(1) by (auto simp: planar'_def scale_channels_map sgs(2) zip_map2 intro!: map_cong)
  qed
  have lens: "length planar' = ?c" "length gains = ?c" "length hs = ?c" "length (dl_delays ?p) = ?c"
    using planar(1) sgs hs inv(9) by (simp_all add: planar' delay_holds_def)
  have chan: "\<And>ch. ch \<in> set planar' \<Longrightarrow> k \<le> length ch" "\<And>ch. ch \<in> set (en_delayed e) \<Longrightarrow> k \<le> length ch"
    using source delayed(2) out(3) by (auto simp: planar')
  obtain p' where proc: "process_block_into planar' (en_delayed e) k ?p
      = (Ok (), map (\<lambda>(x, y, d, h). delay_line d h (take k x) @ drop k y) (zip planar' (zip (en_delayed e) (zip (dl_delays ?p) hs))), p')"
    "delay_holds p' (map (\<lambda>(x, h). rev (take k x) @ h) (zip planar' hs))" "dl_delays p' = dl_delays ?p"
    using process_block_into_value [OF hs, of planar' "en_delayed e" k] lens(1) delayed(1) inv(9) chan by auto
  let ?outs = "map (\<lambda>(x, y, d, h). delay_line d h (take k x) @ drop k y) (zip planar' (zip (en_delayed e) (zip (dl_delays ?p) hs)))"
  have tk: "take k (planar' ! c) = map (\<lambda>x. f32_mul x (gains ! c)) source" if "c < ?c" for c
    using that lens planar(1) source by (simp add: planar')
  have il: "interleave ?outs k out = (True, block_output gains (dl_delays ?p) hs source k)"
  proof -
    have short: "\<not> list_ex (\<lambda>ch. length ch < k) ?outs" using chan(1) by (auto simp: list_ex_iff in_set_zip)
    have "length ?outs = ?c" using lens delayed(1) by simp
    then have ne: "?outs \<noteq> []" "length out = min (k * length ?outs) (2 ^ 64 - 1)" "length out div length ?outs = k"
      using inv(1) out by auto
    have "interleaved ?outs k = block_output gains (dl_delays ?p) hs source k"
      unfolding block_output_def
      by (rule interleaved_cong) (use lens delayed(1) tk source in \<open>simp_all add: nth_append\<close>)
    then show ?thesis using short ne out(1) \<open>length ?outs = ?c\<close> by (simp add: interleave_def)
  qed
  have hist: "map (\<lambda>(x, h). rev (take k x) @ h) (zip planar' hs) = map (\<lambda>(g, h). rev (map (\<lambda>x. f32_mul x g) source) @ h) (zip gains hs)"
    by (rule nth_equalityI) (use lens tk in simp_all)
  have e2: "en_planar e2 = planar'" "en_delayed e2 = en_delayed e" "en_delay_processor e2 = ?p" "en_frame_cursor e2 = en_frame_cursor e"
    by (simp_all add: e2_def e1_def)
  have dt: "dt_process_planar delay_vtable (en_planar e2) (en_delayed e2) k (en_delay_processor e2) = (Ok (), ?outs, p')"
    using proc(1) by (simp add: e2 delay_vtable_def)
  have guards: "\<not> (?c = 0 \<or> length out mod ?c \<noteq> 0)" "\<not> (k = 0 \<or> ?bs < k)" "\<not> (en_pcm_renderer e \<noteq> None \<and> k \<noteq> ?bs)"
    using inv out k by auto
  have "process_inner M (basic_vtable f) Q delay_vtable (Some samples) out e
    = (Ok (), block_output gains (dl_delays ?p) hs source k,
       e2\<lparr>en_delayed := ?outs, en_delay_processor := p', en_frame_cursor := saturating_add (en_frame_cursor e) (of_nat k)\<rparr>)"
    unfolding process_inner_def Let_def k(1) using guards by (simp add: fill rend dt [unfolded e2] il e2 del: de_Morgan_disj)
  then show ?thesis using proc(2,3) hist by auto
qed

section \<open>Valid callbacks are played\<close>

text \<open>A gain engine on live input that never changes the delays.\<close>

definition plain_live :: "(basic_renderer, 'q, 'p) engine \<Rightarrow> bool" where
  "plain_live e \<longleftrightarrow> en_renderer e \<noteq> None \<and> \<not> ec_apply_geometric_delay (en_config e) \<and> \<not> en_dynamic_delays e \<and> live_input e
     \<and> unat (ec_block_size (en_config e)) * length (en_output_roles e) < 2 ^ 64"

lemma run_chunks_plays:
  fixes e :: "'h program_engine"
  assumes n: "n = unat (ec_block_size (en_config e)) * length (en_output_roles e)"
  shows "program_ok e \<Longrightarrow> gain_ready e \<Longrightarrow> plain_live e \<Longrightarrow> length (en_output_roles e) dvd length out \<Longrightarrow>
    ec_input_channels (en_config e) \<noteq> 0 \<Longrightarrow>
    offset + length out div length (en_output_roles e) * unat (ec_input_channels (en_config e)) \<le> length samples \<Longrightarrow>
    fst (run_chunks M (basic_vtable f) (spatial_vtable N S) delay_vtable n (Some samples) offset out e) = Ok ()"
  using n
proof (induction "length out" arbitrary: out offset e rule: less_induct)
  case less
  let ?c = "length (en_output_roles e)" and ?i = "unat (ec_input_channels (en_config e))"
  show ?case
  proof (cases "out = []")
    case False
    obtain r where r: "en_renderer e = Some r" using less.prems(3) by (auto simp: plain_live_def)
    have c: "0 < ?c" "0 < unat (ec_block_size (en_config e))" using less.prems(1) by (simp_all add: program_ok_def engine_ok_def Let_def)
    then have pos: "0 < n" using less.prems(7) by simp
    have cn: "?c dvd n" using less.prems(7) by simp
    obtain hs where hs: "delay_holds (en_delay_processor e) hs"
      using less.prems(1) by (auto simp: program_ok_def engine_ok_def Let_def)
    let ?k = "length (take n out) div ?c"
    have tk: "?c dvd length (take n out)" "?c dvd length (drop n out)"
      using cn less.prems(4) by (simp_all add: min_def dvd_diff_nat)
    have part: "?k * ?i + length (drop n out) div ?c * ?i = length out div ?c * ?i"
      using chunk_total [of n ?c out] cn by (metis add_mult_distrib dvd_imp_mod_0)
    have block: "chunk_block (Some samples) offset n out e = Some (take (?k * ?i) (drop offset samples))"
      "\<not> chunk_short (Some samples) offset n out e" "next_offset offset n out e = offset + ?k * ?i"
      using less.prems(3,6) part by (simp_all add: chunk_block_def chunk_short_def next_offset_def chunk_count_def plain_live_def)
    have k: "length (take n out) = ?k * ?c" using tk(1) by simp
    have "take n out \<noteq> []" using False pos by (cases out; cases n) simp_all
    then have "0 < length (take n out)" by blast
    then have k0: "0 < ?k" using tk(1) c(1) by (simp add: div_greater_zero_iff dvd_imp_le del: length_take)
    have "length (take n out) \<le> n" by simp
    then have "?k \<le> n div ?c" by (rule div_le_mono)
    then have kb: "?k \<le> unat (ec_block_size (en_config e))" using less.prems(7) c by simp
    have small: "length (take n out) < 2 ^ 64" using less.prems(3,7) by (simp add: plain_live_def min_def)
    have room: "?k * ?i \<le> length (take (?k * ?i) (drop offset samples))" using less.prems(6) part by simp
    let ?Q = "spatial_vtable N S"
    have plain: "\<not> ec_apply_geometric_delay (en_config e)" "\<not> en_dynamic_delays e" "live_input e"
      using less.prems(3) by (simp_all add: plain_live_def)
    from block_of_live_engine [where M = M and f = f and Q = ?Q,
        OF less.prems(1) r less.prems(2) plain hs k k0 kb small less.prems(5) room refl refl]
    obtain o1 e1 where inner: "process_inner M (basic_vtable f) ?Q delay_vtable
        (chunk_block (Some samples) offset n out e) (take n out) e = (Ok (), o1, e1)"
      unfolding block by blast
    have ok1: "program_ok (counted e1)"
      using engine.process_inner_ok [OF less.prems(1) [unfolded program_ok_def], of M f N S "chunk_block (Some samples) offset n out e" "take n out"] inner
      by (simp add: program_ok_def counted_def engine_ok_def Let_def)
    note kept = process_inner_gain_ready [OF less.prems(2) inner] process_inner_config [OF inner]
    have ren: "en_renderer (counted e1) \<noteq> None"
    proof -
      have "en_pcm_renderer e = None" using less.prems(1) r by (auto simp: program_ok_def engine_ok_def Let_def split: option.splits)
      then have "en_pcm_renderer e1 = None"
        using engine.process_inner_ok [OF less.prems(1) [unfolded program_ok_def], of M f N S "chunk_block (Some samples) offset n out e" "take n out"] inner
        by (simp add: same_setup_def)
      then show ?thesis using ok1 by (auto simp: program_ok_def engine_ok_def counted_def Let_def split: option.splits)
    qed
    have next1: "gain_ready (counted e1)" "plain_live (counted e1)" "en_config (counted e1) = en_config e"
      "en_output_roles (counted e1) = en_output_roles e"
      using kept ren less.prems(3) by (simp_all add: counted_def plain_live_def live_input_def)
    have shorter: "length (drop n out) < length out" using False pos by (cases out) simp_all
    have "fst (run_chunks M (basic_vtable f) ?Q delay_vtable n (Some samples) (offset + ?k * ?i) (drop n out) (counted e1)) = Ok ()"
      by (rule less.hyps [OF shorter ok1 next1(1,2)])
        (use next1(3,4) tk(2) less.prems(5,6,7) part in simp_all)
    then show ?thesis
      unfolding run_chunks_step [OF False pos] using block inner by (auto split: prod.splits)
  qed simp
qed

lemma single_block_run:
  fixes e :: "'h program_engine"
  assumes ok: "program_ok e" "gain_ready e" "plain_live e" and hs: "delay_holds (en_delay_processor e) hs"
    and out: "out \<noteq> []" "length (en_output_roles e) dvd length out"
      "length out \<le> unat (ec_block_size (en_config e)) * length (en_output_roles e)"
    and i: "ec_input_channels (en_config e) \<noteq> 0"
    and samples: "length out div length (en_output_roles e) * unat (ec_input_channels (en_config e)) \<le> length samples"
    and k: "k = length out div length (en_output_roles e)"
    and n: "n = unat (ec_block_size (en_config e)) * length (en_output_roles e)"
  shows "\<exists>e'. run_chunks M (basic_vtable f) (spatial_vtable N S) delay_vtable n (Some samples) 0 out e
    = (Ok (), block_output (engine_gains f M k e (the (en_renderer e))) (dl_delays (en_delay_processor e)) hs
        (frame_means (unat (ec_input_channels (en_config e))) k samples) k, e')"
proof -
  let ?c = "length (en_output_roles e)" and ?i = "unat (ec_input_channels (en_config e))"
  obtain r where r: "en_renderer e = Some r" using ok(3) by (auto simp: plain_live_def)
  have c: "0 < ?c" "0 < unat (ec_block_size (en_config e))" using ok(1) by (simp_all add: program_ok_def engine_ok_def Let_def)
  then have pos: "0 < n" by (simp add: n)
  have tk: "take n out = out" "drop n out = []" using out(3) by (simp_all add: n)
  have block: "chunk_block (Some samples) 0 n out e = Some (take (k * ?i) samples)" "\<not> chunk_short (Some samples) 0 n out e"
    using ok(3) samples by (simp_all add: chunk_block_def chunk_short_def chunk_count_def plain_live_def tk k)
  have kc: "length out = k * ?c" using out(2) k by simp
  have "0 < length out" using out(1) by simp
  then have k0: "0 < k" using kc by (cases k) simp_all
  have kb: "k \<le> unat (ec_block_size (en_config e))"
    using div_le_mono [OF out(3), of ?c] c k by simp
  have small: "length out < 2 ^ 64" using out(3) ok(3) by (simp add: plain_live_def)
  have room: "k * ?i \<le> length (take (k * ?i) samples)" using samples k by simp
  have plain: "\<not> ec_apply_geometric_delay (en_config e)" "\<not> en_dynamic_delays e" "live_input e"
    using ok(3) by (simp_all add: plain_live_def)
  have means: "frame_means ?i k (take (k * ?i) samples) = frame_means ?i k samples"
  proof -
    have "take ?i (drop (j * ?i) (take (k * ?i) samples)) = take ?i (drop (j * ?i) samples)" if "j < k" for j
    proof -
      have "Suc j * ?i \<le> k * ?i" using that by (intro mult_le_mono1) simp
      then have "?i \<le> k * ?i - j * ?i" by simp
      then show ?thesis by (simp add: drop_take min_def)
    qed
    then show ?thesis by (simp add: frame_means_def)
  qed
  from block_of_live_engine [where M = M and f = f and Q = "spatial_vtable N S",
      OF ok(1) r ok(2) plain hs kc k0 kb small i room refl refl]
  show ?thesis
    unfolding run_chunks_step [OF out(1) pos] block tk by (auto simp: means r block(2))
qed

text \<open>
  C18: Live audio is played.  In every state of an engine that was built with a basic gain renderer
  and does not move its delays, a callback of a valid shape with enough input succeeds, whatever
  its size; and when it fits in one block, sample \<open>f\<close> of channel \<open>c\<close> is what the delay line of
  \<open>c\<close>, holding everything it has had before, makes of the mean of the input channels times the gain
  the renderer gives for the object at the middle of the block.
\<close>

theorem engine_plays_live:
  fixes e :: "'h program_engine"
  assumes "engine_after M S n e" "n + 1 < 2 ^ 64" "plain_live e"
    and "shape_valid out e" "input_valid (Some samples) out e" "delay_holds (en_delay_processor e) hs"
  shows "\<exists>out' e'. process_interleaved M (basic_vtable (m_powf M)) (spatial_vtable M S) delay_vtable t (Some samples) out e
      = (Ok ProcessOk, out', e')
    \<and> (let c = length (en_output_roles e); k = length out div c; i = unat (ec_input_channels (en_config e)) in
       length out \<le> unat (ec_block_size (en_config e)) * c \<longrightarrow>
       out' = block_output (engine_gains (m_powf M) M k e (the (en_renderer e))) (dl_delays (en_delay_processor e)) hs
         (frame_means i k samples) k)"
proof -
  let ?c = "length (en_output_roles e)" and ?i = "unat (ec_input_channels (en_config e))" and ?n = "chunk_samples e"
  have ok: "program_ok e" "timing_ok n (en_metrics e)" and ready: "gain_ready e"
    using engine_after_ok [OF assms(1)] engine_after_gain_ready [OF assms(1)] assms(2) by simp_all
  have n: "?n = unat (ec_block_size (en_config e)) * ?c" using assms(3) by (simp add: plain_live_def chunk_samples_def)
  have shape: "?c dvd length out" "out \<noteq> []" using assms(4) by (simp_all add: shape_valid_def Let_def mod_0_imp_dvd)
  have input: "ec_input_channels (en_config e) \<noteq> 0" "length out div ?c * ?i \<le> length samples"
    using assms(3,5) by (simp_all add: input_valid_def plain_live_def live_input_def Let_def)
  obtain out' e1 where run: "run_chunks M (basic_vtable (m_powf M)) (spatial_vtable M S) delay_vtable ?n (Some samples) 0 out e = (Ok (), out', e1)"
    using run_chunks_plays [OF n ok(1) ready assms(3) shape(1) input(1), of 0 samples M "m_powf M" M S] input(2)
    by (cases "run_chunks M (basic_vtable (m_powf M)) (spatial_vtable M S) delay_vtable ?n (Some samples) 0 out e") auto
  from engine.run_is_callback [OF ok(1) [unfolded program_ok_def] ok(2) assms(2,4,5) run, of t] obtain e' where
    call: "process_interleaved M (basic_vtable (m_powf M)) (spatial_vtable M S) delay_vtable t (Some samples) out e = (Ok ProcessOk, out', e')"
    by blast
  have "out' = block_output (engine_gains (m_powf M) M (length out div ?c) e (the (en_renderer e))) (dl_delays (en_delay_processor e)) hs
         (frame_means ?i (length out div ?c) samples) (length out div ?c)"
    if "length out \<le> unat (ec_block_size (en_config e)) * ?c"
    using single_block_run [OF ok(1) ready assms(3,6) shape(2,1) that input refl n, of M "m_powf M" M S] run by auto
  then show ?thesis using call by (auto simp: Let_def)
qed

text \<open>The engine of the example, and its state before the first callback.\<close>

lemma mono_engine_live:
  "\<exists>e :: unit program_engine. engine_after flat_math quiet_shim 0 e \<and> plain_live e
     \<and> en_output_roles e = [FrontLeft] \<and> en_config e = live_config \<and> delay_holds (en_delay_processor e) [[]]"
proof -
  obtain e :: "unit program_engine" where e: "build_gain flat_math (basic_vtable (m_powf flat_math)) delay_vtable mono_scene live_config 0
      mono_renderer delay_eight = Ok e"
    using mono_engine by blast
  have after: "engine_after flat_math quiet_shim 0 e" by (rule ea_gain [OF mono_renderer_reachable delay_eight_history e])
  have sp: "ordered_speakers mono_scene = Ok [speaker_on_x FrontLeft 0x40000000]"
    by (simp add: ordered_speakers_def mono_scene_def)
  have rd: "required_delay (ec_apply_geometric_delay live_config) [0] = 0x40000000"
    "initial_delays live_config (engine_geometric_delays [speaker_on_x FrontLeft 0x40000000] (rs_listener mono_scene)
        (ec_sample_rate live_config) (ec_speed_of_sound live_config)) = [0]"
    using mono_required by (simp_all add: initial_delays_def live_config_def engine_geometric_delays_def Let_def)
  from e obtain metrics where start: "e = engine_start flat_math mono_scene live_config (Some mono_renderer) None False
      [speaker_on_x FrontLeft 0x40000000] (scratch_new 1) (delay_eight\<lparr>dl_delays := [0]\<rparr>) metrics"
    using delay_eight_accepts
    by (auto simp: build_gain_def sp mono_renderer_state rd Let_def split: outcome.splits option.splits if_splits)
  have "delay_holds (delay_eight\<lparr>dl_delays := [0]\<rparr>) [[]]"
    using set_delays_holds [OF delay_history_holds [OF delay_eight_history], of "[0]"] delay_eight_accepts
    by (cases "set_delays_slice [0] delay_eight")
      (auto simp: validate_delay_processor_def delay_vtable_def Let_def split: if_splits)
  then show ?thesis using after
    by (intro exI [of _ e])
      (simp add: start engine_start_def Let_def plain_live_def live_input_def live_config_def speaker_on_x_def)
qed

lemma engine_plays_live_witness:
  "\<exists>(e :: unit program_engine) e'. plain_live e \<and> engine_after flat_math quiet_shim 0 e
     \<and> process_interleaved flat_math (basic_vtable (m_powf flat_math)) (spatial_vtable flat_math quiet_shim) delay_vtable 5
       (Some [0x3F800000, 0, 0]) [0, 0, 0] e
     = (Ok ProcessOk, block_output (engine_gains (m_powf flat_math) flat_math 3 e (the (en_renderer e)))
         (dl_delays (en_delay_processor e)) [[]] (frame_means 1 3 [0x3F800000, 0, 0]) 3, e')"
proof -
  obtain e :: "unit program_engine" where e: "engine_after flat_math quiet_shim 0 e" "plain_live e"
    "en_output_roles e = [FrontLeft]" "en_config e = live_config" "delay_holds (en_delay_processor e) [[]]"
    using mono_engine_live by blast
  have pcm: "en_pcm_renderer e = None"
    using engine_after_ok [OF e(1)] e(2) by (auto simp: plain_live_def program_ok_def engine_ok_def Let_def split: option.splits)
  have "shape_valid [0, 0, 0] e" "input_valid (Some [0x3F800000, 0, 0]) [0, 0, 0] e"
    using e pcm by (simp_all add: shape_valid_def input_valid_def live_config_def Let_def)
  from engine_plays_live [OF e(1) _ e(2) this e(5), of 5] e(1,2,3,4)
  show ?thesis by - (rule exI [of _ e], auto simp: Let_def live_config_def numeral_3_eq_3)
qed

section \<open>Callbacks may be split\<close>

text \<open>
  C19: The audio does not depend on how the host cuts it into callbacks.  When an engine on live
  input answers a long callback, two callbacks that cut it at a block boundary are answered too:
  their outputs, joined, are the output of the long callback, and they leave the engine in the
  same state but for its metrics.
\<close>

theorem engine_blocks_transparent:
  fixes e :: "'h program_engine"
  assumes "engine_after M S n e" "n + 2 < 2 ^ 64" "live_input e"
    and "unat (ec_block_size (en_config e)) * length (en_output_roles e) < 2 ^ 64"
    and "unat (ec_block_size (en_config e)) * length (en_output_roles e) dvd length out1" "out1 \<noteq> []" "out2 \<noteq> []"
    and "length in1 = length out1 div length (en_output_roles e) * unat (ec_input_channels (en_config e))"
    and "process_interleaved M (basic_vtable (m_powf M)) (spatial_vtable M S) delay_vtable t (Some (in1 @ in2)) (out1 @ out2) e
      = (Ok ProcessOk, out', e')"
  shows "\<exists>o1 e1 o2 e2.
      process_interleaved M (basic_vtable (m_powf M)) (spatial_vtable M S) delay_vtable t1 (Some in1) out1 e = (Ok ProcessOk, o1, e1)
    \<and> process_interleaved M (basic_vtable (m_powf M)) (spatial_vtable M S) delay_vtable t2 (Some in2) out2 e1 = (Ok ProcessOk, o2, e2)
    \<and> out' = o1 @ o2 \<and> audio_state e2 = audio_state e'"
proof -
  have n: "chunk_samples e = unat (ec_block_size (en_config e)) * length (en_output_roles e)"
    using assms(4) by (simp add: chunk_samples_def)
  have ok: "program_ok e" "timing_ok n (en_metrics e)" "unat (mt_callback_count (en_metrics e)) = n"
    using engine_after_ok [OF assms(1)] assms(2) by simp_all
  show ?thesis
    by (rule engine.callback_splits [OF ok(1) [unfolded program_ok_def] ok(2,3) assms(2,3) _ _ assms(6,7,8,9)])
      (use assms(5) in \<open>simp_all add: n\<close>)
qed

lemma engine_blocks_transparent_witness:
  "\<exists>(e :: unit program_engine) o1 e1 o2 e2. engine_after flat_math quiet_shim 0 e
     \<and> process_interleaved flat_math (basic_vtable (m_powf flat_math)) (spatial_vtable flat_math quiet_shim) delay_vtable 5
         (Some [0x3F800000, 0, 0, 0]) [0, 0, 0, 0] e = (Ok ProcessOk, o1, e1)
     \<and> process_interleaved flat_math (basic_vtable (m_powf flat_math)) (spatial_vtable flat_math quiet_shim) delay_vtable 5
         (Some [0x3F800000]) [0] e1 = (Ok ProcessOk, o2, e2)"
proof -
  obtain e :: "unit program_engine" where e: "engine_after flat_math quiet_shim 0 e" "plain_live e"
    "en_output_roles e = [FrontLeft]" "en_config e = live_config"
    using mono_engine_live by blast
  let ?R = "basic_vtable (m_powf flat_math)" and ?Q = "spatial_vtable flat_math quiet_shim"
  have ok: "program_ok e" "timing_ok 0 (en_metrics e)" and ready: "gain_ready e" and live: "live_input e"
    using engine_after_ok [OF e(1)] engine_after_gain_ready [OF e(1)] e(2) by (simp_all add: plain_live_def)
  have pcm: "en_pcm_renderer e = None"
    using ok(1) e(2) by (auto simp: plain_live_def program_ok_def engine_ok_def Let_def split: option.splits)
  let ?in = "[0x3F800000, 0, 0, 0] @ [0x3F800000]" and ?out = "[0, 0, 0, 0] @ [0] :: f32 list"
  have n: "chunk_samples e = unat (ec_block_size (en_config e)) * length (en_output_roles e)"
    using e(2) by (simp add: chunk_samples_def plain_live_def)
  have valid: "shape_valid ?out e" "input_valid (Some ?in) ?out e"
    using e(3,4) pcm by (simp_all add: shape_valid_def input_valid_def live_config_def Let_def)
  obtain out' e1 where "run_chunks flat_math ?R ?Q delay_vtable (chunk_samples e) (Some ?in) 0 ?out e = (Ok (), out', e1)"
    using run_chunks_plays [OF n ok(1) ready e(2), of ?out 0 ?in flat_math "m_powf flat_math" flat_math quiet_shim] e(3,4)
    by (cases "run_chunks flat_math ?R ?Q delay_vtable (chunk_samples e) (Some ?in) 0 ?out e") (auto simp: live_config_def)
  from engine.run_is_callback [OF ok(1) [unfolded program_ok_def] ok(2) _ valid this, of 5]
  obtain e' where "process_interleaved flat_math ?R ?Q delay_vtable 5 (Some ?in) ?out e = (Ok ProcessOk, out', e')"
    by auto
  moreover have "(4 :: nat) dvd Suc (Suc (Suc (Suc 0)))" by presburger
  ultimately show ?thesis using engine_blocks_transparent [OF e(1) _ live, of "[0, 0, 0, 0]" "[0]" "[0x3F800000, 0, 0, 0]" 5 "[0x3F800000]" out' e' 5 5] e(1,3,4)
    by (intro exI [of _ e]) (auto simp: live_config_def)
qed

end
