(* ===== verification/Output_Chain.thy ===== *)
theory Output_Chain
  imports Render_Scene
begin

text \<open>
  The output chain of the loudspeakers, \<open>src/crates/aurora-dsp-basic/src/output.rs\<close>: bass routing by
  Linkwitz-Riley crossovers, calibration, lip-sync delay, master gain and a linked limiter on
  interleaved 7.1.4 frames.  Fixed arrays are lists of their length; a slice out of range is
  \<open>None\<close>, which the operations turn into \<open>Panic\<close>.
\<close>

definition SAMPLE_RATE :: u32 where "SAMPLE_RATE = 48000"
definition CHANNELS :: nat where "CHANNELS = 12"
definition LFE :: nat where "LFE = 3"
definition MAX_LIPSYNC_FRAMES :: nat where "MAX_LIPSYNC_FRAMES = 24000"
definition LIPSYNC_RING_FRAMES :: nat where "LIPSYNC_RING_FRAMES = MAX_LIPSYNC_FRAMES + 1"
definition MAX_PEQ_BANDS :: nat where "MAX_PEQ_BANDS = 8"
definition CALIBRATION_DELAY_FRAMES :: nat where "CALIBRATION_DELAY_FRAMES = 4801"
definition FADE_FRAMES :: nat where "FADE_FRAMES = 240"

definition sample_rate_f32 :: f32 where "sample_rate_f32 = f32_of_nat (unat SAMPLE_RATE)"

definition output_db_to_linear :: "math \<Rightarrow> f32 \<Rightarrow> f32" where
  "output_db_to_linear M db = m_powf M 0x41200000 (f32_div db 0x41A00000)"

section \<open>Configuration\<close>

record output_dsp_config =
  oc_bed_crossover_hz :: f32
  oc_height_crossover_hz :: f32
  oc_lfe_lowpass_hz :: f32
  oc_sub_highpass_hz :: f32
  oc_lfe_trim_db :: f32
  oc_redirected_bass_db :: f32
  oc_headroom_db :: f32
  oc_limiter_dbfs :: f32
  oc_limiter_release_ms :: f32
  oc_lipsync_frames :: nat

definition output_dsp_config_default :: output_dsp_config where
  "output_dsp_config_default = \<lparr>oc_bed_crossover_hz = 0x42A00000, oc_height_crossover_hz = 0x42C80000,
     oc_lfe_lowpass_hz = 0x42F00000, oc_sub_highpass_hz = 0x41A00000, oc_lfe_trim_db = 0,
     oc_redirected_bass_db = 0, oc_headroom_db = 0xC0400000, oc_limiter_dbfs = 0xBF800000,
     oc_limiter_release_ms = 0x42480000, oc_lipsync_frames = 0\<rparr>"

record peq_band =
  pb_frequency_hz :: f32
  pb_q :: f32
  pb_gain_db :: f32

record channel_calibration =
  cc_role :: channel_role
  cc_trim_db :: f32
  cc_delay_frames :: nat
  cc_invert_polarity :: bool
  cc_peq :: "peq_band list"

record speaker_calibration =
  sk_schema_version :: u32
  sk_sample_rate :: u32
  sk_channels :: "channel_calibration list"

section \<open>Biquad filters\<close>

record biquad =
  bq_b0 :: f32
  bq_b1 :: f32
  bq_b2 :: f32
  bq_a1 :: f32
  bq_a2 :: f32
  bq_z1 :: f32
  bq_z2 :: f32

definition biquad_default :: biquad where
  "biquad_default = \<lparr>bq_b0 = 0, bq_b1 = 0, bq_b2 = 0, bq_a1 = 0, bq_a2 = 0, bq_z1 = 0, bq_z2 = 0\<rparr>"

definition biquad_reset :: "biquad \<Rightarrow> biquad" where
  "biquad_reset b = b\<lparr>bq_z1 := 0, bq_z2 := 0\<rparr>"

text \<open>The coefficients from the quality, the sine and the cosine of the design frequency.\<close>

definition biquad_coefficients :: "f32 \<Rightarrow> f32 \<Rightarrow> f32 \<Rightarrow> bool \<Rightarrow> biquad" where
  "biquad_coefficients q s c high_pass =
     (let alpha = f32_div s (f32_mul 0x40000000 q);
          a0 = f32_add 0x3F800000 alpha;
          (b0, b1, b2) = (if high_pass
            then (f32_mul (f32_add 0x3F800000 c) 0x3F000000, f32_neg (f32_add 0x3F800000 c),
                  f32_mul (f32_add 0x3F800000 c) 0x3F000000)
            else (f32_mul (f32_sub 0x3F800000 c) 0x3F000000, f32_sub 0x3F800000 c,
                  f32_mul (f32_sub 0x3F800000 c) 0x3F000000)) in
      \<lparr>bq_b0 = f32_div b0 a0, bq_b1 = f32_div b1 a0, bq_b2 = f32_div b2 a0,
       bq_a1 = f32_div (f32_mul 0xC0000000 c) a0, bq_a2 = f32_div (f32_sub 0x3F800000 alpha) a0,
       bq_z1 = 0, bq_z2 = 0\<rparr>)"

definition biquad_design :: "math \<Rightarrow> f32 \<Rightarrow> f32 \<Rightarrow> f32 \<Rightarrow> bool \<Rightarrow> (biquad, string) outcome" where
  "biquad_design M rate frequency q high_pass =
     (if \<not> f32_is_finite rate \<or> \<not> f32_is_finite frequency \<or> \<not> f32_is_finite q
         \<or> f32_le rate 0 \<or> f32_le frequency 0 \<or> f32_le (f32_mul rate 0x3EFAE148) frequency \<or> f32_le q 0
      then Err ''invalid biquad design''
      else let omega = f32_div (f32_mul (f32_mul 0x40000000 PI_f32) frequency) rate in
        Ok (biquad_coefficients q (m_sin M omega) (m_cos M omega) high_pass))"

definition biquad_low_pass :: "math \<Rightarrow> f32 \<Rightarrow> f32 \<Rightarrow> f32 \<Rightarrow> (biquad, string) outcome" where
  "biquad_low_pass M rate frequency q = biquad_design M rate frequency q False"

definition biquad_high_pass :: "math \<Rightarrow> f32 \<Rightarrow> f32 \<Rightarrow> f32 \<Rightarrow> (biquad, string) outcome" where
  "biquad_high_pass M rate frequency q = biquad_design M rate frequency q True"

definition biquad_process :: "f32 \<Rightarrow> biquad \<Rightarrow> f32 \<times> biquad" where
  "biquad_process x b =
     (if \<not> f32_is_finite x then (0, biquad_reset b)
      else
        let y = f32_add (f32_mul (bq_b0 b) x) (bq_z1 b);
            b' = b\<lparr>bq_z1 := f32_add (f32_sub (f32_mul (bq_b1 b) x) (f32_mul (bq_a1 b) y)) (bq_z2 b),
                   bq_z2 := f32_sub (f32_mul (bq_b2 b) x) (f32_mul (bq_a2 b) y)\<rparr> in
        if f32_is_finite y then (y, b') else (0, biquad_reset b'))"

section \<open>Calibration\<close>

record prepared_calibration =
  pc_filters :: "biquad list list"
  pc_bands :: "nat list"
  pc_gains :: "f32 list"
  pc_delays :: "nat list"
  pc_ring :: "f32 list"
  pc_write :: nat

definition calibration_flat :: prepared_calibration where
  "calibration_flat = \<lparr>pc_filters = replicate CHANNELS (replicate MAX_PEQ_BANDS biquad_default),
     pc_bands = replicate CHANNELS 0, pc_gains = replicate CHANNELS 0x3F800000,
     pc_delays = replicate CHANNELS 0, pc_ring = replicate (CALIBRATION_DELAY_FRAMES * CHANNELS) 0, pc_write = 0\<rparr>"

definition peq_valid :: "peq_band \<Rightarrow> bool" where
  "peq_valid b \<longleftrightarrow> f32_is_finite (pb_frequency_hz b)
     \<and> f32_le 0x41200000 (pb_frequency_hz b) \<and> f32_less (pb_frequency_hz b) 0x46B7C000
     \<and> f32_is_finite (pb_q b) \<and> f32_le 0x3DCCCCCD (pb_q b) \<and> f32_le (pb_q b) 0x41A00000
     \<and> f32_is_finite (pb_gain_db b) \<and> f32_le 0xC1C00000 (pb_gain_db b) \<and> f32_le (pb_gain_db b) 0x41400000"

definition peq_filter :: "math \<Rightarrow> peq_band \<Rightarrow> biquad" where
  "peq_filter M band =
     (let a = m_powf M 0x41200000 (f32_div (pb_gain_db band) 0x42200000);
          omega = f32_div (f32_mul (f32_mul 0x40000000 PI_f32) (pb_frequency_hz band)) sample_rate_f32;
          alpha = f32_div (m_sin M omega) (f32_mul 0x40000000 (pb_q band));
          denominator = f32_add 0x3F800000 (f32_div alpha a) in
      \<lparr>bq_b0 = f32_div (f32_add 0x3F800000 (f32_mul alpha a)) denominator,
       bq_b1 = f32_div (f32_mul 0xC0000000 (m_cos M omega)) denominator,
       bq_b2 = f32_div (f32_sub 0x3F800000 (f32_mul alpha a)) denominator,
       bq_a1 = f32_div (f32_mul 0xC0000000 (m_cos M omega)) denominator,
       bq_a2 = f32_div (f32_sub 0x3F800000 (f32_div alpha a)) denominator, bq_z1 = 0, bq_z2 = 0\<rparr>)"

fun prepare_bands :: "math \<Rightarrow> nat \<Rightarrow> peq_band list \<Rightarrow> biquad list \<Rightarrow> (biquad list, string) outcome" where
  "prepare_bands M slot [] filters = Ok filters"
| "prepare_bands M slot (b # bs) filters =
     (if \<not> peq_valid b then Err ''invalid PEQ band''
      else prepare_bands M (Suc slot) bs (filters[slot := peq_filter M b]))"

fun prepare_channels :: "math \<Rightarrow> nat \<Rightarrow> (channel_calibration \<times> channel_role) list \<Rightarrow> prepared_calibration
    \<Rightarrow> (prepared_calibration, string) outcome" where
  "prepare_channels M index [] p = Ok p"
| "prepare_channels M index ((c, role) # cs) p =
     (if cc_role c \<noteq> role \<or> CALIBRATION_DELAY_FRAMES \<le> cc_delay_frames c \<or> \<not> f32_is_finite (cc_trim_db c)
         \<or> \<not> (f32_le 0xC1C00000 (cc_trim_db c) \<and> f32_le (cc_trim_db c) 0x41400000)
         \<or> MAX_PEQ_BANDS < length (cc_peq c)
      then Err ''invalid calibration role, delay, trim or band count''
      else case prepare_bands M 0 (cc_peq c) (pc_filters p ! index) of
        Err e \<Rightarrow> Err e | Panic \<Rightarrow> Panic
      | Ok filters \<Rightarrow> prepare_channels M (Suc index) cs (p
          \<lparr>pc_gains := (pc_gains p)[index := f32_mul (output_db_to_linear M (cc_trim_db c))
             (if cc_invert_polarity c then 0xBF800000 else 0x3F800000)],
           pc_delays := (pc_delays p)[index := cc_delay_frames c],
           pc_bands := (pc_bands p)[index := length (cc_peq c)],
           pc_filters := (pc_filters p)[index := filters]\<rparr>))"

definition calibration_prepare :: "math \<Rightarrow> speaker_calibration \<Rightarrow> (prepared_calibration, string) outcome" where
  "calibration_prepare M config =
     (if sk_schema_version config \<noteq> 1 \<or> sk_sample_rate config \<noteq> SAMPLE_RATE
         \<or> length (sk_channels config) \<noteq> CHANNELS
      then Err ''calibration requires schema 1, 48000 Hz and twelve canonical channels''
      else prepare_channels M 0 (zip (sk_channels config) (canonical_roles SevenOneFour)) calibration_flat)"

fun run_filters :: "biquad list \<Rightarrow> f32 \<Rightarrow> f32 \<times> biquad list" where
  "run_filters [] x = (x, [])"
| "run_filters (b # bs) x =
     (let (y, b') = biquad_process x b; (z, bs') = run_filters bs y in (z, b' # bs'))"

text \<open>One channel of a frame: the filtered sample goes into the ring, a delayed one comes out.\<close>

definition calibrate_sample :: "nat \<Rightarrow> f32 \<Rightarrow> prepared_calibration \<Rightarrow> (f32 \<times> prepared_calibration) option" where
  "calibrate_sample channel x p =
     (if length (pc_filters p) \<le> channel \<or> length (pc_filters p ! channel) < pc_bands p ! channel then None
      else
        let active = pc_bands p ! channel; filters = pc_filters p ! channel;
            (y, filters') = run_filters (take active filters) x;
            at_write = pc_write p * CHANNELS + channel;
            ring = (pc_ring p)[at_write := f32_mul y (pc_gains p ! channel)] in
        if length (pc_ring p) \<le> at_write \<or> pc_write p + CALIBRATION_DELAY_FRAMES < pc_delays p ! channel then None
        else
          let read = (pc_write p + CALIBRATION_DELAY_FRAMES - pc_delays p ! channel) mod CALIBRATION_DELAY_FRAMES in
          map_option (\<lambda>z. (z, p\<lparr>pc_filters := (pc_filters p)[channel := filters' @ drop active filters],
              pc_ring := ring\<rparr>)) (get_at ring (read * CHANNELS + channel)))"

fun calibrate_frame :: "nat \<Rightarrow> f32 list \<Rightarrow> prepared_calibration \<Rightarrow> (f32 list \<times> prepared_calibration) option" where
  "calibrate_frame channel [] p = Some ([], p)"
| "calibrate_frame channel (x # xs) p =
     (case calibrate_sample channel x p of
        None \<Rightarrow> None
      | Some (y, p1) \<Rightarrow> map_option (apfst (Cons y)) (calibrate_frame (Suc channel) xs p1))"

definition calibration_process :: "f32 list \<Rightarrow> prepared_calibration \<Rightarrow> (f32 list \<times> prepared_calibration) option" where
  "calibration_process frame p =
     map_option (apsnd (\<lambda>p1. p1\<lparr>pc_write := (pc_write p1 + 1) mod CALIBRATION_DELAY_FRAMES\<rparr>))
       (calibrate_frame 0 frame p)"

definition calibration_reset :: "prepared_calibration \<Rightarrow> prepared_calibration" where
  "calibration_reset p = p\<lparr>pc_filters := map (map biquad_reset) (pc_filters p),
     pc_ring := map (\<lambda>_. 0) (pc_ring p), pc_write := 0\<rparr>"

section \<open>Crossover\<close>

record crossover =
  co_low_1 :: biquad
  co_low_2 :: biquad
  co_high_1 :: biquad
  co_high_2 :: biquad

definition crossover_default :: crossover where
  "crossover_default = \<lparr>co_low_1 = biquad_default, co_low_2 = biquad_default, co_high_1 = biquad_default,
     co_high_2 = biquad_default\<rparr>"

definition butterworth_q :: f32 where "butterworth_q = f32_div 0x3F800000 (f32_sqrt 0x40000000)"

definition linkwitz_riley_4 :: "math \<Rightarrow> f32 \<Rightarrow> f32 \<Rightarrow> (crossover, string) outcome" where
  "linkwitz_riley_4 M rate frequency =
     (case biquad_low_pass M rate frequency butterworth_q of
        Err e \<Rightarrow> Err e | Panic \<Rightarrow> Panic
      | Ok low \<Rightarrow>
      (case biquad_high_pass M rate frequency butterworth_q of
        Err e \<Rightarrow> Err e | Panic \<Rightarrow> Panic
      | Ok high \<Rightarrow> Ok \<lparr>co_low_1 = low, co_low_2 = low, co_high_1 = high, co_high_2 = high\<rparr>))"

definition crossover_split :: "f32 \<Rightarrow> crossover \<Rightarrow> (f32 \<times> f32) \<times> crossover" where
  "crossover_split x c =
     (let (l1, low_1) = biquad_process x (co_low_1 c); (low, low_2) = biquad_process l1 (co_low_2 c);
          (h1, high_1) = biquad_process x (co_high_1 c); (high, high_2) = biquad_process h1 (co_high_2 c) in
      ((high, low), \<lparr>co_low_1 = low_1, co_low_2 = low_2, co_high_1 = high_1, co_high_2 = high_2\<rparr>))"

definition crossover_reset :: "crossover \<Rightarrow> crossover" where
  "crossover_reset c = \<lparr>co_low_1 = biquad_reset (co_low_1 c), co_low_2 = biquad_reset (co_low_2 c),
     co_high_1 = biquad_reset (co_high_1 c), co_high_2 = biquad_reset (co_high_2 c)\<rparr>"

section \<open>Limiter\<close>

record linked_limiter =
  ll_ceiling :: f32
  ll_gain :: f32
  ll_release_alpha :: f32

text \<open>The share of the way to its target that a first-order smoother goes in one sample.\<close>

definition smoothing_alpha :: "math \<Rightarrow> f32 \<Rightarrow> f32" where
  "smoothing_alpha M samples = f32_sub 0x3F800000 (m_exp M (f32_div 0xBF800000 (f32_max samples 0x3F800000)))"

definition limiter_new :: "math \<Rightarrow> f32 \<Rightarrow> f32 \<Rightarrow> (linked_limiter, string) outcome" where
  "limiter_new M ceiling_dbfs release_ms =
     (let ceiling = output_db_to_linear M ceiling_dbfs in
      if \<not> f32_is_finite ceiling \<or> f32_le ceiling 0 \<or> f32_less 0x3F800000 ceiling
         \<or> \<not> f32_is_finite release_ms \<or> f32_le release_ms 0
      then Err ''invalid limiter configuration''
      else Ok \<lparr>ll_ceiling = ceiling, ll_gain = 0x3F800000,
        ll_release_alpha = smoothing_alpha M (f32_div (f32_mul release_ms sample_rate_f32) 0x447A0000)\<rparr>)"

definition limiter_gain :: "f32 list \<Rightarrow> linked_limiter \<Rightarrow> f32" where
  "limiter_gain frame l =
     (let peak = fold (\<lambda>x m. f32_max m (f32_abs x)) frame 0;
          requested = (if f32_less (ll_ceiling l) peak \<and> f32_less 0 peak
            then f32_div (ll_ceiling l) peak else 0x3F800000) in
      if f32_less requested (ll_gain l) then requested
      else f32_min (f32_add (ll_gain l) (f32_mul (f32_sub 0x3F800000 (ll_gain l)) (ll_release_alpha l))) requested)"

definition limiter_process :: "f32 list \<Rightarrow> linked_limiter \<Rightarrow> f32 list \<times> linked_limiter" where
  "limiter_process frame l =
     (let g = limiter_gain frame l in
      (map (\<lambda>x. f32_clamp (f32_mul x g) (f32_neg (ll_ceiling l)) (ll_ceiling l)) frame, l\<lparr>ll_gain := g\<rparr>))"

definition limiter_reset :: "linked_limiter \<Rightarrow> linked_limiter" where
  "limiter_reset l = l\<lparr>ll_gain := 0x3F800000\<rparr>"

section \<open>Lip-sync delay\<close>

record lip_delay =
  ld_ring :: "f32 list"
  ld_write_frame :: nat
  ld_delay_frames :: nat
  ld_previous_delay :: nat
  ld_requested_delay :: nat
  ld_fade_remaining :: nat

definition lip_new :: "nat \<Rightarrow> (lip_delay, string) outcome" where
  "lip_new d =
     (if MAX_LIPSYNC_FRAMES < d then Err ''lip-sync delay exceeds 500 ms''
      else Ok \<lparr>ld_ring = replicate (LIPSYNC_RING_FRAMES * CHANNELS) 0, ld_write_frame = 0, ld_delay_frames = d,
        ld_previous_delay = d, ld_requested_delay = d, ld_fade_remaining = 0\<rparr>)"

definition lip_set_delay_frames :: "nat \<Rightarrow> lip_delay \<Rightarrow> lip_delay" where
  "lip_set_delay_frames d l = l\<lparr>ld_requested_delay := min d MAX_LIPSYNC_FRAMES\<rparr>"

definition lip_begin_fade :: "lip_delay \<Rightarrow> lip_delay" where
  "lip_begin_fade l =
     (if ld_fade_remaining l = 0 \<and> ld_requested_delay l \<noteq> ld_delay_frames l
      then l\<lparr>ld_previous_delay := ld_delay_frames l, ld_delay_frames := ld_requested_delay l,
             ld_fade_remaining := FADE_FRAMES\<rparr>
      else l)"

definition fade_alpha :: "nat \<Rightarrow> f32" where
  "fade_alpha remaining = f32_sub 0x3F800000 (f32_div (f32_of_nat remaining) (f32_of_nat FADE_FRAMES))"

definition crossfade :: "f32 \<Rightarrow> f32 \<Rightarrow> f32 \<Rightarrow> f32" where
  "crossfade alpha old new = f32_add (f32_mul old (f32_sub 0x3F800000 alpha)) (f32_mul new alpha)"

definition ring_frame :: "f32 list \<Rightarrow> nat \<Rightarrow> f32 list option" where
  "ring_frame ring base = (if base + CHANNELS \<le> length ring then Some (take CHANNELS (drop base ring)) else None)"

text \<open>The old frame is read sample by sample, as far as the frame goes.\<close>

definition lip_process :: "f32 list \<Rightarrow> lip_delay \<Rightarrow> (f32 list \<times> lip_delay) option" where
  "lip_process frame l0 =
     (let l = lip_begin_fade l0; base = ld_write_frame l * CHANNELS in
      if length frame \<noteq> CHANNELS \<or> length (ld_ring l) < base + CHANNELS
         \<or> ld_write_frame l + LIPSYNC_RING_FRAMES < ld_delay_frames l
         \<or> ld_write_frame l + LIPSYNC_RING_FRAMES < ld_previous_delay l then None
      else
        let ring = take base (ld_ring l) @ frame @ drop (base + CHANNELS) (ld_ring l);
            read = (ld_write_frame l + LIPSYNC_RING_FRAMES - ld_delay_frames l) mod LIPSYNC_RING_FRAMES;
            old = (ld_write_frame l + LIPSYNC_RING_FRAMES - ld_previous_delay l) mod LIPSYNC_RING_FRAMES;
            w = ld_write_frame l + 1;
            l' = l\<lparr>ld_ring := ring, ld_write_frame := (if w = LIPSYNC_RING_FRAMES then 0 else w)\<rparr> in
        case ring_frame ring (read * CHANNELS) of
          None \<Rightarrow> None
        | Some now \<Rightarrow>
            if 0 < ld_fade_remaining l
            then map_option (\<lambda>before. (map2 (crossfade (fade_alpha (ld_fade_remaining l))) before now,
                   l'\<lparr>ld_fade_remaining := ld_fade_remaining l - 1\<rparr>)) (ring_frame ring (old * CHANNELS))
            else Some (now, l'))"

definition lip_reset :: "lip_delay \<Rightarrow> lip_delay" where
  "lip_reset l = l\<lparr>ld_ring := map (\<lambda>_. 0) (ld_ring l), ld_write_frame := 0, ld_delay_frames := ld_requested_delay l,
     ld_previous_delay := ld_requested_delay l, ld_fade_remaining := 0\<rparr>"

section \<open>The chain\<close>

datatype output_shape_error = OutputShapeError

record post_processor =
  pp_calibration :: prepared_calibration
  pp_crossovers :: "crossover list"
  pp_lfe_low_1 :: biquad
  pp_lfe_low_2 :: biquad
  pp_sub_high_1 :: biquad
  pp_sub_high_2 :: biquad
  pp_lfe_gain :: f32
  pp_redirected_bass_gain :: f32
  pp_headroom_gain :: f32
  pp_user_gain :: f32
  pp_smoothed_master_gain :: f32
  pp_gain_alpha :: f32
  pp_muted :: bool
  pp_standby :: bool
  pp_limiter :: linked_limiter
  pp_lip_delay :: lip_delay

definition gain_in_range :: "f32 \<Rightarrow> bool" where
  "gain_in_range g \<longleftrightarrow> f32_is_finite g \<and> f32_le 0xC2A00000 g \<and> f32_le g 0x41400000"

definition post_new :: "math \<Rightarrow> output_dsp_config \<Rightarrow> (post_processor, string) outcome" where
  "post_new M c =
     (if \<not> list_all gain_in_range [oc_lfe_trim_db c, oc_redirected_bass_db c, oc_headroom_db c]
      then Err ''DSP gain must be finite and between -80 and +12 dB''
      else case linkwitz_riley_4 M sample_rate_f32 (oc_bed_crossover_hz c) of
        Err e \<Rightarrow> Err e | Panic \<Rightarrow> Panic
      | Ok bed \<Rightarrow>
      (case linkwitz_riley_4 M sample_rate_f32 (oc_height_crossover_hz c) of
        Err e \<Rightarrow> Err e | Panic \<Rightarrow> Panic
      | Ok height \<Rightarrow>
      (case biquad_low_pass M sample_rate_f32 (oc_lfe_lowpass_hz c) butterworth_q of
        Err e \<Rightarrow> Err e | Panic \<Rightarrow> Panic
      | Ok lfe_low \<Rightarrow>
      (case biquad_high_pass M sample_rate_f32 (oc_sub_highpass_hz c) butterworth_q of
        Err e \<Rightarrow> Err e | Panic \<Rightarrow> Panic
      | Ok sub_high \<Rightarrow>
      (case limiter_new M (oc_limiter_dbfs c) (oc_limiter_release_ms c) of
        Err e \<Rightarrow> Err e | Panic \<Rightarrow> Panic
      | Ok limiter \<Rightarrow>
      (case lip_new (oc_lipsync_frames c) of
        Err e \<Rightarrow> Err e | Panic \<Rightarrow> Panic
      | Ok lip \<Rightarrow> Ok
         \<lparr>pp_calibration = calibration_flat,
          pp_crossovers = (replicate 8 bed @ replicate 4 height)[LFE := crossover_default],
          pp_lfe_low_1 = lfe_low, pp_lfe_low_2 = lfe_low, pp_sub_high_1 = sub_high, pp_sub_high_2 = sub_high,
          pp_lfe_gain = output_db_to_linear M (oc_lfe_trim_db c),
          pp_redirected_bass_gain = output_db_to_linear M (oc_redirected_bass_db c),
          pp_headroom_gain = output_db_to_linear M (oc_headroom_db c), pp_user_gain = 0x3F800000,
          pp_smoothed_master_gain = 0,
          pp_gain_alpha = smoothing_alpha M (f32_div (f32_mul 0x40A00000 sample_rate_f32) 0x447A0000),
          pp_muted = False, pp_standby = False, pp_limiter = limiter, pp_lip_delay = lip\<rparr>))))))"

definition post_reset :: "post_processor \<Rightarrow> post_processor" where
  "post_reset p = p
     \<lparr>pp_calibration := calibration_reset (pp_calibration p), pp_crossovers := map crossover_reset (pp_crossovers p),
      pp_lfe_low_1 := biquad_reset (pp_lfe_low_1 p), pp_lfe_low_2 := biquad_reset (pp_lfe_low_2 p),
      pp_sub_high_1 := biquad_reset (pp_sub_high_1 p), pp_sub_high_2 := biquad_reset (pp_sub_high_2 p),
      pp_limiter := limiter_reset (pp_limiter p), pp_lip_delay := lip_reset (pp_lip_delay p),
      pp_smoothed_master_gain := 0\<rparr>"

definition configure_calibration :: "math \<Rightarrow> speaker_calibration \<Rightarrow> post_processor
    \<Rightarrow> (unit, string) outcome \<times> post_processor" where
  "configure_calibration M config p =
     (case calibration_prepare M config of
        Err e \<Rightarrow> (Err e, p) | Panic \<Rightarrow> (Panic, p)
      | Ok prepared \<Rightarrow> (Ok (), post_reset (p\<lparr>pp_calibration := prepared\<rparr>)))"

definition f32_of_int :: "int \<Rightarrow> f32" where
  "f32_of_int i = f32_of (ExRat (i < 0) (nat \<bar>i\<bar>) 1)"

definition set_master_gain_mdb :: "math \<Rightarrow> 64 word \<Rightarrow> post_processor \<Rightarrow> post_processor" where
  "set_master_gain_mdb M milli_db p = p\<lparr>pp_user_gain := output_db_to_linear M
     (f32_clamp (f32_div (f32_of_int (sint milli_db)) 0x447A0000) 0xC2A00000 0x41400000)\<rparr>"

definition set_lipsync_frames :: "nat \<Rightarrow> post_processor \<Rightarrow> post_processor" where
  "set_lipsync_frames d p = p\<lparr>pp_lip_delay := lip_set_delay_frames d (pp_lip_delay p)\<rparr>"

definition set_mute :: "bool \<Rightarrow> post_processor \<Rightarrow> post_processor" where
  "set_mute b p = p\<lparr>pp_muted := b\<rparr>"

definition set_standby :: "bool \<Rightarrow> post_processor \<Rightarrow> post_processor" where
  "set_standby b p = p\<lparr>pp_standby := b\<rparr>"

definition finite_or_zero :: "f32 \<Rightarrow> f32" where
  "finite_or_zero x = (if f32_is_finite x then x else 0)"

text \<open>Bass routing: the high bands stay, the low bands are summed.\<close>

fun split_channels :: "nat \<Rightarrow> f32 list \<Rightarrow> crossover list \<Rightarrow> f32 \<Rightarrow> f32 list \<times> crossover list \<times> f32" where
  "split_channels channel (x # xs) (c # cs) bass =
     (if channel = LFE
      then case split_channels (Suc channel) xs cs bass of (ys, cs', b) \<Rightarrow> (x # ys, c # cs', b)
      else case crossover_split x c of
        ((high, low), c') \<Rightarrow>
          (case split_channels (Suc channel) xs cs (f32_add bass low) of (ys, cs', b) \<Rightarrow> (high # ys, c' # cs', b)))"
| "split_channels channel xs cs bass = (xs, cs, bass)"

definition bass_managed :: "f32 list \<Rightarrow> post_processor \<Rightarrow> f32 list \<times> post_processor" where
  "bass_managed frame p =
     (let (frame1, crossovers, redirected) = split_channels 0 frame (pp_crossovers p) 0;
          (l1, low_1) = biquad_process (frame ! LFE) (pp_lfe_low_1 p);
          (l2, low_2) = biquad_process l1 (pp_lfe_low_2 p);
          summed = f32_add (f32_mul l2 (pp_lfe_gain p)) (f32_mul redirected (pp_redirected_bass_gain p));
          (s1, high_1) = biquad_process summed (pp_sub_high_1 p);
          (s2, high_2) = biquad_process s1 (pp_sub_high_2 p) in
      (frame1[LFE := s2], p\<lparr>pp_crossovers := crossovers, pp_lfe_low_1 := low_1, pp_lfe_low_2 := low_2,
         pp_sub_high_1 := high_1, pp_sub_high_2 := high_2\<rparr>))"

definition master_gain :: "post_processor \<Rightarrow> f32" where
  "master_gain p =
     (let target = (if pp_muted p \<or> pp_standby p then 0 else f32_mul (pp_headroom_gain p) (pp_user_gain p)) in
      f32_add (pp_smoothed_master_gain p)
        (f32_mul (f32_sub target (pp_smoothed_master_gain p)) (pp_gain_alpha p)))"

definition post_frame :: "f32 list \<Rightarrow> post_processor \<Rightarrow> (f32 list \<times> post_processor) option" where
  "post_frame frame p =
     (let (frame1, p1) = bass_managed (map finite_or_zero frame) p in
      case calibration_process frame1 (pp_calibration p1) of
        None \<Rightarrow> None
      | Some (frame2, cal) \<Rightarrow>
      (case lip_process frame2 (pp_lip_delay p1) of
        None \<Rightarrow> None
      | Some (frame3, lip) \<Rightarrow>
          let g = master_gain p1;
              (frame4, limiter) = limiter_process (map (\<lambda>x. f32_mul x g) frame3) (pp_limiter p1) in
          Some (frame4, p1\<lparr>pp_calibration := cal, pp_lip_delay := lip, pp_smoothed_master_gain := g,
            pp_limiter := limiter\<rparr>)))"

function post_frames :: "f32 list \<Rightarrow> post_processor \<Rightarrow> (f32 list \<times> post_processor) option" where
  "post_frames block p =
     (if length block < CHANNELS then Some (block, p)
      else case post_frame (take CHANNELS block) p of
        None \<Rightarrow> None
      | Some (frame, p1) \<Rightarrow> map_option (apfst ((@) frame)) (post_frames (drop CHANNELS block) p1))"
  by pat_completeness auto
termination
  by (relation "measure (\<lambda>(block, p). length block)") (auto simp: CHANNELS_def)

declare post_frames.simps [simp del]

definition post_process_block :: "f32 list \<Rightarrow> post_processor
    \<Rightarrow> (unit, output_shape_error) outcome \<times> f32 list \<times> post_processor" where
  "post_process_block block p =
     (if length block mod CHANNELS \<noteq> 0 then (Err OutputShapeError, map (\<lambda>_. 0) block, post_reset p)
      else case post_frames block p of
        None \<Rightarrow> (Panic, block, p)
      | Some (block', p') \<Rightarrow> (Ok (), block', p'))"

end
