(* ===== verification/Float_Unit.thy ===== *)
theory Float_Unit
  imports Float_Order
begin

text \<open>
  Single-precision numbers between zero and one: the gains and smoothing factors of the signal
  chains.  Rounding is monotonic, so they stay there under products, complements and quotients.
\<close>

section \<open>The real value of an exact one\<close>

definition rat_real :: "bool \<Rightarrow> nat \<Rightarrow> nat \<Rightarrow> real" where
  "rat_real s a b = sgn_of s * (real a / real b)"

lemma exact_le_rat: "0 < b \<Longrightarrow> 0 < b' \<Longrightarrow> exact_le (ExRat s a b) (ExRat s' a' b') \<longleftrightarrow> rat_real s a b \<le> rat_real s' a' b'"
  by (simp only: exact_le_real rat_real_def)

lemma rat_real_bounds [simp]: "rat_real s 0 b = 0" "rat_real False a b \<ge> 0"
  by (simp_all add: rat_real_def sgn_of_def)

lemma exact_sum_rat:
  assumes "0 < b" "0 < b'"
  obtains t c d where "exact_sum (ExRat s a b) (ExRat s' a' b') = ExRat t c d" "0 < d"
    "rat_real t c d = rat_real s a b + rat_real s' a' b'"
proof -
  let ?x = "signed_int s (a * b') + signed_int s' (a' * b)"
  have signed: "real_of_int (signed_int r y) = sgn_of r * real y" for r y
    by (simp add: signed_int_def sgn_of_def)
  have x: "real_of_int ?x = sgn_of s * real a * real b' + sgn_of s' * real a' * real b"
    by (simp add: signed)
  have "real_of_int ?x / (real b * real b') = rat_real s a b + rat_real s' a' b'"
    unfolding x using assms by (simp add: rat_real_def field_simps)
  moreover have "rat_real (?x < 0) (nat \<bar>?x\<bar>) (b * b') = real_of_int ?x / (real b * real b')"
    by (simp add: rat_real_def sgn_of_def)
  moreover have "rat_real (s \<and> s') 0 1 = real_of_int ?x / (real b * real b')" if "?x = 0"
    using that by simp
  ultimately show ?thesis using that assms by (cases "?x = 0") (auto simp: Let_def)
qed

definition real_value :: "f32 \<Rightarrow> real \<Rightarrow> bool" where
  "real_value x r \<longleftrightarrow> (\<exists>s a b. f32_exact x = ExRat s a b \<and> 0 < b \<and> r = rat_real s a b)"

lemma real_valueI: "f32_exact x = ExRat s a b \<Longrightarrow> real_value x (rat_real s a b)"
  using proper_f32 [of x] by (auto simp: real_value_def)

lemma finite_real_value: "f32_is_finite x \<Longrightarrow> \<exists>r. real_value x r"
  using f32_exact_finite real_valueI by blast

lemma real_value_finite: "real_value x r \<Longrightarrow> \<exists>s m e. f32_value x = Finite s m e \<and> r = sgn_of s * (real m * 2 powi e)"
proof -
  assume "real_value x r"
  then obtain s a b where x: "f32_exact x = ExRat s a b" "r = rat_real s a b" by (auto simp: real_value_def)
  show ?thesis
  proof (cases "f32_value x")
    case (Finite s' m e)
    then have "s' = s" "a = m * 2 ^ nat e" "b = 2 ^ nat (- e)" using x(1) by (simp_all add: f32_exact_def)
    then have "r = sgn_of s' * (real m * 2 powi e)" by (simp only: x(2) rat_real_def finite_ratio)
    then show ?thesis using Finite by blast
  qed (use x in \<open>simp_all add: f32_exact_def\<close>)
qed

lemma real_value_le: "real_value x r \<Longrightarrow> real_value y t \<Longrightarrow> f32_le x y \<longleftrightarrow> r \<le> t"
  by (auto simp: real_value_def f32_le_def exact_le_rat simp del: exact_le.simps)

lemma f32_exact_constants: "f32_exact 0 = ExRat False 0 (2 ^ 149)" "f32_exact 0x3F800000 = ExRat False 8388608 8388608"
  by (simp_all add: float_defs)

lemma real_value_constants: "real_value 0 0" "real_value 0x3F800000 1"
  by (simp_all add: real_value_def f32_exact_constants) (auto simp: rat_real_def sgn_of_def)

lemma f32_constants_rounded: "f32_of (f32_exact 0) = 0" "f32_of (f32_exact 0x3F800000) = 0x3F800000"
  by (rule f32_of_exact, simp add: f32_exact_constants)+

section \<open>The unit interval\<close>

definition unit_f32 :: "f32 \<Rightarrow> bool" where
  "unit_f32 x \<longleftrightarrow> f32_le 0 x \<and> f32_le x 0x3F800000"

lemma unit_constants [simp]: "unit_f32 0" "unit_f32 0x3F800000"
  using real_value_le [OF real_value_constants(1,1)] real_value_le [OF real_value_constants]
    real_value_le [OF real_value_constants(2,2)] by (simp_all add: unit_f32_def)

lemma unit_real:
  assumes "unit_f32 x"
  obtains r where "real_value x r" "0 \<le> r" "r \<le> 1"
proof (cases "f32_exact x")
  case (ExRat s a b)
  note x = real_valueI [OF this]
  from assms that [OF x] show ?thesis
    by (simp add: unit_f32_def real_value_le [OF real_value_constants(1) x] real_value_le [OF x real_value_constants(2)])
qed (use assms in \<open>auto simp: unit_f32_def f32_le_def f32_exact_constants split: if_splits\<close>)

lemma unit_finite: "unit_f32 x \<Longrightarrow> f32_is_finite x"
  by (elim unit_real) (auto dest: real_value_finite simp: f32_is_finite_iff)

lemma nonnegative_of: "0 < b \<Longrightarrow> 0 \<le> rat_real s a b \<Longrightarrow> f32_le 0 (f32_of (ExRat s a b))"
  using f32_of_mono [of "f32_exact 0" "ExRat s a b"]
  by (simp add: f32_constants_rounded) (simp add: f32_exact_constants exact_le_rat del: exact_le.simps)

lemma unit_of: "0 < b \<Longrightarrow> 0 \<le> rat_real s a b \<Longrightarrow> rat_real s a b \<le> 1 \<Longrightarrow> unit_f32 (f32_of (ExRat s a b))"
  using f32_of_mono [of "ExRat s a b" "f32_exact 0x3F800000"] nonnegative_of [of b s a]
  by (simp add: unit_f32_def f32_constants_rounded)
    (simp add: f32_exact_constants exact_le_rat rat_real_def [of False] sgn_of_def del: exact_le.simps)

lemma f32_add_real:
  assumes "real_value x r" "real_value y t"
  obtains s a b where "f32_add x y = f32_of (ExRat s a b)" "0 < b" "rat_real s a b = r + t"
proof -
  obtain s a b s' a' b' where xy: "f32_exact x = ExRat s a b" "0 < b" "r = rat_real s a b"
    "f32_exact y = ExRat s' a' b'" "0 < b'" "t = rat_real s' a' b'"
    using assms by (auto simp: real_value_def)
  from exact_sum_rat [OF xy(2,5), of s a s' a'] show ?thesis
    using that xy by (metis f32_add_def)
qed

lemma f32_sub_real:
  assumes "real_value x r" "real_value y t"
  obtains s a b where "f32_sub x y = f32_of (ExRat s a b)" "0 < b" "rat_real s a b = r - t"
proof -
  obtain s a b where x: "f32_exact x = ExRat s a b" "0 < b" "r = rat_real s a b"
    using assms(1) by (auto simp: real_value_def)
  from real_value_finite [OF assms(2)] obtain u m e where y: "f32_value y = Finite u m e" "t = sgn_of u * (real m * 2 powi e)"
    by blast
  have neg: "rat_real (\<not> u) (m * 2 ^ nat e) (2 ^ nat (- e)) = - t"
    using finite_ratio [of m e] by (simp add: rat_real_def y(2) sgn_of_def)
  have "(0::nat) < 2 ^ nat (- e)" by simp
  from exact_sum_rat [OF x(2) this, of s a "\<not> u" "m * 2 ^ nat e"] obtain v c d where
    sum: "exact_sum (ExRat s a b) (ExRat (\<not> u) (m * 2 ^ nat e) (2 ^ nat (- e))) = ExRat v c d" "0 < d"
      "rat_real v c d = rat_real s a b + rat_real (\<not> u) (m * 2 ^ nat e) (2 ^ nat (- e))" by blast
  have "f32_sub x y = f32_of (ExRat v c d)" using sum(1) by (simp add: f32_sub_def x(1) y(1) del: exact_sum.simps)
  then show ?thesis using that sum(2,3) neg x(3) by simp
qed

lemma f32_mul_real:
  assumes "real_value x r" "real_value y t"
  obtains s a b where "f32_mul x y = f32_of (ExRat s a b)" "0 < b" "rat_real s a b = r * t"
proof -
  from real_value_finite [OF assms(1)] obtain u m e where x: "f32_value x = Finite u m e" "r = sgn_of u * (real m * 2 powi e)" by blast
  from real_value_finite [OF assms(2)] obtain u' m' e' where y: "f32_value y = Finite u' m' e'" "t = sgn_of u' * (real m' * 2 powi e')" by blast
  have "rat_real (u \<noteq> u') (m * m' * 2 ^ nat (e + e')) (2 ^ nat (- (e + e'))) = r * t"
    using finite_ratio [of "m * m'" "e + e'"] by (simp add: rat_real_def x(2) y(2) sgn_of_def power_int_add)
  then show ?thesis using that [of "u \<noteq> u'"] by (simp add: f32_mul_def x(1) y(1))
qed

lemma f32_div_real:
  assumes "real_value x r" "real_value y t" "t \<noteq> 0"
  obtains s a b where "f32_div x y = f32_of (ExRat s a b)" "0 < b" "rat_real s a b = r / t"
proof -
  from real_value_finite [OF assms(1)] obtain u m e where x: "f32_value x = Finite u m e" "r = sgn_of u * (real m * 2 powi e)" by blast
  from real_value_finite [OF assms(2)] obtain u' m' e' where y: "f32_value y = Finite u' m' e'" "t = sgn_of u' * (real m' * 2 powi e')" by blast
  have m': "m' \<noteq> 0" using assms(3) y(2) by (cases m') auto
  have "real (m * 2 ^ nat (e - e')) / real (m' * 2 ^ nat (e' - e)) = (real m * 2 powi e) / (real m' * 2 powi e')"
    using shift_ratio [of m' m "e' - e"] m' by (simp add: power_int_diff)
  then have "rat_real (u \<noteq> u') (m * 2 ^ nat (e - e')) (m' * 2 ^ nat (e' - e)) = r / t"
    by (simp only: rat_real_def x(2) y(2)) (simp add: sgn_of_def)
  then show ?thesis using that [of "u \<noteq> u'"] m' by (simp add: f32_div_def x(1) y(1))
qed

lemma unit_complement:
  assumes "unit_f32 x" shows "unit_f32 (f32_sub 0x3F800000 x)"
proof -
  obtain r where x: "real_value x r" "0 \<le> r" "r \<le> 1" using unit_real [OF assms] by blast
  from f32_sub_real [OF real_value_constants(2) x(1)] show ?thesis using x(2,3) by (metis unit_of diff_ge_0_iff_ge diff_left_mono diff_zero)
qed

lemma unit_mul:
  assumes "unit_f32 x" "unit_f32 y" shows "unit_f32 (f32_mul x y)"
proof -
  obtain r t where x: "real_value x r" "0 \<le> r" "r \<le> 1" and y: "real_value y t" "0 \<le> t" "t \<le> 1"
    using unit_real [OF assms(1)] unit_real [OF assms(2)] by metis
  have "0 \<le> r * t" "r * t \<le> 1" using x y by (simp_all add: mult_le_one)
  then show ?thesis using f32_mul_real [OF x(1) y(1)] by (metis unit_of)
qed

lemma unit_add_nonnegative:
  assumes "unit_f32 x" "unit_f32 y" shows "f32_le 0 (f32_add x y)"
proof -
  obtain r t where x: "real_value x r" "0 \<le> r" and y: "real_value y t" "0 \<le> t"
    using unit_real [OF assms(1)] unit_real [OF assms(2)] by metis
  then show ?thesis using f32_add_real [OF x(1) y(1)] nonnegative_of by (metis add_nonneg_nonneg)
qed

lemma unit_div:
  assumes "f32_less 0 y" "f32_le 0 x" "f32_le x y" "f32_is_finite y" shows "unit_f32 (f32_div x y)"
proof -
  obtain t where y: "real_value y t" using finite_real_value [OF assms(4)] by blast
  have t: "0 < t" using assms(1) real_value_le [OF real_value_constants(1) y] real_value_le [OF y real_value_constants(1)]
    by (auto simp: f32_less_def)
  obtain r where x: "real_value x r"
  proof (cases "f32_exact x")
    case (ExRat s a b)
    then show ?thesis using that real_valueI by blast
  qed (use assms y in \<open>auto simp: real_value_def f32_le_def f32_exact_constants split: if_splits\<close>)
  have "0 \<le> r" "r \<le> t" using assms(2,3) real_value_le [OF real_value_constants(1) x] real_value_le [OF x y] by simp_all
  then have "0 \<le> r / t" "r / t \<le> 1" using t by (simp_all add: divide_le_eq)
  then show ?thesis using f32_div_real [OF x y] t by (metis unit_of less_irrefl)
qed

lemma unit_min:
  assumes "f32_le 0 x" "unit_f32 y" shows "unit_f32 (f32_min x y)"
proof -
  have xx: "f32_le x x" and yy: "f32_le y y"
    using assms exact_le_refl unfolding unit_f32_def f32_le_def by blast+
  show ?thesis
  proof (cases "f32_less y x")
    case False
    then have "f32_le x y" using f32_not_less [OF yy xx] by simp
    then have "f32_le x 0x3F800000" using assms(2) f32_le_trans unfolding unit_f32_def by blast
    then show ?thesis using False xx assms(1) by (simp add: f32_min_def unit_f32_def)
  qed (use assms xx in \<open>simp add: f32_min_def\<close>)
qed

text \<open>A product of finite numbers is a number, if perhaps an infinite one.\<close>

lemma rounded_number: "0 < b \<Longrightarrow> f32_le (f32_of (ExRat s a b)) (f32_of (ExRat s a b))"
  by (rule f32_of_mono) (simp_all add: exact_le_rat del: exact_le.simps)

lemma f32_mul_number:
  assumes "f32_is_finite x" "f32_is_finite y" shows "f32_le (f32_mul x y) (f32_mul x y)"
proof -
  obtain r t where "real_value x r" "real_value y t" using finite_real_value assms by blast
  then show ?thesis using f32_mul_real rounded_number by metis
qed

end
