(* ===== verification/Output_Bounds.thy ===== *)
theory Output_Bounds
  imports Output_Chain Float_Unit
begin

text \<open>
  The output chain is safe: from any state it can be brought to, no block panics, an incomplete
  block becomes silence, and no sample of a complete one exceeds the ceiling of the limiter.  The
  lip-sync ring is a window on the frames of the past.
\<close>

section \<open>Signs and clamping\<close>

lemma top_bit: "bit (x :: 32 word) 31 \<longleftrightarrow> 2 ^ 31 \<le> unat x"
proof -
  have "unat x < 2 ^ 32" using unsigned_less [of x, where 'a = nat] by simp
  then have "unat x div 2 ^ 31 < 2" by (simp add: less_mult_imp_div_less)
  then have "odd (unat x div 2 ^ 31) \<longleftrightarrow> 0 < unat x div 2 ^ 31" by (auto simp: less_2_cases_iff)
  moreover have "bit x 31 \<longleftrightarrow> odd (unat x div 2 ^ 31)"
    using bit_unsigned_iff [of x 31, where 'a = nat] by (simp add: bit_iff_odd)
  moreover have "0 < unat x div 2 ^ 31 \<longleftrightarrow> 2 ^ 31 \<le> unat x" by (simp add: div_greater_zero_iff)
  ultimately show ?thesis by simp
qed

lemma set_top_bit: "\<not> bit (x :: 32 word) 31 \<Longrightarrow> unat (xor x 0x80000000) = unat x + 2 ^ 31"
proof -
  assume clear: "\<not> bit x 31"
  have "bit (and x (2 ^ 31)) n \<longleftrightarrow> bit (0 :: 32 word) n" for n
    using clear by (auto simp only: bit_and_iff bit_exp_iff bit_0_eq bot_apply bot_bool_def)
  then have "and x (2 ^ 31) = 0" by (simp only: bit_eq_iff simp_thms)
  from disjunctive_add_eq_xor [OF this] have "xor x 0x80000000 = x + 0x80000000" by simp
  moreover have "unat x + 2 ^ 31 < 2 ^ 32" using clear by (simp add: top_bit)
  ultimately show ?thesis by (simp add: unat_word_ariths)
qed

lemma f32_neg_nat: "unat (f32_neg x) = (if unat x < 2 ^ 31 then unat x + 2 ^ 31 else unat x - 2 ^ 31)"
proof (cases "bit x 31")
  case False
  then show ?thesis using set_top_bit [of x] by (simp add: f32_neg_def top_bit)
next
  case True
  have "\<not> bit (xor x 0x80000000) 31"
    using True bit_exp_iff [of 31 31, where 'a = "32 word"] by (simp add: bit_xor_iff)
  from set_top_bit [OF this] have "unat x = unat (xor x 0x80000000) + 2 ^ 31" by (simp add: xor.assoc)
  then show ?thesis using True by (simp add: f32_neg_def top_bit)
qed

lemma f32_value_neg: "f32_value (f32_neg x) = negate_value (f32_value x)"
proof -
  have flip: "decode_magnitude 23 8 (\<not> s) n = negate_value (decode_magnitude 23 8 s n)" for s n
    by (simp add: decode_magnitude_def Let_def)
  have bound: "unat x < 2 ^ 32" using unsigned_less [of x, where 'a = nat] by simp
  show ?thesis
  proof (cases "unat x < 2 ^ 31")
    case True
    then show ?thesis using flip [of False "unat x"]
      by (simp add: f32_value_def decode_float_def f32_neg_nat)
  next
    case False
    define n where "n = unat x - 2 ^ 31"
    have n: "unat x = n + 2 ^ 31" "n < 2 ^ 31" using False bound by (simp_all add: n_def)
    then show ?thesis using flip [of True n] by (simp add: f32_value_def decode_float_def f32_neg_nat)
  qed
qed

lemma f32_le_self: "f32_le x x \<longleftrightarrow> f32_exact x \<noteq> ExNaN"
  by (cases "f32_exact x") (simp_all add: f32_le_def)

lemma f32_value_zero: "f32_value 0 = Finite False 0 (- 149)"
  by (simp add: f32_value_def decode_float_def decode_magnitude_def infinity_bits_def exponent_floor_def)

lemma f32_le_neg_self: "f32_less 0 c \<Longrightarrow> f32_le (f32_neg c) c"
proof -
  assume c: "f32_less 0 c"
  show ?thesis
  proof (cases "f32_value c")
    case (Finite s m e)
    have "\<not> s" using c by (cases s) (auto simp: signed_int_def f32_less_def f32_le_def f32_value_zero f32_exact_def Finite)
    then show ?thesis by (simp add: signed_int_def f32_le_def f32_exact_def f32_value_neg Finite)
  qed (use c in \<open>auto simp: f32_less_def f32_le_def f32_value_zero f32_exact_def f32_value_neg\<close>)
qed

definition bounded_by :: "f32 \<Rightarrow> f32 \<Rightarrow> bool" where
  "bounded_by c x \<longleftrightarrow> f32_le (f32_neg c) x \<and> f32_le x c"

lemma clamp_bounded:
  assumes "f32_less 0 c" "f32_le x x"
  shows "bounded_by c (f32_clamp x (f32_neg c) c)"
proof -
  have order: "f32_le (f32_neg c) c" using assms(1) by (rule f32_le_neg_self)
  then have refl: "f32_le (f32_neg c) (f32_neg c)" "f32_le c c"
    using exact_le_refl by (auto simp: f32_le_def)
  show ?thesis
    using order refl assms(2) f32_not_less [OF assms(2) refl(1)] f32_not_less [OF refl(2) assms(2)]
    by (simp add: bounded_by_def f32_clamp_def)
qed

lemma clamp_nan: "\<not> f32_le x x \<Longrightarrow> f32_clamp x lo hi = x"
  by (auto simp: f32_clamp_def f32_less_def f32_le_def dest: exact_le_refl)

section \<open>Filters\<close>

lemma biquad_process_finite: "f32_is_finite (fst (biquad_process x b))"
  by (simp add: biquad_process_def Let_def f32_is_finite_def)

lemma length_run_filters [simp]: "length (snd (run_filters bs x)) = length bs"
  by (induction bs arbitrary: x) (simp_all add: case_prod_beta)

section \<open>Calibration stays in its rings\<close>

definition calibration_ok :: "prepared_calibration \<Rightarrow> bool" where
  "calibration_ok p \<longleftrightarrow> length (pc_filters p) = CHANNELS \<and> (\<forall>fs\<in>set (pc_filters p). length fs = MAX_PEQ_BANDS)
     \<and> length (pc_bands p) = CHANNELS \<and> (\<forall>n\<in>set (pc_bands p). n \<le> MAX_PEQ_BANDS)
     \<and> length (pc_gains p) = CHANNELS \<and> length (pc_delays p) = CHANNELS
     \<and> (\<forall>d\<in>set (pc_delays p). d < CALIBRATION_DELAY_FRAMES)
     \<and> length (pc_ring p) = CALIBRATION_DELAY_FRAMES * CHANNELS \<and> pc_write p < CALIBRATION_DELAY_FRAMES"

lemma calibration_flat_ok: "calibration_ok calibration_flat"
  by (simp add: calibration_ok_def calibration_flat_def CALIBRATION_DELAY_FRAMES_def)

lemma prepare_bands_length: "prepare_bands M slot bs filters = Ok filters' \<Longrightarrow> length filters' = length filters"
  by (induction bs arbitrary: slot filters) (auto split: if_splits)

lemma prepare_bands_no_panic: "prepare_bands M slot bs filters \<noteq> Panic"
  by (induction bs arbitrary: slot filters) auto

lemma prepare_channels_ok:
  "calibration_ok p \<Longrightarrow> index + length cs \<le> CHANNELS \<Longrightarrow> prepare_channels M index cs p = Ok p' \<Longrightarrow> calibration_ok p'"
proof (induction cs arbitrary: index p)
  case (Cons pair cs)
  obtain c role where pair: "pair = (c, role)" by (cases pair)
  obtain filters where filters: "prepare_bands M 0 (cc_peq c) (pc_filters p ! index) = Ok filters"
    and admitted: "cc_delay_frames c < CALIBRATION_DELAY_FRAMES" "length (cc_peq c) \<le> MAX_PEQ_BANDS"
    and rest: "prepare_channels M (Suc index) cs (p
          \<lparr>pc_gains := (pc_gains p)[index := f32_mul (output_db_to_linear M (cc_trim_db c))
             (if cc_invert_polarity c then 0xBF800000 else 0x3F800000)],
           pc_delays := (pc_delays p)[index := cc_delay_frames c],
           pc_bands := (pc_bands p)[index := length (cc_peq c)],
           pc_filters := (pc_filters p)[index := filters]\<rparr>) = Ok p'"
    using Cons.prems(3) unfolding pair prepare_channels.simps
    by (auto simp: not_le not_less split: if_splits outcome.splits)
  have "pc_filters p ! index \<in> set (pc_filters p)" using Cons.prems(1,2) by (simp add: calibration_ok_def)
  then have "length filters = MAX_PEQ_BANDS"
    using prepare_bands_length [OF filters] Cons.prems(1) by (auto simp: calibration_ok_def)
  then show ?case
    using admitted Cons.prems(1,2)
    by (intro Cons.IH [OF _ _ rest]) (auto simp: calibration_ok_def dest!: subsetD [OF set_update_subset_insert])
qed simp

lemma prepare_channels_no_panic: "prepare_channels M index cs p \<noteq> Panic"
  by (induction M index cs p rule: prepare_channels.induct) (auto simp: prepare_bands_no_panic split: outcome.splits)

lemma calibration_prepare_ok:
  assumes "calibration_prepare M config = Ok p"
  shows "calibration_ok p"
proof (rule prepare_channels_ok [OF calibration_flat_ok])
  show "prepare_channels M 0 (zip (sk_channels config) (canonical_roles SevenOneFour)) calibration_flat = Ok p"
    using assms by (auto simp: calibration_prepare_def split: if_splits)
  show "0 + length (zip (sk_channels config) (canonical_roles SevenOneFour)) \<le> CHANNELS"
    using assms by (auto simp: calibration_prepare_def split: if_splits)
qed

lemma calibrate_sample_ok:
  assumes ok: "calibration_ok p" and channel: "channel < CHANNELS"
  shows "\<exists>y p'. calibrate_sample channel x p = Some (y, p') \<and> calibration_ok p'"
proof -
  have inside: "k * CHANNELS + channel < CALIBRATION_DELAY_FRAMES * CHANNELS" if "k < CALIBRATION_DELAY_FRAMES" for k
  proof -
    have "k * CHANNELS + channel < Suc k * CHANNELS" using channel by simp
    also have "\<dots> \<le> CALIBRATION_DELAY_FRAMES * CHANNELS" using that by (intro mult_le_mono1) simp
    finally show ?thesis .
  qed
  have members: "pc_filters p ! channel \<in> set (pc_filters p)" "pc_bands p ! channel \<in> set (pc_bands p)"
    "pc_delays p ! channel \<in> set (pc_delays p)"
    using ok channel by (simp_all add: calibration_ok_def)
  have lengths: "length (pc_filters p ! channel) = MAX_PEQ_BANDS" "pc_bands p ! channel \<le> MAX_PEQ_BANDS"
    "pc_delays p ! channel < CALIBRATION_DELAY_FRAMES"
    using ok members by (auto simp: calibration_ok_def)
  have n: "length (pc_ring p) = CALIBRATION_DELAY_FRAMES * CHANNELS" "pc_write p < CALIBRATION_DELAY_FRAMES"
    "0 < CALIBRATION_DELAY_FRAMES" "length (pc_filters p) = CHANNELS"
    using ok by (simp_all add: calibration_ok_def)
  let ?k = "pc_bands p ! channel" and ?fs = "pc_filters p ! channel"
  let ?r = "run_filters (take ?k ?fs) x" and ?w = "pc_write p * CHANNELS + channel"
  let ?ring = "(pc_ring p)[?w := f32_mul (fst ?r) (pc_gains p ! channel)]"
  let ?read = "(pc_write p + CALIBRATION_DELAY_FRAMES - pc_delays p ! channel) mod CALIBRATION_DELAY_FRAMES"
  let ?p = "p\<lparr>pc_filters := (pc_filters p)[channel := snd ?r @ drop ?k ?fs], pc_ring := ?ring\<rparr>"
  have "calibrate_sample channel x p = Some (?ring ! (?read * CHANNELS + channel), ?p)"
    using channel lengths n inside [OF n(2)] inside [of ?read]
    by (simp add: calibrate_sample_def Let_def case_prod_beta get_at_def)
  moreover have "calibration_ok ?p"
    using ok lengths by (auto simp: calibration_ok_def dest!: subsetD [OF set_update_subset_insert])
  ultimately show ?thesis by blast
qed

lemma calibrate_frame_ok:
  "calibration_ok p \<Longrightarrow> channel + length xs \<le> CHANNELS \<Longrightarrow>
     \<exists>ys p'. calibrate_frame channel xs p = Some (ys, p') \<and> length ys = length xs \<and> calibration_ok p'"
proof (induction xs arbitrary: channel p)
  case (Cons x xs)
  obtain y p1 where one: "calibrate_sample channel x p = Some (y, p1)" "calibration_ok p1"
    using calibrate_sample_ok [OF Cons.prems(1), of channel x] Cons.prems(2) by auto
  show ?case using Cons.IH [OF one(2), of "Suc channel"] Cons.prems(2) one(1) by auto
qed simp

lemma calibration_process_ok:
  assumes "calibration_ok p" "length frame = CHANNELS"
  shows "\<exists>ys p'. calibration_process frame p = Some (ys, p') \<and> length ys = CHANNELS \<and> calibration_ok p'"
  using calibrate_frame_ok [OF assms(1), of 0 frame] assms(2)
  by (auto simp: calibration_process_def calibration_ok_def CALIBRATION_DELAY_FRAMES_def)

lemma calibration_reset_ok: "calibration_ok p \<Longrightarrow> calibration_ok (calibration_reset p)"
  by (auto simp: calibration_ok_def calibration_reset_def)

section \<open>The lip-sync ring\<close>

text \<open>The frames so far, the latest first; a silent frame before the start.\<close>

definition past_frame :: "f32 list list \<Rightarrow> nat \<Rightarrow> f32 list" where
  "past_frame h j = (if j < length h then h ! j else replicate CHANNELS 0)"

definition frame_window :: "nat \<Rightarrow> f32 list \<Rightarrow> nat \<Rightarrow> f32 list list \<Rightarrow> bool" where
  "frame_window n ring w h \<longleftrightarrow> length ring = n * CHANNELS \<and> w < n
     \<and> (\<forall>j<n. ring_frame ring ((w + n - 1 - j) mod n * CHANNELS) = Some (past_frame h j))"

lemma past_frame_Cons [simp]: "past_frame (x # h) 0 = x" "past_frame (x # h) (Suc j) = past_frame h j"
  by (simp_all add: past_frame_def)

lemma frame_fits: "k < n \<Longrightarrow> k * CHANNELS + CHANNELS \<le> n * CHANNELS"
  using mult_le_mono1 [of "Suc k" n CHANNELS] by simp

lemma ring_frame_silent: "k < n \<Longrightarrow> ring_frame (replicate (n * CHANNELS) 0) (k * CHANNELS) = Some (replicate CHANNELS 0)"
  using frame_fits [of k n] by (simp add: ring_frame_def min_def)

lemma frame_window_silent: "0 < n \<Longrightarrow> frame_window n (replicate (n * CHANNELS) 0) 0 []"
  by (simp add: frame_window_def past_frame_def ring_frame_silent)

lemma ring_frame_written:
  assumes "length ring = n * CHANNELS" "w < n" "k < n" "length f = CHANNELS"
  shows "ring_frame (take (w * CHANNELS) ring @ f @ drop (w * CHANNELS + CHANNELS) ring) (k * CHANNELS)
    = (if k = w then Some f else ring_frame ring (k * CHANNELS))"
proof -
  have fits: "w * CHANNELS + CHANNELS \<le> length ring" "k * CHANNELS + CHANNELS \<le> length ring"
    using frame_fits assms(1-3) by auto
  have apart: "k * CHANNELS + CHANNELS \<le> w * CHANNELS" if "k < w" using frame_fits [OF that] by simp
  have apart': "w * CHANNELS + CHANNELS \<le> k * CHANNELS" if "w < k" using frame_fits [OF that] by simp
  consider "k = w" | "k < w" | "w < k" by linarith
  then show ?thesis
  proof cases
    case 1
    then show ?thesis using fits assms(4) by (simp add: ring_frame_def)
  next
    case 2
    have "take CHANNELS (drop (k * CHANNELS) (take (w * CHANNELS) ring @ rest)) = take CHANNELS (drop (k * CHANNELS) ring)" for rest
      using fits apart [OF 2] by (auto simp: take_drop add.commute min_def)
    then show ?thesis using 2 fits assms(4) by (simp add: ring_frame_def)
  next
    case 3
    then obtain d where d: "k * CHANNELS = w * CHANNELS + CHANNELS + d"
      using apart' [OF 3] by (metis le_iff_add)
    then show ?thesis using 3 fits assms(4) by (simp add: ring_frame_def d add.commute)
  qed
qed

lemma frame_window_push:
  assumes window: "frame_window n ring w h" and f: "length f = CHANNELS"
  shows "frame_window n (take (w * CHANNELS) ring @ f @ drop (w * CHANNELS + CHANNELS) ring)
    (if w + 1 = n then 0 else w + 1) (f # h)"
proof -
  let ?ring = "take (w * CHANNELS) ring @ f @ drop (w * CHANNELS + CHANNELS) ring" and ?w = "if w + 1 = n then 0 else w + 1"
  have n: "w < n" "length ring = n * CHANNELS"
    and old: "\<And>j. j < n \<Longrightarrow> ring_frame ring ((w + n - 1 - j) mod n * CHANNELS) = Some (past_frame h j)"
    using window by (auto simp: frame_window_def)
  have "ring_frame ?ring ((?w + n - 1 - j) mod n * CHANNELS) = Some (past_frame (f # h) j)" if j: "j < n" for j
  proof (cases j)
    case 0
    then have "(?w + n - 1 - j) mod n = w" using n by (auto simp: mod_if)
    then show ?thesis using 0 ring_frame_written [OF n(2,1,1) f] by simp
  next
    case (Suc i)
    have at: "(?w + n - 1 - j) mod n = (w + n - 1 - i) mod n" "(w + n - 1 - i) mod n \<noteq> w"
      using Suc j n by (auto simp: mod_if)
    have "(w + n - 1 - i) mod n < n" using n by simp
    then show ?thesis using ring_frame_written [OF n(2,1) _ f, of "(w + n - 1 - i) mod n"] at old [of i] Suc j by simp
  qed
  then show ?thesis using n f frame_fits [OF n(1)] by (simp add: frame_window_def)
qed

lemma frame_window_read:
  assumes "frame_window n ring w h" "length f = CHANNELS" "j < n"
  shows "ring_frame (take (w * CHANNELS) ring @ f @ drop (w * CHANNELS + CHANNELS) ring) ((w + n - j) mod n * CHANNELS)
    = Some (past_frame (f # h) j)"
proof -
  have n: "w < n" using assms(1) by (simp add: frame_window_def)
  have at: "((if w + 1 = n then 0 else w + 1) + n - 1 - j) mod n = (w + n - j) mod n"
    using n assms(3) by (auto simp: mod_if)
  show ?thesis
    using frame_window_push [OF assms(1,2)] assms(3) unfolding frame_window_def at [symmetric] by blast
qed

lemma lip_ring_silent: "frame_window LIPSYNC_RING_FRAMES (replicate (LIPSYNC_RING_FRAMES * CHANNELS) 0) 0 []"
  by (rule frame_window_silent) (simp add: LIPSYNC_RING_FRAMES_def)

definition lip_holds :: "lip_delay \<Rightarrow> f32 list list \<Rightarrow> bool" where
  "lip_holds l h \<longleftrightarrow> frame_window LIPSYNC_RING_FRAMES (ld_ring l) (ld_write_frame l) h
     \<and> ld_delay_frames l < LIPSYNC_RING_FRAMES \<and> ld_previous_delay l < LIPSYNC_RING_FRAMES
     \<and> ld_requested_delay l < LIPSYNC_RING_FRAMES"

text \<open>The reference: the frame of the past at the delay, faded over from the previous delay.\<close>

definition lip_output :: "f32 list list \<Rightarrow> lip_delay \<Rightarrow> f32 list" where
  "lip_output h l =
     (if 0 < ld_fade_remaining l
      then map2 (crossfade (fade_alpha (ld_fade_remaining l))) (past_frame h (ld_previous_delay l))
             (past_frame h (ld_delay_frames l))
      else past_frame h (ld_delay_frames l))"

lemma lip_begin_fade_holds: "lip_holds l h \<Longrightarrow> lip_holds (lip_begin_fade l) h"
  by (simp add: lip_holds_def lip_begin_fade_def)

lemma lip_process_value:
  assumes l: "lip_holds l h" and f: "length f = CHANNELS"
  shows "\<exists>l'. lip_process f l = Some (lip_output (f # h) (lip_begin_fade l), l') \<and> lip_holds l' (f # h)
    \<and> ld_delay_frames l' = ld_delay_frames (lip_begin_fade l) \<and> ld_previous_delay l' = ld_previous_delay (lip_begin_fade l)
    \<and> ld_requested_delay l' = ld_requested_delay l \<and> ld_fade_remaining l' = ld_fade_remaining (lip_begin_fade l) - 1"
proof -
  let ?l = "lip_begin_fade l"
  note held = lip_begin_fade_holds [OF l]
  have window: "frame_window LIPSYNC_RING_FRAMES (ld_ring ?l) (ld_write_frame ?l) h"
    and delays: "ld_delay_frames ?l < LIPSYNC_RING_FRAMES" "ld_previous_delay ?l < LIPSYNC_RING_FRAMES"
    "ld_requested_delay ?l < LIPSYNC_RING_FRAMES"
    using held by (simp_all add: lip_holds_def)
  have fits: "ld_write_frame ?l * CHANNELS + CHANNELS \<le> length (ld_ring ?l)"
    using window frame_fits by (simp add: frame_window_def)
  have req: "ld_requested_delay ?l = ld_requested_delay l" by (simp add: lip_begin_fade_def)
  let ?ring = "take (ld_write_frame ?l * CHANNELS) (ld_ring ?l) @ f @ drop (ld_write_frame ?l * CHANNELS + CHANNELS) (ld_ring ?l)"
  let ?l' = "?l\<lparr>ld_ring := ?ring, ld_write_frame := (if ld_write_frame ?l + 1 = LIPSYNC_RING_FRAMES then 0 else ld_write_frame ?l + 1),
    ld_fade_remaining := ld_fade_remaining ?l - 1\<rparr>"
  have "lip_process f l = Some (lip_output (f # h) ?l, ?l')"
    using frame_window_read [OF window f delays(1)] frame_window_read [OF window f delays(2)] delays fits f
    by (cases "0 < ld_fade_remaining ?l") (simp_all add: lip_process_def Let_def lip_output_def)
  moreover have "lip_holds ?l' (f # h)"
    using frame_window_push [OF window f] delays
    by (cases "ld_write_frame ?l + 1 = LIPSYNC_RING_FRAMES") (simp_all add: lip_holds_def)
  ultimately show ?thesis using req by (intro exI [of _ ?l']) simp
qed

lemma lip_new_holds: "lip_new d = Ok l \<Longrightarrow> lip_holds l []"
  using lip_ring_silent by (auto simp: lip_new_def lip_holds_def split: if_splits) (simp_all add: LIPSYNC_RING_FRAMES_def)

lemma lip_set_holds: "lip_holds l h \<Longrightarrow> lip_holds (lip_set_delay_frames d l) h"
  by (simp add: lip_holds_def lip_set_delay_frames_def LIPSYNC_RING_FRAMES_def)

lemma lip_reset_holds: "lip_holds l h \<Longrightarrow> lip_holds (lip_reset l) []"
  using lip_ring_silent by (auto simp: lip_holds_def lip_reset_def map_replicate_const frame_window_def [of _ _ _ h])

section \<open>The limiter\<close>

definition sample_bounded :: "f32 \<Rightarrow> f32 \<Rightarrow> bool" where
  "sample_bounded c x \<longleftrightarrow> \<not> f32_le x x \<or> bounded_by c x"

lemma clamped_sample: "f32_less 0 c \<Longrightarrow> sample_bounded c (f32_clamp x (f32_neg c) c)"
  by (cases "f32_le x x") (simp_all add: sample_bounded_def clamp_bounded clamp_nan)

lemma limiter_bounds:
  assumes "f32_less 0 (ll_ceiling l)" "limiter_process frame l = (frame', l')"
  shows "list_all (sample_bounded (ll_ceiling l)) frame'" "length frame' = length frame" "ll_ceiling l' = ll_ceiling l"
  using assms by (auto simp: limiter_process_def Let_def list_all_iff clamped_sample)

text \<open>An infinite sample takes the gain to zero, and so becomes a NaN itself.\<close>

lemma infinity_values: "f32_value 0x7F800000 = Infinite False" "f32_value 0x3F800000 = Finite False 8388608 (- 23)"
  "f32_value 0x7FC00000 = NotANumber"
  by (simp_all add: f32_value_def decode_float_def decode_magnitude_def infinity_bits_def exponent_floor_def)

lemma limiter_infinite_sample:
  "limiter_process [0x7F800000] \<lparr>ll_ceiling = 0x3F800000, ll_gain = 0x3F800000, ll_release_alpha = alpha\<rparr>
    = ([0x7FC00000], \<lparr>ll_ceiling = 0x3F800000, ll_gain = 0, ll_release_alpha = alpha\<rparr>)"
proof -
  have less: "f32_less 0 0x7F800000" "f32_less 0x3F800000 0x7F800000" "f32_less 0 0x3F800000"
    by (simp_all add: f32_less_def f32_le_def f32_exact_def infinity_values f32_value_zero signed_int_def)
  then have peak: "f32_max 0 (f32_abs 0x7F800000) = 0x7F800000"
    by (simp add: f32_max_def f32_abs_def f32_le_self f32_exact_def f32_value_zero)
  have quotient: "f32_div 0x3F800000 0x7F800000 = 0" "f32_mul 0x7F800000 0 = 0x7FC00000"
    by (simp_all add: f32_div_def f32_mul_def infinity_values f32_value_zero f32_of_def signed_bits_def
        round_magnitude_def infinity_bits_def)
  have "f32_clamp 0x7FC00000 lo hi = 0x7FC00000" for lo hi
    by (rule clamp_nan) (simp add: f32_le_self f32_exact_def infinity_values)
  then show ?thesis by (simp add: limiter_process_def limiter_gain_def less peak quotient)
qed

section \<open>The whole chain\<close>

definition post_ok :: "post_processor \<Rightarrow> bool" where
  "post_ok p \<longleftrightarrow> calibration_ok (pp_calibration p) \<and> length (pp_crossovers p) = CHANNELS
     \<and> f32_less 0 (ll_ceiling (pp_limiter p)) \<and> f32_le (ll_ceiling (pp_limiter p)) 0x3F800000
     \<and> (\<exists>h. lip_holds (pp_lip_delay p) h)"

lemma length_split_channels:
  "split_channels channel xs cs bass = (ys, cs', b) \<Longrightarrow> length ys = length xs \<and> length cs' = length cs"
proof (induction xs arbitrary: channel cs bass ys cs' b)
  case (Cons x xs)
  then show ?case
    by (cases cs; cases "crossover_split x (hd cs)") (fastforce split: if_splits prod.splits)+
qed simp

lemma bass_managed_shape:
  assumes "bass_managed frame p = (frame', p')"
  shows "length frame' = length frame" "length (pp_crossovers p') = length (pp_crossovers p)"
    "pp_calibration p' = pp_calibration p" "pp_lip_delay p' = pp_lip_delay p" "pp_limiter p' = pp_limiter p"
proof -
  obtain frame1 cs b where split: "split_channels 0 frame (pp_crossovers p) 0 = (frame1, cs, b)" by (metis prod_cases3)
  note lengths = length_split_channels [OF split]
  show "length frame' = length frame" "length (pp_crossovers p') = length (pp_crossovers p)"
    "pp_calibration p' = pp_calibration p" "pp_lip_delay p' = pp_lip_delay p" "pp_limiter p' = pp_limiter p"
    using assms lengths by (auto simp: bass_managed_def split Let_def split: prod.splits)
qed

lemma past_frame_length: "frame_window n ring w h \<Longrightarrow> j < n \<Longrightarrow> length (past_frame h j) = CHANNELS"
proof -
  assume window: "frame_window n ring w h" and j: "j < n"
  then have "ring_frame ring ((w + n - 1 - j) mod n * CHANNELS) = Some (past_frame h j)" by (simp add: frame_window_def)
  moreover have "length f = CHANNELS" if "ring_frame ring k = Some f" for k f
    using that by (auto simp: ring_frame_def split: if_splits)
  ultimately show ?thesis by blast
qed

lemma lip_output_length: "lip_holds l h \<Longrightarrow> length (lip_output h l) = CHANNELS"
  using past_frame_length by (auto simp: lip_holds_def lip_output_def)

lemma post_frame_ok:
  assumes ok: "post_ok p" and frame: "length frame = CHANNELS"
  shows "\<exists>frame' p'. post_frame frame p = Some (frame', p') \<and> length frame' = CHANNELS \<and> post_ok p'
    \<and> ll_ceiling (pp_limiter p') = ll_ceiling (pp_limiter p)
    \<and> list_all (sample_bounded (ll_ceiling (pp_limiter p))) frame'"
proof -
  obtain frame1 p1 where bass: "bass_managed (map finite_or_zero frame) p = (frame1, p1)" by fastforce
  note shape = bass_managed_shape [OF bass]
  obtain frame2 cal where cal: "calibration_process frame1 (pp_calibration p1) = Some (frame2, cal)"
    "length frame2 = CHANNELS" "calibration_ok cal"
    using calibration_process_ok [of "pp_calibration p1" frame1] ok shape frame by (auto simp: post_ok_def)
  obtain h where held: "lip_holds (pp_lip_delay p1) h" using ok shape by (auto simp: post_ok_def)
  from lip_process_value [OF held cal(2)] obtain lip where
    lip: "lip_process frame2 (pp_lip_delay p1) = Some (lip_output (frame2 # h) (lip_begin_fade (pp_lip_delay p1)), lip)"
    "lip_holds lip (frame2 # h)" "ld_delay_frames lip = ld_delay_frames (lip_begin_fade (pp_lip_delay p1))"
    "ld_previous_delay lip = ld_previous_delay (lip_begin_fade (pp_lip_delay p1))" by blast
  let ?frame3 = "lip_output (frame2 # h) (lip_begin_fade (pp_lip_delay p1))"
  have l3: "length ?frame3 = CHANNELS"
    using past_frame_length [of LIPSYNC_RING_FRAMES "ld_ring lip" "ld_write_frame lip" "frame2 # h"] lip
    by (auto simp: lip_holds_def lip_output_def)
  obtain frame4 limiter where limit: "limiter_process (map (\<lambda>x. f32_mul x (master_gain p1)) ?frame3) (pp_limiter p1) = (frame4, limiter)"
    by fastforce
  have "f32_less 0 (ll_ceiling (pp_limiter p1))" using ok shape by (simp add: post_ok_def)
  note bounds = limiter_bounds [OF this limit]
  show ?thesis using ok shape cal lip(1,2) bounds l3 bass limit by (auto simp: post_frame_def post_ok_def Let_def)
qed

lemma post_frames_ok:
  "post_ok p \<Longrightarrow> CHANNELS dvd length block \<Longrightarrow>
     \<exists>block' p'. post_frames block p = Some (block', p') \<and> length block' = length block \<and> post_ok p'
       \<and> ll_ceiling (pp_limiter p') = ll_ceiling (pp_limiter p)
       \<and> list_all (sample_bounded (ll_ceiling (pp_limiter p))) block'"
proof (induction "length block" arbitrary: block p rule: less_induct)
  case less
  show ?case
  proof (cases "length block < CHANNELS")
    case True
    then have "block = []" using less.prems(2) by (auto dest: dvd_imp_le)
    then show ?thesis using True less.prems(1) by (simp add: post_frames.simps)
  next
    case False
    then have chunk: "length (take CHANNELS block) = CHANNELS" by simp
    from post_frame_ok [OF less.prems(1) chunk] obtain frame' p1 where
      first: "post_frame (take CHANNELS block) p = Some (frame', p1)" "length frame' = CHANNELS" "post_ok p1"
        "ll_ceiling (pp_limiter p1) = ll_ceiling (pp_limiter p)" "list_all (sample_bounded (ll_ceiling (pp_limiter p))) frame'"
      by blast
    have "length (drop CHANNELS block) < length block" "CHANNELS dvd length (drop CHANNELS block)"
      using False less.prems(2) by (simp_all add: dvd_minus_self CHANNELS_def)
    from less.hyps [OF this(1) first(3) this(2)] first False show ?thesis
      by (auto simp: post_frames.simps [of block])
  qed
qed

lemma limiter_new_ceiling:
  assumes "limiter_new M dbfs release = Ok l"
  shows "f32_less 0 (ll_ceiling l)" "f32_le (ll_ceiling l) 0x3F800000"
proof -
  let ?c = "output_db_to_linear M dbfs"
  have c: "f32_is_finite ?c" "\<not> f32_le ?c 0" "\<not> f32_less 0x3F800000 ?c" "ll_ceiling l = ?c"
    using assms by (auto simp: limiter_new_def Let_def split: if_splits)
  have refl: "f32_le ?c ?c" "f32_le 0 0" "f32_le 0x3F800000 0x3F800000"
    using c(1) f32_exact_finite [OF c(1)] unit_constants by (auto simp: f32_le_self unit_f32_def)
  show "f32_less 0 (ll_ceiling l)" using c(2,4) f32_not_less [OF refl(2,1)] by simp
  show "f32_le (ll_ceiling l) 0x3F800000" using c(3,4) f32_not_less [OF refl(3,1)] by simp
qed

lemma post_new_ok: "post_new M config = Ok p \<Longrightarrow> post_ok p"
  by (auto simp: post_new_def split: if_splits outcome.splits)
    (auto simp: post_ok_def calibration_flat_ok CHANNELS_def dest: limiter_new_ceiling lip_new_holds)

lemma post_reset_ok: "post_ok p \<Longrightarrow> post_ok (post_reset p)"
  using lip_reset_holds by (auto simp: post_ok_def post_reset_def limiter_reset_def calibration_reset_ok)

lemma configure_calibration_ok: "post_ok p \<Longrightarrow> post_ok (snd (configure_calibration M config p))"
  using post_reset_ok [of "p\<lparr>pp_calibration := c\<rparr>" for c] calibration_prepare_ok [of M config]
  by (auto simp: configure_calibration_def post_ok_def split: outcome.splits)

inductive post_reachable :: "math \<Rightarrow> post_processor \<Rightarrow> bool" for M where
  po_new: "post_new M config = Ok p \<Longrightarrow> post_reachable M p"
| po_calibrate: "post_reachable M p \<Longrightarrow> post_reachable M (snd (configure_calibration M config p))"
| po_gain: "post_reachable M p \<Longrightarrow> post_reachable M (set_master_gain_mdb M g p)"
| po_lipsync: "post_reachable M p \<Longrightarrow> post_reachable M (set_lipsync_frames d p)"
| po_mute: "post_reachable M p \<Longrightarrow> post_reachable M (set_mute b p)"
| po_standby: "post_reachable M p \<Longrightarrow> post_reachable M (set_standby b p)"
| po_block: "post_reachable M p \<Longrightarrow> post_process_block block p = (res, block', p') \<Longrightarrow> post_reachable M p'"
| po_reset: "post_reachable M p \<Longrightarrow> post_reachable M (post_reset p)"

lemma post_reachable_ok: "post_reachable M p \<Longrightarrow> post_ok p"
proof (induction rule: post_reachable.induct)
  case (po_lipsync p d)
  then show ?case using lip_set_holds by (auto simp: post_ok_def set_lipsync_frames_def)
next
  case (po_block p block res block' p')
  then show ?case using post_frames_ok [OF po_block(3), of block] post_reset_ok
    by (auto simp: post_process_block_def dvd_eq_mod_eq_0 split: if_splits)
qed (simp_all add: post_new_ok configure_calibration_ok post_reset_ok, simp_all add: post_ok_def set_master_gain_mdb_def
    set_mute_def set_standby_def)

text \<open>
  C26: In every state the chain can be brought to, no block panics.  A block that is not made of
  complete frames becomes silence and resets the chain.  A complete block keeps its length, and
  each of its samples is a NaN or lies within the ceiling of the limiter, which is at most one.
\<close>

theorem output_chain_safe:
  assumes "post_reachable M p"
  shows "case post_process_block block p of (res, block', p') \<Rightarrow>
    f32_le (ll_ceiling (pp_limiter p)) 0x3F800000 \<and> length block' = length block
    \<and> (if CHANNELS dvd length block
       then res = Ok () \<and> list_all (sample_bounded (ll_ceiling (pp_limiter p))) block'
       else res = Err OutputShapeError \<and> block' = replicate (length block) 0 \<and> p' = post_reset p)"
proof -
  have ok: "post_ok p" using post_reachable_ok [OF assms] .
  then show ?thesis
  proof (cases "CHANNELS dvd length block")
    case True
    from post_frames_ok [OF ok True] ok show ?thesis using True
      by (auto simp: post_process_block_def post_ok_def)
  qed (use ok in \<open>auto simp: post_process_block_def post_ok_def map_replicate_const dvd_eq_mod_eq_0\<close>)
qed

section \<open>A common gain\<close>

text \<open>The library's exponential maps what is not positive into the unit interval.\<close>

definition exp_unit :: "math \<Rightarrow> bool" where
  "exp_unit M \<longleftrightarrow> (\<forall>x. f32_le x 0 \<longrightarrow> unit_f32 (m_exp M x))"

lemma real_value_minus_one: "real_value 0xBF800000 (- 1)"
proof -
  have "f32_exact 0xBF800000 = ExRat True 8388608 8388608" by (simp add: float_defs)
  from real_valueI [OF this] show ?thesis by (simp add: rat_real_def sgn_of_def)
qed

lemma negative_reciprocal:
  assumes "f32_le 0x3F800000 y" shows "f32_le (f32_div 0xBF800000 y) 0"
proof (cases "f32_value y")
  case (Finite s m e)
  then have "f32_is_finite y" by (auto simp: f32_is_finite_iff)
  then obtain t where y: "real_value y t" using finite_real_value by blast
  have t: "1 \<le> t" using assms real_value_le [OF real_value_constants(2) y] by simp
  obtain u a b where q: "f32_div 0xBF800000 y = f32_of (ExRat u a b)" "0 < b" "rat_real u a b = - 1 / t"
    using f32_div_real [OF real_value_minus_one y] t by (metis not_one_le_zero)
  have "exact_le (ExRat u a b) (f32_exact 0)"
    using q t by (simp add: f32_exact_constants exact_le_rat del: exact_le.simps)
  from f32_of_mono [OF this] q show ?thesis by (simp add: f32_constants_rounded)
next
  case (Infinite s)
  have "f32_value 0xBF800000 = Finite True 8388608 (- 23)"
    by (simp add: f32_value_def decode_float_def decode_magnitude_def infinity_bits_def exponent_floor_def)
  then have "f32_div 0xBF800000 y = f32_of (ExRat (\<not> s) 0 1)" by (simp add: f32_div_def Infinite)
  moreover have "exact_le (ExRat (\<not> s) 0 1) (f32_exact 0)"
    by (simp add: f32_exact_constants exact_le_rat del: exact_le.simps)
  ultimately show ?thesis using f32_of_mono [of "ExRat (\<not> s) 0 1" "f32_exact 0"] by (simp add: f32_constants_rounded)
next
  case NotANumber
  then show ?thesis using assms by (auto simp: f32_le_def f32_exact_def infinity_values)
qed

lemma smoothing_alpha_unit: "exp_unit M \<Longrightarrow> unit_f32 (smoothing_alpha M samples)"
proof -
  assume M: "exp_unit M"
  have one: "f32_le 0x3F800000 0x3F800000" using unit_constants by (simp add: unit_f32_def)
  have "f32_le 0x3F800000 (f32_max samples 0x3F800000)"
    using one f32_not_less [of samples "0x3F800000"] by (auto simp: f32_max_def)
  from negative_reciprocal [OF this] M show ?thesis
    by (auto simp: smoothing_alpha_def exp_unit_def intro: unit_complement)
qed

lemma f32_abs_finite [simp]: "f32_is_finite (f32_abs x) = f32_is_finite x"
proof -
  have "take_bit 8 (drop_bit 23 (and x (mask 31))) = take_bit 8 (drop_bit 23 x)"
    by (rule bit_word_eqI) (auto simp: bit_take_bit_iff bit_drop_bit_eq bit_and_iff bit_mask_iff)
  then show ?thesis by (simp add: f32_is_finite_def f32_abs_def mask_eq_exp_minus_1)
qed

lemma peak_finite:
  "list_all f32_is_finite frame \<Longrightarrow> f32_is_finite m \<Longrightarrow> f32_le 0 m \<Longrightarrow>
     f32_is_finite (fold (\<lambda>x m. f32_max m (f32_abs x)) frame m) \<and> f32_le 0 (fold (\<lambda>x m. f32_max m (f32_abs x)) frame m)"
proof (induction frame arbitrary: m)
  case (Cons x frame)
  have mm: "f32_le m m" using f32_exact_finite [OF Cons.prems(2)] by (auto simp: f32_le_self)
  have "f32_is_finite (f32_max m (f32_abs x)) \<and> f32_le 0 (f32_max m (f32_abs x))"
    using Cons.prems mm f32_le_trans [of 0 m "f32_abs x"] by (simp add: f32_max_def f32_less_def)
  then show ?case using Cons.IH Cons.prems(1) by simp
qed simp

definition limiter_ok :: "linked_limiter \<Rightarrow> bool" where
  "limiter_ok l \<longleftrightarrow> f32_less 0 (ll_ceiling l) \<and> f32_le (ll_ceiling l) 0x3F800000 \<and> unit_f32 (ll_gain l)
     \<and> unit_f32 (ll_release_alpha l)"

lemma limiter_gain_unit:
  assumes l: "limiter_ok l" and frame: "list_all f32_is_finite frame"
  shows "unit_f32 (limiter_gain frame l)"
proof -
  let ?peak = "fold (\<lambda>x m. f32_max m (f32_abs x)) frame 0"
  let ?r = "if f32_less (ll_ceiling l) ?peak \<and> f32_less 0 ?peak then f32_div (ll_ceiling l) ?peak else 0x3F800000"
  have "f32_is_finite 0" "f32_le 0 0" using unit_constants unit_finite by (auto simp: unit_f32_def)
  from peak_finite [OF frame this] have "f32_is_finite ?peak" by simp
  then have r: "unit_f32 ?r"
    using l unit_div [of ?peak "ll_ceiling l"] by (auto simp: limiter_ok_def f32_less_def)
  have "f32_le 0 (f32_add (ll_gain l) (f32_mul (f32_sub 0x3F800000 (ll_gain l)) (ll_release_alpha l)))"
    using l by (auto simp: limiter_ok_def intro!: unit_add_nonnegative unit_mul unit_complement)
  from unit_min [OF this r] r show ?thesis by (simp add: limiter_gain_def Let_def)
qed

inductive limiter_reachable :: "math \<Rightarrow> linked_limiter \<Rightarrow> bool" for M where
  lr_new: "limiter_new M dbfs release = Ok l \<Longrightarrow> limiter_reachable M l"
| lr_process: "limiter_reachable M l \<Longrightarrow> list_all f32_is_finite frame \<Longrightarrow> limiter_reachable M (snd (limiter_process frame l))"
| lr_reset: "limiter_reachable M l \<Longrightarrow> limiter_reachable M (limiter_reset l)"

lemma limiter_reachable_ok: "limiter_reachable M l \<Longrightarrow> exp_unit M \<Longrightarrow> limiter_ok l"
proof (induction rule: limiter_reachable.induct)
  case (lr_new dbfs release l)
  have "ll_gain l = 0x3F800000" "\<exists>s. ll_release_alpha l = smoothing_alpha M s"
    using lr_new(1) by (auto simp: limiter_new_def Let_def split: if_splits)
  then show ?case using limiter_new_ceiling [OF lr_new(1)] smoothing_alpha_unit [OF lr_new(2)] by (auto simp: limiter_ok_def)
next
  case (lr_process l frame)
  then show ?case using limiter_gain_unit [of l frame] by (simp add: limiter_process_def limiter_ok_def Let_def)
qed (simp add: limiter_ok_def limiter_reset_def)

text \<open>
  C27: As long as the frames are finite, the limiter never amplifies and never exceeds its ceiling:
  every frame is scaled by one common gain between zero and one and then clamped, and all its
  samples are numbers within the ceiling.  The exponential function is a parameter, of which it is
  assumed that it maps what is not positive into the unit interval.
\<close>

theorem limiter_holds_ceiling:
  assumes "exp_unit M" "limiter_reachable M l" "list_all f32_is_finite frame"
  shows "\<exists>g. unit_f32 g \<and> fst (limiter_process frame l)
      = map (\<lambda>x. f32_clamp (f32_mul x g) (f32_neg (ll_ceiling l)) (ll_ceiling l)) frame
    \<and> list_all (bounded_by (ll_ceiling l)) (fst (limiter_process frame l))"
proof -
  have ok: "limiter_ok l" using limiter_reachable_ok [OF assms(2,1)] .
  note g = limiter_gain_unit [OF ok assms(3)]
  have "bounded_by (ll_ceiling l) (f32_clamp (f32_mul x (limiter_gain frame l)) (f32_neg (ll_ceiling l)) (ll_ceiling l))"
    if "x \<in> set frame" for x
    using that assms(3) ok clamp_bounded f32_mul_number [of x, OF _ unit_finite [OF g]]
    by (auto simp: limiter_ok_def list_all_iff)
  then show ?thesis using g by (intro exI [of _ "limiter_gain frame l"]) (simp add: limiter_process_def Let_def list_all_iff)
qed

section \<open>Lip-sync histories\<close>

inductive lip_history :: "lip_delay \<Rightarrow> f32 list list \<Rightarrow> bool" where
  lh_new: "lip_new d = Ok l \<Longrightarrow> lip_history l []"
| lh_set: "lip_history l h \<Longrightarrow> lip_history (lip_set_delay_frames d l) h"
| lh_process: "lip_history l h \<Longrightarrow> length f = CHANNELS \<Longrightarrow> lip_process f l = Some (f', l') \<Longrightarrow> lip_history l' (f # h)"
| lh_reset: "lip_history l h \<Longrightarrow> lip_history (lip_reset l) []"

lemma lip_history_holds: "lip_history l h \<Longrightarrow> lip_holds l h"
proof (induction rule: lip_history.induct)
  case (lh_process l h f f' l')
  then show ?case using lip_process_value [OF lh_process(4,2)] by auto
qed (simp_all add: lip_new_holds lip_set_holds lip_reset_holds)

text \<open>
  C28: The lip-sync ring is a window on everything it was fed.  A frame never panics; what comes out
  is the frame from as many steps ago as the delay says (silence before the start), and during the
  240 frames after a new delay takes effect it is faded over from the frame at the old delay.
\<close>

theorem lip_delay_plays_past:
  assumes "lip_history l h" "length f = CHANNELS"
  shows "\<exists>l'. lip_process f l = Some (lip_output (f # h) (lip_begin_fade l), l')
    \<and> ld_delay_frames l' = ld_delay_frames (lip_begin_fade l) \<and> ld_requested_delay l' = ld_requested_delay l
    \<and> ld_fade_remaining l' = ld_fade_remaining (lip_begin_fade l) - 1"
  using lip_process_value [OF lip_history_holds [OF assms(1)] assms(2)] by blast

lemma lip_delay_plays_past_witness:
  "\<exists>l l'. lip_new 1 = Ok l \<and> lip_process (replicate CHANNELS 7) l = Some (replicate CHANNELS 0, l')"
proof -
  obtain l where l: "lip_new 1 = Ok l" by (simp add: lip_new_def MAX_LIPSYNC_FRAMES_def)
  have "ld_fade_remaining l = 0" "ld_requested_delay l = ld_delay_frames l" "ld_delay_frames l = 1"
    using l by (auto simp: lip_new_def split: if_splits)
  then have "lip_output [replicate CHANNELS 7] (lip_begin_fade l) = replicate CHANNELS 0"
    by (simp add: lip_output_def lip_begin_fade_def past_frame_def)
  with lip_delay_plays_past [OF lh_new [OF l], of "replicate CHANNELS 7"] l show ?thesis by auto
qed

section \<open>A chain to run\<close>

lemma plain_exp: "exp_unit flat_math"
  by (simp add: exp_unit_def flat_math_def)

lemma plain_limiter: "\<exists>l. limiter_new flat_math 0xBF800000 0x42480000 = Ok l \<and> ll_ceiling l = 0x3F800000"
proof -
  have "f32_is_finite 0x3F800000" "f32_is_finite 0x42480000" by (simp_all add: f32_is_finite_def)
  moreover have "\<not> f32_le 0x3F800000 0" "\<not> f32_le 0x42480000 0"
    by (simp_all add: float_defs)
  ultimately show ?thesis
    by (simp add: limiter_new_def Let_def output_db_to_linear_def flat_math_def)
qed

lemma limiter_holds_ceiling_witness:
  "\<exists>l. limiter_new flat_math 0xBF800000 0x42480000 = Ok l
     \<and> list_all (bounded_by 0x3F800000) (fst (limiter_process [0x40400000, 0] l))"
proof -
  obtain l where l: "limiter_new flat_math 0xBF800000 0x42480000 = Ok l" "ll_ceiling l = 0x3F800000"
    using plain_limiter by blast
  have "list_all f32_is_finite [0x40400000, 0]" by (simp add: f32_is_finite_def)
  from limiter_holds_ceiling [OF plain_exp lr_new [OF l(1)] this] l show ?thesis by auto
qed

lemma plain_post: "\<exists>p. post_new flat_math output_dsp_config_default = Ok p \<and> ll_ceiling (pp_limiter p) = 0x3F800000"
proof -
  have rate: "sample_rate_f32 = 0x473B8000"
    by (simp add: sample_rate_f32_def SAMPLE_RATE_def float_defs)
  have q: "butterworth_q = 0x3F3504F3"
    by (simp add: butterworth_q_def float_defs)
  have ranges: "gain_in_range 0" "gain_in_range 0xC0400000"
    by (simp_all add: gain_in_range_def f32_is_finite_def float_defs)
  have rate_ok: "f32_is_finite 0x473B8000" "f32_is_finite 0x3F3504F3" "\<not> f32_le 0x473B8000 0" "\<not> f32_le 0x3F3504F3 0"
    "f32_mul 0x473B8000 0x3EFAE148 = 0x46B7C000"
    by (simp_all add: f32_is_finite_def float_defs)
  have "f32_is_finite f \<and> \<not> f32_le f 0 \<and> \<not> f32_le 0x46B7C000 f"
    if "f \<in> {0x42A00000, 0x42C80000, 0x42F00000, 0x41A00000}" for f
    using that by (elim insertE) (simp_all add: f32_is_finite_def float_defs)
  then have design: "\<exists>b. biquad_design flat_math 0x473B8000 f 0x3F3504F3 high = Ok b"
    if "f \<in> {0x42A00000, 0x42C80000, 0x42F00000, 0x41A00000}" for f high
    using that rate_ok by (auto simp: biquad_design_def Let_def)
  obtain bed1 bed2 height1 height2 low high where
    "biquad_design flat_math 0x473B8000 0x42A00000 0x3F3504F3 False = Ok bed1"
    "biquad_design flat_math 0x473B8000 0x42A00000 0x3F3504F3 True = Ok bed2"
    "biquad_design flat_math 0x473B8000 0x42C80000 0x3F3504F3 False = Ok height1"
    "biquad_design flat_math 0x473B8000 0x42C80000 0x3F3504F3 True = Ok height2"
    "biquad_design flat_math 0x473B8000 0x42F00000 0x3F3504F3 False = Ok low"
    "biquad_design flat_math 0x473B8000 0x41A00000 0x3F3504F3 True = Ok high"
    using design by (metis insertI1 insertI2)
  moreover obtain l where "limiter_new flat_math 0xBF800000 0x42480000 = Ok l" "ll_ceiling l = 0x3F800000"
    using plain_limiter by blast
  ultimately show ?thesis using ranges
    by (simp add: post_new_def output_dsp_config_default_def rate q linkwitz_riley_4_def biquad_low_pass_def
        biquad_high_pass_def lip_new_def)
qed

lemma output_chain_safe_witness:
  "\<exists>p. post_reachable flat_math p \<and> fst (post_process_block (replicate 24 0x40400000) p) = Ok ()
     \<and> fst (snd (post_process_block [0x40400000] p)) = [0]"
proof -
  obtain p where p: "post_new flat_math output_dsp_config_default = Ok p" using plain_post by blast
  note reach = po_new [OF p]
  show ?thesis
    using output_chain_safe [OF reach, of "replicate 24 0x40400000"] output_chain_safe [OF reach, of "[0x40400000]"] reach
    by (auto simp: CHANNELS_def)
qed

end
