(* ===== verification/Network_Api.thy ===== *)
theory Network_Api
  imports Prelude
begin

text \<open>
  The network-audio contract of \<open>src/crates/aurora-realtime-audio-api/src/network.rs\<close>: PCM
  format, timing policy, media timestamps, blocks and their validation, and the trait
  \<open>NetworkAudioTransport\<close>.  The trait is a record of functions over the implementor's state
  \<open>'t\<close>; the locale \<open>network_transport_laws\<close> is the contract of implementors that halt
  whenever they are told to, interpreted on the simulated transport in its own theory.
\<close>

section \<open>Data\<close>

definition AURORA_NETWORK_MEDIA_RATE :: u32 where
  "AURORA_NETWORK_MEDIA_RATE = 48000"

datatype network_transport_family = AvbTsn | PeerUdp | Simulation

datatype network_clock_discipline = AuroraMediaMaster | PtpFollower | AdaptiveRateFollower

record network_transport_capabilities =
  family :: network_transport_family
  max_channels :: usize
  nc_scheduled_playout :: bool
  hardware_timestamps :: bool
  adaptive_rate_matching :: bool
  packet_repair :: bool

record network_audio_format =
  sample_rate :: u32
  channels :: usize
  block_frames :: usize

record network_timing_policy =
  target_latency_frames :: u32
  minimum_latency_frames :: u32
  maximum_latency_frames :: u32
  maximum_rate_correction_ppm :: f64

datatype media_timestamp = MediaTimestamp (frame_index: u64) (timestamp_rate: u32)

record network_audio_block =
  sequence :: u64
  timestamp :: media_timestamp
  format :: network_audio_format
  samples :: "f32 list"

record network_stream_config =
  sc_format :: network_audio_format
  clock_discipline :: network_clock_discipline
  timing :: network_timing_policy

datatype network_transport_event =
    EvPrepared | EvStarted | EvPacketRepair | EvUnderflow | EvOverflow
  | EvClockCorrectionLimit | EvStopped

datatype network_transport_error =
    InvalidFormat | UnsupportedChannelCount | InvalidTimingPolicy | InvalidTimestamp
  | TimestampOverflow | TimestampRateMismatch | BufferShape | NotPrepared | AlreadyStarted
  | WorkerFault

section \<open>Validation\<close>

definition samples_per_block :: "network_audio_format \<Rightarrow> usize option" where
  "samples_per_block f = checked_mul (channels f) (block_frames f)"

definition format_validate ::
  "network_audio_format \<Rightarrow> network_transport_capabilities
    \<Rightarrow> (unit, network_transport_error) outcome" where
  "format_validate f caps =
     (if sample_rate f = 0 \<or> channels f = 0 \<or> block_frames f = 0 then Err InvalidFormat
      else if max_channels caps < channels f then Err UnsupportedChannelCount
      else if samples_per_block f = None then Err InvalidFormat
      else Ok ())"

definition timing_validate ::
  "network_timing_policy \<Rightarrow> (unit, network_transport_error) outcome" where
  "timing_validate p =
     (if target_latency_frames p < minimum_latency_frames p
         \<or> maximum_latency_frames p < target_latency_frames p
      then Err InvalidTimingPolicy
      else if \<not> f64_is_finite (maximum_rate_correction_ppm p)
         \<or> f64_finite_neg (maximum_rate_correction_ppm p)
      then Err InvalidTimingPolicy
      else Ok ())"

definition timestamp_new ::
  "u64 \<Rightarrow> u32 \<Rightarrow> (media_timestamp, network_transport_error) outcome" where
  "timestamp_new frame rate =
     (if rate = 0 then Err InvalidTimestamp else Ok (MediaTimestamp frame rate))"

definition checked_advance ::
  "media_timestamp \<Rightarrow> usize \<Rightarrow> (media_timestamp, network_transport_error) outcome" where
  "checked_advance t frames =
     (case checked_add (frame_index t) frames of
        None \<Rightarrow> Err TimestampOverflow
      | Some i \<Rightarrow> Ok (MediaTimestamp i (timestamp_rate t)))"

definition block_validate ::
  "network_audio_block \<Rightarrow> (unit, network_transport_error) outcome" where
  "block_validate b =
     (if timestamp_rate (timestamp b) \<noteq> sample_rate (format b) then Err TimestampRateMismatch
      else case samples_per_block (format b) of
        None \<Rightarrow> Err InvalidFormat
      | Some required \<Rightarrow>
          if length (samples b) \<noteq> unat required then Err BufferShape else Ok ())"

text \<open>Timestamps have the derived, lexicographic order.\<close>

instantiation media_timestamp :: linorder
begin

definition less_eq_media_timestamp :: "media_timestamp \<Rightarrow> media_timestamp \<Rightarrow> bool" where
  "a \<le> b \<longleftrightarrow> frame_index a < frame_index b
     \<or> frame_index a = frame_index b \<and> timestamp_rate a \<le> timestamp_rate b"

definition less_media_timestamp :: "media_timestamp \<Rightarrow> media_timestamp \<Rightarrow> bool" where
  "(a :: media_timestamp) < b \<longleftrightarrow> a \<le> b \<and> \<not> b \<le> a"

instance
  by standard
    (auto simp: less_eq_media_timestamp_def less_media_timestamp_def intro: media_timestamp.expand)

end

section \<open>The trait\<close>

record 't network_transport =
  nt_capabilities :: "'t \<Rightarrow> network_transport_capabilities"
  nt_prepare :: "network_stream_config \<Rightarrow> 't \<Rightarrow> (unit, network_transport_error) outcome \<times> 't"
  nt_start :: "'t \<Rightarrow> (unit, network_transport_error) outcome \<times> 't"
  nt_submit :: "network_audio_block \<Rightarrow> 't \<Rightarrow> (unit, network_transport_error) outcome \<times> 't"
  nt_poll_event :: "'t \<Rightarrow> network_transport_event option \<times> 't"
  nt_stop :: "'t \<Rightarrow> (unit, network_transport_error) outcome \<times> 't"
  nt_reset :: "'t \<Rightarrow> 't"

text \<open>
  The laws of an implementor with lifecycle \<open>ph\<close>: preparation installs the configuration, a
  stream starts once, accepts only whole valid blocks of the prepared format while it runs, and
  halts, keeping the prepared configuration, whenever it is stopped or reset, also when the call
  reports an error; no call panics and a failed prepare, start or submit leaves the lifecycle.
\<close>

datatype transport_phase =
    Unprepared
  | Ready network_stream_config
  | Running network_stream_config

fun phase_running :: "transport_phase \<Rightarrow> bool" where
  "phase_running (Running c) = True"
| "phase_running (Ready c) = False"
| "phase_running Unprepared = False"

fun phase_halted :: "transport_phase \<Rightarrow> transport_phase" where
  "phase_halted (Running c) = Ready c"
| "phase_halted (Ready c) = Ready c"
| "phase_halted Unprepared = Unprepared"

lemma phase_halted_not_running [simp]: "\<not> phase_running (phase_halted p)"
  by (cases p) auto

lemma phase_halted_eq [simp]: "phase_halted p = Running c \<longleftrightarrow> False"
  by (cases p) auto

locale network_transport_laws =
  fixes V :: "'t network_transport"
    and ph :: "'t \<Rightarrow> transport_phase"
  assumes caps_prepare: "nt_capabilities V (snd (nt_prepare V c t)) = nt_capabilities V t"
    and caps_start: "nt_capabilities V (snd (nt_start V t)) = nt_capabilities V t"
    and caps_submit: "nt_capabilities V (snd (nt_submit V b t)) = nt_capabilities V t"
    and caps_stop: "nt_capabilities V (snd (nt_stop V t)) = nt_capabilities V t"
    and caps_reset: "nt_capabilities V (nt_reset V t) = nt_capabilities V t"
    and prepare_phase: "ph (snd (nt_prepare V c t)) =
        (if is_ok (fst (nt_prepare V c t)) then Ready c else ph t)"
    and start_phase: "ph (snd (nt_start V t)) =
        (case ph t of Ready c \<Rightarrow> if is_ok (fst (nt_start V t)) then Running c else Ready c
         | p \<Rightarrow> p)"
    and start_Ok: "is_ok (fst (nt_start V t)) \<Longrightarrow> \<exists>c. ph t = Ready c"
    and submit_phase: "ph (snd (nt_submit V b t)) = ph t"
    and submit_Ok: "is_ok (fst (nt_submit V b t)) \<Longrightarrow>
        \<exists>c. ph t = Running c \<and> format b = sc_format c \<and> block_validate b = Ok ()"
    and stop_phase: "ph (snd (nt_stop V t)) = phase_halted (ph t)"
    and reset_phase: "ph (nt_reset V t) = phase_halted (ph t)"
    and no_panic: "fst (nt_prepare V c t) \<noteq> Panic" "fst (nt_start V t) \<noteq> Panic"
        "fst (nt_submit V b t) \<noteq> Panic" "fst (nt_stop V t) \<noteq> Panic"
begin

lemma stop_not_running: "\<not> phase_running (ph (snd (nt_stop V t)))"
  by (simp add: stop_phase)

lemma reset_not_running: "\<not> phase_running (ph (nt_reset V t))"
  by (simp add: reset_phase)

lemma start_running_iff:
  "phase_running (ph (snd (nt_start V t))) \<longleftrightarrow>
     phase_running (ph t) \<or> is_ok (fst (nt_start V t))"
  using start_Ok [of t] by (cases "ph t") (auto simp: start_phase)

lemma failed_start_phase: "\<not> is_ok (fst (nt_start V t)) \<Longrightarrow> ph (snd (nt_start V t)) = ph t"
  by (cases "ph t") (auto simp: start_phase)

lemma restart_fails: "ph t = Running c \<Longrightarrow> \<not> is_ok (fst (nt_start V t))"
  using start_Ok [of t] by auto

end

section \<open>Facts the clients use\<close>

lemma format_validate_iff:
  "format_validate f caps = Ok () \<longleftrightarrow>
     sample_rate f \<noteq> 0 \<and> channels f \<noteq> 0 \<and> block_frames f \<noteq> 0 \<and> channels f \<le> max_channels caps
     \<and> unat (channels f) * unat (block_frames f) < 2 ^ 64"
  by (auto simp: format_validate_def samples_per_block_def checked_mul_def not_less)

lemma format_validate_no_panic [simp]: "format_validate f caps \<noteq> Panic"
  by (simp add: format_validate_def)

lemma timing_validate_no_panic [simp]: "timing_validate p \<noteq> Panic"
  by (simp add: timing_validate_def)

lemma block_validate_no_panic [simp]: "block_validate b \<noteq> Panic"
  by (simp add: block_validate_def split: outcome_split)

lemma block_validate_iff:
  "block_validate b = Ok () \<longleftrightarrow>
     timestamp_rate (timestamp b) = sample_rate (format b)
     \<and> unat (channels (format b)) * unat (block_frames (format b)) < 2 ^ 64
     \<and> length (samples b) = unat (channels (format b)) * unat (block_frames (format b))"
  by (auto simp: block_validate_def samples_per_block_def checked_mul_def unat_mul_no_overflow
      split: if_splits option.splits)

lemma checked_advance_Ok:
  "checked_advance t n = Ok t' \<longleftrightarrow>
     timestamp_rate t' = timestamp_rate t
     \<and> unat (frame_index t') = unat (frame_index t) + unat n"
proof (cases t')
  case (MediaTimestamp i r)
  have "checked_advance t n = Ok (MediaTimestamp i r) \<longleftrightarrow>
      checked_add (frame_index t) n = Some i \<and> r = timestamp_rate t"
    by (auto simp: checked_advance_def split: option.splits)
  moreover have "i = frame_index t + n" if "unat i = unat (frame_index t) + unat n"
    using that by (metis unat_add_no_overflow unsigned_less word_unat_eq_iff)
  ultimately show ?thesis using MediaTimestamp by (auto simp: checked_add_Some)
qed

lemma checked_advance_no_panic [simp]: "checked_advance t n \<noteq> Panic"
  by (simp add: checked_advance_def split: option.splits)

end
