(* ===== verification/Genavb_Session.thy ===== *)
theory Genavb_Session
  imports Prelude
begin

text \<open>
  The AVDECC side of the GenAVB backend: the control channel of
  \<open>src/adapters/aurora-network-genavb-avdecc/src/lib.rs\<close> over the native shim, whose
  functions are the parameter \<open>control_shim\<close>, and the six-stream session gate of
  \<open>src/adapters/aurora-network-genavb-session/src/lib.rs\<close>.
\<close>

type_synonym i32 = "32 word"

section \<open>The control channel\<close>

datatype avdecc_event_kind = Connect | Disconnect

record avdecc_event =
  ae_kind :: avdecc_event_kind
  ae_stream_index :: u16
  ae_port :: u16
  ae_direction :: u16
  ae_stream_class :: u16
  ae_stream_id :: "u8 list"
  ae_destination_mac :: "u8 list"
  ae_sample_rate_hz :: u32
  ae_channels :: u32
  ae_bit_depth :: u32

record shim_avdecc_event =
  sa_kind :: u32
  sa_stream_index :: u16
  sa_port :: u16
  sa_direction :: u16
  sa_stream_class :: u16
  sa_stream_id :: "u8 list"
  sa_destination_mac :: "u8 list"
  sa_reserved :: "u8 list"
  sa_sample_rate_hz :: u32
  sa_channels :: u32
  sa_bit_depth :: u32

datatype avdecc_error = Native i32 | UnknownEventKind u32

datatype control_lifecycle = ControlLoaded | ControlOpened

text \<open>The shim: every call may change what is behind the handle.\<close>

record 'c control_shim =
  cs_open :: "'c \<Rightarrow> i32 \<times> 'c"
  cs_rx_fd :: "'c \<Rightarrow> i32"
  cs_receive :: "shim_avdecc_event \<Rightarrow> 'c \<Rightarrow> i32 \<times> shim_avdecc_event \<times> 'c"
  cs_close :: "'c \<Rightarrow> i32 \<times> 'c"

record 'c avdecc_control =
  gc_handle :: 'c
  gc_shim_path :: string
  gc_lifecycle :: control_lifecycle

definition AVDECC_EVENT_CONNECT :: u32 where "AVDECC_EVENT_CONNECT = 1"
definition AVDECC_EVENT_DISCONNECT :: u32 where "AVDECC_EVENT_DISCONNECT = 2"

definition avdecc_native_ok :: "i32 \<Rightarrow> (unit, avdecc_error) outcome" where
  "avdecc_native_ok code = (if code = 0 then Ok () else Err (Native code))"

definition decode_event :: "shim_avdecc_event \<Rightarrow> (avdecc_event, avdecc_error) outcome" where
  "decode_event raw =
     (let event = (\<lambda>kind. \<lparr>ae_kind = kind, ae_stream_index = sa_stream_index raw, ae_port = sa_port raw,
            ae_direction = sa_direction raw, ae_stream_class = sa_stream_class raw,
            ae_stream_id = sa_stream_id raw, ae_destination_mac = sa_destination_mac raw,
            ae_sample_rate_hz = sa_sample_rate_hz raw, ae_channels = sa_channels raw,
            ae_bit_depth = sa_bit_depth raw\<rparr>) in
      if sa_kind raw = AVDECC_EVENT_CONNECT then Ok (event Connect)
      else if sa_kind raw = AVDECC_EVENT_DISCONNECT then Ok (event Disconnect)
      else Err (UnknownEventKind (sa_kind raw)))"

definition control_open ::
  "'c control_shim \<Rightarrow> 'c avdecc_control \<Rightarrow> (unit, avdecc_error) outcome \<times> 'c avdecc_control" where
  "control_open S c =
     (if gc_lifecycle c = ControlOpened then (Ok (), c)
      else let (code, h) = cs_open S (gc_handle c); c1 = c\<lparr>gc_handle := h\<rparr> in
        (case avdecc_native_ok code of
           Err e \<Rightarrow> (Err e, c1) | Panic \<Rightarrow> (Panic, c1)
         | Ok _ \<Rightarrow> (Ok (), c1\<lparr>gc_lifecycle := ControlOpened\<rparr>)))"

definition control_poll_fd ::
  "'c control_shim \<Rightarrow> 'c avdecc_control \<Rightarrow> (i32, avdecc_error) outcome" where
  "control_poll_fd S c =
     (if gc_lifecycle c \<noteq> ControlOpened then Err (Native (- 1))
      else let fd = cs_rx_fd S (gc_handle c) in if sint fd < 0 then Err (Native fd) else Ok fd)"

definition blank_shim_event :: shim_avdecc_event where
  "blank_shim_event = \<lparr>sa_kind = 0, sa_stream_index = 0, sa_port = 0, sa_direction = 0,
     sa_stream_class = 0, sa_stream_id = replicate 8 0, sa_destination_mac = replicate 6 0,
     sa_reserved = replicate 2 0, sa_sample_rate_hz = 0, sa_channels = 0, sa_bit_depth = 0\<rparr>"

definition control_receive ::
  "'c control_shim \<Rightarrow> 'c avdecc_control
    \<Rightarrow> (avdecc_event option, avdecc_error) outcome \<times> 'c avdecc_control" where
  "control_receive S c =
     (if gc_lifecycle c \<noteq> ControlOpened then (Err (Native (- 1)), c)
      else let (code, raw, h) = cs_receive S blank_shim_event (gc_handle c);
               c1 = c\<lparr>gc_handle := h\<rparr> in
        if sint code < 0 then (Err (Native code), c1)
        else if code = 0 then (Ok None, c1)
        else (case decode_event raw of
           Err e \<Rightarrow> (Err e, c1) | Panic \<Rightarrow> (Panic, c1)
         | Ok event \<Rightarrow> (Ok (Some event), c1)))"

definition control_close ::
  "'c control_shim \<Rightarrow> 'c avdecc_control \<Rightarrow> (unit, avdecc_error) outcome \<times> 'c avdecc_control" where
  "control_close S c =
     (if gc_lifecycle c = ControlLoaded then (Ok (), c)
      else let (code, h) = cs_close S (gc_handle c); c1 = c\<lparr>gc_handle := h\<rparr> in
        (case avdecc_native_ok code of
           Err e \<Rightarrow> (Err e, c1) | Panic \<Rightarrow> (Panic, c1)
         | Ok _ \<Rightarrow> (Ok (), c1\<lparr>gc_lifecycle := ControlLoaded\<rparr>)))"

definition control_native_handle :: "'c avdecc_control \<Rightarrow> ('c, avdecc_error) outcome" where
  "control_native_handle c =
     (if gc_lifecycle c \<noteq> ControlOpened then Err (Native (- 1)) else Ok (gc_handle c))"

section \<open>The session\<close>

definition IMMERSIVE_STREAM_COUNT :: nat where "IMMERSIVE_STREAM_COUNT = 6"

datatype stereo_endpoint_role = Front | CenterLfe | Surround | BackSurround | TopFront | TopRear

definition all_endpoint_roles :: "stereo_endpoint_role list" where
  "all_endpoint_roles = [Front, CenterLfe, Surround, BackSurround, TopFront, TopRear]"

fun role_slot :: "stereo_endpoint_role \<Rightarrow> nat" where
  "role_slot Front = 0"
| "role_slot CenterLfe = 1"
| "role_slot Surround = 2"
| "role_slot BackSurround = 3"
| "role_slot TopFront = 4"
| "role_slot TopRear = 5"

record expected_stream =
  xs_role :: stereo_endpoint_role
  xs_stream_index :: u16

record stream_identity =
  si_stream_id :: "u8 list"
  si_destination_mac :: "u8 list"
  si_port :: u16
  si_stream_class :: u16

record connected_stream =
  cn_role :: stereo_endpoint_role
  cn_stream_index :: u16
  cn_identity :: stream_identity

record session_update =
  su_role :: stereo_endpoint_role
  su_connected :: bool
  su_complete :: bool

datatype session_error =
    DuplicateExpectedRole stereo_endpoint_role
  | DuplicateExpectedIndex u16
  | MissingExpectedRole stereo_endpoint_role
  | UnknownStreamIndex u16
  | DuplicateConnect u16
  | DuplicateStreamId "u8 list"
  | DuplicateDestinationMac "u8 list"
  | InvalidStreamIdentity
  | InvalidMediaContract u32 u32 u32
  | DisconnectNotConnected u16
  | DisconnectIdentityMismatch u16
  | PartialConnectionSet nat

record avdecc_session =
  as_expected :: "expected_stream list"
  as_connected :: "connected_stream option list"
  as_connected_count :: nat

text \<open>The loops of the constructor; \<open>earlier\<close> is the slice of the items already seen.\<close>

fun earlier_index :: "expected_stream \<Rightarrow> expected_stream list \<Rightarrow> (unit, session_error) outcome" where
  "earlier_index item [] = Ok ()"
| "earlier_index item (previous # rest) =
     (if xs_stream_index previous = xs_stream_index item
      then Err (DuplicateExpectedIndex (xs_stream_index item)) else earlier_index item rest)"

fun expected_scan :: "expected_stream list \<Rightarrow> bool list \<Rightarrow> expected_stream list
    \<Rightarrow> (bool list, session_error) outcome" where
  "expected_scan earlier seen [] = Ok seen"
| "expected_scan earlier seen (item # rest) =
     (if seen ! role_slot (xs_role item) then Err (DuplicateExpectedRole (xs_role item))
      else case earlier_index item earlier of
        Err e \<Rightarrow> Err e | Panic \<Rightarrow> Panic
      | Ok _ \<Rightarrow> expected_scan (earlier @ [item]) (seen[role_slot (xs_role item) := True]) rest)"

fun missing_role ::
  "bool list \<Rightarrow> stereo_endpoint_role list \<Rightarrow> (unit, session_error) outcome" where
  "missing_role seen [] = Ok ()"
| "missing_role seen (r # rs) =
     (if \<not> seen ! role_slot r then Err (MissingExpectedRole r) else missing_role seen rs)"

definition avdecc_session_new :: "expected_stream list \<Rightarrow> (avdecc_session, session_error) outcome" where
  "avdecc_session_new expecting =
     (case expected_scan [] (replicate IMMERSIVE_STREAM_COUNT False) expecting of
        Err e \<Rightarrow> Err e | Panic \<Rightarrow> Panic
      | Ok seen \<Rightarrow>
          (case missing_role seen all_endpoint_roles of
             Err e \<Rightarrow> Err e | Panic \<Rightarrow> Panic
           | Ok _ \<Rightarrow> Ok \<lparr>as_expected = expecting,
               as_connected = replicate IMMERSIVE_STREAM_COUNT None, as_connected_count = 0\<rparr>))"

definition session_is_complete :: "avdecc_session \<Rightarrow> bool" where
  "session_is_complete s \<longleftrightarrow> as_connected_count s = IMMERSIVE_STREAM_COUNT"

definition role_for_index :: "avdecc_session \<Rightarrow> u16 \<Rightarrow> (stereo_endpoint_role, session_error) outcome" where
  "role_for_index s i =
     (case find (\<lambda>item. xs_stream_index item = i) (as_expected s) of
        None \<Rightarrow> Err (UnknownStreamIndex i) | Some item \<Rightarrow> Ok (xs_role item))"

fun identity_clash ::
  "avdecc_event \<Rightarrow> connected_stream option list \<Rightarrow> (unit, session_error) outcome" where
  "identity_clash event [] = Ok ()"
| "identity_clash event (None # rest) = identity_clash event rest"
| "identity_clash event (Some existing # rest) =
     (if si_stream_id (cn_identity existing) = ae_stream_id event
      then Err (DuplicateStreamId (ae_stream_id event))
      else if si_destination_mac (cn_identity existing) = ae_destination_mac event
      then Err (DuplicateDestinationMac (ae_destination_mac event))
      else identity_clash event rest)"

definition session_connect ::
  "avdecc_event \<Rightarrow> avdecc_session \<Rightarrow> (session_update, session_error) outcome \<times> avdecc_session" where
  "session_connect event s =
     (if ae_sample_rate_hz event \<noteq> 48000 \<or> ae_channels event \<noteq> 2 \<or> ae_bit_depth event \<noteq> 24
      then (Err (InvalidMediaContract (ae_sample_rate_hz event) (ae_channels event)
              (ae_bit_depth event)), s)
      else if ae_stream_id event = replicate 8 0 \<or> ae_destination_mac event = replicate 6 0
      then (Err InvalidStreamIdentity, s)
      else case role_for_index s (ae_stream_index event) of
        Err e \<Rightarrow> (Err e, s) | Panic \<Rightarrow> (Panic, s)
      | Ok role \<Rightarrow>
          if as_connected s ! role_slot role \<noteq> None
          then (Err (DuplicateConnect (ae_stream_index event)), s)
          else (case identity_clash event (as_connected s) of
            Err e \<Rightarrow> (Err e, s) | Panic \<Rightarrow> (Panic, s)
          | Ok _ \<Rightarrow>
              let s1 = s\<lparr>as_connected := (as_connected s)[role_slot role := Some
                    \<lparr>cn_role = role, cn_stream_index = ae_stream_index event,
                     cn_identity = \<lparr>si_stream_id = ae_stream_id event,
                       si_destination_mac = ae_destination_mac event, si_port = ae_port event,
                       si_stream_class = ae_stream_class event\<rparr>\<rparr>],
                  as_connected_count := as_connected_count s + 1\<rparr> in
              (Ok \<lparr>su_role = role, su_connected = True, su_complete = session_is_complete s1\<rparr>, s1)))"

definition session_disconnect ::
  "avdecc_event \<Rightarrow> avdecc_session \<Rightarrow> (session_update, session_error) outcome \<times> avdecc_session" where
  "session_disconnect event s =
     (case role_for_index s (ae_stream_index event) of
        Err e \<Rightarrow> (Err e, s) | Panic \<Rightarrow> (Panic, s)
      | Ok role \<Rightarrow>
          (case as_connected s ! role_slot role of
             None \<Rightarrow> (Err (DisconnectNotConnected (ae_stream_index event)), s)
           | Some active \<Rightarrow>
               if si_stream_id (cn_identity active) \<noteq> ae_stream_id event
                  \<or> si_port (cn_identity active) \<noteq> ae_port event
                  \<or> si_stream_class (cn_identity active) \<noteq> ae_stream_class event
               then (Err (DisconnectIdentityMismatch (ae_stream_index event)), s)
               else if as_connected_count s = 0 then (Panic, s)
               else (Ok \<lparr>su_role = role, su_connected = False, su_complete = False\<rparr>,
                     s\<lparr>as_connected := (as_connected s)[role_slot role := None],
                       as_connected_count := as_connected_count s - 1\<rparr>)))"

definition session_apply ::
  "avdecc_event \<Rightarrow> avdecc_session \<Rightarrow> (session_update, session_error) outcome \<times> avdecc_session" where
  "session_apply event s =
     (case ae_kind event of Connect \<Rightarrow> session_connect event s | Disconnect \<Rightarrow> session_disconnect event s)"

fun expect_all :: "connected_stream option list \<Rightarrow> (connected_stream list, session_error) outcome" where
  "expect_all [] = Ok []"
| "expect_all (None # rest) = Panic"
| "expect_all (Some c # rest) =
     (case expect_all rest of Err e \<Rightarrow> Err e | Panic \<Rightarrow> Panic | Ok cs \<Rightarrow> Ok (c # cs))"

definition require_complete :: "avdecc_session \<Rightarrow> (connected_stream list, session_error) outcome" where
  "require_complete s =
     (if \<not> session_is_complete s then Err (PartialConnectionSet (as_connected_count s))
      else expect_all (as_connected s))"

definition avdecc_session_reset :: "avdecc_session \<Rightarrow> avdecc_session" where
  "avdecc_session_reset s =
     s\<lparr>as_connected := replicate IMMERSIVE_STREAM_COUNT None, as_connected_count := 0\<rparr>"

section \<open>The invariant\<close>

definition connected_of :: "avdecc_session \<Rightarrow> connected_stream list" where
  "connected_of s = map the (filter (\<lambda>c. c \<noteq> None) (as_connected s))"

definition stream_ok :: "expected_stream list \<Rightarrow> nat \<Rightarrow> connected_stream \<Rightarrow> bool" where
  "stream_ok expecting i c \<longleftrightarrow> role_slot (cn_role c) = i
     \<and> (\<exists>item\<in>set expecting. xs_role item = cn_role c \<and> xs_stream_index item = cn_stream_index c)
     \<and> si_stream_id (cn_identity c) \<noteq> replicate 8 0
     \<and> si_destination_mac (cn_identity c) \<noteq> replicate 6 0"

definition session_inv :: "avdecc_session \<Rightarrow> bool" where
  "session_inv s \<longleftrightarrow> length (as_connected s) = 6
     \<and> as_connected_count s = length (connected_of s)
     \<and> (\<forall>i<6. \<forall>c. as_connected s ! i = Some c \<longrightarrow> stream_ok (as_expected s) i c)
     \<and> (\<forall>i<6. \<forall>j<6. \<forall>c d. as_connected s ! i = Some c \<longrightarrow> as_connected s ! j = Some d \<longrightarrow> i \<noteq> j \<longrightarrow>
          si_stream_id (cn_identity c) \<noteq> si_stream_id (cn_identity d)
          \<and> si_destination_mac (cn_identity c) \<noteq> si_destination_mac (cn_identity d))"

lemma role_slot_less [simp]: "role_slot r < 6"
  by (cases r) simp_all

lemma role_slot_inj [simp]: "role_slot r = role_slot r' \<longleftrightarrow> r = r'"
  by (cases r; cases r') simp_all

lemma count_connect:
  "i < length xs \<Longrightarrow> xs ! i = None \<Longrightarrow>
     length (filter (\<lambda>c. c \<noteq> None) (xs[i := Some c])) = Suc (length (filter (\<lambda>c. c \<noteq> None) xs))"
  by (induction xs arbitrary: i) (auto split: nat.split)

lemma count_disconnect:
  "i < length xs \<Longrightarrow> xs ! i = Some c \<Longrightarrow>
     Suc (length (filter (\<lambda>c. c \<noteq> None) (xs[i := None]))) = length (filter (\<lambda>c. c \<noteq> None) xs)"
  by (induction xs arbitrary: i) (auto split: nat.split)

lemma identity_clash_Ok:
  "identity_clash event xs = Ok () \<longleftrightarrow>
     (\<forall>c. Some c \<in> set xs \<longrightarrow> si_stream_id (cn_identity c) \<noteq> ae_stream_id event
        \<and> si_destination_mac (cn_identity c) \<noteq> ae_destination_mac event)"
  by (induction event xs rule: identity_clash.induct) auto

lemma identity_clash_no_panic: "identity_clash event xs \<noteq> Panic"
  by (induction event xs rule: identity_clash.induct) auto

lemma role_for_index_Ok:
  "role_for_index s i = Ok r \<Longrightarrow> \<exists>item\<in>set (as_expected s). xs_role item = r \<and> xs_stream_index item = i"
  by (auto simp: role_for_index_def find_Some_iff split: option.splits)

lemma role_for_index_no_panic [simp]: "role_for_index s i \<noteq> Panic"
  by (simp add: role_for_index_def split: option.split)

definition stream_of_event :: "stereo_endpoint_role \<Rightarrow> avdecc_event \<Rightarrow> connected_stream" where
  "stream_of_event role event = \<lparr>cn_role = role, cn_stream_index = ae_stream_index event,
     cn_identity = \<lparr>si_stream_id = ae_stream_id event, si_destination_mac = ae_destination_mac event,
       si_port = ae_port event, si_stream_class = ae_stream_class event\<rparr>\<rparr>"

lemma session_connect_cases:
  "(\<exists>e. session_connect event s = (Err e, s))
   \<or> (\<exists>role. role_for_index s (ae_stream_index event) = Ok role
        \<and> as_connected s ! role_slot role = None \<and> identity_clash event (as_connected s) = Ok ()
        \<and> ae_stream_id event \<noteq> replicate 8 0 \<and> ae_destination_mac event \<noteq> replicate 6 0
        \<and> session_connect event s =
            (Ok \<lparr>su_role = role, su_connected = True,
                 su_complete = (as_connected_count s + 1 = IMMERSIVE_STREAM_COUNT)\<rparr>,
             s\<lparr>as_connected := (as_connected s)[role_slot role := Some (stream_of_event role event)],
               as_connected_count := as_connected_count s + 1\<rparr>))"
  using identity_clash_no_panic [of event "as_connected s"]
  by (cases "role_for_index s (ae_stream_index event)"; cases "identity_clash event (as_connected s)")
    (auto simp: session_connect_def Let_def session_is_complete_def stream_of_event_def
      simp del: replicate.simps)

lemma session_disconnect_cases:
  "(\<exists>e. session_disconnect event s = (Err e, s))
   \<or> (\<exists>role active. role_for_index s (ae_stream_index event) = Ok role
        \<and> as_connected s ! role_slot role = Some active
        \<and> session_disconnect event s =
           (if as_connected_count s = 0 then (Panic, s)
            else (Ok \<lparr>su_role = role, su_connected = False, su_complete = False\<rparr>,
             s\<lparr>as_connected := (as_connected s)[role_slot role := None],
               as_connected_count := as_connected_count s - 1\<rparr>)))"
  by (cases "role_for_index s (ae_stream_index event)")
    (auto simp: session_disconnect_def split: option.split)

lemma session_connect_inv:
  assumes "session_inv s"
  shows "session_inv (snd (session_connect event s))"
  using session_connect_cases [of event s]
proof (elim disjE exE conjE)
  fix role
  assume ok: "role_for_index s (ae_stream_index event) = Ok role"
    "as_connected s ! role_slot role = None" "identity_clash event (as_connected s) = Ok ()"
    "ae_stream_id event \<noteq> replicate 8 0" "ae_destination_mac event \<noteq> replicate 6 0"
    and res: "session_connect event s =
            (Ok \<lparr>su_role = role, su_connected = True,
                 su_complete = (as_connected_count s + 1 = IMMERSIVE_STREAM_COUNT)\<rparr>,
             s\<lparr>as_connected := (as_connected s)[role_slot role := Some (stream_of_event role event)],
               as_connected_count := as_connected_count s + 1\<rparr>)"
  let ?xs = "(as_connected s)[role_slot role := Some (stream_of_event role event)]"
  have len: "length (as_connected s) = 6" using assms by (simp add: session_inv_def)
  have fresh: "si_stream_id (cn_identity c) \<noteq> ae_stream_id event
      \<and> si_destination_mac (cn_identity c) \<noteq> ae_destination_mac event"
    if "as_connected s ! i = Some c" "i < 6" for c i
    using ok(3) that len unfolding identity_clash_Ok by (metis nth_mem)
  have own: "stream_ok (as_expected s) (role_slot role) (stream_of_event role event)"
    using role_for_index_Ok [OF ok(1)] ok(4,5) by (auto simp: stream_ok_def stream_of_event_def)
  have nth: "?xs ! i = (if i = role_slot role then Some (stream_of_event role event)
      else as_connected s ! i)" if "i < 6" for i
    using that len by (simp add: nth_list_update)
  have 1: "\<forall>i<6. \<forall>c. ?xs ! i = Some c \<longrightarrow> stream_ok (as_expected s) i c"
    using assms own by (auto simp: session_inv_def nth)
  have 2: "si_stream_id (cn_identity c) \<noteq> si_stream_id (cn_identity d)
      \<and> si_destination_mac (cn_identity c) \<noteq> si_destination_mac (cn_identity d)"
    if "i < 6" "j < 6" "?xs ! i = Some c" "?xs ! j = Some d" "i \<noteq> j" for i j c d
  proof (cases "i = role_slot role \<or> j = role_slot role")
    case True
    then show ?thesis
      using that(3) [unfolded nth [OF that(1)]] that(4) [unfolded nth [OF that(2)]] that(1,2,5)
        fresh [of i c] fresh [of j d]
      by (auto simp: stream_of_event_def split: if_splits)
  next
    case False
    then show ?thesis
      using that assms unfolding session_inv_def by (auto simp: nth)
  qed
  have 3: "as_connected_count s + 1 = length (filter (\<lambda>c. c \<noteq> None) ?xs)"
    using assms count_connect [OF _ ok(2)] len by (simp add: session_inv_def connected_of_def)
  have "session_inv (s\<lparr>as_connected := ?xs, as_connected_count := as_connected_count s + 1\<rparr>)"
    unfolding session_inv_def connected_of_def using len 1 2 3 by simp
  then show ?thesis unfolding res by simp
qed (use assms in simp)

lemma session_disconnect_inv:
  assumes "session_inv s"
  shows "session_inv (snd (session_disconnect event s)) \<and> fst (session_disconnect event s) \<noteq> Panic"
  using session_disconnect_cases [of event s]
proof (elim disjE exE conjE)
  fix role active
  assume act: "as_connected s ! role_slot role = Some active"
    and res: "session_disconnect event s =
           (if as_connected_count s = 0 then (Panic, s)
            else (Ok \<lparr>su_role = role, su_connected = False, su_complete = False\<rparr>,
             s\<lparr>as_connected := (as_connected s)[role_slot role := None],
               as_connected_count := as_connected_count s - 1\<rparr>))"
  let ?xs = "(as_connected s)[role_slot role := None]"
  have len: "length (as_connected s) = 6" using assms by (simp add: session_inv_def)
  have cnt: "Suc (length (filter (\<lambda>c. c \<noteq> None) ?xs)) = as_connected_count s"
    using assms count_disconnect [OF _ act] len by (simp add: session_inv_def connected_of_def)
  have nth: "?xs ! i = Some c \<longleftrightarrow> i \<noteq> role_slot role \<and> as_connected s ! i = Some c" if "i < 6" for i c
    using that len by (simp add: nth_list_update)
  have "session_inv (s\<lparr>as_connected := ?xs, as_connected_count := as_connected_count s - 1\<rparr>)"
    using assms len cnt unfolding session_inv_def connected_of_def
    by (auto simp: nth simp del: nth_list_update_neq nth_list_update_eq)
  then show ?thesis unfolding res using cnt by auto
qed (use assms in simp)

lemma session_apply_inv:
  "session_inv s \<Longrightarrow> session_inv (snd (session_apply event s)) \<and> fst (session_apply event s) \<noteq> Panic"
  using session_connect_inv [of s event] session_disconnect_inv [of s event]
    session_connect_cases [of event s]
  by (cases "ae_kind event") (auto simp: session_apply_def)

lemma session_apply_atomic: "session_inv s \<Longrightarrow> atomic_call s (session_apply event s)"
  using session_connect_cases [of event s] session_disconnect_cases [of event s]
    session_apply_inv [of s event]
  by (cases "ae_kind event") (auto simp: session_apply_def split: if_splits)

lemma session_apply_expected [simp]: "as_expected (snd (session_apply event s)) = as_expected s"
  using session_connect_cases [of event s] session_disconnect_cases [of event s]
  by (cases "ae_kind event") (auto simp: session_apply_def)

lemma session_reset_inv: "session_inv s \<Longrightarrow> session_inv (avdecc_session_reset s)"
  by (simp add: session_inv_def avdecc_session_reset_def connected_of_def IMMERSIVE_STREAM_COUNT_def
      filter_empty_conv)

lemma avdecc_new_inv:
  "avdecc_session_new expecting = Ok s \<Longrightarrow> session_inv s \<and> as_expected s = expecting"
  by (auto simp: avdecc_session_new_def session_inv_def connected_of_def IMMERSIVE_STREAM_COUNT_def
      filter_empty_conv simp del: replicate.simps split: outcome.splits)

lemma expect_all_filter:
  "expect_all xs = (if None \<in> set xs then Panic else Ok (map the xs))"
  by (induction xs rule: expect_all.induct) auto

lemma length_filter_all: "length (filter P xs) = length xs \<longleftrightarrow> (\<forall>x\<in>set xs. P x)"
proof (induction xs)
  case (Cons x xs)
  have "length (filter P xs) \<noteq> Suc (length xs)" using length_filter_le [of P xs] by linarith
  then show ?case using Cons by auto
qed simp

lemma complete_iff:
  assumes "session_inv s"
  shows "session_is_complete s \<longleftrightarrow> None \<notin> set (as_connected s)"
proof -
  have "length (filter (\<lambda>c. c \<noteq> None) (as_connected s)) = length (as_connected s)
      \<longleftrightarrow> None \<notin> set (as_connected s)" unfolding length_filter_all by metis
  moreover have "length (as_connected s) = 6"
    "as_connected_count s = length (filter (\<lambda>c. c \<noteq> None) (as_connected s))"
    using assms by (simp_all add: session_inv_def connected_of_def)
  ultimately show ?thesis
    unfolding session_is_complete_def IMMERSIVE_STREAM_COUNT_def by metis
qed

lemma require_complete_eq:
  assumes "session_inv s"
  shows "require_complete s = (if session_is_complete s then Ok (map the (as_connected s))
    else Err (PartialConnectionSet (as_connected_count s)))"
  using complete_iff [OF assms] by (simp add: require_complete_def expect_all_filter)

section \<open>Runs and properties\<close>

datatype avdecc_op = SessionEvent avdecc_event | SessionReset

fun avdecc_step :: "avdecc_op \<Rightarrow> avdecc_session \<Rightarrow> avdecc_session" where
  "avdecc_step (SessionEvent event) s = snd (session_apply event s)"
| "avdecc_step SessionReset s = avdecc_session_reset s"

lemma avdecc_run_inv:
  "session_inv s \<Longrightarrow> session_inv (fold avdecc_step ops s)
     \<and> as_expected (fold avdecc_step ops s) = as_expected s"
proof (induction ops arbitrary: s)
  case (Cons op ops)
  have "session_inv (avdecc_step op s)"
    using Cons.prems by (cases op) (simp_all add: session_apply_inv session_reset_inv)
  moreover have "as_expected (avdecc_step op s) = as_expected s"
    by (cases op) (simp_all add: avdecc_session_reset_def)
  ultimately show ?case using Cons.IH by simp
qed simp

text \<open>What the gate hands out.\<close>

lemma complete_streams:
  assumes "session_inv s" and "require_complete s = Ok cs"
  shows "map cn_role cs = all_endpoint_roles
    \<and> distinct (map (si_stream_id \<circ> cn_identity) cs)
    \<and> distinct (map (si_destination_mac \<circ> cn_identity) cs)
    \<and> (\<forall>c\<in>set cs. (\<exists>item\<in>set (as_expected s). xs_role item = cn_role c
          \<and> xs_stream_index item = cn_stream_index c)
        \<and> si_stream_id (cn_identity c) \<noteq> replicate 8 0)"
proof -
  have comp: "session_is_complete s" and cs: "cs = map the (as_connected s)"
    using assms(2) require_complete_eq [OF assms(1)] by (auto split: if_splits)
  have len: "length cs = 6" using assms(1) cs by (simp add: session_inv_def)
  have some: "as_connected s ! i = Some (cs ! i)" if "i < 6" for i
    using comp that assms(1) complete_iff [OF assms(1)] cs
    by (metis length_map len nth_map nth_mem option.collapse)
  have ok: "stream_ok (as_expected s) i (cs ! i)" if "i < 6" for i
    using assms(1) some [OF that] that by (simp add: session_inv_def)
  have roles: "map cn_role cs = all_endpoint_roles"
  proof (rule nth_equalityI)
    fix i assume "i < length (map cn_role cs)"
    then have "i < 6" using len by simp
    from ok [OF this] have "role_slot (map cn_role cs ! i) = i" using \<open>i < 6\<close> len by (simp add: stream_ok_def)
    moreover from \<open>i < 6\<close> have "role_slot (all_endpoint_roles ! i) = i"
      by (auto simp: all_endpoint_roles_def less_Suc_eq numeral_eq_Suc)
    ultimately show "map cn_role cs ! i = all_endpoint_roles ! i" by (metis role_slot_inj)
  qed (simp add: len all_endpoint_roles_def)
  have apart: "si_stream_id (cn_identity (cs ! i)) \<noteq> si_stream_id (cn_identity (cs ! j))
      \<and> si_destination_mac (cn_identity (cs ! i)) \<noteq> si_destination_mac (cn_identity (cs ! j))"
    if "i < 6" "j < 6" "i \<noteq> j" for i j
    using assms(1) some that unfolding session_inv_def by blast
  show ?thesis
    using roles apart ok len by (auto simp: distinct_conv_nth in_set_conv_nth stream_ok_def)
qed

text \<open>
  C7: the gate never lets a partial or confused speaker set through.  After any events and resets
  no call panics and a rejected event changes nothing; and when \<open>require_complete\<close> succeeds,
  it returns one connected stream for each of the six speaker pairs in canonical order, with
  pairwise different stream identifiers and destination addresses, each on the descriptor index
  the configuration expects for its pair.
\<close>

theorem session_gate_complete:
  assumes "avdecc_session_new expecting = Ok s0" and "s = fold avdecc_step ops s0"
  shows "atomic_call s (session_apply event s) \<and> require_complete s \<noteq> Panic
    \<and> (\<forall>cs. require_complete s = Ok cs \<longrightarrow> map cn_role cs = all_endpoint_roles
        \<and> distinct (map (si_stream_id \<circ> cn_identity) cs)
        \<and> distinct (map (si_destination_mac \<circ> cn_identity) cs)
        \<and> (\<forall>c\<in>set cs. (\<exists>item\<in>set expecting. xs_role item = cn_role c
              \<and> xs_stream_index item = cn_stream_index c)
            \<and> si_stream_id (cn_identity c) \<noteq> replicate 8 0))"
proof -
  have inv: "session_inv s" and exp: "as_expected s = expecting"
    using avdecc_new_inv [OF assms(1)] avdecc_run_inv [of s0 ops] assms(2) by auto
  have "require_complete s \<noteq> Panic" using require_complete_eq [OF inv] by simp
  then show ?thesis
    using session_apply_atomic [OF inv] complete_streams [OF inv] unfolding exp by blast
qed

definition demo_expected :: "expected_stream list" where
  "demo_expected = map2 (\<lambda>r i. \<lparr>xs_role = r, xs_stream_index = i\<rparr>) all_endpoint_roles [0, 1, 2, 3, 4, 5]"

definition demo_connect :: "u16 \<Rightarrow> u8 \<Rightarrow> avdecc_event" where
  "demo_connect i x = \<lparr>ae_kind = Connect, ae_stream_index = i, ae_port = 0, ae_direction = 0,
     ae_stream_class = 1, ae_stream_id = [x, 1, 1, 1, 1, 1, 1, 1],
     ae_destination_mac = [x, 2, 2, 2, 2, 2], ae_sample_rate_hz = 48000, ae_channels = 2,
     ae_bit_depth = 24\<rparr>"

definition demo_avdecc_ops :: "avdecc_op list" where
  "demo_avdecc_ops = map2 (\<lambda>i x. SessionEvent (demo_connect i x)) [0, 1, 2, 3, 4, 5] [1, 2, 3, 4, 5, 6]"

lemma six_copies: "replicate 6 x = [x, x, x, x, x, x]" and eight_copies: "replicate 8 y = [y, y, y, y, y, y, y, y]"
  by (simp_all add: numeral_eq_Suc)

lemma demo_session_new:
  "avdecc_session_new demo_expected = Ok \<lparr>as_expected = demo_expected,
     as_connected = [None, None, None, None, None, None], as_connected_count = 0\<rparr>"
  unfolding avdecc_session_new_def IMMERSIVE_STREAM_COUNT_def six_copies
  by (simp add: demo_expected_def all_endpoint_roles_def)

lemma demo_session_complete:
  "\<exists>cs. require_complete (fold avdecc_step demo_avdecc_ops \<lparr>as_expected = demo_expected,
     as_connected = [None, None, None, None, None, None], as_connected_count = 0\<rparr>) = Ok cs"
  by (simp add: demo_avdecc_ops_def demo_connect_def demo_expected_def all_endpoint_roles_def
      session_apply_def session_connect_def role_for_index_def six_copies eight_copies Let_def
      require_complete_def session_is_complete_def IMMERSIVE_STREAM_COUNT_def)

theorem session_gate_complete_witness:
  "\<exists>cs. require_complete (fold avdecc_step demo_avdecc_ops \<lparr>as_expected = demo_expected,
     as_connected = [None, None, None, None, None, None], as_connected_count = 0\<rparr>) = Ok cs
     \<and> map cn_role cs = all_endpoint_roles"
proof -
  from demo_session_complete obtain cs where
    cs: "require_complete (fold avdecc_step demo_avdecc_ops \<lparr>as_expected = demo_expected,
     as_connected = [None, None, None, None, None, None], as_connected_count = 0\<rparr>) = Ok cs" by blast
  with session_gate_complete [OF demo_session_new refl, of demo_avdecc_ops] show ?thesis by blast
qed

end
