(* ===== verification/Genavb_Talker.thy ===== *)
theory Genavb_Talker
  imports Complex_Main Network_Api Genavb_Session
begin

text \<open>
  The GenAVB talker, \<open>src/adapters/aurora-network-genavb/src/lib.rs\<close>: one stereo AAF stream
  over the native shim, whose functions are the parameter \<open>talker_shim\<close>; the conversion of
  samples to 24-bit PCM in big-endian 32-bit words; and the bounded ring of events.
\<close>

section \<open>Sample conversion\<close>

text \<open>
  A finite \<open>f32\<close> is \<open>\<plusminus> significand * 2 ^ exponent\<close>.  Widening it to \<open>f64\<close> and multiplying by
  \<open>2 ^ 23\<close> are exact, and \<open>round\<close> takes the nearest integer, halves away from zero, so the
  whole conversion is integer arithmetic.
\<close>

definition f32_exponent_bits :: "f32 \<Rightarrow> nat" where
  "f32_exponent_bits x = unat (take_bit 8 (drop_bit 23 x))"

definition f32_significand :: "f32 \<Rightarrow> nat" where
  "f32_significand x =
     (if f32_exponent_bits x = 0 then unat (take_bit 23 x) else unat (take_bit 23 x) + 2 ^ 23)"

definition f32_exponent :: "f32 \<Rightarrow> int" where
  "f32_exponent x = int (max 1 (f32_exponent_bits x)) - 150"

definition round_scaled :: "nat \<Rightarrow> int \<Rightarrow> int" where
  "round_scaled m e =
     (if 0 \<le> e then int m * 2 ^ nat e
      else (int m + 2 ^ (nat (- e) - 1)) div 2 ^ nat (- e))"

definition pcm24 :: "f32 \<Rightarrow> int" where
  "pcm24 x =
     (let magnitude = round_scaled (f32_significand x) (f32_exponent x + 23);
          scaled = (if bit x 31 then - magnitude else magnitude) in
      max (- 8388608) (min 8388607 scaled))"

definition aaf_word :: "f32 \<Rightarrow> u8 list" where
  "aaf_word x = be_bytes 4 (unat (push_bit 8 (word_of_int (pcm24 x) :: i32)))"

fun pack_samples :: "f32 list \<Rightarrow> nat \<Rightarrow> u8 list
    \<Rightarrow> (unit, network_transport_error) outcome \<times> u8 list" where
  "pack_samples [] pos out = (Ok (), out)"
| "pack_samples (x # xs) pos out =
     (if \<not> f32_is_finite x then (Err WorkerFault, out)
      else pack_samples xs (pos + 4) (take pos out @ aaf_word x @ drop (pos + 4) out))"

definition pack_f32_to_aaf :: "f32 list \<Rightarrow> u8 list
    \<Rightarrow> (unit, network_transport_error) outcome \<times> u8 list" where
  "pack_f32_to_aaf xs out =
     (if length out \<noteq> length xs * 4 then (Err BufferShape, out) else pack_samples xs 0 out)"

section \<open>State\<close>

record genavb_talker_config =
  tc_shim_path :: string
  tc_port :: u16
  tc_stream_id :: "u8 list"
  tc_destination_mac :: "u8 list"

record genavb_shim_config =
  gs_port :: u16
  gs_reserved :: u16
  gs_stream_id :: "u8 list"
  gs_destination_mac :: "u8 list"
  gs_padding :: "u8 list"
  gs_target_latency_frames :: u32
  gs_block_frames :: u32

text \<open>The shim; \<open>'n\<close> is what is behind a talker's handle, \<open>'c\<close> what is behind the control's.\<close>

record ('n, 'c) talker_shim =
  sh_prepare :: "genavb_shim_config \<Rightarrow> 'n \<Rightarrow> i32 \<times> 'n"
  sh_prepare_avdecc :: "'c \<Rightarrow> u16 \<Rightarrow> u32 \<Rightarrow> u32 \<Rightarrow> 'n \<Rightarrow> i32 \<times> 'n"
  sh_start :: "'n \<Rightarrow> i32 \<times> 'n"
  sh_submit :: "u8 list \<Rightarrow> u32 \<Rightarrow> u64 \<Rightarrow> 'n \<Rightarrow> i32 \<times> 'n"
  sh_stop :: "'n \<Rightarrow> i32 \<times> 'n"
  sh_reset :: "'n \<Rightarrow> i32 \<times> 'n"

datatype talker_lifecycle = TalkerLoaded | TalkerPrepared | TalkerStarted

record 'n genavb_talker =
  gt_handle :: 'n
  gt_shim_path :: string
  gt_static_config :: "genavb_talker_config option"
  gt_lifecycle :: talker_lifecycle
  gt_prepared_format :: "network_audio_format option"
  gt_expected_sequence :: "u64 option"
  gt_expected_timestamp :: "media_timestamp option"
  gt_packed_aaf :: "u8 list"
  gt_events :: "network_transport_event option list"
  gt_event_read :: nat
  gt_event_write :: nat
  gt_event_count :: nat

definition EVENT_CAPACITY :: nat where "EVENT_CAPACITY = 8"
definition GENAVB_CHANNELS :: usize where "GENAVB_CHANNELS = 2"
definition GENAVB_BLOCK_FRAMES :: usize where "GENAVB_BLOCK_FRAMES = 48"

definition talker_load :: "'n \<Rightarrow> string \<Rightarrow> genavb_talker_config option \<Rightarrow> 'n genavb_talker" where
  "talker_load handle path static =
     \<lparr>gt_handle = handle, gt_shim_path = path, gt_static_config = static,
      gt_lifecycle = TalkerLoaded, gt_prepared_format = None, gt_expected_sequence = None,
      gt_expected_timestamp = None, gt_packed_aaf = [], gt_events = replicate EVENT_CAPACITY None,
      gt_event_read = 0, gt_event_write = 0, gt_event_count = 0\<rparr>"

definition talker_capabilities :: network_transport_capabilities where
  "talker_capabilities = \<lparr>family = AvbTsn, max_channels = GENAVB_CHANNELS,
     nc_scheduled_playout = True, hardware_timestamps = False, adaptive_rate_matching = False,
     packet_repair = False\<rparr>"

section \<open>Operations\<close>

definition talker_native_ok :: "i32 \<Rightarrow> (unit, network_transport_error) outcome" where
  "talker_native_ok code = (if code = 0 then Ok () else Err WorkerFault)"

definition push_event :: "network_transport_event \<Rightarrow> 'n genavb_talker \<Rightarrow> 'n genavb_talker" where
  "push_event event t =
     (let t1 = (if gt_event_count t = EVENT_CAPACITY
                then t\<lparr>gt_event_read := (gt_event_read t + 1) mod EVENT_CAPACITY,
                       gt_event_count := gt_event_count t - 1\<rparr> else t) in
      t1\<lparr>gt_events := (gt_events t1)[gt_event_write t1 := Some event],
         gt_event_write := (gt_event_write t1 + 1) mod EVENT_CAPACITY,
         gt_event_count := gt_event_count t1 + 1\<rparr>)"

definition pop_event ::
  "'n genavb_talker \<Rightarrow> network_transport_event option \<times> 'n genavb_talker" where
  "pop_event t =
     (if gt_event_count t = 0 then (None, t)
      else (gt_events t ! gt_event_read t,
            t\<lparr>gt_events := (gt_events t)[gt_event_read t := None],
              gt_event_read := (gt_event_read t + 1) mod EVENT_CAPACITY,
              gt_event_count := gt_event_count t - 1\<rparr>))"

definition reset_timeline :: "'n genavb_talker \<Rightarrow> 'n genavb_talker" where
  "reset_timeline t = t\<lparr>gt_expected_sequence := None, gt_expected_timestamp := None\<rparr>"

definition f64_is_zero :: "f64 \<Rightarrow> bool" where
  "f64_is_zero x \<longleftrightarrow> take_bit 63 x = 0"

definition validate_prepare_config ::
  "network_stream_config \<Rightarrow> (usize, network_transport_error) outcome" where
  "validate_prepare_config c =
     (case format_validate (sc_format c) talker_capabilities of
        Err e \<Rightarrow> Err e | Panic \<Rightarrow> Panic
      | Ok _ \<Rightarrow>
          (case timing_validate (timing c) of
             Err e \<Rightarrow> Err e | Panic \<Rightarrow> Panic
           | Ok _ \<Rightarrow>
               if sample_rate (sc_format c) \<noteq> AURORA_NETWORK_MEDIA_RATE
                 \<or> channels (sc_format c) \<noteq> GENAVB_CHANNELS
                 \<or> block_frames (sc_format c) \<noteq> GENAVB_BLOCK_FRAMES
                 \<or> clock_discipline c \<noteq> PtpFollower
                 \<or> minimum_latency_frames (timing c) \<noteq> target_latency_frames (timing c)
                 \<or> maximum_latency_frames (timing c) \<noteq> target_latency_frames (timing c)
                 \<or> \<not> f64_is_zero (maximum_rate_correction_ppm (timing c))
               then Err InvalidFormat
               else (case samples_per_block (sc_format c) of
                       None \<Rightarrow> Err InvalidFormat | Some n \<Rightarrow> Ok n)))"

definition resize :: "nat \<Rightarrow> 'a \<Rightarrow> 'a list \<Rightarrow> 'a list" where
  "resize n x xs = take n xs @ replicate (n - length xs) x"

definition commit_prepared ::
  "network_stream_config \<Rightarrow> usize \<Rightarrow> 'n genavb_talker \<Rightarrow> 'n genavb_talker" where
  "commit_prepared c n t =
     push_event EvPrepared (reset_timeline
       (t\<lparr>gt_packed_aaf := resize (unat n * 4) 0 (gt_packed_aaf t),
          gt_prepared_format := Some (sc_format c), gt_lifecycle := TalkerPrepared\<rparr>))"

definition talker_prepare_from_avdecc :: "('n, 'c) talker_shim \<Rightarrow> 'c avdecc_control \<Rightarrow> u16
    \<Rightarrow> network_stream_config \<Rightarrow> 'n genavb_talker
    \<Rightarrow> (unit, network_transport_error) outcome \<times> 'n genavb_talker" where
  "talker_prepare_from_avdecc S control index c t =
     (if gt_lifecycle t = TalkerStarted then (Err AlreadyStarted, t)
      else if gt_shim_path t \<noteq> gc_shim_path control then (Err WorkerFault, t)
      else case validate_prepare_config c of
        Err e \<Rightarrow> (Err e, t) | Panic \<Rightarrow> (Panic, t)
      | Ok n \<Rightarrow>
          (case control_native_handle control of
             Err _ \<Rightarrow> (Err WorkerFault, t) | Panic \<Rightarrow> (Panic, t)
           | Ok h \<Rightarrow>
               let (code, native) = sh_prepare_avdecc S h index (target_latency_frames (timing c))
                     (ucast GENAVB_BLOCK_FRAMES) (gt_handle t);
                   t1 = t\<lparr>gt_handle := native\<rparr> in
               (case talker_native_ok code of
                  Err e \<Rightarrow> (Err e, t1) | Panic \<Rightarrow> (Panic, t1)
                | Ok _ \<Rightarrow> (Ok (), commit_prepared c n t1))))"

definition talker_prepare :: "('n, 'c) talker_shim \<Rightarrow> network_stream_config \<Rightarrow> 'n genavb_talker
    \<Rightarrow> (unit, network_transport_error) outcome \<times> 'n genavb_talker" where
  "talker_prepare S c t =
     (if gt_lifecycle t = TalkerStarted then (Err AlreadyStarted, t)
      else case gt_static_config t of
        None \<Rightarrow> (Err WorkerFault, t)
      | Some static \<Rightarrow>
          (case validate_prepare_config c of
             Err e \<Rightarrow> (Err e, t) | Panic \<Rightarrow> (Panic, t)
           | Ok n \<Rightarrow>
               let (code, native) = sh_prepare S
                     \<lparr>gs_port = tc_port static, gs_reserved = 0, gs_stream_id = tc_stream_id static,
                      gs_destination_mac = tc_destination_mac static, gs_padding = replicate 2 0,
                      gs_target_latency_frames = target_latency_frames (timing c),
                      gs_block_frames = ucast GENAVB_BLOCK_FRAMES\<rparr> (gt_handle t);
                   t1 = t\<lparr>gt_handle := native\<rparr> in
               (case talker_native_ok code of
                  Err e \<Rightarrow> (Err e, t1) | Panic \<Rightarrow> (Panic, t1)
                | Ok _ \<Rightarrow> (Ok (), commit_prepared c n t1))))"

definition talker_start :: "('n, 'c) talker_shim \<Rightarrow> 'n genavb_talker
    \<Rightarrow> (unit, network_transport_error) outcome \<times> 'n genavb_talker" where
  "talker_start S t =
     (case gt_lifecycle t of
        TalkerLoaded \<Rightarrow> (Err NotPrepared, t)
      | TalkerStarted \<Rightarrow> (Err AlreadyStarted, t)
      | TalkerPrepared \<Rightarrow>
          let (code, native) = sh_start S (gt_handle t); t1 = t\<lparr>gt_handle := native\<rparr> in
          (case talker_native_ok code of
             Err e \<Rightarrow> (Err e, t1) | Panic \<Rightarrow> (Panic, t1)
           | Ok _ \<Rightarrow> (Ok (), push_event EvStarted (reset_timeline
               (t1\<lparr>gt_lifecycle := TalkerStarted\<rparr>)))))"

definition talker_submit :: "('n, 'c) talker_shim \<Rightarrow> network_audio_block \<Rightarrow> 'n genavb_talker
    \<Rightarrow> (unit, network_transport_error) outcome \<times> 'n genavb_talker" where
  "talker_submit S b t =
     (if gt_lifecycle t \<noteq> TalkerStarted then (Err NotPrepared, t)
      else case block_validate b of
        Err e \<Rightarrow> (Err e, t) | Panic \<Rightarrow> (Panic, t)
      | Ok _ \<Rightarrow>
          if gt_prepared_format t \<noteq> Some (format b) then (Err InvalidFormat, t)
          else if is_some_and (\<lambda>expected. sequence b \<noteq> expected) (gt_expected_sequence t)
            \<or> is_some_and (\<lambda>expected. timestamp b \<noteq> expected) (gt_expected_timestamp t)
          then (Err WorkerFault, t)
          else (case pack_f32_to_aaf (samples b) (gt_packed_aaf t) of
             (Err e, out) \<Rightarrow> (Err e, t\<lparr>gt_packed_aaf := out\<rparr>)
           | (Panic, out) \<Rightarrow> (Panic, t\<lparr>gt_packed_aaf := out\<rparr>)
           | (Ok _, out) \<Rightarrow>
               let t1 = t\<lparr>gt_packed_aaf := out\<rparr> in
               if 2 ^ 32 \<le> length out then (Err InvalidFormat, t1)
               else
                 let (code, native) = sh_submit S out (of_nat (length out))
                       (frame_index (timestamp b)) (gt_handle t1);
                     t2 = t1\<lparr>gt_handle := native\<rparr> in
                 (case talker_native_ok code of
                    Err e \<Rightarrow> (Err e, t2) | Panic \<Rightarrow> (Panic, t2)
                  | Ok _ \<Rightarrow>
                      (case checked_add (sequence b) 1 of
                         None \<Rightarrow> (Err WorkerFault, t2)
                       | Some next_sequence \<Rightarrow>
                           let t3 = t2\<lparr>gt_expected_sequence := Some next_sequence\<rparr> in
                           (case checked_advance (timestamp b) (block_frames (format b)) of
                              Err e \<Rightarrow> (Err e, t3) | Panic \<Rightarrow> (Panic, t3)
                            | Ok next_timestamp \<Rightarrow>
                                (Ok (), t3\<lparr>gt_expected_timestamp := Some next_timestamp\<rparr>))))))"

definition talker_stop :: "('n, 'c) talker_shim \<Rightarrow> 'n genavb_talker
    \<Rightarrow> (unit, network_transport_error) outcome \<times> 'n genavb_talker" where
  "talker_stop S t =
     (if gt_lifecycle t = TalkerLoaded then (Err NotPrepared, t)
      else
        let (r, t1) = (if gt_lifecycle t = TalkerStarted
              then (let (code, native) = sh_stop S (gt_handle t) in
                    (talker_native_ok code, t\<lparr>gt_handle := native\<rparr>))
              else (Ok (), t)) in
        (case r of
           Err e \<Rightarrow> (Err e, t1) | Panic \<Rightarrow> (Panic, t1)
         | Ok _ \<Rightarrow> (Ok (), push_event EvStopped (reset_timeline
             (t1\<lparr>gt_lifecycle := TalkerPrepared\<rparr>)))))"

definition talker_reset :: "('n, 'c) talker_shim \<Rightarrow> 'n genavb_talker \<Rightarrow> 'n genavb_talker" where
  "talker_reset S t =
     (let t1 = (if gt_lifecycle t = TalkerStarted
                then t\<lparr>gt_handle := snd (sh_stop S (gt_handle t)), gt_lifecycle := TalkerPrepared\<rparr>
                else t);
          t2 = (if gt_lifecycle t1 \<noteq> TalkerLoaded
                then t1\<lparr>gt_handle := snd (sh_reset S (gt_handle t1))\<rparr> else t1) in
      reset_timeline t2)"

section \<open>What packing computes\<close>

lemma length_aaf_word [simp]: "length (aaf_word x) = 4"
  by (simp add: aaf_word_def)

lemma pack_samples_Ok:
  "\<forall>x\<in>set xs. f32_is_finite x \<Longrightarrow> pos + 4 * length xs \<le> length out \<Longrightarrow>
     pack_samples xs pos out =
       (Ok (), take pos out @ concat (map aaf_word xs) @ drop (pos + 4 * length xs) out)"
proof (induction xs arbitrary: pos out)
  case Nil
  then show ?case by simp
next
  case (Cons x xs)
  let ?out = "take pos out @ aaf_word x @ drop (pos + 4) out"
  have "pack_samples (x # xs) pos out = pack_samples xs (pos + 4) ?out"
    using Cons.prems(1) by simp
  also have "\<dots> = (Ok (), take (pos + 4) ?out @ concat (map aaf_word xs)
      @ drop (pos + 4 + 4 * length xs) ?out)"
    using Cons.prems by (intro Cons.IH) auto
  finally show ?case using Cons.prems(2) by (simp add: algebra_simps)
qed

lemma pack_samples_bad:
  "\<exists>x\<in>set xs. \<not> f32_is_finite x \<Longrightarrow> fst (pack_samples xs pos out) = Err WorkerFault"
  by (induction xs arbitrary: pos out) auto

lemma pack_length: "pos + 4 * length xs \<le> length out \<Longrightarrow> length (snd (pack_samples xs pos out)) = length out"
  by (induction xs arbitrary: pos out) auto

lemma pack_f32_to_aaf_Ok:
  "pack_f32_to_aaf xs out = (Ok (), bytes) \<longleftrightarrow>
     length out = 4 * length xs \<and> (\<forall>x\<in>set xs. f32_is_finite x) \<and> bytes = concat (map aaf_word xs)"
proof (cases "length out = 4 * length xs \<and> (\<forall>x\<in>set xs. f32_is_finite x)")
  case True
  then show ?thesis using pack_samples_Ok [of xs 0 out] by (auto simp: pack_f32_to_aaf_def)
next
  case False
  then show ?thesis
    using pack_samples_bad [of xs 0 out] by (cases "pack_samples xs 0 out") (auto simp: pack_f32_to_aaf_def)
qed

lemma pack_no_panic: "fst (pack_f32_to_aaf xs out) \<noteq> Panic"
proof -
  have "fst (pack_samples xs pos out) \<noteq> Panic" for pos by (induction xs arbitrary: pos out) auto
  then show ?thesis by (simp add: pack_f32_to_aaf_def)
qed

lemma pcm24_range: "- 8388608 \<le> pcm24 x \<and> pcm24 x \<le> 8388607"
  by (simp add: pcm24_def Let_def)

text \<open>The signed number the four bytes denote.\<close>

definition aaf_value :: "u8 list \<Rightarrow> int" where
  "aaf_value bytes = sint (of_nat (foldl (\<lambda>n b. n * 256 + unat b) 0 bytes) :: i32)"

lemma aaf_value_word: "aaf_value (aaf_word x) = 256 * pcm24 x"
proof -
  let ?w = "push_bit 8 (word_of_int (pcm24 x)) :: i32"
  have "unat ?w < 256 ^ 4" using unsigned_less [of ?w, where ?'a = nat] by simp
  then have "aaf_value (aaf_word x) = sint ?w"
    by (simp add: aaf_value_def aaf_word_def foldl_be_bytes del: push_bit_of_int)
  also have "?w = word_of_int (pcm24 x * 256)" by (simp add: push_bit_eq_mult)
  also have "sint (word_of_int v :: i32) = v" if "- 2147483648 \<le> v" "v < 2147483648" for v
    using that by (simp add: sint_sbintrunc' signed_take_bit_int_eq_self)
  then have "sint (word_of_int (pcm24 x * 256) :: i32) = pcm24 x * 256"
    using pcm24_range [of x] by (simp del: of_int_mult)
  finally show ?thesis by simp
qed

definition f32_real :: "f32 \<Rightarrow> real" where
  "f32_real x = (if bit x 31 then - 1 else 1) * (real (f32_significand x) * 2 powi f32_exponent x)"

lemma round_scaled_nearest: "\<bar>real_of_int (round_scaled m e) - real m * 2 powi e\<bar> \<le> 1 / 2"
proof (cases "0 \<le> e")
  case True
  then show ?thesis by (simp add: round_scaled_def power_int_def)
next
  case False
  define k where "k = nat (- e)"
  have k: "2 ^ k = 2 * (2 :: int) ^ (k - 1)" "k \<noteq> 0"
    using False by (simp_all add: k_def power_eq_if)
  define q where "q = (int m + 2 ^ (k - 1)) div 2 ^ k"
  define r where "r = (int m + 2 ^ (k - 1)) mod 2 ^ k"
  have qr: "int m + 2 ^ (k - 1) = q * 2 ^ k + r"
    unfolding q_def r_def by (simp only: div_mult_mod_eq)
  have r: "0 \<le> r" "r < 2 ^ k" by (simp_all add: r_def)
  have m: "int m = q * 2 ^ k + (r - 2 ^ (k - 1))" using qr by simp
  have half: "\<bar>r - 2 ^ (k - 1)\<bar> \<le> 2 ^ (k - 1)" using r k(1) by linarith
  have "real m = real_of_int q * 2 ^ k + real_of_int (r - 2 ^ (k - 1))"
    using arg_cong [OF m, of real_of_int] by simp
  then have "real m / 2 ^ k = real_of_int q + real_of_int (r - 2 ^ (k - 1)) / 2 ^ k"
    by (simp add: add_divide_distrib)
  then have "\<bar>real_of_int q - real m / 2 ^ k\<bar> = \<bar>real_of_int (r - 2 ^ (k - 1))\<bar> / 2 ^ k"
    by (simp add: abs_divide)
  also have "\<bar>real_of_int (r - 2 ^ (k - 1))\<bar> \<le> 2 ^ (k - 1)"
    using half by (metis of_int_abs of_int_le_iff of_int_numeral of_int_power)
  then have "\<bar>real_of_int (r - 2 ^ (k - 1))\<bar> / 2 ^ k \<le> 2 ^ (k - 1) / 2 ^ k"
    by (intro divide_right_mono) simp_all
  also have "(2 :: real) ^ (k - 1) / 2 ^ k = 1 / 2" using k(2) by (cases k) simp_all
  finally have "\<bar>real_of_int q - real m / 2 ^ k\<bar> \<le> 1 / 2" .
  moreover have "round_scaled m e = q" using False by (simp add: round_scaled_def q_def k_def)
  moreover have "real m * 2 powi e = real m / 2 ^ k"
    using False by (simp add: power_int_def k_def field_simps)
  ultimately show ?thesis by simp
qed

lemma pcm24_nearest:
  "\<bar>real_of_int (pcm24 x) - max (- 8388608) (min 8388607 (8388608 * f32_real x))\<bar> \<le> 1 / 2"
proof -
  define s where "s = (if bit x 31 then - 1 else 1 :: int)"
  define g where "g = round_scaled (f32_significand x) (f32_exponent x + 23)"
  have shift: "2 powi (f32_exponent x + 23) = (8388608 :: real) * 2 powi f32_exponent x"
    by (simp add: power_int_add)
  have "8388608 * f32_real x = s * (real (f32_significand x) * 2 powi (f32_exponent x + 23))"
    unfolding shift f32_real_def s_def by simp
  then have "\<bar>real_of_int (s * g) - 8388608 * f32_real x\<bar>
      = \<bar>real_of_int s\<bar> * \<bar>real_of_int g - real (f32_significand x) * 2 powi (f32_exponent x + 23)\<bar>"
    by (simp add: abs_mult [symmetric] right_diff_distrib)
  also have "\<dots> \<le> 1 / 2" using round_scaled_nearest by (simp add: s_def g_def)
  finally have near: "\<bar>real_of_int (s * g) - 8388608 * f32_real x\<bar> \<le> 1 / 2" .
  have "real_of_int (pcm24 x) = max (- 8388608) (min 8388607 (real_of_int (s * g)))"
    by (simp add: pcm24_def Let_def s_def g_def of_int_max of_int_min)
  then show ?thesis using near by linarith
qed

lemma concat_aaf_slice:
  "i < length xs \<Longrightarrow> take 4 (drop (4 * i) (concat (map aaf_word xs))) = aaf_word (xs ! i)"
proof (induction xs arbitrary: i)
  case Nil
  then show ?case by simp
next
  case (Cons x xs)
  then show ?case by (cases i) simp_all
qed

lemma length_concat_aaf: "length (concat (map aaf_word xs)) = 4 * length xs"
  by (induction xs) simp_all

text \<open>A successful packing reads only finite samples into a buffer of exactly four bytes each,
  and puts at the place of each sample a big-endian signed 32-bit word whose low byte is zero and
  whose upper 24 bits are the sample times two to the 23, clipped to the 24-bit range, to within
  half a unit: nothing is wrapped, and no sample is misplaced.\<close>

lemma aaf_quantises:
  assumes "pack_f32_to_aaf xs out = (Ok (), bytes)" and "i < length xs"
  shows "length bytes = length out \<and> length bytes = 4 * length xs \<and> f32_is_finite (xs ! i) \<and>
    (\<exists>n. aaf_value (take 4 (drop (4 * i) bytes)) = 256 * n \<and>
      \<bar>real_of_int n - max (- (2 ^ 23)) (min (2 ^ 23 - 1) (2 ^ 23 * f32_real (xs ! i)))\<bar> \<le> 1 / 2)"
  using assms pcm24_nearest [of "xs ! i"]
  by (auto simp: pack_f32_to_aaf_Ok length_concat_aaf concat_aaf_slice aaf_value_word)

end
