(* ===== verification/Fabric_Types.thy ===== *)
theory Fabric_Types
  imports Core_Roles
begin

text \<open>
  The data of \<open>src/crates/aurora-modular-speaker-fabric/src/lib.rs\<close> that the planner, the
  handover and the endpoint state machine share: attachment, route, clock source,
  synchronization evidence, capabilities and state of one detachable speaker module, the
  deployment intent, and the admitted plan.
\<close>

datatype module_attachment = Docked (slot_id: string) | Detached

datatype module_route = DockBus | WiredNetwork | WirelessNetwork | Muted_Route

datatype module_clock_source = DockRecovered | Ptp | AdaptivePeer | Unlocked

record module_sync_status =
  locked :: bool
  scheduled_playout :: bool
  estimated_skew_micros :: "u32 option"
  clock_source :: module_clock_source

definition docked_locked :: module_sync_status where
  "docked_locked =
     \<lparr>locked = True, scheduled_playout = True, estimated_skew_micros = Some 0,
      clock_source = DockRecovered\<rparr>"

record speaker_module_capabilities =
  output_lanes :: usize
  dock_pcm :: bool
  wired_network_audio :: bool
  wireless_network_audio :: bool
  battery_powered :: bool

record speaker_module_state =
  sm_module_id :: string
  sm_capabilities :: speaker_module_capabilities
  sm_attachment :: module_attachment
  sm_sync :: module_sync_status
  sm_online :: bool

datatype deployment_mode = Cinema | Stereo | Standalone | Multiroom

record module_target =
  mt_module_id :: string
  mt_roles :: "channel_role list"

record deployment_intent =
  di_mode :: deployment_mode
  di_targets :: "module_target list"

record module_assignment =
  ma_module_id :: string
  ma_route :: module_route
  ma_clock_source :: module_clock_source
  ma_roles :: "channel_role list"

record fabric_plan =
  fp_mode :: deployment_mode
  fp_assignments :: "module_assignment list"

end
