(* ===== verification/Endpoint.thy ===== *)
theory Endpoint
  imports Fabric_Types "HOL-Library.Sublist"
begin

text \<open>
  The fail-closed endpoint of one detachable speaker module,
  \<open>src/crates/aurora-modular-speaker-fabric/src/endpoint.rs\<close>.  The state record has the
  fields of \<open>DetachableEndpoint\<close>, each public method is a definition of the same name, and
  \<open>endpoint_step\<close> collects the methods that take \<open>&mut self\<close> as operations of one
  state machine.
\<close>

section \<open>Data\<close>

record endpoint_policy =
  maximum_skew_micros :: u32
  minimum_battery_percent :: u8

definition default_endpoint_policy :: endpoint_policy where
  "default_endpoint_policy = \<lparr>maximum_skew_micros = 1000, minimum_battery_percent = 10\<rparr>"

record endpoint_power_status =
  external_power :: bool
  battery_percent :: "u8 option"
  charging :: bool

definition power_unknown :: endpoint_power_status where
  "power_unknown = \<lparr>external_power = False, battery_percent = None, charging = False\<rparr>"

definition power_valid :: "endpoint_power_status \<Rightarrow> bool" where
  "power_valid p = (case battery_percent p of None \<Rightarrow> True | Some value \<Rightarrow> value \<le> 100)"

datatype endpoint_phase = BootMuted | Muted | Prepared | Armed | Committed | Playing | Fault

record endpoint_route =
  er_epoch :: u64
  er_route :: module_route
  er_clock_source :: module_clock_source
  er_roles :: "channel_role list"
  er_start_frame :: "u64 option"

datatype endpoint_command =
    Mute string u64
  | Prepare string u64 module_route module_clock_source "channel_role list"
  | Arm string u64 u64
  | Commit string u64
  | Stop string u64

datatype endpoint_action =
    SetAmplifierMute bool
  | ConfigureRoute module_route module_clock_source "channel_role list"
  | ArmPlayout u64
  | StartPlayout
  | StopPlayout

datatype endpoint_fault =
    SynchronizationLost | ExcessiveSkew | PowerInsufficient | StreamUnderflow
  | TransportLost | AttachmentChanged | MissedStartFrame

datatype endpoint_error =
    EmptyModuleId | WrongModule | InvalidPowerTelemetry | EpochMismatch | InvalidPhase
  | UnsupportedRoute | TooManyRoles | InsufficientPower | SynchronizationInsufficient
  | InvalidStartFrame | Faulted

record detachable_endpoint =
  module_id :: string
  capabilities :: speaker_module_capabilities
  policy :: endpoint_policy
  attachment :: module_attachment
  power_status :: endpoint_power_status
  sync :: module_sync_status
  phase :: endpoint_phase
  current_epoch :: "u64 option"
  pending :: "endpoint_route option"
  active :: "endpoint_route option"
  amplifier_muted :: bool
  online :: bool
  last_fault :: "endpoint_fault option"

type_synonym actions = "endpoint_action list"

section \<open>Guards\<close>

definition require_epoch :: "detachable_endpoint \<Rightarrow> u64 \<Rightarrow> (unit, endpoint_error) outcome" where
  "require_epoch s epoch =
     (if current_epoch s = Some epoch then Ok () else Err EpochMismatch)"

definition detached_power_is_sufficient :: "detachable_endpoint \<Rightarrow> bool" where
  "detached_power_is_sufficient s =
     (if external_power (power_status s) then True
      else if \<not> battery_powered (capabilities s) then False
      else is_some_and (\<lambda>percent. minimum_battery_percent (policy s) \<le> percent)
             (battery_percent (power_status s)))"

definition is_network_route :: "endpoint_route option \<Rightarrow> bool" where
  "is_network_route r \<longleftrightarrow>
     is_some_and (\<lambda>route. er_route route \<in> {WirelessNetwork, WiredNetwork}) r"

definition requires_battery :: "detachable_endpoint \<Rightarrow> bool" where
  "requires_battery s \<longleftrightarrow>
     attachment s = Detached \<and> \<not> external_power (power_status s)
     \<and> (is_network_route (pending s) \<or> is_network_route (active s))"

fun is_docked :: "module_attachment \<Rightarrow> bool" where
  "is_docked (Docked _) = True"
| "is_docked Detached = False"

definition validate_route ::
  "detachable_endpoint \<Rightarrow> module_route \<Rightarrow> module_clock_source \<Rightarrow> channel_role list
    \<Rightarrow> (unit, endpoint_error) outcome" where
  "validate_route s route clock roles =
     (if roles = [] \<or> unat (output_lanes (capabilities s)) < length roles then Err TooManyRoles
      else case route of
        DockBus \<Rightarrow>
          if \<not> dock_pcm (capabilities s) \<or> \<not> is_docked (attachment s) \<or> clock \<noteq> DockRecovered
          then Err UnsupportedRoute else Ok ()
      | WiredNetwork \<Rightarrow>
          if \<not> wired_network_audio (capabilities s) \<or> clock \<noteq> Ptp
          then Err UnsupportedRoute else Ok ()
      | WirelessNetwork \<Rightarrow>
          if \<not> wireless_network_audio (capabilities s) \<or> attachment s \<noteq> Detached
             \<or> clock \<notin> {Ptp, AdaptivePeer}
          then Err UnsupportedRoute
          else if \<not> detached_power_is_sufficient s then Err InsufficientPower
          else Ok ()
      | Muted_Route \<Rightarrow> Err UnsupportedRoute)"

definition sync_is_sufficient :: "detachable_endpoint \<Rightarrow> (unit, endpoint_error) outcome" where
  "sync_is_sufficient s =
     (case (case pending s of Some r \<Rightarrow> Some r | None \<Rightarrow> active s) of
        None \<Rightarrow> Err InvalidPhase
      | Some route \<Rightarrow>
          if \<not> online s \<or> \<not> locked (sync s) \<or> \<not> scheduled_playout (sync s)
          then Err SynchronizationInsufficient
          else if clock_source (sync s) \<noteq> er_clock_source route
          then Err SynchronizationInsufficient
          else case estimated_skew_micros (sync s) of
                 None \<Rightarrow> Err SynchronizationInsufficient
               | Some skew \<Rightarrow>
                   if maximum_skew_micros (policy s) < skew
                   then Err SynchronizationInsufficient else Ok ())"

section \<open>Operations\<close>

definition endpoint_new ::
  "string \<Rightarrow> speaker_module_capabilities \<Rightarrow> endpoint_policy
    \<Rightarrow> (detachable_endpoint, endpoint_error) outcome" where
  "endpoint_new mid caps pol =
     (if mid = '''' then Err EmptyModuleId
      else Ok \<lparr>module_id = mid, capabilities = caps, policy = pol, attachment = Detached,
               power_status = power_unknown,
               sync = \<lparr>locked = False, scheduled_playout = False,
                       estimated_skew_micros = None, clock_source = Unlocked\<rparr>,
               phase = BootMuted, current_epoch = None, pending = None, active = None,
               amplifier_muted = True, online = True, last_fault = None\<rparr>)"

definition fail_closed :: "endpoint_fault \<Rightarrow> detachable_endpoint \<Rightarrow> actions \<times> detachable_endpoint" where
  "fail_closed fault s =
     ([SetAmplifierMute True, StopPlayout],
      s\<lparr>pending := None, active := None, phase := Fault, amplifier_muted := True,
        last_fault := Some fault\<rparr>)"

definition update_power ::
  "endpoint_power_status \<Rightarrow> detachable_endpoint
    \<Rightarrow> (actions, endpoint_error) outcome \<times> detachable_endpoint" where
  "update_power p s =
     (if \<not> power_valid p then (Err InvalidPowerTelemetry, s)
      else let s1 = s\<lparr>power_status := p\<rparr> in
        if requires_battery s1 \<and> \<not> detached_power_is_sufficient s1
        then apfst Ok (fail_closed PowerInsufficient s1)
        else (Ok [], s1))"

definition update_attachment ::
  "module_attachment \<Rightarrow> detachable_endpoint \<Rightarrow> actions \<times> detachable_endpoint" where
  "update_attachment a s =
     (if attachment s = a then ([], s)
      else let s1 = s\<lparr>attachment := a\<rparr> in
        if phase s1 \<in> {BootMuted, Muted} then ([], s1)
        else fail_closed AttachmentChanged s1)"

definition update_sync ::
  "module_sync_status \<Rightarrow> detachable_endpoint \<Rightarrow> actions \<times> detachable_endpoint" where
  "update_sync y s =
     (let s1 = s\<lparr>sync := y\<rparr> in
      if phase s1 \<in> {Armed, Committed, Playing} \<and> \<not> is_ok (sync_is_sufficient s1)
      then fail_closed
             (case estimated_skew_micros (sync s1) of
                Some skew \<Rightarrow>
                  if maximum_skew_micros (policy s1) < skew then ExcessiveSkew
                  else SynchronizationLost
              | None \<Rightarrow> SynchronizationLost) s1
      else ([], s1))"

definition set_online :: "bool \<Rightarrow> detachable_endpoint \<Rightarrow> actions \<times> detachable_endpoint" where
  "set_online b s =
     (let s1 = s\<lparr>online := b\<rparr> in if \<not> b then fail_closed TransportLost s1 else ([], s1))"

definition report_stream_underflow :: "detachable_endpoint \<Rightarrow> actions \<times> detachable_endpoint" where
  "report_stream_underflow s = fail_closed StreamUnderflow s"

definition recover_to_muted ::
  "detachable_endpoint \<Rightarrow> (actions, endpoint_error) outcome \<times> detachable_endpoint" where
  "recover_to_muted s =
     (if phase s \<noteq> Fault then (Err InvalidPhase, s)
      else (Ok [SetAmplifierMute True],
            s\<lparr>pending := None, active := None, current_epoch := None, last_fault := None,
              phase := Muted, amplifier_muted := True\<rparr>))"

definition apply_mute ::
  "u64 \<Rightarrow> detachable_endpoint \<Rightarrow> (actions, endpoint_error) outcome \<times> detachable_endpoint" where
  "apply_mute epoch s =
     (if is_some_and (\<lambda>current. epoch \<le> current) (current_epoch s)
      then (Err EpochMismatch, s)
      else (Ok [SetAmplifierMute True, StopPlayout],
            s\<lparr>current_epoch := Some epoch, pending := None, active := None, phase := Muted,
              amplifier_muted := True\<rparr>))"

definition apply_prepare ::
  "u64 \<Rightarrow> module_route \<Rightarrow> module_clock_source \<Rightarrow> channel_role list \<Rightarrow> detachable_endpoint
    \<Rightarrow> (actions, endpoint_error) outcome \<times> detachable_endpoint" where
  "apply_prepare epoch route clock roles s =
     (case require_epoch s epoch of
        Err e \<Rightarrow> (Err e, s) | Panic \<Rightarrow> (Panic, s)
      | Ok _ \<Rightarrow>
          if phase s \<noteq> Muted then (Err InvalidPhase, s)
          else case validate_route s route clock roles of
                 Err e \<Rightarrow> (Err e, s) | Panic \<Rightarrow> (Panic, s)
               | Ok _ \<Rightarrow>
                   (Ok [ConfigureRoute route clock roles],
                    s\<lparr>pending := Some \<lparr>er_epoch = epoch, er_route = route,
                        er_clock_source = clock, er_roles = roles, er_start_frame = None\<rparr>,
                      phase := Prepared\<rparr>))"

definition apply_arm ::
  "u64 \<Rightarrow> u64 \<Rightarrow> detachable_endpoint
    \<Rightarrow> (actions, endpoint_error) outcome \<times> detachable_endpoint" where
  "apply_arm epoch start s =
     (case require_epoch s epoch of
        Err e \<Rightarrow> (Err e, s) | Panic \<Rightarrow> (Panic, s)
      | Ok _ \<Rightarrow>
          if phase s \<noteq> Prepared then (Err InvalidPhase, s)
          else if start = 0 then (Err InvalidStartFrame, s)
          else case sync_is_sufficient s of
                 Err e \<Rightarrow> (Err e, s) | Panic \<Rightarrow> (Panic, s)
               | Ok _ \<Rightarrow>
                   (case pending s of
                      None \<Rightarrow> (Err InvalidPhase, s)
                    | Some p \<Rightarrow>
                        (Ok [ArmPlayout start],
                         s\<lparr>pending := Some (p\<lparr>er_start_frame := Some start\<rparr>),
                           phase := Armed\<rparr>)))"

definition apply_commit ::
  "u64 \<Rightarrow> detachable_endpoint \<Rightarrow> (actions, endpoint_error) outcome \<times> detachable_endpoint" where
  "apply_commit epoch s =
     (case require_epoch s epoch of
        Err e \<Rightarrow> (Err e, s) | Panic \<Rightarrow> (Panic, s)
      | Ok _ \<Rightarrow>
          if phase s \<noteq> Armed then (Err InvalidPhase, s)
          else case sync_is_sufficient s of
                 Err e \<Rightarrow> (Err e, s) | Panic \<Rightarrow> (Panic, s)
               | Ok _ \<Rightarrow> (Ok [], s\<lparr>phase := Committed, amplifier_muted := True\<rparr>))"

definition apply_stop ::
  "u64 \<Rightarrow> detachable_endpoint \<Rightarrow> (actions, endpoint_error) outcome \<times> detachable_endpoint" where
  "apply_stop epoch s =
     (case require_epoch s epoch of
        Err e \<Rightarrow> (Err e, s) | Panic \<Rightarrow> (Panic, s)
      | Ok _ \<Rightarrow>
          (Ok [SetAmplifierMute True, StopPlayout],
           s\<lparr>pending := None, active := None, phase := Muted, amplifier_muted := True\<rparr>))"

fun command_identity :: "endpoint_command \<Rightarrow> string \<times> u64" where
  "command_identity (Mute m e) = (m, e)"
| "command_identity (Prepare m e _ _ _) = (m, e)"
| "command_identity (Arm m e _) = (m, e)"
| "command_identity (Commit m e) = (m, e)"
| "command_identity (Stop m e) = (m, e)"

definition endpoint_apply ::
  "endpoint_command \<Rightarrow> detachable_endpoint
    \<Rightarrow> (actions, endpoint_error) outcome \<times> detachable_endpoint" where
  "endpoint_apply command s =
     (if phase s = Fault then (Err Faulted, s)
      else let (mid, epoch) = command_identity command in
        if mid \<noteq> module_id s then (Err WrongModule, s)
        else case command of
               Mute _ _ \<Rightarrow> apply_mute epoch s
             | Prepare _ _ route clock roles \<Rightarrow> apply_prepare epoch route clock roles s
             | Arm _ _ start \<Rightarrow> apply_arm epoch start s
             | Commit _ _ \<Rightarrow> apply_commit epoch s
             | Stop _ _ \<Rightarrow> apply_stop epoch s)"

definition on_media_frame ::
  "u64 \<Rightarrow> detachable_endpoint \<Rightarrow> (actions, endpoint_error) outcome \<times> detachable_endpoint" where
  "on_media_frame frame_index s =
     (if phase s \<noteq> Committed then (Ok [], s)
      else case sync_is_sufficient s of
             Err e \<Rightarrow> (Err e, s) | Panic \<Rightarrow> (Panic, s)
           | Ok _ \<Rightarrow>
               (case Option.bind (pending s) er_start_frame of
                  None \<Rightarrow> (Err InvalidPhase, s)
                | Some start \<Rightarrow>
                    if frame_index < start then (Ok [], s)
                    else if start < frame_index
                    then apfst Ok (fail_closed MissedStartFrame s)
                    else (case pending s of
                            None \<Rightarrow> (Err InvalidPhase, s)
                          | Some r \<Rightarrow>
                              (Ok [StartPlayout, SetAmplifierMute False],
                               s\<lparr>pending := None, active := Some r, phase := Playing,
                                 amplifier_muted := False\<rparr>))))"

definition speaker_module_state_of :: "detachable_endpoint \<Rightarrow> speaker_module_state" where
  "speaker_module_state_of s =
     \<lparr>sm_module_id = module_id s, sm_capabilities = capabilities s,
      sm_attachment = attachment s, sm_sync = sync s,
      sm_online = (online s \<and> phase s \<noteq> Fault)\<rparr>"

section \<open>The endpoint as a state machine\<close>

text \<open>
  Every way the outside can change an endpoint: telemetry, commands, the media timeline.
  The methods that cannot fail return their actions as \<open>Ok\<close>.
\<close>

datatype endpoint_op =
    UpdatePower endpoint_power_status
  | UpdateAttachment module_attachment
  | UpdateSync module_sync_status
  | SetOnline bool
  | ReportStreamUnderflow
  | RecoverToMuted
  | Apply endpoint_command
  | OnMediaFrame u64

fun endpoint_step ::
  "endpoint_op \<Rightarrow> detachable_endpoint \<Rightarrow> (actions, endpoint_error) outcome \<times> detachable_endpoint" where
  "endpoint_step (UpdatePower p) s = update_power p s"
| "endpoint_step (UpdateAttachment a) s = apfst Ok (update_attachment a s)"
| "endpoint_step (UpdateSync y) s = apfst Ok (update_sync y s)"
| "endpoint_step (SetOnline b) s = apfst Ok (set_online b s)"
| "endpoint_step ReportStreamUnderflow s = apfst Ok (report_stream_underflow s)"
| "endpoint_step RecoverToMuted s = recover_to_muted s"
| "endpoint_step (Apply c) s = endpoint_apply c s"
| "endpoint_step (OnMediaFrame n) s = on_media_frame n s"

fun endpoint_run :: "endpoint_op list \<Rightarrow> detachable_endpoint \<Rightarrow> detachable_endpoint" where
  "endpoint_run [] s = s"
| "endpoint_run (op # ops) s = endpoint_run ops (snd (endpoint_step op s))"

fun emitted :: "(actions, endpoint_error) outcome \<Rightarrow> actions" where
  "emitted (Ok acts) = acts"
| "emitted _ = []"

fun endpoint_trace :: "endpoint_op list \<Rightarrow> detachable_endpoint \<Rightarrow> actions" where
  "endpoint_trace [] s = []"
| "endpoint_trace (op # ops) s =
     emitted (fst (endpoint_step op s)) @ endpoint_trace ops (snd (endpoint_step op s))"

lemma endpoint_run_append:
  "endpoint_run (xs @ ys) s = endpoint_run ys (endpoint_run xs s)"
  by (induction xs arbitrary: s) simp_all

lemmas endpoint_guards =
  require_epoch_def validate_route_def sync_is_sufficient_def detached_power_is_sufficient_def
  requires_battery_def is_network_route_def

lemmas endpoint_commands =
  endpoint_apply_def apply_mute_def apply_prepare_def apply_arm_def apply_commit_def
  apply_stop_def Let_def

lemmas endpoint_methods =
  update_power_def update_attachment_def update_sync_def set_online_def
  report_stream_underflow_def recover_to_muted_def on_media_frame_def fail_closed_def
  endpoint_commands

section \<open>The invariant\<close>

text \<open>
  \<open>route_live\<close>: the route belongs to the current epoch and still passes the checks that
  \<open>apply_prepare\<close> made, against the present attachment and power.
\<close>

definition route_live :: "detachable_endpoint \<Rightarrow> endpoint_route \<Rightarrow> bool" where
  "route_live s r \<longleftrightarrow>
     current_epoch s = Some (er_epoch r)
     \<and> validate_route s (er_route r) (er_clock_source r) (er_roles r) = Ok ()"

text \<open>\<open>sync_ok\<close>: the evidence \<open>sync_is_sufficient\<close> asks for, with respect to one route.\<close>

definition sync_ok :: "detachable_endpoint \<Rightarrow> endpoint_route \<Rightarrow> bool" where
  "sync_ok s r \<longleftrightarrow>
     online s \<and> locked (sync s) \<and> scheduled_playout (sync s)
     \<and> clock_source (sync s) = er_clock_source r
     \<and> is_some_and (\<lambda>skew. skew \<le> maximum_skew_micros (policy s)) (estimated_skew_micros (sync s))"

definition scheduled :: "endpoint_route \<Rightarrow> bool" where
  "scheduled r \<longleftrightarrow> is_some_and (\<lambda>f. f \<noteq> 0) (er_start_frame r)"

fun phase_inv :: "endpoint_phase \<Rightarrow> detachable_endpoint \<Rightarrow> bool" where
  "phase_inv BootMuted s = (pending s = None \<and> active s = None \<and> current_epoch s = None)"
| "phase_inv Muted s = (pending s = None \<and> active s = None)"
| "phase_inv Fault s = (pending s = None \<and> active s = None)"
| "phase_inv Prepared s = (active s = None \<and>
     is_some_and (\<lambda>r. route_live s r \<and> er_start_frame r = None) (pending s))"
| "phase_inv Armed s = (active s = None \<and>
     is_some_and (\<lambda>r. route_live s r \<and> scheduled r \<and> sync_ok s r) (pending s))"
| "phase_inv Committed s = (active s = None \<and>
     is_some_and (\<lambda>r. route_live s r \<and> scheduled r \<and> sync_ok s r) (pending s))"
| "phase_inv Playing s = (pending s = None \<and>
     is_some_and (\<lambda>r. route_live s r \<and> scheduled r \<and> sync_ok s r) (active s))"

definition endpoint_inv :: "detachable_endpoint \<Rightarrow> bool" where
  "endpoint_inv s \<longleftrightarrow>
     module_id s \<noteq> [] \<and> amplifier_muted s = (phase s \<noteq> Playing) \<and> phase_inv (phase s) s"

lemma sync_is_sufficient_iff:
  "sync_is_sufficient s = Ok () \<longleftrightarrow>
     (\<exists>r. (case pending s of Some r \<Rightarrow> Some r | None \<Rightarrow> active s) = Some r \<and> sync_ok s r)"
  by (auto simp: sync_is_sufficient_def sync_ok_def is_some_and_iff split: option.splits if_splits)

lemma sync_is_sufficient_no_panic: "sync_is_sufficient s \<noteq> Panic"
  by (auto simp: sync_is_sufficient_def split: option.splits)

lemma validate_route_no_panic: "validate_route s route clock roles \<noteq> Panic"
  by (auto simp: validate_route_def split: module_route.splits)

text \<open>The guards read only the fields they name.\<close>

lemma validate_route_cong:
  assumes "capabilities s = capabilities s'" "policy s = policy s'"
    "attachment s = attachment s'" "power_status s = power_status s'"
  shows "validate_route s = validate_route s'"
  unfolding validate_route_def detached_power_is_sufficient_def assms ..

lemma validate_route_frame [simp]:
  "validate_route (s\<lparr>phase := a\<rparr>) = validate_route s"
  "validate_route (s\<lparr>pending := b\<rparr>) = validate_route s"
  "validate_route (s\<lparr>active := b\<rparr>) = validate_route s"
  "validate_route (s\<lparr>amplifier_muted := c\<rparr>) = validate_route s"
  "validate_route (s\<lparr>online := c\<rparr>) = validate_route s"
  "validate_route (s\<lparr>sync := d\<rparr>) = validate_route s"
  "validate_route (s\<lparr>current_epoch := f\<rparr>) = validate_route s"
  by (rule validate_route_cong; simp)+

lemma sync_ok_frame [simp]:
  "sync_ok (s\<lparr>phase := a\<rparr>) = sync_ok s"
  "sync_ok (s\<lparr>pending := b\<rparr>) = sync_ok s"
  "sync_ok (s\<lparr>active := b\<rparr>) = sync_ok s"
  "sync_ok (s\<lparr>amplifier_muted := c\<rparr>) = sync_ok s"
  "sync_ok (s\<lparr>power_status := e\<rparr>) = sync_ok s"
  "sync_ok (s\<lparr>current_epoch := f\<rparr>) = sync_ok s"
  by (auto simp: fun_eq_iff sync_ok_def)

lemma validate_route_power:
  assumes "validate_route s route clock roles = Ok ()"
    and "route = WirelessNetwork \<Longrightarrow> detached_power_is_sufficient (s\<lparr>power_status := p\<rparr>)"
  shows "validate_route (s\<lparr>power_status := p\<rparr>) route clock roles = Ok ()"
  using assms by (cases route) (auto simp: validate_route_def split: if_splits)

lemma wireless_needs_detached:
  "validate_route s WirelessNetwork clock roles = Ok () \<Longrightarrow> attachment s = Detached"
  by (auto simp: validate_route_def split: if_splits)

lemma fail_closed_inv [simp]: "module_id s \<noteq> [] \<Longrightarrow> endpoint_inv (snd (fail_closed fault s))"
  by (simp add: fail_closed_def endpoint_inv_def)

lemma endpoint_new_inv: "endpoint_new mid caps pol = Ok s \<Longrightarrow> endpoint_inv s"
  by (auto simp: endpoint_new_def endpoint_inv_def split: if_splits)

lemma route_live_power:
  assumes "route_live s r"
    and "er_route r = WirelessNetwork \<Longrightarrow> detached_power_is_sufficient (s\<lparr>power_status := p\<rparr>)"
  shows "route_live (s\<lparr>power_status := p\<rparr>) r"
  using assms by (auto simp: route_live_def intro: validate_route_power)

lemma update_power_inv:
  assumes inv: "endpoint_inv s"
  shows "endpoint_inv (snd (update_power p s))"
proof (cases "power_valid p \<and> \<not> (requires_battery (s\<lparr>power_status := p\<rparr>)
    \<and> \<not> detached_power_is_sufficient (s\<lparr>power_status := p\<rparr>))")
  case False
  with inv show ?thesis
    by (auto simp: update_power_def Let_def endpoint_inv_def fail_closed_def)
next
  case True
  have live: "route_live (s\<lparr>power_status := p\<rparr>) r"
    if r: "route_live s r" "pending s = Some r \<or> active s = Some r" for r
  proof (rule route_live_power [OF r(1)])
    assume w: "er_route r = WirelessNetwork"
    with r(1) have "attachment s = Detached"
      by (auto simp: route_live_def intro: wireless_needs_detached)
    with w r(2) True show "detached_power_is_sufficient (s\<lparr>power_status := p\<rparr>)"
      by (auto simp: requires_battery_def is_network_route_def detached_power_is_sufficient_def
          split: if_splits)
  qed
  have "endpoint_inv (s\<lparr>power_status := p\<rparr>)"
    using inv live by (cases "phase s") (auto simp: endpoint_inv_def is_some_and_iff)
  with True show ?thesis by (auto simp: update_power_def Let_def)
qed

lemma update_attachment_inv: "endpoint_inv s \<Longrightarrow> endpoint_inv (snd (update_attachment a s))"
  by (cases "phase s") (auto simp: update_attachment_def Let_def endpoint_inv_def fail_closed_def)

lemma update_sync_inv:
  assumes inv: "endpoint_inv s"
  shows "endpoint_inv (snd (update_sync y s))"
  using inv
  by (cases "phase s")
    (auto simp: update_sync_def Let_def is_ok_iff sync_is_sufficient_iff endpoint_inv_def
      is_some_and_iff fail_closed_def route_live_def)

lemma set_online_inv: "endpoint_inv s \<Longrightarrow> endpoint_inv (snd (set_online b s))"
  by (cases "phase s")
    (auto simp: set_online_def Let_def endpoint_inv_def is_some_and_iff fail_closed_def
      route_live_def sync_ok_def)

lemma recover_to_muted_inv: "endpoint_inv s \<Longrightarrow> endpoint_inv (snd (recover_to_muted s))"
  by (cases "phase s") (auto simp: endpoint_inv_def recover_to_muted_def route_live_def)

lemma apply_mute_inv: "endpoint_inv s \<Longrightarrow> endpoint_inv (snd (apply_mute epoch s))"
  by (auto simp: apply_mute_def endpoint_inv_def)

lemma apply_stop_inv: "endpoint_inv s \<Longrightarrow> endpoint_inv (snd (apply_stop epoch s))"
  by (auto simp: apply_stop_def require_epoch_def endpoint_inv_def)

lemma apply_commit_inv: "endpoint_inv s \<Longrightarrow> endpoint_inv (snd (apply_commit epoch s))"
  by (cases "sync_is_sufficient s")
    (auto simp: apply_commit_def require_epoch_def endpoint_inv_def is_some_and_iff route_live_def)

lemma apply_prepare_inv:
  assumes inv: "endpoint_inv s"
  shows "endpoint_inv (snd (apply_prepare epoch route clock roles s))"
proof (cases "validate_route s route clock roles")
  case (Ok u)
  with inv show ?thesis
    by (auto simp: apply_prepare_def require_epoch_def endpoint_inv_def route_live_def)
next
  case (Err e)
  with inv show ?thesis by (simp add: apply_prepare_def require_epoch_def)
next
  case Panic
  then show ?thesis using validate_route_no_panic by metis
qed

lemma apply_arm_inv:
  assumes inv: "endpoint_inv s"
  shows "endpoint_inv (snd (apply_arm epoch start s))"
proof (cases "phase s = Prepared \<and> start \<noteq> 0 \<and> sync_is_sufficient s = Ok ()")
  case True
  then obtain r where r: "pending s = Some r" "sync_ok s r"
    using inv by (auto simp: sync_is_sufficient_iff endpoint_inv_def is_some_and_iff)
  with True inv show ?thesis
    by (auto simp: apply_arm_def require_epoch_def endpoint_inv_def scheduled_def sync_ok_def
        route_live_def)
next
  case False
  with inv show ?thesis
    by (cases "sync_is_sufficient s") (auto simp: apply_arm_def require_epoch_def)
qed

lemma endpoint_apply_inv: "endpoint_inv s \<Longrightarrow> endpoint_inv (snd (endpoint_apply c s))"
  by (cases c)
    (simp_all add: endpoint_apply_def apply_mute_inv apply_prepare_inv apply_arm_inv
      apply_commit_inv apply_stop_inv)

lemma on_media_frame_inv:
  assumes inv: "endpoint_inv s"
  shows "endpoint_inv (snd (on_media_frame n s))"
proof (cases "phase s = Committed")
  case True
  then obtain r f where r: "pending s = Some r" "er_start_frame r = Some f" "sync_ok s r"
      "route_live s r" "f \<noteq> 0"
    using inv by (auto simp: endpoint_inv_def is_some_and_iff scheduled_def)
  with True inv show ?thesis
    by (cases "sync_is_sufficient s")
      (auto simp: on_media_frame_def fail_closed_def endpoint_inv_def scheduled_def route_live_def)
next
  case False
  with inv show ?thesis by (simp add: on_media_frame_def)
qed

lemma endpoint_step_inv: "endpoint_inv s \<Longrightarrow> endpoint_inv (snd (endpoint_step op s))"
  by (cases op)
    (simp_all add: update_power_inv update_attachment_inv update_sync_inv set_online_inv
      report_stream_underflow_def recover_to_muted_inv endpoint_apply_inv on_media_frame_inv
      endpoint_inv_def [THEN iffD1, THEN conjunct1])

lemma endpoint_run_inv: "endpoint_inv s \<Longrightarrow> endpoint_inv (endpoint_run ops s)"
  by (induction ops arbitrary: s) (simp_all add: endpoint_step_inv)

section \<open>Frame facts of the steps\<close>

lemma fail_closed_fields [simp]:
  "module_id (snd (fail_closed fault s)) = module_id s"
  "phase (snd (fail_closed fault s)) = Fault"
  "current_epoch (snd (fail_closed fault s)) = current_epoch s"
  "amplifier_muted (snd (fail_closed fault s))"
  "fst (fail_closed fault s) = [SetAmplifierMute True, StopPlayout]"
  by (simp_all add: fail_closed_def)

lemma endpoint_step_module_id [simp]: "module_id (snd (endpoint_step op s)) = module_id s"
proof (cases op)
  case (Apply c)
  then show ?thesis
    by (cases c) (auto simp: endpoint_commands split: outcome_split)
qed (auto simp: endpoint_methods split: outcome_split)

lemma endpoint_run_module_id [simp]: "module_id (endpoint_run ops s) = module_id s"
  by (induction ops arbitrary: s) simp_all

text \<open>Which operation can have led into each phase; commands first.\<close>

lemma endpoint_apply_Ok:
  assumes "endpoint_apply c s = (Ok acts, s')"
  shows "phase s \<noteq> Fault \<and> fst (command_identity c) = module_id s"
  using assms by (auto simp: endpoint_apply_def Let_def split: prod.splits if_splits)

lemma require_epoch_Ok [simp]: "require_epoch s e = Ok u \<longleftrightarrow> current_epoch s = Some e"
  by (simp add: require_epoch_def)

lemma require_epoch_no_panic [simp]: "require_epoch s e \<noteq> Panic"
  by (simp add: require_epoch_def)

lemma apply_prepare_Ok:
  "apply_prepare epoch route clock roles s = (Ok acts, s') \<longleftrightarrow>
     current_epoch s = Some epoch \<and> phase s = Muted
     \<and> validate_route s route clock roles = Ok ()
     \<and> acts = [ConfigureRoute route clock roles]
     \<and> s' = s\<lparr>pending := Some \<lparr>er_epoch = epoch, er_route = route, er_clock_source = clock,
                er_roles = roles, er_start_frame = None\<rparr>, phase := Prepared\<rparr>"
  by (cases "require_epoch s epoch"; cases "validate_route s route clock roles")
    (auto simp: apply_prepare_def require_epoch_def split: if_splits)

lemma apply_arm_Ok:
  "apply_arm epoch start s = (Ok acts, s') \<longleftrightarrow>
     current_epoch s = Some epoch \<and> phase s = Prepared \<and> start \<noteq> 0
     \<and> sync_is_sufficient s = Ok () \<and> acts = [ArmPlayout start]
     \<and> (\<exists>p. pending s = Some p
          \<and> s' = s\<lparr>pending := Some (p\<lparr>er_start_frame := Some start\<rparr>), phase := Armed\<rparr>)"
  by (cases "require_epoch s epoch"; cases "sync_is_sufficient s"; cases "pending s")
    (auto simp: apply_arm_def require_epoch_def split: if_splits)

lemma apply_commit_Ok:
  "apply_commit epoch s = (Ok acts, s') \<longleftrightarrow>
     current_epoch s = Some epoch \<and> phase s = Armed \<and> sync_is_sufficient s = Ok () \<and> acts = []
     \<and> s' = s\<lparr>phase := Committed, amplifier_muted := True\<rparr>"
  by (cases "require_epoch s epoch"; cases "sync_is_sufficient s")
    (auto simp: apply_commit_def require_epoch_def split: if_splits)

lemma apply_stop_Ok:
  "apply_stop epoch s = (Ok acts, s') \<longleftrightarrow>
     current_epoch s = Some epoch \<and> acts = [SetAmplifierMute True, StopPlayout]
     \<and> s' = s\<lparr>pending := None, active := None, phase := Muted, amplifier_muted := True\<rparr>"
  by (cases "require_epoch s epoch") (auto simp: apply_stop_def require_epoch_def split: if_splits)

lemma apply_mute_Ok:
  "apply_mute epoch s = (Ok acts, s') \<longleftrightarrow>
     \<not> is_some_and (\<lambda>current. epoch \<le> current) (current_epoch s)
     \<and> acts = [SetAmplifierMute True, StopPlayout]
     \<and> s' = s\<lparr>current_epoch := Some epoch, pending := None, active := None, phase := Muted,
               amplifier_muted := True\<rparr>"
  by (auto simp: apply_mute_def)

lemmas endpoint_commands_Ok =
  apply_mute_Ok apply_prepare_Ok apply_arm_Ok apply_commit_Ok apply_stop_Ok

lemma apply_mute_atomic: "atomic_call s (apply_mute epoch s)"
  by (simp add: apply_mute_def)

lemma apply_prepare_atomic: "atomic_call s (apply_prepare epoch route clock roles s)"
  using validate_route_no_panic [of s route clock roles]
  by (simp add: apply_prepare_def split: outcome.split)

lemma apply_arm_atomic: "atomic_call s (apply_arm epoch start s)"
  using sync_is_sufficient_no_panic [of s]
  by (simp add: apply_arm_def split: outcome.split option.split)

lemma apply_commit_atomic: "atomic_call s (apply_commit epoch s)"
  using sync_is_sufficient_no_panic [of s]
  by (simp add: apply_commit_def split: outcome.split)

lemma apply_stop_atomic: "atomic_call s (apply_stop epoch s)"
  by (simp add: apply_stop_def split: outcome.split)

lemma endpoint_apply_atomic: "atomic_call s (endpoint_apply c s)"
  by (cases c)
    (simp_all add: endpoint_apply_def apply_mute_atomic apply_prepare_atomic apply_arm_atomic
      apply_commit_atomic apply_stop_atomic)

lemma on_media_frame_atomic: "atomic_call s (on_media_frame n s)"
  using sync_is_sufficient_no_panic [of s]
  by (simp add: on_media_frame_def split: outcome.split option.split prod.split)

lemma update_power_atomic: "atomic_call s (update_power p s)"
  by (simp add: update_power_def Let_def split: prod.split)

lemma recover_to_muted_atomic: "atomic_call s (recover_to_muted s)"
  by (simp add: recover_to_muted_def)

lemma on_media_frame_cases:
  assumes inv: "endpoint_inv s"
  shows "on_media_frame n s =
    (if phase s \<noteq> Committed then (Ok [], s)
     else case pending s of None \<Rightarrow> (Ok [], s)
     | Some r \<Rightarrow>
         if n < the (er_start_frame r) then (Ok [], s)
         else if the (er_start_frame r) < n then apfst Ok (fail_closed MissedStartFrame s)
         else (Ok [StartPlayout, SetAmplifierMute False],
               s\<lparr>pending := None, active := Some r, phase := Playing, amplifier_muted := False\<rparr>))"
proof (cases "phase s = Committed")
  case True
  then obtain r f where "pending s = Some r" "er_start_frame r = Some f" "sync_ok s r"
    using inv by (auto simp: endpoint_inv_def is_some_and_iff scheduled_def)
  moreover from this have "sync_is_sufficient s = Ok ()" by (simp add: sync_is_sufficient_iff)
  ultimately show ?thesis using True by (simp add: on_media_frame_def fail_closed_def)
next
  case False
  then show ?thesis by (simp add: on_media_frame_def)
qed

section \<open>The handshake: an abstract machine the endpoint refines\<close>

text \<open>
  What the contract promises, without telemetry or policies: a route exists only between a
  \<open>Prepare\<close> and the next mute, stop or fault, and it becomes audible only by
  \<open>Mute\<close>, \<open>Prepare\<close>, \<open>Arm\<close>, \<open>Commit\<close> of one epoch and the
  scheduled media frame, in this order.  The state is the phase, the current epoch and the
  staged or active route.
\<close>

type_synonym handshake_state = "endpoint_phase \<times> u64 option \<times> endpoint_route option"

inductive handshake_step ::
  "string \<Rightarrow> endpoint_op \<Rightarrow> handshake_state \<Rightarrow> handshake_state \<Rightarrow> bool" for m where
  hs_mute: "\<lbrakk> ph \<noteq> Fault; \<forall>e0. ep = Some e0 \<longrightarrow> e0 < e \<rbrakk> \<Longrightarrow>
    handshake_step m (Apply (Mute m e)) (ph, ep, r) (Muted, Some e, None)"
| hs_prepare:
    "handshake_step m (Apply (Prepare m e rt ck roles)) (Muted, Some e, None)
       (Prepared, Some e, Some \<lparr>er_epoch = e, er_route = rt, er_clock_source = ck,
                                 er_roles = roles, er_start_frame = None\<rparr>)"
| hs_arm: "\<lbrakk> f \<noteq> 0; er_epoch r = e \<rbrakk> \<Longrightarrow>
    handshake_step m (Apply (Arm m e f)) (Prepared, Some e, Some r)
       (Armed, Some e, Some (r\<lparr>er_start_frame := Some f\<rparr>))"
| hs_commit: "er_epoch r = e \<Longrightarrow>
    handshake_step m (Apply (Commit m e)) (Armed, Some e, Some r) (Committed, Some e, Some r)"
| hs_start: "er_start_frame r = Some f \<Longrightarrow>
    handshake_step m (OnMediaFrame f) (Committed, ep, Some r) (Playing, ep, Some r)"
| hs_stop: "ph \<noteq> Fault \<Longrightarrow>
    handshake_step m (Apply (Stop m e)) (ph, Some e, r) (Muted, Some e, None)"
| hs_fault: "\<lbrakk> op \<notin> range Apply; op \<noteq> RecoverToMuted \<rbrakk> \<Longrightarrow>
    handshake_step m op (ph, ep, r) (Fault, ep, None)"
| hs_recover: "handshake_step m RecoverToMuted (Fault, ep, None) (Muted, None, None)"
| hs_stay: "handshake_step m op a a"

definition current_route :: "detachable_endpoint \<Rightarrow> endpoint_route option" where
  "current_route s = (case pending s of Some r \<Rightarrow> Some r | None \<Rightarrow> active s)"

definition endpoint_abs :: "detachable_endpoint \<Rightarrow> handshake_state" where
  "endpoint_abs s = (phase s, current_epoch s, current_route s)"

lemma endpoint_abs_fail_closed [simp]:
  "endpoint_abs (snd (fail_closed fault s)) = (Fault, current_epoch s, None)"
  by (simp add: endpoint_abs_def current_route_def fail_closed_def)

lemma endpoint_abs_frame [simp]:
  "endpoint_abs (s\<lparr>power_status := p\<rparr>) = endpoint_abs s"
  "endpoint_abs (s\<lparr>attachment := a\<rparr>) = endpoint_abs s"
  "endpoint_abs (s\<lparr>sync := y\<rparr>) = endpoint_abs s"
  "endpoint_abs (s\<lparr>online := b\<rparr>) = endpoint_abs s"
  by (simp_all add: endpoint_abs_def current_route_def split: option.split)

lemma handshake_fault:
  "op \<notin> range Apply \<Longrightarrow> op \<noteq> RecoverToMuted \<Longrightarrow>
    handshake_step m op (endpoint_abs s) (Fault, current_epoch s, None)"
  unfolding endpoint_abs_def by (rule hs_fault)

lemma endpoint_apply_simulates:
  assumes inv: "endpoint_inv s" and ok: "endpoint_apply c s = (Ok acts, s')"
  shows "handshake_step (module_id s) (Apply c) (endpoint_abs s) (endpoint_abs s')"
proof -
  have nf: "phase s \<noteq> Fault" and id: "fst (command_identity c) = module_id s"
    using endpoint_apply_Ok [OF ok] by auto
  show ?thesis
  proof (cases c)
    case (Mute m e)
    with ok nf id show ?thesis
      by (auto simp: endpoint_apply_def apply_mute_Ok endpoint_abs_def current_route_def
          is_some_and_iff not_le intro: hs_mute)
  next
    case (Prepare m e rt ck roles)
    with ok nf id have "apply_prepare e rt ck roles s = (Ok acts, s')"
      by (simp add: endpoint_apply_def)
    moreover from this inv have "endpoint_abs s = (Muted, Some e, None)"
      by (simp add: apply_prepare_Ok endpoint_abs_def current_route_def endpoint_inv_def)
    ultimately show ?thesis
      using Prepare id hs_prepare [of "module_id s" e rt ck roles]
      by (simp add: apply_prepare_Ok endpoint_abs_def current_route_def)
  next
    case (Arm m e f)
    with ok nf id inv show ?thesis
      by (auto simp: endpoint_apply_def apply_arm_Ok endpoint_abs_def current_route_def
          endpoint_inv_def route_live_def intro!: hs_arm)
  next
    case (Commit m e)
    with ok nf id inv show ?thesis
      by (auto simp: endpoint_apply_def apply_commit_Ok endpoint_abs_def current_route_def
          endpoint_inv_def route_live_def is_some_and_iff intro!: hs_commit)
  next
    case (Stop m e)
    with ok nf id show ?thesis
      by (auto simp: endpoint_apply_def apply_stop_Ok endpoint_abs_def current_route_def
          intro: hs_stop)
  qed
qed

lemma on_media_frame_simulates:
  assumes inv: "endpoint_inv s"
  shows "handshake_step (module_id s) (OnMediaFrame n) (endpoint_abs s)
    (endpoint_abs (snd (on_media_frame n s)))"
proof (cases "phase s = Committed")
  case True
  then obtain r f where r: "pending s = Some r" "er_start_frame r = Some f"
    using inv by (auto simp: endpoint_inv_def is_some_and_iff scheduled_def)
  with True have abs: "endpoint_abs s = (Committed, current_epoch s, Some r)"
    by (simp add: endpoint_abs_def current_route_def)
  have "endpoint_abs (s\<lparr>pending := None, active := Some r, phase := Playing,
      amplifier_muted := False\<rparr>) = (Playing, current_epoch s, Some r)"
    by (simp add: endpoint_abs_def current_route_def)
  with True r abs show ?thesis
    using hs_start [OF r(2), of "module_id s" "current_epoch s"]
      hs_fault [of "OnMediaFrame n" "module_id s" Committed "current_epoch s" "Some r"]
    by (auto simp: on_media_frame_cases [OF inv] intro: hs_stay)
next
  case False
  then show ?thesis by (auto simp: on_media_frame_def intro: hs_stay)
qed

lemma endpoint_step_simulates:
  assumes inv: "endpoint_inv s"
  shows "handshake_step (module_id s) op (endpoint_abs s) (endpoint_abs (snd (endpoint_step op s)))"
proof (cases op)
  case (UpdatePower p)
  then show ?thesis
    by (auto simp: update_power_def Let_def intro: hs_stay handshake_fault)
next
  case (UpdateAttachment a)
  then show ?thesis
    by (auto simp: update_attachment_def Let_def intro: hs_stay handshake_fault)
next
  case (UpdateSync y)
  then show ?thesis
    by (auto simp: update_sync_def Let_def intro: hs_stay handshake_fault)
next
  case (SetOnline b)
  then show ?thesis
    by (auto simp: set_online_def Let_def intro: hs_stay handshake_fault)
next
  case ReportStreamUnderflow
  then show ?thesis by (auto simp: report_stream_underflow_def intro: handshake_fault)
next
  case RecoverToMuted
  show ?thesis
  proof (cases "phase s = Fault")
    case True
    with inv have "endpoint_abs s = (Fault, current_epoch s, None)"
      by (simp add: endpoint_abs_def current_route_def endpoint_inv_def)
    with True RecoverToMuted show ?thesis
      by (auto simp: recover_to_muted_def endpoint_abs_def current_route_def intro: hs_recover)
  qed (auto simp: RecoverToMuted recover_to_muted_def intro: hs_stay)
next
  case (Apply c)
  show ?thesis
  proof (cases "fst (endpoint_apply c s)")
    case (Ok acts)
    then show ?thesis
      using Apply endpoint_apply_simulates [OF inv, of c acts] by (metis endpoint_step.simps(7)
          prod.collapse)
  next
    case (Err e)
    then show ?thesis
      using Apply endpoint_apply_atomic [of s c] by (simp add: atomic_call_def hs_stay)
  next
    case Panic
    then show ?thesis
      using endpoint_apply_atomic [of s c] by (simp add: atomic_call_def)
  qed
next
  case (OnMediaFrame n)
  with inv show ?thesis by (simp add: on_media_frame_simulates)
qed

section \<open>Traces of the abstract machine\<close>

inductive_cases handshake_stepE: "handshake_step m op a b"

fun handshake_len :: "endpoint_phase \<Rightarrow> nat" where
  "handshake_len Prepared = 2"
| "handshake_len Armed = 3"
| "handshake_len Committed = 4"
| "handshake_len Playing = 5"
| "handshake_len _ = 0"

definition handshake_of :: "string \<Rightarrow> endpoint_route \<Rightarrow> endpoint_op list" where
  "handshake_of m r =
     [Apply (Mute m (er_epoch r)),
      Apply (Prepare m (er_epoch r) (er_route r) (er_clock_source r) (er_roles r)),
      Apply (Arm m (er_epoch r) (the (er_start_frame r))),
      Apply (Commit m (er_epoch r)),
      OnMediaFrame (the (er_start_frame r))]"

text \<open>What a trace has seen when the machine is in a given abstract state.\<close>

definition handshake_seen :: "string \<Rightarrow> endpoint_op list \<Rightarrow> handshake_state \<Rightarrow> bool" where
  "handshake_seen m ops a =
     (case a of (ph, ep, r) \<Rightarrow>
        (\<forall>e. ep = Some e \<longrightarrow> Apply (Mute m e) \<in> set ops)
        \<and> (\<forall>x. r = Some x \<longrightarrow> subseq (take (handshake_len ph) (handshake_of m x)) ops))"

lemma subseq_snoc_keep: "subseq xs ys \<Longrightarrow> subseq xs (ys @ [y])"
  by (rule list_emb_prefix)

lemma subseq_snoc_both: "subseq xs ys \<Longrightarrow> subseq (xs @ [y]) (ys @ [y])"
  by (simp add: list_emb_append_mono)

lemma handshake_seen_step:
  assumes "handshake_step m op a b" and "handshake_seen m ops a"
  shows "handshake_seen m (ops @ [op]) b"
  using assms
proof (induction rule: handshake_step.induct)
  case (hs_prepare e rt ck roles)
  then have "subseq [Apply (Mute m e)] ops"
    by (simp add: handshake_seen_def subseq_singleton_left)
  from subseq_snoc_both [OF this] hs_prepare show ?case
    by (auto simp: handshake_seen_def handshake_of_def numeral_2_eq_2)
next
  case (hs_arm f r e)
  then have "subseq [Apply (Mute m e),
      Apply (Prepare m e (er_route r) (er_clock_source r) (er_roles r))] ops"
    by (simp add: handshake_seen_def handshake_of_def numeral_eq_Suc)
  from subseq_snoc_both [OF this, of "Apply (Arm m e f)"] hs_arm show ?case
    by (auto simp: handshake_seen_def handshake_of_def numeral_eq_Suc)
next
  case (hs_commit r e)
  then have "subseq (take 3 (handshake_of m r)) ops" by (simp add: handshake_seen_def)
  from subseq_snoc_both [OF this, of "Apply (Commit m e)"] hs_commit show ?case
    by (auto simp: handshake_seen_def handshake_of_def numeral_eq_Suc)
next
  case (hs_start r f ep)
  then have "subseq (take 4 (handshake_of m r)) ops" by (simp add: handshake_seen_def)
  from subseq_snoc_both [OF this, of "OnMediaFrame f"] hs_start show ?case
    by (auto simp: handshake_seen_def handshake_of_def numeral_eq_Suc)
qed (auto simp: handshake_seen_def intro: subseq_snoc_keep)

lemma endpoint_run_handshake_seen:
  assumes "endpoint_inv s" and "handshake_seen (module_id s) [] (endpoint_abs s)"
  shows "handshake_seen (module_id s) ops (endpoint_abs (endpoint_run ops s))"
proof (induction ops rule: rev_induct)
  case Nil
  from assms(2) show ?case by simp
next
  case (snoc op ops)
  have "endpoint_inv (endpoint_run ops s)" by (rule endpoint_run_inv [OF assms(1)])
  from endpoint_step_simulates [OF this, of op] snoc.IH
  have "handshake_seen (module_id s) (ops @ [op])
      (endpoint_abs (snd (endpoint_step op (endpoint_run ops s))))"
    by (simp add: handshake_seen_step)
  then show ?case by (simp add: endpoint_run_append)
qed

lemma endpoint_new_fields:
  "endpoint_new mid caps pol = Ok s \<Longrightarrow>
    module_id s = mid \<and> handshake_seen mid [] (endpoint_abs s) \<and> amplifier_muted s
    \<and> phase s = BootMuted \<and> current_epoch s = None"
  by (auto simp: endpoint_new_def handshake_seen_def endpoint_abs_def current_route_def
      split: if_splits)

section \<open>Amplifier actions\<close>

text \<open>The state of a hardware mute line that obeys the emitted actions.\<close>

fun mute_line :: "bool \<Rightarrow> actions \<Rightarrow> bool" where
  "mute_line b [] = b"
| "mute_line b (SetAmplifierMute c # acts) = mute_line c acts"
| "mute_line b (_ # acts) = mute_line b acts"

lemma mute_line_append: "mute_line b (xs @ ys) = mute_line (mute_line b xs) ys"
  by (induction b xs rule: mute_line.induct) simp_all

lemma endpoint_apply_mute_line:
  assumes "endpoint_inv s" and "endpoint_apply c s = (Ok acts, s')"
  shows "mute_line (amplifier_muted s) acts = amplifier_muted s'"
proof (cases c)
  case (Mute m e)
  with assms endpoint_apply_Ok [OF assms(2)] show ?thesis
    by (auto simp: endpoint_apply_def apply_mute_Ok)
next
  case (Prepare m e rt ck roles)
  with assms endpoint_apply_Ok [OF assms(2)] show ?thesis
    by (auto simp: endpoint_apply_def apply_prepare_Ok)
next
  case (Arm m e f)
  with assms endpoint_apply_Ok [OF assms(2)] show ?thesis
    by (auto simp: endpoint_apply_def apply_arm_Ok)
next
  case (Commit m e)
  with assms endpoint_apply_Ok [OF assms(2)] show ?thesis
    by (auto simp: endpoint_apply_def apply_commit_Ok endpoint_inv_def)
next
  case (Stop m e)
  with assms endpoint_apply_Ok [OF assms(2)] show ?thesis
    by (auto simp: endpoint_apply_def apply_stop_Ok)
qed

lemma endpoint_step_atomic: "atomic_call s (endpoint_step op s)"
  by (cases op)
    (simp_all add: update_power_atomic recover_to_muted_atomic endpoint_apply_atomic
      on_media_frame_atomic)

lemma endpoint_step_mute_line:
  assumes inv: "endpoint_inv s"
  shows "mute_line (amplifier_muted s) (emitted (fst (endpoint_step op s)))
       = amplifier_muted (snd (endpoint_step op s))"
proof (cases "fst (endpoint_step op s)")
  case (Ok acts)
  show ?thesis
  proof (cases op)
    case (Apply c)
    with Ok endpoint_apply_mute_line [OF inv, of c acts] show ?thesis
      by (cases "endpoint_apply c s") auto
  next
    case (OnMediaFrame n)
    with inv show ?thesis
      by (simp add: on_media_frame_cases [OF inv] split: option.split)
  qed (auto simp: update_power_def update_attachment_def update_sync_def set_online_def
      report_stream_underflow_def recover_to_muted_def Let_def)
next
  case (Err e)
  with endpoint_step_atomic [of s op] show ?thesis by (simp add: atomic_call_def)
next
  case Panic
  with endpoint_step_atomic [of s op] show ?thesis by (simp add: atomic_call_def)
qed

lemma endpoint_step_fault:
  assumes "phase s = Fault" "amplifier_muted s" "RecoverToMuted \<noteq> op"
  shows "phase (snd (endpoint_step op s)) = Fault \<and> amplifier_muted (snd (endpoint_step op s))"
  using assms
  by (cases op)
    (auto simp: update_power_def update_attachment_def update_sync_def set_online_def
      report_stream_underflow_def endpoint_apply_def on_media_frame_def Let_def)

lemma endpoint_step_epoch:
  assumes "endpoint_inv s" and "op \<noteq> RecoverToMuted" and "current_epoch s = Some e"
  shows "\<exists>e'. current_epoch (snd (endpoint_step op s)) = Some e' \<and> e \<le> e'"
  using endpoint_step_simulates [OF assms(1), of op] assms(2,3)
  by (auto simp: endpoint_abs_def elim!: handshake_stepE)

section \<open>Properties\<close>

text \<open>A concrete module and commands, for the witnesses.\<close>

definition pod_capabilities :: speaker_module_capabilities where
  "pod_capabilities =
     \<lparr>output_lanes = 2, dock_pcm = True, wired_network_audio = True,
      wireless_network_audio = True, battery_powered = True\<rparr>"

definition ptp_sync :: module_sync_status where
  "ptp_sync = \<lparr>locked = True, scheduled_playout = True, estimated_skew_micros = Some 180,
               clock_source = Ptp\<rparr>"

definition pod_endpoint :: detachable_endpoint where
  "pod_endpoint =
     \<lparr>module_id = ''left-pod'', capabilities = pod_capabilities,
      policy = default_endpoint_policy, attachment = Detached,
      power_status = \<lparr>external_power = False, battery_percent = None, charging = False\<rparr>,
      sync = \<lparr>locked = False, scheduled_playout = False, estimated_skew_micros = None,
              clock_source = Unlocked\<rparr>,
      phase = BootMuted, current_epoch = None, pending = None, active = None,
      amplifier_muted = True, online = True, last_fault = None\<rparr>"

definition pod_start_ops :: "endpoint_op list" where
  "pod_start_ops =
     [UpdatePower \<lparr>external_power = False, battery_percent = Some 80, charging = False\<rparr>,
      UpdateSync ptp_sync,
      Apply (Mute ''left-pod'' 7),
      Apply (Prepare ''left-pod'' 7 WirelessNetwork Ptp [SurroundLeft]),
      Apply (Arm ''left-pod'' 7 4800),
      Apply (Commit ''left-pod'' 7),
      OnMediaFrame 4800]"

lemma pod_endpoint_new:
  "endpoint_new ''left-pod'' pod_capabilities default_endpoint_policy = Ok pod_endpoint"
  by (simp add: endpoint_new_def pod_endpoint_def power_unknown_def)

lemmas pod_simps =
  pod_endpoint_def pod_start_ops_def pod_capabilities_def ptp_sync_def
  default_endpoint_policy_def endpoint_methods endpoint_guards power_valid_def

lemma pod_plays:
  "phase (endpoint_run pod_start_ops pod_endpoint) = Playing"
  "active (endpoint_run pod_start_ops pod_endpoint) =
     Some \<lparr>er_epoch = 7, er_route = WirelessNetwork, er_clock_source = Ptp,
           er_roles = [SurroundLeft], er_start_frame = Some 4800\<rparr>"
  by (simp_all add: pod_simps)

text \<open>
  C1: In every state an endpoint can reach from its constructor by any sequence of telemetry
  updates, commands and media frames, the amplifier is unmuted exactly in the phase
  \<open>Playing\<close>, and there the active route belongs to the current epoch, still passes every
  check of \<open>validate_route\<close> against the present capabilities, attachment and power, and
  has sufficient synchronization evidence.
\<close>

theorem endpoint_reachable_safe:
  assumes "endpoint_new mid caps pol = Ok s0"
  shows "amplifier_muted (endpoint_run ops s0) = (phase (endpoint_run ops s0) \<noteq> Playing) \<and>
    (phase (endpoint_run ops s0) = Playing \<longrightarrow>
       (\<exists>r. active (endpoint_run ops s0) = Some r
          \<and> current_epoch (endpoint_run ops s0) = Some (er_epoch r)
          \<and> validate_route (endpoint_run ops s0) (er_route r) (er_clock_source r) (er_roles r) = Ok ()
          \<and> sync_is_sufficient (endpoint_run ops s0) = Ok ()))"
proof -
  have "endpoint_inv (endpoint_run ops s0)"
    by (rule endpoint_run_inv [OF endpoint_new_inv [OF assms]])
  then show ?thesis
    by (auto simp: endpoint_inv_def is_some_and_iff route_live_def sync_is_sufficient_iff)
qed

theorem endpoint_reachable_safe_witness:
  "\<not> amplifier_muted (endpoint_run pod_start_ops pod_endpoint)
   \<and> sync_is_sufficient (endpoint_run pod_start_ops pod_endpoint) = Ok ()"
  using endpoint_reachable_safe [OF pod_endpoint_new, of pod_start_ops] pod_plays by auto

text \<open>
  C14: An endpoint that plays went through the whole handshake: the operations it received
  contain, in this order, the mute, the prepare with exactly the route, clock and roles that
  play, the arm and the commit of one epoch, addressed to this module, and the media frame it
  was armed for.
\<close>

theorem endpoint_playing_handshake:
  assumes "endpoint_new mid caps pol = Ok s0"
    and "phase (endpoint_run ops s0) = Playing"
  shows "\<exists>r. active (endpoint_run ops s0) = Some r \<and> subseq (handshake_of mid r) ops"
proof -
  have inv: "endpoint_inv s0" by (rule endpoint_new_inv [OF assms(1)])
  have seen: "handshake_seen mid ops (endpoint_abs (endpoint_run ops s0))"
    using endpoint_run_handshake_seen [OF inv, of ops] endpoint_new_fields [OF assms(1)] by simp
  obtain r where r: "active (endpoint_run ops s0) = Some r" "pending (endpoint_run ops s0) = None"
    using endpoint_run_inv [OF inv, of ops] assms(2) by (auto simp: endpoint_inv_def is_some_and_iff)
  with seen assms(2) have "subseq (take 5 (handshake_of mid r)) ops"
    by (simp add: handshake_seen_def endpoint_abs_def current_route_def)
  with r show ?thesis by (simp add: handshake_of_def)
qed

theorem endpoint_playing_handshake_witness:
  "\<exists>r. active (endpoint_run pod_start_ops pod_endpoint) = Some r
     \<and> subseq (handshake_of ''left-pod'' r) pod_start_ops"
  by (rule endpoint_playing_handshake [OF pod_endpoint_new pod_plays(1)])

text \<open>
  C35: The endpoint refines the abstract handshake machine: whatever it has processed before,
  each further operation changes its phase, epoch and route only by a step of
  \<open>handshake_step\<close>.
\<close>

theorem endpoint_refines_handshake:
  assumes "endpoint_new mid caps pol = Ok s0"
  shows "handshake_step mid op (endpoint_abs (endpoint_run ops s0))
           (endpoint_abs (endpoint_run (ops @ [op]) s0))"
proof -
  have "module_id (endpoint_run ops s0) = mid"
    using endpoint_new_fields [OF assms] by simp
  with endpoint_step_simulates [OF endpoint_run_inv [OF endpoint_new_inv [OF assms]], of ops op]
  show ?thesis by (simp add: endpoint_run_append)
qed

theorem endpoint_refines_handshake_witness:
  "handshake_step ''left-pod'' (SetOnline False)
     (endpoint_abs (endpoint_run pod_start_ops pod_endpoint))
     (endpoint_abs (endpoint_run (pod_start_ops @ [SetOnline False]) pod_endpoint))"
  by (rule endpoint_refines_handshake [OF pod_endpoint_new])

text \<open>
  No operation of the endpoint panics, and an operation that returns an error leaves the
  whole endpoint state as it was, so a rejected command cannot unmute it.
\<close>

theorem endpoint_errors_change_nothing: "atomic_call s (endpoint_step op s)"
  by (rule endpoint_step_atomic)

text \<open>
  The actions the endpoint emits drive the amplifier faithfully: a mute line that starts
  muted and obeys the emitted \<open>SetAmplifierMute\<close> actions in order always agrees with the
  \<open>amplifier_muted\<close> field.
\<close>

theorem endpoint_actions_drive_amplifier:
  assumes "endpoint_new mid caps pol = Ok s0"
  shows "mute_line True (endpoint_trace ops s0) = amplifier_muted (endpoint_run ops s0)"
proof -
  have "mute_line (amplifier_muted s) (endpoint_trace ops s) = amplifier_muted (endpoint_run ops s)"
    if "endpoint_inv s" for s
    using that
  proof (induction ops arbitrary: s)
    case (Cons op ops)
    then show ?case
      by (simp add: mute_line_append endpoint_step_mute_line endpoint_step_inv)
  qed simp
  from this [OF endpoint_new_inv [OF assms]] endpoint_new_fields [OF assms] show ?thesis by simp
qed

theorem endpoint_actions_drive_amplifier_witness:
  "mute_line True (endpoint_trace pod_start_ops pod_endpoint)
     = amplifier_muted (endpoint_run pod_start_ops pod_endpoint)"
  by (rule endpoint_actions_drive_amplifier [OF pod_endpoint_new])

text \<open>
  A fault latches: from a muted faulted state, no sequence of operations other than an
  explicit recovery leaves the phase \<open>Fault\<close> or unmutes the amplifier.
\<close>

theorem endpoint_fault_latches:
  assumes "phase s = Fault" and "amplifier_muted s" and "RecoverToMuted \<notin> set ops"
  shows "phase (endpoint_run ops s) = Fault \<and> amplifier_muted (endpoint_run ops s)"
  using assms by (induction ops arbitrary: s) (simp_all add: endpoint_step_fault)

theorem endpoint_fault_latches_witness:
  "phase (endpoint_run pod_start_ops (snd (report_stream_underflow pod_endpoint))) = Fault"
proof -
  have "RecoverToMuted \<notin> set pod_start_ops" by (simp add: pod_start_ops_def)
  moreover have "phase (snd (report_stream_underflow pod_endpoint)) = Fault"
    "amplifier_muted (snd (report_stream_underflow pod_endpoint))"
    by (simp_all add: report_stream_underflow_def)
  ultimately show ?thesis using endpoint_fault_latches by blast
qed

lemma endpoint_handshake_run:
  assumes "phase s \<noteq> Fault" and "\<not> is_some_and (\<lambda>c. e \<le> c) (current_epoch s)" and "f \<noteq> 0"
    and "r = \<lparr>er_epoch = e, er_route = rt, er_clock_source = ck, er_roles = roles,
              er_start_frame = Some f\<rparr>"
    and "validate_route s rt ck roles = Ok ()" and "sync_ok s r"
  shows "endpoint_run (handshake_of (module_id s) r) s = s\<lparr>current_epoch := Some e,
    pending := None, active := Some r, phase := Playing, amplifier_muted := False\<rparr>"
proof -
  define m where "m = module_id s"
  define s1 where "s1 = s\<lparr>current_epoch := Some e, pending := None, active := None,
    phase := Muted, amplifier_muted := True\<rparr>"
  define s2 where "s2 = s1\<lparr>pending := Some (r\<lparr>er_start_frame := None\<rparr>), phase := Prepared\<rparr>"
  define s3 where "s3 = s2\<lparr>pending := Some r, phase := Armed\<rparr>"
  define s4 where "s4 = s3\<lparr>phase := Committed, amplifier_muted := True\<rparr>"
  have sync: "sync_ok s (r\<lparr>er_start_frame := None\<rparr>)" using assms(6) by (simp add: sync_ok_def)
  have 1: "endpoint_apply (Mute m e) s = (Ok [SetAmplifierMute True, StopPlayout], s1)"
    using assms(1,2) by (simp add: endpoint_apply_def apply_mute_def m_def s1_def)
  have 2: "endpoint_apply (Prepare m e rt ck roles) s1 = (Ok [ConfigureRoute rt ck roles], s2)"
    using assms(4,5) by (simp add: endpoint_apply_def apply_prepare_Ok m_def s1_def s2_def)
  have 3: "endpoint_apply (Arm m e f) s2 = (Ok [ArmPlayout f], s3)"
    using assms(3,4) sync
    by (simp add: endpoint_apply_def apply_arm_Ok sync_is_sufficient_iff m_def s1_def s2_def s3_def)
  have 4: "endpoint_apply (Commit m e) s3 = (Ok [], s4)"
    using assms(6)
    by (simp add: endpoint_apply_def apply_commit_Ok sync_is_sufficient_iff m_def s1_def s2_def
        s3_def s4_def)
  have "sync_is_sufficient s4 = Ok ()"
    using assms(6) by (simp add: sync_is_sufficient_iff s4_def s3_def s2_def s1_def)
  then have 5: "on_media_frame f s4 = (Ok [StartPlayout, SetAmplifierMute False],
      s4\<lparr>pending := None, active := Some r, phase := Playing, amplifier_muted := False\<rparr>)"
    using assms(4) by (simp add: on_media_frame_def s4_def s3_def)
  show ?thesis
    using assms(4) 1 2 3 4 5
    by (simp add: handshake_of_def s4_def s3_def s2_def s1_def flip: m_def)
qed

text \<open>
  The handshake is enough: from any unfaulted, online state with locked, scheduled
  synchronization within the skew limit, with a newer epoch, a nonzero start frame and a route
  that passes \<open>validate_route\<close>, the five operations make the endpoint play that route.
\<close>

theorem endpoint_handshake_plays:
  assumes "phase s \<noteq> Fault" and "\<not> is_some_and (\<lambda>c. e \<le> c) (current_epoch s)" and "f \<noteq> 0"
    and "r = \<lparr>er_epoch = e, er_route = rt, er_clock_source = ck, er_roles = roles,
              er_start_frame = Some f\<rparr>"
    and "validate_route s rt ck roles = Ok ()" and "sync_ok s r"
  shows "phase (endpoint_run (handshake_of (module_id s) r) s) = Playing
       \<and> active (endpoint_run (handshake_of (module_id s) r) s) = Some r
       \<and> \<not> amplifier_muted (endpoint_run (handshake_of (module_id s) r) s)"
  using endpoint_handshake_run [OF assms] by simp_all

theorem endpoint_handshake_plays_witness:
  "phase (endpoint_run (handshake_of ''left-pod'' \<lparr>er_epoch = 9, er_route = WirelessNetwork,
      er_clock_source = Ptp, er_roles = [SurroundLeft, TopRearLeft], er_start_frame = Some 96000\<rparr>)
      (endpoint_run pod_start_ops pod_endpoint)) = Playing"
proof -
  let ?s = "endpoint_run pod_start_ops pod_endpoint"
  let ?r = "\<lparr>er_epoch = 9, er_route = WirelessNetwork, er_clock_source = Ptp,
    er_roles = [SurroundLeft, TopRearLeft], er_start_frame = Some 96000\<rparr>"
  have "phase ?s \<noteq> Fault" "\<not> is_some_and (\<lambda>c. 9 \<le> c) (current_epoch ?s)" "(96000 :: u64) \<noteq> 0"
    "validate_route ?s WirelessNetwork Ptp [SurroundLeft, TopRearLeft] = Ok ()"
    "sync_ok ?s ?r" "module_id ?s = ''left-pod''"
    by (simp_all add: pod_simps sync_ok_def)
  then show ?thesis using endpoint_handshake_plays [OF _ _ _ refl] by metis
qed

text \<open>
  Epochs only grow between recoveries: as long as no recovery is requested, the current
  epoch of a reachable endpoint never decreases, so a command of an older epoch is rejected.
\<close>

theorem endpoint_epoch_monotone:
  assumes "endpoint_new mid caps pol = Ok s0" and "RecoverToMuted \<notin> set later"
    and "current_epoch (endpoint_run ops s0) = Some e"
  shows "\<exists>e'. current_epoch (endpoint_run (ops @ later) s0) = Some e' \<and> e \<le> e'"
proof -
  have "\<exists>e'. current_epoch (endpoint_run later s) = Some e' \<and> e \<le> e'"
    if "endpoint_inv s" "current_epoch s = Some e" for s
    using that assms(2)
  proof (induction later arbitrary: s e)
    case (Cons op later)
    from endpoint_step_epoch [OF Cons.prems(1) _ Cons.prems(2), of op] Cons.prems(3)
    obtain e1 where e1: "current_epoch (snd (endpoint_step op s)) = Some e1" "e \<le> e1" by auto
    from Cons.IH [OF endpoint_step_inv [OF Cons.prems(1)] e1(1)] Cons.prems(3) e1(2)
    show ?case by (auto intro: order_trans)
  qed simp
  from this [OF endpoint_run_inv [OF endpoint_new_inv [OF assms(1)]] assms(3)] show ?thesis
    by (simp add: endpoint_run_append)
qed

theorem endpoint_epoch_monotone_witness:
  "\<exists>e'. current_epoch (endpoint_run (pod_start_ops @ [Apply (Mute ''left-pod'' 3)]) pod_endpoint)
       = Some e' \<and> 7 \<le> e'"
proof -
  have "current_epoch (endpoint_run pod_start_ops pod_endpoint) = Some 7"
    by (simp add: pod_simps)
  then show ?thesis
    using endpoint_epoch_monotone [OF pod_endpoint_new, of "[Apply (Mute ''left-pod'' 3)]"
        pod_start_ops 7] by simp
qed

text \<open>
  Recovery forgets the epoch: after \<open>recover_to_muted\<close> a mute of any epoch, also one
  the endpoint has already used, is accepted.
\<close>

theorem endpoint_recovery_accepts_any_epoch:
  assumes "phase s = Fault"
  shows "fst (endpoint_apply (Mute (module_id s) e) (snd (recover_to_muted s)))
           = Ok [SetAmplifierMute True, StopPlayout]"
  using assms by (simp add: recover_to_muted_def endpoint_apply_def apply_mute_def)

theorem endpoint_recovery_accepts_any_epoch_witness:
  "fst (endpoint_apply (Mute ''left-pod'' 7) (endpoint_run (pod_start_ops @
      [ReportStreamUnderflow, RecoverToMuted]) pod_endpoint))
     = Ok [SetAmplifierMute True, StopPlayout]"
proof -
  let ?s = "endpoint_run (pod_start_ops @ [ReportStreamUnderflow]) pod_endpoint"
  have "phase ?s = Fault" "module_id ?s = ''left-pod''"
    by (simp_all add: endpoint_run_append report_stream_underflow_def pod_endpoint_def)
  from endpoint_recovery_accepts_any_epoch [OF this(1), of 7] this(2) show ?thesis
    by (simp add: endpoint_run_append)
qed

end
