(* ===== verification/Ordered_Map.thy ===== *)
theory Ordered_Map
  imports Prelude
begin

text \<open>
  \<open>BTreeMap\<close> and \<open>BTreeSet\<close> of the Rust standard library, as association lists
  kept in strictly increasing key order, which is the order the sources iterate in.  The locale
  \<open>ordered_map\<close> states what the clients rely on; it is interpreted on the association
  lists at the end.
\<close>

section \<open>Operations\<close>

type_synonym ('k, 'v) btree = "('k \<times> 'v) list"

definition bt_get :: "('k, 'v) btree \<Rightarrow> 'k \<Rightarrow> 'v option" where
  "bt_get m k = map_of m k"

fun bt_insert :: "'k::linorder \<Rightarrow> 'v \<Rightarrow> ('k, 'v) btree \<Rightarrow> ('k, 'v) btree" where
  "bt_insert k v [] = [(k, v)]"
| "bt_insert k v ((k', v') # m) =
     (if k < k' then (k, v) # (k', v') # m
      else if k = k' then (k, v) # m
      else (k', v') # bt_insert k v m)"

definition bt_remove :: "'k \<Rightarrow> ('k, 'v) btree \<Rightarrow> ('k, 'v) btree" where
  "bt_remove k m = filter (\<lambda>e. fst e \<noteq> k) m"

definition bt_wf :: "('k::linorder, 'v) btree \<Rightarrow> bool" where
  "bt_wf m \<longleftrightarrow> sorted_wrt (<) (map fst m)"

definition bt_values :: "('k, 'v) btree \<Rightarrow> 'v list" where
  "bt_values m = map snd m"

definition bs_insert :: "'k::linorder \<Rightarrow> 'k list \<Rightarrow> 'k list" where
  "bs_insert k s = map fst (bt_insert k () (map (\<lambda>x. (x, ())) s))"

section \<open>Interface\<close>

locale ordered_map =
  fixes empty_map :: "'m"
    and lookup :: "'m \<Rightarrow> 'k::linorder \<Rightarrow> 'v option"
    and insert_at :: "'k \<Rightarrow> 'v \<Rightarrow> 'm \<Rightarrow> 'm"
    and remove_at :: "'k \<Rightarrow> 'm \<Rightarrow> 'm"
    and entries :: "'m \<Rightarrow> ('k \<times> 'v) list"
    and invar :: "'m \<Rightarrow> bool"
  assumes lookup_empty: "lookup empty_map k = None"
    and lookup_insert: "invar m \<Longrightarrow>
      lookup (insert_at k v m) k' = (if k' = k then Some v else lookup m k')"
    and lookup_remove: "invar m \<Longrightarrow>
      lookup (remove_at k m) k' = (if k' = k then None else lookup m k')"
    and entries_lookup: "invar m \<Longrightarrow> (k, v) \<in> set (entries m) \<longleftrightarrow> lookup m k = Some v"
    and entries_sorted: "invar m \<Longrightarrow> sorted_wrt (<) (map fst (entries m))"
    and invar_empty: "invar empty_map"
    and invar_insert: "invar m \<Longrightarrow> invar (insert_at k v m)"
    and invar_remove: "invar m \<Longrightarrow> invar (remove_at k m)"
begin

text \<open>
  What a client of the map needs: a property of every stored entry survives an insertion that
  satisfies it and any removal, iteration meets every key once, and two maps with the same
  lookups iterate alike.
\<close>

lemma all_insert:
  assumes "invar m" and "\<And>k v. lookup m k = Some v \<Longrightarrow> P k v" and "P k v"
    and "lookup (insert_at k v m) k' = Some v'"
  shows "P k' v'"
  using assms by (auto simp: lookup_insert split: if_splits)

lemma all_remove:
  assumes "invar m" and "\<And>k v. lookup m k = Some v \<Longrightarrow> P k v"
    and "lookup (remove_at k m) k' = Some v'"
  shows "P k' v'"
  using assms by (auto simp: lookup_remove split: if_splits)

lemma entries_distinct: "invar m \<Longrightarrow> distinct (map fst (entries m))"
  using entries_sorted strict_sorted_iff by blast

lemma entries_ext:
  assumes "invar m" "invar m'" and "\<And>k. lookup m k = lookup m' k"
  shows "entries m = entries m'"
proof -
  have eq: "set (entries m) = set (entries m')"
    using assms by (auto simp: entries_lookup)
  have sorted: "sorted (map fst (entries m))" "sorted (map fst (entries m'))"
    using assms(1,2) entries_sorted strict_sorted_iff by blast+
  have "inj_on fst (set (entries m) \<union> set (entries m'))"
    using eq entries_distinct [OF assms(1)] by (simp add: distinct_map)
  then show ?thesis
    using sorted entries_distinct assms(1,2) eq by (auto intro: map_sorted_distinct_set_unique)
qed

end

section \<open>The association lists satisfy it\<close>

lemma set_fst_bt_insert: "fst ` set (bt_insert k v m) = insert k (fst ` set m)"
  by (induction k v m rule: bt_insert.induct) (simp_all add: insert_commute)

lemma bt_wf_Nil [simp]: "bt_wf []"
  by (simp add: bt_wf_def)

lemma bt_wf_Cons: "bt_wf (e # m) \<longleftrightarrow> (\<forall>k\<in>fst ` set m. fst e < k) \<and> bt_wf m"
  by (auto simp: bt_wf_def)

lemma bt_wf_insert [simp]: "bt_wf m \<Longrightarrow> bt_wf (bt_insert k v m)"
proof (induction k v m rule: bt_insert.induct)
  case (1 k v)
  then show ?case by (simp add: bt_wf_Cons)
next
  case (2 k v k' v' m)
  then show ?case
    by (cases k k' rule: linorder_cases) (auto simp: bt_wf_Cons set_fst_bt_insert)
qed

lemma bt_wf_remove [simp]: "bt_wf m \<Longrightarrow> bt_wf (bt_remove k m)"
  by (induction m) (auto simp: bt_wf_Cons bt_remove_def)

lemma bt_get_insert: "bt_get (bt_insert k v m) k' = (if k' = k then Some v else bt_get m k')"
  by (induction m) (auto simp: bt_get_def)

lemma bt_get_remove: "bt_get (bt_remove k m) k' = (if k' = k then None else bt_get m k')"
  by (induction m) (auto simp: bt_get_def bt_remove_def)

lemma bt_wf_distinct: "bt_wf m \<Longrightarrow> distinct (map fst m)"
  by (simp add: bt_wf_def strict_sorted_iff)

lemma bt_get_in_set: "bt_wf m \<Longrightarrow> (k, v) \<in> set m \<longleftrightarrow> bt_get m k = Some v"
  unfolding bt_get_def by (rule map_of_eq_Some_iff [OF bt_wf_distinct, symmetric])

interpretation btree: ordered_map "[]" bt_get bt_insert bt_remove "\<lambda>m. m" bt_wf
proof unfold_locales
  show "sorted_wrt (<) (map fst m)" if "bt_wf m" for m :: "('k::linorder, 'v) btree"
    using that by (simp add: bt_wf_def)
qed (simp_all add: bt_get_insert bt_get_remove bt_get_in_set, simp add: bt_get_def)

lemma bt_ext:
  "bt_wf m \<Longrightarrow> bt_wf m' \<Longrightarrow> (\<And>k. bt_get m k = bt_get m' k) \<Longrightarrow> m = m'"
  by (rule btree.entries_ext)

lemma bt_insert_same: "bt_wf m \<Longrightarrow> bt_get m k = Some v \<Longrightarrow> bt_insert k v m = m"
  by (rule bt_ext) (auto simp: bt_get_insert)

lemma in_bt_values: "bt_wf m \<Longrightarrow> v \<in> set (bt_values m) \<longleftrightarrow> (\<exists>k. bt_get m k = Some v)"
  by (force simp: bt_values_def bt_get_in_set [symmetric])

lemma set_bs_insert [simp]: "set (bs_insert k s) = insert k (set s)"
proof -
  have "fst ` set (bt_insert k () (map (\<lambda>x. (x, ())) s)) = insert k (set s)"
    by (simp add: set_fst_bt_insert image_image)
  then show ?thesis by (simp add: bs_insert_def)
qed

lemma sorted_bs_insert: "sorted_wrt (<) s \<Longrightarrow> sorted_wrt (<) (bs_insert k s)"
  using bt_wf_insert [of "map (\<lambda>x. (x, ())) s" k "()"]
  by (simp add: bt_wf_def bs_insert_def comp_def)

end
