(* ===== verification/Fabric_Planner.thy ===== *)
theory Fabric_Planner
  imports Fabric_Types Ordered_Map
begin

text \<open>
  The stateless planner and the stateful session of
  \<open>src/crates/aurora-modular-speaker-fabric/src/lib.rs\<close>: \<open>FabricPlanner::plan\<close> with
  its route selection and synchronization checks, the convenience intents, and
  \<open>FabricSession\<close>, which replans after every change of inventory or intent.
\<close>

section \<open>Planner\<close>

record fabric_policy =
  maximum_cinema_skew_micros :: u32
  maximum_stereo_skew_micros :: u32
  maximum_multiroom_skew_micros :: u32

definition default_fabric_policy :: fabric_policy where
  "default_fabric_policy =
     \<lparr>maximum_cinema_skew_micros = 1000, maximum_stereo_skew_micros = 1000,
      maximum_multiroom_skew_micros = 10000\<rparr>"

datatype fabric_error =
    InvalidModuleIdentity
  | UnknownModule string
  | Offline string
  | LaneCapacity string
  | DuplicateRole
  | DockRouteUnavailable string
  | DetachedRouteUnavailable string
  | SyncInsufficient string
  | InvalidStandaloneIntent

definition validate_detached_sync ::
  "fabric_policy \<Rightarrow> speaker_module_state \<Rightarrow> deployment_mode \<Rightarrow> (unit, fabric_error) outcome" where
  "validate_detached_sync pol m mode =
     (if \<not> locked (sm_sync m) \<or> \<not> scheduled_playout (sm_sync m)
         \<or> clock_source (sm_sync m) = Unlocked
      then Err (SyncInsufficient (sm_module_id m))
      else case estimated_skew_micros (sm_sync m) of
        None \<Rightarrow> Err (SyncInsufficient (sm_module_id m))
      | Some skew \<Rightarrow>
          let maximum = (case mode of
              Cinema \<Rightarrow> maximum_cinema_skew_micros pol
            | Stereo \<Rightarrow> maximum_stereo_skew_micros pol
            | Standalone \<Rightarrow> - 1
            | Multiroom \<Rightarrow> maximum_multiroom_skew_micros pol)
          in if maximum < skew then Err (SyncInsufficient (sm_module_id m)) else Ok ())"

definition select_route ::
  "fabric_policy \<Rightarrow> speaker_module_state \<Rightarrow> deployment_mode
    \<Rightarrow> (module_route, fabric_error) outcome" where
  "select_route pol m mode =
     (case sm_attachment m of
        Docked _ \<Rightarrow>
          if \<not> dock_pcm (sm_capabilities m) \<or> \<not> locked (sm_sync m)
             \<or> clock_source (sm_sync m) \<noteq> DockRecovered
          then Err (DockRouteUnavailable (sm_module_id m))
          else Ok DockBus
      | Detached \<Rightarrow>
          if \<not> battery_powered (sm_capabilities m) \<and> mode \<noteq> Multiroom
          then Err (DetachedRouteUnavailable (sm_module_id m))
          else if wired_network_audio (sm_capabilities m)
          then (case validate_detached_sync pol m mode of
                  Ok _ \<Rightarrow> Ok WiredNetwork | Err e \<Rightarrow> Err e | Panic \<Rightarrow> Panic)
          else if wireless_network_audio (sm_capabilities m)
          then (case validate_detached_sync pol m mode of
                  Ok _ \<Rightarrow> Ok WirelessNetwork | Err e \<Rightarrow> Err e | Panic \<Rightarrow> Panic)
          else Err (DetachedRouteUnavailable (sm_module_id m)))"

type_synonym inventory = "(string, speaker_module_state) btree"

fun plan_inventory ::
  "inventory \<Rightarrow> speaker_module_state list \<Rightarrow> (inventory, fabric_error) outcome" where
  "plan_inventory known [] = Ok known"
| "plan_inventory known (m # ms) =
     (if sm_module_id m = [] \<or> bt_get known (sm_module_id m) \<noteq> None
      then Err InvalidModuleIdentity
      else plan_inventory (bt_insert (sm_module_id m) m known) ms)"

fun claim_roles ::
  "channel_role list \<Rightarrow> channel_role list \<Rightarrow> (channel_role list, fabric_error) outcome" where
  "claim_roles roles [] = Ok roles"
| "claim_roles roles (r # rs) =
     (if r \<in> set roles then Err DuplicateRole else claim_roles (roles @ [r]) rs)"

fun plan_targets ::
  "fabric_policy \<Rightarrow> deployment_mode \<Rightarrow> inventory \<Rightarrow> channel_role list \<Rightarrow> module_assignment list
    \<Rightarrow> module_target list \<Rightarrow> (module_assignment list, fabric_error) outcome" where
  "plan_targets pol mode known roles assignments [] = Ok assignments"
| "plan_targets pol mode known roles assignments (t # ts) =
     (case bt_get known (mt_module_id t) of
        None \<Rightarrow> Err (UnknownModule (mt_module_id t))
      | Some m \<Rightarrow>
          if \<not> sm_online m then Err (Offline (sm_module_id m))
          else if mt_roles t = [] \<or> unat (output_lanes (sm_capabilities m)) < length (mt_roles t)
          then Err (LaneCapacity (sm_module_id m))
          else case claim_roles roles (mt_roles t) of
            Err e \<Rightarrow> Err e | Panic \<Rightarrow> Panic
          | Ok roles' \<Rightarrow>
              (case select_route pol m mode of
                 Err e \<Rightarrow> Err e | Panic \<Rightarrow> Panic
               | Ok route \<Rightarrow>
                   plan_targets pol mode known roles'
                     (assignments @ [\<lparr>ma_module_id = sm_module_id m, ma_route = route,
                        ma_clock_source = clock_source (sm_sync m), ma_roles = mt_roles t\<rparr>]) ts))"

definition fabric_plan_of ::
  "fabric_policy \<Rightarrow> speaker_module_state list \<Rightarrow> deployment_intent
    \<Rightarrow> (fabric_plan, fabric_error) outcome" where
  "fabric_plan_of pol modules intent =
     (if di_mode intent = Standalone \<and> length (di_targets intent) \<noteq> 1
      then Err InvalidStandaloneIntent
      else case plan_inventory [] modules of
        Err e \<Rightarrow> Err e | Panic \<Rightarrow> Panic
      | Ok known \<Rightarrow>
          (case plan_targets pol (di_mode intent) known [] [] (di_targets intent) of
             Err e \<Rightarrow> Err e | Panic \<Rightarrow> Panic
           | Ok assignments \<Rightarrow>
               Ok \<lparr>fp_mode = di_mode intent, fp_assignments = assignments\<rparr>))"

section \<open>Convenience intents\<close>

definition detached_rear_intent :: "string \<Rightarrow> string \<Rightarrow> deployment_intent" where
  "detached_rear_intent left right =
     \<lparr>di_mode = Cinema,
      di_targets = [\<lparr>mt_module_id = left, mt_roles = [SurroundLeft]\<rparr>,
                    \<lparr>mt_module_id = right, mt_roles = [SurroundRight]\<rparr>]\<rparr>"

definition stereo_pair_intent :: "string \<Rightarrow> string \<Rightarrow> deployment_intent" where
  "stereo_pair_intent left right =
     \<lparr>di_mode = Stereo,
      di_targets = [\<lparr>mt_module_id = left, mt_roles = [FrontLeft]\<rparr>,
                    \<lparr>mt_module_id = right, mt_roles = [FrontRight]\<rparr>]\<rparr>"

definition docked_atmos_wing_intent :: "string \<Rightarrow> string \<Rightarrow> deployment_intent" where
  "docked_atmos_wing_intent left right =
     \<lparr>di_mode = Cinema,
      di_targets = [\<lparr>mt_module_id = left, mt_roles = [FrontLeft, TopFrontLeft]\<rparr>,
                    \<lparr>mt_module_id = right, mt_roles = [FrontRight, TopFrontRight]\<rparr>]\<rparr>"

definition detachable_atmos_rear_intent :: "string \<Rightarrow> string \<Rightarrow> deployment_intent" where
  "detachable_atmos_rear_intent left right =
     \<lparr>di_mode = Cinema,
      di_targets = [\<lparr>mt_module_id = left, mt_roles = [SurroundLeft, TopRearLeft]\<rparr>,
                    \<lparr>mt_module_id = right, mt_roles = [SurroundRight, TopRearRight]\<rparr>]\<rparr>"

section \<open>Session\<close>

record fabric_session =
  fs_policy :: fabric_policy
  fs_inventory :: inventory
  fs_intent :: "deployment_intent option"
  fs_current_plan :: "fabric_plan option"

definition session_new :: "fabric_policy \<Rightarrow> fabric_session" where
  "session_new pol =
     \<lparr>fs_policy = pol, fs_inventory = [], fs_intent = None, fs_current_plan = None\<rparr>"

definition reconcile ::
  "fabric_session \<Rightarrow> (fabric_plan, fabric_error) outcome \<times> fabric_session" where
  "reconcile s =
     (case fs_intent s of
        None \<Rightarrow> (Panic, s\<lparr>fs_current_plan := None\<rparr>)
      | Some intent \<Rightarrow>
          (case fabric_plan_of (fs_policy s) (bt_values (fs_inventory s)) intent of
             Ok plan \<Rightarrow> (Ok plan, s\<lparr>fs_current_plan := Some plan\<rparr>)
           | Err e \<Rightarrow> (Err e, s\<lparr>fs_current_plan := None\<rparr>)
           | Panic \<Rightarrow> (Panic, s)))"

fun map_ok :: "('a \<Rightarrow> 'b) \<Rightarrow> ('a, 'e) outcome \<Rightarrow> ('b, 'e) outcome" where
  "map_ok f (Ok x) = Ok (f x)"
| "map_ok f (Err e) = Err e"
| "map_ok f Panic = Panic"

definition set_intent ::
  "deployment_intent \<Rightarrow> fabric_session \<Rightarrow> (fabric_plan, fabric_error) outcome \<times> fabric_session" where
  "set_intent intent s = reconcile (s\<lparr>fs_intent := Some intent\<rparr>)"

definition upsert_module ::
  "speaker_module_state \<Rightarrow> fabric_session
    \<Rightarrow> (fabric_plan option, fabric_error) outcome \<times> fabric_session" where
  "upsert_module m s =
     (if sm_module_id m = [] then (Err InvalidModuleIdentity, s\<lparr>fs_current_plan := None\<rparr>)
      else let s1 = s\<lparr>fs_inventory := bt_insert (sm_module_id m) m (fs_inventory s)\<rparr> in
        if fs_intent s1 = None then (Ok None, s1\<lparr>fs_current_plan := None\<rparr>)
        else apfst (map_ok Some) (reconcile s1))"

definition remove_module ::
  "string \<Rightarrow> fabric_session \<Rightarrow> (fabric_plan option, fabric_error) outcome \<times> fabric_session" where
  "remove_module mid s =
     (let s1 = s\<lparr>fs_inventory := bt_remove mid (fs_inventory s), fs_current_plan := None\<rparr> in
      if fs_intent s1 = None then (Ok None, s1) else apfst (map_ok Some) (reconcile s1))"

definition session_module :: "string \<Rightarrow> fabric_session \<Rightarrow> speaker_module_state option" where
  "session_module mid s = bt_get (fs_inventory s) mid"

section \<open>What the planner admits\<close>

text \<open>The bound on the skew of a detached module, and the route a module is admitted on.\<close>

fun skew_bound :: "fabric_policy \<Rightarrow> deployment_mode \<Rightarrow> u32" where
  "skew_bound pol Cinema = maximum_cinema_skew_micros pol"
| "skew_bound pol Stereo = maximum_stereo_skew_micros pol"
| "skew_bound pol Standalone = - 1"
| "skew_bound pol Multiroom = maximum_multiroom_skew_micros pol"

definition detached_sync_ok :: "fabric_policy \<Rightarrow> deployment_mode \<Rightarrow> module_sync_status \<Rightarrow> bool" where
  "detached_sync_ok pol mode y \<longleftrightarrow>
     locked y \<and> scheduled_playout y \<and> clock_source y \<noteq> Unlocked
     \<and> is_some_and (\<lambda>skew. skew \<le> skew_bound pol mode) (estimated_skew_micros y)"

definition admitted_route ::
  "fabric_policy \<Rightarrow> deployment_mode \<Rightarrow> speaker_module_state \<Rightarrow> module_route option" where
  "admitted_route pol mode m =
     (let c = sm_capabilities m; y = sm_sync m in
      case sm_attachment m of
        Docked _ \<Rightarrow>
          if dock_pcm c \<and> locked y \<and> clock_source y = DockRecovered then Some DockBus else None
      | Detached \<Rightarrow>
          if (battery_powered c \<or> mode = Multiroom)
             \<and> (wired_network_audio c \<or> wireless_network_audio c)
             \<and> detached_sync_ok pol mode y
          then Some (if wired_network_audio c then WiredNetwork else WirelessNetwork)
          else None)"

definition admissible_target ::
  "fabric_policy \<Rightarrow> deployment_mode \<Rightarrow> (string \<rightharpoonup> speaker_module_state) \<Rightarrow> module_target
    \<Rightarrow> bool" where
  "admissible_target pol mode look t \<longleftrightarrow>
     is_some_and (\<lambda>m. sm_online m \<and> mt_roles t \<noteq> []
         \<and> length (mt_roles t) \<le> unat (output_lanes (sm_capabilities m))
         \<and> admitted_route pol mode m \<noteq> None)
       (look (mt_module_id t))"

definition assignment_of ::
  "fabric_policy \<Rightarrow> deployment_mode \<Rightarrow> (string \<rightharpoonup> speaker_module_state) \<Rightarrow> module_target
    \<Rightarrow> module_assignment" where
  "assignment_of pol mode look t =
     (let m = the (look (mt_module_id t)) in
      \<lparr>ma_module_id = sm_module_id m, ma_route = the (admitted_route pol mode m),
       ma_clock_source = clock_source (sm_sync m), ma_roles = mt_roles t\<rparr>)"

lemma validate_detached_sync_iff:
  "validate_detached_sync pol m mode =
     (if detached_sync_ok pol mode (sm_sync m) then Ok ()
      else Err (SyncInsufficient (sm_module_id m)))"
  by (cases "estimated_skew_micros (sm_sync m)"; cases mode)
    (auto simp: validate_detached_sync_def detached_sync_ok_def)

lemma select_route_iff:
  "select_route pol m mode = Ok route \<longleftrightarrow> admitted_route pol mode m = Some route"
  by (cases "sm_attachment m")
    (auto simp: select_route_def admitted_route_def validate_detached_sync_iff Let_def)

lemma select_route_no_panic: "select_route pol m mode \<noteq> Panic"
  by (cases "sm_attachment m") (auto simp: select_route_def validate_detached_sync_iff)

lemma claim_roles_iff:
  "claim_roles roles rs = Ok roles' \<longleftrightarrow>
     roles' = roles @ rs \<and> distinct rs \<and> set roles \<inter> set rs = {}"
  by (induction roles rs rule: claim_roles.induct) auto

lemma claim_roles_no_panic: "claim_roles roles rs \<noteq> Panic"
  by (induction roles rs rule: claim_roles.induct) auto

lemma plan_inventory_no_panic: "plan_inventory known ms \<noteq> Panic"
  by (induction known ms rule: plan_inventory.induct) auto

lemma plan_inventory_ok_iff:
  "is_ok (plan_inventory known ms) \<longleftrightarrow>
     distinct (map sm_module_id ms) \<and> [] \<notin> set (map sm_module_id ms)
     \<and> (\<forall>m\<in>set ms. bt_get known (sm_module_id m) = None)"
  by (induction known ms rule: plan_inventory.induct)
    (auto simp: bt_get_insert split: if_splits, (metis imageI)+)

lemma plan_inventory_get:
  "plan_inventory known ms = Ok known' \<Longrightarrow> bt_get known' k =
     (case map_of (map (\<lambda>m. (sm_module_id m, m)) ms) k of Some m \<Rightarrow> Some m | None \<Rightarrow> bt_get known k)"
proof (induction known ms rule: plan_inventory.induct)
  case (2 known m ms)
  then have new: "sm_module_id m \<noteq> []" "bt_get known (sm_module_id m) = None"
    and rest: "plan_inventory (bt_insert (sm_module_id m) m known) ms = Ok known'"
    by (auto split: if_splits)
  have "sm_module_id m \<notin> set (map sm_module_id ms)"
    using plan_inventory_ok_iff [of "bt_insert (sm_module_id m) m known" ms] rest
    by (auto simp: bt_get_insert)
  then have "map_of (map (\<lambda>m. (sm_module_id m, m)) ms) (sm_module_id m) = None"
    by (simp add: map_of_eq_None_iff image_image)
  with "2.IH" new rest show ?case by (auto simp: bt_get_insert split: option.splits)
qed simp

lemma plan_targets_no_panic: "plan_targets pol mode known roles acc ts \<noteq> Panic"
  by (induction ts arbitrary: roles acc)
    (auto simp: select_route_no_panic claim_roles_no_panic split: outcome_split)

lemma plan_targets_iff:
  "plan_targets pol mode known roles acc ts = Ok as \<longleftrightarrow>
     (\<forall>t\<in>set ts. admissible_target pol mode (bt_get known) t)
     \<and> distinct (concat (map mt_roles ts)) \<and> set roles \<inter> set (concat (map mt_roles ts)) = {}
     \<and> as = acc @ map (assignment_of pol mode (bt_get known)) ts"
proof (induction ts arbitrary: roles acc)
  case Nil
  then show ?case by auto
next
  case (Cons t ts)
  show ?case
  proof (cases "bt_get known (mt_module_id t)")
    case None
    then show ?thesis by (simp add: admissible_target_def)
  next
    case (Some m)
    show ?thesis
    proof (cases "admissible_target pol mode (bt_get known) t \<and> distinct (mt_roles t)
        \<and> set roles \<inter> set (mt_roles t) = {}")
      case True
      with Some obtain route where route: "admitted_route pol mode m = Some route"
        by (auto simp: admissible_target_def)
      with True Some have "plan_targets pol mode known roles acc (t # ts) =
          plan_targets pol mode known (roles @ mt_roles t)
            (acc @ [assignment_of pol mode (bt_get known) t]) ts"
        by (simp add: admissible_target_def assignment_of_def select_route_iff [THEN iffD2]
            claim_roles_iff [THEN iffD2] Let_def)
      with True Cons.IH show ?thesis by auto
    next
      case False
      then have "plan_targets pol mode known roles acc (t # ts) \<noteq> Ok as"
        using Some select_route_iff claim_roles_iff
        by (auto simp: admissible_target_def split: outcome_split)
      with False show ?thesis by auto
    qed
  qed
qed

definition module_by_id :: "speaker_module_state list \<Rightarrow> string \<Rightarrow> speaker_module_state option" where
  "module_by_id ms = map_of (map (\<lambda>m. (sm_module_id m, m)) ms)"

lemma plan_inventory_Ok_get:
  "plan_inventory [] ms = Ok known \<Longrightarrow> bt_get known = module_by_id ms"
  by (rule ext) (simp add: plan_inventory_get module_by_id_def bt_get_def [of "[]"] split: option.split)

lemma fabric_plan_of_no_panic: "fabric_plan_of pol ms intent \<noteq> Panic"
  using plan_inventory_no_panic plan_targets_no_panic
  by (auto simp: fabric_plan_of_def split: outcome_split)

lemma fabric_plan_of_iff:
  "fabric_plan_of pol ms intent = Ok p \<longleftrightarrow>
     (di_mode intent = Standalone \<longrightarrow> length (di_targets intent) = 1)
     \<and> distinct (map sm_module_id ms) \<and> [] \<notin> set (map sm_module_id ms)
     \<and> (\<forall>t\<in>set (di_targets intent). admissible_target pol (di_mode intent) (module_by_id ms) t)
     \<and> distinct (concat (map mt_roles (di_targets intent)))
     \<and> p = \<lparr>fp_mode = di_mode intent, fp_assignments =
              map (assignment_of pol (di_mode intent) (module_by_id ms)) (di_targets intent)\<rparr>"
proof (cases "plan_inventory [] ms")
  case (Ok known)
  then have "distinct (map sm_module_id ms) \<and> [] \<notin> set (map sm_module_id ms)"
    using plan_inventory_ok_iff [of "[]" ms] by simp
  then show ?thesis
    using Ok plan_targets_iff [of pol "di_mode intent" known "[]" "[]" "di_targets intent"]
      plan_targets_no_panic
    by (cases "plan_targets pol (di_mode intent) known [] [] (di_targets intent)")
      (auto simp: fabric_plan_of_def plan_inventory_Ok_get [OF Ok])
next
  case (Err e)
  then show ?thesis
    using plan_inventory_ok_iff [of "[]" ms] by (auto simp: fabric_plan_of_def bt_get_def)
next
  case Panic
  then show ?thesis using plan_inventory_no_panic by metis
qed

lemma fabric_plan_assignment:
  assumes "fabric_plan_of pol ms intent = Ok p" and "a \<in> set (fp_assignments p)"
  shows "\<exists>m t. module_by_id ms (ma_module_id a) = Some m \<and> sm_module_id m = ma_module_id a
    \<and> sm_online m \<and> admitted_route pol (fp_mode p) m = Some (ma_route a)
    \<and> ma_clock_source a = clock_source (sm_sync m) \<and> ma_roles a \<noteq> []
    \<and> length (ma_roles a) \<le> unat (output_lanes (sm_capabilities m))
    \<and> t \<in> set (di_targets intent) \<and> ma_roles a = mt_roles t \<and> mt_module_id t = ma_module_id a"
proof -
  from assms obtain t where t: "t \<in> set (di_targets intent)"
    and adm: "admissible_target pol (di_mode intent) (module_by_id ms) t"
    and a: "a = assignment_of pol (di_mode intent) (module_by_id ms) t"
    and mode: "fp_mode p = di_mode intent"
    by (auto simp: fabric_plan_of_iff)
  from adm obtain m where m: "module_by_id ms (mt_module_id t) = Some m"
    by (auto simp: admissible_target_def is_some_and_iff)
  then have "sm_module_id m = mt_module_id t"
    by (auto simp: module_by_id_def dest!: map_of_SomeD)
  with t adm a m mode show ?thesis
    by (auto simp: admissible_target_def assignment_of_def Let_def)
qed

section \<open>Session invariant\<close>

datatype session_op =
    SetIntent deployment_intent
  | UpsertModule speaker_module_state
  | RemoveModule string

fun session_step ::
  "session_op \<Rightarrow> fabric_session \<Rightarrow> (fabric_plan option, fabric_error) outcome \<times> fabric_session" where
  "session_step (SetIntent i) s = apfst (map_ok Some) (set_intent i s)"
| "session_step (UpsertModule m) s = upsert_module m s"
| "session_step (RemoveModule k) s = remove_module k s"

fun session_run :: "session_op list \<Rightarrow> fabric_session \<Rightarrow> fabric_session" where
  "session_run [] s = s"
| "session_run (op # ops) s = session_run ops (snd (session_step op s))"

definition keyed :: "inventory \<Rightarrow> bool" where
  "keyed known \<longleftrightarrow> bt_wf known \<and> (\<forall>k m. bt_get known k = Some m \<longrightarrow> sm_module_id m = k \<and> k \<noteq> [])"

definition plan_current :: "fabric_session \<Rightarrow> bool" where
  "plan_current s \<longleftrightarrow> (\<forall>p. fs_current_plan s = Some p \<longrightarrow>
     (\<exists>i. fs_intent s = Some i
        \<and> fabric_plan_of (fs_policy s) (bt_values (fs_inventory s)) i = Ok p))"

lemma keyed_Nil [simp]: "keyed []"
  by (simp add: keyed_def bt_get_def)

lemma keyed_insert [simp]:
  assumes "keyed known" and "sm_module_id m \<noteq> []"
  shows "keyed (bt_insert (sm_module_id m) m known)"
  unfolding keyed_def
proof (intro conjI allI impI)
  from assms show "bt_wf (bt_insert (sm_module_id m) m known)" by (simp add: keyed_def)
next
  fix k m' assume "bt_get (bt_insert (sm_module_id m) m known) k = Some m'"
  from btree.all_insert [OF _ _ _ this, of "\<lambda>k m. sm_module_id m = k \<and> k \<noteq> []"] assms
  show "sm_module_id m' = k" "k \<noteq> []" by (auto simp: keyed_def)
qed

lemma keyed_remove [simp]: "keyed known \<Longrightarrow> keyed (bt_remove k known)"
  by (auto simp: keyed_def bt_get_remove split: if_splits)

lemma keyed_by_id:
  assumes "keyed known"
  shows "module_by_id (bt_values known) = bt_get known"
proof -
  have "map (\<lambda>m. (sm_module_id m, m)) (bt_values known) = known"
    unfolding bt_values_def map_map
  proof (rule map_idI)
    fix e assume "e \<in> set known"
    then have "bt_get known (fst e) = Some (snd e)"
      using assms by (simp add: keyed_def bt_get_in_set [symmetric])
    with assms show "((\<lambda>m. (sm_module_id m, m)) \<circ> snd) e = e"
      by (auto simp: keyed_def prod_eq_iff)
  qed
  then show ?thesis by (simp add: module_by_id_def bt_get_def fun_eq_iff)
qed

lemma reconcile_cases:
  "fs_intent s = Some i \<Longrightarrow> snd (reconcile s) = s\<lparr>fs_current_plan :=
     (case fabric_plan_of (fs_policy s) (bt_values (fs_inventory s)) i of
        Ok p \<Rightarrow> Some p | _ \<Rightarrow> None)\<rparr>"
  using fabric_plan_of_no_panic
  by (auto simp: reconcile_def split: outcome.split)

lemma reconcile_no_panic: "fs_intent s \<noteq> None \<Longrightarrow> fst (reconcile s) \<noteq> Panic"
  using fabric_plan_of_no_panic by (auto simp: reconcile_def split: outcome.splits)

lemma reconcile_current: "fs_intent s \<noteq> None \<Longrightarrow> plan_current (snd (reconcile s))"
  by (auto simp: reconcile_cases plan_current_def split: outcome.splits)

lemma reconcile_frame [simp]:
  "fs_inventory (snd (reconcile s)) = fs_inventory s"
  "fs_intent (snd (reconcile s)) = fs_intent s"
  "fs_policy (snd (reconcile s)) = fs_policy s"
  by (auto simp: reconcile_def split: outcome.split option.split)

lemma map_ok_Panic [simp]: "map_ok f r = Panic \<longleftrightarrow> r = Panic"
  by (cases r) auto

lemma session_step_keyed: "keyed (fs_inventory s) \<Longrightarrow> keyed (fs_inventory (snd (session_step op s)))"
  by (cases op) (simp_all add: set_intent_def upsert_module_def remove_module_def Let_def)

lemma session_step_policy [simp]: "fs_policy (snd (session_step op s)) = fs_policy s"
  by (cases op) (simp_all add: set_intent_def upsert_module_def remove_module_def Let_def)

lemma session_step_current: "plan_current (snd (session_step op s))"
  by (cases op)
    (auto simp: set_intent_def upsert_module_def remove_module_def Let_def reconcile_current
      plan_current_def [of "_\<lparr>fs_current_plan := None\<rparr>"] plan_current_def [of "_\<lparr>fs_inventory := _, fs_current_plan := None\<rparr>"])

lemma session_step_no_panic: "fst (session_step op s) \<noteq> Panic"
  by (cases op)
    (auto simp: set_intent_def upsert_module_def remove_module_def Let_def reconcile_no_panic)

lemma session_run_inv:
  "keyed (fs_inventory s) \<Longrightarrow> plan_current s \<Longrightarrow>
     keyed (fs_inventory (session_run ops s)) \<and> plan_current (session_run ops s)"
  by (induction ops arbitrary: s) (simp_all add: session_step_keyed session_step_current)

lemma session_run_policy [simp]: "fs_policy (session_run ops s) = fs_policy s"
  by (induction ops arbitrary: s) simp_all

lemma session_new_inv: "keyed (fs_inventory (session_new pol)) \<and> plan_current (session_new pol)"
  by (simp add: session_new_def plan_current_def)

section \<open>Properties\<close>

text \<open>Concrete modules for the witnesses.\<close>

definition demo_module :: "string \<Rightarrow> module_clock_source \<Rightarrow> speaker_module_state" where
  "demo_module k clock =
     \<lparr>sm_module_id = k,
      sm_capabilities = \<lparr>output_lanes = 2, dock_pcm = True, wired_network_audio = False,
                         wireless_network_audio = True, battery_powered = True\<rparr>,
      sm_attachment = Detached,
      sm_sync = \<lparr>locked = True, scheduled_playout = True, estimated_skew_micros = Some 180,
                 clock_source = clock\<rparr>,
      sm_online = True\<rparr>"

definition demo_plan :: fabric_plan where
  "demo_plan =
     \<lparr>fp_mode = Cinema,
      fp_assignments =
        [\<lparr>ma_module_id = ''left'', ma_route = WirelessNetwork, ma_clock_source = Ptp,
          ma_roles = [SurroundLeft]\<rparr>,
         \<lparr>ma_module_id = ''right'', ma_route = WirelessNetwork, ma_clock_source = AdaptivePeer,
          ma_roles = [SurroundRight]\<rparr>]\<rparr>"

definition demo_session_ops :: "session_op list" where
  "demo_session_ops =
     [SetIntent (detached_rear_intent ''left'' ''right''),
      UpsertModule (demo_module ''left'' Ptp), UpsertModule (demo_module ''right'' AdaptivePeer)]"

lemmas demo_plan_simps =
  demo_module_def demo_plan_def detached_rear_intent_def default_fabric_policy_def

lemma demo_plan_admitted:
  "fabric_plan_of default_fabric_policy [demo_module ''left'' Ptp, demo_module ''right'' AdaptivePeer]
     (detached_rear_intent ''left'' ''right'') = Ok demo_plan"
  by (simp add: demo_plan_simps fabric_plan_of_def bt_get_def select_route_def
      validate_detached_sync_def)

text \<open>
  C10: The planner admits exactly what its rules promise, and nothing else: a plan is returned
  if and only if a standalone intent names one module, the module identities are nonempty and
  distinct, every target names a known online module with enough lanes and an admitted route,
  and no role is claimed twice; the plan then lists, in intent order, each target's roles with
  the admitted route and the module's clock.
\<close>

theorem fabric_plan_admits_iff:
  "fabric_plan_of pol ms intent = Ok p \<longleftrightarrow>
     (di_mode intent = Standalone \<longrightarrow> length (di_targets intent) = 1)
     \<and> distinct (map sm_module_id ms) \<and> [] \<notin> set (map sm_module_id ms)
     \<and> (\<forall>t\<in>set (di_targets intent). admissible_target pol (di_mode intent) (module_by_id ms) t)
     \<and> distinct (concat (map mt_roles (di_targets intent)))
     \<and> p = \<lparr>fp_mode = di_mode intent, fp_assignments =
              map (assignment_of pol (di_mode intent) (module_by_id ms)) (di_targets intent)\<rparr>"
  by (rule fabric_plan_of_iff)

theorem fabric_plan_admits_iff_witness:
  "demo_plan = \<lparr>fp_mode = Cinema, fp_assignments =
     map (assignment_of default_fabric_policy Cinema
           (module_by_id [demo_module ''left'' Ptp, demo_module ''right'' AdaptivePeer]))
         (di_targets (detached_rear_intent ''left'' ''right''))\<rparr>"
  using fabric_plan_admits_iff [THEN iffD1, OF demo_plan_admitted]
  by (simp add: detached_rear_intent_def)

text \<open>
  C34: A session never keeps a stale plan: in every reachable state, an active plan is what the
  planner admits for the current intent and the current inventory, and each of its assignments
  is for a module that is online now, on the route and clock its present state admits.
\<close>

theorem session_plan_is_fresh:
  assumes "fs_current_plan (session_run ops (session_new pol)) = Some p"
    and "a \<in> set (fp_assignments p)"
  shows "\<exists>i m. fs_intent (session_run ops (session_new pol)) = Some i
    \<and> fabric_plan_of pol (bt_values (fs_inventory (session_run ops (session_new pol)))) i = Ok p
    \<and> session_module (ma_module_id a) (session_run ops (session_new pol)) = Some m
    \<and> sm_online m \<and> admitted_route pol (fp_mode p) m = Some (ma_route a)
    \<and> ma_clock_source a = clock_source (sm_sync m)"
proof -
  let ?s = "session_run ops (session_new pol)"
  have inv: "keyed (fs_inventory ?s)" "plan_current ?s"
    using session_run_inv session_new_inv by blast+
  with assms(1) obtain i where i: "fs_intent ?s = Some i"
    and plan: "fabric_plan_of pol (bt_values (fs_inventory ?s)) i = Ok p"
    by (auto simp: plan_current_def session_new_def)
  from fabric_plan_assignment [OF plan assms(2)] i plan show ?thesis
    by (auto simp: keyed_by_id [OF inv(1)] session_module_def)
qed

theorem session_plan_is_fresh_witness:
  "\<exists>m. session_module ''right'' (session_run demo_session_ops (session_new default_fabric_policy))
         = Some m \<and> sm_online m"
proof -
  have "fs_current_plan (session_run demo_session_ops (session_new default_fabric_policy))
      = Some demo_plan"
    by (simp add: demo_session_ops_def demo_plan_simps session_new_def set_intent_def
        upsert_module_def reconcile_def Let_def fabric_plan_of_def bt_values_def bt_get_def
        select_route_def validate_detached_sync_def)
  moreover have "\<lparr>ma_module_id = ''right'', ma_route = WirelessNetwork,
      ma_clock_source = AdaptivePeer, ma_roles = [SurroundRight]\<rparr> \<in> set (fp_assignments demo_plan)"
    by (simp add: demo_plan_def)
  ultimately show ?thesis using session_plan_is_fresh by fastforce
qed

text \<open>
  The order of observations does not matter: reporting two different modules in either
  order leaves a session in the same state, plan included.
\<close>

theorem session_upserts_commute:
  assumes "keyed (fs_inventory s)" and "sm_module_id m1 \<noteq> sm_module_id m2"
    and "sm_module_id m1 \<noteq> []" and "sm_module_id m2 \<noteq> []"
  shows "snd (upsert_module m2 (snd (upsert_module m1 s)))
       = snd (upsert_module m1 (snd (upsert_module m2 s)))"
proof -
  let ?k1 = "sm_module_id m1" and ?k2 = "sm_module_id m2"
  have "bt_insert ?k2 m2 (bt_insert ?k1 m1 (fs_inventory s))
      = bt_insert ?k1 m1 (bt_insert ?k2 m2 (fs_inventory s))"
    using assms by (intro bt_ext) (auto simp: keyed_def bt_get_insert)
  then show ?thesis
    using assms(3,4)
    by (cases "fs_intent s") (simp_all add: upsert_module_def Let_def reconcile_cases)
qed

theorem session_upserts_commute_witness:
  "snd (upsert_module (demo_module ''left'' Ptp) (snd (upsert_module (demo_module ''right'' Ptp)
       (session_new default_fabric_policy))))
   = snd (upsert_module (demo_module ''right'' Ptp) (snd (upsert_module (demo_module ''left'' Ptp)
       (session_new default_fabric_policy))))"
  by (rule session_upserts_commute) (simp_all add: session_new_def demo_module_def)

text \<open>
  The planner counts lanes per target, not per module: an intent that names one module
  twice is admitted with more roles than the module has output lanes.
\<close>

theorem planner_overcommits_lanes:
  "fabric_plan_of default_fabric_policy
     [(demo_module ''left'' Ptp)\<lparr>sm_capabilities :=
        sm_capabilities (demo_module ''left'' Ptp)\<lparr>output_lanes := 1\<rparr>\<rparr>]
     \<lparr>di_mode = Cinema,
      di_targets = [\<lparr>mt_module_id = ''left'', mt_roles = [SurroundLeft]\<rparr>,
                    \<lparr>mt_module_id = ''left'', mt_roles = [SurroundRight]\<rparr>]\<rparr>
   = Ok \<lparr>fp_mode = Cinema,
         fp_assignments =
           [\<lparr>ma_module_id = ''left'', ma_route = WirelessNetwork, ma_clock_source = Ptp,
             ma_roles = [SurroundLeft]\<rparr>,
            \<lparr>ma_module_id = ''left'', ma_route = WirelessNetwork, ma_clock_source = Ptp,
             ma_roles = [SurroundRight]\<rparr>]\<rparr>"
  by (simp add: demo_plan_simps fabric_plan_of_def bt_get_def select_route_def
      validate_detached_sync_def)

end
