(* ===== verification/Handover.thy ===== *)
theory Handover
  imports Fabric_Planner
begin

text \<open>
  \<open>build_handover_plan\<close> and \<open>EndpointHandoverState\<close> of
  \<open>src/crates/aurora-modular-speaker-fabric/src/lib.rs\<close>: the ordered control commands that
  take a set of speakers from one admitted plan to the next, and the state machine of an
  endpoint that applies them.
\<close>

section \<open>Planning a handover\<close>

datatype handover_command =
    HMute string u64
  | HPrepare module_assignment u64
  | HArm string u64 u64
  | HCommit string u64

record handover_plan =
  hp_epoch :: u64
  hp_start_frame :: u64
  hp_commands :: "handover_command list"

datatype handover_error = InvalidEpoch | WrongModule | EpochMismatch | InvalidPhase

definition plan_lookup :: "fabric_plan option \<Rightarrow> string \<Rightarrow> module_assignment option" where
  "plan_lookup plan i =
     Option.bind plan (\<lambda>p. find (\<lambda>a. ma_module_id a = i) (fp_assignments p))"

definition handover_ids :: "fabric_plan option \<Rightarrow> fabric_plan \<Rightarrow> string list" where
  "handover_ids previous next =
     foldl (\<lambda>ids a. bs_insert (ma_module_id a) ids)
       (case previous of
          None \<Rightarrow> []
        | Some p \<Rightarrow> foldl (\<lambda>ids a. bs_insert (ma_module_id a) ids) [] (fp_assignments p))
       (fp_assignments next)"

definition changed_modules ::
  "fabric_plan option \<Rightarrow> fabric_plan \<Rightarrow> (string \<times> module_assignment option) list" where
  "changed_modules previous next =
     map (\<lambda>i. (i, plan_lookup (Some next) i))
       (filter (\<lambda>i. plan_lookup previous i \<noteq> plan_lookup (Some next) i)
         (handover_ids previous next))"

definition mute_commands :: "u64 \<Rightarrow> (string \<times> module_assignment option) list \<Rightarrow> handover_command list" where
  "mute_commands epoch changed = map (\<lambda>(i, _). HMute i epoch) changed"

definition prepare_commands :: "u64 \<Rightarrow> (string \<times> module_assignment option) list \<Rightarrow> handover_command list" where
  "prepare_commands epoch changed =
     concat (map (\<lambda>(_, a). case a of Some x \<Rightarrow> [HPrepare x epoch] | None \<Rightarrow> []) changed)"

definition arm_commands :: "u64 \<Rightarrow> u64 \<Rightarrow> (string \<times> module_assignment option) list \<Rightarrow> handover_command list" where
  "arm_commands epoch start changed =
     concat (map (\<lambda>(i, a). if a \<noteq> None then [HArm i epoch start] else []) changed)"

definition commit_commands :: "u64 \<Rightarrow> (string \<times> module_assignment option) list \<Rightarrow> handover_command list" where
  "commit_commands epoch changed =
     concat (map (\<lambda>(i, a). if a \<noteq> None then [HCommit i epoch] else []) changed)"

definition build_handover_plan ::
  "fabric_plan option \<Rightarrow> fabric_plan \<Rightarrow> u64 \<Rightarrow> u64 \<Rightarrow> (handover_plan, handover_error) outcome" where
  "build_handover_plan previous next epoch start =
     (if epoch = 0 then Err InvalidEpoch
      else let changed = changed_modules previous next in
        Ok \<lparr>hp_epoch = epoch, hp_start_frame = start,
            hp_commands = mute_commands epoch changed @ prepare_commands epoch changed
              @ arm_commands epoch start changed @ commit_commands epoch changed\<rparr>)"

section \<open>Applying it on an endpoint\<close>

datatype handover_phase = HIdle | HMuted | HPrepared | HArmed

record handover_state =
  hs_module_id :: string
  hs_last_epoch :: u64
  hs_phase :: handover_phase
  hs_pending :: "module_assignment option"
  hs_active :: "module_assignment option"
  hs_armed_start_frame :: "u64 option"
  hs_muted :: bool

definition handover_state_new :: "string \<Rightarrow> handover_state" where
  "handover_state_new i =
     \<lparr>hs_module_id = i, hs_last_epoch = 0, hs_phase = HIdle, hs_pending = None, hs_active = None,
      hs_armed_start_frame = None, hs_muted = True\<rparr>"

definition hs_require_module :: "handover_state \<Rightarrow> string \<Rightarrow> (unit, handover_error) outcome" where
  "hs_require_module s i = (if hs_module_id s = i then Ok () else Err WrongModule)"

definition hs_require_epoch :: "handover_state \<Rightarrow> u64 \<Rightarrow> (unit, handover_error) outcome" where
  "hs_require_epoch s epoch =
     (if epoch \<noteq> 0 \<and> epoch = hs_last_epoch s then Ok () else Err EpochMismatch)"

fun handover_apply ::
  "handover_command \<Rightarrow> handover_state \<Rightarrow> (unit, handover_error) outcome \<times> handover_state" where
  "handover_apply (HMute i epoch) s =
     (case hs_require_module s i of
        Err e \<Rightarrow> (Err e, s) | Panic \<Rightarrow> (Panic, s)
      | Ok _ \<Rightarrow>
          if epoch = 0 \<or> epoch \<le> hs_last_epoch s then (Err EpochMismatch, s)
          else (Ok (), s\<lparr>hs_last_epoch := epoch, hs_phase := HMuted, hs_pending := None,
                         hs_armed_start_frame := None, hs_muted := True\<rparr>))"
| "handover_apply (HPrepare a epoch) s =
     (case hs_require_module s (ma_module_id a) of
        Err e \<Rightarrow> (Err e, s) | Panic \<Rightarrow> (Panic, s)
      | Ok _ \<Rightarrow>
          (case hs_require_epoch s epoch of
             Err e \<Rightarrow> (Err e, s) | Panic \<Rightarrow> (Panic, s)
           | Ok _ \<Rightarrow>
               if hs_phase s \<noteq> HMuted then (Err InvalidPhase, s)
               else (Ok (), s\<lparr>hs_pending := Some a, hs_phase := HPrepared\<rparr>)))"
| "handover_apply (HArm i epoch start) s =
     (case hs_require_module s i of
        Err e \<Rightarrow> (Err e, s) | Panic \<Rightarrow> (Panic, s)
      | Ok _ \<Rightarrow>
          (case hs_require_epoch s epoch of
             Err e \<Rightarrow> (Err e, s) | Panic \<Rightarrow> (Panic, s)
           | Ok _ \<Rightarrow>
               if hs_phase s \<noteq> HPrepared then (Err InvalidPhase, s)
               else (Ok (), s\<lparr>hs_armed_start_frame := Some start, hs_phase := HArmed\<rparr>)))"
| "handover_apply (HCommit i epoch) s =
     (case hs_require_module s i of
        Err e \<Rightarrow> (Err e, s) | Panic \<Rightarrow> (Panic, s)
      | Ok _ \<Rightarrow>
          (case hs_require_epoch s epoch of
             Err e \<Rightarrow> (Err e, s) | Panic \<Rightarrow> (Panic, s)
           | Ok _ \<Rightarrow>
               if hs_phase s \<noteq> HArmed then (Err InvalidPhase, s)
               else (Ok (), s\<lparr>hs_active := hs_pending s, hs_pending := None, hs_phase := HIdle,
                              hs_muted := False\<rparr>)))"

text \<open>The commands delivered, in order, to the endpoints they address.\<close>

fun command_module :: "handover_command \<Rightarrow> string" where
  "command_module (HMute i _) = i"
| "command_module (HPrepare a _) = ma_module_id a"
| "command_module (HArm i _ _) = i"
| "command_module (HCommit i _) = i"

fun command_epoch :: "handover_command \<Rightarrow> u64" where
  "command_epoch (HMute _ e) = e"
| "command_epoch (HPrepare _ e) = e"
| "command_epoch (HArm _ e _) = e"
| "command_epoch (HCommit _ e) = e"

type_synonym fleet = "string \<Rightarrow> handover_state"

fun deliver :: "handover_command list \<Rightarrow> fleet \<Rightarrow> (unit, handover_error) outcome \<times> fleet" where
  "deliver [] f = (Ok (), f)"
| "deliver (c # cs) f =
     (case handover_apply c (f (command_module c)) of
        (Ok _, s) \<Rightarrow> deliver cs (f(command_module c := s))
      | (Err e, s) \<Rightarrow> (Err e, f(command_module c := s))
      | (Panic, s) \<Rightarrow> (Panic, f(command_module c := s)))"

fun apply_all ::
  "handover_command list \<Rightarrow> handover_state \<Rightarrow> (unit, handover_error) outcome \<times> handover_state" where
  "apply_all [] s = (Ok (), s)"
| "apply_all (c # cs) s =
     (case handover_apply c s of
        (Ok _, s') \<Rightarrow> apply_all cs s' | (Err e, s') \<Rightarrow> (Err e, s') | (Panic, s') \<Rightarrow> (Panic, s'))"

section \<open>The commands of a plan, per module\<close>

lemmas hs_guards = hs_require_module_def hs_require_epoch_def

lemma deliver_append:
  "deliver (xs @ ys) f =
     (case deliver xs f of
        (Ok _, f') \<Rightarrow> deliver ys f' | (Err e, f') \<Rightarrow> (Err e, f') | (Panic, f') \<Rightarrow> (Panic, f'))"
  by (induction xs arbitrary: f) (auto split: prod.splits outcome.splits)

lemma deliver_project:
  "(\<And>i. apply_all (filter (\<lambda>c. command_module c = i) cs) (f i) = (Ok (), f' i)) \<Longrightarrow>
     deliver cs f = (Ok (), f')"
proof (induction cs arbitrary: f)
  case Nil
  then show ?case by (auto intro!: ext)
next
  case (Cons c cs)
  let ?m = "command_module c"
  obtain s where s: "handover_apply c (f ?m) = (Ok (), s)"
    using Cons.prems [of ?m] by (auto split: prod.splits outcome.splits)
  have "apply_all (filter (\<lambda>c. command_module c = i) cs) ((f(?m := s)) i) = (Ok (), f' i)" for i
    using Cons.prems [of i] s by (auto split: if_splits)
  from Cons.IH [OF this] s show ?case by (simp add: fun_upd_def)
qed

lemma set_foldl_bs_insert:
  "set (foldl (\<lambda>ids a. bs_insert (g a) ids) ids as) = set ids \<union> g ` set as"
  by (induction as arbitrary: ids) auto

lemma sorted_foldl_bs_insert:
  "sorted_wrt (<) ids \<Longrightarrow> sorted_wrt (<) (foldl (\<lambda>ids a. bs_insert (g a) ids) ids as)"
  by (induction as arbitrary: ids) (auto simp: sorted_bs_insert)

lemma set_handover_ids:
  "set (handover_ids previous next) =
     (case previous of None \<Rightarrow> {} | Some p \<Rightarrow> ma_module_id ` set (fp_assignments p))
       \<union> ma_module_id ` set (fp_assignments next)"
  by (auto simp: handover_ids_def set_foldl_bs_insert split: option.split)

lemma distinct_handover_ids: "distinct (handover_ids previous next)"
proof -
  have "sorted_wrt (<) (handover_ids previous next)"
    by (auto simp: handover_ids_def intro!: sorted_foldl_bs_insert split: option.split)
  then show ?thesis by (simp add: strict_sorted_iff)
qed

lemma plan_lookup_Some: "plan_lookup p i = Some a \<Longrightarrow> ma_module_id a = i"
  by (cases p) (auto simp: plan_lookup_def find_Some_iff)

lemma plan_lookup_in_ids:
  "plan_lookup previous i \<noteq> None \<or> plan_lookup (Some next) i \<noteq> None
     \<Longrightarrow> i \<in> set (handover_ids previous next)"
  by (cases previous) (auto simp: plan_lookup_def set_handover_ids find_Some_iff)

lemma changed_modules_iff:
  "(i, a) \<in> set (changed_modules previous next) \<longleftrightarrow>
     a = plan_lookup (Some next) i \<and> plan_lookup previous i \<noteq> plan_lookup (Some next) i"
proof -
  have "i \<in> set (handover_ids previous next)"
    if "plan_lookup previous i \<noteq> plan_lookup (Some next) i"
    using that by (intro plan_lookup_in_ids) auto
  then show ?thesis by (auto simp: changed_modules_def)
qed

lemma changed_modules_distinct: "distinct (map fst (changed_modules previous next))"
  by (simp add: changed_modules_def comp_def distinct_handover_ids)

text \<open>What one module is sent.\<close>

fun module_commands :: "u64 \<Rightarrow> u64 \<Rightarrow> string \<Rightarrow> module_assignment option \<Rightarrow> handover_command list" where
  "module_commands epoch start i None = [HMute i epoch]"
| "module_commands epoch start i (Some a) =
     [HMute i epoch, HPrepare a epoch, HArm i epoch start, HCommit i epoch]"

lemma filter_commands:
  assumes "distinct (map fst changed)" and "\<forall>(j, a)\<in>set changed. \<forall>x. a = Some x \<longrightarrow> ma_module_id x = j"
  shows "filter (\<lambda>c. command_module c = i) (mute_commands epoch changed) =
      (case map_of changed i of None \<Rightarrow> [] | Some _ \<Rightarrow> [HMute i epoch])"
    and "filter (\<lambda>c. command_module c = i) (prepare_commands epoch changed) =
      (case map_of changed i of Some (Some a) \<Rightarrow> [HPrepare a epoch] | _ \<Rightarrow> [])"
    and "filter (\<lambda>c. command_module c = i) (arm_commands epoch start changed) =
      (case map_of changed i of Some (Some a) \<Rightarrow> [HArm i epoch start] | _ \<Rightarrow> [])"
    and "filter (\<lambda>c. command_module c = i) (commit_commands epoch changed) =
      (case map_of changed i of Some (Some a) \<Rightarrow> [HCommit i epoch] | _ \<Rightarrow> [])"
  using assms
proof (induction changed)
  case Nil
  { case 1 show ?case by (simp add: mute_commands_def) }
  { case 2 show ?case by (simp add: prepare_commands_def) }
  { case 3 show ?case by (simp add: arm_commands_def) }
  { case 4 show ?case by (simp add: commit_commands_def) }
next
  case (Cons e changed)
  obtain j a where e: "e = (j, a)" by fastforce
  have none: "map_of changed j = None" if "distinct (map fst (e # changed))"
    using that e by (simp add: map_of_eq_None_iff)
  { case 1
    with Cons(1) e none show ?case by (auto simp: mute_commands_def) }
  { case 2
    with Cons(2) e none show ?case by (cases a) (auto simp: prepare_commands_def) }
  { case 3
    with Cons(3) e none show ?case by (cases a) (auto simp: arm_commands_def) }
  { case 4
    with Cons(4) e none show ?case by (cases a) (auto simp: commit_commands_def) }
qed

lemma hp_commands_of:
  assumes "build_handover_plan previous next epoch start = Ok h"
  shows "epoch \<noteq> 0" and "hp_commands h =
    (let changed = changed_modules previous next in
       mute_commands epoch changed @ prepare_commands epoch changed
         @ arm_commands epoch start changed @ commit_commands epoch changed)"
  using assms by (auto simp: build_handover_plan_def Let_def split: if_splits)

lemma map_of_changed:
  "map_of (changed_modules previous next) i =
     (if plan_lookup previous i = plan_lookup (Some next) i then None
      else Some (plan_lookup (Some next) i))"
proof (cases "plan_lookup previous i = plan_lookup (Some next) i")
  case True
  then have "map_of (changed_modules previous next) i = None"
    by (auto simp: map_of_eq_None_iff changed_modules_iff)
  with True show ?thesis by simp
next
  case False
  then have "(i, plan_lookup (Some next) i) \<in> set (changed_modules previous next)"
    by (simp add: changed_modules_iff)
  with False show ?thesis by (simp add: changed_modules_distinct)
qed

lemma changed_own_id:
  "\<forall>(j, a)\<in>set (changed_modules previous next). \<forall>x. a = Some x \<longrightarrow> ma_module_id x = j"
  by (auto simp: changed_modules_iff intro: plan_lookup_Some [OF sym])

lemma commands_for_module:
  assumes "build_handover_plan previous next epoch start = Ok h"
  shows "filter (\<lambda>c. command_module c = i) (hp_commands h) =
    (if plan_lookup previous i = plan_lookup (Some next) i then []
     else module_commands epoch start i (plan_lookup (Some next) i))"
  by (cases "plan_lookup (Some next) i")
    (simp_all add: hp_commands_of(2) [OF assms] Let_def map_of_changed
      filter_commands [OF changed_modules_distinct changed_own_id])

definition handed_over ::
  "u64 \<Rightarrow> u64 \<Rightarrow> module_assignment option \<Rightarrow> handover_state \<Rightarrow> handover_state" where
  "handed_over epoch start a s =
     (case a of
        None \<Rightarrow> s\<lparr>hs_last_epoch := epoch, hs_phase := HMuted, hs_pending := None,
                  hs_armed_start_frame := None, hs_muted := True\<rparr>
      | Some x \<Rightarrow> s\<lparr>hs_last_epoch := epoch, hs_phase := HIdle, hs_pending := None,
                  hs_active := Some x, hs_armed_start_frame := Some start, hs_muted := False\<rparr>)"

lemma apply_module_commands:
  assumes "epoch \<noteq> 0" and "hs_module_id s = i" and "hs_last_epoch s < epoch"
    and "\<forall>x. a = Some x \<longrightarrow> ma_module_id x = i"
  shows "apply_all (module_commands epoch start i a) s = (Ok (), handed_over epoch start a s)"
  using assms by (cases a) (simp_all add: hs_guards handed_over_def not_le)

text \<open>
  The barrier.  \<open>silenced\<close>: whoever has seen the new epoch is muted, which only a commit can
  change; \<open>reached\<close>: who has seen the new epoch, which no command of that epoch changes.
\<close>

fun is_commit :: "handover_command \<Rightarrow> bool" where
  "is_commit (HCommit _ _) = True"
| "is_commit _ = False"

lemma handover_apply_silenced:
  "\<not> is_commit c \<Longrightarrow> (hs_last_epoch s = e \<longrightarrow> hs_muted s) \<Longrightarrow>
     (let s' = snd (handover_apply c s) in hs_last_epoch s' = e \<longrightarrow> hs_muted s')"
  by (cases c) (auto simp: hs_guards)

lemma deliver_silenced:
  "\<forall>c\<in>set cs. \<not> is_commit c \<Longrightarrow> \<forall>i. hs_last_epoch (f i) = e \<longrightarrow> hs_muted (f i) \<Longrightarrow>
     \<forall>i. hs_last_epoch (snd (deliver cs f) i) = e \<longrightarrow> hs_muted (snd (deliver cs f) i)"
proof (induction cs arbitrary: f)
  case (Cons c cs)
  obtain r s where s: "handover_apply c (f (command_module c)) = (r, s)" by fastforce
  have "\<forall>i. hs_last_epoch ((f(command_module c := s)) i) = e
      \<longrightarrow> hs_muted ((f(command_module c := s)) i)"
    using handover_apply_silenced [of c "f (command_module c)" e] Cons.prems s by (auto simp: Let_def)
  with Cons s show ?case by (cases r) auto
qed simp

lemma handover_apply_reached:
  "command_epoch c = e \<Longrightarrow> hs_last_epoch s = e \<Longrightarrow> hs_last_epoch (snd (handover_apply c s)) = e"
  by (cases c) (auto simp: hs_guards)

lemma deliver_reached:
  "\<forall>c\<in>set cs. command_epoch c = e \<Longrightarrow> hs_last_epoch (f i) = e \<Longrightarrow>
     hs_last_epoch (snd (deliver cs f) i) = e"
proof (induction cs arbitrary: f)
  case (Cons c cs)
  obtain r s where s: "handover_apply c (f (command_module c)) = (r, s)" by fastforce
  have "hs_last_epoch ((f(command_module c := s)) i) = e"
    using handover_apply_reached [of c e "f (command_module c)"] Cons.prems s by auto
  with Cons s show ?case by (cases r) auto
qed simp

lemma hp_commands_epoch:
  assumes "build_handover_plan previous next epoch start = Ok h"
  shows "\<forall>c\<in>set (hp_commands h). command_epoch c = epoch"
  by (auto simp: hp_commands_of(2) [OF assms] Let_def mute_commands_def prepare_commands_def
      arm_commands_def commit_commands_def split: option.splits if_splits)

lemma deliver_mutes:
  assumes "epoch \<noteq> 0" and "\<forall>i. hs_module_id (f i) = i"
    and "\<forall>i. plan_lookup previous i \<noteq> plan_lookup (Some next) i \<longrightarrow> hs_last_epoch (f i) < epoch"
  shows "\<exists>f'. deliver (mute_commands epoch (changed_modules previous next)) f = (Ok (), f')
    \<and> (\<forall>i. plan_lookup previous i \<noteq> plan_lookup (Some next) i \<longrightarrow> hs_last_epoch (f' i) = epoch)"
proof -
  let ?f' = "\<lambda>i. if plan_lookup previous i = plan_lookup (Some next) i then f i
      else handed_over epoch 0 None (f i)"
  have "deliver (mute_commands epoch (changed_modules previous next)) f = (Ok (), ?f')"
    using assms
    by (intro deliver_project)
      (auto simp: filter_commands(1) [OF changed_modules_distinct changed_own_id] map_of_changed
        hs_guards handed_over_def not_le)
  then show ?thesis by (auto simp: handed_over_def)
qed

section \<open>Properties\<close>

text \<open>
  C15: a handover takes the whole fleet to the next plan.  For any previous plan and any next
  one, with a fresh epoch for the modules that change, every command of the handover is accepted
  by the endpoint it addresses; afterwards exactly the changed modules have changed: each one in
  the next plan is unmuted on its next assignment, armed for the common start frame, and each
  one that is no longer planned is muted.
\<close>

theorem handover_end_to_end:
  assumes "build_handover_plan previous next epoch start = Ok h"
    and "\<forall>i. hs_module_id (f i) = i"
    and "\<forall>i. plan_lookup previous i \<noteq> plan_lookup (Some next) i \<longrightarrow> hs_last_epoch (f i) < epoch"
  shows "deliver (hp_commands h) f = (Ok (),
    \<lambda>i. if plan_lookup previous i = plan_lookup (Some next) i then f i
        else handed_over epoch start (plan_lookup (Some next) i) (f i))"
proof (rule deliver_project)
  fix i
  show "apply_all (filter (\<lambda>c. command_module c = i) (hp_commands h)) (f i) = (Ok (),
      if plan_lookup previous i = plan_lookup (Some next) i then f i
      else handed_over epoch start (plan_lookup (Some next) i) (f i))"
    using assms(2,3) hp_commands_of(1) [OF assms(1)]
    by (auto simp: commands_for_module [OF assms(1)] intro!: apply_module_commands
        dest: plan_lookup_Some)
qed

definition dock_plan :: fabric_plan where
  "dock_plan = \<lparr>fp_mode = Cinema, fp_assignments =
     [\<lparr>ma_module_id = ''left'', ma_route = DockBus, ma_clock_source = DockRecovered,
       ma_roles = [FrontLeft]\<rparr>,
      \<lparr>ma_module_id = ''sub'', ma_route = DockBus, ma_clock_source = DockRecovered,
       ma_roles = [LowFrequencyEffects]\<rparr>]\<rparr>"

lemma dock_handover:
  "\<exists>h. build_handover_plan (Some dock_plan) demo_plan 3 48000 = Ok h"
  by (simp add: build_handover_plan_def Let_def)

theorem handover_end_to_end_witness:
  "\<exists>h. build_handover_plan (Some dock_plan) demo_plan 3 48000 = Ok h
     \<and> fst (deliver (hp_commands h) handover_state_new) = Ok ()
     \<and> hs_active (snd (deliver (hp_commands h) handover_state_new) ''right'')
         = Some (fp_assignments demo_plan ! 1)
     \<and> hs_muted (snd (deliver (hp_commands h) handover_state_new) ''sub'')"
proof -
  obtain h where h: "build_handover_plan (Some dock_plan) demo_plan 3 48000 = Ok h"
    using dock_handover by blast
  from handover_end_to_end [OF this, of handover_state_new] h show ?thesis
    by (simp add: handover_state_new_def handed_over_def plan_lookup_def dock_plan_def demo_plan_def)
qed

text \<open>
  C9: make before play.  However far a handover has been delivered, and whether or not an
  endpoint has refused a command, no changed module plays its new assignment (unmuted in the new
  epoch) while another changed module is still unmuted in an older epoch.
\<close>

theorem handover_barrier:
  assumes plan: "build_handover_plan previous next epoch start = Ok h"
    and own: "\<forall>i. hs_module_id (f i) = i"
    and fresh: "\<forall>i. plan_lookup previous i \<noteq> plan_lookup (Some next) i \<longrightarrow> hs_last_epoch (f i) < epoch"
    and "\<forall>i. hs_last_epoch (f i) \<noteq> epoch"
    and f': "f' = snd (deliver (take k (hp_commands h)) f)"
    and i: "\<not> hs_muted (f' i)" "hs_last_epoch (f' i) = epoch"
    and j: "plan_lookup previous j \<noteq> plan_lookup (Some next) j"
  shows "hs_last_epoch (f' j) = epoch"
proof -
  let ?c = "changed_modules previous next"
  let ?before = "mute_commands epoch ?c @ prepare_commands epoch ?c @ arm_commands epoch start ?c"
  have cmds: "hp_commands h = ?before @ commit_commands epoch ?c"
    by (simp add: hp_commands_of(2) [OF plan] Let_def)
  have plain: "\<forall>c\<in>set ?before. \<not> is_commit c"
    by (auto simp: mute_commands_def prepare_commands_def arm_commands_def
        split: option.splits if_splits)
  have "length ?before < k"
  proof (rule ccontr)
    assume "\<not> length ?before < k"
    then have "take k (hp_commands h) = take k ?before" by (simp add: cmds)
    moreover have "\<forall>c\<in>set (take k ?before). \<not> is_commit c" using plain by (meson in_set_takeD)
    ultimately show False using deliver_silenced [of "take k (hp_commands h)" f epoch] assms(4) i f' by metis
  qed
  then obtain rest where take: "take k (hp_commands h) = mute_commands epoch ?c @ rest"
    by (simp add: cmds take_append)
  obtain f1 where f1: "deliver (mute_commands epoch ?c) f = (Ok (), f1)"
    and muted: "hs_last_epoch (f1 j) = epoch"
    using deliver_mutes [OF hp_commands_of(1) [OF plan] own fresh] j by blast
  have "\<forall>c\<in>set rest. command_epoch c = epoch"
    using hp_commands_epoch [OF plan] take by (metis UnCI in_set_takeD set_append)
  from deliver_reached [of rest epoch f1 j, OF this muted] show ?thesis
    by (simp add: f' take deliver_append f1)
qed

theorem handover_barrier_witness:
  "\<exists>h. build_handover_plan (Some dock_plan) demo_plan 3 48000 = Ok h
     \<and> \<not> hs_muted (snd (deliver (take 8 (hp_commands h)) handover_state_new) ''left'')
     \<and> hs_last_epoch (snd (deliver (take 8 (hp_commands h)) handover_state_new) ''right'') = 3"
proof -
  let ?f = handover_state_new
  obtain h where h: "build_handover_plan (Some dock_plan) demo_plan 3 48000 = Ok h"
    using dock_handover by blast
  have "changed_modules (Some dock_plan) demo_plan =
      [(''left'', Some (fp_assignments demo_plan ! 0)), (''right'', Some (fp_assignments demo_plan ! 1)),
       (''sub'', None)]"
    by (simp add: changed_modules_def handover_ids_def plan_lookup_def dock_plan_def demo_plan_def
        bs_insert_def)
  then have cmds: "take 8 (hp_commands h) =
      [HMute ''left'' 3, HMute ''right'' 3, HMute ''sub'' 3, HPrepare (fp_assignments demo_plan ! 0) 3,
       HPrepare (fp_assignments demo_plan ! 1) 3, HArm ''left'' 3 48000, HArm ''right'' 3 48000,
       HCommit ''left'' 3]"
    by (simp add: hp_commands_of(2) [OF h] Let_def mute_commands_def prepare_commands_def
        arm_commands_def commit_commands_def)
  have left: "\<not> hs_muted (snd (deliver (take 8 (hp_commands h)) ?f) ''left'')"
    "hs_last_epoch (snd (deliver (take 8 (hp_commands h)) ?f) ''left'') = 3"
    by (simp_all add: cmds handover_state_new_def hs_guards demo_plan_def)
  have "hs_last_epoch (snd (deliver (take 8 (hp_commands h)) ?f) ''right'') = 3"
    by (rule handover_barrier [OF h _ _ _ refl left])
      (simp_all add: handover_state_new_def plan_lookup_def dock_plan_def demo_plan_def)
  with h left show ?thesis by blast
qed

definition handover_inv :: "handover_state \<Rightarrow> bool" where
  "handover_inv s \<longleftrightarrow>
     (hs_phase s \<in> {HPrepared, HArmed} \<longleftrightarrow> hs_pending s \<noteq> None)
     \<and> pred_option (\<lambda>a. ma_module_id a = hs_module_id s) (hs_pending s)
     \<and> pred_option (\<lambda>a. ma_module_id a = hs_module_id s) (hs_active s)
     \<and> (hs_phase s = HArmed \<longrightarrow> hs_armed_start_frame s \<noteq> None)
     \<and> (\<not> hs_muted s \<longrightarrow> hs_phase s = HIdle \<and> hs_active s \<noteq> None
          \<and> hs_armed_start_frame s \<noteq> None \<and> hs_last_epoch s \<noteq> 0)"

lemma handover_apply_inv: "handover_inv s \<Longrightarrow> handover_inv (snd (handover_apply c s))"
  by (cases c) (auto simp: handover_inv_def hs_guards)

lemma handover_apply_module [simp]: "hs_module_id (snd (handover_apply c s)) = hs_module_id s"
  by (cases c) (auto simp: hs_guards)

lemma handover_apply_atomic: "atomic_call s (handover_apply c s)"
  by (cases c) (auto simp: hs_guards)

lemma handover_run_inv:
  "handover_inv s \<Longrightarrow> handover_inv (fold (\<lambda>c s. snd (handover_apply c s)) cs s)
     \<and> hs_module_id (fold (\<lambda>c s. snd (handover_apply c s)) cs s) = hs_module_id s"
  by (induction cs arbitrary: s) (simp_all add: handover_apply_inv)

text \<open>
  an endpoint never unmutes itself out of order.  After any commands in any order, accepted
  or rejected: an unmuted endpoint is idle on an assignment for its own module that was prepared,
  armed and committed, it has seen a nonzero epoch, and a command that is rejected changes
  nothing.
\<close>

theorem handover_endpoint_safe:
  "let s = fold (\<lambda>c s. snd (handover_apply c s)) cs (handover_state_new i) in
     atomic_call s (handover_apply c s)
     \<and> (hs_muted s \<or> hs_phase s = HIdle \<and> hs_last_epoch s \<noteq> 0 \<and> hs_armed_start_frame s \<noteq> None
          \<and> is_some_and (\<lambda>a. ma_module_id a = i) (hs_active s))"
proof -
  have "handover_inv (handover_state_new i)" by (simp add: handover_inv_def handover_state_new_def)
  from handover_run_inv [OF this, of cs]
  have "handover_inv (fold (\<lambda>c s. snd (handover_apply c s)) cs (handover_state_new i))"
    "hs_module_id (fold (\<lambda>c s. snd (handover_apply c s)) cs (handover_state_new i)) = i"
    by (simp_all add: handover_state_new_def)
  then show ?thesis
    by (auto simp: Let_def handover_apply_atomic handover_inv_def)
qed

text \<open>
  A muted endpoint still reports its old assignment.  A module that leaves the plan receives
  only \<open>Mute\<close>, which clears the pending assignment and the armed frame but not the active one,
  so \<open>active_assignment\<close> names a topology that is no longer deployed.
\<close>

theorem handover_mute_keeps_active:
  "let a = fp_assignments dock_plan ! 1;
       s = fold (\<lambda>c s. snd (handover_apply c s))
             [HMute ''sub'' 1, HPrepare a 1, HArm ''sub'' 1 480, HCommit ''sub'' 1]
             (handover_state_new ''sub'')
   in (\<exists>h. build_handover_plan (Some dock_plan) demo_plan 2 48000 = Ok h
          \<and> filter (\<lambda>c. command_module c = ''sub'') (hp_commands h) = [HMute ''sub'' 2])
     \<and> fst (handover_apply (HMute ''sub'' 2) s) = Ok ()
     \<and> hs_muted (snd (handover_apply (HMute ''sub'' 2) s))
     \<and> hs_active (snd (handover_apply (HMute ''sub'' 2) s)) = Some a"
proof -
  obtain h where h: "build_handover_plan (Some dock_plan) demo_plan 2 48000 = Ok h"
    by (simp add: build_handover_plan_def Let_def)
  have "filter (\<lambda>c. command_module c = ''sub'') (hp_commands h) = [HMute ''sub'' 2]"
    by (simp add: commands_for_module [OF h] plan_lookup_def dock_plan_def demo_plan_def)
  with h show ?thesis
    by (simp add: Let_def dock_plan_def handover_state_new_def hs_guards word_le_nat_alt)
qed

end
