(* ===== verification/Esp_Control.thy ===== *)
theory Esp_Control
  imports Endpoint Handover
begin

text \<open>
  The control bridge of the ESP-AVB adapter,
  \<open>src/adapters/aurora-network-esp-avb/src/control.rs\<close>: it checks a handover against the
  endpoint bindings and turns it into envelopes addressed to endpoints.  The composition with
  the handover planner and with the endpoint state machine is at the end.
\<close>

section \<open>Data\<close>

datatype esp_avb_endpoint_medium = WiredEsp32P4 | WirelessEsp32C6

record esp_avb_module_binding =
  mb_module_id :: string
  mb_endpoint_id :: string
  mb_stream_id :: u64
  mb_medium :: esp_avb_endpoint_medium

record esp_avb_control_envelope =
  ev_endpoint_id :: string
  ev_stream_id :: u64
  ev_medium :: esp_avb_endpoint_medium
  ev_command :: endpoint_command

datatype esp_avb_control_error =
    EcInvalidBinding | EcDuplicateModule | EcDuplicateEndpoint | EcDuplicateStream
  | EcUnknownModule | EcInvalidEpoch | EcInvalidStartFrame | EcInvalidCommandOrder
  | EcUnsupportedRoute | EcUnsupportedClock | EcUnsupportedLaneCount | EcMediumRouteMismatch

definition ESP_AVB_CHANNELS_PER_STREAM :: nat where
  "ESP_AVB_CHANNELS_PER_STREAM = 2"

section \<open>Checks\<close>

text \<open>The inner and the outer loop of \<open>validate_bindings\<close>.\<close>

fun binding_conflicts ::
  "esp_avb_module_binding \<Rightarrow> esp_avb_module_binding list \<Rightarrow> (unit, esp_avb_control_error) outcome" where
  "binding_conflicts b [] = Ok ()"
| "binding_conflicts b (other # rest) =
     (if mb_module_id b = mb_module_id other then Err EcDuplicateModule
      else if mb_endpoint_id b = mb_endpoint_id other then Err EcDuplicateEndpoint
      else if mb_stream_id b = mb_stream_id other then Err EcDuplicateStream
      else binding_conflicts b rest)"

fun validate_bindings :: "esp_avb_module_binding list \<Rightarrow> (unit, esp_avb_control_error) outcome" where
  "validate_bindings [] = Ok ()"
| "validate_bindings (b # bs) =
     (if mb_module_id b = [] \<or> mb_endpoint_id b = [] \<or> mb_stream_id b = 0 then Err EcInvalidBinding
      else case binding_conflicts b bs of
        Err e \<Rightarrow> Err e | Panic \<Rightarrow> Panic
      | Ok _ \<Rightarrow> validate_bindings bs)"

definition validate_assignment ::
  "esp_avb_module_binding \<Rightarrow> module_route \<Rightarrow> module_clock_source \<Rightarrow> nat
    \<Rightarrow> (unit, esp_avb_control_error) outcome" where
  "validate_assignment b route clock lane_count =
     (if lane_count = 0 \<or> ESP_AVB_CHANNELS_PER_STREAM < lane_count then Err EcUnsupportedLaneCount
      else if clock \<noteq> Ptp then Err EcUnsupportedClock
      else case (route, mb_medium b) of
        (WiredNetwork, WiredEsp32P4) \<Rightarrow> Ok ()
      | (WirelessNetwork, WirelessEsp32C6) \<Rightarrow> Ok ()
      | (WiredNetwork, _) \<Rightarrow> Err EcMediumRouteMismatch
      | (WirelessNetwork, _) \<Rightarrow> Err EcMediumRouteMismatch
      | (DockBus, _) \<Rightarrow> Err EcUnsupportedRoute
      | (Muted_Route, _) \<Rightarrow> Err EcUnsupportedRoute)"

definition phase_transition ::
  "(string, u8) btree \<Rightarrow> string \<Rightarrow> u8 \<Rightarrow> u8 \<Rightarrow> ((string, u8) btree, esp_avb_control_error) outcome" where
  "phase_transition phases i required next =
     (let current = (case bt_get phases i of None \<Rightarrow> 0 | Some p \<Rightarrow> p) in
      if current \<noteq> required then Err EcInvalidCommandOrder else Ok (bt_insert i next phases))"

section \<open>Compilation\<close>

text \<open>The match on one command: the phases after it, and the endpoint command.\<close>

fun compile_command :: "handover_plan \<Rightarrow> esp_avb_module_binding \<Rightarrow> (string, u8) btree
    \<Rightarrow> handover_command \<Rightarrow> ((string, u8) btree \<times> endpoint_command, esp_avb_control_error) outcome" where
  "compile_command h b phases (HMute i epoch) =
     (case phase_transition phases i 0 1 of
        Err e \<Rightarrow> Err e | Panic \<Rightarrow> Panic
      | Ok phases' \<Rightarrow> Ok (phases', Mute i epoch))"
| "compile_command h b phases (HPrepare a epoch) =
     (case phase_transition phases (ma_module_id a) 1 2 of
        Err e \<Rightarrow> Err e | Panic \<Rightarrow> Panic
      | Ok phases' \<Rightarrow>
          (case validate_assignment b (ma_route a) (ma_clock_source a) (length (ma_roles a)) of
             Err e \<Rightarrow> Err e | Panic \<Rightarrow> Panic
           | Ok _ \<Rightarrow> Ok (phases', Prepare (ma_module_id a) epoch (ma_route a) (ma_clock_source a)
                                   (ma_roles a))))"
| "compile_command h b phases (HArm i epoch start) =
     (case phase_transition phases i 2 3 of
        Err e \<Rightarrow> Err e | Panic \<Rightarrow> Panic
      | Ok phases' \<Rightarrow>
          if start = 0 \<or> start \<noteq> hp_start_frame h then Err EcInvalidStartFrame
          else Ok (phases', Arm i epoch start))"
| "compile_command h b phases (HCommit i epoch) =
     (case phase_transition phases i 3 4 of
        Err e \<Rightarrow> Err e | Panic \<Rightarrow> Panic
      | Ok phases' \<Rightarrow> Ok (phases', Commit i epoch))"

definition envelope_for :: "esp_avb_module_binding \<Rightarrow> endpoint_command \<Rightarrow> esp_avb_control_envelope" where
  "envelope_for b c = \<lparr>ev_endpoint_id = mb_endpoint_id b, ev_stream_id = mb_stream_id b,
     ev_medium = mb_medium b, ev_command = c\<rparr>"

fun compile_loop :: "handover_plan \<Rightarrow> esp_avb_module_binding list \<Rightarrow> (string, u8) btree
    \<Rightarrow> handover_command list \<Rightarrow> (esp_avb_control_envelope list, esp_avb_control_error) outcome" where
  "compile_loop h bs phases [] = Ok []"
| "compile_loop h bs phases (c # cs) =
     (if command_epoch c \<noteq> hp_epoch h then Err EcInvalidEpoch
      else case find (\<lambda>b. mb_module_id b = command_module c) bs of
        None \<Rightarrow> Err EcUnknownModule
      | Some b \<Rightarrow>
          (case compile_command h b phases c of
             Err e \<Rightarrow> Err e | Panic \<Rightarrow> Panic
           | Ok (phases', command) \<Rightarrow>
               (case compile_loop h bs phases' cs of
                  Err e \<Rightarrow> Err e | Panic \<Rightarrow> Panic
                | Ok es \<Rightarrow> Ok (envelope_for b command # es))))"

definition compile_handover_control :: "handover_plan \<Rightarrow> esp_avb_module_binding list
    \<Rightarrow> (esp_avb_control_envelope list, esp_avb_control_error) outcome" where
  "compile_handover_control h bs =
     (if hp_epoch h = 0 then Err EcInvalidEpoch
      else if hp_start_frame h = 0 then Err EcInvalidStartFrame
      else case validate_bindings bs of
        Err e \<Rightarrow> Err e | Panic \<Rightarrow> Panic
      | Ok _ \<Rightarrow> compile_loop h bs [] (hp_commands h))"

section \<open>What is accepted\<close>

definition bindings_ok :: "esp_avb_module_binding list \<Rightarrow> bool" where
  "bindings_ok bs \<longleftrightarrow>
     (\<forall>b\<in>set bs. mb_module_id b \<noteq> [] \<and> mb_endpoint_id b \<noteq> [] \<and> mb_stream_id b \<noteq> 0)
     \<and> distinct (map mb_module_id bs) \<and> distinct (map mb_endpoint_id bs)
     \<and> distinct (map mb_stream_id bs)"

lemma binding_conflicts_iff:
  "binding_conflicts b bs = Ok () \<longleftrightarrow>
     mb_module_id b \<notin> mb_module_id ` set bs \<and> mb_endpoint_id b \<notin> mb_endpoint_id ` set bs
     \<and> mb_stream_id b \<notin> mb_stream_id ` set bs"
  by (induction b bs rule: binding_conflicts.induct) auto

lemma binding_conflicts_no_panic: "binding_conflicts b bs \<noteq> Panic"
  by (induction b bs rule: binding_conflicts.induct) auto

lemma validate_bindings_iff: "validate_bindings bs = Ok () \<longleftrightarrow> bindings_ok bs"
proof (induction bs)
  case Nil
  then show ?case by (simp add: bindings_ok_def)
next
  case (Cons b bs)
  have "validate_bindings (b # bs) = Ok () \<longleftrightarrow>
      mb_module_id b \<noteq> [] \<and> mb_endpoint_id b \<noteq> [] \<and> mb_stream_id b \<noteq> 0
      \<and> binding_conflicts b bs = Ok () \<and> validate_bindings bs = Ok ()"
    by (cases "binding_conflicts b bs") auto
  then show ?case unfolding Cons.IH binding_conflicts_iff by (auto simp: bindings_ok_def)
qed

lemma validate_bindings_no_panic: "validate_bindings bs \<noteq> Panic"
  by (induction bs) (auto simp: binding_conflicts_no_panic split: outcome.split)

lemma bindings_ok_same:
  assumes "bindings_ok bs" "b \<in> set bs" "b' \<in> set bs"
  shows "mb_module_id b = mb_module_id b' \<longleftrightarrow> b = b'" "mb_endpoint_id b = mb_endpoint_id b' \<longleftrightarrow> b = b'"
  using assms by (auto simp: bindings_ok_def distinct_map dest: inj_onD)

lemma find_binding:
  assumes "bindings_ok bs"
  shows "find (\<lambda>b. mb_module_id b = i) bs = Some b \<longleftrightarrow> b \<in> set bs \<and> mb_module_id b = i"
proof
  assume "find (\<lambda>b. mb_module_id b = i) bs = Some b"
  then show "b \<in> set bs \<and> mb_module_id b = i" by (auto simp: find_Some_iff)
next
  assume b: "b \<in> set bs \<and> mb_module_id b = i"
  then have "find (\<lambda>b. mb_module_id b = i) bs \<noteq> None" by (auto simp: find_None_iff)
  then obtain b' where b': "find (\<lambda>b. mb_module_id b = i) bs = Some b'" by blast
  then have "b' \<in> set bs \<and> mb_module_id b' = i" by (auto simp: find_Some_iff)
  then show "find (\<lambda>b. mb_module_id b = i) bs = Some b"
    using b b' bindings_ok_same(1) [OF assms] by auto
qed

definition esp_assignment_ok :: "esp_avb_module_binding \<Rightarrow> module_assignment \<Rightarrow> bool" where
  "esp_assignment_ok b a \<longleftrightarrow>
     ma_roles a \<noteq> [] \<and> length (ma_roles a) \<le> 2 \<and> ma_clock_source a = Ptp
     \<and> (mb_medium b = WiredEsp32P4 \<and> ma_route a = WiredNetwork
        \<or> mb_medium b = WirelessEsp32C6 \<and> ma_route a = WirelessNetwork)"

lemma validate_assignment_iff:
  "validate_assignment b (ma_route a) (ma_clock_source a) (length (ma_roles a)) = Ok ()
     \<longleftrightarrow> esp_assignment_ok b a"
  by (cases "ma_route a"; cases "mb_medium b")
    (auto simp: validate_assignment_def esp_assignment_ok_def ESP_AVB_CHANNELS_PER_STREAM_def)

lemma validate_assignment_no_panic: "validate_assignment b r c n \<noteq> Panic"
  by (cases r; cases "mb_medium b") (auto simp: validate_assignment_def)

text \<open>The position of a command in the order mute, prepare, arm, commit.\<close>

fun command_rank :: "handover_command \<Rightarrow> nat" where
  "command_rank (HMute _ _) = 0"
| "command_rank (HPrepare _ _) = 1"
| "command_rank (HArm _ _ _) = 2"
| "command_rank (HCommit _ _) = 3"

fun esp_command :: "handover_command \<Rightarrow> endpoint_command" where
  "esp_command (HMute i e) = Mute i e"
| "esp_command (HPrepare a e) =
     Prepare (ma_module_id a) e (ma_route a) (ma_clock_source a) (ma_roles a)"
| "esp_command (HArm i e n) = Arm i e n"
| "esp_command (HCommit i e) = Commit i e"

fun command_payload_ok :: "handover_plan \<Rightarrow> esp_avb_module_binding \<Rightarrow> handover_command \<Rightarrow> bool" where
  "command_payload_ok h b (HPrepare a _) = esp_assignment_ok b a"
| "command_payload_ok h b (HArm _ _ n) = (n \<noteq> 0 \<and> n = hp_start_frame h)"
| "command_payload_ok h b _ = True"

definition phase_at :: "(string, u8) btree \<Rightarrow> string \<Rightarrow> nat" where
  "phase_at phases i = unat (case bt_get phases i of None \<Rightarrow> 0 | Some p \<Rightarrow> p)"

lemma phase_transition_Ok:
  "phase_transition phases i required next = Ok phases' \<longleftrightarrow>
     phase_at phases i = unat required \<and> phases' = bt_insert i next phases"
  by (auto simp: phase_transition_def phase_at_def Let_def word_unat_eq_iff)

lemma phase_transition_no_panic: "phase_transition phases i a b \<noteq> Panic"
  by (simp add: phase_transition_def Let_def)

lemma compile_command_Ok:
  "compile_command h b phases c = Ok r \<longleftrightarrow>
     phase_at phases (command_module c) = command_rank c \<and> command_payload_ok h b c
     \<and> r = (bt_insert (command_module c) (of_nat (Suc (command_rank c))) phases, esp_command c)"
proof (cases c)
  case (HPrepare a e)
  then show ?thesis
    by (cases "phase_transition phases (ma_module_id a) 1 2";
        cases "validate_assignment b (ma_route a) (ma_clock_source a) (length (ma_roles a))")
      (auto simp: validate_assignment_iff [symmetric] phase_transition_def phase_at_def Let_def
        word_unat_eq_iff split: if_splits)
qed (auto simp: phase_transition_def phase_at_def Let_def word_unat_eq_iff split: if_splits)

lemma compile_command_no_panic: "compile_command h b phases c \<noteq> Panic"
  by (cases c) (auto simp: phase_transition_no_panic validate_assignment_no_panic
      split: outcome.splits)

text \<open>
  Every command is of the epoch of the handover, addresses a bound module and passes its checks,
  and the commands of each module are a beginning of mute, prepare, arm, commit.
\<close>

definition command_bound :: "handover_plan \<Rightarrow> esp_avb_module_binding list \<Rightarrow> handover_command \<Rightarrow> bool" where
  "command_bound h bs c \<longleftrightarrow> command_epoch c = hp_epoch h
     \<and> (\<exists>b\<in>set bs. mb_module_id b = command_module c \<and> command_payload_ok h b c)"

definition ranks_from :: "(string \<Rightarrow> nat) \<Rightarrow> handover_command list \<Rightarrow> bool" where
  "ranks_from p cs \<longleftrightarrow>
     (\<forall>i. let own = filter (\<lambda>c. command_module c = i) cs in
          map command_rank own = [p i..<p i + length own])"

definition envelope_of :: "esp_avb_module_binding list \<Rightarrow> handover_command \<Rightarrow> esp_avb_control_envelope" where
  "envelope_of bs c =
     envelope_for (the (find (\<lambda>b. mb_module_id b = command_module c) bs)) (esp_command c)"

lemma command_rank_less: "command_rank c < 4"
  by (cases c) simp_all

lemma phase_at_insert:
  "phase_at (bt_insert i (of_nat (Suc (command_rank c))) phases)
     = (phase_at phases)(i := Suc (command_rank c))"
  by (cases c) (simp_all add: phase_at_def bt_get_insert fun_eq_iff)

lemma ranks_from_Cons:
  "ranks_from p (c # cs) \<longleftrightarrow>
     p (command_module c) = command_rank c
     \<and> ranks_from (p(command_module c := Suc (command_rank c))) cs"
proof -
  let ?m = "command_module c"
  let ?own = "\<lambda>i. filter (\<lambda>c. command_module c = i) cs"
  have own: "filter (\<lambda>c. command_module c = i) (c # cs) = (if i = ?m then c # ?own i else ?own i)" for i
    by simp
  have cons: "map command_rank (c # ?own ?m) = [p ?m..<p ?m + length (c # ?own ?m)] \<longleftrightarrow>
      p ?m = command_rank c
      \<and> map command_rank (?own ?m) = [Suc (command_rank c)..<Suc (command_rank c) + length (?own ?m)]"
  proof -
    have "[p ?m..<p ?m + length (c # ?own ?m)] = p ?m # [Suc (p ?m)..<Suc (p ?m) + length (?own ?m)]"
      by (subst upt_conv_Cons) simp_all
    then show ?thesis by (auto simp del: upt_Suc)
  qed
  show ?thesis
    unfolding ranks_from_def Let_def own using cons by (auto split: if_splits)
qed

lemma compile_loop_Ok:
  assumes "bindings_ok bs"
  shows "compile_loop h bs phases cs = Ok es \<longleftrightarrow>
    (\<forall>c\<in>set cs. command_bound h bs c) \<and> ranks_from (phase_at phases) cs
    \<and> es = map (envelope_of bs) cs"
proof (induction cs arbitrary: phases es)
  case Nil
  then show ?case by (auto simp: ranks_from_def)
next
  case (Cons c cs)
  let ?m = "command_module c"
  show ?case
  proof (cases "command_epoch c = hp_epoch h
      \<and> (\<exists>b. find (\<lambda>b. mb_module_id b = ?m) bs = Some b)")
    case False
    then have "\<not> command_bound h bs c" by (auto simp: command_bound_def find_None_iff)
    moreover have "compile_loop h bs phases (c # cs) \<noteq> Ok es" using False by (auto split: option.split)
    ultimately show ?thesis by simp
  next
    case True
    then obtain b where b: "find (\<lambda>b. mb_module_id b = ?m) bs = Some b" by blast
    have own: "b' = b" if "b' \<in> set bs" "mb_module_id b' = ?m" for b'
    proof -
      have "find (\<lambda>b. mb_module_id b = ?m) bs = Some b'" using that find_binding [OF assms] by blast
      then show ?thesis using b by simp
    qed
    have "b \<in> set bs \<and> mb_module_id b = ?m" using b find_binding [OF assms] by blast
    then have bound: "command_bound h bs c \<longleftrightarrow> command_payload_ok h b c"
      using True own unfolding command_bound_def by blast
    let ?phases = "bt_insert ?m (of_nat (Suc (command_rank c))) phases"
    have env: "envelope_of bs c = envelope_for b (esp_command c)" using b by (simp add: envelope_of_def)
    have "compile_loop h bs phases (c # cs) = Ok es \<longleftrightarrow>
        (\<exists>r. compile_command h b phases c = Ok r
          \<and> (\<exists>es'. compile_loop h bs (fst r) cs = Ok es' \<and> es = envelope_for b (snd r) # es'))"
      using True b
      by (cases "compile_command h b phases c"; cases "compile_loop h bs ?phases cs")
        (auto split: prod.splits outcome.splits)
    also have "\<dots> \<longleftrightarrow> phase_at phases ?m = command_rank c \<and> command_payload_ok h b c
        \<and> (\<exists>es'. compile_loop h bs ?phases cs = Ok es' \<and> es = envelope_of bs c # es')"
      by (auto simp: compile_command_Ok env)
    also have "\<dots> \<longleftrightarrow> (\<forall>d\<in>set (c # cs). command_bound h bs d)
        \<and> ranks_from (phase_at phases) (c # cs) \<and> es = map (envelope_of bs) (c # cs)"
      unfolding Cons.IH ranks_from_Cons phase_at_insert bound [symmetric] by auto
    finally show ?thesis .
  qed
qed

lemma compile_loop_no_panic: "compile_loop h bs phases cs \<noteq> Panic"
  by (induction h bs phases cs rule: compile_loop.induct)
    (auto simp: compile_command_no_panic split: outcome.split option.split)

lemma phase_at_Nil: "phase_at [] = (\<lambda>_. 0)"
  by (simp add: phase_at_def bt_get_def fun_eq_iff)

lemma compile_handover_control_Ok:
  "compile_handover_control h bs = Ok es \<longleftrightarrow>
     hp_epoch h \<noteq> 0 \<and> hp_start_frame h \<noteq> 0 \<and> bindings_ok bs
     \<and> (\<forall>c\<in>set (hp_commands h). command_bound h bs c)
     \<and> ranks_from (\<lambda>_. 0) (hp_commands h)
     \<and> es = map (envelope_of bs) (hp_commands h)"
proof (cases "validate_bindings bs")
  case (Ok u)
  then have "bindings_ok bs" using validate_bindings_iff by simp
  from compile_loop_Ok [OF this] this show ?thesis
    using Ok by (simp add: compile_handover_control_def phase_at_Nil)
next
  case (Err e)
  then have "\<not> bindings_ok bs" using validate_bindings_iff by (metis outcome.distinct(1))
  then show ?thesis using Err by (simp add: compile_handover_control_def)
qed (simp add: validate_bindings_no_panic)

section \<open>Composition with the handover and the endpoint\<close>

lemma envelope_of_bound:
  assumes "bindings_ok bs" and "command_bound h bs c" and "b \<in> set bs"
  shows "ev_endpoint_id (envelope_of bs c) = mb_endpoint_id b \<longleftrightarrow> command_module c = mb_module_id b"
proof -
  obtain b' where b': "b' \<in> set bs" "mb_module_id b' = command_module c"
    using assms(2) by (auto simp: command_bound_def)
  then have "find (\<lambda>b. mb_module_id b = command_module c) bs = Some b'"
    using find_binding [OF assms(1)] by simp
  then have "envelope_of bs c = envelope_for b' (esp_command c)" by (simp add: envelope_of_def)
  then show ?thesis
    using b' bindings_ok_same [OF assms(1) b'(1) assms(3)] by (simp add: envelope_for_def)
qed

lemma ev_command_envelope_of [simp]: "ev_command (envelope_of bs c) = esp_command c"
  by (simp add: envelope_of_def envelope_for_def)

lemma endpoint_envelopes:
  assumes "compile_handover_control h bs = Ok es" and "b \<in> set bs"
  shows "map ev_command (filter (\<lambda>v. ev_endpoint_id v = mb_endpoint_id b) es)
    = map esp_command (filter (\<lambda>c. command_module c = mb_module_id b) (hp_commands h))"
proof -
  note ok = assms(1) [unfolded compile_handover_control_Ok]
  have "filter (\<lambda>c. ev_endpoint_id (envelope_of bs c) = mb_endpoint_id b) (hp_commands h)
      = filter (\<lambda>c. command_module c = mb_module_id b) (hp_commands h)"
    using ok assms(2) by (intro filter_cong refl envelope_of_bound) auto
  then show ?thesis using ok by (simp add: filter_map comp_def)
qed

lemma ranks_of_module_commands:
  "map command_rank (module_commands epoch start i a)
     = [0..<length (module_commands epoch start i a)]"
  by (cases a) (simp_all add: upt_rec)

lemma set_hp_commands:
  assumes "build_handover_plan previous next epoch start = Ok h"
  shows "c \<in> set (hp_commands h) \<longleftrightarrow>
    (\<exists>(i, a)\<in>set (changed_modules previous next). c \<in> set (module_commands epoch start i a))"
proof -
  let ?i = "command_module c"
  have own: "command_module d = j" if "d \<in> set (module_commands epoch start j a)"
    "(j, a) \<in> set (changed_modules previous next)" for d j a
    using that changed_own_id [of previous "next"] by (cases a) auto
  have "c \<in> set (hp_commands h) \<longleftrightarrow> c \<in> set (filter (\<lambda>c. command_module c = ?i) (hp_commands h))"
    by simp
  also have "\<dots> \<longleftrightarrow> (\<exists>a. (?i, a) \<in> set (changed_modules previous next)
      \<and> c \<in> set (module_commands epoch start ?i a))"
    unfolding commands_for_module [OF assms] changed_modules_iff by simp
  also have "\<dots> \<longleftrightarrow> (\<exists>(i, a)\<in>set (changed_modules previous next).
      c \<in> set (module_commands epoch start i a))"
    using own by auto
  finally show ?thesis .
qed

definition module_bound ::
  "esp_avb_module_binding list \<Rightarrow> string \<Rightarrow> module_assignment option \<Rightarrow> bool" where
  "module_bound bs i a \<longleftrightarrow> (\<exists>b\<in>set bs. mb_module_id b = i
     \<and> (case a of None \<Rightarrow> True | Some x \<Rightarrow> esp_assignment_ok b x))"

lemma commands_bound_iff:
  assumes "build_handover_plan previous next epoch start = Ok h" and "start \<noteq> 0"
    and "bindings_ok bs" and "(i, a) \<in> set (changed_modules previous next)"
  shows "(\<forall>c\<in>set (module_commands epoch start i a). command_bound h bs c) \<longleftrightarrow> module_bound bs i a"
proof -
  have h: "hp_epoch h = epoch" "hp_start_frame h = start"
    using assms(1) by (auto simp: build_handover_plan_def Let_def split: if_splits)
  have own: "\<forall>x. a = Some x \<longrightarrow> ma_module_id x = i" using changed_own_id assms(4) by blast
  have same: "b = b'" if "b \<in> set bs" "b' \<in> set bs" "mb_module_id b = mb_module_id b'" for b b'
    using bindings_ok_same(1) [OF assms(3) that(1,2)] that(3) by simp
  show ?thesis
    using own assms(2) same
    by (cases a) (auto simp: command_bound_def module_bound_def h)
qed

text \<open>A speaker pod on Wi-Fi, for the witnesses.\<close>

definition pod_plan :: fabric_plan where
  "pod_plan = \<lparr>fp_mode = Cinema, fp_assignments =
     [\<lparr>ma_module_id = ''left-pod'', ma_route = WirelessNetwork, ma_clock_source = Ptp,
       ma_roles = [SurroundLeft]\<rparr>]\<rparr>"

definition pod_binding :: esp_avb_module_binding where
  "pod_binding = \<lparr>mb_module_id = ''left-pod'', mb_endpoint_id = ''esp-left'', mb_stream_id = 17,
     mb_medium = WirelessEsp32C6\<rparr>"

definition pod_handover :: handover_plan where
  "pod_handover = \<lparr>hp_epoch = 7, hp_start_frame = 4800, hp_commands =
     [HMute ''left-pod'' 7, HPrepare (hd (fp_assignments pod_plan)) 7,
      HArm ''left-pod'' 7 4800, HCommit ''left-pod'' 7]\<rparr>"

lemma changed_pod: "changed_modules None pod_plan = [(''left-pod'', Some (hd (fp_assignments pod_plan)))]"
  by (simp add: changed_modules_def handover_ids_def pod_plan_def plan_lookup_def bs_insert_def)

lemma build_pod_handover: "build_handover_plan None pod_plan 7 4800 = Ok pod_handover"
  by (simp add: build_handover_plan_def changed_pod pod_handover_def mute_commands_def
      prepare_commands_def arm_commands_def commit_commands_def)

lemma bindings_ok_pod: "bindings_ok [pod_binding]"
  by (simp add: bindings_ok_def pod_binding_def)

definition pod_envelopes :: "esp_avb_control_envelope list" where
  "pod_envelopes = map (\<lambda>c. \<lparr>ev_endpoint_id = ''esp-left'', ev_stream_id = 17,
     ev_medium = WirelessEsp32C6, ev_command = c\<rparr>)
     [Mute ''left-pod'' 7, Prepare ''left-pod'' 7 WirelessNetwork Ptp [SurroundLeft],
      Arm ''left-pod'' 7 4800, Commit ''left-pod'' 7]"

lemma compile_pod_handover: "compile_handover_control pod_handover [pod_binding] = Ok pod_envelopes"
  by (simp add: compile_handover_control_def pod_handover_def pod_binding_def pod_plan_def
      pod_envelopes_def phase_transition_def Let_def bt_get_insert validate_assignment_def
      ESP_AVB_CHANNELS_PER_STREAM_def envelope_for_def bt_get_def)

text \<open>
  what the ESP-AVB bridge accepts of a planned handover: exactly when the start frame is
  nonzero, the bindings are well formed and pairwise distinct, and every module that changes is
  bound to an endpoint, which for a module with a next assignment carries one or two roles over
  PTP on the network its medium belongs to.  The order checks never refuse a planned handover.
\<close>

theorem esp_control_accepts_iff:
  assumes "build_handover_plan previous next epoch start = Ok h"
  shows "(\<exists>es. compile_handover_control h bs = Ok es) \<longleftrightarrow>
    start \<noteq> 0 \<and> bindings_ok bs \<and> (\<forall>(i, a)\<in>set (changed_modules previous next). module_bound bs i a)"
proof -
  have h: "hp_epoch h = epoch" "hp_start_frame h = start" "epoch \<noteq> 0"
    using assms by (auto simp: build_handover_plan_def Let_def split: if_splits)
  have ranks: "ranks_from (\<lambda>_. 0) (hp_commands h)"
    by (simp add: ranks_from_def commands_for_module [OF assms] ranks_of_module_commands)
  have bound: "(\<forall>c\<in>set (hp_commands h). command_bound h bs c) \<longleftrightarrow>
      (\<forall>(i, a)\<in>set (changed_modules previous next). module_bound bs i a)"
    if "start \<noteq> 0" "bindings_ok bs"
    using commands_bound_iff [OF assms that] set_hp_commands [OF assms] by fast
  show ?thesis
    unfolding compile_handover_control_Ok h using ranks bound h(3) by auto
qed

theorem esp_control_accepts_iff_witness:
  "(\<exists>es. compile_handover_control pod_handover [pod_binding] = Ok es)
     \<and> \<not> (\<exists>es. compile_handover_control pod_handover [pod_binding\<lparr>mb_medium := WiredEsp32P4\<rparr>] = Ok es)"
  unfolding esp_control_accepts_iff [OF build_pod_handover] changed_pod
  by (simp add: bindings_ok_def module_bound_def pod_binding_def esp_assignment_ok_def pod_plan_def)

text \<open>
  C36: the three layers compose.  When a planned handover compiles for the bindings, a bound
  endpoint whose module is given a new assignment, fed the envelopes addressed to it in order and
  then the media frame of the start, plays exactly that assignment, provided it is not faulted,
  has seen no epoch as new, and its own checks of route and synchronization pass.
\<close>

theorem esp_handover_plays:
  assumes "build_handover_plan previous next epoch start = Ok h"
    and "compile_handover_control h bs = Ok es"
    and "b \<in> set bs" and "mb_module_id b = module_id s"
    and "plan_lookup (Some next) (module_id s) = Some a"
    and "plan_lookup previous (module_id s) \<noteq> Some a"
    and "phase s \<noteq> Fault" and "\<not> is_some_and (\<lambda>c. epoch \<le> c) (current_epoch s)"
    and "validate_route s (ma_route a) Ptp (ma_roles a) = Ok ()"
    and "r = \<lparr>er_epoch = epoch, er_route = ma_route a, er_clock_source = Ptp,
              er_roles = ma_roles a, er_start_frame = Some start\<rparr>"
    and "sync_ok s r"
    and "commands = map ev_command (filter (\<lambda>v. ev_endpoint_id v = mb_endpoint_id b) es)"
  shows "endpoint_run (map Apply commands @ [OnMediaFrame start]) s = s\<lparr>current_epoch := Some epoch,
    pending := None, active := Some r, phase := Playing, amplifier_muted := False\<rparr>"
proof -
  let ?i = "module_id s"
  note ok = assms(2) [unfolded compile_handover_control_Ok]
  have id: "ma_module_id a = ?i" using assms(5) by (rule plan_lookup_Some)
  have own: "filter (\<lambda>c. command_module c = ?i) (hp_commands h)
      = [HMute ?i epoch, HPrepare a epoch, HArm ?i epoch start, HCommit ?i epoch]"
    using assms(5,6) by (simp add: commands_for_module [OF assms(1)])
  have "HPrepare a epoch \<in> set (filter (\<lambda>c. command_module c = ?i) (hp_commands h))"
    unfolding own by simp
  then have "command_bound h bs (HPrepare a epoch)" using ok by simp
  then have ptp: "ma_clock_source a = Ptp" by (auto simp: command_bound_def esp_assignment_ok_def)
  have start: "start \<noteq> 0"
    using ok assms(1) by (auto simp: build_handover_plan_def Let_def split: if_splits)
  have "map Apply commands @ [OnMediaFrame start] = handshake_of ?i r"
    using endpoint_envelopes [OF assms(2,3)] own
    by (simp add: assms(4,10,12) handshake_of_def id ptp)
  then show ?thesis using endpoint_handshake_run [OF assms(7,8) start assms(10,9,11)] by simp
qed

theorem esp_handover_plays_witness:
  "phase (endpoint_run (map Apply (map ev_command pod_envelopes) @ [OnMediaFrame 4800])
      (endpoint_run (take 2 pod_start_ops) pod_endpoint)) = Playing"
proof -
  let ?s = "endpoint_run (take 2 pod_start_ops) pod_endpoint"
  let ?a = "hd (fp_assignments pod_plan)"
  have id: "module_id ?s = ''left-pod''" by (simp add: pod_endpoint_def)
  have s: "phase ?s \<noteq> Fault" "\<not> is_some_and (\<lambda>c. 7 \<le> c) (current_epoch ?s)"
    "validate_route ?s (ma_route ?a) Ptp (ma_roles ?a) = Ok ()"
    "sync_ok ?s \<lparr>er_epoch = 7, er_route = ma_route ?a, er_clock_source = Ptp,
              er_roles = ma_roles ?a, er_start_frame = Some 4800\<rparr>"
    by (simp_all add: pod_simps sync_ok_def pod_plan_def)
  have p: "pod_binding \<in> set [pod_binding]" "mb_module_id pod_binding = module_id ?s"
    "plan_lookup (Some pod_plan) (module_id ?s) = Some ?a"
    "plan_lookup None (module_id ?s) \<noteq> Some ?a"
    unfolding id by (simp_all add: pod_binding_def plan_lookup_def pod_plan_def)
  have e: "map ev_command pod_envelopes = map ev_command
      (filter (\<lambda>v. ev_endpoint_id v = mb_endpoint_id pod_binding) pod_envelopes)"
    by (simp add: pod_envelopes_def pod_binding_def)
  show ?thesis
    using esp_handover_plays [OF build_pod_handover compile_pod_handover p s(1,2,3) refl s(4) e] by simp
qed

end
