(* ===== verification/Fabric_Routes.thy ===== *)
theory Fabric_Routes
  imports Fabric_Planner Network_Api
begin

text \<open>
  \<open>materialize_network_routes\<close> of
  \<open>src/crates/aurora-modular-speaker-fabric/src/lib.rs\<close>: the translation of an admitted plan
  into network streams on the canonical 7.1.4 bus.
\<close>

section \<open>Translation\<close>

record network_route_spec =
  nr_module_id :: string
  source_channel_indices :: "usize list"
  stream :: network_stream_config

datatype network_route_error =
  InvalidBlockSize | UnsupportedRole | UnsupportedClockSource | Timing network_transport_error

definition is_network_module_route :: "module_route \<Rightarrow> bool" where
  "is_network_module_route r \<longleftrightarrow> r \<in> {WiredNetwork, WirelessNetwork}"

fun clock_discipline_of ::
  "module_clock_source \<Rightarrow> (network_clock_discipline, network_route_error) outcome" where
  "clock_discipline_of Ptp = Ok PtpFollower"
| "clock_discipline_of AdaptivePeer = Ok AdaptiveRateFollower"
| "clock_discipline_of DockRecovered = Err UnsupportedClockSource"
| "clock_discipline_of Unlocked = Err UnsupportedClockSource"

fun role_indices :: "usize list \<Rightarrow> channel_role list \<Rightarrow> (usize list, network_route_error) outcome" where
  "role_indices indices [] = Ok indices"
| "role_indices indices (role # roles) =
     (case position (\<lambda>candidate. candidate = role) (canonical_roles SevenOneFour) of
        None \<Rightarrow> Err UnsupportedRole
      | Some index \<Rightarrow> role_indices (indices @ [of_nat index]) roles)"

fun materialize_assignments ::
  "usize \<Rightarrow> network_timing_policy \<Rightarrow> network_route_spec list \<Rightarrow> module_assignment list
    \<Rightarrow> (network_route_spec list, network_route_error) outcome" where
  "materialize_assignments frames tm routes [] = Ok routes"
| "materialize_assignments frames tm routes (a # as) =
     (if \<not> is_network_module_route (ma_route a) then materialize_assignments frames tm routes as
      else case clock_discipline_of (ma_clock_source a) of
        Err e \<Rightarrow> Err e | Panic \<Rightarrow> Panic
      | Ok discipline \<Rightarrow>
          (case role_indices [] (ma_roles a) of
             Err e \<Rightarrow> Err e | Panic \<Rightarrow> Panic
           | Ok indices \<Rightarrow>
               materialize_assignments frames tm
                 (routes @ [\<lparr>nr_module_id = ma_module_id a, source_channel_indices = indices,
                    stream = \<lparr>sc_format = \<lparr>sample_rate = AURORA_NETWORK_MEDIA_RATE,
                        channels = of_nat (length (ma_roles a)), block_frames = frames\<rparr>,
                      clock_discipline = discipline, timing = tm\<rparr>\<rparr>]) as))"

definition materialize_network_routes ::
  "fabric_plan \<Rightarrow> usize \<Rightarrow> network_timing_policy
    \<Rightarrow> (network_route_spec list, network_route_error) outcome" where
  "materialize_network_routes plan frames tm =
     (if frames = 0 then Err InvalidBlockSize
      else case timing_validate tm of
        Err e \<Rightarrow> Err (Timing e) | Panic \<Rightarrow> Panic
      | Ok _ \<Rightarrow> materialize_assignments frames tm [] (fp_assignments plan))"

section \<open>What it produces\<close>

text \<open>
  The index of a role on the canonical bus and the stream of one assignment, without the loops
  and early returns.
\<close>

definition bus_index :: "channel_role \<Rightarrow> nat" where
  "bus_index r = the (position (\<lambda>c. c = r) (canonical_roles SevenOneFour))"

fun is_custom :: "channel_role \<Rightarrow> bool" where
  "is_custom (Custom _) = True"
| "is_custom _ = False"

definition materializable :: "module_assignment \<Rightarrow> bool" where
  "materializable a \<longleftrightarrow>
     is_network_module_route (ma_route a) \<longrightarrow>
       is_ok (clock_discipline_of (ma_clock_source a)) \<and> (\<forall>r\<in>set (ma_roles a). \<not> is_custom r)"

definition route_of_assignment ::
  "usize \<Rightarrow> network_timing_policy \<Rightarrow> module_assignment \<Rightarrow> network_route_spec" where
  "route_of_assignment frames tm a =
     \<lparr>nr_module_id = ma_module_id a,
      source_channel_indices = map (of_nat \<circ> bus_index) (ma_roles a),
      stream = \<lparr>sc_format = \<lparr>sample_rate = AURORA_NETWORK_MEDIA_RATE,
          channels = of_nat (length (ma_roles a)), block_frames = frames\<rparr>,
        clock_discipline =
          (if ma_clock_source a = Ptp then PtpFollower else AdaptiveRateFollower),
        timing = tm\<rparr>\<rparr>"

lemma bus_index_position:
  "\<not> is_custom r \<Longrightarrow>
     position (\<lambda>c. c = r) (canonical_roles SevenOneFour) = Some (bus_index r)"
  by (cases r) (simp_all add: bus_index_def)

lemma position_custom: "is_custom r \<Longrightarrow>
     position (\<lambda>c. c = r) (canonical_roles SevenOneFour) = None"
  by (cases r) simp_all

lemma is_custom_iff: "is_custom r \<longleftrightarrow> (\<exists>v. r = Custom v)"
  by (cases r) auto

lemma not_custom_canonical: "\<not> is_custom r \<longleftrightarrow> r \<in> set (canonical_roles SevenOneFour)"
  by (auto simp: canonical_714_iff is_custom_iff simp del: canonical_roles.simps)

lemma bus_index_less: "\<not> is_custom r \<Longrightarrow> bus_index r < 12"
  by (cases r) (simp_all add: bus_index_def)

lemma bus_index_inj: "inj_on bus_index {r. \<not> is_custom r}"
proof (rule inj_onI)
  fix r s
  assume "r \<in> {r. \<not> is_custom r}" "s \<in> {r. \<not> is_custom r}" and eq: "bus_index r = bus_index s"
  then have "canonical_roles SevenOneFour ! bus_index r = r"
    "canonical_roles SevenOneFour ! bus_index s = s"
    using bus_index_position position_Some by blast+
  with eq show "r = s" by simp
qed

lemma unat_bus_index: "\<not> is_custom r \<Longrightarrow> unat (of_nat (bus_index r) :: usize) = bus_index r"
  using bus_index_less [of r] by (simp add: unat_of_nat)

lemma role_indices_iff:
  "role_indices acc rs = Ok is \<longleftrightarrow>
     (\<forall>r\<in>set rs. \<not> is_custom r) \<and> is = acc @ map (of_nat \<circ> bus_index) rs"
proof (induction rs arbitrary: acc)
  case (Cons r rs)
  then show ?case
    by (cases "is_custom r") (auto simp: bus_index_position position_custom simp del: canonical_roles.simps)
qed auto

lemma role_indices_no_panic: "role_indices acc rs \<noteq> Panic"
  by (induction acc rs rule: role_indices.induct) (auto split: option.splits)

lemma clock_discipline_of_Ok:
  "clock_discipline_of c = Ok d \<longleftrightarrow>
     c \<in> {Ptp, AdaptivePeer} \<and> d = (if c = Ptp then PtpFollower else AdaptiveRateFollower)"
  by (cases c) auto

lemma clock_discipline_of_no_panic: "clock_discipline_of c \<noteq> Panic"
  by (cases c) auto

lemma materialize_step:
  assumes "is_network_module_route (ma_route a)"
  shows "materialize_assignments frames tm acc (a # as) = Ok routes \<longleftrightarrow>
    materializable a
    \<and> materialize_assignments frames tm (acc @ [route_of_assignment frames tm a]) as = Ok routes"
proof (cases "materializable a")
  case True
  with assms obtain d where d: "clock_discipline_of (ma_clock_source a) = Ok d"
    by (auto simp: materializable_def is_ok_iff)
  have "role_indices [] (ma_roles a) = Ok (map (of_nat \<circ> bus_index) (ma_roles a))"
    using True assms by (simp add: role_indices_iff materializable_def)
  with True assms d show ?thesis
    by (auto simp: route_of_assignment_def clock_discipline_of_Ok)
next
  case False
  then show ?thesis
    using assms by (auto simp: materializable_def role_indices_iff is_ok_iff split: outcome.split)
qed

lemma materialize_assignments_iff:
  "materialize_assignments frames tm acc as = Ok routes \<longleftrightarrow>
     (\<forall>a\<in>set as. materializable a)
     \<and> routes = acc @ map (route_of_assignment frames tm)
         (filter (is_network_module_route \<circ> ma_route) as)"
proof (induction as arbitrary: acc)
  case (Cons a as)
  show ?case
  proof (cases "is_network_module_route (ma_route a)")
    case True
    then show ?thesis
      using Cons.IH [of "acc @ [route_of_assignment frames tm a]"]
      by (auto simp: materialize_step simp del: materialize_assignments.simps)
  next
    case False
    then show ?thesis using Cons.IH by (simp add: materializable_def)
  qed
qed auto

lemma materialize_assignments_no_panic: "materialize_assignments frames tm acc as \<noteq> Panic"
  by (induction as arbitrary: acc)
    (auto simp: clock_discipline_of_no_panic role_indices_no_panic split: outcome.splits)

lemma materialize_network_routes_Ok:
  "materialize_network_routes plan frames tm = Ok routes \<longleftrightarrow>
     frames \<noteq> 0 \<and> timing_validate tm = Ok ()
     \<and> (\<forall>a\<in>set (fp_assignments plan). materializable a)
     \<and> routes = map (route_of_assignment frames tm)
         (filter (is_network_module_route \<circ> ma_route) (fp_assignments plan))"
  by (simp add: materialize_network_routes_def materialize_assignments_iff split: outcome.split)

lemma materialize_network_routes_no_panic: "materialize_network_routes plan frames tm \<noteq> Panic"
  by (simp add: materialize_network_routes_def materialize_assignments_no_panic
      split: outcome.split)

end
