(* ===== verification/Fabric_Fanout.thy ===== *)
theory Fabric_Fanout
  imports Fabric_Routes
begin

text \<open>
  \<open>PreparedModuleNetworkFanout\<close> of
  \<open>src/crates/aurora-modular-speaker-fabric/src/lib.rs\<close>: the validated route table, the copy
  of one canonical 12-channel block into the per-module buffers, and the continuity check of
  sequence numbers and media timestamps.
\<close>

section \<open>State and preparation\<close>

record module_fanout =
  routes :: "network_route_spec list"
  input_format :: network_audio_format
  buffers :: "f32 list list"
  current_sequence :: "u64 option"
  current_timestamp :: "media_timestamp option"
  next_sequence :: "u64 option"
  next_timestamp :: "media_timestamp option"

datatype network_fanout_error =
    NoRoutes | InvalidRoute | InvalidInput | InvalidRouteIndex | NoBlockReady
  | TimelineDiscontinuity

fun claim_sources :: "bool list \<Rightarrow> usize list \<Rightarrow> (bool list, network_fanout_error) outcome" where
  "claim_sources seen [] = Ok seen"
| "claim_sources seen (source # ss) =
     (if 12 \<le> source \<or> seen ! unat source then Err InvalidRoute
      else claim_sources (seen[unat source := True]) ss)"

definition route_shape_ok :: "usize \<Rightarrow> network_route_spec \<Rightarrow> bool" where
  "route_shape_ok frames r \<longleftrightarrow>
     \<not> (source_channel_indices r = []
        \<or> length (source_channel_indices r) \<noteq> unat (channels (sc_format (stream r)))
        \<or> sample_rate (sc_format (stream r)) \<noteq> AURORA_NETWORK_MEDIA_RATE
        \<or> block_frames (sc_format (stream r)) \<noteq> frames
        \<or> clock_discipline (stream r) \<notin> {PtpFollower, AdaptiveRateFollower})"

fun fanout_scan ::
  "usize \<Rightarrow> string list \<Rightarrow> bool list \<Rightarrow> f32 list list \<Rightarrow> network_route_spec list
    \<Rightarrow> (f32 list list, network_fanout_error) outcome" where
  "fanout_scan frames seen_modules seen_sources bufs [] = Ok bufs"
| "fanout_scan frames seen_modules seen_sources bufs (r # rs) =
     (if nr_module_id r = [] \<or> nr_module_id r \<in> set seen_modules then Err InvalidRoute
      else if \<not> route_shape_ok frames r then Err InvalidRoute
      else case claim_sources seen_sources (source_channel_indices r) of
        Err e \<Rightarrow> Err e | Panic \<Rightarrow> Panic
      | Ok seen' \<Rightarrow>
          (case samples_per_block (sc_format (stream r)) of
             None \<Rightarrow> Err InvalidRoute
           | Some n \<Rightarrow>
               fanout_scan frames (bs_insert (nr_module_id r) seen_modules) seen'
                 (bufs @ [replicate (unat n) 0]) rs))"

definition fanout_prepare ::
  "network_route_spec list \<Rightarrow> (module_fanout, network_fanout_error) outcome" where
  "fanout_prepare rs =
     (case rs of
        [] \<Rightarrow> Err NoRoutes
      | first # _ \<Rightarrow>
          let frames = block_frames (sc_format (stream first)) in
          if frames = 0 then Err InvalidRoute
          else case fanout_scan frames [] (replicate 12 False) [] rs of
            Err e \<Rightarrow> Err e | Panic \<Rightarrow> Panic
          | Ok bufs \<Rightarrow>
              Ok \<lparr>routes = rs,
                  input_format = \<lparr>sample_rate = AURORA_NETWORK_MEDIA_RATE, channels = 12,
                                  block_frames = frames\<rparr>,
                  buffers = bufs, current_sequence = None, current_timestamp = None,
                  next_sequence = None, next_timestamp = None\<rparr>)"

section \<open>Copying a block\<close>

text \<open>
  The three nested loops of \<open>split\<close>: lanes of one route, routes of one frame, frames of the
  block.  An index outside its slice is \<open>Panic\<close>.  Positions are computed on naturals: after
  \<open>validate\<close> and \<open>prepare\<close> every product is below the length of a buffer, so the machine
  arithmetic does not wrap.
\<close>

fun copy_lanes ::
  "f32 list \<Rightarrow> nat \<Rightarrow> nat \<Rightarrow> usize list \<Rightarrow> f32 list \<Rightarrow> (f32 list, network_fanout_error) outcome" where
  "copy_lanes input in_base out_at [] out = Ok out"
| "copy_lanes input in_base out_at (source # ss) out =
     (case get_at input (in_base + unat source) of
        None \<Rightarrow> Panic
      | Some x \<Rightarrow>
          if out_at < length out
          then copy_lanes input in_base (Suc out_at) ss (out[out_at := x])
          else Panic)"

fun copy_routes ::
  "f32 list \<Rightarrow> nat \<Rightarrow> nat \<Rightarrow> nat \<Rightarrow> network_route_spec list \<Rightarrow> f32 list list
    \<Rightarrow> (f32 list list, network_fanout_error) outcome" where
  "copy_routes input in_base frame route_index [] bufs = Ok bufs"
| "copy_routes input in_base frame route_index (r # rs) bufs =
     (case get_at bufs route_index of
        None \<Rightarrow> Panic
      | Some out \<Rightarrow>
          (case copy_lanes input in_base (frame * length (source_channel_indices r))
                  (source_channel_indices r) out of
             Err e \<Rightarrow> Err e | Panic \<Rightarrow> Panic
           | Ok out' \<Rightarrow>
               copy_routes input in_base frame (Suc route_index) rs
                 (bufs[route_index := out'])))"

fun copy_frames ::
  "f32 list \<Rightarrow> nat \<Rightarrow> network_route_spec list \<Rightarrow> nat list \<Rightarrow> f32 list list
    \<Rightarrow> (f32 list list, network_fanout_error) outcome" where
  "copy_frames input in_channels rs [] bufs = Ok bufs"
| "copy_frames input in_channels rs (frame # frames) bufs =
     (case copy_routes input (frame * in_channels) frame 0 rs bufs of
        Err e \<Rightarrow> Err e | Panic \<Rightarrow> Panic
      | Ok bufs' \<Rightarrow> copy_frames input in_channels rs frames bufs')"

section \<open>Operations\<close>

definition fanout_split ::
  "network_audio_block \<Rightarrow> module_fanout \<Rightarrow> (unit, network_fanout_error) outcome \<times> module_fanout" where
  "fanout_split b f =
     (if \<not> is_ok (block_validate b) then (Err InvalidInput, f)
      else if format b \<noteq> input_format f then (Err InvalidInput, f)
      else if is_some_and (\<lambda>expected. sequence b \<noteq> expected) (next_sequence f)
      then (Err TimelineDiscontinuity, f)
      else if is_some_and (\<lambda>expected. timestamp b \<noteq> expected) (next_timestamp f)
      then (Err TimelineDiscontinuity, f)
      else case copy_frames (samples b) (unat (channels (input_format f))) (routes f)
                  [0..<unat (block_frames (input_format f))] (buffers f) of
        Err e \<Rightarrow> (Err e, f) | Panic \<Rightarrow> (Panic, f)
      | Ok bufs \<Rightarrow>
          let f1 = f\<lparr>buffers := bufs, current_sequence := Some (sequence b),
                     current_timestamp := Some (timestamp b)\<rparr> in
          (case checked_add (sequence b) 1 of
             None \<Rightarrow> (Err TimelineDiscontinuity, f1)
           | Some next \<Rightarrow>
               let f2 = f1\<lparr>next_sequence := Some next\<rparr> in
               (case checked_advance (timestamp b) (block_frames (format b)) of
                  Ok t \<Rightarrow> (Ok (), f2\<lparr>next_timestamp := Some t\<rparr>)
                | Err _ \<Rightarrow> (Err TimelineDiscontinuity, f2)
                | Panic \<Rightarrow> (Panic, f2))))"

definition module_block ::
  "nat \<Rightarrow> module_fanout \<Rightarrow> (network_audio_block, network_fanout_error) outcome" where
  "module_block route_index f =
     (case get_at (routes f) route_index of
        None \<Rightarrow> Err InvalidRouteIndex
      | Some r \<Rightarrow>
          (case get_at (buffers f) route_index of
             None \<Rightarrow> Err InvalidRouteIndex
           | Some xs \<Rightarrow>
               (case current_sequence f of
                  None \<Rightarrow> Err NoBlockReady
                | Some sq \<Rightarrow>
                    (case current_timestamp f of
                       None \<Rightarrow> Err NoBlockReady
                     | Some ts \<Rightarrow>
                         Ok \<lparr>sequence = sq, timestamp = ts, format = sc_format (stream r),
                             samples = xs\<rparr>))))"

definition fanout_route ::
  "nat \<Rightarrow> module_fanout \<Rightarrow> (network_route_spec, network_fanout_error) outcome" where
  "fanout_route route_index f =
     (case get_at (routes f) route_index of None \<Rightarrow> Err InvalidRouteIndex | Some r \<Rightarrow> Ok r)"

definition fanout_reset :: "module_fanout \<Rightarrow> module_fanout" where
  "fanout_reset f =
     f\<lparr>current_sequence := None, current_timestamp := None, next_sequence := None,
       next_timestamp := None\<rparr>"

section \<open>What preparation guarantees\<close>

definition route_wf :: "usize \<Rightarrow> network_route_spec \<Rightarrow> bool" where
  "route_wf frames r \<longleftrightarrow>
     nr_module_id r \<noteq> [] \<and> route_shape_ok frames r
     \<and> (\<forall>s\<in>set (source_channel_indices r). s < 12)
     \<and> length (source_channel_indices r) * unat frames < 2 ^ 64"

definition silent_buffer :: "usize \<Rightarrow> network_route_spec \<Rightarrow> f32 list" where
  "silent_buffer frames r = replicate (length (source_channel_indices r) * unat frames) 0"

definition claimed :: "bool list \<Rightarrow> usize set" where
  "claimed seen = {s. s < 12 \<and> seen ! unat s}"

lemma unat_less_12: "s < (12 :: usize) \<Longrightarrow> unat s < 12"
  by (simp add: word_less_nat_alt)

lemma claimed_update:
  "length seen = 12 \<Longrightarrow> s < 12 \<Longrightarrow> claimed (seen[unat s := True]) = insert s (claimed seen)"
  by (auto simp: claimed_def nth_list_update unat_less_12 word_unat_eq_iff split: if_splits)

lemma claim_sources_iff:
  assumes "length seen = 12"
  shows "is_ok (claim_sources seen ss) \<longleftrightarrow>
    (\<forall>s\<in>set ss. s < 12) \<and> distinct ss \<and> claimed seen \<inter> set ss = {}"
  using assms
proof (induction ss arbitrary: seen)
  case (Cons s ss)
  show ?case
  proof (cases "s < 12 \<and> s \<notin> claimed seen")
    case True
    then show ?thesis
      using Cons claimed_update [of seen s]
      by (auto simp: claimed_def not_le [symmetric])
  next
    case False
    then show ?thesis by (auto simp: claimed_def not_less)
  qed
qed simp

lemma claim_sources_claimed:
  "length seen = 12 \<Longrightarrow> claim_sources seen ss = Ok seen' \<Longrightarrow>
     length seen' = 12 \<and> claimed seen' = claimed seen \<union> set ss"
  by (induction seen ss rule: claim_sources.induct)
    (auto simp: claimed_update not_le split: if_splits)

lemma claim_sources_no_panic: "claim_sources seen ss \<noteq> Panic"
  by (induction seen ss rule: claim_sources.induct) auto

lemma route_shape_samples:
  "route_shape_ok frames r \<Longrightarrow> samples_per_block (sc_format (stream r)) =
     (if length (source_channel_indices r) * unat frames < 2 ^ 64
      then Some (channels (sc_format (stream r)) * frames) else None)"
  by (auto simp: route_shape_ok_def samples_per_block_def checked_mul_def)

lemma route_shape_unat:
  "route_shape_ok frames r \<Longrightarrow> length (source_channel_indices r) * unat frames < 2 ^ 64 \<Longrightarrow>
     unat (channels (sc_format (stream r)) * frames) = length (source_channel_indices r) * unat frames"
  by (auto simp: route_shape_ok_def unat_mul_no_overflow)

lemma fanout_scan_iff:
  assumes "length seen = 12"
  shows "fanout_scan frames mods seen bufs rs = Ok bufs' \<longleftrightarrow>
    (\<forall>r\<in>set rs. route_wf frames r) \<and> distinct (map nr_module_id rs)
    \<and> set mods \<inter> set (map nr_module_id rs) = {}
    \<and> distinct (concat (map source_channel_indices rs))
    \<and> claimed seen \<inter> set (concat (map source_channel_indices rs)) = {}
    \<and> bufs' = bufs @ map (silent_buffer frames) rs"
  using assms
proof (induction rs arbitrary: mods seen bufs)
  case Nil
  then show ?case by auto
next
  case (Cons r rs)
  show ?case
  proof (cases "route_wf frames r \<and> nr_module_id r \<notin> set mods
      \<and> distinct (source_channel_indices r) \<and> claimed seen \<inter> set (source_channel_indices r) = {}")
    case True
    then obtain seen' where seen': "claim_sources seen (source_channel_indices r) = Ok seen'"
      using claim_sources_iff [OF Cons.prems, of "source_channel_indices r"]
      by (auto simp: route_wf_def is_ok_iff)
    have after: "length seen' = 12"
      "claimed seen' = claimed seen \<union> set (source_channel_indices r)"
      using claim_sources_claimed [OF Cons.prems seen'] by auto
    have shape: "samples_per_block (sc_format (stream r)) = Some (channels (sc_format (stream r)) * frames)"
      "unat (channels (sc_format (stream r)) * frames)
        = length (source_channel_indices r) * unat frames"
      using True route_shape_samples [of frames r] route_shape_unat [of frames r]
      by (simp_all add: route_wf_def)
    have "fanout_scan frames mods seen bufs (r # rs) =
        fanout_scan frames (bs_insert (nr_module_id r) mods) seen'
          (bufs @ [silent_buffer frames r]) rs"
      using True seen' shape by (simp add: route_wf_def silent_buffer_def)
    then show ?thesis
      using True Cons.IH [OF after(1)] after(2) by auto
  next
    case False
    then have "\<not> is_ok (fanout_scan frames mods seen bufs (r # rs))"
      using claim_sources_iff [OF Cons.prems, of "source_channel_indices r"]
      by (auto simp: route_wf_def route_shape_samples split: outcome_split)
    then show ?thesis using False by (auto simp: is_ok_iff)
  qed
qed

lemma fanout_scan_no_panic: "fanout_scan frames mods seen bufs rs \<noteq> Panic"
  by (induction frames mods seen bufs rs rule: fanout_scan.induct)
    (auto simp: claim_sources_no_panic split: outcome_split)

text \<open>The route table a prepared fanout holds.\<close>

definition route_table_ok :: "usize \<Rightarrow> network_route_spec list \<Rightarrow> bool" where
  "route_table_ok frames rs \<longleftrightarrow>
     rs \<noteq> [] \<and> frames \<noteq> 0 \<and> (\<forall>r\<in>set rs. route_wf frames r) \<and> distinct (map nr_module_id rs)
     \<and> distinct (concat (map source_channel_indices rs))"

definition fanout_fresh :: "usize \<Rightarrow> network_route_spec list \<Rightarrow> module_fanout" where
  "fanout_fresh frames rs =
     \<lparr>routes = rs,
      input_format = \<lparr>sample_rate = AURORA_NETWORK_MEDIA_RATE, channels = 12,
                      block_frames = frames\<rparr>,
      buffers = map (silent_buffer frames) rs, current_sequence = None,
      current_timestamp = None, next_sequence = None, next_timestamp = None\<rparr>"

lemma fanout_prepare_Ok:
  "fanout_prepare rs = Ok f \<longleftrightarrow>
     (\<exists>frames. route_table_ok frames rs \<and> f = fanout_fresh frames rs)"
proof (cases rs)
  case Nil
  then show ?thesis by (simp add: fanout_prepare_def route_table_ok_def)
next
  case (Cons r rs')
  have claim: "claimed (replicate 12 False) = {}"
    by (auto simp: claimed_def unat_less_12)
  have frames: "frames = block_frames (sc_format (stream r))" if "route_table_ok frames rs" for frames
    using that Cons by (auto simp: route_table_ok_def route_wf_def route_shape_ok_def)
  have scan: "fanout_scan n [] (replicate 12 False) [] rs = Ok bufs \<longleftrightarrow>
      (route_table_ok n rs \<and> bufs = map (silent_buffer n) rs)" if "n \<noteq> 0" for n bufs
    using that fanout_scan_iff [of "replicate 12 False" n "[]" "[]" rs bufs] Cons
    by (auto simp: claim route_table_ok_def)
  show ?thesis
  proof (cases "block_frames (sc_format (stream r)) = 0")
    case True
    then show ?thesis
      using Cons frames by (auto simp: fanout_prepare_def route_table_ok_def)
  next
    case False
    then have "fanout_prepare rs = Ok f \<longleftrightarrow>
        (\<exists>bufs. fanout_scan (block_frames (sc_format (stream r))) [] (replicate 12 False) [] rs = Ok bufs
           \<and> f = fanout_fresh (block_frames (sc_format (stream r))) rs\<lparr>buffers := bufs\<rparr>)"
      using Cons by (simp add: fanout_prepare_def Let_def fanout_fresh_def split: outcome.split) auto
    then show ?thesis
      using scan [OF False] frames by (auto simp: fanout_fresh_def)
  qed
qed

lemma fanout_prepare_no_panic: "fanout_prepare rs \<noteq> Panic"
  by (auto simp: fanout_prepare_def Let_def fanout_scan_no_panic split: list.split outcome.split)

section \<open>What a split copies\<close>

text \<open>
  The reference: the samples of the routed channels, frame by frame.  \<open>put_row\<close> replaces a
  slice of a buffer.
\<close>

definition lane_row :: "f32 list \<Rightarrow> nat \<Rightarrow> usize list \<Rightarrow> f32 list" where
  "lane_row input in_base ss = map (\<lambda>s. input ! (in_base + unat s)) ss"

definition gather :: "f32 list \<Rightarrow> nat \<Rightarrow> usize list \<Rightarrow> nat \<Rightarrow> f32 list" where
  "gather input in_channels ss n =
     concat (map (\<lambda>frame. lane_row input (frame * in_channels) ss) [0..<n])"

definition put_row :: "nat \<Rightarrow> 'a list \<Rightarrow> 'a list \<Rightarrow> 'a list" where
  "put_row at row xs = take at xs @ row @ drop (at + length row) xs"

lemma length_lane_row [simp]: "length (lane_row input base ss) = length ss"
  by (simp add: lane_row_def)

lemma length_gather [simp]: "length (gather input c ss n) = n * length ss"
  by (induction n) (simp_all add: gather_def)

lemma gather_Suc: "gather input c ss (Suc n) = gather input c ss n @ lane_row input (n * c) ss"
  by (simp add: gather_def)

lemma length_put_row: "at + length row \<le> length xs \<Longrightarrow> length (put_row at row xs) = length xs"
  by (simp add: put_row_def)

lemma copy_lanes_put_row:
  "at + length ss \<le> length out \<Longrightarrow> (\<And>s. s \<in> set ss \<Longrightarrow> in_base + unat s < length input) \<Longrightarrow>
     copy_lanes input in_base at ss out = Ok (put_row at (lane_row input in_base ss) out)"
proof (induction ss arbitrary: at out)
  case Nil
  then show ?case by (simp add: put_row_def lane_row_def)
next
  case (Cons s ss)
  have "copy_lanes input in_base at (s # ss) out =
      copy_lanes input in_base (Suc at) ss (out[at := input ! (in_base + unat s)])"
    using Cons.prems by (simp add: get_at_def)
  also have "\<dots> = Ok (put_row (Suc at) (lane_row input in_base ss)
      (out[at := input ! (in_base + unat s)]))"
    using Cons by simp
  also have "put_row (Suc at) (lane_row input in_base ss) (out[at := input ! (in_base + unat s)])
      = put_row at (lane_row input in_base (s # ss)) out"
    using Cons.prems(1) by (simp add: put_row_def lane_row_def take_Suc_conv_app_nth take_update_cancel)
  finally show ?case .
qed

definition row_fits :: "f32 list \<Rightarrow> nat \<Rightarrow> nat \<Rightarrow> network_route_spec \<Rightarrow> f32 list \<Rightarrow> bool" where
  "row_fits input in_base frame r out \<longleftrightarrow>
     frame * length (source_channel_indices r) + length (source_channel_indices r) \<le> length out
     \<and> (\<forall>s\<in>set (source_channel_indices r). in_base + unat s < length input)"

definition put_frame :: "f32 list \<Rightarrow> nat \<Rightarrow> nat \<Rightarrow> network_route_spec \<Rightarrow> f32 list \<Rightarrow> f32 list" where
  "put_frame input in_base frame r =
     put_row (frame * length (source_channel_indices r))
       (lane_row input in_base (source_channel_indices r))"

lemma copy_routes_put_frame:
  "list_all2 (row_fits input in_base frame) rs bufs \<Longrightarrow> length done = i \<Longrightarrow>
     copy_routes input in_base frame i rs (done @ bufs)
       = Ok (done @ map2 (put_frame input in_base frame) rs bufs)"
proof (induction rs bufs arbitrary: "done" i rule: list_all2_induct)
  case Nil
  then show ?case by simp
next
  case (Cons r rs out bufs)
  have copy: "copy_lanes input in_base (frame * length (source_channel_indices r))
      (source_channel_indices r) out = Ok (put_frame input in_base frame r out)"
    using Cons.hyps(1) by (simp add: copy_lanes_put_row row_fits_def put_frame_def)
  have "copy_routes input in_base frame i (r # rs) (done @ out # bufs) =
      copy_routes input in_base frame (Suc i) rs
        ((done @ [put_frame input in_base frame r out]) @ bufs)"
    using Cons.prems by (simp add: get_at_def nth_append list_update_append copy)
  then show ?case using Cons.IH [of "done @ [put_frame input in_base frame r out]"] Cons.prems by simp
qed

lemma copy_frames_snoc:
  "copy_frames input c rs (frames @ [n]) bufs =
     (case copy_frames input c rs frames bufs of
        Ok bufs' \<Rightarrow> copy_routes input (n * c) n 0 rs bufs' | Err e \<Rightarrow> Err e | Panic \<Rightarrow> Panic)"
  by (induction frames arbitrary: bufs) (auto split: outcome.split)

text \<open>One route with its buffer, and a buffer that already holds \<open>n\<close> frames.\<close>

definition buffer_fits :: "nat \<Rightarrow> network_route_spec \<Rightarrow> f32 list \<Rightarrow> bool" where
  "buffer_fits frames r out \<longleftrightarrow> length out = frames * length (source_channel_indices r)
     \<and> (\<forall>s\<in>set (source_channel_indices r). s < 12)"

definition filled :: "f32 list \<Rightarrow> nat \<Rightarrow> network_route_spec \<Rightarrow> f32 list \<Rightarrow> f32 list" where
  "filled input n r out =
     gather input 12 (source_channel_indices r) n @ drop (n * length (source_channel_indices r)) out"

lemma put_frame_filled:
  "buffer_fits frames r out \<Longrightarrow> n < frames \<Longrightarrow>
     put_frame input (n * 12) n r (filled input n r out) = filled input (Suc n) r out"
  by (simp add: put_frame_def put_row_def filled_def gather_Suc add.commute)

lemma filled_row_fits:
  assumes "buffer_fits frames r out" and "n < frames" and "length input = 12 * frames"
  shows "row_fits input (n * 12) n r (filled input n r out)"
proof -
  have "Suc n * length (source_channel_indices r) \<le> frames * length (source_channel_indices r)"
    using assms(2) by (intro mult_right_mono) auto
  moreover have "n * 12 + unat s < length input" if "s < (12 :: usize)" for s
    using assms(2,3) unat_less_12 [OF that] by linarith
  ultimately show ?thesis
    using assms(1) by (auto simp: row_fits_def filled_def buffer_fits_def)
qed

lemma list_all2_map2:
  assumes "list_all2 P xs ys" and "\<And>x y. P x y \<Longrightarrow> Q x (f x y)"
  shows "list_all2 Q xs (map2 f xs ys)"
  using assms by (induction xs ys rule: list_all2_induct) auto

lemma map2_map2_cong:
  assumes "list_all2 P xs ys" and "\<And>x y. P x y \<Longrightarrow> g x (f x y) = h x y"
  shows "map2 g xs (map2 f xs ys) = map2 h xs ys"
  using assms by (induction xs ys rule: list_all2_induct) auto

lemma copy_frames_gather:
  assumes "list_all2 (buffer_fits frames) rs bufs" and "length input = 12 * frames"
  shows "n \<le> frames \<Longrightarrow>
    copy_frames input 12 rs [0..<n] bufs = Ok (map2 (filled input n) rs bufs)"
proof (induction n)
  case 0
  have "map2 (filled input 0) rs bufs = bufs"
    using assms(1) by (induction rs bufs rule: list_all2_induct) (simp_all add: filled_def gather_def)
  then show ?case by simp
next
  case (Suc n)
  have fits: "list_all2 (row_fits input (n * 12) n) rs (map2 (filled input n) rs bufs)"
    using assms(1) Suc.prems filled_row_fits [OF _ _ assms(2)] by (auto intro: list_all2_map2)
  have "copy_routes input (n * 12) n 0 rs (map2 (filled input n) rs bufs) =
      Ok (map2 (put_frame input (n * 12) n) rs (map2 (filled input n) rs bufs))"
    using copy_routes_put_frame [OF fits, of "[]"] by simp
  also have "map2 (put_frame input (n * 12) n) rs (map2 (filled input n) rs bufs)
      = map2 (filled input (Suc n)) rs bufs"
    using assms(1) Suc.prems by (auto intro!: map2_map2_cong put_frame_filled)
  finally show ?case using Suc by (simp add: copy_frames_snoc)
qed

lemma filled_all: "buffer_fits frames r out \<Longrightarrow>
    filled input frames r out = gather input 12 (source_channel_indices r) frames"
  by (simp add: filled_def buffer_fits_def)

lemma map2_filled_all:
  "list_all2 (buffer_fits frames) rs bufs \<Longrightarrow> map2 (filled input frames) rs bufs =
     map (\<lambda>r. gather input 12 (source_channel_indices r) frames) rs"
  by (induction rs bufs rule: list_all2_induct) (simp_all add: filled_all)

section \<open>Invariant and behaviour of split\<close>

definition fanout_inv :: "module_fanout \<Rightarrow> bool" where
  "fanout_inv f \<longleftrightarrow>
     (\<exists>frames. route_table_ok frames (routes f)
        \<and> input_format f = \<lparr>sample_rate = AURORA_NETWORK_MEDIA_RATE, channels = 12,
                            block_frames = frames\<rparr>
        \<and> list_all2 (buffer_fits (unat frames)) (routes f) (buffers f))"

definition continues :: "module_fanout \<Rightarrow> network_audio_block \<Rightarrow> bool" where
  "continues f b \<longleftrightarrow>
     next_sequence f \<in> {None, Some (sequence b)} \<and> next_timestamp f \<in> {None, Some (timestamp b)}"

definition admits_block :: "module_fanout \<Rightarrow> network_audio_block \<Rightarrow> bool" where
  "admits_block f b \<longleftrightarrow>
     block_validate b = Ok () \<and> format b = input_format f \<and> continues f b"

text \<open>The block has a successor on the 64-bit timeline.\<close>

definition has_successor :: "network_audio_block \<Rightarrow> bool" where
  "has_successor b \<longleftrightarrow> unat (sequence b) + 1 < 2 ^ 64
     \<and> unat (frame_index (timestamp b)) + unat (block_frames (format b)) < 2 ^ 64"

definition split_buffers :: "network_audio_block \<Rightarrow> module_fanout \<Rightarrow> f32 list list" where
  "split_buffers b f = map (\<lambda>r. gather (samples b) 12 (source_channel_indices r)
     (unat (block_frames (input_format f)))) (routes f)"

lemma silent_buffers_fit:
  "route_table_ok frames rs \<Longrightarrow>
     list_all2 (buffer_fits (unat frames)) rs (map (silent_buffer frames) rs)"
  by (auto simp: list_all2_map2 list.rel_map route_table_ok_def route_wf_def buffer_fits_def
      silent_buffer_def intro!: list.rel_refl_strong)

lemma fanout_fresh_inv: "route_table_ok frames rs \<Longrightarrow> fanout_inv (fanout_fresh frames rs)"
  by (auto simp: fanout_inv_def fanout_fresh_def intro: silent_buffers_fit)

lemma fanout_prepare_inv: "fanout_prepare rs = Ok f \<Longrightarrow> fanout_inv f"
  by (auto simp: fanout_prepare_Ok fanout_fresh_inv)

lemma fanout_reset_inv [simp]: "fanout_inv (fanout_reset f) \<longleftrightarrow> fanout_inv f"
  by (simp add: fanout_inv_def fanout_reset_def)

lemma fanout_copy:
  assumes "fanout_inv f" and "block_validate b = Ok ()" and "format b = input_format f"
  shows "copy_frames (samples b) (unat (channels (input_format f))) (routes f)
      [0..<unat (block_frames (input_format f))] (buffers f) = Ok (split_buffers b f)"
proof -
  from assms(1) obtain frames where inv:
    "input_format f = \<lparr>sample_rate = AURORA_NETWORK_MEDIA_RATE, channels = 12, block_frames = frames\<rparr>"
    "list_all2 (buffer_fits (unat frames)) (routes f) (buffers f)"
    by (auto simp: fanout_inv_def)
  then have "length (samples b) = 12 * unat frames"
    using assms(2,3) by (simp add: block_validate_iff)
  from copy_frames_gather [OF inv(2) this order_refl] show ?thesis
    using inv by (simp add: split_buffers_def map2_filled_all)
qed

lemma fanout_split_rejects:
  "\<not> admits_block f b \<Longrightarrow> \<exists>e. fanout_split b f = (Err e, f) \<and> e \<in> {InvalidInput, TimelineDiscontinuity}"
  by (auto simp: fanout_split_def admits_block_def continues_def is_ok_iff is_some_and_iff)

lemma fanout_split_admits:
  assumes "fanout_inv f" and "admits_block f b"
  defines "f1 \<equiv> f\<lparr>buffers := split_buffers b f, current_sequence := Some (sequence b),
                 current_timestamp := Some (timestamp b)\<rparr>"
  shows "fanout_split b f =
    (case checked_add (sequence b) 1 of
       None \<Rightarrow> (Err TimelineDiscontinuity, f1)
     | Some next \<Rightarrow>
         (case checked_advance (timestamp b) (block_frames (format b)) of
            Ok t \<Rightarrow> (Ok (), f1\<lparr>next_sequence := Some next, next_timestamp := Some t\<rparr>)
          | _ \<Rightarrow> (Err TimelineDiscontinuity, f1\<lparr>next_sequence := Some next\<rparr>)))"
proof -
  from assms(2) have guards: "is_ok (block_validate b)" "format b = input_format f"
    "is_some_and (\<lambda>expected. sequence b \<noteq> expected) (next_sequence f) = False"
    "is_some_and (\<lambda>expected. timestamp b \<noteq> expected) (next_timestamp f) = False"
    by (auto simp: admits_block_def continues_def is_some_and_iff)
  from assms(2) have copy: "copy_frames (samples b) (unat (channels (input_format f))) (routes f)
      [0..<unat (block_frames (input_format f))] (buffers f) = Ok (split_buffers b f)"
    by (intro fanout_copy assms(1)) (simp_all add: admits_block_def)
  show ?thesis
    unfolding fanout_split_def guards(3,4) copy f1_def
    using guards(1,2)
    by (cases "checked_advance (timestamp b) (block_frames (format b))")
      (simp_all add: Let_def split: option.split)
qed

lemma fanout_split_Ok:
  assumes "fanout_inv f"
  shows "fanout_split b f = (Ok (), f') \<longleftrightarrow>
    admits_block f b \<and> has_successor b
    \<and> f' = f\<lparr>buffers := split_buffers b f, current_sequence := Some (sequence b),
            current_timestamp := Some (timestamp b), next_sequence := Some (sequence b + 1),
            next_timestamp := Some (MediaTimestamp
              (frame_index (timestamp b) + block_frames (format b)) (timestamp_rate (timestamp b)))\<rparr>"
proof (cases "admits_block f b")
  case True
  then show ?thesis
    using assms
    by (auto simp: fanout_split_admits has_successor_def checked_add_def checked_advance_def)
next
  case False
  then show ?thesis using fanout_split_rejects [OF False] by auto
qed

lemma fanout_split_no_panic: "fanout_inv f \<Longrightarrow> fst (fanout_split b f) \<noteq> Panic"
  using fanout_split_rejects [of f b]
  by (cases "admits_block f b") (auto simp: fanout_split_admits split: outcome_split)

lemma split_buffers_fit:
  assumes "fanout_inv f"
  shows "list_all2 (buffer_fits (unat (block_frames (input_format f)))) (routes f) (split_buffers b f)"
proof -
  from assms have "\<forall>r\<in>set (routes f). \<forall>s\<in>set (source_channel_indices r). s < 12"
    by (auto simp: fanout_inv_def route_table_ok_def route_wf_def)
  then show ?thesis
    by (auto simp: split_buffers_def list.rel_map buffer_fits_def intro!: list.rel_refl_strong)
qed

lemma fanout_split_inv: "fanout_inv f \<Longrightarrow> fanout_inv (snd (fanout_split b f))"
proof (cases "admits_block f b")
  case True
  assume inv: "fanout_inv f"
  have "fanout_inv (f\<lparr>buffers := split_buffers b f\<rparr>)"
    using inv split_buffers_fit [OF inv] by (auto simp: fanout_inv_def)
  with True inv show ?thesis
    by (simp add: fanout_split_admits fanout_inv_def split: option.split outcome.split)
next
  case False
  assume "fanout_inv f"
  with fanout_split_rejects [OF False] show ?thesis by auto
qed

lemma fanout_split_routes [simp]: "routes (snd (fanout_split b f)) = routes f"
  by (simp add: fanout_split_def Let_def split: outcome_split)

lemma fanout_split_input_format [simp]: "input_format (snd (fanout_split b f)) = input_format f"
  by (simp add: fanout_split_def Let_def split: outcome_split)

lemma gather_nth:
  "k < n \<Longrightarrow> j < length ss \<Longrightarrow>
     gather input c ss n ! (k * length ss + j) = input ! (k * c + unat (ss ! j))"
proof (induction n)
  case (Suc n)
  show ?case
  proof (cases "k = n")
    case True
    with Suc.prems show ?thesis by (simp add: gather_Suc nth_append lane_row_def)
  next
    case False
    then have "Suc k * length ss \<le> n * length ss"
      using Suc.prems by (intro mult_right_mono) auto
    then have "k * length ss + j < n * length ss" using Suc.prems by simp
    with False Suc show ?thesis by (simp add: gather_Suc nth_append)
  qed
qed simp

lemma fanout_reset_input: "input_format (fanout_reset f) = input_format f"
  by (simp add: fanout_reset_def)

lemma next_after_reset: "next_sequence (fanout_reset f) = None" "next_timestamp (fanout_reset f) = None"
  by (simp_all add: fanout_reset_def)

text \<open>Several blocks in a row, stopping at the first that is rejected.\<close>

fun split_all ::
  "network_audio_block list \<Rightarrow> module_fanout \<Rightarrow> (unit, network_fanout_error) outcome \<times> module_fanout"
  where
  "split_all [] f = (Ok (), f)"
| "split_all (b # bs) f =
     (case fanout_split b f of
        (Ok _, f') \<Rightarrow> split_all bs f' | (Err e, f') \<Rightarrow> (Err e, f') | (Panic, f') \<Rightarrow> (Panic, f'))"

lemma split_all_timeline:
  assumes "fanout_inv f" and "split_all bs f = (Ok (), f')"
    and "next_sequence f = Some s" and "next_timestamp f = Some t" and "i < length bs"
  shows "unat (sequence (bs ! i)) = unat s + i
    \<and> timestamp_rate (timestamp (bs ! i)) = timestamp_rate t
    \<and> unat (frame_index (timestamp (bs ! i)))
        = unat (frame_index t) + i * unat (block_frames (input_format f))"
  using assms
proof (induction bs arbitrary: f s t i)
  case (Cons b bs)
  obtain f1 where f1: "fanout_split b f = (Ok (), f1)" and rest: "split_all bs f1 = (Ok (), f')"
    using Cons.prems(2) by (auto split: prod.splits outcome.splits)
  note ok = f1 [unfolded fanout_split_Ok [OF Cons.prems(1)]]
  then have b: "sequence b = s" "timestamp b = t" "format b = input_format f"
    using Cons.prems(3,4) by (auto simp: admits_block_def continues_def)
  show ?case
  proof (cases i)
    case 0
    then show ?thesis using b by simp
  next
    case (Suc j)
    have inv1: "fanout_inv f1" using fanout_split_inv [OF Cons.prems(1), of b] f1 by simp
    have next1: "next_sequence f1 = Some (s + 1)"
      "next_timestamp f1 = Some (MediaTimestamp
         (frame_index t + block_frames (input_format f)) (timestamp_rate t))"
      using ok b by auto
    have "unat (s + 1) = unat s + 1"
      "unat (frame_index t + block_frames (input_format f))
        = unat (frame_index t) + unat (block_frames (input_format f))"
      using ok b by (auto simp: has_successor_def unat_add_no_overflow)
    moreover have "input_format f1 = input_format f" using ok by simp
    ultimately show ?thesis
      using Cons.IH [OF inv1 rest next1, of j] Cons.prems(5) Suc by simp
  qed
qed simp

section \<open>Runs\<close>

datatype fanout_op = FanoutSplit network_audio_block | FanoutReset

fun fanout_step :: "fanout_op \<Rightarrow> module_fanout \<Rightarrow> module_fanout" where
  "fanout_step (FanoutSplit b) f = snd (fanout_split b f)"
| "fanout_step FanoutReset f = fanout_reset f"

lemma fanout_run_inv: "fanout_inv f \<Longrightarrow> fanout_inv (fold fanout_step ops f)"
proof (induction ops arbitrary: f)
  case (Cons op ops)
  then show ?case by (cases op) (auto simp: fanout_split_inv)
qed simp

lemma fanout_run_frame [simp]:
  "routes (fold fanout_step ops f) = routes f"
  "input_format (fold fanout_step ops f) = input_format f"
proof (induction ops arbitrary: f)
  case (Cons op ops)
  { case 1 show ?case using Cons(1) by (cases op) (simp_all add: fanout_reset_def) }
  { case 2 show ?case using Cons(2) by (cases op) (simp_all add: fanout_reset_def) }
qed simp_all

lemma fanout_run_accepts_iff:
  assumes "fanout_prepare rs = Ok f0" and "f = fold fanout_step ops f0"
  shows "fst (fanout_split b f) = Ok () \<longleftrightarrow> admits_block f b \<and> has_successor b"
proof -
  have inv: "fanout_inv f" using assms by (simp add: fanout_run_inv fanout_prepare_inv)
  show ?thesis
    using fanout_split_Ok [OF inv, of b "snd (fanout_split b f)"] fanout_split_Ok [OF inv, of b]
    by (auto simp: prod_eq_iff)
qed

lemma fanout_module_samples:
  assumes prep: "fanout_prepare rs = Ok f0" and f: "f = fold fanout_step ops f0"
    and ok: "fst (fanout_split b f) = Ok ()" and i: "i < length rs"
  shows "\<exists>m. module_block i (snd (fanout_split b f)) = Ok m \<and> block_validate m = Ok ()
    \<and> sequence m = sequence b \<and> timestamp m = timestamp b
    \<and> format m = sc_format (stream (rs ! i))
    \<and> (\<forall>k<unat (block_frames (format b)). \<forall>j<length (source_channel_indices (rs ! i)).
         samples m ! (k * length (source_channel_indices (rs ! i)) + j)
           = samples b ! (k * 12 + unat (source_channel_indices (rs ! i) ! j)))"
proof -
  obtain frames where tab: "route_table_ok frames rs" and f0: "f0 = fanout_fresh frames rs"
    using prep by (auto simp: fanout_prepare_Ok)
  have inv: "fanout_inv f" using prep f by (simp add: fanout_run_inv fanout_prepare_inv)
  have fr: "routes f = rs"
    "input_format f = \<lparr>sample_rate = AURORA_NETWORK_MEDIA_RATE, channels = 12, block_frames = frames\<rparr>"
    using f f0 by (simp_all add: fanout_fresh_def)
  have adm: "admits_block f b" using ok fanout_run_accepts_iff [OF prep f] by simp
  have shape: "route_wf frames (rs ! i)" using tab i by (simp add: route_table_ok_def)
  have st: "snd (fanout_split b f) = f\<lparr>buffers := split_buffers b f,
      current_sequence := Some (sequence b), current_timestamp := Some (timestamp b),
      next_sequence := Some (sequence b + 1),
      next_timestamp := Some (MediaTimestamp
        (frame_index (timestamp b) + block_frames (format b)) (timestamp_rate (timestamp b)))\<rparr>"
    using ok fanout_split_Ok [OF inv, of b "snd (fanout_split b f)"] by (auto simp: prod_eq_iff)
  have "module_block i (snd (fanout_split b f)) = Ok \<lparr>sequence = sequence b,
      timestamp = timestamp b, format = sc_format (stream (rs ! i)),
      samples = gather (samples b) 12 (source_channel_indices (rs ! i)) (unat frames)\<rparr>"
    using i fr by (simp add: st module_block_def split_buffers_def get_at_def)
  moreover have "block_frames (format b) = frames" "timestamp_rate (timestamp b) = AURORA_NETWORK_MEDIA_RATE"
    using adm fr by (simp_all add: admits_block_def block_validate_iff)
  moreover have "block_validate \<lparr>sequence = sequence b, timestamp = timestamp b,
      format = sc_format (stream (rs ! i)),
      samples = gather (samples b) 12 (source_channel_indices (rs ! i)) (unat frames)\<rparr> = Ok ()"
    using shape calculation(3)
    by (auto simp: block_validate_iff route_wf_def route_shape_ok_def mult.commute)
  ultimately show ?thesis by (simp add: gather_nth)
qed

section \<open>Properties\<close>

text \<open>Two modules on a three-frame bus block, for the witnesses.\<close>

definition pod_route :: "string \<Rightarrow> usize list \<Rightarrow> network_route_spec" where
  "pod_route name indices =
     \<lparr>nr_module_id = name, source_channel_indices = indices,
      stream = \<lparr>sc_format = \<lparr>sample_rate = 48000, channels = of_nat (length indices),
                            block_frames = 2\<rparr>,
        clock_discipline = PtpFollower,
        timing = \<lparr>target_latency_frames = 480, minimum_latency_frames = 96,
          maximum_latency_frames = 960, maximum_rate_correction_ppm = 0\<rparr>\<rparr>\<rparr>"

definition pod_routes :: "network_route_spec list" where
  "pod_routes = [pod_route ''left'' [4, 10], pod_route ''right'' [5, 11]]"

definition bus_block :: "u64 \<Rightarrow> network_audio_block" where
  "bus_block i =
     \<lparr>sequence = i, timestamp = MediaTimestamp (2 * i) 48000,
      format = \<lparr>sample_rate = 48000, channels = 12, block_frames = 2\<rparr>,
      samples = map of_nat [0..<24]\<rparr>"

lemma bus_block_fields [simp]:
  "sequence (bus_block i) = i"
  "timestamp (bus_block i) = MediaTimestamp (2 * i) 48000"
  "format (bus_block i) = \<lparr>sample_rate = 48000, channels = 12, block_frames = 2\<rparr>"
  "length (samples (bus_block i)) = 24"
  by (simp_all add: bus_block_def)

lemma pod_routes_ok: "route_table_ok 2 pod_routes"
  by (simp add: pod_routes_def pod_route_def route_table_ok_def route_wf_def route_shape_ok_def
      AURORA_NETWORK_MEDIA_RATE_def)

lemma pod_routes_prepare: "fanout_prepare pod_routes = Ok (fanout_fresh 2 pod_routes)"
  using pod_routes_ok by (auto simp: fanout_prepare_Ok)

lemma bus_block_valid: "block_validate (bus_block i) = Ok ()"
  by (simp add: block_validate_iff)

lemma bus_block_split:
  assumes inv: "fanout_inv f"
    and fmt: "input_format f = \<lparr>sample_rate = 48000, channels = 12, block_frames = 2\<rparr>"
    and "next_sequence f \<in> {None, Some i}" "next_timestamp f \<in> {None, Some (MediaTimestamp (2 * i) 48000)}"
    and "unat i + 1 < 2 ^ 64" "unat (2 * i) + 2 < 2 ^ 64"
  shows "\<exists>f'. fanout_split (bus_block i) f = (Ok (), f') \<and> fanout_inv f'
    \<and> input_format f' = \<lparr>sample_rate = 48000, channels = 12, block_frames = 2\<rparr>
    \<and> next_sequence f' = Some (i + 1) \<and> next_timestamp f' = Some (MediaTimestamp (2 * i + 2) 48000)"
proof -
  have "admits_block f (bus_block i)"
    using assms(2-4) by (auto simp: admits_block_def bus_block_valid continues_def)
  moreover have "has_successor (bus_block i)"
    using assms(5,6) by (simp add: has_successor_def)
  ultimately obtain f' where f': "fanout_split (bus_block i) f = (Ok (), f')"
    using fanout_split_Ok [OF inv, of "bus_block i"] by blast
  with fanout_split_inv [OF inv, of "bus_block i"] fanout_split_Ok [OF inv, of "bus_block i" f'] fmt
  show ?thesis by auto
qed

lemma bus_block_admits:
  "admits_block f (bus_block i) \<longleftrightarrow> continues f (bus_block i)"
  if "input_format f = \<lparr>sample_rate = 48000, channels = 12, block_frames = 2\<rparr>"
  using that by (simp add: admits_block_def bus_block_valid)

text \<open>
  C16: the optimised copy loop computes the reference routing.  On a prepared fanout after any
  sequence of splits and resets, \<open>split\<close> succeeds exactly on a valid 12-channel block that
  continues the sequence numbers and timestamps and has a successor on the 64-bit timeline, and
  then every module block carries the block's sequence number and timestamp, is itself a valid
  block of its route's format, and its sample of frame \<open>k\<close>, lane \<open>j\<close> is the input sample of
  frame \<open>k\<close> on the lane's source channel.
\<close>

theorem fanout_split_routes_samples:
  assumes "fanout_prepare rs = Ok f0" and f: "f = fold fanout_step ops f0"
  shows "(fst (fanout_split b f) = Ok () \<longleftrightarrow> admits_block f b \<and> has_successor b)
    \<and> (fst (fanout_split b f) = Ok () \<longrightarrow> (\<forall>i<length rs. \<exists>m.
         module_block i (snd (fanout_split b f)) = Ok m \<and> block_validate m = Ok ()
         \<and> sequence m = sequence b \<and> timestamp m = timestamp b
         \<and> format m = sc_format (stream (rs ! i))
         \<and> (\<forall>k<unat (block_frames (format b)). \<forall>j<length (source_channel_indices (rs ! i)).
              samples m ! (k * length (source_channel_indices (rs ! i)) + j)
                = samples b ! (k * 12 + unat (source_channel_indices (rs ! i) ! j)))))"
  using fanout_run_accepts_iff [OF assms] fanout_module_samples [OF assms] by blast

theorem fanout_split_routes_samples_witness:
  "\<exists>m. module_block 1 (snd (fanout_split (bus_block 0) (fanout_fresh 2 pod_routes))) = Ok m
     \<and> samples m ! 1 = samples (bus_block 0) ! 11"
proof -
  let ?f = "fanout_fresh 2 pod_routes"
  have "admits_block ?f (bus_block 0) \<and> has_successor (bus_block 0)"
    by (simp add: bus_block_admits fanout_fresh_def continues_def has_successor_def
        AURORA_NETWORK_MEDIA_RATE_def)
  with fanout_split_routes_samples [OF pod_routes_prepare, of ?f "[]" "bus_block 0"]
  obtain m where "module_block 1 (snd (fanout_split (bus_block 0) ?f)) = Ok m"
    "\<forall>k<unat (block_frames (format (bus_block 0))). \<forall>j<length (source_channel_indices (pod_routes ! 1)).
       samples m ! (k * length (source_channel_indices (pod_routes ! 1)) + j)
         = samples (bus_block 0) ! (k * 12 + unat (source_channel_indices (pod_routes ! 1) ! j))"
    by (auto simp: pod_routes_def)
  from this(1) this(2) [rule_format, of 0 1] show ?thesis
    by (simp add: pod_routes_def pod_route_def)
qed

text \<open>
  within one stream epoch the timeline has neither gaps nor repeats: when a prepared (or
  freshly reset) fanout accepts a series of blocks, the \<open>i\<close>-th one has the first one's sequence
  number plus \<open>i\<close> and the first one's timestamp plus \<open>i\<close> block lengths, as natural numbers (no
  wrap), in one clock domain.
\<close>

theorem fanout_timeline_contiguous:
  assumes "fanout_prepare rs = Ok f0"
    and "f = fanout_reset (fold fanout_step ops f0)"
    and "split_all bs f = (Ok (), f')" and "i < length bs"
  shows "unat (sequence (bs ! i)) = unat (sequence (bs ! 0)) + i
    \<and> timestamp_rate (timestamp (bs ! i)) = timestamp_rate (timestamp (bs ! 0))
    \<and> unat (frame_index (timestamp (bs ! i))) = unat (frame_index (timestamp (bs ! 0)))
        + i * unat (block_frames (input_format f))"
proof -
  from assms have inv: "fanout_inv f" by (simp add: fanout_run_inv fanout_prepare_inv)
  obtain b bs' where bs: "bs = b # bs'" using assms(4) by (cases bs) auto
  obtain f1 where f1: "fanout_split b f = (Ok (), f1)" and rest: "split_all bs' f1 = (Ok (), f')"
    using assms(3) bs by (auto split: prod.splits outcome.splits)
  note ok = f1 [unfolded fanout_split_Ok [OF inv]]
  show ?thesis
  proof (cases i)
    case (Suc j)
    have "fanout_inv f1" using fanout_split_inv [OF inv, of b] f1 by simp
    from split_all_timeline [OF this rest, of "sequence b + 1" _ j] ok Suc assms(4) bs show ?thesis
      by (auto simp: admits_block_def has_successor_def unat_add_no_overflow)
  qed simp
qed

theorem fanout_timeline_contiguous_witness:
  "unat (sequence ([bus_block 7, bus_block 8] ! 1)) = unat (sequence ([bus_block 7, bus_block 8] ! 0)) + 1"
proof -
  let ?f = "fanout_reset (fanout_fresh 2 pod_routes)"
  have inv: "fanout_inv (fanout_fresh 2 pod_routes)" by (rule fanout_fresh_inv [OF pod_routes_ok])
  have fmt: "input_format (fanout_fresh 2 pod_routes)
      = \<lparr>sample_rate = 48000, channels = 12, block_frames = 2\<rparr>"
    by (simp add: fanout_fresh_def AURORA_NETWORK_MEDIA_RATE_def)
  obtain f1 where f1: "fanout_split (bus_block 7) ?f = (Ok (), f1)" "fanout_inv f1"
    "input_format f1 = \<lparr>sample_rate = 48000, channels = 12, block_frames = 2\<rparr>"
    "next_sequence f1 = Some 8" "next_timestamp f1 = Some (MediaTimestamp 16 48000)"
    using bus_block_split [of ?f 7] inv fmt
    by (auto simp: fanout_reset_input next_after_reset simp del: bus_block_fields)
  obtain f2 where "fanout_split (bus_block 8) f1 = (Ok (), f2)"
    using bus_block_split [of f1 8] f1 by auto
  with f1 have "split_all [bus_block 7, bus_block 8] ?f = (Ok (), f2)" by simp
  from fanout_timeline_contiguous [OF pod_routes_prepare, of ?f "[]", OF _ this, of 1]
  show ?thesis by simp
qed

text \<open>
  A rejected block can still be handed out.  At the end of the sequence space \<open>split\<close>
  copies the block and installs its sequence number and timestamp before it computes the
  successors, so the call returns \<open>TimelineDiscontinuity\<close> and \<open>module_block\<close> nevertheless
  returns the rejected block.
\<close>

theorem fanout_rejected_block_is_readable:
  "let f = fanout_fresh 2 pod_routes; b = bus_block 0\<lparr>sequence := - 1\<rparr> in
     fanout_prepare pod_routes = Ok f
     \<and> fst (fanout_split b f) = Err TimelineDiscontinuity
     \<and> (\<exists>m. module_block 0 (snd (fanout_split b f)) = Ok m \<and> sequence m = - 1)"
proof -
  let ?f = "fanout_fresh 2 pod_routes"
  let ?b = "bus_block 0\<lparr>sequence := - 1\<rparr>"
  have inv: "fanout_inv ?f" by (rule fanout_fresh_inv [OF pod_routes_ok])
  have "admits_block ?f ?b"
    by (simp add: admits_block_def block_validate_iff continues_def fanout_fresh_def
        AURORA_NETWORK_MEDIA_RATE_def)
  from fanout_split_admits [OF inv this]
  have "fanout_split ?b ?f = (Err TimelineDiscontinuity, ?f\<lparr>buffers := split_buffers ?b ?f,
      current_sequence := Some (- 1), current_timestamp := Some (MediaTimestamp 0 48000)\<rparr>)"
    by (simp add: checked_add_def)
  then show ?thesis
    by (simp add: Let_def pod_routes_prepare module_block_def get_at_def split_buffers_def)
      (simp add: fanout_fresh_def pod_routes_def)
qed

end
