(* ===== verification/Esp_Fanout.thy ===== *)
theory Esp_Fanout
  imports Esp_Control Fabric_Fanout
begin

text \<open>
  The stereo fanout of the ESP-AVB adapter, \<open>src/adapters/aurora-network-esp-avb/src/lib.rs\<close>:
  the six-endpoint plan with its validation, and the splitter that copies one canonical
  12-channel block into six stereo buffers on one timeline.  The copy loop is related to the one
  of \<open>Fabric_Fanout\<close>, whose lemmas then apply.
\<close>

section \<open>The plan\<close>

definition AURORA_7_1_4_CHANNELS :: nat where "AURORA_7_1_4_CHANNELS = 12"

definition ESP_AVB_7_1_4_ENDPOINTS :: nat where "ESP_AVB_7_1_4_ENDPOINTS = 6"

definition AURORA_7_1_4_ROLES :: "string list" where
  "AURORA_7_1_4_ROLES = [''FL'', ''FR'', ''FC'', ''LFE'', ''SL'', ''SR'', ''SBL'', ''SBR'', ''TFL'',
     ''TFR'', ''TRL'', ''TRR'']"

lemmas esp_sizes =
  AURORA_7_1_4_CHANNELS_def ESP_AVB_7_1_4_ENDPOINTS_def ESP_AVB_CHANNELS_PER_STREAM_def

record esp_avb_endpoint_spec =
  es_endpoint_id :: string
  es_stream_id :: u64
  es_medium :: esp_avb_endpoint_medium
  es_channels :: "usize \<times> usize"

record esp_avb_fanout_plan =
  fo_endpoints :: "esp_avb_endpoint_spec list"

datatype esp_avb_fanout_error =
    EfInvalidPlan | EfInvalidFormat | EfInvalidEndpointIndex | EfNoBlockReady
  | EfTimelineDiscontinuity

definition esp_plan_canonical :: "esp_avb_endpoint_medium \<Rightarrow> esp_avb_fanout_plan" where
  "esp_plan_canonical medium = \<lparr>fo_endpoints = map (\<lambda>i.
     \<lparr>es_endpoint_id = ''esp-avb-node-'' @ [''123456'' ! i], es_stream_id = 0xA7000000 + of_nat i,
      es_medium = medium, es_channels = (of_nat (i * 2), of_nat (i * 2 + 1))\<rparr>)
     [0..<ESP_AVB_7_1_4_ENDPOINTS]\<rparr>"

fun endpoint_conflicts ::
  "esp_avb_endpoint_spec \<Rightarrow> esp_avb_endpoint_spec list \<Rightarrow> (unit, esp_avb_fanout_error) outcome" where
  "endpoint_conflicts e [] = Ok ()"
| "endpoint_conflicts e (other # rest) =
     (if es_endpoint_id e = es_endpoint_id other \<or> es_stream_id e = es_stream_id other
      then Err EfInvalidPlan else endpoint_conflicts e rest)"

fun mark_channels :: "bool list \<Rightarrow> usize list \<Rightarrow> (bool list, esp_avb_fanout_error) outcome" where
  "mark_channels seen [] = Ok seen"
| "mark_channels seen (c # cs) =
     (if AURORA_7_1_4_CHANNELS \<le> unat c \<or> seen ! unat c then Err EfInvalidPlan
      else mark_channels (seen[unat c := True]) cs)"

definition lane_list :: "usize \<times> usize \<Rightarrow> usize list" where
  "lane_list cs = [fst cs, snd cs]"

fun plan_scan ::
  "bool list \<Rightarrow> esp_avb_endpoint_spec list \<Rightarrow> (bool list, esp_avb_fanout_error) outcome" where
  "plan_scan seen [] = Ok seen"
| "plan_scan seen (e # es) =
     (if es_endpoint_id e = [] then Err EfInvalidPlan
      else case endpoint_conflicts e es of
        Err x \<Rightarrow> Err x | Panic \<Rightarrow> Panic
      | Ok _ \<Rightarrow>
          (case mark_channels seen (lane_list (es_channels e)) of
             Err x \<Rightarrow> Err x | Panic \<Rightarrow> Panic
           | Ok seen' \<Rightarrow> plan_scan seen' es))"

definition esp_plan_validate :: "esp_avb_fanout_plan \<Rightarrow> (unit, esp_avb_fanout_error) outcome" where
  "esp_plan_validate p =
     (case plan_scan (replicate AURORA_7_1_4_CHANNELS False) (fo_endpoints p) of
        Err x \<Rightarrow> Err x | Panic \<Rightarrow> Panic
      | Ok seen \<Rightarrow> if list_ex Not seen then Err EfInvalidPlan else Ok ())"

definition esp_role_pair ::
  "esp_avb_fanout_plan \<Rightarrow> nat \<Rightarrow> (string \<times> string, esp_avb_fanout_error) outcome" where
  "esp_role_pair p i =
     (case get_at (fo_endpoints p) i of
        None \<Rightarrow> Err EfInvalidEndpointIndex
      | Some e \<Rightarrow>
          (case (get_at AURORA_7_1_4_ROLES (unat (fst (es_channels e))),
                 get_at AURORA_7_1_4_ROLES (unat (snd (es_channels e)))) of
             (Some a, Some b) \<Rightarrow> Ok (a, b)
           | _ \<Rightarrow> Panic))"

definition esp_endpoint_capabilities ::
  "esp_avb_fanout_plan \<Rightarrow> nat \<Rightarrow> (network_transport_capabilities, esp_avb_fanout_error) outcome" where
  "esp_endpoint_capabilities p i =
     (case get_at (fo_endpoints p) i of
        None \<Rightarrow> Err EfInvalidEndpointIndex
      | Some e \<Rightarrow> Ok \<lparr>family = AvbTsn, max_channels = of_nat ESP_AVB_CHANNELS_PER_STREAM,
          nc_scheduled_playout = True, hardware_timestamps = (es_medium e = WiredEsp32P4),
          adaptive_rate_matching = False, packet_repair = False\<rparr>)"

definition esp_required_clock_discipline :: network_clock_discipline where
  "esp_required_clock_discipline = PtpFollower"

section \<open>The splitter\<close>

record esp_fanout =
  ef_plan :: esp_avb_fanout_plan
  ef_input_format :: network_audio_format
  ef_endpoint_format :: network_audio_format
  ef_buffers :: "f32 list list"
  ef_current_sequence :: "u64 option"
  ef_current_timestamp :: "media_timestamp option"
  ef_next_sequence :: "u64 option"
  ef_next_timestamp :: "media_timestamp option"

definition esp_fanout_prepare ::
  "esp_avb_fanout_plan \<Rightarrow> usize \<Rightarrow> (esp_fanout, esp_avb_fanout_error) outcome" where
  "esp_fanout_prepare p frames =
     (case esp_plan_validate p of
        Err x \<Rightarrow> Err x | Panic \<Rightarrow> Panic
      | Ok _ \<Rightarrow>
          if frames = 0 then Err EfInvalidFormat
          else
            let input = \<lparr>sample_rate = AURORA_NETWORK_MEDIA_RATE,
                  channels = of_nat AURORA_7_1_4_CHANNELS, block_frames = frames\<rparr>;
                stereo = \<lparr>sample_rate = AURORA_NETWORK_MEDIA_RATE,
                  channels = of_nat ESP_AVB_CHANNELS_PER_STREAM, block_frames = frames\<rparr> in
            (case samples_per_block stereo of
               None \<Rightarrow> Err EfInvalidFormat
             | Some n \<Rightarrow>
                 (case samples_per_block input of
                    None \<Rightarrow> Err EfInvalidFormat
                  | Some _ \<Rightarrow> Ok \<lparr>ef_plan = p, ef_input_format = input,
                      ef_endpoint_format = stereo,
                      ef_buffers = replicate ESP_AVB_7_1_4_ENDPOINTS (replicate (unat n) 0),
                      ef_current_sequence = None, ef_current_timestamp = None,
                      ef_next_sequence = None, ef_next_timestamp = None\<rparr>)))"

text \<open>The two assignments of the inner loop, and the two loops of \<open>split\<close>.\<close>

definition copy_pair ::
  "f32 list \<Rightarrow> nat \<Rightarrow> nat \<Rightarrow> usize \<times> usize \<Rightarrow> f32 list \<Rightarrow> (f32 list, esp_avb_fanout_error) outcome" where
  "copy_pair input in_base out_base cs out =
     (case get_at input (in_base + unat (fst cs)) of
        None \<Rightarrow> Panic
      | Some x \<Rightarrow>
          if \<not> out_base < length out then Panic
          else (case get_at input (in_base + unat (snd cs)) of
             None \<Rightarrow> Panic
           | Some y \<Rightarrow>
               if \<not> out_base + 1 < length out then Panic
               else Ok (out[out_base := x, out_base + 1 := y])))"

fun copy_endpoints :: "f32 list \<Rightarrow> nat \<Rightarrow> nat \<Rightarrow> esp_avb_endpoint_spec list \<Rightarrow> f32 list list
    \<Rightarrow> nat list \<Rightarrow> (f32 list list, esp_avb_fanout_error) outcome" where
  "copy_endpoints input in_base out_base es bufs [] = Ok bufs"
| "copy_endpoints input in_base out_base es bufs (i # is) =
     (case get_at es i of
        None \<Rightarrow> Panic
      | Some e \<Rightarrow>
          (case get_at bufs i of
             None \<Rightarrow> Panic
           | Some out \<Rightarrow>
               (case copy_pair input in_base out_base (es_channels e) out of
                  Err x \<Rightarrow> Err x | Panic \<Rightarrow> Panic
                | Ok out' \<Rightarrow> copy_endpoints input in_base out_base es (bufs[i := out']) is)))"

fun copy_stereo_frames :: "f32 list \<Rightarrow> esp_avb_endpoint_spec list \<Rightarrow> f32 list list \<Rightarrow> nat list
    \<Rightarrow> (f32 list list, esp_avb_fanout_error) outcome" where
  "copy_stereo_frames input es bufs [] = Ok bufs"
| "copy_stereo_frames input es bufs (frame # frames) =
     (case copy_endpoints input (frame * AURORA_7_1_4_CHANNELS) (frame * ESP_AVB_CHANNELS_PER_STREAM)
             es bufs [0..<ESP_AVB_7_1_4_ENDPOINTS] of
        Err x \<Rightarrow> Err x | Panic \<Rightarrow> Panic
      | Ok bufs' \<Rightarrow> copy_stereo_frames input es bufs' frames)"

definition esp_split ::
  "network_audio_block \<Rightarrow> esp_fanout \<Rightarrow> (unit, esp_avb_fanout_error) outcome \<times> esp_fanout" where
  "esp_split b f =
     (if \<not> is_ok (block_validate b) then (Err EfInvalidFormat, f)
      else if format b \<noteq> ef_input_format f then (Err EfInvalidFormat, f)
      else if is_some_and (\<lambda>expected. sequence b \<noteq> expected) (ef_next_sequence f)
      then (Err EfTimelineDiscontinuity, f)
      else if is_some_and (\<lambda>expected. timestamp b \<noteq> expected) (ef_next_timestamp f)
      then (Err EfTimelineDiscontinuity, f)
      else case copy_stereo_frames (samples b) (fo_endpoints (ef_plan f)) (ef_buffers f)
                  [0..<unat (block_frames (ef_input_format f))] of
        Err x \<Rightarrow> (Err x, f) | Panic \<Rightarrow> (Panic, f)
      | Ok bufs \<Rightarrow>
          let f1 = f\<lparr>ef_buffers := bufs\<rparr> in
          (case checked_add (sequence b) 1 of
             None \<Rightarrow> (Err EfTimelineDiscontinuity, f1)
           | Some next_seq \<Rightarrow>
               (case checked_advance (timestamp b) (block_frames (format b)) of
                  Err _ \<Rightarrow> (Err EfTimelineDiscontinuity, f1) | Panic \<Rightarrow> (Panic, f1)
                | Ok next_time \<Rightarrow>
                    (Ok (), f1\<lparr>ef_current_sequence := Some (sequence b),
                       ef_current_timestamp := Some (timestamp b),
                       ef_next_sequence := Some next_seq, ef_next_timestamp := Some next_time\<rparr>))))"

definition esp_endpoint_block ::
  "nat \<Rightarrow> esp_fanout \<Rightarrow> (network_audio_block, esp_avb_fanout_error) outcome" where
  "esp_endpoint_block i f =
     (case get_at (ef_buffers f) i of
        None \<Rightarrow> Err EfInvalidEndpointIndex
      | Some xs \<Rightarrow>
          (case ef_current_sequence f of
             None \<Rightarrow> Err EfNoBlockReady
           | Some sq \<Rightarrow>
               (case ef_current_timestamp f of
                  None \<Rightarrow> Err EfNoBlockReady
                | Some ts \<Rightarrow> Ok \<lparr>sequence = sq, timestamp = ts, format = ef_endpoint_format f,
                                samples = xs\<rparr>)))"

definition esp_fanout_reset :: "esp_fanout \<Rightarrow> esp_fanout" where
  "esp_fanout_reset f = f\<lparr>ef_current_sequence := None, ef_current_timestamp := None,
     ef_next_sequence := None, ef_next_timestamp := None\<rparr>"

section \<open>What the plan check guarantees\<close>

definition plan_lanes :: "esp_avb_fanout_plan \<Rightarrow> usize list" where
  "plan_lanes p = concat (map (lane_list \<circ> es_channels) (fo_endpoints p))"

definition esp_plan_ok :: "esp_avb_fanout_plan \<Rightarrow> bool" where
  "esp_plan_ok p \<longleftrightarrow> (\<forall>e\<in>set (fo_endpoints p). es_endpoint_id e \<noteq> [])
     \<and> distinct (map es_endpoint_id (fo_endpoints p)) \<and> distinct (map es_stream_id (fo_endpoints p))
     \<and> distinct (plan_lanes p) \<and> set (plan_lanes p) = {c. c < 12}"

lemma endpoint_conflicts_iff:
  "endpoint_conflicts e es = Ok () \<longleftrightarrow>
     es_endpoint_id e \<notin> es_endpoint_id ` set es \<and> es_stream_id e \<notin> es_stream_id ` set es"
  by (induction e es rule: endpoint_conflicts.induct) auto

lemma endpoint_conflicts_no_panic: "endpoint_conflicts e es \<noteq> Panic"
  by (induction e es rule: endpoint_conflicts.induct) auto

text \<open>Channels are claimed as in the fabric fanout, up to the name of the error.\<close>

lemma mark_channels_eq: "mark_channels seen cs = map_err (\<lambda>_. EfInvalidPlan) (claim_sources seen cs)"
proof (induction seen cs rule: mark_channels.induct)
  case (2 seen c cs)
  have "AURORA_7_1_4_CHANNELS \<le> unat c \<longleftrightarrow> 12 \<le> c"
    by (simp add: esp_sizes word_le_nat_alt)
  then show ?case using 2 by simp
qed simp

lemma mark_channels_Ok:
  assumes "length seen = 12"
  shows "mark_channels seen cs = Ok seen' \<Longrightarrow>
    length seen' = 12 \<and> claimed seen' = claimed seen \<union> set cs \<and> (\<forall>c\<in>set cs. c < 12) \<and> distinct cs
    \<and> claimed seen \<inter> set cs = {}"
  using claim_sources_claimed [OF assms] claim_sources_iff [OF assms, of cs]
  by (simp add: mark_channels_eq is_ok_iff)

lemma plan_scan_Ok:
  assumes "length seen = 12"
  shows "plan_scan seen es = Ok seen' \<Longrightarrow> length seen' = 12
    \<and> claimed seen' = claimed seen \<union> set (concat (map (lane_list \<circ> es_channels) es))
    \<and> claimed seen \<inter> set (concat (map (lane_list \<circ> es_channels) es)) = {}
    \<and> distinct (concat (map (lane_list \<circ> es_channels) es))
    \<and> (\<forall>e\<in>set es. es_endpoint_id e \<noteq> []) \<and> distinct (map es_endpoint_id es)
    \<and> distinct (map es_stream_id es)"
  using assms
proof (induction es arbitrary: seen)
  case Nil
  then show ?case by simp
next
  case (Cons e es)
  obtain s1 where s1: "endpoint_conflicts e es = Ok ()" "es_endpoint_id e \<noteq> []"
      "mark_channels seen (lane_list (es_channels e)) = Ok s1" "plan_scan s1 es = Ok seen'"
    using Cons.prems(1) by (auto split: if_splits outcome.splits)
  note m = mark_channels_Ok [OF Cons.prems(2) s1(3)]
  have "length s1 = 12" using m by simp
  from Cons.IH [OF s1(4) this] m s1(1,2) show ?case
    by (auto simp: endpoint_conflicts_iff)
qed

lemma esp_plan_validate_Ok:
  assumes "esp_plan_validate p = Ok ()"
  shows "esp_plan_ok p"
proof -
  obtain seen where scan: "plan_scan (replicate 12 False) (fo_endpoints p) = Ok seen"
      and all: "\<not> list_ex Not seen"
    using assms unfolding esp_plan_validate_def esp_sizes
    by (cases "plan_scan (replicate 12 False) (fo_endpoints p)") (simp_all split: if_splits)
  note ok = plan_scan_Ok [OF length_replicate scan]
  have "claimed (replicate 12 False) = {}"
    by (auto simp: claimed_def unat_less_12)
  then have "claimed seen = set (plan_lanes p)" using ok by (simp add: plan_lanes_def)
  moreover have "claimed seen = {c. c < 12}"
  proof -
    have "seen ! unat c" if "c < 12" for c :: usize
    proof -
      have "unat c < length seen" using unat_less_12 [OF that] ok by simp
      then show ?thesis using all by (auto simp: list_ex_iff dest: nth_mem)
    qed
    then show ?thesis by (auto simp: claimed_def)
  qed
  ultimately show ?thesis using ok by (simp add: esp_plan_ok_def plan_lanes_def)
qed

section \<open>The copy loop\<close>

text \<open>An endpoint as a two-lane route, to use what \<open>Fabric_Fanout\<close> proves of its loop.\<close>

definition lane_route :: "esp_avb_endpoint_spec \<Rightarrow> network_route_spec" where
  "lane_route e = \<lparr>nr_module_id = es_endpoint_id e,
     source_channel_indices = lane_list (es_channels e),
     stream = \<lparr>sc_format = \<lparr>sample_rate = 0, channels = 0, block_frames = 0\<rparr>,
       clock_discipline = PtpFollower, timing = \<lparr>target_latency_frames = 0,
         minimum_latency_frames = 0, maximum_latency_frames = 0, maximum_rate_correction_ppm = 0\<rparr>\<rparr>\<rparr>"

lemma lane_route_indices [simp]: "source_channel_indices (lane_route e) = lane_list (es_channels e)"
  by (simp add: lane_route_def)

lemma length_lane_list [simp]: "length (lane_list cs) = 2"
  by (simp add: lane_list_def)

lemma copy_pair_eq:
  "copy_pair input in_base out_base cs out =
     map_err (\<lambda>_. EfInvalidPlan) (copy_lanes input in_base out_base (lane_list cs) out)"
  by (simp add: copy_pair_def lane_list_def split: option.split)

lemma copy_endpoints_eq:
  "i \<le> length es \<Longrightarrow> copy_endpoints input in_base (frame * 2) es bufs [i..<length es] =
     map_err (\<lambda>_. EfInvalidPlan) (copy_routes input in_base frame i (map lane_route (drop i es)) bufs)"
proof (induction "length es - i" arbitrary: i bufs)
  case 0
  then show ?case by simp
next
  case (Suc n)
  then have i: "i < length es" "n = length es - Suc i" "Suc i \<le> length es" by auto
  have upt: "[i..<length es] = i # [Suc i..<length es]" using i(1) by (simp add: upt_conv_Cons)
  have drop: "map lane_route (drop i es) = lane_route (es ! i) # map lane_route (drop (Suc i) es)"
    using i(1) by (simp add: Cons_nth_drop_Suc [symmetric])
  show ?case
  proof (cases "get_at bufs i")
    case None
    then show ?thesis using i(1) unfolding upt drop by (simp add: get_at_def)
  next
    case (Some out)
    then show ?thesis
      using i(1) Suc.hyps(1) [OF i(2,3)] unfolding upt drop
      by (cases "copy_lanes input in_base (frame * 2) (lane_list (es_channels (es ! i))) out")
        (simp_all add: get_at_def copy_pair_eq split: if_splits)
  qed
qed

lemma copy_stereo_frames_eq:
  "length es = 6 \<Longrightarrow> copy_stereo_frames input es bufs frames =
     map_err (\<lambda>_. EfInvalidPlan) (copy_frames input 12 (map lane_route es) frames bufs)"
proof (induction frames arbitrary: bufs)
  case Nil
  then show ?case by simp
next
  case (Cons frame frames)
  have "copy_endpoints input (frame * 12) (frame * 2) es bufs [0..<6] =
      map_err (\<lambda>_. EfInvalidPlan) (copy_routes input (frame * 12) frame 0 (map lane_route es) bufs)"
    using copy_endpoints_eq [of 0 es input "frame * 12" frame bufs] Cons.prems by simp
  then show ?case
    using Cons
    by (cases "copy_routes input (frame * 12) frame 0 (map lane_route es) bufs")
      (simp_all add: esp_sizes del: upt_Suc)
qed

section \<open>Invariant and behaviour\<close>

definition esp_fanout_inv :: "esp_fanout \<Rightarrow> bool" where
  "esp_fanout_inv f \<longleftrightarrow> esp_plan_ok (ef_plan f) \<and> length (fo_endpoints (ef_plan f)) = 6
     \<and> (\<exists>frames. unat frames * 12 < 2 ^ 64
        \<and> ef_input_format f = \<lparr>sample_rate = AURORA_NETWORK_MEDIA_RATE, channels = 12, block_frames = frames\<rparr>
        \<and> ef_endpoint_format f = \<lparr>sample_rate = AURORA_NETWORK_MEDIA_RATE, channels = 2, block_frames = frames\<rparr>
        \<and> list_all2 (buffer_fits (unat frames)) (map lane_route (fo_endpoints (ef_plan f))) (ef_buffers f))"

definition stereo_buffers :: "network_audio_block \<Rightarrow> esp_fanout \<Rightarrow> f32 list list" where
  "stereo_buffers b f = map (\<lambda>e. gather (samples b) 12 (lane_list (es_channels e))
     (unat (block_frames (ef_input_format f)))) (fo_endpoints (ef_plan f))"

lemma esp_lanes_less:
  "esp_plan_ok p \<Longrightarrow> e \<in> set (fo_endpoints p) \<Longrightarrow> c \<in> set (lane_list (es_channels e)) \<Longrightarrow> c < 12"
  by (auto simp: esp_plan_ok_def plan_lanes_def)

lemma esp_prepare_inv:
  assumes "length (fo_endpoints p) = 6" and "esp_fanout_prepare p frames = Ok f"
  shows "esp_fanout_inv f \<and> ef_plan f = p \<and> ef_current_sequence f = None \<and> ef_next_sequence f = None
    \<and> block_frames (ef_input_format f) = frames"
proof (cases "esp_plan_validate p")
  case (Ok u)
  then have ok: "esp_plan_ok p" using esp_plan_validate_Ok by simp
  have f: "2 * unat frames < 2 ^ 64" "12 * unat frames < 2 ^ 64"
    "f = \<lparr>ef_plan = p, ef_input_format =
       \<lparr>sample_rate = AURORA_NETWORK_MEDIA_RATE, channels = 12, block_frames = frames\<rparr>,
      ef_endpoint_format = \<lparr>sample_rate = AURORA_NETWORK_MEDIA_RATE, channels = 2, block_frames = frames\<rparr>,
      ef_buffers = replicate 6 (replicate (unat (2 * frames)) 0), ef_current_sequence = None,
      ef_current_timestamp = None, ef_next_sequence = None, ef_next_timestamp = None\<rparr>"
    using assms(2) Ok
    by (auto simp: esp_fanout_prepare_def Let_def samples_per_block_def checked_mul_def esp_sizes
        simp del: replicate.simps split: if_splits option.splits)
  have "unat (2 * frames) = unat frames * 2"
    using f(1) unat_mul_no_overflow [of 2 frames] by simp
  then have "list_all2 (buffer_fits (unat frames)) (map lane_route (fo_endpoints p))
      (replicate 6 (replicate (unat (2 * frames)) 0))"
    using assms(1)
    by (auto simp: list_all2_conv_all_nth buffer_fits_def intro: esp_lanes_less [OF ok nth_mem])
  then show ?thesis using f ok assms(1) by (simp add: esp_fanout_inv_def mult.commute)
qed (use assms(2) in \<open>simp_all add: esp_fanout_prepare_def\<close>)

definition esp_admits :: "esp_fanout \<Rightarrow> network_audio_block \<Rightarrow> bool" where
  "esp_admits f b \<longleftrightarrow> block_validate b = Ok () \<and> format b = ef_input_format f
     \<and> ef_next_sequence f \<in> {None, Some (sequence b)} \<and> ef_next_timestamp f \<in> {None, Some (timestamp b)}"

lemma esp_copy:
  assumes "esp_fanout_inv f" and "block_validate b = Ok ()" and "format b = ef_input_format f"
  shows "copy_stereo_frames (samples b) (fo_endpoints (ef_plan f)) (ef_buffers f)
      [0..<unat (block_frames (ef_input_format f))] = Ok (stereo_buffers b f)"
proof -
  from assms(1) obtain frames where inv: "length (fo_endpoints (ef_plan f)) = 6"
    "ef_input_format f = \<lparr>sample_rate = AURORA_NETWORK_MEDIA_RATE, channels = 12, block_frames = frames\<rparr>"
    "list_all2 (buffer_fits (unat frames)) (map lane_route (fo_endpoints (ef_plan f))) (ef_buffers f)"
    by (auto simp: esp_fanout_inv_def)
  then have "length (samples b) = 12 * unat frames"
    using assms(2,3) by (simp add: block_validate_iff)
  from copy_frames_gather [OF inv(3) this order_refl] map2_filled_all [OF inv(3), of "samples b"]
  show ?thesis
    by (simp add: copy_stereo_frames_eq [OF inv(1)] stereo_buffers_def inv(2) comp_def)
qed

lemma esp_split_rejects:
  "\<not> esp_admits f b \<Longrightarrow> \<exists>e. esp_split b f = (Err e, f) \<and> e \<in> {EfInvalidFormat, EfTimelineDiscontinuity}"
  by (auto simp: esp_split_def esp_admits_def is_ok_iff is_some_and_iff)

lemma esp_split_admits:
  assumes "esp_fanout_inv f" and "esp_admits f b"
  shows "esp_split b f =
    (if has_successor b
     then (Ok (), f\<lparr>ef_buffers := stereo_buffers b f, ef_current_sequence := Some (sequence b),
             ef_current_timestamp := Some (timestamp b), ef_next_sequence := Some (sequence b + 1),
             ef_next_timestamp := Some (MediaTimestamp
               (frame_index (timestamp b) + block_frames (format b)) (timestamp_rate (timestamp b)))\<rparr>)
     else (Err EfTimelineDiscontinuity, f\<lparr>ef_buffers := stereo_buffers b f\<rparr>))"
proof -
  from assms(2) have guards: "is_ok (block_validate b)" "format b = ef_input_format f"
    "is_some_and (\<lambda>expected. sequence b \<noteq> expected) (ef_next_sequence f) = False"
    "is_some_and (\<lambda>expected. timestamp b \<noteq> expected) (ef_next_timestamp f) = False"
    by (auto simp: esp_admits_def is_some_and_iff)
  from assms(2) have copy: "copy_stereo_frames (samples b) (fo_endpoints (ef_plan f)) (ef_buffers f)
      [0..<unat (block_frames (ef_input_format f))] = Ok (stereo_buffers b f)"
    by (intro esp_copy assms(1)) (simp_all add: esp_admits_def)
  show ?thesis
    unfolding esp_split_def guards(3,4) copy using guards(1,2)
    by (simp add: Let_def has_successor_def checked_add_def checked_advance_def)
qed

lemma esp_split_Ok:
  assumes "esp_fanout_inv f"
  shows "esp_split b f = (Ok (), f') \<longleftrightarrow> esp_admits f b \<and> has_successor b
    \<and> f' = f\<lparr>ef_buffers := stereo_buffers b f, ef_current_sequence := Some (sequence b),
            ef_current_timestamp := Some (timestamp b), ef_next_sequence := Some (sequence b + 1),
            ef_next_timestamp := Some (MediaTimestamp
              (frame_index (timestamp b) + block_frames (format b)) (timestamp_rate (timestamp b)))\<rparr>"
proof (cases "esp_admits f b")
  case True
  then show ?thesis using assms by (auto simp: esp_split_admits)
next
  case False
  then show ?thesis using esp_split_rejects [OF False] by auto
qed

lemma stereo_buffers_fit:
  assumes "esp_fanout_inv f"
  shows "list_all2 (buffer_fits (unat (block_frames (ef_input_format f))))
    (map lane_route (fo_endpoints (ef_plan f))) (stereo_buffers b f)"
proof -
  have "esp_plan_ok (ef_plan f)" using assms by (simp add: esp_fanout_inv_def)
  from esp_lanes_less [OF this] show ?thesis
    by (auto simp: stereo_buffers_def list_all2_conv_all_nth buffer_fits_def dest: nth_mem)
qed

lemma esp_split_inv:
  assumes "esp_fanout_inv f"
  shows "esp_fanout_inv (snd (esp_split b f))"
proof (cases "esp_admits f b")
  case True
  have "esp_fanout_inv (f\<lparr>ef_buffers := stereo_buffers b f\<rparr>)"
    using assms stereo_buffers_fit [OF assms, of b] by (auto simp: esp_fanout_inv_def)
  then show ?thesis
    using assms by (simp add: esp_split_admits [OF assms True] esp_fanout_inv_def)
next
  case False
  then show ?thesis using esp_split_rejects [OF False] assms by auto
qed

lemma esp_reset_inv [simp]: "esp_fanout_inv (esp_fanout_reset f) \<longleftrightarrow> esp_fanout_inv f"
  by (simp add: esp_fanout_inv_def esp_fanout_reset_def)

lemma esp_split_frame [simp]:
  "ef_plan (snd (esp_split b f)) = ef_plan f"
  "ef_input_format (snd (esp_split b f)) = ef_input_format f"
  "ef_endpoint_format (snd (esp_split b f)) = ef_endpoint_format f"
  by (simp_all add: esp_split_def Let_def split: outcome_split)

lemma esp_split_no_panic: "esp_fanout_inv f \<Longrightarrow> fst (esp_split b f) \<noteq> Panic"
  using esp_split_rejects [of f b] by (cases "esp_admits f b") (auto simp: esp_split_admits)

fun esp_fanout_step :: "fanout_op \<Rightarrow> esp_fanout \<Rightarrow> esp_fanout" where
  "esp_fanout_step (FanoutSplit b) f = snd (esp_split b f)"
| "esp_fanout_step FanoutReset f = esp_fanout_reset f"

lemma esp_run_inv:
  "esp_fanout_inv f \<Longrightarrow> esp_fanout_inv (fold esp_fanout_step ops f)
     \<and> ef_plan (fold esp_fanout_step ops f) = ef_plan f"
proof (induction ops arbitrary: f)
  case (Cons op ops)
  have "esp_fanout_inv (esp_fanout_step op f)"
    using Cons.prems by (cases op) (simp_all add: esp_split_inv)
  moreover have "ef_plan (esp_fanout_step op f) = ef_plan f"
    by (cases op) (simp_all add: esp_fanout_reset_def)
  ultimately show ?case using Cons.IH by simp
qed simp

section \<open>Properties\<close>

lemma distinct_concat_nth:
  "distinct (concat xss) \<Longrightarrow> i < length xss \<Longrightarrow> j < length (xss ! i) \<Longrightarrow>
     i' < length xss \<Longrightarrow> j' < length (xss ! i') \<Longrightarrow> xss ! i ! j = xss ! i' ! j' \<Longrightarrow> i = i' \<and> j = j'"
proof (induction xss arbitrary: i i')
  case Nil
  then show ?case by simp
next
  case (Cons xs xss)
  have apart: False if "x \<in> set xs" "k < length xss" "x \<in> set (xss ! k)" for x k
    using Cons.prems(1) that nth_mem [OF that(2)] by (simp, blast)
  show ?case
  proof (cases i; cases i')
    assume "i = 0" "i' = 0"
    then show ?thesis using Cons.prems by (simp add: nth_eq_iff_index_eq)
  next
    fix k assume "i = 0" "i' = Suc k"
    then show ?thesis using Cons.prems apart [of "xs ! j" k] nth_mem [of j' "xss ! k"] nth_mem [of j xs]
      by simp
  next
    fix k assume "i = Suc k" "i' = 0"
    then show ?thesis using Cons.prems apart [of "xs ! j'" k] nth_mem [of j "xss ! k"] nth_mem [of j' xs]
      by simp
  next
    fix k k' assume "i = Suc k" "i' = Suc k'"
    then show ?thesis using Cons.prems Cons.IH [of k k'] by simp
  qed
qed

text \<open>Every channel of the bus is one lane of one endpoint.\<close>

lemma plan_lane_unique:
  assumes "esp_plan_ok p" and "c < 12"
  shows "\<exists>!(i, j). i < length (fo_endpoints p) \<and> j < 2
    \<and> unat (lane_list (es_channels (fo_endpoints p ! i)) ! j) = c"
proof -
  let ?at = "\<lambda>i j. lane_list (es_channels (fo_endpoints p ! i)) ! j"
  have "of_nat c \<in> set (plan_lanes p)"
    using assms by (simp add: esp_plan_ok_def word_less_nat_alt unat_of_nat)
  then obtain e where e: "e \<in> set (fo_endpoints p)" "of_nat c \<in> set (lane_list (es_channels e))"
    by (auto simp: plan_lanes_def)
  then obtain i j where ij: "i < length (fo_endpoints p)" "j < 2" "?at i j = of_nat c"
    by (auto simp: in_set_conv_nth)
  have "unat (of_nat c :: usize) = c" using assms(2) by (simp add: unat_of_nat)
  with ij have ex: "i < length (fo_endpoints p) \<and> j < 2 \<and> unat (?at i j) = c" by simp
  have uniq: "i' = i \<and> j' = j"
    if "i' < length (fo_endpoints p)" "j' < 2" "unat (?at i' j') = c" for i' j'
  proof -
    have "?at i' j' = ?at i j" using that(3) ex by (simp add: word_unat_eq_iff)
    moreover have "distinct (concat (map (lane_list \<circ> es_channels) (fo_endpoints p)))"
      using assms(1) by (simp add: esp_plan_ok_def plan_lanes_def)
    ultimately show ?thesis
      using distinct_concat_nth [of "map (lane_list \<circ> es_channels) (fo_endpoints p)" i' j' i j] that ij
      by simp
  qed
  show ?thesis using ex uniq by blast
qed

text \<open>
  the six stereo streams are exactly the bus.  On a splitter prepared for a valid six-endpoint
  plan, after any splits and resets, \<open>split\<close> accepts a block exactly when it is valid, of the
  bus format, continues the timeline and has a successor; then every endpoint block is a valid
  stereo block with the block's sequence number and timestamp, and every sample of the bus is
  found in one lane of one endpoint, and only there.
\<close>

theorem esp_split_partitions_bus:
  assumes "length (fo_endpoints p) = 6" and "esp_fanout_prepare p frames = Ok f0"
    and "f = fold esp_fanout_step ops f0"
  shows "(fst (esp_split b f) = Ok () \<longleftrightarrow> esp_admits f b \<and> has_successor b)
    \<and> (fst (esp_split b f) = Ok () \<longrightarrow>
        (\<forall>i<6. \<exists>m. esp_endpoint_block i (snd (esp_split b f)) = Ok m \<and> block_validate m = Ok ()
           \<and> sequence m = sequence b \<and> timestamp m = timestamp b \<and> channels (format m) = 2
           \<and> (\<forall>k<unat (block_frames (format b)). \<forall>j<2. samples m ! (k * 2 + j)
                = samples b ! (k * 12 + unat (lane_list (es_channels (fo_endpoints p ! i)) ! j))))
        \<and> (\<forall>c<12. \<exists>!(i, j). i < 6 \<and> j < 2
             \<and> unat (lane_list (es_channels (fo_endpoints p ! i)) ! j) = c))"
proof -
  have inv: "esp_fanout_inv f" and plan: "ef_plan f = p"
    using esp_prepare_inv [OF assms(1,2)] esp_run_inv [of f0 ops] assms(3) by auto
  have acc: "fst (esp_split b f) = Ok () \<longleftrightarrow> esp_admits f b \<and> has_successor b"
    using esp_split_Ok [OF inv, of b "snd (esp_split b f)"] esp_split_Ok [OF inv, of b]
    by (auto simp: prod_eq_iff)
  have blocks: "\<exists>m. esp_endpoint_block i (snd (esp_split b f)) = Ok m \<and> block_validate m = Ok ()
      \<and> sequence m = sequence b \<and> timestamp m = timestamp b \<and> channels (format m) = 2
      \<and> (\<forall>k<unat (block_frames (format b)). \<forall>j<2. samples m ! (k * 2 + j)
           = samples b ! (k * 12 + unat (lane_list (es_channels (fo_endpoints p ! i)) ! j)))"
    if ok: "fst (esp_split b f) = Ok ()" and i: "i < 6" for i
  proof -
    let ?lanes = "lane_list (es_channels (fo_endpoints p ! i))"
    have adm: "esp_admits f b" "has_successor b" using acc ok by auto
    obtain n where n: "unat n * 12 < 2 ^ 64" "ef_input_format f
        = \<lparr>sample_rate = AURORA_NETWORK_MEDIA_RATE, channels = 12, block_frames = n\<rparr>"
      "ef_endpoint_format f
        = \<lparr>sample_rate = AURORA_NETWORK_MEDIA_RATE, channels = 2, block_frames = n\<rparr>"
      using inv by (auto simp: esp_fanout_inv_def)
    have fmt: "format b = ef_input_format f" "timestamp_rate (timestamp b) = AURORA_NETWORK_MEDIA_RATE"
      using adm n by (simp_all add: esp_admits_def block_validate_iff)
    have "esp_endpoint_block i (snd (esp_split b f)) = Ok \<lparr>sequence = sequence b,
        timestamp = timestamp b, format = ef_endpoint_format f,
        samples = gather (samples b) 12 ?lanes (unat n)\<rparr>"
      using i assms(1) plan n
      by (simp add: esp_split_admits [OF inv adm(1)] adm(2) esp_endpoint_block_def get_at_def
          stereo_buffers_def)
    moreover have "block_validate \<lparr>sequence = sequence b, timestamp = timestamp b,
        format = ef_endpoint_format f, samples = gather (samples b) 12 ?lanes (unat n)\<rparr> = Ok ()"
      using n fmt by (simp add: block_validate_iff)
    ultimately show ?thesis
      using n fmt gather_nth [of _ "unat n" _ ?lanes "samples b" 12] by (simp add: n(2))
  qed
  have "\<forall>c<12. \<exists>!(i, j). i < 6 \<and> j < 2
      \<and> unat (lane_list (es_channels (fo_endpoints p ! i)) ! j) = c"
    using plan_lane_unique [of p] inv plan assms(1) by (simp add: esp_fanout_inv_def)
  then show ?thesis using acc blocks by blast
qed

text \<open>The canonical plan, for the witness.\<close>

lemma canonical_plan:
  "fo_endpoints (esp_plan_canonical m) = map (\<lambda>(d, s, c). \<lparr>es_endpoint_id = ''esp-avb-node-'' @ [d],
     es_stream_id = s, es_medium = m, es_channels = (c, c + 1)\<rparr>)
     [(CHR ''1'', 0xA7000000, 0), (CHR ''2'', 0xA7000001, 2), (CHR ''3'', 0xA7000002, 4),
      (CHR ''4'', 0xA7000003, 6), (CHR ''5'', 0xA7000004, 8), (CHR ''6'', 0xA7000005, 10)]"
  by (simp add: esp_plan_canonical_def esp_sizes upt_rec)

lemma unclaimed_bus: "replicate 12 False = [False, False, False, False, False, False, False, False,
    False, False, False, False]"
  by (simp add: numeral_eq_Suc)

lemma canonical_valid: "esp_plan_validate (esp_plan_canonical m) = Ok ()"
  unfolding esp_plan_validate_def canonical_plan esp_sizes unclaimed_bus
  by (simp add: lane_list_def esp_sizes)

lemma canonical_prepares: "\<exists>f. esp_fanout_prepare (esp_plan_canonical m) 2 = Ok f"
  using canonical_valid [of m]
  by (simp add: esp_fanout_prepare_def Let_def samples_per_block_def checked_mul_def esp_sizes)

theorem esp_split_partitions_bus_witness:
  "\<exists>f m. esp_fanout_prepare (esp_plan_canonical WiredEsp32P4) 2 = Ok f
     \<and> esp_endpoint_block 5 (snd (esp_split (bus_block 0) f)) = Ok m
     \<and> samples m ! 3 = samples (bus_block 0) ! 23"
proof -
  let ?p = "esp_plan_canonical WiredEsp32P4"
  obtain f where f: "esp_fanout_prepare ?p 2 = Ok f" using canonical_prepares by blast
  have p: "length (fo_endpoints ?p) = 6" by (simp add: canonical_plan)
  have "f = \<lparr>ef_plan = ?p, ef_input_format = \<lparr>sample_rate = 48000, channels = 12, block_frames = 2\<rparr>,
      ef_endpoint_format = \<lparr>sample_rate = 48000, channels = 2, block_frames = 2\<rparr>,
      ef_buffers = replicate 6 (replicate 4 0), ef_current_sequence = None,
      ef_current_timestamp = None, ef_next_sequence = None, ef_next_timestamp = None\<rparr>"
    using f canonical_valid
    by (simp add: esp_fanout_prepare_def Let_def samples_per_block_def checked_mul_def esp_sizes
        AURORA_NETWORK_MEDIA_RATE_def)
  then have adm: "esp_admits f (bus_block 0) \<and> has_successor (bus_block 0)"
    by (simp add: esp_admits_def bus_block_valid has_successor_def)
  have f0: "f = fold esp_fanout_step [] f" by simp
  note all = esp_split_partitions_bus [OF p f f0, of "bus_block 0"]
  have ok: "fst (esp_split (bus_block 0) f) = Ok ()" using conjunct1 [OF all] adm by blast
  have five: "(5 :: nat) < 6" by simp
  obtain m where m: "esp_endpoint_block 5 (snd (esp_split (bus_block 0) f)) = Ok m"
    "\<forall>k<unat (block_frames (format (bus_block 0))). \<forall>j<2. samples m ! (k * 2 + j)
       = samples (bus_block 0) ! (k * 12 + unat (lane_list (es_channels (fo_endpoints ?p ! 5)) ! j))"
    using conjunct1 [OF mp [OF conjunct2 [OF all] ok], rule_format, OF five] by blast
  have "fo_endpoints ?p ! 5 = \<lparr>es_endpoint_id = ''esp-avb-node-6'', es_stream_id = 0xA7000005,
      es_medium = WiredEsp32P4, es_channels = (10, 11)\<rparr>"
    by (simp add: canonical_plan)
  then show ?thesis using f m(1) m(2) [rule_format, of 1 1] by (auto simp: lane_list_def)
qed

text \<open>
  A rejected block replaces the samples of the accepted one.  At the end of the sequence space
  \<open>split\<close> copies the block before it finds that there is no successor; the sequence number and
  timestamp of the previous block stay, so \<open>endpoint_block\<close> pairs them with the rejected samples.
\<close>

lemma esp_rejected_block_replaces_samples:
  assumes "esp_fanout_inv f" and "esp_admits f b" and "\<not> has_successor b"
    and "ef_current_sequence f = Some sq" and "ef_current_timestamp f = Some ts" and "i < 6"
  shows "fst (esp_split b f) = Err EfTimelineDiscontinuity
    \<and> esp_endpoint_block i (snd (esp_split b f)) = Ok \<lparr>sequence = sq, timestamp = ts,
        format = ef_endpoint_format f, samples = stereo_buffers b f ! i\<rparr>"
proof -
  have "length (stereo_buffers b f) = 6"
    using assms(1) by (simp add: stereo_buffers_def esp_fanout_inv_def)
  then show ?thesis
    using assms by (simp add: esp_split_admits esp_endpoint_block_def get_at_def)
qed

end
