(* ===== verification/Genavb_Runtime.thy ===== *)
theory Genavb_Runtime
  imports Genavb_Talker Esp_Fanout
begin

text \<open>
  The six-stream runtime, \<open>src/adapters/aurora-network-genavb-runtime/src/lib.rs\<close>: the AVDECC
  control channel, the session gate, six GenAVB talkers and the stereo fanout behind one
  lifecycle.  Loading the native library is a parameter; so are the shim's functions.
\<close>

section \<open>State\<close>

datatype runtime_lifecycle = RtLoaded | RtControlOpen | RtPrepared | RtStarted

datatype 'l runtime_load_error =
    LoadControl 'l
  | LoadTalker nat 'l
  | LoadSession session_error
  | LoadFanout esp_avb_fanout_error
  | InvalidBlockFrames usize
  | NonCanonicalFanout nat

datatype runtime_error =
    RtInvalidLifecycle runtime_lifecycle runtime_lifecycle
  | RtInvalidTiming
  | RtControl avdecc_error
  | RtSession session_error
  | RtFanout esp_avb_fanout_error
  | RtEndpoint nat network_transport_error

record ('n, 'c) genavb_runtime =
  rt_control :: "'c avdecc_control"
  rt_session :: avdecc_session
  rt_talkers :: "'n genavb_talker list"
  rt_fanout :: esp_fanout
  rt_endpoint_format :: network_audio_format
  rt_lifecycle :: runtime_lifecycle

definition CANONICAL_PAIRS :: "(string \<times> string) list" where
  "CANONICAL_PAIRS = [(''FL'', ''FR''), (''FC'', ''LFE''), (''SL'', ''SR''), (''SBL'', ''SBR''),
     (''TFL'', ''TFR''), (''TRL'', ''TRR'')]"

section \<open>Loading\<close>

fun fanout_order :: "esp_avb_fanout_plan \<Rightarrow> nat \<Rightarrow> (string \<times> string) list
    \<Rightarrow> (unit, 'l runtime_load_error) outcome" where
  "fanout_order p i [] = Ok ()"
| "fanout_order p i (wanted # rest) =
     (case esp_role_pair p i of
        Err e \<Rightarrow> Err (LoadFanout e) | Panic \<Rightarrow> Panic
      | Ok pair \<Rightarrow>
          if pair \<noteq> wanted then Err (NonCanonicalFanout i) else fanout_order p (Suc i) rest)"

definition validate_fanout_order ::
  "esp_avb_fanout_plan \<Rightarrow> (unit, 'l runtime_load_error) outcome" where
  "validate_fanout_order p =
     (case esp_plan_validate p of
        Err e \<Rightarrow> Err (LoadFanout e) | Panic \<Rightarrow> Panic
      | Ok _ \<Rightarrow> fanout_order p 0 CANONICAL_PAIRS)"

text \<open>\<open>open_talker\<close> stands for opening the library and creating the talker's native handle.\<close>

fun load_talkers :: "(nat \<Rightarrow> string \<Rightarrow> ('n, 'l) outcome) \<Rightarrow> string \<Rightarrow> nat list
    \<Rightarrow> ('n genavb_talker list, 'l runtime_load_error) outcome" where
  "load_talkers open_talker path [] = Ok []"
| "load_talkers open_talker path (i # is) =
     (case open_talker i path of
        Err e \<Rightarrow> Err (LoadTalker i e) | Panic \<Rightarrow> Panic
      | Ok h \<Rightarrow>
          (case load_talkers open_talker path is of
             Err e \<Rightarrow> Err e | Panic \<Rightarrow> Panic
           | Ok ts \<Rightarrow> Ok (talker_load h path None # ts)))"

definition runtime_load :: "(string \<Rightarrow> ('c, 'l) outcome) \<Rightarrow> (nat \<Rightarrow> string \<Rightarrow> ('n, 'l) outcome)
    \<Rightarrow> string \<Rightarrow> expected_stream list \<Rightarrow> esp_avb_fanout_plan \<Rightarrow> usize
    \<Rightarrow> (('n, 'c) genavb_runtime, 'l runtime_load_error) outcome" where
  "runtime_load open_handle open_talker path expecting p frames =
     (if frames \<noteq> GENAVB_BLOCK_FRAMES then Err (InvalidBlockFrames frames)
      else case validate_fanout_order p of
        Err e \<Rightarrow> Err e | Panic \<Rightarrow> Panic
      | Ok _ \<Rightarrow>
          (case open_handle path of
             Err e \<Rightarrow> Err (LoadControl e) | Panic \<Rightarrow> Panic
           | Ok h \<Rightarrow>
               (case avdecc_session_new expecting of
                  Err e \<Rightarrow> Err (LoadSession e) | Panic \<Rightarrow> Panic
                | Ok session \<Rightarrow>
                    (case esp_fanout_prepare p frames of
                       Err e \<Rightarrow> Err (LoadFanout e) | Panic \<Rightarrow> Panic
                     | Ok f \<Rightarrow>
                         (case load_talkers open_talker path [0..<ESP_AVB_7_1_4_ENDPOINTS] of
                            Err e \<Rightarrow> Err e | Panic \<Rightarrow> Panic
                          | Ok ts \<Rightarrow> Ok
                              \<lparr>rt_control = \<lparr>gc_handle = h, gc_shim_path = path,
                                 gc_lifecycle = ControlLoaded\<rparr>,
                               rt_session = session, rt_talkers = ts, rt_fanout = f,
                               rt_endpoint_format = \<lparr>sample_rate = AURORA_NETWORK_MEDIA_RATE,
                                 channels = GENAVB_CHANNELS, block_frames = frames\<rparr>,
                               rt_lifecycle = RtLoaded\<rparr>)))))"

section \<open>Operations\<close>

definition abort_data_plane ::
  "('n, 'c) talker_shim \<Rightarrow> ('n, 'c) genavb_runtime \<Rightarrow> ('n, 'c) genavb_runtime" where
  "abort_data_plane S r =
     r\<lparr>rt_talkers := map (\<lambda>t. talker_reset S (snd (talker_stop S t))) (rt_talkers r),
       rt_fanout := esp_fanout_reset (rt_fanout r)\<rparr>"

definition abort_epoch ::
  "('n, 'c) talker_shim \<Rightarrow> ('n, 'c) genavb_runtime \<Rightarrow> ('n, 'c) genavb_runtime" where
  "abort_epoch S r = (abort_data_plane S r)\<lparr>rt_lifecycle := RtControlOpen\<rparr>"

definition runtime_open_control :: "'c control_shim \<Rightarrow> ('n, 'c) genavb_runtime
    \<Rightarrow> (unit, runtime_error) outcome \<times> ('n, 'c) genavb_runtime" where
  "runtime_open_control C r =
     (if rt_lifecycle r = RtLoaded \<or> rt_lifecycle r = RtControlOpen
      then (case control_open C (rt_control r) of
              (Err e, c) \<Rightarrow> (Err (RtControl e), r\<lparr>rt_control := c\<rparr>)
            | (Panic, c) \<Rightarrow> (Panic, r\<lparr>rt_control := c\<rparr>)
            | (Ok _, c) \<Rightarrow> (Ok (), r\<lparr>rt_control := c, rt_lifecycle := RtControlOpen\<rparr>))
      else (Err (RtInvalidLifecycle RtLoaded (rt_lifecycle r)), r))"

definition runtime_poll_fd ::
  "'c control_shim \<Rightarrow> ('n, 'c) genavb_runtime \<Rightarrow> (i32, runtime_error) outcome" where
  "runtime_poll_fd C r = map_err RtControl (control_poll_fd C (rt_control r))"

definition runtime_receive_control :: "('n, 'c) talker_shim \<Rightarrow> 'c control_shim \<Rightarrow> ('n, 'c) genavb_runtime
    \<Rightarrow> (session_update option, runtime_error) outcome \<times> ('n, 'c) genavb_runtime" where
  "runtime_receive_control S C r =
     (if rt_lifecycle r = RtLoaded
      then (Err (RtInvalidLifecycle RtControlOpen (rt_lifecycle r)), r)
      else case control_receive C (rt_control r) of
        (Err e, c) \<Rightarrow> (Err (RtControl e), r\<lparr>rt_control := c\<rparr>)
      | (Panic, c) \<Rightarrow> (Panic, r\<lparr>rt_control := c\<rparr>)
      | (Ok None, c) \<Rightarrow> (Ok None, r\<lparr>rt_control := c\<rparr>)
      | (Ok (Some event), c) \<Rightarrow>
          (case session_apply event (rt_session r) of
             (Panic, s) \<Rightarrow> (Panic, r\<lparr>rt_control := c, rt_session := s\<rparr>)
           | (Err e, s) \<Rightarrow>
               let r1 = abort_data_plane S (r\<lparr>rt_control := c, rt_session := s\<rparr>) in
               (Err (RtSession e), r1\<lparr>rt_session := avdecc_session_reset (rt_session r1),
                  rt_lifecycle := RtControlOpen\<rparr>)
           | (Ok update, s) \<Rightarrow>
               let r1 = r\<lparr>rt_control := c, rt_session := s\<rparr> in
               (Ok (Some update), if ae_kind event = Disconnect then abort_epoch S r1 else r1)))"

definition endpoint_config ::
  "network_audio_format \<Rightarrow> u32 \<Rightarrow> (network_stream_config, runtime_error) outcome" where
  "endpoint_config f latency =
     (if latency = 0 then Err RtInvalidTiming
      else
        let t = \<lparr>target_latency_frames = latency, minimum_latency_frames = latency,
              maximum_latency_frames = latency, maximum_rate_correction_ppm = 0\<rparr> in
        (case timing_validate t of
           Err _ \<Rightarrow> Err RtInvalidTiming | Panic \<Rightarrow> Panic
         | Ok _ \<Rightarrow> Ok \<lparr>sc_format = f, clock_discipline = PtpFollower, timing = t\<rparr>))"

text \<open>The loops over the talkers that stop at the first failure.\<close>

fun each_talker :: "(nat \<Rightarrow> 't \<Rightarrow> (unit, 'e) outcome \<times> 't) \<Rightarrow> nat \<Rightarrow> 't list
    \<Rightarrow> (unit, 'e) outcome \<times> 't list" where
  "each_talker f i [] = (Ok (), [])"
| "each_talker f i (t # ts) =
     (case f i t of
        (Ok _, t') \<Rightarrow> let (r, ts') = each_talker f (Suc i) ts in (r, t' # ts')
      | (r, t') \<Rightarrow> (r, t' # ts))"

definition at_endpoint :: "nat \<Rightarrow> (unit, network_transport_error) outcome \<times> 't
    \<Rightarrow> (unit, runtime_error) outcome \<times> 't" where
  "at_endpoint i = apfst (map_err (RtEndpoint i))"

definition runtime_prepare_complete :: "('n, 'c) talker_shim \<Rightarrow> u32 \<Rightarrow> ('n, 'c) genavb_runtime
    \<Rightarrow> (unit, runtime_error) outcome \<times> ('n, 'c) genavb_runtime" where
  "runtime_prepare_complete S latency r =
     (if rt_lifecycle r \<noteq> RtControlOpen
      then (Err (RtInvalidLifecycle RtControlOpen (rt_lifecycle r)), r)
      else case require_complete (rt_session r) of
        Err e \<Rightarrow> (Err (RtSession e), r) | Panic \<Rightarrow> (Panic, r)
      | Ok streams \<Rightarrow>
          (case endpoint_config (rt_endpoint_format r) latency of
             Err e \<Rightarrow> (Err e, r) | Panic \<Rightarrow> (Panic, r)
           | Ok config \<Rightarrow>
               (case each_talker (\<lambda>i t. case get_at streams i of
                       None \<Rightarrow> (Ok (), t)
                     | Some c \<Rightarrow> at_endpoint i
                         (talker_prepare_from_avdecc S (rt_control r) (cn_stream_index c) config t))
                     0 (rt_talkers r) of
                  (Err e, ts) \<Rightarrow> (Err e, abort_epoch S (r\<lparr>rt_talkers := ts\<rparr>))
                | (Panic, ts) \<Rightarrow> (Panic, r\<lparr>rt_talkers := ts\<rparr>)
                | (Ok _, ts) \<Rightarrow> (Ok (), r\<lparr>rt_talkers := ts,
                     rt_fanout := esp_fanout_reset (rt_fanout r), rt_lifecycle := RtPrepared\<rparr>))))"

definition runtime_start :: "('n, 'c) talker_shim \<Rightarrow> ('n, 'c) genavb_runtime
    \<Rightarrow> (unit, runtime_error) outcome \<times> ('n, 'c) genavb_runtime" where
  "runtime_start S r =
     (if rt_lifecycle r \<noteq> RtPrepared
      then (Err (RtInvalidLifecycle RtPrepared (rt_lifecycle r)), r)
      else case each_talker (\<lambda>i t. at_endpoint i (talker_start S t)) 0 (rt_talkers r) of
        (Err e, ts) \<Rightarrow> (Err e, abort_epoch S (r\<lparr>rt_talkers := ts\<rparr>))
      | (Panic, ts) \<Rightarrow> (Panic, r\<lparr>rt_talkers := ts\<rparr>)
      | (Ok _, ts) \<Rightarrow> (Ok (), r\<lparr>rt_talkers := ts,
           rt_fanout := esp_fanout_reset (rt_fanout r), rt_lifecycle := RtStarted\<rparr>))"

definition runtime_submit :: "('n, 'c) talker_shim \<Rightarrow> network_audio_block \<Rightarrow> ('n, 'c) genavb_runtime
    \<Rightarrow> (unit, runtime_error) outcome \<times> ('n, 'c) genavb_runtime" where
  "runtime_submit S b r =
     (if rt_lifecycle r \<noteq> RtStarted
      then (Err (RtInvalidLifecycle RtStarted (rt_lifecycle r)), r)
      else case esp_split b (rt_fanout r) of
        (Err e, f) \<Rightarrow> (Err (RtFanout e), abort_epoch S (r\<lparr>rt_fanout := f\<rparr>))
      | (Panic, f) \<Rightarrow> (Panic, r\<lparr>rt_fanout := f\<rparr>)
      | (Ok _, f) \<Rightarrow>
          (case each_talker (\<lambda>i t. case esp_endpoint_block i f of
                  Err e \<Rightarrow> (Err (RtFanout e), t) | Panic \<Rightarrow> (Panic, t)
                | Ok m \<Rightarrow> at_endpoint i (talker_submit S m t)) 0 (rt_talkers r) of
             (Err e, ts) \<Rightarrow> (Err e, abort_epoch S (r\<lparr>rt_fanout := f, rt_talkers := ts\<rparr>))
           | (Panic, ts) \<Rightarrow> (Panic, r\<lparr>rt_fanout := f, rt_talkers := ts\<rparr>)
           | (Ok _, ts) \<Rightarrow> (Ok (), r\<lparr>rt_fanout := f, rt_talkers := ts\<rparr>)))"

text \<open>The loop of \<open>stop\<close> goes on after a failure and keeps the first.\<close>

fun stop_talkers :: "('n, 'c) talker_shim \<Rightarrow> nat \<Rightarrow> runtime_error option \<Rightarrow> 'n genavb_talker list
    \<Rightarrow> runtime_error option \<times> 'n genavb_talker list" where
  "stop_talkers S i first_error [] = (first_error, [])"
| "stop_talkers S i first_error (t # ts) =
     (let (r, t') = talker_stop S t;
          first_error' = (case (first_error, r) of
              (None, Err e) \<Rightarrow> Some (RtEndpoint i e) | _ \<Rightarrow> first_error);
          (last, ts') = stop_talkers S (Suc i) first_error' ts
      in (last, t' # ts'))"

definition runtime_stop :: "('n, 'c) talker_shim \<Rightarrow> ('n, 'c) genavb_runtime
    \<Rightarrow> (unit, runtime_error) outcome \<times> ('n, 'c) genavb_runtime" where
  "runtime_stop S r =
     (if rt_lifecycle r \<noteq> RtStarted
      then (Err (RtInvalidLifecycle RtStarted (rt_lifecycle r)), r)
      else let (first_error, ts) = stop_talkers S 0 None (rt_talkers r);
               r1 = r\<lparr>rt_talkers := ts, rt_fanout := esp_fanout_reset (rt_fanout r),
                      rt_lifecycle := RtPrepared\<rparr> in
        (case first_error of Some e \<Rightarrow> (Err e, r1) | None \<Rightarrow> (Ok (), r1)))"

definition reset_data_plane ::
  "('n, 'c) talker_shim \<Rightarrow> ('n, 'c) genavb_runtime \<Rightarrow> ('n, 'c) genavb_runtime" where
  "reset_data_plane S r =
     (let r1 = abort_data_plane S r in
      if rt_lifecycle r1 \<noteq> RtLoaded then r1\<lparr>rt_lifecycle := RtControlOpen\<rparr> else r1)"

definition runtime_close_control :: "('n, 'c) talker_shim \<Rightarrow> 'c control_shim \<Rightarrow> ('n, 'c) genavb_runtime
    \<Rightarrow> (unit, runtime_error) outcome \<times> ('n, 'c) genavb_runtime" where
  "runtime_close_control S C r =
     (if rt_lifecycle r = RtLoaded then (Ok (), r)
      else
        let r1 = abort_data_plane S r;
            r2 = r1\<lparr>rt_session := avdecc_session_reset (rt_session r1)\<rparr> in
        (case control_close C (rt_control r2) of
           (Err e, c) \<Rightarrow> (Err (RtControl e), r2\<lparr>rt_control := c\<rparr>)
         | (Panic, c) \<Rightarrow> (Panic, r2\<lparr>rt_control := c\<rparr>)
         | (Ok _, c) \<Rightarrow> (Ok (), r2\<lparr>rt_control := c, rt_lifecycle := RtLoaded\<rparr>)))"

section \<open>What a talker's calls do to its lifecycle\<close>

definition talker_prepared_for :: "network_audio_format \<Rightarrow> 'n genavb_talker \<Rightarrow> bool" where
  "talker_prepared_for f t \<longleftrightarrow> gt_lifecycle t \<noteq> TalkerLoaded \<and> gt_prepared_format t = Some f"

lemma push_event_frame [simp]:
  "gt_handle (push_event e t) = gt_handle t" "gt_lifecycle (push_event e t) = gt_lifecycle t"
  "gt_prepared_format (push_event e t) = gt_prepared_format t"
  "gt_packed_aaf (push_event e t) = gt_packed_aaf t"
  by (simp_all add: push_event_def Let_def)

lemma reset_timeline_frame [simp]:
  "gt_handle (reset_timeline t) = gt_handle t" "gt_lifecycle (reset_timeline t) = gt_lifecycle t"
  "gt_prepared_format (reset_timeline t) = gt_prepared_format t"
  "gt_packed_aaf (reset_timeline t) = gt_packed_aaf t"
  by (simp_all add: reset_timeline_def)

lemma talker_native_ok_cases [simp]:
  "talker_native_ok c = Ok u \<longleftrightarrow> c = 0" "talker_native_ok c \<noteq> Panic"
  by (simp_all add: talker_native_ok_def)

lemma avdecc_native_ok_cases [simp]:
  "avdecc_native_ok c = Ok u \<longleftrightarrow> c = 0" "avdecc_native_ok c \<noteq> Panic"
  by (simp_all add: avdecc_native_ok_def)

lemma control_native_handle_no_panic [simp]: "control_native_handle c \<noteq> Panic"
  by (simp add: control_native_handle_def)

lemma validate_prepare_config_no_panic [simp]: "validate_prepare_config c \<noteq> Panic"
  by (simp add: validate_prepare_config_def split: outcome.split option.split)

lemma talker_stop_result:
  "fst (talker_stop S t) \<noteq> Panic
   \<and> (gt_lifecycle (snd (talker_stop S t)) = TalkerStarted \<longrightarrow> gt_lifecycle t = TalkerStarted)
   \<and> (gt_lifecycle (snd (talker_stop S t)) = TalkerLoaded \<longleftrightarrow> gt_lifecycle t = TalkerLoaded)
   \<and> gt_prepared_format (snd (talker_stop S t)) = gt_prepared_format t
   \<and> (fst (talker_stop S t) = Ok () \<longrightarrow> gt_lifecycle (snd (talker_stop S t)) = TalkerPrepared)"
  by (cases "sh_stop S (gt_handle t)"; cases "gt_lifecycle t")
    (auto simp: talker_stop_def talker_native_ok_def)

lemma talker_reset_result:
  "gt_lifecycle (talker_reset S t) \<noteq> TalkerStarted
   \<and> (gt_lifecycle (talker_reset S t) = TalkerLoaded \<longleftrightarrow> gt_lifecycle t = TalkerLoaded)
   \<and> gt_prepared_format (talker_reset S t) = gt_prepared_format t"
  by (cases "gt_lifecycle t") (auto simp: talker_reset_def Let_def)

lemma talker_start_result:
  "fst (talker_start S t) \<noteq> Panic
   \<and> gt_prepared_format (snd (talker_start S t)) = gt_prepared_format t
   \<and> (fst (talker_start S t) = Ok () \<longleftrightarrow>
        gt_lifecycle t = TalkerPrepared \<and> fst (sh_start S (gt_handle t)) = 0)
   \<and> gt_lifecycle (snd (talker_start S t)) =
       (if fst (talker_start S t) = Ok () then TalkerStarted else gt_lifecycle t)"
  by (cases "sh_start S (gt_handle t)"; cases "gt_lifecycle t")
    (auto simp: talker_start_def talker_native_ok_def)

lemma talker_prepare_from_avdecc_result:
  assumes "talker_prepare_from_avdecc S control i c t = (r, t')"
  shows "r \<noteq> Panic \<and> (r = Ok () \<longrightarrow> gt_lifecycle t' = TalkerPrepared
        \<and> gt_prepared_format t' = Some (sc_format c))
      \<and> (r \<noteq> Ok () \<longrightarrow> gt_lifecycle t' = gt_lifecycle t)"
  using assms validate_prepare_config_no_panic [of c] control_native_handle_no_panic [of control]
  by (auto simp: talker_prepare_from_avdecc_def commit_prepared_def Let_def
      split: if_splits outcome.splits prod.splits)

lemma talker_submit_result:
  assumes "talker_submit S b t = (r, t')"
  shows "r \<noteq> Panic \<and> gt_lifecycle t' = gt_lifecycle t \<and> gt_prepared_format t' = gt_prepared_format t
    \<and> (r = Ok () \<longrightarrow> gt_lifecycle t = TalkerStarted \<and> gt_prepared_format t = Some (format b)
        \<and> (\<forall>x\<in>set (samples b). f32_is_finite x)
        \<and> gt_handle t' = snd (sh_submit S (concat (map aaf_word (samples b)))
            (of_nat (4 * length (samples b))) (frame_index (timestamp b)) (gt_handle t)))"
proof -
  obtain q out where p: "pack_f32_to_aaf (samples b) (gt_packed_aaf t) = (q, out)" by fastforce
  have q: "q \<noteq> Panic" using pack_no_panic [of "samples b" "gt_packed_aaf t"] p by simp
  have ok: "out = concat (map aaf_word (samples b)) \<and> length out = 4 * length (samples b)
      \<and> (\<forall>x\<in>set (samples b). f32_is_finite x)" if "q = Ok ()"
    using p that by (simp add: pack_f32_to_aaf_Ok length_concat_aaf)
  show ?thesis
    using assms q ok unfolding talker_submit_def p
    by (cases q) (auto simp: Let_def split: if_splits outcome.splits option.splits prod.splits)
qed

section \<open>Loops over the talkers\<close>

lemma each_talker_Ok:
  "each_talker f i ts = (Ok (), ts') \<Longrightarrow>
     length ts' = length ts \<and> (\<forall>k<length ts. f (i + k) (ts ! k) = (Ok (), ts' ! k))"
proof (induction ts arbitrary: i ts')
  case Nil
  then show ?case by simp
next
  case (Cons t ts)
  obtain t1 ts1 where ok: "f i t = (Ok (), t1)" "each_talker f (Suc i) ts = (Ok (), ts1)" "ts' = t1 # ts1"
    using Cons.prems by (auto split: prod.splits outcome.splits)
  from Cons.IH [OF ok(2)] show ?case using ok by (auto simp: less_Suc_eq_0_disj)
qed

lemma each_talker_nth:
  assumes "each_talker f 0 ts = (Ok (), ts')" and "k < length ts"
  shows "f k (ts ! k) = (Ok (), ts' ! k)"
  using each_talker_Ok [OF assms(1)] assms(2) by (metis add_0)

lemma each_talker_no_panic:
  "(\<And>i t. fst (f i t) \<noteq> Panic) \<Longrightarrow> fst (each_talker f i ts) \<noteq> Panic"
proof (induction ts arbitrary: i)
  case (Cons t ts)
  obtain r t' where r: "f i t = (r, t')" by fastforce
  have "r \<noteq> Panic" using Cons.prems [of i t] r by simp
  then show ?case using Cons.IH [OF Cons.prems, of "Suc i"] r by (cases r) (auto split: prod.split)
qed simp

lemma length_each_talker: "length (snd (each_talker f i ts)) = length ts"
proof (induction ts arbitrary: i)
  case (Cons t ts)
  obtain r t' where r: "f i t = (r, t')" by fastforce
  then show ?case using Cons.IH [of "Suc i"] by (cases r) (auto split: prod.split)
qed simp

lemma at_endpoint_no_panic [simp]: "fst (at_endpoint i r) \<noteq> Panic \<longleftrightarrow> fst r \<noteq> Panic"
  by (cases r) (simp add: at_endpoint_def)

lemma at_endpoint_Ok [simp]: "at_endpoint i r = (Ok u, t) \<longleftrightarrow> r = (Ok u, t)"
  by (cases r) (simp add: at_endpoint_def)

lemma stop_talkers_result:
  "stop_talkers S i first ts = (err, ts') \<Longrightarrow>
     ts' = map (\<lambda>t. snd (talker_stop S t)) ts
     \<and> (err = None \<longrightarrow> first = None \<and> (\<forall>t\<in>set ts. fst (talker_stop S t) = Ok ()))"
proof (induction ts arbitrary: i first err ts')
  case Nil
  then show ?case by simp
next
  case (Cons t ts)
  obtain r t1 where r: "talker_stop S t = (r, t1)" by fastforce
  obtain err1 ts1 where rest: "stop_talkers S (Suc i) (case (first, r) of
      (None, Err e) \<Rightarrow> Some (RtEndpoint i e) | _ \<Rightarrow> first) ts = (err1, ts1)" by fastforce
  have "r \<noteq> Panic" using talker_stop_result [of S t] r by simp
  then show ?case
    using Cons.IH [OF rest] Cons.prems r rest
    by (cases r) (auto simp: Let_def split: option.splits)
qed

section \<open>Invariant\<close>

definition all_halted :: "('n, 'c) genavb_runtime \<Rightarrow> bool" where
  "all_halted r \<longleftrightarrow> (\<forall>t\<in>set (rt_talkers r). gt_lifecycle t \<noteq> TalkerStarted)"

definition runtime_core :: "esp_avb_fanout_plan \<Rightarrow> ('n, 'c) genavb_runtime \<Rightarrow> bool" where
  "runtime_core p r \<longleftrightarrow> session_inv (rt_session r) \<and> esp_fanout_inv (rt_fanout r)
     \<and> ef_plan (rt_fanout r) = p \<and> block_frames (ef_input_format (rt_fanout r)) = GENAVB_BLOCK_FRAMES
     \<and> length (rt_talkers r) = 6
     \<and> rt_endpoint_format r = \<lparr>sample_rate = AURORA_NETWORK_MEDIA_RATE, channels = GENAVB_CHANNELS,
         block_frames = GENAVB_BLOCK_FRAMES\<rparr>"

fun phase_ok :: "runtime_lifecycle \<Rightarrow> ('n, 'c) genavb_runtime \<Rightarrow> bool" where
  "phase_ok RtLoaded r = all_halted r"
| "phase_ok RtControlOpen r = all_halted r"
| "phase_ok RtPrepared r = (session_is_complete (rt_session r)
     \<and> (\<forall>t\<in>set (rt_talkers r). talker_prepared_for (rt_endpoint_format r) t))"
| "phase_ok RtStarted r = (session_is_complete (rt_session r)
     \<and> (\<forall>t\<in>set (rt_talkers r). gt_lifecycle t = TalkerStarted
          \<and> gt_prepared_format t = Some (rt_endpoint_format r)))"

definition runtime_inv :: "esp_avb_fanout_plan \<Rightarrow> ('n, 'c) genavb_runtime \<Rightarrow> bool" where
  "runtime_inv p r \<longleftrightarrow> runtime_core p r \<and> phase_ok (rt_lifecycle r) r"

lemma esp_reset_frame [simp]:
  "ef_plan (esp_fanout_reset f) = ef_plan f"
  "ef_input_format (esp_fanout_reset f) = ef_input_format f"
  by (simp_all add: esp_fanout_reset_def)

lemma abort_core [simp]: "runtime_core p (abort_data_plane S r) = runtime_core p r"
  by (simp add: runtime_core_def abort_data_plane_def)

lemma abort_frame [simp]:
  "rt_session (abort_data_plane S r) = rt_session r" "rt_control (abort_data_plane S r) = rt_control r"
  "rt_lifecycle (abort_data_plane S r) = rt_lifecycle r"
  by (simp_all add: abort_data_plane_def)

lemma abort_halts: "all_halted (abort_data_plane S r)"
  using talker_reset_result by (auto simp: all_halted_def abort_data_plane_def)

lemma core_update:
  "runtime_core p r \<Longrightarrow> length ts = 6 \<Longrightarrow> runtime_core p (r\<lparr>rt_talkers := ts\<rparr>)"
  "runtime_core p (r\<lparr>rt_control := c\<rparr>) = runtime_core p r"
  "runtime_core p (r\<lparr>rt_lifecycle := l\<rparr>) = runtime_core p r"
  "runtime_core p r \<Longrightarrow> session_inv s \<Longrightarrow> runtime_core p (r\<lparr>rt_session := s\<rparr>)"
  "runtime_core p r \<Longrightarrow> runtime_core p (r\<lparr>rt_fanout := snd (esp_split b (rt_fanout r))\<rparr>)"
  "runtime_core p r \<Longrightarrow> runtime_core p (r\<lparr>rt_fanout := esp_fanout_reset (rt_fanout r)\<rparr>)"
  by (simp_all add: runtime_core_def esp_split_inv)

lemma phase_control [simp]: "phase_ok l (r\<lparr>rt_control := c\<rparr>) = phase_ok l r"
  by (cases l) (simp_all add: all_halted_def)

lemma phase_fanout [simp]: "phase_ok l (r\<lparr>rt_fanout := f\<rparr>) = phase_ok l r"
  by (cases l) (simp_all add: all_halted_def)

lemma abort_epoch_inv: "runtime_core p r \<Longrightarrow> runtime_inv p (abort_epoch S r)"
  using abort_halts [of S r]
  by (simp add: runtime_inv_def abort_epoch_def core_update(3) all_halted_def)

section \<open>Every operation keeps the invariant\<close>

lemma control_open_no_panic: "fst (control_open C c) \<noteq> Panic"
  by (cases "cs_open C (gc_handle c)") (auto simp: control_open_def avdecc_native_ok_def)

lemma control_close_no_panic: "fst (control_close C c) \<noteq> Panic"
  by (cases "cs_close C (gc_handle c)") (auto simp: control_close_def avdecc_native_ok_def)

lemma control_receive_no_panic: "fst (control_receive C c) \<noteq> Panic"
proof -
  have "decode_event raw \<noteq> Panic" for raw by (simp add: decode_event_def Let_def)
  then show ?thesis
    by (auto simp: control_receive_def Let_def split: prod.split outcome.split)
qed

lemma open_keeps:
  assumes "runtime_inv p r"
  shows "runtime_inv p (snd (runtime_open_control C r)) \<and> fst (runtime_open_control C r) \<noteq> Panic"
proof -
  obtain q c where q: "control_open C (rt_control r) = (q, c)" by fastforce
  then have "q \<noteq> Panic" using control_open_no_panic [of C "rt_control r"] by simp
  then show ?thesis
    using assms q unfolding runtime_open_control_def
    by (cases q) (auto simp: runtime_inv_def core_update all_halted_def)
qed

lemma complete_rejects_connect:
  assumes "session_inv s" and "session_is_complete s"
  shows "\<exists>e. session_connect event s = (Err e, s)"
proof -
  have "as_connected s ! role_slot role \<noteq> None" for role
  proof -
    have "role_slot role < length (as_connected s)" using assms(1) by (simp add: session_inv_def)
    from nth_mem [OF this] show ?thesis using assms complete_iff by metis
  qed
  then show ?thesis using session_connect_cases [of event s] by blast
qed

lemma receive_keeps:
  assumes "runtime_inv p r"
  shows "runtime_inv p (snd (runtime_receive_control S C r))
    \<and> fst (runtime_receive_control S C r) \<noteq> Panic"
proof (cases "rt_lifecycle r = RtLoaded")
  case True
  then show ?thesis using assms by (simp add: runtime_receive_control_def)
next
  case False
  obtain q c where q: "control_receive C (rt_control r) = (q, c)" by fastforce
  have np: "q \<noteq> Panic" using control_receive_no_panic [of C "rt_control r"] q by simp
  let ?r1 = "r\<lparr>rt_control := c\<rparr>"
  have inv1: "runtime_inv p ?r1" using assms by (simp add: runtime_inv_def core_update(2))
  show ?thesis
  proof (cases "\<exists>event. q = Ok (Some event)")
    case False
    then show ?thesis
      using np inv1 \<open>rt_lifecycle r \<noteq> RtLoaded\<close>
      by (cases q) (auto simp: runtime_receive_control_def q split: option.split)
  next
    case True
    then obtain event where ev: "q = Ok (Some event)" by blast
    obtain u s where u: "session_apply event (rt_session r) = (u, s)" by fastforce
    have ses: "session_inv (rt_session r)"
      using assms by (simp add: runtime_inv_def runtime_core_def)
    have s: "session_inv s" "u \<noteq> Panic" using session_apply_inv [OF ses, of event] u by simp_all
    let ?r2 = "?r1\<lparr>rt_session := s\<rparr>"
    have core: "runtime_core p ?r2"
      using inv1 s(1) by (simp add: runtime_inv_def core_update(4))
    show ?thesis
    proof (cases u)
      case (Err e)
      have "runtime_core p (abort_data_plane S ?r2\<lparr>rt_session := avdecc_session_reset s\<rparr>)"
        using core s(1) by (intro core_update(4) session_reset_inv) simp_all
      then show ?thesis
        using \<open>rt_lifecycle r \<noteq> RtLoaded\<close> abort_halts [of S ?r2]
        by (simp add: runtime_receive_control_def q ev u Err Let_def runtime_inv_def
            core_update(3) all_halted_def)
    next
      case (Ok update)
      have disc: ?thesis if "ae_kind event = Disconnect"
        using \<open>rt_lifecycle r \<noteq> RtLoaded\<close> abort_epoch_inv [OF core, of S] that
        by (simp add: runtime_receive_control_def q ev u Ok Let_def)
      have "runtime_inv p ?r2" if "ae_kind event = Connect"
      proof (cases "session_is_complete (rt_session r)")
        case True
        then show ?thesis
          using complete_rejects_connect [OF ses True, of event] that u Ok
          by (auto simp: session_apply_def)
      next
        case False
        then have "all_halted r" using assms by (cases "rt_lifecycle r") (simp_all add: runtime_inv_def)
        then show ?thesis
          using core False assms by (cases "rt_lifecycle r") (simp_all add: runtime_inv_def all_halted_def)
      qed
      then show ?thesis
        using disc \<open>rt_lifecycle r \<noteq> RtLoaded\<close>
        by (cases "ae_kind event") (simp_all add: runtime_receive_control_def q ev u Ok Let_def)
    qed (use s in simp)
  qed
qed

lemma require_complete_no_panic: "session_inv s \<Longrightarrow> require_complete s \<noteq> Panic"
  by (simp add: require_complete_eq)

lemma endpoint_config_result:
  "endpoint_config f latency \<noteq> Panic
   \<and> (endpoint_config f latency = Ok config \<longrightarrow> sc_format config = f)"
  by (auto simp: endpoint_config_def Let_def split: outcome.split)

lemma prepare_keeps:
  assumes "runtime_inv p r"
  shows "runtime_inv p (snd (runtime_prepare_complete S latency r))
    \<and> fst (runtime_prepare_complete S latency r) \<noteq> Panic"
proof (cases "rt_lifecycle r = RtControlOpen")
  case False
  then show ?thesis using assms by (simp add: runtime_prepare_complete_def)
next
  case True
  have core: "runtime_core p r" and ses: "session_inv (rt_session r)"
      and len: "length (rt_talkers r) = 6"
    using assms by (simp_all add: runtime_inv_def runtime_core_def)
  show ?thesis
  proof (cases "\<exists>streams config. require_complete (rt_session r) = Ok streams
      \<and> endpoint_config (rt_endpoint_format r) latency = Ok config")
    case False
    then show ?thesis
      using True assms require_complete_no_panic [OF ses] endpoint_config_result [of "rt_endpoint_format r" latency]
      by (auto simp: runtime_prepare_complete_def split: outcome.split)
  next
    case True
    then obtain streams config where ok: "require_complete (rt_session r) = Ok streams"
      "endpoint_config (rt_endpoint_format r) latency = Ok config" by blast
    let ?f = "\<lambda>i t. case get_at streams i of None \<Rightarrow> (Ok (), t)
      | Some c \<Rightarrow> at_endpoint i
          (talker_prepare_from_avdecc S (rt_control r) (cn_stream_index c) config t)"
    obtain q ts where q: "each_talker ?f 0 (rt_talkers r) = (q, ts)" by fastforce
    have len_ts: "length ts = 6" using length_each_talker [of ?f 0 "rt_talkers r"] q len by simp
    have "fst (?f i t) \<noteq> Panic" for i t
    proof (cases "get_at streams i")
      case (Some c)
      obtain a t' where a: "talker_prepare_from_avdecc S (rt_control r) (cn_stream_index c) config t = (a, t')"
        by fastforce
      from talker_prepare_from_avdecc_result [OF a] show ?thesis unfolding Some using a by simp
    next
      case None
      show ?thesis unfolding None by simp
    qed
    then have np: "q \<noteq> Panic" using each_talker_no_panic [of ?f 0 "rt_talkers r"] q by simp
    have core_ts: "runtime_core p (r\<lparr>rt_talkers := ts\<rparr>)" using core len_ts by (rule core_update(1))
    have comp: "session_is_complete (rt_session r)"
      using ok(1) require_complete_eq [OF ses] by (auto split: if_splits)
    have "length streams = 6"
      using ok(1) require_complete_eq [OF ses] ses by (auto simp: session_inv_def split: if_splits)
    then have prep: "talker_prepared_for (rt_endpoint_format r) t" if "q = Ok ()" "t \<in> set ts" for t
    proof -
      obtain k where k: "k < 6" "t = ts ! k" using \<open>t \<in> set ts\<close> len_ts by (auto simp: in_set_conv_nth)
      have "?f k (rt_talkers r ! k) = (Ok (), t)"
        using each_talker_nth [of ?f "rt_talkers r" ts k] q \<open>q = Ok ()\<close> k len by simp
      then have "talker_prepare_from_avdecc S (rt_control r) (cn_stream_index (streams ! k)) config
          (rt_talkers r ! k) = (Ok (), t)"
        using k(1) \<open>length streams = 6\<close> by (simp add: get_at_def)
      from talker_prepare_from_avdecc_result [OF this] show ?thesis
        using endpoint_config_result ok(2) by (auto simp: talker_prepared_for_def)
    qed
    have core_f: "runtime_core p (r\<lparr>rt_talkers := ts, rt_fanout := esp_fanout_reset (rt_fanout r)\<rparr>)"
      using core_update(6) [OF core_ts] by simp
    show ?thesis
      using \<open>rt_lifecycle r = RtControlOpen\<close> ok q np abort_epoch_inv [OF core_ts, of S]
        core_f prep comp
      by (cases q) (auto simp: runtime_prepare_complete_def runtime_inv_def core_update(3))
  qed
qed

lemma start_keeps:
  assumes "runtime_inv p r"
  shows "runtime_inv p (snd (runtime_start S r)) \<and> fst (runtime_start S r) \<noteq> Panic"
proof (cases "rt_lifecycle r = RtPrepared")
  case False
  then show ?thesis using assms by (simp add: runtime_start_def)
next
  case True
  let ?f = "\<lambda>i t. at_endpoint i (talker_start S t)"
  obtain q ts where q: "each_talker ?f 0 (rt_talkers r) = (q, ts)" by fastforce
  have core: "runtime_core p r" and len: "length (rt_talkers r) = 6"
    using assms by (simp_all add: runtime_inv_def runtime_core_def)
  have len_ts: "length ts = 6" using length_each_talker [of ?f 0 "rt_talkers r"] q len by simp
  have np: "q \<noteq> Panic"
    using each_talker_no_panic [of ?f 0 "rt_talkers r"] q by (simp add: talker_start_result)
  have core_ts: "runtime_core p (r\<lparr>rt_talkers := ts\<rparr>)" using core len_ts by (rule core_update(1))
  have started: "gt_lifecycle t = TalkerStarted \<and> gt_prepared_format t = Some (rt_endpoint_format r)"
    if "q = Ok ()" "t \<in> set ts" for t
  proof -
    obtain k where k: "k < 6" "t = ts ! k" using \<open>t \<in> set ts\<close> len_ts by (auto simp: in_set_conv_nth)
    have "talker_start S (rt_talkers r ! k) = (Ok (), t)"
      using each_talker_nth [of ?f "rt_talkers r" ts k] q \<open>q = Ok ()\<close> k len by simp
    moreover have "talker_prepared_for (rt_endpoint_format r) (rt_talkers r ! k)"
      using assms True k len by (simp add: runtime_inv_def)
    ultimately show ?thesis
      using talker_start_result [of S "rt_talkers r ! k"] by (simp add: talker_prepared_for_def)
  qed
  have core_f: "runtime_core p (r\<lparr>rt_talkers := ts, rt_fanout := esp_fanout_reset (rt_fanout r)\<rparr>)"
    using core_update(6) [OF core_ts] by simp
  show ?thesis
    using True q np abort_epoch_inv [OF core_ts, of S] core_f started assms
    by (cases q) (auto simp: runtime_start_def runtime_inv_def core_update(3))
qed

lemma stop_keeps:
  assumes "runtime_inv p r"
  shows "runtime_inv p (snd (runtime_stop S r)) \<and> fst (runtime_stop S r) \<noteq> Panic"
proof (cases "rt_lifecycle r = RtStarted")
  case False
  then show ?thesis using assms by (simp add: runtime_stop_def)
next
  case True
  obtain err ts where q: "stop_talkers S 0 None (rt_talkers r) = (err, ts)" by fastforce
  have ts: "ts = map (\<lambda>t. snd (talker_stop S t)) (rt_talkers r)" using stop_talkers_result [OF q] by simp
  have core: "runtime_core p r" and len: "length (rt_talkers r) = 6"
    using assms by (simp_all add: runtime_inv_def runtime_core_def)
  have core_ts: "runtime_core p (r\<lparr>rt_talkers := ts\<rparr>)" using core len ts by (intro core_update(1)) simp_all
  have "runtime_core p (r\<lparr>rt_talkers := ts, rt_fanout := esp_fanout_reset (rt_fanout r)\<rparr>)"
    using core_update(6) [OF core_ts] by simp
  moreover have "talker_prepared_for (rt_endpoint_format r) t" if t: "t \<in> set ts" for t
  proof -
    obtain t0 where t0: "t0 \<in> set (rt_talkers r)" "t = snd (talker_stop S t0)" using t ts by auto
    then show ?thesis
      using assms True talker_stop_result [of S t0] by (simp add: runtime_inv_def talker_prepared_for_def)
  qed
  ultimately have "runtime_inv p (r\<lparr>rt_talkers := ts, rt_fanout := esp_fanout_reset (rt_fanout r),
      rt_lifecycle := RtPrepared\<rparr>)"
    using assms True by (auto simp: runtime_inv_def core_update(3))
  then show ?thesis using True by (simp add: runtime_stop_def q Let_def split: option.split)
qed

lemma reset_plane_keeps: "runtime_inv p r \<Longrightarrow> runtime_inv p (reset_data_plane S r)"
  using abort_halts [of S r]
  by (auto simp: reset_data_plane_def Let_def runtime_inv_def core_update(3) all_halted_def)

text \<open>Closing keeps it when the shim closes.\<close>

lemma close_keeps:
  assumes "runtime_inv p r"
  shows "fst (runtime_close_control S C r) \<noteq> Panic
    \<and> (is_ok (fst (runtime_close_control S C r)) \<longrightarrow> runtime_inv p (snd (runtime_close_control S C r)))"
proof (cases "rt_lifecycle r = RtLoaded")
  case True
  then show ?thesis using assms by (simp add: runtime_close_control_def)
next
  case False
  obtain q c where q: "control_close C (rt_control r) = (q, c)" by fastforce
  have np: "q \<noteq> Panic" using control_close_no_panic [of C "rt_control r"] q by simp
  have core: "runtime_core p r" using assms by (simp add: runtime_inv_def)
  then have "session_inv (avdecc_session_reset (rt_session r))"
    by (simp add: runtime_core_def session_reset_inv)
  then have "runtime_core p (abort_data_plane S r\<lparr>rt_session := avdecc_session_reset (rt_session r)\<rparr>)"
    using core by (intro core_update(4)) simp_all
  then show ?thesis
    using False np abort_halts [of S r]
    by (cases q) (simp_all add: runtime_close_control_def q Let_def runtime_inv_def core_update all_halted_def)
qed

lemma submit_loop_Ok:
  assumes "runtime_inv p r" and "rt_lifecycle r = RtStarted" and "runtime_submit S b r = (Ok (), r')"
  shows "\<exists>f. esp_split b (rt_fanout r) = (Ok (), f) \<and> length (rt_talkers r') = 6
    \<and> r' = r\<lparr>rt_fanout := f, rt_talkers := rt_talkers r'\<rparr>
    \<and> (\<forall>i<6. \<exists>m. esp_endpoint_block i f = Ok m
         \<and> talker_submit S m (rt_talkers r ! i) = (Ok (), rt_talkers r' ! i))"
proof -
  obtain u f where u: "esp_split b (rt_fanout r) = (u, f)" by fastforce
  let ?g = "\<lambda>i t. case esp_endpoint_block i f of
      Err e \<Rightarrow> (Err (RtFanout e), t) | Panic \<Rightarrow> (Panic, t)
    | Ok m \<Rightarrow> at_endpoint i (talker_submit S m t)"
  obtain q ts where q: "each_talker ?g 0 (rt_talkers r) = (q, ts)" by fastforce
  have ok: "u = Ok ()" "q = Ok ()" "r' = r\<lparr>rt_fanout := f, rt_talkers := ts\<rparr>"
    using assms(2,3) q by (auto simp: runtime_submit_def u split: outcome.splits)
  have len: "length (rt_talkers r) = 6" using assms(1) by (simp add: runtime_inv_def runtime_core_def)
  have each: "\<exists>m. esp_endpoint_block i f = Ok m
      \<and> talker_submit S m (rt_talkers r ! i) = (Ok (), ts ! i)" if "i < 6" for i
  proof -
    have "?g i (rt_talkers r ! i) = (Ok (), ts ! i)"
      using each_talker_nth [of ?g "rt_talkers r" ts i] q ok(2) that len by simp
    then show ?thesis by (cases "esp_endpoint_block i f") simp_all
  qed
  have "length ts = 6" using length_each_talker [of ?g 0 "rt_talkers r"] q len by simp
  then show ?thesis using each u ok by auto
qed

lemma submit_keeps:
  assumes "runtime_inv p r"
  shows "runtime_inv p (snd (runtime_submit S b r)) \<and> fst (runtime_submit S b r) \<noteq> Panic"
proof (cases "rt_lifecycle r = RtStarted")
  case False
  then show ?thesis using assms by (simp add: runtime_submit_def)
next
  case True
  obtain u f where u: "esp_split b (rt_fanout r) = (u, f)" by fastforce
  have core: "runtime_core p r" and len: "length (rt_talkers r) = 6"
      and fan: "esp_fanout_inv (rt_fanout r)"
    using assms by (simp_all add: runtime_inv_def runtime_core_def)
  have core_f: "runtime_core p (r\<lparr>rt_fanout := f\<rparr>)" using core_update(5) [OF core, of b] u by simp
  have np: "u \<noteq> Panic" using esp_split_no_panic [OF fan, of b] u by simp
  let ?g = "\<lambda>i t. case esp_endpoint_block i f of
      Err e \<Rightarrow> (Err (RtFanout e), t) | Panic \<Rightarrow> (Panic, t)
    | Ok m \<Rightarrow> at_endpoint i (talker_submit S m t)"
  obtain q ts where q: "each_talker ?g 0 (rt_talkers r) = (q, ts)" by fastforce
  have len_ts: "length ts = 6" using length_each_talker [of ?g 0 "rt_talkers r"] q len by simp
  have core_ts: "runtime_core p (r\<lparr>rt_fanout := f, rt_talkers := ts\<rparr>)"
    using core_f len_ts by (rule core_update(1))
  have "fst (?g i t) \<noteq> Panic" for i t
  proof (cases "esp_endpoint_block i f")
    case (Ok m)
    obtain a t' where a: "talker_submit S m t = (a, t')" by fastforce
    from talker_submit_result [OF a] show ?thesis using Ok a by simp
  qed (simp_all add: esp_endpoint_block_def split: option.splits)
  then have npq: "q \<noteq> Panic" using each_talker_no_panic [of ?g 0 "rt_talkers r"] q by simp
  have keep: "gt_lifecycle t = TalkerStarted \<and> gt_prepared_format t = Some (rt_endpoint_format r)"
    if res: "runtime_submit S b r = (Ok (), r')" and t: "t \<in> set (rt_talkers r')" for r' t
  proof -
    obtain m i where i: "i < 6" "t = rt_talkers r' ! i"
        "talker_submit S m (rt_talkers r ! i) = (Ok (), t)"
      using submit_loop_Ok [OF assms True res] t by (auto simp: in_set_conv_nth)
    have "rt_talkers r ! i \<in> set (rt_talkers r)" using i(1) len by simp
    then show ?thesis
      using talker_submit_result [OF i(3)] assms True by (simp add: runtime_inv_def)
  qed
  show ?thesis
  proof (cases "u = Ok () \<and> q = Ok ()")
    case ok: True
    have res: "runtime_submit S b r = (Ok (), r\<lparr>rt_fanout := f, rt_talkers := ts\<rparr>)"
      using True ok q by (simp add: runtime_submit_def u)
    show ?thesis
      using core_ts keep [OF res] assms True by (simp add: res runtime_inv_def)
  next
    case False
    then show ?thesis
      using True np npq abort_epoch_inv [OF core_f, of S] abort_epoch_inv [OF core_ts, of S]
      by (cases u; cases q) (auto simp: runtime_submit_def u q)
  qed
qed

section \<open>Runs\<close>

datatype runtime_op =
    OpOpen | OpReceive | OpPrepare u32 | OpStart | OpSubmit network_audio_block | OpStop
  | OpResetPlane | OpClose

definition forget :: "('a, 'e) outcome \<times> 's \<Rightarrow> (unit, 'e) outcome \<times> 's" where
  "forget x = (case fst x of Ok _ \<Rightarrow> Ok () | Err e \<Rightarrow> Err e | Panic \<Rightarrow> Panic, snd x)"

fun runtime_step :: "('n, 'c) talker_shim \<Rightarrow> 'c control_shim \<Rightarrow> runtime_op \<Rightarrow> ('n, 'c) genavb_runtime
    \<Rightarrow> (unit, runtime_error) outcome \<times> ('n, 'c) genavb_runtime" where
  "runtime_step S C OpOpen r = runtime_open_control C r"
| "runtime_step S C OpReceive r = forget (runtime_receive_control S C r)"
| "runtime_step S C (OpPrepare latency) r = runtime_prepare_complete S latency r"
| "runtime_step S C OpStart r = runtime_start S r"
| "runtime_step S C (OpSubmit b) r = runtime_submit S b r"
| "runtime_step S C OpStop r = runtime_stop S r"
| "runtime_step S C OpResetPlane r = (Ok (), reset_data_plane S r)"
| "runtime_step S C OpClose r = runtime_close_control S C r"

text \<open>
  Histories in which every close of the control channel succeeded; any other call may fail, the
  failing calls of the shim included.
\<close>

inductive runtime_reach ::
  "('n, 'c) talker_shim \<Rightarrow> 'c control_shim \<Rightarrow> ('n, 'c) genavb_runtime \<Rightarrow> ('n, 'c) genavb_runtime \<Rightarrow> bool"
  for S C r0 where
  reach_load: "runtime_reach S C r0 r0"
| reach_step: "runtime_reach S C r0 r \<Longrightarrow> runtime_step S C op r = (res, r') \<Longrightarrow>
    op \<noteq> OpClose \<or> is_ok res \<Longrightarrow> runtime_reach S C r0 r'"

lemma runtime_step_keeps:
  assumes "runtime_inv p r"
  shows "fst (runtime_step S C op r) \<noteq> Panic
    \<and> (op \<noteq> OpClose \<or> is_ok (fst (runtime_step S C op r)) \<longrightarrow> runtime_inv p (snd (runtime_step S C op r)))"
  using open_keeps [OF assms] receive_keeps [OF assms] prepare_keeps [OF assms] start_keeps [OF assms]
    submit_keeps [OF assms] stop_keeps [OF assms] reset_plane_keeps [OF assms] close_keeps [OF assms]
  by (cases op) (auto simp: forget_def split: outcome.split)

lemma esp_plan_six:
  assumes "esp_plan_ok p"
  shows "length (fo_endpoints p) = 6"
proof -
  have "{c :: usize. c < 12} = of_nat ` {..<12}"
  proof (intro set_eqI iffI)
    fix c :: usize
    assume "c \<in> {c. c < 12}"
    then have "unat c < 12" "c = of_nat (unat c)" by (simp_all add: word_less_nat_alt)
    then show "c \<in> of_nat ` {..<12}" by blast
  qed (auto simp: word_less_nat_alt unat_of_nat)
  moreover have "inj_on (of_nat :: nat \<Rightarrow> usize) {..<12}"
    by (auto simp: inj_on_def word_unat_eq_iff unat_of_nat)
  ultimately have "card {c :: usize. c < 12} = 12" by (simp add: card_image)
  moreover have "distinct (plan_lanes p)" and "set (plan_lanes p) = {c. c < 12}"
    using assms by (simp_all add: esp_plan_ok_def)
  from distinct_card [OF this(1)] this(2) have "card {c :: usize. c < 12} = length (plan_lanes p)"
    by simp
  moreover have "length (plan_lanes p) = 2 * length (fo_endpoints p)"
    unfolding plan_lanes_def by (induction "fo_endpoints p" rule: list.induct) (simp_all add: length_concat comp_def sum_list_triv)
  ultimately show ?thesis by simp
qed

lemma load_talkers_result:
  "load_talkers open_talker path is = Ok ts \<Longrightarrow>
     length ts = length is \<and> (\<forall>t\<in>set ts. gt_lifecycle t = TalkerLoaded)"
  by (induction "is" arbitrary: ts) (auto simp: talker_load_def split: outcome.splits)

lemma runtime_load_inv:
  assumes "runtime_load (open_handle :: string \<Rightarrow> ('c, 'l) outcome) open_talker path expecting p frames = Ok r"
  shows "runtime_inv p r \<and> rt_lifecycle r = RtLoaded
    \<and> (validate_fanout_order p :: (unit, 'l runtime_load_error) outcome) = Ok ()"
proof -
  obtain h session f ts where ok: "frames = GENAVB_BLOCK_FRAMES"
    "(validate_fanout_order p :: (unit, 'l runtime_load_error) outcome) = Ok ()"
    "open_handle path = Ok h" "avdecc_session_new expecting = Ok session"
    "esp_fanout_prepare p frames = Ok f"
    "load_talkers open_talker path [0..<ESP_AVB_7_1_4_ENDPOINTS] = Ok ts"
    and r: "r = \<lparr>rt_control = \<lparr>gc_handle = h, gc_shim_path = path, gc_lifecycle = ControlLoaded\<rparr>,
       rt_session = session, rt_talkers = ts, rt_fanout = f,
       rt_endpoint_format = \<lparr>sample_rate = AURORA_NETWORK_MEDIA_RATE,
         channels = GENAVB_CHANNELS, block_frames = frames\<rparr>, rt_lifecycle = RtLoaded\<rparr>"
    using assms by (auto simp: runtime_load_def split: if_splits outcome.splits)
  have "esp_plan_validate p = Ok ()"
    using ok(2) by (simp add: validate_fanout_order_def split: outcome.splits)
  then have "length (fo_endpoints p) = 6" using esp_plan_validate_Ok esp_plan_six by blast
  from esp_prepare_inv [OF this ok(5)] load_talkers_result [OF ok(6)] avdecc_new_inv [OF ok(4)]
  have "runtime_core p r" "all_halted r"
    by (auto simp: r ok(1) runtime_core_def all_halted_def esp_sizes)
  then show ?thesis using ok(2) by (simp add: runtime_inv_def r)
qed

lemma runtime_reach_inv:
  "runtime_reach S C r0 r \<Longrightarrow> runtime_inv p r0 \<Longrightarrow> runtime_inv p r"
proof (induction rule: runtime_reach.induct)
  case (reach_step r op res r')
  then show ?case using runtime_step_keeps [of p r S C op] by simp
qed

section \<open>Histories with failed closes\<close>

text \<open>
  A close that fails has already emptied the session and aborted the talkers, but leaves the
  lifecycle.  The history remembers whether such a close is pending: whether the lifecycle has not
  been back at \<open>Loaded\<close> or \<open>ControlOpen\<close> since.
\<close>

fun close_pending :: "runtime_op \<Rightarrow> (unit, runtime_error) outcome \<Rightarrow> bool \<Rightarrow> runtime_lifecycle \<Rightarrow> bool" where
  "close_pending op res torn l \<longleftrightarrow>
     l \<in> {RtPrepared, RtStarted} \<and> (torn \<or> op = OpClose \<and> \<not> is_ok res)"

inductive runtime_history ::
  "('n, 'c) talker_shim \<Rightarrow> 'c control_shim \<Rightarrow> ('n, 'c) genavb_runtime \<Rightarrow> bool \<Rightarrow> ('n, 'c) genavb_runtime \<Rightarrow> bool"
  for S C r0 where
  history_load: "runtime_history S C r0 False r0"
| history_step: "runtime_history S C r0 torn r \<Longrightarrow> runtime_step S C op r = (res, r') \<Longrightarrow>
    runtime_history S C r0 (close_pending op res torn (rt_lifecycle r')) r'"

text \<open>What also a failed close leaves behind.\<close>

definition runtime_weak :: "esp_avb_fanout_plan \<Rightarrow> ('n, 'c) genavb_runtime \<Rightarrow> bool" where
  "runtime_weak p r \<longleftrightarrow> runtime_core p r \<and> (rt_lifecycle r \<in> {RtLoaded, RtControlOpen} \<longrightarrow> all_halted r)"

lemma inv_weak: "runtime_inv p r \<Longrightarrow> runtime_weak p r"
  by (auto simp: runtime_inv_def runtime_weak_def)

lemma weak_inv: "runtime_weak p r \<Longrightarrow> rt_lifecycle r \<notin> {RtPrepared, RtStarted} \<Longrightarrow> runtime_inv p r"
  by (cases "rt_lifecycle r") (auto simp: runtime_inv_def runtime_weak_def)

lemma weak_receive:
  assumes w: "runtime_weak p r" and l: "rt_lifecycle r \<in> {RtPrepared, RtStarted}"
  shows "runtime_weak p (snd (runtime_receive_control S C r)) \<and> fst (runtime_receive_control S C r) \<noteq> Panic"
proof -
  have core: "runtime_core p r" and ses: "session_inv (rt_session r)" and loaded: "rt_lifecycle r \<noteq> RtLoaded"
    using w l by (auto simp: runtime_weak_def runtime_core_def)
  obtain q c where q: "control_receive C (rt_control r) = (q, c)" by fastforce
  have np: "q \<noteq> Panic" using control_receive_no_panic [of C "rt_control r"] q by simp
  show ?thesis
  proof (cases "\<exists>event. q = Ok (Some event)")
    case False
    then show ?thesis
      using np w l loaded
      by (cases q) (auto simp: runtime_receive_control_def q runtime_weak_def core_update split: option.split)
  next
    case True
    then obtain event where ev: "q = Ok (Some event)" by blast
    obtain u s where u: "session_apply event (rt_session r) = (u, s)" by fastforce
    have s: "session_inv s" "u \<noteq> Panic" using session_apply_inv [OF ses, of event] u by simp_all
    have core2: "runtime_core p (r\<lparr>rt_control := c, rt_session := s\<rparr>)"
      using core s(1) by (simp add: core_update)
    have core3: "runtime_core p (abort_data_plane S (r\<lparr>rt_control := c, rt_session := s\<rparr>)\<lparr>rt_session := avdecc_session_reset s\<rparr>)"
      using core2 s(1) by (intro core_update(4) session_reset_inv) simp_all
    have halted: "all_halted (abort_data_plane S (r\<lparr>rt_control := c, rt_session := s\<rparr>)\<lparr>rt_session := x, rt_lifecycle := y\<rparr>)"
      "all_halted (abort_data_plane S (r\<lparr>rt_control := c, rt_session := s\<rparr>)\<lparr>rt_lifecycle := y\<rparr>)" for x y
      using abort_halts [of S "r\<lparr>rt_control := c, rt_session := s\<rparr>"] by (simp_all add: all_halted_def)
    show ?thesis
      using loaded l core2 core3 halted s(2) inv_weak [OF abort_epoch_inv [OF core2, of S]]
      by (cases u; cases "ae_kind event")
        (auto simp: runtime_receive_control_def q ev u Let_def runtime_weak_def core_update(3))
  qed
qed

lemma weak_talkers:
  assumes w: "runtime_weak p r" and l: "rt_lifecycle r \<in> {RtPrepared, RtStarted}"
  shows "runtime_weak p (snd (runtime_start S r)) \<and> fst (runtime_start S r) \<noteq> Panic"
    "runtime_weak p (snd (runtime_submit S b r)) \<and> fst (runtime_submit S b r) \<noteq> Panic"
    "runtime_weak p (snd (runtime_stop S r)) \<and> fst (runtime_stop S r) \<noteq> Panic"
proof -
  have core: "runtime_core p r" and len: "length (rt_talkers r) = 6" and fan: "esp_fanout_inv (rt_fanout r)"
    using w by (simp_all add: runtime_weak_def runtime_core_def)
  have fanned: "runtime_core p (x\<lparr>rt_fanout := esp_fanout_reset (rt_fanout r), rt_lifecycle := y\<rparr>)"
    if "runtime_core p x" "rt_fanout x = rt_fanout r" for x y
    using core_update(6) [OF that(1)] that(2) by (simp add: core_update(3))
  obtain q ts where q: "each_talker (\<lambda>i t. at_endpoint i (talker_start S t)) 0 (rt_talkers r) = (q, ts)" by fastforce
  have "length ts = 6" using length_each_talker [of "\<lambda>i t. at_endpoint i (talker_start S t)" 0 "rt_talkers r"] q len by simp
  then have core_ts: "runtime_core p (r\<lparr>rt_talkers := ts\<rparr>)" using core by (intro core_update(1))
  have "q \<noteq> Panic"
    using each_talker_no_panic [of "\<lambda>i t. at_endpoint i (talker_start S t)" 0 "rt_talkers r"] q by (simp add: talker_start_result)
  then show "runtime_weak p (snd (runtime_start S r)) \<and> fst (runtime_start S r) \<noteq> Panic"
    using w q inv_weak [OF abort_epoch_inv [OF core_ts, of S]] fanned [OF core_ts, of RtStarted]
    by (cases q) (auto simp: runtime_start_def runtime_weak_def)
  obtain err ts2 where s: "stop_talkers S 0 None (rt_talkers r) = (err, ts2)" by fastforce
  have "runtime_core p (r\<lparr>rt_talkers := ts2\<rparr>)"
    using core len stop_talkers_result [OF s] by (intro core_update(1)) simp_all
  from fanned [OF this, of RtPrepared]
  show "runtime_weak p (snd (runtime_stop S r)) \<and> fst (runtime_stop S r) \<noteq> Panic"
    using w by (auto simp: runtime_stop_def s Let_def runtime_weak_def split: option.split)
  obtain u f where u: "esp_split b (rt_fanout r) = (u, f)" by fastforce
  have np: "u \<noteq> Panic" using esp_split_no_panic [OF fan, of b] u by simp
  have core_f: "runtime_core p (r\<lparr>rt_fanout := f\<rparr>)" using core_update(5) [OF core, of b] u by simp
  let ?g = "\<lambda>i t. case esp_endpoint_block i f of
      Err e \<Rightarrow> (Err (RtFanout e), t) | Panic \<Rightarrow> (Panic, t) | Ok m \<Rightarrow> at_endpoint i (talker_submit S m t)"
  obtain v ts3 where v: "each_talker ?g 0 (rt_talkers r) = (v, ts3)" by fastforce
  have "length ts3 = 6" using length_each_talker [of ?g 0 "rt_talkers r"] v len by simp
  then have core_v: "runtime_core p (r\<lparr>rt_fanout := f, rt_talkers := ts3\<rparr>)" using core_f by (intro core_update(1))
  have "fst (?g i t) \<noteq> Panic" for i t
  proof (cases "esp_endpoint_block i f")
    case (Ok m)
    obtain a t' where a: "talker_submit S m t = (a, t')" by fastforce
    from talker_submit_result [OF a] show ?thesis using Ok a by simp
  qed (simp_all add: esp_endpoint_block_def split: option.splits)
  then have npv: "v \<noteq> Panic" using each_talker_no_panic [of ?g 0 "rt_talkers r"] v by simp
  show "runtime_weak p (snd (runtime_submit S b r)) \<and> fst (runtime_submit S b r) \<noteq> Panic"
    using w l np npv core_v inv_weak [OF abort_epoch_inv [OF core_f, of S]] inv_weak [OF abort_epoch_inv [OF core_v, of S]]
    by (cases u; cases v) (auto simp: runtime_submit_def u v runtime_weak_def)
qed

lemma weak_close:
  assumes w: "runtime_weak p r"
  shows "runtime_weak p (snd (runtime_close_control S C r)) \<and> fst (runtime_close_control S C r) \<noteq> Panic"
proof (cases "rt_lifecycle r = RtLoaded")
  case False
  obtain q c where q: "control_close C (rt_control r) = (q, c)" by fastforce
  have np: "q \<noteq> Panic" using control_close_no_panic [of C "rt_control r"] q by simp
  have core: "runtime_core p r" and ses: "session_inv (rt_session r)" using w by (simp_all add: runtime_weak_def runtime_core_def)
  then have "runtime_core p (abort_data_plane S r\<lparr>rt_session := avdecc_session_reset (rt_session r)\<rparr>)"
    by (intro core_update(4) session_reset_inv) simp_all
  then show ?thesis
    using False np abort_halts [of S r]
    by (cases q) (simp_all add: runtime_close_control_def q Let_def runtime_weak_def core_update all_halted_def)
qed (use w in \<open>simp add: runtime_close_control_def\<close>)

lemma runtime_step_weak:
  assumes w: "runtime_weak p r"
  shows "fst (runtime_step S C op r) \<noteq> Panic \<and> runtime_weak p (snd (runtime_step S C op r))"
proof (cases "rt_lifecycle r \<in> {RtPrepared, RtStarted}")
  case False
  then have inv: "runtime_inv p r" using weak_inv [OF w] by blast
  show ?thesis
    using runtime_step_keeps [OF inv, of S C op] weak_close [OF w] inv_weak by (cases op) (auto simp: forget_def)
next
  case True
  show ?thesis
  proof (cases op)
    case OpOpen
    then show ?thesis using w True by (auto simp: runtime_open_control_def)
  next
    case OpReceive
    then show ?thesis using weak_receive [OF w True, of S C] by (auto simp: forget_def split: outcome.split)
  next
    case (OpPrepare latency)
    then show ?thesis using w True by (auto simp: runtime_prepare_complete_def)
  next
    case OpResetPlane
    then show ?thesis
      using w True abort_halts [of S r]
      by (auto simp: reset_data_plane_def Let_def runtime_weak_def core_update(3) all_halted_def)
  qed (use weak_talkers [OF w True] weak_close [OF w] in simp_all)
qed

lemma runtime_history_inv:
  "runtime_history S C r0 torn r \<Longrightarrow> runtime_inv p r0 \<Longrightarrow> runtime_weak p r \<and> (\<not> torn \<longrightarrow> runtime_inv p r)"
proof (induction rule: runtime_history.induct)
  case (history_step torn r op res r')
  note ih = history_step.IH [OF history_step.prems]
  have weak: "runtime_weak p r'" using runtime_step_weak [of p r S C op] ih history_step.hyps(2) by simp
  moreover have "runtime_inv p r'" if "\<not> close_pending op res torn (rt_lifecycle r')"
  proof (cases "rt_lifecycle r' \<in> {RtPrepared, RtStarted}")
    case True
    then show ?thesis using runtime_step_keeps [of p r S C op] ih that history_step.hyps(2) by simp
  qed (use weak_inv [OF weak] in blast)
  ultimately show ?case by blast
qed (simp add: inv_weak)

lemma stop_leaves_failed:
  assumes "runtime_stop S r = (res, r')" and "rt_lifecycle r = RtStarted" and "i < length (rt_talkers r)"
    and "gt_lifecycle (rt_talkers r' ! i) = TalkerStarted"
  shows "fst (sh_stop S (gt_handle (rt_talkers r ! i))) \<noteq> 0"
proof -
  obtain err ts where q: "stop_talkers S 0 None (rt_talkers r) = (err, ts)" by fastforce
  then have "rt_talkers r' = map (\<lambda>t. snd (talker_stop S t)) (rt_talkers r)"
    using assms(1,2) stop_talkers_result [OF q] by (auto simp: runtime_stop_def Let_def split: option.splits)
  then have "gt_lifecycle (snd (talker_stop S (rt_talkers r ! i))) = TalkerStarted" using assms(3,4) by simp
  then show ?thesis
    by (cases "sh_stop S (gt_handle (rt_talkers r ! i))")
      (auto simp: talker_stop_def talker_native_ok_def split: if_splits)
qed

section \<open>The canonical lanes\<close>

lemma roles_distinct: "distinct AURORA_7_1_4_ROLES" "length AURORA_7_1_4_ROLES = 12"
  by (simp_all add: AURORA_7_1_4_ROLES_def)

lemma role_pair_lanes:
  assumes "esp_role_pair p i = Ok (AURORA_7_1_4_ROLES ! m, AURORA_7_1_4_ROLES ! n)"
    and "m < 12" and "n < 12"
  shows "i < length (fo_endpoints p) \<and> map unat (lane_list (es_channels (fo_endpoints p ! i))) = [m, n]"
  using assms roles_distinct
  by (auto simp: esp_role_pair_def get_at_def lane_list_def nth_eq_iff_index_eq
      split: option.splits if_splits)

lemma fanout_order_nth:
  "fanout_order p i pairs = Ok () \<Longrightarrow> k < length pairs \<Longrightarrow> esp_role_pair p (i + k) = Ok (pairs ! k)"
proof (induction pairs arbitrary: i k)
  case (Cons wanted rest)
  then show ?case
    by (cases k) (auto dest: Cons.IH [of "Suc i"] split: outcome.splits if_splits)
qed simp

lemma canonical_pairs_nth:
  "i < 6 \<Longrightarrow> CANONICAL_PAIRS ! i = (AURORA_7_1_4_ROLES ! (2 * i), AURORA_7_1_4_ROLES ! (2 * i + 1))"
  by (auto simp: CANONICAL_PAIRS_def AURORA_7_1_4_ROLES_def less_Suc_eq numeral_eq_Suc)

lemma canonical_lanes:
  assumes "(validate_fanout_order p :: (unit, 'l runtime_load_error) outcome) = Ok ()" and "i < 6"
  shows "map unat (lane_list (es_channels (fo_endpoints p ! i))) = [2 * i, 2 * i + 1]"
proof -
  have "(fanout_order p 0 CANONICAL_PAIRS :: (unit, 'l runtime_load_error) outcome) = Ok ()"
    using assms(1) by (simp add: validate_fanout_order_def split: outcome.splits)
  from fanout_order_nth [OF this, of i] assms(2)
  have "esp_role_pair p i = Ok (CANONICAL_PAIRS ! i)" by (simp add: CANONICAL_PAIRS_def)
  then show ?thesis
    using role_pair_lanes [of p i "2 * i" "2 * i + 1"] assms(2) by (simp add: canonical_pairs_nth)
qed

section \<open>Properties\<close>

lemma not_ok_fails_closed:
  assumes "op \<in> {OpPrepare latency, OpStart, OpSubmit b}"
    and "runtime_step S C op r = (Err e, r')"
  shows "r' = r \<or> rt_lifecycle r' = RtControlOpen \<and> all_halted r'"
proof -
  have halts: "rt_lifecycle (abort_epoch S x) = RtControlOpen \<and> all_halted (abort_epoch S x)" for x
    using abort_halts [of S x] by (simp add: abort_epoch_def all_halted_def)
  consider "op = OpPrepare latency" | "op = OpStart" | "op = OpSubmit b" using assms(1) by blast
  then show ?thesis
  proof cases
    case 1
    then show ?thesis
      using assms(2) halts
      by (auto simp: runtime_prepare_complete_def split: if_splits outcome.splits prod.splits)
  next
    case 2
    then show ?thesis
      using assms(2) halts by (auto simp: runtime_start_def split: if_splits outcome.splits prod.splits)
  next
    case 3
    then show ?thesis
      using assms(2) halts by (auto simp: runtime_submit_def split: if_splits outcome.splits prod.splits)
  qed
qed

text \<open>
  C6: What a failure can leave streaming.  After any history of calls, whatever the native shims
  return: no call panics; outside \<open>Prepared\<close> and \<open>Started\<close> no talker streams; a failing
  prepare, start or submit changes nothing or leaves every talker halted and the runtime back at
  \<open>ControlOpen\<close>; and after a stop only those talkers stream whose own native stop failed.
  Unless a failed close is pending, moreover, talkers stream only while all six AVDECC streams are
  connected, and in a started runtime all six stream the 48-frame stereo format.
\<close>

theorem genavb_runtime_safe:
  assumes "runtime_load open_handle open_talker path expecting p frames = Ok r0"
    and "runtime_history S C r0 torn r"
  shows "fst (runtime_step S C op r) \<noteq> Panic \<and> length (rt_talkers r) = 6
    \<and> (all_halted r \<or> rt_lifecycle r \<in> {RtPrepared, RtStarted})
    \<and> (\<forall>latency b e r'. op \<in> {OpPrepare latency, OpStart, OpSubmit b} \<longrightarrow>
         runtime_step S C op r = (Err e, r') \<longrightarrow>
         r' = r \<or> rt_lifecycle r' = RtControlOpen \<and> all_halted r')
    \<and> (\<forall>res r' i. rt_lifecycle r = RtStarted \<and> runtime_step S C OpStop r = (res, r') \<and> i < 6
         \<and> gt_lifecycle (rt_talkers r' ! i) = TalkerStarted \<longrightarrow>
         fst (sh_stop S (gt_handle (rt_talkers r ! i))) \<noteq> 0)
    \<and> (\<not> torn \<longrightarrow> (all_halted r \<or> session_is_complete (rt_session r))
         \<and> (rt_lifecycle r = RtStarted \<longrightarrow> (\<forall>t\<in>set (rt_talkers r). gt_lifecycle t = TalkerStarted
              \<and> gt_prepared_format t = Some \<lparr>sample_rate = AURORA_NETWORK_MEDIA_RATE,
                  channels = GENAVB_CHANNELS, block_frames = GENAVB_BLOCK_FRAMES\<rparr>)))"
proof -
  have weak: "runtime_weak p r" and inv: "\<not> torn \<Longrightarrow> runtime_inv p r"
    using runtime_history_inv [OF assms(2)] runtime_load_inv [OF assms(1)] by blast+
  have r: "rt_endpoint_format r = \<lparr>sample_rate = AURORA_NETWORK_MEDIA_RATE,
      channels = GENAVB_CHANNELS, block_frames = GENAVB_BLOCK_FRAMES\<rparr>" "length (rt_talkers r) = 6"
    using weak by (simp_all add: runtime_weak_def runtime_core_def)
  moreover have "all_halted r \<or> rt_lifecycle r \<in> {RtPrepared, RtStarted}"
    using weak by (cases "rt_lifecycle r") (simp_all add: runtime_weak_def)
  moreover have "all_halted r \<or> session_is_complete (rt_session r)" if "\<not> torn"
    using inv [OF that] by (cases "rt_lifecycle r") (simp_all add: runtime_inv_def)
  moreover have "\<forall>t\<in>set (rt_talkers r). gt_lifecycle t = TalkerStarted
      \<and> gt_prepared_format t = Some (rt_endpoint_format r)" if "\<not> torn" "rt_lifecycle r = RtStarted"
    using inv [OF that(1)] that(2) by (simp add: runtime_inv_def)
  ultimately show ?thesis
    using runtime_step_weak [OF weak, of S C op] not_ok_fails_closed [of op _ _ S C r] stop_leaves_failed [of S r]
    by (intro conjI allI impI) simp_all
qed

text \<open>
  C5: one submit reaches six speakers.  When \<open>submit\<close> succeeds, every talker's native stream
  was handed, with the timestamp of the block, exactly 384 bytes: for each of the 48 frames its two
  channels of the 7.1.4 bus, in order, each as a big-endian 32-bit word whose upper 24 bits are
  the sample times two to the 23, clipped to the 24-bit range, to within half a unit.
\<close>

theorem genavb_submit_delivers:
  assumes "runtime_load open_handle open_talker path expecting p frames = Ok r0"
    and "runtime_reach S C r0 r" and "runtime_submit S b r = (Ok (), r')" and "i < 6"
  shows "\<exists>bytes. gt_handle (rt_talkers r' ! i)
        = snd (sh_submit S bytes 384 (frame_index (timestamp b)) (gt_handle (rt_talkers r ! i)))
    \<and> length bytes = 384
    \<and> (\<forall>k<48. \<forall>j<2. \<exists>n. aaf_value (take 4 (drop (4 * (2 * k + j)) bytes)) = 256 * n
        \<and> \<bar>real_of_int n - max (- (2 ^ 23)) (min (2 ^ 23 - 1)
              (2 ^ 23 * f32_real (samples b ! (12 * k + 2 * i + j))))\<bar> \<le> 1 / 2)"
proof -
  have inv: "runtime_inv p r"
    using runtime_load_inv [OF assms(1)] runtime_reach_inv [OF assms(2)] by blast
  then have fan: "esp_fanout_inv (rt_fanout r)" "ef_plan (rt_fanout r) = p"
      "block_frames (ef_input_format (rt_fanout r)) = 48" "length (fo_endpoints p) = 6"
    by (auto simp: runtime_inv_def runtime_core_def esp_fanout_inv_def GENAVB_BLOCK_FRAMES_def)
  have started: "rt_lifecycle r = RtStarted"
    using assms(3) by (auto simp: runtime_submit_def split: if_splits)
  obtain f m where f: "esp_split b (rt_fanout r) = (Ok (), f)" "esp_endpoint_block i f = Ok m"
      "talker_submit S m (rt_talkers r ! i) = (Ok (), rt_talkers r' ! i)"
    using submit_loop_Ok [OF inv started assms(3)] assms(4) by blast
  let ?lanes = "lane_list (es_channels (fo_endpoints p ! i))"
  have m: "timestamp m = timestamp b" "samples m = gather (samples b) 12 ?lanes 48"
    using f(1,2) assms(4) fan unfolding esp_split_Ok [OF fan(1)]
    by (auto simp: esp_endpoint_block_def get_at_def stereo_buffers_def)
  have lanes: "map unat ?lanes = [2 * i, 2 * i + 1]"
    using runtime_load_inv [OF assms(1)] canonical_lanes assms(4) by blast
  have lane: "unat (?lanes ! j) = 2 * i + j" if "j < 2" for j
    using arg_cong [OF lanes, of "\<lambda>xs. xs ! j"] that by (auto simp: less_2_cases_iff)
  have len: "length (samples m) = 96" using m(2) by simp
  define bytes where "bytes = concat (map aaf_word (samples m))"
  have sub: "gt_handle (rt_talkers r' ! i)
      = snd (sh_submit S bytes 384 (frame_index (timestamp b)) (gt_handle (rt_talkers r ! i)))"
    "\<forall>x\<in>set (samples m). f32_is_finite x"
    using talker_submit_result [OF f(3)] by (simp_all add: bytes_def m(1) len)
  have pack: "pack_f32_to_aaf (samples m) (replicate 384 0) = (Ok (), bytes)"
    using sub(2) by (simp add: pack_f32_to_aaf_Ok bytes_def len)
  have words: "\<exists>n. aaf_value (take 4 (drop (4 * (2 * k + j)) bytes)) = 256 * n
        \<and> \<bar>real_of_int n - max (- (2 ^ 23)) (min (2 ^ 23 - 1)
              (2 ^ 23 * f32_real (samples b ! (12 * k + 2 * i + j))))\<bar> \<le> 1 / 2"
    if "k < 48" "j < 2" for k j
  proof -
    have "samples m ! (2 * k + j) = samples b ! (12 * k + 2 * i + j)"
      using gather_nth [of k 48 j ?lanes "samples b" 12] that lane [OF that(2)]
      by (simp add: m(2) algebra_simps)
    moreover have "2 * k + j < length (samples m)" using that len by simp
    ultimately show ?thesis using aaf_quantises [OF pack] by metis
  qed
  have "length bytes = 384" by (simp only: bytes_def length_concat_aaf len)
  then show ?thesis using sub(1) words by blast
qed

text \<open>A shim that records what is submitted, and a controller that announces the six streams.\<close>

definition runtime_run :: "('n, 'c) talker_shim \<Rightarrow> 'c control_shim \<Rightarrow> runtime_op list
    \<Rightarrow> ('n, 'c) genavb_runtime \<Rightarrow> ('n, 'c) genavb_runtime" where
  "runtime_run S C ops r = fold (\<lambda>op r. snd (runtime_step S C op r)) ops r"

lemma runtime_run_reach:
  "runtime_reach S C r0 r \<Longrightarrow> OpClose \<notin> set ops \<Longrightarrow> runtime_reach S C r0 (runtime_run S C ops r)"
proof (induction ops arbitrary: r)
  case (Cons op ops)
  have "runtime_reach S C r0 (snd (runtime_step S C op r))"
    using Cons.prems by (intro reach_step [OF Cons.prems(1), of op "fst (runtime_step S C op r)"]) auto
  then show ?case using Cons by (simp add: runtime_run_def)
qed (simp add: runtime_run_def)

definition demo_talker_shim :: "((u8 list \<times> u64) list, shim_avdecc_event list) talker_shim" where
  "demo_talker_shim = \<lparr>sh_prepare = (\<lambda>_ n. (0, n)), sh_prepare_avdecc = (\<lambda>_ _ _ _ n. (0, n)),
     sh_start = (\<lambda>n. (0, n)), sh_submit = (\<lambda>bytes _ frame n. (0, n @ [(bytes, frame)])),
     sh_stop = (\<lambda>n. (0, n)), sh_reset = (\<lambda>n. (0, n))\<rparr>"

definition demo_control_shim :: "shim_avdecc_event list control_shim" where
  "demo_control_shim = \<lparr>cs_open = (\<lambda>c. (0, c)), cs_rx_fd = (\<lambda>_. 3),
     cs_receive = (\<lambda>blank c. case c of [] \<Rightarrow> (0, blank, []) | e # es \<Rightarrow> (1, e, es)),
     cs_close = (\<lambda>c. (0, c))\<rparr>"

definition demo_shim_event :: "u16 \<Rightarrow> u8 \<Rightarrow> shim_avdecc_event" where
  "demo_shim_event i x = \<lparr>sa_kind = 1, sa_stream_index = i, sa_port = 0, sa_direction = 0,
     sa_stream_class = 1, sa_stream_id = [x, 1, 1, 1, 1, 1, 1, 1], sa_destination_mac = [x, 2, 2, 2, 2, 2],
     sa_reserved = [0, 0], sa_sample_rate_hz = 48000, sa_channels = 2, sa_bit_depth = 24\<rparr>"

definition demo_plan_avb :: esp_avb_fanout_plan where
  "demo_plan_avb = esp_plan_canonical WiredEsp32P4"

lemma demo_order: "(validate_fanout_order demo_plan_avb :: (unit, 'l runtime_load_error) outcome) = Ok ()"
  unfolding validate_fanout_order_def demo_plan_avb_def canonical_valid CANONICAL_PAIRS_def
  by (simp add: esp_role_pair_def canonical_plan AURORA_7_1_4_ROLES_def get_at_def)

lemma demo_fanout:
  "esp_fanout_prepare demo_plan_avb 48 = Ok \<lparr>ef_plan = demo_plan_avb,
     ef_input_format = \<lparr>sample_rate = 48000, channels = 12, block_frames = 48\<rparr>,
     ef_endpoint_format = \<lparr>sample_rate = 48000, channels = 2, block_frames = 48\<rparr>,
     ef_buffers = replicate 6 (replicate 96 0), ef_current_sequence = None,
     ef_current_timestamp = None, ef_next_sequence = None, ef_next_timestamp = None\<rparr>"
  using canonical_valid
  by (simp add: demo_plan_avb_def esp_fanout_prepare_def Let_def samples_per_block_def checked_mul_def
      esp_sizes AURORA_NETWORK_MEDIA_RATE_def del: replicate.simps)

definition demo_talkers :: "(u8 list \<times> u64) list genavb_talker list" where
  "demo_talkers = replicate 6 (talker_load [] ''shim'' None)"

definition demo_runtime :: "((u8 list \<times> u64) list, shim_avdecc_event list) genavb_runtime" where
  "demo_runtime = \<lparr>rt_control = \<lparr>gc_handle = map2 demo_shim_event [0, 1, 2, 3, 4, 5] [1, 2, 3, 4, 5, 6],
       gc_shim_path = ''shim'', gc_lifecycle = ControlLoaded\<rparr>,
     rt_session = \<lparr>as_expected = demo_expected,
       as_connected = [None, None, None, None, None, None], as_connected_count = 0\<rparr>,
     rt_talkers = demo_talkers,
     rt_fanout = \<lparr>ef_plan = demo_plan_avb,
       ef_input_format = \<lparr>sample_rate = 48000, channels = 12, block_frames = 48\<rparr>,
       ef_endpoint_format = \<lparr>sample_rate = 48000, channels = 2, block_frames = 48\<rparr>,
       ef_buffers = replicate 6 (replicate 96 0), ef_current_sequence = None,
       ef_current_timestamp = None, ef_next_sequence = None, ef_next_timestamp = None\<rparr>,
     rt_endpoint_format = \<lparr>sample_rate = AURORA_NETWORK_MEDIA_RATE, channels = GENAVB_CHANNELS,
       block_frames = 48\<rparr>,
     rt_lifecycle = RtLoaded\<rparr>"

lemma load_talkers_const:
  "load_talkers (\<lambda>_ _. Ok h) path is = Ok (replicate (length is) (talker_load h path None))"
  by (induction "is") simp_all

lemma demo_loads:
  "runtime_load (\<lambda>_. Ok (map2 demo_shim_event [0, 1, 2, 3, 4, 5] [1, 2, 3, 4, 5, 6]) :: (_, unit) outcome)
     (\<lambda>_ _. Ok []) ''shim'' demo_expected demo_plan_avb 48 = Ok demo_runtime"
  by (simp add: runtime_load_def demo_order demo_session_new demo_fanout demo_runtime_def
      demo_talkers_def GENAVB_BLOCK_FRAMES_def esp_sizes load_talkers_const
      del: load_talkers.simps replicate.simps)

definition demo_open_ops :: "runtime_op list" where
  "demo_open_ops = [OpOpen, OpReceive, OpReceive, OpReceive, OpReceive, OpReceive, OpReceive]"

lemma demo_opened:
  "\<exists>s. runtime_run demo_talker_shim demo_control_shim demo_open_ops demo_runtime
     = demo_runtime\<lparr>rt_control := \<lparr>gc_handle = [], gc_shim_path = ''shim'', gc_lifecycle = ControlOpened\<rparr>,
         rt_session := s, rt_lifecycle := RtControlOpen\<rparr>
     \<and> session_is_complete s"
  by (simp add: runtime_run_def demo_open_ops_def demo_runtime_def runtime_open_control_def
      control_open_def demo_control_shim_def avdecc_native_ok_def forget_def
      runtime_receive_control_def control_receive_def demo_shim_event_def decode_event_def
      AVDECC_EVENT_CONNECT_def session_apply_def session_connect_def role_for_index_def Let_def
      demo_expected_def all_endpoint_roles_def six_copies eight_copies session_is_complete_def
      IMMERSIVE_STREAM_COUNT_def)


lemma each_talker_same:
  assumes "\<And>i. i < n \<Longrightarrow> f i t = (Ok (), t')"
  shows "each_talker f 0 (replicate n t) = (Ok (), replicate n t')"
proof -
  have "each_talker f i (replicate k t) = (Ok (), replicate k t')" if "i + k \<le> n" for i k
    using that by (induction k arbitrary: i) (simp_all add: assms)
  from this [of 0 n] show ?thesis by simp
qed

definition demo_stream :: network_stream_config where
  "demo_stream = \<lparr>sc_format = \<lparr>sample_rate = 48000, channels = 2, block_frames = 48\<rparr>,
     clock_discipline = PtpFollower, timing = \<lparr>target_latency_frames = 480,
       minimum_latency_frames = 480, maximum_latency_frames = 480, maximum_rate_correction_ppm = 0\<rparr>\<rparr>"

definition demo_started_talker :: "(u8 list \<times> u64) list genavb_talker" where
  "demo_started_talker = snd (talker_start demo_talker_shim (commit_prepared demo_stream 96
     (talker_load [] ''shim'' None)))"

lemma demo_started_talker_fields:
  "gt_lifecycle demo_started_talker = TalkerStarted"
  "gt_prepared_format demo_started_talker = Some \<lparr>sample_rate = 48000, channels = 2, block_frames = 48\<rparr>"
  "gt_expected_sequence demo_started_talker = None" "gt_expected_timestamp demo_started_talker = None"
  "length (gt_packed_aaf demo_started_talker) = 384"
  by (simp_all add: demo_started_talker_def talker_start_def commit_prepared_def demo_talker_shim_def
      talker_native_ok_def demo_stream_def reset_timeline_def push_event_def talker_load_def resize_def)

definition demo_ready :: "avdecc_session \<Rightarrow> ((u8 list \<times> u64) list, shim_avdecc_event list) genavb_runtime" where
  "demo_ready s = demo_runtime\<lparr>
     rt_control := \<lparr>gc_handle = [], gc_shim_path = ''shim'', gc_lifecycle = ControlOpened\<rparr>,
     rt_session := s, rt_talkers := replicate 6 demo_started_talker, rt_lifecycle := RtStarted\<rparr>"

lemma demo_config: "endpoint_config (rt_endpoint_format demo_runtime) 480 = Ok demo_stream"
  by (simp add: endpoint_config_def demo_runtime_def demo_stream_def timing_validate_def
      f64_is_finite_def f64_finite_neg_def AURORA_NETWORK_MEDIA_RATE_def GENAVB_CHANNELS_def)

lemma demo_runs:
  "\<exists>s. runtime_run demo_talker_shim demo_control_shim (demo_open_ops @ [OpPrepare 480, OpStart]) demo_runtime
     = demo_ready s"
proof -
  obtain s where open_run: "runtime_run demo_talker_shim demo_control_shim demo_open_ops demo_runtime
     = demo_runtime\<lparr>rt_control := \<lparr>gc_handle = [], gc_shim_path = ''shim'', gc_lifecycle = ControlOpened\<rparr>,
         rt_session := s, rt_lifecycle := RtControlOpen\<rparr>" (is "_ = ?r1") and comp: "session_is_complete s"
    using demo_opened by blast
  let ?t0 = "talker_load [] ''shim'' None :: (u8 list \<times> u64) list genavb_talker"
  let ?t1 = "commit_prepared demo_stream 96 ?t0"
  have "runtime_reach demo_talker_shim demo_control_shim demo_runtime ?r1"
    unfolding open_run [symmetric] by (rule runtime_run_reach [OF reach_load]) (simp add: demo_open_ops_def)
  from runtime_reach_inv [OF this conjunct1 [OF runtime_load_inv [OF demo_loads]]]
  have ses: "session_inv s" by (simp add: runtime_inv_def runtime_core_def)
  obtain streams where streams: "require_complete s = Ok streams" "length streams = 6"
    using require_complete_eq [OF ses] comp ses by (simp add: session_inv_def)
  have prep: "talker_prepare_from_avdecc demo_talker_shim
      \<lparr>gc_handle = [], gc_shim_path = ''shim'', gc_lifecycle = ControlOpened\<rparr> i demo_stream ?t0 = (Ok (), ?t1)" for i
    by (simp add: talker_prepare_from_avdecc_def talker_load_def validate_prepare_config_def
        demo_stream_def format_validate_def talker_capabilities_def samples_per_block_def checked_mul_def
        timing_validate_def f64_is_finite_def f64_finite_neg_def f64_is_zero_def
        AURORA_NETWORK_MEDIA_RATE_def GENAVB_CHANNELS_def GENAVB_BLOCK_FRAMES_def
        control_native_handle_def demo_talker_shim_def talker_native_ok_def Let_def)
  have talkers: "rt_talkers ?r1 = replicate 6 ?t0" by (simp add: demo_runtime_def demo_talkers_def)
  have "each_talker (\<lambda>i t. case get_at streams i of None \<Rightarrow> (Ok (), t) | Some c \<Rightarrow> at_endpoint i
      (talker_prepare_from_avdecc demo_talker_shim (rt_control ?r1) (cn_stream_index c) demo_stream t))
      0 (replicate 6 ?t0) = (Ok (), replicate 6 ?t1)"
    by (rule each_talker_same) (simp add: get_at_def streams(2) prep)
  then have p: "runtime_step demo_talker_shim demo_control_shim (OpPrepare 480) ?r1
      = (Ok (), ?r1\<lparr>rt_talkers := replicate 6 ?t1, rt_fanout := esp_fanout_reset (rt_fanout ?r1),
          rt_lifecycle := RtPrepared\<rparr>)" (is "_ = (_, ?r2)")
    using streams(1) demo_config talkers by (simp add: runtime_prepare_complete_def)
  have "fst (talker_start demo_talker_shim ?t1) = Ok ()"
    by (simp add: talker_start_result demo_talker_shim_def commit_prepared_def)
  then have "talker_start demo_talker_shim ?t1 = (Ok (), demo_started_talker)"
    by (simp add: demo_started_talker_def prod_eq_iff)
  then have "each_talker (\<lambda>i t. at_endpoint i (talker_start demo_talker_shim t)) 0 (replicate 6 ?t1)
      = (Ok (), replicate 6 demo_started_talker)"
    by (intro each_talker_same) simp
  then have "runtime_step demo_talker_shim demo_control_shim OpStart ?r2
      = (Ok (), ?r2\<lparr>rt_talkers := replicate 6 demo_started_talker,
          rt_fanout := esp_fanout_reset (rt_fanout ?r2), rt_lifecycle := RtStarted\<rparr>)"
    by (simp add: runtime_start_def)
  moreover have "?r2\<lparr>rt_talkers := replicate 6 demo_started_talker,
      rt_fanout := esp_fanout_reset (rt_fanout ?r2), rt_lifecycle := RtStarted\<rparr> = demo_ready s"
    by (simp add: demo_ready_def demo_runtime_def esp_fanout_reset_def)
  ultimately have "runtime_run demo_talker_shim demo_control_shim (demo_open_ops @ [OpPrepare 480, OpStart])
      demo_runtime = demo_ready s"
    using open_run p by (simp add: runtime_run_def)
  then show ?thesis by blast
qed


lemma runtime_reach_history:
  "runtime_reach S C r0 r \<Longrightarrow> runtime_history S C r0 False r"
proof (induction rule: runtime_reach.induct)
  case (reach_step r op res r')
  from history_step [OF reach_step.IH reach_step.hyps(2)] reach_step.hyps(3) show ?case by auto
qed (rule history_load)

theorem genavb_runtime_safe_witness:
  "\<exists>r. runtime_history demo_talker_shim demo_control_shim demo_runtime False r \<and> rt_lifecycle r = RtStarted
     \<and> session_is_complete (rt_session r)"
proof -
  obtain s where s: "runtime_run demo_talker_shim demo_control_shim
      (demo_open_ops @ [OpPrepare 480, OpStart]) demo_runtime = demo_ready s"
    using demo_runs by blast
  have "runtime_reach demo_talker_shim demo_control_shim demo_runtime (demo_ready s)"
    unfolding s [symmetric] by (rule runtime_run_reach [OF reach_load]) (simp add: demo_open_ops_def)
  then have hist: "runtime_history demo_talker_shim demo_control_shim demo_runtime False (demo_ready s)"
    by (rule runtime_reach_history)
  have "\<not> all_halted (demo_ready s)"
    by (simp add: all_halted_def demo_ready_def demo_started_talker_fields)
  moreover have "rt_lifecycle (demo_ready s) = RtStarted" by (simp add: demo_ready_def)
  ultimately show ?thesis
    using genavb_runtime_safe [OF demo_loads hist, of OpStop] hist by blast
qed

lemma talker_submit_succeeds:
  assumes "gt_lifecycle t = TalkerStarted" and "block_validate m = Ok ()"
    and "gt_prepared_format t = Some (format m)" and "gt_expected_sequence t = None"
    and "gt_expected_timestamp t = None" and "length (gt_packed_aaf t) = 4 * length (samples m)"
    and "\<forall>x\<in>set (samples m). f32_is_finite x" and "length (samples m) < 2 ^ 30"
    and "\<And>bytes n. fst (sh_submit S bytes n (frame_index (timestamp m)) (gt_handle t)) = 0"
    and "has_successor m"
  shows "fst (talker_submit S m t) = Ok ()"
proof -
  have pack: "pack_f32_to_aaf (samples m) (gt_packed_aaf t) = (Ok (), concat (map aaf_word (samples m)))"
    using assms(6,7) by (simp add: pack_f32_to_aaf_Ok)
  have len: "length (concat (map aaf_word (samples m))) < 2 ^ 32"
    unfolding length_concat_aaf using assms(8) by simp
  obtain n' where sub: "sh_submit S (concat (map aaf_word (samples m)))
      (of_nat (length (concat (map aaf_word (samples m))))) (frame_index (timestamp m)) (gt_handle t) = (0, n')"
    using assms(9) by (metis prod.collapse)
  show ?thesis
    using assms(1-5,10) len sub
    by (simp add: talker_submit_def pack Let_def talker_native_ok_def has_successor_def checked_add_def
        checked_advance_def not_le del: length_concat)
qed

definition demo_silence :: network_audio_block where
  "demo_silence = \<lparr>sequence = 0, timestamp = MediaTimestamp 0 48000,
     format = \<lparr>sample_rate = 48000, channels = 12, block_frames = 48\<rparr>, samples = replicate 576 0\<rparr>"

lemma each_talker_all_Ok:
  "(\<And>k. k < length ts \<Longrightarrow> fst (f (i + k) (ts ! k)) = Ok ()) \<Longrightarrow> fst (each_talker f i ts) = Ok ()"
proof (induction ts arbitrary: i)
  case (Cons t ts)
  have "fst (f i t) = Ok ()" using Cons.prems [of 0] by simp
  moreover have "fst (each_talker f (Suc i) ts) = Ok ()"
    using Cons.prems [of "Suc _"] by (intro Cons.IH) simp
  ultimately show ?case by (cases "f i t") (auto split: prod.split)
qed simp

lemma demo_runtime_submits:
  assumes "runtime_inv demo_plan_avb (demo_ready s)"
  shows "\<exists>r'. runtime_submit demo_talker_shim demo_silence (demo_ready s) = (Ok (), r')"
proof -
  let ?f = "rt_fanout (demo_ready s)"
  have fan: "esp_fanout_inv ?f" using assms by (simp add: runtime_inv_def runtime_core_def)
  have adm: "esp_admits ?f demo_silence \<and> has_successor demo_silence"
    by (simp add: esp_admits_def demo_ready_def demo_runtime_def demo_silence_def has_successor_def
        block_validate_iff del: replicate.simps)
  obtain f where f: "esp_split demo_silence ?f = (Ok (), f)"
    using esp_split_Ok [OF fan, of demo_silence] adm by blast
  have f_eq: "f = ?f\<lparr>ef_buffers := stereo_buffers demo_silence ?f, ef_current_sequence := Some 0,
      ef_current_timestamp := Some (MediaTimestamp 0 48000), ef_next_sequence := Some 1,
      ef_next_timestamp := Some (MediaTimestamp 48 48000)\<rparr>"
    using f unfolding esp_split_Ok [OF fan] by (simp add: demo_silence_def)
  have plan: "ef_plan ?f = demo_plan_avb" "ef_endpoint_format ?f =
      \<lparr>sample_rate = 48000, channels = 2, block_frames = 48\<rparr>" "block_frames (ef_input_format ?f) = 48"
    by (simp_all add: demo_ready_def demo_runtime_def)
  have ok: "esp_plan_ok demo_plan_avb" "length (fo_endpoints demo_plan_avb) = 6"
    using fan plan(1) by (simp_all add: esp_fanout_inv_def)
  have talk: "fst (case esp_endpoint_block i f of
      Err e \<Rightarrow> (Err (RtFanout e), t) | Panic \<Rightarrow> (Panic, t)
    | Ok m \<Rightarrow> at_endpoint i (talker_submit demo_talker_shim m t)) = Ok ()"
    if i: "i < 6" and t: "t = demo_started_talker" for i t
  proof -
    let ?lanes = "lane_list (es_channels (fo_endpoints demo_plan_avb ! i))"
    let ?m = "\<lparr>sequence = 0, timestamp = MediaTimestamp 0 48000,
      format = \<lparr>sample_rate = 48000, channels = 2, block_frames = 48\<rparr>,
      samples = gather (replicate 576 0) 12 ?lanes 48\<rparr>"
    have m: "esp_endpoint_block i f = Ok ?m"
      using i ok(2) plan
      by (simp add: f_eq esp_endpoint_block_def get_at_def stereo_buffers_def demo_silence_def
          del: replicate.simps)
    have "replicate 576 0 ! (k * 12 + unat c) = (0 :: f32)" if "k < 48" "c \<in> set ?lanes" for k c
    proof -
      have "c < 12" using esp_lanes_less [OF ok(1) _ that(2)] i ok(2) by simp
      then have "unat c < 12" by (simp add: word_less_nat_alt)
      then show ?thesis using that(1) by simp
    qed
    then have zeros: "\<forall>x\<in>set (samples ?m). x = 0"
      by (auto simp: gather_def lane_row_def simp del: replicate.simps)
    have "f32_is_finite 0" by (simp add: f32_is_finite_def)
    then have "\<forall>x\<in>set (samples ?m). f32_is_finite x" using zeros by metis
    then have "fst (talker_submit demo_talker_shim ?m t) = Ok ()"
      unfolding t
      by (intro talker_submit_succeeds)
        (simp_all add: demo_started_talker_fields block_validate_iff demo_talker_shim_def
          has_successor_def)
    then show ?thesis
      unfolding m by (cases "talker_submit demo_talker_shim ?m t") (simp add: at_endpoint_def)
  qed
  have "fst (each_talker (\<lambda>i t. case esp_endpoint_block i f of
      Err e \<Rightarrow> (Err (RtFanout e), t) | Panic \<Rightarrow> (Panic, t)
    | Ok m \<Rightarrow> at_endpoint i (talker_submit demo_talker_shim m t)) 0 (rt_talkers (demo_ready s))) = Ok ()"
  proof (rule each_talker_all_Ok)
    fix k assume "k < length (rt_talkers (demo_ready s))"
    then have "k < 6" "rt_talkers (demo_ready s) ! k = demo_started_talker"
      by (simp_all add: demo_ready_def)
    from talk [OF this] show "fst (case esp_endpoint_block (0 + k) f of
        Err e \<Rightarrow> (Err (RtFanout e), rt_talkers (demo_ready s) ! k) | Panic \<Rightarrow> (Panic, rt_talkers (demo_ready s) ! k)
      | Ok m \<Rightarrow> at_endpoint (0 + k) (talker_submit demo_talker_shim m (rt_talkers (demo_ready s) ! k))) = Ok ()"
      unfolding add_0 .
  qed
  then show ?thesis
    using f by (auto simp: runtime_submit_def demo_ready_def split: prod.split)
qed

theorem genavb_submit_delivers_witness:
  "\<exists>s r' bytes. runtime_submit demo_talker_shim demo_silence (demo_ready s) = (Ok (), r')
     \<and> gt_handle (rt_talkers r' ! 5) = [(bytes, 0)] \<and> length bytes = 384"
proof -
  obtain s where s: "runtime_run demo_talker_shim demo_control_shim
      (demo_open_ops @ [OpPrepare 480, OpStart]) demo_runtime = demo_ready s"
    using demo_runs by blast
  have reach: "runtime_reach demo_talker_shim demo_control_shim demo_runtime (demo_ready s)"
    unfolding s [symmetric] by (rule runtime_run_reach [OF reach_load]) (simp add: demo_open_ops_def)
  have "runtime_inv demo_plan_avb (demo_ready s)"
    using runtime_reach_inv [OF reach conjunct1 [OF runtime_load_inv [OF demo_loads]]] .
  then obtain r' where r': "runtime_submit demo_talker_shim demo_silence (demo_ready s) = (Ok (), r')"
    using demo_runtime_submits by blast
  have "gt_handle demo_started_talker = []"
    by (simp add: demo_started_talker_def talker_start_def commit_prepared_def demo_talker_shim_def
        talker_native_ok_def talker_load_def)
  then have "sh_submit demo_talker_shim bytes 384 (frame_index (timestamp demo_silence))
      (gt_handle (rt_talkers (demo_ready s) ! 5)) = (0, [(bytes, 0)])" for bytes
    by (simp add: demo_ready_def demo_talker_shim_def demo_silence_def)
  then show ?thesis
    using genavb_submit_delivers [OF demo_loads reach r', of 5] r' by auto
qed


section \<open>What a failing shim leaves behind\<close>

text \<open>
  When the control channel fails to close, the session has been emptied but the lifecycle is kept:
  a prepared runtime stays prepared, and \<open>start\<close> starts the talkers although the session gate has
  no stream left.
\<close>

lemma failed_close_keeps_lifecycle:
  assumes "rt_lifecycle r \<noteq> RtLoaded" and "gc_lifecycle (rt_control r) = ControlOpened"
    and "fst (cs_close C (gc_handle (rt_control r))) \<noteq> 0"
  shows "\<exists>e. fst (runtime_close_control S C r) = Err (RtControl e)
    \<and> rt_lifecycle (snd (runtime_close_control S C r)) = rt_lifecycle r
    \<and> \<not> session_is_complete (rt_session (snd (runtime_close_control S C r)))"
  using assms
  by (cases "cs_close C (gc_handle (rt_control r))")
    (simp add: runtime_close_control_def control_close_def avdecc_native_ok_def Let_def
      avdecc_session_reset_def session_is_complete_def IMMERSIVE_STREAM_COUNT_def)

text \<open>A talker whose native stop fails keeps streaming in a runtime that is no longer started.\<close>

lemma failed_stop_keeps_streaming:
  assumes "rt_lifecycle r = RtStarted" and "t \<in> set (rt_talkers r)"
    and "gt_lifecycle t = TalkerStarted" and "fst (sh_stop S (gt_handle t)) \<noteq> 0"
  shows "rt_lifecycle (snd (runtime_stop S r)) = RtPrepared \<and> \<not> all_halted (snd (runtime_stop S r))"
proof -
  obtain err ts where q: "stop_talkers S 0 None (rt_talkers r) = (err, ts)" by fastforce
  have "gt_lifecycle (snd (talker_stop S t)) = TalkerStarted"
    using assms(3,4) by (cases "sh_stop S (gt_handle t)") (simp add: talker_stop_def talker_native_ok_def)
  then have "\<exists>t\<in>set ts. gt_lifecycle t = TalkerStarted"
    using stop_talkers_result [OF q] assms(2) by auto
  then show ?thesis
    using assms(1) by (auto simp: runtime_stop_def q Let_def all_halted_def split: option.split)
qed

end
