(* ===== verification/Fabric_Delivery.thy ===== *)
theory Fabric_Delivery
  imports Fabric_Fanout
begin

text \<open>
  From the admitted plan to the samples in a module's buffer: the planner, the materialization
  of network routes and the fanout of
  \<open>src/crates/aurora-modular-speaker-fabric/src/lib.rs\<close> composed, and where they disagree.
\<close>

section \<open>Admitted plans materialize into well-formed route tables\<close>

definition network_assignments :: "fabric_plan \<Rightarrow> module_assignment list" where
  "network_assignments p = filter (is_network_module_route \<circ> ma_route) (fp_assignments p)"

lemma distinct_concat_filter:
  "distinct (concat (map f xs)) \<Longrightarrow> distinct (concat (map f (filter P xs)))"
  by (induction xs) auto

lemma concat_map_map: "concat (map (\<lambda>x. map g (f x)) xs) = map g (concat (map f xs))"
  by (induction xs) auto

lemma plan_assignment_facts:
  assumes "fabric_plan_of pol ms intent = Ok p"
  shows "map ma_module_id (fp_assignments p) = map mt_module_id (di_targets intent)"
    and "map ma_roles (fp_assignments p) = map mt_roles (di_targets intent)"
    and "[] \<notin> set (map ma_module_id (fp_assignments p))"
    and "\<forall>a\<in>set (fp_assignments p). ma_roles a \<noteq> []"
proof -
  have ids: "ma_module_id (assignment_of pol mode (module_by_id ms) t) = mt_module_id t
      \<and> mt_module_id t \<in> set (map sm_module_id ms)"
    if "admissible_target pol mode (module_by_id ms) t" for mode t
  proof -
    from that obtain m where m: "module_by_id ms (mt_module_id t) = Some m"
      by (auto simp: admissible_target_def is_some_and_iff)
    then have "m \<in> set ms \<and> sm_module_id m = mt_module_id t"
      by (auto simp: module_by_id_def dest!: map_of_SomeD)
    with m show ?thesis by (force simp: assignment_of_def Let_def)
  qed
  from assms ids show "map ma_module_id (fp_assignments p) = map mt_module_id (di_targets intent)"
    by (auto simp: fabric_plan_of_iff)
  from assms show "map ma_roles (fp_assignments p) = map mt_roles (di_targets intent)"
    by (auto simp: fabric_plan_of_iff assignment_of_def Let_def)
  from assms ids show "[] \<notin> set (map ma_module_id (fp_assignments p))"
    by (fastforce simp: fabric_plan_of_iff)
  from assms show "\<forall>a\<in>set (fp_assignments p). ma_roles a \<noteq> []"
    by (auto dest: fabric_plan_assignment)
qed

lemma bus_roles_bound:
  assumes "distinct rs" and "\<forall>r\<in>set rs. \<not> is_custom r"
  shows "length rs \<le> 12"
proof -
  have "set rs \<subseteq> set (canonical_roles SevenOneFour)"
    using assms(2) by (auto simp: not_custom_canonical simp del: canonical_roles.simps)
  then have "card (set rs) \<le> card (set (canonical_roles SevenOneFour))"
    by (intro card_mono) auto
  then show ?thesis
    using assms(1) by (simp add: distinct_card canonical_distinct del: canonical_roles.simps)
qed

lemma of_nat_bus_index_inj: "inj_on (of_nat \<circ> bus_index :: _ \<Rightarrow> usize) {r. \<not> is_custom r}"
  by (rule inj_onI) (metis bus_index_inj comp_apply inj_onD mem_Collect_eq unat_bus_index)

lemma materialized_table:
  assumes plan: "fabric_plan_of pol ms intent = Ok p"
    and ids: "distinct (map mt_module_id (di_targets intent))"
    and mat: "materialize_network_routes p frames tm = Ok rs"
    and "rs \<noteq> []" and "12 * unat frames < 2 ^ 64"
  shows "route_table_ok frames rs"
proof -
  let ?as = "network_assignments p"
  note facts = plan_assignment_facts [OF plan]
  have rs: "rs = map (route_of_assignment frames tm) ?as" and "frames \<noteq> 0"
    and mat': "\<forall>a\<in>set ?as. materializable a \<and> is_network_module_route (ma_route a)"
    using mat by (auto simp: materialize_network_routes_Ok network_assignments_def)
  then have plain: "\<forall>a\<in>set ?as. \<forall>r\<in>set (ma_roles a). \<not> is_custom r"
    by (auto simp: materializable_def)
  have "distinct (concat (map ma_roles (fp_assignments p)))"
    unfolding facts(2) using plan by (simp add: fabric_plan_of_iff)
  then have roles: "distinct (concat (map ma_roles ?as))"
    unfolding network_assignments_def by (rule distinct_concat_filter)
  have "distinct (map ma_module_id ?as)"
    using ids facts(1) by (simp add: network_assignments_def distinct_map_filter)
  then have "distinct (map nr_module_id rs)"
    by (simp add: rs route_of_assignment_def comp_def)
  moreover have "distinct (concat (map source_channel_indices rs))"
  proof -
    have "concat (map source_channel_indices rs)
        = map (of_nat \<circ> bus_index) (concat (map ma_roles ?as))"
      by (simp add: rs comp_def route_of_assignment_def concat_map_map)
    then show ?thesis
      using roles plain of_nat_bus_index_inj
      by (auto simp: distinct_map intro: inj_on_subset)
  qed
  moreover have "route_wf frames (route_of_assignment frames tm a)" if a: "a \<in> set ?as" for a
  proof -
    have "distinct (ma_roles a)" using roles a by (auto simp: distinct_concat_iff)
    then have len: "length (ma_roles a) \<le> 12" using plain a by (intro bus_roles_bound) auto
    then have "length (ma_roles a) * unat frames \<le> 12 * unat frames" by (rule mult_right_mono) simp
    also note assms(5)
    finally have "length (ma_roles a) * unat frames < 2 ^ 64" .
    moreover have "of_nat (bus_index r) < (12 :: usize)" if "\<not> is_custom r" for r
      using bus_index_less [OF that] unat_bus_index [OF that] by (simp add: word_less_nat_alt)
    moreover have "ma_module_id a \<noteq> []" "ma_roles a \<noteq> []"
      using facts(3,4) a by (auto simp: network_assignments_def image_iff)
    ultimately show ?thesis
      using len plain a assms(5)
      by (auto simp: route_wf_def route_shape_ok_def route_of_assignment_def unat_of_nat)
  qed
  ultimately show ?thesis
    using assms(4) \<open>frames \<noteq> 0\<close> by (auto simp: route_table_ok_def rs)
qed

section \<open>Properties\<close>

lemma bus_index_of_channel:
  "c < 12 \<Longrightarrow> bus_index (canonical_roles SevenOneFour ! c) = c"
  by (auto simp: bus_index_def less_Suc_eq eval_nat_numeral)

lemma canonical_nth_not_custom: "c < 12 \<Longrightarrow> \<not> is_custom (canonical_roles SevenOneFour ! c)"
  unfolding not_custom_canonical by (rule nth_mem) simp

text \<open>
  C8: every speaker gets its own channel.  A plan whose network routes are materialized and
  prepared is delivered as planned: whatever the fanout has
  done before, a block that \<open>split\<close> accepts reaches the \<open>i\<close>-th network assignment with the
  assignment's module identity, and frame \<open>k\<close> of its lane \<open>j\<close> is frame \<open>k\<close> of the canonical
  7.1.4 channel of the role the intent gave to that lane.
\<close>

theorem plan_delivers_roles:
  assumes "materialize_network_routes p frames tm = Ok rs"
    and "fanout_prepare rs = Ok f0"
    and "fst (fanout_split b (fold fanout_step ops f0)) = Ok ()"
    and "i < length (network_assignments p)" and "a = network_assignments p ! i"
  shows "nr_module_id (rs ! i) = ma_module_id a
    \<and> (\<exists>m. module_block i (snd (fanout_split b (fold fanout_step ops f0))) = Ok m
         \<and> sequence m = sequence b \<and> timestamp m = timestamp b
         \<and> (\<forall>k<unat frames. \<forall>j<length (ma_roles a). \<forall>c<12.
              canonical_roles SevenOneFour ! c = ma_roles a ! j \<longrightarrow>
              samples m ! (k * length (ma_roles a) + j) = samples b ! (k * 12 + c)))"
proof -
  have rs: "rs = map (route_of_assignment frames tm) (network_assignments p)"
    and plain: "\<forall>r\<in>set (ma_roles a). \<not> is_custom r"
    using assms(1,4,5) nth_mem [OF assms(4)]
    by (auto simp: materialize_network_routes_Ok network_assignments_def materializable_def)
  have i: "i < length rs" using assms(4) rs by simp
  have route: "rs ! i = route_of_assignment frames tm a" using assms(4,5) rs by simp
  let ?f = "fold fanout_step ops f0"
  obtain fr where "route_table_ok fr rs" "f0 = fanout_fresh fr rs"
    using assms(2) by (auto simp: fanout_prepare_Ok)
  moreover have "admits_block ?f b" using fanout_run_accepts_iff [OF assms(2) refl] assms(3) by blast
  ultimately have fb: "block_frames (format b) = fr" and tab: "route_wf fr (rs ! i)"
    using i by (simp_all add: admits_block_def fanout_fresh_def route_table_ok_def)
  then have frames: "block_frames (format b) = frames"
    using route by (simp add: route_wf_def route_shape_ok_def route_of_assignment_def)
  have lane: "unat (source_channel_indices (rs ! i) ! j) = c"
    if "j < length (ma_roles a)" "c < 12" "canonical_roles SevenOneFour ! c = ma_roles a ! j" for j c
  proof -
    have "\<not> is_custom (ma_roles a ! j)" using plain that(1) by simp
    then have "unat (source_channel_indices (rs ! i) ! j) = bus_index (ma_roles a ! j)"
      using that(1) by (simp add: route route_of_assignment_def unat_bus_index)
    then show ?thesis using bus_index_of_channel [OF that(2)] that(3) by simp
  qed
  have len: "length (source_channel_indices (rs ! i)) = length (ma_roles a)"
    by (simp add: route route_of_assignment_def)
  obtain m where "module_block i (snd (fanout_split b ?f)) = Ok m"
    "sequence m = sequence b" "timestamp m = timestamp b"
    "\<forall>k<unat frames. \<forall>j<length (ma_roles a).
       samples m ! (k * length (ma_roles a) + j)
         = samples b ! (k * 12 + unat (source_channel_indices (rs ! i) ! j))"
    using fanout_module_samples [OF assms(2) refl assms(3) i] frames len by auto
  then show ?thesis using lane by (auto simp: route route_of_assignment_def)
qed

definition demo_timing :: network_timing_policy where
  "demo_timing = \<lparr>target_latency_frames = 480, minimum_latency_frames = 96,
     maximum_latency_frames = 960, maximum_rate_correction_ppm = 0\<rparr>"

definition demo_routes :: "network_route_spec list" where
  "demo_routes = map (route_of_assignment 2 demo_timing) (network_assignments demo_plan)"

lemma demo_materialized: "materialize_network_routes demo_plan 2 demo_timing = Ok demo_routes"
  by (simp add: materialize_network_routes_Ok demo_routes_def network_assignments_def
      timing_validate_def demo_timing_def f64_is_finite_def f64_finite_neg_def)
    (simp add: demo_plan_def materializable_def)

lemma demo_assignments: "network_assignments demo_plan = fp_assignments demo_plan"
  by (simp add: network_assignments_def demo_plan_def is_network_module_route_def)

lemma demo_routes_prepare: "fanout_prepare demo_routes = Ok (fanout_fresh 2 demo_routes)"
proof -
  have "route_table_ok 2 demo_routes"
    by (rule materialized_table [OF demo_plan_admitted _ demo_materialized])
      (simp_all add: detached_rear_intent_def demo_routes_def demo_assignments, simp add: demo_plan_def)
  then show ?thesis by (auto simp: fanout_prepare_Ok)
qed

lemma demo_split_Ok: "fst (fanout_split (bus_block 0) (fanout_fresh 2 demo_routes)) = Ok ()"
proof -
  have "admits_block (fanout_fresh 2 demo_routes) (bus_block 0)"
    by (simp add: bus_block_admits fanout_fresh_def AURORA_NETWORK_MEDIA_RATE_def continues_def)
  then show ?thesis
    using fanout_run_accepts_iff [OF demo_routes_prepare, of _ "[]" "bus_block 0"]
    by (simp add: has_successor_def)
qed

theorem plan_delivers_roles_witness:
  "\<exists>m. module_block 1 (snd (fanout_split (bus_block 0) (fanout_fresh 2 demo_routes))) = Ok m
     \<and> samples m ! 1 = samples (bus_block 0) ! 17"
proof -
  let ?a = "network_assignments demo_plan ! 1"
  have a: "ma_roles ?a = [SurroundRight]" "1 < length (network_assignments demo_plan)"
    by (simp_all add: demo_assignments) (simp_all add: demo_plan_def)
  obtain m where m: "module_block 1 (snd (fanout_split (bus_block 0) (fanout_fresh 2 demo_routes))) = Ok m"
    and all: "\<forall>k<unat (2 :: usize). \<forall>j<length (ma_roles ?a). \<forall>c<12.
       canonical_roles SevenOneFour ! c = ma_roles ?a ! j \<longrightarrow>
       samples m ! (k * length (ma_roles ?a) + j) = samples (bus_block 0) ! (k * 12 + c)"
    using plan_delivers_roles [OF demo_materialized demo_routes_prepare, of "bus_block 0" "[]" 1 ?a]
      demo_split_Ok a(2) by auto
  have "samples m ! 1 = samples (bus_block 0) ! 17"
    using all [rule_format, of 1 0 5] a(1) by simp
  with m show ?thesis by blast
qed

text \<open>
  The planner's promise is enough for the data plane.  When a plan is admitted for an intent
  that names no module twice and its network routes materialize at all, then the fanout accepts
  the route table (every identity, channel count, clock and source index check passes), provided
  there is a network route and a block of twelve channels has a representable size.
\<close>

theorem admitted_plan_prepares:
  assumes "fabric_plan_of pol ms intent = Ok p"
    and "distinct (map mt_module_id (di_targets intent))"
    and "materialize_network_routes p frames tm = Ok rs"
    and "rs \<noteq> []" and "12 * unat frames < 2 ^ 64"
  shows "fanout_prepare rs = Ok (fanout_fresh frames rs)"
  using materialized_table [OF assms] by (auto simp: fanout_prepare_Ok)

theorem admitted_plan_prepares_witness:
  "fanout_prepare demo_routes = Ok (fanout_fresh 2 demo_routes)"
  by (rule admitted_plan_prepares [OF demo_plan_admitted _ demo_materialized])
    (simp_all add: detached_rear_intent_def demo_routes_def demo_assignments, simp add: demo_plan_def)

text \<open>
  The planner admits plans that no stream can be made of.  For a detached module it only
  asks that the clock is not \<open>Unlocked\<close>, and it takes any role: a module locked to the dock
  clock it has left, or a target with a custom role, is admitted on a network route and then
  refused by \<open>materialize_network_routes\<close>.
\<close>

theorem planner_admits_unroutable:
  "let custom = \<lparr>di_mode = Cinema, di_targets =
         [\<lparr>mt_module_id = ''left'', mt_roles = [Custom ''wide-left'']\<rparr>]\<rparr>;
       rear = \<lparr>di_mode = Cinema, di_targets =
         [\<lparr>mt_module_id = ''left'', mt_roles = [SurroundLeft]\<rparr>]\<rparr>
   in (\<exists>p. fabric_plan_of default_fabric_policy [demo_module ''left'' DockRecovered] rear = Ok p
          \<and> materialize_network_routes p 2 demo_timing = Err UnsupportedClockSource)
    \<and> (\<exists>p. fabric_plan_of default_fabric_policy [demo_module ''left'' Ptp] custom = Ok p
          \<and> materialize_network_routes p 2 demo_timing = Err UnsupportedRole)"
  by (simp add: demo_plan_simps fabric_plan_of_def bt_get_def select_route_def
      validate_detached_sync_def materialize_network_routes_def timing_validate_def
      demo_timing_def f64_is_finite_def f64_finite_neg_def is_network_module_route_def)

end
