(* ===== verification/Sim_Network.thy ===== *)
theory Sim_Network
  imports Network_Api
begin

text \<open>
  \<open>SimNetworkTransport\<close>, \<open>src/crates/aurora-realtime-audio-sim/src/network.rs\<close>: the
  in-process implementor of the transport trait with its bounded queue of accepted blocks and
  its queue of events.  It satisfies \<open>network_transport_laws\<close>, and its queue is a bounded
  FIFO over every sequence of calls.
\<close>

section \<open>State and operations\<close>

record simulated_network_block =
  sb_sequence :: u64
  sb_timestamp :: media_timestamp
  payload_checksum_of :: u64

record sim_network_transport =
  sn_capabilities :: network_transport_capabilities
  capacity_blocks :: usize
  config :: "network_stream_config option"
  started :: bool
  queue :: "simulated_network_block list"
  events :: "network_transport_event list"

definition sim_network_new :: "usize \<Rightarrow> usize \<Rightarrow> sim_network_transport" where
  "sim_network_new max_ch capacity =
     \<lparr>sn_capabilities = \<lparr>family = Simulation, max_channels = max_ch, nc_scheduled_playout = True,
        hardware_timestamps = False, adaptive_rate_matching = True, packet_repair = True\<rparr>,
      capacity_blocks = capacity, config = None, started = False, queue = [], events = []\<rparr>"

definition queued_blocks :: "sim_network_transport \<Rightarrow> nat" where
  "queued_blocks s = length (queue s)"

definition drain_one ::
  "sim_network_transport \<Rightarrow> simulated_network_block option \<times> sim_network_transport" where
  "drain_one s = (case queue s of [] \<Rightarrow> (None, s) | b # q \<Rightarrow> (Some b, s\<lparr>queue := q\<rparr>))"

definition payload_checksum :: "f32 list \<Rightarrow> u64" where
  "payload_checksum xs =
     foldl (\<lambda>state sample. state * 0x100000001b3 + ucast sample) 0xcbf29ce484222325 xs"

definition sim_prepare ::
  "network_stream_config \<Rightarrow> sim_network_transport
    \<Rightarrow> (unit, network_transport_error) outcome \<times> sim_network_transport" where
  "sim_prepare c s =
     (if capacity_blocks s = 0 then (Err InvalidTimingPolicy, s)
      else case format_validate (sc_format c) (sn_capabilities s) of
        Err e \<Rightarrow> (Err e, s) | Panic \<Rightarrow> (Panic, s)
      | Ok _ \<Rightarrow>
          (case timing_validate (timing c) of
             Err e \<Rightarrow> (Err e, s) | Panic \<Rightarrow> (Panic, s)
           | Ok _ \<Rightarrow>
               (Ok (), s\<lparr>queue := [], events := [EvPrepared], started := False, config := Some c\<rparr>)))"

definition sim_start ::
  "sim_network_transport \<Rightarrow> (unit, network_transport_error) outcome \<times> sim_network_transport" where
  "sim_start s =
     (if config s = None then (Err NotPrepared, s)
      else if started s then (Err AlreadyStarted, s)
      else (Ok (), s\<lparr>started := True, events := events s @ [EvStarted]\<rparr>))"

definition sim_submit ::
  "network_audio_block \<Rightarrow> sim_network_transport
    \<Rightarrow> (unit, network_transport_error) outcome \<times> sim_network_transport" where
  "sim_submit b s =
     (case config s of
        None \<Rightarrow> (Err NotPrepared, s)
      | Some c \<Rightarrow>
          if \<not> started s then (Err NotPrepared, s)
          else if format b \<noteq> sc_format c then (Err InvalidFormat, s)
          else case block_validate b of
            Err e \<Rightarrow> (Err e, s) | Panic \<Rightarrow> (Panic, s)
          | Ok _ \<Rightarrow>
              if length (queue s) = unat (capacity_blocks s)
              then (Err WorkerFault, s\<lparr>events := events s @ [EvOverflow]\<rparr>)
              else (Ok (), s\<lparr>queue := queue s @
                     [\<lparr>sb_sequence = sequence b, sb_timestamp = timestamp b,
                       payload_checksum_of = payload_checksum (samples b)\<rparr>]\<rparr>))"

definition sim_poll_event ::
  "sim_network_transport \<Rightarrow> network_transport_event option \<times> sim_network_transport" where
  "sim_poll_event s =
     (case events s of [] \<Rightarrow> (None, s) | e # es \<Rightarrow> (Some e, s\<lparr>events := es\<rparr>))"

definition sim_stop ::
  "sim_network_transport \<Rightarrow> (unit, network_transport_error) outcome \<times> sim_network_transport" where
  "sim_stop s =
     (if config s = None then (Err NotPrepared, s)
      else (Ok (), s\<lparr>started := False, events := events s @ [EvStopped]\<rparr>))"

definition sim_reset :: "sim_network_transport \<Rightarrow> sim_network_transport" where
  "sim_reset s = s\<lparr>queue := [], events := [], started := False\<rparr>"

definition sim_vtable :: "sim_network_transport network_transport" where
  "sim_vtable =
     \<lparr>nt_capabilities = sn_capabilities, nt_prepare = sim_prepare, nt_start = sim_start,
      nt_submit = sim_submit, nt_poll_event = sim_poll_event, nt_stop = sim_stop,
      nt_reset = sim_reset\<rparr>"

lemmas sim_methods =
  sim_prepare_def sim_start_def sim_submit_def sim_poll_event_def sim_stop_def sim_reset_def
  drain_one_def

lemma sim_vtable_simps [simp]:
  "nt_capabilities sim_vtable = sn_capabilities"
  "nt_prepare sim_vtable = sim_prepare"
  "nt_start sim_vtable = sim_start"
  "nt_submit sim_vtable = sim_submit"
  "nt_poll_event sim_vtable = sim_poll_event"
  "nt_stop sim_vtable = sim_stop"
  "nt_reset sim_vtable = sim_reset"
  by (simp_all add: sim_vtable_def)

section \<open>The trait's laws hold\<close>

text \<open>The lifecycle: \<open>config\<close> and \<open>started\<close>, where a start needs a configuration.\<close>

definition sim_phase :: "sim_network_transport \<Rightarrow> transport_phase" where
  "sim_phase s =
     (case config s of None \<Rightarrow> Unprepared | Some c \<Rightarrow> if started s then Running c else Ready c)"

lemma sim_submit_Ok:
  "fst (sim_submit b s) = Ok () \<longleftrightarrow>
     (\<exists>c. sim_phase s = Running c \<and> format b = sc_format c \<and> block_validate b = Ok ()
        \<and> length (queue s) \<noteq> unat (capacity_blocks s))"
  by (auto simp: sim_submit_def sim_phase_def split: outcome_split)

interpretation sim: network_transport_laws sim_vtable sim_phase
proof unfold_locales
  show "sim_phase (snd (nt_prepare sim_vtable c t)) =
      (if is_ok (fst (nt_prepare sim_vtable c t)) then Ready c else sim_phase t)" for c t
    by (auto simp: sim_prepare_def sim_phase_def split: outcome_split)
  show "\<exists>c. sim_phase t = Running c \<and> format b = sc_format c \<and> block_validate b = Ok ()"
    if "is_ok (fst (nt_submit sim_vtable b t))" for b t
    using that by (auto simp: is_ok_iff sim_submit_Ok)
qed (auto simp: sim_methods sim_phase_def split: outcome_split)

section \<open>A bounded FIFO\<close>

datatype sim_op =
    SimPrepare network_stream_config
  | SimStart
  | SimSubmit network_audio_block
  | SimPoll
  | SimStop
  | SimReset
  | SimDrain

fun sim_step :: "sim_op \<Rightarrow> sim_network_transport \<Rightarrow> sim_network_transport" where
  "sim_step (SimPrepare c) s = snd (sim_prepare c s)"
| "sim_step SimStart s = snd (sim_start s)"
| "sim_step (SimSubmit b) s = snd (sim_submit b s)"
| "sim_step SimPoll s = snd (sim_poll_event s)"
| "sim_step SimStop s = snd (sim_stop s)"
| "sim_step SimReset s = sim_reset s"
| "sim_step SimDrain s = snd (drain_one s)"

text \<open>
  Two logs beside a run: what \<open>submit\<close> accepted and what \<open>drain_one\<close> returned since the
  last call that clears the queue.
\<close>

record sim_logged =
  sl_state :: sim_network_transport
  sl_accepted :: "simulated_network_block list"
  sl_drained :: "simulated_network_block list"

definition sim_meta :: "network_audio_block \<Rightarrow> simulated_network_block" where
  "sim_meta b = \<lparr>sb_sequence = sequence b, sb_timestamp = timestamp b,
     payload_checksum_of = payload_checksum (samples b)\<rparr>"

fun sim_log :: "sim_op \<Rightarrow> sim_logged \<Rightarrow> sim_logged" where
  "sim_log op l =
     (let s = sl_state l; l' = l\<lparr>sl_state := sim_step op s\<rparr> in
      case op of
        SimPrepare c \<Rightarrow>
          if is_ok (fst (sim_prepare c s)) then l'\<lparr>sl_accepted := [], sl_drained := []\<rparr> else l'
      | SimReset \<Rightarrow> l'\<lparr>sl_accepted := [], sl_drained := []\<rparr>
      | SimSubmit b \<Rightarrow>
          if is_ok (fst (sim_submit b s)) then l'\<lparr>sl_accepted := sl_accepted l @ [sim_meta b]\<rparr>
          else l'
      | SimDrain \<Rightarrow>
          (case fst (drain_one s) of None \<Rightarrow> l' | Some b \<Rightarrow> l'\<lparr>sl_drained := sl_drained l @ [b]\<rparr>)
      | _ \<Rightarrow> l')"

definition sim_fifo :: "sim_logged \<Rightarrow> bool" where
  "sim_fifo l \<longleftrightarrow>
     sl_accepted l = sl_drained l @ queue (sl_state l)
     \<and> queued_blocks (sl_state l) \<le> unat (capacity_blocks (sl_state l))"

lemma sim_step_capacity [simp]: "capacity_blocks (sim_step op s) = capacity_blocks s"
  by (cases op) (auto simp: sim_methods split: outcome_split list.splits)

lemma sim_log_state [simp]: "sl_state (sim_log op l) = sim_step op (sl_state l)"
  by (cases op) (auto simp: Let_def split: option.splits)

lemma sim_log_fifo: "sim_fifo l \<Longrightarrow> sim_fifo (sim_log op l)"
  by (cases op)
    (auto simp: sim_fifo_def queued_blocks_def sim_methods sim_meta_def Let_def
      split: outcome_split list.splits)

lemma sim_logs_fifo: "sim_fifo l \<Longrightarrow> sim_fifo (fold sim_log ops l)"
  by (induction ops arbitrary: l) (simp_all add: sim_log_fifo del: sim_log.simps)

definition mono_format :: network_audio_format where
  "mono_format = \<lparr>sample_rate = 48000, channels = 1, block_frames = 2\<rparr>"

definition loose_timing :: network_timing_policy where
  "loose_timing = \<lparr>target_latency_frames = 480, minimum_latency_frames = 96,
     maximum_latency_frames = 960, maximum_rate_correction_ppm = 0\<rparr>"

definition mono_block :: "u64 \<Rightarrow> network_audio_block" where
  "mono_block i = \<lparr>sequence = i, timestamp = MediaTimestamp (2 * i) 48000,
     format = mono_format, samples = [0, 1]\<rparr>"

text \<open>the simulated transport is a bounded FIFO of accepted blocks.  For every sequence of
  calls on a fresh transport (\<open>prepare\<close>, \<open>start\<close>, \<open>submit\<close>, \<open>poll_event\<close>,
  \<open>stop\<close>, \<open>reset\<close>, \<open>drain_one\<close>, in any order and with any arguments), the blocks
  accepted since the queue was last cleared are exactly the blocks drained since then followed
  by the queue: none is lost, repeated or reordered, and the queue never exceeds its capacity.\<close>

theorem sim_network_bounded_fifo:
  "let l = fold sim_log ops
        \<lparr>sl_state = sim_network_new max_ch capacity, sl_accepted = [], sl_drained = []\<rparr>
   in sl_accepted l = sl_drained l @ queue (sl_state l)
     \<and> queued_blocks (sl_state l) \<le> unat capacity"
proof -
  have "capacity_blocks (sl_state (fold sim_log ops l)) = capacity_blocks (sl_state l)" for l
    by (induction ops arbitrary: l) (simp_all del: sim_log.simps)
  moreover have "sim_fifo (fold sim_log ops
      \<lparr>sl_state = sim_network_new max_ch capacity, sl_accepted = [], sl_drained = []\<rparr>)"
    by (rule sim_logs_fifo) (simp add: sim_fifo_def sim_network_new_def queued_blocks_def)
  ultimately show ?thesis
    by (simp add: sim_fifo_def Let_def) (simp add: sim_network_new_def)
qed

end
