(* ===== verification/Fabric_Transports.thy ===== *)
theory Fabric_Transports
  imports Fabric_Fanout Sim_Network
begin

text \<open>
  \<open>ModuleNetworkTransportSet\<close> of
  \<open>src/crates/aurora-modular-speaker-fabric/src/lib.rs\<close>: one transport per route behind the
  shared fanout, with rollback of partial preparation and start and abort of a failed submission.
  The trait objects are the parameter \<open>V\<close>, a record of functions over the transports' states.
  What the set tells its transports is proved for every implementor; what that means for
  transports that halt when told is proved under \<open>network_transport_laws\<close>, which the simulated
  transport satisfies.
\<close>

section \<open>State and operations\<close>

datatype set_lifecycle = SetNew | SetPrepared | SetStarted

record 't transport_set =
  ts_fanout :: module_fanout
  ts_transports :: "'t list"
  ts_lifecycle :: set_lifecycle

datatype transport_set_error =
    TransportCount
  | Fanout network_fanout_error
  | Capability nat
  | EndpointFailed nat network_transport_error
  | InvalidLifecycle

type_synonym 't set_call = "(unit, transport_set_error) outcome \<times> 't transport_set"

fun check_capabilities ::
  "'t network_transport \<Rightarrow> module_fanout \<Rightarrow> nat \<Rightarrow> 't list \<Rightarrow> (unit, transport_set_error) outcome" where
  "check_capabilities V f route_index [] = Ok ()"
| "check_capabilities V f route_index (t # ts) =
     (case fanout_route route_index f of
        Err e \<Rightarrow> Err (Fanout e) | Panic \<Rightarrow> Panic
      | Ok r \<Rightarrow>
          let caps = nt_capabilities V t in
          if max_channels caps < channels (sc_format (stream r))
             \<or> \<not> nc_scheduled_playout caps
             \<or> (clock_discipline (stream r) = AdaptiveRateFollower \<and> \<not> adaptive_rate_matching caps)
          then Err (Capability route_index)
          else check_capabilities V f (Suc route_index) ts)"

definition transport_set_new ::
  "'t network_transport \<Rightarrow> network_route_spec list \<Rightarrow> 't list
    \<Rightarrow> ('t transport_set, transport_set_error) outcome" where
  "transport_set_new V rs ts =
     (if length rs \<noteq> length ts then Err TransportCount
      else case fanout_prepare rs of
        Err e \<Rightarrow> Err (Fanout e) | Panic \<Rightarrow> Panic
      | Ok f \<Rightarrow>
          (case check_capabilities V f 0 ts of
             Err e \<Rightarrow> Err e | Panic \<Rightarrow> Panic
           | Ok _ \<Rightarrow> Ok \<lparr>ts_fanout = f, ts_transports = ts, ts_lifecycle = SetNew\<rparr>))"

text \<open>
  The rollbacks: \<open>reset\<close>, or \<open>stop\<close> (its result ignored) and \<open>reset\<close>, of the transports
  before \<open>n\<close>.
\<close>

definition stop_and_reset :: "'t network_transport \<Rightarrow> 't \<Rightarrow> 't" where
  "stop_and_reset V t = nt_reset V (snd (nt_stop V t))"

definition map_prefix :: "('t \<Rightarrow> 't) \<Rightarrow> nat \<Rightarrow> 't list \<Rightarrow> 't list" where
  "map_prefix g n ts = map g (take n ts) @ drop n ts"

fun prepare_loop :: "'t network_transport \<Rightarrow> nat list \<Rightarrow> 't transport_set \<Rightarrow> 't set_call" where
  "prepare_loop V [] s =
     (Ok (), s\<lparr>ts_fanout := fanout_reset (ts_fanout s), ts_lifecycle := SetPrepared\<rparr>)"
| "prepare_loop V (i # is) s =
     (case fanout_route i (ts_fanout s) of
        Err e \<Rightarrow> (Err (Fanout e), s) | Panic \<Rightarrow> (Panic, s)
      | Ok r \<Rightarrow>
          (case get_at (ts_transports s) i of
             None \<Rightarrow> (Panic, s)
           | Some t \<Rightarrow>
               (case nt_prepare V (stream r) t of
                  (Ok _, t') \<Rightarrow>
                    prepare_loop V is (s\<lparr>ts_transports := (ts_transports s)[i := t']\<rparr>)
                | (Panic, t') \<Rightarrow> (Panic, s\<lparr>ts_transports := (ts_transports s)[i := t']\<rparr>)
                | (Err e, t') \<Rightarrow>
                    (Err (EndpointFailed i e),
                     s\<lparr>ts_transports :=
                         map_prefix (nt_reset V) i ((ts_transports s)[i := t']),
                       ts_fanout := fanout_reset (ts_fanout s),
                       ts_lifecycle := SetNew\<rparr>))))"

definition transport_set_prepare ::
  "'t network_transport \<Rightarrow> 't transport_set \<Rightarrow> 't set_call" where
  "transport_set_prepare V s =
     (if ts_lifecycle s = SetStarted then (Err InvalidLifecycle, s)
      else prepare_loop V [0..<length (ts_transports s)] s)"

fun start_loop :: "'t network_transport \<Rightarrow> nat list \<Rightarrow> 't transport_set \<Rightarrow> 't set_call" where
  "start_loop V [] s =
     (Ok (), s\<lparr>ts_fanout := fanout_reset (ts_fanout s), ts_lifecycle := SetStarted\<rparr>)"
| "start_loop V (i # is) s =
     (case get_at (ts_transports s) i of
        None \<Rightarrow> (Panic, s)
      | Some t \<Rightarrow>
          (case nt_start V t of
             (Ok _, t') \<Rightarrow> start_loop V is (s\<lparr>ts_transports := (ts_transports s)[i := t']\<rparr>)
           | (Panic, t') \<Rightarrow> (Panic, s\<lparr>ts_transports := (ts_transports s)[i := t']\<rparr>)
           | (Err e, t') \<Rightarrow>
               (Err (EndpointFailed i e),
                s\<lparr>ts_transports := map_prefix (stop_and_reset V) i ((ts_transports s)[i := t']),
                  ts_fanout := fanout_reset (ts_fanout s)\<rparr>)))"

definition transport_set_start ::
  "'t network_transport \<Rightarrow> 't transport_set \<Rightarrow> 't set_call" where
  "transport_set_start V s =
     (if ts_lifecycle s \<noteq> SetPrepared then (Err InvalidLifecycle, s)
      else start_loop V [0..<length (ts_transports s)] s)"

definition abort_stream :: "'t network_transport \<Rightarrow> 't transport_set \<Rightarrow> 't transport_set" where
  "abort_stream V s =
     s\<lparr>ts_transports := map (stop_and_reset V) (ts_transports s),
       ts_fanout := fanout_reset (ts_fanout s), ts_lifecycle := SetNew\<rparr>"

fun submit_loop :: "'t network_transport \<Rightarrow> nat list \<Rightarrow> 't transport_set \<Rightarrow> 't set_call" where
  "submit_loop V [] s = (Ok (), s)"
| "submit_loop V (i # is) s =
     (case module_block i (ts_fanout s) of
        Err e \<Rightarrow> (Err (Fanout e), s) | Panic \<Rightarrow> (Panic, s)
      | Ok m \<Rightarrow>
          (case get_at (ts_transports s) i of
             None \<Rightarrow> (Panic, s)
           | Some t \<Rightarrow>
               (case nt_submit V m t of
                  (Ok _, t') \<Rightarrow>
                    submit_loop V is (s\<lparr>ts_transports := (ts_transports s)[i := t']\<rparr>)
                | (Panic, t') \<Rightarrow> (Panic, s\<lparr>ts_transports := (ts_transports s)[i := t']\<rparr>)
                | (Err e, t') \<Rightarrow>
                    (Err (EndpointFailed i e),
                     abort_stream V (s\<lparr>ts_transports := (ts_transports s)[i := t']\<rparr>)))))"

definition transport_set_submit ::
  "'t network_transport \<Rightarrow> network_audio_block \<Rightarrow> 't transport_set \<Rightarrow> 't set_call" where
  "transport_set_submit V b s =
     (if ts_lifecycle s \<noteq> SetStarted then (Err InvalidLifecycle, s)
      else case fanout_split b (ts_fanout s) of
        (Err e, f) \<Rightarrow> (Err (Fanout e), s\<lparr>ts_fanout := f\<rparr>)
      | (Panic, f) \<Rightarrow> (Panic, s\<lparr>ts_fanout := f\<rparr>)
      | (Ok _, f) \<Rightarrow> submit_loop V [0..<length (ts_transports s)] (s\<lparr>ts_fanout := f\<rparr>))"

text \<open>The loop of \<open>stop\<close>: every transport is stopped and reset, the first error is kept.\<close>

fun stop_loop ::
  "'t network_transport \<Rightarrow> nat \<Rightarrow> transport_set_error option \<Rightarrow> 't list
    \<Rightarrow> transport_set_error option \<times> 't list" where
  "stop_loop V i first_error [] = (first_error, [])"
| "stop_loop V i first_error (t # ts) =
     (let (r, t') = nt_stop V t;
          first_error' = (case (first_error, r) of
              (None, Err e) \<Rightarrow> Some (EndpointFailed i e)
            | _ \<Rightarrow> first_error);
          (last, ts') = stop_loop V (Suc i) first_error' ts
      in (last, nt_reset V t' # ts'))"

definition transport_set_stop ::
  "'t network_transport \<Rightarrow> 't transport_set \<Rightarrow> 't set_call" where
  "transport_set_stop V s =
     (if ts_lifecycle s \<noteq> SetStarted then (Err InvalidLifecycle, s)
      else let (first_error, ts) = stop_loop V 0 None (ts_transports s);
               s' = s\<lparr>ts_transports := ts, ts_fanout := fanout_reset (ts_fanout s),
                      ts_lifecycle := SetPrepared\<rparr>
           in (case first_error of Some e \<Rightarrow> (Err e, s') | None \<Rightarrow> (Ok (), s')))"

definition transport_set_reset ::
  "'t network_transport \<Rightarrow> 't transport_set \<Rightarrow> 't transport_set" where
  "transport_set_reset V s =
     s\<lparr>ts_transports := map (nt_reset V) (ts_transports s),
       ts_fanout := fanout_reset (ts_fanout s)\<rparr>"

datatype set_op = SetPrepare | SetStart | SetSubmit network_audio_block | SetStop | SetReset

fun set_step :: "'t network_transport \<Rightarrow> set_op \<Rightarrow> 't transport_set \<Rightarrow> 't set_call" where
  "set_step V SetPrepare s = transport_set_prepare V s"
| "set_step V SetStart s = transport_set_start V s"
| "set_step V (SetSubmit b) s = transport_set_submit V b s"
| "set_step V SetStop s = transport_set_stop V s"
| "set_step V SetReset s = (Ok (), transport_set_reset V s)"

definition set_run :: "'t network_transport \<Rightarrow> set_op list \<Rightarrow> 't transport_set \<Rightarrow> 't transport_set" where
  "set_run V ops s = fold (\<lambda>op s. snd (set_step V op s)) ops s"

section \<open>Invariant\<close>

text \<open>
  Outside \<open>SetStarted\<close> no transport runs; once prepared every transport holds the stream
  configuration of its own route, whether it runs or not.
\<close>

fun holds_config :: "network_stream_config \<Rightarrow> transport_phase \<Rightarrow> bool" where
  "holds_config c Unprepared = False"
| "holds_config c (Ready c') = (c' = c)"
| "holds_config c (Running c') = (c' = c)"

definition set_inv :: "('t \<Rightarrow> transport_phase) \<Rightarrow> 't transport_set \<Rightarrow> bool" where
  "set_inv ph s \<longleftrightarrow>
     fanout_inv (ts_fanout s) \<and> length (ts_transports s) = length (routes (ts_fanout s))
     \<and> (ts_lifecycle s \<noteq> SetStarted \<longrightarrow> (\<forall>t\<in>set (ts_transports s). \<not> phase_running (ph t)))
     \<and> (ts_lifecycle s \<noteq> SetNew \<longrightarrow>
          (\<forall>i<length (ts_transports s).
             holds_config (stream (routes (ts_fanout s) ! i)) (ph (ts_transports s ! i))))"

lemma holds_config_halted [simp]: "holds_config c (phase_halted p) = holds_config c p"
  by (cases p) auto

lemma length_map_prefix [simp]: "length (map_prefix g n ts) = length ts"
  by (simp add: map_prefix_def)

lemma nth_map_prefix:
  "i < length ts \<Longrightarrow> map_prefix g n ts ! i = (if i < n then g (ts ! i) else ts ! i)"
  by (simp add: map_prefix_def nth_append)

lemma fanout_route_Ok [simp]: "i < length (routes f) \<Longrightarrow> fanout_route i f = Ok (routes f ! i)"
  by (simp add: fanout_route_def get_at_def)

lemma fanout_reset_routes [simp]: "routes (fanout_reset f) = routes f"
  by (simp add: fanout_reset_def)

lemma stop_loop_transports: "snd (stop_loop V i e ts) = map (stop_and_reset V) ts"
  by (induction ts arbitrary: i e) (simp_all add: Let_def stop_and_reset_def case_prod_unfold)

lemma stop_loop_no_panic:
  "transport_set_stop V s = (r, s') \<Longrightarrow> r \<noteq> Panic"
  by (auto simp: transport_set_stop_def Let_def split: if_splits prod.splits option.splits)

lemma module_block_after_split:
  assumes "fanout_inv f" and "fanout_split b f = (Ok (), f')" and "i < length (routes f)"
  shows "module_block i f' = Ok \<lparr>sequence = sequence b, timestamp = timestamp b,
    format = sc_format (stream (routes f ! i)),
    samples = gather (samples b) 12 (source_channel_indices (routes f ! i))
                (unat (block_frames (input_format f)))\<rparr>"
  using assms(2) [unfolded fanout_split_Ok [OF assms(1)]] assms(3)
  by (auto simp: module_block_def split_buffers_def get_at_def)

lemma set_inv_frame [simp]:
  "set_inv ph (s\<lparr>ts_fanout := fanout_reset (ts_fanout s)\<rparr>) = set_inv ph s"
  by (simp add: set_inv_def)

text \<open>What holds between the iterations of the loops.\<close>

definition loop_ok :: "('t \<Rightarrow> transport_phase) \<Rightarrow> nat list \<Rightarrow> 't transport_set \<Rightarrow> bool" where
  "loop_ok ph is s \<longleftrightarrow>
     fanout_inv (ts_fanout s) \<and> length (ts_transports s) = length (routes (ts_fanout s))
     \<and> (\<exists>k. is = [k..<length (ts_transports s)])"

lemma loop_ok_Cons:
  "loop_ok ph (i # is) s \<Longrightarrow> i < length (ts_transports s) \<and> i < length (routes (ts_fanout s))
     \<and> is = [Suc i..<length (ts_transports s)]"
  by (auto simp: loop_ok_def upt_eq_Cons_conv eq_commute [of "_ # _"])

lemma holds_config_ready: "holds_config c p \<Longrightarrow> \<not> phase_running p \<Longrightarrow> p = Ready c"
  by (cases p) auto

definition preparing :: "('t \<Rightarrow> transport_phase) \<Rightarrow> nat list \<Rightarrow> 't transport_set \<Rightarrow> bool" where
  "preparing ph is s \<longleftrightarrow> loop_ok ph is s
     \<and> (\<forall>j<length (ts_transports s). \<not> phase_running (ph (ts_transports s ! j))
          \<and> (j \<notin> set is \<longrightarrow>
               holds_config (stream (routes (ts_fanout s) ! j)) (ph (ts_transports s ! j))))"

definition starting :: "('t \<Rightarrow> transport_phase) \<Rightarrow> nat list \<Rightarrow> 't transport_set \<Rightarrow> bool" where
  "starting ph is s \<longleftrightarrow> loop_ok ph is s \<and> ts_lifecycle s = SetPrepared
     \<and> (\<forall>j<length (ts_transports s).
          holds_config (stream (routes (ts_fanout s) ! j)) (ph (ts_transports s ! j))
          \<and> (phase_running (ph (ts_transports s ! j)) \<longleftrightarrow> j \<notin> set is))"

lemma loop_ok_upt [simp]:
  "loop_ok ph [0..<length (ts_transports s)] s \<longleftrightarrow>
     fanout_inv (ts_fanout s) \<and> length (ts_transports s) = length (routes (ts_fanout s))"
  by (auto simp: loop_ok_def)

context network_transport_laws
begin

lemma stop_and_reset_phase: "ph (stop_and_reset V t) = phase_halted (phase_halted (ph t))"
  by (simp add: stop_and_reset_def reset_phase stop_phase)

lemma prepare_loop_inv:
  "preparing ph is s \<Longrightarrow> fst (prepare_loop V is s) \<noteq> Panic \<and> set_inv ph (snd (prepare_loop V is s))
     \<and> (fst (prepare_loop V is s) = Ok () \<longrightarrow> ts_lifecycle (snd (prepare_loop V is s)) = SetPrepared)
     \<and> (fst (prepare_loop V is s) \<noteq> Ok () \<longrightarrow> ts_lifecycle (snd (prepare_loop V is s)) = SetNew)"
proof (induction "is" arbitrary: s)
  case Nil
  then show ?case by (auto simp: preparing_def loop_ok_def set_inv_def in_set_conv_nth)
next
  case (Cons i "is")
  let ?t = "ts_transports s ! i"
  let ?c = "stream (routes (ts_fanout s) ! i)"
  have i: "i < length (ts_transports s)" "i < length (routes (ts_fanout s))"
    and rest: "is = [Suc i..<length (ts_transports s)]"
    using Cons.prems loop_ok_Cons by (auto simp: preparing_def)
  obtain r t' where step: "nt_prepare V ?c ?t = (r, t')" by fastforce
  have t': "ph t' = (if is_ok r then Ready ?c else ph ?t)" "r \<noteq> Panic"
    using prepare_phase [of ?c ?t] no_panic(1) [of ?c ?t] step by auto
  show ?case
  proof (cases r)
    case (Ok u)
    have "preparing ph is (s\<lparr>ts_transports := (ts_transports s)[i := t']\<rparr>)"
      using Cons.prems t' Ok rest i by (auto simp: preparing_def loop_ok_def nth_list_update)
    from Cons.IH [OF this] show ?thesis using i step Ok by (simp add: get_at_def)
  next
    case (Err e)
    have "\<forall>j<length (ts_transports s). \<not> phase_running (ph (map_prefix (nt_reset V) i
        ((ts_transports s)[i := t']) ! j))"
      using Cons.prems t' Err
      by (auto simp: preparing_def nth_map_prefix reset_phase nth_list_update)
    then show ?thesis
      using i step Err Cons.prems
      by (auto simp: set_inv_def preparing_def loop_ok_def in_set_conv_nth get_at_def)
  next
    case Panic
    then show ?thesis using t' by simp
  qed
qed

lemma start_loop_inv:
  "starting ph is s \<Longrightarrow> fst (start_loop V is s) \<noteq> Panic \<and> set_inv ph (snd (start_loop V is s))
     \<and> (fst (start_loop V is s) = Ok () \<longrightarrow> ts_lifecycle (snd (start_loop V is s)) = SetStarted
          \<and> (\<forall>t\<in>set (ts_transports (snd (start_loop V is s))). phase_running (ph t)))
     \<and> (fst (start_loop V is s) \<noteq> Ok () \<longrightarrow> ts_lifecycle (snd (start_loop V is s)) = SetPrepared)"
proof (induction "is" arbitrary: s)
  case Nil
  then show ?case by (auto simp: starting_def loop_ok_def set_inv_def in_set_conv_nth)
next
  case (Cons i "is")
  let ?t = "ts_transports s ! i"
  let ?c = "stream (routes (ts_fanout s) ! i)"
  have i: "i < length (ts_transports s)" "i < length (routes (ts_fanout s))"
    and rest: "is = [Suc i..<length (ts_transports s)]"
    using Cons.prems loop_ok_Cons by (auto simp: starting_def)
  have ready: "ph ?t = Ready ?c"
    using Cons.prems i(1) by (auto simp: starting_def intro: holds_config_ready)
  obtain r t' where step: "nt_start V ?t = (r, t')" by fastforce
  have t': "ph t' = (if is_ok r then Running ?c else Ready ?c)" "r \<noteq> Panic"
    using start_phase [of ?t] no_panic(2) [of ?t] step ready by auto
  show ?case
  proof (cases r)
    case (Ok u)
    have "starting ph is (s\<lparr>ts_transports := (ts_transports s)[i := t']\<rparr>)"
      using Cons.prems t' Ok rest i by (auto simp: starting_def loop_ok_def nth_list_update)
    from Cons.IH [OF this] show ?thesis using i step Ok by (simp add: get_at_def)
  next
    case (Err e)
    let ?ts = "map_prefix (stop_and_reset V) i ((ts_transports s)[i := t'])"
    have "\<not> phase_running (ph (?ts ! j)) \<and> holds_config (stream (routes (ts_fanout s) ! j)) (ph (?ts ! j))"
      if "j < length (ts_transports s)" for j
      using Cons.prems that t' Err rest
      by (auto simp: starting_def nth_map_prefix nth_list_update stop_and_reset_phase)
    then show ?thesis
      using i step Err Cons.prems
      by (auto simp: set_inv_def starting_def loop_ok_def in_set_conv_nth get_at_def)
  next
    case Panic
    then show ?thesis using t' by simp
  qed
qed

end

context network_transport_laws
begin

lemma abort_stream_inv:
  "set_inv ph s \<Longrightarrow> set_inv ph (abort_stream V s)
     \<and> (\<forall>t\<in>set (ts_transports (abort_stream V s)). \<not> phase_running (ph t))"
  by (auto simp: set_inv_def abort_stream_def stop_and_reset_phase)

lemma set_inv_submitted:
  "set_inv ph s \<Longrightarrow> i < length (ts_transports s) \<Longrightarrow> ph t' = ph (ts_transports s ! i) \<Longrightarrow>
     set_inv ph (s\<lparr>ts_transports := (ts_transports s)[i := t']\<rparr>)"
  by (auto simp: set_inv_def nth_list_update all_set_conv_all_nth)

lemma submit_loop_outcomes:
  assumes "set_inv ph s" and "ts_lifecycle s = SetStarted"
    and "set is \<subseteq> {..<length (ts_transports s)}"
    and "\<forall>i\<in>set is. \<exists>m. module_block i (ts_fanout s) = Ok m"
  shows "set_inv ph (snd (submit_loop V is s))
    \<and> (fst (submit_loop V is s) = Ok ()
         \<and> ts_lifecycle (snd (submit_loop V is s)) = SetStarted
         \<and> (\<forall>i\<in>set is. phase_running (ph (ts_transports s ! i)))
         \<and> map ph (ts_transports (snd (submit_loop V is s))) = map ph (ts_transports s)
       \<or> (\<exists>i e. fst (submit_loop V is s) = Err (EndpointFailed i e))
         \<and> ts_lifecycle (snd (submit_loop V is s)) = SetNew)"
  using assms
proof (induction "is" arbitrary: s)
  case (Cons i "is")
  let ?t = "ts_transports s ! i"
  have i: "i < length (ts_transports s)" using Cons.prems(3) by simp
  obtain m where m: "module_block i (ts_fanout s) = Ok m" using Cons.prems(4) by auto
  obtain r t' where step: "nt_submit V m ?t = (r, t')" by fastforce
  have t': "ph t' = ph ?t" "r \<noteq> Panic" "is_ok r \<Longrightarrow> phase_running (ph ?t)"
    using submit_phase [of m ?t] no_panic(3) [of m ?t] submit_Ok [of m ?t] step by auto
  let ?s = "s\<lparr>ts_transports := (ts_transports s)[i := t']\<rparr>"
  have inv: "set_inv ph ?s" using Cons.prems(1) i t'(1) by (rule set_inv_submitted)
  have phs: "map ph (ts_transports ?s) = map ph (ts_transports s)"
    using i t'(1) by (simp add: map_update list_update_same_conv)
  show ?case
  proof (cases r)
    case (Ok u)
    have "submit_loop V (i # is) s = submit_loop V is ?s"
      using i m step Ok by (simp add: get_at_def)
    moreover have "(\<forall>j\<in>set is. phase_running (ph (ts_transports ?s ! j)))
        \<longrightarrow> (\<forall>j\<in>set (i # is). phase_running (ph (ts_transports s ! j)))"
      using t' Ok Cons.prems(3) by (auto simp: nth_list_update split: if_splits)
    ultimately show ?thesis using Cons.IH [OF inv] Cons.prems phs by auto
  next
    case (Err e)
    then show ?thesis
      using i m step abort_stream_inv [OF inv] by (auto simp: get_at_def abort_stream_def)
  qed (use t' in simp)
qed simp

lemma submit_outcomes:
  assumes inv: "set_inv ph s"
  shows "set_inv ph (snd (transport_set_submit V b s))
    \<and> (let (r, s') = transport_set_submit V b s in
        case r of
          Ok _ \<Rightarrow> ts_lifecycle s' = SetStarted \<and> (\<forall>t\<in>set (ts_transports s'). phase_running (ph t))
        | Panic \<Rightarrow> False
        | Err (EndpointFailed _ _) \<Rightarrow> ts_lifecycle s' = SetNew
        | Err (Fanout e) \<Rightarrow> ts_lifecycle s' = SetStarted \<and> ts_transports s' = ts_transports s
        | Err InvalidLifecycle \<Rightarrow> ts_lifecycle s \<noteq> SetStarted \<and> s' = s
        | Err _ \<Rightarrow> False)"
proof (cases "ts_lifecycle s = SetStarted")
  case True
  obtain r f where split: "fanout_split b (ts_fanout s) = (r, f)" by fastforce
  have fan: "fanout_inv (ts_fanout s)" using inv by (simp add: set_inv_def)
  have f: "fanout_inv f" "routes f = routes (ts_fanout s)" "r \<noteq> Panic"
    using fanout_split_inv [OF fan, of b] fanout_split_no_panic [OF fan, of b]
      fanout_split_routes [of b "ts_fanout s"] split by auto
  have inv': "set_inv ph (s\<lparr>ts_fanout := f\<rparr>)" using inv f by (simp add: set_inv_def)
  show ?thesis
  proof (cases r)
    case (Ok u)
    let ?s = "s\<lparr>ts_fanout := f\<rparr>"
    let ?is = "[0..<length (ts_transports s)]"
    have "\<forall>i\<in>set ?is. \<exists>m. module_block i (ts_fanout ?s) = Ok m"
      using module_block_after_split [OF fan, of b f] split Ok inv by (auto simp: set_inv_def)
    moreover have "set ?is \<subseteq> {..<length (ts_transports ?s)}" by auto
    moreover have "ts_lifecycle ?s = SetStarted" using True by simp
    ultimately have out: "set_inv ph (snd (submit_loop V ?is ?s))
      \<and> (fst (submit_loop V ?is ?s) = Ok ()
           \<and> ts_lifecycle (snd (submit_loop V ?is ?s)) = SetStarted
           \<and> (\<forall>i\<in>set ?is. phase_running (ph (ts_transports ?s ! i)))
           \<and> map ph (ts_transports (snd (submit_loop V ?is ?s))) = map ph (ts_transports ?s)
         \<or> (\<exists>i e. fst (submit_loop V ?is ?s) = Err (EndpointFailed i e))
           \<and> ts_lifecycle (snd (submit_loop V ?is ?s)) = SetNew)"
      using submit_loop_outcomes [OF inv', of ?is] by blast
    have run: "\<forall>t\<in>set ts'. phase_running (ph t)"
      if "map ph ts' = map ph (ts_transports s)"
        "\<forall>i\<in>set ?is. phase_running (ph (ts_transports s ! i))" for ts'
      using that by (metis atLeastLessThan_iff in_set_conv_nth length_map nth_map set_upt zero_le)
    show ?thesis
      using out run split Ok True
      by (cases "submit_loop V ?is ?s") (auto simp: transport_set_submit_def)
  next
    case (Err e)
    then show ?thesis using inv' split True by (simp add: transport_set_submit_def)
  qed (use f in simp)
qed (use inv in \<open>simp add: transport_set_submit_def\<close>)

end

context network_transport_laws
begin

lemma prepare_inv:
  assumes "set_inv ph s"
  shows "set_inv ph (snd (transport_set_prepare V s)) \<and> fst (transport_set_prepare V s) \<noteq> Panic"
proof (cases "ts_lifecycle s = SetStarted")
  case False
  then have "preparing ph [0..<length (ts_transports s)] s"
    using assms by (auto simp: preparing_def loop_ok_def set_inv_def)
  from prepare_loop_inv [OF this] False show ?thesis by (simp add: transport_set_prepare_def)
qed (use assms in \<open>simp add: transport_set_prepare_def\<close>)

lemma start_inv:
  assumes "set_inv ph s"
  shows "set_inv ph (snd (transport_set_start V s)) \<and> fst (transport_set_start V s) \<noteq> Panic"
proof (cases "ts_lifecycle s = SetPrepared")
  case True
  then have "starting ph [0..<length (ts_transports s)] s"
    using assms by (auto simp: starting_def loop_ok_def set_inv_def)
  from start_loop_inv [OF this] True show ?thesis by (simp add: transport_set_start_def)
qed (use assms in \<open>simp add: transport_set_start_def\<close>)

lemma stop_inv:
  assumes "set_inv ph s"
  shows "set_inv ph (snd (transport_set_stop V s)) \<and> fst (transport_set_stop V s) \<noteq> Panic"
proof (cases "ts_lifecycle s = SetStarted")
  case True
  obtain e ts where loop: "stop_loop V 0 None (ts_transports s) = (e, ts)" by fastforce
  then have ts: "ts = map (stop_and_reset V) (ts_transports s)"
    using stop_loop_transports [of V 0 None "ts_transports s"] by simp
  have "set_inv ph (snd (transport_set_stop V s))"
    using assms True ts
    by (auto simp: transport_set_stop_def loop Let_def set_inv_def stop_and_reset_phase split: option.split)
  then show ?thesis using stop_loop_no_panic [of V s] by (auto simp: prod_eq_iff)
qed (use assms in \<open>simp add: transport_set_stop_def\<close>)

lemma reset_inv: "set_inv ph s \<Longrightarrow> set_inv ph (transport_set_reset V s)"
  by (auto simp: set_inv_def transport_set_reset_def reset_phase)

lemma set_step_inv:
  "set_inv ph s \<Longrightarrow> set_inv ph (snd (set_step V op s)) \<and> fst (set_step V op s) \<noteq> Panic"
proof (cases op)
  case (SetSubmit b)
  assume "set_inv ph s"
  from submit_outcomes [OF this, of b] SetSubmit show ?thesis by (auto simp: Let_def split: prod.splits)
qed (simp_all add: prepare_inv start_inv stop_inv reset_inv)

lemma set_run_inv: "set_inv ph s \<Longrightarrow> set_inv ph (set_run V ops s)"
  by (induction ops arbitrary: s) (simp_all add: set_run_def set_step_inv)

lemma transport_set_new_inv:
  assumes "transport_set_new V rs ts = Ok s" and "\<forall>t\<in>set ts. \<not> phase_running (ph t)"
  shows "set_inv ph s"
proof -
  obtain f where f: "fanout_prepare rs = Ok f" and len: "length rs = length ts"
    and s: "s = \<lparr>ts_fanout = f, ts_transports = ts, ts_lifecycle = SetNew\<rparr>"
    using assms(1) by (auto simp: transport_set_new_def split: if_splits outcome.splits)
  have "routes f = rs" using f by (auto simp: fanout_prepare_Ok fanout_fresh_def)
  then show ?thesis using assms(2) fanout_prepare_inv [OF f] len by (simp add: set_inv_def s)
qed

lemma reset_blocks_submit:
  assumes "set_inv ph s"
  shows "fst (transport_set_submit V b (transport_set_reset V s)) \<noteq> Ok ()"
proof
  let ?s = "transport_set_reset V s"
  assume ok: "fst (transport_set_submit V b ?s) = Ok ()"
  have inv: "set_inv ph ?s" using assms by (rule reset_inv)
  have started: "ts_lifecycle ?s = SetStarted"
    using ok by (auto simp: transport_set_submit_def split: if_splits)
  obtain f where split: "fanout_split b (ts_fanout ?s) = (Ok (), f)"
    using ok started by (auto simp: transport_set_submit_def split: prod.splits outcome.splits)
  have fan: "fanout_inv (ts_fanout ?s)" using inv by (simp add: set_inv_def)
  have halted: "\<forall>i<length (ts_transports ?s). \<not> phase_running (ph (ts_transports ?s ! i))"
    by (simp add: transport_set_reset_def reset_phase)
  have "0 < length (ts_transports ?s)"
    using inv fan by (auto simp: set_inv_def fanout_inv_def route_table_ok_def)
  moreover have "set_inv ph (?s\<lparr>ts_fanout := f\<rparr>)"
    using inv fanout_split_inv [OF fan, of b] fanout_split_routes [of b "ts_fanout ?s"] split
    by (simp add: set_inv_def)
  moreover have "\<forall>i\<in>set [0..<length (ts_transports ?s)]. \<exists>m. module_block i f = Ok m"
    using module_block_after_split [OF fan split] inv by (auto simp: set_inv_def)
  moreover have "fst (submit_loop V [0..<length (ts_transports ?s)] (?s\<lparr>ts_fanout := f\<rparr>)) = Ok ()"
    using ok started split by (simp add: transport_set_submit_def)
  ultimately show False
    using submit_loop_outcomes [of "?s\<lparr>ts_fanout := f\<rparr>" "[0..<length (ts_transports ?s)]"]
      started halted by (auto simp: lessThan_atLeast0)
qed

end

section \<open>What a transport has been told\<close>

text \<open>
  The trait promises little about a stop or a reset, and the implementors of this repository differ
  in what a failed stop leaves running.  What holds for all of them is which commands they were
  given.  \<open>commanded V t0 t c m\<close>: calls of the trait lead from \<open>t0\<close> to \<open>t\<close>; \<open>c\<close> is the
  configuration of the last prepare, if it succeeded; \<open>m\<close> is \<open>Streaming\<close> after a successful
  start, \<open>ToldStop\<close> once it was told to stop after that, and \<open>Quiet\<close> once it was then told to
  reset (and before the first start).  \<open>V\<close> is arbitrary, a transport that keeps a log of its calls
  included, so the calls meant are those the set really makes.
\<close>

datatype command_state = Quiet | Streaming | ToldStop

inductive commanded ::
  "'t network_transport \<Rightarrow> 't \<Rightarrow> 't \<Rightarrow> network_stream_config option \<Rightarrow> command_state \<Rightarrow> bool"
  for V t0 where
  told_nothing: "commanded V t0 t0 None Quiet"
| told_prepare: "commanded V t0 t c m \<Longrightarrow> nt_prepare V c' t = (r, t') \<Longrightarrow>
    commanded V t0 t' (if is_ok r then Some c' else None) m"
| told_start: "commanded V t0 t c m \<Longrightarrow> nt_start V t = (r, t') \<Longrightarrow>
    commanded V t0 t' c (if is_ok r then Streaming else m)"
| told_submit: "commanded V t0 t c m \<Longrightarrow> nt_submit V b t = (r, t') \<Longrightarrow> commanded V t0 t' c m"
| told_stop: "commanded V t0 t c m \<Longrightarrow> nt_stop V t = (r, t') \<Longrightarrow>
    commanded V t0 t' c (if m = Streaming then ToldStop else m)"
| told_reset: "commanded V t0 t c m \<Longrightarrow>
    commanded V t0 (nt_reset V t) c (if m = ToldStop then Quiet else m)"

definition transport_panics :: "'t network_transport \<Rightarrow> bool" where
  "transport_panics V \<longleftrightarrow> (\<exists>t. fst (nt_start V t) = Panic \<or> fst (nt_stop V t) = Panic
     \<or> (\<exists>c. fst (nt_prepare V c t) = Panic) \<or> (\<exists>b. fst (nt_submit V b t) = Panic))"

section \<open>Any implementor\<close>

text \<open>
  Without laws: what the set's lifecycle says of the commands each transport has been given since
  it was handed over.
\<close>

fun member_ok :: "'t network_transport \<Rightarrow> set_lifecycle \<Rightarrow> network_stream_config \<Rightarrow> 't \<Rightarrow> 't \<Rightarrow> bool" where
  "member_ok V SetNew c t0 t \<longleftrightarrow> (\<exists>c. commanded V t0 t c Quiet)"
| "member_ok V SetPrepared c t0 t \<longleftrightarrow> commanded V t0 t (Some c) Quiet"
| "member_ok V SetStarted c t0 t \<longleftrightarrow> (\<exists>m. commanded V t0 t (Some c) m)"

lemma member_new: "member_ok V l c t0 t \<Longrightarrow> l \<noteq> SetStarted \<Longrightarrow> member_ok V SetNew c t0 t"
  by (cases l) auto

lemma member_prepare:
  assumes "member_ok V SetNew c' t0 t" "nt_prepare V c t = (r, t')"
  shows "r = Ok () \<Longrightarrow> member_ok V SetPrepared c t0 t'" "member_ok V SetNew c t0 t'"
  using assms told_prepare [of V t0 t _ Quiet c r t'] by auto

lemma member_start:
  assumes "member_ok V SetPrepared c t0 t" "nt_start V t = (r, t')"
  shows "r = Ok () \<Longrightarrow> member_ok V SetStarted c t0 t'" "r = Err e \<Longrightarrow> member_ok V SetPrepared c t0 t'"
  using assms told_start [of V t0 t "Some c" Quiet r t'] by auto

lemma member_submit: "member_ok V SetStarted c t0 t \<Longrightarrow> nt_submit V b t = (r, t') \<Longrightarrow> member_ok V SetStarted c t0 t'"
  by (auto intro: told_submit)

lemma member_reset: "member_ok V l c t0 t \<Longrightarrow> member_ok V l c t0 (nt_reset V t)"
  using told_reset [of V t0 t _ Quiet] by (cases l) (auto intro: told_reset)

lemma member_stop_and_reset:
  assumes "member_ok V SetStarted c t0 t" shows "member_ok V SetPrepared c t0 (stop_and_reset V t)"
proof -
  obtain m where m: "commanded V t0 t (Some c) m" using assms by auto
  obtain r t' where stop: "nt_stop V t = (r, t')" by fastforce
  from told_reset [OF told_stop [OF m stop]] show ?thesis by (cases m) (simp_all add: stop_and_reset_def stop)
qed

definition set_shape :: "network_route_spec list \<Rightarrow> 't transport_set \<Rightarrow> bool" where
  "set_shape rs s \<longleftrightarrow> fanout_inv (ts_fanout s) \<and> routes (ts_fanout s) = rs \<and> length (ts_transports s) = length rs"

definition members_ok :: "'t network_transport \<Rightarrow> network_route_spec list \<Rightarrow> 't list \<Rightarrow> (nat \<Rightarrow> set_lifecycle)
    \<Rightarrow> 't transport_set \<Rightarrow> bool" where
  "members_ok V rs ts0 l s \<longleftrightarrow> set_shape rs s \<and> (\<forall>i<length rs. member_ok V (l i) (stream (rs ! i)) (ts0 ! i) (ts_transports s ! i))"

definition set_told :: "'t network_transport \<Rightarrow> network_route_spec list \<Rightarrow> 't list \<Rightarrow> 't transport_set \<Rightarrow> bool" where
  "set_told V rs ts0 s \<longleftrightarrow> members_ok V rs ts0 (\<lambda>_. ts_lifecycle s) s"

lemma set_shape_frame [simp]:
  "set_shape rs (s\<lparr>ts_lifecycle := l\<rparr>) = set_shape rs s"
  "set_shape rs s \<Longrightarrow> set_shape rs (s\<lparr>ts_fanout := fanout_reset (ts_fanout s)\<rparr>)"
  "set_shape rs s \<Longrightarrow> length ts = length (ts_transports s) \<Longrightarrow> set_shape rs (s\<lparr>ts_transports := ts\<rparr>)"
  by (simp_all add: set_shape_def)

lemma set_shape_route: "set_shape rs s \<Longrightarrow> i < length rs \<Longrightarrow> fanout_route i (ts_fanout s) = Ok (rs ! i)"
  by (auto simp: set_shape_def)

lemma set_shape_get: "set_shape rs s \<Longrightarrow> i < length rs \<Longrightarrow> get_at (ts_transports s) i = Some (ts_transports s ! i)"
  by (simp add: set_shape_def get_at_def)

lemma members_step:
  assumes "members_ok V rs ts0 (\<lambda>j. if j < k then l else l') s" "k < length rs"
    and "member_ok V l (stream (rs ! k)) (ts0 ! k) t'"
  shows "members_ok V rs ts0 (\<lambda>j. if j < Suc k then l else l') (s\<lparr>ts_transports := (ts_transports s)[k := t']\<rparr>)"
proof -
  have len: "length (ts_transports s) = length rs" using assms(1) by (simp add: members_ok_def set_shape_def)
  have "member_ok V (if j < Suc k then l else l') (stream (rs ! j)) (ts0 ! j) ((ts_transports s)[k := t'] ! j)"
    if j: "j < length rs" for j
  proof (cases "j = k")
    case True
    then show ?thesis using assms(3) j len by (simp del: member_ok.simps)
  next
    case False
    moreover have "j < Suc k \<longleftrightarrow> j < k" using False by linarith
    moreover have "member_ok V (if j < k then l else l') (stream (rs ! j)) (ts0 ! j) (ts_transports s ! j)"
      using assms(1) j by (simp add: members_ok_def del: member_ok.simps)
    ultimately show ?thesis by (simp del: member_ok.simps)
  qed
  then show ?thesis using assms(1) by (simp add: members_ok_def del: member_ok.simps)
qed

lemma prepare_loop_told:
  "members_ok V rs ts0 (\<lambda>j. if j < k then SetPrepared else SetNew) s \<Longrightarrow> k \<le> length rs \<Longrightarrow>
   prepare_loop V [k..<length rs] s = (r, s') \<Longrightarrow>
     (r = Panic \<longrightarrow> transport_panics V) \<and> set_shape rs s' \<and> (r \<noteq> Panic \<longrightarrow> set_told V rs ts0 s')"
proof (induction "length rs - k" arbitrary: k s)
  case 0
  then show ?case by (auto simp: set_told_def members_ok_def set_shape_def)
next
  case (Suc n)
  then have k: "k < length rs" "[k..<length rs] = k # [Suc k..<length rs]" by (simp_all add: upt_conv_Cons)
  have shape: "set_shape rs s" and members: "\<And>j. j < length rs \<Longrightarrow>
      member_ok V (if j < k then SetPrepared else SetNew) (stream (rs ! j)) (ts0 ! j) (ts_transports s ! j)"
    using Suc.prems(1) by (simp_all add: members_ok_def)
  obtain q t' where q: "nt_prepare V (stream (rs ! k)) (ts_transports s ! k) = (q, t')" by fastforce
  have t': "q = Ok () \<Longrightarrow> member_ok V SetPrepared (stream (rs ! k)) (ts0 ! k) t'" "member_ok V SetNew (stream (rs ! k)) (ts0 ! k) t'"
    using member_prepare [OF _ q] members [OF k(1)] by auto
  have len: "length (ts_transports s) = length rs" using shape by (simp add: set_shape_def)
  note step = Suc.prems(3) [unfolded k(2)] set_shape_route [OF shape k(1)] set_shape_get [OF shape k(1)] q
  show ?case
  proof (cases q)
    case (Ok u)
    have q': "q = Ok ()" using Ok by simp
    from Suc.hyps(1) [OF _ members_step [OF Suc.prems(1) k(1) t'(1) [OF q']]] Suc.hyps(2) k(1) step Ok show ?thesis by simp
  next
    case (Err e)
    have "member_ok V SetNew (stream (rs ! j)) (ts0 ! j) (map_prefix (nt_reset V) k ((ts_transports s)[k := t']) ! j)"
      if j: "j < length rs" for j
      using members [OF j] member_reset [OF member_new [OF members [OF j]]] t'(2) len j
      by (cases "k = j") (simp_all add: nth_map_prefix split: if_splits del: member_ok.simps)
    then show ?thesis using step Err shape by (auto simp: set_told_def members_ok_def set_shape_def)
  next
    case Panic
    then show ?thesis using step shape q by (auto simp: transport_panics_def set_shape_def) (metis fst_conv)
  qed
qed

lemma start_loop_told:
  "members_ok V rs ts0 (\<lambda>j. if j < k then SetStarted else SetPrepared) s \<Longrightarrow> ts_lifecycle s = SetPrepared \<Longrightarrow> k \<le> length rs \<Longrightarrow>
   start_loop V [k..<length rs] s = (r, s') \<Longrightarrow>
     (r = Panic \<longrightarrow> transport_panics V) \<and> set_shape rs s' \<and> (r \<noteq> Panic \<longrightarrow> set_told V rs ts0 s')"
proof (induction "length rs - k" arbitrary: k s)
  case 0
  then show ?case by (auto simp: set_told_def members_ok_def set_shape_def)
next
  case (Suc n)
  then have k: "k < length rs" "[k..<length rs] = k # [Suc k..<length rs]" by (simp_all add: upt_conv_Cons)
  have shape: "set_shape rs s" and members: "\<And>j. j < length rs \<Longrightarrow>
      member_ok V (if j < k then SetStarted else SetPrepared) (stream (rs ! j)) (ts0 ! j) (ts_transports s ! j)"
    using Suc.prems(1) by (simp_all add: members_ok_def)
  obtain q t' where q: "nt_start V (ts_transports s ! k) = (q, t')" by fastforce
  have ready: "member_ok V SetPrepared (stream (rs ! k)) (ts0 ! k) (ts_transports s ! k)" using members [OF k(1)] by simp
  note t' = member_start [OF ready q]
  have len: "length (ts_transports s) = length rs" using shape by (simp add: set_shape_def)
  note step = Suc.prems(4) [unfolded k(2)] set_shape_get [OF shape k(1)] q
  show ?case
  proof (cases q)
    case (Ok u)
    have q': "q = Ok ()" using Ok by simp
    from Suc.hyps(1) [OF _ members_step [OF Suc.prems(1) k(1) t'(1) [OF q']]] Suc.hyps(2) Suc.prems(2) k(1) step Ok show ?thesis by simp
  next
    case (Err e)
    have "member_ok V SetPrepared (stream (rs ! j)) (ts0 ! j) (map_prefix (stop_and_reset V) k ((ts_transports s)[k := t']) ! j)"
      if j: "j < length rs" for j
      using members [OF j] member_stop_and_reset t'(2) [OF Err] len j
      by (auto simp: nth_map_prefix nth_list_update simp del: member_ok.simps split: if_splits)
    then show ?thesis using step Err shape Suc.prems(2) by (auto simp: set_told_def members_ok_def set_shape_def)
  next
    case Panic
    then show ?thesis using step shape q by (auto simp: transport_panics_def set_shape_def) (metis fst_conv)
  qed
qed

text \<open>
  The submissions of one block, from transport \<open>k\<close> on: all accepted, or those behind the first
  refusal not asked.
\<close>

definition offered :: "'t network_transport \<Rightarrow> (nat \<Rightarrow> network_audio_block) \<Rightarrow> nat \<Rightarrow> 't list \<Rightarrow> 't list
    \<Rightarrow> (unit, transport_set_error) outcome \<Rightarrow> bool" where
  "offered V m k ts mid r \<longleftrightarrow> (case r of
     Ok _ \<Rightarrow> \<forall>j. k \<le> j \<and> j < length ts \<longrightarrow> nt_submit V (m j) (ts ! j) = (Ok (), mid ! j)
   | Err (EndpointFailed i e) \<Rightarrow> k \<le> i \<and> i < length ts
       \<and> (\<forall>j. k \<le> j \<and> j < i \<longrightarrow> nt_submit V (m j) (ts ! j) = (Ok (), mid ! j))
       \<and> nt_submit V (m i) (ts ! i) = (Err e, mid ! i)
       \<and> (\<forall>j. i < j \<and> j < length ts \<longrightarrow> mid ! j = ts ! j)
   | Panic \<Rightarrow> transport_panics V
   | _ \<Rightarrow> False)"

definition after_offer :: "'t network_transport \<Rightarrow> 't transport_set \<Rightarrow> 't list \<Rightarrow> (unit, transport_set_error) outcome
    \<Rightarrow> 't transport_set" where
  "after_offer V s mid r =
     (case r of Err _ \<Rightarrow> abort_stream V (s\<lparr>ts_transports := mid\<rparr>) | _ \<Rightarrow> s\<lparr>ts_transports := mid\<rparr>)"

lemma after_offer_frame [simp]: "after_offer V (s\<lparr>ts_transports := ts\<rparr>) mid r = after_offer V s mid r"
  by (cases r) (simp_all add: after_offer_def)

lemma after_offer_simps [simp]:
  "ts_transports (after_offer V s mid (Ok u)) = mid" "ts_lifecycle (after_offer V s mid (Ok u)) = ts_lifecycle s"
  "ts_transports (after_offer V s mid (Err x)) = map (stop_and_reset V) mid" "ts_lifecycle (after_offer V s mid (Err x)) = SetNew"
  by (simp_all add: after_offer_def abort_stream_def)

lemma set_shape_after_offer: "set_shape rs s \<Longrightarrow> length mid = length rs \<Longrightarrow> set_shape rs (after_offer V s mid r)"
  by (cases r) (simp_all add: after_offer_def abort_stream_def set_shape_def)

lemma offered_step:
  assumes rest: "offered V m (Suc k) (ts[k := mid ! k]) mid r" and first: "nt_submit V (m k) (ts ! k) = (Ok (), mid ! k)"
  shows "offered V m k ts mid r"
proof -
  have "nt_submit V (m j) (ts ! j) = (Ok (), mid ! j)"
    if "k \<le> j" "Suc k \<le> j \<Longrightarrow> nt_submit V (m j) (ts[k := mid ! k] ! j) = (Ok (), mid ! j)" for j
    using that first by (cases "j = k") auto
  then show ?thesis using rest
    by (auto simp: offered_def split: outcome.splits transport_set_error.splits)
qed

lemma submit_loop_exact:
  "length (ts_transports s) = n \<Longrightarrow> (\<And>i. i < n \<Longrightarrow> module_block i (ts_fanout s) = Ok (m i)) \<Longrightarrow> k \<le> n \<Longrightarrow>
   submit_loop V [k..<n] s = (r, s') \<Longrightarrow>
   \<exists>mid. length mid = n \<and> (\<forall>j<k. mid ! j = ts_transports s ! j) \<and> offered V m k (ts_transports s) mid r
     \<and> s' = after_offer V s mid r"
proof (induction "n - k" arbitrary: k s)
  case 0
  then show ?case by (intro exI [of _ "ts_transports s"]) (auto simp: offered_def after_offer_def)
next
  case (Suc d)
  then have k: "k < n" "[k..<n] = k # [Suc k..<n]" by (simp_all add: upt_conv_Cons)
  obtain q t' where q: "nt_submit V (m k) (ts_transports s ! k) = (q, t')" by fastforce
  let ?ts = "(ts_transports s)[k := t']" and ?s = "s\<lparr>ts_transports := (ts_transports s)[k := t']\<rparr>"
  have get: "get_at (ts_transports s) k = Some (ts_transports s ! k)" using k(1) Suc.prems(1) by (simp add: get_at_def)
  note step = Suc.prems(4) [unfolded k(2)] Suc.prems(2) [OF k(1)] get q
  show ?case
  proof (cases q)
    case (Ok u)
    have run: "submit_loop V [Suc k..<n] ?s = (r, s')" using step Ok by simp
    have "\<exists>mid. length mid = n \<and> (\<forall>j<Suc k. mid ! j = ts_transports ?s ! j) \<and> offered V m (Suc k) (ts_transports ?s) mid r
     \<and> s' = after_offer V ?s mid r"
      using Suc.prems k(1) Suc.hyps(2) by (intro Suc.hyps(1) run) simp_all
    then obtain mid where mid: "length mid = n" "\<forall>j<Suc k. mid ! j = ?ts ! j" "offered V m (Suc k) ?ts mid r"
        "s' = after_offer V s mid r"
      by auto
    have "mid ! k = t'" "\<forall>j<k. mid ! j = ts_transports s ! j" using mid(2) k(1) Suc.prems(1) by auto
    then show ?thesis using mid offered_step [of V m k "ts_transports s" mid r] q Ok by auto
  next
    case (Err e)
    then show ?thesis using step k Suc.prems(1) by (intro exI [of _ ?ts]) (auto simp: offered_def after_offer_def)
  next
    case Panic
    have "transport_panics V" unfolding transport_panics_def using q Panic by (metis fst_conv)
    then show ?thesis using step k Suc.prems(1) Panic by (intro exI [of _ ?ts]) (auto simp: offered_def after_offer_def)
  qed
qed

lemma set_shape_split:
  assumes "set_shape rs s" and "fanout_split b (ts_fanout s) = (q, f)"
  shows "set_shape rs (s\<lparr>ts_fanout := f\<rparr>)" "q \<noteq> Panic"
  using assms fanout_split_inv [of "ts_fanout s" b] fanout_split_routes [of b "ts_fanout s"]
    fanout_split_no_panic [of "ts_fanout s" b]
  by (auto simp: set_shape_def)

text \<open>The block of one route: its channels of the bus block, on the timeline of the bus.\<close>

definition route_block :: "network_audio_block \<Rightarrow> network_route_spec \<Rightarrow> network_audio_block" where
  "route_block b r = \<lparr>sequence = sequence b, timestamp = timestamp b, format = sc_format (stream r),
     samples = gather (samples b) 12 (source_channel_indices r) (unat (block_frames (format b)))\<rparr>"

lemma submit_exact:
  assumes shape: "set_shape rs s" and call: "transport_set_submit V b s = (r, s')"
  shows "case r of
      Ok _ \<Rightarrow> ts_lifecycle s' = SetStarted \<and> (\<forall>i<length rs.
          nt_submit V (route_block b (rs ! i)) (ts_transports s ! i) = (Ok (), ts_transports s' ! i))
    | Err (EndpointFailed i e) \<Rightarrow> ts_lifecycle s' = SetNew \<and> i < length rs \<and> (\<exists>mid. length mid = length rs
        \<and> ts_transports s' = map (stop_and_reset V) mid
        \<and> (\<forall>j<i. nt_submit V (route_block b (rs ! j)) (ts_transports s ! j) = (Ok (), mid ! j))
        \<and> nt_submit V (route_block b (rs ! i)) (ts_transports s ! i) = (Err e, mid ! i)
        \<and> (\<forall>j. i < j \<and> j < length rs \<longrightarrow> mid ! j = ts_transports s ! j))
    | Err (Fanout e) \<Rightarrow> ts_lifecycle s' = SetStarted \<and> ts_transports s' = ts_transports s
    | Err InvalidLifecycle \<Rightarrow> ts_lifecycle s \<noteq> SetStarted \<and> s' = s
    | Panic \<Rightarrow> transport_panics V
    | _ \<Rightarrow> False"
    "set_shape rs s'"
proof -
  have fan: "fanout_inv (ts_fanout s)" and n: "length (ts_transports s) = length rs" "routes (ts_fanout s) = rs"
    using shape by (simp_all add: set_shape_def)
  obtain q f where split: "fanout_split b (ts_fanout s) = (q, f)" by fastforce
  note shape' = set_shape_split [OF shape split]
  have block: "module_block i f = Ok (route_block b (rs ! i))" if "q = Ok ()" "i < length rs" for i
  proof -
    have "format b = input_format (ts_fanout s)"
      using split that(1) fanout_split_Ok [OF fan, of b f] by (auto simp: admits_block_def)
    then show ?thesis
      using module_block_after_split [OF fan, of b f i] split that n(2) by (simp add: route_block_def)
  qed
  have loop: "\<exists>mid. length mid = length rs \<and> (\<forall>j<0. mid ! j = ts_transports (s\<lparr>ts_fanout := f\<rparr>) ! j)
      \<and> offered V (\<lambda>i. route_block b (rs ! i)) 0 (ts_transports (s\<lparr>ts_fanout := f\<rparr>)) mid r
      \<and> s' = after_offer V (s\<lparr>ts_fanout := f\<rparr>) mid r"
    if "ts_lifecycle s = SetStarted" "q = Ok ()"
    by (rule submit_loop_exact) (use that n block call split in \<open>simp_all add: transport_set_submit_def\<close>)
  show "case r of
      Ok _ \<Rightarrow> ts_lifecycle s' = SetStarted \<and> (\<forall>i<length rs.
          nt_submit V (route_block b (rs ! i)) (ts_transports s ! i) = (Ok (), ts_transports s' ! i))
    | Err (EndpointFailed i e) \<Rightarrow> ts_lifecycle s' = SetNew \<and> i < length rs \<and> (\<exists>mid. length mid = length rs
        \<and> ts_transports s' = map (stop_and_reset V) mid
        \<and> (\<forall>j<i. nt_submit V (route_block b (rs ! j)) (ts_transports s ! j) = (Ok (), mid ! j))
        \<and> nt_submit V (route_block b (rs ! i)) (ts_transports s ! i) = (Err e, mid ! i)
        \<and> (\<forall>j. i < j \<and> j < length rs \<longrightarrow> mid ! j = ts_transports s ! j))
    | Err (Fanout e) \<Rightarrow> ts_lifecycle s' = SetStarted \<and> ts_transports s' = ts_transports s
    | Err InvalidLifecycle \<Rightarrow> ts_lifecycle s \<noteq> SetStarted \<and> s' = s
    | Panic \<Rightarrow> transport_panics V
    | _ \<Rightarrow> False"
  proof (cases "ts_lifecycle s = SetStarted \<and> q = Ok ()")
    case True
    then obtain mid where mid: "length mid = length rs" "offered V (\<lambda>i. route_block b (rs ! i)) 0 (ts_transports s) mid r"
        "s' = after_offer V (s\<lparr>ts_fanout := f\<rparr>) mid r"
      using loop by auto
    show ?thesis
    proof (cases r)
      case (Err x)
      then show ?thesis using mid n by (cases x) (auto simp: offered_def)
    qed (use mid n True in \<open>auto simp: offered_def\<close>)
  qed (use call split shape'(2) in \<open>cases q; auto simp: transport_set_submit_def split: if_splits\<close>)
  show "set_shape rs s'"
  proof (cases "ts_lifecycle s = SetStarted \<and> q = Ok ()")
    case True
    then show ?thesis using loop set_shape_after_offer [OF shape'(1)] by auto
  qed (use call split shape shape' in \<open>cases q; auto simp: transport_set_submit_def split: if_splits\<close>)
qed

lemma set_step_shape:
  assumes "set_shape rs s" shows "set_shape rs (snd (set_step V op s))"
proof (cases op)
  case SetPrepare
  have "set_shape rs (snd (prepare_loop V is s))" for "is"
    using assms
  proof (induction "is" arbitrary: s)
    case (Cons i "is")
    then show ?case
      by (auto simp: set_shape_def split: outcome.splits option.splits prod.splits)
  qed simp
  then show ?thesis using SetPrepare assms by (simp add: transport_set_prepare_def)
next
  case SetStart
  have "set_shape rs (snd (start_loop V is s))" for "is"
    using assms
  proof (induction "is" arbitrary: s)
    case (Cons i "is")
    then show ?case
      by (auto simp: set_shape_def split: outcome.splits option.splits prod.splits)
  qed simp
  then show ?thesis using SetStart assms by (simp add: transport_set_start_def)
next
  case (SetSubmit b)
  then show ?thesis using submit_exact(2) [OF assms prod.collapse [symmetric], of V b] by simp
next
  case SetStop
  have "length (snd (stop_loop V 0 None (ts_transports s))) = length (ts_transports s)"
    by (simp add: stop_loop_transports)
  then show ?thesis using SetStop assms
    by (auto simp: transport_set_stop_def Let_def set_shape_def split: prod.splits option.splits)
next
  case SetReset
  then show ?thesis using assms by (simp add: transport_set_reset_def set_shape_def)
qed

lemma set_run_shape: "set_shape rs s \<Longrightarrow> set_shape rs (set_run V ops s)"
  by (induction ops arbitrary: s) (simp_all add: set_run_def set_step_shape)

lemma transport_set_new_shape:
  assumes "transport_set_new V rs ts = Ok s"
  shows "set_shape rs s \<and> ts_lifecycle s = SetNew \<and> ts_transports s = ts \<and> length ts = length rs"
proof -
  obtain f where f: "fanout_prepare rs = Ok f" and len: "length rs = length ts"
    and s: "s = \<lparr>ts_fanout = f, ts_transports = ts, ts_lifecycle = SetNew\<rparr>"
    using assms by (auto simp: transport_set_new_def split: if_splits outcome.splits)
  have "routes f = rs" using f by (auto simp: fanout_prepare_Ok fanout_fresh_def)
  then show ?thesis using fanout_prepare_inv [OF f] len by (simp add: set_shape_def s)
qed

text \<open>A panic unwinds out of the set; histories are sequences of calls that returned.\<close>

fun calls_return :: "'t network_transport \<Rightarrow> set_op list \<Rightarrow> 't transport_set \<Rightarrow> bool" where
  "calls_return V [] s = True"
| "calls_return V (op # ops) s \<longleftrightarrow> fst (set_step V op s) \<noteq> Panic \<and> calls_return V ops (snd (set_step V op s))"

lemma submit_told:
  assumes told: "set_told V rs ts0 s" and call: "transport_set_submit V b s = (r, s')" and ret: "r \<noteq> Panic"
  shows "set_told V rs ts0 s'"
proof -
  have shape: "set_shape rs s" and members: "\<And>i. i < length rs \<Longrightarrow>
      member_ok V (ts_lifecycle s) (stream (rs ! i)) (ts0 ! i) (ts_transports s ! i)"
    using told by (simp_all add: set_told_def members_ok_def)
  note exact = submit_exact [OF shape call]
  have started: "ts_lifecycle s = SetStarted" if "r \<noteq> Err InvalidLifecycle"
    using call that by (auto simp: transport_set_submit_def split: if_splits)
  show ?thesis
  proof (cases r)
    case (Ok u)
    then show ?thesis
      using exact members started member_submit by (fastforce simp: set_told_def members_ok_def simp del: member_ok.simps)
  next
    case (Err x)
    show ?thesis
    proof (cases x)
      case (EndpointFailed i e)
      then obtain mid where mid: "ts_lifecycle s' = SetNew" "i < length rs" "length mid = length rs" "ts_transports s' = map (stop_and_reset V) mid"
        "\<forall>j<i. nt_submit V (route_block b (rs ! j)) (ts_transports s ! j) = (Ok (), mid ! j)"
        "nt_submit V (route_block b (rs ! i)) (ts_transports s ! i) = (Err e, mid ! i)"
        "\<forall>j. i < j \<and> j < length rs \<longrightarrow> mid ! j = ts_transports s ! j"
        using exact(1) Err by auto
      have m: "member_ok V SetStarted (stream (rs ! j)) (ts0 ! j) (mid ! j)" if j: "j < length rs" for j
      proof -
        have m: "member_ok V SetStarted (stream (rs ! j)) (ts0 ! j) (ts_transports s ! j)"
          using members [OF j] started Err EndpointFailed by simp
        consider "j < i" | "j = i" | "i < j" by linarith
        then show ?thesis using m member_submit [OF m] mid(5-7) j by cases metis+
      qed
      have "member_ok V SetNew (stream (rs ! j)) (ts0 ! j) (ts_transports s' ! j)" if "j < length rs" for j
        using member_new [OF member_stop_and_reset [OF m [OF that]]] that mid(3,4) by (simp del: member_ok.simps)
      then show ?thesis using mid(1) exact(2) by (simp add: set_told_def members_ok_def del: member_ok.simps)
    qed (use Err exact members started in \<open>auto simp: set_told_def members_ok_def simp del: member_ok.simps\<close>)
  qed (use ret in simp)
qed

lemma set_step_told:
  assumes told: "set_told V rs ts0 s"
  shows "fst (set_step V op s) = Panic \<Longrightarrow> transport_panics V"
    "fst (set_step V op s) \<noteq> Panic \<Longrightarrow> set_told V rs ts0 (snd (set_step V op s))"
proof -
  have shape: "set_shape rs s" and n: "length (ts_transports s) = length rs" and members: "\<And>i. i < length rs \<Longrightarrow>
      member_ok V (ts_lifecycle s) (stream (rs ! i)) (ts0 ! i) (ts_transports s ! i)"
    using told by (simp_all add: set_told_def members_ok_def set_shape_def)
  have "(fst (set_step V op s) = Panic \<longrightarrow> transport_panics V)
      \<and> (fst (set_step V op s) \<noteq> Panic \<longrightarrow> set_told V rs ts0 (snd (set_step V op s)))"
  proof (cases op)
    case SetPrepare
    show ?thesis
    proof (cases "ts_lifecycle s = SetStarted")
      case False
      then have "members_ok V rs ts0 (\<lambda>j. if j < 0 then SetPrepared else SetNew) s"
        using shape member_new [OF members] by (simp add: members_ok_def del: member_ok.simps)
      from prepare_loop_told [OF this _ prod.collapse [symmetric]] show ?thesis
        using SetPrepare False n by (simp add: transport_set_prepare_def)
    qed (use SetPrepare told in \<open>simp add: transport_set_prepare_def\<close>)
  next
    case SetStart
    show ?thesis
    proof (cases "ts_lifecycle s = SetPrepared")
      case True
      then have "members_ok V rs ts0 (\<lambda>j. if j < 0 then SetStarted else SetPrepared) s"
        using shape members by (simp add: members_ok_def del: member_ok.simps)
      from start_loop_told [OF this True _ prod.collapse [symmetric]] show ?thesis
        using SetStart True n by (simp add: transport_set_start_def)
    qed (use SetStart told in \<open>simp add: transport_set_start_def\<close>)
  next
    case (SetSubmit b)
    obtain r s' where call: "transport_set_submit V b s = (r, s')" by fastforce
    show ?thesis using SetSubmit call submit_told [OF told call] submit_exact(1) [OF shape call] by auto
  next
    case SetStop
    obtain e ts where loop: "stop_loop V 0 None (ts_transports s) = (e, ts)" by fastforce
    then have ts: "ts = map (stop_and_reset V) (ts_transports s)"
      using stop_loop_transports [of V 0 None "ts_transports s"] by simp
    have stopped: "member_ok V SetPrepared (stream (rs ! i)) (ts0 ! i) (ts ! i)" if "ts_lifecycle s = SetStarted" "i < length rs" for i
      using member_stop_and_reset [of V "stream (rs ! i)" "ts0 ! i" "ts_transports s ! i"] members [OF that(2)] that n ts by simp
    show ?thesis
      using SetStop told stopped loop ts n shape
      by (cases "ts_lifecycle s = SetStarted"; cases e)
        (auto simp: transport_set_stop_def set_told_def members_ok_def set_shape_def simp del: member_ok.simps)
  next
    case SetReset
    have "member_ok V (ts_lifecycle s) (stream (rs ! i)) (ts0 ! i) (nt_reset V (ts_transports s ! i))" if "i < length rs" for i
      using member_reset [OF members [OF that]] .
    then show ?thesis using SetReset shape n
      by (simp add: transport_set_reset_def set_told_def members_ok_def set_shape_def del: member_ok.simps)
  qed
  then show "fst (set_step V op s) = Panic \<Longrightarrow> transport_panics V"
    "fst (set_step V op s) \<noteq> Panic \<Longrightarrow> set_told V rs ts0 (snd (set_step V op s))" by blast+
qed

lemma set_run_told: "set_told V rs ts0 s \<Longrightarrow> calls_return V ops s \<Longrightarrow> set_told V rs ts0 (set_run V ops s)"
  by (induction ops arbitrary: s) (simp_all add: set_run_def set_step_told(2))

lemma transport_set_new_told:
  assumes "transport_set_new V rs ts = Ok s" shows "set_told V rs ts s"
  using transport_set_new_shape [OF assms] by (auto simp: set_told_def members_ok_def intro: told_nothing exI)

section \<open>Properties\<close>

text \<open>Two simulated transports behind the two routes of the fanout witnesses.\<close>

definition demo_set :: "sim_network_transport transport_set" where
  "demo_set = \<lparr>ts_fanout = fanout_fresh 2 pod_routes,
     ts_transports = [sim_network_new 8 4, sim_network_new 8 4], ts_lifecycle = SetNew\<rparr>"

lemma demo_set_new:
  "transport_set_new sim_vtable pod_routes [sim_network_new 8 4, sim_network_new 8 4] = Ok demo_set"
  by (simp add: transport_set_new_def pod_routes_prepare demo_set_def sim_network_new_def)
    (simp add: pod_routes_def pod_route_def fanout_fresh_def fanout_route_def get_at_def)

lemma demo_set_idle: "\<forall>t\<in>set [sim_network_new 8 4, sim_network_new 8 4]. \<not> phase_running (sim_phase t)"
  by (simp add: sim_phase_def sim_network_new_def)

definition pod_sim :: "string \<Rightarrow> usize list \<Rightarrow> bool \<Rightarrow> network_transport_event list \<Rightarrow> sim_network_transport" where
  "pod_sim n is run evs = (sim_network_new 8 4)\<lparr>config := Some (stream (pod_route n is)), started := run, events := evs\<rparr>"

lemma pod_sim_prepare:
  "sim_prepare (stream (pod_route n [a, b])) (sim_network_new 8 4)
     = (Ok (), pod_sim n [a, b] False [EvPrepared])"
  by (simp add: sim_prepare_def pod_sim_def sim_network_new_def pod_route_def format_validate_def
      samples_per_block_def checked_mul_def timing_validate_def f64_is_finite_def f64_finite_neg_def)

lemma pod_sim_start: "sim_start (pod_sim n is False evs) = (Ok (), pod_sim n is True (evs @ [EvStarted]))"
  by (simp add: sim_start_def pod_sim_def)

definition demo_started :: "sim_network_transport transport_set" where
  "demo_started = \<lparr>ts_fanout = fanout_fresh 2 pod_routes,
     ts_transports = [pod_sim ''left'' [4, 10] True [EvPrepared, EvStarted],
                      pod_sim ''right'' [5, 11] True [EvPrepared, EvStarted]],
     ts_lifecycle = SetStarted\<rparr>"

lemma fanout_fresh_reset [simp]: "fanout_reset (fanout_fresh n rs) = fanout_fresh n rs"
  by (simp add: fanout_reset_def fanout_fresh_def)

lemma demo_starts: "set_run sim_vtable [SetPrepare, SetStart] demo_set = demo_started"
proof -
  have r: "fanout_route 0 (fanout_fresh 2 pod_routes) = Ok (pod_route ''left'' [4, 10])"
    "fanout_route (Suc 0) (fanout_fresh 2 pod_routes) = Ok (pod_route ''right'' [5, 11])"
    by (simp_all add: fanout_route_def fanout_fresh_def pod_routes_def get_at_def)
  show ?thesis
    by (simp add: set_run_def transport_set_prepare_def transport_set_start_def demo_set_def
      demo_started_def upt_rec get_at_def r pod_sim_prepare pod_sim_start)
qed

lemma pod_sim_submit:
  "format m = sc_format (stream (pod_route n is)) \<Longrightarrow> block_validate m = Ok () \<Longrightarrow>
   fst (sim_submit m (pod_sim n is True evs)) = Ok ()"
  by (simp add: sim_submit_def pod_sim_def sim_network_new_def)

lemma demo_submits: "fst (transport_set_submit sim_vtable (bus_block 0) demo_started) = Ok ()"
proof -
  obtain f where f: "fanout_split (bus_block 0) (fanout_fresh 2 pod_routes) = (Ok (), f)"
    using bus_block_split [OF fanout_fresh_inv [OF pod_routes_ok], of 0]
    by (auto simp: fanout_fresh_def AURORA_NETWORK_MEDIA_RATE_def)
  then have ok: "fst (fanout_split (bus_block 0) (fold fanout_step [] (fanout_fresh 2 pod_routes))) = Ok ()"
    by simp
  obtain m0 m1 where m: "module_block 0 f = Ok m0" "module_block (Suc 0) f = Ok m1"
    and "format m0 = sc_format (stream (pod_route ''left'' [4, 10]))" "block_validate m0 = Ok ()"
    and "format m1 = sc_format (stream (pod_route ''right'' [5, 11]))" "block_validate m1 = Ok ()"
    using fanout_module_samples [OF pod_routes_prepare refl ok, of 0]
      fanout_module_samples [OF pod_routes_prepare refl ok, of 1] f
    by (auto simp: pod_routes_def)
  moreover then obtain t0 t1 where
    "sim_submit m0 (pod_sim ''left'' [4, 10] True [EvPrepared, EvStarted]) = (Ok (), t0)"
    "sim_submit m1 (pod_sim ''right'' [5, 11] True [EvPrepared, EvStarted]) = (Ok (), t1)"
    by (metis pod_sim_submit prod.collapse)
  ultimately show ?thesis
    by (simp add: transport_set_submit_def demo_started_def f upt_rec get_at_def)
qed

text \<open>
  C38: Every speaker is told.  Whatever the transports do, after any calls of \<open>prepare\<close>,
  \<open>start\<close>, \<open>submit\<close>, \<open>stop\<close> and \<open>reset\<close> that returned, failed ones and their rollbacks
  included: unless the set is started, each transport has been told to stop and then to reset
  since its last successful start; and once the set is prepared, the last prepare of each
  transport succeeded, with exactly the stream configuration the plan gave to its own route.  A
  call panics only if a transport does.
\<close>

theorem transport_set_no_stray_stream:
  assumes "transport_set_new V rs ts = Ok s0" and "calls_return V ops s0" and "s = set_run V ops s0"
  shows "(fst (set_step V op s) = Panic \<longrightarrow> transport_panics V) \<and> length (ts_transports s) = length rs
    \<and> (\<forall>i<length rs. \<exists>c m. commanded V (ts ! i) (ts_transports s ! i) c m
         \<and> (ts_lifecycle s \<noteq> SetStarted \<longrightarrow> m = Quiet)
         \<and> (ts_lifecycle s \<noteq> SetNew \<longrightarrow> c = Some (stream (rs ! i))))"
proof -
  have told: "set_told V rs ts s"
    using set_run_told [OF transport_set_new_told [OF assms(1)] assms(2)] assms(3) by simp
  then have "\<exists>c m. commanded V (ts ! i) (ts_transports s ! i) c m
         \<and> (ts_lifecycle s \<noteq> SetStarted \<longrightarrow> m = Quiet)
         \<and> (ts_lifecycle s \<noteq> SetNew \<longrightarrow> c = Some (stream (rs ! i)))" if "i < length rs" for i
    using that by (cases "ts_lifecycle s") (auto simp: set_told_def members_ok_def)
  moreover have "length (ts_transports s) = length rs" using told by (simp add: set_told_def members_ok_def set_shape_def)
  ultimately show ?thesis using set_step_told(1) [OF told] by blast
qed

lemma demo_calls_return: "calls_return sim_vtable [SetPrepare, SetStart, SetStop] demo_set"
proof -
  have ret: "fst (set_step sim_vtable op s) \<noteq> Panic" "set_inv sim_phase (snd (set_step sim_vtable op s))"
    if "set_inv sim_phase s" for op s
    using sim.set_step_inv [OF that, of op] by auto
  have "set_inv sim_phase demo_set" by (rule sim.transport_set_new_inv [OF demo_set_new demo_set_idle])
  then show ?thesis by (simp add: ret del: set_step.simps)
qed

lemma demo_stopped: "ts_lifecycle (set_run sim_vtable [SetPrepare, SetStart, SetStop] demo_set) = SetPrepared"
proof -
  have "set_run sim_vtable [SetPrepare, SetStart, SetStop] demo_set = snd (transport_set_stop sim_vtable demo_started)"
    using demo_starts by (simp add: set_run_def)
  then show ?thesis
    by (simp add: transport_set_stop_def Let_def demo_started_def split: prod.splits option.splits)
qed

theorem transport_set_no_stray_stream_witness:
  "commanded sim_vtable (sim_network_new 8 4)
     (ts_transports (set_run sim_vtable [SetPrepare, SetStart, SetStop] demo_set) ! 1)
     (Some (stream (pod_route ''right'' [5, 11]))) Quiet"
proof -
  have "\<forall>i<length pod_routes. \<exists>c m. commanded sim_vtable ([sim_network_new 8 4, sim_network_new 8 4] ! i)
      (ts_transports (set_run sim_vtable [SetPrepare, SetStart, SetStop] demo_set) ! i) c m
      \<and> m = Quiet \<and> c = Some (stream (pod_routes ! i))"
    using transport_set_no_stray_stream [OF demo_set_new demo_calls_return refl, of SetStop] demo_stopped by simp
  from this [THEN spec, of 1] show ?thesis by (simp add: pod_routes_def)
qed

text \<open>
  C39: A submission reaches every speaker, or all are told to stop.  For any transports, after any
  calls: a successful \<open>submit\<close> has handed every transport its channels of the block, with the
  block's number and time, and each has accepted; when one refuses, those before it have accepted
  theirs and those behind it were not asked, and then all of them, the refusing one included, were
  stopped and reset, and the set is \<open>New\<close>; when the shared fanout refuses the block no transport
  has been touched and the set stays started, which the type's documentation does not say.  It
  panics only if a transport does.
\<close>

theorem transport_set_submit_all_or_none:
  assumes "transport_set_new V rs ts = Ok s0" and "s = set_run V ops s0"
    and "transport_set_submit V b s = (r, s')"
  shows "case r of
      Ok _ \<Rightarrow> ts_lifecycle s' = SetStarted \<and> (\<forall>i<length rs.
          nt_submit V (route_block b (rs ! i)) (ts_transports s ! i) = (Ok (), ts_transports s' ! i))
    | Err (EndpointFailed i e) \<Rightarrow> ts_lifecycle s' = SetNew \<and> i < length rs \<and> (\<exists>mid. length mid = length rs
        \<and> ts_transports s' = map (stop_and_reset V) mid
        \<and> (\<forall>j<i. nt_submit V (route_block b (rs ! j)) (ts_transports s ! j) = (Ok (), mid ! j))
        \<and> nt_submit V (route_block b (rs ! i)) (ts_transports s ! i) = (Err e, mid ! i)
        \<and> (\<forall>j. i < j \<and> j < length rs \<longrightarrow> mid ! j = ts_transports s ! j))
    | Err (Fanout e) \<Rightarrow> ts_lifecycle s' = SetStarted \<and> ts_transports s' = ts_transports s
    | Err InvalidLifecycle \<Rightarrow> ts_lifecycle s \<noteq> SetStarted \<and> s' = s
    | Panic \<Rightarrow> transport_panics V
    | _ \<Rightarrow> False"
proof -
  have "set_shape rs s"
    using set_run_shape transport_set_new_shape [OF assms(1)] assms(2) by blast
  from submit_exact(1) [OF this assms(3)] show ?thesis .
qed

theorem transport_set_submit_all_or_none_witness:
  "\<exists>s'. transport_set_submit sim_vtable (bus_block 0) demo_started = (Ok (), s')
     \<and> sim_submit (route_block (bus_block 0) (pod_route ''right'' [5, 11])) (ts_transports demo_started ! 1)
         = (Ok (), ts_transports s' ! 1)"
proof -
  obtain s' where s': "transport_set_submit sim_vtable (bus_block 0) demo_started = (Ok (), s')"
    using demo_submits by (metis prod.collapse)
  from transport_set_submit_all_or_none [OF demo_set_new demo_starts [symmetric] s']
  have "\<forall>i<length pod_routes. sim_submit (route_block (bus_block 0) (pod_routes ! i)) (ts_transports demo_started ! i)
      = (Ok (), ts_transports s' ! i)" by simp
  from this [THEN spec, of 1] show ?thesis using s' by (simp add: pod_routes_def del: One_nat_def)
qed

text \<open>
  \<open>reset\<close> while streaming silences the set without saying so.  \<open>reset\<close> halts every
  transport but leaves the lifecycle \<open>Started\<close>, so \<open>start\<close> is refused and no later block can
  be submitted, for any transport that halts when told.
\<close>

theorem transport_set_reset_blocks_submit:
  assumes "network_transport_laws V ph" and "transport_set_new V rs ts = Ok s0"
    and "\<forall>t\<in>set ts. \<not> phase_running (ph t)" and "s = set_run V ops s0"
    and "ts_lifecycle s = SetStarted"
  shows "ts_lifecycle (transport_set_reset V s) = SetStarted
    \<and> fst (transport_set_start V (transport_set_reset V s)) = Err InvalidLifecycle
    \<and> fst (transport_set_submit V b (transport_set_reset V s)) \<noteq> Ok ()"
proof -
  have "set_inv ph s"
    using network_transport_laws.transport_set_new_inv [OF assms(1,2,3)] assms(4)
    by (simp add: network_transport_laws.set_run_inv [OF assms(1)])
  from network_transport_laws.reset_blocks_submit [OF assms(1) this] assms(5)
  show ?thesis by (simp add: transport_set_reset_def transport_set_start_def)
qed

theorem transport_set_reset_blocks_submit_witness:
  "fst (transport_set_submit sim_vtable (bus_block 0) demo_started) = Ok ()
     \<and> fst (transport_set_submit sim_vtable (bus_block 0) (transport_set_reset sim_vtable demo_started))
         \<noteq> Ok ()"
  using demo_submits transport_set_reset_blocks_submit [OF sim.network_transport_laws_axioms
      demo_set_new demo_set_idle demo_starts [symmetric], of "bus_block 0"]
  by (simp add: demo_started_def)

end
