(* ===== verification/Plugin_Manifest.thy ===== *)
theory Plugin_Manifest
  imports Ordered_Map
begin

text \<open>
  Plugin manifests and their fail-closed validation,
  \<open>src/crates/aurora-plugin-api/src/lib.rs\<close>: API compatibility, canonical identifiers,
  entrypoints confined to the package, duplicate-free capability and permission lists.
\<close>

section \<open>Data\<close>

definition PLUGIN_MANIFEST_SCHEMA_VERSION :: u16 where
  "PLUGIN_MANIFEST_SCHEMA_VERSION = 1"

record api_version =
  major :: u16
  minor :: u16

definition HOST_PLUGIN_API_VERSION :: api_version where
  "HOST_PLUGIN_API_VERSION = \<lparr>major = 1, minor = 0\<rparr>"

record api_compatibility =
  ac_major :: u16
  min_minor :: u16
  max_minor :: u16

definition accepts :: "api_compatibility \<Rightarrow> api_version \<Rightarrow> bool" where
  "accepts c host \<longleftrightarrow>
     ac_major c = major host \<and> min_minor c \<le> minor host \<and> minor host \<le> max_minor c"

datatype plugin_capability =
    MediaSource | Browse | Search | QueueCap | PlaybackControl | MetadataProvider | LyricsProvider
  | ArtworkProvider | UrlResolver | StreamingControl | LocalLibrary | ControlSurface

datatype plugin_permission =
    NetworkClient | MediaLibraryRead | MediaLibraryWrite | PlaybackControlPermission
  | LocalMediaRead | PluginStorageWrite | CredentialBroker | Notifications

datatype plugin_protocol = JsonLinesStdioV1

record plugin_manifest =
  schema_version :: u16
  pm_id :: string
  pm_name :: string
  pm_version :: string
  pm_api :: api_compatibility
  pm_capabilities :: "plugin_capability list"
  pm_permissions :: "plugin_permission list"
  entrypoint :: string
  pm_protocol :: plugin_protocol

datatype plugin_manifest_error =
    UnsupportedSchemaVersion u16 u16
  | InvalidPluginId string
  | EmptyName
  | EmptyVersion
  | InvalidEntrypoint string
  | InvalidApiRange
  | IncompatibleHostApi u16 u16 u16 api_version
  | NoCapabilities
  | DuplicateCapability plugin_capability
  | DuplicatePermission plugin_permission

text \<open>The derived orders of the two enumerations: the declaration order.\<close>

fun capability_index :: "plugin_capability \<Rightarrow> nat" where
  "capability_index MediaSource = 0"
| "capability_index Browse = 1"
| "capability_index Search = 2"
| "capability_index QueueCap = 3"
| "capability_index PlaybackControl = 4"
| "capability_index MetadataProvider = 5"
| "capability_index LyricsProvider = 6"
| "capability_index ArtworkProvider = 7"
| "capability_index UrlResolver = 8"
| "capability_index StreamingControl = 9"
| "capability_index LocalLibrary = 10"
| "capability_index ControlSurface = 11"

fun permission_index :: "plugin_permission \<Rightarrow> nat" where
  "permission_index NetworkClient = 0"
| "permission_index MediaLibraryRead = 1"
| "permission_index MediaLibraryWrite = 2"
| "permission_index PlaybackControlPermission = 3"
| "permission_index LocalMediaRead = 4"
| "permission_index PluginStorageWrite = 5"
| "permission_index CredentialBroker = 6"
| "permission_index Notifications = 7"

lemma capability_index_inj: "capability_index a = capability_index b \<Longrightarrow> a = b"
  by (cases a; cases b) simp_all

lemma permission_index_inj: "permission_index a = permission_index b \<Longrightarrow> a = b"
  by (cases a; cases b) simp_all

instantiation plugin_capability :: linorder
begin

definition less_eq_plugin_capability :: "plugin_capability \<Rightarrow> plugin_capability \<Rightarrow> bool" where
  "a \<le> b \<longleftrightarrow> capability_index a \<le> capability_index b"

definition less_plugin_capability :: "plugin_capability \<Rightarrow> plugin_capability \<Rightarrow> bool" where
  "a < b \<longleftrightarrow> capability_index a < capability_index b"

instance
  by standard
    (auto simp: less_eq_plugin_capability_def less_plugin_capability_def dest: capability_index_inj)

end

instantiation plugin_permission :: linorder
begin

definition less_eq_plugin_permission :: "plugin_permission \<Rightarrow> plugin_permission \<Rightarrow> bool" where
  "a \<le> b \<longleftrightarrow> permission_index a \<le> permission_index b"

definition less_plugin_permission :: "plugin_permission \<Rightarrow> plugin_permission \<Rightarrow> bool" where
  "a < b \<longleftrightarrow> permission_index a < permission_index b"

instance
  by standard
    (auto simp: less_eq_plugin_permission_def less_plugin_permission_def dest: permission_index_inj)

end

section \<open>Validation\<close>

text \<open>The loop of \<open>ensure_unique\<close>, with the set of items seen so far.\<close>

fun ensure_unique_from ::
  "('a::linorder \<Rightarrow> plugin_manifest_error) \<Rightarrow> 'a list \<Rightarrow> 'a list
    \<Rightarrow> (unit, plugin_manifest_error) outcome" where
  "ensure_unique_from make_error seen [] = Ok ()"
| "ensure_unique_from make_error seen (item # items) =
     (if item \<in> set seen then Err (make_error item)
      else ensure_unique_from make_error (bs_insert item seen) items)"

definition ensure_unique ::
  "('a::linorder \<Rightarrow> plugin_manifest_error) \<Rightarrow> 'a list \<Rightarrow> (unit, plugin_manifest_error) outcome" where
  "ensure_unique make_error items = ensure_unique_from make_error [] items"

definition valid_id_segment :: "string \<Rightarrow> bool" where
  "valid_id_segment s \<longleftrightarrow>
     s \<noteq> [] \<and> list_all (\<lambda>b. is_ascii_lowercase b \<or> is_ascii_digit b \<or> b = CHR ''-'') s
     \<and> is_ascii_alphanumeric (hd s) \<and> is_ascii_alphanumeric (last s)"

definition is_canonical_plugin_id :: "string \<Rightarrow> bool" where
  "is_canonical_plugin_id i =
     (case split_on (CHR ''.'') i of
        [] \<Rightarrow> False
      | first # rest \<Rightarrow>
          if rest = [] \<or> \<not> valid_id_segment first then False else list_all valid_id_segment rest)"

definition validate_for_host ::
  "plugin_manifest \<Rightarrow> api_version \<Rightarrow> (unit, plugin_manifest_error) outcome" where
  "validate_for_host m host =
     (if schema_version m \<noteq> PLUGIN_MANIFEST_SCHEMA_VERSION
      then Err (UnsupportedSchemaVersion (schema_version m) PLUGIN_MANIFEST_SCHEMA_VERSION)
      else if \<not> is_canonical_plugin_id (pm_id m) then Err (InvalidPluginId (pm_id m))
      else if trim_is_empty (pm_name m) then Err EmptyName
      else if trim_is_empty (pm_version m) then Err EmptyVersion
      else if trim_is_empty (entrypoint m) \<or> starts_with ''/'' (entrypoint m)
      then Err (InvalidEntrypoint (entrypoint m))
      else if list_ex (\<lambda>part. part = ''..'' \<or> part = []) (split_on (CHR ''/'') (entrypoint m))
      then Err (InvalidEntrypoint (entrypoint m))
      else if max_minor (pm_api m) < min_minor (pm_api m) then Err InvalidApiRange
      else if \<not> accepts (pm_api m) host
      then Err (IncompatibleHostApi (ac_major (pm_api m)) (min_minor (pm_api m))
                  (max_minor (pm_api m)) host)
      else if pm_capabilities m = [] then Err NoCapabilities
      else case ensure_unique DuplicateCapability (pm_capabilities m) of
        Err e \<Rightarrow> Err e | Panic \<Rightarrow> Panic
      | Ok _ \<Rightarrow>
          (case ensure_unique DuplicatePermission (pm_permissions m) of
             Err e \<Rightarrow> Err e | Panic \<Rightarrow> Panic | Ok _ \<Rightarrow> Ok ()))"

section \<open>What validation means\<close>

lemma ensure_unique_from_iff:
  "ensure_unique_from f seen xs = Ok () \<longleftrightarrow> distinct xs \<and> set seen \<inter> set xs = {}"
  by (induction f seen xs rule: ensure_unique_from.induct) auto

lemma ensure_unique_from_no_panic: "ensure_unique_from f seen xs \<noteq> Panic"
  by (induction f seen xs rule: ensure_unique_from.induct) auto

lemma ensure_unique_iff [simp]: "ensure_unique f xs = Ok () \<longleftrightarrow> distinct xs"
  by (simp add: ensure_unique_def ensure_unique_from_iff)

lemma ensure_unique_no_panic [simp]: "ensure_unique f xs \<noteq> Panic"
  by (simp add: ensure_unique_def ensure_unique_from_no_panic)

definition manifest_ok :: "plugin_manifest \<Rightarrow> api_version \<Rightarrow> bool" where
  "manifest_ok m host \<longleftrightarrow>
     schema_version m = PLUGIN_MANIFEST_SCHEMA_VERSION \<and> is_canonical_plugin_id (pm_id m)
     \<and> \<not> trim_is_empty (pm_name m) \<and> \<not> trim_is_empty (pm_version m)
     \<and> \<not> trim_is_empty (entrypoint m)
     \<and> (\<forall>part\<in>set (split_on (CHR ''/'') (entrypoint m)). part \<notin> {[], ''..''})
     \<and> accepts (pm_api m) host
     \<and> pm_capabilities m \<noteq> [] \<and> distinct (pm_capabilities m) \<and> distinct (pm_permissions m)"

lemma starts_with_slash: "starts_with ''/'' s \<Longrightarrow> [] \<in> set (split_on (CHR ''/'') s)"
  by (cases s) (auto simp: starts_with_def split: if_splits)

lemma validate_for_host_iff: "validate_for_host m host = Ok () \<longleftrightarrow> manifest_ok m host"
proof -
  have range: "accepts (pm_api m) host \<Longrightarrow> \<not> max_minor (pm_api m) < min_minor (pm_api m)"
    by (auto simp: accepts_def not_less)
  have "validate_for_host m host = Ok () \<longleftrightarrow>
      schema_version m = PLUGIN_MANIFEST_SCHEMA_VERSION \<and> is_canonical_plugin_id (pm_id m)
      \<and> \<not> trim_is_empty (pm_name m) \<and> \<not> trim_is_empty (pm_version m)
      \<and> \<not> (trim_is_empty (entrypoint m) \<or> starts_with ''/'' (entrypoint m))
      \<and> \<not> list_ex (\<lambda>part. part = ''..'' \<or> part = []) (split_on (CHR ''/'') (entrypoint m))
      \<and> \<not> max_minor (pm_api m) < min_minor (pm_api m) \<and> accepts (pm_api m) host
      \<and> pm_capabilities m \<noteq> [] \<and> distinct (pm_capabilities m) \<and> distinct (pm_permissions m)"
    unfolding validate_for_host_def guard_Ok_iff try_Ok_iff ensure_unique_iff by blast
  then show ?thesis
    using starts_with_slash [of "entrypoint m"] range by (auto simp: manifest_ok_def list_ex_iff)
qed

lemma validate_for_host_no_panic [simp]: "validate_for_host m host \<noteq> Panic"
  by (simp add: validate_for_host_def split: outcome.split)

text \<open>
  Walking a relative path from a directory, as the host does to reach the entrypoint: \<open>..\<close>
  leaves the directory, \<open>.\<close> stays, every other part descends.
\<close>

fun walk :: "string list \<Rightarrow> string list \<Rightarrow> string list" where
  "walk dir [] = dir"
| "walk dir (part # parts) =
     (if part = ''..'' then walk (butlast dir) parts
      else if part = ''.'' \<or> part = [] then walk dir parts
      else walk (dir @ [part]) parts)"

lemma walk_without_parent:
  "''..'' \<notin> set parts \<Longrightarrow> walk dir parts = dir @ filter (\<lambda>p. p \<noteq> ''.'' \<and> p \<noteq> []) parts"
  by (induction dir parts rule: walk.induct) auto

text \<open>Identifiers: only lower-case letters, digits, dashes and dots, with at least one dot.\<close>

lemma split_on_chars: "set s \<subseteq> insert d (\<Union>(set ` set (split_on d s)))"
proof (induction s)
  case (Cons c s)
  then show ?case by (cases "split_on d s") auto
qed simp

lemma split_on_no_sep: "d \<notin> set s \<Longrightarrow> split_on d s = [s]"
  by (induction s) auto

lemma canonical_id_chars:
  assumes "is_canonical_plugin_id i"
  shows "CHR ''.'' \<in> set i
    \<and> (\<forall>b\<in>set i. is_ascii_lowercase b \<or> is_ascii_digit b \<or> b = CHR ''-'' \<or> b = CHR ''.'')"
proof -
  obtain first rest where parts: "split_on (CHR ''.'') i = first # rest" "rest \<noteq> []"
    "valid_id_segment first" "list_all valid_id_segment rest"
    using assms by (auto simp: is_canonical_plugin_id_def split: list.splits if_splits)
  have "CHR ''.'' \<in> set i" using parts split_on_no_sep [of "CHR ''.''" i] by auto
  moreover have "is_ascii_lowercase b \<or> is_ascii_digit b \<or> b = CHR ''-'' \<or> b = CHR ''.''"
    if "b \<in> set i" for b
    using split_on_chars [of i "CHR ''.''"] that parts
    by (auto simp: valid_id_segment_def list_all_iff)
  ultimately show ?thesis by blast
qed

section \<open>Properties\<close>

definition demo_manifest :: "string \<Rightarrow> plugin_manifest" where
  "demo_manifest version =
     \<lparr>schema_version = 1, pm_id = ''org.aurora.spotify'', pm_name = ''Spotify'',
      pm_version = version, pm_api = \<lparr>ac_major = 1, min_minor = 0, max_minor = 2\<rparr>,
      pm_capabilities = [MediaSource, Search], pm_permissions = [NetworkClient],
      entrypoint = ''bin/plugin'', pm_protocol = JsonLinesStdioV1\<rparr>"

text \<open>
  an admitted plugin is well formed and cannot point outside its package.  Validation
  succeeds exactly on the documented conditions; then the identifier consists of lower-case
  letters, digits, dashes and at least one dot, the host API lies in the declared range, and
  walking the entrypoint from any package directory stays below that directory.
\<close>

theorem manifest_validation_confines:
  assumes "validate_for_host m host = Ok ()"
  shows "manifest_ok m host
    \<and> CHR ''.'' \<in> set (pm_id m)
    \<and> (\<forall>b\<in>set (pm_id m). is_ascii_lowercase b \<or> is_ascii_digit b \<or> b \<in> {CHR ''-'', CHR ''.''})
    \<and> major host = ac_major (pm_api m) \<and> minor host \<in> {min_minor (pm_api m)..max_minor (pm_api m)}
    \<and> (\<exists>below. walk root (split_on (CHR ''/'') (entrypoint m)) = root @ below
         \<and> ''..'' \<notin> set below)"
proof -
  have ok: "manifest_ok m host" using assms by (simp add: validate_for_host_iff)
  then have "''..'' \<notin> set (split_on (CHR ''/'') (entrypoint m))" by (auto simp: manifest_ok_def)
  from walk_without_parent [OF this, of root] this ok canonical_id_chars [of "pm_id m"]
  show ?thesis by (auto simp: manifest_ok_def accepts_def)
qed

lemma demo_manifest_ok: "\<not> trim_is_empty v \<Longrightarrow> manifest_ok (demo_manifest v) HOST_PLUGIN_API_VERSION"
  by (simp add: manifest_ok_def demo_manifest_def PLUGIN_MANIFEST_SCHEMA_VERSION_def
      HOST_PLUGIN_API_VERSION_def accepts_def is_canonical_plugin_id_def valid_id_segment_def
      is_ascii_lowercase_def is_ascii_alphanumeric_def byte_def ws1_def ws2_def ws3_def)

theorem manifest_validation_confines_witness:
  "\<exists>below. walk [''plugins'', ''spotify''] (split_on (CHR ''/'') (entrypoint (demo_manifest ''1'')))
     = [''plugins'', ''spotify''] @ below"
proof -
  have "validate_for_host (demo_manifest ''1'') HOST_PLUGIN_API_VERSION = Ok ()"
    by (simp add: validate_for_host_iff demo_manifest_ok ws1_def byte_def)
  from manifest_validation_confines [OF this, of "[''plugins'', ''spotify'']"] show ?thesis by blast
qed

end
