(* ===== verification/Plugin_Registry.thy ===== *)
theory Plugin_Registry
  imports Plugin_Manifest
begin

text \<open>
  The plugin registry, \<open>src/crates/aurora-plugin-host/src/lib.rs\<close>: admitted packages with
  their digests, the active, staged and rollback slots of every plugin, the permanent memory of
  version digests, and the persistent snapshot.
\<close>

section \<open>Data\<close>

definition PLUGIN_REGISTRY_SCHEMA_VERSION :: u16 where
  "PLUGIN_REGISTRY_SCHEMA_VERSION = 1"

datatype package_digest = PackageDigest (digest_str: string)

record plugin_package_record =
  manifest :: plugin_manifest
  digest :: package_digest

record plugin_slot =
  slot_active :: "plugin_package_record option"
  slot_staged :: "plugin_package_record option"
  slot_rollback :: "plugin_package_record option"
  known_versions :: "(string, package_digest) btree"

record plugin_registry_snapshot =
  sn_schema_version :: u16
  host_api_at_write :: api_version
  sn_slots :: "(string, plugin_slot) btree"

record plugin_registry =
  host_api :: api_version
  slots :: "(string, plugin_slot) btree"

datatype plugin_registry_error =
    ManifestError plugin_manifest_error
  | InvalidPackageDigest string
  | UnsupportedRegistrySchema u16 u16
  | UnknownPlugin string
  | EmptyRestoredSlot string
  | InvalidRestoredPluginId string
  | EmptyKnownVersion string
  | RestoredPluginIdMismatch string string
  | MissingKnownVersionIdentity string string
  | StagedPackageExists string string
  | PackageAlreadyActive string string
  | NoStagedPackage string
  | NoRollbackTarget string
  | VersionDigestMismatch string string package_digest package_digest

section \<open>Packages and slots\<close>

definition is_canonical_sha256 :: "string \<Rightarrow> bool" where
  "is_canonical_sha256 v \<longleftrightarrow>
     length v = 64 \<and> list_all (\<lambda>b. is_ascii_digit b \<or> (97 \<le> byte b \<and> byte b \<le> 102)) v"

definition digest_parse :: "string \<Rightarrow> (package_digest, plugin_registry_error) outcome" where
  "digest_parse v =
     (if \<not> is_canonical_sha256 v then Err (InvalidPackageDigest v) else Ok (PackageDigest v))"

definition package_record_new ::
  "plugin_manifest \<Rightarrow> string \<Rightarrow> (plugin_package_record, plugin_registry_error) outcome" where
  "package_record_new m d =
     (case digest_parse d of
        Err e \<Rightarrow> Err e | Panic \<Rightarrow> Panic | Ok dg \<Rightarrow> Ok \<lparr>manifest = m, digest = dg\<rparr>)"

definition slot_default :: plugin_slot where
  "slot_default =
     \<lparr>slot_active = None, slot_staged = None, slot_rollback = None, known_versions = []\<rparr>"

definition known_digest :: "plugin_slot \<Rightarrow> string \<Rightarrow> package_digest option" where
  "known_digest s v = bt_get (known_versions s) v"

fun option_list :: "'a option \<Rightarrow> 'a list" where
  "option_list None = []"
| "option_list (Some x) = [x]"

definition slot_packages :: "plugin_slot \<Rightarrow> plugin_package_record list" where
  "slot_packages s =
     option_list (slot_active s) @ option_list (slot_staged s) @ option_list (slot_rollback s)"

definition slot_is_empty :: "plugin_slot \<Rightarrow> bool" where
  "slot_is_empty s \<longleftrightarrow>
     slot_active s = None \<and> slot_staged s = None \<and> slot_rollback s = None \<and> known_versions s = []"

definition same_package :: "plugin_package_record option \<Rightarrow> plugin_package_record \<Rightarrow> bool" where
  "same_package existing candidate =
     is_some_and (\<lambda>known. pm_version (manifest known) = pm_version (manifest candidate)
       \<and> digest known = digest candidate) existing"

definition ensure_known_version_consistency ::
  "string \<Rightarrow> plugin_slot \<Rightarrow> plugin_package_record \<Rightarrow> (unit, plugin_registry_error) outcome" where
  "ensure_known_version_consistency plugin_id s c =
     (case bt_get (known_versions s) (pm_version (manifest c)) of
        None \<Rightarrow> Ok ()
      | Some known \<Rightarrow>
          if known \<noteq> digest c
          then Err (VersionDigestMismatch plugin_id (pm_version (manifest c)) known (digest c))
          else Ok ())"

section \<open>Registry operations\<close>

definition registry_new :: "api_version \<Rightarrow> plugin_registry" where
  "registry_new host = \<lparr>host_api = host, slots = []\<rparr>"

definition registry_slot :: "string \<Rightarrow> plugin_registry \<Rightarrow> plugin_slot option" where
  "registry_slot i r = bt_get (slots r) i"

definition stage ::
  "plugin_package_record \<Rightarrow> plugin_registry
    \<Rightarrow> (unit, plugin_registry_error) outcome \<times> plugin_registry" where
  "stage p r =
     (case validate_for_host (manifest p) (host_api r) of
        Err e \<Rightarrow> (Err (ManifestError e), r) | Panic \<Rightarrow> (Panic, r)
      | Ok _ \<Rightarrow>
          let plugin_id = pm_id (manifest p); version = pm_version (manifest p);
              admit = (let s = (case bt_get (slots r) plugin_id of Some s \<Rightarrow> s | None \<Rightarrow> slot_default);
                           known = (case bt_get (known_versions s) version of
                                      Some _ \<Rightarrow> known_versions s
                                    | None \<Rightarrow> bt_insert version (digest p) (known_versions s))
                       in (Ok (), r\<lparr>slots := bt_insert plugin_id
                             (s\<lparr>known_versions := known, slot_staged := Some p\<rparr>) (slots r)\<rparr>))
          in case bt_get (slots r) plugin_id of
               None \<Rightarrow> admit
             | Some s \<Rightarrow>
                 (case ensure_known_version_consistency plugin_id s p of
                    Err e \<Rightarrow> (Err e, r) | Panic \<Rightarrow> (Panic, r)
                  | Ok _ \<Rightarrow>
                      if same_package (slot_active s) p
                      then (Err (PackageAlreadyActive plugin_id version), r)
                      else case slot_staged s of
                             Some existing \<Rightarrow>
                               (Err (StagedPackageExists plugin_id (pm_version (manifest existing))), r)
                           | None \<Rightarrow> admit))"

definition commit_staged ::
  "string \<Rightarrow> plugin_registry \<Rightarrow> (unit, plugin_registry_error) outcome \<times> plugin_registry" where
  "commit_staged plugin_id r =
     (case bt_get (slots r) plugin_id of
        None \<Rightarrow> (Err (UnknownPlugin plugin_id), r)
      | Some s \<Rightarrow>
          (case slot_staged s of
             None \<Rightarrow> (Err (NoStagedPackage plugin_id), r)
           | Some staged \<Rightarrow>
               (Ok (), r\<lparr>slots := bt_insert plugin_id
                  (s\<lparr>slot_staged := None, slot_active := Some staged,
                     slot_rollback := slot_active s\<rparr>) (slots r)\<rparr>)))"

definition discard_staged ::
  "string \<Rightarrow> plugin_registry \<Rightarrow> (unit, plugin_registry_error) outcome \<times> plugin_registry" where
  "discard_staged plugin_id r =
     (case bt_get (slots r) plugin_id of
        None \<Rightarrow> (Err (UnknownPlugin plugin_id), r)
      | Some s \<Rightarrow>
          if slot_staged s = None then (Err (NoStagedPackage plugin_id), r)
          else (Ok (), r\<lparr>slots := bt_insert plugin_id (s\<lparr>slot_staged := None\<rparr>) (slots r)\<rparr>))"

definition rollback ::
  "string \<Rightarrow> plugin_registry \<Rightarrow> (unit, plugin_registry_error) outcome \<times> plugin_registry" where
  "rollback plugin_id r =
     (case bt_get (slots r) plugin_id of
        None \<Rightarrow> (Err (UnknownPlugin plugin_id), r)
      | Some s \<Rightarrow>
          (case slot_rollback s of
             None \<Rightarrow> (Err (NoRollbackTarget plugin_id), r)
           | Some target \<Rightarrow>
               (Ok (), r\<lparr>slots := bt_insert plugin_id
                  (s\<lparr>slot_staged := None, slot_active := Some target,
                     slot_rollback := slot_active s\<rparr>) (slots r)\<rparr>)))"

section \<open>Snapshots\<close>

fun validate_restored_packages ::
  "api_version \<Rightarrow> string \<Rightarrow> plugin_slot \<Rightarrow> plugin_package_record list
    \<Rightarrow> (unit, plugin_registry_error) outcome" where
  "validate_restored_packages host plugin_id s [] = Ok ()"
| "validate_restored_packages host plugin_id s (p # ps) =
     (if pm_id (manifest p) \<noteq> plugin_id
      then Err (RestoredPluginIdMismatch plugin_id (pm_id (manifest p)))
      else case validate_for_host (manifest p) host of
        Err e \<Rightarrow> Err (ManifestError e) | Panic \<Rightarrow> Panic
      | Ok _ \<Rightarrow>
          (case bt_get (known_versions s) (pm_version (manifest p)) of
             None \<Rightarrow> Err (MissingKnownVersionIdentity plugin_id (pm_version (manifest p)))
           | Some known \<Rightarrow>
               if known \<noteq> digest p
               then Err (VersionDigestMismatch plugin_id (pm_version (manifest p)) known (digest p))
               else validate_restored_packages host plugin_id s ps))"

definition validate_restored_slot ::
  "api_version \<Rightarrow> string \<Rightarrow> plugin_slot \<Rightarrow> (unit, plugin_registry_error) outcome" where
  "validate_restored_slot host plugin_id s =
     (if slot_is_empty s then Err (EmptyRestoredSlot plugin_id)
      else if \<not> is_canonical_plugin_id plugin_id then Err (InvalidRestoredPluginId plugin_id)
      else if list_ex (\<lambda>(v, _). trim_is_empty v) (known_versions s)
      then Err (EmptyKnownVersion plugin_id)
      else case validate_restored_packages host plugin_id s (slot_packages s) of
        Err e \<Rightarrow> Err e | Panic \<Rightarrow> Panic
      | Ok _ \<Rightarrow>
          (case (slot_active s, slot_staged s) of
             (Some active, Some staged) \<Rightarrow>
               if active = staged
               then Err (PackageAlreadyActive plugin_id (pm_version (manifest active))) else Ok ()
           | _ \<Rightarrow> Ok ()))"

fun validate_restored_slots ::
  "api_version \<Rightarrow> (string, plugin_slot) btree \<Rightarrow> (unit, plugin_registry_error) outcome" where
  "validate_restored_slots host [] = Ok ()"
| "validate_restored_slots host ((i, s) # rest) =
     (case validate_restored_slot host i s of
        Err e \<Rightarrow> Err e | Panic \<Rightarrow> Panic | Ok _ \<Rightarrow> validate_restored_slots host rest)"

definition from_snapshot ::
  "api_version \<Rightarrow> plugin_registry_snapshot \<Rightarrow> (plugin_registry, plugin_registry_error) outcome" where
  "from_snapshot host sn =
     (if sn_schema_version sn \<noteq> PLUGIN_REGISTRY_SCHEMA_VERSION
      then Err (UnsupportedRegistrySchema (sn_schema_version sn) PLUGIN_REGISTRY_SCHEMA_VERSION)
      else case validate_restored_slots host (sn_slots sn) of
        Err e \<Rightarrow> Err e | Panic \<Rightarrow> Panic
      | Ok _ \<Rightarrow> Ok \<lparr>host_api = host, slots = sn_slots sn\<rparr>)"

definition registry_snapshot :: "plugin_registry \<Rightarrow> plugin_registry_snapshot" where
  "registry_snapshot r =
     \<lparr>sn_schema_version = PLUGIN_REGISTRY_SCHEMA_VERSION, host_api_at_write = host_api r,
      sn_slots = slots r\<rparr>"

section \<open>Runs\<close>

text \<open>
  A client builds a package from a manifest and a digest string and stages it, or calls one of
  the other operations.
\<close>

datatype registry_op =
    RegStage plugin_manifest string
  | RegCommit string
  | RegDiscard string
  | RegRollback string

fun registry_step ::
  "registry_op \<Rightarrow> plugin_registry \<Rightarrow> (unit, plugin_registry_error) outcome \<times> plugin_registry" where
  "registry_step (RegStage m d) r =
     (case package_record_new m d of
        Err e \<Rightarrow> (Err e, r) | Panic \<Rightarrow> (Panic, r) | Ok p \<Rightarrow> stage p r)"
| "registry_step (RegCommit i) r = commit_staged i r"
| "registry_step (RegDiscard i) r = discard_staged i r"
| "registry_step (RegRollback i) r = rollback i r"

definition registry_run :: "registry_op list \<Rightarrow> plugin_registry \<Rightarrow> plugin_registry" where
  "registry_run ops r = fold (\<lambda>op r. snd (registry_step op r)) ops r"

section \<open>Invariant\<close>

definition package_ok :: "api_version \<Rightarrow> string \<Rightarrow> (string, package_digest) btree \<Rightarrow> plugin_package_record \<Rightarrow> bool" where
  "package_ok host k known p \<longleftrightarrow>
     pm_id (manifest p) = k \<and> manifest_ok (manifest p) host
     \<and> bt_get known (pm_version (manifest p)) = Some (digest p)
     \<and> is_canonical_sha256 (digest_str (digest p))"

definition slot_ok :: "api_version \<Rightarrow> string \<Rightarrow> plugin_slot \<Rightarrow> bool" where
  "slot_ok host k s \<longleftrightarrow>
     is_canonical_plugin_id k \<and> known_versions s \<noteq> [] \<and> bt_wf (known_versions s)
     \<and> (\<forall>v d. bt_get (known_versions s) v = Some d \<longrightarrow> \<not> trim_is_empty v)
     \<and> (\<forall>p\<in>set (slot_packages s). package_ok host k (known_versions s) p)
     \<and> (\<forall>p. slot_staged s = Some p \<longrightarrow> \<not> same_package (slot_active s) p)"

definition registry_inv :: "plugin_registry \<Rightarrow> bool" where
  "registry_inv r \<longleftrightarrow> bt_wf (slots r)
     \<and> (\<forall>k s. bt_get (slots r) k = Some s \<longrightarrow> slot_ok (host_api r) k s)"

lemma in_option_list [simp]: "x \<in> set (option_list a) \<longleftrightarrow> a = Some x"
  by (cases a) auto

lemma in_slot_packages:
  "p \<in> set (slot_packages s) \<longleftrightarrow>
     slot_active s = Some p \<or> slot_staged s = Some p \<or> slot_rollback s = Some p"
  by (auto simp: slot_packages_def)

lemma registry_inv_update:
  assumes "registry_inv r" and "slot_ok (host_api r) k s"
  shows "registry_inv (r\<lparr>slots := bt_insert k s (slots r)\<rparr>)"
  using assms by (auto simp: registry_inv_def bt_get_insert)

lemma registry_inv_slot: "registry_inv r \<Longrightarrow> bt_get (slots r) k = Some s \<Longrightarrow> slot_ok (host_api r) k s"
  by (simp add: registry_inv_def)

text \<open>What an admission did, when \<open>stage\<close> accepts.\<close>

definition slot_before :: "string \<Rightarrow> plugin_registry \<Rightarrow> plugin_slot" where
  "slot_before k r = (case bt_get (slots r) k of Some s \<Rightarrow> s | None \<Rightarrow> slot_default)"

definition remember :: "plugin_package_record \<Rightarrow> (string, package_digest) btree \<Rightarrow> (string, package_digest) btree" where
  "remember p known =
     (case bt_get known (pm_version (manifest p)) of
        Some _ \<Rightarrow> known | None \<Rightarrow> bt_insert (pm_version (manifest p)) (digest p) known)"

definition admitted :: "plugin_package_record \<Rightarrow> plugin_registry \<Rightarrow> plugin_slot" where
  "admitted p r = (slot_before (pm_id (manifest p)) r)
     \<lparr>known_versions := remember p (known_versions (slot_before (pm_id (manifest p)) r)),
      slot_staged := Some p\<rparr>"

lemma stage_Ok:
  "stage p r = (Ok (), r') \<longleftrightarrow>
     manifest_ok (manifest p) (host_api r)
     \<and> bt_get (known_versions (slot_before (pm_id (manifest p)) r)) (pm_version (manifest p))
         \<in> {None, Some (digest p)}
     \<and> \<not> same_package (slot_active (slot_before (pm_id (manifest p)) r)) p
     \<and> slot_staged (slot_before (pm_id (manifest p)) r) = None
     \<and> r' = r\<lparr>slots := bt_insert (pm_id (manifest p)) (admitted p r) (slots r)\<rparr>"
proof (cases "manifest_ok (manifest p) (host_api r)")
  case True
  then show ?thesis
    by (cases "bt_get (slots r) (pm_id (manifest p))")
      (auto simp: stage_def validate_for_host_iff [THEN iffD2] Let_def slot_before_def admitted_def
        remember_def slot_default_def same_package_def ensure_known_version_consistency_def bt_get_def
        split: option.splits if_splits)
next
  case False
  then show ?thesis
    using validate_for_host_iff [of "manifest p" "host_api r"] by (auto simp: stage_def split: outcome.splits)
qed

lemma stage_atomic: "atomic_call r (stage p r)"
  by (simp add: stage_def Let_def ensure_known_version_consistency_def split: outcome_split)

lemma remember_get:
  "bt_get (remember p known) v =
     (if v = pm_version (manifest p) \<and> bt_get known v = None then Some (digest p) else bt_get known v)"
  by (auto simp: remember_def bt_get_insert split: option.split)

lemma remember_wf: "bt_wf known \<Longrightarrow> bt_wf (remember p known)"
  by (simp add: remember_def split: option.split)

lemma remember_not_Nil: "remember p known \<noteq> []"
  using remember_get [of p known "pm_version (manifest p)"]
  by (auto simp: bt_get_def split: if_splits)

lemma package_ok_remember:
  "package_ok host k known p \<Longrightarrow> package_ok host k (remember q known) p"
  by (auto simp: package_ok_def remember_get)

lemma stage_inv:
  assumes inv: "registry_inv r" and dg: "is_canonical_sha256 (digest_str (digest p))"
    and st: "stage p r = (Ok (), r')"
  shows "registry_inv r'"
proof -
  note ok = st [unfolded stage_Ok]
  let ?k = "pm_id (manifest p)"
  have before: "slot_before ?k r = slot_default \<or> slot_ok (host_api r) ?k (slot_before ?k r)"
    using registry_inv_slot [OF inv] by (auto simp: slot_before_def split: option.split)
  have p: "package_ok (host_api r) ?k (remember p (known_versions (slot_before ?k r))) p"
    using ok dg by (auto simp: package_ok_def remember_get)
  have old: "package_ok (host_api r) ?k (remember p (known_versions (slot_before ?k r))) q"
    if "q \<in> set (slot_packages (slot_before ?k r))" for q
    using before that by (auto simp: slot_ok_def slot_default_def in_slot_packages package_ok_remember)
  have "slot_ok (host_api r) ?k (admitted p r)"
    using ok before p old
    by (auto simp: slot_ok_def admitted_def in_slot_packages remember_wf remember_not_Nil remember_get
        manifest_ok_def slot_default_def bt_get_def [of "[]"] split: if_splits)
  with inv ok show ?thesis by (auto intro: registry_inv_update)
qed

lemma commit_inv: "registry_inv r \<Longrightarrow> registry_inv (snd (commit_staged k r))"
  by (auto simp: commit_staged_def slot_ok_def in_slot_packages dest!: registry_inv_slot
      intro!: registry_inv_update split: option.split)

lemma discard_inv: "registry_inv r \<Longrightarrow> registry_inv (snd (discard_staged k r))"
  by (auto simp: discard_staged_def slot_ok_def in_slot_packages dest!: registry_inv_slot
      intro!: registry_inv_update split: option.split)

lemma rollback_inv: "registry_inv r \<Longrightarrow> registry_inv (snd (rollback k r))"
  by (auto simp: rollback_def slot_ok_def in_slot_packages dest!: registry_inv_slot
      intro!: registry_inv_update split: option.split)

lemma package_record_new_Ok:
  "package_record_new m d = Ok p \<longleftrightarrow> is_canonical_sha256 d \<and> p = \<lparr>manifest = m, digest = PackageDigest d\<rparr>"
  by (auto simp: package_record_new_def digest_parse_def)

lemma package_record_new_no_panic: "package_record_new m d \<noteq> Panic"
  by (simp add: package_record_new_def digest_parse_def)

lemma registry_step_atomic: "atomic_call r (registry_step op r)"
  by (cases op)
    (auto simp: commit_staged_def discard_staged_def rollback_def package_record_new_no_panic
      stage_atomic split: outcome.split option.split)

lemma registry_step_inv: "registry_inv r \<Longrightarrow> registry_inv (snd (registry_step op r))"
proof (cases op)
  case (RegStage m d)
  assume inv: "registry_inv r"
  show ?thesis
  proof (cases "fst (registry_step op r)")
    case (Ok u)
    then obtain p where p: "package_record_new m d = Ok p" and st: "fst (stage p r) = Ok ()"
      using RegStage by (auto split: outcome.splits)
    then have "stage p r = (Ok (), snd (registry_step op r))" using RegStage by (simp add: prod_eq_iff)
    from stage_inv [OF inv _ this] p show ?thesis by (auto simp: package_record_new_Ok)
  next
    case (Err e)
    then have "snd (registry_step op r) = r"
      using registry_step_atomic [of r op] by (simp add: atomic_call_def)
    with inv show ?thesis by simp
  next
    case Panic
    then show ?thesis using registry_step_atomic [of r op] by (simp add: atomic_call_def)
  qed
qed (simp_all add: commit_inv discard_inv rollback_inv)

lemma registry_run_inv: "registry_inv r \<Longrightarrow> registry_inv (registry_run ops r)"
  by (induction ops arbitrary: r) (simp_all add: registry_run_def registry_step_inv)

lemma registry_new_inv: "registry_inv (registry_new host)"
  by (simp add: registry_inv_def registry_new_def bt_get_def)

lemma registry_step_host [simp]: "host_api (snd (registry_step op r)) = host_api r"
  by (cases op) (auto simp: stage_def Let_def ensure_known_version_consistency_def commit_staged_def
      discard_staged_def rollback_def split: outcome.split option.split)

lemma registry_run_host [simp]: "host_api (registry_run ops r) = host_api r"
  by (induction ops arbitrary: r) (simp_all add: registry_run_def)

section \<open>Memory of digests, and restoring\<close>

definition remembered :: "string \<Rightarrow> string \<Rightarrow> plugin_registry \<Rightarrow> package_digest option" where
  "remembered k v r = Option.bind (registry_slot k r) (\<lambda>s. known_digest s v)"

lemma remembered_step:
  "remembered k v r = Some d \<Longrightarrow> remembered k v (snd (registry_step op r)) = Some d"
proof (cases op)
  case (RegStage m dg)
  assume d: "remembered k v r = Some d"
  show ?thesis
  proof (cases "fst (registry_step op r)")
    case (Ok u)
    then obtain p where "stage p r = (Ok (), snd (registry_step op r))"
      using RegStage by (auto simp: prod_eq_iff split: outcome.splits)
    then have "snd (registry_step op r) = r\<lparr>slots := bt_insert (pm_id (manifest p)) (admitted p r) (slots r)\<rparr>"
      by (simp add: stage_Ok)
    with d show ?thesis
      by (auto simp: remembered_def registry_slot_def known_digest_def bt_get_insert admitted_def slot_before_def remember_get
          bind_eq_Some_conv)
  next
    case (Err e)
    then show ?thesis using registry_step_atomic [of r op] d by (simp add: atomic_call_def)
  next
    case Panic
    then show ?thesis using registry_step_atomic [of r op] by (simp add: atomic_call_def)
  qed
qed (auto simp: remembered_def registry_slot_def known_digest_def commit_staged_def discard_staged_def rollback_def bt_get_insert
    bind_eq_Some_conv split: option.splits if_splits)

lemma remembered_run:
  "remembered k v r = Some d \<Longrightarrow> remembered k v (registry_run ops r) = Some d"
  by (induction ops arbitrary: r) (simp_all add: registry_run_def remembered_step)

lemma package_remembered:
  assumes "registry_inv r" and "registry_slot k r = Some s" and "p \<in> set (slot_packages s)"
  shows "remembered k (pm_version (manifest p)) r = Some (digest p)"
  using registry_inv_slot [OF assms(1), of k s] assms(2,3)
  by (simp add: slot_ok_def package_ok_def remembered_def registry_slot_def known_digest_def)

lemma validate_restored_packages_Ok:
  "(\<And>p. p \<in> set ps \<Longrightarrow> pm_id (manifest p) = k \<and> manifest_ok (manifest p) host
       \<and> bt_get (known_versions s) (pm_version (manifest p)) = Some (digest p))
     \<Longrightarrow> validate_restored_packages host k s ps = Ok ()"
  by (induction ps) (auto simp: validate_for_host_iff [THEN iffD2])

lemma validate_restored_slot_Ok:
  assumes "slot_ok host k s"
  shows "validate_restored_slot host k s = Ok ()"
proof -
  have "validate_restored_packages host k s (slot_packages s) = Ok ()"
    using assms by (intro validate_restored_packages_Ok) (auto simp: slot_ok_def package_ok_def)
  moreover have "\<not> list_ex (\<lambda>(v, _). trim_is_empty v) (known_versions s)"
    using assms by (auto simp: slot_ok_def list_ex_iff bt_get_in_set)
  moreover have "slot_active s \<noteq> slot_staged s \<or> slot_active s = None"
    using assms by (auto simp: slot_ok_def same_package_def)
  ultimately show ?thesis
    using assms
    by (auto simp: validate_restored_slot_def slot_ok_def slot_is_empty_def split: option.split)
qed

lemma validate_restored_slots_Ok:
  "(\<And>k s. (k, s) \<in> set m \<Longrightarrow> slot_ok host k s) \<Longrightarrow> validate_restored_slots host m = Ok ()"
  by (induction m) (auto simp: validate_restored_slot_Ok)

lemma from_snapshot_inv: "registry_inv r \<Longrightarrow> from_snapshot (host_api r) (registry_snapshot r) = Ok r"
proof -
  assume inv: "registry_inv r"
  then have "validate_restored_slots (host_api r) (slots r) = Ok ()"
    by (intro validate_restored_slots_Ok) (auto simp: registry_inv_def bt_get_in_set)
  then show ?thesis by (simp add: from_snapshot_def registry_snapshot_def)
qed

section \<open>Properties\<close>

definition digest_a :: string where "digest_a = replicate 64 (CHR ''a'')"
definition digest_b :: string where "digest_b = replicate 64 (CHR ''b'')"

definition demo_package :: "string \<Rightarrow> string \<Rightarrow> plugin_package_record" where
  "demo_package v d = \<lparr>manifest = demo_manifest v, digest = PackageDigest d\<rparr>"

definition demo_registry :: plugin_registry where
  "demo_registry = registry_run [RegStage (demo_manifest ''1'') digest_a,
     RegCommit ''org.aurora.spotify''] (registry_new HOST_PLUGIN_API_VERSION)"

lemma digests_canonical: "is_canonical_sha256 digest_a" "is_canonical_sha256 digest_b"
  by (simp_all add: digest_a_def digest_b_def is_canonical_sha256_def byte_def is_ascii_digit_def
      list_all_iff)

lemma versions_named: "\<not> trim_is_empty ''1''" "\<not> trim_is_empty ''2''"
  by (simp_all add: ws1_def byte_def)

lemma demo_registry_slots: "slots demo_registry =
    [(''org.aurora.spotify'', \<lparr>slot_active = Some (demo_package ''1'' digest_a), slot_staged = None,
        slot_rollback = None, known_versions = [(''1'', PackageDigest digest_a)]\<rparr>)]"
  and demo_registry_host: "host_api demo_registry = HOST_PLUGIN_API_VERSION"
proof -
  have v: "validate_for_host (demo_manifest ''1'') HOST_PLUGIN_API_VERSION = Ok ()"
    by (simp add: validate_for_host_iff demo_manifest_ok [OF versions_named(1)])
  have id: "pm_id (demo_manifest ''1'') = ''org.aurora.spotify''" "pm_version (demo_manifest ''1'') = ''1''"
    by (simp_all add: demo_manifest_def)
  have p: "package_record_new (demo_manifest ''1'') digest_a = Ok (demo_package ''1'' digest_a)"
    by (simp add: package_record_new_Ok digests_canonical demo_package_def)
  show "slots demo_registry =
    [(''org.aurora.spotify'', \<lparr>slot_active = Some (demo_package ''1'' digest_a), slot_staged = None,
        slot_rollback = None, known_versions = [(''1'', PackageDigest digest_a)]\<rparr>)]"
    by (simp add: demo_registry_def registry_run_def p stage_def demo_package_def v id registry_new_def
        bt_get_def slot_default_def commit_staged_def)
  show "host_api demo_registry = HOST_PLUGIN_API_VERSION"
    by (simp add: demo_registry_def) (simp add: registry_new_def)
qed

definition demo_updated :: plugin_registry where
  "demo_updated = registry_run [RegStage (demo_manifest ''2'') digest_b,
     RegCommit ''org.aurora.spotify''] demo_registry"

lemma demo_stage:
  "stage (demo_package ''2'' digest_b) demo_registry = (Ok (), demo_registry\<lparr>slots :=
     [(''org.aurora.spotify'', \<lparr>slot_active = Some (demo_package ''1'' digest_a),
        slot_staged = Some (demo_package ''2'' digest_b), slot_rollback = None,
        known_versions = [(''1'', PackageDigest digest_a), (''2'', PackageDigest digest_b)]\<rparr>)]\<rparr>)"
proof -
  have "validate_for_host (demo_manifest ''2'') HOST_PLUGIN_API_VERSION = Ok ()"
    by (simp add: validate_for_host_iff demo_manifest_ok [OF versions_named(2)])
  then show ?thesis
    by (simp add: stage_def demo_registry_slots demo_registry_host demo_package_def Let_def bt_get_def
        ensure_known_version_consistency_def same_package_def) (simp add: demo_manifest_def)
qed

lemma demo_updated_slots: "slots demo_updated =
    [(''org.aurora.spotify'', \<lparr>slot_active = Some (demo_package ''2'' digest_b), slot_staged = None,
        slot_rollback = Some (demo_package ''1'' digest_a),
        known_versions = [(''1'', PackageDigest digest_a), (''2'', PackageDigest digest_b)]\<rparr>)]"
proof -
  have "package_record_new (demo_manifest ''2'') digest_b = Ok (demo_package ''2'' digest_b)"
    by (simp add: package_record_new_Ok digests_canonical demo_package_def)
  then show ?thesis
    by (simp add: demo_updated_def registry_run_def demo_stage commit_staged_def bt_get_def)
qed

text \<open>
  one version, one digest, for ever.  Whatever is staged, committed, discarded or rolled back
  in between, two packages of the same plugin and version that a registry ever holds, in any
  slot and at any two moments, have the same digest.
\<close>

theorem registry_versions_immutable:
  assumes "r1 = registry_run ops1 (registry_new host)" and "r2 = registry_run ops2 r1"
    and "registry_slot k r1 = Some s1" and "p1 \<in> set (slot_packages s1)"
    and "registry_slot k r2 = Some s2" and "p2 \<in> set (slot_packages s2)"
    and "pm_version (manifest p1) = pm_version (manifest p2)"
  shows "digest p1 = digest p2"
proof -
  have inv: "registry_inv r1" "registry_inv r2"
    by (simp_all add: assms(1,2) registry_run_inv registry_new_inv)
  have "remembered k (pm_version (manifest p1)) r2 = Some (digest p1)"
    using package_remembered [OF inv(1) assms(3,4)] assms(2) by (simp add: remembered_run)
  with package_remembered [OF inv(2) assms(5,6)] assms(7) show ?thesis by simp
qed

theorem registry_versions_immutable_witness:
  "digest (the (slot_active (the (registry_slot ''org.aurora.spotify'' demo_registry))))
     = digest (the (slot_rollback (the (registry_slot ''org.aurora.spotify'' demo_updated))))"
proof -
  let ?k = "''org.aurora.spotify''"
  obtain s1 s2 where s: "registry_slot ?k demo_registry = Some s1"
    "slot_active s1 = Some (demo_package ''1'' digest_a)"
    "registry_slot ?k demo_updated = Some s2" "slot_rollback s2 = Some (demo_package ''1'' digest_a)"
    by (simp add: registry_slot_def demo_registry_slots demo_updated_slots bt_get_def)
  from registry_versions_immutable [OF demo_registry_def demo_updated_def s(1) _ s(3), of
      "the (slot_active s1)" "the (slot_rollback s2)"] s
  show ?thesis by (simp add: in_slot_packages)
qed

text \<open>
  C13: snapshots lose nothing.  Every reachable registry passes the revalidation of its own
  snapshot for the same host, and what is restored is the registry itself.
\<close>

theorem registry_snapshot_roundtrip:
  "let r = registry_run ops (registry_new host) in
     from_snapshot host (registry_snapshot r) = Ok r"
  using from_snapshot_inv [OF registry_run_inv [OF registry_new_inv], of ops host]
  by (simp add: Let_def) (simp add: registry_new_def)

text \<open>
  update, rollback and roll-forward.  On a reachable registry, committing an accepted package
  makes it active and keeps the previous one; \<open>rollback\<close> brings exactly the previous package
  back, a second one returns to the state after the commit, no step touches another plugin, and
  staging alone never changes what is active.
\<close>

theorem registry_update_rollback:
  assumes "stage p r = (Ok (), r1)" and "k = pm_id (manifest p)"
    and "slot_active (slot_before k r) = Some old"
    and "r2 = snd (commit_staged k r1)" and "r3 = snd (rollback k r2)" and "r4 = snd (rollback k r3)"
  shows "fst (commit_staged k r1) = Ok () \<and> fst (rollback k r2) = Ok () \<and> fst (rollback k r3) = Ok ()
    \<and> slot_active (slot_before k r1) = Some old
    \<and> slot_active (slot_before k r2) = Some p \<and> slot_rollback (slot_before k r2) = Some old
    \<and> slot_active (slot_before k r3) = Some old \<and> slot_rollback (slot_before k r3) = Some p
    \<and> slot_before k r4 = slot_before k r2
    \<and> (\<forall>j. j \<noteq> k \<longrightarrow> registry_slot j r4 = registry_slot j r)"
  using assms
  by (auto simp: stage_Ok commit_staged_def rollback_def bt_get_insert slot_before_def admitted_def
      registry_slot_def)

theorem registry_update_rollback_witness:
  "slot_before ''org.aurora.spotify''
       (snd (rollback ''org.aurora.spotify'' (snd (rollback ''org.aurora.spotify'' demo_updated))))
     = slot_before ''org.aurora.spotify'' demo_updated"
proof -
  have k: "''org.aurora.spotify'' = pm_id (manifest (demo_package ''2'' digest_b))"
    by (simp add: demo_package_def demo_manifest_def)
  have up: "demo_updated = snd (commit_staged ''org.aurora.spotify'' (demo_registry\<lparr>slots :=
     [(''org.aurora.spotify'', \<lparr>slot_active = Some (demo_package ''1'' digest_a),
        slot_staged = Some (demo_package ''2'' digest_b), slot_rollback = None,
        known_versions = [(''1'', PackageDigest digest_a), (''2'', PackageDigest digest_b)]\<rparr>)]\<rparr>))"
    using demo_stage
    by (simp add: demo_updated_def registry_run_def package_record_new_Ok [THEN iffD2] digests_canonical
        demo_package_def)
  have "slot_active (slot_before ''org.aurora.spotify'' demo_registry) = Some (demo_package ''1'' digest_a)"
    by (simp add: slot_before_def demo_registry_slots bt_get_def)
  from registry_update_rollback [OF demo_stage k this up refl refl] show ?thesis by simp
qed

end
