(* ===== verification/Source_Manager.thy ===== *)
theory Source_Manager
  imports Plugin_Manifest
begin

text \<open>
  Source arbitration, \<open>src/crates/aurora-plugin-api/src/source_manager.rs\<close>: registration with
  generations, preparation, activation of one source, transport intents, and the choice of the
  preferred prepared candidate.
\<close>

section \<open>Data\<close>

definition SOURCE_MANAGER_SCHEMA_VERSION :: u16 where
  "SOURCE_MANAGER_SCHEMA_VERSION = 1"

datatype source_kind = LocalMedia | ProviderControl | NetworkMedia | LiveInput | TvEarc

datatype source_state =
  Registered | Available | Preparing | Active | Paused | Draining | Failed | Stopped

datatype playable_media_ref =
    LocalFile string
  | NetworkUrl string
  | ProviderResolved string string
  | LiveEndpoint string
  | TvEarcInput string

record source_metadata =
  title :: "string option"
  artist :: "string option"
  album :: "string option"
  artwork_ref :: "string option"

record source_capabilities =
  can_seek :: bool
  can_next :: bool
  can_previous :: bool
  can_pause :: bool
  codec_hint :: "string option"
  channel_layout_hint :: "string option"
  sample_rate_hz :: "u32 option"

record source_authorization =
  principal_id :: string
  permissions :: "plugin_permission list"
  builtin_trusted :: bool

record source_session_id =
  ss_source_id :: string
  ss_generation :: u64

record source_registration =
  sr_schema_version :: u16
  source_id :: string
  provider_id :: string
  kind :: source_kind
  priority :: u16
  authorization :: source_authorization

record prepared_source =
  session :: source_session_id
  media :: playable_media_ref
  metadata :: source_metadata
  ps_capabilities :: source_capabilities

datatype transport_intent = Play | Pause | Resume | SeekMillis u64 | Next | Previous | Stop

record source_record =
  registration :: source_registration
  generation :: u64
  state :: source_state
  prepared :: "prepared_source option"
  last_error :: "string option"

record source_manager =
  sources :: "(string, source_record) btree"
  active :: "source_session_id option"

text \<open>The rendering of an invalid reference in its error message is the reference itself.\<close>

datatype source_manager_error =
    UnsupportedSchema u16 u16
  | InvalidSourceId string
  | InvalidProviderId string
  | SourceAlreadyRegistered string
  | UnknownSource string
  | GenerationExhausted string
  | StaleGeneration string u64 u64
  | PlaybackControlDenied string
  | SourceNotPrepared string
  | NoActiveSource
  | StaleOrInactiveSession string u64
  | UnsupportedTransport transport_intent
  | InvalidMediaReference playable_media_ref

section \<open>Validation\<close>

definition permits_playback_control :: "source_authorization \<Rightarrow> bool" where
  "permits_playback_control a \<longleftrightarrow>
     builtin_trusted a \<or> PlaybackControlPermission \<in> set (permissions a)"

definition is_canonical_id :: "string \<Rightarrow> bool" where
  "is_canonical_id v \<longleftrightarrow>
     v \<noteq> [] \<and> list_all (\<lambda>b. is_ascii_lowercase b \<or> is_ascii_digit b
                          \<or> b = CHR ''.'' \<or> b = CHR ''-'' \<or> b = CHR ''_'') v
     \<and> is_ascii_alphanumeric (hd v) \<and> is_ascii_alphanumeric (last v)"

definition validate_registration ::
  "source_registration \<Rightarrow> (unit, source_manager_error) outcome" where
  "validate_registration r =
     (if sr_schema_version r \<noteq> SOURCE_MANAGER_SCHEMA_VERSION
      then Err (UnsupportedSchema (sr_schema_version r) SOURCE_MANAGER_SCHEMA_VERSION)
      else if \<not> is_canonical_id (source_id r) then Err (InvalidSourceId (source_id r))
      else if \<not> is_canonical_id (provider_id r) then Err (InvalidProviderId (provider_id r))
      else Ok ())"

definition to_ascii_lowercase :: "string \<Rightarrow> string" where
  "to_ascii_lowercase =
     map (\<lambda>c. if is_ascii_uppercase c then char_of (byte c + 32) else c)"

definition media_invalid :: "playable_media_ref \<Rightarrow> bool" where
  "media_invalid m =
     (case m of
        LocalFile path \<Rightarrow> trim_is_empty path
      | NetworkUrl url \<Rightarrow>
          (let lower = to_ascii_lowercase url
           in \<not> (starts_with ''https://'' lower \<or> starts_with ''http://'' lower))
      | ProviderResolved provider mid \<Rightarrow> \<not> is_canonical_id provider \<or> trim_is_empty mid
      | LiveEndpoint e \<Rightarrow> trim_is_empty e
      | TvEarcInput i \<Rightarrow> trim_is_empty i)"

definition validate_media_ref ::
  "playable_media_ref \<Rightarrow> (unit, source_manager_error) outcome" where
  "validate_media_ref m = (if media_invalid m then Err (InvalidMediaReference m) else Ok ())"

definition ensure_generation ::
  "source_record \<Rightarrow> source_session_id \<Rightarrow> (unit, source_manager_error) outcome" where
  "ensure_generation r s =
     (if generation r \<noteq> ss_generation s
      then Err (StaleGeneration (ss_source_id s) (ss_generation s) (generation r)) else Ok ())"

definition record_for_session ::
  "source_session_id \<Rightarrow> source_manager \<Rightarrow> (source_record, source_manager_error) outcome" where
  "record_for_session s m =
     (case bt_get (sources m) (ss_source_id s) of
        None \<Rightarrow> Err (UnknownSource (ss_source_id s))
      | Some r \<Rightarrow>
          (case ensure_generation r s of Err e \<Rightarrow> Err e | Panic \<Rightarrow> Panic | Ok _ \<Rightarrow> Ok r))"

section \<open>Operations\<close>

definition source_manager_new :: source_manager where
  "source_manager_new = \<lparr>sources = [], active = None\<rparr>"

definition put_record :: "string \<Rightarrow> source_record \<Rightarrow> source_manager \<Rightarrow> source_manager" where
  "put_record i r m = m\<lparr>sources := bt_insert i r (sources m)\<rparr>"

definition register_source ::
  "source_registration \<Rightarrow> source_manager
    \<Rightarrow> (source_session_id, source_manager_error) outcome \<times> source_manager" where
  "register_source reg m =
     (case validate_registration reg of
        Err e \<Rightarrow> (Err e, m) | Panic \<Rightarrow> (Panic, m)
      | Ok _ \<Rightarrow>
          if bt_get (sources m) (source_id reg) \<noteq> None
          then (Err (SourceAlreadyRegistered (source_id reg)), m)
          else (Ok \<lparr>ss_source_id = source_id reg, ss_generation = 1\<rparr>,
                put_record (source_id reg)
                  \<lparr>registration = reg, generation = 1, state = Available, prepared = None,
                   last_error = None\<rparr> m))"

definition replace_registration ::
  "source_registration \<Rightarrow> source_manager
    \<Rightarrow> (source_session_id, source_manager_error) outcome \<times> source_manager" where
  "replace_registration reg m =
     (case validate_registration reg of
        Err e \<Rightarrow> (Err e, m) | Panic \<Rightarrow> (Panic, m)
      | Ok _ \<Rightarrow>
          (case bt_get (sources m) (source_id reg) of
             None \<Rightarrow> (Err (UnknownSource (source_id reg)), m)
           | Some previous \<Rightarrow>
               (case checked_add (generation previous) 1 of
                  None \<Rightarrow> (Err (GenerationExhausted (source_id reg)), m)
                | Some gen \<Rightarrow>
                    let m1 = (if is_some_and (\<lambda>a. ss_source_id a = source_id reg) (active m)
                              then m\<lparr>active := None\<rparr> else m)
                    in (Ok \<lparr>ss_source_id = source_id reg, ss_generation = gen\<rparr>,
                        put_record (source_id reg)
                          \<lparr>registration = reg, generation = gen, state = Available,
                           prepared = None, last_error = None\<rparr> m1))))"

definition prepare_source ::
  "source_session_id \<Rightarrow> playable_media_ref \<Rightarrow> source_metadata \<Rightarrow> source_capabilities
    \<Rightarrow> source_manager \<Rightarrow> (prepared_source, source_manager_error) outcome \<times> source_manager" where
  "prepare_source s md meta caps m =
     (case validate_media_ref md of
        Err e \<Rightarrow> (Err e, m) | Panic \<Rightarrow> (Panic, m)
      | Ok _ \<Rightarrow>
          (case record_for_session s m of
             Err e \<Rightarrow> (Err e, m) | Panic \<Rightarrow> (Panic, m)
           | Ok r \<Rightarrow>
               if \<not> permits_playback_control (authorization (registration r))
               then (Err (PlaybackControlDenied (principal_id (authorization (registration r)))), m)
               else let p = \<lparr>session = s, media = md, metadata = meta, ps_capabilities = caps\<rparr>
                    in (Ok p, put_record (ss_source_id s)
                          (r\<lparr>last_error := None, prepared := Some p, state := Available\<rparr>) m)))"

definition fail_prepare ::
  "source_session_id \<Rightarrow> string \<Rightarrow> source_manager
    \<Rightarrow> (unit, source_manager_error) outcome \<times> source_manager" where
  "fail_prepare s detail m =
     (case record_for_session s m of
        Err e \<Rightarrow> (Err e, m) | Panic \<Rightarrow> (Panic, m)
      | Ok r \<Rightarrow> (Ok (), put_record (ss_source_id s)
                   (r\<lparr>state := Failed, prepared := None, last_error := Some detail\<rparr>) m))"

definition drain_previous :: "source_session_id \<Rightarrow> source_manager \<Rightarrow> source_manager" where
  "drain_previous s m =
     (case active m of
        None \<Rightarrow> m
      | Some previous \<Rightarrow>
          if previous \<noteq> s
          then (case record_for_session previous m of
                  Ok old \<Rightarrow> put_record (ss_source_id previous) (old\<lparr>state := Draining\<rparr>) m
                | _ \<Rightarrow> m)
          else m)"

definition activate ::
  "source_session_id \<Rightarrow> source_manager
    \<Rightarrow> (unit, source_manager_error) outcome \<times> source_manager" where
  "activate s m =
     (case record_for_session s m of
        Err e \<Rightarrow> (Err e, m) | Panic \<Rightarrow> (Panic, m)
      | Ok r0 \<Rightarrow>
          if prepared r0 = None then (Err (SourceNotPrepared (ss_source_id s)), m)
          else let m1 = drain_previous s m in
            (case record_for_session s m1 of
               Err e \<Rightarrow> (Err e, m1) | Panic \<Rightarrow> (Panic, m1)
             | Ok r \<Rightarrow>
                 (Ok (), (put_record (ss_source_id s) (r\<lparr>state := Active\<rparr>) m1)
                    \<lparr>active := Some s\<rparr>)))"

definition transport ::
  "source_session_id \<Rightarrow> transport_intent \<Rightarrow> source_manager
    \<Rightarrow> (unit, source_manager_error) outcome \<times> source_manager" where
  "transport s intent m =
     (case active m of
        None \<Rightarrow> (Err NoActiveSource, m)
      | Some a \<Rightarrow>
          if a \<noteq> s then (Err (StaleOrInactiveSession (ss_source_id s) (ss_generation s)), m)
          else case record_for_session s m of
            Err e \<Rightarrow> (Err e, m) | Panic \<Rightarrow> (Panic, m)
          | Ok r \<Rightarrow>
              if \<not> permits_playback_control (authorization (registration r))
              then (Err (PlaybackControlDenied (principal_id (authorization (registration r)))), m)
              else (case prepared r of
                 None \<Rightarrow> (Err (SourceNotPrepared (ss_source_id s)), m)
               | Some p \<Rightarrow>
                   let caps = ps_capabilities p; set_state = (\<lambda>st. put_record (ss_source_id s) (r\<lparr>state := st\<rparr>) m);
                       unsupported = (Err (UnsupportedTransport intent), m)
                   in case intent of
                     Play \<Rightarrow> (Ok (), set_state Active)
                   | Resume \<Rightarrow> (Ok (), set_state Active)
                   | Pause \<Rightarrow> if can_pause caps then (Ok (), set_state Paused) else unsupported
                   | SeekMillis _ \<Rightarrow> if can_seek caps then (Ok (), m) else unsupported
                   | Next \<Rightarrow> if can_next caps then (Ok (), m) else unsupported
                   | Previous \<Rightarrow> if can_previous caps then (Ok (), m) else unsupported
                   | Stop \<Rightarrow> (Ok (), (set_state Stopped)\<lparr>active := None\<rparr>)))"

text \<open>
  \<open>max_by\<close> keeps its running maximum only when it compares strictly greater; candidates are
  compared by priority, then by reversed source id.
\<close>

definition candidate_greater :: "source_record \<Rightarrow> source_record \<Rightarrow> bool" where
  "candidate_greater l r \<longleftrightarrow>
     priority (registration r) < priority (registration l)
     \<or> priority (registration l) = priority (registration r)
       \<and> source_id (registration l) < source_id (registration r)"

fun max_candidate ::
  "(source_record \<times> prepared_source) option \<Rightarrow> source_record list
    \<Rightarrow> (source_record \<times> prepared_source) option" where
  "max_candidate best [] = best"
| "max_candidate best (r # rs) =
     (case prepared r of
        None \<Rightarrow> max_candidate best rs
      | Some p \<Rightarrow>
          (case best of
             None \<Rightarrow> max_candidate (Some (r, p)) rs
           | Some (l, q) \<Rightarrow>
               max_candidate (if candidate_greater l r then Some (l, q) else Some (r, p)) rs))"

definition preferred_prepared :: "source_manager \<Rightarrow> prepared_source option" where
  "preferred_prepared m = map_option snd (max_candidate None (bt_values (sources m)))"

section \<open>Runs\<close>

datatype source_op =
    SrcRegister source_registration
  | SrcReplace source_registration
  | SrcPrepare source_session_id playable_media_ref source_metadata source_capabilities
  | SrcFail source_session_id string
  | SrcActivate source_session_id
  | SrcTransport source_session_id transport_intent

fun forget_value :: "('a, 'e) outcome \<Rightarrow> (unit, 'e) outcome" where
  "forget_value (Ok x) = Ok ()"
| "forget_value (Err e) = Err e"
| "forget_value Panic = Panic"

fun source_step ::
  "source_op \<Rightarrow> source_manager \<Rightarrow> (unit, source_manager_error) outcome \<times> source_manager" where
  "source_step (SrcRegister reg) m = apfst forget_value (register_source reg m)"
| "source_step (SrcReplace reg) m = apfst forget_value (replace_registration reg m)"
| "source_step (SrcPrepare s md meta caps) m = apfst forget_value (prepare_source s md meta caps m)"
| "source_step (SrcFail s d) m = fail_prepare s d m"
| "source_step (SrcActivate s) m = activate s m"
| "source_step (SrcTransport s i) m = transport s i m"

definition source_run :: "source_op list \<Rightarrow> source_manager \<Rightarrow> source_manager" where
  "source_run ops m = fold (\<lambda>op m. snd (source_step op m)) ops m"

section \<open>Invariant\<close>

definition live_session :: "string \<Rightarrow> source_record \<Rightarrow> source_session_id" where
  "live_session i r = \<lparr>ss_source_id = i, ss_generation = generation r\<rparr>"

definition record_ok :: "source_session_id option \<Rightarrow> string \<Rightarrow> source_record \<Rightarrow> bool" where
  "record_ok act i r \<longleftrightarrow>
     source_id (registration r) = i \<and> generation r \<noteq> 0
     \<and> (state r \<in> {Active, Paused} \<longrightarrow> act = Some (live_session i r) \<and> prepared r \<noteq> None)
     \<and> pred_option (\<lambda>p. session p = live_session i r \<and> \<not> media_invalid (media p)
          \<and> permits_playback_control (authorization (registration r))) (prepared r)"

definition source_inv :: "source_manager \<Rightarrow> bool" where
  "source_inv m \<longleftrightarrow>
     bt_wf (sources m)
     \<and> (\<forall>i r. bt_get (sources m) i = Some r \<longrightarrow> record_ok (active m) i r)
     \<and> pred_option (\<lambda>a. is_some_and (\<lambda>r. generation r = ss_generation a)
          (bt_get (sources m) (ss_source_id a))) (active m)"

lemma record_for_session_Ok:
  "record_for_session s m = Ok r \<longleftrightarrow>
     bt_get (sources m) (ss_source_id s) = Some r \<and> generation r = ss_generation s"
  by (auto simp: record_for_session_def ensure_generation_def split: option.split)

lemma record_for_session_no_panic [simp]: "record_for_session s m \<noteq> Panic"
  by (simp add: record_for_session_def ensure_generation_def split: option.split)

lemma live_session_eq [simp]: "live_session i r = s \<longleftrightarrow> ss_source_id s = i \<and> ss_generation s = generation r"
  by (cases s) (auto simp: live_session_def)

lemma live_session_fields [simp]:
  "ss_source_id (live_session i r) = i" "ss_generation (live_session i r) = generation r"
  by (simp_all add: live_session_def)

lemma live_session_frame [simp]:
  "live_session i (r\<lparr>state := st\<rparr>) = live_session i r"
  by (simp add: live_session_def)

lemma session_eqI: "ss_source_id s = ss_source_id t \<Longrightarrow> ss_generation s = ss_generation t \<Longrightarrow>
    (s :: source_session_id) = t"
  by (cases s; cases t) simp

lemma put_record_fields [simp]:
  "sources (put_record i r m) = bt_insert i r (sources m)"
  "active (put_record i r m) = active m"
  by (simp_all add: put_record_def)

lemma put_record_deactivate:
  "put_record i r (m\<lparr>active := a\<rparr>) = (put_record i r m)\<lparr>active := a\<rparr>"
  by (simp add: put_record_def)

text \<open>
  Replacing one record keeps the invariant when the new record is fine and the generation of the
  active session is not changed under it.
\<close>

lemma put_record_inv:
  assumes "source_inv m" and "record_ok (active m) i r"
    and "\<And>a. active m = Some a \<Longrightarrow> ss_source_id a = i \<Longrightarrow> generation r = ss_generation a"
  shows "source_inv (put_record i r m)"
  using assms
  by (cases "active m") (auto simp: source_inv_def bt_get_insert is_some_and_iff)

lemma source_inv_record: "source_inv m \<Longrightarrow> bt_get (sources m) i = Some r \<Longrightarrow> record_ok (active m) i r"
  by (simp add: source_inv_def)

lemma source_inv_active:
  "source_inv m \<Longrightarrow> active m = Some a \<Longrightarrow> bt_get (sources m) (ss_source_id a) = Some r \<Longrightarrow>
     generation r = ss_generation a"
  by (auto simp: source_inv_def is_some_and_iff)

lemma register_inv: "source_inv m \<Longrightarrow> source_inv (snd (register_source reg m))"
proof (cases "fst (register_source reg m)")
  case (Ok s)
  assume inv: "source_inv m"
  have new: "bt_get (sources m) (source_id reg) = None"
    and st: "snd (register_source reg m) = put_record (source_id reg)
      \<lparr>registration = reg, generation = 1, state = Available, prepared = None, last_error = None\<rparr> m"
    using Ok by (auto simp: register_source_def split: outcome.splits if_splits)
  have "ss_source_id a \<noteq> source_id reg" if "active m = Some a" for a
    using inv that new by (auto simp: source_inv_def)
  with inv show ?thesis by (auto simp: st record_ok_def intro!: put_record_inv)
qed (auto simp: register_source_def split: outcome.splits if_splits)

lemma source_inv_deactivate:
  assumes "source_inv m" and "active m = Some a" and "ss_source_id a = i" and "state r \<notin> {Active, Paused}"
    and "record_ok None i r"
  shows "source_inv ((put_record i r m)\<lparr>active := None\<rparr>)"
  using assms by (auto simp: source_inv_def bt_get_insert record_ok_def)

lemma replace_inv: "source_inv m \<Longrightarrow> source_inv (snd (replace_registration reg m))"
proof (cases "fst (replace_registration reg m)")
  case (Ok s)
  assume inv: "source_inv m"
  let ?i = "source_id reg"
  obtain old gen where old: "bt_get (sources m) ?i = Some old" "checked_add (generation old) 1 = Some gen"
    and st: "snd (replace_registration reg m) = put_record ?i
        \<lparr>registration = reg, generation = gen, state = Available, prepared = None, last_error = None\<rparr>
        (if is_some_and (\<lambda>a. ss_source_id a = ?i) (active m) then m\<lparr>active := None\<rparr> else m)"
    using Ok by (auto simp: replace_registration_def split: outcome.splits option.splits)
  let ?r = "\<lparr>registration = reg, generation = gen, state = Available, prepared = None, last_error = None\<rparr>"
  have "unat gen = unat (generation old) + unat (1 :: u64)" using old(2) checked_add_Some by blast
  then have gen: "gen \<noteq> 0" by auto
  then have ok: "record_ok act ?i ?r" for act by (simp add: record_ok_def)
  show ?thesis
  proof (cases "is_some_and (\<lambda>a. ss_source_id a = ?i) (active m)")
    case True
    then obtain a where a: "active m = Some a" "ss_source_id a = ?i" by (auto simp: is_some_and_iff)
    have "source_inv ((put_record ?i ?r m)\<lparr>active := None\<rparr>)"
      by (rule source_inv_deactivate [OF inv a]) (simp_all add: ok)
    then show ?thesis using True by (simp add: st put_record_deactivate)
  next
    case False
    then show ?thesis using ok by (auto simp: st is_some_and_iff intro!: put_record_inv [OF inv])
  qed
qed (auto simp: replace_registration_def split: outcome.splits option.splits)

lemma prepare_source_inv: "source_inv m \<Longrightarrow> source_inv (snd (prepare_source s md meta caps m))"
proof (cases "fst (prepare_source s md meta caps m)")
  case (Ok p)
  assume inv: "source_inv m"
  obtain r where r: "record_for_session s m = Ok r" and md: "\<not> media_invalid md"
    and pc: "permits_playback_control (authorization (registration r))"
    and st: "snd (prepare_source s md meta caps m) = put_record (ss_source_id s)
        (r\<lparr>last_error := None, prepared := Some \<lparr>session = s, media = md, metadata = meta,
           ps_capabilities = caps\<rparr>, state := Available\<rparr>) m"
    using Ok by (auto simp: prepare_source_def validate_media_ref_def Let_def split: outcome.splits if_splits)
  with inv show ?thesis
    by (auto simp: st record_for_session_Ok record_ok_def intro!: put_record_inv
        dest: source_inv_record source_inv_active)
qed (auto simp: prepare_source_def Let_def split: outcome.splits if_splits)

lemma fail_prepare_inv: "source_inv m \<Longrightarrow> source_inv (snd (fail_prepare s d m))"
  by (auto simp: fail_prepare_def record_for_session_Ok record_ok_def intro!: put_record_inv
      dest: source_inv_record source_inv_active split: outcome.split)

text \<open>After \<open>drain_previous\<close> nothing but the target may still be active or paused.\<close>

lemma drain_previous_frame [simp]:
  "active (drain_previous s m) = active m"
  by (simp add: drain_previous_def split: option.split outcome.split)

lemma drain_previous_target:
  assumes inv: "source_inv m" and r: "bt_get (sources m) (ss_source_id s) = Some r"
    and "generation r = ss_generation s"
  shows "bt_get (sources (drain_previous s m)) (ss_source_id s) = Some r"
proof -
  have "ss_source_id a \<noteq> ss_source_id s" if "active m = Some a" "a \<noteq> s" for a
    using source_inv_active [OF inv that(1)] r assms(3) that(2) by (auto intro: session_eqI)
  then show ?thesis
    using r by (auto simp: drain_previous_def bt_get_insert split: option.split outcome.split)
qed

lemma drain_previous_inv:
  assumes inv: "source_inv m"
  shows "source_inv (drain_previous s m)
    \<and> (\<forall>i r. bt_get (sources (drain_previous s m)) i = Some r \<longrightarrow> state r \<in> {Active, Paused}
          \<longrightarrow> live_session i r = s)"
proof (cases "active m")
  case None
  then show ?thesis using inv by (auto simp: drain_previous_def source_inv_def record_ok_def)
next
  case (Some a)
  then obtain r where r: "bt_get (sources m) (ss_source_id a) = Some r" "generation r = ss_generation a"
    using inv by (auto simp: source_inv_def is_some_and_iff)
  then have rec: "record_for_session a m = Ok r" by (simp add: record_for_session_Ok)
  have only: "live_session i q = a" if "bt_get (sources m) i = Some q" "state q \<in> {Active, Paused}" for i q
    using source_inv_record [OF inv that(1)] that(2) Some by (auto simp: record_ok_def)
  have "source_inv (put_record (ss_source_id a) (r\<lparr>state := Draining\<rparr>) m)"
    using inv r Some source_inv_record [OF inv r(1)]
    by (auto simp: record_ok_def intro!: put_record_inv)
  then show ?thesis
    using Some rec inv only by (auto simp: drain_previous_def bt_get_insert split: if_splits)
qed

lemma activate_cases:
  assumes inv: "source_inv m"
  shows "activate s m =
    (case record_for_session s m of
       Ok r \<Rightarrow>
         if prepared r = None then (Err (SourceNotPrepared (ss_source_id s)), m)
         else (Ok (), (put_record (ss_source_id s) (r\<lparr>state := Active\<rparr>) (drain_previous s m))
                 \<lparr>active := Some s\<rparr>)
     | Err e \<Rightarrow> (Err e, m) | Panic \<Rightarrow> (Panic, m))"
proof (cases "record_for_session s m")
  case (Ok r)
  then have "record_for_session s (drain_previous s m) = Ok r"
    using drain_previous_target [OF inv] by (simp add: record_for_session_Ok)
  with Ok show ?thesis by (simp add: activate_def Let_def)
qed (simp_all add: activate_def)

lemma activate_Ok:
  assumes inv: "source_inv m"
  shows "fst (activate s m) = Ok () \<longleftrightarrow>
    (\<exists>r. record_for_session s m = Ok r \<and> prepared r \<noteq> None)"
  by (simp add: activate_cases [OF inv] split: outcome.split)

lemma activate_inv: "source_inv m \<Longrightarrow> source_inv (snd (activate s m))"
proof (cases "fst (activate s m) = Ok ()")
  case True
  assume inv: "source_inv m"
  then obtain r where rec: "record_for_session s m = Ok r" "prepared r \<noteq> None"
    using True by (auto simp: activate_Ok)
  then have r: "bt_get (sources m) (ss_source_id s) = Some r" "generation r = ss_generation s"
    by (simp_all add: record_for_session_Ok)
  have good: "record_ok (Some s) (ss_source_id s) (r\<lparr>state := Active\<rparr>)"
    using source_inv_record [OF inv r(1)] r(2) rec(2) by (simp add: record_ok_def)
  have d: "source_inv (drain_previous s m)" using drain_previous_inv [OF inv] by blast
  have ok: "record_ok (Some s) i q"
    if "bt_get (sources (drain_previous s m)) i = Some q" for i q
    using drain_previous_inv [OF inv, of s] source_inv_record [OF d that] that
    by (auto simp: record_ok_def)
  show ?thesis
    using d r ok good drain_previous_target [OF inv r(1,2)]
    by (auto simp: activate_cases [OF inv] rec source_inv_def bt_get_insert)
next
  case False
  assume inv: "source_inv m"
  then have "snd (activate s m) = m"
    using False by (auto simp: activate_cases split: outcome.splits)
  with inv show ?thesis by simp
qed

lemma transport_cases:
  "transport s i m = (r, m') \<Longrightarrow>
     m' = m \<and> r \<noteq> Panic
     \<or> r = Ok () \<and> active m = Some s
       \<and> (\<exists>q. bt_get (sources m) (ss_source_id s) = Some q \<and> generation q = ss_generation s \<and> prepared q \<noteq> None
            \<and> m' = (if i = Stop
                   then (put_record (ss_source_id s) (q\<lparr>state := Stopped\<rparr>) m)\<lparr>active := None\<rparr>
                   else put_record (ss_source_id s)
                          (q\<lparr>state := if i = Pause then Paused else Active\<rparr>) m))"
proof (cases "active m")
  case (Some a)
  assume step: "transport s i m = (r, m')"
  show ?thesis
  proof (cases "a = s \<and> (\<exists>q. record_for_session s m = Ok q)")
    case True
    then obtain q where q: "record_for_session s m = Ok q" "a = s" by blast
    show ?thesis
    proof (cases "permits_playback_control (authorization (registration q)) \<and> prepared q \<noteq> None")
      case ok: True
      then obtain p where "prepared q = Some p" by auto
      with step Some q ok show ?thesis
        by (cases i) (auto simp: transport_def Let_def record_for_session_Ok split: if_splits)
    next
      case False
      with step Some q show ?thesis by (auto simp: transport_def split: if_splits option.splits)
    qed
  next
    case False
    with step Some show ?thesis
      by (cases "record_for_session s m") (auto simp: transport_def split: if_splits)
  qed
qed (auto simp: transport_def)

lemma transport_inv:
  assumes inv: "source_inv m"
  shows "source_inv (snd (transport s i m))"
proof -
  obtain r m' where step: "transport s i m = (r, m')" by fastforce
  show ?thesis
  proof (cases "m' = m")
    case False
    with transport_cases [OF step] obtain q where a: "active m = Some s"
      and q: "bt_get (sources m) (ss_source_id s) = Some q" "generation q = ss_generation s" "prepared q \<noteq> None"
      and m': "m' = (if i = Stop
                   then (put_record (ss_source_id s) (q\<lparr>state := Stopped\<rparr>) m)\<lparr>active := None\<rparr>
                   else put_record (ss_source_id s)
                          (q\<lparr>state := if i = Pause then Paused else Active\<rparr>) m)" by blast
    have ok: "record_ok act (ss_source_id s) (q\<lparr>state := st\<rparr>)"
      if "act = Some s \<or> st = Stopped" for act st
      using source_inv_record [OF inv q(1)] that q(2,3) by (auto simp: record_ok_def)
    show ?thesis
      using m' step a q ok
      by (cases "i = Stop") (auto intro!: source_inv_deactivate [OF inv a] put_record_inv [OF inv])
  qed (use inv step in simp)
qed

lemma source_step_inv: "source_inv m \<Longrightarrow> source_inv (snd (source_step op m))"
  by (cases op)
    (simp_all add: register_inv replace_inv prepare_source_inv fail_prepare_inv activate_inv transport_inv)

lemma source_run_inv: "source_inv m \<Longrightarrow> source_inv (source_run ops m)"
  by (induction ops arbitrary: m) (simp_all add: source_run_def source_step_inv)

lemma source_manager_new_inv: "source_inv source_manager_new"
  by (simp add: source_inv_def source_manager_new_def bt_get_def)

section \<open>Generations only grow\<close>

definition generation_of :: "string \<Rightarrow> source_manager \<Rightarrow> nat" where
  "generation_of i m = (case bt_get (sources m) i of None \<Rightarrow> 0 | Some r \<Rightarrow> unat (generation r))"

lemma generation_of_put:
  "generation_of i (put_record j r m) = (if i = j then unat (generation r) else generation_of i m)"
  by (simp add: generation_of_def bt_get_insert)

lemma generation_of_active [simp]: "generation_of i (m\<lparr>active := a\<rparr>) = generation_of i m"
  by (simp add: generation_of_def)

lemma generation_of_session:
  "record_for_session s m = Ok r \<Longrightarrow> generation_of (ss_source_id s) m = unat (generation r)"
  by (simp add: record_for_session_Ok generation_of_def)

lemma drain_previous_generation: "generation_of i (drain_previous s m) = generation_of i m"
  by (auto simp: drain_previous_def generation_of_put generation_of_session
      split: option.split outcome.split)

lemma source_step_generation:
  assumes "source_inv m"
  shows "generation_of i m \<le> generation_of i (snd (source_step op m))"
proof (cases op)
  case (SrcRegister reg)
  then show ?thesis
    by (auto simp: register_source_def generation_of_put split: outcome.split)
      (simp add: generation_of_def)
next
  case (SrcReplace reg)
  show ?thesis
  proof (cases "bt_get (sources m) (source_id reg)")
    case (Some old)
    then have "generation_of (source_id reg) m \<le> unat g"
      if "checked_add (generation old) 1 = Some g" for g
      using that Some by (simp add: generation_of_def checked_add_le)
    with Some SrcReplace show ?thesis
      by (auto simp: replace_registration_def generation_of_put Let_def split: outcome.split option.split)
  qed (auto simp: SrcReplace replace_registration_def split: outcome.split)
next
  case (SrcPrepare s md meta caps)
  then show ?thesis
    by (auto simp: prepare_source_def generation_of_put generation_of_session Let_def split: outcome.split)
next
  case (SrcFail s d)
  then show ?thesis
    by (auto simp: fail_prepare_def generation_of_put generation_of_session split: outcome.split)
next
  case (SrcActivate s)
  then show ?thesis
    using generation_of_session [of s m]
    by (auto simp: activate_cases [OF assms] generation_of_put drain_previous_generation split: outcome.split)
next
  case (SrcTransport s t)
  obtain r m' where step: "transport s t m = (r, m')" by fastforce
  from transport_cases [OF this] SrcTransport step show ?thesis
    using generation_of_session [of s m] by (auto simp: generation_of_put record_for_session_Ok)
qed

lemma source_run_generation:
  "source_inv m \<Longrightarrow> generation_of i m \<le> generation_of i (source_run ops m)"
proof (induction ops arbitrary: m)
  case (Cons op ops)
  from source_step_generation [OF Cons.prems, of i op] Cons.IH [OF source_step_inv [OF Cons.prems, of op]]
  show ?case by (simp add: source_run_def)
qed (simp add: source_run_def)

lemma stale_record: "unat (ss_generation s) < generation_of (ss_source_id s) m \<Longrightarrow>
    \<exists>e. record_for_session s m = Err e"
  by (auto simp: generation_of_def record_for_session_def ensure_generation_def split: option.splits)

lemma stale_commands:
  assumes "source_inv m" and "unat (ss_generation s) < generation_of (ss_source_id s) m"
    and "op \<in> {SrcPrepare s md meta caps, SrcFail s d, SrcActivate s, SrcTransport s t}"
  shows "snd (source_step op m) = m \<and> \<not> is_ok (fst (source_step op m))"
proof -
  obtain e where e: "record_for_session s m = Err e" using stale_record [OF assms(2)] by blast
  show ?thesis
    using assms(3) e
    by (cases "media_invalid md"; cases "active m"; cases "active m = Some s")
      (auto simp: prepare_source_def fail_prepare_def activate_def transport_def validate_media_ref_def)
qed

section \<open>The preferred candidate\<close>

text \<open>The order of candidates: higher priority first, then the smaller source id.\<close>

definition candidate_le :: "source_record \<Rightarrow> source_record \<Rightarrow> bool" where
  "candidate_le l r \<longleftrightarrow>
     priority (registration l) < priority (registration r)
     \<or> priority (registration l) = priority (registration r)
       \<and> source_id (registration r) \<le> source_id (registration l)"

lemma candidate_le_refl [simp]: "candidate_le r r"
  by (simp add: candidate_le_def)

lemma candidate_le_trans: "candidate_le a b \<Longrightarrow> candidate_le b c \<Longrightarrow> candidate_le a c"
  by (auto simp: candidate_le_def)

lemma candidate_greater_le: "candidate_greater l r \<Longrightarrow> candidate_le r l"
  by (auto simp: candidate_greater_def candidate_le_def)

lemma not_candidate_greater_le: "\<not> candidate_greater l r \<Longrightarrow> candidate_le l r"
  by (auto simp: candidate_greater_def candidate_le_def)

lemma max_candidate_running:
  "prepared l = Some q \<Longrightarrow>
     \<exists>w p. max_candidate (Some (l, q)) rs = Some (w, p) \<and> prepared w = Some p
       \<and> (w = l \<or> w \<in> set rs) \<and> candidate_le l w
       \<and> (\<forall>r\<in>set rs. prepared r \<noteq> None \<longrightarrow> candidate_le r w)"
proof (induction rs arbitrary: l q)
  case Nil
  then show ?case by simp
next
  case (Cons r rs)
  show ?case
  proof (cases "prepared r")
    case None
    with Cons.IH [OF Cons.prems] show ?thesis by auto
  next
    case (Some p)
    show ?thesis
    proof (cases "candidate_greater l r")
      case True
      obtain w u where w: "max_candidate (Some (l, q)) rs = Some (w, u)" "prepared w = Some u"
        "w = l \<or> w \<in> set rs" "candidate_le l w"
        "\<forall>r\<in>set rs. prepared r \<noteq> None \<longrightarrow> candidate_le r w"
        using Cons.IH [OF Cons.prems] by blast
      moreover have "candidate_le r w"
        using candidate_le_trans [OF candidate_greater_le [OF True] w(4)] .
      ultimately show ?thesis using True Some by (intro exI [of _ w] exI [of _ u]) auto
    next
      case False
      obtain w u where w: "max_candidate (Some (r, p)) rs = Some (w, u)" "prepared w = Some u"
        "w = r \<or> w \<in> set rs" "candidate_le r w"
        "\<forall>r\<in>set rs. prepared r \<noteq> None \<longrightarrow> candidate_le r w"
        using Cons.IH [OF Some] by blast
      moreover have "candidate_le l w"
        using candidate_le_trans [OF not_candidate_greater_le [OF False] w(4)] .
      ultimately show ?thesis using False Some by (intro exI [of _ w] exI [of _ u]) auto
    qed
  qed
qed

lemma max_candidate_best:
  "(max_candidate None rs = None \<longleftrightarrow> (\<forall>r\<in>set rs. prepared r = None))
    \<and> (\<forall>w p. max_candidate None rs = Some (w, p) \<longrightarrow> prepared w = Some p \<and> w \<in> set rs
         \<and> (\<forall>r\<in>set rs. prepared r \<noteq> None \<longrightarrow> candidate_le r w))"
proof (induction rs)
  case (Cons r rs)
  show ?case
  proof (cases "prepared r")
    case None
    with Cons.IH show ?thesis by auto
  next
    case (Some p)
    from max_candidate_running [OF this, of rs] Some show ?thesis by auto
  qed
qed simp

section \<open>Properties\<close>

definition demo_source :: "string \<Rightarrow> u16 \<Rightarrow> source_registration" where
  "demo_source i prio =
     \<lparr>sr_schema_version = 1, source_id = i, provider_id = ''org.aurora'', kind = LocalMedia,
      priority = prio,
      authorization = \<lparr>principal_id = ''host'', permissions = [], builtin_trusted = True\<rparr>\<rparr>"

definition demo_caps :: source_capabilities where
  "demo_caps = \<lparr>can_seek = False, can_next = False, can_previous = False, can_pause = True,
     codec_hint = None, channel_layout_hint = None, sample_rate_hz = None\<rparr>"

definition demo_meta :: source_metadata where
  "demo_meta = \<lparr>title = None, artist = None, album = None, artwork_ref = None\<rparr>"

definition demo_session :: "string \<Rightarrow> source_session_id" where
  "demo_session i = \<lparr>ss_source_id = i, ss_generation = 1\<rparr>"

definition demo_ops :: "source_op list" where
  "demo_ops =
     [SrcRegister (demo_source ''a'' 5), SrcRegister (demo_source ''b'' 7),
      SrcPrepare (demo_session ''a'') (LocalFile ''/m'') demo_meta demo_caps,
      SrcPrepare (demo_session ''b'') (LocalFile ''/n'') demo_meta demo_caps,
      SrcActivate (demo_session ''a''), SrcActivate (demo_session ''b'')]"

text \<open>
  C12: one source plays at a time, and only what was prepared.  In every reachable manager, a
  source that is active or paused is the one the active session names, in its current
  generation, and holds a preparation of that generation, made by a principal that may control
  playback, with a valid media reference; every other preparation is as good; the active session
  always names a registered source.
\<close>

theorem source_manager_exclusive:
  assumes "m = source_run ops source_manager_new"
  shows "(\<forall>i r. bt_get (sources m) i = Some r \<and> state r \<in> {Active, Paused} \<longrightarrow>
            active m = Some (live_session i r)
            \<and> (\<exists>p. prepared r = Some p \<and> session p = live_session i r \<and> \<not> media_invalid (media p)
                 \<and> permits_playback_control (authorization (registration r))))
    \<and> (\<forall>a. active m = Some a \<longrightarrow>
            is_some_and (\<lambda>r. generation r = ss_generation a) (bt_get (sources m) (ss_source_id a)))
    \<and> (\<forall>i r p. bt_get (sources m) i = Some r \<and> prepared r = Some p \<longrightarrow>
            session p = live_session i r \<and> \<not> media_invalid (media p)
            \<and> permits_playback_control (authorization (registration r)))"
proof -
  have inv: "source_inv m" by (simp add: assms source_run_inv source_manager_new_inv)
  have "session p = live_session i r \<and> \<not> media_invalid (media p)
      \<and> permits_playback_control (authorization (registration r))"
    if "bt_get (sources m) i = Some r" "prepared r = Some p" for i r p
    using source_inv_record [OF inv that(1)] that(2) by (simp add: record_ok_def)
  moreover have "active m = Some (live_session i r) \<and> (\<exists>p. prepared r = Some p)"
    if "bt_get (sources m) i = Some r" "state r \<in> {Active, Paused}" for i r
    using source_inv_record [OF inv that(1)] that(2) by (auto simp: record_ok_def)
  moreover have "is_some_and (\<lambda>r. generation r = ss_generation a) (bt_get (sources m) (ss_source_id a))"
    if "active m = Some a" for a
    using inv that by (simp add: source_inv_def)
  ultimately show ?thesis by blast
qed

text \<open>
  stale commands are dead.  Once a source has been registered anew (or merely has a newer
  generation than a session), every later prepare, failure report, activation or transport
  command of the old session is refused and changes nothing, for all continuations of the run.
\<close>

theorem source_generation_invalidates:
  assumes "m = source_run ops source_manager_new"
    and "fst (replace_registration reg m) = Ok s'" and "m' = snd (replace_registration reg m)"
    and "ss_source_id s = source_id reg" and "unat (ss_generation s) < unat (ss_generation s')"
    and "op \<in> {SrcPrepare s md meta caps, SrcFail s d, SrcActivate s, SrcTransport s t}"
  shows "\<not> is_ok (fst (source_step op (source_run later m')))
    \<and> snd (source_step op (source_run later m')) = source_run later m'"
proof -
  have inv: "source_inv m'"
    using source_step_inv [OF source_run_inv [OF source_manager_new_inv], of "SrcReplace reg" ops]
    by (simp add: assms(1,3))
  have "generation_of (source_id reg) m' = unat (ss_generation s')"
    using assms(2,3)
    by (auto simp: replace_registration_def generation_of_put Let_def split: outcome.splits option.splits)
  then have "unat (ss_generation s) < generation_of (ss_source_id s) (source_run later m')"
    using source_run_generation [OF inv, of "source_id reg" later] assms(4,5) by simp
  from stale_commands [OF source_run_inv [OF inv] this assms(6)] show ?thesis by simp
qed

text \<open>
  the preferred candidate is the right one.  In every reachable manager
  \<open>preferred_prepared\<close> is \<open>None\<close> exactly when nothing is prepared, and otherwise the candidate
  of a source that no other prepared source beats in priority, with the smallest source id among
  equals.
\<close>

theorem preferred_prepared_maximal:
  assumes "m = source_run ops source_manager_new"
  shows "(preferred_prepared m = None \<longleftrightarrow>
       (\<forall>i r. bt_get (sources m) i = Some r \<longrightarrow> prepared r = None))
    \<and> (\<forall>p. preferred_prepared m = Some p \<longrightarrow>
         (\<exists>i w. bt_get (sources m) i = Some w \<and> prepared w = Some p
            \<and> (\<forall>j r. bt_get (sources m) j = Some r \<and> prepared r \<noteq> None \<longrightarrow>
                 priority (registration r) < priority (registration w)
                 \<or> priority (registration r) = priority (registration w) \<and> i \<le> j)))"
proof -
  have inv: "source_inv m" by (simp add: assms source_run_inv source_manager_new_inv)
  then have vals: "r \<in> set (bt_values (sources m)) \<longleftrightarrow> (\<exists>i. bt_get (sources m) i = Some r)" for r
    by (simp add: in_bt_values source_inv_def)
  have key: "source_id (registration r) = i" if "bt_get (sources m) i = Some r" for i r
    using source_inv_record [OF inv that] by (simp add: record_ok_def)
  obtain res where res: "max_candidate None (bt_values (sources m)) = res" by simp
  from max_candidate_best [of "bt_values (sources m)", unfolded res]
  have none: "res = None \<longleftrightarrow> (\<forall>r\<in>set (bt_values (sources m)). prepared r = None)"
    and some: "\<And>w p. res = Some (w, p) \<Longrightarrow> prepared w = Some p \<and> w \<in> set (bt_values (sources m))
       \<and> (\<forall>r\<in>set (bt_values (sources m)). prepared r \<noteq> None \<longrightarrow> candidate_le r w)"
    by auto
  have "preferred_prepared m = None \<longleftrightarrow> (\<forall>i r. bt_get (sources m) i = Some r \<longrightarrow> prepared r = None)"
    using none vals by (auto simp: preferred_prepared_def res)
  moreover have "\<exists>i w. bt_get (sources m) i = Some w \<and> prepared w = Some p
      \<and> (\<forall>j r. bt_get (sources m) j = Some r \<and> prepared r \<noteq> None \<longrightarrow>
           priority (registration r) < priority (registration w)
           \<or> priority (registration r) = priority (registration w) \<and> i \<le> j)"
    if "preferred_prepared m = Some p" for p
  proof -
    from that obtain w where w: "res = Some (w, p)" by (auto simp: preferred_prepared_def res)
    with some vals obtain i where i: "bt_get (sources m) i = Some w" "prepared w = Some p" by blast
    have "priority (registration r) < priority (registration w)
        \<or> priority (registration r) = priority (registration w) \<and> i \<le> j"
      if "bt_get (sources m) j = Some r" "prepared r \<noteq> None" for j r
      using some [OF w] vals that key [OF that(1)] key [OF i(1)] by (auto simp: candidate_le_def)
    with i show ?thesis by blast
  qed
  ultimately show ?thesis by blast
qed

text \<open>
  Reporting a failed preparation for the active source wedges it.  \<open>fail_prepare\<close> promises to
  leave the active source untouched, but it accepts the active session: the session stays active
  with its record failed and unprepared, and then every transport intent, \<open>Stop\<close> included, is
  refused.
\<close>

theorem fail_prepare_wedges_active:
  assumes "m = source_run ops source_manager_new" and "active m = Some s"
    and "m' = snd (fail_prepare s detail m)"
  shows "fst (fail_prepare s detail m) = Ok () \<and> active m' = Some s
    \<and> is_some_and (\<lambda>r. state r = Failed) (bt_get (sources m') (ss_source_id s))
    \<and> \<not> is_ok (fst (transport s t m')) \<and> snd (transport s t m') = m'"
proof -
  have "source_inv m" by (simp add: assms source_run_inv source_manager_new_inv)
  with assms(2) obtain r where r: "record_for_session s m = Ok r"
    by (auto simp: source_inv_def record_for_session_Ok is_some_and_iff)
  let ?r = "r\<lparr>state := Failed, prepared := None, last_error := Some detail\<rparr>"
  have m': "m' = put_record (ss_source_id s) ?r m" using r by (simp add: assms(3) fail_prepare_def)
  then have "record_for_session s m' = Ok ?r" using r by (simp add: record_for_session_Ok bt_get_insert)
  then show ?thesis
    using r assms(2) by (simp add: m' fail_prepare_def bt_get_insert) (simp add: transport_def)
qed

text \<open>A concrete run: two prepared sources, the second one activated last.\<close>

definition demo_record :: "string \<Rightarrow> u16 \<Rightarrow> playable_media_ref \<Rightarrow> source_state \<Rightarrow> source_record" where
  "demo_record i prio md st =
     \<lparr>registration = demo_source i prio, generation = 1, state = st,
      prepared = Some \<lparr>session = demo_session i, media = md, metadata = demo_meta,
                       ps_capabilities = demo_caps\<rparr>, last_error = None\<rparr>"

definition demo_manager :: source_manager where
  "demo_manager =
     \<lparr>sources = [(''a'', demo_record ''a'' 5 (LocalFile ''/m'') Draining),
                 (''b'', demo_record ''b'' 7 (LocalFile ''/n'') Active)],
      active = Some (demo_session ''b'')\<rparr>"

lemma demo_source_valid:
  "validate_registration (demo_source ''a'' p) = Ok ()"
  "validate_registration (demo_source ''b'' p) = Ok ()"
  by (simp_all add: validate_registration_def demo_source_def SOURCE_MANAGER_SCHEMA_VERSION_def
      is_canonical_id_def is_ascii_lowercase_def is_ascii_alphanumeric_def is_ascii_digit_def byte_def)

lemma demo_media_valid:
  "validate_media_ref (LocalFile ''/m'') = Ok ()" "validate_media_ref (LocalFile ''/n'') = Ok ()"
  by (simp_all add: validate_media_ref_def media_invalid_def ws1_def ws2_def ws3_def byte_def)

lemma demo_permits: "permits_playback_control (authorization (demo_source i p))"
  by (simp add: permits_playback_control_def demo_source_def)

lemma demo_source_id [simp]: "source_id (demo_source i p) = i"
  by (simp add: demo_source_def)

lemma demo_session_fields [simp]:
  "ss_source_id (demo_session i) = i" "ss_generation (demo_session i) = 1"
  "(demo_session i = demo_session j) = (i = j)"
  by (auto simp: demo_session_def)

lemma demo_run: "source_run demo_ops source_manager_new = demo_manager"
  by (simp add: source_run_def demo_ops_def source_manager_new_def register_source_def
      demo_source_valid bt_get_def put_record_def prepare_source_def demo_media_valid
      record_for_session_def ensure_generation_def demo_permits activate_def drain_previous_def
      demo_manager_def demo_record_def Let_def)

theorem source_manager_exclusive_witness:
  "active demo_manager = Some (live_session ''b'' (demo_record ''b'' 7 (LocalFile ''/n'') Active))"
proof -
  have "bt_get (sources demo_manager) ''b'' = Some (demo_record ''b'' 7 (LocalFile ''/n'') Active)"
    "state (demo_record ''b'' 7 (LocalFile ''/n'') Active) \<in> {Active, Paused}"
    by (simp_all add: demo_manager_def bt_get_def demo_record_def)
  with source_manager_exclusive [OF demo_run [symmetric]] show ?thesis by blast
qed

theorem source_generation_invalidates_witness:
  "\<not> is_ok (fst (source_step (SrcActivate (demo_session ''b''))
      (source_run [SrcActivate (demo_session ''a'')]
         (snd (replace_registration (demo_source ''b'' 9) demo_manager)))))"
proof -
  have "fst (replace_registration (demo_source ''b'' 9) demo_manager)
      = Ok \<lparr>ss_source_id = ''b'', ss_generation = 2\<rparr>"
    by (simp add: replace_registration_def demo_source_valid demo_manager_def bt_get_def demo_record_def
        checked_add_def)
  from source_generation_invalidates [OF demo_run [symmetric] this refl, of "demo_session ''b''"
      "SrcActivate (demo_session ''b'')" _ _ _ _ _ "[SrcActivate (demo_session ''a'')]"]
  show ?thesis by simp
qed

theorem preferred_prepared_maximal_witness: "preferred_prepared demo_manager \<noteq> None"
proof -
  have "bt_get (sources demo_manager) ''b'' = Some (demo_record ''b'' 7 (LocalFile ''/n'') Active)"
    "prepared (demo_record ''b'' 7 (LocalFile ''/n'') Active) \<noteq> None"
    by (simp_all add: demo_manager_def bt_get_def demo_record_def)
  with conjunct1 [OF preferred_prepared_maximal [OF demo_run [symmetric]]] show ?thesis by auto
qed

theorem fail_prepare_wedges_active_witness:
  "\<not> is_ok (fst (transport (demo_session ''b'') Stop
      (snd (fail_prepare (demo_session ''b'') ''eof'' demo_manager))))"
  using fail_prepare_wedges_active [OF demo_run [symmetric] _ refl, of "demo_session ''b''" "''eof''" Stop]
  by (simp add: demo_manager_def)

end
