(* ===== verification/Duplex_State.thy ===== *)
theory Duplex_State
  imports Prelude
begin

text \<open>
  The control-thread lifecycle of the duplex streams,
  \<open>src/crates/aurora-realtime-engine/src/device_state.rs\<close>, with the numeric faults of
  \<open>src/crates/aurora-realtime-audio-api/src/lib.rs\<close>: transitions, the bounded recovery
  budget and its backoff.
\<close>

section \<open>State machine\<close>

datatype audio_stream_fault = NoFault | DeviceLost | Callback | FormatChanged

datatype duplex_stream_state =
  StoppedS | Starting | RunningS | Degraded | Faulted | Recovering | Stopping

datatype duplex_state_event =
    StartRequested | StreamsStarted | StableRunObserved | QualityDegraded
  | StreamFault audio_stream_fault | RecoveryRequested | RecoverySucceeded | RecoveryFailed
  | StopRequested | StreamsStopped

record duplex_state_machine =
  ds_state :: duplex_stream_state
  ds_fault :: audio_stream_fault
  recovery_attempts :: u32

definition MAX_RECOVERY_ATTEMPTS :: u32 where "MAX_RECOVERY_ATTEMPTS = 5"
definition INITIAL_RECOVERY_BACKOFF_MS :: u64 where "INITIAL_RECOVERY_BACKOFF_MS = 250"
definition MAX_RECOVERY_BACKOFF_MS :: u64 where "MAX_RECOVERY_BACKOFF_MS = 4000"

definition duplex_default :: duplex_state_machine where
  "duplex_default = \<lparr>ds_state = StoppedS, ds_fault = NoFault, recovery_attempts = 0\<rparr>"

definition can_attempt_recovery :: "duplex_state_machine \<Rightarrow> bool" where
  "can_attempt_recovery m \<longleftrightarrow>
     ds_state m = Faulted \<and> recovery_attempts m < MAX_RECOVERY_ATTEMPTS"

text \<open>\<open>1_u64.checked_shl(shift)\<close>: none for a shift of the width or more.\<close>

definition checked_shl_one :: "u32 \<Rightarrow> u64 option" where
  "checked_shl_one shift = (if shift < 64 then Some (push_bit (unat shift) 1) else None)"

definition next_recovery_backoff_ms :: "duplex_state_machine \<Rightarrow> u64 option" where
  "next_recovery_backoff_ms m =
     (if \<not> can_attempt_recovery m then None
      else let shift = min (recovery_attempts m) 31;
               multiplier = (case checked_shl_one shift of Some x \<Rightarrow> x | None \<Rightarrow> - 1)
           in Some (min (saturating_mul INITIAL_RECOVERY_BACKOFF_MS multiplier)
                        MAX_RECOVERY_BACKOFF_MS))"

text \<open>
  The match of \<open>transition\<close>: the updated fields and the next state, or none for the catch-all
  error arm.
\<close>

definition transition_arm ::
  "duplex_state_event \<Rightarrow> duplex_state_machine
    \<Rightarrow> (duplex_state_machine \<times> duplex_stream_state) option" where
  "transition_arm event m =
     (case (ds_state m, event) of
        (StoppedS, StartRequested) \<Rightarrow>
          Some (m\<lparr>recovery_attempts := 0, ds_fault := NoFault\<rparr>, Starting)
      | (Starting, StreamsStarted) \<Rightarrow> Some (m, RunningS)
      | (RunningS, StableRunObserved) \<Rightarrow>
          Some (m\<lparr>recovery_attempts := 0, ds_fault := NoFault\<rparr>, RunningS)
      | (Degraded, StableRunObserved) \<Rightarrow>
          Some (m\<lparr>recovery_attempts := 0, ds_fault := NoFault\<rparr>, RunningS)
      | (RunningS, QualityDegraded) \<Rightarrow> Some (m, Degraded)
      | (RunningS, StreamFault f) \<Rightarrow> Some (m\<lparr>ds_fault := f\<rparr>, Faulted)
      | (Degraded, StreamFault f) \<Rightarrow> Some (m\<lparr>ds_fault := f\<rparr>, Faulted)
      | (Faulted, RecoveryRequested) \<Rightarrow>
          if recovery_attempts m < MAX_RECOVERY_ATTEMPTS
          then Some (m\<lparr>recovery_attempts := saturating_add (recovery_attempts m) 1\<rparr>, Recovering)
          else None
      | (Recovering, RecoverySucceeded) \<Rightarrow> Some (m\<lparr>ds_fault := NoFault\<rparr>, RunningS)
      | (Recovering, RecoveryFailed) \<Rightarrow> Some (m, Faulted)
      | (Starting, StopRequested) \<Rightarrow> Some (m, Stopping)
      | (RunningS, StopRequested) \<Rightarrow> Some (m, Stopping)
      | (Degraded, StopRequested) \<Rightarrow> Some (m, Stopping)
      | (Faulted, StopRequested) \<Rightarrow> Some (m, Stopping)
      | (Recovering, StopRequested) \<Rightarrow> Some (m, Stopping)
      | (Stopping, StreamsStopped) \<Rightarrow>
          Some (m\<lparr>ds_fault := NoFault, recovery_attempts := 0\<rparr>, StoppedS)
      | _ \<Rightarrow> None)"

definition transition ::
  "duplex_state_event \<Rightarrow> duplex_state_machine
    \<Rightarrow> (duplex_stream_state, duplex_stream_state \<times> duplex_state_event) outcome
       \<times> duplex_state_machine" where
  "transition event m =
     (case transition_arm event m of
        None \<Rightarrow> (Err (ds_state m, event), m)
      | Some (m', next) \<Rightarrow> (Ok next, m'\<lparr>ds_state := next\<rparr>))"

definition duplex_run :: "duplex_state_event list \<Rightarrow> duplex_state_machine \<Rightarrow> duplex_state_machine" where
  "duplex_run es m = fold (\<lambda>e m. snd (transition e m)) es m"

section \<open>The recovery budget\<close>

text \<open>How many recovery requests a run accepts.\<close>

fun accepted_recoveries :: "duplex_state_event list \<Rightarrow> duplex_state_machine \<Rightarrow> nat" where
  "accepted_recoveries [] m = 0"
| "accepted_recoveries (e # es) m =
     (if e = RecoveryRequested \<and> is_ok (fst (transition e m)) then 1 else 0)
       + accepted_recoveries es (snd (transition e m))"

definition duplex_inv :: "duplex_state_machine \<Rightarrow> bool" where
  "duplex_inv m \<longleftrightarrow>
     recovery_attempts m \<le> MAX_RECOVERY_ATTEMPTS
     \<and> (ds_state m = Recovering \<longrightarrow> 0 < recovery_attempts m)
     \<and> (ds_state m \<in> {StoppedS, Starting} \<longrightarrow> recovery_attempts m = 0)
     \<and> (ds_state m \<in> {StoppedS, Starting, RunningS, Degraded} \<longrightarrow> ds_fault m = NoFault)"

lemma attempts_step:
  assumes "a < MAX_RECOVERY_ATTEMPTS"
  shows "unat (saturating_add a 1) = unat a + 1"
    and "saturating_add a 1 \<le> MAX_RECOVERY_ATTEMPTS" and "0 < saturating_add a 1"
proof -
  have a: "unat a < 5" using assms by (simp add: MAX_RECOVERY_ATTEMPTS_def word_less_nat_alt)
  then have s: "saturating_add a 1 = a + 1" "unat (a + 1) = unat a + 1"
    by (simp_all add: saturating_add_def unat_add_no_overflow)
  then show "unat (saturating_add a 1) = unat a + 1" by simp
  show "saturating_add a 1 \<le> MAX_RECOVERY_ATTEMPTS" "0 < saturating_add a 1"
    using a s by (simp_all add: MAX_RECOVERY_ATTEMPTS_def word_le_nat_alt word_less_nat_alt)
qed

lemma transition_inv: "duplex_inv m \<Longrightarrow> duplex_inv (snd (transition e m))"
  by (cases "ds_state m"; cases e)
    (auto simp: transition_def transition_arm_def duplex_inv_def attempts_step)

lemma duplex_run_inv: "duplex_inv m \<Longrightarrow> duplex_inv (duplex_run es m)"
  by (induction es arbitrary: m) (simp_all add: duplex_run_def transition_inv)

lemma duplex_default_inv: "duplex_inv duplex_default"
  by (simp add: duplex_inv_def duplex_default_def MAX_RECOVERY_ATTEMPTS_def)

lemma transition_budget:
  assumes "e \<notin> {StableRunObserved, StopRequested}" and "ds_state m \<notin> {StoppedS, Stopping}"
  shows "ds_state (snd (transition e m)) \<notin> {StoppedS, Stopping}
    \<and> unat (recovery_attempts (snd (transition e m))) = unat (recovery_attempts m)
        + (if e = RecoveryRequested \<and> is_ok (fst (transition e m)) then 1 else 0)"
  using assms
  by (cases "ds_state m"; cases e) (auto simp: transition_def transition_arm_def attempts_step)

lemma accepted_recoveries_budget:
  "\<forall>e\<in>set es. e \<notin> {StableRunObserved, StopRequested} \<Longrightarrow> ds_state m \<notin> {StoppedS, Stopping} \<Longrightarrow>
     unat (recovery_attempts (duplex_run es m))
       = unat (recovery_attempts m) + accepted_recoveries es m"
proof (induction es arbitrary: m)
  case (Cons e es)
  from transition_budget [of e m] Cons.prems Cons.IH [of "snd (transition e m)"] show ?case
    by (simp add: duplex_run_def)
qed (simp add: duplex_run_def)

section \<open>Properties\<close>

text \<open>
  C40: recovery is bounded and its backoff doubles.  In every reachable lifecycle state the fault
  is recorded exactly while it matters and the budget of five attempts is kept: as long as no
  stable run is observed and no stop is requested, at most five recovery requests are accepted in
  total, whatever other events arrive; and while a further attempt is permitted its delay is 250
  milliseconds doubled once per attempt, at most four seconds.
\<close>

theorem duplex_recovery_bounded:
  assumes "m = duplex_run history duplex_default"
    and "\<forall>e\<in>set es. e \<notin> {StableRunObserved, StopRequested}"
    and "ds_state m \<notin> {StoppedS, Stopping}"
  shows "accepted_recoveries es m + unat (recovery_attempts m) \<le> 5
    \<and> (ds_state m \<in> {Starting, RunningS, Degraded} \<longrightarrow> ds_fault m = NoFault)
    \<and> (case next_recovery_backoff_ms m of
         Some ms \<Rightarrow> unat ms = min (250 * 2 ^ unat (recovery_attempts m)) 4000
           \<and> is_ok (fst (transition RecoveryRequested m))
       | None \<Rightarrow> \<not> is_ok (fst (transition RecoveryRequested m)))"
proof -
  have inv: "duplex_inv m" by (simp add: assms(1) duplex_run_inv duplex_default_inv)
  then have run: "duplex_inv (duplex_run es m)" by (rule duplex_run_inv)
  then have "unat (recovery_attempts (duplex_run es m)) \<le> 5"
    by (simp add: duplex_inv_def MAX_RECOVERY_ATTEMPTS_def word_le_nat_alt)
  then have budget: "accepted_recoveries es m + unat (recovery_attempts m) \<le> 5"
    using accepted_recoveries_budget [OF assms(2,3)] by simp
  have "case next_recovery_backoff_ms m of
         Some ms \<Rightarrow> unat ms = min (250 * 2 ^ unat (recovery_attempts m)) 4000
           \<and> is_ok (fst (transition RecoveryRequested m))
       | None \<Rightarrow> \<not> is_ok (fst (transition RecoveryRequested m))"
  proof (cases "can_attempt_recovery m")
    case True
    then have st: "ds_state m = Faulted" and a: "recovery_attempts m < 5"
      by (simp_all add: can_attempt_recovery_def MAX_RECOVERY_ATTEMPTS_def)
    then have "unat (recovery_attempts m) \<in> {0, 1, 2, 3, 4}"
      by (auto simp: word_less_nat_alt)
    then have cases: "recovery_attempts m \<in> {0, 1, 2, 3, 4}"
      by (auto simp: word_unat_eq_iff)
    show ?thesis
      using cases st
      by (auto simp: next_recovery_backoff_ms_def can_attempt_recovery_def MAX_RECOVERY_ATTEMPTS_def
          checked_shl_one_def saturating_mul_def INITIAL_RECOVERY_BACKOFF_MS_def
          MAX_RECOVERY_BACKOFF_MS_def transition_def transition_arm_def push_bit_eq_mult min_def
          word_le_nat_alt word_less_nat_alt)
  next
    case False
    then show ?thesis
      by (cases "ds_state m")
        (auto simp: next_recovery_backoff_ms_def can_attempt_recovery_def transition_def
          transition_arm_def)
  qed
  with budget inv show ?thesis by (auto simp: duplex_inv_def)
qed

theorem duplex_recovery_bounded_witness:
  "accepted_recoveries [RecoveryRequested, RecoveryFailed, RecoveryRequested, StartRequested]
     (duplex_run [StartRequested, StreamsStarted, StreamFault DeviceLost] duplex_default) \<le> 5"
  using duplex_recovery_bounded [OF refl, of "[RecoveryRequested, RecoveryFailed, RecoveryRequested,
      StartRequested]" "[StartRequested, StreamsStarted, StreamFault DeviceLost]"]
  by (simp add: duplex_run_def duplex_default_def transition_def transition_arm_def)

end
