(* ===== verification/Block_Transport.thy ===== *)
theory Block_Transport
  imports Bounded_Fifo
begin

text \<open>
  The bounded transports between the audio callbacks and their workers,
  \<open>src/crates/aurora-realtime-engine/src/transport.rs\<close>: the contiguous sample ring, the
  fixed block pool and the queue of single samples, behind one prototype.  Their head and tail
  counters are \<open>usize\<close> and wrap.  An operation is one step here; theory
  \<open>Ring_Interleaving\<close> splits the operations of the ring into their memory accesses.
\<close>

section \<open>Copy loops\<close>

text \<open>
  \<open>put_samples idx off xs slots\<close> writes \<open>xs\<close> to the slots \<open>idx off\<close>,
  \<open>idx (off + 1)\<close>, ...: the writing loops of the ring and of the pool.
\<close>

fun put_samples :: "(nat \<Rightarrow> nat) \<Rightarrow> nat \<Rightarrow> f32 list \<Rightarrow> f32 list \<Rightarrow> f32 list" where
  "put_samples idx off [] slots = slots"
| "put_samples idx off (x # xs) slots = put_samples idx (Suc off) xs (slots[idx off := x])"

lemma put_samples_length [simp]: "length (put_samples idx off xs slots) = length slots"
  by (induction idx off xs slots rule: put_samples.induct) simp_all

lemma put_samples_other:
  "\<forall>j<length xs. idx (off + j) \<noteq> k \<Longrightarrow> put_samples idx off xs slots ! k = slots ! k"
proof (induction idx off xs slots rule: put_samples.induct)
  case (2 idx off x xs slots)
  have "\<forall>j<length xs. idx (Suc off + j) \<noteq> k" using "2.prems" by (auto dest: spec [of _ "Suc _"])
  moreover have "idx off \<noteq> k" using "2.prems" by (auto dest: spec [of _ 0])
  ultimately show ?case using "2.IH" by simp
qed simp

lemma put_samples_nth:
  "inj_on idx {off..<off + length xs} \<Longrightarrow> \<forall>i<length xs. idx (off + i) < length slots \<Longrightarrow>
     j < length xs \<Longrightarrow> put_samples idx off xs slots ! idx (off + j) = xs ! j"
proof (induction idx off xs slots arbitrary: j rule: put_samples.induct)
  case (2 idx off x xs slots)
  have b: "\<forall>i<length xs. idx (Suc off + i) < length slots"
    using "2.prems"(2) by (auto dest: spec [of _ "Suc _"])
  have inj: "inj_on idx {Suc off..<Suc off + length xs}"
    by (rule inj_on_subset [OF "2.prems"(1)]) auto
  show ?case
  proof (cases j)
    case 0
    have "\<forall>i<length xs. idx (Suc off + i) \<noteq> idx off"
      using inj_onD [OF "2.prems"(1), of "Suc off + _" off] by auto
    then have "put_samples idx (Suc off) xs (slots[idx off := x]) ! idx off = x"
      using "2.prems"(2) by (subst put_samples_other) (auto dest: spec [of _ 0])
    then show ?thesis using 0 by simp
  next
    case (Suc i)
    then show ?thesis using "2.IH" [OF inj, of i] b "2.prems"(3) by simp
  qed
qed simp

section \<open>The contiguous sample ring\<close>

record spsc_ring =
  ring_slots :: "f32 list"
  ring_head :: usize
  ring_tail :: usize

definition ring_new :: "usize \<Rightarrow> spsc_ring option" where
  "ring_new capacity_samples =
     (if capacity_samples = 0 then None
      else Some \<lparr>ring_slots = replicate (unat capacity_samples) 0, ring_head = 0, ring_tail = 0\<rparr>)"

definition ring_capacity :: "spsc_ring \<Rightarrow> usize" where
  "ring_capacity r = of_nat (length (ring_slots r))"

definition ring_len_samples :: "spsc_ring \<Rightarrow> usize" where
  "ring_len_samples r = min (ring_head r - ring_tail r) (ring_capacity r)"

text \<open>The slot of the \<open>offset\<close>-th sample counted from a head or tail counter.\<close>

definition ring_index :: "spsc_ring \<Rightarrow> usize \<Rightarrow> nat \<Rightarrow> nat" where
  "ring_index r start offset = unat ((start + of_nat offset) mod ring_capacity r)"

definition try_push_samples :: "f32 list \<Rightarrow> spsc_ring \<Rightarrow> bool \<times> spsc_ring" where
  "try_push_samples input r =
     (let head = ring_head r; tail = ring_tail r in
      if saturating_sub (ring_capacity r) (head - tail) < of_nat (length input) then (False, r)
      else (True, r\<lparr>ring_slots := put_samples (ring_index r head) 0 input (ring_slots r),
                    ring_head := head + of_nat (length input)\<rparr>))"

text \<open>The reading loop fills the whole buffer, so only its length matters.\<close>

definition get_samples :: "spsc_ring \<Rightarrow> usize \<Rightarrow> nat \<Rightarrow> f32 list" where
  "get_samples r tail n = map (\<lambda>offset. ring_slots r ! ring_index r tail offset) [0..<n]"

definition try_pop_samples :: "f32 list \<Rightarrow> spsc_ring \<Rightarrow> bool \<times> f32 list \<times> spsc_ring" where
  "try_pop_samples out r =
     (let tail = ring_tail r; head = ring_head r in
      if head - tail < of_nat (length out) then (False, out, r)
      else (True, get_samples r tail (length out), r\<lparr>ring_tail := tail + of_nat (length out)\<rparr>))"

definition discard_samples :: "usize \<Rightarrow> spsc_ring \<Rightarrow> bool \<times> spsc_ring" where
  "discard_samples sample_count r =
     (let tail = ring_tail r; head = ring_head r in
      if head - tail < sample_count then (False, r)
      else (True, r\<lparr>ring_tail := tail + sample_count\<rparr>))"

definition peek_samples :: "f32 list \<Rightarrow> spsc_ring \<Rightarrow> bool \<times> f32 list" where
  "peek_samples out r =
     (let tail = ring_tail r; head = ring_head r in
      if head - tail < of_nat (length out) then (False, out)
      else (True, get_samples r tail (length out)))"

subsection \<open>Counters that do not wrap, and the queue they denote\<close>

text \<open>
  \<open>ring_holds r H T\<close>: \<open>H\<close> samples were pushed and \<open>T\<close> consumed.  The slot of a sample is
  its counter modulo the capacity; after the counter wraps this is still so when the capacity
  divides \<open>2 ^ 64\<close>.
\<close>

definition wrap_safe :: "nat \<Rightarrow> nat \<Rightarrow> bool" where
  "wrap_safe cap H \<longleftrightarrow> cap dvd 2 ^ 64 \<or> H \<le> 2 ^ 64"

definition ring_holds :: "spsc_ring \<Rightarrow> nat \<Rightarrow> nat \<Rightarrow> bool" where
  "ring_holds r H T \<longleftrightarrow>
     (let cap = length (ring_slots r) in
      0 < cap \<and> cap < 2 ^ 64 \<and> T \<le> H \<and> H \<le> T + cap \<and> wrap_safe cap H
      \<and> ring_head r = of_nat H \<and> ring_tail r = of_nat T)"

definition ring_queue :: "spsc_ring \<Rightarrow> nat \<Rightarrow> nat \<Rightarrow> f32 list" where
  "ring_queue r H T = map (\<lambda>i. ring_slots r ! (i mod length (ring_slots r))) [T..<H]"

lemma wrap_safe_mono: "wrap_safe cap H \<Longrightarrow> H' \<le> H \<Longrightarrow> wrap_safe cap H'"
  by (auto simp: wrap_safe_def)

lemma counter_index:
  assumes "wrap_safe cap (Suc (H + off))" and "cap < 2 ^ 64"
  shows "unat ((of_nat H + of_nat off :: usize) mod of_nat cap) = (H + off) mod cap"
proof -
  have "unat ((of_nat H + of_nat off :: usize) mod of_nat cap)
      = (H + off) mod 2 ^ 64 mod cap"
    using assms(2) by (simp add: unat_mod unat_of_nat flip: of_nat_add)
  also have "\<dots> = (H + off) mod cap"
    using assms(1) by (auto simp: wrap_safe_def mod_mod_cancel)
  finally show ?thesis .
qed

lemma counter_diff:
  assumes "T \<le> H" and "H - T < 2 ^ 64"
  shows "unat (of_nat H - of_nat T :: usize) = H - T"
  using assms by (simp add: unat_of_nat flip: of_nat_diff)

lemma mod_distinct: "a < b \<Longrightarrow> b < a + (c::nat) \<Longrightarrow> a mod c \<noteq> b mod c"
proof
  assume "a < b" "b < a + c" "a mod c = b mod c"
  then have "c dvd b - a" by (metis mod_eq_dvd_iff_nat less_imp_le)
  then show False using \<open>a < b\<close> \<open>b < a + c\<close> by (auto dest: dvd_imp_le)
qed

lemma inj_mod: "inj_on (\<lambda>i. i mod c) {a..<a + (c::nat)}"
proof (rule inj_onI)
  fix x y assume "x \<in> {a..<a + c}" "y \<in> {a..<a + c}" "x mod c = y mod c"
  then show "x = y"
    using mod_distinct [of x y c] mod_distinct [of y x c] by (cases x y rule: linorder_cases) auto
qed

subsection \<open>The operations of the ring\<close>

lemma ring_index_holds:
  assumes "ring_holds r H T" and "wrap_safe (length (ring_slots r)) (Suc (K + off))"
  shows "ring_index r (of_nat K) off = (K + off) mod length (ring_slots r)"
  using counter_index [OF assms(2)] assms(1)
  by (simp add: ring_index_def ring_capacity_def ring_holds_def Let_def)

lemma get_samples_holds:
  assumes h: "ring_holds r H T" and n: "T + n \<le> H"
  shows "get_samples r (ring_tail r) n = take n (ring_queue r H T)"
proof (rule nth_equalityI)
  show "length (get_samples r (ring_tail r) n) = length (take n (ring_queue r H T))"
    using n by (simp add: get_samples_def ring_queue_def)
next
  fix i assume "i < length (get_samples r (ring_tail r) n)"
  then have i: "i < n" by (simp add: get_samples_def)
  have "wrap_safe (length (ring_slots r)) (Suc (T + i))"
    using h n i by (auto simp: ring_holds_def Let_def intro: wrap_safe_mono)
  then have "ring_index r (ring_tail r) i = (T + i) mod length (ring_slots r)"
    using ring_index_holds [OF h] h by (simp add: ring_holds_def Let_def)
  then show "get_samples r (ring_tail r) n ! i = take n (ring_queue r H T) ! i"
    using i n nth_upt [of T i H] by (simp add: get_samples_def ring_queue_def)
qed

lemma ring_avail:
  assumes "ring_holds r H T"
  shows "unat (ring_head r - ring_tail r) = H - T"
    and "unat (saturating_sub (ring_capacity r) (ring_head r - ring_tail r))
      = length (ring_slots r) - (H - T)"
proof -
  show d: "unat (ring_head r - ring_tail r) = H - T"
    using assms counter_diff [of T H] by (auto simp: ring_holds_def Let_def)
  show "unat (saturating_sub (ring_capacity r) (ring_head r - ring_tail r))
      = length (ring_slots r) - (H - T)"
    unfolding unat_saturating_sub d
    using assms by (simp add: ring_capacity_def ring_holds_def Let_def unat_of_nat)
qed

lemma less_of_nat_usize: "n < 2 ^ 64 \<Longrightarrow> (w::usize) < of_nat n \<longleftrightarrow> unat w < n"
  by (simp add: word_less_nat_alt unat_of_nat)

lemma ring_push_full:
  assumes "ring_holds r H T" "length xs < 2 ^ 64" "T + length (ring_slots r) < H + length xs"
  shows "try_push_samples xs r = (False, r)"
proof -
  have "T \<le> H" "H \<le> T + length (ring_slots r)"
    using assms(1) by (simp_all add: ring_holds_def Let_def)
  then have "unat (saturating_sub (ring_capacity r) (ring_head r - ring_tail r)) < length xs"
    using assms(3) unfolding ring_avail(2) [OF assms(1)] by linarith
  then show ?thesis
    using assms(2) by (simp add: try_push_samples_def Let_def less_of_nat_usize)
qed

lemma ring_push_ok:
  assumes h: "ring_holds r H T" and room: "H + length xs \<le> T + length (ring_slots r)"
    and safe: "wrap_safe (length (ring_slots r)) (H + length xs)"
  obtains r' where "try_push_samples xs r = (True, r')" and "ring_holds r' (H + length xs) T"
    and "ring_queue r' (H + length xs) T = ring_queue r H T @ xs"
    and "length (ring_slots r') = length (ring_slots r)"
proof -
  let ?c = "length (ring_slots r)"
  let ?idx = "ring_index r (ring_head r)"
  let ?r = "r\<lparr>ring_slots := put_samples ?idx 0 xs (ring_slots r),
    ring_head := ring_head r + of_nat (length xs)\<rparr>"
  have c: "0 < ?c" "?c < 2 ^ 64" "T \<le> H" "H \<le> T + ?c" "ring_head r = of_nat H"
    using h by (simp_all add: ring_holds_def Let_def)
  have "length xs < 2 ^ 64" using room c by linarith
  then have push: "try_push_samples xs r = (True, ?r)"
    using room c(3) ring_avail(2) [OF h]
    by (simp add: try_push_samples_def Let_def less_of_nat_usize)
  have idx: "?idx j = (H + j) mod ?c" if "j < length xs" for j
    using ring_index_holds [OF h, of H j] wrap_safe_mono [OF safe, of "Suc (H + j)"] that c(5)
    by simp
  have inj: "inj_on ?idx {0..<0 + length xs}"
  proof (rule inj_onI)
    fix i j assume ij: "i \<in> {0..<0 + length xs}" "j \<in> {0..<0 + length xs}" "?idx i = ?idx j"
    have "length xs \<le> ?c" using room c(3) by linarith
    then show "i = j"
      using inj_onD [OF inj_mod [of ?c H], of "H + i" "H + j"] ij idx by auto
  qed
  have new: "ring_slots ?r ! ((H + j) mod ?c) = xs ! j" if "j < length xs" for j
    using put_samples_nth [OF inj, of "ring_slots r" j] idx that c(1) by simp
  have old: "ring_slots ?r ! (i mod ?c) = ring_slots r ! (i mod ?c)" if "T \<le> i" "i < H" for i
  proof -
    have "?idx (0 + j) \<noteq> i mod ?c" if "j < length xs" for j
    proof -
      have "i < H + j" "H + j < i + ?c" using \<open>T \<le> i\<close> \<open>i < H\<close> that room by linarith+
      then show ?thesis using mod_distinct idx [OF that] by (metis add_0)
    qed
    then show ?thesis by (simp add: put_samples_other)
  qed
  have "ring_holds ?r (H + length xs) T"
    using h room safe by (simp add: ring_holds_def Let_def)
  moreover have "ring_queue ?r (H + length xs) T = ring_queue r H T @ xs"
  proof (rule nth_equalityI)
    show "length (ring_queue ?r (H + length xs) T) = length (ring_queue r H T @ xs)"
      using c(3) by (simp add: ring_queue_def)
  next
    fix k assume "k < length (ring_queue ?r (H + length xs) T)"
    then have k: "T + k < H + length xs" by (simp add: ring_queue_def)
    have "ring_queue ?r (H + length xs) T ! k = ring_slots ?r ! ((T + k) mod ?c)"
      using k nth_upt [of T k "H + length xs"] by (simp add: ring_queue_def)
    also have "\<dots> = (ring_queue r H T @ xs) ! k"
    proof (cases "T + k < H")
      case True
      then show ?thesis using old [of "T + k"]
        by (simp add: ring_queue_def nth_append less_diff_conv add.commute)
    next
      case False
      define j where "j = k - (H - T)"
      have j: "T + k = H + j" "j < length xs" "\<not> k < H - T"
        using False k c(3) by (simp_all add: j_def)
      then show ?thesis using new [of j] by (simp add: ring_queue_def nth_append j_def)
    qed
    finally show "ring_queue ?r (H + length xs) T ! k = (ring_queue r H T @ xs) ! k" .
  qed
  ultimately show ?thesis using that push by simp
qed

lemma ring_pop_empty:
  assumes "ring_holds r H T" "length out < 2 ^ 64" "H < T + length out"
  shows "try_pop_samples out r = (False, out, r)" "peek_samples out r = (False, out)"
  using assms ring_avail(1) [OF assms(1)]
  by (auto simp: try_pop_samples_def peek_samples_def Let_def less_of_nat_usize ring_holds_def)

lemma ring_pop_ok:
  assumes h: "ring_holds r H T" and n: "T + length out \<le> H"
  obtains r' where "try_pop_samples out r = (True, take (length out) (ring_queue r H T), r')"
    and "peek_samples out r = (True, take (length out) (ring_queue r H T))"
    and "discard_samples (of_nat (length out)) r = (True, r')"
    and "ring_holds r' H (T + length out)"
    and "ring_queue r' H (T + length out) = drop (length out) (ring_queue r H T)"
    and "ring_slots r' = ring_slots r"
proof -
  let ?r = "r\<lparr>ring_tail := ring_tail r + of_nat (length out)\<rparr>"
  have "length out < 2 ^ 64" using h n by (simp add: ring_holds_def Let_def)
  then have lt: "\<not> ring_head r - ring_tail r < of_nat (length out)"
    using ring_avail(1) [OF h] n by (simp add: less_of_nat_usize)
  have "ring_holds ?r H (T + length out)" using h n by (simp add: ring_holds_def Let_def)
  moreover have "ring_queue ?r H (T + length out) = drop (length out) (ring_queue r H T)"
    by (simp add: ring_queue_def drop_map)
  ultimately show ?thesis
    using that lt get_samples_holds [OF h n]
    by (simp add: try_pop_samples_def peek_samples_def discard_samples_def Let_def)
qed

section \<open>The fixed block pool\<close>

record block_pool =
  pool_samples :: "f32 list"
  pool_lengths :: "usize list"
  pool_block_samples :: usize
  pool_head :: usize
  pool_tail :: usize

definition pool_new :: "usize \<Rightarrow> usize \<Rightarrow> block_pool option" where
  "pool_new block_samples slots =
     (case checked_mul block_samples slots of
        None \<Rightarrow> None
      | Some sz \<Rightarrow>
          Some \<lparr>pool_samples = replicate (unat sz) 0, pool_lengths = replicate (unat slots) 0,
                pool_block_samples = block_samples, pool_head = 0, pool_tail = 0\<rparr>)"

text \<open>
  \<open>self.samples[base + offset]\<close> is checked: a block that leaves the samples panics.
\<close>

definition pool_try_push :: "f32 list \<Rightarrow> block_pool \<Rightarrow> (bool, unit) outcome \<times> block_pool" where
  "pool_try_push input p =
     (let head = pool_head p; tail = pool_tail p; slots = of_nat (length (pool_lengths p)) in
      if slots \<le> head - tail then (Ok False, p)
      else
        let slot = head mod slots; base = slot * pool_block_samples p in
        if length (pool_samples p) < unat base + length input then (Panic, p)
        else (Ok True,
              p\<lparr>pool_samples := put_samples (\<lambda>offset. unat base + offset) 0 input (pool_samples p),
                pool_lengths := (pool_lengths p)[unat slot := of_nat (length input)],
                pool_head := head + 1\<rparr>))"

definition pool_try_pop ::
  "f32 list \<Rightarrow> block_pool \<Rightarrow> (bool, unit) outcome \<times> f32 list \<times> block_pool" where
  "pool_try_pop out p =
     (let tail = pool_tail p; head = pool_head p; slots = of_nat (length (pool_lengths p)) in
      if tail = head then (Ok False, out, p)
      else
        let slot = tail mod slots in
        if pool_lengths p ! unat slot \<noteq> of_nat (length out) then (Ok False, out, p)
        else
          let base = slot * pool_block_samples p in
          if length (pool_samples p) < unat base + length out then (Panic, out, p)
          else (Ok True, map (\<lambda>offset. pool_samples p ! (unat base + offset)) [0..<length out],
                p\<lparr>pool_tail := tail + 1\<rparr>))"

definition pool_queued_blocks :: "block_pool \<Rightarrow> usize" where
  "pool_queued_blocks p =
     min (pool_head p - pool_tail p) (of_nat (length (pool_lengths p)))"

text \<open>
  \<open>pool_holds B C p n q\<close>: a pool of \<open>C\<close> slots of \<open>B\<close> samples holds the blocks \<open>q\<close> after
  \<open>n\<close> pushes.
\<close>

definition slot_holds :: "nat \<Rightarrow> block_pool \<Rightarrow> nat \<Rightarrow> f32 list \<Rightarrow> bool" where
  "slot_holds B p k x \<longleftrightarrow>
     pool_lengths p ! k = of_nat B \<and> map (\<lambda>j. pool_samples p ! (k * B + j)) [0..<B] = x"

definition pool_holds :: "nat \<Rightarrow> nat \<Rightarrow> block_pool \<Rightarrow> nat \<Rightarrow> f32 list list \<Rightarrow> bool" where
  "pool_holds B C p n q \<longleftrightarrow>
     0 < B \<and> 0 < C \<and> B * C < 2 ^ 64 \<and> length (pool_samples p) = B * C
     \<and> length (pool_lengths p) = C \<and> pool_block_samples p = of_nat B
     \<and> length q \<le> C \<and> length q \<le> n \<and> wrap_safe C n
     \<and> pool_head p = of_nat n \<and> pool_tail p = of_nat (n - length q)
     \<and> (\<forall>i<length q. slot_holds B p ((n - length q + i) mod C) (q ! i))"

lemma pool_holds_bounds:
  assumes "pool_holds B C p n q"
  shows "B < 2 ^ 64" and "C < 2 ^ 64"
proof -
  have "0 < B" "0 < C" "B * C < 2 ^ 64" using assms by (simp_all add: pool_holds_def)
  then have "B \<le> B * C" "C \<le> B * C" by simp_all
  then show "B < 2 ^ 64" "C < 2 ^ 64" using \<open>B * C < 2 ^ 64\<close> by linarith+
qed

lemma pool_base:
  assumes "pool_holds B C p n q" and "wrap_safe C (Suc m)"
  shows "unat ((of_nat m :: usize) mod of_nat C) = m mod C"
    and "unat ((of_nat m :: usize) mod of_nat C * pool_block_samples p) = m mod C * B"
    and "m mod C * B + B \<le> length (pool_samples p)"
proof -
  have h: "0 < C" "B * C < 2 ^ 64" "length (pool_samples p) = B * C"
    "pool_block_samples p = of_nat B"
    using assms(1) by (simp_all add: pool_holds_def)
  show i: "unat ((of_nat m :: usize) mod of_nat C) = m mod C"
    using counter_index [of C m 0] assms(2) pool_holds_bounds(2) [OF assms(1)] by simp
  have "Suc (m mod C) * B \<le> C * B" using h(1) by (intro mult_le_mono1) (simp add: Suc_le_eq)
  then have le: "m mod C * B + B \<le> B * C" by (simp add: mult.commute add.commute)
  then show "m mod C * B + B \<le> length (pool_samples p)" using h(3) by simp
  have "m mod C * B < 2 ^ 64" using le h(2) by linarith
  then show "unat ((of_nat m :: usize) mod of_nat C * pool_block_samples p) = m mod C * B"
    using i pool_holds_bounds(1) [OF assms(1)] unfolding h(4)
    by (subst unat_mul_no_overflow) (simp_all add: unat_of_nat)
qed

lemma slot_disjoint: "k \<noteq> k' \<Longrightarrow> j < B \<Longrightarrow> j' < (B::nat) \<Longrightarrow> k * B + j \<noteq> k' * B + j'"
proof
  assume "k \<noteq> k'" "j < B" "j' < B" "k * B + j = k' * B + j'"
  then have "(k * B + j) div B = (k' * B + j') div B" by simp
  then show False using \<open>k \<noteq> k'\<close> \<open>j < B\<close> \<open>j' < B\<close> by simp
qed

lemma pool_push_full:
  assumes h: "pool_holds B C p n q" and full: "length q = C"
  shows "pool_try_push x p = (Ok False, p)"
proof -
  have "n - C \<le> n" "n - (n - C) = C"
    using h full by (simp_all add: pool_holds_def)
  then have "unat (pool_head p - pool_tail p) = C"
    using h full counter_diff [of "n - C" n] pool_holds_bounds(2) [OF h]
    by (simp add: pool_holds_def)
  then have "of_nat (length (pool_lengths p)) \<le> pool_head p - pool_tail p"
    using h pool_holds_bounds(2) [OF h] by (simp add: pool_holds_def word_le_nat_alt unat_of_nat)
  then show ?thesis by (simp add: pool_try_push_def Let_def)
qed

lemma pool_avail:
  assumes "pool_holds B C p n q"
  shows "unat (pool_head p - pool_tail p) = length q"
proof -
  have "n - (n - length q) = length q" "length q < 2 ^ 64"
    using assms pool_holds_bounds(2) [OF assms] by (auto simp: pool_holds_def)
  then show ?thesis
    using assms counter_diff [of "n - length q" n] by (simp add: pool_holds_def)
qed

lemma pool_push_ok:
  assumes h: "pool_holds B C p n q" and room: "length q < C" and x: "length x = B"
    and safe: "wrap_safe C (Suc n)"
  obtains p' where "pool_try_push x p = (Ok True, p')" and "pool_holds B C p' (Suc n) (q @ [x])"
proof -
  note b = pool_holds_bounds [OF h] and base = pool_base [OF h safe]
  have f: "length (pool_lengths p) = C" "pool_head p = of_nat n" "length q \<le> n" "0 < C"
    using h by (simp_all add: pool_holds_def)
  let ?k = "n mod C"
  let ?p = "p\<lparr>pool_samples := put_samples (\<lambda>j. ?k * B + j) 0 x (pool_samples p),
    pool_lengths := (pool_lengths p)[?k := of_nat B], pool_head := of_nat n + 1\<rparr>"
  have "\<not> of_nat (length (pool_lengths p)) \<le> pool_head p - pool_tail p"
    using pool_avail [OF h] room f(1) b(2) by (simp add: word_le_nat_alt unat_of_nat)
  then have push: "pool_try_push x p = (Ok True, ?p)"
    using base x f by (simp add: pool_try_push_def Let_def)
  have new: "slot_holds B ?p ?k x"
  proof -
    have "map (\<lambda>j. pool_samples ?p ! (?k * B + j)) [0..<B] = x"
      using put_samples_nth [of "\<lambda>j. ?k * B + j" 0 x "pool_samples p"] base(3) x
      by (intro nth_equalityI) (simp_all add: inj_on_def)
    then show ?thesis using f by (simp add: slot_holds_def)
  qed
  have old: "slot_holds B ?p k y" if "k < C" "k \<noteq> ?k" "slot_holds B p k y" for k y
  proof -
    have "put_samples (\<lambda>j. ?k * B + j) 0 x (pool_samples p) ! (k * B + i)
        = pool_samples p ! (k * B + i)" if "i < B" for i
      using slot_disjoint [OF \<open>k \<noteq> ?k\<close> that] x by (intro put_samples_other) (auto simp: eq_commute)
    then have "map (\<lambda>i. pool_samples ?p ! (k * B + i)) [0..<B]
        = map (\<lambda>i. pool_samples p ! (k * B + i)) [0..<B]"
      by (intro map_cong) simp_all
    then show ?thesis using that(2,3) f(1) unfolding slot_holds_def by simp
  qed
  have "slot_holds B ?p ((n - length q + i) mod C) ((q @ [x]) ! i)" if "i < Suc (length q)" for i
  proof (cases "i = length q")
    case True
    then show ?thesis using new f(3) by simp
  next
    case False
    then have i: "i < length q" using that by simp
    have "n - length q + i < n" "n < n - length q + i + C" using i room f(3) by linarith+
    note ne = mod_distinct [OF this]
    have "slot_holds B p ((n - length q + i) mod C) (q ! i)"
      using h i unfolding pool_holds_def by blast
    from old [OF _ ne this] show ?thesis using i f(4) by (simp add: nth_append)
  qed
  then have "pool_holds B C ?p (Suc n) (q @ [x])"
    using h room safe by (simp add: pool_holds_def add.commute)
  then show ?thesis using that push by simp
qed

lemma pool_pop_empty:
  assumes "pool_holds B C p n []"
  shows "pool_try_pop out p = (Ok False, out, p)"
  using assms by (simp add: pool_holds_def pool_try_pop_def)

lemma pool_pop_ok:
  assumes h: "pool_holds B C p n (x # q)" and out: "length out = B"
  obtains p' where "pool_try_pop out p = (Ok True, x, p')" and "pool_holds B C p' n q"
    and "length x = B"
proof -
  let ?m = "n - length (x # q)"
  have f: "length (pool_lengths p) = C" "length (x # q) \<le> n" "0 < C" "wrap_safe C n"
    "pool_tail p = of_nat ?m" "slot_holds B p (?m mod C) x"
    using h by (auto simp: pool_holds_def dest: spec [of _ 0])
  have "wrap_safe C (Suc ?m)" using f(2) wrap_safe_mono [OF f(4), of "Suc ?m"] by simp
  note base = pool_base [OF h this]
  have "pool_tail p \<noteq> pool_head p" using pool_avail [OF h] by auto
  then have pop: "pool_try_pop out p = (Ok True, x, p\<lparr>pool_tail := of_nat ?m + 1\<rparr>)"
    using base f out unfolding slot_holds_def by (simp add: pool_try_pop_def Let_def)
  have s: "Suc ?m = n - length q" using f(2) by simp
  have "slot_holds B (p\<lparr>pool_tail := of_nat (Suc ?m)\<rparr>) ((n - length q + i) mod C) (q ! i)"
    if "i < length q" for i
  proof -
    have "\<forall>j<length (x # q). slot_holds B p ((?m + j) mod C) ((x # q) ! j)"
      using h unfolding pool_holds_def by blast
    from spec [OF this, of "Suc i"] that have "slot_holds B p ((Suc ?m + i) mod C) (q ! i)" by simp
    then show ?thesis unfolding s slot_holds_def by simp
  qed
  then have "pool_holds B C (p\<lparr>pool_tail := of_nat (Suc ?m)\<rparr>) n q"
    using h unfolding s by (simp add: pool_holds_def)
  moreover have "length x = B" using f(6) by (auto simp: slot_holds_def)
  ultimately show ?thesis using that pop by (simp add: add.commute)
qed

section \<open>The transport prototype\<close>

text \<open>
  \<open>crossbeam_queue::ArrayQueue\<close> is third-party code: its operations are a parameter.  What
  the transports rely on is its documented behaviour, a bounded queue of the capacity it was made
  with.
\<close>

record ('a, 'q) array_queue =
  aq_new :: "usize \<Rightarrow> 'q"
  aq_push :: "'a \<Rightarrow> 'q \<Rightarrow> bool \<times> 'q"
  aq_pop :: "'q \<Rightarrow> 'a option \<times> 'q"
  aq_len :: "'q \<Rightarrow> usize"
  aq_capacity :: "'q \<Rightarrow> usize"

definition array_queue_laws ::
  "('a, 'q) array_queue \<Rightarrow> (usize \<Rightarrow> 'q \<Rightarrow> nat \<Rightarrow> 'a list \<Rightarrow> bool) \<Rightarrow> bool" where
  "array_queue_laws Q rel \<longleftrightarrow>
     (\<forall>cap. 0 < cap \<longrightarrow>
        bounded_fifo (rel cap) (aq_push Q) (aq_pop Q) (aq_len Q) (\<lambda>_. True) (\<lambda>_. True) (unat cap)
        \<and> rel cap (aq_new Q cap) 0 []
        \<and> (\<forall>s n q. rel cap s n q \<longrightarrow> aq_capacity Q s = cap))"

datatype transport_kind = SampleArrayQueue | FixedBlockPool | ContiguousFrameRing

datatype 'q transport_inner = Sample 'q | Blocks block_pool | Ring spsc_ring

record 'q transport_prototype =
  tp_inner :: "'q transport_inner"
  tp_block_samples :: usize

definition transport_new :: "(f32, 'q) array_queue \<Rightarrow> transport_kind \<Rightarrow> usize \<Rightarrow> usize
    \<Rightarrow> 'q transport_prototype option" where
  "transport_new Q kind block_samples capacity_blocks =
     (if block_samples = 0 \<or> capacity_blocks < 2 then None
      else case checked_mul block_samples capacity_blocks of
        None \<Rightarrow> None
      | Some sample_capacity \<Rightarrow>
          map_option (\<lambda>i. \<lparr>tp_inner = i, tp_block_samples = block_samples\<rparr>)
            (case kind of
               SampleArrayQueue \<Rightarrow> Some (Sample (aq_new Q sample_capacity))
             | FixedBlockPool \<Rightarrow> map_option Blocks (pool_new block_samples capacity_blocks)
             | ContiguousFrameRing \<Rightarrow> map_option Ring (ring_new sample_capacity)))"

text \<open>\<open>input.iter().all(|sample| queue.push(*sample).is_ok())\<close> stops at the first failure.\<close>

fun push_all :: "('a, 'q) array_queue \<Rightarrow> 'a list \<Rightarrow> 'q \<Rightarrow> bool \<times> 'q" where
  "push_all Q [] s = (True, s)"
| "push_all Q (x # xs) s =
     (case aq_push Q x s of
        (True, s') \<Rightarrow> push_all Q xs s'
      | (False, s') \<Rightarrow> (False, s'))"

fun pop_all :: "('a, 'q) array_queue \<Rightarrow> 'a list \<Rightarrow> 'q \<Rightarrow> ('a list, unit) outcome \<times> 'q" where
  "pop_all Q [] s = (Ok [], s)"
| "pop_all Q (out # outs) s =
     (case aq_pop Q s of
        (None, s') \<Rightarrow> (Panic, s')
      | (Some x, s') \<Rightarrow>
          (case pop_all Q outs s' of
             (Ok xs, s'') \<Rightarrow> (Ok (x # xs), s'')
           | (Err e, s'') \<Rightarrow> (Err e, s'')
           | (Panic, s'') \<Rightarrow> (Panic, s'')))"

definition try_push_block :: "(f32, 'q) array_queue \<Rightarrow> f32 list \<Rightarrow> 'q transport_prototype
    \<Rightarrow> (bool, unit) outcome \<times> 'q transport_prototype" where
  "try_push_block Q input tp =
     (if of_nat (length input) \<noteq> tp_block_samples tp then (Ok False, tp)
      else case tp_inner tp of
        Sample s \<Rightarrow>
          if saturating_sub (aq_capacity Q s) (aq_len Q s) < of_nat (length input)
          then (Ok False, tp)
          else let (b, s') = push_all Q input s in (Ok b, tp\<lparr>tp_inner := Sample s'\<rparr>)
      | Blocks p \<Rightarrow> let (b, p') = pool_try_push input p in (b, tp\<lparr>tp_inner := Blocks p'\<rparr>)
      | Ring r \<Rightarrow> let (b, r') = try_push_samples input r in (Ok b, tp\<lparr>tp_inner := Ring r'\<rparr>))"

definition try_pop_block :: "(f32, 'q) array_queue \<Rightarrow> f32 list \<Rightarrow> 'q transport_prototype
    \<Rightarrow> (bool, unit) outcome \<times> f32 list \<times> 'q transport_prototype" where
  "try_pop_block Q out tp =
     (if of_nat (length out) \<noteq> tp_block_samples tp then (Ok False, out, tp)
      else case tp_inner tp of
        Sample s \<Rightarrow>
          if aq_len Q s < of_nat (length out) then (Ok False, out, tp)
          else (case pop_all Q out s of
                  (Ok xs, s') \<Rightarrow> (Ok True, xs, tp\<lparr>tp_inner := Sample s'\<rparr>)
                | (Err e, s') \<Rightarrow> (Err e, out, tp\<lparr>tp_inner := Sample s'\<rparr>)
                | (Panic, s') \<Rightarrow> (Panic, out, tp\<lparr>tp_inner := Sample s'\<rparr>))
      | Blocks p \<Rightarrow> let (b, xs, p') = pool_try_pop out p in (b, xs, tp\<lparr>tp_inner := Blocks p'\<rparr>)
      | Ring r \<Rightarrow> let (b, xs, r') = try_pop_samples out r in (Ok b, xs, tp\<lparr>tp_inner := Ring r'\<rparr>))"

definition queued_samples :: "(f32, 'q) array_queue \<Rightarrow> 'q transport_prototype \<Rightarrow> usize" where
  "queued_samples Q tp =
     (case tp_inner tp of
        Sample s \<Rightarrow> aq_len Q s
      | Blocks p \<Rightarrow> pool_queued_blocks p * tp_block_samples tp
      | Ring r \<Rightarrow> ring_len_samples r)"

subsection \<open>What a prototype holds\<close>

definition transport_holds :: "(usize \<Rightarrow> 'q \<Rightarrow> nat \<Rightarrow> f32 list \<Rightarrow> bool) \<Rightarrow> nat \<Rightarrow> nat
    \<Rightarrow> 'q transport_prototype \<Rightarrow> nat \<Rightarrow> f32 list list \<Rightarrow> bool" where
  "transport_holds rel B C tp n q \<longleftrightarrow>
     0 < B \<and> 0 < C \<and> B * C < 2 ^ 64 \<and> length q \<le> C \<and> length q \<le> n
     \<and> (\<forall>x\<in>set q. length x = B) \<and> tp_block_samples tp = of_nat B
     \<and> (case tp_inner tp of
          Sample s \<Rightarrow> \<exists>m. rel (of_nat (B * C)) s m (concat q)
        | Blocks p \<Rightarrow> pool_holds B C p n q
        | Ring r \<Rightarrow> length (ring_slots r) = B * C \<and> ring_holds r (n * B) ((n - length q) * B)
            \<and> ring_queue r (n * B) ((n - length q) * B) = concat q)"

fun transport_kind_of :: "'q transport_prototype \<Rightarrow> transport_kind" where
  "transport_kind_of tp = (case tp_inner tp of
     Sample s \<Rightarrow> SampleArrayQueue | Blocks p \<Rightarrow> FixedBlockPool | Ring r \<Rightarrow> ContiguousFrameRing)"

text \<open>How many blocks may be pushed before a wrapped counter can point at a wrong slot.\<close>

fun counter_limit :: "transport_kind \<Rightarrow> nat \<Rightarrow> nat \<Rightarrow> nat \<Rightarrow> bool" where
  "counter_limit SampleArrayQueue B C n = True"
| "counter_limit FixedBlockPool B C n = wrap_safe C n"
| "counter_limit ContiguousFrameRing B C n = wrap_safe (B * C) (n * B)"

lemma counter_limit_mono: "counter_limit k B C n \<Longrightarrow> m \<le> n \<Longrightarrow> counter_limit k B C m"
proof (cases k)
  case ContiguousFrameRing
  assume "counter_limit k B C n" "m \<le> n"
  moreover from \<open>m \<le> n\<close> have "m * B \<le> n * B" by simp
  ultimately show ?thesis using ContiguousFrameRing wrap_safe_mono [of "B * C" "n * B" "m * B"] by simp
qed (auto intro: wrap_safe_mono)

lemma block_size:
  assumes "transport_holds rel B C tp n q"
  shows "B < 2 ^ 64" and "length x < 2 ^ 64 \<Longrightarrow> of_nat (length x) = tp_block_samples tp \<longleftrightarrow> length x = B"
proof -
  have "0 < C" "B * C < 2 ^ 64" using assms by (simp_all add: transport_holds_def)
  then have "B \<le> B * C" by simp
  then show b: "B < 2 ^ 64" using \<open>B * C < 2 ^ 64\<close> by linarith
  have "of_nat (length x) = (of_nat B :: usize) \<longleftrightarrow> length x = B" if "length x < 2 ^ 64"
    using that b by (auto simp: word_unat_eq_iff unat_of_nat)
  then show "length x < 2 ^ 64 \<Longrightarrow> of_nat (length x) = tp_block_samples tp \<longleftrightarrow> length x = B"
    using assms by (simp add: transport_holds_def)
qed

lemma length_concat_blocks: "\<forall>x\<in>set q. length x = B \<Longrightarrow> length (concat q) = length q * B"
  by (induction q) simp_all

lemma blocks_room: "a * B + B \<le> B * (c::nat) \<longleftrightarrow> a < c" if "0 < B"
proof -
  have "a * B + B = B * Suc a" by simp
  then show ?thesis using that by (simp only: mult_le_cancel1 Suc_le_eq) simp
qed

lemma push_all_holds:
  "bounded_fifo R (aq_push Q) (aq_pop Q) (aq_len Q) (\<lambda>_. True) (\<lambda>_. True) cap \<Longrightarrow>
     R s n q \<Longrightarrow> length q + length xs \<le> cap \<Longrightarrow>
     \<exists>s' m. push_all Q xs s = (True, s') \<and> R s' m (q @ xs)"
proof (induction xs arbitrary: s n q)
  case (Cons x xs)
  obtain s' where "aq_push Q x s = (True, s')" "R s' (Suc n) (q @ [x])"
    using bounded_fifo.push_ok [OF Cons.prems(1,2)] Cons.prems(3) by auto
  then show ?case using Cons.IH [OF Cons.prems(1), of s' "Suc n" "q @ [x]"] Cons.prems(3) by simp
qed auto

lemma pop_all_holds:
  "bounded_fifo R (aq_push Q) (aq_pop Q) (aq_len Q) (\<lambda>_. True) (\<lambda>_. True) cap \<Longrightarrow>
     R s n (xs @ q) \<Longrightarrow> length out = length xs \<Longrightarrow>
     \<exists>s'. pop_all Q out s = (Ok xs, s') \<and> R s' n q"
proof (induction xs arbitrary: s out)
  case (Cons x xs)
  obtain o1 out' where out: "out = o1 # out'" using Cons.prems(3) by (cases out) auto
  obtain s' where s': "aq_pop Q s = (Some x, s')" "R s' n (xs @ q)"
    using bounded_fifo.pop_ok [OF Cons.prems(1)] Cons.prems(2) by fastforce
  have "length out' = length xs" using Cons.prems(3) out by simp
  from Cons.IH [OF Cons.prems(1) s'(2) this] show ?case using s'(1) out by auto
qed auto

lemma queue_fifo:
  assumes "array_queue_laws Q rel" and "0 < B * C" and "B * C < 2 ^ 64"
  shows "bounded_fifo (rel (of_nat (B * C))) (aq_push Q) (aq_pop Q) (aq_len Q)
      (\<lambda>_. True) (\<lambda>_. True) (B * C)"
    and "rel (of_nat (B * C)) s n q \<Longrightarrow> unat (aq_capacity Q s) = B * C"
    and "rel (of_nat (B * C)) s n q \<Longrightarrow> unat (aq_len Q s) = length q"
    and "rel (of_nat (B * C)) (aq_new Q (of_nat (B * C))) 0 []"
proof -
  let ?c = "of_nat (B * C) :: usize"
  have u: "unat ?c = B * C" using assms(3) unat_of_nat [of "B * C", where 'a = 64] by simp
  then have "0 < ?c" using assms(2) by (simp only: word_less_nat_alt) simp
  then have "bounded_fifo (rel ?c) (aq_push Q) (aq_pop Q) (aq_len Q) (\<lambda>_. True) (\<lambda>_. True) (unat ?c)"
    "rel ?c (aq_new Q ?c) 0 []" "\<forall>s n q. rel ?c s n q \<longrightarrow> aq_capacity Q s = ?c"
    using assms(1) unfolding array_queue_laws_def by blast+
  then show "bounded_fifo (rel ?c) (aq_push Q) (aq_pop Q) (aq_len Q) (\<lambda>_. True) (\<lambda>_. True) (B * C)"
    "rel ?c (aq_new Q ?c) 0 []"
    "rel ?c s n q \<Longrightarrow> unat (aq_capacity Q s) = B * C"
    "rel ?c s n q \<Longrightarrow> unat (aq_len Q s) = length q"
    unfolding u using bounded_fifo.count_eq u by metis+
qed

lemma transport_push_ok:
  assumes h: "transport_holds rel B C tp n q" and Q: "array_queue_laws Q rel"
    and x: "length x = B" and room: "length q < C"
    and safe: "counter_limit (transport_kind_of tp) B C (Suc n)"
  obtains tp' where "try_push_block Q x tp = (Ok True, tp')"
    and "transport_holds rel B C tp' (Suc n) (q @ [x])"
    and "transport_kind_of tp' = transport_kind_of tp"
proof -
  have f: "0 < B" "0 < C" "B * C < 2 ^ 64" "length q \<le> n" "tp_block_samples tp = of_nat B"
    and len: "length (concat q) = length q * B"
    using h by (auto simp: transport_holds_def intro: length_concat_blocks)
  have fit: "length q * B + B \<le> B * C" using room blocks_room [OF f(1)] by blast
  have blk: "\<forall>y\<in>set (q @ [x]). length y = B" using h x by (simp add: transport_holds_def)
  show ?thesis
  proof (cases "tp_inner tp")
    case (Sample s)
    obtain m where R: "rel (of_nat (B * C)) s m (concat q)"
      using h Sample by (auto simp: transport_holds_def)
    have pos: "0 < B * C" using f by simp
    note fifo = queue_fifo [OF Q pos f(3)]
    obtain s' m' where p: "push_all Q x s = (True, s')" "rel (of_nat (B * C)) s' m' (concat q @ x)"
      using push_all_holds [OF fifo(1) R, of x] len fit x by auto
    have "\<not> saturating_sub (aq_capacity Q s) (aq_len Q s) < of_nat (length x)"
      using fifo(2,3) [OF R] len fit x block_size(1) [OF h]
      by (simp add: less_of_nat_usize unat_saturating_sub)
    then have "try_push_block Q x tp = (Ok True, tp\<lparr>tp_inner := Sample s'\<rparr>)"
      using Sample f(5) x p(1) by (simp add: try_push_block_def)
    then show ?thesis
      using that h blk room f p(2) Sample by (force simp: transport_holds_def)
  next
    case (Blocks p)
    then have "pool_holds B C p n q" "wrap_safe C (Suc n)"
      using h safe by (simp_all add: transport_holds_def)
    then obtain p' where p': "pool_try_push x p = (Ok True, p')" "pool_holds B C p' (Suc n) (q @ [x])"
      using pool_push_ok room x by blast
    then have "try_push_block Q x tp = (Ok True, tp\<lparr>tp_inner := Blocks p'\<rparr>)"
      using Blocks f(5) x by (simp add: try_push_block_def)
    then show ?thesis using that blk room f p'(2) Blocks by (simp add: transport_holds_def)
  next
    case (Ring r)
    let ?T = "(n - length q) * B"
    have r: "length (ring_slots r) = B * C" "ring_holds r (n * B) ?T"
      "ring_queue r (n * B) ?T = concat q"
      using h Ring by (simp_all add: transport_holds_def)
    have "n * B = ?T + length q * B" using f(4) by (simp flip: add_mult_distrib)
    then have "n * B + length x \<le> ?T + length (ring_slots r)" using r(1) fit x by simp
    moreover have "wrap_safe (length (ring_slots r)) (n * B + length x)"
      using safe Ring r(1) x by (simp add: add.commute)
    ultimately obtain r' where r': "try_push_samples x r = (True, r')"
      "ring_holds r' (n * B + length x) ?T" "ring_queue r' (n * B + length x) ?T = concat q @ x"
      "length (ring_slots r') = B * C"
      using ring_push_ok [OF r(2)] r(1,3) by metis
    then have "try_push_block Q x tp = (Ok True, tp\<lparr>tp_inner := Ring r'\<rparr>)"
      using Ring f(5) x by (simp add: try_push_block_def)
    moreover have "transport_holds rel B C (tp\<lparr>tp_inner := Ring r'\<rparr>) (Suc n) (q @ [x])"
      using blk room f r'(2-) x by (simp add: transport_holds_def add.commute)
    ultimately show ?thesis using that Ring by simp
  qed
qed

lemma transport_push_full:
  assumes h: "transport_holds rel B C tp n q" and Q: "array_queue_laws Q rel"
    and x: "length x = B" and full: "length q = C"
  shows "try_push_block Q x tp = (Ok False, tp)"
proof -
  have f: "0 < B" "0 < C" "B * C < 2 ^ 64" "length q \<le> n" "tp_block_samples tp = of_nat B"
    and len: "length (concat q) = length q * B"
    using h by (auto simp: transport_holds_def intro: length_concat_blocks)
  note b = block_size(1) [OF h]
  show ?thesis
  proof (cases "tp_inner tp")
    case (Sample s)
    obtain m where R: "rel (of_nat (B * C)) s m (concat q)"
      using h Sample by (auto simp: transport_holds_def)
    have pos: "0 < B * C" using f by simp
    have "saturating_sub (aq_capacity Q s) (aq_len Q s) < of_nat (length x)"
      using queue_fifo(2,3) [OF Q pos f(3) R] len full f x b
      by (simp add: less_of_nat_usize unat_saturating_sub mult.commute)
    then show ?thesis using Sample f(5) x by (simp add: try_push_block_def)
  next
    case (Blocks p)
    then show ?thesis
      using h pool_push_full [of B C p n q x] full f(5) x
      by (simp add: transport_holds_def try_push_block_def)
  next
    case (Ring r)
    let ?T = "(n - length q) * B"
    have r: "length (ring_slots r) = B * C" "ring_holds r (n * B) ?T"
      using h Ring by (simp_all add: transport_holds_def)
    have "n * B = ?T + length q * B" using f(4) by (simp flip: add_mult_distrib)
    then have "?T + length (ring_slots r) < n * B + length x"
      using r(1) full x f(1) by (simp add: mult.commute)
    then show ?thesis
      using ring_push_full [OF r(2), of x] Ring f(5) x b by (simp add: try_push_block_def)
  qed
qed

lemma transport_pop_empty:
  assumes h: "transport_holds rel B C tp n []" and Q: "array_queue_laws Q rel"
    and x: "length out = B"
  shows "try_pop_block Q out tp = (Ok False, out, tp)"
proof -
  have f: "0 < B" "0 < C" "B * C < 2 ^ 64" "tp_block_samples tp = of_nat B"
    using h by (auto simp: transport_holds_def)
  note b = block_size(1) [OF h]
  show ?thesis
  proof (cases "tp_inner tp")
    case (Sample s)
    obtain m where R: "rel (of_nat (B * C)) s m []"
      using h Sample by (auto simp: transport_holds_def)
    have pos: "0 < B * C" using f by simp
    have "aq_len Q s < of_nat (length out)"
      using queue_fifo(3) [OF Q pos f(3) R] f(1) x b by (simp add: less_of_nat_usize)
    then show ?thesis using Sample f(4) x by (simp add: try_pop_block_def)
  next
    case (Blocks p)
    then show ?thesis
      using h pool_pop_empty [of B C p n out] f(4) x
      by (simp add: transport_holds_def try_pop_block_def)
  next
    case (Ring r)
    then have "ring_holds r (n * B) (n * B)" using h by (simp add: transport_holds_def)
    from ring_pop_empty(1) [OF this, of out] show ?thesis
      using Ring f(1,4) x b by (simp add: try_pop_block_def)
  qed
qed

lemma transport_pop_ok:
  assumes h: "transport_holds rel B C tp n (x # q)" and Q: "array_queue_laws Q rel"
    and out: "length out = B"
  obtains tp' where "try_pop_block Q out tp = (Ok True, x, tp')"
    and "transport_holds rel B C tp' n q" and "transport_kind_of tp' = transport_kind_of tp"
proof -
  have f: "0 < B" "0 < C" "B * C < 2 ^ 64" "Suc (length q) \<le> n" "tp_block_samples tp = of_nat B"
    "length x = B" "Suc (length q) \<le> C" and blk: "\<forall>y\<in>set q. length y = B"
    using h by (auto simp: transport_holds_def)
  have len: "length (concat (x # q)) = Suc (length q) * B"
    using f(6) length_concat_blocks [OF blk] by simp
  note b = block_size(1) [OF h]
  show ?thesis
  proof (cases "tp_inner tp")
    case (Sample s)
    obtain m where R: "rel (of_nat (B * C)) s m (x @ concat q)"
      using h Sample by (auto simp: transport_holds_def)
    have pos: "0 < B * C" using f by simp
    note fifo = queue_fifo [OF Q pos f(3)]
    have "length out = length x" using f(6) out by simp
    then obtain s' where s': "pop_all Q out s = (Ok x, s')" "rel (of_nat (B * C)) s' m (concat q)"
      using pop_all_holds [OF fifo(1) R] by blast
    have "\<not> aq_len Q s < of_nat (length out)"
      using fifo(3) [OF R] f(6) out b by (simp add: less_of_nat_usize)
    then have "try_pop_block Q out tp = (Ok True, x, tp\<lparr>tp_inner := Sample s'\<rparr>)"
      using Sample f(5) out s'(1) by (simp add: try_pop_block_def)
    then show ?thesis using that blk f s'(2) Sample by (force simp: transport_holds_def)
  next
    case (Blocks p)
    then have "pool_holds B C p n (x # q)" using h by (simp add: transport_holds_def)
    then obtain p' where p': "pool_try_pop out p = (Ok True, x, p')" "pool_holds B C p' n q"
      using pool_pop_ok out by metis
    then have "try_pop_block Q out tp = (Ok True, x, tp\<lparr>tp_inner := Blocks p'\<rparr>)"
      using Blocks f(5) out by (simp add: try_pop_block_def)
    then show ?thesis using that blk f p'(2) Blocks by (simp add: transport_holds_def)
  next
    case (Ring r)
    let ?T = "(n - Suc (length q)) * B"
    have r: "length (ring_slots r) = B * C" "ring_holds r (n * B) ?T"
      "ring_queue r (n * B) ?T = x @ concat q"
      using h Ring by (simp_all add: transport_holds_def)
    have T: "?T + B = (n - length q) * B"
      using f(4) by (metis Suc_diff_Suc Suc_le_lessD add.commute mult_Suc)
    then have "?T + length out \<le> n * B" using out by simp
    then obtain r' where r': "try_pop_samples out r = (True, x, r')"
      "ring_holds r' (n * B) ((n - length q) * B)"
      "ring_queue r' (n * B) ((n - length q) * B) = concat q" "ring_slots r' = ring_slots r"
      using ring_pop_ok [OF r(2)] r(3) T out f(6) by (metis append_eq_conv_conj)
    then have "try_pop_block Q out tp = (Ok True, x, tp\<lparr>tp_inner := Ring r'\<rparr>)"
      using Ring f(5) out by (simp add: try_pop_block_def)
    then show ?thesis using that blk f r(1) r' Ring by (simp add: transport_holds_def)
  qed
qed

lemma unat_eqD: "unat w = n \<Longrightarrow> w = of_nat n"
  by auto

lemma transport_queued:
  assumes h: "transport_holds rel B C tp n q" and Q: "array_queue_laws Q rel"
  shows "queued_samples Q tp = of_nat (length q * B)"
proof -
  have f: "0 < B" "0 < C" "B * C < 2 ^ 64" "length q \<le> n" "tp_block_samples tp = of_nat B"
    "length q \<le> C"
    and len: "length (concat q) = length q * B"
    using h by (auto simp: transport_holds_def intro: length_concat_blocks)
  have le: "length q * B \<le> B * C" using mult_le_mono1 [OF f(6), of B] by (simp only: mult.commute)
  then have lt: "length q * B < 2 ^ 64" using f(3) by linarith
  show ?thesis
  proof (cases "tp_inner tp")
    case (Sample s)
    then obtain m where R: "rel (of_nat (B * C)) s m (concat q)"
      using h by (auto simp: transport_holds_def)
    have pos: "0 < B * C" using f by simp
    have "unat (aq_len Q s) = length q * B" using queue_fifo(3) [OF Q pos f(3) R] len by simp
    then show ?thesis
      using Sample unat_eqD [of "aq_len Q s"] by (simp add: queued_samples_def)
  next
    case (Blocks p)
    then have p: "pool_holds B C p n q" using h by (simp add: transport_holds_def)
    then have "unat (pool_queued_blocks p) = length q"
      using pool_avail [OF p] f(6) pool_holds_bounds(2) [OF p]
      by (simp add: pool_queued_blocks_def min_def word_le_nat_alt unat_of_nat pool_holds_def)
    then have "pool_queued_blocks p = of_nat (length q)"
      using unat_eqD [of "pool_queued_blocks p"] by simp
    then show ?thesis using Blocks f(5) by (simp add: queued_samples_def)
  next
    case (Ring r)
    let ?T = "(n - length q) * B"
    have r: "length (ring_slots r) = B * C" "ring_holds r (n * B) ?T"
      using h Ring by (simp_all add: transport_holds_def)
    have "n * B - ?T = length q * B" using f(4) by (simp flip: diff_mult_distrib)
    then have "unat (ring_head r - ring_tail r) = length q * B" using ring_avail(1) [OF r(2)] by simp
    moreover have "length (ring_slots r) < 2 ^ 64" using r(1) f(3) by simp
    then have "unat (ring_capacity r) = length (ring_slots r)"
      by (simp add: ring_capacity_def unat_of_nat)
    ultimately have "unat (ring_len_samples r) = length q * B"
      using r(1) le by (simp add: ring_len_samples_def min_def word_le_nat_alt)
    then show ?thesis
      using Ring unat_eqD [of "ring_len_samples r"] by (simp add: queued_samples_def)
  qed
qed

section \<open>Interpretations of the queue contract\<close>

text \<open>The pool as a queue of blocks, and the ring as a queue of samples.\<close>

definition pool_push :: "f32 list \<Rightarrow> block_pool \<Rightarrow> bool \<times> block_pool" where
  "pool_push x p = (let (b, p') = pool_try_push x p in (b = Ok True, p'))"

definition pool_pop :: "nat \<Rightarrow> block_pool \<Rightarrow> f32 list option \<times> block_pool" where
  "pool_pop B p = (let (b, x, p') = pool_try_pop (replicate B 0) p in
     (if b = Ok True then Some x else None, p'))"

interpretation pool_fifo: bounded_fifo "pool_holds B C" pool_push "pool_pop B" pool_queued_blocks
    "\<lambda>x. length x = B" "wrap_safe C" C for B C
proof unfold_locales
  fix p n q assume h: "pool_holds B C p n q"
  then show "length q \<le> C" by (simp add: pool_holds_def)
  show "unat (pool_queued_blocks p) = length q"
    using pool_avail [OF h] pool_holds_bounds(2) [OF h] h
    by (simp add: pool_queued_blocks_def min_def word_le_nat_alt unat_of_nat pool_holds_def)
  show "\<exists>p'. pool_push x p = (True, p') \<and> pool_holds B C p' (Suc n) (q @ [x])"
    if "length x = B" "length q < C" "wrap_safe C (Suc n)" for x
  proof -
    note ok = pool_push_ok [OF h that(2,1,3)]
    obtain p' where "pool_try_push x p = (Ok True, p')" "pool_holds B C p' (Suc n) (q @ [x])"
      by (rule ok)
    then show ?thesis by (simp add: pool_push_def)
  qed
  show "pool_push x p = (False, p)" if "length q = C" for x
    using pool_push_full [OF h that] by (simp add: pool_push_def)
next
  fix p n assume "pool_holds B C p n []"
  then show "pool_pop B p = (None, p)" by (simp add: pool_pop_empty pool_pop_def)
next
  fix p n x q assume "pool_holds B C p n (x # q)"
  note ok = pool_pop_ok [OF this, of "replicate B 0"]
  obtain p' where "pool_try_pop (replicate B 0) p = (Ok True, x, p')" "pool_holds B C p' n q"
    by (rule ok) simp_all
  then show "\<exists>p'. pool_pop B p = (Some x, p') \<and> pool_holds B C p' n q"
    by (simp add: pool_pop_def)
qed (auto intro: wrap_safe_mono)

definition ring_push :: "f32 \<Rightarrow> spsc_ring \<Rightarrow> bool \<times> spsc_ring" where
  "ring_push x r = try_push_samples [x] r"

definition ring_pop :: "spsc_ring \<Rightarrow> f32 option \<times> spsc_ring" where
  "ring_pop r = (let (b, xs, r') = try_pop_samples [0] r in (if b then Some (hd xs) else None, r'))"

definition ring_fifo_rel :: "nat \<Rightarrow> spsc_ring \<Rightarrow> nat \<Rightarrow> f32 list \<Rightarrow> bool" where
  "ring_fifo_rel c r n q \<longleftrightarrow> length (ring_slots r) = c \<and> length q \<le> n
     \<and> ring_holds r n (n - length q) \<and> ring_queue r n (n - length q) = q"

interpretation ring_fifo: bounded_fifo "ring_fifo_rel c" ring_push ring_pop ring_len_samples
    "\<lambda>_. True" "wrap_safe c" c for c
proof unfold_locales
  fix r n q assume "ring_fifo_rel c r n q"
  then have c: "length (ring_slots r) = c" "length q \<le> n" and h: "ring_holds r n (n - length q)"
    and q: "ring_queue r n (n - length q) = q" by (simp_all add: ring_fifo_rel_def)
  have "n \<le> n - length q + c" using h c(1) by (simp add: ring_holds_def Let_def)
  then show le: "length q \<le> c" using c(2) by linarith
  show "unat (ring_len_samples r) = length q"
    using ring_avail(1) [OF h] c le h
    by (simp add: ring_len_samples_def min_def word_le_nat_alt unat_of_nat ring_capacity_def
        ring_holds_def)
  show "\<exists>r'. ring_push x r = (True, r') \<and> ring_fifo_rel c r' (Suc n) (q @ [x])"
    if "length q < c" "wrap_safe c (Suc n)" for x
  proof -
    have "n + length [x] \<le> n - length q + length (ring_slots r)"
      "wrap_safe (length (ring_slots r)) (n + length [x])" using that c by simp_all
    then obtain r' where "try_push_samples [x] r = (True, r')"
      "ring_holds r' (Suc n) (n - length q)" "ring_queue r' (Suc n) (n - length q) = q @ [x]"
      "length (ring_slots r') = length (ring_slots r)"
      using ring_push_ok [OF h, of "[x]"] q by auto
    then show ?thesis using c by (simp add: ring_push_def ring_fifo_rel_def)
  qed
  show "ring_push x r = (False, r)" if "length q = c" for x
    using ring_push_full [OF h, of "[x]"] that c by (simp add: ring_push_def)
next
  fix r n assume "ring_fifo_rel c r n []"
  then show "ring_pop r = (None, r)"
    using ring_pop_empty(1) [of r n n "[0]"] by (simp add: ring_fifo_rel_def ring_pop_def)
next
  fix r n x q assume "ring_fifo_rel c r n (x # q)"
  then have c: "length (ring_slots r) = c" "Suc (length q) \<le> n"
    and h: "ring_holds r n (n - Suc (length q))"
    and q: "ring_queue r n (n - Suc (length q)) = x # q" by (simp_all add: ring_fifo_rel_def)
  have T: "n - Suc (length q) + length [0::f32] = n - length q" using c(2) by simp
  then have "n - Suc (length q) + length [0::f32] \<le> n" by simp
  from ring_pop_ok [OF h this] obtain r' where
    "try_pop_samples [0] r = (True, [x], r')" "ring_holds r' n (n - length q)"
    "ring_queue r' n (n - length q) = q" "ring_slots r' = ring_slots r"
    unfolding T q by auto
  then show "\<exists>r'. ring_pop r = (Some x, r') \<and> ring_fifo_rel c r' n q"
    using c by (simp add: ring_pop_def ring_fifo_rel_def)
qed (auto intro: wrap_safe_mono)

section \<open>Every transport behaves as one bounded queue of blocks\<close>

datatype transport_op = PushBlock "f32 list" | PopBlock "f32 list" | QueuedSamples

datatype transport_reply =
    PushReply "(bool, unit) outcome"
  | PopReply "(bool, unit) outcome" "f32 list"
  | QueuedReply usize

fun transport_run :: "(f32, 'q) array_queue \<Rightarrow> transport_op list \<Rightarrow> 'q transport_prototype
    \<Rightarrow> transport_reply list" where
  "transport_run Q [] tp = []"
| "transport_run Q (PushBlock x # os) tp =
     (let (b, tp') = try_push_block Q x tp in PushReply b # transport_run Q os tp')"
| "transport_run Q (PopBlock x # os) tp =
     (let (b, y, tp') = try_pop_block Q x tp in PopReply b y # transport_run Q os tp')"
| "transport_run Q (QueuedSamples # os) tp =
     QueuedReply (queued_samples Q tp) # transport_run Q os tp"

text \<open>
  The reference: a list of at most \<open>C\<close> blocks of \<open>B\<close> samples; anything of another size is
  refused.
\<close>

fun block_run :: "nat \<Rightarrow> nat \<Rightarrow> transport_op list \<Rightarrow> f32 list list \<Rightarrow> transport_reply list" where
  "block_run B C [] q = []"
| "block_run B C (PushBlock x # os) q =
     (if length x = B \<and> length q < C then PushReply (Ok True) # block_run B C os (q @ [x])
      else PushReply (Ok False) # block_run B C os q)"
| "block_run B C (PopBlock x # os) q =
     (case q of
        y # q' \<Rightarrow> if length x = B then PopReply (Ok True) y # block_run B C os q'
                  else PopReply (Ok False) x # block_run B C os q
      | [] \<Rightarrow> PopReply (Ok False) x # block_run B C os q)"
| "block_run B C (QueuedSamples # os) q =
     QueuedReply (of_nat (length q * B)) # block_run B C os q"

primrec buffer_fits :: "transport_op \<Rightarrow> bool" where
  "buffer_fits (PushBlock x) = (length x < 2 ^ 64)"
| "buffer_fits (PopBlock x) = (length x < 2 ^ 64)"
| "buffer_fits QueuedSamples = True"

lemma transport_wrong_size:
  assumes "transport_holds rel B C tp n q" "length x < 2 ^ 64" "length x \<noteq> B"
  shows "try_push_block Q x tp = (Ok False, tp)" "try_pop_block Q x tp = (Ok False, x, tp)"
  using block_size(2) [OF assms(1,2)] assms(3)
  by (simp_all add: try_push_block_def try_pop_block_def)

lemma transport_run_holds:
  "array_queue_laws Q rel \<Longrightarrow> transport_holds rel B C tp n q \<Longrightarrow> list_all buffer_fits os \<Longrightarrow>
     counter_limit (transport_kind_of tp) B C (n + length os) \<Longrightarrow>
     transport_run Q os tp = block_run B C os q"
proof (induction os arbitrary: tp n q)
  case (Cons a os)
  note Q = Cons.prems(1) and h = Cons.prems(2)
  have lim: "counter_limit (transport_kind_of tp) B C (Suc n)"
    "counter_limit (transport_kind_of tp) B C (Suc n + length os)"
    "counter_limit (transport_kind_of tp) B C (n + length os)"
    using counter_limit_mono [OF Cons.prems(4)] by simp_all
  have fits: "list_all buffer_fits os" using Cons.prems(3) by simp
  note skip = Cons.IH [OF Q h fits lim(3)]
  show ?case
  proof (cases a)
    case (PushBlock x)
    have "length q \<le> C" using h by (simp add: transport_holds_def)
    then consider "length x \<noteq> B" | "length x = B" "length q = C" | "length x = B" "length q < C"
      by linarith
    then show ?thesis
    proof cases
      case 1
      then show ?thesis using transport_wrong_size(1) [OF h] skip PushBlock Cons.prems(3) by simp
    next
      case 2
      then show ?thesis using transport_push_full [OF h Q] skip PushBlock by simp
    next
      case 3
      note ok = transport_push_ok [OF h Q 3 lim(1)]
      obtain tp' where "try_push_block Q x tp = (Ok True, tp')"
        and h': "transport_holds rel B C tp' (Suc n) (q @ [x])"
        and k: "transport_kind_of tp' = transport_kind_of tp" by (rule ok)
      then show ?thesis using Cons.IH [OF Q h' fits] lim(2) 3 PushBlock by simp
    qed
  next
    case (PopBlock x)
    consider "length x \<noteq> B" | "length x = B" "q = []" | y q' where "length x = B" "q = y # q'"
      by (cases q) auto
    then show ?thesis
    proof cases
      case 1
      then show ?thesis
        using transport_wrong_size(2) [OF h] skip PopBlock Cons.prems(3) by (cases q) simp_all
    next
      case 2
      then show ?thesis using transport_pop_empty [OF _ Q, of B C tp n x] h skip PopBlock by simp
    next
      case (3 y q')
      note ok = transport_pop_ok [OF h [unfolded 3(2)] Q 3(1)]
      obtain tp' where "try_pop_block Q x tp = (Ok True, y, tp')"
        and h': "transport_holds rel B C tp' n q'"
        and k: "transport_kind_of tp' = transport_kind_of tp" by (rule ok)
      then show ?thesis using Cons.IH [OF Q h' fits] lim(3) 3 PopBlock by simp
    qed
  next
    case QueuedSamples
    then show ?thesis using transport_queued [OF h Q] skip by simp
  qed
qed simp

lemma transport_new_holds:
  assumes "array_queue_laws Q rel" and "transport_new Q kind B C = Some tp"
  shows "transport_holds rel (unat B) (unat C) tp 0 []" and "transport_kind_of tp = kind"
    and "2 \<le> unat C"
proof -
  from assms(2) obtain sz where sz: "checked_mul B C = Some sz" and B: "B \<noteq> 0" and C: "\<not> C < 2"
    by (auto simp: transport_new_def split: if_splits option.splits)
  have u: "unat sz = unat B * unat C" "sz = B * C" using sz checked_mul_Some [of B C sz] by blast+
  have p: "0 < unat B" "2 \<le> unat C" using B C by (simp_all add: word_less_nat_alt unat_gt_0)
  have "unat sz < 2 ^ LENGTH(64)" by (rule unsigned_less)
  then have lt: "unat B * unat C < 2 ^ 64" using u(1) by simp
  have "0 < unat sz" using u p by simp
  then have nz: "sz \<noteq> 0" by auto
  show "2 \<le> unat C" by (rule p)
  show "transport_kind_of tp = kind"
    using assms(2) sz by (auto simp: transport_new_def split: transport_kind.splits if_splits)
  have "rel (of_nat (unat B * unat C)) (aq_new Q sz) 0 []"
    using queue_fifo(4) [OF assms(1) _ lt] p u(2) by simp
  then show "transport_holds rel (unat B) (unat C) tp 0 []"
    using assms(2) sz p lt nz u
    by (auto simp: transport_new_def transport_holds_def pool_new_def pool_holds_def ring_new_def
        ring_holds_def ring_queue_def wrap_safe_def split: transport_kind.splits if_splits)
qed

text \<open>A list of at most the requested capacity is such a queue.\<close>

definition list_queue :: "('a, 'a list \<times> nat) array_queue" where
  "list_queue = \<lparr>aq_new = (\<lambda>cap. ([], unat cap)),
     aq_push = (\<lambda>x (q, c). if length q < c then (True, q @ [x], c) else (False, q, c)),
     aq_pop = (\<lambda>(q, c). case q of [] \<Rightarrow> (None, [], c) | x # q' \<Rightarrow> (Some x, q', c)),
     aq_len = (\<lambda>(q, c). of_nat (length q)),
     aq_capacity = (\<lambda>(q, c). of_nat c)\<rparr>"

definition list_queue_rel :: "usize \<Rightarrow> 'a list \<times> nat \<Rightarrow> nat \<Rightarrow> 'a list \<Rightarrow> bool" where
  "list_queue_rel cap s n q \<longleftrightarrow> s = (q, unat cap) \<and> length q \<le> unat cap"

lemma list_queue_laws: "array_queue_laws list_queue list_queue_rel"
proof -
  have lt: "n < 2 ^ 64" if "n \<le> unat cap" for n and cap :: usize
  proof -
    have "unat cap < 2 ^ LENGTH(64)" by (rule unsigned_less)
    then show ?thesis using that by simp
  qed
  show ?thesis
    unfolding array_queue_laws_def bounded_fifo_def
    by (auto simp: list_queue_def list_queue_rel_def unat_of_nat dest!: lt)
qed

text \<open>
  C11: All three transports (single samples through the third-party queue, the block pool, the
  contiguous ring) answer every sequence of pushes, pops and length queries exactly as one bounded
  list of blocks does: blocks come out once, complete, in order, a full transport refuses, an
  empty one leaves the buffer alone, a buffer of another size is refused, and nothing panics.  The
  wrapping counters limit this to \<open>2 ^ 64\<close> pushes unless the capacity divides \<open>2 ^ 64\<close>.
\<close>

theorem transports_are_bounded_queues:
  assumes "array_queue_laws Q rel"
    and "transport_new Q kind B C = Some tp"
    and "list_all buffer_fits os"
    and "counter_limit kind (unat B) (unat C) (length os)"
  shows "transport_run Q os tp = block_run (unat B) (unat C) os []"
  using transport_run_holds [OF assms(1) transport_new_holds(1) [OF assms(1,2)] assms(3)] assms(4)
    transport_new_holds(2) [OF assms(1,2)]
  by simp

theorem transports_are_bounded_queues_witness:
  "\<exists>tp. transport_new list_queue ContiguousFrameRing 2 2 = Some tp
    \<and> transport_run list_queue
        [PushBlock [1, 2], PushBlock [3, 4], PushBlock [5, 6], PopBlock [0, 0], PushBlock [7, 8],
         QueuedSamples, PopBlock [0], PopBlock [0, 0], PopBlock [0, 0], PopBlock [9, 9]] tp
      = [PushReply (Ok True), PushReply (Ok True), PushReply (Ok False), PopReply (Ok True) [1, 2],
         PushReply (Ok True), QueuedReply 4, PopReply (Ok False) [0], PopReply (Ok True) [3, 4],
         PopReply (Ok True) [7, 8], PopReply (Ok False) [9, 9]]"
proof -
  obtain tp where tp: "transport_new list_queue ContiguousFrameRing 2 2 = Some tp"
    by (simp add: transport_new_def ring_new_def checked_mul_def)
  show ?thesis
    using tp transports_are_bounded_queues [OF list_queue_laws tp, of
        "[PushBlock [1, 2], PushBlock [3, 4], PushBlock [5, 6], PopBlock [0, 0], PushBlock [7, 8],
         QueuedSamples, PopBlock [0], PopBlock [0, 0], PopBlock [0, 0], PopBlock [9, 9]]"]
    by (simp add: wrap_safe_def)
qed

text \<open>
  The bound is sharp in the code: a ring of three slots whose counters stand just below the wrap
  hands out a sample twice and loses the other.
\<close>

lemma ring_counter_wrap_corrupts:
  "let r = \<lparr>ring_slots = [0, 0, 0], ring_head = - 1, ring_tail = - 1\<rparr>;
       (pushed, r') = try_push_samples [7, 8] r
   in ring_holds r (2 ^ 64 - 1) (2 ^ 64 - 1) \<and> pushed
      \<and> fst (snd (try_pop_samples [0, 0] r')) = [8, 8]"
  by (simp add: try_push_samples_def try_pop_samples_def Let_def ring_index_def ring_capacity_def
      get_samples_def saturating_sub_def ring_holds_def wrap_safe_def upt_rec)

end
