(* ===== verification/Ring_Interleaving.thy ===== *)
theory Ring_Interleaving
  imports Block_Transport
begin

text \<open>
  The contiguous sample ring of \<open>transport.rs\<close> under concurrency: one producer and one
  consumer thread, every load, store and slot access a step of its own, in any interleaving.
  (The acquire and release orderings of the source make the interleavings of these steps the
  behaviours of the two threads.)
\<close>

section \<open>Threads\<close>

text \<open>
  The producer has loaded the head, and then the tail; it then writes sample by sample.  The
  consumer has loaded the tail, and then the head; it reads sample by sample (\<open>pop\<close>,
  \<open>peek\<close>) or goes to the store (\<open>discard\<close>).
\<close>

datatype producer_pc =
    PIdle
  | PHead "f32 list" usize
  | PWrite "f32 list" usize nat

datatype consumer_call = PopCall nat | PeekCall nat | DiscardCall nat

datatype consumer_pc =
    CIdle
  | CTail consumer_call usize
  | CRead bool nat usize "f32 list"
  | CRelease usize nat

text \<open>
  Besides the shared ring the state records what was published, what was consumed (popped or
  discarded), and every completed read with the stream position it began at.
\<close>

record ring_threads =
  shared :: spsc_ring
  producer :: producer_pc
  consumer :: consumer_pc
  pushed :: "f32 list"
  consumed :: "f32 list"
  reads :: "(nat \<times> f32 list) list"

definition threads_new :: "spsc_ring \<Rightarrow> ring_threads" where
  "threads_new r = \<lparr>shared = r, producer = PIdle, consumer = CIdle, pushed = [], consumed = [],
     reads = []\<rparr>"

definition producer_step :: "ring_threads \<Rightarrow> ring_threads" where
  "producer_step s =
     (let r = shared s in
      case producer s of
        PIdle \<Rightarrow> s
      | PHead input head \<Rightarrow>
          if saturating_sub (ring_capacity r) (head - ring_tail r) < of_nat (length input)
          then s\<lparr>producer := PIdle\<rparr>
          else s\<lparr>producer := PWrite input head 0\<rparr>
      | PWrite input head offset \<Rightarrow>
          if offset < length input
          then s\<lparr>shared := r\<lparr>ring_slots := (ring_slots r)[ring_index r head offset := input ! offset]\<rparr>,
                 producer := PWrite input head (Suc offset)\<rparr>
          else s\<lparr>shared := r\<lparr>ring_head := head + of_nat (length input)\<rparr>,
                 pushed := pushed s @ input, producer := PIdle\<rparr>)"

primrec call_samples :: "consumer_call \<Rightarrow> nat" where
  "call_samples (PopCall n) = n"
| "call_samples (PeekCall n) = n"
| "call_samples (DiscardCall n) = n"

definition consumer_step :: "ring_threads \<Rightarrow> ring_threads" where
  "consumer_step s =
     (let r = shared s in
      case consumer s of
        CIdle \<Rightarrow> s
      | CTail call tail \<Rightarrow>
          if ring_head r - tail < of_nat (call_samples call) then s\<lparr>consumer := CIdle\<rparr>
          else s\<lparr>consumer := (case call of
                   PopCall n \<Rightarrow> CRead True n tail []
                 | PeekCall n \<Rightarrow> CRead False n tail []
                 | DiscardCall n \<Rightarrow> CRelease tail n)\<rparr>
      | CRead release n tail out \<Rightarrow>
          if length out < n
          then s\<lparr>consumer := CRead release n tail
                   (out @ [ring_slots r ! ring_index r tail (length out)])\<rparr>
          else
            let s' = s\<lparr>reads := reads s @ [(length (consumed s), out)], consumer := CIdle\<rparr> in
            if release
            then s'\<lparr>shared := r\<lparr>ring_tail := tail + of_nat n\<rparr>, consumed := consumed s @ out\<rparr>
            else s'
      | CRelease tail n \<Rightarrow>
          s\<lparr>shared := r\<lparr>ring_tail := tail + of_nat n\<rparr>, consumer := CIdle,
            consumed := consumed s @ take n (drop (length (consumed s)) (pushed s))\<rparr>)"

text \<open>A schedule starts calls on idle threads and lets either thread take its next step.\<close>

datatype thread_step = PushBegin "f32 list" | PStep | CallBegin consumer_call | CStep

fun ring_step :: "thread_step \<Rightarrow> ring_threads \<Rightarrow> ring_threads" where
  "ring_step (PushBegin input) s =
     (if producer s = PIdle then s\<lparr>producer := PHead input (ring_head (shared s))\<rparr> else s)"
| "ring_step PStep s = producer_step s"
| "ring_step (CallBegin call) s =
     (if consumer s = CIdle then s\<lparr>consumer := CTail call (ring_tail (shared s))\<rparr> else s)"
| "ring_step CStep s = consumer_step s"

definition ring_schedule :: "thread_step list \<Rightarrow> ring_threads \<Rightarrow> ring_threads" where
  "ring_schedule ts s = fold ring_step ts s"

primrec step_fits :: "thread_step \<Rightarrow> bool" where
  "step_fits (PushBegin input) = (length input < 2 ^ 64)"
| "step_fits PStep = True"
| "step_fits (CallBegin call) = (call_samples call < 2 ^ 64)"
| "step_fits CStep = True"

section \<open>The steps of a call, run alone, are the operation\<close>

lemma producer_writes:
  "producer s = PWrite input head off \<Longrightarrow> off + k = length input \<Longrightarrow>
     (producer_step ^^ k) s = s\<lparr>producer := PWrite input head (length input),
       shared := (shared s)\<lparr>ring_slots :=
         put_samples (ring_index (shared s) head) off (drop off input) (ring_slots (shared s))\<rparr>\<rparr>"
proof (induction k arbitrary: s off)
  case (Suc k)
  let ?r = "shared s"
  let ?s = "s\<lparr>shared := ?r\<lparr>ring_slots := (ring_slots ?r)[ring_index ?r head off := input ! off]\<rparr>,
    producer := PWrite input head (Suc off)\<rparr>"
  have "off < length input" using Suc.prems(2) by simp
  then have step: "producer_step s = ?s" and d: "drop off input = input ! off # drop (Suc off) input"
    using Suc.prems(1) by (simp_all add: producer_step_def Let_def Cons_nth_drop_Suc)
  have "ring_index (shared ?s) head = ring_index ?r head"
    by (simp add: ring_index_def ring_capacity_def fun_eq_iff)
  with Suc.IH [of ?s "Suc off"] Suc.prems(2) show ?case
    unfolding funpow_Suc_right comp_def step d by simp
qed simp

lemma push_alone:
  assumes "producer s = PIdle"
  shows "shared ((producer_step ^^ (length input + 2)) (ring_step (PushBegin input) s))
    = snd (try_push_samples input (shared s))"
proof -
  let ?r = "shared s"
  let ?s0 = "s\<lparr>producer := PHead input (ring_head ?r)\<rparr>"
  have idle: "(producer_step ^^ k) t = t" if "producer t = PIdle" for k t
    using that by (induction k) (simp_all add: producer_step_def)
  have start: "ring_step (PushBegin input) s = ?s0" using assms by simp
  have split: "length input + 2 = Suc (Suc (length input))" by simp
  show ?thesis
  proof (cases "saturating_sub (ring_capacity ?r) (ring_head ?r - ring_tail ?r)
      < of_nat (length input)")
    case True
    then have "producer_step ?s0 = s\<lparr>producer := PIdle\<rparr>" by (simp add: producer_step_def)
    then have "(producer_step ^^ (length input + 2)) ?s0 = s\<lparr>producer := PIdle\<rparr>"
      unfolding split funpow_Suc_right comp_def by (simp add: idle producer_step_def)
    then show ?thesis using True start by (simp add: try_push_samples_def Let_def)
  next
    case False
    let ?s1 = "s\<lparr>producer := PWrite input (ring_head ?r) 0\<rparr>"
    have "producer_step ?s0 = ?s1" using False by (simp add: producer_step_def)
    then have "(producer_step ^^ (length input + 2)) ?s0
        = producer_step ((producer_step ^^ length input) ?s1)"
      by (simp add: funpow_swap1)
    then show ?thesis
      using False start producer_writes [of ?s1 input "ring_head ?r" 0 "length input"]
      by (simp add: try_push_samples_def Let_def producer_step_def)
  qed
qed

lemma consumer_reads:
  "consumer s = CRead release n tail out \<Longrightarrow> length out + k = n \<Longrightarrow>
     (consumer_step ^^ k) s = s\<lparr>consumer := CRead release n tail
       (out @ map (\<lambda>i. ring_slots (shared s) ! ring_index (shared s) tail i) [length out..<n])\<rparr>"
proof (induction k arbitrary: s out)
  case (Suc k)
  let ?x = "ring_slots (shared s) ! ring_index (shared s) tail (length out)"
  let ?s = "s\<lparr>consumer := CRead release n tail (out @ [?x])\<rparr>"
  have "length out < n" using Suc.prems(2) by simp
  then have step: "consumer_step s = ?s" and u: "[length out..<n] = length out # [Suc (length out)..<n]"
    using Suc.prems(1) by (simp_all add: consumer_step_def Let_def upt_conv_Cons)
  show ?case
    using Suc.IH [of ?s "out @ [?x]"] Suc.prems(2)
    unfolding funpow_Suc_right comp_def step u by simp
qed simp

lemma pop_alone:
  assumes "consumer s = CIdle"
  shows "shared ((consumer_step ^^ (length out + 2)) (ring_step (CallBegin (PopCall (length out))) s))
      = snd (snd (try_pop_samples out (shared s)))"
    and "reads ((consumer_step ^^ (length out + 2)) (ring_step (CallBegin (PopCall (length out))) s))
      = (case try_pop_samples out (shared s) of
          (b, xs, _) \<Rightarrow> if b then reads s @ [(length (consumed s), xs)] else reads s)"
proof -
  let ?r = "shared s"
  let ?n = "length out"
  let ?s0 = "s\<lparr>consumer := CTail (PopCall ?n) (ring_tail ?r)\<rparr>"
  let ?last = "(consumer_step ^^ (?n + 2)) (ring_step (CallBegin (PopCall ?n)) s)"
  have idle: "(consumer_step ^^ k) t = t" if "consumer t = CIdle" for k t
    using that by (induction k) (simp_all add: consumer_step_def)
  have start: "ring_step (CallBegin (PopCall ?n)) s = ?s0" using assms by simp
  have split: "?n + 2 = Suc (Suc ?n)" by simp
  have "shared ?last = snd (snd (try_pop_samples out ?r)) \<and> reads ?last =
    (case try_pop_samples out ?r of
       (b, xs, _) \<Rightarrow> if b then reads s @ [(length (consumed s), xs)] else reads s)"
  proof (cases "ring_head ?r - ring_tail ?r < of_nat ?n")
    case True
    then have "consumer_step ?s0 = s\<lparr>consumer := CIdle\<rparr>" by (simp add: consumer_step_def)
    then have "(consumer_step ^^ (?n + 2)) ?s0 = s\<lparr>consumer := CIdle\<rparr>"
      unfolding split funpow_Suc_right comp_def by (simp add: idle consumer_step_def)
    then show ?thesis using True start by (simp add: try_pop_samples_def Let_def)
  next
    case False
    let ?s1 = "s\<lparr>consumer := CRead True ?n (ring_tail ?r) []\<rparr>"
    have "consumer_step ?s0 = ?s1" using False by (simp add: consumer_step_def)
    then have "(consumer_step ^^ (?n + 2)) ?s0
        = consumer_step ((consumer_step ^^ ?n) ?s1)"
      by (simp add: funpow_swap1)
    then show ?thesis
      using False start consumer_reads [of ?s1 True ?n "ring_tail ?r" "[]" ?n]
      by (simp add: try_pop_samples_def Let_def consumer_step_def get_samples_def)
  qed
  then show "shared ?last = snd (snd (try_pop_samples out ?r))"
    "reads ?last = (case try_pop_samples out ?r of
       (b, xs, _) \<Rightarrow> if b then reads s @ [(length (consumed s), xs)] else reads s)" by blast+
qed

section \<open>The invariant of the interleavings\<close>

text \<open>Samples published and those of the push under way: none may pass the wrap unsafely.\<close>

definition committed :: "ring_threads \<Rightarrow> nat" where
  "committed s = length (pushed s) +
     (case producer s of PWrite input head offset \<Rightarrow> length input | _ \<Rightarrow> 0)"

definition ring_cap :: "ring_threads \<Rightarrow> nat" where
  "ring_cap s = length (ring_slots (shared s))"

definition slots_inv :: "ring_threads \<Rightarrow> bool" where
  "slots_inv s \<longleftrightarrow>
     ring_holds (shared s) (length (pushed s)) (length (consumed s))
     \<and> (\<forall>i. length (consumed s) \<le> i \<longrightarrow> i < length (pushed s) \<longrightarrow>
           ring_slots (shared s) ! (i mod ring_cap s) = pushed s ! i)
     \<and> consumed s = take (length (consumed s)) (pushed s)"

fun producer_inv :: "ring_threads \<Rightarrow> producer_pc \<Rightarrow> bool" where
  "producer_inv s PIdle = True"
| "producer_inv s (PHead input head) =
     (head = of_nat (length (pushed s)) \<and> length input < 2 ^ 64)"
| "producer_inv s (PWrite input head offset) =
     (head = of_nat (length (pushed s)) \<and> offset \<le> length input
      \<and> length (pushed s) + length input \<le> length (consumed s) + ring_cap s
      \<and> (\<forall>i<offset. ring_slots (shared s) ! ((length (pushed s) + i) mod ring_cap s) = input ! i))"

fun consumer_inv :: "ring_threads \<Rightarrow> consumer_pc \<Rightarrow> bool" where
  "consumer_inv s CIdle = True"
| "consumer_inv s (CTail call tail) =
     (tail = of_nat (length (consumed s)) \<and> call_samples call < 2 ^ 64)"
| "consumer_inv s (CRead release n tail out) =
     (tail = of_nat (length (consumed s)) \<and> length out \<le> n
      \<and> length (consumed s) + n \<le> length (pushed s)
      \<and> out = take (length out) (drop (length (consumed s)) (pushed s)))"
| "consumer_inv s (CRelease tail n) =
     (tail = of_nat (length (consumed s)) \<and> length (consumed s) + n \<le> length (pushed s))"

definition read_ok :: "f32 list \<Rightarrow> nat \<times> f32 list \<Rightarrow> bool" where
  "read_ok ps = (\<lambda>(at, xs). at + length xs \<le> length ps \<and> take (length xs) (drop at ps) = xs)"

definition threads_inv :: "ring_threads \<Rightarrow> bool" where
  "threads_inv s \<longleftrightarrow> slots_inv s \<and> producer_inv s (producer s) \<and> consumer_inv s (consumer s)
     \<and> list_all (read_ok (pushed s)) (reads s)"

lemma read_ok_append: "read_ok ps r \<Longrightarrow> read_ok (ps @ xs) r"
  by (auto simp: read_ok_def split: prod.splits)

lemma producer_step_grows: "committed s \<le> committed (producer_step s)"
  by (auto simp: producer_step_def committed_def Let_def split: producer_pc.splits)

lemma ring_step_grows: "committed s \<le> committed (ring_step t s)"
proof (cases t)
  case (PushBegin input)
  then show ?thesis by (simp add: committed_def)
next
  case PStep
  then show ?thesis by (simp add: producer_step_grows)
next
  case (CallBegin call)
  then show ?thesis by (simp add: committed_def)
next
  case CStep
  have "pushed (consumer_step s) = pushed s \<and> producer (consumer_step s) = producer s"
    by (auto simp: consumer_step_def Let_def split: consumer_pc.splits consumer_call.splits)
  then show ?thesis using CStep by (simp add: committed_def)
qed

lemma ring_step_cap: "ring_cap (ring_step t s) = ring_cap s"
  by (cases t) (auto simp: ring_cap_def producer_step_def consumer_step_def Let_def
      split: producer_pc.splits consumer_pc.splits consumer_call.splits)

lemma ring_holds_simps:
  "ring_holds (r\<lparr>ring_slots := (ring_slots r)[i := x]\<rparr>) H T = ring_holds r H T"
  "length (ring_slots (r\<lparr>ring_slots := (ring_slots r)[i := x]\<rparr>)) = length (ring_slots r)"
  by (simp_all add: ring_holds_def Let_def)

text \<open>A producer write leaves every published, unconsumed slot alone.\<close>

lemma producer_slot:
  assumes "slots_inv s" "producer_inv s (PWrite input head off)" "off < length input"
    and "wrap_safe (ring_cap s) (length (pushed s) + length input)"
  shows "ring_index (shared s) head off = (length (pushed s) + off) mod ring_cap s"
proof -
  have "wrap_safe (ring_cap s) (Suc (length (pushed s) + off))"
    using wrap_safe_mono [OF assms(4)] assms(3) by simp
  then show ?thesis
    using ring_index_holds assms(1,2) unfolding slots_inv_def ring_cap_def by auto
qed

lemma consumer_slot:
  assumes "slots_inv s" "consumer_inv s (CRead release n tail out)" "length out < n"
  shows "ring_index (shared s) tail (length out)
    = (length (consumed s) + length out) mod ring_cap s"
proof -
  have h: "ring_holds (shared s) (length (pushed s)) (length (consumed s))"
    using assms(1) by (simp add: slots_inv_def)
  have "wrap_safe (ring_cap s) (Suc (length (consumed s) + length out))"
    using h wrap_safe_mono [of "ring_cap s" "length (pushed s)"] assms(2,3)
    by (simp add: ring_holds_def Let_def ring_cap_def)
  then show ?thesis
    using ring_index_holds [OF h] assms(2) unfolding ring_cap_def by simp
qed

lemma slots_published:
  assumes "slots_inv s" and "length (consumed s) \<le> i" and "i < length (pushed s)"
  shows "ring_slots (shared s) ! (i mod ring_cap s) = pushed s ! i"
  using assms by (simp add: slots_inv_def)

lemma slots_inv_bounds:
  assumes "slots_inv s"
  shows "0 < ring_cap s" "ring_cap s < 2 ^ 64" "length (consumed s) \<le> length (pushed s)"
    "length (pushed s) \<le> length (consumed s) + ring_cap s"
    "wrap_safe (ring_cap s) (length (pushed s))"
    "ring_head (shared s) = of_nat (length (pushed s))"
    "ring_tail (shared s) = of_nat (length (consumed s))"
  using assms by (simp_all add: slots_inv_def ring_holds_def Let_def ring_cap_def)

lemma producer_accept:
  assumes i: "threads_inv s" and pc: "producer s = PHead input head"
    and ok: "\<not> saturating_sub (ring_capacity (shared s)) (head - ring_tail (shared s))
      < of_nat (length input)"
  shows "length (pushed s) + length input \<le> length (consumed s) + ring_cap s"
proof -
  have s: "slots_inv s" and head: "head = ring_head (shared s)" "length input < 2 ^ 64"
    using i pc slots_inv_bounds(6) by (auto simp: threads_inv_def)
  have h: "ring_holds (shared s) (length (pushed s)) (length (consumed s))"
    using s by (simp add: slots_inv_def)
  have "length input \<le> ring_cap s - (length (pushed s) - length (consumed s))"
    using ok ring_avail(2) [OF h] head by (simp add: less_of_nat_usize ring_cap_def)
  then show ?thesis using slots_inv_bounds(3,4) [OF s] by linarith
qed

lemma producer_write_inv:
  assumes i: "threads_inv s" and pc: "producer s = PWrite input head off"
    and off: "off < length input" and safe: "wrap_safe (ring_cap s) (committed s)"
  shows "threads_inv (producer_step s)"
proof -
  let ?H = "length (pushed s)" and ?c = "ring_cap s"
  have s: "slots_inv s" and p: "producer_inv s (PWrite input head off)"
    using i pc by (simp_all add: threads_inv_def)
  note b = slots_inv_bounds [OF s]
  have room: "?H + length input \<le> length (consumed s) + ?c" using p by simp
  have idx: "ring_index (shared s) head off = (?H + off) mod ?c"
    using producer_slot [OF s p off] safe pc by (simp add: committed_def)
  let ?slots = "(ring_slots (shared s))[(?H + off) mod ?c := input ! off]"
  let ?s = "s\<lparr>shared := (shared s)\<lparr>ring_slots := ?slots\<rparr>, producer := PWrite input head (Suc off)\<rparr>"
  have step: "producer_step s = ?s" using pc off idx by (simp add: producer_step_def Let_def)
  have cap: "ring_cap ?s = ?c" by (simp add: ring_cap_def)
  have lt: "(?H + off) mod ?c < length (ring_slots (shared s))"
    using b(1) by (simp add: ring_cap_def)
  have pub: "?slots ! (i mod ?c) = pushed s ! i" if "length (consumed s) \<le> i" "i < ?H" for i
  proof -
    have "i < ?H + off" "?H + off < i + ?c" using that off room by linarith+
    then have "i mod ?c \<noteq> (?H + off) mod ?c" by (rule mod_distinct)
    then show ?thesis using slots_published [OF s that] by simp
  qed
  have new: "?slots ! ((?H + i) mod ?c) = input ! i" if "i < Suc off" for i
  proof (cases "i = off")
    case True
    then show ?thesis using lt by simp
  next
    case False
    then have "?H + i < ?H + off" "?H + off < ?H + i + ?c" using that off room b(3) by linarith+
    then have "(?H + i) mod ?c \<noteq> (?H + off) mod ?c" by (rule mod_distinct)
    then show ?thesis using p that False by simp
  qed
  have "slots_inv ?s"
    using s pub unfolding slots_inv_def cap by (simp add: ring_holds_simps)
  moreover have "producer_inv ?s (producer ?s)"
    using p new off by (simp add: ring_cap_def)
  moreover have "consumer_inv ?s (consumer ?s)"
    using i by (cases "consumer s") (simp_all add: threads_inv_def)
  moreover have "list_all (read_ok (pushed ?s)) (reads ?s)" using i by (simp add: threads_inv_def)
  ultimately show ?thesis unfolding step threads_inv_def by blast
qed

lemma producer_publish_inv:
  assumes i: "threads_inv s" and pc: "producer s = PWrite input head off"
    and off: "\<not> off < length input" and safe: "wrap_safe (ring_cap s) (committed s)"
  shows "threads_inv (producer_step s)"
proof -
  let ?H = "length (pushed s)" and ?c = "ring_cap s"
  have s: "slots_inv s" and p: "producer_inv s (PWrite input head off)"
    using i pc by (simp_all add: threads_inv_def)
  note b = slots_inv_bounds [OF s]
  let ?s = "s\<lparr>shared := (shared s)\<lparr>ring_head := of_nat (?H + length input)\<rparr>,
    pushed := pushed s @ input, producer := PIdle\<rparr>"
  have step: "producer_step s = ?s" using pc off p by (simp add: producer_step_def)
  have cap: "ring_cap ?s = ?c" by (simp add: ring_cap_def)
  have "ring_holds (shared ?s) (?H + length input) (length (consumed s))"
    using p pc safe b by (simp add: ring_holds_def Let_def committed_def ring_cap_def)
  moreover have "ring_slots (shared s) ! (i mod ?c) = (pushed s @ input) ! i"
    if "length (consumed s) \<le> i" "i < ?H + length input" for i
  proof (cases "i < ?H")
    case True
    then show ?thesis using slots_published [OF s that(1)] by (simp add: nth_append)
  next
    case False
    define j where "j = i - ?H"
    have "i = ?H + j" "j < off" using False that(2) off by (simp_all add: j_def)
    then show ?thesis using p by (simp add: nth_append)
  qed
  ultimately have "slots_inv ?s"
    using s b(3) unfolding slots_inv_def cap by simp
  moreover have "consumer_inv ?s (consumer ?s)"
    using i by (cases "consumer s") (auto simp: threads_inv_def)
  moreover have "list_all (read_ok (pushed s @ input)) (reads s)"
    using i by (auto simp: threads_inv_def list_all_iff read_ok_append)
  ultimately show ?thesis unfolding step by (simp add: threads_inv_def)
qed

lemma producer_step_inv:
  assumes i: "threads_inv s" and safe: "wrap_safe (ring_cap s) (committed (producer_step s))"
  shows "threads_inv (producer_step s)"
proof (cases "producer s")
  case PIdle
  then show ?thesis using i by (simp add: producer_step_def)
next
  case (PHead input head)
  let ?r = "shared s"
  show ?thesis
  proof (cases "saturating_sub (ring_capacity ?r) (head - ring_tail ?r) < of_nat (length input)")
    case True
    then have step: "producer_step s = s\<lparr>producer := PIdle\<rparr>"
      using PHead by (simp add: producer_step_def)
    have "consumer_inv (s\<lparr>producer := PIdle\<rparr>) (consumer s)"
      using i by (cases "consumer s") (simp_all add: threads_inv_def)
    then show ?thesis
      using i unfolding step by (simp add: threads_inv_def slots_inv_def ring_cap_def)
  next
    case False
    then have step: "producer_step s = s\<lparr>producer := PWrite input head 0\<rparr>"
      using PHead by (simp add: producer_step_def)
    have "consumer_inv (s\<lparr>producer := PWrite input head 0\<rparr>) (consumer s)"
      using i by (cases "consumer s") (simp_all add: threads_inv_def)
    then show ?thesis
      using i PHead producer_accept [OF i PHead False] unfolding step
      by (simp add: threads_inv_def slots_inv_def ring_cap_def)
  qed
next
  case (PWrite input head off)
  have "wrap_safe (ring_cap s) (committed s)"
    using wrap_safe_mono [OF safe producer_step_grows] .
  then show ?thesis
    using producer_write_inv [OF i PWrite] producer_publish_inv [OF i PWrite] by blast
qed

lemma producer_inv_consume:
  assumes "producer_inv s p" and "length (consumed s) \<le> length cs"
  shows "producer_inv (s\<lparr>consumer := c, consumed := cs, reads := rs,
    shared := (shared s)\<lparr>ring_tail := t\<rparr>\<rparr>) p"
  using assms by (cases p) (auto simp: ring_cap_def)

lemma slots_inv_consume:
  assumes s: "slots_inv s" and n: "length (consumed s) + n \<le> length (pushed s)"
    and cs: "cs = take (length (consumed s) + n) (pushed s)"
    and tail: "t = of_nat (length (consumed s)) + of_nat n"
  shows "slots_inv (s\<lparr>consumer := c, consumed := cs, reads := rs,
    shared := (shared s)\<lparr>ring_tail := t\<rparr>\<rparr>)"
proof -
  have len: "length cs = length (consumed s) + n" using n cs by simp
  have "ring_holds ((shared s)\<lparr>ring_tail := t\<rparr>) (length (pushed s)) (length cs)"
    using s n len tail by (simp add: slots_inv_def ring_holds_def Let_def)
  then show ?thesis using s len cs unfolding slots_inv_def ring_cap_def by simp
qed

lemma consumer_step_pushed:
  "pushed (consumer_step s) = pushed s" "producer (consumer_step s) = producer s"
  by (auto simp: consumer_step_def Let_def split: consumer_pc.splits consumer_call.splits)

lemma consumer_idle_inv:
  assumes "threads_inv s" and "consumer_inv s c"
  shows "threads_inv (s\<lparr>consumer := c\<rparr>)"
proof -
  have "producer_inv (s\<lparr>consumer := c\<rparr>) (producer s)"
    using assms(1) by (cases "producer s") (simp_all add: threads_inv_def ring_cap_def)
  moreover have "consumer_inv (s\<lparr>consumer := c\<rparr>) c" using assms(2) by (cases c) simp_all
  ultimately show ?thesis
    using assms(1) by (simp add: threads_inv_def slots_inv_def ring_cap_def)
qed

lemma consumer_finish_inv:
  assumes i: "threads_inv s" and pc: "consumer s = CRead release n tail out"
    and fin: "\<not> length out < n"
  shows "threads_inv (consumer_step s)"
proof -
  let ?T = "length (consumed s)"
  have s: "slots_inv s" and p: "producer_inv s (producer s)"
    and ci: "consumer_inv s (CRead release n tail out)"
    using i pc by (simp_all add: threads_inv_def)
  have c: "tail = of_nat ?T" "length out = n" "?T + n \<le> length (pushed s)" using ci fin by simp_all
  have out: "out = take (length out) (drop ?T (pushed s))"
    using ci unfolding consumer_inv.simps by blast
  have cs: "consumed s @ out = take (?T + n) (pushed s)"
    using s out c(2) unfolding slots_inv_def by (metis take_add)
  have "read_ok (pushed s) (?T, out)" using out c by (simp add: read_ok_def)
  then have r: "list_all (read_ok (pushed s)) (reads s @ [(?T, out)])"
    using i by (simp add: threads_inv_def)
  show ?thesis
  proof (cases release)
    case True
    let ?s = "s\<lparr>consumer := CIdle, consumed := consumed s @ out, reads := reads s @ [(?T, out)],
      shared := (shared s)\<lparr>ring_tail := tail + of_nat n\<rparr>\<rparr>"
    have "consumer_step s = ?s" using pc fin True by (simp add: consumer_step_def Let_def)
    moreover have "slots_inv ?s" using s c cs by (intro slots_inv_consume) simp_all
    moreover have "producer_inv ?s (producer s)" using p by (intro producer_inv_consume) simp_all
    ultimately show ?thesis using r by (simp add: threads_inv_def)
  next
    case False
    let ?s = "s\<lparr>reads := reads s @ [(?T, out)], consumer := CIdle\<rparr>"
    have "consumer_step s = ?s" using pc fin False by (simp add: consumer_step_def Let_def)
    moreover have "slots_inv ?s" using s by (simp add: slots_inv_def ring_cap_def)
    moreover have "producer_inv ?s (producer s)"
      using p by (cases "producer s") (simp_all add: ring_cap_def)
    ultimately show ?thesis using r by (simp add: threads_inv_def)
  qed
qed

lemma consumer_step_inv:
  assumes i: "threads_inv s"
  shows "threads_inv (consumer_step s)"
proof (cases "consumer s")
  case CIdle
  then show ?thesis using i by (simp add: consumer_step_def)
next
  case (CTail call tail)
  let ?T = "length (consumed s)"
  have s: "slots_inv s" and c: "tail = of_nat ?T" "call_samples call < 2 ^ 64"
    using i CTail by (simp_all add: threads_inv_def)
  have h: "ring_holds (shared s) (length (pushed s)) ?T" using s by (simp add: slots_inv_def)
  show ?thesis
  proof (cases "ring_head (shared s) - tail < of_nat (call_samples call)")
    case True
    then have "consumer_step s = s\<lparr>consumer := CIdle\<rparr>" using CTail by (simp add: consumer_step_def)
    then show ?thesis using consumer_idle_inv [OF i, of CIdle] by simp
  next
    case False
    then have "call_samples call \<le> length (pushed s) - ?T"
      using ring_avail(1) [OF h] c slots_inv_bounds(7) [OF s] by (simp add: less_of_nat_usize)
    then have n: "?T + call_samples call \<le> length (pushed s)"
      using slots_inv_bounds(3) [OF s] by linarith
    obtain c' where step: "consumer_step s = s\<lparr>consumer := c'\<rparr>" and "consumer_inv s c'"
      using CTail False n c(1) by (cases call) (simp_all add: consumer_step_def)
    then show ?thesis using consumer_idle_inv [OF i] by simp
  qed
next
  case (CRead release n tail out)
  let ?T = "length (consumed s)"
  show ?thesis
  proof (cases "length out < n")
    case True
    have s: "slots_inv s" and c: "consumer_inv s (CRead release n tail out)"
      using i CRead by (simp_all add: threads_inv_def)
    have "?T + length out < length (pushed s)" using c True by simp
    then have "ring_slots (shared s) ! ring_index (shared s) tail (length out)
        = pushed s ! (?T + length out)"
      using consumer_slot [OF s c True] slots_published [OF s] by simp
    then have step: "consumer_step s
        = s\<lparr>consumer := CRead release n tail (out @ [pushed s ! (?T + length out)])\<rparr>"
      using CRead True by (simp add: consumer_step_def Let_def)
    have "consumer_inv s (CRead release n tail (out @ [pushed s ! (?T + length out)]))"
    proof -
      have "?T + n \<le> length (pushed s)" using c by simp
      then have "length out < length (drop ?T (pushed s))" using True by simp
      then have "take (Suc (length out)) (drop ?T (pushed s))
          = take (length out) (drop ?T (pushed s)) @ [drop ?T (pushed s) ! length out]"
        by (rule take_Suc_conv_app_nth)
      moreover have "take (length out) (drop ?T (pushed s)) = out"
        using c unfolding consumer_inv.simps by metis
      ultimately show ?thesis using c True by simp
    qed
    then show ?thesis unfolding step by (rule consumer_idle_inv [OF i])
  next
    case False
    then show ?thesis using consumer_finish_inv [OF i CRead] by simp
  qed
next
  case (CRelease tail n)
  let ?T = "length (consumed s)"
  let ?cs = "consumed s @ take n (drop ?T (pushed s))"
  let ?s = "s\<lparr>consumer := CIdle, consumed := ?cs, reads := reads s,
    shared := (shared s)\<lparr>ring_tail := tail + of_nat n\<rparr>\<rparr>"
  have s: "slots_inv s" and p: "producer_inv s (producer s)" and c: "tail = of_nat ?T"
    "?T + n \<le> length (pushed s)"
    using i CRelease by (simp_all add: threads_inv_def)
  have cs: "?cs = take (?T + n) (pushed s)"
    using s unfolding slots_inv_def by (metis take_add)
  have "consumer_step s = ?s" using CRelease by (simp add: consumer_step_def Let_def)
  moreover have "slots_inv ?s" using s c cs by (intro slots_inv_consume) simp_all
  moreover have "producer_inv ?s (producer s)" using p by (intro producer_inv_consume) simp_all
  ultimately show ?thesis using i by (simp add: threads_inv_def)
qed

lemma ring_step_inv:
  assumes "threads_inv s" "step_fits t" "wrap_safe (ring_cap s) (committed (ring_step t s))"
  shows "threads_inv (ring_step t s)"
proof (cases t)
  case (PushBegin input)
  have "consumer_inv (s\<lparr>producer := p\<rparr>) (consumer s)" for p
    using assms(1) by (cases "consumer s") (simp_all add: threads_inv_def)
  then show ?thesis
    using assms(1,2) PushBegin slots_inv_bounds(6)
    by (auto simp: threads_inv_def slots_inv_def ring_cap_def)
next
  case PStep
  then show ?thesis using producer_step_inv assms by simp
next
  case (CallBegin call)
  then show ?thesis
    using assms(1,2) consumer_idle_inv [OF assms(1)] slots_inv_bounds(7)
    by (auto simp: threads_inv_def)
next
  case CStep
  then show ?thesis using consumer_step_inv assms(1) by simp
qed

lemma ring_schedule_grows: "committed s \<le> committed (ring_schedule ts s)"
  unfolding ring_schedule_def
  by (induction ts arbitrary: s) (simp, metis fold_simps(2) le_trans ring_step_grows)

lemma ring_schedule_cap: "ring_cap (ring_schedule ts s) = ring_cap s"
  unfolding ring_schedule_def by (induction ts arbitrary: s) (simp_all add: ring_step_cap)

lemma ring_schedule_inv:
  "threads_inv s \<Longrightarrow> list_all step_fits ts \<Longrightarrow>
     wrap_safe (ring_cap s) (committed (ring_schedule ts s)) \<Longrightarrow> threads_inv (ring_schedule ts s)"
proof (induction ts arbitrary: s)
  case Nil
  then show ?case by (simp add: ring_schedule_def)
next
  case (Cons t ts)
  have run: "ring_schedule (t # ts) s = ring_schedule ts (ring_step t s)"
    by (simp add: ring_schedule_def)
  have "wrap_safe (ring_cap s) (committed (ring_step t s))"
    using wrap_safe_mono [OF Cons.prems(3)] ring_schedule_grows unfolding run .
  then have "threads_inv (ring_step t s)" using ring_step_inv Cons.prems(1,2) by simp
  then show ?case
    using Cons.IH Cons.prems(2,3) unfolding run by (simp add: ring_step_cap)
qed

section \<open>Delivery without races\<close>

text \<open>The slot the next step of a thread writes or reads.\<close>

definition next_write :: "ring_threads \<Rightarrow> nat option" where
  "next_write s = (case producer s of
     PWrite input head offset \<Rightarrow>
       if offset < length input then Some (ring_index (shared s) head offset) else None
   | _ \<Rightarrow> None)"

definition next_read :: "ring_threads \<Rightarrow> nat option" where
  "next_read s = (case consumer s of
     CRead release n tail out \<Rightarrow>
       if length out < n then Some (ring_index (shared s) tail (length out)) else None
   | _ \<Rightarrow> None)"

definition race_free :: "ring_threads \<Rightarrow> bool" where
  "race_free s \<longleftrightarrow> (case next_write s of None \<Rightarrow> True | Some i \<Rightarrow> next_read s \<noteq> Some i)"

lemma threads_race_free:
  assumes i: "threads_inv s" and safe: "wrap_safe (ring_cap s) (committed s)"
  shows "race_free s"
proof -
  have False if w: "next_write s = Some i" and r: "next_read s = Some i" for i
  proof -
    from w obtain input head off where p: "producer s = PWrite input head off" "off < length input"
      "ring_index (shared s) head off = i"
      by (auto simp: next_write_def split: producer_pc.splits if_splits)
    from r obtain rel n tail out where c: "consumer s = CRead rel n tail out" "length out < n"
      "ring_index (shared s) tail (length out) = i"
      by (auto simp: next_read_def split: consumer_pc.splits if_splits)
    have s: "slots_inv s" and pi: "producer_inv s (PWrite input head off)"
      and ci: "consumer_inv s (CRead rel n tail out)"
      using i p(1) c(1) by (simp_all add: threads_inv_def)
    let ?a = "length (consumed s) + length out" and ?b = "length (pushed s) + off"
    have "?a < ?b" "?b < ?a + ring_cap s" using pi ci p(2) c(2) by auto
    then have "?a mod ring_cap s \<noteq> ?b mod ring_cap s" by (rule mod_distinct)
    moreover have "wrap_safe (ring_cap s) (length (pushed s) + length input)"
      using safe p(1) by (simp add: committed_def)
    ultimately show False
      using producer_slot [OF s pi p(2)] consumer_slot [OF s ci c(2)] p(3) c(3) by simp
  qed
  then show ?thesis unfolding race_free_def by (auto split: option.splits)
qed

lemma threads_new_inv:
  assumes "ring_new cap = Some r"
  shows "threads_inv (threads_new r)" and "ring_cap (threads_new r) = unat cap"
proof -
  have r: "r = \<lparr>ring_slots = replicate (unat cap) 0, ring_head = 0, ring_tail = 0\<rparr>" "cap \<noteq> 0"
    using assms by (auto simp: ring_new_def split: if_splits)
  have "unat cap < 2 ^ LENGTH(64)" by (rule unsigned_less)
  then have "slots_inv (threads_new r)"
    using r by (simp add: slots_inv_def ring_holds_def Let_def threads_new_def wrap_safe_def unat_gt_0)
  then show "threads_inv (threads_new r)" by (simp add: threads_inv_def) (simp add: threads_new_def)
  show "ring_cap (threads_new r) = unat cap" using r by (simp add: ring_cap_def threads_new_def)
qed

text \<open>
  C3: In every interleaving of one producer and one consumer on the contiguous ring, load by load
  and sample by sample: what was consumed is a prefix of what was published, at most the capacity
  is outstanding, every completed pop or peek returned exactly the published samples at its
  position, and the next write of the producer never hits the slot the consumer reads next.
\<close>

theorem ring_interleavings_deliver:
  assumes "ring_new cap = Some r" and "list_all step_fits ts"
    and "wrap_safe (unat cap) (committed (ring_schedule ts (threads_new r)))"
  shows "let s = ring_schedule ts (threads_new r) in
    (\<exists>waiting. pushed s = consumed s @ waiting \<and> length waiting \<le> unat cap)
    \<and> list_all (read_ok (pushed s)) (reads s) \<and> race_free s"
proof -
  let ?s = "ring_schedule ts (threads_new r)"
  have cap: "ring_cap ?s = unat cap" using threads_new_inv(2) [OF assms(1)] by (simp add: ring_schedule_cap)
  have inv: "threads_inv ?s"
    using ring_schedule_inv [OF threads_new_inv(1) [OF assms(1)] assms(2)] assms(3)
      threads_new_inv(2) [OF assms(1)] by simp
  then have s: "slots_inv ?s" by (simp add: threads_inv_def)
  let ?w = "drop (length (consumed ?s)) (pushed ?s)"
  have "pushed ?s = consumed ?s @ ?w"
    using s unfolding slots_inv_def by (metis append_take_drop_id)
  moreover have "length ?w \<le> unat cap" using slots_inv_bounds(4) [OF s] cap by simp
  ultimately show ?thesis
    using inv threads_race_free [OF inv] assms(3) cap by (auto simp: Let_def threads_inv_def)
qed

definition demo_schedule :: "thread_step list" where
  "demo_schedule =
     [PushBegin [11, 12], PStep, PStep, CallBegin (PopCall 1), PStep, PStep,
      CallBegin (PopCall 1), CStep, PushBegin [13], PStep, CStep, PushBegin [13], CStep, PStep,
      CallBegin (PeekCall 1), CStep, PStep]"

theorem ring_interleavings_deliver_witness:
  "let s = ring_schedule demo_schedule
       (threads_new \<lparr>ring_slots = [0, 0], ring_head = 0, ring_tail = 0\<rparr>)
   in pushed s = [11, 12] \<and> consumed s = [11] \<and> reads s = [(0, [11])]
      \<and> producer s = PWrite [13] 2 1 \<and> consumer s = CRead False 1 1 []
      \<and> (\<exists>waiting. pushed s = consumed s @ waiting \<and> length waiting \<le> 2) \<and> race_free s"
proof -
  let ?r = "\<lparr>ring_slots = [0, 0], ring_head = 0, ring_tail = 0\<rparr> :: spsc_ring"
  have "replicate 2 0 = [0, 0 :: f32]" by (simp add: numeral_2_eq_2)
  then have new: "ring_new 2 = Some ?r" by (simp add: ring_new_def)
  have fits: "list_all step_fits demo_schedule" by (simp add: demo_schedule_def)
  have run: "ring_schedule demo_schedule (threads_new ?r)
    = \<lparr>shared = \<lparr>ring_slots = [13, 12], ring_head = 2, ring_tail = 1\<rparr>,
       producer = PWrite [13] 2 1, consumer = CRead False 1 1 [], pushed = [11, 12],
       consumed = [11], reads = [(0, [11])]\<rparr>"
    by (simp add: demo_schedule_def ring_schedule_def threads_new_def producer_step_def
        consumer_step_def Let_def ring_index_def ring_capacity_def saturating_sub_def)
  have safe: "wrap_safe (unat (2::usize)) (committed (ring_schedule demo_schedule (threads_new ?r)))"
    unfolding run by (simp add: wrap_safe_def committed_def)
  show ?thesis
    using ring_interleavings_deliver [OF new fits safe] unfolding run by simp
qed

end
