(* ===== verification/Network_Bridge.thy ===== *)
theory Network_Bridge
  imports Block_Transport Network_Api
begin

text \<open>
  The bridge between the audio callback and a network worker,
  \<open>src/crates/aurora-realtime-engine/src/network_bridge.rs\<close>: PCM through the fixed block
  pool, metadata through the third-party \<open>ArrayQueue\<close>, whose operations \<open>M\<close> are a
  parameter.  The handlers are modelled whole, and again split into their queue accesses for the
  interleavings of the callback and the worker.
\<close>

section \<open>State\<close>

record network_block_metadata =
  nb_sequence :: u64
  nb_timestamp :: media_timestamp

datatype network_bridge_push_error =
  PushBufferShape | PushRateMismatch | PushDiscontinuity | PushTimestampOverflow | PushOverflow

datatype network_bridge_pop_error = PopBufferShape | Desynchronized

text \<open>The producer and the consumer share the two queues; the timeline is the producer's.\<close>

record ('q, 'm) network_bridge =
  br_pcm :: "'q transport_prototype"
  br_metadata :: 'm
  br_format :: network_audio_format
  br_capacity :: usize
  br_next_sequence :: u64
  br_expected :: "media_timestamp option"

type_synonym 'm metadata_queue = "(network_block_metadata, 'm) array_queue"

definition create_network_transport_bridge :: "(f32, 'q) array_queue \<Rightarrow> 'm metadata_queue
    \<Rightarrow> network_audio_format \<Rightarrow> usize \<Rightarrow> ('q, 'm) network_bridge option" where
  "create_network_transport_bridge Q M f capacity =
     (if sample_rate f = 0 \<or> channels f = 0 \<or> block_frames f = 0 \<or> capacity < 2 then None
      else case samples_per_block f of
        None \<Rightarrow> None
      | Some block_samples \<Rightarrow>
          (case transport_new Q FixedBlockPool block_samples capacity of
             None \<Rightarrow> None
           | Some pcm \<Rightarrow>
               Some \<lparr>br_pcm = pcm, br_metadata = aq_new M capacity, br_format = f,
                     br_capacity = capacity, br_next_sequence = 0, br_expected = None\<rparr>))"

definition required_samples :: "network_audio_format \<Rightarrow> nat" where
  "required_samples f = unat (case samples_per_block f of Some n \<Rightarrow> n | None \<Rightarrow> - 1)"

section \<open>Producer\<close>

text \<open>The checks of \<open>try_push\<close> up to the length of the metadata queue.\<close>

definition bridge_preflight :: "'m metadata_queue \<Rightarrow> media_timestamp \<Rightarrow> f32 list
    \<Rightarrow> ('q, 'm) network_bridge \<Rightarrow> (media_timestamp, network_bridge_push_error) outcome" where
  "bridge_preflight M t xs b =
     (if length xs \<noteq> required_samples (br_format b) then Err PushBufferShape
      else if timestamp_rate t \<noteq> sample_rate (br_format b) then Err PushRateMismatch
      else if is_some_and (\<lambda>e. e \<noteq> t) (br_expected b) then Err PushDiscontinuity
      else case checked_advance t (block_frames (br_format b)) of
        Err e \<Rightarrow> Err PushTimestampOverflow
      | Panic \<Rightarrow> Panic
      | Ok next \<Rightarrow>
          if br_capacity b \<le> aq_len M (br_metadata b) then Err PushOverflow else Ok next)"

definition bridge_publish :: "'m metadata_queue \<Rightarrow> media_timestamp \<Rightarrow> media_timestamp
    \<Rightarrow> ('q, 'm) network_bridge
    \<Rightarrow> (network_block_metadata, network_bridge_push_error) outcome \<times> ('q, 'm) network_bridge" where
  "bridge_publish M t next b =
     (let meta = \<lparr>nb_sequence = br_next_sequence b, nb_timestamp = t\<rparr> in
      case aq_push M meta (br_metadata b) of
        (False, m) \<Rightarrow> (Err PushOverflow, b\<lparr>br_metadata := m\<rparr>)
      | (True, m) \<Rightarrow>
          (Ok meta, b\<lparr>br_metadata := m, br_next_sequence := br_next_sequence b + 1,
                      br_expected := Some next\<rparr>))"

definition bridge_try_push :: "(f32, 'q) array_queue \<Rightarrow> 'm metadata_queue \<Rightarrow> media_timestamp
    \<Rightarrow> f32 list \<Rightarrow> ('q, 'm) network_bridge
    \<Rightarrow> (network_block_metadata, network_bridge_push_error) outcome \<times> ('q, 'm) network_bridge" where
  "bridge_try_push Q M t xs b =
     (case bridge_preflight M t xs b of
        Err e \<Rightarrow> (Err e, b)
      | Panic \<Rightarrow> (Panic, b)
      | Ok next \<Rightarrow>
          (case try_push_block Q xs (br_pcm b) of
             (Ok True, pcm) \<Rightarrow> bridge_publish M t next (b\<lparr>br_pcm := pcm\<rparr>)
           | (Ok False, pcm) \<Rightarrow> (Err PushOverflow, b\<lparr>br_pcm := pcm\<rparr>)
           | (_, pcm) \<Rightarrow> (Panic, b\<lparr>br_pcm := pcm\<rparr>)))"

definition reset_timeline_if_empty :: "(f32, 'q) array_queue \<Rightarrow> 'm metadata_queue \<Rightarrow> u64
    \<Rightarrow> ('q, 'm) network_bridge \<Rightarrow> bool \<times> ('q, 'm) network_bridge" where
  "reset_timeline_if_empty Q M next_sequence b =
     (if aq_len M (br_metadata b) \<noteq> 0 \<or> queued_samples Q (br_pcm b) \<noteq> 0 then (False, b)
      else (True, b\<lparr>br_next_sequence := next_sequence, br_expected := None\<rparr>))"

section \<open>Consumer\<close>

definition bridge_pop_pcm :: "(f32, 'q) array_queue \<Rightarrow> network_block_metadata \<Rightarrow> f32 list
    \<Rightarrow> ('q, 'm) network_bridge
    \<Rightarrow> (network_block_metadata option, network_bridge_pop_error) outcome
       \<times> f32 list \<times> ('q, 'm) network_bridge" where
  "bridge_pop_pcm Q meta out b =
     (case try_pop_block Q out (br_pcm b) of
        (Ok True, xs, pcm) \<Rightarrow> (Ok (Some meta), xs, b\<lparr>br_pcm := pcm\<rparr>)
      | (Ok False, xs, pcm) \<Rightarrow> (Err Desynchronized, xs, b\<lparr>br_pcm := pcm\<rparr>)
      | (_, xs, pcm) \<Rightarrow> (Panic, xs, b\<lparr>br_pcm := pcm\<rparr>))"

definition bridge_try_pop :: "(f32, 'q) array_queue \<Rightarrow> 'm metadata_queue \<Rightarrow> f32 list
    \<Rightarrow> ('q, 'm) network_bridge
    \<Rightarrow> (network_block_metadata option, network_bridge_pop_error) outcome
       \<times> f32 list \<times> ('q, 'm) network_bridge" where
  "bridge_try_pop Q M out b =
     (if length out \<noteq> required_samples (br_format b) then (Err PopBufferShape, out, b)
      else case aq_pop M (br_metadata b) of
        (None, m) \<Rightarrow> (Ok None, out, b\<lparr>br_metadata := m\<rparr>)
      | (Some meta, m) \<Rightarrow> bridge_pop_pcm Q meta out (b\<lparr>br_metadata := m\<rparr>))"

definition bridge_block :: "network_audio_format \<Rightarrow> network_block_metadata \<Rightarrow> f32 list
    \<Rightarrow> network_audio_block" where
  "bridge_block f meta xs = \<lparr>sequence = nb_sequence meta, timestamp = nb_timestamp meta,
     format = f, samples = xs\<rparr>"

definition try_submit_one :: "(f32, 'q) array_queue \<Rightarrow> 'm metadata_queue \<Rightarrow> 't network_transport
    \<Rightarrow> 't \<Rightarrow> f32 list \<Rightarrow> ('q, 'm) network_bridge
    \<Rightarrow> (bool, network_transport_error) outcome \<times> f32 list \<times> 't \<times> ('q, 'm) network_bridge" where
  "try_submit_one Q M V t scratch b =
     (case bridge_try_pop Q M scratch b of
        (Err e, xs, b') \<Rightarrow> (Err WorkerFault, xs, t, b')
      | (Panic, xs, b') \<Rightarrow> (Panic, xs, t, b')
      | (Ok None, xs, b') \<Rightarrow> (Ok False, xs, t, b')
      | (Ok (Some meta), xs, b') \<Rightarrow>
          (case nt_submit V (bridge_block (br_format b) meta xs) t of
             (Err e, t') \<Rightarrow> (Err e, xs, t', b')
           | (Panic, t') \<Rightarrow> (Panic, xs, t', b')
           | (Ok _, t') \<Rightarrow> (Ok True, xs, t', b')))"

section \<open>Interleavings of the callback and the worker\<close>

text \<open>
  Between its queue accesses the producer is about to push PCM or to publish metadata, the
  consumer about to pop the PCM of metadata it holds.
\<close>

datatype bridge_producer_pc =
    BIdle
  | BPcm media_timestamp media_timestamp "f32 list"
  | BMeta media_timestamp media_timestamp

datatype bridge_consumer_pc =
    KIdle
  | KPcm network_block_metadata "f32 list"

text \<open>
  Beside the bridge: the replies of completed calls, the blocks whose PCM entered the pool, the
  blocks handed to the worker, and the metadata published since the last timeline reset.
\<close>

record ('q, 'm) bridge_threads =
  bt_bridge :: "('q, 'm) network_bridge"
  bt_producer :: bridge_producer_pc
  bt_consumer :: bridge_consumer_pc
  push_replies :: "(network_block_metadata, network_bridge_push_error) outcome list"
  pop_replies :: "(network_block_metadata option, network_bridge_pop_error) outcome list"
  entered :: "(network_block_metadata \<times> f32 list) list"
  delivered :: "(network_block_metadata \<times> f32 list) list"
  timeline :: "network_block_metadata list"

definition bridge_threads_new :: "('q, 'm) network_bridge \<Rightarrow> ('q, 'm) bridge_threads" where
  "bridge_threads_new b = \<lparr>bt_bridge = b, bt_producer = BIdle, bt_consumer = KIdle,
     push_replies = [], pop_replies = [], entered = [], delivered = [], timeline = []\<rparr>"

datatype bridge_action =
    PushCall media_timestamp "f32 list"
  | ResetCall u64
  | PopCallB "f32 list"
  | ProducerMove
  | ConsumerMove

fun bridge_producer_move :: "(f32, 'q) array_queue \<Rightarrow> 'm metadata_queue
    \<Rightarrow> ('q, 'm) bridge_threads \<Rightarrow> ('q, 'm) bridge_threads" where
  "bridge_producer_move Q M s =
     (let b = bt_bridge s in
      case bt_producer s of
        BIdle \<Rightarrow> s
      | BPcm t next xs \<Rightarrow>
          (case try_push_block Q xs (br_pcm b) of
             (Ok True, pcm) \<Rightarrow>
               s\<lparr>bt_bridge := b\<lparr>br_pcm := pcm\<rparr>, bt_producer := BMeta t next,
                 entered := entered s @ [(\<lparr>nb_sequence = br_next_sequence b, nb_timestamp = t\<rparr>, xs)]\<rparr>
           | (Ok False, pcm) \<Rightarrow>
               s\<lparr>bt_bridge := b\<lparr>br_pcm := pcm\<rparr>, bt_producer := BIdle,
                 push_replies := push_replies s @ [Err PushOverflow]\<rparr>
           | (_, pcm) \<Rightarrow>
               s\<lparr>bt_bridge := b\<lparr>br_pcm := pcm\<rparr>, bt_producer := BIdle,
                 push_replies := push_replies s @ [Panic]\<rparr>)
      | BMeta t next \<Rightarrow>
          (let (r, b') = bridge_publish M t next b in
           s\<lparr>bt_bridge := b', bt_producer := BIdle, push_replies := push_replies s @ [r],
             timeline := timeline s @ (case r of Ok meta \<Rightarrow> [meta] | _ \<Rightarrow> [])\<rparr>))"

fun bridge_move :: "(f32, 'q) array_queue \<Rightarrow> 'm metadata_queue \<Rightarrow> bridge_action
    \<Rightarrow> ('q, 'm) bridge_threads \<Rightarrow> ('q, 'm) bridge_threads" where
  "bridge_move Q M (PushCall t xs) s =
     (if bt_producer s \<noteq> BIdle then s
      else case bridge_preflight M t xs (bt_bridge s) of
        Ok next \<Rightarrow> s\<lparr>bt_producer := BPcm t next xs\<rparr>
      | Err e \<Rightarrow> s\<lparr>push_replies := push_replies s @ [Err e]\<rparr>
      | Panic \<Rightarrow> s\<lparr>push_replies := push_replies s @ [Panic]\<rparr>)"
| "bridge_move Q M (ResetCall n) s =
     (if bt_producer s \<noteq> BIdle then s
      else case reset_timeline_if_empty Q M n (bt_bridge s) of
        (True, b) \<Rightarrow> s\<lparr>bt_bridge := b, timeline := []\<rparr>
      | (False, b) \<Rightarrow> s\<lparr>bt_bridge := b\<rparr>)"
| "bridge_move Q M (PopCallB out) s =
     (if bt_consumer s \<noteq> KIdle then s
      else if length out \<noteq> required_samples (br_format (bt_bridge s))
      then s\<lparr>pop_replies := pop_replies s @ [Err PopBufferShape]\<rparr>
      else case aq_pop M (br_metadata (bt_bridge s)) of
        (None, m) \<Rightarrow> s\<lparr>bt_bridge := (bt_bridge s)\<lparr>br_metadata := m\<rparr>,
                       pop_replies := pop_replies s @ [Ok None]\<rparr>
      | (Some meta, m) \<Rightarrow> s\<lparr>bt_bridge := (bt_bridge s)\<lparr>br_metadata := m\<rparr>,
                            bt_consumer := KPcm meta out\<rparr>)"
| "bridge_move Q M ProducerMove s = bridge_producer_move Q M s"
| "bridge_move Q M ConsumerMove s =
     (case bt_consumer s of
        KIdle \<Rightarrow> s
      | KPcm meta out \<Rightarrow>
          (let (r, xs, b) = bridge_pop_pcm Q meta out (bt_bridge s) in
           s\<lparr>bt_bridge := b, bt_consumer := KIdle, pop_replies := pop_replies s @ [r],
             delivered := delivered s @ (if r = Ok (Some meta) then [(meta, xs)] else [])\<rparr>))"

definition bridge_run :: "(f32, 'q) array_queue \<Rightarrow> 'm metadata_queue \<Rightarrow> bridge_action list
    \<Rightarrow> ('q, 'm) bridge_threads \<Rightarrow> ('q, 'm) bridge_threads" where
  "bridge_run Q M ms s = fold (bridge_move Q M) ms s"

text \<open>A call whose moves are not interrupted is the handler.\<close>

lemma push_call_alone:
  assumes "bt_producer s = BIdle"
  shows "bt_bridge (bridge_run Q M [PushCall t xs, ProducerMove, ProducerMove] s)
      = snd (bridge_try_push Q M t xs (bt_bridge s))"
    and "push_replies (bridge_run Q M [PushCall t xs, ProducerMove, ProducerMove] s)
      = push_replies s @ [fst (bridge_try_push Q M t xs (bt_bridge s))]"
  using assms
  by (auto simp: bridge_run_def bridge_try_push_def bridge_publish_def Let_def
      split: outcome.splits prod.splits bool.splits)

lemma pop_call_alone:
  assumes "bt_consumer s = KIdle"
  shows "bt_bridge (bridge_run Q M [PopCallB out, ConsumerMove] s)
      = snd (snd (bridge_try_pop Q M out (bt_bridge s)))"
    and "pop_replies (bridge_run Q M [PopCallB out, ConsumerMove] s)
      = pop_replies s @ [fst (bridge_try_pop Q M out (bt_bridge s))]"
  using assms
  by (auto simp: bridge_run_def bridge_try_pop_def Let_def split: prod.splits option.splits)

section \<open>The invariant of the interleavings\<close>

text \<open>
  Metadata the consumer holds, and metadata the producer has not published yet: the blocks that
  are in the pool but not in the metadata queue.
\<close>

definition held :: "('q, 'm) bridge_threads \<Rightarrow> network_block_metadata list" where
  "held s = (case bt_consumer s of KPcm meta out \<Rightarrow> [meta] | KIdle \<Rightarrow> [])"

definition pending :: "('q, 'm) bridge_threads \<Rightarrow> network_block_metadata list" where
  "pending s = (case bt_producer s of
     BMeta t next \<Rightarrow> [\<lparr>nb_sequence = br_next_sequence (bt_bridge s), nb_timestamp = t\<rparr>]
   | _ \<Rightarrow> [])"

definition outstanding :: "('q, 'm) bridge_threads \<Rightarrow> (network_block_metadata \<times> f32 list) list" where
  "outstanding s = drop (length (delivered s)) (entered s)"

definition pcm_holds :: "nat \<Rightarrow> nat \<Rightarrow> 'q transport_prototype \<Rightarrow> nat \<Rightarrow> f32 list list \<Rightarrow> bool" where
  "pcm_holds B C tp n q \<longleftrightarrow> tp_block_samples tp = of_nat B
     \<and> (\<exists>p. tp_inner tp = Blocks p \<and> pool_holds B C p n q)"

definition queues_inv :: "(usize \<Rightarrow> 'm \<Rightarrow> nat \<Rightarrow> network_block_metadata list \<Rightarrow> bool)
    \<Rightarrow> ('q, 'm) bridge_threads \<Rightarrow> bool" where
  "queues_inv mrel s \<longleftrightarrow>
     (let b = bt_bridge s in
      delivered s = take (length (delivered s)) (entered s)
      \<and> pcm_holds (required_samples (br_format b)) (unat (br_capacity b)) (br_pcm b)
          (length (entered s)) (map snd (outstanding s))
      \<and> (\<exists>n qm. mrel (br_capacity b) (br_metadata b) n qm
            \<and> map fst (outstanding s) = held s @ qm @ pending s)
      \<and> (\<forall>t next xs. bt_producer s = BPcm t next xs \<longrightarrow>
            length xs = required_samples (br_format b))
      \<and> (\<forall>meta out. bt_consumer s = KPcm meta out \<longrightarrow>
            length out = required_samples (br_format b)))"

lemma held_simps [simp]:
  "held (s\<lparr>bt_bridge := b\<rparr>) = held s" "held (s\<lparr>bt_producer := p\<rparr>) = held s"
  "held (s\<lparr>push_replies := rs\<rparr>) = held s" "held (s\<lparr>pop_replies := rs'\<rparr>) = held s"
  "held (s\<lparr>entered := es\<rparr>) = held s" "held (s\<lparr>delivered := es\<rparr>) = held s"
  "held (s\<lparr>timeline := ms\<rparr>) = held s"
  "held (s\<lparr>bt_consumer := KIdle\<rparr>) = []" "held (s\<lparr>bt_consumer := KPcm m out\<rparr>) = [m]"
  by (simp_all add: held_def)

lemma pending_simps [simp]:
  "br_next_sequence b = br_next_sequence (bt_bridge s) \<Longrightarrow> pending (s\<lparr>bt_bridge := b\<rparr>) = pending s"
  "pending (s\<lparr>bt_consumer := c\<rparr>) = pending s" "pending (s\<lparr>push_replies := rs\<rparr>) = pending s"
  "pending (s\<lparr>pop_replies := rs'\<rparr>) = pending s" "pending (s\<lparr>entered := es\<rparr>) = pending s"
  "pending (s\<lparr>delivered := es\<rparr>) = pending s" "pending (s\<lparr>timeline := ms\<rparr>) = pending s"
  "pending (s\<lparr>bt_producer := BIdle\<rparr>) = []" "pending (s\<lparr>bt_producer := BPcm t next xs\<rparr>) = []"
  "pending (s\<lparr>bt_producer := BMeta t next\<rparr>)
     = [\<lparr>nb_sequence = br_next_sequence (bt_bridge s), nb_timestamp = t\<rparr>]"
  by (auto simp: pending_def split: bridge_producer_pc.splits)

lemma pending_cases [simp]:
  "bt_producer s = BIdle \<Longrightarrow> pending s = []" "bt_producer s = BPcm t next xs \<Longrightarrow> pending s = []"
  by (simp_all add: pending_def)

lemma outstanding_simps [simp]:
  "outstanding (s\<lparr>bt_bridge := b\<rparr>) = outstanding s"
  "outstanding (s\<lparr>bt_producer := p\<rparr>) = outstanding s"
  "outstanding (s\<lparr>bt_consumer := c\<rparr>) = outstanding s"
  "outstanding (s\<lparr>push_replies := rs\<rparr>) = outstanding s"
  "outstanding (s\<lparr>pop_replies := rs'\<rparr>) = outstanding s"
  "outstanding (s\<lparr>timeline := ms\<rparr>) = outstanding s"
  "outstanding (s\<lparr>entered := es\<rparr>) = drop (length (delivered s)) es"
  "outstanding (s\<lparr>delivered := ds\<rparr>) = drop (length ds) (entered s)"
  by (simp_all add: outstanding_def)

text \<open>No call panicked, and no pop found the queues out of step.\<close>

definition replies_ok :: "('q, 'm) bridge_threads \<Rightarrow> bool" where
  "replies_ok s \<longleftrightarrow> Panic \<notin> set (push_replies s) \<and> Panic \<notin> set (pop_replies s)
     \<and> Err Desynchronized \<notin> set (pop_replies s)"

lemma pcm_push_full:
  assumes "pcm_holds B C tp n q" "length xs = B" "length q = C"
  shows "try_push_block Q xs tp = (Ok False, tp)"
  using assms pool_push_full [of B C _ n q xs] by (auto simp: pcm_holds_def try_push_block_def)

lemma pcm_push_ok:
  assumes "pcm_holds B C tp n q" "length xs = B" "length q < C" "wrap_safe C (Suc n)"
  obtains tp' where "try_push_block Q xs tp = (Ok True, tp')" "pcm_holds B C tp' (Suc n) (q @ [xs])"
proof -
  obtain p where p: "tp_inner tp = Blocks p" "tp_block_samples tp = of_nat B" "pool_holds B C p n q"
    using assms(1) by (auto simp: pcm_holds_def)
  note ok = pool_push_ok [OF p(3) assms(3,2,4)]
  obtain p' where "pool_try_push xs p = (Ok True, p')" "pool_holds B C p' (Suc n) (q @ [xs])"
    by (rule ok)
  then show ?thesis
    using that [of "tp\<lparr>tp_inner := Blocks p'\<rparr>"] p assms(2)
    by (simp add: try_push_block_def pcm_holds_def)
qed

lemma pcm_pop_ok:
  assumes "pcm_holds B C tp n (x # q)" "length out = B"
  obtains tp' where "try_pop_block Q out tp = (Ok True, x, tp')" "pcm_holds B C tp' n q"
proof -
  obtain p where p: "tp_inner tp = Blocks p" "tp_block_samples tp = of_nat B"
    "pool_holds B C p n (x # q)"
    using assms(1) by (auto simp: pcm_holds_def)
  note ok = pool_pop_ok [OF p(3) assms(2)]
  obtain p' where "pool_try_pop out p = (Ok True, x, p')" "pool_holds B C p' n q"
    by (rule ok)
  then show ?thesis
    using that [of "tp\<lparr>tp_inner := Blocks p'\<rparr>"] p assms(2)
    by (simp add: try_pop_block_def pcm_holds_def)
qed

lemma pcm_bound: "pcm_holds B C tp n q \<Longrightarrow> length q \<le> C \<and> 0 < C"
  by (auto simp: pcm_holds_def pool_holds_def)

lemma metadata_fifo:
  assumes "array_queue_laws M mrel" "0 < unat cap"
  shows "bounded_fifo (mrel cap) (aq_push M) (aq_pop M) (aq_len M) (\<lambda>_. True) (\<lambda>_. True) (unat cap)"
  using assms by (simp add: array_queue_laws_def word_less_nat_alt)

lemma publish_fields:
  "br_pcm (snd (bridge_publish M t next b)) = br_pcm b"
  "br_format (snd (bridge_publish M t next b)) = br_format b"
  "br_capacity (snd (bridge_publish M t next b)) = br_capacity b"
  by (auto simp: bridge_publish_def Let_def split: prod.splits bool.splits)

lemma pcm_move_inv:
  assumes i: "queues_inv mrel s" and pc: "bt_producer s = BPcm t next xs"
    and safe: "wrap_safe (unat (br_capacity (bt_bridge s))) (Suc (length (entered s)))"
  shows "queues_inv mrel (bridge_producer_move Q M s)
    \<and> (replies_ok s \<longrightarrow> replies_ok (bridge_producer_move Q M s))"
proof -
  let ?b = "bt_bridge s"
  let ?B = "required_samples (br_format ?b)" and ?C = "unat (br_capacity ?b)"
  have pcm: "pcm_holds ?B ?C (br_pcm ?b) (length (entered s)) (map snd (outstanding s))"
    and xs: "length xs = ?B" and pre: "delivered s = take (length (delivered s)) (entered s)"
    using i pc by (simp_all add: queues_inv_def Let_def)
  have le: "length (delivered s) \<le> length (entered s)" using pre by (metis length_take min.cobounded1 min_def)
  consider "length (outstanding s) = ?C" | "length (outstanding s) < ?C"
    using pcm_bound [OF pcm] by fastforce
  then show ?thesis
  proof cases
    case 1
    then have "try_push_block Q xs (br_pcm ?b) = (Ok False, br_pcm ?b)"
      using pcm_push_full [OF pcm xs] by simp
    then have step: "bridge_producer_move Q M s
        = s\<lparr>bt_producer := BIdle, push_replies := push_replies s @ [Err PushOverflow]\<rparr>"
      using pc by simp
    show ?thesis
      using i pc unfolding step
      by (simp add: queues_inv_def Let_def replies_ok_def)
  next
    case 2
    have lt: "length (map snd (outstanding s)) < ?C" using 2 by simp
    note ok = pcm_push_ok [OF pcm xs lt safe, of Q]
    obtain tp where tp: "try_push_block Q xs (br_pcm ?b) = (Ok True, tp)"
      "pcm_holds ?B ?C tp (Suc (length (entered s))) (map snd (outstanding s) @ [xs])"
      by (rule ok)
    let ?m = "\<lparr>nb_sequence = br_next_sequence ?b, nb_timestamp = t\<rparr>"
    have step: "bridge_producer_move Q M s
        = s\<lparr>bt_bridge := ?b\<lparr>br_pcm := tp\<rparr>, bt_producer := BMeta t next,
            entered := entered s @ [(?m, xs)]\<rparr>"
      using pc tp(1) by (simp add: Let_def)
    show ?thesis
      using i pc tp(2) le outstanding_def [of s] unfolding step
      by (simp add: queues_inv_def Let_def replies_ok_def)
  qed
qed

lemma publish_move_inv:
  assumes M: "array_queue_laws M mrel" and i: "queues_inv mrel s" and pc: "bt_producer s = BMeta t next"
  shows "queues_inv mrel (bridge_producer_move Q M s)
    \<and> (replies_ok s \<longrightarrow> replies_ok (bridge_producer_move Q M s))
    \<and> (\<exists>b. bridge_publish M t next (bt_bridge s)
         = (Ok \<lparr>nb_sequence = br_next_sequence (bt_bridge s), nb_timestamp = t\<rparr>, b))"
proof -
  let ?b = "bt_bridge s"
  let ?C = "unat (br_capacity ?b)"
  let ?m = "\<lparr>nb_sequence = br_next_sequence ?b, nb_timestamp = t\<rparr>"
  have pcm: "pcm_holds (required_samples (br_format ?b)) ?C (br_pcm ?b) (length (entered s))
      (map snd (outstanding s))"
    using i by (simp add: queues_inv_def Let_def)
  obtain n qm where q: "mrel (br_capacity ?b) (br_metadata ?b) n qm"
    "map fst (outstanding s) = held s @ qm @ [?m]"
    using i pc by (auto simp: queues_inv_def Let_def pending_def)
  note fifo = metadata_fifo [OF M conjunct2 [OF pcm_bound [OF pcm]]]
  have "length (map fst (outstanding s)) \<le> ?C" using pcm_bound [OF pcm] by simp
  then have "length qm < ?C" unfolding q(2) by simp
  then obtain m where m: "aq_push M ?m (br_metadata ?b) = (True, m)"
    "mrel (br_capacity ?b) m (Suc n) (qm @ [?m])"
    using bounded_fifo.push_ok [OF fifo q(1)] by auto
  let ?b' = "?b\<lparr>br_metadata := m, br_next_sequence := br_next_sequence ?b + 1,
    br_expected := Some next\<rparr>"
  have pub: "bridge_publish M t next ?b = (Ok ?m, ?b')"
    using m(1) by (simp add: bridge_publish_def Let_def)
  then have step: "bridge_producer_move Q M s
      = s\<lparr>bt_bridge := ?b', bt_producer := BIdle, push_replies := push_replies s @ [Ok ?m],
          timeline := timeline s @ [?m]\<rparr>"
    using pc by simp
  have "\<exists>n' qm'. mrel (br_capacity ?b) m n' qm' \<and> map fst (outstanding s) = held s @ qm'"
    using m(2) q(2) by blast
  then have "queues_inv mrel (bridge_producer_move Q M s)"
    using i pc unfolding step
    by (simp add: queues_inv_def Let_def)
  moreover have "replies_ok s \<longrightarrow> replies_ok (bridge_producer_move Q M s)"
    unfolding step by (simp add: replies_ok_def)
  ultimately show ?thesis using pub by blast
qed

lemma pop_call_inv:
  assumes M: "array_queue_laws M mrel" and i: "queues_inv mrel s"
  shows "queues_inv mrel (bridge_move Q M (PopCallB out) s)
    \<and> (replies_ok s \<longrightarrow> replies_ok (bridge_move Q M (PopCallB out) s))"
proof (cases "bt_consumer s = KIdle \<and> length out = required_samples (br_format (bt_bridge s))")
  case False
  then show ?thesis
    using i by (auto simp: queues_inv_def Let_def replies_ok_def)
next
  case True
  let ?b = "bt_bridge s"
  let ?C = "unat (br_capacity ?b)"
  have pcm: "pcm_holds (required_samples (br_format ?b)) ?C (br_pcm ?b) (length (entered s))
      (map snd (outstanding s))"
    using i by (simp add: queues_inv_def Let_def)
  obtain n qm where q: "mrel (br_capacity ?b) (br_metadata ?b) n qm"
    "map fst (outstanding s) = qm @ pending s"
    using i True by (auto simp: queues_inv_def Let_def held_def)
  note fifo = metadata_fifo [OF M conjunct2 [OF pcm_bound [OF pcm]]]
  show ?thesis
  proof (cases qm)
    case Nil
    then have "aq_pop M (br_metadata ?b) = (None, br_metadata ?b)"
      using bounded_fifo.pop_empty [OF fifo] q(1) by simp
    then have step: "bridge_move Q M (PopCallB out) s
        = s\<lparr>pop_replies := pop_replies s @ [Ok None]\<rparr>"
      using True by simp
    show ?thesis
      using i unfolding step
      by (simp add: queues_inv_def Let_def replies_ok_def)
  next
    case (Cons meta qm')
    then obtain m where m: "aq_pop M (br_metadata ?b) = (Some meta, m)"
      "mrel (br_capacity ?b) m n qm'"
      using bounded_fifo.pop_ok [OF fifo] q(1) by blast
    then have step: "bridge_move Q M (PopCallB out) s
        = s\<lparr>bt_bridge := ?b\<lparr>br_metadata := m\<rparr>, bt_consumer := KPcm meta out\<rparr>"
      using True by simp
    have "\<exists>n' qm'. mrel (br_capacity ?b) m n' qm' \<and> map fst (outstanding s) = meta # qm' @ pending s"
      using m(2) q(2) Cons by auto
    then show ?thesis
      using i True unfolding step
      by (simp add: queues_inv_def Let_def replies_ok_def)
  qed
qed

lemma pop_move_inv:
  assumes i: "queues_inv mrel s"
  shows "queues_inv mrel (bridge_move Q M ConsumerMove s)
    \<and> (replies_ok s \<longrightarrow> replies_ok (bridge_move Q M ConsumerMove s))"
proof (cases "bt_consumer s")
  case KIdle
  then show ?thesis using i by simp
next
  case (KPcm meta out)
  let ?b = "bt_bridge s"
  let ?B = "required_samples (br_format ?b)" and ?C = "unat (br_capacity ?b)"
  have pcm: "pcm_holds ?B ?C (br_pcm ?b) (length (entered s)) (map snd (outstanding s))"
    and out: "length out = ?B" and pre: "delivered s = take (length (delivered s)) (entered s)"
    using i KPcm by (simp_all add: queues_inv_def Let_def)
  obtain n qm where q: "mrel (br_capacity ?b) (br_metadata ?b) n qm"
    "map fst (outstanding s) = meta # qm @ pending s"
    using i KPcm by (auto simp: queues_inv_def Let_def held_def)
  then obtain xs O' where O: "outstanding s = (meta, xs) # O'"
    by (cases "outstanding s") auto
  have pcm': "pcm_holds ?B ?C (br_pcm ?b) (length (entered s)) (xs # map snd O')"
    using pcm O by simp
  note ok = pcm_pop_ok [OF pcm' out, of Q]
  obtain tp where tp: "try_pop_block Q out (br_pcm ?b) = (Ok True, xs, tp)"
    "pcm_holds ?B ?C tp (length (entered s)) (map snd O')"
    by (rule ok)
  have step: "bridge_move Q M ConsumerMove s
      = s\<lparr>bt_bridge := ?b\<lparr>br_pcm := tp\<rparr>, bt_consumer := KIdle,
          pop_replies := pop_replies s @ [Ok (Some meta)], delivered := delivered s @ [(meta, xs)]\<rparr>"
    using KPcm tp(1) by (simp add: bridge_pop_pcm_def)
  have lt: "length (delivered s) < length (entered s)"
  proof (rule ccontr)
    assume "\<not> ?thesis"
    then have "outstanding s = []" by (simp add: outstanding_def)
    then show False using O by simp
  qed
  have nth: "entered s ! length (delivered s) = (meta, xs)"
    using O lt unfolding outstanding_def by (metis nth_via_drop)
  have del: "delivered s @ [(meta, xs)] = take (Suc (length (delivered s))) (entered s)"
    using pre nth lt by (metis take_Suc_conv_app_nth)
  have O': "drop (Suc (length (delivered s))) (entered s) = O'"
    using O unfolding outstanding_def by (metis drop_Suc drop_tl list.sel(3))
  have "\<exists>n' qm'. mrel (br_capacity ?b) (br_metadata ?b) n' qm' \<and> map fst O' = qm' @ pending s"
    using q O by auto
  moreover have "length (take (Suc (length (delivered s))) (entered s)) = Suc (length (delivered s))"
    using lt by simp
  ultimately have "queues_inv mrel (bridge_move Q M ConsumerMove s)"
    using i tp(2) O' unfolding step del by (simp add: queues_inv_def Let_def del: length_take)
  moreover have "replies_ok s \<longrightarrow> replies_ok (bridge_move Q M ConsumerMove s)"
    unfolding step by (simp add: replies_ok_def)
  ultimately show ?thesis by blast
qed

lemma preflight_Ok:
  "bridge_preflight M t xs b = Ok next \<longleftrightarrow>
     length xs = required_samples (br_format b) \<and> timestamp_rate t = sample_rate (br_format b)
     \<and> (br_expected b = None \<or> br_expected b = Some t)
     \<and> checked_advance t (block_frames (br_format b)) = Ok next
     \<and> aq_len M (br_metadata b) < br_capacity b"
  by (cases "br_expected b"; cases "checked_advance t (block_frames (br_format b))")
    (auto simp: bridge_preflight_def)

lemma preflight_no_panic: "bridge_preflight M t xs b \<noteq> Panic"
  by (auto simp: bridge_preflight_def split: outcome.splits)

lemma bridge_move_inv:
  assumes M: "array_queue_laws M mrel" and i: "queues_inv mrel s"
    and safe: "wrap_safe (unat (br_capacity (bt_bridge s))) (Suc (length (entered s)))"
  shows "queues_inv mrel (bridge_move Q M a s) \<and> (replies_ok s \<longrightarrow> replies_ok (bridge_move Q M a s))"
proof (cases a)
  case (PushCall t xs)
  show ?thesis
  proof (cases "bt_producer s = BIdle")
    case True
    show ?thesis
    proof (cases "bridge_preflight M t xs (bt_bridge s)")
      case (Ok tn)
      then have "length xs = required_samples (br_format (bt_bridge s))" by (simp add: preflight_Ok)
      then show ?thesis
        using i PushCall True Ok by (simp add: queues_inv_def Let_def replies_ok_def)
    next
      case (Err e)
      then show ?thesis
        using i PushCall True by (simp add: queues_inv_def Let_def replies_ok_def)
    next
      case Panic
      then show ?thesis using preflight_no_panic by blast
    qed
  qed (use i PushCall in simp)
next
  case (ResetCall n)
  then show ?thesis
    using i by (cases "bt_producer s = BIdle")
      (simp_all add: reset_timeline_if_empty_def queues_inv_def Let_def replies_ok_def)
next
  case (PopCallB out)
  then show ?thesis using pop_call_inv [OF M i] by blast
next
  case ProducerMove
  then show ?thesis
    using i pcm_move_inv [OF i _ safe] publish_move_inv [OF M i]
    by (cases "bt_producer s") auto
next
  case ConsumerMove
  then show ?thesis using pop_move_inv [OF i] by blast
qed

lemma bridge_move_fields:
  "br_capacity (bt_bridge (bridge_move Q M a s)) = br_capacity (bt_bridge s)"
  "br_format (bt_bridge (bridge_move Q M a s)) = br_format (bt_bridge s)"
  "length (entered (bridge_move Q M a s)) \<le> Suc (length (entered s))"
  by (cases a; auto simp: reset_timeline_if_empty_def bridge_publish_def bridge_pop_pcm_def Let_def
      split: outcome.splits prod.splits bool.splits option.splits bridge_producer_pc.splits
        bridge_consumer_pc.splits)+

section \<open>The timeline\<close>

text \<open>Successive metadata: the next sequence number, and the next media time.\<close>

fun linked :: "usize \<Rightarrow> network_block_metadata list \<Rightarrow> bool" where
  "linked frames (m # m' # ms) =
     (nb_sequence m' = nb_sequence m + 1
      \<and> checked_advance (nb_timestamp m) frames = Ok (nb_timestamp m') \<and> linked frames (m' # ms))"
| "linked frames [m] = True"
| "linked frames [] = True"

lemma linked_snoc:
  "linked frames (ms @ [m]) \<longleftrightarrow> linked frames ms
     \<and> (ms \<noteq> [] \<longrightarrow> nb_sequence m = nb_sequence (last ms) + 1
         \<and> checked_advance (nb_timestamp (last ms)) frames = Ok (nb_timestamp m))"
  by (induction frames ms rule: linked.induct) auto

definition link_state :: "('q, 'm) network_bridge \<Rightarrow> network_block_metadata list \<Rightarrow> bool" where
  "link_state b ms \<longleftrightarrow> linked (block_frames (br_format b)) ms
     \<and> (if ms = [] then br_expected b = None
        else br_next_sequence b = nb_sequence (last ms) + 1
          \<and> is_some_and (\<lambda>e. checked_advance (nb_timestamp (last ms)) (block_frames (br_format b)) = Ok e)
              (br_expected b))"

fun producer_ready :: "('q, 'm) network_bridge \<Rightarrow> bridge_producer_pc \<Rightarrow> bool" where
  "producer_ready b BIdle = True"
| "producer_ready b (BPcm t next xs) =
     ((br_expected b = None \<or> br_expected b = Some t)
      \<and> checked_advance t (block_frames (br_format b)) = Ok next
      \<and> timestamp_rate t = sample_rate (br_format b)
      \<and> length xs = required_samples (br_format b))"
| "producer_ready b (BMeta t next) =
     ((br_expected b = None \<or> br_expected b = Some t)
      \<and> checked_advance t (block_frames (br_format b)) = Ok next)"

definition block_ok :: "network_audio_format \<Rightarrow> network_block_metadata \<times> f32 list \<Rightarrow> bool" where
  "block_ok f = (\<lambda>(m, xs). block_validate (bridge_block f m xs) = Ok ())"

definition timeline_inv :: "('q, 'm) bridge_threads \<Rightarrow> bool" where
  "timeline_inv s \<longleftrightarrow>
     link_state (bt_bridge s) (timeline s)
     \<and> producer_ready (bt_bridge s) (bt_producer s)
     \<and> samples_per_block (br_format (bt_bridge s)) \<noteq> None
     \<and> list_all (block_ok (br_format (bt_bridge s))) (entered s)"

lemma link_state_simps [simp]:
  "link_state (b\<lparr>br_pcm := p\<rparr>) ms = link_state b ms"
  "link_state (b\<lparr>br_metadata := m\<rparr>) ms = link_state b ms"
  by (simp_all add: link_state_def)

lemma producer_ready_simps [simp]:
  "producer_ready (b\<lparr>br_pcm := p\<rparr>) pc = producer_ready b pc"
  "producer_ready (b\<lparr>br_metadata := m\<rparr>) pc = producer_ready b pc"
  by (cases pc; simp)+

lemma link_state_publish:
  assumes "link_state b ms" "producer_ready b (BMeta t next)"
  shows "link_state (b\<lparr>br_metadata := m, br_next_sequence := br_next_sequence b + 1,
      br_expected := Some next\<rparr>) (ms @ [\<lparr>nb_sequence = br_next_sequence b, nb_timestamp = t\<rparr>])"
  using assms by (auto simp: link_state_def linked_snoc split: if_splits)

lemma entered_block_ok:
  assumes "producer_ready b (BPcm t next xs)" and "samples_per_block (br_format b) \<noteq> None"
  shows "block_ok (br_format b) (\<lparr>nb_sequence = n, nb_timestamp = t\<rparr>, xs)"
  using assms
  by (auto simp: block_ok_def bridge_block_def block_validate_def required_samples_def)

lemma bridge_move_timeline:
  assumes i: "timeline_inv s"
  shows "timeline_inv (bridge_move Q M a s)"
proof (cases a)
  case (PushCall t xs)
  show ?thesis
  proof (cases "bt_producer s = BIdle")
    case True
    show ?thesis
    proof (cases "bridge_preflight M t xs (bt_bridge s)")
      case (Ok tn)
      from preflight_Ok [THEN iffD1, OF this] show ?thesis
        using i PushCall True Ok by (simp add: timeline_inv_def)
    qed (use i PushCall True in \<open>simp_all add: timeline_inv_def\<close>)
  qed (use i PushCall in simp)
next
  case (ResetCall n)
  then show ?thesis
    using i by (cases "bt_producer s = BIdle")
      (simp_all add: reset_timeline_if_empty_def timeline_inv_def link_state_def)
next
  case (PopCallB out)
  then show ?thesis using i by (auto simp: timeline_inv_def split: option.splits prod.splits)
next
  case ProducerMove
  show ?thesis
  proof (cases "bt_producer s")
    case BIdle
    then show ?thesis using i ProducerMove by simp
  next
    case (BPcm t tn xs)
    have ok: "block_ok (br_format (bt_bridge s)) (\<lparr>nb_sequence = n, nb_timestamp = t\<rparr>, xs)" for n
      using entered_block_ok i BPcm unfolding timeline_inv_def by metis
    have "producer_ready (bt_bridge s) (BMeta t tn)"
      using i BPcm by (simp add: timeline_inv_def)
    then show ?thesis
      using i ok BPcm ProducerMove
      by (auto simp: timeline_inv_def Let_def split: outcome.splits prod.splits bool.splits)
  next
    case (BMeta t tn)
    let ?m = "\<lparr>nb_sequence = br_next_sequence (bt_bridge s), nb_timestamp = t\<rparr>"
    obtain b m where p: "aq_push M ?m (br_metadata (bt_bridge s)) = (b, m)"
      by (cases "aq_push M ?m (br_metadata (bt_bridge s))")
    have "link_state (bt_bridge s) (timeline s)" "producer_ready (bt_bridge s) (BMeta t tn)"
      using i BMeta by (simp_all add: timeline_inv_def)
    from link_state_publish [OF this, of m] show ?thesis
      using i BMeta ProducerMove p
      by (cases b) (simp_all add: bridge_publish_def Let_def timeline_inv_def)
  qed
next
  case ConsumerMove
  then show ?thesis
    using i by (auto simp: timeline_inv_def bridge_pop_pcm_def Let_def
        split: bridge_consumer_pc.splits outcome.splits prod.splits bool.splits)
qed

lemma bridge_run_inv:
  "array_queue_laws M mrel \<Longrightarrow> queues_inv mrel s \<Longrightarrow> timeline_inv s \<Longrightarrow> replies_ok s \<Longrightarrow>
     wrap_safe (unat (br_capacity (bt_bridge s))) (length (entered s) + length ms) \<Longrightarrow>
     queues_inv mrel (bridge_run Q M ms s) \<and> timeline_inv (bridge_run Q M ms s)
       \<and> replies_ok (bridge_run Q M ms s)
       \<and> br_capacity (bt_bridge (bridge_run Q M ms s)) = br_capacity (bt_bridge s)
       \<and> br_format (bt_bridge (bridge_run Q M ms s)) = br_format (bt_bridge s)"
proof (induction ms arbitrary: s)
  case Nil
  then show ?case by (simp add: bridge_run_def)
next
  case (Cons a ms)
  let ?s = "bridge_move Q M a s"
  have run: "bridge_run Q M (a # ms) s = bridge_run Q M ms ?s" by (simp add: bridge_run_def)
  have "wrap_safe (unat (br_capacity (bt_bridge s))) (Suc (length (entered s)))"
    using wrap_safe_mono [OF Cons.prems(5)] by simp
  then have "queues_inv mrel ?s" "replies_ok ?s"
    using bridge_move_inv [OF Cons.prems(1,2)] Cons.prems(4) by blast+
  moreover have "timeline_inv ?s" using bridge_move_timeline Cons.prems(3) .
  moreover have "wrap_safe (unat (br_capacity (bt_bridge ?s))) (length (entered ?s) + length ms)"
    using wrap_safe_mono [OF Cons.prems(5)] bridge_move_fields(3) [of Q M a s]
    unfolding bridge_move_fields(1) by simp
  ultimately show ?case
    using Cons.IH [OF Cons.prems(1)] unfolding run by (simp add: bridge_move_fields del: bridge_move.simps)
qed

lemma create_bridge_inv:
  assumes M: "array_queue_laws M mrel" and b: "create_network_transport_bridge Q M f C = Some b"
  shows "queues_inv mrel (bridge_threads_new b)" and "timeline_inv (bridge_threads_new b)"
    and "br_capacity b = C" and "br_format b = f"
proof -
  obtain B tp where B: "samples_per_block f = Some B"
    and tp: "transport_new Q FixedBlockPool B C = Some tp" and C: "\<not> C < 2"
    and eq: "b = \<lparr>br_pcm = tp, br_metadata = aq_new M C, br_format = f, br_capacity = C,
      br_next_sequence = 0, br_expected = None\<rparr>"
    using b by (auto simp: create_network_transport_bridge_def split: if_splits option.splits)
  have cap: "0 < C" using C by (simp add: word_less_nat_alt)
  have kind: "\<exists>p. tp_inner tp = Blocks p" and size: "tp_block_samples tp = B"
    and B0: "B \<noteq> 0"
    using tp by (auto simp: transport_new_def split: if_splits option.splits)
  obtain p where p: "tp_inner tp = Blocks p" "pool_new B C = Some p"
    using tp by (auto simp: transport_new_def split: if_splits option.splits)
  obtain sz where sz: "checked_mul B C = Some sz"
    using p(2) by (auto simp: pool_new_def split: option.splits)
  then have u: "unat sz = unat B * unat C" using checked_mul_Some [of B C sz] by blast
  have "unat sz < 2 ^ LENGTH(64)" by (rule unsigned_less)
  then have "pool_holds (unat B) (unat C) p 0 []"
    using p(2) sz u cap B0 by (auto simp: pool_new_def pool_holds_def wrap_safe_def unat_gt_0)
  then have "pcm_holds (unat B) (unat C) tp 0 []" using p(1) size by (simp add: pcm_holds_def)
  moreover have "mrel C (aq_new M C) 0 []"
    using M cap by (simp add: array_queue_laws_def)
  ultimately show "queues_inv mrel (bridge_threads_new b)"
    using B eq by (auto simp: queues_inv_def bridge_threads_new_def required_samples_def
        outstanding_def held_def pending_def)
  show "timeline_inv (bridge_threads_new b)"
    using B eq by (simp add: timeline_inv_def bridge_threads_new_def link_state_def)
  show "br_capacity b = C" "br_format b = f" using eq by simp_all
qed

text \<open>
  C4: Under every interleaving of the audio callback and the network worker, queue access by
  queue access: the worker receives the accepted blocks in order, each with its own metadata, at
  most the capacity are under way, no pop ever finds the two queues out of step, nothing panics,
  the sequence numbers and media times published since a timeline reset follow each other, and
  every block passes the validation of the transport contract.
\<close>

theorem bridge_interleavings_deliver:
  assumes "array_queue_laws M mrel"
    and "create_network_transport_bridge Q M f C = Some b"
    and "wrap_safe (unat C) (length ms)"
  shows "let s = bridge_run Q M ms (bridge_threads_new b) in
    (\<exists>waiting. entered s = delivered s @ waiting \<and> length waiting \<le> unat C)
    \<and> Err Desynchronized \<notin> set (pop_replies s)
    \<and> Panic \<notin> set (pop_replies s) \<and> Panic \<notin> set (push_replies s)
    \<and> linked (block_frames f) (timeline s)
    \<and> list_all (block_ok f) (entered s)"
proof -
  let ?init = "bridge_threads_new b"
  let ?s = "bridge_run Q M ms ?init"
  note init = create_bridge_inv [OF assms(1,2)]
  have r: "replies_ok ?init" by (simp add: replies_ok_def bridge_threads_new_def)
  have f: "bt_bridge ?init = b" "entered ?init = []" by (simp_all add: bridge_threads_new_def)
  have s: "queues_inv mrel ?s" "timeline_inv ?s" "replies_ok ?s"
    "br_capacity (bt_bridge ?s) = C" "br_format (bt_bridge ?s) = f"
    using bridge_run_inv [OF assms(1) init(1,2) r, of ms Q] init(3,4) assms(3)
    unfolding f by simp_all
  have "pcm_holds (required_samples f) (unat C) (br_pcm (bt_bridge ?s)) (length (entered ?s))
      (map snd (outstanding ?s))"
    using s(1,4,5) by (simp add: queues_inv_def Let_def)
  then have "length (outstanding ?s) \<le> unat C" using pcm_bound by fastforce
  moreover have "entered ?s = delivered ?s @ outstanding ?s"
    using s(1) unfolding queues_inv_def Let_def outstanding_def by (metis append_take_drop_id)
  ultimately show ?thesis
    using s(2,3,5) by (auto simp: Let_def replies_ok_def timeline_inv_def link_state_def)
qed

definition demo_bridge_format :: network_audio_format where
  "demo_bridge_format = \<lparr>sample_rate = 48000, channels = 1, block_frames = 1\<rparr>"

text \<open>
  Two pushes and a third refused while the worker is between its two pops; the worker then takes
  the first block.
\<close>

definition demo_bridge_moves :: "bridge_action list" where
  "demo_bridge_moves =
     [PushCall (MediaTimestamp 0 48000) [7], ProducerMove, ProducerMove,
      PushCall (MediaTimestamp 1 48000) [8], ProducerMove, PopCallB [0], ProducerMove,
      PushCall (MediaTimestamp 2 48000) [9], ProducerMove, ConsumerMove]"

theorem bridge_interleavings_deliver_witness:
  "\<exists>b. create_network_transport_bridge list_queue list_queue demo_bridge_format 2 = Some b
    \<and> (let s = bridge_run list_queue list_queue demo_bridge_moves (bridge_threads_new b) in
        delivered s = [(\<lparr>nb_sequence = 0, nb_timestamp = MediaTimestamp 0 48000\<rparr>, [7])]
        \<and> length (entered s) = 2 \<and> Err PushOverflow \<in> set (push_replies s)
        \<and> Err Desynchronized \<notin> set (pop_replies s)
        \<and> (\<exists>waiting. entered s = delivered s @ waiting \<and> length waiting \<le> 2))"
proof -
  let ?p = "\<lparr>pool_samples = [0, 0], pool_lengths = [0, 0], pool_block_samples = 1,
    pool_head = 0, pool_tail = 0\<rparr>"
  let ?b = "\<lparr>br_pcm = \<lparr>tp_inner = Blocks ?p, tp_block_samples = 1\<rparr>, br_metadata = ([], 2),
    br_format = demo_bridge_format, br_capacity = 2, br_next_sequence = 0, br_expected = None\<rparr>
    :: (f32 list \<times> nat, network_block_metadata list \<times> nat) network_bridge"
  have "replicate 2 0 = [0, 0 :: f32]" "replicate 2 0 = [0, 0 :: usize]"
    by (simp_all add: numeral_2_eq_2)
  then have new: "create_network_transport_bridge list_queue list_queue demo_bridge_format 2 = Some ?b"
    by (simp add: create_network_transport_bridge_def demo_bridge_format_def samples_per_block_def
        checked_mul_def transport_new_def pool_new_def list_queue_def)
  have safe: "wrap_safe (unat (2::usize)) (length demo_bridge_moves)"
    by (simp add: wrap_safe_def)
  let ?s = "bridge_run list_queue list_queue demo_bridge_moves (bridge_threads_new ?b)"
  have "delivered ?s = [(\<lparr>nb_sequence = 0, nb_timestamp = MediaTimestamp 0 48000\<rparr>, [7])]
      \<and> length (entered ?s) = 2 \<and> Err PushOverflow \<in> set (push_replies ?s)"
    by (simp add: bridge_run_def demo_bridge_moves_def bridge_threads_new_def bridge_preflight_def
        required_samples_def samples_per_block_def checked_mul_def demo_bridge_format_def
        checked_advance_def checked_add_def list_queue_def try_push_block_def try_pop_block_def
        pool_try_push_def pool_try_pop_def bridge_publish_def bridge_pop_pcm_def Let_def word_le_nat_alt)
  then show ?thesis
    using new bridge_interleavings_deliver [OF list_queue_laws new safe] by (auto simp: Let_def)
qed

text \<open>What the worker hands to its backend for a popped block.\<close>

lemma try_submit_one_Ok:
  "fst (try_submit_one Q M V t scratch b) = Ok True \<longleftrightarrow>
     (\<exists>meta. fst (bridge_try_pop Q M scratch b) = Ok (Some meta)
        \<and> is_ok (fst (nt_submit V (bridge_block (br_format b) meta
            (fst (snd (bridge_try_pop Q M scratch b)))) t)))"
  by (auto simp: try_submit_one_def is_ok_iff split: prod.splits outcome.splits option.splits)

end
