(* ===== verification/Esp_Aem.thy ===== *)
theory Esp_Aem
  imports Complex_Main Esp_Control Network_Api
begin

text \<open>
  The AVDECC program of a handover,
  \<open>src/adapters/aurora-network-esp-avb/src/aem_control.rs\<close>: endpoint envelopes become
  \<open>SET_CONTROL\<close> writes, and the start frame becomes an absolute PTP time.  The receiving
  end, the control state machine that \<open>src/validation/physical/aurora_patch_esp_avb_aem_endpoint.py\<close>
  puts into the endpoint firmware, is modelled as well, so that the program and its receiver
  can be composed.
\<close>

section \<open>Data\<close>

definition AURORA_AEM_CONTROL_EPOCH :: u16 where "AURORA_AEM_CONTROL_EPOCH = 3"
definition AURORA_AEM_CONTROL_ROLE0 :: u16 where "AURORA_AEM_CONTROL_ROLE0 = 4"
definition AURORA_AEM_CONTROL_ROLE1 :: u16 where "AURORA_AEM_CONTROL_ROLE1 = 5"
definition AURORA_AEM_CONTROL_START_PTP_NS :: u16 where "AURORA_AEM_CONTROL_START_PTP_NS = 6"
definition AURORA_AEM_CONTROL_COMMAND :: u16 where "AURORA_AEM_CONTROL_COMMAND = 7"

definition AURORA_AEM_COMMAND_MUTE :: u8 where "AURORA_AEM_COMMAND_MUTE = 1"
definition AURORA_AEM_COMMAND_PREPARE :: u8 where "AURORA_AEM_COMMAND_PREPARE = 2"
definition AURORA_AEM_COMMAND_ARM :: u8 where "AURORA_AEM_COMMAND_ARM = 3"
definition AURORA_AEM_COMMAND_COMMIT :: u8 where "AURORA_AEM_COMMAND_COMMIT = 4"
definition AURORA_AEM_COMMAND_STOP :: u8 where "AURORA_AEM_COMMAND_STOP = 5"
definition AURORA_AEM_ROLE_UNUSED :: u8 where "AURORA_AEM_ROLE_UNUSED = 0xff"

lemmas aem_constants =
  AURORA_AEM_CONTROL_EPOCH_def AURORA_AEM_CONTROL_ROLE0_def AURORA_AEM_CONTROL_ROLE1_def
  AURORA_AEM_CONTROL_START_PTP_NS_def AURORA_AEM_CONTROL_COMMAND_def AURORA_AEM_COMMAND_MUTE_def
  AURORA_AEM_COMMAND_PREPARE_def AURORA_AEM_COMMAND_ARM_def AURORA_AEM_COMMAND_COMMIT_def
  AURORA_AEM_COMMAND_STOP_def AURORA_AEM_ROLE_UNUSED_def

record esp_avb_aem_target =
  at_endpoint_id :: string
  at_entity_id :: "u8 list"

record ptp_media_anchor =
  pa_frame_index :: u64
  pa_ptp_time_ns :: u64
  pa_sample_rate :: u32

datatype aem_control_scalar_type = LinearUint8 | LinearUint64

record aem_set_control_write =
  aw_endpoint_id :: string
  aw_target_entity_id :: "u8 list"
  aw_stream_id :: u64
  aw_control_index :: u16
  aw_scalar_type :: aem_control_scalar_type
  aw_value :: "u8 list"
  aw_value_len :: u8

datatype esp_avb_aem_control_error =
    AcInvalidMediaAnchor | AcFrameBeforeAnchor | AcTimestampOverflow | AcEmptyTarget
  | AcZeroEntityId | AcDuplicateTarget | AcUnknownTarget | AcInvalidEpoch | AcUnsupportedRoute
  | AcUnsupportedClock | AcUnsupportedRole | AcUnsupportedLaneCount

text \<open>Big-endian bytes, \<open>u64::to_be_bytes\<close> and \<open>u64::from_be_bytes\<close>.\<close>

definition to_be_bytes :: "u64 \<Rightarrow> u8 list" where
  "to_be_bytes v = be_bytes 8 (unat v)"

definition from_be_bytes :: "u8 list \<Rightarrow> u64" where
  "from_be_bytes bs = of_nat (foldl (\<lambda>n b. n * 256 + unat b) 0 bs)"

lemma from_to_be_bytes [simp]: "from_be_bytes (to_be_bytes v) = v"
proof -
  have "unat v < 256 ^ 8" using unsigned_less [of v] by simp
  then show ?thesis by (simp add: from_be_bytes_def to_be_bytes_def foldl_be_bytes)
qed

lemma length_to_be_bytes [simp]: "length (to_be_bytes v) = 8"
  by (simp add: to_be_bytes_def)

section \<open>Media time\<close>

definition ptp_time_for_frame ::
  "ptp_media_anchor \<Rightarrow> u64 \<Rightarrow> (u64, esp_avb_aem_control_error) outcome" where
  "ptp_time_for_frame a frame =
     (if pa_sample_rate a \<noteq> AURORA_NETWORK_MEDIA_RATE then Err AcInvalidMediaAnchor
      else case checked_sub frame (pa_frame_index a) of
        None \<Rightarrow> Err AcFrameBeforeAnchor
      | Some delta_frames \<Rightarrow>
          (case checked_mul (ucast delta_frames :: 128 word) 1000000000 of
             None \<Rightarrow> Err AcTimestampOverflow
           | Some numerator \<Rightarrow>
               (case checked_add numerator (ucast (pa_sample_rate a div 2)) of
                  None \<Rightarrow> Err AcTimestampOverflow
                | Some rounded \<Rightarrow>
                    let rounded_ns = rounded div ucast (pa_sample_rate a) in
                    if unat rounded_ns < 2 ^ 64
                    then (case checked_add (pa_ptp_time_ns a) (ucast rounded_ns) of
                            None \<Rightarrow> Err AcTimestampOverflow
                          | Some t \<Rightarrow> Ok t)
                    else Err AcTimestampOverflow)))"

lemma checked_add_Some_unat: "checked_add a b = Some c \<longleftrightarrow> unat c = unat a + unat b"
proof
  assume c: "unat c = unat a + unat b"
  have "unat (a + b) = unat a + unat b"
    using unsigned_less [of c, where ?'a = nat] by (intro unat_add_no_overflow) (simp add: c)
  then have "c = a + b" by (simp add: word_unat_eq_iff c)
  then show "checked_add a b = Some c" using c by (simp add: checked_add_Some)
qed (drule iffD1 [OF checked_add_Some], erule conjunct2)

lemma ptp_time_for_frame_Ok:
  "ptp_time_for_frame a frame = Ok t \<longleftrightarrow>
     pa_sample_rate a = 48000 \<and> unat (pa_frame_index a) \<le> unat frame
     \<and> unat t = unat (pa_ptp_time_ns a)
         + ((unat frame - unat (pa_frame_index a)) * 10 ^ 9 + 24000) div 48000"
proof (cases "pa_sample_rate a = 48000 \<and> unat (pa_frame_index a) \<le> unat frame")
  case False
  then show ?thesis
  proof (cases "pa_sample_rate a = 48000")
    case True
    with \<open>\<not> _\<close> have "unat frame < unat (pa_frame_index a)" by simp
    then have "checked_sub frame (pa_frame_index a) = None" by (simp only: checked_sub_None)
    with \<open>\<not> (_ \<and> _)\<close> True show ?thesis by (simp add: ptp_time_for_frame_def)
  qed (simp add: ptp_time_for_frame_def AURORA_NETWORK_MEDIA_RATE_def)
next
  case True
  define d where "d = frame - pa_frame_index a"
  define n where "n = (ucast d :: 128 word) * 1000000000"
  have d: "unat d = unat frame - unat (pa_frame_index a)"
    using True by (simp add: d_def unat_sub word_le_nat_alt)
  have "unat d < 2 ^ 64" using unsigned_less [of d, where ?'a = nat] by simp
  then have small: "unat d * 1000000000 < 2 ^ 94" by simp
  have ud: "unat (ucast d :: 128 word) = unat d"
    using \<open>unat d < 2 ^ 64\<close> by (simp add: unsigned_ucast_eq take_bit_nat_eq_self)
  have mul: "checked_mul (ucast d :: 128 word) 1000000000 = Some n"
    using small by (simp add: checked_mul_def ud n_def)
  have n: "unat n = unat d * 1000000000" 
    using conjunct2 [OF iffD1 [OF checked_mul_Some mul]] by (simp add: ud)
  have half: "(48000 :: u32) div 2 = 24000" by simp
  have add: "checked_add n (24000 :: 128 word) = Some (n + 24000)"
    using small by (simp add: checked_add_def n)
  have s: "unat (n + 24000) = unat d * 1000000000 + 24000"
    using conjunct2 [OF iffD1 [OF checked_add_Some add]] by (simp add: n)
  define q where "q = (n + 24000) div 48000"
  have q: "unat q = (unat d * 1000000000 + 24000) div 48000"
    by (simp add: q_def unat_div s)
  have sub: "checked_sub frame (pa_frame_index a) = Some d"
    using True by (simp add: checked_sub_def d_def word_le_nat_alt)
  have eq: "ptp_time_for_frame a frame =
      (if unat q < 2 ^ 64
       then (case checked_add (pa_ptp_time_ns a) (ucast q) of
               None \<Rightarrow> Err AcTimestampOverflow | Some t \<Rightarrow> Ok t)
       else Err AcTimestampOverflow)"
    using True
    by (simp add: ptp_time_for_frame_def AURORA_NETWORK_MEDIA_RATE_def sub mul add half q_def Let_def)
  have uq: "unat (ucast q :: u64) = unat q" if "unat q < 2 ^ 64"
    using that by (simp add: unsigned_ucast_eq take_bit_nat_eq_self)
  show ?thesis
  proof (cases "unat q < 2 ^ 64")
    case True
    have "ptp_time_for_frame a frame = Ok t \<longleftrightarrow> unat t = unat (pa_ptp_time_ns a) + unat q"
      using True uq [OF True] checked_add_Some_unat [of "pa_ptp_time_ns a" "ucast q" t]
      by (cases "checked_add (pa_ptp_time_ns a) (ucast q)") (auto simp: eq)
    then show ?thesis using \<open>pa_sample_rate a = 48000 \<and> _\<close> by (simp add: q d)
  next
    case False
    have "unat t < 2 ^ 64" using unsigned_less [of t, where ?'a = nat] by simp
    then show ?thesis using False by (simp add: eq q d)
  qed
qed

lemma ptp_time_for_frame_no_panic: "ptp_time_for_frame a frame \<noteq> Panic"
  by (auto simp: ptp_time_for_frame_def Let_def split: option.split)

section \<open>The program\<close>

definition aem_uint8 ::
  "esp_avb_control_envelope \<Rightarrow> u8 list \<Rightarrow> u16 \<Rightarrow> u8 \<Rightarrow> aem_set_control_write" where
  "aem_uint8 env entity index v =
     \<lparr>aw_endpoint_id = ev_endpoint_id env, aw_target_entity_id = entity,
      aw_stream_id = ev_stream_id env, aw_control_index = index, aw_scalar_type = LinearUint8,
      aw_value = (replicate 8 0)[0 := v], aw_value_len = 1\<rparr>"

definition aem_uint64 ::
  "esp_avb_control_envelope \<Rightarrow> u8 list \<Rightarrow> u16 \<Rightarrow> u64 \<Rightarrow> aem_set_control_write" where
  "aem_uint64 env entity index v =
     \<lparr>aw_endpoint_id = ev_endpoint_id env, aw_target_entity_id = entity,
      aw_stream_id = ev_stream_id env, aw_control_index = index, aw_scalar_type = LinearUint64,
      aw_value = to_be_bytes v, aw_value_len = 8\<rparr>"

definition value_u64 :: "aem_set_control_write \<Rightarrow> u64 option" where
  "value_u64 w = (if aw_value_len w = 8 then Some (from_be_bytes (aw_value w)) else None)"

definition value_u8 :: "aem_set_control_write \<Rightarrow> u8 option" where
  "value_u8 w = (if aw_value_len w = 1 then Some (aw_value w ! 0) else None)"

fun encode_role :: "channel_role \<Rightarrow> (u8, esp_avb_aem_control_error) outcome" where
  "encode_role FrontLeft = Ok 0"
| "encode_role FrontRight = Ok 1"
| "encode_role FrontCenter = Ok 2"
| "encode_role LowFrequencyEffects = Ok 3"
| "encode_role SurroundLeft = Ok 4"
| "encode_role SurroundRight = Ok 5"
| "encode_role SurroundBackLeft = Ok 6"
| "encode_role SurroundBackRight = Ok 7"
| "encode_role TopFrontLeft = Ok 8"
| "encode_role TopFrontRight = Ok 9"
| "encode_role TopRearLeft = Ok 10"
| "encode_role TopRearRight = Ok 11"
| "encode_role (Custom _) = Err AcUnsupportedRole"

fun encode_all :: "channel_role list \<Rightarrow> (unit, esp_avb_aem_control_error) outcome" where
  "encode_all [] = Ok ()"
| "encode_all (r # rs) =
     (case encode_role r of Err e \<Rightarrow> Err e | Panic \<Rightarrow> Panic | Ok _ \<Rightarrow> encode_all rs)"

definition validate_prepare :: "module_route \<Rightarrow> module_clock_source \<Rightarrow> channel_role list
    \<Rightarrow> (unit, esp_avb_aem_control_error) outcome" where
  "validate_prepare route clock roles =
     (if route \<noteq> WiredNetwork \<and> route \<noteq> WirelessNetwork then Err AcUnsupportedRoute
      else if clock \<noteq> Ptp then Err AcUnsupportedClock
      else if roles = [] \<or> 2 < length roles then Err AcUnsupportedLaneCount
      else encode_all roles)"

fun target_conflicts ::
  "esp_avb_aem_target \<Rightarrow> esp_avb_aem_target list \<Rightarrow> (unit, esp_avb_aem_control_error) outcome" where
  "target_conflicts t [] = Ok ()"
| "target_conflicts t (other # rest) =
     (if at_endpoint_id t = at_endpoint_id other \<or> at_entity_id t = at_entity_id other
      then Err AcDuplicateTarget else target_conflicts t rest)"

fun validate_targets ::
  "esp_avb_aem_target list \<Rightarrow> (unit, esp_avb_aem_control_error) outcome" where
  "validate_targets [] = Ok ()"
| "validate_targets (t # ts) =
     (if at_endpoint_id t = [] then Err AcEmptyTarget
      else if at_entity_id t = replicate 8 0 then Err AcZeroEntityId
      else case target_conflicts t ts of
        Err e \<Rightarrow> Err e | Panic \<Rightarrow> Panic
      | Ok _ \<Rightarrow> validate_targets ts)"

text \<open>The two matches of \<open>append_command_writes\<close>: on the epoch and code, and on the parameters.\<close>

fun aem_command_code :: "endpoint_command \<Rightarrow> (u64 \<times> u8, esp_avb_aem_control_error) outcome" where
  "aem_command_code (Mute _ epoch) = Ok (epoch, AURORA_AEM_COMMAND_MUTE)"
| "aem_command_code (Prepare _ epoch route clock roles) =
     (case validate_prepare route clock roles of
        Err e \<Rightarrow> Err e | Panic \<Rightarrow> Panic
      | Ok _ \<Rightarrow> Ok (epoch, AURORA_AEM_COMMAND_PREPARE))"
| "aem_command_code (Arm _ epoch _) = Ok (epoch, AURORA_AEM_COMMAND_ARM)"
| "aem_command_code (Commit _ epoch) = Ok (epoch, AURORA_AEM_COMMAND_COMMIT)"
| "aem_command_code (Stop _ epoch) = Ok (epoch, AURORA_AEM_COMMAND_STOP)"

definition second_role_code :: "channel_role list \<Rightarrow> (u8, esp_avb_aem_control_error) outcome" where
  "second_role_code roles =
     (if length roles = 2 then encode_role (roles ! 1) else Ok AURORA_AEM_ROLE_UNUSED)"

fun aem_parameters :: "esp_avb_control_envelope \<Rightarrow> u8 list \<Rightarrow> ptp_media_anchor \<Rightarrow> endpoint_command
    \<Rightarrow> (aem_set_control_write list, esp_avb_aem_control_error) outcome" where
  "aem_parameters env entity anchor (Prepare _ _ _ _ roles) =
     (case get_at roles 0 of
        None \<Rightarrow> Panic
      | Some r0 \<Rightarrow>
          (case encode_role r0 of
             Err e \<Rightarrow> Err e | Panic \<Rightarrow> Panic
           | Ok role0 \<Rightarrow>
               (case second_role_code roles of
                  Err e \<Rightarrow> Err e | Panic \<Rightarrow> Panic
                | Ok role1 \<Rightarrow> Ok [aem_uint8 env entity AURORA_AEM_CONTROL_ROLE0 role0,
                                  aem_uint8 env entity AURORA_AEM_CONTROL_ROLE1 role1])))"
| "aem_parameters env entity anchor (Arm _ _ start) =
     (case ptp_time_for_frame anchor start of
        Err e \<Rightarrow> Err e | Panic \<Rightarrow> Panic
      | Ok t \<Rightarrow> Ok [aem_uint64 env entity AURORA_AEM_CONTROL_START_PTP_NS t])"
| "aem_parameters env entity anchor _ = Ok []"

definition append_command_writes :: "aem_set_control_write list \<Rightarrow> esp_avb_control_envelope
    \<Rightarrow> u8 list \<Rightarrow> ptp_media_anchor \<Rightarrow> (aem_set_control_write list, esp_avb_aem_control_error) outcome" where
  "append_command_writes writes env entity anchor =
     (case aem_command_code (ev_command env) of
        Err e \<Rightarrow> Err e | Panic \<Rightarrow> Panic
      | Ok (epoch, code) \<Rightarrow>
          if epoch = 0 then Err AcInvalidEpoch
          else (case aem_parameters env entity anchor (ev_command env) of
            Err e \<Rightarrow> Err e | Panic \<Rightarrow> Panic
          | Ok ps \<Rightarrow> Ok (writes @ [aem_uint64 env entity AURORA_AEM_CONTROL_EPOCH epoch] @ ps
                          @ [aem_uint8 env entity AURORA_AEM_CONTROL_COMMAND code])))"

fun compile_aem_loop :: "esp_avb_aem_target list \<Rightarrow> ptp_media_anchor \<Rightarrow> aem_set_control_write list
    \<Rightarrow> esp_avb_control_envelope list
    \<Rightarrow> (aem_set_control_write list, esp_avb_aem_control_error) outcome" where
  "compile_aem_loop ts anchor writes [] = Ok writes"
| "compile_aem_loop ts anchor writes (env # envs) =
     (case find (\<lambda>t. at_endpoint_id t = ev_endpoint_id env) ts of
        None \<Rightarrow> Err AcUnknownTarget
      | Some t \<Rightarrow>
          (case append_command_writes writes env (at_entity_id t) anchor of
             Err e \<Rightarrow> Err e | Panic \<Rightarrow> Panic
           | Ok writes' \<Rightarrow> compile_aem_loop ts anchor writes' envs))"

definition compile_aem_control_program :: "esp_avb_control_envelope list \<Rightarrow> esp_avb_aem_target list
    \<Rightarrow> ptp_media_anchor \<Rightarrow> (aem_set_control_write list, esp_avb_aem_control_error) outcome" where
  "compile_aem_control_program envs ts anchor =
     (if pa_sample_rate anchor \<noteq> AURORA_NETWORK_MEDIA_RATE then Err AcInvalidMediaAnchor
      else case validate_targets ts of
        Err e \<Rightarrow> Err e | Panic \<Rightarrow> Panic
      | Ok _ \<Rightarrow> compile_aem_loop ts anchor [] envs)"

section \<open>The endpoint firmware\<close>

datatype firmware_phase = FwBootMuted | FwMuted | FwPrepared | FwArmed | FwCommitted | FwFault

datatype aecp_status = AecpSuccess | AecpBadArguments | AecpNoSuchDescriptor

record firmware_endpoint =
  staged_epoch :: u64
  staged_role0 :: u8
  staged_role1 :: u8
  staged_start_ptp_ns :: u64
  last_command :: u8
  active_epoch :: u64
  active_role0 :: u8
  active_role1 :: u8
  armed_start_ptp_ns :: u64
  fw_phase :: firmware_phase
  fw_muted :: bool

text \<open>The assignments of the initialisation; the rest of the state is what memory held.\<close>

definition firmware_boot :: "firmware_endpoint \<Rightarrow> firmware_endpoint" where
  "firmware_boot s = s\<lparr>fw_phase := FwBootMuted, fw_muted := True,
     staged_role0 := AURORA_AEM_ROLE_UNUSED, staged_role1 := AURORA_AEM_ROLE_UNUSED,
     active_role0 := AURORA_AEM_ROLE_UNUSED, active_role1 := AURORA_AEM_ROLE_UNUSED\<rparr>"

definition firmware_fail :: "firmware_endpoint \<Rightarrow> aecp_status \<times> firmware_endpoint" where
  "firmware_fail s = (AecpBadArguments, s\<lparr>fw_phase := FwFault, fw_muted := True\<rparr>)"

definition firmware_roles_valid :: "firmware_endpoint \<Rightarrow> bool" where
  "firmware_roles_valid s =
     (if 11 < staged_role0 s then False
      else if staged_role1 s \<noteq> AURORA_AEM_ROLE_UNUSED \<and> 11 < staged_role1 s then False
      else if staged_role1 s \<noteq> AURORA_AEM_ROLE_UNUSED \<and> staged_role1 s = staged_role0 s then False
      else True)"

definition firmware_mute :: "u8 \<Rightarrow> firmware_endpoint \<Rightarrow> aecp_status \<times> firmware_endpoint" where
  "firmware_mute command s =
     (if staged_epoch s = 0 \<or> staged_epoch s < active_epoch s then firmware_fail s
      else if fw_phase s = FwFault \<and> staged_epoch s \<le> active_epoch s then firmware_fail s
      else (AecpSuccess, s\<lparr>active_epoch := staged_epoch s,
              active_role0 := AURORA_AEM_ROLE_UNUSED, active_role1 := AURORA_AEM_ROLE_UNUSED,
              armed_start_ptp_ns := 0, fw_phase := FwMuted, fw_muted := True,
              last_command := command\<rparr>))"

definition firmware_prepare :: "u8 \<Rightarrow> firmware_endpoint \<Rightarrow> aecp_status \<times> firmware_endpoint" where
  "firmware_prepare command s =
     (if \<not> firmware_roles_valid s then firmware_fail s
      else if fw_phase s = FwPrepared \<and> active_role0 s = staged_role0 s
         \<and> active_role1 s = staged_role1 s
      then (AecpSuccess, s\<lparr>last_command := command\<rparr>)
      else if fw_phase s \<noteq> FwMuted then firmware_fail s
      else (AecpSuccess, s\<lparr>active_role0 := staged_role0 s, active_role1 := staged_role1 s,
              fw_phase := FwPrepared, fw_muted := True, last_command := command\<rparr>))"

definition firmware_arm :: "u8 \<Rightarrow> firmware_endpoint \<Rightarrow> aecp_status \<times> firmware_endpoint" where
  "firmware_arm command s =
     (if staged_start_ptp_ns s = 0 then firmware_fail s
      else if fw_phase s = FwArmed \<and> armed_start_ptp_ns s = staged_start_ptp_ns s
      then (AecpSuccess, s\<lparr>last_command := command\<rparr>)
      else if fw_phase s \<noteq> FwPrepared then firmware_fail s
      else (AecpSuccess, s\<lparr>armed_start_ptp_ns := staged_start_ptp_ns s, fw_phase := FwArmed,
              fw_muted := True, last_command := command\<rparr>))"

definition firmware_commit :: "u8 \<Rightarrow> firmware_endpoint \<Rightarrow> aecp_status \<times> firmware_endpoint" where
  "firmware_commit command s =
     (if fw_phase s = FwCommitted then (AecpSuccess, s\<lparr>last_command := command\<rparr>)
      else if fw_phase s \<noteq> FwArmed then firmware_fail s
      else (AecpSuccess, s\<lparr>fw_phase := FwCommitted, fw_muted := True, last_command := command\<rparr>))"

definition firmware_stop :: "u8 \<Rightarrow> firmware_endpoint \<Rightarrow> aecp_status \<times> firmware_endpoint" where
  "firmware_stop command s =
     (if fw_phase s = FwFault then firmware_fail s
      else (AecpSuccess, s\<lparr>fw_phase := FwMuted, fw_muted := True, armed_start_ptp_ns := 0,
              last_command := command\<rparr>))"

definition firmware_apply_command ::
  "u8 \<Rightarrow> firmware_endpoint \<Rightarrow> aecp_status \<times> firmware_endpoint" where
  "firmware_apply_command command s =
     (if command = AURORA_AEM_COMMAND_MUTE then firmware_mute command s
      else if staged_epoch s = 0 \<or> staged_epoch s \<noteq> active_epoch s then firmware_fail s
      else if command = AURORA_AEM_COMMAND_PREPARE then firmware_prepare command s
      else if command = AURORA_AEM_COMMAND_ARM then firmware_arm command s
      else if command = AURORA_AEM_COMMAND_COMMIT then firmware_commit command s
      else if command = AURORA_AEM_COMMAND_STOP then firmware_stop command s
      else firmware_fail s)"

text \<open>
  The \<open>SET_CONTROL\<close> handler.  \<open>octets_to_uint\<close> and the controls 0 to 2 belong to the
  patched upstream component; they are the parameters \<open>octets\<close> and \<open>upstream\<close>.
\<close>

definition control_value_len :: "u16 \<Rightarrow> nat" where
  "control_value_len i =
     (if i \<in> {0, 4, 5, 7} then 1 else if i \<in> {1, 2} then 2 else if i \<in> {3, 6} then 8 else 0)"

definition firmware_set_control :: "(u8 list \<Rightarrow> u64) \<Rightarrow> (u16 \<Rightarrow> u8 list \<Rightarrow> aecp_status) \<Rightarrow> u16
    \<Rightarrow> u8 list \<Rightarrow> firmware_endpoint \<Rightarrow> aecp_status \<times> firmware_endpoint" where
  "firmware_set_control octets upstream i v s =
     (if control_value_len i = 0 then (AecpNoSuchDescriptor, s)
      else if length v < control_value_len i then (AecpBadArguments, s)
      else if i = 3 then (AecpSuccess, s\<lparr>staged_epoch := octets (take 8 v)\<rparr>)
      else if i = 4 then (AecpSuccess, s\<lparr>staged_role0 := v ! 0\<rparr>)
      else if i = 5 then (AecpSuccess, s\<lparr>staged_role1 := v ! 0\<rparr>)
      else if i = 6 then (AecpSuccess, s\<lparr>staged_start_ptp_ns := octets (take 8 v)\<rparr>)
      else if i = 7 then firmware_apply_command (v ! 0) s
      else (upstream i v, s))"

fun firmware_run :: "(u8 list \<Rightarrow> u64) \<Rightarrow> (u16 \<Rightarrow> u8 list \<Rightarrow> aecp_status) \<Rightarrow> aem_set_control_write list
    \<Rightarrow> firmware_endpoint \<Rightarrow> aecp_status list \<times> firmware_endpoint" where
  "firmware_run octets upstream [] s = ([], s)"
| "firmware_run octets upstream (w # ws) s =
     (case firmware_set_control octets upstream (aw_control_index w)
         (take (unat (aw_value_len w)) (aw_value w)) s of
        (r, s') \<Rightarrow> apfst (Cons r) (firmware_run octets upstream ws s'))"

section \<open>What the compiler emits\<close>

definition targets_ok :: "esp_avb_aem_target list \<Rightarrow> bool" where
  "targets_ok ts \<longleftrightarrow> distinct (map at_endpoint_id ts) \<and> distinct (map at_entity_id ts)
     \<and> (\<forall>t\<in>set ts. at_endpoint_id t \<noteq> [] \<and> at_entity_id t \<noteq> replicate 8 0)"

lemma target_conflicts_iff:
  "target_conflicts t ts = Ok () \<longleftrightarrow>
     at_endpoint_id t \<notin> at_endpoint_id ` set ts \<and> at_entity_id t \<notin> at_entity_id ` set ts"
  by (induction t ts rule: target_conflicts.induct) auto

lemma validate_targets_iff: "validate_targets ts = Ok () \<longleftrightarrow> targets_ok ts"
proof (induction ts)
  case Nil
  then show ?case by (simp add: targets_ok_def)
next
  case (Cons t ts)
  have "validate_targets (t # ts) = Ok () \<longleftrightarrow> at_endpoint_id t \<noteq> []
      \<and> at_entity_id t \<noteq> replicate 8 0 \<and> target_conflicts t ts = Ok () \<and> validate_targets ts = Ok ()"
    by (cases "target_conflicts t ts") auto
  then show ?case unfolding Cons.IH target_conflicts_iff by (auto simp: targets_ok_def)
qed

definition envelope_writes :: "esp_avb_aem_target list \<Rightarrow> ptp_media_anchor
    \<Rightarrow> esp_avb_control_envelope \<Rightarrow> (aem_set_control_write list, esp_avb_aem_control_error) outcome" where
  "envelope_writes ts anchor env =
     (case find (\<lambda>t. at_endpoint_id t = ev_endpoint_id env) ts of
        None \<Rightarrow> Err AcUnknownTarget
      | Some t \<Rightarrow> append_command_writes [] env (at_entity_id t) anchor)"

lemma append_command_writes_Ok:
  "append_command_writes writes env entity anchor = Ok ws \<longleftrightarrow>
     (\<exists>ps. append_command_writes [] env entity anchor = Ok ps \<and> ws = writes @ ps)"
  by (cases "aem_command_code (ev_command env)";
      cases "aem_parameters env entity anchor (ev_command env)")
    (auto simp: append_command_writes_def split: prod.splits)

lemma compile_aem_loop_Ok:
  "compile_aem_loop ts anchor writes envs = Ok ws \<longleftrightarrow>
     (\<exists>pss. list_all2 (\<lambda>env ps. envelope_writes ts anchor env = Ok ps) envs pss
       \<and> ws = writes @ concat pss)"
proof (induction envs arbitrary: writes ws)
  case Nil
  then show ?case by auto
next
  case (Cons env envs)
  show ?case
  proof (cases "find (\<lambda>t. at_endpoint_id t = ev_endpoint_id env) ts")
    case None
    then show ?thesis by (simp add: list_all2_Cons1 envelope_writes_def)
  next
    case (Some t)
    have "compile_aem_loop ts anchor writes (env # envs) = Ok ws \<longleftrightarrow>
        (\<exists>writes'. append_command_writes writes env (at_entity_id t) anchor = Ok writes'
           \<and> compile_aem_loop ts anchor writes' envs = Ok ws)"
      using Some by (cases "append_command_writes writes env (at_entity_id t) anchor") auto
    then show ?thesis
      using Some unfolding Cons.IH append_command_writes_Ok [of writes]
      by (fastforce simp: list_all2_Cons1 envelope_writes_def)
  qed
qed

lemma compile_aem_Ok:
  "compile_aem_control_program envs ts anchor = Ok ws \<longleftrightarrow>
     pa_sample_rate anchor = 48000 \<and> targets_ok ts
     \<and> (\<exists>pss. list_all2 (\<lambda>env ps. envelope_writes ts anchor env = Ok ps) envs pss \<and> ws = concat pss)"
proof (cases "validate_targets ts")
  case (Ok u)
  then show ?thesis
    by (simp add: compile_aem_control_program_def AURORA_NETWORK_MEDIA_RATE_def
        compile_aem_loop_Ok flip: validate_targets_iff)
qed (simp_all add: compile_aem_control_program_def flip: validate_targets_iff)

lemma aem_parameters_entity:
  "aem_parameters env entity anchor c = Ok ps \<Longrightarrow> w \<in> set ps \<Longrightarrow> aw_target_entity_id w = entity"
  by (cases c) (auto simp: aem_uint8_def aem_uint64_def split: option.splits outcome.splits)

lemma envelope_writes_entity:
  assumes "envelope_writes ts anchor env = Ok ps" and "targets_ok ts" and "t \<in> set ts"
  shows "\<forall>w\<in>set ps. (aw_target_entity_id w = at_entity_id t) = (ev_endpoint_id env = at_endpoint_id t)"
proof -
  obtain t' where t': "find (\<lambda>t. at_endpoint_id t = ev_endpoint_id env) ts = Some t'"
    using assms(1) by (auto simp: envelope_writes_def split: option.splits)
  then have in': "t' \<in> set ts" "at_endpoint_id t' = ev_endpoint_id env" by (auto simp: find_Some_iff)
  have "append_command_writes [] env (at_entity_id t') anchor = Ok ps"
    using assms(1) t' by (simp add: envelope_writes_def)
  then have "\<forall>w\<in>set ps. aw_target_entity_id w = at_entity_id t'"
    by (auto simp: append_command_writes_def aem_uint8_def aem_uint64_def
        dest: aem_parameters_entity split: outcome.splits prod.splits if_splits)
  moreover have "at_entity_id t' = at_entity_id t \<longleftrightarrow> t' = t" "at_endpoint_id t' = at_endpoint_id t \<longleftrightarrow> t' = t"
    using assms(2,3) in'(1) by (auto simp: targets_ok_def distinct_map dest: inj_onD)
  ultimately show ?thesis using in'(2) by auto
qed

text \<open>The writes sent to one entity are those of the envelopes of its endpoint, in order.\<close>

lemma entity_writes:
  assumes "list_all2 (\<lambda>env ps. envelope_writes ts anchor env = Ok ps) envs pss"
    and "targets_ok ts" and "t \<in> set ts"
  shows "\<exists>own. list_all2 (\<lambda>env ps. envelope_writes ts anchor env = Ok ps)
      (filter (\<lambda>v. ev_endpoint_id v = at_endpoint_id t) envs) own
    \<and> filter (\<lambda>w. aw_target_entity_id w = at_entity_id t) (concat pss) = concat own"
  using assms(1)
proof (induction rule: list_all2_induct)
  case Nil
  then show ?case by simp
next
  case (Cons env envs ps pss)
  then obtain own where own: "list_all2 (\<lambda>env ps. envelope_writes ts anchor env = Ok ps)
      (filter (\<lambda>v. ev_endpoint_id v = at_endpoint_id t) envs) own"
    "filter (\<lambda>w. aw_target_entity_id w = at_entity_id t) (concat pss) = concat own" by blast
  note ent = envelope_writes_entity [OF Cons.hyps(1) assms(2,3)]
  show ?case
  proof (cases "ev_endpoint_id env = at_endpoint_id t")
    case True
    then have "filter (\<lambda>w. aw_target_entity_id w = at_entity_id t) ps = ps"
      using ent by simp
    then show ?thesis using True own Cons.hyps(1) by (intro exI [of _ "ps # own"]) simp
  next
    case False
    then have "filter (\<lambda>w. aw_target_entity_id w = at_entity_id t) ps = []"
      using ent by (simp add: filter_empty_conv)
    then show ?thesis using False own by (intro exI [of _ own]) simp
  qed
qed

section \<open>The program on the firmware\<close>

lemma firmware_run_append:
  "firmware_run octets up (ws @ ws') s =
     (fst (firmware_run octets up ws s) @ fst (firmware_run octets up ws' (snd (firmware_run octets up ws s))),
      snd (firmware_run octets up ws' (snd (firmware_run octets up ws s))))"
  by (induction ws arbitrary: s) (auto split: prod.split)

lemma firmware_staging:
  assumes "\<And>v. octets (to_be_bytes v) = v"
  shows "firmware_run octets up (aem_uint64 env ent AURORA_AEM_CONTROL_EPOCH v # ws) s =
      apfst (Cons AecpSuccess) (firmware_run octets up ws (s\<lparr>staged_epoch := v\<rparr>))"
    and "firmware_run octets up (aem_uint64 env ent AURORA_AEM_CONTROL_START_PTP_NS v # ws) s =
      apfst (Cons AecpSuccess) (firmware_run octets up ws (s\<lparr>staged_start_ptp_ns := v\<rparr>))"
    and "firmware_run octets up (aem_uint8 env ent AURORA_AEM_CONTROL_ROLE0 x # ws) s =
      apfst (Cons AecpSuccess) (firmware_run octets up ws (s\<lparr>staged_role0 := x\<rparr>))"
    and "firmware_run octets up (aem_uint8 env ent AURORA_AEM_CONTROL_ROLE1 x # ws) s =
      apfst (Cons AecpSuccess) (firmware_run octets up ws (s\<lparr>staged_role1 := x\<rparr>))"
    and "firmware_run octets up (aem_uint8 env ent AURORA_AEM_CONTROL_COMMAND x # ws) s =
      (case firmware_apply_command x s of (r, s') \<Rightarrow> apfst (Cons r) (firmware_run octets up ws s'))"
  by (simp_all add: firmware_set_control_def control_value_len_def aem_uint64_def aem_uint8_def
      aem_constants assms)

declare firmware_run.simps(2) [simp del]

lemma encode_role_le: "encode_role r = Ok x \<Longrightarrow> x \<le> 11 \<and> x \<noteq> AURORA_AEM_ROLE_UNUSED"
  by (cases r) (auto simp: AURORA_AEM_ROLE_UNUSED_def)

lemma encode_role_inj: "encode_role r = Ok x \<Longrightarrow> encode_role r' = Ok x \<Longrightarrow> r = r'"
  by (cases r; cases r') auto

lemma envelope_writes_shape:
  assumes "envelope_writes ts anchor env = Ok ps"
  shows "\<exists>ent epoch code params. aem_command_code (ev_command env) = Ok (epoch, code)
    \<and> epoch \<noteq> 0 \<and> aem_parameters env ent anchor (ev_command env) = Ok params
    \<and> ps = aem_uint64 env ent AURORA_AEM_CONTROL_EPOCH epoch # params
      @ [aem_uint8 env ent AURORA_AEM_CONTROL_COMMAND code]"
  using assms
  by (auto simp: envelope_writes_def append_command_writes_def
      split: option.splits outcome.splits prod.splits if_splits)

text \<open>One command of the handover at a time, from the phase the previous one leaves.\<close>

lemma firmware_runs_mute:
  assumes "\<And>v. octets (to_be_bytes v) = v"
    and "envelope_writes ts anchor env = Ok ps" and "ev_command env = Mute m e"
    and "active_epoch s < e"
  shows "firmware_run octets up ps s = (replicate (length ps) AecpSuccess,
    s\<lparr>staged_epoch := e, active_epoch := e, active_role0 := AURORA_AEM_ROLE_UNUSED,
      active_role1 := AURORA_AEM_ROLE_UNUSED, armed_start_ptp_ns := 0, fw_phase := FwMuted,
      fw_muted := True, last_command := 1\<rparr>)"
proof -
  obtain ent where ps: "ps = [aem_uint64 env ent AURORA_AEM_CONTROL_EPOCH e,
      aem_uint8 env ent AURORA_AEM_CONTROL_COMMAND AURORA_AEM_COMMAND_MUTE]" and "e \<noteq> 0"
    using assms(3) envelope_writes_shape [OF assms(2)] by auto
  moreover have "\<not> e \<le> active_epoch s" "\<not> e < active_epoch s" using assms(4) by auto
  ultimately show ?thesis
    by (simp add: firmware_staging [OF assms(1)] firmware_apply_command_def firmware_mute_def)
      (simp add: AURORA_AEM_COMMAND_MUTE_def)
qed

lemma firmware_runs_prepare:
  assumes "\<And>v. octets (to_be_bytes v) = v"
    and "envelope_writes ts anchor env = Ok ps" and "ev_command env = Prepare m e rt ck roles"
    and "active_epoch s = e" and "fw_phase s = FwMuted" and "distinct roles"
  obtains r0 r1 where "encode_role (roles ! 0) = Ok r0" and "second_role_code roles = Ok r1"
    and "firmware_run octets up ps s = (replicate (length ps) AecpSuccess,
    s\<lparr>staged_epoch := e, staged_role0 := r0, staged_role1 := r1, active_role0 := r0,
      active_role1 := r1, fw_phase := FwPrepared, fw_muted := True, last_command := 2\<rparr>)"
proof -
  obtain ent params where ps: "ps = aem_uint64 env ent AURORA_AEM_CONTROL_EPOCH e # params
      @ [aem_uint8 env ent AURORA_AEM_CONTROL_COMMAND AURORA_AEM_COMMAND_PREPARE]" and "e \<noteq> 0"
      and params: "aem_parameters env ent anchor (Prepare m e rt ck roles) = Ok params"
    using assms(3) envelope_writes_shape [OF assms(2)]
    by (auto simp del: aem_parameters.simps(1) split: outcome.splits)
  obtain r0 r1 where r: "roles \<noteq> []" "encode_role (roles ! 0) = Ok r0" "second_role_code roles = Ok r1"
      "params = [aem_uint8 env ent AURORA_AEM_CONTROL_ROLE0 r0,
                 aem_uint8 env ent AURORA_AEM_CONTROL_ROLE1 r1]"
    using params by (auto split: option.splits outcome.splits)
  have r1: "r1 = AURORA_AEM_ROLE_UNUSED \<or> r1 \<noteq> AURORA_AEM_ROLE_UNUSED \<and> r1 \<le> 11 \<and> r1 \<noteq> r0"
  proof (cases "length roles = 2")
    case True
    then have ok: "encode_role (roles ! 1) = Ok r1" using r(3) by (simp add: second_role_code_def)
    have "roles ! 1 \<noteq> roles ! 0"
      using True nth_eq_iff_index_eq [OF assms(6), of 1 0] by simp
    then have "r1 \<noteq> r0" using encode_role_inj [OF ok] r(2) by auto
    then show ?thesis using encode_role_le [OF ok] by simp
  next
    case False
    then show ?thesis using r(3) by (simp add: second_role_code_def)
  qed
  have valid: "firmware_roles_valid (s\<lparr>staged_epoch := e, staged_role0 := r0, staged_role1 := r1\<rparr>)"
    using r1 encode_role_le [OF r(2)] by (auto simp: firmware_roles_valid_def not_less)
  have "firmware_run octets up ps s = (replicate (length ps) AecpSuccess,
    s\<lparr>staged_epoch := e, staged_role0 := r0, staged_role1 := r1, active_role0 := r0,
      active_role1 := r1, fw_phase := FwPrepared, fw_muted := True, last_command := 2\<rparr>)"
    using valid assms(4,5) \<open>e \<noteq> 0\<close>
    by (simp add: ps r(4) firmware_staging [OF assms(1)] firmware_apply_command_def
        firmware_prepare_def) (simp add: aem_constants)
  then show thesis using that r(2,3) by blast
qed

lemma firmware_runs_arm:
  assumes "\<And>v. octets (to_be_bytes v) = v"
    and "envelope_writes ts anchor env = Ok ps" and "ev_command env = Arm m e f"
    and "active_epoch s = e" and "fw_phase s = FwPrepared" and "ptp_time_for_frame anchor f \<noteq> Ok 0"
  obtains t where "ptp_time_for_frame anchor f = Ok t"
    and "firmware_run octets up ps s = (replicate (length ps) AecpSuccess,
    s\<lparr>staged_epoch := e, staged_start_ptp_ns := t, armed_start_ptp_ns := t, fw_phase := FwArmed,
      fw_muted := True, last_command := 3\<rparr>)"
proof -
  obtain ent t where ps: "ps = [aem_uint64 env ent AURORA_AEM_CONTROL_EPOCH e,
      aem_uint64 env ent AURORA_AEM_CONTROL_START_PTP_NS t,
      aem_uint8 env ent AURORA_AEM_CONTROL_COMMAND AURORA_AEM_COMMAND_ARM]" and "e \<noteq> 0"
      and t: "ptp_time_for_frame anchor f = Ok t"
    using assms(3) envelope_writes_shape [OF assms(2)]
    by (cases "ptp_time_for_frame anchor f") auto
  have "firmware_run octets up ps s = (replicate (length ps) AecpSuccess,
    s\<lparr>staged_epoch := e, staged_start_ptp_ns := t, armed_start_ptp_ns := t, fw_phase := FwArmed,
      fw_muted := True, last_command := 3\<rparr>)"
    using assms(4,5,6) \<open>e \<noteq> 0\<close> t
    by (simp add: ps firmware_staging [OF assms(1)] firmware_apply_command_def firmware_arm_def)
      (simp add: aem_constants)
  then show thesis using that t by blast
qed

lemma firmware_runs_commit:
  assumes "\<And>v. octets (to_be_bytes v) = v"
    and "envelope_writes ts anchor env = Ok ps" and "ev_command env = Commit m e"
    and "active_epoch s = e" and "fw_phase s = FwArmed"
  shows "firmware_run octets up ps s = (replicate (length ps) AecpSuccess,
    s\<lparr>staged_epoch := e, fw_phase := FwCommitted, fw_muted := True, last_command := 4\<rparr>)"
proof -
  obtain ent where ps: "ps = [aem_uint64 env ent AURORA_AEM_CONTROL_EPOCH e,
      aem_uint8 env ent AURORA_AEM_CONTROL_COMMAND AURORA_AEM_COMMAND_COMMIT]" and "e \<noteq> 0"
    using assms(3) envelope_writes_shape [OF assms(2)] by auto
  then show ?thesis
    using assms(4,5)
    by (simp add: firmware_staging [OF assms(1)] firmware_apply_command_def firmware_commit_def)
      (simp add: aem_constants)
qed

section \<open>Properties\<close>

text \<open>
  media frames become PTP times by rounding to the nearest nanosecond (halves up): the
  conversion succeeds exactly for a 48 kHz anchor, a frame not before the anchor and a result
  that fits 64 bits, and no intermediate result overflows before that.
\<close>

theorem ptp_time_is_nearest:
  "ptp_time_for_frame a frame = Ok t \<longleftrightarrow>
     pa_sample_rate a = 48000 \<and> pa_frame_index a \<le> frame
     \<and> int (unat t) = round (real (unat (pa_ptp_time_ns a))
         + (real (unat frame) - real (unat (pa_frame_index a))) * 10 ^ 9 / 48000)"
proof (cases "pa_frame_index a \<le> frame")
  case False
  then show ?thesis by (simp add: ptp_time_for_frame_Ok word_le_nat_alt)
next
  case True
  define d where "d = unat frame - unat (pa_frame_index a)"
  let ?p = "unat (pa_ptp_time_ns a)"
  have "unat (pa_frame_index a) \<le> unat frame" using True by (simp add: word_le_nat_alt)
  then have d: "real (unat frame) - real (unat (pa_frame_index a)) = real d"
    unfolding d_def by (rule of_nat_diff [symmetric])
  have "round (real ?p + real d * 10 ^ 9 / 48000)
      = \<lfloor>real ?p + real (d * 10 ^ 9 + 24000) / 48000\<rfloor>"
    by (simp add: round_def add_divide_distrib add.assoc)
  also have "\<dots> = int ?p + \<lfloor>real (d * 10 ^ 9 + 24000) / real 48000\<rfloor>"
    using int_add_floor [of "int ?p" "real (d * 10 ^ 9 + 24000) / real 48000"] by simp
  also have "\<dots> = int (?p + (d * 10 ^ 9 + 24000) div 48000)"
    unfolding floor_divide_of_nat_eq by simp
  finally have eq: "int (unat t) = round (real ?p + real d * 10 ^ 9 / 48000)
      \<longleftrightarrow> unat t = ?p + (d * 10 ^ 9 + 24000) div 48000" by (simp only: of_nat_eq_iff)
  show ?thesis
    unfolding d eq ptp_time_for_frame_Ok using True by (simp add: word_le_nat_alt d_def)
qed

text \<open>
  C2: the whole control path, from the planner through both compilers to the firmware.  A bound
  endpoint whose module gets a new assignment, sent the writes addressed to its entity in order,
  acknowledges every one and ends committed and still muted, in the epoch of the handover, with
  the codes of its assigned roles and the PTP time of the start frame.  The firmware must not
  have seen an epoch as new, the roles must be distinct and the start must not be PTP time zero.
\<close>

theorem aem_handover_commits_firmware:
  assumes "build_handover_plan previous next epoch start = Ok h"
    and "compile_handover_control h bs = Ok envs"
    and "compile_aem_control_program envs ts anchor = Ok ws"
    and "b \<in> set bs" and "t \<in> set ts" and "at_endpoint_id t = mb_endpoint_id b"
    and "plan_lookup (Some next) (mb_module_id b) = Some a"
    and "plan_lookup previous (mb_module_id b) \<noteq> Some a"
    and "distinct (ma_roles a)" and "ptp_time_for_frame anchor start \<noteq> Ok 0"
    and "\<And>v. octets (to_be_bytes v) = v" and "active_epoch s < epoch"
    and "own = filter (\<lambda>w. aw_target_entity_id w = at_entity_id t) ws"
    and "firmware_run octets up own s = (statuses, s')"
  shows "statuses = replicate (length own) AecpSuccess \<and> fw_phase s' = FwCommitted \<and> fw_muted s'
    \<and> active_epoch s' = epoch
    \<and> encode_role (ma_roles a ! 0) = Ok (active_role0 s')
    \<and> second_role_code (ma_roles a) = Ok (active_role1 s')
    \<and> ptp_time_for_frame anchor start = Ok (armed_start_ptp_ns s')"
proof -
  let ?i = "mb_module_id b"
  let ?run = "firmware_run octets up"
  have id: "ma_module_id a = ?i" using assms(7) by (rule plan_lookup_Some)
  obtain pss where ts: "targets_ok ts" and ws: "ws = concat pss"
      and pss: "list_all2 (\<lambda>env ps. envelope_writes ts anchor env = Ok ps) envs pss"
    using assms(3) unfolding compile_aem_Ok by blast
  obtain own' where own': "list_all2 (\<lambda>env ps. envelope_writes ts anchor env = Ok ps)
      (filter (\<lambda>v. ev_endpoint_id v = at_endpoint_id t) envs) own'" "own = concat own'"
    using entity_writes [OF pss ts assms(5)] unfolding assms(13) ws by blast
  have "map ev_command (filter (\<lambda>v. ev_endpoint_id v = at_endpoint_id t) envs) = map esp_command
      [HMute ?i epoch, HPrepare a epoch, HArm ?i epoch start, HCommit ?i epoch]"
    unfolding assms(6) endpoint_envelopes [OF assms(2,4)] commands_for_module [OF assms(1)]
    using assms(7,8) by simp
  then obtain v1 v2 v3 v4 where v: "filter (\<lambda>v. ev_endpoint_id v = at_endpoint_id t) envs = [v1, v2, v3, v4]"
    and c1: "ev_command v1 = Mute ?i epoch"
    and c2: "ev_command v2 = Prepare ?i epoch (ma_route a) (ma_clock_source a) (ma_roles a)"
    and c3: "ev_command v3 = Arm ?i epoch start" and c4: "ev_command v4 = Commit ?i epoch"
    by (auto simp: id map_eq_Cons_conv)
  obtain p1 p2 p3 p4 where own: "own = p1 @ p2 @ p3 @ p4"
    and p: "envelope_writes ts anchor v1 = Ok p1" "envelope_writes ts anchor v2 = Ok p2"
      "envelope_writes ts anchor v3 = Ok p3" "envelope_writes ts anchor v4 = Ok p4"
    using own' unfolding v by (auto simp: list_all2_Cons1)
  note r1 = firmware_runs_mute [OF assms(11) p(1) c1 assms(12), of up]
  define s1 where "s1 = snd (?run p1 s)"
  have s1: "active_epoch s1 = epoch" "fw_phase s1 = FwMuted" by (simp_all add: s1_def r1)
  obtain x0 x1 where x: "encode_role (ma_roles a ! 0) = Ok x0" "second_role_code (ma_roles a) = Ok x1"
    and r2: "?run p2 s1 = (replicate (length p2) AecpSuccess,
      s1\<lparr>staged_epoch := epoch, staged_role0 := x0, staged_role1 := x1, active_role0 := x0,
        active_role1 := x1, fw_phase := FwPrepared, fw_muted := True, last_command := 2\<rparr>)"
    using firmware_runs_prepare [OF assms(11) p(2) c2 s1 assms(9)] by metis
  define s2 where "s2 = snd (?run p2 s1)"
  have s2: "active_epoch s2 = epoch" "fw_phase s2 = FwPrepared"
    "active_role0 s2 = x0" "active_role1 s2 = x1" by (simp_all add: s2_def r2 s1)
  obtain n where n: "ptp_time_for_frame anchor start = Ok n"
    and r3: "?run p3 s2 = (replicate (length p3) AecpSuccess,
      s2\<lparr>staged_epoch := epoch, staged_start_ptp_ns := n, armed_start_ptp_ns := n,
        fw_phase := FwArmed, fw_muted := True, last_command := 3\<rparr>)"
    using firmware_runs_arm [OF assms(11) p(3) c3 s2(1,2) assms(10)] by metis
  define s3 where "s3 = snd (?run p3 s2)"
  have s3: "active_epoch s3 = epoch" "fw_phase s3 = FwArmed"
    "active_role0 s3 = x0" "active_role1 s3 = x1" "armed_start_ptp_ns s3 = n"
    by (simp_all add: s3_def r3 s2)
  note r4 = firmware_runs_commit [OF assms(11) p(4) c4 s3(1,2)]
  have run: "statuses = fst (?run p1 s) @ fst (?run p2 s1) @ fst (?run p3 s2) @ fst (?run p4 s3)"
    "s' = snd (?run p4 s3)"
    using assms(14) unfolding own by (simp_all add: firmware_run_append s1_def s2_def s3_def)
  have "statuses = replicate (length own) AecpSuccess"
    unfolding run(1) own by (simp add: r1 r2 r3 r4 replicate_add)
  moreover have "fw_phase s' = FwCommitted" "fw_muted s'" "active_epoch s' = epoch"
    "active_role0 s' = x0" "active_role1 s' = x1" "armed_start_ptp_ns s' = n"
    unfolding run(2) using s3 by (simp_all add: r4)
  ultimately show ?thesis using x n by simp
qed

text \<open>The pod of \<open>Esp_Control\<close>, for the witness.\<close>

definition pod_target :: esp_avb_aem_target where
  "pod_target = \<lparr>at_endpoint_id = ''esp-left'', at_entity_id = [2, 0, 0, 0, 0, 0, 0, 9]\<rparr>"

definition pod_anchor :: ptp_media_anchor where
  "pod_anchor = \<lparr>pa_frame_index = 0, pa_ptp_time_ns = 1000000, pa_sample_rate = 48000\<rparr>"

definition fresh_firmware :: firmware_endpoint where
  "fresh_firmware = firmware_boot \<lparr>staged_epoch = 0, staged_role0 = 0, staged_role1 = 0,
     staged_start_ptp_ns = 0, last_command = 0, active_epoch = 0, active_role0 = 0,
     active_role1 = 0, armed_start_ptp_ns = 0, fw_phase = FwFault, fw_muted = False\<rparr>"

lemma pod_ptp_time: "ptp_time_for_frame pod_anchor 4800 = Ok 101000000"
  by (simp add: ptp_time_for_frame_Ok pod_anchor_def)

lemma pod_targets_ok: "targets_ok [pod_target]"
  by (simp add: targets_ok_def pod_target_def replicate_eq_replicate Cons_replicate_eq)

lemma compile_pod_program: "\<exists>ws. compile_aem_control_program pod_envelopes [pod_target] pod_anchor = Ok ws"
  using pod_targets_ok [folded validate_targets_iff]
  by (simp add: compile_aem_control_program_def pod_envelopes_def append_command_writes_def
      validate_prepare_def second_role_code_def pod_ptp_time get_at_def AURORA_NETWORK_MEDIA_RATE_def)
    (simp add: pod_anchor_def pod_target_def)

theorem aem_handover_commits_firmware_witness:
  "\<exists>ws. compile_aem_control_program pod_envelopes [pod_target] pod_anchor = Ok ws
     \<and> fw_phase (snd (firmware_run from_be_bytes (\<lambda>_ _. AecpSuccess)
         (filter (\<lambda>w. aw_target_entity_id w = at_entity_id pod_target) ws) fresh_firmware)) = FwCommitted
     \<and> active_role0 (snd (firmware_run from_be_bytes (\<lambda>_ _. AecpSuccess)
         (filter (\<lambda>w. aw_target_entity_id w = at_entity_id pod_target) ws) fresh_firmware)) = 4"
proof -
  let ?a = "hd (fp_assignments pod_plan)"
  obtain ws where ws: "compile_aem_control_program pod_envelopes [pod_target] pod_anchor = Ok ws"
    using compile_pod_program by blast
  have p: "pod_binding \<in> set [pod_binding]" "pod_target \<in> set [pod_target]"
    "at_endpoint_id pod_target = mb_endpoint_id pod_binding"
    "plan_lookup (Some pod_plan) (mb_module_id pod_binding) = Some ?a"
    "plan_lookup None (mb_module_id pod_binding) \<noteq> Some ?a" "distinct (ma_roles ?a)"
    "ptp_time_for_frame pod_anchor 4800 \<noteq> Ok 0" "active_epoch fresh_firmware < 7"
    by (simp_all add: pod_binding_def pod_target_def plan_lookup_def pod_plan_def pod_ptp_time
        fresh_firmware_def firmware_boot_def)
  have role: "ma_roles ?a ! 0 = SurroundLeft" by (simp add: pod_plan_def)
  show ?thesis
    using ws aem_handover_commits_firmware [OF build_pod_handover compile_pod_handover ws p(1-7)
        from_to_be_bytes p(8) refl surjective_pairing, of "\<lambda>_ _. AecpSuccess"]
    by (auto simp: role)
qed

text \<open>What every reachable state of the firmware satisfies.\<close>

definition firmware_inv :: "firmware_endpoint \<Rightarrow> bool" where
  "firmware_inv s \<longleftrightarrow> fw_muted s
     \<and> (fw_phase s \<in> {FwPrepared, FwArmed, FwCommitted} \<longrightarrow>
          active_epoch s \<noteq> 0 \<and> active_role0 s \<le> 11 \<and> active_role1 s \<noteq> active_role0 s
          \<and> (active_role1 s = AURORA_AEM_ROLE_UNUSED \<or> active_role1 s \<le> 11))
     \<and> (fw_phase s \<in> {FwArmed, FwCommitted} \<longrightarrow> armed_start_ptp_ns s \<noteq> 0)"

lemmas firmware_defs = firmware_fail_def firmware_mute_def firmware_prepare_def firmware_arm_def
  firmware_commit_def firmware_stop_def

lemma firmware_roles_valid_iff:
  "firmware_roles_valid s \<longleftrightarrow> staged_role0 s \<le> 11
     \<and> (staged_role1 s = AURORA_AEM_ROLE_UNUSED \<or> staged_role1 s \<le> 11 \<and> staged_role1 s \<noteq> staged_role0 s)"
  by (auto simp: firmware_roles_valid_def)

definition firmware_step_ok :: "firmware_endpoint \<Rightarrow> aecp_status \<times> firmware_endpoint \<Rightarrow> bool" where
  "firmware_step_ok s r \<longleftrightarrow> firmware_inv (snd r) \<and> active_epoch s \<le> active_epoch (snd r)"

lemma firmware_fail_ok: "firmware_inv s \<Longrightarrow> firmware_step_ok s (firmware_fail s)"
  by (simp add: firmware_step_ok_def firmware_fail_def firmware_inv_def)

lemma firmware_mute_ok: "firmware_inv s \<Longrightarrow> firmware_step_ok s (firmware_mute c s)"
  by (auto simp: firmware_fail_ok firmware_mute_def)
    (simp_all add: firmware_step_ok_def firmware_inv_def)

lemma firmware_commands_ok:
  assumes "firmware_inv s" and "active_epoch s \<noteq> 0"
  shows "firmware_step_ok s (firmware_prepare c s)" "firmware_step_ok s (firmware_arm c s)"
    "firmware_step_ok s (firmware_commit c s)" "firmware_step_ok s (firmware_stop c s)"
  using assms
  by (auto simp: firmware_fail_ok firmware_prepare_def firmware_arm_def firmware_commit_def
      firmware_stop_def)
    (auto simp: firmware_step_ok_def firmware_inv_def firmware_roles_valid_iff AURORA_AEM_ROLE_UNUSED_def)

lemma firmware_apply_command_ok:
  assumes "firmware_inv s"
  shows "firmware_step_ok s (firmware_apply_command c s)"
proof (cases "staged_epoch s = 0 \<or> staged_epoch s \<noteq> active_epoch s")
  case True
  then show ?thesis
    using firmware_fail_ok [OF assms] firmware_mute_ok [OF assms]
    by (simp add: firmware_apply_command_def)
next
  case False
  then show ?thesis
    using firmware_fail_ok [OF assms] firmware_mute_ok [OF assms] firmware_commands_ok [OF assms]
    by (simp add: firmware_apply_command_def)
qed

lemma firmware_set_control_inv:
  assumes "firmware_inv s"
  shows "firmware_step_ok s (firmware_set_control octets up i v s)"
  using assms firmware_apply_command_ok [OF assms, of "v ! 0"]
  by (simp add: firmware_set_control_def) (simp add: firmware_step_ok_def firmware_inv_def)

lemma firmware_run_inv:
  "firmware_inv s \<Longrightarrow> firmware_inv (snd (firmware_run octets up ws s))
     \<and> active_epoch s \<le> active_epoch (snd (firmware_run octets up ws s))"
proof (induction ws arbitrary: s)
  case Nil
  then show ?case by simp
next
  case (Cons w ws)
  obtain r s' where step: "firmware_set_control octets up (aw_control_index w)
      (take (unat (aw_value_len w)) (aw_value w)) s = (r, s')" by fastforce
  have "firmware_inv s'" "active_epoch s \<le> active_epoch s'"
    using firmware_set_control_inv [OF Cons.prems, of octets up "aw_control_index w"
        "take (unat (aw_value_len w)) (aw_value w)"]
    by (simp_all add: step firmware_step_ok_def)
  then show ?case using Cons.IH [of s'] by (auto simp: firmware_run.simps(2) step)
qed

text \<open>
  the firmware is fail closed.  From boot, whatever controls are written in whatever order,
  with whatever values, by whatever controller, the endpoint stays muted; a prepared, armed or
  committed endpoint has a nonzero epoch and valid, different roles, an armed or committed one a
  nonzero activation time; and the active epoch never decreases.
\<close>

theorem firmware_reachable_safe:
  "firmware_inv (snd (firmware_run octets up ws (firmware_boot s)))
     \<and> active_epoch s \<le> active_epoch (snd (firmware_run octets up ws (firmware_boot s)))"
proof -
  have boot: "firmware_inv (firmware_boot s)" "active_epoch (firmware_boot s) = active_epoch s"
    by (simp_all add: firmware_boot_def firmware_inv_def)
  then show ?thesis using firmware_run_inv [OF boot(1), of octets up ws] by simp
qed

end
