(* ===== verification/Esp_Coordinator.thy ===== *)
theory Esp_Coordinator
  imports Esp_Fanout Fabric_Transports
begin

text \<open>
  The coordinator of the six ESP-AVB streams,
  \<open>src/adapters/aurora-network-esp-avb/src/coordinator.rs\<close>: six transports behind the stereo
  fanout, prepared with one format and one PTP timing, with rollback of partial operations and
  abort of a failed submission.  The trait objects are the parameter \<open>V\<close>.  What a submission
  does is proved for every implementor; that nothing streams outside \<open>EspStarted\<close> is proved for
  transports that halt when told (\<open>network_transport_laws\<close>, which the simulated transport keeps).
\<close>

section \<open>State and operations\<close>

datatype esp_lifecycle = EspNew | EspPrepared | EspStarted

record 't esp_set =
  es_fanout :: esp_fanout
  es_transports :: "'t list"
  es_endpoint_format :: network_audio_format
  es_lifecycle :: esp_lifecycle

datatype esp_set_error =
    EspFanout esp_avb_fanout_error | EspCapability nat | EspEndpoint nat network_transport_error
  | EspInvalidTiming | EspInvalidLifecycle

text \<open>
  The loops over the endpoints stop at the first failure; its index and the states so far are kept.
\<close>

fun until_error :: "nat \<Rightarrow> (nat \<Rightarrow> 't \<Rightarrow> (unit, 'e) outcome \<times> 't) \<Rightarrow> 't list \<Rightarrow> (unit, nat \<times> 'e) outcome \<times> 't list" where
  "until_error i g [] = (Ok (), [])"
| "until_error i g (t # ts) =
     (case g i t of
        (Ok _, t') \<Rightarrow> apsnd (Cons t') (until_error (Suc i) g ts)
      | (Err e, t') \<Rightarrow> (Err (i, e), t' # ts)
      | (Panic, t') \<Rightarrow> (Panic, t' # ts))"

fun esp_capability_scan :: "'t network_transport \<Rightarrow> nat \<Rightarrow> 't list \<Rightarrow> (unit, esp_set_error) outcome" where
  "esp_capability_scan V i [] = Ok ()"
| "esp_capability_scan V i (t # ts) =
     (let caps = nt_capabilities V t in
      if family caps \<noteq> AvbTsn \<or> unat (max_channels caps) < ESP_AVB_CHANNELS_PER_STREAM
         \<or> \<not> nc_scheduled_playout caps \<or> adaptive_rate_matching caps
      then Err (EspCapability i) else esp_capability_scan V (Suc i) ts)"

definition esp_set_new :: "'t network_transport \<Rightarrow> esp_avb_fanout_plan \<Rightarrow> 't list \<Rightarrow> usize
    \<Rightarrow> ('t esp_set, esp_set_error) outcome" where
  "esp_set_new V p ts frames =
     (case esp_plan_validate p of
        Err e \<Rightarrow> Err (EspFanout e) | Panic \<Rightarrow> Panic
      | Ok _ \<Rightarrow>
      (case esp_fanout_prepare p frames of
        Err e \<Rightarrow> Err (EspFanout e) | Panic \<Rightarrow> Panic
      | Ok f \<Rightarrow>
      (case esp_capability_scan V 0 ts of
        Err e \<Rightarrow> Err e | Panic \<Rightarrow> Panic
      | Ok _ \<Rightarrow> Ok \<lparr>es_fanout = f, es_transports = ts,
          es_endpoint_format = \<lparr>sample_rate = AURORA_NETWORK_MEDIA_RATE,
            channels = of_nat ESP_AVB_CHANNELS_PER_STREAM, block_frames = frames\<rparr>,
          es_lifecycle = EspNew\<rparr>)))"

definition esp_timing :: "u32 \<Rightarrow> network_timing_policy" where
  "esp_timing latency = \<lparr>target_latency_frames = latency, minimum_latency_frames = latency,
     maximum_latency_frames = latency, maximum_rate_correction_ppm = 0\<rparr>"

definition esp_stream_config :: "u32 \<Rightarrow> 't esp_set \<Rightarrow> network_stream_config" where
  "esp_stream_config latency s = \<lparr>sc_format = es_endpoint_format s, clock_discipline = PtpFollower,
     timing = esp_timing latency\<rparr>"

type_synonym 't esp_call = "(unit, esp_set_error) outcome \<times> 't esp_set"

definition esp_set_prepare :: "'t network_transport \<Rightarrow> u32 \<Rightarrow> 't esp_set \<Rightarrow> 't esp_call" where
  "esp_set_prepare V latency s =
     (if es_lifecycle s = EspStarted then (Err EspInvalidLifecycle, s)
      else if latency = 0 then (Err EspInvalidTiming, s)
      else if \<not> is_ok (timing_validate (esp_timing latency)) then (Err EspInvalidTiming, s)
      else case until_error 0 (\<lambda>_. nt_prepare V (esp_stream_config latency s)) (es_transports s) of
        (Ok _, ts) \<Rightarrow> (Ok (), s\<lparr>es_transports := ts, es_lifecycle := EspPrepared,
            es_fanout := esp_fanout_reset (es_fanout s)\<rparr>)
      | (Err (i, e), ts) \<Rightarrow> (Err (EspEndpoint i e), s\<lparr>es_transports := map_prefix (nt_reset V) i ts,
            es_lifecycle := EspNew, es_fanout := esp_fanout_reset (es_fanout s)\<rparr>)
      | (Panic, ts) \<Rightarrow> (Panic, s\<lparr>es_transports := ts\<rparr>))"

definition esp_set_start :: "'t network_transport \<Rightarrow> 't esp_set \<Rightarrow> 't esp_call" where
  "esp_set_start V s =
     (if es_lifecycle s \<noteq> EspPrepared then (Err EspInvalidLifecycle, s)
      else case until_error 0 (\<lambda>_. nt_start V) (es_transports s) of
        (Ok _, ts) \<Rightarrow> (Ok (), s\<lparr>es_transports := ts, es_lifecycle := EspStarted,
            es_fanout := esp_fanout_reset (es_fanout s)\<rparr>)
      | (Err (i, e), ts) \<Rightarrow> (Err (EspEndpoint i e), s\<lparr>es_transports := map_prefix (stop_and_reset V) i ts,
            es_lifecycle := EspPrepared, es_fanout := esp_fanout_reset (es_fanout s)\<rparr>)
      | (Panic, ts) \<Rightarrow> (Panic, s\<lparr>es_transports := ts\<rparr>))"

definition esp_abort_stream :: "'t network_transport \<Rightarrow> 't esp_set \<Rightarrow> 't esp_set" where
  "esp_abort_stream V s = s\<lparr>es_transports := map (stop_and_reset V) (es_transports s),
     es_lifecycle := EspNew, es_fanout := esp_fanout_reset (es_fanout s)\<rparr>"

text \<open>One endpoint of a submission; a refused block and a failed transport are kept apart.\<close>

definition submit_endpoint :: "'t network_transport \<Rightarrow> esp_fanout \<Rightarrow> nat \<Rightarrow> 't
    \<Rightarrow> (unit, esp_avb_fanout_error + network_transport_error) outcome \<times> 't" where
  "submit_endpoint V f i t =
     (case esp_endpoint_block i f of
        Err e \<Rightarrow> (Err (Inl e), t) | Panic \<Rightarrow> (Panic, t)
      | Ok m \<Rightarrow> apfst (map_err Inr) (nt_submit V m t))"

definition esp_set_submit :: "'t network_transport \<Rightarrow> network_audio_block \<Rightarrow> 't esp_set \<Rightarrow> 't esp_call" where
  "esp_set_submit V b s =
     (if es_lifecycle s \<noteq> EspStarted then (Err EspInvalidLifecycle, s)
      else case esp_split b (es_fanout s) of
        (Err e, f) \<Rightarrow> (Err (EspFanout e), s\<lparr>es_fanout := f\<rparr>)
      | (Panic, f) \<Rightarrow> (Panic, s\<lparr>es_fanout := f\<rparr>)
      | (Ok _, f) \<Rightarrow>
          (case until_error 0 (submit_endpoint V f) (es_transports s) of
             (Ok _, ts) \<Rightarrow> (Ok (), s\<lparr>es_fanout := f, es_transports := ts\<rparr>)
           | (Err (i, Inl e), ts) \<Rightarrow> (Err (EspFanout e), s\<lparr>es_fanout := f, es_transports := ts\<rparr>)
           | (Err (i, Inr e), ts) \<Rightarrow> (Err (EspEndpoint i e), esp_abort_stream V (s\<lparr>es_fanout := f, es_transports := ts\<rparr>))
           | (Panic, ts) \<Rightarrow> (Panic, s\<lparr>es_fanout := f, es_transports := ts\<rparr>)))"

definition esp_poll_events :: "'t network_transport \<Rightarrow> 't esp_set \<Rightarrow> network_transport_event option list \<times> 't esp_set" where
  "esp_poll_events V s = (map (\<lambda>t. fst (nt_poll_event V t)) (es_transports s),
     s\<lparr>es_transports := map (\<lambda>t. snd (nt_poll_event V t)) (es_transports s)\<rparr>)"

text \<open>Every transport is stopped and reset; the first error is kept.\<close>

fun esp_stop_loop :: "'t network_transport \<Rightarrow> nat \<Rightarrow> esp_set_error option \<Rightarrow> 't list \<Rightarrow> esp_set_error option \<times> 't list" where
  "esp_stop_loop V i first_error [] = (first_error, [])"
| "esp_stop_loop V i first_error (t # ts) =
     (let (r, t') = nt_stop V t;
          first_error' = (case (first_error, r) of (None, Err e) \<Rightarrow> Some (EspEndpoint i e) | _ \<Rightarrow> first_error);
          (e, ts') = esp_stop_loop V (Suc i) first_error' ts
      in (e, nt_reset V t' # ts'))"

definition esp_set_stop :: "'t network_transport \<Rightarrow> 't esp_set \<Rightarrow> 't esp_call" where
  "esp_set_stop V s =
     (if es_lifecycle s \<noteq> EspStarted then (Err EspInvalidLifecycle, s)
      else let (first_error, ts) = esp_stop_loop V 0 None (es_transports s);
               s' = s\<lparr>es_transports := ts, es_lifecycle := EspPrepared, es_fanout := esp_fanout_reset (es_fanout s)\<rparr>
           in (case first_error of Some e \<Rightarrow> (Err e, s') | None \<Rightarrow> (Ok (), s')))"

definition esp_set_reset :: "'t network_transport \<Rightarrow> 't esp_set \<Rightarrow> 't esp_set" where
  "esp_set_reset V s = s\<lparr>es_transports := map (nt_reset V) (es_transports s),
     es_fanout := esp_fanout_reset (es_fanout s)\<rparr>"

section \<open>The loops\<close>

lemma until_error_length: "until_error i g ts = (r, ts') \<Longrightarrow> length ts' = length ts"
proof (induction ts arbitrary: i r ts')
  case (Cons t ts)
  then show ?case
    by (cases "until_error (Suc i) g ts") (auto split: prod.splits outcome.splits)
qed simp

lemma until_error_Ok:
  "until_error i g ts = (Ok (), ts') \<Longrightarrow> j < length ts \<Longrightarrow> g (i + j) (ts ! j) = (Ok (), ts' ! j)"
proof (induction ts arbitrary: i j ts')
  case (Cons t ts)
  obtain t' ts1 where step: "g i t = (Ok (), t')" "until_error (Suc i) g ts = (Ok (), ts1)" "ts' = t' # ts1"
    using Cons.prems(1) by (cases "until_error (Suc i) g ts") (auto split: prod.splits outcome.splits)
  then show ?case using Cons.IH [OF step(2), of "j - 1"] Cons.prems(2) by (cases j) simp_all
qed simp

text \<open>At a failure the transports before it have done their step and those behind it none.\<close>

lemma until_error_Err:
  assumes "until_error i g ts = (Err (k, e), ts')"
  shows "i \<le> k \<and> k - i < length ts \<and> g k (ts ! (k - i)) = (Err e, ts' ! (k - i))
    \<and> (\<forall>j<k - i. g (i + j) (ts ! j) = (Ok (), ts' ! j)) \<and> (\<forall>j. k - i < j \<longrightarrow> ts' ! j = ts ! j)"
  using assms
proof (induction ts arbitrary: i ts')
  case (Cons t ts)
  show ?case
  proof (cases "g i t")
    case (Pair r t')
    show ?thesis
    proof (cases r)
      case (Ok u)
      then obtain ts1 where rest: "until_error (Suc i) g ts = (Err (k, e), ts1)" "ts' = t' # ts1"
        using Cons.prems Pair by (cases "until_error (Suc i) g ts") auto
      note ih = Cons.IH [OF rest(1)]
      then obtain d where k: "k = i + Suc d" using less_iff_Suc_add [of i k] by auto
      from ih rest(2) Pair Ok show ?thesis by (auto simp: k nth_Cons' less_Suc_eq_0_disj)
    qed (use Cons.prems Pair in \<open>auto simp: nth_Cons'\<close>)
  qed
qed simp

lemma until_error_no_panic: "(\<And>j t. fst (g j t) \<noteq> Panic) \<Longrightarrow> fst (until_error i g ts) \<noteq> Panic"
proof (induction ts arbitrary: i)
  case (Cons t ts)
  obtain r t' where step: "g i t = (r, t')" by fastforce
  then have "r \<noteq> Panic" using Cons.prems [of i t] by simp
  then show ?case using Cons.IH [OF Cons.prems, of "Suc i"] step by (cases r) simp_all
qed simp

lemma until_error_phases:
  "(\<And>j t. h (snd (g j t)) = h t) \<Longrightarrow> until_error i g ts = (r, ts') \<Longrightarrow> map h ts' = map h ts"
proof (induction ts arbitrary: i r ts')
  case (Cons t ts)
  obtain q t' where step: "g i t = (q, t')" by fastforce
  then have "h t' = h t" using Cons.prems(1) [of i t] by simp
  then show ?case
    using Cons.IH [OF Cons.prems(1), of "Suc i"] Cons.prems(2) step
    by (cases q; cases "until_error (Suc i) g ts") auto
qed simp

lemma map_err_Panic [simp]: "map_err f r = Panic \<longleftrightarrow> r = Panic"
  by (cases r) simp_all

lemma esp_stop_loop_transports: "snd (esp_stop_loop V i e ts) = map (stop_and_reset V) ts"
  by (induction ts arbitrary: i e) (simp_all add: Let_def stop_and_reset_def case_prod_unfold)

section \<open>Any sequence of calls\<close>

datatype esp_op = EspPrepareOp u32 | EspStartOp | EspSubmitOp network_audio_block | EspStopOp | EspResetOp

fun esp_step :: "'t network_transport \<Rightarrow> esp_op \<Rightarrow> 't esp_set \<Rightarrow> 't esp_call" where
  "esp_step V (EspPrepareOp latency) s = esp_set_prepare V latency s"
| "esp_step V EspStartOp s = esp_set_start V s"
| "esp_step V (EspSubmitOp b) s = esp_set_submit V b s"
| "esp_step V EspStopOp s = esp_set_stop V s"
| "esp_step V EspResetOp s = (Ok (), esp_set_reset V s)"

definition esp_run :: "'t network_transport \<Rightarrow> esp_op list \<Rightarrow> 't esp_set \<Rightarrow> 't esp_set" where
  "esp_run V ops s = fold (\<lambda>op s. snd (esp_step V op s)) ops s"

text \<open>
  Outside \<open>EspStarted\<close> no endpoint streams, and once prepared all six hold one configuration: the
  stereo format on the PTP clock with one fixed latency.
\<close>

definition esp_set_inv :: "('t \<Rightarrow> transport_phase) \<Rightarrow> 't esp_set \<Rightarrow> bool" where
  "esp_set_inv ph s \<longleftrightarrow> esp_fanout_inv (es_fanout s) \<and> length (es_transports s) = 6
     \<and> es_endpoint_format s = ef_endpoint_format (es_fanout s)
     \<and> (es_lifecycle s \<noteq> EspStarted \<longrightarrow> (\<forall>t\<in>set (es_transports s). \<not> phase_running (ph t)))
     \<and> (es_lifecycle s \<noteq> EspNew \<longrightarrow>
          (\<exists>latency. latency \<noteq> 0 \<and> (\<forall>t\<in>set (es_transports s). holds_config (esp_stream_config latency s) (ph t))))"

lemma esp_stream_config_fields [simp]:
  "esp_stream_config n (s\<lparr>es_transports := ts\<rparr>) = esp_stream_config n s"
  "esp_stream_config n (s\<lparr>es_lifecycle := l\<rparr>) = esp_stream_config n s"
  "esp_stream_config n (s\<lparr>es_fanout := f\<rparr>) = esp_stream_config n s"
  by (simp_all add: esp_stream_config_def)

lemma esp_reset_format [simp]: "ef_endpoint_format (esp_fanout_reset f) = ef_endpoint_format f"
  by (simp add: esp_fanout_reset_def)

lemma esp_reset_plan [simp]: "ef_plan (esp_fanout_reset f) = ef_plan f"
  by (simp add: esp_fanout_reset_def)

lemma esp_new_inv:
  assumes "esp_set_new V p ts frames = Ok s" "length (fo_endpoints p) = 6" "length ts = 6"
    and "\<forall>t\<in>set ts. \<not> phase_running (ph t)"
  shows "esp_set_inv ph s"
proof -
  obtain f where f: "esp_fanout_prepare p frames = Ok f" and s: "es_fanout s = f" "es_transports s = ts"
    "es_lifecycle s = EspNew" "es_endpoint_format s = \<lparr>sample_rate = AURORA_NETWORK_MEDIA_RATE, channels = 2, block_frames = frames\<rparr>"
    using assms(1) by (auto simp: esp_set_new_def esp_sizes split: outcome.splits)
  note inv = esp_prepare_inv [OF assms(2) f]
  then have "ef_endpoint_format f = \<lparr>sample_rate = AURORA_NETWORK_MEDIA_RATE, channels = 2, block_frames = frames\<rparr>"
    by (auto simp: esp_fanout_inv_def)
  then show ?thesis using inv s assms(3,4) by (simp add: esp_set_inv_def)
qed

context network_transport_laws
begin

lemma esp_prepare_step:
  assumes inv: "esp_set_inv ph s"
  shows "esp_set_inv ph (snd (esp_set_prepare V latency s)) \<and> fst (esp_set_prepare V latency s) \<noteq> Panic"
proof (cases "es_lifecycle s = EspStarted \<or> latency = 0")
  case False
  then have life: "es_lifecycle s \<noteq> EspStarted" "latency \<noteq> 0" by simp_all
  have idle: "\<not> phase_running (ph t)" if "t \<in> set (es_transports s)" for t
    using that inv life(1) by (simp add: esp_set_inv_def)
  let ?c = "esp_stream_config latency s" and ?ts = "es_transports s"
  have valid: "timing_validate (esp_timing latency) = Ok ()"
    by (simp add: timing_validate_def esp_timing_def f64_is_finite_def f64_finite_neg_def)
  obtain r ts where loop: "until_error 0 (\<lambda>_. nt_prepare V ?c) ?ts = (r, ts)" by fastforce
  note len = until_error_length [OF loop]
  have no: "r \<noteq> Panic" using until_error_no_panic [of "\<lambda>_. nt_prepare V ?c" 0 ?ts] no_panic(1) loop by simp
  show ?thesis
  proof (cases r)
    case (Ok u)
    have "ph (ts ! j) = Ready ?c" if "j < length ?ts" for j
      using until_error_Ok [OF loop [unfolded Ok, simplified] that] prepare_phase [of ?c "?ts ! j"] by simp
    then have "\<forall>t\<in>set ts. ph t = Ready ?c" using len by (auto simp: in_set_conv_nth)
    then show ?thesis using inv life loop Ok valid len by (auto simp: esp_set_prepare_def esp_set_inv_def)
  next
    case (Err ke)
    obtain k e where ke: "ke = (k, e)" by (cases ke)
    note at = until_error_Err [OF loop [unfolded Err ke]]
    have "\<not> phase_running (ph (map_prefix (nt_reset V) k ts ! j))" if j: "j < length ?ts" for j
    proof -
      consider "j < k" | "j = k" | "k < j" by linarith
      then show ?thesis
      proof cases
        case 2
        then have "ph (ts ! j) = ph (?ts ! j)" using at prepare_phase [of ?c "?ts ! j"] by simp
        then show ?thesis using 2 idle [OF nth_mem [OF j]] j len by (simp add: nth_map_prefix)
      next
        case 3
        then show ?thesis using at idle [OF nth_mem [OF j]] j len by (simp add: nth_map_prefix)
      qed (use j len in \<open>simp add: nth_map_prefix reset_phase\<close>)
    qed
    then show ?thesis using inv life loop Err ke valid len
      by (auto simp: esp_set_prepare_def esp_set_inv_def in_set_conv_nth)
  qed (use no in simp)
qed (use inv in \<open>auto simp: esp_set_prepare_def\<close>)

lemma esp_start_step:
  assumes inv: "esp_set_inv ph s"
  shows "esp_set_inv ph (snd (esp_set_start V s)) \<and> fst (esp_set_start V s) \<noteq> Panic
    \<and> (fst (esp_set_start V s) = Ok () \<longrightarrow> (\<forall>t\<in>set (es_transports (snd (esp_set_start V s))). phase_running (ph t)))"
proof (cases "es_lifecycle s = EspPrepared")
  case True
  let ?ts = "es_transports s"
  obtain latency where held: "latency \<noteq> 0" "\<forall>t\<in>set ?ts. ph t = Ready (esp_stream_config latency s)"
    using inv True by (auto simp: esp_set_inv_def dest: holds_config_ready)
  let ?c = "esp_stream_config latency s"
  obtain r ts where loop: "until_error 0 (\<lambda>_. nt_start V) ?ts = (r, ts)" by fastforce
  note len = until_error_length [OF loop]
  have no: "r \<noteq> Panic" using until_error_no_panic [of "\<lambda>_. nt_start V" 0 ?ts] no_panic(2) loop by simp
  have ready: "ph (?ts ! j) = Ready ?c" if "j < length ?ts" for j using held(2) that by simp
  show ?thesis
  proof (cases r)
    case (Ok u)
    have "ph (ts ! j) = Running ?c" if "j < length ?ts" for j
      using until_error_Ok [OF loop [unfolded Ok, simplified] that] start_phase [of "?ts ! j"] ready [OF that] by simp
    then have "\<forall>t\<in>set ts. ph t = Running ?c" using len by (auto simp: in_set_conv_nth)
    then show ?thesis using inv True held(1) loop Ok len by (auto simp: esp_set_start_def esp_set_inv_def)
  next
    case (Err ke)
    obtain k e where ke: "ke = (k, e)" by (cases ke)
    note at = until_error_Err [OF loop [unfolded Err ke]]
    have "ph (map_prefix (stop_and_reset V) k ts ! j) = Ready ?c" if j: "j < length ?ts" for j
    proof -
      consider "j < k" | "j = k" | "k < j" by linarith
      then show ?thesis
      proof cases
        case 1
        then have "nt_start V (?ts ! j) = (Ok (), ts ! j)" using at by simp
        then have "ph (ts ! j) = Running ?c" using start_phase [of "?ts ! j"] ready [OF j] by simp
        then show ?thesis using 1 j len by (simp add: nth_map_prefix stop_and_reset_phase)
      next
        case 2
        then have "ph (ts ! j) = Ready ?c" using at start_phase [of "?ts ! j"] ready [OF j] by simp
        then show ?thesis using 2 j len by (simp add: nth_map_prefix)
      next
        case 3
        then show ?thesis using at ready [OF j] j len by (simp add: nth_map_prefix)
      qed
    qed
    then have "\<forall>t\<in>set (map_prefix (stop_and_reset V) k ts). ph t = Ready ?c"
      using len by (auto simp: in_set_conv_nth)
    then show ?thesis using inv True held(1) loop Err ke len by (auto simp: esp_set_start_def esp_set_inv_def)
  qed (use no in simp)
qed (use inv in \<open>auto simp: esp_set_start_def\<close>)

end

section \<open>Submission\<close>

text \<open>The stereo block of an endpoint: its two lanes of the bus block, on the timeline of the bus.\<close>

definition stereo_block :: "network_audio_block \<Rightarrow> esp_fanout \<Rightarrow> nat \<Rightarrow> network_audio_block" where
  "stereo_block b f i = \<lparr>sequence = sequence b, timestamp = timestamp b, format = ef_endpoint_format f,
     samples = stereo_buffers b f ! i\<rparr>"

lemma stereo_block_samples:
  assumes "esp_fanout_inv f" "esp_admits f b" "i < 6" "k < unat (block_frames (format b))" "j < 2"
  shows "samples (stereo_block b f i) ! (k * 2 + j)
    = samples b ! (k * 12 + unat (lane_list (es_channels (fo_endpoints (ef_plan f) ! i)) ! j))"
proof -
  have "format b = ef_input_format f" "length (fo_endpoints (ef_plan f)) = 6"
    using assms(1,2) by (simp_all add: esp_admits_def esp_fanout_inv_def)
  then show ?thesis
    using assms(3-5) gather_nth [of k "unat (block_frames (format b))" j
        "lane_list (es_channels (fo_endpoints (ef_plan f) ! i))" "samples b" 12]
    by (simp add: stereo_block_def stereo_buffers_def)
qed

lemma split_stereo_blocks:
  assumes inv: "esp_fanout_inv f" and split: "esp_split b f = (Ok (), f')" and i: "i < 6"
  shows "esp_endpoint_block i f' = Ok (stereo_block b f i)" "esp_admits f b" "ef_endpoint_format f' = ef_endpoint_format f"
proof -
  note ok = split [unfolded esp_split_Ok [OF inv]]
  have "length (fo_endpoints (ef_plan f)) = 6" using inv by (simp add: esp_fanout_inv_def)
  then show "esp_endpoint_block i f' = Ok (stereo_block b f i)"
    using ok i by (simp add: esp_endpoint_block_def stereo_block_def stereo_buffers_def get_at_def)
  show "esp_admits f b" "ef_endpoint_format f' = ef_endpoint_format f" using ok by simp_all
qed

text \<open>A submission to any transports.\<close>

lemma submit_endpoint_panics:
  assumes "fst (submit_endpoint V f i t) = Panic" shows "transport_panics V"
proof -
  have "esp_endpoint_block i f \<noteq> Panic" by (simp add: esp_endpoint_block_def split: option.split)
  then obtain m where "fst (nt_submit V m t) = Panic"
    using assms by (auto simp: submit_endpoint_def split: outcome.splits)
  then show ?thesis by (auto simp: transport_panics_def)
qed

lemma apfst_map_err [simp]:
  "apfst (map_err g) x = (Ok (), t') \<longleftrightarrow> x = (Ok (), t')"
  "apfst (map_err Inr) x = (Err (Inr e), t') \<longleftrightarrow> x = (Err e, t')"
  "apfst (map_err Inr) x \<noteq> (Err (Inl a), t')"
  by (cases x; cases "fst x"; auto)+

lemma esp_submit_exact:
  assumes fan: "esp_fanout_inv (es_fanout s)" and six: "length (es_transports s) = 6"
    and call: "esp_set_submit V b s = (r, s')"
  shows "case r of
      Ok _ \<Rightarrow> es_lifecycle s' = EspStarted \<and> esp_admits (es_fanout s) b
        \<and> (\<forall>i<6. nt_submit V (stereo_block b (es_fanout s) i) (es_transports s ! i) = (Ok (), es_transports s' ! i))
    | Err (EspEndpoint i e) \<Rightarrow> es_lifecycle s' = EspNew \<and> esp_admits (es_fanout s) b \<and> i < 6
        \<and> (\<exists>mid. length mid = 6 \<and> es_transports s' = map (stop_and_reset V) mid
            \<and> (\<forall>j<i. nt_submit V (stereo_block b (es_fanout s) j) (es_transports s ! j) = (Ok (), mid ! j))
            \<and> nt_submit V (stereo_block b (es_fanout s) i) (es_transports s ! i) = (Err e, mid ! i)
            \<and> (\<forall>j. i < j \<and> j < 6 \<longrightarrow> mid ! j = es_transports s ! j))
    | Err (EspFanout e) \<Rightarrow> es_lifecycle s' = EspStarted \<and> es_transports s' = es_transports s
    | Err EspInvalidLifecycle \<Rightarrow> es_lifecycle s \<noteq> EspStarted \<and> s' = s
    | Panic \<Rightarrow> transport_panics V
    | _ \<Rightarrow> False"
proof (cases "es_lifecycle s = EspStarted")
  case started: True
  obtain q f where split: "esp_split b (es_fanout s) = (q, f)" by fastforce
  show ?thesis
  proof (cases q)
    case (Ok u)
    note split' = split [unfolded Ok, simplified]
    note adm = split_stereo_blocks(2) [OF fan split', of 0, simplified]
    have block: "submit_endpoint V f i t = apfst (map_err Inr) (nt_submit V (stereo_block b (es_fanout s) i) t)" if "i < 6" for i t
      using split_stereo_blocks(1) [OF fan split' that] by (simp add: submit_endpoint_def)
    obtain res ts where loop: "until_error 0 (submit_endpoint V f) (es_transports s) = (res, ts)" by fastforce
    note len = until_error_length [OF loop]
    note run = call [unfolded esp_set_submit_def, simplified started split', simplified, unfolded loop]
    show ?thesis
    proof (cases res)
      case sent: (Ok v)
      have "nt_submit V (stereo_block b (es_fanout s) j) (es_transports s ! j) = (Ok (), ts ! j)" if j: "j < 6" for j
        using until_error_Ok [OF loop [unfolded sent, simplified], of j] block [OF j] j six by simp
      then show ?thesis using run sent adm started by auto
    next
      case (Err ke)
      obtain k e where ke: "ke = (k, e)" by (cases ke)
      note at = until_error_Err [OF loop [unfolded Err ke]]
      then have k: "k < 6" using six by simp
      then obtain x where x: "e = Inr x" using at block [OF k] by (cases e) auto
      have "nt_submit V (stereo_block b (es_fanout s) j) (es_transports s ! j) = (Ok (), ts ! j)" if "j < k" for j
      proof -
        have "submit_endpoint V f j (es_transports s ! j) = (Ok (), ts ! j)" using at that by simp
        then show ?thesis using block [of j] that k by simp
      qed
      moreover have "nt_submit V (stereo_block b (es_fanout s) k) (es_transports s ! k) = (Err x, ts ! k)"
        using at block [OF k] x by simp
      ultimately show ?thesis using run Err ke x k adm len six at
        by (clarsimp simp: esp_abort_stream_def) (intro exI [of _ ts], simp)
    next
      case Panic
      have "transport_panics V"
      proof (rule ccontr)
        assume "\<not> transport_panics V"
        then have "fst (submit_endpoint V f j t) \<noteq> Panic" for j t
          using submit_endpoint_panics [of V f j t] by blast
        then show False using until_error_no_panic [of "submit_endpoint V f" 0 "es_transports s"] loop Panic by simp
      qed
      then show ?thesis using run Panic by auto
    qed
  next
    case (Err e)
    then show ?thesis using call split started by (auto simp: esp_set_submit_def)
  next
    case Panic
    then show ?thesis using esp_split_no_panic [OF fan, of b] split by simp
  qed
qed (use call in \<open>auto simp: esp_set_submit_def\<close>)

text \<open>The shape no call changes, whatever the transports do.\<close>

definition esp_shape :: "esp_avb_fanout_plan \<Rightarrow> 't esp_set \<Rightarrow> bool" where
  "esp_shape p s \<longleftrightarrow> esp_fanout_inv (es_fanout s) \<and> ef_plan (es_fanout s) = p
     \<and> length (es_transports s) = 6 \<and> es_endpoint_format s = ef_endpoint_format (es_fanout s)"

lemma esp_step_shape: "esp_shape p s \<Longrightarrow> esp_shape p (snd (esp_step V op s))"
proof (cases op)
  case (EspSubmitOp b)
  assume shape: "esp_shape p s"
  obtain q f where split: "esp_split b (es_fanout s) = (q, f)" by fastforce
  have f: "esp_fanout_inv f" "ef_plan f = p" "ef_endpoint_format f = ef_endpoint_format (es_fanout s)"
    using esp_split_inv [of "es_fanout s" b] esp_split_frame(1,3) [of b "es_fanout s"] split shape by (auto simp: esp_shape_def)
  show ?thesis using EspSubmitOp split f shape
    by (auto simp: esp_set_submit_def esp_abort_stream_def esp_shape_def dest: until_error_length
        split: outcome.splits prod.splits sum.splits)
next
  case EspStopOp
  assume shape: "esp_shape p s"
  have "length (snd (esp_stop_loop V 0 None (es_transports s))) = length (es_transports s)"
    by (simp add: esp_stop_loop_transports)
  then show ?thesis using EspStopOp shape
    by (auto simp: esp_set_stop_def esp_shape_def Let_def split: prod.splits option.splits)
qed (auto simp: esp_set_prepare_def esp_set_start_def esp_set_reset_def esp_shape_def dest: until_error_length
    split: outcome.splits prod.splits)

lemma esp_run_shape: "esp_shape p s \<Longrightarrow> esp_shape p (esp_run V ops s)"
  by (induction ops arbitrary: s) (simp_all add: esp_run_def esp_step_shape)

lemma esp_new_shape:
  assumes "esp_set_new V p ts frames = Ok s" "length (fo_endpoints p) = 6" "length ts = 6"
  shows "esp_shape p s"
proof -
  obtain f where f: "esp_fanout_prepare p frames = Ok f" and s: "es_fanout s = f" "es_transports s = ts"
    "es_endpoint_format s = \<lparr>sample_rate = AURORA_NETWORK_MEDIA_RATE, channels = 2, block_frames = frames\<rparr>"
    using assms(1) by (auto simp: esp_set_new_def esp_sizes split: outcome.splits)
  then show ?thesis using esp_prepare_inv [OF assms(2) f] assms(3) by (auto simp: esp_shape_def esp_fanout_inv_def)
qed

lemma esp_submit_format:
  "esp_set_submit V b s = (r, s') \<Longrightarrow> es_endpoint_format s' = es_endpoint_format s"
  by (auto simp: esp_set_submit_def esp_abort_stream_def split: if_splits outcome.splits prod.splits sum.splits)

context network_transport_laws
begin

lemma esp_submit_step:
  assumes inv: "esp_set_inv ph s" and call: "esp_set_submit V b s = (r, s')"
  shows "esp_set_inv ph s' \<and> r \<noteq> Panic"
proof -
  have shape: "esp_shape (ef_plan (es_fanout s)) s" using inv by (simp add: esp_set_inv_def esp_shape_def)
  have shape': "esp_shape (ef_plan (es_fanout s)) s'" using esp_step_shape [OF shape, of V "EspSubmitOp b"] call by simp
  have fan: "esp_fanout_inv (es_fanout s)" "length (es_transports s) = 6" using inv by (simp_all add: esp_set_inv_def)
  note exact = esp_submit_exact [OF fan call]
  have started: "es_lifecycle s = EspStarted" if "r \<noteq> Err EspInvalidLifecycle"
    using call that by (auto simp: esp_set_submit_def split: if_splits)
  have config: "esp_stream_config l s' = esp_stream_config l s" for l
    using shape shape' call by (simp add: esp_stream_config_def esp_submit_format)
  show ?thesis
  proof (cases r)
    case (Ok u)
    have "ph (es_transports s' ! i) = ph (es_transports s ! i)" if "i < 6" for i
      using exact Ok that submit_phase [of "stereo_block b (es_fanout s) i" "es_transports s ! i"] by simp
    then show ?thesis using exact Ok inv shape' started config
      by (auto simp: esp_set_inv_def esp_shape_def all_set_conv_all_nth)
  next
    case (Err x)
    then show ?thesis using exact inv shape' started config
      by (cases x) (auto simp: esp_set_inv_def esp_shape_def stop_and_reset_phase)
  next
    case Panic
    then show ?thesis using exact no_panic by (auto simp: transport_panics_def)
  qed
qed

lemma esp_stop_step:
  assumes inv: "esp_set_inv ph s"
  shows "esp_set_inv ph (snd (esp_set_stop V s)) \<and> fst (esp_set_stop V s) \<noteq> Panic"
proof (cases "es_lifecycle s = EspStarted")
  case True
  obtain e ts where loop: "esp_stop_loop V 0 None (es_transports s) = (e, ts)" by fastforce
  then have ts: "ts = map (stop_and_reset V) (es_transports s)"
    using esp_stop_loop_transports [of V 0 None "es_transports s"] by simp
  then show ?thesis
    using inv True by (auto simp: esp_set_stop_def loop Let_def esp_set_inv_def stop_and_reset_phase split: option.split)
qed (use inv in \<open>simp add: esp_set_stop_def\<close>)

lemma esp_step_inv:
  assumes "esp_set_inv ph s"
  shows "esp_set_inv ph (snd (esp_step V op s)) \<and> fst (esp_step V op s) \<noteq> Panic"
proof (cases op)
  case (EspSubmitOp b)
  then show ?thesis using esp_submit_step [OF assms, of b]
    by (cases "esp_set_submit V b s") (auto split: outcome.splits)
next
  case EspResetOp
  then show ?thesis using assms by (auto simp: esp_set_inv_def esp_set_reset_def reset_phase)
qed (use assms in \<open>simp_all add: esp_prepare_step esp_start_step esp_stop_step\<close>)

lemma esp_set_run_inv: "esp_set_inv ph s \<Longrightarrow> esp_set_inv ph (esp_run V ops s)"
  by (induction ops arbitrary: s) (simp_all add: esp_run_def esp_step_inv)

end

text \<open>What a sequence of calls never touches.\<close>

lemma esp_step_plan: "ef_plan (es_fanout (snd (esp_step V op s))) = ef_plan (es_fanout s)"
proof (cases op)
  case (EspSubmitOp b)
  then show ?thesis using esp_split_frame(1) [of b "es_fanout s"]
    by (cases "esp_split b (es_fanout s)")
      (auto simp: esp_set_submit_def esp_abort_stream_def esp_fanout_reset_def split: outcome.splits prod.splits sum.splits)
qed (auto simp: esp_set_prepare_def esp_set_start_def esp_set_stop_def esp_set_reset_def esp_fanout_reset_def Let_def
    split: outcome.splits prod.splits option.splits)

lemma esp_run_plan: "ef_plan (es_fanout (esp_run V ops s)) = ef_plan (es_fanout s)"
  by (induction ops arbitrary: s) (simp_all add: esp_run_def esp_step_plan)

section \<open>Properties\<close>

lemma esp_reachable_inv:
  assumes "network_transport_laws V ph" "esp_set_new V p ts frames = Ok s0" "length (fo_endpoints p) = 6" "length ts = 6"
    and "\<forall>t\<in>set ts. \<not> phase_running (ph t)" "s = esp_run V ops s0"
  shows "esp_set_inv ph s" "ef_plan (es_fanout s) = p"
proof -
  show "esp_set_inv ph s"
    using network_transport_laws.esp_set_run_inv [OF assms(1) esp_new_inv [OF assms(2-5)]] assms(6) by simp
  have "ef_plan (es_fanout s0) = p"
    using assms(2) esp_prepare_inv [OF assms(3)] by (auto simp: esp_set_new_def split: outcome.splits)
  then show "ef_plan (es_fanout s) = p" by (simp only: assms(6) esp_run_plan)
qed

theorem esp_streams_stay_together:
  assumes "network_transport_laws V ph" "esp_set_new V p ts frames = Ok s0" "length (fo_endpoints p) = 6" "length ts = 6"
    and "\<forall>t\<in>set ts. \<not> phase_running (ph t)" "s = esp_run V ops s0"
  shows "fst (esp_step V op s) \<noteq> Panic
    \<and> (es_lifecycle s \<noteq> EspStarted \<longrightarrow> (\<forall>t\<in>set (es_transports s). \<not> phase_running (ph t)))
    \<and> (es_lifecycle s \<noteq> EspNew \<longrightarrow>
         (\<exists>latency. latency \<noteq> 0 \<and> (\<forall>t\<in>set (es_transports s). holds_config (esp_stream_config latency s) (ph t))))"
  using network_transport_laws.esp_step_inv [OF assms(1) esp_reachable_inv(1) [OF assms]] esp_reachable_inv(1) [OF assms]
  by (simp add: esp_set_inv_def)

text \<open>
  The block one endpoint is handed: the bus block's number and time, and exactly the two lanes the
  plan gives to the endpoint.
\<close>

definition carries_lanes :: "esp_avb_fanout_plan \<Rightarrow> network_audio_block \<Rightarrow> nat \<Rightarrow> network_audio_block \<Rightarrow> bool" where
  "carries_lanes p b i m \<longleftrightarrow> sequence m = sequence b \<and> timestamp m = timestamp b
     \<and> (\<forall>k<unat (block_frames (format b)). \<forall>j<2. samples m ! (k * 2 + j)
          = samples b ! (k * 12 + unat (lane_list (es_channels (fo_endpoints p ! i)) ! j)))"

lemma stereo_block_lanes:
  "esp_fanout_inv f \<Longrightarrow> esp_admits f b \<Longrightarrow> i < 6 \<Longrightarrow> carries_lanes (ef_plan f) b i (stereo_block b f i)"
  using stereo_block_samples [of f b i] by (simp add: carries_lanes_def) (simp add: stereo_block_def)

text \<open>
  C37: Six streams take one block, or all are told to stop.  For any transports, after any sequence
  of calls: a successful submission has handed every endpoint one stereo block that carries the
  sequence number and timestamp of the bus block and exactly the two lanes the plan gives to the
  endpoint, and every endpoint has accepted it; when one refuses its block, those before it have
  accepted theirs and those behind it were not asked, and then all six were stopped and reset and
  the set has to be prepared again; when the fanout refuses the bus block no endpoint was touched
  and the set stays started.  It panics only if a transport does.
\<close>

theorem esp_submit_all_or_none:
  assumes "esp_set_new V p ts frames = Ok s0" "length (fo_endpoints p) = 6" "length ts = 6"
    and "s = esp_run V ops s0" and "esp_set_submit V b s = (r, s')"
  shows "case r of
      Ok _ \<Rightarrow> es_lifecycle s' = EspStarted \<and> (\<forall>i<6. \<exists>m. carries_lanes p b i m
          \<and> nt_submit V m (es_transports s ! i) = (Ok (), es_transports s' ! i))
    | Err (EspEndpoint i e) \<Rightarrow> es_lifecycle s' = EspNew \<and> i < 6 \<and> (\<exists>mid. length mid = 6
        \<and> es_transports s' = map (stop_and_reset V) mid
        \<and> (\<forall>j<i. \<exists>m. carries_lanes p b j m \<and> nt_submit V m (es_transports s ! j) = (Ok (), mid ! j))
        \<and> (\<exists>m. carries_lanes p b i m \<and> nt_submit V m (es_transports s ! i) = (Err e, mid ! i))
        \<and> (\<forall>j. i < j \<and> j < 6 \<longrightarrow> mid ! j = es_transports s ! j))
    | Err (EspFanout e) \<Rightarrow> es_lifecycle s' = EspStarted \<and> es_transports s' = es_transports s
    | Err EspInvalidLifecycle \<Rightarrow> es_lifecycle s \<noteq> EspStarted \<and> s' = s
    | Panic \<Rightarrow> transport_panics V
    | _ \<Rightarrow> False"
proof -
  have shape: "esp_shape p s" using esp_run_shape [OF esp_new_shape [OF assms(1-3)]] assms(4) by simp
  then have fan: "esp_fanout_inv (es_fanout s)" "length (es_transports s) = 6" "ef_plan (es_fanout s) = p"
    by (simp_all add: esp_shape_def)
  note exact = esp_submit_exact [OF fan(1,2) assms(5)]
  have lanes: "carries_lanes p b i (stereo_block b (es_fanout s) i)" if "esp_admits (es_fanout s) b" "i < 6" for i
    using stereo_block_lanes [OF fan(1) that] fan(3) by simp
  show ?thesis
  proof (cases r)
    case (Err x)
    show ?thesis
    proof (cases x)
      case (EspEndpoint i e)
      with exact Err obtain mid where life: "es_lifecycle s' = EspNew" "esp_admits (es_fanout s) b" "i < 6"
        and mid: "length mid = 6" "es_transports s' = map (stop_and_reset V) mid"
          "\<forall>j<i. nt_submit V (stereo_block b (es_fanout s) j) (es_transports s ! j) = (Ok (), mid ! j)"
          "nt_submit V (stereo_block b (es_fanout s) i) (es_transports s ! i) = (Err e, mid ! i)"
          "\<forall>j. i < j \<and> j < 6 \<longrightarrow> mid ! j = es_transports s ! j" by auto
      have "\<forall>j<i. \<exists>m. carries_lanes p b j m \<and> nt_submit V m (es_transports s ! j) = (Ok (), mid ! j)"
        using mid(3) lanes [OF life(2)] life(3) by (meson order_less_trans)
      moreover have "\<exists>m. carries_lanes p b i m \<and> nt_submit V m (es_transports s ! i) = (Err e, mid ! i)"
        using mid(4) lanes [OF life(2,3)] by blast
      ultimately show ?thesis using Err EspEndpoint life mid by auto
    qed (use exact Err in auto)
  qed (use exact lanes in auto)
qed

text \<open>Six simulated endpoints that advertise AVB.\<close>

definition avb_sim :: sim_network_transport where
  "avb_sim = (sim_network_new 8 4)\<lparr>sn_capabilities := \<lparr>family = AvbTsn, max_channels = 2, nc_scheduled_playout = True,
     hardware_timestamps = True, adaptive_rate_matching = False, packet_repair = False\<rparr>\<rparr>"

definition avb_config :: network_stream_config where
  "avb_config = \<lparr>sc_format = \<lparr>sample_rate = 48000, channels = 2, block_frames = 2\<rparr>,
     clock_discipline = PtpFollower, timing = esp_timing 96\<rparr>"

definition avb_running :: sim_network_transport where
  "avb_running = avb_sim\<lparr>config := Some avb_config, events := [EvPrepared, EvStarted], started := True\<rparr>"

definition avb_fanout :: esp_fanout where
  "avb_fanout = \<lparr>ef_plan = esp_plan_canonical WiredEsp32P4,
     ef_input_format = \<lparr>sample_rate = 48000, channels = 12, block_frames = 2\<rparr>,
     ef_endpoint_format = \<lparr>sample_rate = 48000, channels = 2, block_frames = 2\<rparr>,
     ef_buffers = replicate 6 (replicate 4 0), ef_current_sequence = None,
     ef_current_timestamp = None, ef_next_sequence = None, ef_next_timestamp = None\<rparr>"

definition avb_idle_set :: "sim_network_transport esp_set" where
  "avb_idle_set = \<lparr>es_fanout = avb_fanout, es_transports = replicate 6 avb_sim,
     es_endpoint_format = \<lparr>sample_rate = 48000, channels = 2, block_frames = 2\<rparr>, es_lifecycle = EspNew\<rparr>"

lemma avb_six: "replicate 6 x = [x, x, x, x, x, x]" by (simp add: numeral_eq_Suc)

lemma avb_fanout_prepares: "esp_fanout_prepare (esp_plan_canonical WiredEsp32P4) 2 = Ok avb_fanout"
  using canonical_valid
  by (simp add: avb_fanout_def esp_fanout_prepare_def Let_def samples_per_block_def checked_mul_def esp_sizes
      AURORA_NETWORK_MEDIA_RATE_def)

lemma avb_fanout_inv: "esp_fanout_inv avb_fanout"
  using esp_prepare_inv [OF _ avb_fanout_prepares] by (simp add: canonical_plan)

lemma avb_new: "esp_set_new sim_vtable (esp_plan_canonical WiredEsp32P4) (replicate 6 avb_sim) 2 = Ok avb_idle_set"
proof -
  have "esp_capability_scan sim_vtable 0 (replicate 6 avb_sim) = Ok ()"
    unfolding avb_six by (simp add: avb_sim_def esp_sizes)
  then show ?thesis
    by (simp add: esp_set_new_def avb_fanout_prepares canonical_valid avb_idle_set_def esp_sizes
        AURORA_NETWORK_MEDIA_RATE_def del: replicate.simps esp_capability_scan.simps)
qed

lemma avb_started:
  "esp_run sim_vtable [EspPrepareOp 96, EspStartOp] avb_idle_set
     = avb_idle_set\<lparr>es_transports := replicate 6 avb_running, es_lifecycle := EspStarted\<rparr>"
proof -
  have valid: "timing_validate (esp_timing 96) = Ok ()"
    by (simp add: timing_validate_def esp_timing_def f64_is_finite_def f64_finite_neg_def)
  have config: "esp_stream_config 96 avb_idle_set = avb_config"
    by (simp add: esp_stream_config_def avb_idle_set_def avb_config_def)
  have ready: "sim_prepare avb_config avb_sim = (Ok (), avb_sim\<lparr>config := Some avb_config, events := [EvPrepared]\<rparr>)"
    using valid by (simp add: sim_prepare_def avb_config_def avb_sim_def sim_network_new_def format_validate_def
        samples_per_block_def checked_mul_def)
  have go: "sim_start (avb_sim\<lparr>config := Some avb_config, events := [EvPrepared]\<rparr>) = (Ok (), avb_running)"
    by (simp add: sim_start_def avb_running_def avb_sim_def sim_network_new_def)
  have fresh: "esp_fanout_reset avb_fanout = avb_fanout" by (simp add: esp_fanout_reset_def avb_fanout_def)
  have prep: "esp_set_prepare sim_vtable 96 avb_idle_set
      = (Ok (), avb_idle_set\<lparr>es_transports := replicate 6 (avb_sim\<lparr>config := Some avb_config, events := [EvPrepared]\<rparr>),
          es_lifecycle := EspPrepared\<rparr>)"
    using valid config ready fresh by (simp add: esp_set_prepare_def) (simp add: avb_idle_set_def avb_six)
  show ?thesis
    using prep go fresh by (simp add: esp_run_def esp_set_start_def) (simp add: avb_idle_set_def avb_six)
qed

lemma avb_accepts:
  assumes "format m = sc_format avb_config" "block_validate m = Ok ()"
  shows "\<exists>t. sim_submit m avb_running = (Ok (), t)"
  using assms by (simp add: sim_submit_def avb_running_def avb_sim_def sim_network_new_def avb_config_def)

lemma avb_loop:
  assumes "\<And>i. i < 6 \<Longrightarrow> \<exists>t. g i avb_running = (Ok (), t)"
  shows "fst (until_error 0 g (replicate 6 avb_running)) = Ok ()"
proof -
  obtain t where "g i avb_running = (Ok (), t i)" if "i < 6" for i using assms by metis
  then show ?thesis unfolding avb_six by (simp add: eval_nat_numeral)
qed

theorem esp_submit_all_or_none_witness:
  "\<exists>s m s'. esp_set_submit sim_vtable (bus_block 0) s = (Ok (), s')
     \<and> sim_submit m (es_transports s ! 5) = (Ok (), es_transports s' ! 5)
     \<and> samples m ! 3 = samples (bus_block 0) ! 23"
proof -
  let ?p = "esp_plan_canonical WiredEsp32P4"
  let ?s = "esp_run sim_vtable [EspPrepareOp 96, EspStartOp] avb_idle_set"
  obtain r s' where call: "esp_set_submit sim_vtable (bus_block 0) ?s = (r, s')" by fastforce
  have p: "length (fo_endpoints ?p) = 6" "length (replicate 6 avb_sim) = 6" by (simp_all add: canonical_plan)
  note claim = esp_submit_all_or_none [OF avb_new p refl call]
  obtain f where split: "esp_split (bus_block 0) avb_fanout = (Ok (), f)"
    using esp_split_Ok [OF avb_fanout_inv, of "bus_block 0"]
    by (auto simp: esp_admits_def bus_block_valid has_successor_def avb_fanout_def)
  let ?m = "stereo_block (bus_block 0) avb_fanout"
  have "format (?m i) = sc_format avb_config" "block_validate (?m i) = Ok ()" if "i < 6" for i
    using that p(1) by (simp_all add: stereo_block_def avb_config_def avb_fanout_def block_validate_def
        samples_per_block_def checked_mul_def stereo_buffers_def lane_list_def)
  then have "\<exists>t. submit_endpoint sim_vtable f i avb_running = (Ok (), t)" if "i < 6" for i
    using avb_accepts that split_stereo_blocks(1) [OF avb_fanout_inv split that] by (simp add: submit_endpoint_def)
  from avb_loop [of "submit_endpoint sim_vtable f", OF this] obtain ts where
    "until_error 0 (submit_endpoint sim_vtable f) (replicate 6 avb_running) = (Ok (), ts)"
    by (metis prod.collapse)
  then have ok: "r = Ok ()"
    using call split by (simp add: avb_started esp_set_submit_def del: replicate.simps) (simp add: avb_idle_set_def)
  have "\<forall>i<6. \<exists>m. carries_lanes ?p (bus_block 0) i m
      \<and> sim_submit m (es_transports ?s ! i) = (Ok (), es_transports s' ! i)" using claim ok by simp
  from this [THEN spec, of 5] obtain m where m: "carries_lanes ?p (bus_block 0) 5 m"
    "sim_submit m (es_transports ?s ! 5) = (Ok (), es_transports s' ! 5)" by auto
  have "fo_endpoints ?p ! 5 = \<lparr>es_endpoint_id = ''esp-avb-node-6'', es_stream_id = 0xA7000005,
      es_medium = WiredEsp32P4, es_channels = (10, 11)\<rparr>"
    by (simp add: canonical_plan)
  then have "samples m ! 3 = samples (bus_block 0) ! 23"
    using m(1) by (auto simp: carries_lanes_def lane_list_def dest!: spec [of _ 1])
  then show ?thesis using call ok m(2) by blast
qed

end
