(* ===== verification/Duplex_Bridge.thy ===== *)
theory Duplex_Bridge
  imports Block_Transport Float_Unit
begin

text \<open>
  The elastic buffer between the input callback and the output callback,
  \<open>src/crates/aurora-realtime-engine/src/duplex.rs\<close>, with the compensators that choose its
  drift corrections, \<open>drift.rs\<close>: the shared status, the producer that pushes input frames and
  drops what does not fit, and the consumer that plays, inserts or removes one frame.  Each
  callback is one step on the shared ring and status.
\<close>

section \<open>Compensators\<close>

datatype drift_correction = CorrectNone | CorrectInsert | CorrectRemove

datatype correction_transition = TrRaw | TrLinearInterpolation | TrCrossfade | TrZeroCrossing

record drift_context =
  dx_fill_frames :: usize
  dx_output_frames :: usize
  dx_target_fill_frames :: usize
  dx_threshold_frames :: usize

record 'c drift_compensator =
  cp_select :: "drift_context \<Rightarrow> 'c \<Rightarrow> drift_correction \<times> 'c"
  cp_transition :: "'c \<Rightarrow> correction_transition"
  cp_window :: "'c \<Rightarrow> usize"

record threshold_compensator =
  tc_transition :: correction_transition
  tc_window_frames :: usize

definition threshold_new :: "correction_transition \<Rightarrow> usize \<Rightarrow> threshold_compensator" where
  "threshold_new transition window = \<lparr>tc_transition = transition, tc_window_frames = max window 1\<rparr>"

definition threshold_default :: threshold_compensator where
  "threshold_default = threshold_new TrCrossfade 16"

definition threshold_select ::
  "drift_context \<Rightarrow> threshold_compensator \<Rightarrow> drift_correction \<times> threshold_compensator" where
  "threshold_select x c =
     (let projected = saturating_sub (dx_fill_frames x) (dx_output_frames x) in
      if saturating_add (dx_target_fill_frames x) (dx_threshold_frames x) < projected
      then (CorrectRemove, c)
      else if projected < saturating_sub (dx_target_fill_frames x) (dx_threshold_frames x)
              \<and> dx_output_frames x \<le> saturating_add (dx_fill_frames x) 1
      then (CorrectInsert, c)
      else (CorrectNone, c))"

definition threshold_drift :: "threshold_compensator drift_compensator" where
  "threshold_drift = \<lparr>cp_select = threshold_select, cp_transition = tc_transition, cp_window = tc_window_frames\<rparr>"

section \<open>Health and policy\<close>

datatype duplex_health = DhNormal | DhWarning | DhDegraded | DhFatal

fun health_code :: "duplex_health \<Rightarrow> u32" where
  "health_code DhNormal = 0"
| "health_code DhWarning = 1"
| "health_code DhDegraded = 2"
| "health_code DhFatal = 3"

definition decode_health :: "u32 \<Rightarrow> duplex_health" where
  "decode_health v = (if v = 1 then DhWarning else if v = 2 then DhDegraded else if v = 3 then DhFatal else DhNormal)"

datatype duplex_fault = DfNone | DfInputFormat | DfOutputFormat

fun duplex_fault_code :: "duplex_fault \<Rightarrow> u32" where
  "duplex_fault_code DfNone = 0"
| "duplex_fault_code DfInputFormat = 1"
| "duplex_fault_code DfOutputFormat = 2"

definition decode_duplex_fault :: "u32 \<Rightarrow> duplex_fault" where
  "decode_duplex_fault v = (if v = 1 then DfInputFormat else if v = 2 then DfOutputFormat else DfNone)"

record duplex_fault_policy =
  dp_warning_correction_interval_frames :: u64
  dp_degraded_correction_interval_frames :: u64
  dp_maximum_excursion_frames :: usize
  dp_maximum_consecutive_underflows :: u64
  dp_maximum_consecutive_overflows :: u64

definition duplex_policy_default :: duplex_fault_policy where
  "duplex_policy_default = \<lparr>dp_warning_correction_interval_frames = 480000,
     dp_degraded_correction_interval_frames = 48000, dp_maximum_excursion_frames = 1024,
     dp_maximum_consecutive_underflows = 3, dp_maximum_consecutive_overflows = 1\<rparr>"

section \<open>The shared status\<close>

record duplex_bridge_config =
  db_channels :: usize
  db_capacity_frames :: usize
  db_target_fill_frames :: usize
  db_correction_threshold_frames :: usize

record duplex_status =
  du_input_frames_received :: u64
  du_output_frames_requested :: u64
  du_fill_frames :: usize
  du_min_fill_frames :: usize
  du_max_fill_frames :: usize
  du_drift_trend_frames :: int
  du_sample_slips_inserted :: u64
  du_sample_slips_removed :: u64
  du_overflow_count :: u64
  du_underflow_count :: u64
  du_consecutive_underflows :: u64
  du_consecutive_overflows :: u64
  du_last_correction_output_frame :: u64
  du_minimum_correction_interval_frames :: u64
  du_maximum_excursion_frames :: usize
  du_clock_epoch :: u64
  du_health :: u32
  du_fault :: u32

definition duplex_status_new :: "usize \<Rightarrow> duplex_status" where
  "duplex_status_new capacity = \<lparr>du_input_frames_received = 0, du_output_frames_requested = 0,
     du_fill_frames = 0, du_min_fill_frames = capacity, du_max_fill_frames = 0,
     du_drift_trend_frames = 0, du_sample_slips_inserted = 0, du_sample_slips_removed = 0,
     du_overflow_count = 0, du_underflow_count = 0, du_consecutive_underflows = 0,
     du_consecutive_overflows = 0, du_last_correction_output_frame = 0,
     du_minimum_correction_interval_frames = - 1, du_maximum_excursion_frames = 0,
     du_clock_epoch = 0, du_health = health_code DhNormal, du_fault = duplex_fault_code DfNone\<rparr>"

definition raise_health :: "duplex_health \<Rightarrow> duplex_status \<Rightarrow> duplex_status" where
  "raise_health h s = s\<lparr>du_health := max (du_health s) (health_code h)\<rparr>"

definition mark_clock_discontinuity :: "duplex_status \<Rightarrow> duplex_status" where
  "mark_clock_discontinuity s = s\<lparr>du_clock_epoch := du_clock_epoch s + 1\<rparr>"

definition observe_fill :: "usize \<Rightarrow> usize \<Rightarrow> duplex_fault_policy \<Rightarrow> duplex_status \<Rightarrow> duplex_status" where
  "observe_fill fill target policy s =
     (let trend = int (unat fill) - int (unat target);
          excursion = of_nat (min (nat \<bar>trend\<bar>) (2 ^ 64 - 1));
          s1 = s\<lparr>du_fill_frames := fill,
                 du_min_fill_frames := min (du_min_fill_frames s) fill,
                 du_max_fill_frames := max (du_max_fill_frames s) fill,
                 du_drift_trend_frames := max (- (2 ^ 63)) (min (2 ^ 63 - 1) trend),
                 du_maximum_excursion_frames := max (du_maximum_excursion_frames s) excursion\<rparr> in
      if dp_maximum_excursion_frames policy < excursion then raise_health DhFatal s1 else s1)"

definition observe_correction :: "duplex_fault_policy \<Rightarrow> duplex_status \<Rightarrow> duplex_status" where
  "observe_correction policy s =
     (let current = du_output_frames_requested s; previous = du_last_correction_output_frame s;
          s1 = s\<lparr>du_last_correction_output_frame := current\<rparr> in
      if previous = 0 then s1
      else
        let interval = saturating_sub current previous;
            s2 = s1\<lparr>du_minimum_correction_interval_frames :=
                      min (du_minimum_correction_interval_frames s1) interval\<rparr> in
        if interval < dp_degraded_correction_interval_frames policy then raise_health DhDegraded s2
        else if interval < dp_warning_correction_interval_frames policy then raise_health DhWarning s2
        else s2)"

record duplex_snapshot =
  sn_input_frames_received :: u64
  sn_output_frames_requested :: u64
  sn_fill_frames :: usize
  sn_min_fill_frames :: usize
  sn_max_fill_frames :: usize
  sn_drift_trend_frames :: int
  sn_sample_slips_inserted :: u64
  sn_sample_slips_removed :: u64
  sn_overflow_count :: u64
  sn_underflow_count :: u64
  sn_consecutive_underflows :: u64
  sn_consecutive_overflows :: u64
  sn_minimum_correction_interval_frames :: u64
  sn_maximum_excursion_frames :: usize
  sn_health :: duplex_health
  sn_fault :: duplex_fault

definition duplex_snapshot_of :: "duplex_status \<Rightarrow> duplex_snapshot" where
  "duplex_snapshot_of s = \<lparr>sn_input_frames_received = du_input_frames_received s,
     sn_output_frames_requested = du_output_frames_requested s, sn_fill_frames = du_fill_frames s,
     sn_min_fill_frames = du_min_fill_frames s, sn_max_fill_frames = du_max_fill_frames s,
     sn_drift_trend_frames = du_drift_trend_frames s,
     sn_sample_slips_inserted = du_sample_slips_inserted s,
     sn_sample_slips_removed = du_sample_slips_removed s, sn_overflow_count = du_overflow_count s,
     sn_underflow_count = du_underflow_count s,
     sn_consecutive_underflows = du_consecutive_underflows s,
     sn_consecutive_overflows = du_consecutive_overflows s,
     sn_minimum_correction_interval_frames = du_minimum_correction_interval_frames s,
     sn_maximum_excursion_frames = du_maximum_excursion_frames s,
     sn_health = decode_health (du_health s), sn_fault = decode_duplex_fault (du_fault s)\<rparr>"

section \<open>The producer\<close>

record duplex_link =
  lk_queue :: spsc_ring
  lk_status :: duplex_status

text \<open>
  The \<open>+ 1\<close> after \<open>fetch_add\<close> and the \<open>debug_assert!\<close> are panics of a build with checks;
  \<open>count_up\<close> gives the stored counter and the checked successor of the old value.
\<close>

definition push_interleaved ::
  "duplex_bridge_config \<Rightarrow> duplex_fault_policy \<Rightarrow> f32 list \<Rightarrow> usize \<Rightarrow> duplex_link
    \<Rightarrow> (unit, unit) outcome \<times> duplex_link" where
  "push_interleaved cfg policy input channels l =
     (let s = lk_status l; q = lk_queue l in
      if channels \<noteq> db_channels cfg \<or> channels = 0 \<or> of_nat (length input) mod channels \<noteq> 0
      then (Ok (), l\<lparr>lk_status := mark_clock_discontinuity (s\<lparr>du_fault := duplex_fault_code DfInputFormat\<rparr>)\<rparr>)
      else
        let frames = of_nat (length input) div channels;
            s1 = s\<lparr>du_input_frames_received := du_input_frames_received s + frames\<rparr>;
            available = saturating_sub (ring_capacity q) (ring_len_samples q) div channels;
            accepted = min frames available;
            (pushed, q1) = try_push_samples (take (unat (accepted * channels)) input) q;
            rejected = frames - accepted;
            fill = (\<lambda>s. observe_fill (ring_len_samples q1 div channels) (db_target_fill_frames cfg) policy s) in
        if \<not> pushed then (Panic, \<lparr>lk_queue = q1, lk_status = s1\<rparr>)
        else if 0 < rejected then
          let s2 = mark_clock_discontinuity (s1\<lparr>du_overflow_count := du_overflow_count s1 + rejected\<rparr>);
              s3 = s2\<lparr>du_consecutive_overflows := du_consecutive_overflows s2 + 1\<rparr> in
          case checked_add (du_consecutive_overflows s2) 1 of
            None \<Rightarrow> (Panic, \<lparr>lk_queue = q1, lk_status = s3\<rparr>)
          | Some consecutive \<Rightarrow>
              (Ok (), \<lparr>lk_queue = q1, lk_status = fill
                (if dp_maximum_consecutive_overflows policy < consecutive then raise_health DhFatal s3 else s3)\<rparr>)
        else (Ok (), \<lparr>lk_queue = q1, lk_status = fill (s1\<lparr>du_consecutive_overflows := 0\<rparr>)\<rparr>))"

section \<open>The consumer\<close>

record 'c duplex_consumer =
  dc_compensator :: 'c
  dc_last_frame :: "f32 list"
  dc_peek_frame :: "f32 list"
  dc_transition_frames :: "f32 list"
  dc_has_last_frame :: bool

function chunks_exact :: "nat \<Rightarrow> 'a list \<Rightarrow> 'a list list" where
  "chunks_exact n xs = (if n = 0 \<or> length xs < n then [] else take n xs # chunks_exact n (drop n xs))"
  by pat_completeness auto
termination by (relation "measure (\<lambda>(n, xs). length xs)") auto

declare chunks_exact.simps [simp del]

text \<open>The reading loops: discard up to a frame, play the remaining frames as they are.\<close>

function discard_frames :: "usize \<Rightarrow> nat \<Rightarrow> nat \<Rightarrow> spsc_ring \<Rightarrow> bool \<times> nat \<times> spsc_ring" where
  "discard_frames channels until consumed r =
     (if consumed < until then
        case discard_samples channels r of
          (False, r') \<Rightarrow> (False, consumed, r')
        | (True, r') \<Rightarrow> discard_frames channels until (Suc consumed) r'
      else (True, consumed, r))"
  by pat_completeness auto
termination by (relation "measure (\<lambda>(channels, until, consumed, r). until - consumed)") auto

declare discard_frames.simps [simp del]

fun pop_frames :: "f32 list list \<Rightarrow> spsc_ring \<Rightarrow> f32 list list option \<times> spsc_ring" where
  "pop_frames [] r = (Some [], r)"
| "pop_frames (frame # frames) r =
     (case try_pop_samples frame r of
        (False, _, r1) \<Rightarrow> (None, r1)
      | (True, played, r1) \<Rightarrow> (case pop_frames frames r1 of (fs, r2) \<Rightarrow> (map_option (Cons played) fs, r2)))"

text \<open>One interpolated frame from the two peeked neighbours.\<close>

definition blend_frame :: "nat \<Rightarrow> f32 \<Rightarrow> f32 list \<Rightarrow> nat \<Rightarrow> f32 list" where
  "blend_frame n fraction pair channels =
     map (\<lambda>c. f32_mul_add (pair ! c) (f32_sub 0x3F800000 fraction) (f32_mul (pair ! (channels + c)) fraction)) [0..<n]"

definition source_position :: "nat \<Rightarrow> nat \<Rightarrow> f32" where
  "source_position window i =
     f32_div (f32_mul (f32_of_nat i) (f32_of_nat (window - 1))) (f32_of_nat window)"

text \<open>
  The window of an insertion: frame indices against the output frames still to fill, with the
  frames consumed so far, the peek buffer and the ring; the result also returns the output
  frames not reached.
\<close>

fun insertion_window :: "usize \<Rightarrow> nat \<Rightarrow> nat list \<Rightarrow> f32 list list \<Rightarrow> nat \<Rightarrow> f32 list \<Rightarrow> spsc_ring
    \<Rightarrow> (f32 list list \<times> f32 list list) option \<times> nat \<times> f32 list \<times> spsc_ring" where
  "insertion_window channels window [] frames consumed buf r = (Some ([], frames), consumed, buf, r)"
| "insertion_window channels window (i # is) frames consumed buf r =
     (let pos = source_position window i; floor_frames = f32_floor_usize pos in
      case discard_frames channels floor_frames consumed r of
        (False, consumed1, r1) \<Rightarrow> (None, consumed1, buf, r1)
      | (True, consumed1, r1) \<Rightarrow>
          (case peek_samples buf r1 of
             (False, buf1) \<Rightarrow> (None, consumed1, buf1, r1)
           | (True, buf1) \<Rightarrow>
               (case frames of
                  [] \<Rightarrow> (None, consumed1, buf1, r1)
                | frame # rest \<Rightarrow>
                    let fraction = f32_sub pos (f32_of_nat floor_frames);
                        played = blend_frame (length frame) fraction buf1 (unat channels) in
                    (case insertion_window channels window is rest consumed1 buf1 r1 of
                       (None, z) \<Rightarrow> (None, z)
                     | (Some (ps, rest'), z) \<Rightarrow> (Some (played # ps, rest'), z)))))"

text \<open>\<open>Ok None\<close> is \<open>false\<close>; \<open>copy_from_slice\<close> panics on a length mismatch.\<close>

definition render_smoothed_insertion ::
  "usize \<Rightarrow> usize \<Rightarrow> f32 list \<Rightarrow> 'c duplex_consumer \<Rightarrow> spsc_ring
    \<Rightarrow> (f32 list option, unit) outcome \<times> 'c duplex_consumer \<times> spsc_ring" where
  "render_smoothed_insertion channels requested out c r =
     (let output_frames = of_nat (length out) div channels in
      if output_frames < 2 then
        (if length out \<noteq> length (dc_last_frame c) then Panic else Ok (Some (dc_last_frame c)), c, r)
      else
        let window = unat (max (min requested output_frames) 2) in
        case insertion_window channels window [0..<window] (chunks_exact (unat channels) out) 0
               (dc_transition_frames c) r of
          (None, _, buf, r1) \<Rightarrow> (Ok None, c\<lparr>dc_transition_frames := buf\<rparr>, r1)
        | (Some (played, rest), consumed, buf, r1) \<Rightarrow>
            (case discard_frames channels (window - 1) consumed r1 of
               (False, _, r2) \<Rightarrow> (Ok None, c\<lparr>dc_transition_frames := buf\<rparr>, r2)
             | (True, _, r2) \<Rightarrow>
                 (case pop_frames rest r2 of
                    (fs, r3) \<Rightarrow> (Ok (map_option (\<lambda>fs. concat (played @ fs)) fs),
                                 c\<lparr>dc_transition_frames := buf\<rparr>, r3))))"

definition render_insertion ::
  "'c drift_compensator \<Rightarrow> duplex_fault_policy \<Rightarrow> usize \<Rightarrow> f32 list \<Rightarrow> 'c duplex_consumer \<Rightarrow> duplex_link
    \<Rightarrow> (f32 list option, unit) outcome \<times> 'c duplex_consumer \<times> duplex_link" where
  "render_insertion V policy channels out c l =
     (let (res, c1, q1) =
        (case cp_transition V (dc_compensator c) of
           TrRaw \<Rightarrow>
             if length out < unat channels \<or> length (dc_last_frame c) \<noteq> unat channels then (Panic, c, lk_queue l)
             else (case try_pop_samples (drop (unat channels) out) (lk_queue l) of
                     (b, rest, q) \<Rightarrow> (Ok (if b then Some (dc_last_frame c @ rest) else None), c, q))
         | TrCrossfade \<Rightarrow> render_smoothed_insertion channels (cp_window V (dc_compensator c)) out c (lk_queue l)
         | _ \<Rightarrow> render_smoothed_insertion channels 2 out c (lk_queue l)) in
      (res, c1, \<lparr>lk_queue = q1, lk_status =
         (case res of
            Ok (Some _) \<Rightarrow> let s = lk_status l in
              observe_correction policy (s\<lparr>du_sample_slips_inserted := du_sample_slips_inserted s + 1\<rparr>)
          | _ \<Rightarrow> lk_status l)\<rparr>))"

fun removal_window :: "usize \<Rightarrow> nat \<Rightarrow> nat list \<Rightarrow> f32 list list \<Rightarrow> f32 list \<Rightarrow> spsc_ring
    \<Rightarrow> (f32 list list \<times> f32 list list) option \<times> f32 list \<times> spsc_ring" where
  "removal_window channels window [] frames buf r = (Some ([], frames), buf, r)"
| "removal_window channels window (i # is) [] buf r = (None, buf, r)"
| "removal_window channels window (i # is) (frame # rest) buf r =
     (case peek_samples buf r of
        (False, buf1) \<Rightarrow> (None, buf1, r)
      | (True, buf1) \<Rightarrow>
          let alpha = f32_div (f32_of_nat (i + 1)) (f32_of_nat (window + 1));
              played = blend_frame (length frame) alpha buf1 (unat channels) in
          (case discard_samples channels r of
             (False, r1) \<Rightarrow> (None, buf1, r1)
           | (True, r1) \<Rightarrow>
               (case removal_window channels window is rest buf1 r1 of
                  (None, z) \<Rightarrow> (None, z)
                | (Some (ps, rest'), z) \<Rightarrow> (Some (played # ps, rest'), z))))"

definition render_smoothed_removal ::
  "usize \<Rightarrow> usize \<Rightarrow> f32 list \<Rightarrow> 'c duplex_consumer \<Rightarrow> spsc_ring
    \<Rightarrow> f32 list option \<times> 'c duplex_consumer \<times> spsc_ring" where
  "render_smoothed_removal channels requested out c r =
     (let window = unat (max (min requested (of_nat (length out) div channels)) 1) in
      case removal_window channels window [0..<window] (chunks_exact (unat channels) out) (dc_transition_frames c) r of
        (None, buf, r1) \<Rightarrow> (None, c\<lparr>dc_transition_frames := buf\<rparr>, r1)
      | (Some (played, rest), buf, r1) \<Rightarrow>
          (case discard_samples channels r1 of
             (False, r2) \<Rightarrow> (None, c\<lparr>dc_transition_frames := buf\<rparr>, r2)
           | (True, r2) \<Rightarrow>
               (case pop_frames rest r2 of
                  (fs, r3) \<Rightarrow> (map_option (\<lambda>fs. concat (played @ fs)) fs,
                               c\<lparr>dc_transition_frames := buf\<rparr>, r3))))"

definition render_removal ::
  "'c drift_compensator \<Rightarrow> duplex_fault_policy \<Rightarrow> usize \<Rightarrow> f32 list \<Rightarrow> 'c duplex_consumer \<Rightarrow> duplex_link
    \<Rightarrow> (f32 list option, unit) outcome \<times> 'c duplex_consumer \<times> duplex_link" where
  "render_removal V policy channels out c l =
     (let (res, c1, q1) =
        (case cp_transition V (dc_compensator c) of
           TrRaw \<Rightarrow>
             (case discard_samples channels (lk_queue l) of
                (False, q) \<Rightarrow> (None, c, q)
              | (True, q) \<Rightarrow> (case try_pop_samples out q of (b, played, q') \<Rightarrow> (if b then Some played else None, c, q')))
         | TrCrossfade \<Rightarrow> render_smoothed_removal channels (cp_window V (dc_compensator c)) out c (lk_queue l)
         | _ \<Rightarrow> render_smoothed_removal channels 1 out c (lk_queue l)) in
      (Ok res, c1, \<lparr>lk_queue = q1, lk_status =
         (if res = None then lk_status l
          else let s = lk_status l in
            observe_correction policy (s\<lparr>du_sample_slips_removed := du_sample_slips_removed s + 1\<rparr>))\<rparr>))"

text \<open>\<open>0.001\<close> is \<open>0x3A83126F\<close>.\<close>

definition near_crossing :: "f32 \<Rightarrow> f32 \<Rightarrow> bool" where
  "near_crossing previous next \<longleftrightarrow>
     f32_le (f32_abs previous) 0x3A83126F \<or> f32_le (f32_abs next) 0x3A83126F \<or> f32_le (f32_mul previous next) 0"

definition is_coherent_zero_crossing :: "'c duplex_consumer \<Rightarrow> spsc_ring \<Rightarrow> bool \<times> 'c duplex_consumer" where
  "is_coherent_zero_crossing c r =
     (case peek_samples (dc_peek_frame c) r of
        (b, frame) \<Rightarrow> (b \<and> list_all (\<lambda>(p, n). near_crossing p n) (zip (dc_last_frame c) frame),
                       c\<lparr>dc_peek_frame := frame\<rparr>))"

definition observe_underflow :: "duplex_fault_policy \<Rightarrow> duplex_status \<Rightarrow> bool \<times> duplex_status" where
  "observe_underflow policy s =
     (let s1 = mark_clock_discontinuity (s\<lparr>du_underflow_count := du_underflow_count s + 1\<rparr>);
          s2 = s1\<lparr>du_consecutive_underflows := du_consecutive_underflows s1 + 1\<rparr> in
      case checked_add (du_consecutive_underflows s1) 1 of
        None \<Rightarrow> (False, s2)
      | Some consecutive \<Rightarrow>
          (True, if dp_maximum_consecutive_underflows policy < consecutive then raise_health DhFatal s2 else s2))"

text \<open>The correction of one callback: what the compensator selects, where it can be applied.\<close>

definition selected_correction ::
  "'c drift_compensator \<Rightarrow> duplex_bridge_config \<Rightarrow> usize \<Rightarrow> 'c duplex_consumer \<Rightarrow> spsc_ring
    \<Rightarrow> drift_correction \<times> 'c duplex_consumer" where
  "selected_correction V cfg frame_count c q =
     (let (correction, strategy) = cp_select V
            \<lparr>dx_fill_frames = ring_len_samples q div db_channels cfg, dx_output_frames = frame_count,
             dx_target_fill_frames = db_target_fill_frames cfg,
             dx_threshold_frames = db_correction_threshold_frames cfg\<rparr> (dc_compensator c);
          c1 = c\<lparr>dc_compensator := strategy\<rparr>;
          correction1 = (if \<not> dc_has_last_frame c1 \<and> correction = CorrectInsert then CorrectNone else correction) in
      if cp_transition V strategy = TrZeroCrossing \<and> correction1 \<noteq> CorrectNone
      then (case is_coherent_zero_crossing c1 q of
              (b, c2) \<Rightarrow> (if b then correction1 else CorrectNone, c2))
      else (correction1, c1))"

definition consumed_frames :: "drift_correction \<Rightarrow> usize \<Rightarrow> usize" where
  "consumed_frames correction frame_count =
     (case correction of
        CorrectNone \<Rightarrow> frame_count
      | CorrectInsert \<Rightarrow> saturating_sub frame_count 1
      | CorrectRemove \<Rightarrow> saturating_add frame_count 1)"

text \<open>The match on the correction, then the bookkeeping after it.\<close>

definition play_correction ::
  "'c drift_compensator \<Rightarrow> duplex_fault_policy \<Rightarrow> usize \<Rightarrow> f32 list \<Rightarrow> drift_correction \<Rightarrow> 'c duplex_consumer
    \<Rightarrow> duplex_link \<Rightarrow> (f32 list option, unit) outcome \<times> 'c duplex_consumer \<times> duplex_link" where
  "play_correction V policy channels out correction c l =
     (case correction of
        CorrectNone \<Rightarrow>
          (case try_pop_samples out (lk_queue l) of
             (b, played, q) \<Rightarrow> (Ok (if b then Some played else None), c, l\<lparr>lk_queue := q\<rparr>))
      | CorrectInsert \<Rightarrow> render_insertion V policy channels out c l
      | CorrectRemove \<Rightarrow> render_removal V policy channels out c l)"

definition finish_read ::
  "duplex_bridge_config \<Rightarrow> duplex_fault_policy \<Rightarrow> f32 list option \<Rightarrow> f32 list \<Rightarrow> 'c duplex_consumer \<Rightarrow> duplex_link
    \<Rightarrow> (unit, unit) outcome \<times> f32 list \<times> 'c duplex_consumer \<times> duplex_link" where
  "finish_read cfg policy played out c l =
     (let fill = (\<lambda>s. observe_fill (ring_len_samples (lk_queue l) div db_channels cfg)
                        (db_target_fill_frames cfg) policy s) in
      case played of
        None \<Rightarrow>
          (case observe_underflow policy (lk_status l) of
             (ok, s) \<Rightarrow> if ok then (Ok (), replicate (length out) 0, c, l\<lparr>lk_status := fill s\<rparr>)
                        else (Panic, replicate (length out) 0, c, l\<lparr>lk_status := s\<rparr>))
      | Some samples \<Rightarrow>
          (Ok (), samples,
           (case chunks_exact (unat (db_channels cfg)) samples of
              [] \<Rightarrow> c
            | f # fs \<Rightarrow> c\<lparr>dc_last_frame := List.last (f # fs), dc_has_last_frame := True\<rparr>),
           l\<lparr>lk_status := fill ((lk_status l)\<lparr>du_consecutive_underflows := 0\<rparr>)\<rparr>))"

definition read_interleaved ::
  "'c drift_compensator \<Rightarrow> duplex_bridge_config \<Rightarrow> duplex_fault_policy \<Rightarrow> f32 list \<Rightarrow> usize
    \<Rightarrow> 'c duplex_consumer \<Rightarrow> duplex_link
    \<Rightarrow> (unit, unit) outcome \<times> f32 list \<times> 'c duplex_consumer \<times> duplex_link" where
  "read_interleaved V cfg policy out channels c l =
     (let s = lk_status l in
      if channels \<noteq> db_channels cfg \<or> channels = 0 \<or> of_nat (length out) mod channels \<noteq> 0
      then (Ok (), replicate (length out) 0, c, l\<lparr>lk_status :=
              mark_clock_discontinuity (s\<lparr>du_fault := duplex_fault_code DfOutputFormat\<rparr>)\<rparr>)
      else
        let frame_count = of_nat (length out) div channels;
            l1 = l\<lparr>lk_status := s\<lparr>du_output_frames_requested := du_output_frames_requested s + frame_count\<rparr>\<rparr>;
            (correction, c1) = selected_correction V cfg frame_count c (lk_queue l1) in
        if ring_len_samples (lk_queue l1) div channels < consumed_frames correction frame_count
        then finish_read cfg policy None out c1 l1
        else
          let (res, c2, l2) = play_correction V policy channels out correction c1 l1 in
          case res of
            Ok played \<Rightarrow> finish_read cfg policy played out c2 l2
          | _ \<Rightarrow> (Panic, out, c2, l2))"

definition duplex_fixed_capacity :: "'c duplex_consumer \<Rightarrow> spsc_ring \<Rightarrow> nat" where
  "duplex_fixed_capacity c r = length (ring_slots r) + length (dc_last_frame c)
     + length (dc_peek_frame c) + length (dc_transition_frames c)"

section \<open>Construction\<close>

datatype duplex_bridge_error = DbInvalidConfiguration

definition create_duplex_bridge_with_compensator ::
  "duplex_bridge_config \<Rightarrow> 'c \<Rightarrow> ('c duplex_consumer \<times> duplex_link, duplex_bridge_error) outcome" where
  "create_duplex_bridge_with_compensator cfg strategy =
     (if db_channels cfg = 0 \<or> db_capacity_frames cfg = 0
         \<or> db_capacity_frames cfg \<le> db_target_fill_frames cfg
         \<or> db_capacity_frames cfg \<le> db_correction_threshold_frames cfg
      then Err DbInvalidConfiguration
      else case checked_mul (db_capacity_frames cfg) (db_channels cfg) of
        None \<Rightarrow> Err DbInvalidConfiguration
      | Some sample_capacity \<Rightarrow>
          (case ring_new sample_capacity of
             None \<Rightarrow> Err DbInvalidConfiguration
           | Some r \<Rightarrow>
               let n = unat (db_channels cfg) in
               Ok (\<lparr>dc_compensator = strategy, dc_last_frame = replicate n 0, dc_peek_frame = replicate n 0,
                    dc_transition_frames = replicate (n * 2) 0, dc_has_last_frame = False\<rparr>,
                   \<lparr>lk_queue = r, lk_status = duplex_status_new (db_capacity_frames cfg)\<rparr>)))"

definition create_duplex_bridge ::
  "duplex_bridge_config
    \<Rightarrow> (threshold_compensator duplex_consumer \<times> duplex_link, duplex_bridge_error) outcome" where
  "create_duplex_bridge cfg = create_duplex_bridge_with_compensator cfg threshold_default"

end
