(* ===== verification/Float_Grid.thy ===== *)
theory Float_Grid
  imports Float_Unit
begin

text \<open>
  Single-precision numbers on a grid: a number of at most 24 significant bits is not rounded, a
  rounded quotient stays between two such numbers, and the floor of a float is read off bounds
  on its value.  Used for the positions of the interpolation windows of the duplex bridge.
\<close>

lemma normalised:
  "(m :: nat) < 2 ^ (p + 1) \<Longrightarrow>
     \<exists>k m'. m' < 2 ^ (p + 1) \<and> (k = 0 \<or> 2 ^ p \<le> m') \<and> k \<le> j \<and> m' * 2 ^ k = m * 2 ^ j"
proof (induction j arbitrary: m)
  case (Suc j)
  show ?case
  proof (cases "2 ^ p \<le> m")
    case True
    then show ?thesis using Suc.prems by (intro exI [of _ "Suc j"] exI [of _ m]) simp
  next
    case False
    then have "2 * m < 2 ^ (p + 1)" by simp
    from Suc.IH [OF this] obtain k m' where
      "m' < 2 ^ (p + 1)" "k = 0 \<or> 2 ^ p \<le> m'" "k \<le> j" "m' * 2 ^ k = 2 * m * 2 ^ j" by blast
    then show ?thesis by (intro exI [of _ k] exI [of _ m']) simp
  qed
qed (rule exI [of _ 0], rule exI, simp)

lemma scaled_packed:
  assumes "m < 2 ^ (p + 1)" "k = 0 \<or> 2 ^ p \<le> m"
  shows "scaled p (k * 2 ^ p + m) = m * 2 ^ k"
proof (cases "2 ^ p \<le> m")
  case True
  define f where "f = m - 2 ^ p"
  have f: "m = 2 ^ p + f" "f < 2 ^ p" using True assms(1) by (simp_all add: f_def)
  have "k * 2 ^ p + m = (k + 1) * 2 ^ p + f" by (simp add: f(1))
  then have "(k * 2 ^ p + m) div 2 ^ p = k + 1" "(k * 2 ^ p + m) mod 2 ^ p = f"
    using f(2) by (simp_all del: add_mult_distrib)
  then show ?thesis by (simp add: scaled_def f(1))
next
  case False
  then have "k = 0" "m < 2 ^ p" using assms(2) by auto
  then show ?thesis by (simp add: scaled_def)
qed

text \<open>A number on the grid is one of the patterns that rounding returns.\<close>

lemma rounds_to_itself:
  assumes m: "m < 2 ^ (p + 1)" and e: "exponent_floor p w \<le> e" and b: "0 < b"
    and top: "(nat (e - exponent_floor p w) + 2) * 2 ^ p \<le> infinity_bits p w"
    and v: "real a / real b = real m * 2 powi e"
  obtains n a' b' where "round_magnitude p w a b = n" "n < infinity_bits p w"
    "decoded p w s n = ExRat s a' b'" "0 < b'" "real a' / real b' = real m * 2 powi e"
proof -
  let ?j = "nat (e - exponent_floor p w)"
  from normalised [OF m, of ?j] obtain k m' where
    k: "m' < 2 ^ (p + 1)" "k = 0 \<or> 2 ^ p \<le> m'" "k \<le> ?j" "m' * 2 ^ k = m * 2 ^ ?j" by blast
  define n where "n = k * 2 ^ p + m'"
  have "k * 2 ^ p \<le> ?j * 2 ^ p" using k(3) by (intro mult_right_mono) simp_all
  moreover have "(?j + 2) * 2 ^ p = ?j * 2 ^ p + 2 ^ (p + 1)" by (simp add: add_mult_distrib)
  ultimately have n: "n < infinity_bits p w" unfolding n_def using k(1) top by linarith
  have "real (scaled p n) = real (m * 2 ^ ?j)"
    unfolding n_def scaled_packed [OF k(1,2)] k(4) ..
  also have "\<dots> = real m * 2 powi (e - exponent_floor p w)" using e by (simp add: power_int_def)
  finally have sc: "real (scaled p n) * 2 powi exponent_floor p w = real m * 2 powi e"
    using power_int_add [of "2 :: real" "e - exponent_floor p w" "exponent_floor p w"] by simp
  have "round_magnitude p w a b = n" using v sc by (intro round_magnitude_exact [OF n b]) simp
  moreover from decoded_real [OF n, of s] sc obtain a' b' where
    "decoded p w s n = ExRat s a' b'" "0 < b'" "real a' / real b' = real m * 2 powi e" by auto
  ultimately show ?thesis using that n by blast
qed

lemma f32_grid:
  assumes m: "m < 2 ^ 24" and e: "- 149 \<le> e" "e \<le> 100" and b: "0 < b"
    and v: "real a / real b = real m * 2 powi e"
  shows "real_value (f32_of (ExRat False a b)) (real m * 2 powi e)"
proof -
  have fl: "exponent_floor 23 8 = - 149" by (simp add: exponent_floor_def)
  have "(nat (e + 149) + 2) * 2 ^ 23 \<le> 251 * 2 ^ 23" using e by (intro mult_right_mono) simp_all
  then have top: "(nat (e - exponent_floor 23 8) + 2) * 2 ^ 23 \<le> infinity_bits 23 8" by (simp add: fl infinity_bits_def)
  have m': "m < 2 ^ (23 + 1)" using m by simp
  have e': "exponent_floor 23 8 \<le> e" using e fl by simp
  from rounds_to_itself [OF m' e' b top v, of False] obtain n a' b' where
    n: "round_magnitude 23 8 a b = n" "n < infinity_bits 23 8" "decoded 23 8 False n = ExRat False a' b'" "0 < b'"
      "real a' / real b' = real m * 2 powi e" .
  have "f32_exact (f32_of (ExRat False a b)) = decoded 23 8 False n"
    using decode_signed_bits [of n 23 8 False] n by (simp add: f32_exact_of)
  then show ?thesis using n by (auto simp: real_value_def rat_real_def sgn_of_def)
qed

lemma f32_of_nat_real: "n < 2 ^ 24 \<Longrightarrow> real_value (f32_of_nat n) (real n)"
  using f32_grid [of n 0 1 n] by (simp add: f32_of_nat_def)

lemma f32_le_finite:
  assumes "real_value x l" "f32_le x z" "f32_le z y" "real_value y h"
  obtains v where "real_value z v" "l \<le> v" "v \<le> h"
proof -
  obtain s a b s' a' b' where xy: "f32_exact x = ExRat s a b" "f32_exact y = ExRat s' a' b'"
    using assms(1,4) by (auto simp: real_value_def)
  have "\<exists>t c d. f32_exact z = ExRat t c d"
    using assms(2,3) by (cases "f32_exact z") (auto simp: f32_le_def xy)
  then obtain v where v: "real_value z v" using real_valueI by blast
  then show ?thesis using that real_value_le [OF assms(1) v] real_value_le [OF v assms(4)] assms(2,3) by blast
qed

lemma rounded_between:
  assumes "real_value x l" "real_value y h" "0 < b" "l \<le> rat_real s a b" "rat_real s a b \<le> h"
  obtains v where "real_value (f32_of (ExRat s a b)) v" "l \<le> v" "v \<le> h"
proof -
  obtain t c d t' c' d' where xy: "f32_exact x = ExRat t c d" "0 < d" "l = rat_real t c d"
    "f32_exact y = ExRat t' c' d'" "0 < d'" "h = rat_real t' c' d'"
    using assms(1,2) by (auto simp: real_value_def)
  have "f32_le (f32_of (f32_exact x)) (f32_of (ExRat s a b))" "f32_le (f32_of (ExRat s a b)) (f32_of (f32_exact y))"
    using assms(3-5) xy by (auto intro!: f32_of_mono simp: exact_le_rat simp del: exact_le.simps)
  moreover have "f32_of (f32_exact x) = x" "f32_of (f32_exact y) = y"
    by (rule f32_of_exact, simp add: xy)+
  ultimately show ?thesis using f32_le_finite [OF assms(1) _ _ assms(2)] that by metis
qed

lemma floor_usize_real:
  assumes "real_value x r" "real k \<le> r" "r < real k + 1" "k < 2 ^ 64"
  shows "f32_floor_usize x = k"
proof -
  obtain s a b where x: "f32_exact x = ExRat s a b" "0 < b" "r = rat_real s a b"
    using assms(1) by (auto simp: real_value_def)
  show ?thesis
  proof (cases s)
    case True
    then have "r = - (real a / real b)" using x by (simp add: rat_real_def sgn_of_def)
    moreover have "0 \<le> real a / real b" by simp
    ultimately have "k = 0" using assms(2) by linarith
    then show ?thesis using True by (simp add: f32_floor_usize_def x(1))
  next
    case False
    then have r: "r = real a / real b" using x(3) by (simp add: rat_real_def sgn_of_def)
    have "real k * real b \<le> real a" "real a < (real k + 1) * real b"
      using assms(2,3) x(2) unfolding r by (simp_all add: le_divide_eq divide_less_eq)
    then have "real (k * b) \<le> real a" "real a < real ((k + 1) * b)" by (simp_all add: algebra_simps)
    then have "k * b \<le> a" "a < (k + 1) * b" by (simp_all only: of_nat_le_iff of_nat_less_iff)
    then have "a div b = k" by (simp add: div_nat_eqI mult.commute)
    then show ?thesis using assms(4) False by (simp add: f32_floor_usize_def x(1))
  qed
qed

text \<open>\<open>i * (w - 1) / w\<close> in single precision lies in \<open>[i - 1, i)\<close> for windows up to 4096 frames.\<close>

lemma window_quotient:
  assumes "0 < i" "i < w" "w \<le> 4096"
  obtains v where "real_value (f32_div (f32_mul (f32_of_nat i) (f32_of_nat (w - 1))) (f32_of_nat w)) v"
    "real (i - 1) \<le> v" "v < real i"
proof -
  have small: "i * (w - 1) < 2 ^ 24"
  proof -
    have "i * (w - 1) \<le> 4095 * 4095" using assms by (intro mult_mono) simp_all
    then show ?thesis by simp
  qed
  from assms have i: "real_value (f32_of_nat i) (real i)" "real_value (f32_of_nat (w - 1)) (real (w - 1))"
    "real_value (f32_of_nat w) (real w)" "real_value (f32_of_nat (i - 1)) (real (i - 1))"
    by (intro f32_of_nat_real; simp)+
  from f32_mul_real [OF i(1,2)] obtain s a b where
    mul: "f32_mul (f32_of_nat i) (f32_of_nat (w - 1)) = f32_of (ExRat s a b)" "0 < b" "rat_real s a b = real i * real (w - 1)" .
  have "0 < real i * real (w - 1)" using assms by simp
  moreover have "0 \<le> real a / real b" by simp
  moreover have "rat_real s a b = - (real a / real b)" if s using that by (simp add: rat_real_def sgn_of_def)
  ultimately have "\<not> s" using mul(3) by linarith
  then have "real a / real b = real (i * (w - 1)) * 2 powi 0" "s = False"
    using mul(3) by (simp_all add: rat_real_def sgn_of_def)
  then have prod: "real_value (f32_mul (f32_of_nat i) (f32_of_nat (w - 1))) (real (i * (w - 1)))"
    using f32_grid [OF small _ _ mul(2), of 0 a] mul(1) by simp
  have w: "real w \<noteq> 0" using assms by simp
  from f32_div_real [OF prod i(3) w] obtain t c d where
    q: "f32_div (f32_mul (f32_of_nat i) (f32_of_nat (w - 1))) (f32_of_nat w) = f32_of (ExRat t c d)"
      "0 < d" "rat_real t c d = real (i * (w - 1)) / real w" .
  have val: "real (i * (w - 1)) / real w = real i - real i / real w"
    using assms by (simp add: field_simps of_nat_diff)
  have "real i / real w \<le> 1" using assms by simp
  then have low: "real (i - 1) \<le> rat_real t c d" unfolding q(3) val using assms by (simp add: of_nat_diff)
  have "real i / 4096 \<le> real i / real w" using assms by (intro divide_left_mono) simp_all
  moreover have "real (4095 * i) * 2 powi (- 12) = real i - real i / 4096" by (simp add: power_int_minus field_simps)
  ultimately have up: "rat_real t c d \<le> real (4095 * i) * 2 powi (- 12)" unfolding q(3) val by linarith
  have "4095 * i < 2 ^ 24" using assms by simp
  then have top: "real_value (f32_of (ExRat False (4095 * i) 4096)) (real (4095 * i) * 2 powi (- 12))"
    by (rule f32_grid) (simp_all add: power_int_minus)
  have "real (4095 * i) * 2 powi (- 12) < real i" using assms by (simp add: power_int_minus)
  moreover from rounded_between [OF i(4) top q(2) low up] obtain v where
    "real_value (f32_of (ExRat t c d)) v" "real (i - 1) \<le> v" "v \<le> real (4095 * i) * 2 powi (- 12)" .
  ultimately show ?thesis using that [of v] unfolding q(1) by linarith
qed

end
