(* ===== verification/Duplex_Read.thy ===== *)
theory Duplex_Read
  imports Duplex_Bridge Float_Grid
begin

text \<open>
  What the consumer of the duplex bridge plays: the ring as a queue of samples, the reading loops
  on it, and the three corrections as functions of the queue.
\<close>

section \<open>The ring as a queue\<close>

text \<open>\<open>ring_rep r H q\<close>: after \<open>H\<close> pushed samples the ring holds the queue \<open>q\<close>.\<close>

definition ring_rep :: "spsc_ring \<Rightarrow> nat \<Rightarrow> f32 list \<Rightarrow> bool" where
  "ring_rep r H q \<longleftrightarrow> (\<exists>T. ring_holds r H T \<and> ring_queue r H T = q)"

lemma rep_bounds:
  assumes "ring_rep r H q"
  shows "length q \<le> length (ring_slots r)" "length (ring_slots r) < 2 ^ 64" "length q \<le> H"
    "unat (ring_head r - ring_tail r) = length q" "unat (ring_len_samples r) = length q"
    "unat (ring_capacity r) = length (ring_slots r)"
    "unat (saturating_sub (ring_capacity r) (ring_len_samples r)) = length (ring_slots r) - length q"
proof -
  obtain T where h: "ring_holds r H T" and q: "ring_queue r H T = q" using assms by (auto simp: ring_rep_def)
  have l: "length q = H - T" unfolding q [symmetric] by (simp add: ring_queue_def)
  show b: "length q \<le> length (ring_slots r)" "length (ring_slots r) < 2 ^ 64" "length q \<le> H"
    using h l by (auto simp: ring_holds_def Let_def)
  show d: "unat (ring_head r - ring_tail r) = length q" using ring_avail(1) [OF h] l by simp
  show cap: "unat (ring_capacity r) = length (ring_slots r)"
    using b(2) by (simp add: ring_capacity_def unat_of_nat)
  show len: "unat (ring_len_samples r) = length q"
    using b d cap by (simp add: ring_len_samples_def min_def word_le_nat_alt)
  show "unat (saturating_sub (ring_capacity r) (ring_len_samples r)) = length (ring_slots r) - length q"
    by (simp add: unat_saturating_sub cap len)
qed

lemma rep_pop:
  assumes "ring_rep r H q" "length out \<le> length q"
  obtains r' where "try_pop_samples out r = (True, take (length out) q, r')"
    "peek_samples out r = (True, take (length out) q)"
    "discard_samples (of_nat (length out)) r = (True, r')"
    "ring_rep r' H (drop (length out) q)" "ring_slots r' = ring_slots r"
proof -
  obtain T where h: "ring_holds r H T" and q: "ring_queue r H T = q" using assms by (auto simp: ring_rep_def)
  have "T + length out \<le> H" using h assms(2) q by (auto simp: ring_queue_def ring_holds_def Let_def)
  from ring_pop_ok [OF h this] show ?thesis using that by (metis ring_rep_def q)
qed

lemma rep_discard:
  assumes "ring_rep r H q" "unat n \<le> length q"
  obtains r' where "discard_samples n r = (True, r')" "ring_rep r' H (drop (unat n) q)" "ring_slots r' = ring_slots r"
  using rep_pop [OF assms(1), of "replicate (unat n) 0"] assms(2) by auto

lemma rep_short:
  assumes "ring_rep r H q" "length q < length out" "length out < 2 ^ 64"
  shows "try_pop_samples out r = (False, out, r)" "peek_samples out r = (False, out)"
  using assms(2,3) rep_bounds(4) [OF assms(1)]
  by (auto simp: try_pop_samples_def peek_samples_def Let_def less_of_nat_usize)

lemma rep_push:
  assumes "ring_rep r H q" "length q + length xs \<le> length (ring_slots r)"
    "length (ring_slots r) dvd 2 ^ 64 \<or> H + length xs \<le> 2 ^ 64"
  obtains r' where "try_push_samples xs r = (True, r')" "ring_rep r' (H + length xs) (q @ xs)"
    "length (ring_slots r') = length (ring_slots r)"
proof -
  obtain T where h: "ring_holds r H T" and q: "ring_queue r H T = q" using assms by (auto simp: ring_rep_def)
  have "H + length xs \<le> T + length (ring_slots r)"
    using h assms(2) q by (auto simp: ring_queue_def ring_holds_def Let_def)
  moreover have "wrap_safe (length (ring_slots r)) (H + length xs)" using assms(3) by (simp add: wrap_safe_def)
  ultimately show ?thesis using ring_push_ok [OF h] that by (metis ring_rep_def q)
qed

section \<open>The reading loops\<close>

lemma rep_discard_frames:
  assumes "ring_rep r H q" "consumed \<le> until" "(until - consumed) * unat channels \<le> length q"
  shows "\<exists>r'. discard_frames channels until consumed r = (True, until, r')
    \<and> ring_rep r' H (drop ((until - consumed) * unat channels) q) \<and> ring_slots r' = ring_slots r"
  using assms
proof (induction channels until consumed r arbitrary: q rule: discard_frames.induct)
  case (1 channels until consumed r)
  show ?case
  proof (cases "consumed < until")
    case True
    then have "until - consumed = Suc (until - Suc consumed)" by simp
    then have n: "(until - consumed) * unat channels = unat channels + (until - Suc consumed) * unat channels" by simp
    then have "unat channels \<le> length q" using "1.prems"(3) by linarith
    from rep_discard [OF "1.prems"(1) this] obtain r' where
      r': "discard_samples channels r = (True, r')" "ring_rep r' H (drop (unat channels) q)" "ring_slots r' = ring_slots r" .
    have "\<exists>r''. discard_frames channels until (Suc consumed) r' = (True, until, r'')
        \<and> ring_rep r'' H (drop ((until - Suc consumed) * unat channels) (drop (unat channels) q))
        \<and> ring_slots r'' = ring_slots r'"
      using "1.prems"(3) True r' n by (intro "1.IH") auto
    then show ?thesis using True r' n by (subst discard_frames.simps) (simp add: add.commute)
  next
    case False
    then show ?thesis using "1.prems" by (subst discard_frames.simps) simp
  qed
qed

lemma chunks_exact_Nil: "chunks_exact n [] = []"
  by (subst chunks_exact.simps) auto

lemma chunks_exact_multiple:
  "0 < n \<Longrightarrow> length xs = k * n \<Longrightarrow>
     length (chunks_exact n xs) = k \<and> (\<forall>f\<in>set (chunks_exact n xs). length f = n) \<and> concat (chunks_exact n xs) = xs"
proof (induction k arbitrary: xs)
  case (Suc k)
  then have "chunks_exact n xs = take n xs # chunks_exact n (drop n xs)" by (subst chunks_exact.simps) simp
  then show ?case using Suc.IH [of "drop n xs"] Suc.prems by simp
qed (simp add: chunks_exact_Nil)

lemma rep_pop_frames:
  assumes "ring_rep r H q" "\<forall>f\<in>set frames. length f = c" "length frames * c \<le> length q"
  shows "\<exists>fs r'. pop_frames frames r = (Some fs, r') \<and> concat fs = take (length frames * c) q
    \<and> ring_rep r' H (drop (length frames * c) q) \<and> ring_slots r' = ring_slots r"
  using assms
proof (induction frames arbitrary: r q)
  case (Cons f frames)
  then have "length f = c" "length f \<le> length q" by simp_all
  from rep_pop [OF Cons.prems(1) this(2)] obtain r' where
    r': "try_pop_samples f r = (True, take c q, r')" "ring_rep r' H (drop c q)" "ring_slots r' = ring_slots r"
    using \<open>length f = c\<close> by metis
  have "\<forall>g\<in>set frames. length g = c" "length frames * c \<le> length (drop c q)" using Cons.prems by auto
  from Cons.IH [OF r'(2) this] obtain fs r'' where
    "pop_frames frames r' = (Some fs, r'')" "concat fs = take (length frames * c) (drop c q)"
    "ring_rep r'' H (drop (length frames * c) (drop c q))" "ring_slots r'' = ring_slots r'" by blast
  then show ?case using r' by (simp add: take_add add.commute)
qed simp

section \<open>The windows\<close>

text \<open>The interpolated frames as functions of the queue.\<close>

definition neighbours :: "nat \<Rightarrow> f32 list \<Rightarrow> nat \<Rightarrow> f32 list" where
  "neighbours c q j = take (2 * c) (drop (j * c) q)"

definition inserted_frame :: "nat \<Rightarrow> nat \<Rightarrow> f32 list \<Rightarrow> nat \<Rightarrow> f32 list" where
  "inserted_frame w c q i =
     blend_frame c (f32_sub (source_position w i) (f32_of_nat (i - 1))) (neighbours c q (i - 1)) c"

definition removed_frame :: "nat \<Rightarrow> nat \<Rightarrow> f32 list \<Rightarrow> nat \<Rightarrow> f32 list" where
  "removed_frame w c q i =
     blend_frame c (f32_div (f32_of_nat (i + 1)) (f32_of_nat (w + 1))) (neighbours c q i) c"

lemma length_blend [simp]: "length (blend_frame n a p c) = n"
  by (simp add: blend_frame_def)

lemma source_floor:
  assumes "i < w" "2 \<le> w" "w \<le> 4096"
  shows "f32_floor_usize (source_position w i) = i - 1"
proof (cases "i = 0")
  case True
  have w: "real_value (f32_of_nat w) (real w)" "real_value (f32_of_nat (w - 1)) (real (w - 1))" "real_value (f32_of_nat 0) 0"
    using assms f32_of_nat_real [of w] f32_of_nat_real [of "w - 1"] f32_of_nat_real [of 0] by simp_all
  have zero: "real_value (f32_of (ExRat s a b)) 0" if "0 < b" "rat_real s a b = 0" for s a b
    using rounded_between [OF real_value_constants(1,1) that(1), of s a] that(2) by force
  from f32_mul_real [OF w(3,2)] obtain s a b where
    "f32_mul (f32_of_nat 0) (f32_of_nat (w - 1)) = f32_of (ExRat s a b)" "0 < b" "rat_real s a b = 0" by auto
  then have m: "real_value (f32_mul (f32_of_nat 0) (f32_of_nat (w - 1))) 0" using zero by metis
  from f32_div_real [OF m w(1)] obtain s a b where
    "f32_div (f32_mul (f32_of_nat 0) (f32_of_nat (w - 1))) (f32_of_nat w) = f32_of (ExRat s a b)" "0 < b" "rat_real s a b = 0"
    using assms by auto
  then have "real_value (source_position w 0) 0" unfolding source_position_def using zero by metis
  from floor_usize_real [OF this, of 0] show ?thesis using True by simp
next
  case False
  then have i: "0 < i" by simp
  from window_quotient [OF i assms(1,3)] obtain v where
    v: "real_value (source_position w i) v" "real (i - 1) \<le> v" "v < real i" unfolding source_position_def .
  show ?thesis using i assms v(3) by (intro floor_usize_real [OF v(1,2)]) (simp_all add: of_nat_diff)
qed

lemma rep_peek:
  assumes "ring_rep r H (drop (j * c) q)" "length buf = 2 * c"
  shows "(j + 2) * c \<le> length q \<Longrightarrow> peek_samples buf r = (True, neighbours c q j)"
    and "length q < (j + 2) * c \<Longrightarrow> 2 * c < 2 ^ 64 \<Longrightarrow> peek_samples buf r = (False, buf)"
proof -
  assume "(j + 2) * c \<le> length q"
  then have "length buf \<le> length (drop (j * c) q)" using assms(2) by (simp add: add_mult_distrib)
  then show "peek_samples buf r = (True, neighbours c q j)"
    using rep_pop [OF assms(1)] assms(2) by (metis neighbours_def)
next
  assume "length q < (j + 2) * c" "2 * c < 2 ^ 64"
  moreover from this(1) have "0 < c" by (cases c) simp_all
  ultimately have "length (drop (j * c) q) < length buf" using assms(2) by (simp add: add_mult_distrib)
  then show "peek_samples buf r = (False, buf)"
    using rep_short(2) [OF assms(1)] assms(2) \<open>2 * c < 2 ^ 64\<close> by simp
qed

lemma neighbours_length: "(j + 2) * c \<le> length q \<Longrightarrow> length (neighbours c q j) = 2 * c"
  by (simp add: neighbours_def add_mult_distrib)

lemma insertion_discard:
  assumes "ring_rep r H (drop ((k - 2) * unat channels) q)" "(k - 1) * unat channels \<le> length q"
  obtains r' where "discard_frames channels (k - 1) (k - 2) r = (True, k - 1, r')"
    "ring_rep r' H (drop ((k - 1) * unat channels) q)" "ring_slots r' = ring_slots r"
proof -
  let ?c = "unat channels"
  have "k - 1 - (k - 2) + (k - 2) = k - 1" by linarith
  then have n: "(k - 1 - (k - 2)) * ?c + (k - 2) * ?c = (k - 1) * ?c"
    by (simp only: add_mult_distrib [symmetric])
  have "\<exists>r'. discard_frames channels (k - 1) (k - 2) r = (True, k - 1, r')
      \<and> ring_rep r' H (drop ((k - 1 - (k - 2)) * ?c) (drop ((k - 2) * ?c) q)) \<and> ring_slots r' = ring_slots r"
    using assms(2) n by (intro rep_discard_frames [OF assms(1)]) simp_all
  then show ?thesis using that unfolding drop_drop n by blast
qed

lemma insertion_window_ok:
  assumes w: "2 \<le> w" "w \<le> 4096" and q: "w * unat channels \<le> length q"
  shows "k \<le> w \<Longrightarrow> ring_rep r H (drop ((k - 2) * unat channels) q) \<Longrightarrow> length buf = 2 * unat channels \<Longrightarrow>
    \<forall>f\<in>set frames. length f = unat channels \<Longrightarrow> w - k \<le> length frames \<Longrightarrow>
    \<exists>buf' r'. insertion_window channels w [k..<w] frames (k - 2) buf r
        = (Some (map (inserted_frame w (unat channels) q) [k..<w], drop (w - k) frames), w - 2, buf', r')
      \<and> length buf' = 2 * unat channels \<and> ring_rep r' H (drop ((w - 2) * unat channels) q) \<and> ring_slots r' = ring_slots r"
proof (induction "w - k" arbitrary: k r buf frames)
  case (Suc n)
  let ?c = "unat channels"
  have k: "k < w" "n = w - Suc k" using Suc.hyps(2) by simp_all
  have "(k - 1 + 2) * ?c \<le> w * ?c" using k w by (intro mult_right_mono) simp_all
  then have room: "(k - 1 + 2) * ?c \<le> length q" using q by linarith
  then have "(k - 1) * ?c \<le> length q" by (simp add: add_mult_distrib)
  from insertion_discard [OF Suc.prems(2) this] obtain r1 where
    r1: "discard_frames channels (k - 1) (k - 2) r = (True, k - 1, r1)" "ring_rep r1 H (drop ((k - 1) * ?c) q)" "ring_slots r1 = ring_slots r" .
  note peek = rep_peek(1) [OF r1(2) Suc.prems(3) room]
  obtain f rest where fr: "frames = f # rest" using Suc.prems(5) k by (cases frames) auto
  have "Suc k \<le> w" "ring_rep r1 H (drop ((Suc k - 2) * ?c) q)" "length (neighbours ?c q (k - 1)) = 2 * ?c"
    "\<forall>g\<in>set rest. length g = ?c" "w - Suc k \<le> length rest"
    using k r1(2) neighbours_length [OF room] Suc.prems(4,5) fr by simp_all
  from Suc.hyps(1) [OF k(2) this] obtain buf' r' where
    "insertion_window channels w [Suc k..<w] rest (Suc k - 2) (neighbours ?c q (k - 1)) r1
        = (Some (map (inserted_frame w ?c q) [Suc k..<w], drop (w - Suc k) rest), w - 2, buf', r')"
    "length buf' = 2 * ?c" "ring_rep r' H (drop ((w - 2) * ?c) q)" "ring_slots r' = ring_slots r1" by blast
  moreover have "[k..<w] = k # [Suc k..<w]" using k by (simp add: upt_conv_Cons)
  moreover have "drop (w - k) frames = drop (w - Suc k) rest" using k fr by (simp add: drop_Cons')
  ultimately show ?case
    using source_floor [OF k(1) w] r1 peek fr Suc.prems(4) by (simp add: inserted_frame_def Let_def)
qed simp

lemma insertion_window_short:
  assumes w: "2 \<le> w" "w \<le> 4096" and q: "(w - 1) * unat channels \<le> length q" "length q < w * unat channels"
    and c: "2 * unat channels < 2 ^ 64"
  shows "k < w \<Longrightarrow> ring_rep r H (drop ((k - 2) * unat channels) q) \<Longrightarrow> length buf = 2 * unat channels \<Longrightarrow>
    \<forall>f\<in>set frames. length f = unat channels \<Longrightarrow> w - k \<le> length frames \<Longrightarrow>
    \<exists>buf' r'. insertion_window channels w [k..<w] frames (k - 2) buf r = (None, w - 2, buf', r')
      \<and> length buf' = 2 * unat channels \<and> ring_rep r' H (drop ((w - 2) * unat channels) q) \<and> ring_slots r' = ring_slots r"
proof (induction "w - k" arbitrary: k r buf frames)
  case (Suc n)
  let ?c = "unat channels"
  have k: "k < w" "n = w - Suc k" using Suc.hyps(2) by simp_all
  have c0: "0 < ?c" using q by (cases ?c) simp_all
  have "(k - 1) * ?c \<le> (w - 1) * ?c" using k by (intro mult_right_mono) simp_all
  then have "(k - 1) * ?c \<le> length q" using q by linarith
  from insertion_discard [OF Suc.prems(2) this] obtain r1 where
    r1: "discard_frames channels (k - 1) (k - 2) r = (True, k - 1, r1)" "ring_rep r1 H (drop ((k - 1) * ?c) q)" "ring_slots r1 = ring_slots r" .
  have cons: "[k..<w] = k # [Suc k..<w]" using k by (simp add: upt_conv_Cons)
  show ?case
  proof (cases "length q < (k - 1 + 2) * ?c")
    case True
    have "(w - 1) * ?c < (k - 1 + 2) * ?c" using True q(1) by linarith
    then have "w - 1 < k - 1 + 2" by (simp only: mult_less_cancel2)
    then have "k - 1 = w - 2" using k w by linarith
    then show ?thesis
      using source_floor [OF k(1) w] r1 rep_peek(2) [OF r1(2) Suc.prems(3) True c] Suc.prems(3)
      by (simp add: cons Let_def)
  next
    case False
    then have room: "(k - 1 + 2) * ?c \<le> length q" by simp
    then have "(k - 1 + 2) * ?c < w * ?c" using q(2) by linarith
    then have "k - 1 + 2 < w" by (simp only: mult_less_cancel2)
    then have sk: "Suc k < w" by linarith
    obtain f rest where fr: "frames = f # rest" using Suc.prems(5) k by (cases frames) auto
    have "ring_rep r1 H (drop ((Suc k - 2) * ?c) q)" "length (neighbours ?c q (k - 1)) = 2 * ?c"
      "\<forall>g\<in>set rest. length g = ?c" "w - Suc k \<le> length rest"
      using r1(2) neighbours_length [OF room] Suc.prems(4,5) fr by simp_all
    from Suc.hyps(1) [OF k(2) sk this] obtain buf' r' where
      "insertion_window channels w [Suc k..<w] rest (Suc k - 2) (neighbours ?c q (k - 1)) r1 = (None, w - 2, buf', r')"
      "length buf' = 2 * ?c" "ring_rep r' H (drop ((w - 2) * ?c) q)" "ring_slots r' = ring_slots r1" by blast
    then show ?thesis
      using source_floor [OF k(1) w] r1 rep_peek(1) [OF r1(2) Suc.prems(3) room] fr by (simp add: cons Let_def)
  qed
qed simp

lemma removal_window_ok:
  assumes q: "(w + 1) * unat channels \<le> length q"
  shows "k \<le> w \<Longrightarrow> ring_rep r H (drop (k * unat channels) q) \<Longrightarrow> length buf = 2 * unat channels \<Longrightarrow>
    \<forall>f\<in>set frames. length f = unat channels \<Longrightarrow> w - k \<le> length frames \<Longrightarrow>
    \<exists>buf' r'. removal_window channels w [k..<w] frames buf r
        = (Some (map (removed_frame w (unat channels) q) [k..<w], drop (w - k) frames), buf', r')
      \<and> length buf' = 2 * unat channels \<and> ring_rep r' H (drop (w * unat channels) q) \<and> ring_slots r' = ring_slots r"
proof (induction "w - k" arbitrary: k r buf frames)
  case (Suc n)
  let ?c = "unat channels"
  have k: "k < w" "n = w - Suc k" using Suc.hyps(2) by simp_all
  have "(k + 2) * ?c \<le> (w + 1) * ?c" using k by (intro mult_right_mono) simp_all
  then have room: "(k + 2) * ?c \<le> length q" using q by linarith
  then have "?c \<le> length (drop (k * ?c) q)" by (simp add: add_mult_distrib)
  from rep_discard [OF Suc.prems(2) this] obtain r1 where
    r1: "discard_samples channels r = (True, r1)" "ring_rep r1 H (drop (Suc k * ?c) q)" "ring_slots r1 = ring_slots r"
    by auto
  obtain f rest where fr: "frames = f # rest" using Suc.prems(5) k by (cases frames) auto
  have "Suc k \<le> w" "length (neighbours ?c q k) = 2 * ?c" "\<forall>g\<in>set rest. length g = ?c" "w - Suc k \<le> length rest"
    using k neighbours_length [OF room] Suc.prems(4,5) fr by simp_all
  from Suc.hyps(1) [OF k(2) this(1) r1(2) this(2-4)] obtain buf' r' where
    "removal_window channels w [Suc k..<w] rest (neighbours ?c q k) r1
        = (Some (map (removed_frame w ?c q) [Suc k..<w], drop (w - Suc k) rest), buf', r')"
    "length buf' = 2 * ?c" "ring_rep r' H (drop (w * ?c) q)" "ring_slots r' = ring_slots r1" by blast
  moreover have "[k..<w] = k # [Suc k..<w]" using k by (simp add: upt_conv_Cons)
  moreover have "drop (w - k) frames = drop (w - Suc k) rest" using k fr by (simp add: drop_Cons')
  ultimately show ?case
    using r1 rep_peek(1) [OF Suc.prems(2,3) room] fr Suc.prems(4) by (simp add: removed_frame_def Let_def)
qed simp

section \<open>The corrections\<close>

text \<open>
  What a read of \<open>n\<close> frames of \<open>c\<close> samples plays from the queue \<open>q\<close>, and the queue it
  leaves.  \<open>None\<close> is silence: a smoothed insertion peeks one frame more than it consumes, so it
  fails on the last frames of the queue, after having discarded some.
\<close>

definition insertion_span :: "correction_transition \<Rightarrow> nat \<Rightarrow> nat \<Rightarrow> nat" where
  "insertion_span tr window n = max (min (if tr = TrCrossfade then window else 2) n) 2"

definition removal_span :: "correction_transition \<Rightarrow> nat \<Rightarrow> nat \<Rightarrow> nat" where
  "removal_span tr window n = max (min (if tr = TrCrossfade then window else 1) n) 1"

definition insertion_play :: "correction_transition \<Rightarrow> nat \<Rightarrow> nat \<Rightarrow> nat \<Rightarrow> f32 list \<Rightarrow> f32 list \<Rightarrow> f32 list option \<times> f32 list" where
  "insertion_play tr window c n previous q =
     (if tr = TrRaw then (Some (previous @ take ((n - 1) * c) q), drop ((n - 1) * c) q)
      else if n < 2 then (Some previous, q)
      else let w = insertion_span tr window n in
        if length q < w * c then (None, drop ((w - 2) * c) q)
        else (Some (concat (map (inserted_frame w c q) [0..<w]) @ take ((n - w) * c) (drop ((w - 1) * c) q)),
              drop ((n - 1) * c) q))"

definition removal_play :: "correction_transition \<Rightarrow> nat \<Rightarrow> nat \<Rightarrow> nat \<Rightarrow> f32 list \<Rightarrow> f32 list option \<times> f32 list" where
  "removal_play tr window c n q =
     (if tr = TrRaw then (Some (take (n * c) (drop c q)), drop ((n + 1) * c) q)
      else let w = removal_span tr window n in
        (Some (concat (map (removed_frame w c q) [0..<w]) @ take ((n - w) * c) (drop ((w + 1) * c) q)),
         drop ((n + 1) * c) q))"

fun corrected_play :: "correction_transition \<Rightarrow> nat \<Rightarrow> nat \<Rightarrow> nat \<Rightarrow> f32 list \<Rightarrow> f32 list \<Rightarrow> drift_correction
    \<Rightarrow> f32 list option \<times> f32 list" where
  "corrected_play tr window c n previous q CorrectNone = (Some (take (n * c) q), drop (n * c) q)"
| "corrected_play tr window c n previous q CorrectInsert = insertion_play tr window c n previous q"
| "corrected_play tr window c n previous q CorrectRemove = removal_play tr window c n q"

lemma frames_word:
  assumes "length out = n * unat channels" "length out < 2 ^ 64" "0 < unat channels"
  shows "of_nat (length out) div channels = (of_nat n :: usize)" "unat (of_nat n :: usize) = n"
    "of_nat (length out) mod channels = (0 :: usize)"
proof -
  have "n * 1 \<le> n * unat channels" using assms(3) by (intro mult_left_mono) simp_all
  then have n: "n < 2 ^ 64" using assms by linarith
  then show u: "unat (of_nat n :: usize) = n" by (simp add: unat_of_nat)
  have o: "unat (of_nat (length out) :: usize) = length out" using assms(2) by (simp add: unat_of_nat)
  show "of_nat (length out) div channels = (of_nat n :: usize)"
    by (rule word_unat_eq_iff [THEN iffD2]) (simp only: unat_div o u, simp add: assms(1,3))
  show "of_nat (length out) mod channels = (0 :: usize)"
    by (rule word_unat_eq_iff [THEN iffD2]) (simp only: unat_mod o, simp add: assms(1))
qed

text \<open>The buffers of a consumer have the shape of the configuration.\<close>

definition consumer_shape :: "usize \<Rightarrow> 'c duplex_consumer \<Rightarrow> bool" where
  "consumer_shape channels d \<longleftrightarrow> 0 < unat channels \<and> 2 * unat channels < 2 ^ 64
     \<and> length (dc_last_frame d) = unat channels \<and> length (dc_peek_frame d) = unat channels
     \<and> length (dc_transition_frames d) = 2 * unat channels"

definition retuned :: "usize \<Rightarrow> 'c duplex_consumer \<Rightarrow> 'c duplex_consumer \<Rightarrow> bool" where
  "retuned channels d d' \<longleftrightarrow> (\<exists>buf. d' = d\<lparr>dc_transition_frames := buf\<rparr> \<and> length buf = 2 * unat channels)"

lemma retuned_refl: "consumer_shape channels d \<Longrightarrow> retuned channels d d"
  unfolding retuned_def consumer_shape_def by (rule exI [of _ "dc_transition_frames d"]) simp

lemma retuned_update: "length buf = 2 * unat channels \<Longrightarrow> retuned channels d (d\<lparr>dc_transition_frames := buf\<rparr>)"
  unfolding retuned_def by blast

lemma smoothed_insertion:
  assumes r: "ring_rep r H q" and d: "consumer_shape channels d"
    and out: "length out = n * unat channels" "length out < 2 ^ 64" "0 < n"
    and q: "(n - 1) * unat channels \<le> length q" and req: "unat req \<le> 4096"
    and tr: "tr \<noteq> TrRaw" "unat req = (if tr = TrCrossfade then window else 2)"
  shows "\<exists>d' r'. render_smoothed_insertion channels req out d r
      = (Ok (fst (insertion_play tr window (unat channels) n (dc_last_frame d) q)), d', r')
    \<and> ring_rep r' H (snd (insertion_play tr window (unat channels) n (dc_last_frame d) q))
    \<and> retuned channels d d' \<and> ring_slots r' = ring_slots r"
proof -
  let ?c = "unat channels"
  have c: "0 < ?c" "2 * ?c < 2 ^ 64" "length (dc_last_frame d) = ?c" "length (dc_transition_frames d) = 2 * ?c"
    using d by (simp_all add: consumer_shape_def)
  note fw = frames_word [OF out(1,2) c(1)]
  note chunks = chunks_exact_multiple [OF c(1) out(1)]
  have small: "(of_nat n :: usize) < 2 \<longleftrightarrow> n < 2" by (simp add: word_less_nat_alt fw(2))
  show ?thesis
  proof (cases "n < 2")
    case True
    then have "n = 1" using out(3) by simp
    then have l: "length out = length (dc_last_frame d)" using out c by simp
    have "render_smoothed_insertion channels req out d r
        = (if length out \<noteq> length (dc_last_frame d) then Panic else Ok (Some (dc_last_frame d)), d, r)"
      using True by (simp add: render_smoothed_insertion_def fw(1) small)
    then show ?thesis using tr(1) r l True retuned_refl [OF d]
      by (intro exI [of _ d] exI [of _ r]) (simp add: insertion_play_def)
  next
    case False
    define w where "w = unat (max (min req (of_nat n)) 2 :: usize)"
    have w_eq: "w = insertion_span tr window n"
      unfolding w_def insertion_span_def tr(2) [symmetric]
      using fw(2) by (auto simp: max_def min_def word_le_nat_alt)
    have w: "2 \<le> w" "w \<le> 4096" "w \<le> n"
      unfolding w_eq insertion_span_def using False req tr(2) by auto
    have base: "ring_rep r H (drop ((0 - 2) * ?c) q)" using r by simp
    have shape: "\<forall>f\<in>set (chunks_exact ?c out). length f = ?c" "w - 0 \<le> length (chunks_exact ?c out)"
      using chunks w(3) by simp_all
    have div: "render_smoothed_insertion channels req out d r =
        (case insertion_window channels w [0..<w] (chunks_exact ?c out) 0 (dc_transition_frames d) r of
          (None, _, buf, r1) \<Rightarrow> (Ok None, d\<lparr>dc_transition_frames := buf\<rparr>, r1)
        | (Some (played, rest), consumed, buf, r1) \<Rightarrow>
            (case discard_frames channels (w - 1) consumed r1 of
               (False, _, r2) \<Rightarrow> (Ok None, d\<lparr>dc_transition_frames := buf\<rparr>, r2)
             | (True, _, r2) \<Rightarrow>
                 (case pop_frames rest r2 of
                    (fs, r3) \<Rightarrow> (Ok (map_option (\<lambda>fs. concat (played @ fs)) fs),
                                 d\<lparr>dc_transition_frames := buf\<rparr>, r3))))"
      unfolding render_smoothed_insertion_def fw(1) Let_def w_def small using False by (simp only: if_False)
    show ?thesis
    proof (cases "length q < w * ?c")
      case True
      have "(w - 1) * ?c \<le> (n - 1) * ?c" using w by (intro mult_right_mono) simp_all
      then have "(w - 1) * ?c \<le> length q" using q by linarith
      from insertion_window_short [OF w(1,2) this True c(2) _ base c(4) shape] w(1)
      obtain buf r' where "insertion_window channels w [0..<w] (chunks_exact ?c out) 0 (dc_transition_frames d) r = (None, w - 2, buf, r')"
        "length buf = 2 * ?c" "ring_rep r' H (drop ((w - 2) * ?c) q)" "ring_slots r' = ring_slots r" by auto
      then show ?thesis
        using True False tr(1) retuned_update by (simp add: div insertion_play_def Let_def w_eq [symmetric])
    next
      case wq: False
      then have "w * ?c \<le> length q" by simp
      from insertion_window_ok [OF w(1,2) this _ base c(4) shape]
      obtain buf r1 where win: "insertion_window channels w [0..<w] (chunks_exact ?c out) 0 (dc_transition_frames d) r
          = (Some (map (inserted_frame w ?c q) [0..<w], drop w (chunks_exact ?c out)), w - 2, buf, r1)"
        "length buf = 2 * ?c" "ring_rep r1 H (drop ((w - 2) * ?c) q)" "ring_slots r1 = ring_slots r" by auto
      have "w - 1 = Suc (w - 2)" using w(1) by linarith
      then have one: "(w - 1 - (w - 2)) * ?c + (w - 2) * ?c = (w - 1) * ?c"
        using w(1) by (simp only: add_mult_distrib [symmetric]) simp
      have "(w - 1) * ?c \<le> w * ?c" by (intro mult_right_mono) simp_all
      then have "(w - 1 - (w - 2)) * ?c \<le> length (drop ((w - 2) * ?c) q)"
        unfolding length_drop using wq one by linarith
      from rep_discard_frames [OF win(3) diff_le_mono2 this] obtain r2 where
        r2: "discard_frames channels (w - 1) (w - 2) r1 = (True, w - 1, r2)" "ring_rep r2 H (drop ((w - 1) * ?c) q)"
          "ring_slots r2 = ring_slots r1"
        unfolding drop_drop one by auto
      have len: "length (drop w (chunks_exact ?c out)) = n - w" using chunks by simp
      have n1: "(n - w) * ?c + (w - 1) * ?c = (n - 1) * ?c"
        using w(1,3) by (simp only: add_mult_distrib [symmetric]) simp
      have fs: "\<forall>f\<in>set (drop w (chunks_exact ?c out)). length f = ?c" using chunks by (auto dest: in_set_dropD)
      have "length (drop w (chunks_exact ?c out)) * ?c \<le> length (drop ((w - 1) * ?c) q)"
        unfolding len unfolding length_drop using q n1 by linarith
      from rep_pop_frames [OF r2(2) fs this] obtain fs r3 where
        "pop_frames (drop w (chunks_exact ?c out)) r2 = (Some fs, r3)"
        "concat fs = take ((n - w) * ?c) (drop ((w - 1) * ?c) q)" "ring_rep r3 H (drop ((n - 1) * ?c) q)"
        "ring_slots r3 = ring_slots r2"
        unfolding len drop_drop n1 by blast
      then show ?thesis
        using win r2 wq False tr(1) retuned_update
        by (simp add: div insertion_play_def Let_def w_eq [symmetric])
    qed
  qed
qed

lemma smoothed_removal:
  assumes r: "ring_rep r H q" and d: "consumer_shape channels d"
    and out: "length out = n * unat channels" "length out < 2 ^ 64" "0 < n"
    and q: "(n + 1) * unat channels \<le> length q"
    and tr: "tr \<noteq> TrRaw" "unat req = (if tr = TrCrossfade then window else 1)"
  shows "\<exists>d' r'. render_smoothed_removal channels req out d r
      = (fst (removal_play tr window (unat channels) n q), d', r')
    \<and> ring_rep r' H (snd (removal_play tr window (unat channels) n q))
    \<and> retuned channels d d' \<and> ring_slots r' = ring_slots r"
proof -
  let ?c = "unat channels"
  have c: "0 < ?c" "length (dc_transition_frames d) = 2 * ?c" using d by (simp_all add: consumer_shape_def)
  note fw = frames_word [OF out(1,2) c(1)]
  note chunks = chunks_exact_multiple [OF c(1) out(1)]
  define w where "w = unat (max (min req (of_nat n)) 1 :: usize)"
  have w_eq: "w = removal_span tr window n"
    unfolding w_def removal_span_def tr(2) [symmetric]
    using fw(2) by (auto simp: max_def min_def word_le_nat_alt)
  have w: "1 \<le> w" "w \<le> n" unfolding w_eq removal_span_def using out(3) by auto
  have base: "ring_rep r H (drop (0 * ?c) q)" using r by simp
  have shape: "\<forall>f\<in>set (chunks_exact ?c out). length f = ?c" "w - 0 \<le> length (chunks_exact ?c out)"
    using chunks w by simp_all
  have "(w + 1) * ?c \<le> (n + 1) * ?c" using w by (intro mult_right_mono) simp_all
  then have wq: "(w + 1) * ?c \<le> length q" using q by linarith
  from removal_window_ok [OF wq _ base c(2) shape]
  obtain buf r1 where win: "removal_window channels w [0..<w] (chunks_exact ?c out) (dc_transition_frames d) r
      = (Some (map (removed_frame w ?c q) [0..<w], drop w (chunks_exact ?c out)), buf, r1)"
    "length buf = 2 * ?c" "ring_rep r1 H (drop (w * ?c) q)" "ring_slots r1 = ring_slots r" by auto
  have "?c \<le> length (drop (w * ?c) q)" using wq by simp
  from rep_discard [OF win(3) this] obtain r2 where
    r2: "discard_samples channels r1 = (True, r2)" "ring_rep r2 H (drop ((w + 1) * ?c) q)" "ring_slots r2 = ring_slots r1"
    by auto
  have len: "length (drop w (chunks_exact ?c out)) = n - w" using chunks by simp
  have n1: "(n - w) * ?c + (w + 1) * ?c = (n + 1) * ?c"
    using w by (simp only: add_mult_distrib [symmetric]) simp
  have fs: "\<forall>f\<in>set (drop w (chunks_exact ?c out)). length f = ?c" using chunks by (auto dest: in_set_dropD)
  have "length (drop w (chunks_exact ?c out)) * ?c \<le> length (drop ((w + 1) * ?c) q)"
    unfolding len unfolding length_drop using q n1 by linarith
  from rep_pop_frames [OF r2(2) fs this] obtain fs r3 where
    "pop_frames (drop w (chunks_exact ?c out)) r2 = (Some fs, r3)"
    "concat fs = take ((n - w) * ?c) (drop ((w + 1) * ?c) q)" "ring_rep r3 H (drop ((n + 1) * ?c) q)"
    "ring_slots r3 = ring_slots r2"
    unfolding len drop_drop n1 by blast
  moreover have "render_smoothed_removal channels req out d r =
      (case removal_window channels w [0..<w] (chunks_exact ?c out) (dc_transition_frames d) r of
        (None, buf, r1) \<Rightarrow> (None, d\<lparr>dc_transition_frames := buf\<rparr>, r1)
      | (Some (played, rest), buf, r1) \<Rightarrow>
          (case discard_samples channels r1 of
             (False, r2) \<Rightarrow> (None, d\<lparr>dc_transition_frames := buf\<rparr>, r2)
           | (True, r2) \<Rightarrow>
               (case pop_frames rest r2 of
                  (fs, r3) \<Rightarrow> (map_option (\<lambda>fs. concat (played @ fs)) fs,
                               d\<lparr>dc_transition_frames := buf\<rparr>, r3))))"
    unfolding render_smoothed_removal_def fw(1) w_def Let_def ..
  ultimately show ?thesis
    using win r2 tr(1) retuned_update by (simp add: removal_play_def Let_def w_eq [symmetric])
qed

end
