(* ===== verification/Duplex_Flow.thy ===== *)
theory Duplex_Flow
  imports Duplex_Read
begin

text \<open>
  The duplex bridge under any sequence of callbacks: what a compensator promises, each read as a
  function of the queue, and the conservation of frames.
\<close>

section \<open>What a compensator promises\<close>

locale drift_compensator_laws =
  fixes V :: "'c drift_compensator" and valid :: "'c \<Rightarrow> bool"
  assumes select_valid: "valid k \<Longrightarrow> valid (snd (cp_select V x k))"
    and window_bound: "valid k \<Longrightarrow> unat (cp_window V k) \<le> 4096"
    and removal_fits: "valid k \<Longrightarrow> fst (cp_select V x k) = CorrectRemove \<Longrightarrow>
      unat (dx_output_frames x) < unat (dx_fill_frames x)"
    and insertion_fits: "valid k \<Longrightarrow> fst (cp_select V x k) = CorrectInsert \<Longrightarrow>
      unat (dx_output_frames x) \<le> unat (dx_fill_frames x) + 1"

definition threshold_valid :: "threshold_compensator \<Rightarrow> bool" where
  "threshold_valid k \<longleftrightarrow> unat (tc_window_frames k) \<le> 4096"

lemma saturating_successor: "w \<le> saturating_add v 1 \<Longrightarrow> unat (w :: usize) \<le> unat v + 1"
proof (cases "unat v + unat (1 :: usize) < 2 ^ 64")
  case True
  then have "unat (v + 1) = unat v + 1" using unat_add_no_overflow [of v 1] by simp
  moreover assume "w \<le> saturating_add v 1"
  ultimately show ?thesis using True by (simp add: saturating_add_def checked_add_def word_le_nat_alt)
next
  case False
  then show ?thesis using unsigned_less [of w, where ?'a = nat] by simp
qed

lemma threshold_parts:
  "cp_transition threshold_drift = tc_transition" "cp_window threshold_drift = tc_window_frames"
  by (simp_all add: threshold_drift_def)

interpretation threshold: drift_compensator_laws threshold_drift threshold_valid
proof
  fix k :: threshold_compensator and x :: drift_context
  show "threshold_valid k \<Longrightarrow> threshold_valid (snd (cp_select threshold_drift x k))"
    by (simp add: threshold_drift_def threshold_select_def Let_def)
  show "threshold_valid k \<Longrightarrow> unat (cp_window threshold_drift k) \<le> 4096"
    by (simp add: threshold_drift_def threshold_valid_def)
  show "unat (dx_output_frames x) < unat (dx_fill_frames x)" if "fst (cp_select threshold_drift x k) = CorrectRemove"
  proof -
    have "saturating_add (dx_target_fill_frames x) (dx_threshold_frames x)
        < saturating_sub (dx_fill_frames x) (dx_output_frames x)"
      using that by (simp add: threshold_drift_def threshold_select_def Let_def split: if_splits)
    then have "0 < unat (saturating_sub (dx_fill_frames x) (dx_output_frames x))" by (simp add: word_less_nat_alt)
    then show ?thesis by (simp add: unat_saturating_sub)
  qed
  show "unat (dx_output_frames x) \<le> unat (dx_fill_frames x) + 1" if "fst (cp_select threshold_drift x k) = CorrectInsert"
    using that by (intro saturating_successor)
      (simp add: threshold_drift_def threshold_select_def Let_def split: if_splits)
qed

section \<open>Status updates\<close>

lemma observe_fill_simps [simp]:
  "du_input_frames_received (observe_fill f t p s) = du_input_frames_received s"
  "du_output_frames_requested (observe_fill f t p s) = du_output_frames_requested s"
  "du_fill_frames (observe_fill f t p s) = f"
  "du_sample_slips_inserted (observe_fill f t p s) = du_sample_slips_inserted s"
  "du_sample_slips_removed (observe_fill f t p s) = du_sample_slips_removed s"
  "du_overflow_count (observe_fill f t p s) = du_overflow_count s"
  "du_underflow_count (observe_fill f t p s) = du_underflow_count s"
  "du_consecutive_underflows (observe_fill f t p s) = du_consecutive_underflows s"
  "du_consecutive_overflows (observe_fill f t p s) = du_consecutive_overflows s"
  by (simp_all add: observe_fill_def Let_def raise_health_def)

lemma observe_correction_simps [simp]:
  "du_input_frames_received (observe_correction p s) = du_input_frames_received s"
  "du_output_frames_requested (observe_correction p s) = du_output_frames_requested s"
  "du_sample_slips_inserted (observe_correction p s) = du_sample_slips_inserted s"
  "du_sample_slips_removed (observe_correction p s) = du_sample_slips_removed s"
  "du_overflow_count (observe_correction p s) = du_overflow_count s"
  "du_underflow_count (observe_correction p s) = du_underflow_count s"
  "du_consecutive_underflows (observe_correction p s) = du_consecutive_underflows s"
  "du_consecutive_overflows (observe_correction p s) = du_consecutive_overflows s"
  by (simp_all add: observe_correction_def Let_def raise_health_def)

lemma raise_health_simps [simp]:
  "du_input_frames_received (raise_health h s) = du_input_frames_received s"
  "du_output_frames_requested (raise_health h s) = du_output_frames_requested s"
  "du_fill_frames (raise_health h s) = du_fill_frames s"
  "du_sample_slips_inserted (raise_health h s) = du_sample_slips_inserted s"
  "du_sample_slips_removed (raise_health h s) = du_sample_slips_removed s"
  "du_overflow_count (raise_health h s) = du_overflow_count s"
  "du_underflow_count (raise_health h s) = du_underflow_count s"
  "du_consecutive_underflows (raise_health h s) = du_consecutive_underflows s"
  "du_consecutive_overflows (raise_health h s) = du_consecutive_overflows s"
  by (simp_all add: raise_health_def)

section \<open>A read as a function of the queue\<close>

lemma insertion_render:
  assumes r: "ring_rep (lk_queue l) H q" and d: "consumer_shape channels d"
    and out: "length out = n * unat channels" "length out < 2 ^ 64" "0 < n"
    and q: "(n - 1) * unat channels \<le> length q" and w: "unat (cp_window V (dc_compensator d)) \<le> 4096"
    and pl: "corrected_play (cp_transition V (dc_compensator d)) (unat (cp_window V (dc_compensator d)))
      (unat channels) n (dc_last_frame d) q CorrectInsert = (played, q')"
  obtains d' l' where "render_insertion V policy channels out d l = (Ok played, d', l')"
      "lk_status l' = (if played = None then lk_status l else observe_correction policy
        ((lk_status l)\<lparr>du_sample_slips_inserted := du_sample_slips_inserted (lk_status l) + 1\<rparr>))"
    "ring_rep (lk_queue l') H q'" "retuned channels d d'" "ring_slots (lk_queue l') = ring_slots (lk_queue l)"
proof -
  let ?s = "if played = None then lk_status l else observe_correction policy
        ((lk_status l)\<lparr>du_sample_slips_inserted := du_sample_slips_inserted (lk_status l) + 1\<rparr>)"
  let ?tr = "cp_transition V (dc_compensator d)" and ?w = "cp_window V (dc_compensator d)"
  have stat: "(case res of Ok (Some _) \<Rightarrow> let s = lk_status l in
        observe_correction policy (s\<lparr>du_sample_slips_inserted := du_sample_slips_inserted s + 1\<rparr>)
      | _ \<Rightarrow> lk_status l) = (if played = None then lk_status l else observe_correction policy
        ((lk_status l)\<lparr>du_sample_slips_inserted := du_sample_slips_inserted (lk_status l) + 1\<rparr>))"
    if "res = Ok played" for res :: "(f32 list option, unit) outcome"
    unfolding that by (cases played) (simp_all add: Let_def)
  show ?thesis
  proof (cases "?tr = TrRaw")
    case True
    have c: "unat channels \<le> length out" "length (dc_last_frame d) = unat channels"
      "length (drop (unat channels) out) = (n - 1) * unat channels"
      using out d by (cases n; simp add: consumer_shape_def)+
    from rep_pop [OF r, of "drop (unat channels) out"] c q obtain r' where
      "try_pop_samples (drop (unat channels) out) (lk_queue l) = (True, take ((n - 1) * unat channels) q, r')"
      "ring_rep r' H (drop ((n - 1) * unat channels) q)" "ring_slots r' = ring_slots (lk_queue l)" by metis
    moreover have "played = Some (dc_last_frame d @ take ((n - 1) * unat channels) q)" "q' = drop ((n - 1) * unat channels) q"
      using pl True by (simp_all add: insertion_play_def)
    ultimately show ?thesis
      using True c retuned_refl [OF d] by (intro that [of d "\<lparr>lk_queue = r', lk_status = ?s\<rparr>"]) (simp_all add: render_insertion_def Let_def)
  next
    case False
    define req where "req = (if ?tr = TrCrossfade then ?w else 2)"
    have req: "unat req \<le> 4096" "unat req = (if ?tr = TrCrossfade then unat ?w else 2)"
      using w by (simp_all add: req_def)
    from smoothed_insertion [OF r d out q req(1) False req(2)] pl obtain d' r' where
      s: "render_smoothed_insertion channels req out d (lk_queue l) = (Ok played, d', r')"
      "ring_rep r' H q'" "retuned channels d d'" "ring_slots r' = ring_slots (lk_queue l)" by auto
    have "render_insertion V policy channels out d l =
        (let (res, c1, q1) = render_smoothed_insertion channels req out d (lk_queue l) in
          (res, c1, \<lparr>lk_queue = q1, lk_status =
           (case res of
              Ok (Some _) \<Rightarrow> let s = lk_status l in
                observe_correction policy (s\<lparr>du_sample_slips_inserted := du_sample_slips_inserted s + 1\<rparr>)
            | _ \<Rightarrow> lk_status l)\<rparr>))"
      using False by (cases ?tr) (simp_all add: render_insertion_def req_def)
    then show ?thesis using s stat [of "Ok played"] by (intro that [of d' "\<lparr>lk_queue = r', lk_status = ?s\<rparr>"]) simp_all
  qed
qed

lemma removal_render:
  assumes r: "ring_rep (lk_queue l) H q" and d: "consumer_shape channels d"
    and out: "length out = n * unat channels" "length out < 2 ^ 64" "0 < n"
    and q: "(n + 1) * unat channels \<le> length q"
    and pl: "corrected_play (cp_transition V (dc_compensator d)) (unat (cp_window V (dc_compensator d)))
      (unat channels) n (dc_last_frame d) q CorrectRemove = (played, q')"
  obtains d' l' where "render_removal V policy channels out d l = (Ok played, d', l')"
      "lk_status l' = observe_correction policy
        ((lk_status l)\<lparr>du_sample_slips_removed := du_sample_slips_removed (lk_status l) + 1\<rparr>)"
    "ring_rep (lk_queue l') H q'" "retuned channels d d'" "ring_slots (lk_queue l') = ring_slots (lk_queue l)"
proof -
  let ?s = "observe_correction policy
        ((lk_status l)\<lparr>du_sample_slips_removed := du_sample_slips_removed (lk_status l) + 1\<rparr>)"
  let ?tr = "cp_transition V (dc_compensator d)" and ?w = "cp_window V (dc_compensator d)"
  have some: "played \<noteq> None" using pl by (auto simp: removal_play_def Let_def split: if_splits)
  show ?thesis
  proof (cases "?tr = TrRaw")
    case True
    have "unat channels \<le> length q" using q by simp
    from rep_discard [OF r this] obtain r1 where r1: "discard_samples channels (lk_queue l) = (True, r1)"
      "ring_rep r1 H (drop (unat channels) q)" "ring_slots r1 = ring_slots (lk_queue l)" .
    have "length out \<le> length (drop (unat channels) q)" using out q by simp
    from rep_pop [OF r1(2) this] obtain r' where "try_pop_samples out r1 = (True, take (n * unat channels) (drop (unat channels) q), r')"
      "ring_rep r' H (drop (n * unat channels) (drop (unat channels) q))" "ring_slots r' = ring_slots r1" using out(1) by metis
    moreover have "played = Some (take (n * unat channels) (drop (unat channels) q))" "q' = drop ((n + 1) * unat channels) q"
      using pl True by (simp_all add: removal_play_def)
    ultimately show ?thesis
      using True r1 retuned_refl [OF d] by (intro that [of d "\<lparr>lk_queue = r', lk_status = ?s\<rparr>"]) (simp_all add: render_removal_def Let_def add.commute)
  next
    case False
    define req where "req = (if ?tr = TrCrossfade then ?w else 1)"
    have req: "unat req = (if ?tr = TrCrossfade then unat ?w else 1)" by (simp add: req_def)
    from smoothed_removal [OF r d out q False req] pl obtain d' r' where
      s: "render_smoothed_removal channels req out d (lk_queue l) = (played, d', r')"
      "ring_rep r' H q'" "retuned channels d d'" "ring_slots r' = ring_slots (lk_queue l)" by auto
    have "render_removal V policy channels out d l =
        (let (res, c1, q1) = render_smoothed_removal channels req out d (lk_queue l) in
          (Ok res, c1, \<lparr>lk_queue = q1, lk_status =
           (if res = None then lk_status l
            else let s = lk_status l in
              observe_correction policy (s\<lparr>du_sample_slips_removed := du_sample_slips_removed s + 1\<rparr>))\<rparr>))"
      using False by (cases ?tr) (simp_all add: render_removal_def req_def)
    then show ?thesis using s some by (intro that [of d' "\<lparr>lk_queue = r', lk_status = ?s\<rparr>"]) (simp_all add: Let_def)
  qed
qed

text \<open>A bridge in a state with the queue \<open>q\<close>: whole frames in a ring of the configured shape.\<close>

definition bridge_holds :: "('c \<Rightarrow> bool) \<Rightarrow> duplex_bridge_config \<Rightarrow> nat \<Rightarrow> f32 list \<Rightarrow> 'c duplex_consumer \<Rightarrow> duplex_link \<Rightarrow> bool" where
  "bridge_holds valid cfg H q d l \<longleftrightarrow> valid (dc_compensator d) \<and> consumer_shape (db_channels cfg) d
     \<and> ring_rep (lk_queue l) H q \<and> unat (db_channels cfg) dvd length q
     \<and> length (ring_slots (lk_queue l)) = unat (db_capacity_frames cfg) * unat (db_channels cfg)"

lemma fill_word:
  assumes "ring_rep r H q" "length q = k * unat channels" "0 < unat channels"
  shows "ring_len_samples r div channels = of_nat k" "unat (ring_len_samples r div channels) = k"
proof -
  show u: "unat (ring_len_samples r div channels) = k"
    using rep_bounds(5) [OF assms(1)] assms(2,3) by (simp add: unat_div)
  then show "ring_len_samples r div channels = of_nat k" by (metis of_nat_unat ucast_id)
qed

lemma peek_shape: "length (snd (peek_samples buf r)) = length buf"
  by (simp add: peek_samples_def get_samples_def Let_def)

lemma zero_crossing_peeks:
  "\<exists>frame. snd (is_coherent_zero_crossing d r) = d\<lparr>dc_peek_frame := frame\<rparr> \<and> length frame = length (dc_peek_frame d)"
  using peek_shape [of "dc_peek_frame d" r]
  by (cases "peek_samples (dc_peek_frame d) r") (auto simp: is_coherent_zero_crossing_def)

context drift_compensator_laws
begin

lemma selected_correction_fits:
  assumes h: "bridge_holds valid cfg H q d l" and q: "length q = k * unat (db_channels cfg)"
    and sel: "selected_correction V cfg frames d (lk_queue l) = (correction, d')"
  shows "correction = CorrectRemove \<Longrightarrow> unat frames < k"
    "correction = CorrectInsert \<Longrightarrow> unat frames \<le> k + 1"
    "bridge_holds valid cfg H q d' l" "dc_last_frame d' = dc_last_frame d" "dc_has_last_frame d' = dc_has_last_frame d"
proof -
  let ?c = "unat (db_channels cfg)"
  have r: "ring_rep (lk_queue l) H q" and c: "0 < ?c" and v: "valid (dc_compensator d)"
    using h by (simp_all add: bridge_holds_def consumer_shape_def)
  define x where "x = \<lparr>dx_fill_frames = ring_len_samples (lk_queue l) div db_channels cfg, dx_output_frames = frames,
    dx_target_fill_frames = db_target_fill_frames cfg, dx_threshold_frames = db_correction_threshold_frames cfg\<rparr>"
  obtain first strategy where s: "cp_select V x (dc_compensator d) = (first, strategy)" by fastforce
  have fill: "unat (dx_fill_frames x) = k" using fill_word(2) [OF r q c] by (simp add: x_def)
  have out: "dx_output_frames x = frames" by (simp add: x_def)
  define d1 where "d1 = d\<lparr>dc_compensator := strategy\<rparr>"
  have which: "(correction = first \<or> correction = CorrectNone) \<and> (d' = d1 \<or> d' = snd (is_coherent_zero_crossing d1 (lk_queue l)))"
    using sel s
    by (cases "is_coherent_zero_crossing d1 (lk_queue l)")
      (auto simp: selected_correction_def x_def [symmetric] d1_def Let_def split: if_splits)
  then have d': "dc_compensator d' = strategy" "dc_last_frame d' = dc_last_frame d" "dc_has_last_frame d' = dc_has_last_frame d"
    "dc_transition_frames d' = dc_transition_frames d" "length (dc_peek_frame d') = length (dc_peek_frame d)"
    using zero_crossing_peeks [of d1 "lk_queue l"] by (auto simp: d1_def)
  show "correction = CorrectRemove \<Longrightarrow> unat frames < k" "correction = CorrectInsert \<Longrightarrow> unat frames \<le> k + 1"
    using which removal_fits [OF v, of x] insertion_fits [OF v, of x] s fill out by auto
  show "bridge_holds valid cfg H q d' l" "dc_last_frame d' = dc_last_frame d" "dc_has_last_frame d' = dc_has_last_frame d"
    using d' h select_valid [OF v, of x] s by (auto simp: bridge_holds_def consumer_shape_def)
qed

end

text \<open>
  The specification of a read of \<open>n\<close> frames: the correction selected for the fill, then silence
  if the queue is too short for an uncorrected read, else the corrected frames.
\<close>

definition read_spec ::
  "'c drift_compensator \<Rightarrow> duplex_bridge_config \<Rightarrow> nat \<Rightarrow> f32 list \<Rightarrow> 'c duplex_consumer \<Rightarrow> duplex_link
    \<Rightarrow> f32 list option \<times> f32 list" where
  "read_spec V cfg n q d l =
     (let (correction, d1) = selected_correction V cfg (of_nat n) d (lk_queue l); c = unat (db_channels cfg) in
      if correction = CorrectNone \<and> length q < n * c then (None, q)
      else corrected_play (cp_transition V (dc_compensator d1)) (unat (cp_window V (dc_compensator d1))) c n
             (dc_last_frame d) q correction)"

text \<open>How many frames the correction of a successful read adds or drops.\<close>

definition slips :: "drift_correction \<Rightarrow> f32 list option \<Rightarrow> u64 \<times> u64" where
  "slips correction played =
     (if played = None then (0, 0)
      else case correction of CorrectNone \<Rightarrow> (0, 0) | CorrectInsert \<Rightarrow> (1, 0) | CorrectRemove \<Rightarrow> (0, 1))"

text \<open>The counters after a read.\<close>

definition read_counts :: "u64 \<Rightarrow> drift_correction \<Rightarrow> f32 list option \<Rightarrow> nat \<Rightarrow> duplex_status \<Rightarrow> duplex_status \<Rightarrow> bool" where
  "read_counts n correction played k s s' \<longleftrightarrow>
     du_input_frames_received s' = du_input_frames_received s
     \<and> du_overflow_count s' = du_overflow_count s
     \<and> du_consecutive_overflows s' = du_consecutive_overflows s
     \<and> du_output_frames_requested s' = du_output_frames_requested s + n
     \<and> du_sample_slips_inserted s' = du_sample_slips_inserted s + fst (slips correction played)
     \<and> du_sample_slips_removed s' = du_sample_slips_removed s + snd (slips correction played)
     \<and> du_underflow_count s' = du_underflow_count s + (if played = None then 1 else 0)
     \<and> du_consecutive_underflows s' = (if played = None then du_consecutive_underflows s + 1 else 0)
     \<and> du_fill_frames s' = of_nat k"

lemma finish_read_result:
  assumes r: "ring_rep (lk_queue l) H q" and q: "length q = k * unat (db_channels cfg)"
    and d: "consumer_shape (db_channels cfg) d" and u: "du_consecutive_underflows (lk_status l) \<noteq> - 1"
    and pl: "\<And>xs. played = Some xs \<Longrightarrow> length xs = n * unat (db_channels cfg)" and n: "0 < n"
  shows "\<exists>d' s'. finish_read cfg policy played out d l
      = (Ok (), (case played of None \<Rightarrow> replicate (length out) 0 | Some xs \<Rightarrow> xs), d', l\<lparr>lk_status := s'\<rparr>)
    \<and> dc_compensator d' = dc_compensator d \<and> consumer_shape (db_channels cfg) d'
    \<and> s' = observe_fill (of_nat k) (db_target_fill_frames cfg) policy
        (case played of Some _ \<Rightarrow> (lk_status l)\<lparr>du_consecutive_underflows := 0\<rparr>
         | None \<Rightarrow> snd (observe_underflow policy (lk_status l)))"
proof -
  have c: "0 < unat (db_channels cfg)" using d by (simp add: consumer_shape_def)
  note fw = fill_word(1) [OF r q c]
  show ?thesis
  proof (cases played)
    case None
    have "checked_add (du_consecutive_underflows (lk_status l)) 1 \<noteq> None"
    proof
      assume "checked_add (du_consecutive_underflows (lk_status l)) 1 = None"
      then have "2 ^ 64 \<le> unat (du_consecutive_underflows (lk_status l)) + 1" by (simp add: checked_add_None)
      then have "unat (du_consecutive_underflows (lk_status l)) = unat (- 1 :: u64)"
        using unsigned_less [of "du_consecutive_underflows (lk_status l)", where ?'a = nat] by simp
      then show False using u by (simp add: word_unat_eq_iff)
    qed
    then have "fst (observe_underflow policy (lk_status l))"
      by (auto simp: observe_underflow_def mark_clock_discontinuity_def Let_def split: option.splits)
    then show ?thesis using None d fw by (cases "observe_underflow policy (lk_status l)") (simp add: finish_read_def Let_def)
  next
    case (Some xs)
    note chunks = chunks_exact_multiple [OF c pl [OF Some]]
    then obtain f fs where ch: "chunks_exact (unat (db_channels cfg)) xs = f # fs"
      using n by (cases "chunks_exact (unat (db_channels cfg)) xs") auto
    then have "length (List.last (f # fs)) = unat (db_channels cfg)" using chunks last_in_set [of "f # fs"] by auto
    then show ?thesis using Some d ch fw by (simp add: finish_read_def Let_def consumer_shape_def)
  qed
qed

lemma length_windows:
  "length (concat (map (inserted_frame w c q) is)) = length is * c"
  "length (concat (map (removed_frame w c q) is)) = length is * c"
  by (induction "is") (simp_all add: inserted_frame_def removed_frame_def)

text \<open>Frames in and out of a corrected read of a queue of \<open>k\<close> frames.\<close>

lemma insertion_lengths:
  assumes q: "length q = k * c" and n: "0 < n" "n \<le> k + 1" and prev: "length prev = c" and c: "0 < c"
    and pl: "insertion_play tr window c n prev q = (played, q')"
  shows "\<exists>k'. length q' = k' * c \<and> (played = None \<or> k' + n = k + 1) \<and> (\<forall>xs. played = Some xs \<longrightarrow> length xs = n * c)"
proof -
  obtain m where m: "n = Suc m" using n(1) by (cases n) simp_all
  then have mk: "m \<le> k" using n(2) by simp
  consider (raw) "tr = TrRaw" | (one) "tr \<noteq> TrRaw" "n < 2" | (smooth) "tr \<noteq> TrRaw" "2 \<le> n" by linarith
  then show ?thesis
  proof cases
    case raw
    have "m * c \<le> k * c" using mk by (intro mult_right_mono) simp_all
    then show ?thesis
      using pl raw q prev m mk by (intro exI [of _ "k - m"]) (auto simp: insertion_play_def diff_mult_distrib)
  next
    case one
    then have "n = 1" using n by simp
    then show ?thesis using one pl q prev by (intro exI [of _ k]) (auto simp: insertion_play_def)
  next
    case smooth
    define w where "w = insertion_span tr window n"
    have w: "2 \<le> w" "w \<le> n" using smooth by (auto simp: w_def insertion_span_def)
    show ?thesis
    proof (cases "length q < w * c")
      case True
      then have "played = None" "q' = drop ((w - 2) * c) q"
        using pl smooth by (simp_all add: insertion_play_def w_def Let_def)
      then show ?thesis using q by (intro exI [of _ "k - (w - 2)"]) (simp add: diff_mult_distrib)
    next
      case False
      then have pq: "played = Some (concat (map (inserted_frame w c q) [0..<w]) @ take ((n - w) * c) (drop ((w - 1) * c) q))"
        "q' = drop ((n - 1) * c) q"
        using pl smooth by (simp_all add: insertion_play_def w_def Let_def)
      have "(n - w) * c + (w - 1) * c = (n - 1) * c" using w by (simp only: add_mult_distrib [symmetric]) simp
      moreover have "(n - 1) * c \<le> k * c" using mk m by (intro mult_right_mono) simp_all
      ultimately have "(n - w) * c \<le> length (drop ((w - 1) * c) q)" unfolding length_drop q by linarith
      moreover have "w * c + (n - w) * c = n * c" using w by (simp only: add_mult_distrib [symmetric]) simp
      ultimately have "length (concat (map (inserted_frame w c q) [0..<w]) @ take ((n - w) * c) (drop ((w - 1) * c) q)) = n * c"
        unfolding length_append length_take length_windows by (simp add: min_def)
      then show ?thesis unfolding pq using q m mk
        by (intro exI [of _ "k - m"]) (simp add: diff_mult_distrib)
    qed
  qed
qed

lemma removal_lengths:
  assumes q: "length q = k * c" and n: "0 < n" "n < k"
    and pl: "removal_play tr window c n q = (played, q')"
  shows "\<exists>k'. length q' = k' * c \<and> (played = None \<or> k' + n + 1 = k) \<and> (\<forall>xs. played = Some xs \<longrightarrow> length xs = n * c)"
proof -
  have nk: "(n + 1) * c \<le> k * c" using n by (intro mult_right_mono) simp_all
  have q': "q' = drop ((n + 1) * c) q" using pl by (auto simp: removal_play_def Let_def split: if_splits)
  have len: "length q' = (k - (n + 1)) * c" unfolding q' length_drop q by (simp only: diff_mult_distrib)
  have "length xs = n * c" if some: "played = Some xs" for xs
  proof (cases "tr = TrRaw")
    case True
    then show ?thesis using pl some q nk by (auto simp: removal_play_def)
  next
    case False
    define w where "w = removal_span tr window n"
    have w: "1 \<le> w" "w \<le> n" using n by (auto simp: w_def removal_span_def)
    have xs: "xs = concat (map (removed_frame w c q) [0..<w]) @ take ((n - w) * c) (drop ((w + 1) * c) q)"
      using pl False some by (simp add: removal_play_def w_def Let_def)
    have "(n - w) * c + (w + 1) * c = (n + 1) * c" using w by (simp only: add_mult_distrib [symmetric]) simp
    then have "(n - w) * c \<le> length (drop ((w + 1) * c) q)" unfolding length_drop q using nk by linarith
    moreover have "w * c + (n - w) * c = n * c" using w by (simp only: add_mult_distrib [symmetric]) simp
    ultimately show ?thesis unfolding xs length_append length_take length_windows by (simp add: min_def)
  qed
  moreover have "k - (n + 1) + n + 1 = k" using n by simp
  ultimately show ?thesis using len by blast
qed

lemma play_lengths:
  assumes "length q = k * c" "0 < n" "0 < c" "length prev = c"
    and "correction = CorrectRemove \<Longrightarrow> n < k" "correction = CorrectInsert \<Longrightarrow> n \<le> k + 1"
      "correction = CorrectNone \<Longrightarrow> n \<le> k"
    and "corrected_play tr window c n prev q correction = (played, q')"
  shows "\<exists>k'. length q' = k' * c
    \<and> (played = None \<or> of_nat k' + of_nat n + snd (slips correction played) = (of_nat k + fst (slips correction played) :: u64))
    \<and> (\<forall>xs. played = Some xs \<longrightarrow> length xs = n * c)"
proof (cases correction)
  case CorrectNone
  then have "n * c \<le> k * c" using assms(7) by (intro mult_right_mono) simp_all
  moreover have "played = Some (take (n * c) q)" "q' = drop (n * c) q" using assms(8) CorrectNone by simp_all
  ultimately show ?thesis using assms(1,7) CorrectNone
    by (intro exI [of _ "k - n"]) (simp add: slips_def diff_mult_distrib of_nat_diff)
next
  case CorrectInsert
  have "insertion_play tr window c n prev q = (played, q')" using assms(8) CorrectInsert by simp
  from insertion_lengths [OF assms(1,2) assms(6) [OF CorrectInsert] assms(4,3) this] obtain k' where
    k': "length q' = k' * c" "played = None \<or> k' + n = k + 1" "\<forall>xs. played = Some xs \<longrightarrow> length xs = n * c" by blast
  have "of_nat (k' + n) = (of_nat (k + 1) :: u64)" if "played \<noteq> None" using k'(2) that by metis
  then show ?thesis using k' CorrectInsert by (intro exI [of _ k']) (auto simp: slips_def)
next
  case CorrectRemove
  have "removal_play tr window c n q = (played, q')" using assms(8) CorrectRemove by simp
  from removal_lengths [OF assms(1,2) assms(5) [OF CorrectRemove] this] obtain k' where
    k': "length q' = k' * c" "played = None \<or> k' + n + 1 = k" "\<forall>xs. played = Some xs \<longrightarrow> length xs = n * c" by blast
  have "of_nat (k' + n + 1) = (of_nat k :: u64)" if "played \<noteq> None" using k'(2) that by metis
  then show ?thesis using k' CorrectRemove by (intro exI [of _ k']) (auto simp: slips_def)
qed

text \<open>The counters between the correction and the bookkeeping.\<close>

definition mid_counts :: "u64 \<Rightarrow> drift_correction \<Rightarrow> f32 list option \<Rightarrow> duplex_status \<Rightarrow> duplex_status \<Rightarrow> bool" where
  "mid_counts n correction played s s' \<longleftrightarrow>
     du_input_frames_received s' = du_input_frames_received s
     \<and> du_overflow_count s' = du_overflow_count s
     \<and> du_consecutive_overflows s' = du_consecutive_overflows s
     \<and> du_output_frames_requested s' = du_output_frames_requested s + n
     \<and> du_sample_slips_inserted s' = du_sample_slips_inserted s + fst (slips correction played)
     \<and> du_sample_slips_removed s' = du_sample_slips_removed s + snd (slips correction played)
     \<and> du_underflow_count s' = du_underflow_count s
     \<and> du_consecutive_underflows s' = du_consecutive_underflows s"

lemma observe_underflow_simps [simp]:
  "du_input_frames_received (snd (observe_underflow p s)) = du_input_frames_received s"
  "du_output_frames_requested (snd (observe_underflow p s)) = du_output_frames_requested s"
  "du_sample_slips_inserted (snd (observe_underflow p s)) = du_sample_slips_inserted s"
  "du_sample_slips_removed (snd (observe_underflow p s)) = du_sample_slips_removed s"
  "du_overflow_count (snd (observe_underflow p s)) = du_overflow_count s"
  "du_underflow_count (snd (observe_underflow p s)) = du_underflow_count s + 1"
  "du_consecutive_underflows (snd (observe_underflow p s)) = du_consecutive_underflows s + 1"
  "du_consecutive_overflows (snd (observe_underflow p s)) = du_consecutive_overflows s"
  by (simp_all add: observe_underflow_def mark_clock_discontinuity_def Let_def split: option.split)

lemma read_counts_finish:
  "mid_counts n correction played s s2 \<Longrightarrow> read_counts n correction played k s (observe_fill (of_nat k) t policy
     (case played of Some _ \<Rightarrow> s2\<lparr>du_consecutive_underflows := 0\<rparr> | None \<Rightarrow> snd (observe_underflow policy s2)))"
  by (cases played) (simp_all add: mid_counts_def read_counts_def)

lemma play_correction_result:
  assumes r: "ring_rep (lk_queue l) H q" and d: "consumer_shape channels d"
    and out: "length out = n * unat channels" "length out < 2 ^ 64" "0 < n" and k: "length q = k * unat channels"
    and fit: "correction = CorrectRemove \<Longrightarrow> n < k" "correction = CorrectInsert \<Longrightarrow> n \<le> k + 1"
      "correction = CorrectNone \<Longrightarrow> n \<le> k"
    and w: "unat (cp_window V (dc_compensator d)) \<le> 4096"
    and pl: "corrected_play (cp_transition V (dc_compensator d)) (unat (cp_window V (dc_compensator d)))
      (unat channels) n (dc_last_frame d) q correction = (played, q')"
    and s: "lk_status l = s\<lparr>du_output_frames_requested := du_output_frames_requested s + of_nat n\<rparr>"
  shows "\<exists>d2 l2. play_correction V policy channels out correction d l = (Ok played, d2, l2)
    \<and> ring_rep (lk_queue l2) H q' \<and> retuned channels d d2 \<and> ring_slots (lk_queue l2) = ring_slots (lk_queue l)
    \<and> mid_counts (of_nat n) correction played s (lk_status l2)"
proof (cases correction)
  case CorrectNone
  have "n * unat channels \<le> k * unat channels" using fit(3) CorrectNone by (intro mult_right_mono) simp_all
  then have "length out \<le> length q" using out(1) k by simp
  from rep_pop [OF r this] obtain r' where r': "try_pop_samples out (lk_queue l) = (True, take (length out) q, r')"
    "ring_rep r' H (drop (length out) q)" "ring_slots r' = ring_slots (lk_queue l)" .
  have "played = Some (take (length out) q)" "q' = drop (length out) q" using pl CorrectNone out(1) by simp_all
  then show ?thesis
    using r' CorrectNone retuned_refl [OF d] s
    by (intro exI [of _ d] exI [of _ "l\<lparr>lk_queue := r'\<rparr>"]) (simp add: play_correction_def mid_counts_def slips_def)
next
  case CorrectInsert
  have "n - 1 \<le> k" using fit(2) CorrectInsert by simp
  then have "(n - 1) * unat channels \<le> length q" unfolding k by (rule mult_right_mono) simp
  from insertion_render [OF r d out this w pl [unfolded CorrectInsert], of policy] obtain d2 l2 where
    i: "render_insertion V policy channels out d l = (Ok played, d2, l2)"
      "lk_status l2 = (if played = None then lk_status l else observe_correction policy
        ((lk_status l)\<lparr>du_sample_slips_inserted := du_sample_slips_inserted (lk_status l) + 1\<rparr>))"
      "ring_rep (lk_queue l2) H q'" "retuned channels d d2" "ring_slots (lk_queue l2) = ring_slots (lk_queue l)" .
  then show ?thesis
    using CorrectInsert s by (intro exI [of _ d2] exI [of _ l2]) (auto simp: play_correction_def mid_counts_def slips_def)
next
  case CorrectRemove
  have "n + 1 \<le> k" using fit(1) CorrectRemove by simp
  then have "(n + 1) * unat channels \<le> length q" unfolding k by (rule mult_right_mono) simp
  from removal_render [OF r d out this pl [unfolded CorrectRemove], of policy] obtain d2 l2 where
    i: "render_removal V policy channels out d l = (Ok played, d2, l2)"
      "lk_status l2 = observe_correction policy
        ((lk_status l)\<lparr>du_sample_slips_removed := du_sample_slips_removed (lk_status l) + 1\<rparr>)"
      "ring_rep (lk_queue l2) H q'" "retuned channels d d2" "ring_slots (lk_queue l2) = ring_slots (lk_queue l)" .
  moreover have "played \<noteq> None" using pl CorrectRemove by (auto simp: removal_play_def Let_def split: if_splits)
  ultimately show ?thesis
    using CorrectRemove s by (intro exI [of _ d2] exI [of _ l2]) (auto simp: play_correction_def mid_counts_def slips_def)
qed

text \<open>One well-formed callback.\<close>

context drift_compensator_laws
begin

lemma read_plays:
  assumes h: "bridge_holds valid cfg H q d l" and u: "du_consecutive_underflows (lk_status l) \<noteq> - 1"
    and n: "length out = n * unat (db_channels cfg)" "length out < 2 ^ 64" "0 < n"
    and spec: "read_spec V cfg n q d l = (played, q')"
  shows "\<exists>correction k d' l'. read_interleaved V cfg policy out (db_channels cfg) d l
      = (Ok (), (case played of None \<Rightarrow> replicate (length out) 0 | Some xs \<Rightarrow> xs), d', l')
    \<and> bridge_holds valid cfg H q' d' l' \<and> length q' = k * unat (db_channels cfg)
    \<and> read_counts (of_nat n) correction played k (lk_status l) (lk_status l')
    \<and> (played = None \<or> of_nat k + of_nat n + snd (slips correction played)
          = (of_nat (length q div unat (db_channels cfg)) + fst (slips correction played) :: u64))
    \<and> (\<forall>xs. played = Some xs \<longrightarrow> length xs = n * unat (db_channels cfg))"
proof -
  let ?c = "unat (db_channels cfg)"
  have r: "ring_rep (lk_queue l) H q" and d: "consumer_shape (db_channels cfg) d" and c: "0 < ?c"
    and v: "valid (dc_compensator d)" and slots: "length (ring_slots (lk_queue l)) = unat (db_capacity_frames cfg) * ?c"
    using h by (simp_all add: bridge_holds_def consumer_shape_def)
  obtain k where k: "length q = k * ?c" using h by (metis bridge_holds_def dvd_def mult.commute)
  note fw = frames_word [OF n(1,2) c]
  obtain correction d1 where sel: "selected_correction V cfg (of_nat n) d (lk_queue l) = (correction, d1)" by fastforce
  note fits = selected_correction_fits [OF h k sel, unfolded fw(2)]
  have d1: "consumer_shape (db_channels cfg) d1" "valid (dc_compensator d1)" using fits(3) by (simp_all add: bridge_holds_def)
  define s1 where "s1 = (lk_status l)\<lparr>du_output_frames_requested := du_output_frames_requested (lk_status l) + of_nat n\<rparr>"
  define l1 where "l1 = l\<lparr>lk_status := s1\<rparr>"
  have u1: "du_consecutive_underflows s1 \<noteq> - 1" using u by (simp add: s1_def)
  have zero: "db_channels cfg \<noteq> 0" using c by auto
  have used: "unat (consumed_frames CorrectNone (of_nat n)) = n"
    using fw(2) by (simp add: consumed_frames_def)
  have test: "ring_len_samples (lk_queue l) div db_channels cfg < consumed_frames correction (of_nat n)
      \<longleftrightarrow> correction = CorrectNone \<and> length q < n * ?c"
  proof -
    have none: "(k < n) = (length q < n * ?c)" using c by (simp add: k)
    have sub: "unat (saturating_sub (of_nat n :: usize) 1) = n - 1" by (simp add: unat_saturating_sub fw(2))
    have add: "unat (saturating_add (of_nat n :: usize) 1) \<le> n + 1"
      using saturating_successor [of "saturating_add (of_nat n) 1" "of_nat n"] fw(2) by simp
    show ?thesis
      using fits(1,2) none sub add used fill_word(2) [OF r k c]
      by (cases correction) (auto simp: consumed_frames_def word_less_nat_alt)
  qed
  have unfold: "read_interleaved V cfg policy out (db_channels cfg) d l =
      (if correction = CorrectNone \<and> length q < n * ?c then finish_read cfg policy None out d1 l1
       else
         let (res, c2, l2) = play_correction V policy (db_channels cfg) out correction d1 l1 in
          case res of
            Ok played \<Rightarrow> finish_read cfg policy played out c2 l2
          | _ \<Rightarrow> (Panic, out, c2, l2))"
    by (simp add: read_interleaved_def fw(1,3) zero l1_def s1_def sel test Let_def)
  have pl: "(if correction = CorrectNone \<and> length q < n * ?c then (None, q)
      else corrected_play (cp_transition V (dc_compensator d1)) (unat (cp_window V (dc_compensator d1))) ?c n
             (dc_last_frame d1) q correction) = (played, q')"
    unfolding fits(4) using spec by (simp add: read_spec_def sel Let_def split del: if_split)
  have l1: "lk_queue l1 = lk_queue l" "lk_status l1 = s1" by (simp_all add: l1_def)
  show ?thesis
  proof (cases "correction = CorrectNone \<and> length q < n * ?c")
    case True
    then have none: "played = None" "q' = q" using pl by simp_all
    have r1: "ring_rep (lk_queue l1) H q" and u1': "du_consecutive_underflows (lk_status l1) \<noteq> - 1"
      using r u1 by (simp_all add: l1)
    obtain d' s' where fin: "finish_read cfg policy None out d1 l1 = (Ok (), replicate (length out) 0, d', l1\<lparr>lk_status := s'\<rparr>)"
      "dc_compensator d' = dc_compensator d1" "consumer_shape (db_channels cfg) d'"
      "s' = observe_fill (of_nat k) (db_target_fill_frames cfg) policy (snd (observe_underflow policy s1))"
      using finish_read_result [OF r1 k d1(1) u1' _ n(3), of None policy out] by (auto simp: l1)
    have "mid_counts (of_nat n) correction None (lk_status l) s1" by (simp add: mid_counts_def slips_def s1_def)
    then have "read_counts (of_nat n) correction None k (lk_status l) s'"
      using read_counts_finish [of "of_nat n" correction None] fin(4) by simp
    moreover have "bridge_holds valid cfg H q d' (l1\<lparr>lk_status := s'\<rparr>)"
      using h fin(2,3) d1(2) by (simp add: bridge_holds_def l1)
    ultimately show ?thesis using True fin(1) none k unfold
      by (intro exI [of _ correction] exI [of _ k] exI [of _ d'] exI [of _ "l1\<lparr>lk_status := s'\<rparr>"]) simp
  next
    case False
    have fit: "correction = CorrectRemove \<Longrightarrow> n < k" "correction = CorrectInsert \<Longrightarrow> n \<le> k + 1"
      "correction = CorrectNone \<Longrightarrow> n \<le> k"
      using fits(1,2) False c by (auto simp: k)
    have play: "corrected_play (cp_transition V (dc_compensator d1)) (unat (cp_window V (dc_compensator d1))) ?c n
             (dc_last_frame d1) q correction = (played, q')"
      using pl False by (simp only: if_False)
    obtain d2 l2 where p: "play_correction V policy (db_channels cfg) out correction d1 l1 = (Ok played, d2, l2)"
      "ring_rep (lk_queue l2) H q'" "retuned (db_channels cfg) d1 d2" "ring_slots (lk_queue l2) = ring_slots (lk_queue l1)"
      "mid_counts (of_nat n) correction played (lk_status l) (lk_status l2)"
      using play_correction_result [where policy = policy, OF _ d1(1) n k fit window_bound [OF d1(2)] play, of l1 H "lk_status l"] r
      by (auto simp: l1 s1_def)
    from play_lengths [OF k n(3) c _ fit play] d1(1) obtain k' where k': "length q' = k' * ?c"
      "played = None \<or> of_nat k' + of_nat n + snd (slips correction played) = (of_nat k + fst (slips correction played) :: u64)"
      "\<forall>xs. played = Some xs \<longrightarrow> length xs = n * ?c"
      by (auto simp: consumer_shape_def)
    have d2: "consumer_shape (db_channels cfg) d2" "dc_compensator d2 = dc_compensator d1"
      using p(3) d1(1) by (auto simp: retuned_def consumer_shape_def)
    have u2: "du_consecutive_underflows (lk_status l2) \<noteq> - 1" using p(5) u by (simp add: mid_counts_def)
    obtain d' s' where fin: "finish_read cfg policy played out d2 l2
        = (Ok (), (case played of None \<Rightarrow> replicate (length out) 0 | Some xs \<Rightarrow> xs), d', l2\<lparr>lk_status := s'\<rparr>)"
      "dc_compensator d' = dc_compensator d2" "consumer_shape (db_channels cfg) d'"
      "s' = observe_fill (of_nat k') (db_target_fill_frames cfg) policy
        (case played of Some _ \<Rightarrow> (lk_status l2)\<lparr>du_consecutive_underflows := 0\<rparr>
         | None \<Rightarrow> snd (observe_underflow policy (lk_status l2)))"
      using finish_read_result [OF p(2) k'(1) d2(1) u2 _ n(3), of played policy out] k'(3) by auto
    have "read_counts (of_nat n) correction played k' (lk_status l) s'"
      unfolding fin(4) by (rule read_counts_finish [OF p(5)])
    moreover have "bridge_holds valid cfg H q' d' (l2\<lparr>lk_status := s'\<rparr>)"
      using fin(2,3) d1(2) d2(2) p(2,4) slots k'(1) by (simp add: bridge_holds_def l1)
    moreover have "length q div ?c = k" using k c by simp
    moreover have "read_interleaved V cfg policy out (db_channels cfg) d l = finish_read cfg policy played out d2 l2"
      using unfold False by (simp add: p(1) Let_def)
    ultimately show ?thesis using fin(1) k'
      by (intro exI [of _ correction] exI [of _ k'] exI [of _ d'] exI [of _ "l2\<lparr>lk_status := s'\<rparr>"]) simp
  qed
qed

end

section \<open>One push\<close>

lemma push_frames:
  assumes h: "bridge_holds valid cfg H q d l" and u: "du_consecutive_overflows (lk_status l) \<noteq> - 1"
    and n: "length input = n * unat (db_channels cfg)" "length input < 2 ^ 64" and H: "H + length input < 2 ^ 64"
    and q: "length q = k * unat (db_channels cfg)"
    and a: "accepted = min n (unat (db_capacity_frames cfg) - k)"
  shows "\<exists>l'. push_interleaved cfg policy input (db_channels cfg) l = (Ok (), l')
    \<and> bridge_holds valid cfg (H + accepted * unat (db_channels cfg)) (q @ take (accepted * unat (db_channels cfg)) input) d l'
    \<and> du_input_frames_received (lk_status l') = du_input_frames_received (lk_status l) + of_nat n
    \<and> du_overflow_count (lk_status l') = du_overflow_count (lk_status l) + of_nat (n - accepted)
    \<and> du_consecutive_overflows (lk_status l') = (if n - accepted = 0 then 0 else du_consecutive_overflows (lk_status l) + 1)
    \<and> du_fill_frames (lk_status l') = of_nat (k + accepted)
    \<and> du_output_frames_requested (lk_status l') = du_output_frames_requested (lk_status l)
    \<and> du_sample_slips_inserted (lk_status l') = du_sample_slips_inserted (lk_status l)
    \<and> du_sample_slips_removed (lk_status l') = du_sample_slips_removed (lk_status l)
    \<and> du_underflow_count (lk_status l') = du_underflow_count (lk_status l)
    \<and> du_consecutive_underflows (lk_status l') = du_consecutive_underflows (lk_status l)"
proof -
  let ?c = "unat (db_channels cfg)" and ?q = "lk_queue l" and ?s = "lk_status l"
  have r: "ring_rep ?q H q" and c: "0 < ?c" and slots: "length (ring_slots ?q) = unat (db_capacity_frames cfg) * ?c"
    using h by (simp_all add: bridge_holds_def consumer_shape_def)
  note fw = frames_word [OF n c]
  note b = rep_bounds [OF r]
  have room: "unat (saturating_sub (ring_capacity ?q) (ring_len_samples ?q) div db_channels cfg) = unat (db_capacity_frames cfg) - k"
    using c by (simp add: unat_div b(7) slots q diff_mult_distrib [symmetric])
  have acc: "unat (min (of_nat n) (saturating_sub (ring_capacity ?q) (ring_len_samples ?q) div db_channels cfg)) = accepted"
    unfolding a using room fw(2) by (simp add: min_def word_le_nat_alt)
  then have accw: "min (of_nat n) (saturating_sub (ring_capacity ?q) (ring_len_samples ?q) div db_channels cfg) = of_nat accepted"
    by (metis of_nat_unat ucast_id)
  have an: "accepted \<le> n" "k + accepted \<le> unat (db_capacity_frames cfg) \<or> accepted = 0" unfolding a by auto
  have fits: "accepted * ?c \<le> length input" unfolding n(1) using an(1) by (intro mult_right_mono) simp_all
  then have samples: "unat (of_nat accepted * db_channels cfg) = accepted * ?c"
    using n(2) acc accw by (simp add: unat_mul_no_overflow)
  have len: "length (take (accepted * ?c) input) = accepted * ?c" using fits by simp
  have kc: "k * ?c \<le> unat (db_capacity_frames cfg) * ?c" using b(1) q slots by simp
  have fit2: "length q + length (take (accepted * ?c) input) \<le> length (ring_slots ?q)"
  proof (cases "accepted = 0")
    case False
    then have "(k + accepted) * ?c \<le> unat (db_capacity_frames cfg) * ?c" using an(2) by (intro mult_right_mono) simp_all
    then show ?thesis unfolding len slots q by (simp add: add_mult_distrib)
  qed (use kc in \<open>simp add: slots q\<close>)
  have "length (ring_slots ?q) dvd 2 ^ 64 \<or> H + length (take (accepted * ?c) input) \<le> 2 ^ 64"
    unfolding len using H fits by linarith
  from rep_push [OF r fit2 this] obtain r' where r': "try_push_samples (take (accepted * ?c) input) ?q = (True, r')"
    "ring_rep r' (H + accepted * ?c) (q @ take (accepted * ?c) input)" "length (ring_slots r') = length (ring_slots ?q)"
    unfolding len by blast
  have q': "length (q @ take (accepted * ?c) input) = (k + accepted) * ?c" by (simp add: len q add_mult_distrib min_absorb2 fits)
  have fill: "ring_len_samples r' div db_channels cfg = of_nat (k + accepted)" by (rule fill_word(1) [OF r'(2) q' c])
  have rej: "of_nat n - of_nat accepted = (of_nat (n - accepted) :: usize)" using an(1) by (simp add: of_nat_diff)
  have "n * 1 \<le> n * ?c" using c by (intro mult_left_mono) simp_all
  then have "n - accepted < 2 ^ 64" using n by linarith
  then have pos: "(0 :: usize) < of_nat (n - accepted) \<longleftrightarrow> 0 < n - accepted"
    by (simp only: word_less_nat_alt unat_of_nat unat_0) simp
  have zero: "db_channels cfg \<noteq> 0" using c by auto
  obtain consecutive where up: "checked_add (du_consecutive_overflows ?s) 1 = Some consecutive"
  proof (cases "checked_add (du_consecutive_overflows ?s) 1")
    case None
    then have "2 ^ 64 \<le> unat (du_consecutive_overflows ?s) + 1" by (simp add: checked_add_None)
    then have "unat (du_consecutive_overflows ?s) = unat (- 1 :: u64)"
      using unsigned_less [of "du_consecutive_overflows ?s", where ?'a = nat] by simp
    then show ?thesis using u by (simp add: word_unat_eq_iff)
  qed (use that in blast)
  have holds: "bridge_holds valid cfg (H + accepted * ?c) (q @ take (accepted * ?c) input) d \<lparr>lk_queue = r', lk_status = s'\<rparr>" for s'
    using h r' slots q' by (simp add: bridge_holds_def del: length_append)
  define s1 where "s1 = ?s\<lparr>du_input_frames_received := du_input_frames_received ?s + of_nat n\<rparr>"
  define s3 where "s3 = (let s2 = mark_clock_discontinuity (s1\<lparr>du_overflow_count := du_overflow_count s1 + of_nat (n - accepted)\<rparr>)
      in s2\<lparr>du_consecutive_overflows := du_consecutive_overflows s2 + 1\<rparr>)"
  define s' where "s' = observe_fill (of_nat (k + accepted)) (db_target_fill_frames cfg) policy
      (if 0 < n - accepted then if dp_maximum_consecutive_overflows policy < consecutive then raise_health DhFatal s3 else s3
       else s1\<lparr>du_consecutive_overflows := 0\<rparr>)"
  have "push_interleaved cfg policy input (db_channels cfg) l = (Ok (), \<lparr>lk_queue = r', lk_status = s'\<rparr>)"
    unfolding push_interleaved_def fw(1) accw Let_def samples r'(1) rej prod.case fill pos s'_def s3_def
    using zero fw(3) up by (simp add: s1_def mark_clock_discontinuity_def)
  moreover have "du_input_frames_received s' = du_input_frames_received ?s + of_nat n"
    "du_overflow_count s' = du_overflow_count ?s + of_nat (n - accepted)"
    "du_consecutive_overflows s' = (if n - accepted = 0 then 0 else du_consecutive_overflows ?s + 1)"
    "du_fill_frames s' = of_nat (k + accepted)"
    "du_output_frames_requested s' = du_output_frames_requested ?s"
    "du_sample_slips_inserted s' = du_sample_slips_inserted ?s" "du_sample_slips_removed s' = du_sample_slips_removed ?s"
    "du_underflow_count s' = du_underflow_count ?s" "du_consecutive_underflows s' = du_consecutive_underflows ?s"
    by (cases "0 < n - accepted"; simp add: s'_def s3_def s1_def mark_clock_discontinuity_def Let_def)+
  ultimately show ?thesis using holds [of s'] by (intro exI [of _ "\<lparr>lk_queue = r', lk_status = s'\<rparr>"]) simp
qed

section \<open>Any sequence of callbacks\<close>

datatype duplex_call = PushCall "f32 list" usize | ReadCall "f32 list" usize

text \<open>The played samples of the reads and the last state, or \<open>None\<close> after a panic.\<close>

fun duplex_run :: "'c drift_compensator \<Rightarrow> duplex_bridge_config \<Rightarrow> duplex_fault_policy \<Rightarrow> duplex_call list
    \<Rightarrow> 'c duplex_consumer \<times> duplex_link \<Rightarrow> (f32 list list \<times> 'c duplex_consumer \<times> duplex_link) option" where
  "duplex_run V cfg policy [] (d, l) = Some ([], d, l)"
| "duplex_run V cfg policy (PushCall input channels # calls) (d, l) =
     (case push_interleaved cfg policy input channels l of
        (Ok _, l') \<Rightarrow> duplex_run V cfg policy calls (d, l')
      | _ \<Rightarrow> None)"
| "duplex_run V cfg policy (ReadCall out channels # calls) (d, l) =
     (case read_interleaved V cfg policy out channels d l of
        (Ok _, samples, d', l') \<Rightarrow>
          map_option (\<lambda>(played, s). (samples # played, s)) (duplex_run V cfg policy calls (d', l'))
      | _ \<Rightarrow> None)"

text \<open>Samples pushed by a call, and the calls a host may make: a read has at least one sample.\<close>

fun pushed_samples :: "duplex_call \<Rightarrow> nat" where
  "pushed_samples (PushCall input channels) = length input"
| "pushed_samples (ReadCall out channels) = 0"

fun possible_call :: "duplex_call \<Rightarrow> bool" where
  "possible_call (PushCall input channels) \<longleftrightarrow> length input < 2 ^ 64"
| "possible_call (ReadCall out channels) \<longleftrightarrow> out \<noteq> [] \<and> length out < 2 ^ 64"

definition frames_balance :: "duplex_status \<Rightarrow> bool" where
  "frames_balance s \<longleftrightarrow> du_input_frames_received s + du_sample_slips_inserted s
     = du_overflow_count s + du_fill_frames s + du_output_frames_requested s + du_sample_slips_removed s"

text \<open>The state after \<open>m\<close> calls that pushed at most \<open>N\<close> samples.\<close>

definition flow_inv :: "('c \<Rightarrow> bool) \<Rightarrow> duplex_bridge_config \<Rightarrow> nat \<Rightarrow> nat \<Rightarrow> 'c duplex_consumer \<Rightarrow> duplex_link \<Rightarrow> bool" where
  "flow_inv valid cfg m N d l \<longleftrightarrow> (\<exists>H q. bridge_holds valid cfg H q d l \<and> H \<le> N
     \<and> du_fill_frames (lk_status l) = of_nat (length q div unat (db_channels cfg))
     \<and> unat (du_consecutive_overflows (lk_status l)) \<le> m \<and> unat (du_consecutive_underflows (lk_status l)) \<le> m
     \<and> unat (du_underflow_count (lk_status l)) \<le> m
     \<and> (du_underflow_count (lk_status l) = 0 \<longrightarrow> frames_balance (lk_status l)))"

lemma counter_steps:
  assumes "unat (w :: u64) \<le> m" "Suc m < 2 ^ 64"
  shows "w \<noteq> - 1" "unat (w + 1) \<le> Suc m" "w + 1 \<noteq> 0"
proof -
  have "unat w + unat (1 :: u64) < 2 ^ 64" using assms by simp
  then have u: "unat (w + 1) = unat w + 1" using unat_add_no_overflow [of w 1] by simp
  then show "w + 1 \<noteq> 0" "unat (w + 1) \<le> Suc m" using assms(1) by auto
  then show "w \<noteq> - 1" by auto
qed

lemma shaped_call:
  assumes "\<not> (channels \<noteq> db_channels cfg \<or> channels = 0 \<or> of_nat (length xs) mod channels \<noteq> (0 :: usize))"
    and "length xs < 2 ^ 64"
  obtains n where "channels = db_channels cfg" "length xs = n * unat (db_channels cfg)" "xs \<noteq> [] \<Longrightarrow> 0 < n"
proof -
  have c: "channels = db_channels cfg" and m: "of_nat (length xs) mod channels = (0 :: usize)" using assms(1) by simp_all
  have "unat (of_nat (length xs) mod channels) = length xs mod unat channels"
    using assms(2) by (simp add: unat_mod unat_of_nat)
  then have "unat channels dvd length xs" using m by (simp add: dvd_eq_mod_eq_0)
  then obtain n where "length xs = n * unat channels" by (metis dvd_def mult.commute)
  moreover from this have "0 < n" if "xs \<noteq> []" using that by (cases n) auto
  ultimately show ?thesis using that [of n] c by blast
qed

lemma push_step:
  assumes inv: "flow_inv valid cfg m N d l" and m: "Suc m < 2 ^ 64" and N: "N + length input < 2 ^ 64"
  shows "\<exists>l'. push_interleaved cfg policy input channels l = (Ok (), l') \<and> flow_inv valid cfg (Suc m) (N + length input) d l'"
proof -
  obtain H q where h: "bridge_holds valid cfg H q d l" "H \<le> N"
     "du_fill_frames (lk_status l) = of_nat (length q div unat (db_channels cfg))"
     "unat (du_consecutive_overflows (lk_status l)) \<le> m" "unat (du_consecutive_underflows (lk_status l)) \<le> m"
     "unat (du_underflow_count (lk_status l)) \<le> m"
     "du_underflow_count (lk_status l) = 0 \<Longrightarrow> frames_balance (lk_status l)"
    using inv by (auto simp: flow_inv_def)
  let ?bad = "channels \<noteq> db_channels cfg \<or> channels = 0 \<or> of_nat (length input) mod channels \<noteq> (0 :: usize)"
  show ?thesis
  proof (cases ?bad)
    case True
    then have "push_interleaved cfg policy input channels l
        = (Ok (), l\<lparr>lk_status := mark_clock_discontinuity ((lk_status l)\<lparr>du_fault := duplex_fault_code DfInputFormat\<rparr>)\<rparr>)"
      unfolding push_interleaved_def Let_def by (simp only: if_True)
    then show ?thesis using h
      by (auto simp: flow_inv_def bridge_holds_def mark_clock_discontinuity_def frames_balance_def
          intro!: exI [of _ H] exI [of _ q])
  next
    case False
    have "length input < 2 ^ 64" using N by simp
    from shaped_call [OF False this] obtain n where n: "channels = db_channels cfg" "length input = n * unat (db_channels cfg)" by metis
    obtain k where k: "length q = k * unat (db_channels cfg)" using h(1) by (metis bridge_holds_def dvd_def mult.commute)
    define accepted where "accepted = min n (unat (db_capacity_frames cfg) - k)"
    have c: "0 < unat (db_channels cfg)" using h(1) by (simp add: bridge_holds_def consumer_shape_def)
    have "H + length input < 2 ^ 64" using h(2) N by simp
    from push_frames [OF h(1) counter_steps(1) [OF h(4) m] n(2) \<open>length input < 2 ^ 64\<close> this k accepted_def, of policy]
    obtain l' where l': "push_interleaved cfg policy input (db_channels cfg) l = (Ok (), l')"
      "bridge_holds valid cfg (H + accepted * unat (db_channels cfg)) (q @ take (accepted * unat (db_channels cfg)) input) d l'"
      "du_input_frames_received (lk_status l') = du_input_frames_received (lk_status l) + of_nat n"
      "du_overflow_count (lk_status l') = du_overflow_count (lk_status l) + of_nat (n - accepted)"
      "du_consecutive_overflows (lk_status l') = (if n - accepted = 0 then 0 else du_consecutive_overflows (lk_status l) + 1)"
      "du_fill_frames (lk_status l') = of_nat (k + accepted)"
      "du_output_frames_requested (lk_status l') = du_output_frames_requested (lk_status l)"
      "du_sample_slips_inserted (lk_status l') = du_sample_slips_inserted (lk_status l)"
      "du_sample_slips_removed (lk_status l') = du_sample_slips_removed (lk_status l)"
      "du_underflow_count (lk_status l') = du_underflow_count (lk_status l)"
      "du_consecutive_underflows (lk_status l') = du_consecutive_underflows (lk_status l)"
      by blast
    have an: "accepted \<le> n" by (simp add: accepted_def)
    have "accepted * unat (db_channels cfg) \<le> length input" unfolding n(2) using an by (intro mult_right_mono) simp_all
    then have "H + accepted * unat (db_channels cfg) \<le> N + length input"
      and len: "length (q @ take (accepted * unat (db_channels cfg)) input) = (k + accepted) * unat (db_channels cfg)"
      using h(2) k by (simp_all add: add_mult_distrib min_absorb2)
    moreover have "length (q @ take (accepted * unat (db_channels cfg)) input) div unat (db_channels cfg) = k + accepted"
      unfolding len using c by simp
    moreover have "frames_balance (lk_status l')" if "du_underflow_count (lk_status l') = 0"
    proof -
      have "du_fill_frames (lk_status l) = of_nat k" using h(3) k c by simp
      moreover have "(of_nat n :: u64) = of_nat (n - accepted) + of_nat accepted" using an by (simp add: of_nat_diff)
      ultimately show ?thesis using h(7) that l' by (simp add: frames_balance_def algebra_simps)
    qed
    ultimately have "flow_inv valid cfg (Suc m) (N + length input) d l'"
      unfolding flow_inv_def using l'(2,5,6,10,11) h(5,6) counter_steps(2) [OF h(4) m]
      by (intro exI [of _ "H + accepted * unat (db_channels cfg)"] exI [of _ "q @ take (accepted * unat (db_channels cfg)) input"])
        (simp del: length_append)
    then show ?thesis using l'(1) n(1) by blast
  qed
qed

lemma balance_shift:
  fixes a :: u64
  assumes "a + i = ov + f + req + r" "k + n + sr = f + si"
  shows "a + (i + si) = ov + k + (req + n) + (r + sr)"
proof -
  have "a + (i + si) = ov + req + r + (f + si)" using assms(1) by (simp add: algebra_simps)
  then show ?thesis unfolding assms(2) [symmetric] by (simp add: algebra_simps)
qed

context drift_compensator_laws
begin

lemma read_step:
  assumes inv: "flow_inv valid cfg m N d l" and m: "Suc m < 2 ^ 64" and out: "out \<noteq> []" "length out < 2 ^ 64"
  shows "\<exists>samples d' l'. read_interleaved V cfg policy out channels d l = (Ok (), samples, d', l')
    \<and> length samples = length out \<and> flow_inv valid cfg (Suc m) N d' l'"
proof -
  obtain H q where h: "bridge_holds valid cfg H q d l" "H \<le> N"
     "du_fill_frames (lk_status l) = of_nat (length q div unat (db_channels cfg))"
     "unat (du_consecutive_overflows (lk_status l)) \<le> m" "unat (du_consecutive_underflows (lk_status l)) \<le> m"
     "unat (du_underflow_count (lk_status l)) \<le> m"
     "du_underflow_count (lk_status l) = 0 \<Longrightarrow> frames_balance (lk_status l)"
    using inv by (auto simp: flow_inv_def)
  let ?bad = "channels \<noteq> db_channels cfg \<or> channels = 0 \<or> of_nat (length out) mod channels \<noteq> (0 :: usize)"
  show ?thesis
  proof (cases ?bad)
    case True
    then have "read_interleaved V cfg policy out channels d l
        = (Ok (), replicate (length out) 0, d, l\<lparr>lk_status := mark_clock_discontinuity ((lk_status l)\<lparr>du_fault := duplex_fault_code DfOutputFormat\<rparr>)\<rparr>)"
      unfolding read_interleaved_def Let_def by (simp only: if_True)
    then show ?thesis using h
      by (auto simp: flow_inv_def bridge_holds_def mark_clock_discontinuity_def frames_balance_def
          intro!: exI [of _ H] exI [of _ q])
  next
    case False
    from shaped_call [OF False out(2)] out(1) obtain n where n: "channels = db_channels cfg" "length out = n * unat (db_channels cfg)" "0 < n"
      by metis
    have c: "0 < unat (db_channels cfg)" using h(1) by (simp add: bridge_holds_def consumer_shape_def)
    obtain played q' where spec: "read_spec V cfg n q d l = (played, q')" by fastforce
    from read_plays [OF h(1) counter_steps(1) [OF h(5) m] n(2) out(2) n(3) spec, of policy]
    obtain correction k d' l' where r: "read_interleaved V cfg policy out (db_channels cfg) d l
      = (Ok (), (case played of None \<Rightarrow> replicate (length out) 0 | Some xs \<Rightarrow> xs), d', l')"
      "bridge_holds valid cfg H q' d' l'" "length q' = k * unat (db_channels cfg)"
      "read_counts (of_nat n) correction played k (lk_status l) (lk_status l')"
      "played = None \<or> of_nat k + of_nat n + snd (slips correction played)
          = (of_nat (length q div unat (db_channels cfg)) + fst (slips correction played) :: u64)"
      "\<forall>xs. played = Some xs \<longrightarrow> length xs = n * unat (db_channels cfg)" by blast
    have "flow_inv valid cfg (Suc m) N d' l'"
    proof (cases "played = None")
      case True
      then show ?thesis
        unfolding flow_inv_def using r(2-4) h(2,4) c counter_steps(2,3) [OF h(6) m] counter_steps(2) [OF h(5) m]
        by (intro exI [of _ H] exI [of _ q']) (simp add: read_counts_def)
    next
      case False
      have "frames_balance (lk_status l')" if "du_underflow_count (lk_status l') = 0"
      proof -
        have b: "frames_balance (lk_status l)" using that r(4) False h(7) by (simp add: read_counts_def)
        have s: "of_nat k + of_nat n + snd (slips correction played)
            = du_fill_frames (lk_status l) + fst (slips correction played)"
          using r(5) False h(3) by simp
        have c: "du_input_frames_received (lk_status l') = du_input_frames_received (lk_status l)"
          "du_overflow_count (lk_status l') = du_overflow_count (lk_status l)"
          "du_output_frames_requested (lk_status l') = du_output_frames_requested (lk_status l) + of_nat n"
          "du_sample_slips_inserted (lk_status l') = du_sample_slips_inserted (lk_status l) + fst (slips correction played)"
          "du_sample_slips_removed (lk_status l') = du_sample_slips_removed (lk_status l) + snd (slips correction played)"
          "du_fill_frames (lk_status l') = of_nat k"
          using r(4) unfolding read_counts_def by blast+
        show ?thesis unfolding frames_balance_def c by (rule balance_shift [OF b [unfolded frames_balance_def] s])
      qed
      then show ?thesis
        unfolding flow_inv_def using r(2-4) False h(2,4,6) c
        by (intro exI [of _ H] exI [of _ q']) (simp add: read_counts_def)
    qed
    then show ?thesis using r(1,6) n(1,2) by (cases played) auto
  qed
qed

lemma run_flow:
  "flow_inv valid cfg m N d l \<Longrightarrow> m + length calls < 2 ^ 64 \<Longrightarrow> N + sum_list (map pushed_samples calls) < 2 ^ 64 \<Longrightarrow>
     list_all possible_call calls \<Longrightarrow>
     \<exists>played d' l'. duplex_run V cfg policy calls (d, l) = Some (played, d', l')
       \<and> flow_inv valid cfg (m + length calls) (N + sum_list (map pushed_samples calls)) d' l'"
proof (induction calls arbitrary: m N d l)
  case (Cons call calls)
  have m: "Suc m < 2 ^ 64 \<or> calls = [] \<and> Suc m < 2 ^ 64" "Suc m + length calls < 2 ^ 64" using Cons.prems(2) by auto
  show ?case
  proof (cases call)
    case (PushCall input channels)
    have "N + length input < 2 ^ 64" using Cons.prems(3) PushCall by simp
    from push_step [OF Cons.prems(1) _ this, of policy channels] m obtain l' where
      "push_interleaved cfg policy input channels l = (Ok (), l')" "flow_inv valid cfg (Suc m) (N + length input) d l'" by blast
    with Cons.IH [OF this(2) m(2)] Cons.prems(3,4) show ?thesis by (simp add: PushCall add.assoc)
  next
    case (ReadCall out channels)
    have "out \<noteq> []" "length out < 2 ^ 64" using Cons.prems(4) ReadCall by simp_all
    from read_step [OF Cons.prems(1) _ this, of policy channels] m obtain samples d' l' where
      r: "read_interleaved V cfg policy out channels d l = (Ok (), samples, d', l')" "flow_inv valid cfg (Suc m) N d' l'" by blast
    from Cons.IH [OF r(2) m(2)] Cons.prems(3,4) ReadCall obtain played d'' l'' where
      "duplex_run V cfg policy calls (d', l') = Some (played, d'', l'')"
      "flow_inv valid cfg (Suc m + length calls) (N + sum_list (map pushed_samples calls)) d'' l''" by auto
    then show ?thesis using r(1) by (simp add: ReadCall)
  qed
qed simp

end

section \<open>Properties\<close>

text \<open>The samples waiting in the ring, oldest first.\<close>

definition link_samples :: "duplex_link \<Rightarrow> f32 list" where
  "link_samples l = get_samples (lk_queue l) (ring_tail (lk_queue l)) (unat (ring_len_samples (lk_queue l)))"

lemma rep_samples: "ring_rep (lk_queue l) H q \<Longrightarrow> link_samples l = q"
proof -
  assume r: "ring_rep (lk_queue l) H q"
  then obtain T where h: "ring_holds (lk_queue l) H T" and q: "ring_queue (lk_queue l) H T = q" by (auto simp: ring_rep_def)
  have "length q = H - T" unfolding q [symmetric] by (simp add: ring_queue_def)
  then have "T + length q \<le> H" using h by (simp add: ring_holds_def Let_def)
  from get_samples_holds [OF h this] show ?thesis by (simp add: link_samples_def rep_bounds(5) [OF r] q)
qed

lemma bridge_samples: "bridge_holds valid cfg H q d l \<Longrightarrow> link_samples l = q"
  unfolding bridge_holds_def by (elim conjE) (rule rep_samples)

lemma new_bridge_flow:
  assumes "create_duplex_bridge_with_compensator cfg strategy = Ok (d, l)" "valid strategy" "2 * unat (db_channels cfg) < 2 ^ 64"
  shows "flow_inv valid cfg 0 0 d l"
proof -
  obtain capacity r where new: "checked_mul (db_capacity_frames cfg) (db_channels cfg) = Some capacity" "ring_new capacity = Some r"
    "d = \<lparr>dc_compensator = strategy, dc_last_frame = replicate (unat (db_channels cfg)) 0,
          dc_peek_frame = replicate (unat (db_channels cfg)) 0,
          dc_transition_frames = replicate (unat (db_channels cfg) * 2) 0, dc_has_last_frame = False\<rparr>"
    "l = \<lparr>lk_queue = r, lk_status = duplex_status_new (db_capacity_frames cfg)\<rparr>" "db_channels cfg \<noteq> 0"
    using assms(1)
    by (auto simp: create_duplex_bridge_with_compensator_def Let_def split: if_splits option.splits)
  have cap: "capacity \<noteq> 0" "r = \<lparr>ring_slots = replicate (unat capacity) 0, ring_head = 0, ring_tail = 0\<rparr>"
    using new(2) by (auto simp: ring_new_def split: if_splits)
  have "ring_holds r 0 0"
    using cap unsigned_less [of capacity, where ?'a = nat] by (simp add: ring_holds_def wrap_safe_def unat_gt_0)
  then have "ring_rep r 0 []" unfolding ring_rep_def by (intro exI [of _ 0]) (simp add: ring_queue_def)
  moreover have "unat capacity = unat (db_capacity_frames cfg) * unat (db_channels cfg)"
    using new(1) unfolding checked_mul_Some by (elim conjE)
  ultimately show ?thesis
    using assms(2,3) new(5) unfolding flow_inv_def
    by (intro exI [of _ 0] exI [of _ "[]"])
      (simp add: new(3,4) cap(2) bridge_holds_def consumer_shape_def duplex_status_new_def frames_balance_def unat_gt_0)
qed

text \<open>
  C21: No sequence of input and output callbacks makes a duplex bridge with the threshold
  compensator, with correction windows of at most 4096 frames, panic, as long as every read asks
  for at least one sample (an empty one panics when an insertion is selected): callbacks of the
  wrong shape only raise a fault.  The fill reported never exceeds the capacity, and while no read has
  underflowed, frames are conserved: the frames received and inserted are those rejected,
  waiting, requested and removed.
\<close>

theorem duplex_frames_conserved:
  assumes "create_duplex_bridge_with_compensator cfg strategy = Ok (d, l)" and "threshold_valid strategy"
    and "2 * unat (db_channels cfg) < 2 ^ 64" and "list_all possible_call calls"
    and "length calls < 2 ^ 64" and "sum_list (map pushed_samples calls) < 2 ^ 64"
  shows "\<exists>played d' l'. duplex_run threshold_drift cfg policy calls (d, l) = Some (played, d', l')
    \<and> unat (sn_fill_frames (duplex_snapshot_of (lk_status l'))) \<le> unat (db_capacity_frames cfg)
    \<and> (sn_underflow_count (duplex_snapshot_of (lk_status l')) = 0 \<longrightarrow>
        sn_input_frames_received (duplex_snapshot_of (lk_status l')) + sn_sample_slips_inserted (duplex_snapshot_of (lk_status l'))
        = sn_overflow_count (duplex_snapshot_of (lk_status l')) + sn_fill_frames (duplex_snapshot_of (lk_status l'))
          + sn_output_frames_requested (duplex_snapshot_of (lk_status l')) + sn_sample_slips_removed (duplex_snapshot_of (lk_status l')))"
proof -
  from threshold.run_flow [OF new_bridge_flow [OF assms(1), of threshold_valid, OF assms(2,3)], of calls policy] assms(4-6)
  obtain played d' l' where run: "duplex_run threshold_drift cfg policy calls (d, l) = Some (played, d', l')"
    "flow_inv threshold_valid cfg (length calls) (sum_list (map pushed_samples calls)) d' l'" by auto
  then obtain H q where q: "bridge_holds threshold_valid cfg H q d' l'"
    "du_fill_frames (lk_status l') = of_nat (length q div unat (db_channels cfg))"
    "du_underflow_count (lk_status l') = 0 \<longrightarrow> frames_balance (lk_status l')" by (auto simp: flow_inv_def)
  have "length q \<le> unat (db_capacity_frames cfg) * unat (db_channels cfg)" "0 < unat (db_channels cfg)"
    using q(1) rep_bounds(1) [of "lk_queue l'" H q] by (auto simp: bridge_holds_def consumer_shape_def)
  then have "length q div unat (db_channels cfg) \<le> unat (db_capacity_frames cfg)"
    by (metis div_le_mono nonzero_mult_div_cancel_right not_less0)
  then have "unat (du_fill_frames (lk_status l')) \<le> unat (db_capacity_frames cfg)"
    using unsigned_less [of "db_capacity_frames cfg", where ?'a = nat] by (simp add: q(2) unat_of_nat)
  then show ?thesis using run(1) q(3) by (simp add: duplex_snapshot_of_def frames_balance_def)
qed

text \<open>
  C22: After any such callbacks, with such windows, the bridge is a bounded queue of samples.  A push appends the
  frames that fit.  A read of \<open>n\<close> frames plays what the specification \<open>read_spec\<close> takes from the
  queue, or silence, and leaves the rest: \<open>n\<close> frames unchanged without a correction, and with
  one the last frame again or the interpolated window, then the following frames unchanged.
\<close>

theorem duplex_refines_queue:
  assumes "create_duplex_bridge_with_compensator cfg strategy = Ok (d, l)" and "threshold_valid strategy"
    and "2 * unat (db_channels cfg) < 2 ^ 64" and "list_all possible_call calls"
    and "Suc (length calls) < 2 ^ 64" and "sum_list (map pushed_samples calls) + length input < 2 ^ 64"
    and "duplex_run threshold_drift cfg policy calls (d, l) = Some (played, d', l')"
    and "length input = m * unat (db_channels cfg)"
    and "length out = n * unat (db_channels cfg)" and "length out < 2 ^ 64" and "0 < n"
  shows "(\<exists>l2. push_interleaved cfg policy input (db_channels cfg) l' = (Ok (), l2)
      \<and> link_samples l2 = link_samples l' @ take (unat (db_capacity_frames cfg) * unat (db_channels cfg) - length (link_samples l')) input)
    \<and> (\<exists>d2 l2. read_interleaved threshold_drift cfg policy out (db_channels cfg) d' l'
        = (Ok (), (case fst (read_spec threshold_drift cfg n (link_samples l') d' l') of
                     None \<Rightarrow> replicate (length out) 0 | Some xs \<Rightarrow> xs), d2, l2)
      \<and> link_samples l2 = snd (read_spec threshold_drift cfg n (link_samples l') d' l'))"
proof -
  from threshold.run_flow [OF new_bridge_flow [OF assms(1), of threshold_valid, OF assms(2,3)], of calls policy] assms(4-7)
  have "flow_inv threshold_valid cfg (length calls) (sum_list (map pushed_samples calls)) d' l'" by auto
  then obtain H q where q: "bridge_holds threshold_valid cfg H q d' l'" "H \<le> sum_list (map pushed_samples calls)"
    "unat (du_consecutive_overflows (lk_status l')) \<le> length calls" "unat (du_consecutive_underflows (lk_status l')) \<le> length calls"
    by (auto simp: flow_inv_def)
  have r: "ring_rep (lk_queue l') H q" and c: "0 < unat (db_channels cfg)"
    using q(1) by (simp_all add: bridge_holds_def consumer_shape_def)
  obtain k where k: "length q = k * unat (db_channels cfg)" using q(1) by (metis bridge_holds_def dvd_def mult.commute)
  have input: "length input < 2 ^ 64" "H + length input < 2 ^ 64" using assms(6) q(2) by simp_all
  from push_frames [OF q(1) counter_steps(1) [OF q(3) assms(5)] assms(8) input k refl, of policy] obtain l2 where
    l2: "push_interleaved cfg policy input (db_channels cfg) l' = (Ok (), l2)"
      "bridge_holds threshold_valid cfg (H + min m (unat (db_capacity_frames cfg) - k) * unat (db_channels cfg))
        (q @ take (min m (unat (db_capacity_frames cfg) - k) * unat (db_channels cfg)) input) d' l2" by blast
  have "take (min m (unat (db_capacity_frames cfg) - k) * unat (db_channels cfg)) input
      = take (unat (db_capacity_frames cfg) * unat (db_channels cfg) - length q) input"
  proof (cases "m \<le> unat (db_capacity_frames cfg) - k")
    case True
    then have "m * unat (db_channels cfg) \<le> (unat (db_capacity_frames cfg) - k) * unat (db_channels cfg)"
      by (rule mult_right_mono) simp
    then show ?thesis using True assms(8) k by (simp add: diff_mult_distrib)
  qed (simp add: k diff_mult_distrib min_def)
  moreover have "link_samples l2 = q @ take (min m (unat (db_capacity_frames cfg) - k) * unat (db_channels cfg)) input"
    by (rule bridge_samples [OF l2(2)])
  ultimately have push: "link_samples l2 = q @ take (unat (db_capacity_frames cfg) * unat (db_channels cfg) - length q) input"
    by simp
  obtain xs q' where spec: "read_spec threshold_drift cfg n q d' l' = (xs, q')" by fastforce
  from threshold.read_plays [OF q(1) counter_steps(1) [OF q(4) assms(5)] assms(9-11) spec, of policy]
  obtain d2 l3 where rd: "read_interleaved threshold_drift cfg policy out (db_channels cfg) d' l'
      = (Ok (), (case xs of None \<Rightarrow> replicate (length out) 0 | Some ys \<Rightarrow> ys), d2, l3)"
    "bridge_holds threshold_valid cfg H q' d2 l3" by blast
  have "link_samples l3 = q'" by (rule bridge_samples [OF rd(2)])
  then show ?thesis using l2(1) push rd(1) rep_samples [OF r] spec by simp
qed

text \<open>
  C23: A smoothed insertion looks one frame past those it consumes.  A callback that is served
  exactly, one frame short, by an insertion whose window spans it plays silence instead, and all
  but one of the waiting frames are lost.
\<close>

theorem duplex_insertion_starves:
  assumes "create_duplex_bridge_with_compensator cfg strategy = Ok (d, l)" and "threshold_valid strategy"
    and "2 * unat (db_channels cfg) < 2 ^ 64" and "list_all possible_call calls"
    and "Suc (length calls) < 2 ^ 64" and "sum_list (map pushed_samples calls) < 2 ^ 64"
    and "duplex_run threshold_drift cfg policy calls (d, l) = Some (played, d', l')"
    and "length out = n * unat (db_channels cfg)" and "length out < 2 ^ 64" and "2 \<le> n"
    and "selected_correction threshold_drift cfg (of_nat n) d' (lk_queue l') = (CorrectInsert, d1)"
    and "tc_transition (dc_compensator d1) \<noteq> TrRaw"
    and "n \<le> (if tc_transition (dc_compensator d1) = TrCrossfade then unat (tc_window_frames (dc_compensator d1)) else 2)"
    and "length (link_samples l') = (n - 1) * unat (db_channels cfg)"
  shows "\<exists>d2 l2. read_interleaved threshold_drift cfg policy out (db_channels cfg) d' l'
      = (Ok (), replicate (length out) 0, d2, l2) \<and> length (link_samples l2) = unat (db_channels cfg)"
proof -
  from threshold.run_flow [OF new_bridge_flow [OF assms(1), of threshold_valid, OF assms(2,3)], of calls policy] assms(4-7)
  have "flow_inv threshold_valid cfg (length calls) (sum_list (map pushed_samples calls)) d' l'" by auto
  then obtain H q where q: "bridge_holds threshold_valid cfg H q d' l'"
    "unat (du_consecutive_underflows (lk_status l')) \<le> length calls"
    by (auto simp: flow_inv_def)
  have r: "ring_rep (lk_queue l') H q" and c: "0 < unat (db_channels cfg)"
    using q(1) by (simp_all add: bridge_holds_def consumer_shape_def)
  have len: "length q = (n - 1) * unat (db_channels cfg)" using assms(14) rep_samples [OF r] by simp
  have span: "insertion_span (tc_transition (dc_compensator d1)) (unat (tc_window_frames (dc_compensator d1))) n = n"
    using assms(10,13) by (auto simp: insertion_span_def split: if_splits)
  have "(n - 1) * unat (db_channels cfg) < n * unat (db_channels cfg)" using c assms(10) by simp
  then have spec: "read_spec threshold_drift cfg n q d' l' = (None, drop ((n - 2) * unat (db_channels cfg)) q)"
    using assms(10,12) len span by (simp add: read_spec_def assms(11) insertion_play_def threshold_parts Let_def)
  have n: "0 < n" using assms(10) by simp
  from threshold.read_plays [OF q(1) counter_steps(1) [OF q(2) assms(5)] assms(8,9) n spec, of policy]
  obtain d2 l2 where rd: "read_interleaved threshold_drift cfg policy out (db_channels cfg) d' l' = (Ok (), replicate (length out) 0, d2, l2)"
    "bridge_holds threshold_valid cfg H (drop ((n - 2) * unat (db_channels cfg)) q) d2 l2" by auto
  have "n - 1 = Suc (n - 2)" using assms(10) by simp
  then have "length (drop ((n - 2) * unat (db_channels cfg)) q) = unat (db_channels cfg)" by (simp add: len)
  then show ?thesis using rd(1) bridge_samples [OF rd(2)] by simp
qed

section \<open>Witnesses\<close>

text \<open>A mono bridge of eight frames that wants to hold seven.\<close>

definition mono_cfg :: duplex_bridge_config where
  "mono_cfg = \<lparr>db_channels = 1, db_capacity_frames = 8, db_target_fill_frames = 7, db_correction_threshold_frames = 0\<rparr>"

definition mono_consumer :: "bool \<Rightarrow> threshold_compensator duplex_consumer" where
  "mono_consumer played = \<lparr>dc_compensator = threshold_default, dc_last_frame = [0], dc_peek_frame = [0],
     dc_transition_frames = [0, 0], dc_has_last_frame = played\<rparr>"

definition mono_link :: duplex_link where
  "mono_link = \<lparr>lk_queue = \<lparr>ring_slots = [0, 0, 0, 0, 0, 0, 0, 0], ring_head = 0, ring_tail = 0\<rparr>,
     lk_status = duplex_status_new 8\<rparr>"

lemma mono_bridge: "create_duplex_bridge_with_compensator mono_cfg threshold_default = Ok (mono_consumer False, mono_link)"
proof -
  have "replicate 8 (0 :: f32) = [0, 0, 0, 0, 0, 0, 0, 0]" "replicate 2 (0 :: f32) = [0, 0]"
    by (simp_all add: numeral_eq_Suc)
  moreover have "checked_mul 8 1 = Some (8 :: usize)" by (simp add: checked_mul_def)
  ultimately show ?thesis
    by (simp add: create_duplex_bridge_with_compensator_def mono_cfg_def ring_new_def mono_consumer_def mono_link_def)
qed

definition pushed_link :: duplex_link where
  "pushed_link = snd (push_interleaved mono_cfg duplex_policy_default [1, 2, 3, 4, 5, 6, 7, 8] 1 mono_link)"

lemma mono_pushed:
  "push_interleaved mono_cfg duplex_policy_default [1, 2, 3, 4, 5, 6, 7, 8] 1 mono_link = (Ok (), pushed_link)"
  "lk_queue pushed_link = \<lparr>ring_slots = [1, 2, 3, 4, 5, 6, 7, 8], ring_head = 8, ring_tail = 0\<rparr>"
  by (simp_all add: pushed_link_def push_interleaved_def mono_cfg_def mono_link_def ring_capacity_def ring_len_samples_def
      try_push_samples_def Let_def saturating_sub_def ring_index_def duplex_status_new_def)

definition served_link :: duplex_link where
  "served_link = snd (snd (snd (read_interleaved threshold_drift mono_cfg duplex_policy_default [0] 1 (mono_consumer False) pushed_link)))"

definition served_consumer :: "threshold_compensator duplex_consumer" where
  "served_consumer = (mono_consumer False)\<lparr>dc_last_frame := [1], dc_has_last_frame := True\<rparr>"

lemma mono_served:
  "read_interleaved threshold_drift mono_cfg duplex_policy_default [0] 1 (mono_consumer False) pushed_link
     = (Ok (), [1], served_consumer, served_link)"
  "lk_queue served_link = \<lparr>ring_slots = [1, 2, 3, 4, 5, 6, 7, 8], ring_head = 8, ring_tail = 1\<rparr>"
proof -
  have cfg: "db_channels mono_cfg = 1" by (simp add: mono_cfg_def)
  have ch: "chunks_exact (Suc 0) [1 :: f32] = [[1]]" by (subst chunks_exact.simps) (simp add: chunks_exact_Nil)
  have sel: "selected_correction threshold_drift mono_cfg 1 (mono_consumer False) (lk_queue pushed_link) = (CorrectNone, mono_consumer False)"
    by (simp add: selected_correction_def mono_pushed(2) mono_cfg_def mono_consumer_def threshold_drift_def threshold_select_def
        threshold_default_def threshold_new_def ring_len_samples_def ring_capacity_def saturating_sub_def saturating_add_def
        checked_add_def Let_def)
  show "read_interleaved threshold_drift mono_cfg duplex_policy_default [0] 1 (mono_consumer False) pushed_link
     = (Ok (), [1], served_consumer, served_link)"
    "lk_queue served_link = \<lparr>ring_slots = [1, 2, 3, 4, 5, 6, 7, 8], ring_head = 8, ring_tail = 1\<rparr>"
    unfolding served_link_def
    by (simp_all add: read_interleaved_def sel [unfolded mono_pushed(2)] mono_pushed(2) cfg play_correction_def consumed_frames_def ring_len_samples_def
        ring_capacity_def try_pop_samples_def get_samples_def ring_index_def finish_read_def ch Let_def served_consumer_def)
qed

lemma default_window: "max (16 :: usize) 1 = 16"
  by (simp add: max_def word_le_nat_alt)

lemma mono_runs:
  "duplex_run threshold_drift mono_cfg duplex_policy_default [PushCall [1, 2, 3, 4, 5, 6, 7, 8] 1] (mono_consumer False, mono_link)
     = Some ([], mono_consumer False, pushed_link)"
  "duplex_run threshold_drift mono_cfg duplex_policy_default [PushCall [1, 2, 3, 4, 5, 6, 7, 8] 1, ReadCall [0] 1]
     (mono_consumer False, mono_link) = Some ([[1]], served_consumer, served_link)"
  "threshold_valid threshold_default" "2 * unat (db_channels mono_cfg) < 2 ^ 64"
proof -
  show "duplex_run threshold_drift mono_cfg duplex_policy_default [PushCall [1, 2, 3, 4, 5, 6, 7, 8] 1] (mono_consumer False, mono_link)
     = Some ([], mono_consumer False, pushed_link)"
    "duplex_run threshold_drift mono_cfg duplex_policy_default [PushCall [1, 2, 3, 4, 5, 6, 7, 8] 1, ReadCall [0] 1]
     (mono_consumer False, mono_link) = Some ([[1]], served_consumer, served_link)"
    by (simp_all add: mono_pushed(1) mono_served(1))
  show "threshold_valid threshold_default" "2 * unat (db_channels mono_cfg) < 2 ^ 64"
    by (simp_all add: threshold_valid_def threshold_default_def threshold_new_def default_window mono_cfg_def)
qed

lemma served_insertion:
  "selected_correction threshold_drift mono_cfg (of_nat 8) served_consumer (lk_queue served_link) = (CorrectInsert, served_consumer)"
  "length (link_samples served_link) = (8 - 1) * unat (db_channels mono_cfg)"
  by (simp_all add: selected_correction_def mono_served(2) mono_cfg_def served_consumer_def mono_consumer_def threshold_drift_def
      threshold_select_def threshold_default_def threshold_new_def ring_len_samples_def ring_capacity_def saturating_sub_def
      saturating_add_def checked_add_def link_samples_def get_samples_def Let_def)

lemma duplex_frames_conserved_witness:
  "\<exists>played d' l'. duplex_run threshold_drift mono_cfg duplex_policy_default
       [PushCall [1, 2, 3, 4, 5, 6, 7, 8] 1, ReadCall [0] 1, ReadCall [0, 0, 0] 2] (mono_consumer False, mono_link) = Some (played, d', l')
     \<and> unat (sn_fill_frames (duplex_snapshot_of (lk_status l'))) \<le> unat (db_capacity_frames mono_cfg)"
  using duplex_frames_conserved [OF mono_bridge mono_runs(3,4),
      of "[PushCall [1, 2, 3, 4, 5, 6, 7, 8] 1, ReadCall [0] 1, ReadCall [0, 0, 0] 2]" duplex_policy_default]
  by auto

lemma duplex_refines_queue_witness:
  "(\<exists>l2. push_interleaved mono_cfg duplex_policy_default [9] (db_channels mono_cfg) served_link = (Ok (), l2)
      \<and> link_samples l2 = link_samples served_link @ take (unat (db_capacity_frames mono_cfg) * unat (db_channels mono_cfg) - length (link_samples served_link)) [9])
    \<and> (\<exists>d2 l2. read_interleaved threshold_drift mono_cfg duplex_policy_default [0, 0] (db_channels mono_cfg) served_consumer served_link
        = (Ok (), (case fst (read_spec threshold_drift mono_cfg 2 (link_samples served_link) served_consumer served_link) of
                     None \<Rightarrow> replicate (length [0 :: f32, 0]) 0 | Some xs \<Rightarrow> xs), d2, l2)
      \<and> link_samples l2 = snd (read_spec threshold_drift mono_cfg 2 (link_samples served_link) served_consumer served_link))"
  by (rule duplex_refines_queue [OF mono_bridge mono_runs(3,4) _ _ _ mono_runs(2), where m = 1])
    (simp_all add: mono_cfg_def)

lemma duplex_insertion_starves_witness:
  "\<exists>d2 l2. read_interleaved threshold_drift mono_cfg duplex_policy_default [0, 0, 0, 0, 0, 0, 0, 0] (db_channels mono_cfg)
       served_consumer served_link = (Ok (), replicate (length [0 :: f32, 0, 0, 0, 0, 0, 0, 0]) 0, d2, l2)
     \<and> length (link_samples l2) = unat (db_channels mono_cfg)"
  by (rule duplex_insertion_starves [OF mono_bridge mono_runs(3,4) _ _ _ mono_runs(2) _ _ _ served_insertion(1) _ _ served_insertion(2)])
    (simp_all add: mono_cfg_def served_consumer_def mono_consumer_def threshold_default_def threshold_new_def default_window)

end
