(* ===== verification/Drift_Control.thy ===== *)
theory Drift_Control
  imports Ieee_Float
begin

text \<open>
  The clock estimator and the ratio controller of the adaptive duplex bridge,
  \<open>src/crates/aurora-realtime-engine/src/estimator.rs\<close> and \<open>drift_controller.rs\<close>.
\<close>

section \<open>The estimator\<close>

text \<open>\<open>history: [f64; 3]\<close> is a list of three floats.\<close>

definition MEDIAN_WINDOW_COUNT :: u8 where "MEDIAN_WINDOW_COUNT = 3"

record ppm_estimator_config =
  pe_input_rate :: u32
  pe_output_rate :: u32
  pe_window_output_frames :: u64
  pe_trusted_windows :: u8
  pe_maximum_abs_ppm :: f64

datatype ppm_estimator_error = PeInvalidConfiguration | PeEstimateOutOfRange

record ppm_estimate =
  es_ppm :: f64
  es_trusted :: bool
  es_clean_windows :: u8

record ppm_estimator =
  pe_config :: ppm_estimator_config
  pe_input_frames :: u64
  pe_output_frames :: u64
  pe_history :: "f64 list"
  pe_history_len :: u8
  pe_history_cursor :: u8

definition estimator_new :: "ppm_estimator_config \<Rightarrow> (ppm_estimator, ppm_estimator_error) outcome" where
  "estimator_new c =
     (if pe_input_rate c = 0 \<or> pe_output_rate c = 0 \<or> pe_window_output_frames c = 0
         \<or> pe_trusted_windows c = 0 \<or> MEDIAN_WINDOW_COUNT < pe_trusted_windows c
         \<or> \<not> f64_is_finite (pe_maximum_abs_ppm c) \<or> f64_le (pe_maximum_abs_ppm c) 0
      then Err PeInvalidConfiguration
      else Ok \<lparr>pe_config = c, pe_input_frames = 0, pe_output_frames = 0, pe_history = [0, 0, 0],
               pe_history_len = 0, pe_history_cursor = 0\<rparr>)"

definition clear_history :: "ppm_estimator \<Rightarrow> ppm_estimator" where
  "clear_history e = e\<lparr>pe_history := [0, 0, 0], pe_history_len := 0, pe_history_cursor := 0\<rparr>"

definition estimator_reset :: "ppm_estimator \<Rightarrow> ppm_estimator" where
  "estimator_reset e = clear_history (e\<lparr>pe_input_frames := 0, pe_output_frames := 0\<rparr>)"

definition median3 :: "f64 \<Rightarrow> f64 \<Rightarrow> f64 \<Rightarrow> f64" where
  "median3 a b c =
     (if f64_less b a then if f64_less c b then b else if f64_less c a then c else a
      else if f64_less c a then a
      else if f64_less c b then c
      else b)"

text \<open>\<open>0.5\<close> is \<open>0x3FE0000000000000\<close>.\<close>

definition filtered_ppm :: "ppm_estimator \<Rightarrow> f64" where
  "filtered_ppm e =
     (let h = pe_history e in
      if pe_history_len e = 0 then 0
      else if pe_history_len e = 1 then h ! 0
      else if pe_history_len e = 2 then f64_mul (f64_add (h ! 0) (h ! 1)) 0x3FE0000000000000
      else median3 (h ! 0) (h ! 1) (h ! 2))"

text \<open>\<open>1_000_000.0\<close> is \<open>0x412E848000000000\<close>, \<open>1.0\<close> is \<open>0x3FF0000000000000\<close>.\<close>

definition window_ppm :: "ppm_estimator \<Rightarrow> f64" where
  "window_ppm e =
     (let expected_input = f64_div (f64_mul (f64_of_nat (unat (pe_output_frames e)))
                                            (f64_of_nat (unat (pe_input_rate (pe_config e)))))
                                   (f64_of_nat (unat (pe_output_rate (pe_config e)))) in
      f64_mul (f64_sub (f64_div (f64_of_nat (unat (pe_input_frames e))) expected_input) 0x3FF0000000000000)
        0x412E848000000000)"

definition record_window :: "f64 \<Rightarrow> ppm_estimator \<Rightarrow> ppm_estimator" where
  "record_window ppm e =
     e\<lparr>pe_history := (pe_history e)[unat (pe_history_cursor e) := ppm],
       pe_history_cursor := (pe_history_cursor e + 1) mod MEDIAN_WINDOW_COUNT,
       pe_history_len := min (saturating_add (pe_history_len e) 1) MEDIAN_WINDOW_COUNT\<rparr>"

definition estimator_observe ::
  "u64 \<Rightarrow> u64 \<Rightarrow> bool \<Rightarrow> ppm_estimator \<Rightarrow> (ppm_estimate option, ppm_estimator_error) outcome \<times> ppm_estimator" where
  "estimator_observe input_frames output_frames discontinuity e =
     (if discontinuity then (Ok None, estimator_reset e)
      else if input_frames = 0 \<or> output_frames = 0 then (Err PeInvalidConfiguration, e)
      else
        case checked_add (pe_input_frames e) input_frames of
          None \<Rightarrow> (Err PeInvalidConfiguration, e)
        | Some inputs \<Rightarrow>
            let e1 = e\<lparr>pe_input_frames := inputs\<rparr> in
            (case checked_add (pe_output_frames e1) output_frames of
               None \<Rightarrow> (Err PeInvalidConfiguration, e1)
             | Some outputs \<Rightarrow>
                 let e2 = e1\<lparr>pe_output_frames := outputs\<rparr> in
                 if pe_output_frames e2 < pe_window_output_frames (pe_config e2) then (Ok None, e2)
                 else
                   let ppm = window_ppm e2; e3 = e2\<lparr>pe_input_frames := 0, pe_output_frames := 0\<rparr> in
                   if \<not> f64_is_finite ppm \<or> f64_less (pe_maximum_abs_ppm (pe_config e3)) (f64_abs ppm)
                   then (Err PeEstimateOutOfRange, clear_history e3)
                   else if length (pe_history e3) \<le> unat (pe_history_cursor e3) then (Panic, e3)
                   else
                     let e4 = record_window ppm e3 in
                     (Ok (Some \<lparr>es_ppm = filtered_ppm e4,
                                es_trusted = (pe_trusted_windows (pe_config e4) \<le> pe_history_len e4),
                                es_clean_windows = pe_history_len e4\<rparr>), e4)))"

section \<open>The controller\<close>

definition CLOCK_ESTIMATOR_WINDOW_SECONDS :: u64 where "CLOCK_ESTIMATOR_WINDOW_SECONDS = 10"

record drift_controller_config =
  dk_input_rate :: u32
  dk_output_rate :: u32
  dk_target_fill_frames :: usize
  dk_maximum_correction_ppm :: f64
  dk_proportional_gain_ppm :: f64
  dk_integral_gain_ppm_per_second :: f64
  dk_maximum_step_ppm :: f64
  dk_fatal_saturation_updates :: u64

text \<open>\<open>500.0\<close>, \<open>0.2\<close> and \<open>2.0\<close>.\<close>

definition controller_config_default :: drift_controller_config where
  "controller_config_default = \<lparr>dk_input_rate = 48000, dk_output_rate = 48000, dk_target_fill_frames = 1024,
     dk_maximum_correction_ppm = 0x407F400000000000, dk_proportional_gain_ppm = 0x407F400000000000,
     dk_integral_gain_ppm_per_second = 0x3FC999999999999A, dk_maximum_step_ppm = 0x4000000000000000,
     dk_fatal_saturation_updates = 1500\<rparr>"

datatype drift_controller_fault = DkInvalidConfiguration | DkCorrectionOutOfRange

record drift_controller_report =
  dr_ratio :: f64
  dr_correction_ppm :: f64
  dr_feedforward_correction_ppm :: f64
  dr_fill_error_frames :: int
  dr_minimum_ratio :: f64
  dr_maximum_ratio :: f64
  dr_saturation_count :: u64
  dr_consecutive_saturation :: u64

record drift_controller =
  dk_config :: drift_controller_config
  dk_nominal_ratio :: f64
  dk_current_correction_ppm :: f64
  dk_feedforward_correction_ppm :: f64
  dk_integral_ppm :: f64
  dk_minimum_ratio :: f64
  dk_maximum_ratio :: f64
  dk_saturation_count :: u64
  dk_consecutive_saturation :: u64
  dk_estimator :: ppm_estimator

text \<open>\<open>2_000.0\<close> is \<open>0x409F400000000000\<close>.\<close>

definition controller_new :: "drift_controller_config \<Rightarrow> (drift_controller, drift_controller_fault) outcome" where
  "controller_new c =
     (if dk_input_rate c = 0 \<or> dk_output_rate c = 0 \<or> dk_target_fill_frames c = 0
         \<or> \<not> f64_is_finite (dk_maximum_correction_ppm c) \<or> f64_le (dk_maximum_correction_ppm c) 0
         \<or> \<not> f64_is_finite (dk_proportional_gain_ppm c) \<or> f64_less (dk_proportional_gain_ppm c) 0
         \<or> \<not> f64_is_finite (dk_integral_gain_ppm_per_second c) \<or> f64_less (dk_integral_gain_ppm_per_second c) 0
         \<or> \<not> f64_is_finite (dk_maximum_step_ppm c) \<or> f64_le (dk_maximum_step_ppm c) 0
         \<or> dk_fatal_saturation_updates c = 0
      then Err DkInvalidConfiguration
      else
        let nominal = f64_div (f64_of_nat (unat (dk_output_rate c))) (f64_of_nat (unat (dk_input_rate c))) in
        case checked_mul (ucast (dk_output_rate c)) CLOCK_ESTIMATOR_WINDOW_SECONDS of
          None \<Rightarrow> Err DkInvalidConfiguration
        | Some window \<Rightarrow>
            (case estimator_new \<lparr>pe_input_rate = dk_input_rate c, pe_output_rate = dk_output_rate c,
                                  pe_window_output_frames = window, pe_trusted_windows = 3,
                                  pe_maximum_abs_ppm = 0x409F400000000000\<rparr> of
               Err _ \<Rightarrow> Err DkInvalidConfiguration
             | Panic \<Rightarrow> Panic
             | Ok estimator \<Rightarrow>
                 Ok \<lparr>dk_config = c, dk_nominal_ratio = nominal, dk_current_correction_ppm = 0,
                     dk_feedforward_correction_ppm = 0, dk_integral_ppm = 0, dk_minimum_ratio = nominal,
                     dk_maximum_ratio = nominal, dk_saturation_count = 0, dk_consecutive_saturation = 0,
                     dk_estimator = estimator\<rparr>))"

definition controller_reset :: "drift_controller \<Rightarrow> drift_controller" where
  "controller_reset k = k\<lparr>dk_current_correction_ppm := 0, dk_feedforward_correction_ppm := 0, dk_integral_ppm := 0,
     dk_minimum_ratio := dk_nominal_ratio k, dk_maximum_ratio := dk_nominal_ratio k, dk_saturation_count := 0,
     dk_consecutive_saturation := 0, dk_estimator := estimator_reset (dk_estimator k)\<rparr>"

definition clear_feedforward :: "drift_controller \<Rightarrow> drift_controller" where
  "clear_feedforward k = k\<lparr>dk_feedforward_correction_ppm := 0\<rparr>"

definition set_feedforward_clock_ppm ::
  "f64 \<Rightarrow> drift_controller \<Rightarrow> (unit, drift_controller_fault) outcome \<times> drift_controller" where
  "set_feedforward_clock_ppm ppm k =
     (if \<not> f64_is_finite ppm then (Err DkInvalidConfiguration, k)
      else (Ok (), k\<lparr>dk_feedforward_correction_ppm := f64_clamp (f64_neg ppm)
              (f64_neg (dk_maximum_correction_ppm (dk_config k))) (dk_maximum_correction_ppm (dk_config k))\<rparr>))"

definition observe_clock_frames ::
  "u64 \<Rightarrow> u64 \<Rightarrow> bool \<Rightarrow> drift_controller \<Rightarrow> (f64 option, drift_controller_fault) outcome \<times> drift_controller" where
  "observe_clock_frames input_frames output_frames discontinuity k =
     (case estimator_observe input_frames output_frames discontinuity (dk_estimator k) of
        (estimate, e) \<Rightarrow>
          let k1 = k\<lparr>dk_estimator := e\<rparr> in
          (case estimate of
             Ok (Some x) \<Rightarrow>
               if es_trusted x then
                 (case set_feedforward_clock_ppm (es_ppm x) k1 of
                    (Ok _, k2) \<Rightarrow> (Ok (Some (es_ppm x)), k2)
                  | (Err f, k2) \<Rightarrow> (Err f, k2)
                  | (Panic, k2) \<Rightarrow> (Panic, k2))
               else (Ok None, if discontinuity then controller_reset k1 else k1)
           | Ok None \<Rightarrow> (Ok None, if discontinuity then controller_reset k1 else k1)
           | Err PeEstimateOutOfRange \<Rightarrow> (Err DkCorrectionOutOfRange, clear_feedforward k1)
           | Err PeInvalidConfiguration \<Rightarrow> (Err DkInvalidConfiguration, clear_feedforward k1)
           | Panic \<Rightarrow> (Panic, k1)))"

definition f64_of_int :: "int \<Rightarrow> f64" where
  "f64_of_int i = f64_of (ExRat (i < 0) (nat \<bar>i\<bar>) 1)"

text \<open>The intermediate values of one update.\<close>

definition fill_error :: "usize \<Rightarrow> drift_controller_config \<Rightarrow> int" where
  "fill_error fill c = max (- (2 ^ 63)) (min (2 ^ 63 - 1) (int (unat fill) - int (unat (dk_target_fill_frames c))))"

definition normalized_error :: "usize \<Rightarrow> drift_controller_config \<Rightarrow> f64" where
  "normalized_error fill c = f64_div (f64_of_int (fill_error fill c)) (f64_of_nat (unat (dk_target_fill_frames c)))"

definition integral_candidate :: "usize \<Rightarrow> usize \<Rightarrow> drift_controller \<Rightarrow> f64" where
  "integral_candidate fill elapsed k =
     (let c = dk_config k;
          elapsed_seconds = f64_div (f64_of_nat (unat elapsed)) (f64_of_nat (unat (dk_output_rate c))) in
      f64_add (dk_integral_ppm k)
        (f64_mul (f64_mul (normalized_error fill c) (dk_integral_gain_ppm_per_second c)) elapsed_seconds))"

definition unconstrained_correction :: "usize \<Rightarrow> usize \<Rightarrow> drift_controller \<Rightarrow> f64" where
  "unconstrained_correction fill elapsed k =
     (let c = dk_config k; proportional = f64_mul (normalized_error fill c) (dk_proportional_gain_ppm c) in
      f64_sub (f64_sub (dk_feedforward_correction_ppm k) proportional) (integral_candidate fill elapsed k))"

definition constrained_correction :: "usize \<Rightarrow> usize \<Rightarrow> drift_controller \<Rightarrow> f64" where
  "constrained_correction fill elapsed k =
     (let maximum = dk_maximum_correction_ppm (dk_config k) in
      f64_clamp (unconstrained_correction fill elapsed k) (f64_neg maximum) maximum)"

text \<open>\<open>==\<close> of floats.\<close>

definition f64_eq :: "f64 \<Rightarrow> f64 \<Rightarrow> bool" where
  "f64_eq x y \<longleftrightarrow> f64_le x y \<and> f64_le y x"

definition correction_step :: "f64 \<Rightarrow> drift_controller \<Rightarrow> f64" where
  "correction_step constrained k =
     (let step = dk_maximum_step_ppm (dk_config k) in
      f64_add (dk_current_correction_ppm k)
        (f64_clamp (f64_sub constrained (dk_current_correction_ppm k)) (f64_neg step) step))"

definition correction_ratio :: "f64 \<Rightarrow> drift_controller \<Rightarrow> f64" where
  "correction_ratio correction k =
     f64_mul (dk_nominal_ratio k) (f64_add 0x3FF0000000000000 (f64_div correction 0x412E848000000000))"

definition controller_update ::
  "usize \<Rightarrow> int \<Rightarrow> usize \<Rightarrow> drift_controller
    \<Rightarrow> (drift_controller_report, drift_controller_fault) outcome \<times> drift_controller" where
  "controller_update fill trend elapsed k =
     (if elapsed = 0 then (Err DkInvalidConfiguration, k)
      else
        let error = normalized_error fill (dk_config k);
            candidate = integral_candidate fill elapsed k;
            unconstrained = unconstrained_correction fill elapsed k;
            constrained = constrained_correction fill elapsed k;
            saturated = (\<not> f64_eq constrained unconstrained);
            k1 = (if \<not> saturated \<or> f64_less 0 unconstrained \<and> f64_less 0 error
                     \<or> f64_less unconstrained 0 \<and> f64_less error 0
                  then k\<lparr>dk_integral_ppm := candidate\<rparr> else k);
            k2 = (if saturated
                  then k1\<lparr>dk_saturation_count := saturating_add (dk_saturation_count k1) 1,
                          dk_consecutive_saturation := saturating_add (dk_consecutive_saturation k1) 1\<rparr>
                  else k1\<lparr>dk_consecutive_saturation := 0\<rparr>);
            correction = correction_step constrained k2;
            ratio = correction_ratio correction k2;
            k3 = k2\<lparr>dk_current_correction_ppm := correction,
                    dk_minimum_ratio := f64_min (dk_minimum_ratio k2) ratio,
                    dk_maximum_ratio := f64_max (dk_maximum_ratio k2) ratio\<rparr> in
        if dk_fatal_saturation_updates (dk_config k3) \<le> dk_consecutive_saturation k3
        then (Err DkCorrectionOutOfRange, k3)
        else (Ok \<lparr>dr_ratio = ratio, dr_correction_ppm = correction,
                  dr_feedforward_correction_ppm = dk_feedforward_correction_ppm k3,
                  dr_fill_error_frames = fill_error fill (dk_config k3),
                  dr_minimum_ratio = dk_minimum_ratio k3, dr_maximum_ratio = dk_maximum_ratio k3,
                  dr_saturation_count = dk_saturation_count k3,
                  dr_consecutive_saturation = dk_consecutive_saturation k3\<rparr>, k3))"

section \<open>Simulated clocks\<close>

record adaptive_drift_simulation_report =
  ad_input_clock_ppm :: f64
  ad_duration_seconds :: u64
  ad_final_fill_frames :: f64
  ad_minimum_fill_frames :: f64
  ad_maximum_fill_frames :: f64
  ad_final_correction_ppm :: f64
  ad_saturation_count :: u64
  ad_bounded :: bool

definition f64_round :: "f64 \<Rightarrow> f64" where
  "f64_round x = f64_of (exact_round (f64_exact x))"

text \<open>\<open>usize::MAX as f64\<close>, \<open>i64::MIN as f64\<close> and \<open>i64::MAX as f64\<close> are \<open>2^64\<close>, \<open>-2^63\<close> and \<open>2^63\<close>.\<close>

definition simulated_fill :: "f64 \<Rightarrow> usize" where
  "simulated_fill fill = of_nat (cast_unsigned (2 ^ 64 - 1) (f64_exact (f64_clamp (f64_round fill) 0 0x43F0000000000000)))"

definition simulated_trend :: "f64 \<Rightarrow> drift_controller_config \<Rightarrow> int" where
  "simulated_trend fill c =
     cast_signed 64 (f64_exact (f64_clamp (f64_round (f64_sub fill (f64_of_nat (unat (dk_target_fill_frames c)))))
       0xC3E0000000000000 0x43E0000000000000))"

text \<open>One second per step; the loop stops when the fill leaves the capacity.\<close>

fun simulate_seconds ::
  "nat \<Rightarrow> f64 \<Rightarrow> usize \<Rightarrow> drift_controller \<Rightarrow> f64 \<Rightarrow> f64 \<Rightarrow> f64 \<Rightarrow> drift_controller_report
    \<Rightarrow> (f64 \<times> f64 \<times> f64 \<times> drift_controller_report \<times> bool, drift_controller_fault) outcome" where
  "simulate_seconds 0 ppm capacity k fill lowest highest final = Ok (fill, lowest, highest, final, True)"
| "simulate_seconds (Suc n) ppm capacity k fill lowest highest final =
     (case controller_update (simulated_fill fill) (simulated_trend fill (dk_config k))
             (ucast (dk_output_rate (dk_config k))) k of
        (Err f, _) \<Rightarrow> Err f
      | (Panic, _) \<Rightarrow> Panic
      | (Ok report, k1) \<Rightarrow>
          let fill1 = f64_add fill (f64_div (f64_mul (f64_of_nat (unat (dk_input_rate (dk_config k1))))
                                                     (f64_add ppm (dr_correction_ppm report))) 0x412E848000000000);
              lowest1 = f64_min lowest fill1; highest1 = f64_max highest fill1 in
          if f64_less fill1 0 \<or> f64_le (f64_of_nat (unat capacity)) fill1
          then Ok (fill1, lowest1, highest1, report, False)
          else simulate_seconds n ppm capacity k1 fill1 lowest1 highest1 report)"

definition simulate_adaptive_drift_inner ::
  "f64 \<Rightarrow> u64 \<Rightarrow> drift_controller_config \<Rightarrow> usize \<Rightarrow> f64 option
    \<Rightarrow> (adaptive_drift_simulation_report, drift_controller_fault) outcome" where
  "simulate_adaptive_drift_inner ppm duration c capacity feedforward =
     (case controller_new c of
        Err f \<Rightarrow> Err f
      | Panic \<Rightarrow> Panic
      | Ok k \<Rightarrow>
          (case (case feedforward of None \<Rightarrow> (Ok (), k) | Some x \<Rightarrow> set_feedforward_clock_ppm x k) of
             (Err f, _) \<Rightarrow> Err f
           | (Panic, _) \<Rightarrow> Panic
           | (Ok _, k1) \<Rightarrow>
               let fill = f64_of_nat (unat (dk_target_fill_frames c)) in
               (case controller_update (dk_target_fill_frames c) 0 (ucast (dk_output_rate c)) k1 of
                  (Err f, _) \<Rightarrow> Err f
                | (Panic, _) \<Rightarrow> Panic
                | (Ok report, k2) \<Rightarrow>
                    (case simulate_seconds (unat duration) ppm capacity k2 fill fill fill report of
                       Err f \<Rightarrow> Err f
                     | Panic \<Rightarrow> Panic
                     | Ok (fill1, lowest, highest, final, bounded) \<Rightarrow>
                         Ok \<lparr>ad_input_clock_ppm = ppm, ad_duration_seconds = duration, ad_final_fill_frames = fill1,
                             ad_minimum_fill_frames = lowest, ad_maximum_fill_frames = highest,
                             ad_final_correction_ppm = dr_correction_ppm final,
                             ad_saturation_count = dr_saturation_count final, ad_bounded = bounded\<rparr>))))"

definition simulate_adaptive_drift ::
  "f64 \<Rightarrow> u64 \<Rightarrow> drift_controller_config \<Rightarrow> usize
    \<Rightarrow> (adaptive_drift_simulation_report, drift_controller_fault) outcome" where
  "simulate_adaptive_drift ppm duration c capacity = simulate_adaptive_drift_inner ppm duration c capacity None"

end
