(* ===== verification/Float_Double.thy ===== *)
theory Float_Double
  imports Float_Grid
begin

text \<open>
  Real values of double-precision numbers: the operations as rounded reals, bounds, negation,
  clamping, and subtraction of close numbers, which is exact.
\<close>

section \<open>Values\<close>

definition real64 :: "f64 \<Rightarrow> real \<Rightarrow> bool" where
  "real64 x r \<longleftrightarrow> (\<exists>s a b. f64_exact x = ExRat s a b \<and> 0 < b \<and> r = rat_real s a b)"

lemma real64I: "f64_exact x = ExRat s a b \<Longrightarrow> real64 x (rat_real s a b)"
  using proper_f64 [of x] by (auto simp: real64_def)

lemma real64_unique: "real64 x r \<Longrightarrow> real64 x t \<Longrightarrow> r = t"
  by (auto simp: real64_def)

lemma real64_le: "real64 x r \<Longrightarrow> real64 y t \<Longrightarrow> f64_le x y \<longleftrightarrow> r \<le> t"
  by (auto simp: real64_def f64_le_def exact_le_rat simp del: exact_le.simps)

lemma real64_value: "real64 x r \<longleftrightarrow> (\<exists>s m e. f64_value x = Finite s m e \<and> r = sgn_of s * (real m * 2 powi e))"
proof
  assume "real64 x r"
  then obtain s a b where x: "f64_exact x = ExRat s a b" "r = rat_real s a b" by (auto simp: real64_def)
  show "\<exists>s m e. f64_value x = Finite s m e \<and> r = sgn_of s * (real m * 2 powi e)"
  proof (cases "f64_value x")
    case (Finite s' m e)
    then have "s' = s" "a = m * 2 ^ nat e" "b = 2 ^ nat (- e)" using x(1) by (simp_all add: f64_exact_def)
    then have "r = sgn_of s' * (real m * 2 powi e)" by (simp only: x(2) rat_real_def finite_ratio)
    then show ?thesis using Finite by blast
  qed (use x in \<open>simp_all add: f64_exact_def\<close>)
next
  assume "\<exists>s m e. f64_value x = Finite s m e \<and> r = sgn_of s * (real m * 2 powi e)"
  then obtain s m e where v: "f64_value x = Finite s m e" "r = sgn_of s * (real m * 2 powi e)" by blast
  then have "f64_exact x = ExRat s (m * 2 ^ nat e) (2 ^ nat (- e))" by (simp add: f64_exact_def)
  moreover have "r = rat_real s (m * 2 ^ nat e) (2 ^ nat (- e))" by (simp only: v(2) rat_real_def finite_ratio)
  ultimately show "real64 x r" unfolding real64_def by (metis zero_less_numeral zero_less_power)
qed

lemma f64_finite_value: "f64_is_finite x \<longleftrightarrow> (\<exists>s m e. f64_value x = Finite s m e)"
proof -
  have "unat x < 2 ^ 64" using unsigned_less [of x, where 'a = nat] by simp
  then have "unat (take_bit 11 (drop_bit 52 x)) = unat x div 2 ^ 52 mod 2 ^ 11"
    by (simp only: unsigned_take_bit_eq unsigned_drop_bit_eq) (simp add: take_bit_eq_mod drop_bit_eq_div)
  then have "f64_is_finite x \<longleftrightarrow> unat x div 2 ^ 52 mod 2 ^ 11 \<noteq> 2047"
    unfolding f64_is_finite_def word_unat_eq_iff by simp
  also have "\<dots> \<longleftrightarrow> unat x mod 2 ^ 63 div 2 ^ 52 \<noteq> 2047"
    using div_exp_mod_exp_eq [of "unat x" 52 11] by simp
  also have "\<dots> \<longleftrightarrow> unat x mod 2 ^ 63 < 2047 * 2 ^ 52"
  proof -
    have "n div 4503599627370496 \<noteq> 2047 \<longleftrightarrow> n < 2047 * 4503599627370496" if "n < 2048 * 4503599627370496" for n :: nat
      using that by linarith
    from this [of "unat x mod 2 ^ 63"] show ?thesis by simp
  qed
  finally show ?thesis
    by (auto simp: f64_value_def decode_float_def decode_magnitude_def infinity_bits_def Let_def)
qed

lemma real64_finite: "real64 x r \<Longrightarrow> f64_is_finite x"
  by (auto simp: real64_value f64_finite_value)

lemma finite_real64: "f64_is_finite x \<Longrightarrow> \<exists>r. real64 x r"
  by (auto simp: real64_value f64_finite_value)

text \<open>Significands and exponents.\<close>

lemma f64_value_ranges: "f64_value x = Finite s m e \<Longrightarrow> m < 2 ^ 53 \<and> - 1074 \<le> e \<and> e \<le> 971"
proof -
  assume v: "f64_value x = Finite s m e"
  define n where "n = unat x mod 2 ^ 63"
  have "n mod 2 ^ 52 < 2 ^ 52" by simp
  moreover have m: "m = (if n div 2 ^ 52 = 0 then n mod 2 ^ 52 else n mod 2 ^ 52 + 2 ^ 52)"
    and e: "e = - 1074 + int (n div 2 ^ 52 - 1)" and n: "n < 2047 * 2 ^ 52"
    using v by (simp_all add: n_def f64_value_def decode_float_def decode_magnitude_def infinity_bits_def
        exponent_floor_def Let_def split: if_splits)
  moreover have "n div 2 ^ 52 < 2047" using n by (simp add: less_mult_imp_div_less)
  ultimately show ?thesis by auto
qed

section \<open>Operations\<close>

lemma f64_add_real:
  assumes "real64 x r" "real64 y t"
  obtains s a b where "f64_add x y = f64_of (ExRat s a b)" "0 < b" "rat_real s a b = r + t"
proof -
  obtain s a b s' a' b' where xy: "f64_exact x = ExRat s a b" "0 < b" "r = rat_real s a b"
    "f64_exact y = ExRat s' a' b'" "0 < b'" "t = rat_real s' a' b'"
    using assms by (auto simp: real64_def)
  from exact_sum_rat [OF xy(2,5), of s a s' a'] show ?thesis
    using that xy by (metis f64_add_def)
qed

lemma f64_sub_real:
  assumes "real64 x r" "real64 y t"
  obtains s a b where "f64_sub x y = f64_of (ExRat s a b)" "0 < b" "rat_real s a b = r - t"
proof -
  obtain s a b where x: "f64_exact x = ExRat s a b" "0 < b" "r = rat_real s a b"
    using assms(1) by (auto simp: real64_def)
  from assms(2) obtain u m e where y: "f64_value y = Finite u m e" "t = sgn_of u * (real m * 2 powi e)"
    by (auto simp: real64_value)
  have neg: "rat_real (\<not> u) (m * 2 ^ nat e) (2 ^ nat (- e)) = - t"
    using finite_ratio [of m e] by (simp add: rat_real_def y(2) sgn_of_def)
  have "(0::nat) < 2 ^ nat (- e)" by simp
  from exact_sum_rat [OF x(2) this, of s a "\<not> u" "m * 2 ^ nat e"] obtain v c d where
    sum: "exact_sum (ExRat s a b) (ExRat (\<not> u) (m * 2 ^ nat e) (2 ^ nat (- e))) = ExRat v c d" "0 < d"
      "rat_real v c d = rat_real s a b + rat_real (\<not> u) (m * 2 ^ nat e) (2 ^ nat (- e))" by blast
  have "f64_sub x y = f64_of (ExRat v c d)" using sum(1) by (simp add: f64_sub_def x(1) y(1) del: exact_sum.simps)
  then show ?thesis using that sum(2,3) neg x(3) by simp
qed

lemma f64_mul_real:
  assumes "real64 x r" "real64 y t"
  obtains s a b where "f64_mul x y = f64_of (ExRat s a b)" "0 < b" "rat_real s a b = r * t"
proof -
  obtain u m e u' m' e' where x: "f64_value x = Finite u m e" "r = sgn_of u * (real m * 2 powi e)"
    and y: "f64_value y = Finite u' m' e'" "t = sgn_of u' * (real m' * 2 powi e')"
    using assms by (auto simp: real64_value)
  have "rat_real (u \<noteq> u') (m * m' * 2 ^ nat (e + e')) (2 ^ nat (- (e + e'))) = r * t"
    using finite_ratio [of "m * m'" "e + e'"] by (simp add: rat_real_def x(2) y(2) sgn_of_def power_int_add)
  then show ?thesis using that [of "u \<noteq> u'"] by (simp add: f64_mul_def x(1) y(1))
qed

lemma f64_div_real:
  assumes "real64 x r" "real64 y t" "t \<noteq> 0"
  obtains s a b where "f64_div x y = f64_of (ExRat s a b)" "0 < b" "rat_real s a b = r / t"
proof -
  obtain u m e u' m' e' where x: "f64_value x = Finite u m e" "r = sgn_of u * (real m * 2 powi e)"
    and y: "f64_value y = Finite u' m' e'" "t = sgn_of u' * (real m' * 2 powi e')"
    using assms by (auto simp: real64_value)
  have m': "m' \<noteq> 0" using assms(3) y(2) by (cases m') auto
  have "real (m * 2 ^ nat (e - e')) / real (m' * 2 ^ nat (e' - e)) = (real m * 2 powi e) / (real m' * 2 powi e')"
    using shift_ratio [of m' m "e' - e"] m' by (simp add: power_int_diff)
  then have "rat_real (u \<noteq> u') (m * 2 ^ nat (e - e')) (m' * 2 ^ nat (e' - e)) = r / t"
    by (simp only: rat_real_def x(2) y(2)) (simp add: sgn_of_def)
  then show ?thesis using that [of "u \<noteq> u'"] m' by (simp add: f64_div_def x(1) y(1))
qed

section \<open>Rounding between two numbers\<close>

lemma f64_le_finite:
  assumes "real64 x l" "f64_le x z" "f64_le z y" "real64 y h"
  obtains v where "real64 z v" "l \<le> v" "v \<le> h"
proof -
  obtain s a b s' a' b' where xy: "f64_exact x = ExRat s a b" "f64_exact y = ExRat s' a' b'"
    using assms(1,4) by (auto simp: real64_def)
  have "\<exists>t c d. f64_exact z = ExRat t c d"
    using assms(2,3) by (cases "f64_exact z") (auto simp: f64_le_def xy)
  then obtain v where v: "real64 z v" using real64I by blast
  then show ?thesis using that real64_le [OF assms(1) v] real64_le [OF v assms(4)] assms(2,3) by blast
qed

lemma rounded64:
  assumes "real64 x l" "real64 y h" "0 < b" "l \<le> rat_real s a b" "rat_real s a b \<le> h"
  obtains v where "real64 (f64_of (ExRat s a b)) v" "l \<le> v" "v \<le> h"
proof -
  obtain t c d t' c' d' where xy: "f64_exact x = ExRat t c d" "0 < d" "l = rat_real t c d"
    "f64_exact y = ExRat t' c' d'" "0 < d'" "h = rat_real t' c' d'"
    using assms(1,2) by (auto simp: real64_def)
  have "f64_le (f64_of (f64_exact x)) (f64_of (ExRat s a b))" "f64_le (f64_of (ExRat s a b)) (f64_of (f64_exact y))"
    using assms(3-5) xy by (auto intro!: f64_of_mono simp: exact_le_rat simp del: exact_le.simps)
  moreover have "f64_of (f64_exact x) = x" "f64_of (f64_exact y) = y"
    by (rule f64_of_exact, simp add: xy)+
  ultimately show ?thesis using f64_le_finite [OF assms(1) _ _ assms(2)] that by metis
qed

section \<open>Exact results\<close>

lemma f64_grid:
  assumes m: "m < 2 ^ 53" and e: "- 1074 \<le> e" "e \<le> 971" and b: "0 < b"
    and v: "real a / real b = real m * 2 powi e"
  shows "real64 (f64_of (ExRat s a b)) (rat_real s a b)"
proof -
  have fl: "exponent_floor 52 11 = - 1074" by (simp add: exponent_floor_def)
  have "(nat (e + 1074) + 2) * 2 ^ 52 \<le> 2047 * 2 ^ 52" using e by (intro mult_right_mono) simp_all
  then have top: "(nat (e - exponent_floor 52 11) + 2) * 2 ^ 52 \<le> infinity_bits 52 11" by (simp add: fl infinity_bits_def)
  have m': "m < 2 ^ (52 + 1)" using m by simp
  have e': "exponent_floor 52 11 \<le> e" using e fl by simp
  from rounds_to_itself [OF m' e' b top v, of s] obtain n a' b' where
    n: "round_magnitude 52 11 a b = n" "n < infinity_bits 52 11" "decoded 52 11 s n = ExRat s a' b'" "0 < b'"
      "real a' / real b' = real m * 2 powi e" .
  have "f64_exact (f64_of (ExRat s a b)) = decoded 52 11 s n"
    using decode_signed_bits [of n 52 11 s] n by (simp add: f64_exact_of)
  moreover have "rat_real s a b = rat_real s a' b'" unfolding rat_real_def n(5) v ..
  ultimately show ?thesis using n(3,4) unfolding real64_def by metis
qed

lemma real64_of_nat: "n < 2 ^ 53 \<Longrightarrow> real64 (f64_of_nat n) (real n)"
  using f64_grid [of n 0 1 n False] by (simp add: f64_of_nat_def rat_real_def sgn_of_def)

text \<open>Numbers within a factor of two of each other are subtracted exactly.\<close>

lemma difference_on_grid:
  fixes m m' :: int
  assumes "\<bar>m\<bar> < 2 ^ 53" "\<bar>m'\<bar> < 2 ^ 53" "- 1074 \<le> e" "e \<le> 971" "- 1074 \<le> e'" "e' \<le> 971"
    and r: "r = m * 2 powi e" and t: "t = m' * 2 powi e'" and near: "\<bar>r - t\<bar> \<le> \<bar>r\<bar>" "\<bar>r - t\<bar> \<le> \<bar>t\<bar>"
  shows "\<exists>n f. n < 2 ^ 53 \<and> - 1074 \<le> f \<and> f \<le> 971 \<and> \<bar>r - t\<bar> = real n * 2 powi f"
proof -
  have shift: "\<exists>n. n < 2 ^ 53 \<and> \<bar>u - v\<bar> = real n * 2 powi f"
    if "f \<le> g" "\<bar>i\<bar> < 2 ^ 53" "u = real_of_int i * 2 powi f" "v = real_of_int j * 2 powi g" "\<bar>u - v\<bar> \<le> \<bar>u\<bar>"
    for u v :: real and i j :: int and f g :: int
  proof -
    have "(2 :: real) powi g = 2 ^ nat (g - f) * 2 powi f"
      using that(1) power_int_add [of "2 :: real" "g - f" f] by (simp add: power_int_def)
    then have uv: "u - v = real_of_int (i - j * 2 ^ nat (g - f)) * 2 powi f"
      unfolding that(3,4) by (simp add: left_diff_distrib)
    then have d: "\<bar>u - v\<bar> = real_of_int \<bar>i - j * 2 ^ nat (g - f)\<bar> * 2 powi f" by (simp add: abs_mult)
    have "\<bar>u\<bar> = real_of_int \<bar>i\<bar> * 2 powi f" by (simp add: that(3) abs_mult)
    then have "real_of_int \<bar>i - j * 2 ^ nat (g - f)\<bar> \<le> real_of_int \<bar>i\<bar>"
      using that(5) unfolding d by (simp add: mult_le_cancel_right)
    then have "\<bar>i - j * 2 ^ nat (g - f)\<bar> < 2 ^ 53" using that(2) by linarith
    then show ?thesis using d by (intro exI [of _ "nat \<bar>i - j * 2 ^ nat (g - f)\<bar>"]) simp
  qed
  show ?thesis
  proof (cases "e \<le> e'")
    case True
    then show ?thesis using shift [OF True assms(1) r t near(1)] assms(3,4) by blast
  next
    case False
    have "\<bar>t - r\<bar> \<le> \<bar>t\<bar>" using near(2) by (simp add: abs_minus_commute)
    then show ?thesis using shift [OF _ assms(2) t r] False assms(5,6) by (metis abs_minus_commute nle_le)
  qed
qed

lemma f64_sub_exact:
  assumes x: "real64 x r" and y: "real64 y t" and near: "\<bar>r - t\<bar> \<le> \<bar>r\<bar>" "\<bar>r - t\<bar> \<le> \<bar>t\<bar>"
  shows "real64 (f64_sub x y) (r - t)"
proof -
  obtain u m e u' m' e' where v: "f64_value x = Finite u m e" "r = sgn_of u * (real m * 2 powi e)"
    "f64_value y = Finite u' m' e'" "t = sgn_of u' * (real m' * 2 powi e')"
    using x y by (auto simp: real64_value)
  note bx = f64_value_ranges [OF v(1)] and yb = f64_value_ranges [OF v(3)]
  have sm: "sgn_of b * (real n * 2 powi g) = real_of_int (if b then - int n else int n) * 2 powi g" for b n g
    by (simp add: sgn_of_def)
  have lt: "\<bar>if b then - int n else int n\<bar> < 2 ^ 53" if "n < 2 ^ 53" for b n
  proof -
    have "int n < int (2 ^ 53)" using that by (simp only: of_nat_less_iff)
    then show ?thesis by simp
  qed
  have rt: "r = real_of_int (if u then - int m else int m) * 2 powi e" "t = real_of_int (if u' then - int m' else int m') * 2 powi e'"
    by (simp_all only: v(2,4) sm)
  from bx yb have "m < 2 ^ 53" "m' < 2 ^ 53" "- 1074 \<le> e" "e \<le> 971" "- 1074 \<le> e'" "e' \<le> 971" by blast+
  from difference_on_grid [OF lt [OF this(1)] lt [OF this(2)] this(3-6) rt near]
  obtain n f where g: "n < 2 ^ 53" "- 1074 \<le> f" "f \<le> 971" "\<bar>r - t\<bar> = real n * 2 powi f" by blast
  from f64_sub_real [OF x y] obtain s a b where
    d: "f64_sub x y = f64_of (ExRat s a b)" "0 < b" "rat_real s a b = r - t" .
  have "\<bar>rat_real s a b\<bar> = real a / real b" by (simp add: rat_real_def sgn_of_def)
  then have "real a / real b = real n * 2 powi f" using g(4) d(3) by simp
  from f64_grid [OF g(1-3) d(2) this, of s] show ?thesis by (simp add: d)
qed

section \<open>Negation and clamping\<close>

lemma top_bit64: "bit (x :: 64 word) 63 \<longleftrightarrow> 2 ^ 63 \<le> unat x"
proof -
  have "unat x < 2 ^ 64" using unsigned_less [of x, where 'a = nat] by simp
  then have "unat x div 2 ^ 63 < 2" by (simp add: less_mult_imp_div_less)
  then have "odd (unat x div 2 ^ 63) \<longleftrightarrow> 0 < unat x div 2 ^ 63" by (auto simp: less_2_cases_iff)
  moreover have "bit x 63 \<longleftrightarrow> odd (unat x div 2 ^ 63)"
    using bit_unsigned_iff [of x 63, where 'a = nat] by (simp add: bit_iff_odd)
  moreover have "0 < unat x div 2 ^ 63 \<longleftrightarrow> 2 ^ 63 \<le> unat x" by (simp add: div_greater_zero_iff)
  ultimately show ?thesis by simp
qed

lemma set_top_bit64: "\<not> bit (x :: 64 word) 63 \<Longrightarrow> unat (xor x 0x8000000000000000) = unat x + 2 ^ 63"
proof -
  assume clear: "\<not> bit x 63"
  have "bit (and x (2 ^ 63)) n \<longleftrightarrow> bit (0 :: 64 word) n" for n
    using clear by (auto simp only: bit_and_iff bit_exp_iff bit_0_eq bot_apply bot_bool_def)
  then have "and x (2 ^ 63) = 0" by (simp only: bit_eq_iff simp_thms)
  from disjunctive_add_eq_xor [OF this] have "xor x 0x8000000000000000 = x + 0x8000000000000000" by simp
  moreover have "unat x + 2 ^ 63 < 2 ^ 64" using clear by (simp add: top_bit64)
  ultimately show ?thesis by (simp add: unat_word_ariths)
qed

lemma unat_xor_top: "unat (xor (x :: 64 word) 0x8000000000000000) = (if unat x < 2 ^ 63 then unat x + 2 ^ 63 else unat x - 2 ^ 63)"
proof (cases "bit x 63")
  case False
  then show ?thesis using set_top_bit64 [of x] by (simp add: top_bit64)
next
  case True
  have "\<not> bit (xor x 0x8000000000000000) 63"
    using True bit_exp_iff [of 63 63, where 'a = "64 word"] by (simp add: bit_xor_iff)
  from set_top_bit64 [OF this] have "unat x = unat (xor x 0x8000000000000000) + 2 ^ 63" by (simp add: xor.assoc)
  then show ?thesis using True by (simp add: top_bit64)
qed

lemma f64_value_neg: "f64_value (f64_neg x) = negate_value (f64_value x)"
proof -
  have flip: "decode_magnitude 52 11 (\<not> s) n = negate_value (decode_magnitude 52 11 s n)" for s n
    by (simp add: decode_magnitude_def Let_def)
  have bound: "unat x < 2 ^ 64" using unsigned_less [of x, where 'a = nat] by simp
  show ?thesis
  proof (cases "unat x < 2 ^ 63")
    case True
    then show ?thesis using flip [of False "unat x"]
      by (simp add: f64_value_def decode_float_def f64_neg_def unat_xor_top)
  next
    case False
    define n where "n = unat x - 2 ^ 63"
    have n: "unat x = n + 2 ^ 63" "n < 2 ^ 63" using False bound by (simp_all add: n_def)
    then show ?thesis using flip [of True n] by (simp add: f64_value_def decode_float_def f64_neg_def unat_xor_top)
  qed
qed

lemma real64_neg: "real64 x r \<Longrightarrow> real64 (f64_neg x) (- r)"
  by (auto simp: real64_value f64_value_neg sgn_of_def)

definition number64 :: "f64 \<Rightarrow> bool" where
  "number64 x \<longleftrightarrow> f64_exact x \<noteq> ExNaN"

lemma real64_number: "real64 x r \<Longrightarrow> number64 x"
  by (auto simp: real64_def number64_def)

lemma number64_cases:
  assumes "number64 x"
  obtains r where "real64 x r" | s where "f64_exact x = ExInf s"
proof (cases "f64_exact x")
  case (ExRat s a b)
  then show ?thesis using that(1) real64I by blast
qed (use assms that(2) in \<open>simp_all add: number64_def\<close>)

lemma clamp_real64:
  assumes "real64 x r" "real64 lo l" "real64 hi h" "l \<le> h"
  shows "real64 (f64_clamp x lo hi) (max l (min r h))"
  using assms real64_le [OF assms(1,2)] real64_le [OF assms(2,1)] real64_le [OF assms(1,3)] real64_le [OF assms(3,1)]
  by (auto simp: f64_clamp_def f64_less_def max_def min_def)

lemma clamp_number64:
  assumes "number64 x" "real64 lo l" "real64 hi h" "l \<le> h"
  obtains v where "real64 (f64_clamp x lo hi) v" "l \<le> v" "v \<le> h"
proof (rule number64_cases [OF assms(1)])
  fix r assume "real64 x r"
  from clamp_real64 [OF this assms(2-4)] show ?thesis using that [of "max l (min r h)"] assms(4) by simp
next
  fix s assume x: "f64_exact x = ExInf s"
  obtain s1 a1 b1 s2 a2 b2 where "f64_exact lo = ExRat s1 a1 b1" "f64_exact hi = ExRat s2 a2 b2"
    using assms(2,3) by (auto simp: real64_def)
  then have "f64_clamp x lo hi = (if s then lo else hi)"
    using x by (cases s) (simp_all add: f64_clamp_def f64_less_def f64_le_def)
  then show ?thesis using that assms(2-4) by (cases s) auto
qed

end
