(* ===== verification/Drift_Bounds.thy ===== *)
theory Drift_Bounds
  imports Drift_Control Float_Double
begin

text \<open>
  Bounds of the ratio controller: whatever fills, clocks and feed-forward it is given, its
  correction stays within the configured range and the ratio it hands to the resampler is a
  finite positive number.
\<close>

section \<open>Bounded numbers\<close>

definition bounded64 :: "real \<Rightarrow> f64 \<Rightarrow> bool" where
  "bounded64 N x \<longleftrightarrow> (\<exists>r. real64 x r \<and> \<bar>r\<bar> \<le> N)"

lemma bounded_of:
  assumes "real64 c N" "0 < b" "\<bar>rat_real s a b\<bar> \<le> N"
  shows "bounded64 N (f64_of (ExRat s a b))"
proof -
  have "- N \<le> rat_real s a b" "rat_real s a b \<le> N" using assms(3) by linarith+
  from rounded64 [OF real64_neg [OF assms(1)] assms(1,2) this] show ?thesis
    unfolding bounded64_def by (metis abs_le_iff minus_le_iff)
qed

lemma bounded_mono: "bounded64 X x \<Longrightarrow> X \<le> Y \<Longrightarrow> bounded64 Y x"
  unfolding bounded64_def by (meson order_trans)

lemma bounded_mul:
  assumes "real64 c N" "bounded64 X x" "bounded64 Y y" "X * Y \<le> N"
  shows "bounded64 N (f64_mul x y)"
proof -
  obtain r t where rt: "real64 x r" "\<bar>r\<bar> \<le> X" "real64 y t" "\<bar>t\<bar> \<le> Y" using assms(2,3) by (auto simp: bounded64_def)
  have "\<bar>r * t\<bar> \<le> X * Y" unfolding abs_mult using rt by (intro mult_mono) simp_all
  with f64_mul_real [OF rt(1,3)] show ?thesis using bounded_of [OF assms(1)] assms(4) by (metis order_trans)
qed

lemma bounded_sub:
  assumes "real64 c N" "bounded64 X x" "bounded64 Y y" "X + Y \<le> N"
  shows "bounded64 N (f64_sub x y)"
proof -
  obtain r t where rt: "real64 x r" "\<bar>r\<bar> \<le> X" "real64 y t" "\<bar>t\<bar> \<le> Y" using assms(2,3) by (auto simp: bounded64_def)
  have "\<bar>r - t\<bar> \<le> N" using rt assms(4) by linarith
  with f64_sub_real [OF rt(1,3)] show ?thesis using bounded_of [OF assms(1)] by metis
qed

lemma bounded_div:
  assumes "real64 c N" "bounded64 N x" "real64 y t" "1 \<le> t"
  shows "bounded64 N (f64_div x y)"
proof -
  obtain r where r: "real64 x r" "\<bar>r\<bar> \<le> N" using assms(2) by (auto simp: bounded64_def)
  have "\<bar>r\<bar> * 1 \<le> \<bar>r\<bar> * t" using assms(4) by (intro mult_left_mono) simp_all
  then have "\<bar>r / t\<bar> \<le> \<bar>r\<bar>" unfolding abs_divide using assms(4) by (simp add: divide_le_eq)
  then have "\<bar>r / t\<bar> \<le> N" using r(2) by linarith
  moreover have "t \<noteq> 0" using assms(4) by simp
  ultimately show ?thesis using f64_div_real [OF r(1) assms(3)] bounded_of [OF assms(1)] by metis
qed

lemma integral_real64:
  assumes "integral_f64 c N" shows "real64 c (real N)"
proof -
  from assms obtain B where B: "f64_exact c = ExRat False (N * B) B" by (auto simp: integral_f64_def)
  then have "0 < B" using proper_f64 [of c] by simp
  moreover have "rat_real False (N * B) B = real N" using \<open>0 < B\<close> by (simp add: rat_real_def sgn_of_def)
  ultimately show ?thesis using B real64I by metis
qed

lemma double_constants:
  "real64 0 0" "real64 0x3FF0000000000000 1" "real64 0x412E848000000000 1000000" "real64 0x411E848000000000 500000"
  "real64 0x43D0000000000000 (2 ^ 62)" "real64 0x43E0000000000000 (2 ^ 63)" "real64 0x43F0000000000000 (2 ^ 64)"
  "real64 0x47C0000000000000 (2 ^ 125)" "real64 0x47D0000000000000 (2 ^ 126)" "real64 0x4BC0000000000000 (2 ^ 189)"
  using integral_real64 [of "0x3FF0000000000000" 1] integral_real64 [of "0x412E848000000000" 1000000]
    integral_real64 [of "0x411E848000000000" 500000] integral_real64 [of "0x43D0000000000000" "2 ^ 62"]
    integral_real64 [of "0x43E0000000000000" "2 ^ 63"] integral_real64 [of "0x43F0000000000000" "2 ^ 64"]
    integral_real64 [of "0x47C0000000000000" "2 ^ 125"] integral_real64 [of "0x47D0000000000000" "2 ^ 126"]
    integral_real64 [of "0x4BC0000000000000" "2 ^ 189"]
  using real64I [where x = 0 and s = False and a = 0 and b = "2 ^ 1074"] by (simp_all add: integral_f64_def float_defs)

text \<open>Sums with one infinite operand are not NaN.\<close>

lemma number64_of: "exact_le x x \<Longrightarrow> proper x \<Longrightarrow> number64 (f64_of x)"
  using f64_of_mono [of x x] by (auto simp: number64_def f64_le_def)

lemma exact_le_infinite: "exact_le (ExInf s) (ExInf s)"
  by simp

lemma exact_le_ratio: "0 < b \<Longrightarrow> exact_le (ExRat s a b) (ExRat s a b)"
  by (simp add: exact_le_rat del: exact_le.simps)

lemma number64_add:
  assumes "number64 x" "real64 y t" shows "number64 (f64_add x y)"
proof (rule number64_cases [OF assms(1)])
  fix r assume "real64 x r"
  from f64_add_real [OF this assms(2)] show ?thesis
    using number64_of [OF exact_le_ratio] by (metis proper_simps(1))
next
  fix s assume "f64_exact x = ExInf s"
  moreover obtain s' a b where "f64_exact y = ExRat s' a b" using assms(2) by (auto simp: real64_def)
  ultimately have "f64_add x y = f64_of (ExInf s)" by (simp add: f64_add_def)
  then show ?thesis using number64_of [OF exact_le_infinite] by simp
qed

lemma number64_sub:
  assumes "real64 x r" "number64 y" shows "number64 (f64_sub x y)"
proof (rule number64_cases [OF assms(2)])
  fix t assume "real64 y t"
  from f64_sub_real [OF assms(1) this] show ?thesis
    using number64_of [OF exact_le_ratio] by (metis proper_simps(1))
next
  fix s assume y: "f64_exact y = ExInf s"
  then have "f64_value y = Infinite s" by (cases "f64_value y") (simp_all add: f64_exact_def)
  moreover obtain s' a b where "f64_exact x = ExRat s' a b" using assms(1) by (auto simp: real64_def)
  ultimately have "f64_sub x y = f64_of (ExInf (\<not> s))" by (simp add: f64_sub_def)
  then show ?thesis using number64_of [OF exact_le_infinite] by simp
qed

section \<open>One step of the correction\<close>

text \<open>The correction moves towards the target by at most the step, and stays in the range.\<close>

lemma stepped_correction:
  assumes k: "real64 k K" "\<bar>K\<bar> \<le> M" and c: "real64 c C" "\<bar>C\<bar> \<le> M"
    and range: "real64 maximum M" "M \<le> 2 ^ 61" and step: "real64 step S" "0 < S" "2 * S \<le> M"
  shows "bounded64 M (f64_add k (f64_clamp (f64_sub c k) (f64_neg step) step))"
proof -
  from f64_sub_real [OF c(1) k(1)] obtain s a b where
    sub: "f64_sub c k = f64_of (ExRat s a b)" "0 < b" "rat_real s a b = C - K" .
  have "\<bar>rat_real s a b\<bar> \<le> 2 ^ 62" using sub(3) k(2) c(2) range(2) by simp
  then obtain D where D: "real64 (f64_sub c k) D"
    using bounded_of [OF double_constants(5) sub(2)] sub(1) by (auto simp: bounded64_def)
  define d where "d = max (- S) (min D S)"
  have clamped: "real64 (f64_clamp (f64_sub c k) (f64_neg step) step) d"
    unfolding d_def by (rule clamp_real64 [OF D real64_neg [OF step(1)] step(1)]) (use step(2) in simp)
  have up: "0 \<le> D" if "K \<le> C"
  proof -
    have "0 \<le> rat_real s a b" "rat_real s a b \<le> 2 ^ 62" using that sub(3) k(2) c(2) range(2) by auto
    from rounded64 [OF double_constants(1,5) sub(2) this] D show ?thesis unfolding sub(1) using real64_unique by metis
  qed
  have down: "D \<le> 0" if "C \<le> K"
  proof -
    have "- (2 ^ 62) \<le> rat_real s a b" "rat_real s a b \<le> 0" using that sub(3) k(2) c(2) range(2) by auto
    from rounded64 [OF real64_neg [OF double_constants(5)] double_constants(1) sub(2) this] D
    show ?thesis unfolding sub(1) using real64_unique by metis
  qed
  have close: "D = C - K" if "\<bar>C - K\<bar> \<le> \<bar>C\<bar>" "\<bar>C - K\<bar> \<le> \<bar>K\<bar>"
    using f64_sub_exact [OF c(1) k(1) that] D real64_unique by metis
  have "\<bar>K + d\<bar> \<le> M"
  proof (cases "K \<le> C")
    case True
    have d: "0 \<le> d" "d \<le> D" "d \<le> S" using up [OF True] step(2) by (auto simp: d_def)
    show ?thesis
    proof (cases "K \<le> M - S")
      case True
      then show ?thesis using d k(2) by linarith
    next
      case False
      then have "0 < K" "C \<le> 2 * K" using step c(2) by linarith+
      then have "D = C - K" using True by (intro close) linarith+
      then show ?thesis using d c(2) k(2) by linarith
    qed
  next
    case False
    then have ck: "C \<le> K" by simp
    have d: "d \<le> 0" "D \<le> d" "- S \<le> d" using down [OF ck] step(2) by (auto simp: d_def)
    show ?thesis
    proof (cases "- M + S \<le> K")
      case True
      then show ?thesis using d k(2) by linarith
    next
      case False
      then have "K < 0" "2 * K \<le> C" using step c(2) by linarith+
      then have "D = C - K" using ck by (intro close) linarith+
      then show ?thesis using d c(2) k(2) by linarith
    qed
  qed
  with f64_add_real [OF k(1) clamped] show ?thesis using bounded_of [OF range(1)] by metis
qed

section \<open>Invariant of the controller\<close>

text \<open>
  A configuration whose limits are numbers of a sensible size: the correction range is at most
  500,000 ppm and at least twice the step, and the gains are at most \<open>2^62\<close>.
\<close>

definition tame_config :: "real \<Rightarrow> drift_controller_config \<Rightarrow> bool" where
  "tame_config M c \<longleftrightarrow> dk_input_rate c \<noteq> 0 \<and> dk_output_rate c \<noteq> 0 \<and> dk_target_fill_frames c \<noteq> 0
     \<and> real64 (dk_maximum_correction_ppm c) M \<and> M \<le> 500000
     \<and> (\<exists>S. real64 (dk_maximum_step_ppm c) S \<and> 0 < S \<and> 2 * S \<le> M)
     \<and> bounded64 (2 ^ 62) (dk_proportional_gain_ppm c) \<and> bounded64 (2 ^ 62) (dk_integral_gain_ppm_per_second c)"

definition estimator_sound :: "ppm_estimator \<Rightarrow> bool" where
  "estimator_sound e \<longleftrightarrow> length (pe_history e) = 3 \<and> unat (pe_history_cursor e) < 3"

definition controller_sound :: "real \<Rightarrow> drift_controller \<Rightarrow> bool" where
  "controller_sound M k \<longleftrightarrow> tame_config M (dk_config k)
     \<and> dk_nominal_ratio k = f64_div (f64_of_nat (unat (dk_output_rate (dk_config k)))) (f64_of_nat (unat (dk_input_rate (dk_config k))))
     \<and> bounded64 M (dk_current_correction_ppm k) \<and> bounded64 M (dk_feedforward_correction_ppm k)
     \<and> number64 (dk_integral_ppm k) \<and> estimator_sound (dk_estimator k)"

lemma real64_natural:
  assumes "n < 2 ^ 64"
  obtains v where "real64 (f64_of_nat n) v" "\<bar>v\<bar> \<le> 2 ^ 64" "0 < n \<Longrightarrow> 1 \<le> v"
proof -
  have n: "0 \<le> rat_real False n 1" "rat_real False n 1 \<le> 2 ^ 64" "0 < n \<Longrightarrow> 1 \<le> rat_real False n 1"
  proof -
    have "real n \<le> real (2 ^ 64)" using assms by (simp only: of_nat_le_iff)
    then show "0 \<le> rat_real False n 1" "rat_real False n 1 \<le> 2 ^ 64" "0 < n \<Longrightarrow> 1 \<le> rat_real False n 1"
      by (simp_all add: rat_real_def sgn_of_def)
  qed
  from rounded64 [OF double_constants(1,7) _ n(1,2)] obtain v where v: "real64 (f64_of_nat n) v" "0 \<le> v" "v \<le> 2 ^ 64"
    unfolding f64_of_nat_def by auto
  moreover have "1 \<le> v" if "0 < n"
    using rounded64 [OF double_constants(2,7) _ n(3) [OF that] n(2)] v(1) unfolding f64_of_nat_def
    by (metis real64_unique zero_less_one)
  ultimately show ?thesis using that by force
qed

lemma word_natural: "unat (w :: 64 word) < 2 ^ 64" "unat (u :: 32 word) < 2 ^ 64"
  using unsigned_less [of w, where 'a = nat] unsigned_less [of u, where 'a = nat] by simp_all

lemma normalized_bounded:
  assumes "dk_target_fill_frames c \<noteq> 0" shows "bounded64 (2 ^ 63) (normalized_error fill c)"
proof -
  have "\<bar>fill_error fill c\<bar> \<le> 2 ^ 63" by (auto simp: fill_error_def)
  then have "real_of_int \<bar>fill_error fill c\<bar> \<le> real_of_int (2 ^ 63)" by (simp only: of_int_le_iff)
  moreover have "\<bar>rat_real s n 1\<bar> = real n" for s n by (simp add: rat_real_def sgn_of_def)
  ultimately have "\<bar>rat_real (fill_error fill c < 0) (nat \<bar>fill_error fill c\<bar>) 1\<bar> \<le> 2 ^ 63" by simp
  then have e: "bounded64 (2 ^ 63) (f64_of_int (fill_error fill c))"
    unfolding f64_of_int_def by (intro bounded_of [OF double_constants(6)]) simp_all
  from real64_natural [OF word_natural(1), of "dk_target_fill_frames c"] obtain v where
    "real64 (f64_of_nat (unat (dk_target_fill_frames c))) v" "1 \<le> v"
    using assms by (metis unat_gt_0)
  from bounded_div [OF double_constants(6) e this] show ?thesis by (simp add: normalized_error_def)
qed

lemma update_numbers:
  assumes s: "controller_sound M k"
  shows "number64 (integral_candidate fill elapsed k)" "number64 (unconstrained_correction fill elapsed k)"
proof -
  let ?c = "dk_config k"
  have t: "tame_config M ?c" using s by (simp add: controller_sound_def)
  have g: "bounded64 (2 ^ 62) (dk_proportional_gain_ppm ?c)" "bounded64 (2 ^ 62) (dk_integral_gain_ppm_per_second ?c)"
    "dk_target_fill_frames ?c \<noteq> 0" "dk_output_rate ?c \<noteq> 0" "M \<le> 500000"
    using t by (simp_all add: tame_config_def)
  note n = normalized_bounded [OF g(3), of fill]
  from real64_natural [OF word_natural(1), of elapsed] have e: "bounded64 (2 ^ 64) (f64_of_nat (unat elapsed))"
    by (metis bounded64_def)
  from real64_natural [OF word_natural(2), of "dk_output_rate ?c"] obtain v where
    v: "real64 (f64_of_nat (unat (dk_output_rate ?c))) v" "1 \<le> v" using g(4) by (metis unat_gt_0)
  have "bounded64 (2 ^ 125) (f64_mul (normalized_error fill ?c) (dk_integral_gain_ppm_per_second ?c))"
    by (rule bounded_mul [OF double_constants(8) n g(2)]) simp
  from bounded_mul [OF double_constants(10) this bounded_div [OF double_constants(7) e v]]
  obtain r where "real64 (f64_mul (f64_mul (normalized_error fill ?c) (dk_integral_gain_ppm_per_second ?c))
      (f64_div (f64_of_nat (unat elapsed)) (f64_of_nat (unat (dk_output_rate ?c))))) r" by (auto simp: bounded64_def)
  moreover have "number64 (dk_integral_ppm k)" using s by (simp add: controller_sound_def)
  ultimately show cand: "number64 (integral_candidate fill elapsed k)"
    unfolding integral_candidate_def Let_def using number64_add by blast
  have p: "bounded64 (2 ^ 125) (f64_mul (normalized_error fill ?c) (dk_proportional_gain_ppm ?c))"
    by (rule bounded_mul [OF double_constants(8) n g(1)]) simp
  have f: "bounded64 500000 (dk_feedforward_correction_ppm k)"
    using s g(5) by (auto simp: controller_sound_def intro: bounded_mono)
  from bounded_sub [OF double_constants(9) f p] obtain r where
    "real64 (f64_sub (dk_feedforward_correction_ppm k) (f64_mul (normalized_error fill ?c) (dk_proportional_gain_ppm ?c))) r"
    by (auto simp: bounded64_def)
  then show "number64 (unconstrained_correction fill elapsed k)"
    unfolding unconstrained_correction_def Let_def using number64_sub cand by blast
qed

lemma update_correction:
  assumes s: "controller_sound M k"
  shows "bounded64 M (correction_step (constrained_correction fill elapsed k) k)"
proof -
  let ?c = "dk_config k"
  obtain S K where t: "real64 (dk_maximum_correction_ppm ?c) M" "M \<le> 500000" "real64 (dk_maximum_step_ppm ?c) S" "0 < S" "2 * S \<le> M"
    "real64 (dk_current_correction_ppm k) K" "\<bar>K\<bar> \<le> M"
    using s by (auto simp: controller_sound_def tame_config_def bounded64_def)
  have "- M \<le> M" using t(4,5) by simp
  from clamp_number64 [OF update_numbers(2) [OF s] real64_neg [OF t(1)] t(1) this] obtain C where
    C: "real64 (constrained_correction fill elapsed k) C" "- M \<le> C" "C \<le> M"
    unfolding constrained_correction_def Let_def .
  have "\<bar>C\<bar> \<le> M" using C(2,3) by linarith
  from stepped_correction [OF t(6,7) C(1) this t(1) _ t(3-5)] t(2) show ?thesis
    unfolding correction_step_def Let_def by simp
qed

text \<open>The ratio of a bounded correction: between half and three halves of the nominal one.\<close>

lemma ratio_constants: "real64 (f64_of (ExRat False 1 (2 ^ 33))) (1 / 2 ^ 33)" "real64 (f64_of (ExRat False (2 ^ 34) 1)) (2 ^ 34)"
  "real64 (f64_of (ExRat False 1 2)) (1 / 2)" "real64 (f64_of (ExRat False 3 2)) (3 / 2)"
  "real64 (f64_of (ExRat False 1 (2 ^ 32))) (1 / 2 ^ 32)" "real64 (f64_of (ExRat False (2 ^ 32) 1)) (2 ^ 32)"
proof -
  have g: "real64 (f64_of (ExRat False a b)) (real a / real b)"
    if "m < 2 ^ 53" "- 1074 \<le> e" "e \<le> 971" "0 < b" "real a / real b = real m * 2 powi e" for m a b e
    using f64_grid [OF that, of False] by (simp add: rat_real_def sgn_of_def)
  have p: "(2 :: real) powi (- 33) = 1 / 2 ^ 33" "(2 :: real) powi (- 32) = 1 / 2 ^ 32" "(2 :: real) powi (- 1) = 1 / 2"
    by (simp_all add: power_int_minus field_simps)
  show "real64 (f64_of (ExRat False 1 (2 ^ 33))) (1 / 2 ^ 33)" using g [of 1 "- 33" "2 ^ 33" 1] p(1) by simp
  show "real64 (f64_of (ExRat False (2 ^ 34) 1)) (2 ^ 34)" using g [of "2 ^ 34" 0 1 "2 ^ 34"] by simp
  show "real64 (f64_of (ExRat False 1 2)) (1 / 2)" using g [of 1 "- 1" 2 1] p(3) by simp
  show "real64 (f64_of (ExRat False 3 2)) (3 / 2)" using g [of 3 "- 1" 2 3] p(3) by simp
  show "real64 (f64_of (ExRat False 1 (2 ^ 32))) (1 / 2 ^ 32)" using g [of 1 "- 32" "2 ^ 32" 1] p(2) by simp
  show "real64 (f64_of (ExRat False (2 ^ 32) 1)) (2 ^ 32)" using g [of "2 ^ 32" 0 1 "2 ^ 32"] by simp
qed

lemma rate_real:
  assumes "(rate :: u32) \<noteq> 0"
  shows "real64 (f64_of_nat (unat rate)) (real (unat rate))" "1 \<le> real (unat rate)" "real (unat rate) \<le> 2 ^ 32"
proof -
  have u: "unat rate < 2 ^ 32" using unsigned_less [of rate, where 'a = nat] by simp
  then show "real64 (f64_of_nat (unat rate)) (real (unat rate))" by (intro real64_of_nat) simp
  have "1 \<le> unat rate" using assms by (simp add: Suc_le_eq unat_gt_0)
  then have "real 1 \<le> real (unat rate)" by (simp only: of_nat_le_iff)
  then show "1 \<le> real (unat rate)" by (simp only: of_nat_1)
  have "real (unat rate) \<le> real (2 ^ 32)" using u by (simp only: of_nat_le_iff)
  then show "real (unat rate) \<le> 2 ^ 32" by simp
qed

lemma nominal_range:
  assumes "controller_sound M k"
  obtains v where "real64 (dk_nominal_ratio k) v" "1 / 2 ^ 32 \<le> v" "v \<le> 2 ^ 32"
proof -
  let ?c = "dk_config k"
  have nz: "dk_output_rate ?c \<noteq> 0" "dk_input_rate ?c \<noteq> 0" using assms by (simp_all add: controller_sound_def tame_config_def)
  note o = rate_real [OF nz(1)] and i = rate_real [OF nz(2)]
  have "real (unat (dk_input_rate ?c)) \<noteq> 0" using i(2) by simp
  from f64_div_real [OF o(1) i(1) this] obtain s a b where
    d: "f64_div (f64_of_nat (unat (dk_output_rate ?c))) (f64_of_nat (unat (dk_input_rate ?c))) = f64_of (ExRat s a b)" "0 < b"
      "rat_real s a b = real (unat (dk_output_rate ?c)) / real (unat (dk_input_rate ?c))" .
  have "1 / 2 ^ 32 \<le> real (unat (dk_output_rate ?c)) / real (unat (dk_input_rate ?c))"
    using o(2) i(2,3) by (intro frac_le) simp_all
  moreover have "real (unat (dk_output_rate ?c)) / real (unat (dk_input_rate ?c)) \<le> 2 ^ 32 / 1"
    using o(2,3) i(2) by (intro frac_le) simp_all
  ultimately have "1 / 2 ^ 32 \<le> rat_real s a b" "rat_real s a b \<le> 2 ^ 32" using d(3) by simp_all
  from rounded64 [OF ratio_constants(5,6) d(2) this] show ?thesis
    using that assms d(1) by (metis controller_sound_def)
qed

lemma ratio_positive:
  assumes s: "controller_sound M k" and x: "bounded64 M correction"
  obtains v where "real64 (correction_ratio correction k) v" "0 < v"
proof -
  have M: "M \<le> 500000" using s by (simp add: controller_sound_def tame_config_def)
  obtain r where r: "real64 correction r" "\<bar>r\<bar> \<le> 500000" using x M by (auto simp: bounded64_def)
  have "(1000000 :: real) \<noteq> 0" by simp
  from f64_div_real [OF r(1) double_constants(3) this] obtain s1 a1 b1 where
    d: "f64_div correction 0x412E848000000000 = f64_of (ExRat s1 a1 b1)" "0 < b1" "rat_real s1 a1 b1 = r / 1000000" .
  have "\<bar>rat_real s1 a1 b1\<bar> \<le> 1 / 2" unfolding d(3) using r(2) by simp
  from bounded_of [OF ratio_constants(3) d(2) this] obtain q where q: "real64 (f64_of (ExRat s1 a1 b1)) q" "\<bar>q\<bar> \<le> 1 / 2"
    by (auto simp: bounded64_def)
  from f64_add_real [OF double_constants(2) q(1)] obtain s2 a2 b2 where
    e: "f64_add 0x3FF0000000000000 (f64_of (ExRat s1 a1 b1)) = f64_of (ExRat s2 a2 b2)" "0 < b2" "rat_real s2 a2 b2 = 1 + q" .
  have "1 / 2 \<le> rat_real s2 a2 b2" "rat_real s2 a2 b2 \<le> 3 / 2" unfolding e(3) using q(2) by linarith+
  from rounded64 [OF ratio_constants(3,4) e(2) this] obtain f where
    f: "real64 (f64_of (ExRat s2 a2 b2)) f" "1 / 2 \<le> f" "f \<le> 3 / 2" .
  obtain v where v: "real64 (dk_nominal_ratio k) v" "1 / 2 ^ 32 \<le> v" "v \<le> 2 ^ 32" by (rule nominal_range [OF s])
  from f64_mul_real [OF v(1) f(1)] obtain s3 a3 b3 where
    m: "f64_mul (dk_nominal_ratio k) (f64_of (ExRat s2 a2 b2)) = f64_of (ExRat s3 a3 b3)" "0 < b3" "rat_real s3 a3 b3 = v * f" .
  have "(1 / 2 ^ 32) * (1 / 2) \<le> v * f" using v f by (intro mult_mono) simp_all
  moreover have "v * f \<le> 2 ^ 32 * (3 / 2)" using v f by (intro mult_mono) simp_all
  ultimately have "1 / 2 ^ 33 \<le> rat_real s3 a3 b3" "rat_real s3 a3 b3 \<le> 2 ^ 34" using m(3) by simp_all
  from rounded64 [OF ratio_constants(1,2) m(2) this] obtain w where w: "real64 (f64_of (ExRat s3 a3 b3)) w" "1 / 2 ^ 33 \<le> w" .
  have "0 < (1 :: real) / 2 ^ 33" by simp
  then have "0 < w" using w(2) by linarith
  then show ?thesis using that [of w] w(1) by (simp only: correction_ratio_def d(1) e(1) m(1))
qed

section \<open>Any sequence of calls\<close>

datatype controller_call =
  FrameCall u64 u64 bool | FeedforwardCall f64 | ClearCall | ResetCall | UpdateCall usize int usize

fun controller_step :: "controller_call \<Rightarrow> drift_controller \<Rightarrow> drift_controller" where
  "controller_step (FrameCall inputs outputs discontinuity) k = snd (observe_clock_frames inputs outputs discontinuity k)"
| "controller_step (FeedforwardCall ppm) k = snd (set_feedforward_clock_ppm ppm k)"
| "controller_step ClearCall k = clear_feedforward k"
| "controller_step ResetCall k = controller_reset k"
| "controller_step (UpdateCall fill trend elapsed) k = snd (controller_update fill trend elapsed k)"

lemma zero_bounded: "0 \<le> M \<Longrightarrow> bounded64 M 0"
  using double_constants(1) by (force simp: bounded64_def)

lemma sound_range: "controller_sound M k \<Longrightarrow> 0 \<le> M"
  by (auto simp: controller_sound_def tame_config_def)

lemma estimator_kept:
  assumes "estimator_sound e"
  shows "estimator_sound (snd (estimator_observe i out d e))" "fst (estimator_observe i out d e) \<noteq> Panic"
proof -
  have "(w + 1) mod 3 < (3 :: u8)" for w by (simp add: word_mod_less_divisor)
  then have "unat ((w + 1) mod MEDIAN_WINDOW_COUNT) < 3" for w
    unfolding MEDIAN_WINDOW_COUNT_def word_less_nat_alt by simp
  then show "estimator_sound (snd (estimator_observe i out d e))" "fst (estimator_observe i out d e) \<noteq> Panic"
    using assms
    by (auto simp: estimator_observe_def estimator_sound_def estimator_reset_def clear_history_def record_window_def
        Let_def split: option.splits)
qed

lemma feedforward_kept:
  assumes "controller_sound M k" shows "controller_sound M (snd (set_feedforward_clock_ppm ppm k))"
proof (cases "f64_is_finite ppm")
  case True
  then obtain r where r: "real64 ppm r" using finite_real64 by blast
  have m: "real64 (dk_maximum_correction_ppm (dk_config k)) M" "- M \<le> M"
    using assms sound_range [OF assms] by (simp_all add: controller_sound_def tame_config_def)
  from clamp_real64 [OF real64_neg [OF r] real64_neg [OF m(1)] m(1,2)] m(2)
  have "bounded64 M (f64_clamp (f64_neg ppm) (f64_neg (dk_maximum_correction_ppm (dk_config k))) (dk_maximum_correction_ppm (dk_config k)))"
    unfolding bounded64_def by (intro exI [of _ "max (- M) (min (- r) M)"] conjI) auto
  then show ?thesis using assms True by (simp add: set_feedforward_clock_ppm_def controller_sound_def)
qed (use assms in \<open>simp add: set_feedforward_clock_ppm_def\<close>)

lemma reset_kept: "controller_sound M k \<Longrightarrow> controller_sound M (controller_reset k)"
  using zero_bounded sound_range double_constants(1) real64_number
  by (auto simp: controller_sound_def controller_reset_def estimator_reset_def clear_history_def estimator_sound_def)

lemma clear_kept: "controller_sound M k \<Longrightarrow> controller_sound M (clear_feedforward k)"
  using zero_bounded sound_range by (auto simp: controller_sound_def clear_feedforward_def)

lemma correction_frame:
  "correction_step x (k\<lparr>dk_integral_ppm := i\<rparr>) = correction_step x k"
  "correction_step x (k\<lparr>dk_saturation_count := n\<rparr>) = correction_step x k"
  "correction_step x (k\<lparr>dk_consecutive_saturation := n\<rparr>) = correction_step x k"
  "correction_ratio x (k\<lparr>dk_integral_ppm := i\<rparr>) = correction_ratio x k"
  "correction_ratio x (k\<lparr>dk_saturation_count := n\<rparr>) = correction_ratio x k"
  "correction_ratio x (k\<lparr>dk_consecutive_saturation := n\<rparr>) = correction_ratio x k"
  by (simp_all add: correction_step_def correction_ratio_def)

lemma update_kept:
  assumes s: "controller_sound M k"
  shows "controller_sound M (snd (controller_update fill trend elapsed k))"
    "controller_update fill trend elapsed k = (Ok report, k') \<Longrightarrow>
      bounded64 M (dr_correction_ppm report) \<and> (\<exists>v. real64 (dr_ratio report) v \<and> 0 < v)"
    "fst (controller_update fill trend elapsed k) \<noteq> Panic"
proof -
  let ?x = "correction_step (constrained_correction fill elapsed k) k"
  note x = update_correction [OF s, of fill elapsed] and i = update_numbers(1) [OF s, of fill elapsed]
  obtain v where v: "real64 (correction_ratio ?x k) v" "0 < v" by (rule ratio_positive [OF s x])
  show "controller_sound M (snd (controller_update fill trend elapsed k))"
    using s x i by (simp add: controller_update_def Let_def controller_sound_def correction_frame)
  show "bounded64 M (dr_correction_ppm report) \<and> (\<exists>v. real64 (dr_ratio report) v \<and> 0 < v)"
    if "controller_update fill trend elapsed k = (Ok report, k')"
    using that x v by (auto simp: controller_update_def Let_def correction_frame split: if_splits)
  show "fst (controller_update fill trend elapsed k) \<noteq> Panic" by (simp add: controller_update_def Let_def)
qed

lemma observe_kept:
  assumes s: "controller_sound M k"
  shows "controller_sound M (snd (observe_clock_frames i out d k))" "fst (observe_clock_frames i out d k) \<noteq> Panic"
proof -
  obtain r e where e: "estimator_observe i out d (dk_estimator k) = (r, e)" by fastforce
  have "estimator_sound e" "r \<noteq> Panic" using estimator_kept [of "dk_estimator k" i out d] s e by (auto simp: controller_sound_def)
  then have s1: "controller_sound M (k\<lparr>dk_estimator := e\<rparr>)" using s by (simp add: controller_sound_def)
  have f: "fst (set_feedforward_clock_ppm p j) \<noteq> Panic" for p j by (simp add: set_feedforward_clock_ppm_def)
  show "controller_sound M (snd (observe_clock_frames i out d k))"
    using s1 reset_kept [OF s1] clear_kept [OF s1] feedforward_kept [OF s1]
    by (auto simp: observe_clock_frames_def e Let_def split: outcome.splits option.splits ppm_estimator_error.splits prod.splits)
      (metis snd_conv)+
  show "fst (observe_clock_frames i out d k) \<noteq> Panic"
    using \<open>r \<noteq> Panic\<close> f
    by (auto simp: observe_clock_frames_def e Let_def split: outcome.splits option.splits ppm_estimator_error.splits prod.splits)
      (metis fst_conv)+
qed

lemma run_kept: "controller_sound M k \<Longrightarrow> controller_sound M (fold controller_step calls k)"
proof (induction calls arbitrary: k)
  case (Cons call calls)
  then have "controller_sound M (controller_step call k)"
    using observe_kept(1) feedforward_kept clear_kept reset_kept update_kept(1) by (cases call) simp_all
  then show ?case using Cons.IH by simp
qed simp

lemma double_exact:
  assumes x: "real64 x S" "0 < S" and y: "real64 y M" "M \<le> 500000" and le: "f64_le (f64_add x x) y"
  shows "2 * S \<le> M"
proof -
  from f64_add_real [OF x(1) x(1)] obtain s a b where
    d: "f64_add x x = f64_of (ExRat s a b)" "0 < b" "rat_real s a b = S + S" .
  have small: "S + S < 2 ^ 62"
  proof (rule ccontr)
    assume "\<not> S + S < 2 ^ 62"
    then have "exact_le (f64_exact 0x43D0000000000000) (ExRat s a b)"
      using double_constants(5) d(2,3) by (auto simp: real64_def exact_le_rat simp del: exact_le.simps)
    then have "f64_le (f64_of (f64_exact 0x43D0000000000000)) (f64_add x x)" unfolding d(1) using d(2) by (intro f64_of_mono) simp_all
    moreover have "f64_of (f64_exact 0x43D0000000000000) = 0x43D0000000000000"
      using double_constants(5) by (intro f64_of_exact) (auto simp: real64_def)
    ultimately have "f64_le 0x43D0000000000000 (f64_add x x)" by simp
    from f64_le_finite [OF double_constants(5) this le y(1)] show False using y(2) by force
  qed
  obtain u m e where v: "f64_value x = Finite u m e" "S = sgn_of u * (real m * 2 powi e)" using x(1) by (auto simp: real64_value)
  have "0 \<le> real m * 2 powi e" by simp
  moreover have "S = - (real m * 2 powi e)" if u using that v(2) by (simp add: sgn_of_def)
  ultimately have "\<not> u" using x(2) by linarith
  then have S: "S = real m * 2 powi e" using v(2) by (simp add: sgn_of_def)
  then have "0 < m" using x(2) by (cases m) simp_all
  then have "1 * 2 powi e \<le> real m * 2 powi e" by (intro mult_right_mono) simp_all
  then have "2 powi e \<le> S" unfolding S by simp
  moreover have "(2 :: real) powi 62 = 2 ^ 62" by simp
  ultimately have "(2 :: real) powi e < 2 powi 62" using small x(2) by linarith
  then have e: "e < 62" by (metis power_int_increasing not_le one_le_numeral)
  have two: "S + S = real m * 2 powi (e + 1)" using S by (simp add: power_int_add)
  have "\<bar>rat_real s a b\<bar> = real a / real b" by (simp add: rat_real_def sgn_of_def)
  then have "real a / real b = real m * 2 powi (e + 1)" using d(3) x(2) two by simp
  from f64_grid [OF _ _ _ d(2) this, of s] f64_value_ranges [OF v(1)] e have "real64 (f64_add x x) (S + S)"
    by (simp add: d)
  from real64_le [OF this y(1)] le show ?thesis by simp
qed

lemma controller_new_sound:
  assumes new: "controller_new c = Ok k"
    and "f64_le (dk_maximum_correction_ppm c) 0x411E848000000000"
    and "f64_le (f64_add (dk_maximum_step_ppm c) (dk_maximum_step_ppm c)) (dk_maximum_correction_ppm c)"
    and "f64_le (dk_proportional_gain_ppm c) 0x43D0000000000000"
    and "f64_le (dk_integral_gain_ppm_per_second c) 0x43D0000000000000"
  obtains M where "controller_sound M k" "real64 (dk_maximum_correction_ppm c) M" "dk_config k = c"
proof -
  have g: "dk_input_rate c \<noteq> 0" "dk_output_rate c \<noteq> 0" "dk_target_fill_frames c \<noteq> 0"
    "f64_is_finite (dk_maximum_correction_ppm c)" "f64_is_finite (dk_proportional_gain_ppm c)" "\<not> f64_less (dk_proportional_gain_ppm c) 0"
    "f64_is_finite (dk_integral_gain_ppm_per_second c)" "\<not> f64_less (dk_integral_gain_ppm_per_second c) 0"
    "f64_is_finite (dk_maximum_step_ppm c)" "\<not> f64_le (dk_maximum_step_ppm c) 0"
    using new by (simp_all add: controller_new_def split: if_splits)
  have "\<exists>e. estimator_sound e \<and> k = \<lparr>dk_config = c, dk_nominal_ratio = f64_div (f64_of_nat (unat (dk_output_rate c))) (f64_of_nat (unat (dk_input_rate c))),
       dk_current_correction_ppm = 0, dk_feedforward_correction_ppm = 0, dk_integral_ppm = 0,
       dk_minimum_ratio = f64_div (f64_of_nat (unat (dk_output_rate c))) (f64_of_nat (unat (dk_input_rate c))),
       dk_maximum_ratio = f64_div (f64_of_nat (unat (dk_output_rate c))) (f64_of_nat (unat (dk_input_rate c))),
       dk_saturation_count = 0, dk_consecutive_saturation = 0, dk_estimator = e\<rparr>"
    using new
    by (auto simp: controller_new_def estimator_new_def estimator_sound_def Let_def split: if_splits option.splits outcome.splits)
  then obtain e where k: "estimator_sound e"
    "k = \<lparr>dk_config = c, dk_nominal_ratio = f64_div (f64_of_nat (unat (dk_output_rate c))) (f64_of_nat (unat (dk_input_rate c))),
       dk_current_correction_ppm = 0, dk_feedforward_correction_ppm = 0, dk_integral_ppm = 0,
       dk_minimum_ratio = f64_div (f64_of_nat (unat (dk_output_rate c))) (f64_of_nat (unat (dk_input_rate c))),
       dk_maximum_ratio = f64_div (f64_of_nat (unat (dk_output_rate c))) (f64_of_nat (unat (dk_input_rate c))),
       dk_saturation_count = 0, dk_consecutive_saturation = 0, dk_estimator = e\<rparr>" by blast
  obtain M S P I where v: "real64 (dk_maximum_correction_ppm c) M" "real64 (dk_maximum_step_ppm c) S"
    "real64 (dk_proportional_gain_ppm c) P" "real64 (dk_integral_gain_ppm_per_second c) I"
    using g finite_real64 by metis
  have M: "M \<le> 500000" using real64_le [OF v(1) double_constants(4)] assms(2) by simp
  have S: "0 < S" using real64_le [OF v(2) double_constants(1)] g(10) by simp
  have P: "bounded64 (2 ^ 62) (dk_proportional_gain_ppm c)"
    using v(3) real64_le [OF v(3) double_constants(5)] assms(4) real64_le [OF v(3) double_constants(1)]
      real64_le [OF double_constants(1) v(3)] g(6) by (auto simp: bounded64_def f64_less_def)
  have I: "bounded64 (2 ^ 62) (dk_integral_gain_ppm_per_second c)"
    using v(4) real64_le [OF v(4) double_constants(5)] assms(5) real64_le [OF v(4) double_constants(1)]
      real64_le [OF double_constants(1) v(4)] g(8) by (auto simp: bounded64_def f64_less_def)
  have two: "2 * S \<le> M" by (rule double_exact [OF v(2) S v(1) M assms(3)])
  have "tame_config M c" using g(1-3) v(1,2) M S two P I by (auto simp: tame_config_def)
  moreover have "0 \<le> M" using S two by simp
  ultimately have "controller_sound M k"
    using k zero_bounded real64_number [OF double_constants(1)] by (simp add: controller_sound_def)
  then show ?thesis using that v(1) k(2) by simp
qed

text \<open>
  C24: A ratio controller with sensible limits stays in range.  When the configured range is at
  most 500,000 ppm, the step at most half the range and the gains at most \<open>2^62\<close> (the defaults
  are 500, 2, 500 and 0.2), then whatever calls the controller receives - frame counts,
  discontinuities, feed-forward values, resets and fills - every ratio it reports is a finite
  positive number and every correction is within the configured range.  The constructor does not
  check these limits; \<open>unlimited_range_negates_ratio\<close> shows that they are needed.
\<close>

theorem drift_correction_bounded:
  assumes "controller_new c = Ok k"
    and "f64_le (dk_maximum_correction_ppm c) 0x411E848000000000"
    and "f64_le (f64_add (dk_maximum_step_ppm c) (dk_maximum_step_ppm c)) (dk_maximum_correction_ppm c)"
    and "f64_le (dk_proportional_gain_ppm c) 0x43D0000000000000"
    and "f64_le (dk_integral_gain_ppm_per_second c) 0x43D0000000000000"
    and "controller_update fill trend elapsed (fold controller_step calls k) = (Ok report, k')"
  shows "f64_is_finite (dr_ratio report) \<and> f64_less 0 (dr_ratio report)
    \<and> f64_le (f64_neg (dk_maximum_correction_ppm c)) (dr_correction_ppm report)
    \<and> f64_le (dr_correction_ppm report) (dk_maximum_correction_ppm c)"
proof -
  obtain M where M: "controller_sound M k" "real64 (dk_maximum_correction_ppm c) M" by (rule controller_new_sound [OF assms(1-5)])
  from update_kept(2) [OF run_kept [OF M(1)] assms(6)] obtain r v where
    r: "real64 (dr_correction_ppm report) r" "\<bar>r\<bar> \<le> M" "real64 (dr_ratio report) v" "0 < v" by (auto simp: bounded64_def)
  show ?thesis
    using r real64_finite [OF r(3)] real64_le [OF double_constants(1) r(3)] real64_le [OF r(3) double_constants(1)]
      real64_le [OF real64_neg [OF M(2)] r(1)] real64_le [OF r(1) M(2)] by (auto simp: f64_less_def)
qed

definition default_controller :: drift_controller where
  "default_controller =
     (let nominal = f64_div (f64_of_nat 48000) (f64_of_nat 48000) in
      \<lparr>dk_config = controller_config_default, dk_nominal_ratio = nominal, dk_current_correction_ppm = 0,
       dk_feedforward_correction_ppm = 0, dk_integral_ppm = 0, dk_minimum_ratio = nominal,
       dk_maximum_ratio = nominal, dk_saturation_count = 0, dk_consecutive_saturation = 0,
       dk_estimator = \<lparr>pe_config = \<lparr>pe_input_rate = 48000, pe_output_rate = 48000, pe_window_output_frames = 480000,
         pe_trusted_windows = 3, pe_maximum_abs_ppm = 0x409F400000000000\<rparr>, pe_input_frames = 0, pe_output_frames = 0,
         pe_history = [0, 0, 0], pe_history_len = 0, pe_history_cursor = 0\<rparr>\<rparr>)"

lemma default_constants:
  "f64_is_finite 0x407F400000000000" "\<not> f64_le 0x407F400000000000 0" "\<not> f64_less 0x407F400000000000 0"
  "f64_is_finite 0x3FC999999999999A" "\<not> f64_less 0x3FC999999999999A 0"
  "f64_is_finite 0x4000000000000000" "\<not> f64_le 0x4000000000000000 0"
  "f64_is_finite 0x409F400000000000" "\<not> f64_le 0x409F400000000000 0"
  "f64_le 0x407F400000000000 0x411E848000000000" "f64_le 0x407F400000000000 0x43D0000000000000"
  "f64_le 0x3FC999999999999A 0x43D0000000000000" "f64_le (f64_add 0x4000000000000000 0x4000000000000000) 0x407F400000000000"
  by (simp_all add: float_defs f64_is_finite_def take_bit_eq_mod drop_bit_eq_div)

lemma default_new: "controller_new controller_config_default = Ok default_controller"
proof -
  have "checked_mul (ucast (48000 :: u32)) CLOCK_ESTIMATOR_WINDOW_SECONDS = Some (480000 :: u64)"
    by (simp add: checked_mul_def CLOCK_ESTIMATOR_WINDOW_SECONDS_def)
  then show ?thesis
    by (simp add: controller_new_def controller_config_default_def default_controller_def estimator_new_def
        default_constants MEDIAN_WINDOW_COUNT_def Let_def)
qed

lemma default_update: "\<exists>report k'. controller_update 1030 0 480 default_controller = (Ok report, k')"
proof -
  have "dk_fatal_saturation_updates (dk_config default_controller) = 1500" "dk_consecutive_saturation default_controller = 0"
    by (simp_all add: default_controller_def controller_config_default_def Let_def)
  moreover have "\<not> (1500 :: u64) \<le> 1" by (simp add: word_le_nat_alt)
  ultimately show ?thesis by (simp add: controller_update_def saturating_add_def checked_add_def Let_def)
qed

lemma drift_correction_bounded_witness:
  "\<exists>report k'. controller_update 1030 0 480 default_controller = (Ok report, k')
     \<and> f64_is_finite (dr_ratio report) \<and> f64_less 0 (dr_ratio report)"
proof -
  obtain report k' where u: "controller_update 1030 0 480 default_controller = (Ok report, k')" using default_update by blast
  have "f64_is_finite (dr_ratio report) \<and> f64_less 0 (dr_ratio report)"
    using drift_correction_bounded [OF default_new _ _ _ _, of 1030 0 480 "[]" report k'] u
    by (simp add: controller_config_default_def default_constants)
  then show ?thesis using u by blast
qed

text \<open>
  A validated configuration with a range of two million ppm: one update at twice the target fill
  reports a negative ratio.
\<close>

definition wide_config :: drift_controller_config where
  "wide_config = \<lparr>dk_input_rate = 48000, dk_output_rate = 48000, dk_target_fill_frames = 1024,
     dk_maximum_correction_ppm = 0x413E848000000000, dk_proportional_gain_ppm = 0x413E848000000000,
     dk_integral_gain_ppm_per_second = 0, dk_maximum_step_ppm = 0x413E848000000000,
     dk_fatal_saturation_updates = 1500\<rparr>"

lemma exact_result:
  assumes "x = f64_of (ExRat s a b)" "0 < b" "rat_real s a b = v" "real64 c v" shows "real64 x v"
proof -
  have "v \<le> rat_real s a b" "rat_real s a b \<le> v" using assms(3) by simp_all
  from rounded64 [OF assms(4,4,2) this] show ?thesis unfolding assms(1) by (metis order_antisym)
qed

lemma exact_arithmetic:
  assumes "real64 x r" "real64 y t"
  shows "real64 c (r + t) \<Longrightarrow> real64 (f64_add x y) (r + t)" "real64 c (r - t) \<Longrightarrow> real64 (f64_sub x y) (r - t)"
    "real64 c (r * t) \<Longrightarrow> real64 (f64_mul x y) (r * t)" "t \<noteq> 0 \<Longrightarrow> real64 c (r / t) \<Longrightarrow> real64 (f64_div x y) (r / t)"
  using f64_add_real [OF assms] f64_sub_real [OF assms] f64_mul_real [OF assms] f64_div_real [OF assms] exact_result
  by metis+

lemma wide_constants: "real64 0x413E848000000000 2000000" "real64 (f64_neg 0x3FF0000000000000) (- 1)"
  "real64 (f64_neg 0x4000000000000000) (- 2)"
  using integral_real64 [of "0x413E848000000000" 2000000] real64_neg [OF double_constants(2)]
    real64_neg [OF integral_real64 [of "0x4000000000000000" 2]]
  by (simp_all add: integral_f64_def float_defs)

lemma wide_limits:
  "f64_is_finite 0x413E848000000000" "\<not> f64_le 0x413E848000000000 0" "\<not> f64_less 0x413E848000000000 0"
  "f64_is_finite 0" "\<not> f64_less 0 0"
  using real64_finite [OF wide_constants(1)] real64_le [OF wide_constants(1) double_constants(1)]
    real64_finite [OF double_constants(1)] real64_le [OF double_constants(1) wide_constants(1)]
  by (simp_all add: f64_less_def)

lemma wide_ratio:
  assumes k: "dk_config k = wide_config" "dk_nominal_ratio k = f64_div (f64_of_nat 48000) (f64_of_nat 48000)"
    "dk_current_correction_ppm k = 0" "dk_feedforward_correction_ppm k = 0" "dk_integral_ppm k = 0"
  shows "real64 (correction_ratio (correction_step (constrained_correction 2048 48000 k) k) k) (- 1)"
proof -
  note c = double_constants wide_constants
  have rate: "real64 (f64_of_nat 48000) 48000" and fill: "real64 (f64_of_nat 1024) 1024" "real64 (f64_of_int 1024) 1024"
    using real64_of_nat [of 48000] real64_of_nat [of 1024] by (simp_all add: f64_of_int_def f64_of_nat_def)
  have one: "real64 (f64_div (f64_of_nat 48000) (f64_of_nat 48000)) 1"
    using exact_arithmetic(4) [OF rate rate, of "0x3FF0000000000000"] c(2) by simp
  have error: "real64 (normalized_error 2048 wide_config) 1"
    using exact_arithmetic(4) [OF fill(2,1), of "0x3FF0000000000000"] c(2)
    by (simp add: normalized_error_def fill_error_def wide_config_def)
  have none: "real64 (f64_mul (normalized_error 2048 wide_config) 0) 0"
    using exact_arithmetic(3) [OF error c(1), of 0] c(1) by simp
  have product: "real64 (f64_mul (f64_mul (normalized_error 2048 wide_config) 0) (f64_div (f64_of_nat 48000) (f64_of_nat 48000))) 0"
    using exact_arithmetic(3) [OF none one, of 0] c(1) by simp
  have candidate: "real64 (integral_candidate 2048 48000 k) 0"
    using exact_arithmetic(1) [OF c(1) product, of 0] c(1) by (simp add: integral_candidate_def k wide_config_def [symmetric])
      (simp add: wide_config_def)
  have proportional: "real64 (f64_mul (normalized_error 2048 wide_config) 0x413E848000000000) 2000000"
    using exact_arithmetic(3) [OF error wide_constants(1), of "0x413E848000000000"] wide_constants(1) by simp
  note low = real64_neg [OF wide_constants(1)]
  have first: "real64 (f64_sub 0 (f64_mul (normalized_error 2048 wide_config) 0x413E848000000000)) (- 2000000)"
    using exact_arithmetic(2) [OF c(1) proportional] low by simp
  have wanted: "real64 (unconstrained_correction 2048 48000 k) (- 2000000)"
    using exact_arithmetic(2) [OF first candidate] low by (simp add: unconstrained_correction_def k Let_def) (simp add: wide_config_def)
  have limits: "dk_maximum_correction_ppm wide_config = 0x413E848000000000" "dk_maximum_step_ppm wide_config = 0x413E848000000000"
    by (simp_all add: wide_config_def)
  have clamped: "real64 (f64_clamp x (f64_neg 0x413E848000000000) 0x413E848000000000) (- 2000000)" if "real64 x (- 2000000)" for x
    using clamp_real64 [OF that low wide_constants(1)] by simp
  have correction: "real64 (constrained_correction 2048 48000 k) (- 2000000)"
    using clamped [OF wanted] by (simp add: constrained_correction_def k(1) limits)
  have step: "real64 (correction_step (constrained_correction 2048 48000 k) k) (- 2000000)"
    using exact_arithmetic(1) [OF c(1) clamped] exact_arithmetic(2) [OF correction c(1)] low
    by (simp add: correction_step_def k limits)
  have scaled: "real64 (f64_div (correction_step (constrained_correction 2048 48000 k) k) 0x412E848000000000) (- 2)"
    using exact_arithmetic(4) [OF step double_constants(3)] wide_constants(3) by simp
  have factor: "real64 (f64_add 0x3FF0000000000000 (f64_div (correction_step (constrained_correction 2048 48000 k) k) 0x412E848000000000)) (- 1)"
    using exact_arithmetic(1) [OF double_constants(2) scaled] wide_constants(2) by simp
  show ?thesis
    using exact_arithmetic(3) [OF one factor] wide_constants(2) by (simp add: correction_ratio_def k(2))
qed

lemma unlimited_range_negates_ratio:
  "\<exists>k report k'. controller_new wide_config = Ok k \<and> controller_update 2048 0 48000 k = (Ok report, k')
     \<and> f64_less (dr_ratio report) 0"
proof -
  have window: "checked_mul (ucast (48000 :: u32)) CLOCK_ESTIMATOR_WINDOW_SECONDS = Some (480000 :: u64)"
    by (simp add: checked_mul_def CLOCK_ESTIMATOR_WINDOW_SECONDS_def)
  obtain k where new: "controller_new wide_config = Ok k" and k: "dk_config k = wide_config"
    "dk_nominal_ratio k = f64_div (f64_of_nat 48000) (f64_of_nat 48000)" "dk_current_correction_ppm k = 0"
    "dk_feedforward_correction_ppm k = 0" "dk_integral_ppm k = 0" "dk_consecutive_saturation k = 0"
    using window
    by (simp add: controller_new_def wide_config_def estimator_new_def default_constants wide_limits MEDIAN_WINDOW_COUNT_def Let_def)
  have limits: "dk_fatal_saturation_updates wide_config = 1500" by (simp add: wide_config_def)
  note ratio = wide_ratio [OF k(1-5)]
  have small: "\<not> (1500 :: u64) \<le> 1" "\<not> (1500 :: u64) \<le> 0" by (simp_all add: word_le_nat_alt)
  obtain r k' where u: "controller_update 2048 0 48000 k = (r, k')" by fastforce
  have "\<exists>report. r = Ok report \<and> dr_ratio report = correction_ratio (correction_step (constrained_correction 2048 48000 k) k) k"
    using u small by (auto simp: controller_update_def Let_def k(1,6) limits correction_frame saturating_add_def checked_add_def split: if_splits)
  then show ?thesis using new u real64_le [OF ratio double_constants(1)] real64_le [OF double_constants(1) ratio]
    by (auto simp: f64_less_def)
qed

section \<open>Clock estimates\<close>

text \<open>
  The clock error over \<open>inp\<close> input and \<open>outp\<close> output frames, and the windows told from the
  observations alone: the frames since the last window, and the errors of all windows accepted
  since the last discontinuity or rejected window.
\<close>

definition measured_ppm :: "ppm_estimator_config \<Rightarrow> nat \<Rightarrow> nat \<Rightarrow> f64" where
  "measured_ppm c inp outp =
     f64_mul (f64_sub (f64_div (f64_of_nat inp)
       (f64_div (f64_mul (f64_of_nat outp) (f64_of_nat (unat (pe_input_rate c)))) (f64_of_nat (unat (pe_output_rate c)))))
       0x3FF0000000000000) 0x412E848000000000"

definition clean_window :: "ppm_estimator_config \<Rightarrow> f64 \<Rightarrow> bool" where
  "clean_window c ppm \<longleftrightarrow> f64_is_finite ppm \<and> \<not> f64_less (pe_maximum_abs_ppm c) (f64_abs ppm)"

type_synonym clock_observation = "u64 \<times> u64 \<times> bool"

fun clock_step :: "ppm_estimator_config \<Rightarrow> clock_observation \<Rightarrow> nat \<times> nat \<times> f64 list \<Rightarrow> nat \<times> nat \<times> f64 list" where
  "clock_step c (i, out, d) (inp, outp, ws) =
     (if d then (0, 0, [])
      else if i = 0 \<or> out = 0 \<or> 2 ^ 64 \<le> inp + unat i then (inp, outp, ws)
      else if 2 ^ 64 \<le> outp + unat out then (inp + unat i, outp, ws)
      else if outp + unat out < unat (pe_window_output_frames c) then (inp + unat i, outp + unat out, ws)
      else let ppm = measured_ppm c (inp + unat i) (outp + unat out) in
           if clean_window c ppm then (0, 0, ws @ [ppm]) else (0, 0, []))"

fun observing :: "clock_observation \<Rightarrow> ppm_estimator \<Rightarrow> ppm_estimator" where
  "observing (i, out, d) e = snd (estimator_observe i out d e)"

text \<open>The estimator holds the frames and, at their places modulo three, the last windows.\<close>

definition windows_held :: "ppm_estimator_config \<Rightarrow> ppm_estimator \<Rightarrow> nat \<times> nat \<times> f64 list \<Rightarrow> bool" where
  "windows_held c e = (\<lambda>(inp, outp, ws). pe_config e = c \<and> length (pe_history e) = 3
     \<and> unat (pe_input_frames e) = inp \<and> unat (pe_output_frames e) = outp
     \<and> unat (pe_history_len e) = min 3 (length ws) \<and> unat (pe_history_cursor e) = length ws mod 3
     \<and> (\<forall>w\<in>set ws. clean_window c w)
     \<and> (\<forall>j<length ws. length ws \<le> j + 3 \<longrightarrow> pe_history e ! (j mod 3) = ws ! j))"

lemma windows_cleared:
  "pe_config e = c \<Longrightarrow> windows_held c (clear_history e) (unat (pe_input_frames e), unat (pe_output_frames e), [])"
  by (simp add: windows_held_def clear_history_def)

lemma windows_recorded:
  assumes h: "windows_held c e (inp, outp, ws)" and p: "clean_window c ppm"
  shows "windows_held c (record_window ppm e) (inp, outp, ws @ [ppm])"
proof -
  let ?n = "length ws"
  have l: "length (pe_history e) = 3" "unat (pe_history_len e) = min 3 ?n" "unat (pe_history_cursor e) = ?n mod 3"
    using h by (simp_all add: windows_held_def)
  have cur: "unat ((pe_history_cursor e + 1) mod MEDIAN_WINDOW_COUNT) = Suc ?n mod 3"
  proof -
    have "?n mod 3 < 3" by simp
    then have "unat (pe_history_cursor e + 1) = ?n mod 3 + 1"
      using unat_add_no_overflow [of "pe_history_cursor e" 1] l(3) by simp
    then show ?thesis by (simp add: unat_mod MEDIAN_WINDOW_COUNT_def mod_Suc_eq)
  qed
  have len: "unat (min (saturating_add (pe_history_len e) 1) MEDIAN_WINDOW_COUNT) = min 3 (Suc ?n)"
  proof -
    have "unat (pe_history_len e) + unat (1 :: u8) < 2 ^ 8" using l(2) by simp
    then have "unat (saturating_add (pe_history_len e) 1) = unat (pe_history_len e) + 1"
      using unat_add_no_overflow [of "pe_history_len e" 1] by (simp add: saturating_add_def checked_add_def)
    then show ?thesis using l(2) by (auto simp: MEDIAN_WINDOW_COUNT_def min_def word_le_nat_alt)
  qed
  have hist: "(pe_history e)[?n mod 3 := ppm] ! (j mod 3) = (ws @ [ppm]) ! j" if "j < Suc ?n" "Suc ?n \<le> j + 3" for j
  proof (cases "j = ?n")
    case True
    have "?n mod 3 < 3" by simp
    then show ?thesis using l(1) True by (simp add: nth_append)
  next
    case False
    then have j: "j < ?n" "?n \<le> j + 3" "?n - j < 3" "0 < ?n - j" using that by simp_all
    have "?n mod 3 \<noteq> j mod 3"
    proof
      assume "?n mod 3 = j mod 3"
      then have "3 dvd ?n - j" using j(1) by (simp add: mod_eq_dvd_iff_nat)
      then show False using j(3,4) by (auto dest: dvd_imp_le)
    qed
    then show ?thesis using h j by (simp add: windows_held_def nth_append)
  qed
  show ?thesis
    using h p l cur len hist by (auto simp: windows_held_def record_window_def)
qed

lemma window_ppm_measured: "pe_config e = c \<Longrightarrow> window_ppm e = measured_ppm c (unat (pe_input_frames e)) (unat (pe_output_frames e))"
  by (simp add: window_ppm_def measured_ppm_def)

lemma observe_cases:
  assumes h: "windows_held c e (inp, outp, ws)" and s: "estimator_observe i out d e = (r, e')"
  shows "windows_held c e' (clock_step c (i, out, d) (inp, outp, ws))"
    "r = Ok (Some x) \<Longrightarrow> es_ppm x = filtered_ppm e' \<and> es_clean_windows x = pe_history_len e'
       \<and> es_trusted x = (pe_trusted_windows c \<le> pe_history_len e')
       \<and> unat (pe_window_output_frames c) \<le> outp + unat out
       \<and> clock_step c (i, out, d) (inp, outp, ws) = (0, 0, ws @ [measured_ppm c (inp + unat i) (outp + unat out)])"
proof -
  have f: "unat (pe_input_frames e) = inp" "unat (pe_output_frames e) = outp" "pe_config e = c"
    "\<not> length (pe_history e) \<le> unat (pe_history_cursor e)"
    using h by (auto simp: windows_held_def not_le)
  have add: "checked_add a b = (if unat a + unat b < 2 ^ 64 then Some (a + b) else None)" for a b :: u64
    by (simp add: checked_add_def)
  have sum: "unat (a + b) = unat a + unat b" if "unat a + unat b < 2 ^ 64" for a b :: u64
    using that unat_add_no_overflow [of a b] by simp
  have cleared: "windows_held c (clear_history (e\<lparr>pe_input_frames := 0, pe_output_frames := 0\<rparr>)) (0, 0, [])"
    using windows_cleared [of "e\<lparr>pe_input_frames := 0, pe_output_frames := 0\<rparr>" c] f(3) by simp
  have rec: "windows_held c (record_window p (e\<lparr>pe_input_frames := 0, pe_output_frames := 0\<rparr>)) (0, 0, ws @ [p])"
    if "clean_window c p" for p
    by (rule windows_recorded [OF _ that]) (use h in \<open>simp add: windows_held_def\<close>)
  have kept: "windows_held c (e\<lparr>pe_input_frames := a, pe_output_frames := b\<rparr>) (unat a, unat b, ws)"
    "windows_held c (e\<lparr>pe_input_frames := a\<rparr>) (unat a, outp, ws)" for a b
    using h by (simp_all add: windows_held_def)
  consider "d" | "\<not> d" "i = 0 \<or> out = 0 \<or> 2 ^ 64 \<le> inp + unat i"
    | "\<not> d" "i \<noteq> 0" "out \<noteq> 0" "inp + unat i < 2 ^ 64" "2 ^ 64 \<le> outp + unat out"
    | "\<not> d" "i \<noteq> 0" "out \<noteq> 0" "inp + unat i < 2 ^ 64" "outp + unat out < 2 ^ 64" by linarith
  note all = this
  show "windows_held c e' (clock_step c (i, out, d) (inp, outp, ws))"
    using all
  proof cases
    case 1
    then show ?thesis using s cleared by (auto simp: estimator_observe_def estimator_reset_def)
  next
    case 2
    then show ?thesis using s h by (auto simp: estimator_observe_def add f split: if_splits)
  next
    case 3
    then show ?thesis using s kept(2) [of "pe_input_frames e + i"]
      by (auto simp: estimator_observe_def add f sum Let_def)
  next
    case 4
    let ?e = "e\<lparr>pe_input_frames := pe_input_frames e + i, pe_output_frames := pe_output_frames e + out\<rparr>"
    have w: "window_ppm ?e = measured_ppm c (inp + unat i) (outp + unat out)"
      using 4 by (simp add: window_ppm_measured [of ?e c] f sum)
    show ?thesis
      using s 4 kept(1) [where a = "pe_input_frames e + i" and b = "pe_output_frames e + out"] rec cleared f(4)
      by (auto simp: estimator_observe_def add f(1-3) sum w Let_def clean_window_def word_less_nat_alt split: if_splits)
  qed
  show "es_ppm x = filtered_ppm e' \<and> es_clean_windows x = pe_history_len e'
       \<and> es_trusted x = (pe_trusted_windows c \<le> pe_history_len e')
       \<and> unat (pe_window_output_frames c) \<le> outp + unat out
       \<and> clock_step c (i, out, d) (inp, outp, ws) = (0, 0, ws @ [measured_ppm c (inp + unat i) (outp + unat out)])"
    if "r = Ok (Some x)"
    using all
  proof cases
    case 4
    let ?e = "e\<lparr>pe_input_frames := pe_input_frames e + i, pe_output_frames := pe_output_frames e + out\<rparr>"
    have w: "window_ppm ?e = measured_ppm c (inp + unat i) (outp + unat out)"
      using 4 by (simp add: window_ppm_measured [of ?e c] f sum)
    show ?thesis
      using s 4 that f(4)
      by (auto simp: estimator_observe_def add f(1-3) sum w Let_def clean_window_def word_less_nat_alt record_window_def split: if_splits)
  qed (use s that in \<open>auto simp: estimator_observe_def add f Let_def split: if_splits\<close>)
qed

lemma observing_held: "windows_held c e s \<Longrightarrow> windows_held c (fold observing obs e) (fold (clock_step c) obs s)"
proof (induction obs arbitrary: e s)
  case (Cons o1 obs)
  obtain i out d where o1: "o1 = (i, out, d)" by (cases o1)
  obtain inp outp ws where s: "s = (inp, outp, ws)" by (cases s)
  show ?case
    using Cons.IH [OF observe_cases(1) [OF Cons.prems [unfolded s] prod.collapse [symmetric], of i out d]] by (simp add: o1 s)
qed simp

text \<open>A middle element: one of them, with at most one below and at most one above.\<close>

definition middle_of :: "f64 \<Rightarrow> f64 list \<Rightarrow> bool" where
  "middle_of m xs \<longleftrightarrow> m \<in> set xs \<and> length (filter (\<lambda>x. f64_less x m) xs) \<le> 1 \<and> length (filter (f64_less m) xs) \<le> 1"

lemma median3_middle:
  assumes "f64_is_finite a" "f64_is_finite b" "f64_is_finite c"
  shows "middle_of (median3 a b c) [a, b, c]" "middle_of (median3 a b c) [b, c, a]" "middle_of (median3 a b c) [c, a, b]"
proof -
  obtain r s t where r: "real64 a r" "real64 b s" "real64 c t" using assms finite_real64 by metis
  have less: "f64_less x y \<longleftrightarrow> u < v" if "real64 x u" "real64 y v" for x y u v
    using real64_le [OF that] real64_le [OF that(2,1)] by (auto simp: f64_less_def)
  note order = less [OF r(1,1)] less [OF r(1,2)] less [OF r(1,3)] less [OF r(2,1)] less [OF r(2,2)] less [OF r(2,3)]
    less [OF r(3,1)] less [OF r(3,2)] less [OF r(3,3)]
  show "middle_of (median3 a b c) [a, b, c]" "middle_of (median3 a b c) [b, c, a]" "middle_of (median3 a b c) [c, a, b]"
    unfolding middle_of_def median3_def by (auto simp: order)
qed

lemma three_residues: "k mod 3 = 0 \<or> k mod 3 = 1 \<or> k mod (3 :: nat) = 2"
  using mod_less_divisor [of 3 k] by linarith

lemma history_middle:
  assumes h: "windows_held c e (inp, outp, ws)" and n: "3 \<le> length ws"
  shows "middle_of (filtered_ppm e) (drop (length ws - 3) ws)"
proof -
  obtain k where k: "length ws = k + 3" using n by (metis add.commute le_iff_add)
  have l: "length (pe_history e) = 3" "unat (pe_history_len e) = 3" using h k by (simp_all add: windows_held_def)
  have at: "pe_history e ! (j mod 3) = ws ! j" if "k \<le> j" "j < k + 3" for j using h that by (simp add: windows_held_def k)
  have last3: "drop (length ws - 3) ws = [ws ! k, ws ! (k + 1), ws ! (k + 2)]"
    using k by (intro nth_equalityI) (auto simp: nth_Cons' less_Suc_eq numeral_eq_Suc)
  have fin: "f64_is_finite (ws ! j)" if "j < k + 3" for j
    using h that k by (auto simp: windows_held_def clean_window_def)
  have "pe_history_len e \<noteq> 0" "pe_history_len e \<noteq> 1" "pe_history_len e \<noteq> 2" using l(2) by auto
  then have f: "filtered_ppm e = median3 (pe_history e ! 0) (pe_history e ! 1) (pe_history e ! 2)"
    by (simp add: filtered_ppm_def Let_def)
  have succ: "(k + 1) mod 3 = (k mod 3 + 1) mod 3" "(k + 2) mod 3 = (k mod 3 + 2) mod 3"
    by (rule mod_add_left_eq [symmetric])+
  note places = at [of k] at [of "k + 1"] at [of "k + 2"]
  from three_residues [of k] show ?thesis
  proof (elim disjE)
    assume "k mod 3 = 0"
    then have "pe_history e ! 0 = ws ! k" "pe_history e ! 1 = ws ! (k + 1)" "pe_history e ! 2 = ws ! (k + 2)"
      using places succ by (simp_all add: numeral_2_eq_2)
    then show ?thesis unfolding f last3 by (simp only:) (intro median3_middle fin; simp)
  next
    assume "k mod 3 = 1"
    then have "pe_history e ! 1 = ws ! k" "pe_history e ! 2 = ws ! (k + 1)" "pe_history e ! 0 = ws ! (k + 2)"
      using places succ by (simp_all add: numeral_2_eq_2)
    then show ?thesis unfolding f last3 by (simp only:) (intro median3_middle fin; simp)
  next
    assume "k mod 3 = 2"
    then have "pe_history e ! 2 = ws ! k" "pe_history e ! 0 = ws ! (k + 1)" "pe_history e ! 1 = ws ! (k + 2)"
      using places succ by (simp_all add: numeral_2_eq_2)
    then show ?thesis unfolding f last3 by (simp only:) (intro median3_middle fin; simp)
  qed
qed

lemma history_short:
  assumes h: "windows_held c e (inp, outp, ws)"
  shows "ws = [a] \<Longrightarrow> filtered_ppm e = a" "ws = [a, b] \<Longrightarrow> filtered_ppm e = f64_mul (f64_add a b) 0x3FE0000000000000"
proof -
  have "pe_history_len e = of_nat (unat (pe_history_len e))" by simp
  then have l: "pe_history_len e = of_nat (min 3 (length ws))" using h by (simp only: windows_held_def prod.case)
  have at: "pe_history e ! (j mod 3) = ws ! j" if "j < length ws" "length ws \<le> j + 3" for j
    using h that by (simp add: windows_held_def)
  show "filtered_ppm e = a" if "ws = [a]" using at [of 0] l that by (simp add: filtered_ppm_def Let_def)
  show "filtered_ppm e = f64_mul (f64_add a b) 0x3FE0000000000000" if "ws = [a, b]"
    using at [of 0] at [of 1] l that by (simp add: filtered_ppm_def Let_def)
qed

text \<open>
  C25: A clock estimate is the median of measured windows.  Whatever was observed, let the windows be
  the clock errors measured since the last discontinuity or rejected window, told from the frame
  counts alone.  An estimate comes only with a full window; all windows are finite and within the
  configured bound; it is the only window, the mean of two, or else one of the last three with at
  most one of them below and at most one above; it counts these up to three, and it is trusted
  exactly when they are as many as the configuration asks for.
\<close>

theorem clock_estimate_is_median:
  assumes "estimator_new c = Ok e0" and "fold (clock_step c) obs (0, 0, []) = (inp, outp, earlier)"
    and "estimator_observe i out d (fold observing obs e0) = (Ok (Some x), e')"
    and "windows = earlier @ [measured_ppm c (inp + unat i) (outp + unat out)]"
  shows "unat (pe_window_output_frames c) \<le> outp + unat out \<and> list_all (clean_window c) windows
    \<and> (case windows of [a] \<Rightarrow> es_ppm x = a
       | [a, b] \<Rightarrow> es_ppm x = f64_mul (f64_add a b) 0x3FE0000000000000
       | _ \<Rightarrow> middle_of (es_ppm x) (drop (length windows - 3) windows))
    \<and> unat (es_clean_windows x) = min 3 (length windows)
    \<and> es_trusted x = (unat (pe_trusted_windows c) \<le> length windows)"
proof -
  have "windows_held c e0 (0, 0, [])" using assms(1) by (auto simp: estimator_new_def windows_held_def split: if_splits)
  from observing_held [OF this, of obs] have h: "windows_held c (fold observing obs e0) (inp, outp, earlier)" by (simp only: assms(2))
  note step = observe_cases(2) [OF h assms(3) refl]
  then have held: "windows_held c e' (0, 0, windows)" using observe_cases(1) [OF h assms(3)] assms(4) by simp
  have trusted: "unat (pe_trusted_windows c) \<le> 3"
    using assms(1) by (auto simp: estimator_new_def MEDIAN_WINDOW_COUNT_def not_less word_le_nat_alt split: if_splits)
  have "windows \<noteq> []" using assms(4) by simp
  have len: "unat (pe_history_len e') = min 3 (length windows)" and clean: "list_all (clean_window c) windows"
    using held by (auto simp: windows_held_def list_all_iff)
  have eq: "filtered_ppm e' = es_ppm x" using step by simp
  have "case windows of [a] \<Rightarrow> es_ppm x = a
       | [a, b] \<Rightarrow> es_ppm x = f64_mul (f64_add a b) 0x3FE0000000000000
       | _ \<Rightarrow> middle_of (es_ppm x) (drop (length windows - 3) windows)"
    using history_short [OF held, unfolded eq] history_middle [OF held, unfolded eq] \<open>windows \<noteq> []\<close>
    by (auto split: list.split)
  then show ?thesis using step len clean trusted by (simp add: word_le_nat_alt)
qed

text \<open>Equal clocks at unit rate, with windows of one frame.\<close>

abbreviation unit_config :: ppm_estimator_config where
  "unit_config \<equiv> \<lparr>pe_input_rate = 1, pe_output_rate = 1, pe_window_output_frames = 1, pe_trusted_windows = 3,
     pe_maximum_abs_ppm = 0x409F400000000000\<rparr>"

abbreviation unit_estimator :: "u64 \<Rightarrow> u8 \<Rightarrow> u8 \<Rightarrow> ppm_estimator" where
  "unit_estimator frames n cursor \<equiv> \<lparr>pe_config = unit_config, pe_input_frames = frames, pe_output_frames = frames,
     pe_history = [0, 0, 0], pe_history_len = n, pe_history_cursor = cursor\<rparr>"

lemma unit_arithmetic:
  "f64_of_nat 1 = 0x3FF0000000000000"
  "f64_mul 0x3FF0000000000000 0x3FF0000000000000 = 0x3FF0000000000000"
  "f64_div 0x3FF0000000000000 0x3FF0000000000000 = 0x3FF0000000000000"
  "f64_sub 0x3FF0000000000000 0x3FF0000000000000 = 0" "f64_mul 0 0x412E848000000000 = 0"
  "f64_is_finite 0" "\<not> f64_less 0x409F400000000000 (f64_abs 0)"
  by (simp_all add: float_defs f64_is_finite_def take_bit_eq_mod drop_bit_eq_div)

lemma unit_window: "window_ppm (unit_estimator 1 n cursor) = 0"
  by (simp add: window_ppm_def unit_arithmetic unit_arithmetic(1) [unfolded One_nat_def])

lemma unit_observed:
  assumes "(n, cursor) = (0, 0) \<or> (n, cursor) = (1, 1) \<or> (n, cursor) = (2, 2)"
  shows "estimator_observe 1 1 False (unit_estimator 0 n cursor)
    = (Ok (Some \<lparr>es_ppm = filtered_ppm (unit_estimator 0 (n + 1) ((cursor + 1) mod 3)),
                 es_trusted = (3 \<le> n + 1), es_clean_windows = n + 1\<rparr>), unit_estimator 0 (n + 1) ((cursor + 1) mod 3))"
  using assms
  by (elim disjE) (simp_all add: estimator_observe_def checked_add_def saturating_add_def unit_window unit_arithmetic
    record_window_def MEDIAN_WINDOW_COUNT_def Let_def min_def word_le_nat_alt)

lemma unit_new: "estimator_new unit_config = Ok (unit_estimator 0 0 0)"
proof -
  have "\<not> (3 :: u8) < 3" by simp
  then show ?thesis
    by (simp add: estimator_new_def default_constants MEDIAN_WINDOW_COUNT_def)
qed

lemma unit_folded: "fold observing [(1, 1, False), (1, 1, False)] (unit_estimator 0 0 0) = unit_estimator 0 2 2"
  using unit_observed [of 0 0] unit_observed [of 1 1] by simp

lemma unit_windows: "fold (clock_step unit_config) [(1, 1, False), (1, 1, False)] (0, 0, []) = (0, 0, [0, 0])"
  by (simp add: measured_ppm_def clean_window_def unit_arithmetic unit_arithmetic(1) [unfolded One_nat_def])

lemma clock_estimate_is_median_witness:
  "\<exists>x e'. estimator_observe 1 1 False (unit_estimator 0 2 2) = (Ok (Some x), e') \<and> es_trusted x
     \<and> middle_of (es_ppm x) [0, 0, measured_ppm unit_config 1 1]"
proof -
  obtain x e' where o: "estimator_observe 1 1 False (unit_estimator 0 2 2) = (Ok (Some x), e')"
    using unit_observed [of 2 2] by simp
  from clock_estimate_is_median [OF unit_new unit_windows o [folded unit_folded] refl] o show ?thesis by simp
qed

end
