(* ===== verification/Spec2Isabelle.thy ===== *)
theory Spec2Isabelle
  imports Live_Decode Engine_Output Output_Bounds Genavb_Runtime Endpoint Fabric_Delivery Fabric_Transports Handover Sim_Network Plugin_Registry
    Source_Manager Duplex_State Ring_Interleaving Network_Bridge Esp_Aem Esp_Coordinator Duplex_Flow Drift_Bounds
begin

text \<open>
  A verification library of the Aurora audio workspace: the Rust crates under \<open>src/crates\<close> and
  \<open>src/adapters\<close> that turn decoded immersive audio into speaker signals and deliver them to
  detachable speaker modules over a network.

  \<^bold>\<open>The program and its parts.\<close>
  A source plugin delivers packets; a decoder turns them into PCM and objects; a renderer computes
  speaker gains; the mixed 7.1.4 bus crosses from the audio callback to a worker over bounded
  queues; a fabric of speaker modules is planned, routed, fanned out into one stream per module
  and handed over between plans; every module runs a fail-closed endpoint state machine.  Two
  network backends exist: ESP-AVB (with a patched endpoint firmware) and GenAVB.

  \<^bold>\<open>Conventions.\<close>
  Theory \<open>Prelude\<close> fixes them.  A machine integer is a word of its width; \<open>u64\<close>, \<open>usize\<close> and
  so on are words.  A fallible function returns \<open>outcome\<close>: \<open>Ok\<close>, \<open>Err\<close> with the source's
  error, or \<open>Panic\<close>, which stands for every panic of the source (indexing out of range, checked
  arithmetic of a debug build, \<open>unwrap\<close>, a panicking callee).  A method with \<open>&mut self\<close>
  takes its state last and returns it, next to its outcome, also when it fails.  A loop is a
  recursive function over the list it walks, so every loop terminates by construction.  Traits and
  libraries that are not under \<open>src/\<close> (the native shims of GenAVB, \<open>ArrayQueue\<close>, device
  streams, the power function of the mathematics library) are parameters: records of functions or
  functions.  \<open>HashMap\<close> and \<open>BTreeMap\<close> are \<open>Ordered_Map\<close>s, association lists sorted by
  key.  Allocation is assumed to succeed, and lists that stand for slices are shorter than
  \<open>2^64\<close> where a length is converted to \<open>usize\<close>.

  \<^bold>\<open>Theories.\<close>
  \<^item> \<open>Prelude\<close>: outcomes, words, lists, checked and saturating arithmetic
    shared by all theories.
  \<^item> \<open>Ordered_Map\<close>: association lists sorted by key, with the laws of a finite
    map.
  \<^item> \<open>Ieee_Float\<close>: the arithmetic of \<open>f32\<close> and \<open>f64\<close>
    on bit patterns; rounding is proved to be to the nearest.
  \<^item> \<open>Core_Roles\<close>: channel roles, layouts and PCM blocks of
    \<open>aurora-core/src/lib.rs\<close>.
  \<^item> \<open>Core_Scene\<close>: vectors, speakers, listeners and objects of
    \<open>aurora-core/src/lib.rs\<close>, and the renderer trait of
    \<open>aurora-renderer-api/src/lib.rs\<close>.
  \<^item> \<open>Basic_Renderer\<close>: the geometric renderer of
    \<open>aurora-renderer-basic/src/lib.rs\<close>.
  \<^item> \<open>Decoder_Api\<close>: the decoder trait and its panic isolation,
    \<open>aurora-decoder-api/src/lib.rs\<close>.
  \<^item> \<open>Live_Decode\<close>: the live decode, render and mix runtime,
    \<open>aurora-source-runtime/src/live.rs\<close>.
  \<^item> \<open>Dsp_Delay\<close>: the delay trait of \<open>aurora-dsp-api/src/lib.rs\<close>
    and the delay processor of \<open>aurora-dsp-basic/src/lib.rs\<close>.
  \<^item> \<open>Output_Chain\<close>: calibration, crossover, limiter and lip delay of
    \<open>aurora-dsp-basic/src/output.rs\<close>.
  \<^item> \<open>Output_Bounds\<close>: what the chain guarantees: bounds, gains and delays.
  \<^item> \<open>Render_Scene\<close>: scenes, trajectories and speaker order,
    \<open>aurora-scene/src/lib.rs\<close>.
  \<^item> \<open>Pcm_Renderer\<close>: the object PCM trait of
    \<open>aurora-renderer-api/src/pcm.rs\<close> and the libspatialaudio adapter over its native
    shim.
  \<^item> \<open>Engine_Metrics\<close>: durations, callback timing and the staging ring of
    \<open>aurora-realtime-engine/src/lib.rs\<close>.
  \<^item> \<open>Realtime_Engine\<close>: construction and callback of the block engine of the
    same file.
  \<^item> \<open>Float_Order\<close>: rounding is monotonic, and the bounds the engine draws from
    that.
  \<^item> \<open>Float_Unit\<close>: single-precision numbers between zero and one.
  \<^item> \<open>Engine_Safety\<close>: the invariant of the engine: no callback panics.
  \<^item> \<open>Engine_Blocks\<close>: callbacks as runs of blocks, independent of the metrics.
  \<^item> \<open>Engine_Output\<close>: what a callback plays, and how callbacks may be split.
  \<^item> \<open>Float_Grid\<close>: rounding to the grid of a float format, and numbers that are
    on it.
  \<^item> \<open>Float_Double\<close>: double-precision numbers as reals: exact and bounded
    arithmetic.
  \<^item> \<open>Duplex_Bridge\<close>: the elastic bridge between input and output callback,
    \<open>aurora-realtime-engine/src/duplex.rs\<close> and \<open>drift.rs\<close>.
  \<^item> \<open>Duplex_Read\<close>: what one output callback plays and consumes.
  \<^item> \<open>Duplex_Flow\<close>: the bridge under any sequence of callbacks: conservation of
    frames and refinement of a bounded queue.
  \<^item> \<open>Drift_Control\<close>: clock estimator and ratio controller,
    \<open>estimator.rs\<close> and \<open>drift_controller.rs\<close>.
  \<^item> \<open>Drift_Bounds\<close>: bounds of the correction and the ratio, and what a clock
    estimate is.
  \<^item> \<open>Network_Api\<close>: formats, timing, blocks and the transport trait of
    \<open>aurora-realtime-audio-api/src/network.rs\<close>.
  \<^item> \<open>Sim_Network\<close>: the simulated transport,
    \<open>aurora-realtime-audio-sim/src/network.rs\<close>.
  \<^item> \<open>Bounded_Fifo\<close>: the contract of a bounded queue.
  \<^item> \<open>Block_Transport\<close>: ring, block pool and sample queue of
    \<open>aurora-realtime-engine/src/transport.rs\<close>.
  \<^item> \<open>Ring_Interleaving\<close>: the ring split into its shared accesses, under all
    interleavings.
  \<^item> \<open>Network_Bridge\<close>: the bridge from callback to worker,
    \<open>network_bridge.rs\<close>, whole and interleaved.
  \<^item> \<open>Duplex_State\<close>: the lifecycle of the duplex streams,
    \<open>device_state.rs\<close>.
  \<^item> \<open>Fabric_Types\<close>: the data of
    \<open>aurora-modular-speaker-fabric/src/lib.rs\<close>.
  \<^item> \<open>Fabric_Planner\<close>: planner and session of the same file.
  \<^item> \<open>Fabric_Routes\<close>: materialization of network routes.
  \<^item> \<open>Fabric_Fanout\<close>: the PCM fanout.
  \<^item> \<open>Fabric_Delivery\<close>: planner, routes and fanout composed.
  \<^item> \<open>Fabric_Transports\<close>: the set of transports behind the fanout.
  \<^item> \<open>Handover\<close>: handover plans and the endpoint side of a handover.
  \<^item> \<open>Endpoint\<close>: the endpoint state machine, \<open>endpoint.rs\<close>.
  \<^item> \<open>Esp_Control\<close>: the control bridge of
    \<open>aurora-network-esp-avb/src/control.rs\<close>.
  \<^item> \<open>Esp_Aem\<close>: its AVDECC program, \<open>aem_control.rs\<close>, and the
    endpoint firmware patch.
  \<^item> \<open>Esp_Fanout\<close>: the stereo fanout of
    \<open>aurora-network-esp-avb/src/lib.rs\<close>.
  \<^item> \<open>Esp_Coordinator\<close>: the six streams behind it,
    \<open>coordinator.rs\<close>.
  \<^item> \<open>Genavb_Session\<close>: AVDECC control and session gate of the GenAVB backend.
  \<^item> \<open>Genavb_Talker\<close>: one AAF talker of
    \<open>aurora-network-genavb/src/lib.rs\<close>.
  \<^item> \<open>Genavb_Runtime\<close>: the six-stream runtime of
    \<open>aurora-network-genavb-runtime/src/lib.rs\<close>.
  \<^item> \<open>Plugin_Manifest\<close>: plugin manifests,
    \<open>aurora-plugin-api/src/lib.rs\<close>.
  \<^item> \<open>Plugin_Registry\<close>: the registry of
    \<open>aurora-plugin-host/src/lib.rs\<close>.
  \<^item> \<open>Source_Manager\<close>: the source manager,
    \<open>aurora-plugin-api/src/source_manager.rs\<close>.

  \<^bold>\<open>Interfaces.\<close>
  Where one part relies on another, the contract is a locale that is interpreted on the model of
  the provider:
  \<^item> \<open>bounded_fifo\<close> in \<open>Bounded_Fifo\<close>, the queues: ring, pool and
    prototype of \<open>Block_Transport\<close>, the metadata queue of
    \<open>Network_Bridge\<close>.
  \<^item> \<open>network_transport_laws\<close> in \<open>Network_Api\<close>, transports that
    halt when told: the simulated transport of \<open>Sim_Network\<close>.
  \<^item> \<open>ordered_map\<close> in \<open>Ordered_Map\<close>, the laws of the standard
    library's maps: sorted association lists.
  \<^item> \<open>latching_decoder\<close> in \<open>Decoder_Api\<close>, a decoder whose faults
    latch: the panic-isolating wrapper around any decoder.
  \<^item> \<open>sound_renderer\<close> in \<open>Core_Scene\<close>, a renderer that never
    panics and keeps the slice shapes: the basic renderer.
  \<^item> \<open>callback_delay\<close> in \<open>Dsp_Delay\<close>, a delay processor that
    accepts what it promised and never panics: the basic delay processor.
  \<^item> \<open>block_pcm_renderer\<close> in \<open>Pcm_Renderer\<close>, an object PCM
    renderer that keeps the slice shapes: the libspatialaudio adapter.
  \<^item> \<open>drift_compensator_laws\<close> in \<open>Duplex_Flow\<close>, the drift
    compensator trait: the threshold compensator.
  \<^item> \<open>engine_parts\<close> in \<open>Engine_Safety\<close>, the two renderers and the
    delay processor of an engine: the three providers above.

  \<^bold>\<open>What the lemmas show.\<close>
  The fabric theories show that the planner admits exactly what its documentation says, that an
  admitted plan delivers each role's sample to the planned lane, that a handover changes exactly
  the changed modules and never lets two topologies play at once, and that an endpoint is unmuted
  only while it plays an active, valid, scheduled route.  The queue theories show that every
  interleaving delivers what was published, in order and without a data race.  The backend
  theories show, for any native shims, what a failure can leave streaming, that the six streams of
  a started runtime all stream unless a failed close is pending, and, for any transports, that a
  block reaches every stream or all of them are told to stop.  The plugin theories show confinement of manifests, immutability of versions, restoration
  of snapshots and exclusiveness of the active source.  The source theories show that decoder
  panics latch, that output is audible exactly after enough consecutive good packets, and what
  the released speaker samples are.  The engine theories show that no callback of a reachable
  engine panics or leaves anything but silence behind a fault, what a block plays, and that the
  audio does not depend on how the host cuts it into callbacks.  The duplex theories show that no
  callback panics, that frames are conserved without underflow and that the bridge is a bounded
  queue, and which insertion starves it.  The drift theories show that, within stated limits of the
  configuration, a correction never leaves its range and the ratio stays finite and positive, and
  that a clock estimate is the median of the windows measured last.

  \<^bold>\<open>Bounds.\<close>
  No definition uses fuel.  Counters of the queues wrap at \<open>2^64\<close>; the queue theorems hold below
  that count, and lemma \<open>ring_counter_wrap_corrupts\<close> of \<open>Ring_Interleaving\<close> shows what happens
  beyond.  Interleavings are sequentially consistent: each shared access is one step.  Samples are
  bit patterns; where the program computes with them, \<open>Ieee_Float\<close> gives the operations their
  IEEE meaning (binary32 and binary64, round to nearest even, one canonical NaN, as far as the
  program can observe).

  \<^bold>\<open>Not modelled.\<close>
  The panning renderer, binaural filtering and head tracking; native libraries and child processes
  (Cavern, IAMF, CamillaDSP, AoO), of which the sources hold only calls, as of libspatialaudio,
  whose adapter is modelled over a parameter; the trigonometric and exponential functions of the
  mathematics library, which are a parameter; device access through \<open>cpal\<close>; configuration parsing, runtime assembly, inspection,
  diagnostics, measurement, command line tools and simulation campaigns, which are serialization,
  construction and reporting around the parts above.  Of the duplex
  pair, the adaptive consumer over the third-party resampler, latency measurement and the
  simulation of whole streams stay out.  The simulation of the ratio controller is modelled, and
  no property is stated of it.
\<close>

end
